(* ===== verification/Hbc_Prelude.thy ===== *)
theory Hbc_Prelude
  imports Main "HOL-Library.Word"
begin

text \<open>
  Shared base of the development: the machine integer types of the Rust code, its
  result type (\<open>crates/hbc-decomp/src/error.rs\<close>) with the propagation the
  question-mark operator performs, little-endian byte codes of words, slices and
  slice updates with the bounds checks of Rust, and the lemma collections the
  components share.

  Conventions.  A w-bit integer is a w-bit word; a signed one is the same word read
  by \<^const>\<open>sint\<close>.  A \<open>usize\<close> position or length is a natural number: every one
  the code computes is bounded by the length of a slice in memory, and the places
  where the code uses checked or saturating arithmetic write that out against
  \<open>usize_max\<close>.  An \<open>f64\<close> is its IEEE bit pattern: the code only moves it.
  A formatted message is its template and the list of its arguments.
\<close>

unbundle bit_operations_syntax

type_synonym u8 = "8 word"
type_synonym u16 = "16 word"
type_synonym u32 = "32 word"
type_synonym u64 = "64 word"
type_synonym u128 = "128 word"
type_synonym i8 = "8 word"
type_synonym i32 = "32 word"
type_synonym i64 = "64 word"
type_synonym f64_bits = "64 word"
type_synonym rust_string = "nat list"

named_theorems le_simps \<open>little-endian byte codes\<close>
named_theorems rd_simps \<open>evaluation of reader programs\<close>
named_theorems slice_simps \<open>slices and in-place slice updates\<close>

definition usize_max :: nat where
  "usize_max = 2 ^ 64 - 1"

definition saturating_add_usize :: "nat \<Rightarrow> nat \<Rightarrow> nat" where
  "saturating_add_usize a b = min (a + b) usize_max"

definition saturating_mul_usize :: "nat \<Rightarrow> nat \<Rightarrow> nat" where
  "saturating_mul_usize a b = min (a * b) usize_max"

definition checked_add_usize :: "nat \<Rightarrow> nat \<Rightarrow> nat option" where
  "checked_add_usize a b = (if a + b \<le> usize_max then Some (a + b) else None)"

text \<open>The characters of a string literal, as code points.\<close>

definition lit :: "string \<Rightarrow> rust_string" where
  "lit s = map of_char s"

section \<open>Errors and results\<close>

datatype error =
    Io
  | Parse string "farg list"
  | UnsupportedVersion u32
  | MissingFormat u32
  | Write string "farg list"
and farg = FNum int | FText rust_string | FErr error

abbreviation fnat :: "nat \<Rightarrow> farg" where
  "fnat n \<equiv> FNum (int n)"

abbreviation fword :: "'a::len word \<Rightarrow> farg" where
  "fword w \<equiv> FNum (uint w)"

type_synonym 'a result = "error + 'a"

definition res_bind :: "'a result \<Rightarrow> ('a \<Rightarrow> 'b result) \<Rightarrow> 'b result" where
  "res_bind m f = (case m of Inl e \<Rightarrow> Inl e | Inr x \<Rightarrow> f x)"

definition ok_or :: "'a option \<Rightarrow> error \<Rightarrow> 'a result" where
  "ok_or x e = (case x of None \<Rightarrow> Inl e | Some y \<Rightarrow> Inr y)"

definition guard :: "bool \<Rightarrow> error \<Rightarrow> unit result" where
  "guard b e = (if b then Inr () else Inl e)"

primrec res_map :: "('a \<Rightarrow> 'b result) \<Rightarrow> 'a list \<Rightarrow> 'b list result" where
  "res_map f [] = Inr []"
| "res_map f (x # xs) = res_bind (f x) (\<lambda>y. res_bind (res_map f xs) (\<lambda>ys. Inr (y # ys)))"

lemma res_bind_simps [simp]:
  "res_bind (Inr x) f = f x"
  "res_bind (Inl e) f = Inl e"
  by (simp_all add: res_bind_def)

lemma res_bind_Inr_iff:
  "res_bind m f = Inr y \<longleftrightarrow> (\<exists>x. m = Inr x \<and> f x = Inr y)"
  by (cases m) auto

lemma res_bind_cong [fundef_cong]:
  "m = m' \<Longrightarrow> (\<And>x. m' = Inr x \<Longrightarrow> f x = f' x) \<Longrightarrow> res_bind m f = res_bind m' f'"
  by (cases m') (auto simp: res_bind_def)

lemma ok_or_simps [simp]:
  "ok_or (Some x) e = Inr x"
  "ok_or None e = Inl e"
  by (simp_all add: ok_or_def)

lemma ok_or_Inr_iff [simp]: "ok_or x e = Inr y \<longleftrightarrow> x = Some y"
  by (cases x) auto

lemma guard_Inr_iff [simp]: "guard b e = Inr u \<longleftrightarrow> b"
  by (simp add: guard_def)

lemma guard_simps [simp]:
  "guard True e = Inr ()"
  "guard False e = Inl e"
  by (simp_all add: guard_def)

lemma res_map_Inr_length: "res_map f xs = Inr ys \<Longrightarrow> length ys = length xs"
  by (induction xs arbitrary: ys) (auto simp: res_bind_Inr_iff)

lemma res_map_Inr_nth:
  "res_map f xs = Inr ys \<Longrightarrow> i < length xs \<Longrightarrow> f (xs ! i) = Inr (ys ! i)"
  by (induction xs arbitrary: ys i) (auto simp: res_bind_Inr_iff nth_Cons split: nat.splits)

lemma res_map_all_Inr: "(\<And>x. x \<in> set xs \<Longrightarrow> f x = Inr (g x)) \<Longrightarrow> res_map f xs = Inr (map g xs)"
  by (induction xs) auto

lemma res_map_Inl_iff: "(\<exists>e. res_map f xs = Inl e) \<longleftrightarrow> (\<exists>x \<in> set xs. \<exists>e. f x = Inl e)"
proof (induction xs)
  case Nil
  then show ?case by simp
next
  case (Cons x xs)
  then show ?case by (cases "f x"; cases "res_map f xs") auto
qed

section \<open>Little-endian byte codes\<close>

definition le_bytes :: "nat \<Rightarrow> 'a::len word \<Rightarrow> u8 list" where
  "le_bytes n w = map (\<lambda>i. ucast (drop_bit (8 * i) w)) [0..<n]"

primrec from_le :: "u8 list \<Rightarrow> 'a::len word" where
  "from_le [] = 0"
| "from_le (b # bs) = ucast b OR push_bit 8 (from_le bs)"

lemma length_le_bytes [simp, le_simps]: "length (le_bytes n w) = n"
  by (simp add: le_bytes_def)

lemma bit_byte_less: "bit (b :: u8) n \<Longrightarrow> n < 8"
  using bit_imp_le_length[of b n] by simp

lemma bit_from_le:
  "bit (from_le bs :: 'a::len word) i \<longleftrightarrow>
     i < LENGTH('a) \<and> i < 8 * length bs \<and> bit (bs ! (i div 8)) (i mod 8)"
proof (induction bs arbitrary: i)
  case Nil
  then show ?case by simp
next
  case (Cons b bs)
  show ?case
  proof (cases "i < 8")
    case True
    then show ?thesis by (auto simp: bit_simps)
  next
    case False
    then obtain j where i: "i = j + 8" by (metis add.commute le_Suc_ex not_less)
    have "\<not> bit b (j + 8)" using bit_byte_less by fastforce
    moreover have "(j + 8) div 8 = Suc (j div 8)" by simp
    ultimately show ?thesis by (auto simp: i bit_simps Cons.IH)
  qed
qed

lemma from_le_le_bytes [le_simps]:
  "from_le (le_bytes n (w :: 'a::len word)) = (take_bit (8 * n) w :: 'a word)"
proof (rule bit_word_eqI)
  fix i assume "i < LENGTH('a)"
  then show "bit (from_le (le_bytes n w) :: 'a word) i = bit (take_bit (8 * n) w) i"
    by (cases "i div 8 < n") (auto simp: bit_from_le le_bytes_def bit_simps)
qed

lemma take_bit_full [simp]: "LENGTH('a) \<le> n \<Longrightarrow> take_bit n (w :: 'a::len word) = w"
  by (simp add: take_bit_word_eq_self)

lemma le_bytes_from_le [le_simps]:
  assumes "length bs = n" and "8 * n \<le> LENGTH('a)"
  shows "le_bytes n (from_le bs :: 'a::len word) = bs"
proof (rule nth_equalityI)
  show "length (le_bytes n (from_le bs :: 'a word)) = length bs" using assms by simp
next
  fix i assume i: "i < length (le_bytes n (from_le bs :: 'a word))"
  show "le_bytes n (from_le bs :: 'a word) ! i = bs ! i"
  proof (rule bit_word_eqI)
    fix j assume j: "j < LENGTH(8)"
    have "8 * i + j < 8 * n" using i j by simp
    then show "bit (le_bytes n (from_le bs :: 'a word) ! i) j = bit (bs ! i) j"
      using i j assms by (auto simp: le_bytes_def bit_simps bit_from_le)
  qed
qed

section \<open>Single-bit flags\<close>

lemma flag_bit_iff:
  "w AND push_bit n 1 = 0 \<longleftrightarrow> \<not> bit (w :: 'a::len word) n"
  using bit_iff_and_push_bit_not_eq_0[of w n] by simp

lemma flag_bits_u8:
  fixes b :: u8
  shows "b AND 1 = 0 \<longleftrightarrow> \<not> bit b 0" and "b AND 2 = 0 \<longleftrightarrow> \<not> bit b 1" and "b AND 4 = 0 \<longleftrightarrow> \<not> bit b 2"
    and "b AND 8 = 0 \<longleftrightarrow> \<not> bit b 3" and "b AND 0x10 = 0 \<longleftrightarrow> \<not> bit b 4" and "b AND 0x20 = 0 \<longleftrightarrow> \<not> bit b 5"
    and "b AND 0x40 = 0 \<longleftrightarrow> \<not> bit b 6" and "b AND 0x80 = 0 \<longleftrightarrow> \<not> bit b 7"
  using flag_bit_iff[of b 0] flag_bit_iff[of b 1] flag_bit_iff[of b 2] flag_bit_iff[of b 3]
    flag_bit_iff[of b 4] flag_bit_iff[of b 5] flag_bit_iff[of b 6] flag_bit_iff[of b 7]
  by simp_all

lemma u8_eqI:
  fixes a b :: u8
  assumes "bit a 0 = bit b 0" "bit a 1 = bit b 1" "bit a 2 = bit b 2" "bit a 3 = bit b 3"
    and "bit a 4 = bit b 4" "bit a 5 = bit b 5" "bit a 6 = bit b 6" "bit a 7 = bit b 7"
  shows "a = b"
proof (rule bit_word_eqI)
  fix n assume "n < LENGTH(8)"
  then have "n = 0 \<or> n = 1 \<or> n = 2 \<or> n = 3 \<or> n = 4 \<or> n = 5 \<or> n = 6 \<or> n = 7" by auto
  then show "bit a n = bit b n" using assms by (elim disjE) simp_all
qed

lemma take_bit_numeral_u8:
  fixes b :: u8
  shows "b AND 0x7f = take_bit 7 b" and "b AND 0x0f = take_bit 4 b" and "b AND 0x03 = take_bit 2 b"
  by (simp_all add: take_bit_eq_mask mask_eq_exp_minus_1)

lemma take_bit_eq_iff_less: "take_bit n (w :: 'a::len word) = w \<longleftrightarrow> unat w < 2 ^ n"
  by (simp only: word_unat_eq_iff unsigned_take_bit_eq take_bit_nat_eq_self_iff)

lemma unat_of_nat_less: "n < 2 ^ LENGTH('a) \<Longrightarrow> unat (of_nat n :: 'a::len word) = n"
  by (simp add: unat_of_nat take_bit_nat_eq_self)

lemma bit_less_if: "unat (w :: 'a::len word) < 2 ^ n \<Longrightarrow> bit w i \<Longrightarrow> i < n"
  by (metis bit_take_bit_iff take_bit_eq_iff_less)

section \<open>Slices\<close>

text \<open>\<open>data.get(a..b)\<close> and \<open>&data[a..b]\<close>: the range must be ordered and in bounds.\<close>

definition get_range :: "'a list \<Rightarrow> nat \<Rightarrow> nat \<Rightarrow> 'a list option" where
  "get_range xs a b = (if a \<le> b \<and> b \<le> length xs then Some (take (b - a) (drop a xs)) else None)"

text \<open>\<open>buf[a..a+n].copy_from_slice(ys)\<close> with \<open>n\<close> the length of \<open>ys\<close>; the callers
  establish the bounds the code would otherwise panic on.\<close>

definition put_at :: "'a list \<Rightarrow> nat \<Rightarrow> 'a list \<Rightarrow> 'a list" where
  "put_at xs a ys = take a xs @ ys @ drop (a + length ys) xs"

definition get_at :: "nat \<Rightarrow> 'a list \<Rightarrow> nat \<Rightarrow> 'a list" where
  "get_at n xs a = take n (drop a xs)"

lemma length_put_at [simp, slice_simps]:
  "a + length ys \<le> length xs \<Longrightarrow> length (put_at xs a ys) = length xs"
  by (simp add: put_at_def)

lemma length_get_at [simp, slice_simps]:
  "a + n \<le> length xs \<Longrightarrow> length (get_at n xs a) = n"
  by (simp add: get_at_def)

lemma get_put_same [simp, slice_simps]:
  "a + length ys \<le> length xs \<Longrightarrow> n = length ys \<Longrightarrow> get_at n (put_at xs a ys) a = ys"
  by (simp add: get_at_def put_at_def)

lemma nth_put_at:
  "a + length ys \<le> length xs \<Longrightarrow> i < length xs \<Longrightarrow>
   put_at xs a ys ! i = (if a \<le> i \<and> i < a + length ys then ys ! (i - a) else xs ! i)"
  by (auto simp: put_at_def nth_append min_def)

lemma take_put_at:
  "a + length ys \<le> n \<Longrightarrow> n \<le> length xs \<Longrightarrow> take n (put_at xs a ys) = put_at (take n xs) a ys"
  by (rule nth_equalityI) (simp_all add: nth_put_at)

lemma put_at_twice:
  "a + length ys \<le> length xs \<Longrightarrow> length zs = length ys \<Longrightarrow> put_at (put_at xs a zs) a ys = put_at xs a ys"
  by (rule nth_equalityI) (simp_all add: nth_put_at)

lemma get_put_other [slice_simps]:
  assumes "a + length ys \<le> length xs" and "b + n \<le> length xs"
    and "b + n \<le> a \<or> a + length ys \<le> b"
  shows "get_at n (put_at xs a ys) b = get_at n xs b"
proof (rule nth_equalityI)
  show "length (get_at n (put_at xs a ys) b) = length (get_at n xs b)" using assms by simp
next
  fix i assume "i < length (get_at n (put_at xs a ys) b)"
  then have "i < n" using assms by simp
  then show "get_at n (put_at xs a ys) b ! i = get_at n xs b ! i"
    using assms by (auto simp: get_at_def nth_put_at)
qed

lemma put_at_get_at [simp]: "a + n \<le> length xs \<Longrightarrow> put_at xs a (get_at n xs a) = xs"
  by (simp add: put_at_def get_at_def add.commute[of a n])
     (metis append_take_drop_id drop_drop)

text \<open>Chunks copied one after another: \<open>buf[pos..pos+n].copy_from_slice(c); pos += n;\<close>.\<close>

primrec put_seq :: "'a list \<Rightarrow> nat \<Rightarrow> 'a list list \<Rightarrow> 'a list" where
  "put_seq buf a [] = buf"
| "put_seq buf a (c # cs) = put_seq (put_at buf a c) (a + length c) cs"

lemma put_seq_eq:
  "a + length (concat cs) \<le> length buf \<Longrightarrow> put_seq buf a cs = put_at buf a (concat cs)"
proof (induction cs arbitrary: buf a)
  case Nil
  then show ?case by (simp add: put_at_def)
next
  case (Cons c cs)
  then have "put_seq (put_at buf a c) (a + length c) cs =
      put_at (put_at buf a c) (a + length c) (concat cs)" by (intro Cons.IH) simp
  also have "\<dots> = put_at buf a (c @ concat cs)"
    using Cons.prems by (cases c) (auto simp: put_at_def min_def ac_simps)
  finally show ?case by simp
qed

lemma put_at_mid: "\<lbrakk>length pre = a; length old = length ys\<rbrakk> \<Longrightarrow> put_at (pre @ old @ suf) a ys = pre @ ys @ suf"
  by (simp add: put_at_def)

lemma get_at_add: "get_at (n + m) xs a = get_at n xs a @ get_at m xs (a + n)"
  by (simp add: get_at_def take_add) (simp add: add.commute)

lemma split_slice: "a + n \<le> length xs \<Longrightarrow> xs = take a xs @ get_at n xs a @ drop (a + n) xs"
  by (simp add: get_at_def) (metis add.commute append_take_drop_id drop_drop)

lemma put_at_0: "length ys \<le> length xs \<Longrightarrow> put_at xs 0 ys = ys @ drop (length ys) xs"
  by (simp add: put_at_def)

lemma get_range_Some_iff:
  "get_range xs a b = Some ys \<longleftrightarrow> a \<le> b \<and> b \<le> length xs \<and> ys = get_at (b - a) xs a"
  by (auto simp: get_range_def get_at_def)

end
