(* ===== verification/Rust_Strings.thy ===== *)
theory Rust_Strings
  imports Hbc_Prelude
begin

text \<open>
  The string conversions of the Rust standard library that the reader and the writer
  use: a \<open>String\<close> is its list of Unicode scalar values, \<open>as_bytes\<close> is its UTF-8 code,
  \<open>encode_utf16\<close> its UTF-16 code units, and \<open>from_utf8\<close>, \<open>from_utf8_lossy\<close> and
  \<open>from_utf16_lossy\<close> decode, the lossy ones with U+FFFD for every maximal invalid
  part.  The lemmas are the round trips on strings of scalar values.
\<close>

definition is_scalar :: "nat \<Rightarrow> bool" where
  "is_scalar c \<longleftrightarrow> c < 0xD800 \<or> (0xE000 \<le> c \<and> c < 0x110000)"

definition replacement_char :: nat where
  "replacement_char = 0xFFFD"

section \<open>UTF-8\<close>

definition utf8_char :: "nat \<Rightarrow> nat list" where
  "utf8_char c =
     (if c < 0x80 then [c]
      else if c < 0x800 then [0xC0 + c div 64, 0x80 + c mod 64]
      else if c < 0x10000 then [0xE0 + c div 4096, 0x80 + c div 64 mod 64, 0x80 + c mod 64]
      else [0xF0 + c div 262144, 0x80 + c div 4096 mod 64, 0x80 + c div 64 mod 64,
            0x80 + c mod 64])"

definition utf8_bytes :: "rust_string \<Rightarrow> u8 list" where
  "utf8_bytes s = map of_nat (concat (map utf8_char s))"

definition is_cont :: "nat \<Rightarrow> bool" where
  "is_cont b \<longleftrightarrow> 0x80 \<le> b \<and> b < 0xC0"

definition byte_or_0 :: "nat list \<Rightarrow> nat \<Rightarrow> nat" where
  "byte_or_0 bs i = (if i < length bs then bs ! i else 0)"

text \<open>One step of the validating decoder: the character, or \<^const>\<open>None\<close> for an invalid
  part, with the number of bytes it takes.\<close>

definition utf8_next :: "nat \<Rightarrow> nat list \<Rightarrow> nat option \<times> nat" where
  "utf8_next b bs =
     (let c1 = byte_or_0 bs 0; c2 = byte_or_0 bs 1; c3 = byte_or_0 bs 2 in
      if b < 0x80 then (Some b, 1)
      else if 0xC2 \<le> b \<and> b \<le> 0xDF then
        (if is_cont c1 then (Some ((b mod 32) * 64 + c1 mod 64), 2) else (None, 1))
      else if 0xE0 \<le> b \<and> b \<le> 0xEF then
        (if \<not> (is_cont c1 \<and> (b = 0xE0 \<longrightarrow> 0xA0 \<le> c1) \<and> (b = 0xED \<longrightarrow> c1 \<le> 0x9F)) then (None, 1)
         else if \<not> is_cont c2 then (None, 2)
         else (Some ((b mod 16) * 4096 + (c1 mod 64) * 64 + c2 mod 64), 3))
      else if 0xF0 \<le> b \<and> b \<le> 0xF4 then
        (if \<not> (is_cont c1 \<and> (b = 0xF0 \<longrightarrow> 0x90 \<le> c1) \<and> (b = 0xF4 \<longrightarrow> c1 \<le> 0x8F)) then (None, 1)
         else if \<not> is_cont c2 then (None, 2)
         else if \<not> is_cont c3 then (None, 3)
         else (Some ((b mod 8) * 262144 + (c1 mod 64) * 4096 + (c2 mod 64) * 64 + c3 mod 64), 4))
      else (None, 1))"

function utf8_decode :: "nat list \<Rightarrow> nat option list" where
  "utf8_decode [] = []"
| "utf8_decode (b # bs) = (case utf8_next b bs of (c, n) \<Rightarrow> c # utf8_decode (drop (n - 1) bs))"
  by pat_completeness auto
termination
  by (relation "measure length") auto

definition from_utf8_lossy :: "u8 list \<Rightarrow> rust_string" where
  "from_utf8_lossy bs =
     map (\<lambda>c. case c of Some c \<Rightarrow> c | None \<Rightarrow> replacement_char) (utf8_decode (map unat bs))"

definition from_utf8 :: "u8 list \<Rightarrow> rust_string option" where
  "from_utf8 bs =
     (let cs = utf8_decode (map unat bs) in if None \<in> set cs then None else Some (map the cs))"

lemma utf8_char_small: "is_scalar c \<Longrightarrow> b \<in> set (utf8_char c) \<Longrightarrow> b < 256"
  unfolding utf8_char_def is_scalar_def by (auto split: if_splits)

lemma utf8_char_ascii: "c < 0x80 \<Longrightarrow> utf8_char c = [c]"
  by (simp add: utf8_char_def)

lemma utf8_step_1: "c < 0x80 \<Longrightarrow> utf8_decode (c # rest) = Some c # utf8_decode rest"
  by (simp add: utf8_next_def)

lemma base64_digits:
  fixes c :: nat
  shows "c div 64 * 64 + c mod 64 = c"
    and "c div 4096 * 4096 + c div 64 mod 64 * 64 + c mod 64 = c"
    and "c div 262144 * 262144 + c div 4096 mod 64 * 4096 + c div 64 mod 64 * 64 + c mod 64 = c"
proof -
  have 1: "c div 64 * 64 + c mod 64 = c" by (rule div_mult_mod_eq)
  have 2: "c div 4096 * 64 + c div 64 mod 64 = c div 64"
    using div_mult_mod_eq[of "c div 64" 64] by (simp add: div_mult2_eq[symmetric])
  have 3: "c div 262144 * 64 + c div 4096 mod 64 = c div 4096"
    using div_mult_mod_eq[of "c div 4096" 64] by (simp add: div_mult2_eq[symmetric])
  show "c div 64 * 64 + c mod 64 = c" by (fact 1)
  show "c div 4096 * 4096 + c div 64 mod 64 * 64 + c mod 64 = c" using 1 2 by linarith
  show "c div 262144 * 262144 + c div 4096 mod 64 * 4096 + c div 64 mod 64 * 64 + c mod 64 = c"
    using 1 2 3 by linarith
qed

lemma lead_byte_mod:
  "q < 32 \<Longrightarrow> (192 + q) mod 32 = (q::nat)"
  "q < 16 \<Longrightarrow> (224 + q) mod 16 = q"
  "q < 8 \<Longrightarrow> (240 + q) mod 8 = q"
  "q < 64 \<Longrightarrow> (128 + q) mod 64 = q"
  using mod_mult_self4[of 32 6 q] mod_mult_self4[of 16 14 q] mod_mult_self4[of 8 30 q]
    mod_mult_self4[of 64 2 q] by simp_all

lemma utf8_next_2:
  assumes "2 \<le> q" "q < 32" "r < 64"
  shows "utf8_next (192 + q) ((128 + r) # rest) = (Some (q * 64 + r), 2)"
  using assms by (simp add: utf8_next_def byte_or_0_def is_cont_def lead_byte_mod)

lemma utf8_next_3:
  assumes "q < 16" "r < 64" "s < 64" "q = 0 \<longrightarrow> 32 \<le> r" "q = 13 \<longrightarrow> r < 32"
  shows "utf8_next (224 + q) ((128 + r) # (128 + s) # rest) = (Some (q * 4096 + r * 64 + s), 3)"
proof -
  have "\<not> (q = 0 \<and> \<not> 32 \<le> r)" "\<not> (q = 13 \<and> \<not> r \<le> 31)" using assms(4,5) by auto
  then show ?thesis using assms(1-3)
    by (simp add: utf8_next_def byte_or_0_def is_cont_def lead_byte_mod Let_def)
qed

lemma utf8_next_4:
  assumes "p < 5" "q < 64" "r < 64" "s < 64" "p = 0 \<longrightarrow> 16 \<le> q" "p = 4 \<longrightarrow> q < 16"
  shows "utf8_next (240 + p) ((128 + q) # (128 + r) # (128 + s) # rest)
           = (Some (p * 262144 + q * 4096 + r * 64 + s), 4)"
proof -
  have "\<not> (p = 0 \<and> \<not> 16 \<le> q)" "\<not> (p = 4 \<and> \<not> q \<le> 15)" using assms(5,6) by auto
  then show ?thesis using assms(1-4)
    by (simp add: utf8_next_def byte_or_0_def is_cont_def lead_byte_mod Let_def)
qed

lemma utf8_step_2:
  assumes "0x80 \<le> c" "c < 0x800"
  shows "utf8_decode ((192 + c div 64) # (128 + c mod 64) # rest) = Some c # utf8_decode rest"
proof -
  have "2 \<le> c div 64" "c div 64 < 32" using assms by (simp_all add: less_mult_imp_div_less)
  then show ?thesis using base64_digits(1)[of c] by (simp add: utf8_next_2)
qed

lemma utf8_step_3:
  assumes "0x800 \<le> c" "c < 0x10000" "is_scalar c"
  shows "utf8_decode ((224 + c div 4096) # (128 + c div 64 mod 64) # (128 + c mod 64) # rest)
           = Some c # utf8_decode rest"
proof -
  note d = base64_digits(2)[of c]
  have b: "c div 4096 < 16" "c div 64 mod 64 < 64" "c mod 64 < 64"
    using assms(2) by (simp_all add: less_mult_imp_div_less)
  have e0: "c div 4096 = 0 \<longrightarrow> 32 \<le> c div 64 mod 64" using assms(1) b d by arith
  have ed: "c div 4096 = 13 \<longrightarrow> c div 64 mod 64 < 32"
    using assms(3) b d unfolding is_scalar_def by arith
  show ?thesis using d by (simp add: utf8_next_3[OF b e0 ed])
qed

lemma utf8_step_4:
  assumes "0x10000 \<le> c" "c < 0x110000"
  shows "utf8_decode ((240 + c div 262144) # (128 + c div 4096 mod 64) # (128 + c div 64 mod 64)
            # (128 + c mod 64) # rest) = Some c # utf8_decode rest"
proof -
  note d = base64_digits(3)[of c]
  have b: "c div 262144 < 5" "c div 4096 mod 64 < 64" "c div 64 mod 64 < 64" "c mod 64 < 64"
    using assms(2) by (simp_all add: less_mult_imp_div_less)
  have f0: "c div 262144 = 0 \<longrightarrow> 16 \<le> c div 4096 mod 64" using assms(1) b d by linarith
  have f4: "c div 262144 = 4 \<longrightarrow> c div 4096 mod 64 < 16" using assms(2) b d by linarith
  show ?thesis using d by (simp add: utf8_next_4[OF b f0 f4])
qed

lemma utf8_decode_char: "is_scalar c \<Longrightarrow> utf8_decode (utf8_char c @ rest) = Some c # utf8_decode rest"
  using utf8_step_1[of c rest] utf8_step_2[of c rest] utf8_step_3[of c rest] utf8_step_4[of c rest]
  unfolding utf8_char_def is_scalar_def by (auto simp del: utf8_decode.simps)

lemma utf8_decode_concat: "list_all is_scalar s \<Longrightarrow> utf8_decode (concat (map utf8_char s)) = map Some s"
  by (induction s) (simp_all add: utf8_decode_char del: utf8_decode.simps(2))

lemma map_unat_of_nat_utf8:
  "list_all is_scalar s \<Longrightarrow> map unat (utf8_bytes s) = concat (map utf8_char s)"
proof (induction s)
  case Nil
  then show ?case by (simp add: utf8_bytes_def)
next
  case (Cons c s)
  have "map (\<lambda>b. unat (of_nat b :: u8)) (utf8_char c) = utf8_char c"
    using utf8_char_small[of c] Cons.prems
    by (intro map_idI) (auto simp: unat_of_nat take_bit_eq_mod)
  with Cons show ?case by (simp add: utf8_bytes_def comp_def)
qed

lemma from_utf8_lossy_utf8 [simp]: "list_all is_scalar s \<Longrightarrow> from_utf8_lossy (utf8_bytes s) = s"
  by (simp add: from_utf8_lossy_def map_unat_of_nat_utf8 utf8_decode_concat comp_def)

lemma from_utf8_utf8: "list_all is_scalar s \<Longrightarrow> from_utf8 (utf8_bytes s) = Some s"
  by (simp add: from_utf8_def map_unat_of_nat_utf8 utf8_decode_concat comp_def image_iff)

section \<open>UTF-16\<close>

definition utf16_char :: "nat \<Rightarrow> u16 list" where
  "utf16_char c =
     (if c < 0x10000 then [of_nat c]
      else [of_nat (0xD800 + (c - 0x10000) div 1024), of_nat (0xDC00 + (c - 0x10000) mod 1024)])"

definition encode_utf16 :: "rust_string \<Rightarrow> u16 list" where
  "encode_utf16 s = concat (map utf16_char s)"

definition is_surrogate :: "nat \<Rightarrow> bool" where
  "is_surrogate u \<longleftrightarrow> 0xD800 \<le> u \<and> u \<le> 0xDFFF"

fun utf16_decode :: "nat list \<Rightarrow> rust_string" where
  "utf16_decode [] = []"
| "utf16_decode [u] = [if is_surrogate u then replacement_char else u]"
| "utf16_decode (u # v # us) =
     (if \<not> is_surrogate u then u # utf16_decode (v # us)
      else if 0xDC00 \<le> u \<or> \<not> (0xDC00 \<le> v \<and> v \<le> 0xDFFF)
        then replacement_char # utf16_decode (v # us)
      else (u mod 1024 * 1024 + v mod 1024 + 0x10000) # utf16_decode us)"

definition from_utf16_lossy :: "u16 list \<Rightarrow> rust_string" where
  "from_utf16_lossy us = utf16_decode (map unat us)"

lemma utf16_decode_plain: "\<not> is_surrogate u \<Longrightarrow> utf16_decode (u # us) = u # utf16_decode us"
  by (cases us) auto

lemma surrogate_pair:
  assumes "q < 1024" "r < 1024"
  shows "utf16_decode ((0xD800 + q) # (0xDC00 + r) # us) = (q * 1024 + r + 0x10000) # utf16_decode us"
proof -
  have "(0xD800 + q) mod 1024 = q" "(0xDC00 + r) mod 1024 = r"
    using assms mod_mult_self4[of 1024 54 q] mod_mult_self4[of 1024 55 r] by simp_all
  then show ?thesis using assms by (simp add: is_surrogate_def)
qed

lemma utf16_decode_char:
  assumes "is_scalar c"
  shows "utf16_decode (map unat (utf16_char c) @ us) = c # utf16_decode us"
proof (cases "c < 0x10000")
  case True
  then have "unat (of_nat c :: u16) = c" by (simp add: unat_of_nat take_bit_eq_mod)
  moreover have "\<not> is_surrogate c" using assms by (auto simp: is_scalar_def is_surrogate_def)
  ultimately show ?thesis using True by (simp add: utf16_char_def utf16_decode_plain)
next
  case False
  define q r where "q = (c - 0x10000) div 1024" and "r = (c - 0x10000) mod 1024"
  have "q * 1024 + r = c - 0x10000" unfolding q_def r_def by (rule div_mult_mod_eq)
  then have c: "q * 1024 + r + 0x10000 = c" using False by simp
  have b: "q < 1024" "r < 1024" using assms False unfolding q_def r_def is_scalar_def
    by (simp_all add: less_mult_imp_div_less)
  have "unat (of_nat (0xD800 + q) :: u16) = 0xD800 + q" "unat (of_nat (0xDC00 + r) :: u16) = 0xDC00 + r"
    using b by (simp_all only: unat_of_nat take_bit_eq_mod) simp_all
  moreover have "utf16_char c = [of_nat (0xD800 + q), of_nat (0xDC00 + r)]"
    using False by (simp only: utf16_char_def q_def r_def if_False)
  ultimately have e: "map unat (utf16_char c) @ us = (0xD800 + q) # (0xDC00 + r) # us"
    by (simp only: list.map append.simps)
  show ?thesis unfolding e surrogate_pair[OF b] c ..
qed

lemma from_utf16_lossy_encode [simp]:
  "list_all is_scalar s \<Longrightarrow> from_utf16_lossy (encode_utf16 s) = s"
  by (induction s) (simp_all add: from_utf16_lossy_def encode_utf16_def utf16_decode_char)

lemma utf8_bytes_Nil [simp]: "utf8_bytes [] = []"
  by (simp add: utf8_bytes_def)

text \<open>A string of ASCII characters is one byte per character.\<close>

definition is_ascii :: "rust_string \<Rightarrow> bool" where
  "is_ascii s \<longleftrightarrow> list_all (\<lambda>c. c < 0x80) s"

lemma utf8_bytes_ascii: "is_ascii s \<Longrightarrow> utf8_bytes s = map of_nat s"
  by (induction s) (simp_all add: is_ascii_def utf8_bytes_def utf8_char_ascii)

lemma is_ascii_scalar: "is_ascii s \<Longrightarrow> list_all is_scalar s"
  by (auto simp: is_ascii_def list_all_iff is_scalar_def)

lemma utf8_bytes_ascii_iff:
  assumes "list_all is_scalar s"
  shows "(\<forall>b \<in> set (utf8_bytes s). unat b \<le> 0x7f) \<longleftrightarrow> is_ascii s"
proof -
  have "(\<forall>b \<in> set (utf8_char c). b \<le> 0x7f) \<longleftrightarrow> c < 0x80" for c
    by (auto simp: utf8_char_def)
  moreover have "(\<forall>b \<in> set (utf8_bytes s). unat b \<le> 0x7f)
      \<longleftrightarrow> (\<forall>b \<in> set (map unat (utf8_bytes s)). b \<le> 0x7f)" by simp
  moreover have "\<dots> \<longleftrightarrow> (\<forall>c \<in> set s. \<forall>b \<in> set (utf8_char c). b \<le> 0x7f)"
    by (simp only: map_unat_of_nat_utf8[OF assms]) auto
  ultimately show ?thesis by (simp add: is_ascii_def list_all_iff)
qed

end
