(* ===== verification/Byte_Reader.thy ===== *)
theory Byte_Reader
  imports Rust_Strings
begin

text \<open>
  \<open>ByteReader\<close> (\<open>crates/hbc-decomp/src/io.rs\<close>): a bounds-checked little-endian cursor
  over a byte slice.  An operation takes the reader and returns an error or its value
  with the advanced reader; the state of a reader whose read failed is dropped, since
  every caller abandons it.  The interface \<open>codec\<close> states what it means for a read to
  invert a write, and lifts that from one element to a run of elements.
\<close>

record byte_reader =
  data :: "u8 list"
  pos :: nat

type_synonym 'a read_op = "byte_reader \<Rightarrow> ('a \<times> byte_reader) result"

definition rd_bind :: "'a read_op \<Rightarrow> ('a \<Rightarrow> 'b read_op) \<Rightarrow> 'b read_op" where
  "rd_bind m f r = (case m r of Inl e \<Rightarrow> Inl e | Inr (x, r') \<Rightarrow> f x r')"

definition rd_ret :: "'a \<Rightarrow> 'a read_op" where
  "rd_ret x r = Inr (x, r)"

definition rd_fail :: "error \<Rightarrow> 'a read_op" where
  "rd_fail e r = Inl e"

definition rd_map :: "('a \<Rightarrow> 'b) \<Rightarrow> 'a read_op \<Rightarrow> 'b read_op" where
  "rd_map f m = rd_bind m (\<lambda>x. rd_ret (f x))"

definition rd_lift :: "'a result \<Rightarrow> 'a read_op" where
  "rd_lift m r = res_bind m (\<lambda>x. Inr (x, r))"

definition new_reader :: "u8 list \<Rightarrow> byte_reader" where
  "new_reader bs = \<lparr>data = bs, pos = 0\<rparr>"

definition remaining :: "byte_reader \<Rightarrow> nat" where
  "remaining r = length (data r) - pos r"

definition capacity_hint :: "byte_reader \<Rightarrow> nat \<Rightarrow> nat" where
  "capacity_hint r count = min count (remaining r)"

definition seek :: "nat \<Rightarrow> unit read_op" where
  "seek p r =
     (if length (data r) < p
      then Inl (Parse ''seek out of range: {pos} > {}'' [fnat p, fnat (length (data r))])
      else Inr ((), r\<lparr>pos := p\<rparr>))"

definition read_exact :: "nat \<Rightarrow> u8 list read_op" where
  "read_exact len r =
     (case checked_add_usize (pos r) len of
        Some e \<Rightarrow>
          (if e \<le> length (data r)
           then Inr (take (e - pos r) (drop (pos r) (data r)), r\<lparr>pos := e\<rparr>)
           else Inl (Parse ''unexpected end of file: needed {len} bytes at offset {} but only {} remain''
                       [fnat len, fnat (pos r), fnat (remaining r)]))
      | None \<Rightarrow> Inl (Parse ''unexpected end of file: needed {len} bytes at offset {} but only {} remain''
                       [fnat len, fnat (pos r), fnat (remaining r)]))"

definition read_bytes :: "nat \<Rightarrow> u8 list read_op" where
  "read_bytes len = read_exact len"

definition read_u8 :: "u8 read_op" where
  "read_u8 = rd_map (\<lambda>b. b ! 0) (read_exact 1)"

definition read_i8 :: "i8 read_op" where
  "read_i8 = read_u8"

definition read_u16 :: "u16 read_op" where
  "read_u16 = rd_map from_le (read_exact 2)"

definition read_u32 :: "u32 read_op" where
  "read_u32 = rd_map from_le (read_exact 4)"

definition read_u64 :: "u64 read_op" where
  "read_u64 = rd_map from_le (read_exact 8)"

definition read_i32 :: "i32 read_op" where
  "read_i32 = rd_map from_le (read_exact 4)"

definition read_f64 :: "f64_bits read_op" where
  "read_f64 = rd_map from_le (read_exact 8)"

definition align :: "nat \<Rightarrow> unit read_op" where
  "align alignment r =
     (if alignment = 0 then Inl (Parse ''alignment must be > 0'' [])
      else let rem = pos r mod alignment in
           if rem = 0 then Inr ((), r)
           else seek (pos r + (alignment - rem)) r)"

text \<open>The scan of \<open>read_cstring\<close> stops at the first zero byte or at the end of the data.\<close>

definition read_cstring :: "rust_string read_op" where
  "read_cstring r =
     (let bytes = takeWhile (\<lambda>b. b \<noteq> 0) (drop (pos r) (data r)); p = pos r + length bytes in
      if length (data r) \<le> p then Inl (Parse ''unterminated string'' [])
      else Inr (from_utf8_lossy bytes, r\<lparr>pos := p + 1\<rparr>))"

text \<open>\<open>count\<close> reads one after another, collected in order.\<close>

primrec rd_repeat :: "nat \<Rightarrow> 'a read_op \<Rightarrow> 'a list read_op" where
  "rd_repeat 0 m = rd_ret []"
| "rd_repeat (Suc n) m = rd_bind m (\<lambda>x. rd_bind (rd_repeat n m) (\<lambda>xs. rd_ret (x # xs)))"

section \<open>The bytes ahead of a reader\<close>

definition ahead :: "byte_reader \<Rightarrow> u8 list" where
  "ahead r = drop (pos r) (data r)"

definition advance :: "nat \<Rightarrow> byte_reader \<Rightarrow> byte_reader" where
  "advance n r = r\<lparr>pos := pos r + n\<rparr>"

definition in_memory :: "byte_reader \<Rightarrow> bool" where
  "in_memory r \<longleftrightarrow> length (data r) \<le> usize_max"

lemma advance_simps [simp, rd_simps]:
  "data (advance n r) = data r"
  "pos (advance n r) = pos r + n"
  "ahead (advance n r) = drop n (ahead r)"
  "advance m (advance n r) = advance (n + m) r"
  "advance 0 r = r"
  by (simp_all add: advance_def ahead_def add.commute add.assoc)

lemma in_memory_advance [simp]: "in_memory (advance n r) = in_memory r"
  by (simp add: in_memory_def)

lemma in_memory_pos [simp]: "in_memory (r\<lparr>pos := p\<rparr>) = in_memory r"
  by (simp add: in_memory_def)

lemma rd_bind_simps [simp, rd_simps]:
  "rd_bind (rd_ret x) f = f x"
  "rd_bind (rd_fail e) f = rd_fail e"
  by (auto simp: rd_bind_def rd_ret_def rd_fail_def)

lemma rd_bind_Inr: "m r = Inr (x, r') \<Longrightarrow> rd_bind m f r = f x r'"
  by (simp add: rd_bind_def)

lemma rd_bind_Inl: "m r = Inl e \<Longrightarrow> rd_bind m f r = Inl e"
  by (simp add: rd_bind_def)

lemma rd_bind_Inr_iff:
  "rd_bind m f r = Inr (y, r'') \<longleftrightarrow> (\<exists>x r'. m r = Inr (x, r') \<and> f x r' = Inr (y, r''))"
  by (auto simp: rd_bind_def split: sum.splits)

lemma rd_map_Inr_iff: "rd_map f m r = Inr (y, r') \<longleftrightarrow> (\<exists>x. m r = Inr (x, r') \<and> y = f x)"
  by (auto simp: rd_map_def rd_bind_Inr_iff rd_ret_def)

lemma rd_bind_assoc: "rd_bind (rd_bind m f) g = rd_bind m (\<lambda>x. rd_bind (f x) g)"
  by (rule ext) (auto simp: rd_bind_def split: sum.splits)

lemma rd_ret_simp [simp, rd_simps]: "rd_ret x r = Inr (x, r)"
  by (simp add: rd_ret_def)

lemma rd_fail_simp [simp, rd_simps]: "rd_fail e r = Inl e"
  by (simp add: rd_fail_def)

lemma rd_lift_simps [simp, rd_simps]:
  "rd_lift (Inr x) r = Inr (x, r)"
  "rd_lift (Inl e) r = Inl e"
  by (simp_all add: rd_lift_def)

lemma read_exact_eq:
  assumes "in_memory r"
  shows "read_exact len r =
    (if pos r + len \<le> length (data r) then Inr (take len (ahead r), advance len r)
     else Inl (Parse ''unexpected end of file: needed {len} bytes at offset {} but only {} remain''
                 [fnat len, fnat (pos r), fnat (remaining r)]))"
  using assms
  by (auto simp: read_exact_def checked_add_usize_def in_memory_def ahead_def advance_def)

lemma read_exact_ahead:
  assumes "in_memory r" and "ahead r = bs @ rest" and "length bs = len" and "0 < len"
  shows "read_exact len r = Inr (bs, advance len r)"
proof -
  have "length (ahead r) = len + length rest" using assms by simp
  then have "pos r + len \<le> length (data r)" using assms(4) by (simp add: ahead_def)
  then show ?thesis using assms by (simp add: read_exact_eq)
qed

text \<open>A read never moves past the end of the data, nor changes the data.\<close>

definition well_behaved :: "'a read_op \<Rightarrow> bool" where
  "well_behaved m \<longleftrightarrow>
     (\<forall>r x r'. m r = Inr (x, r') \<longrightarrow> pos r \<le> length (data r) \<longrightarrow>
        data r' = data r \<and> pos r \<le> pos r' \<and> pos r' \<le> length (data r))"

lemma well_behaved_ret [intro, simp]: "well_behaved (rd_ret x)"
  by (simp add: well_behaved_def)

lemma well_behaved_fail [intro, simp]: "well_behaved (rd_fail e)"
  by (simp add: well_behaved_def)

lemma well_behaved_lift [intro, simp]: "well_behaved (rd_lift m)"
  by (auto simp: well_behaved_def rd_lift_def res_bind_Inr_iff)

lemma well_behaved_bind [intro]:
  assumes m: "well_behaved m" and f: "\<And>x. well_behaved (f x)"
  shows "well_behaved (rd_bind m f)"
  unfolding well_behaved_def
proof (intro allI impI)
  fix r x r'' assume "rd_bind m f r = Inr (x, r'')" and p: "pos r \<le> length (data r)"
  then obtain y r' where 1: "m r = Inr (y, r')" and 2: "f y r' = Inr (x, r'')"
    by (auto simp: rd_bind_Inr_iff)
  from m 1 p have 3: "data r' = data r \<and> pos r \<le> pos r' \<and> pos r' \<le> length (data r)"
    unfolding well_behaved_def by blast
  then have "pos r' \<le> length (data r')" by simp
  with f[of y] 2 have "data r'' = data r' \<and> pos r' \<le> pos r'' \<and> pos r'' \<le> length (data r')"
    unfolding well_behaved_def by blast
  with 3 show "data r'' = data r \<and> pos r \<le> pos r'' \<and> pos r'' \<le> length (data r)"
    by (metis le_trans)
qed

lemma well_behaved_map [intro]: "well_behaved m \<Longrightarrow> well_behaved (rd_map f m)"
  by (auto simp: rd_map_def)

lemma well_behaved_repeat [intro]: "well_behaved m \<Longrightarrow> well_behaved (rd_repeat n m)"
  by (induction n) auto

lemma well_behaved_read_exact [intro, simp]: "well_behaved (read_exact n)"
  by (auto simp: well_behaved_def read_exact_def checked_add_usize_def split: if_splits)

lemma well_behaved_reads [intro, simp]:
  "well_behaved (read_bytes n)" "well_behaved read_u8" "well_behaved read_i8"
  "well_behaved read_u16" "well_behaved read_u32" "well_behaved read_u64"
  "well_behaved read_i32" "well_behaved read_f64"
  by (auto simp: read_bytes_def read_u8_def read_i8_def read_u16_def read_u32_def read_u64_def
        read_i32_def read_f64_def)

lemma well_behaved_align [intro, simp]: "well_behaved (align n)"
proof -
  have "0 < n \<Longrightarrow> p \<le> p + (n - p mod n)" for p :: nat by (rule le_add1)
  then show ?thesis
    by (auto simp: well_behaved_def align_def seek_def Let_def simp del: add_diff_assoc add_diff_assoc2
        diff_diff_left split: if_splits)
qed

lemma well_behaved_cstring [intro, simp]: "well_behaved read_cstring"
  unfolding well_behaved_def read_cstring_def by (auto simp: Let_def split: if_splits)

text \<open>A reader standing between the bytes it has passed and the bytes ahead of it.\<close>

definition reader_at :: "u8 list \<Rightarrow> u8 list \<Rightarrow> byte_reader" where
  "reader_at pre suf = \<lparr>data = pre @ suf, pos = length pre\<rparr>"

lemma reader_at_simps [simp, rd_simps]:
  "data (reader_at pre suf) = pre @ suf"
  "pos (reader_at pre suf) = length pre"
  "ahead (reader_at pre suf) = suf"
  by (simp_all add: reader_at_def ahead_def)

lemma advance_reader_at: "length a = n \<Longrightarrow> advance n (reader_at pre (a @ suf)) = reader_at (pre @ a) suf"
  by (simp add: reader_at_def advance_def)

lemma in_memory_reader_at [rd_simps]:
  "in_memory (reader_at pre suf) \<longleftrightarrow> length pre + length suf \<le> usize_max"
  by (simp add: in_memory_def)

lemma new_reader_at: "new_reader bs = reader_at [] bs"
  by (simp add: new_reader_def reader_at_def)

lemma reader_at_split: "pos r \<le> length (data r) \<Longrightarrow> r = reader_at (take (pos r) (data r)) (ahead r)"
  by (cases r) (simp add: reader_at_def ahead_def)

lemma seek_at: "p \<le> length d \<Longrightarrow> seek p (reader_at pre suf) = Inr ((), reader_at (take p d) (drop p d))"
  if "pre @ suf = d"
  using that by (auto simp: seek_def reader_at_def)

lemma read_exact_at:
  "\<lbrakk>length a = n; length pre + length (a @ suf) \<le> usize_max\<rbrakk>
   \<Longrightarrow> read_exact n (reader_at pre (a @ suf)) = Inr (a, reader_at (pre @ a) suf)"
  by (simp add: read_exact_eq in_memory_def advance_reader_at)

text \<open>Every operation leaves the bytes alone, also the ones that move backwards.\<close>

definition same_data :: "'a read_op \<Rightarrow> bool" where
  "same_data m \<longleftrightarrow> (\<forall>r x r'. m r = Inr (x, r') \<longrightarrow> data r' = data r)"

lemma same_data_Inr: "same_data m \<Longrightarrow> m r = Inr (x, r') \<Longrightarrow> data r' = data r"
  by (auto simp: same_data_def)

lemma same_data_bind [intro]:
  "same_data m \<Longrightarrow> (\<And>x. same_data (f x)) \<Longrightarrow> same_data (rd_bind m f)"
  unfolding same_data_def by (fastforce simp: rd_bind_Inr_iff)

lemma same_data_basic [intro, simp]:
  "same_data (rd_ret x)" "same_data (rd_fail e)" "same_data (rd_lift v)"
  "same_data (seek p)" "same_data (read_exact n)" "same_data (align n)" "same_data read_cstring"
  by (auto simp: same_data_def rd_lift_def res_bind_Inr_iff seek_def read_exact_def
      checked_add_usize_def align_def read_cstring_def Let_def split: if_splits)

lemma same_data_map [intro]: "same_data m \<Longrightarrow> same_data (rd_map f m)"
  by (auto simp: rd_map_def)

lemma same_data_repeat [intro]: "same_data m \<Longrightarrow> same_data (rd_repeat n m)"
  by (induction n) auto

lemma same_data_reads [intro, simp]:
  "same_data (read_bytes n)" "same_data read_u8" "same_data read_i8" "same_data read_u16"
  "same_data read_u32" "same_data read_u64" "same_data read_i32" "same_data read_f64"
  by (auto simp: read_bytes_def read_u8_def read_i8_def read_u16_def read_u32_def read_u64_def
        read_i32_def read_f64_def)

section \<open>Reads that invert writes\<close>

locale codec =
  fixes put :: "'a \<Rightarrow> u8 list" and get :: "'a read_op" and ok :: "'a \<Rightarrow> bool"
  assumes get_put: "\<lbrakk>ok x; in_memory r; ahead r = put x @ rest\<rbrakk>
    \<Longrightarrow> get r = Inr (x, advance (length (put x)) r)"
begin

lemma get_put_list:
  "\<lbrakk>list_all ok xs; in_memory r; ahead r = concat (map put xs) @ rest\<rbrakk>
   \<Longrightarrow> rd_repeat (length xs) get r = Inr (xs, advance (length (concat (map put xs))) r)"
proof (induction xs arbitrary: r)
  case Nil
  then show ?case by simp
next
  case (Cons x xs)
  let ?r = "advance (length (put x)) r"
  have "get r = Inr (x, ?r)"
    using Cons.prems by (intro get_put[where rest = "concat (map put xs) @ rest"]) auto
  moreover have "rd_repeat (length xs) get ?r = Inr (xs, advance (length (concat (map put xs))) ?r)"
    using Cons.prems by (intro Cons.IH) auto
  ultimately show ?case by (simp add: rd_bind_def)
qed

lemma get_new:
  "\<lbrakk>ok x; length (put x @ rest) \<le> usize_max\<rbrakk>
   \<Longrightarrow> get (new_reader (put x @ rest)) =
         Inr (x, \<lparr>data = put x @ rest, pos = length (put x)\<rparr>)"
  using get_put[of x "new_reader (put x @ rest)" rest]
  by (simp add: new_reader_def in_memory_def ahead_def advance_def)

lemma get_at:
  assumes "ok x" "length pre + length (put x @ rest) \<le> usize_max"
  shows "get (reader_at pre (put x @ rest)) = Inr (x, reader_at (pre @ put x) rest)"
  using get_put[of x "reader_at pre (put x @ rest)" rest] assms
  by (simp add: in_memory_def advance_reader_at)

lemma bind_at:
  "\<lbrakk>ok x; length pre + length (put x @ rest) \<le> usize_max\<rbrakk>
   \<Longrightarrow> rd_bind get f (reader_at pre (put x @ rest)) = f x (reader_at (pre @ put x) rest)"
  by (rule rd_bind_Inr) (rule get_at)

text \<open>Two values with the same bytes are the same value.\<close>

lemma put_inject:
  assumes "ok x" "ok y" "put x = put y" "length (put x) \<le> usize_max"
  shows "x = y"
proof -
  have "get (new_reader (put x)) = Inr (x, \<lparr>data = put x, pos = length (put x)\<rparr>)"
    using get_new[OF assms(1), of "[]"] assms(4) by simp
  moreover have "get (new_reader (put y)) = Inr (y, \<lparr>data = put y, pos = length (put y)\<rparr>)"
    using get_new[OF assms(2), of "[]"] assms(3,4) by simp
  ultimately show ?thesis unfolding assms(3) by simp
qed

end

text \<open>When the bytes of a value are moreover the only bytes it can be read from, a successful
  read says what the bytes were.\<close>

locale exact_codec = codec +
  assumes put_get: "get r = Inr (x, r') \<Longrightarrow>
    ok x \<and> r' = advance (length (put x)) r \<and> take (length (put x)) (ahead r) = put x"
begin

lemma put_get_list:
  "rd_repeat n get r = Inr (xs, r') \<Longrightarrow>
     length xs = n \<and> list_all ok xs \<and> r' = advance (length (concat (map put xs))) r
     \<and> take (length (concat (map put xs))) (ahead r) = concat (map put xs)"
proof (induction n arbitrary: r xs)
  case 0
  then show ?case by simp
next
  case (Suc n)
  then obtain x r1 ys where 1: "get r = Inr (x, r1)" and 2: "rd_repeat n get r1 = Inr (ys, r')"
    and xs: "xs = x # ys" by (auto simp: rd_bind_Inr_iff)
  from put_get[OF 1] Suc.IH[OF 2] show ?case by (simp add: xs take_add)
qed

end

text \<open>Reading a first part and then a second one, whose reader may depend on the first.\<close>

lemma exact_codec_bind:
  assumes a: "exact_codec pa ga oka"
    and b: "\<And>a. oka a \<Longrightarrow> exact_codec (pb a) (gb a) (okb a)"
    and put: "\<And>a b. oka a \<Longrightarrow> okb a b \<Longrightarrow> put (mk a b) = pa a @ pb a b"
    and ok: "\<And>x. ok x \<longleftrightarrow> (\<exists>a b. x = mk a b \<and> oka a \<and> okb a b)"
  shows "exact_codec put (rd_bind ga (\<lambda>a. rd_bind (gb a) (\<lambda>b. rd_ret (mk a b)))) ok"
proof
  fix x r rest
  assume "ok x" and r: "in_memory r" "ahead r = put x @ rest"
  then obtain u v where x: "x = mk u v" and uv: "oka u" "okb u v" using ok by blast
  have "ga r = Inr (u, advance (length (pa u)) r)"
    using uv r by (intro codec.get_put[OF exact_codec.axioms(1)[OF a], where rest = "pb u v @ rest"])
      (simp_all add: x put)
  moreover have "gb u (advance (length (pa u)) r) =
      Inr (v, advance (length (pb u v)) (advance (length (pa u)) r))"
    using uv r by (intro codec.get_put[OF exact_codec.axioms(1)[OF b[OF uv(1)]], where rest = rest])
      (simp_all add: x put)
  ultimately show "rd_bind ga (\<lambda>a. rd_bind (gb a) (\<lambda>b. rd_ret (mk a b))) r = Inr (x, advance (length (put x)) r)"
    using uv by (simp add: rd_bind_def x put)
next
  fix x r r'
  assume "rd_bind ga (\<lambda>a. rd_bind (gb a) (\<lambda>b. rd_ret (mk a b))) r = Inr (x, r')"
  then obtain u r1 v where 1: "ga r = Inr (u, r1)" and 2: "gb u r1 = Inr (v, r')" and x: "x = mk u v"
    by (auto simp: rd_bind_Inr_iff)
  note A = exact_codec.put_get[OF a 1]
  then have B: "okb u v \<and> r' = advance (length (pb u v)) r1 \<and> take (length (pb u v)) (ahead r1) = pb u v"
    using exact_codec.put_get[OF b 2] by blast
  show "ok x \<and> r' = advance (length (put x)) r \<and> take (length (put x)) (ahead r) = put x"
    using A B by (auto simp: x put ok take_add)
qed

lemma read_exact_Inr:
  "read_exact n r = Inr (bs, r') \<Longrightarrow> length bs = n \<and> r' = advance n r \<and> take n (ahead r) = bs"
  by (auto simp: read_exact_def checked_add_usize_def advance_def ahead_def split: if_splits)

lemma le_word_codec:
  assumes "0 < n" and "LENGTH('a::len) = 8 * n"
    and "m = rd_map (from_le :: u8 list \<Rightarrow> 'a word) (read_exact n)"
  shows "exact_codec (le_bytes n :: 'a word \<Rightarrow> u8 list) m (\<lambda>_. True)"
proof
  fix x :: "'a word" and r rest
  assume "in_memory r" and a: "ahead r = le_bytes n x @ rest"
  then have "read_exact n r = Inr (le_bytes n x, advance n r)"
    using assms(1) by (intro read_exact_ahead[where rest = rest]) simp_all
  then show "m r = Inr (x, advance (length (le_bytes n x)) r)"
    using assms(2) by (simp add: assms(3) rd_map_def rd_bind_def from_le_le_bytes)
next
  fix x :: "'a word" and r r'
  assume "m r = Inr (x, r')"
  then obtain bs where bs: "read_exact n r = Inr (bs, r')" and x: "x = from_le bs"
    by (auto simp: assms(3) rd_map_Inr_iff)
  have "le_bytes n x = bs"
    unfolding x using read_exact_Inr[OF bs] assms(2) by (intro le_bytes_from_le) simp_all
  then show "True \<and> r' = advance (length (le_bytes n x)) r
      \<and> take (length (le_bytes n x)) (ahead r) = le_bytes n x"
    using read_exact_Inr[OF bs] by simp
qed

lemma word_codecs:
  "exact_codec (le_bytes 2) read_u16 (\<lambda>_. True)" "exact_codec (le_bytes 4) read_u32 (\<lambda>_. True)"
  "exact_codec (le_bytes 4) read_i32 (\<lambda>_. True)" "exact_codec (le_bytes 8) read_u64 (\<lambda>_. True)"
  "exact_codec (le_bytes 8) read_f64 (\<lambda>_. True)"
  by (rule le_word_codec; simp add: read_u16_def read_u32_def read_i32_def read_u64_def read_f64_def)+

lemma byte_codec: "exact_codec (\<lambda>b. [b]) read_u8 (\<lambda>_. True)"
proof
  fix x :: u8 and r rest
  assume "in_memory r" "ahead r = [x] @ rest"
  then show "read_u8 r = Inr (x, advance (length [x]) r)"
    by (simp add: read_u8_def rd_map_def rd_bind_def read_exact_ahead[where bs = "[_]"])
next
  fix x :: u8 and r r'
  assume "read_u8 r = Inr (x, r')"
  then obtain bs where bs: "read_exact 1 r = Inr (bs, r')" and x: "x = bs ! 0"
    by (auto simp: read_u8_def rd_map_Inr_iff)
  then show "True \<and> r' = advance (length [x]) r \<and> take (length [x]) (ahead r) = [x]"
    using read_exact_Inr[OF bs] by (cases bs) auto
qed

interpretation u8: exact_codec "\<lambda>b. [b]" read_u8 "\<lambda>_. True"
  by (rule byte_codec)

interpretation u16: exact_codec "le_bytes 2" read_u16 "\<lambda>_. True"
  by (rule word_codecs)

interpretation u32: exact_codec "le_bytes 4" read_u32 "\<lambda>_. True"
  by (rule word_codecs)

interpretation i32: exact_codec "le_bytes 4" read_i32 "\<lambda>_. True"
  by (rule word_codecs)

interpretation u64: exact_codec "le_bytes 8" read_u64 "\<lambda>_. True"
  by (rule word_codecs)

interpretation f64: exact_codec "le_bytes 8" read_f64 "\<lambda>_. True"
  by (rule word_codecs)

lemmas read_word_simps [rd_simps] =
  u8.get_put[OF TrueI, unfolded list.size] u16.get_put[OF TrueI] u32.get_put[OF TrueI]
  u64.get_put[OF TrueI] i32.get_put[OF TrueI] f64.get_put[OF TrueI]

lemmas read_at_simps =
  u16.get_at[OF TrueI] u32.get_at[OF TrueI] u64.get_at[OF TrueI] i32.get_at[OF TrueI] f64.get_at[OF TrueI]

lemmas bind_at_simps =
  u16.bind_at[OF TrueI] u32.bind_at[OF TrueI] u64.bind_at[OF TrueI] i32.bind_at[OF TrueI]
  f64.bind_at[OF TrueI] u8.bind_at[OF TrueI, simplified]

end
