(* ===== verification/Leb128.thy ===== *)
theory Leb128
  imports Byte_Reader
begin

text \<open>
  The variable-length integers: \<open>read_uleb128\<close>, \<open>read_sleb128\<close> and
  \<open>read_length_prefixed_string\<close> of \<open>io.rs\<close>, and \<open>encode_sleb128\<close> of
  \<open>write/patch/debug_reloc.rs\<close>.  An \<open>i64\<close> is a 64-bit word; its right shift is
  \<^const>\<open>signed_drop_bit\<close>.  Shown: the encoder terminates, the decoder inverts it on
  every \<open>i64\<close>, and no decoder takes more than ten bytes.
\<close>

function uleb_loop :: "u64 \<Rightarrow> nat \<Rightarrow> u64 read_op" where
  "uleb_loop result shift r =
     (if length (data r) \<le> pos r then Inl (Parse ''unexpected end of LEB128'' [])
      else let byte = data r ! pos r;
               r' = r\<lparr>pos := pos r + 1\<rparr>;
               result' = result OR push_bit shift (ucast (byte AND 0x7f)) in
           if byte AND 0x80 = 0 then Inr (result', r')
           else if 64 \<le> shift + 7 then Inl (Parse ''LEB128 overflow'' [])
           else uleb_loop result' (shift + 7) r')"
  by pat_completeness auto
termination
  by (relation "measure (\<lambda>(_, _, r). length (data r) - pos r)") auto

definition read_uleb128 :: "u64 read_op" where
  "read_uleb128 = uleb_loop 0 0"

function sleb_loop :: "i64 \<Rightarrow> nat \<Rightarrow> i64 read_op" where
  "sleb_loop result shift r =
     (if length (data r) \<le> pos r then Inl (Parse ''unexpected end of SLEB128'' [])
      else let byte = data r ! pos r;
               r' = r\<lparr>pos := pos r + 1\<rparr>;
               result' = result OR push_bit shift (ucast (byte AND 0x7f));
               shift' = shift + 7 in
           if byte AND 0x80 = 0 then
             Inr (if shift' < 64 \<and> byte AND 0x40 \<noteq> 0 then result' OR push_bit shift' (NOT 0)
                  else result', r')
           else if 64 \<le> shift' then Inl (Parse ''SLEB128 overflow'' [])
           else sleb_loop result' shift' r')"
  by pat_completeness auto
termination
  by (relation "measure (\<lambda>(_, _, r). length (data r) - pos r)") auto

definition read_sleb128 :: "i64 read_op" where
  "read_sleb128 = sleb_loop 0 0"

definition read_length_prefixed_string :: "rust_string read_op" where
  "read_length_prefixed_string =
     rd_bind read_uleb128 (\<lambda>len. if len = 0 then rd_ret [] else
       (\<lambda>r. case read_exact (unat len) r of
          Inr (bytes, r') \<Rightarrow> Inr (from_utf8_lossy bytes, r')
        | Inl _ \<Rightarrow> Inl (Parse ''length-prefixed string claims {len} bytes but only {} remain (likely a mis-aligned section)''
                        [fword len, fnat (remaining r)])))"

declare uleb_loop.simps [simp del] sleb_loop.simps [simp del]

lemma sint_shift7: "sint (signed_drop_bit 7 (v :: i64)) = sint v div 128"
  by (simp add: sint_signed_drop_bit_eq drop_bit_eq_div)

text \<open>The bit of the sign in an encoded byte must agree with what is left.\<close>

definition sleb_done :: "u8 \<Rightarrow> i64 \<Rightarrow> bool" where
  "sleb_done byte v' \<longleftrightarrow> (v' = 0 \<and> byte AND 0x40 = 0) \<or> (v' = - 1 \<and> byte AND 0x40 \<noteq> 0)"

lemma sleb_not_done_decreases:
  assumes "\<not> sleb_done (ucast v AND 0x7f) (signed_drop_bit 7 v)"
  shows "nat \<bar>sint (signed_drop_bit 7 v)\<bar> < nat \<bar>sint (v :: i64)\<bar>"
proof -
  have "v \<noteq> 0" "v \<noteq> - 1" using assms by (auto simp: sleb_done_def flag_bits_u8 take_bit_numeral_u8 bit_simps)
  then have "sint v \<noteq> 0" "sint v \<noteq> - 1"
    by (metis signed_word_eqI signed_0, metis signed_word_eqI signed_minus_1)
  then show ?thesis by (auto simp: sint_shift7)
qed

function encode_sleb128 :: "i64 \<Rightarrow> u8 list" where
  "encode_sleb128 v =
     (let byte = ucast v AND 0x7f; v' = signed_drop_bit 7 v in
      if sleb_done byte v' then [byte] else (byte OR 0x80) # encode_sleb128 v')"
  by pat_completeness auto
termination
  by (relation "measure (\<lambda>v. nat \<bar>sint v\<bar>)") (use sleb_not_done_decreases in auto)

declare encode_sleb128.simps [simp del]

lemma sleb_done_iff:
  "sleb_done (ucast v AND 0x7f) v' \<longleftrightarrow> v' = 0 \<and> \<not> bit v 6 \<or> v' = - 1 \<and> bit (v :: i64) 6"
  by (auto simp: sleb_done_def flag_bits_u8 take_bit_numeral_u8 bit_simps)

text \<open>The last byte: what is left of the value is its sign extension.\<close>

lemma sleb_last_byte:
  fixes v :: i64
  assumes "sleb_done (ucast v AND 0x7f) (signed_drop_bit 7 v)" and "s < 64"
  shows "push_bit s (ucast (take_bit 7 (ucast v :: u8))) OR
           (if s + 7 < 64 \<and> bit v 6 then push_bit (s + 7) (NOT 0) else 0) = push_bit s v"
proof (rule bit_word_eqI)
  fix i assume i: "i < LENGTH(64)"
  have hi: "bit v j = bit v 6" if "6 \<le> j" "j < 64" for j
  proof (cases "j = 6")
    case False
    then have "bit v j = bit (signed_drop_bit 7 v) (j - 7)"
      using that by (auto simp: bit_signed_drop_bit_iff)
    then show ?thesis using assms(1) that by (auto simp: sleb_done_iff)
  qed simp
  show "bit (push_bit s (ucast (take_bit 7 (ucast v :: u8)) :: i64) OR
          (if s + 7 < 64 \<and> bit v 6 then push_bit (s + 7) (NOT 0) else 0)) i = bit (push_bit s v) i"
  proof (cases "i < s + 7")
    case True
    then show ?thesis using i by (auto simp: bit_simps)
  next
    case False
    then show ?thesis using i hi[of "i - s"] by (auto simp: bit_simps)
  qed
qed

lemma sleb_next_byte:
  fixes v :: i64
  assumes "s + 7 < 64"
  shows "push_bit s (ucast (take_bit 7 (ucast v :: u8))) OR push_bit (s + 7) (signed_drop_bit 7 v)
         = push_bit s v"
proof (rule bit_word_eqI)
  fix i assume i: "i < LENGTH(64)"
  show "bit (push_bit s (ucast (take_bit 7 (ucast v :: u8))) OR push_bit (s + 7) (signed_drop_bit 7 v)) i
      = bit (push_bit s v) i"
    using i assms by (cases "i < s + 7") (auto simp: bit_simps bit_signed_drop_bit_iff)
qed

text \<open>Ten groups of seven bits hold every value: before the tenth the loop may go on.\<close>

lemma sleb_tenth_is_last:
  assumes "v = signed_drop_bit 63 (w :: i64)"
  shows "sleb_done (ucast v AND 0x7f) (signed_drop_bit 7 v)"
proof -
  have "v = (if bit w 63 then - 1 else 0)"
    unfolding assms by (rule bit_word_eqI) (auto simp: bit_signed_drop_bit_iff Suc_le_eq)
  then show ?thesis by (auto simp: sleb_done_iff)
qed

text \<open>The decoder inverts the encoder, from any number of groups already read.\<close>

lemma sleb_loop_encode:
  assumes "s \<le> 63" "s mod 7 = 0" "v = signed_drop_bit s w" "ahead r = encode_sleb128 v @ rest"
  shows "sleb_loop acc s r = Inr (acc OR push_bit s v, advance (length (encode_sleb128 v)) r)"
  using assms
proof (induction v arbitrary: acc s r rule: encode_sleb128.induct)
  case (1 v)
  define byte :: u8 where "byte = ucast v AND 0x7f"
  define v' where "v' = signed_drop_bit 7 v"
  let ?acc = "acc OR push_bit s (ucast (take_bit 7 (ucast v :: u8)))"
  obtain b tl where cons: "encode_sleb128 v = b # tl" by (cases "encode_sleb128 v")
      (auto simp: encode_sleb128.simps[of v] Let_def split: if_splits)
  have "drop (pos r) (data r) = b # tl @ rest" using 1(5) by (simp add: ahead_def cons)
  then have p: "pos r < length (data r)" "data r ! pos r = b"
    by (metis drop_all list.distinct(1) not_le, metis nth_via_drop)
  show ?case
  proof (cases "sleb_done byte v'")
    case True
    then have b: "b = byte" and e: "encode_sleb128 v = [byte]"
      using cons by (simp_all add: encode_sleb128.simps[of v] Let_def byte_def v'_def)
    have low: "byte AND 0x7f = take_bit 7 (ucast v)" "byte AND 0x80 = 0"
      "byte AND 0x40 \<noteq> 0 \<longleftrightarrow> bit v 6"
      by (simp_all add: byte_def take_bit_numeral_u8 flag_bits_u8 bit_simps)
    have "sleb_loop acc s r = Inr (if s + 7 < 64 \<and> bit v 6 then ?acc OR push_bit (s + 7) (NOT 0) else ?acc,
        advance 1 r)"
      using p b low by (simp add: sleb_loop.simps[of acc s r] Let_def advance_def)
    moreover have "(if s + 7 < 64 \<and> bit v 6 then ?acc OR push_bit (s + 7) (NOT 0) else ?acc)
        = acc OR push_bit s v"
      using sleb_last_byte[of v s] True 1(2) by (auto simp: byte_def v'_def or.assoc split: if_splits)
    ultimately show ?thesis by (simp add: e)
  next
    case False
    then have b: "b = byte OR 0x80" and e: "encode_sleb128 v = (byte OR 0x80) # encode_sleb128 v'"
      using cons by (simp_all add: encode_sleb128.simps[of v] Let_def byte_def v'_def)
    have low: "b AND 0x7f = take_bit 7 (ucast v)" "b AND 0x80 \<noteq> 0"
      by (rule bit_word_eqI, simp_all add: b byte_def take_bit_numeral_u8 flag_bits_u8 bit_simps)
    have "s \<noteq> 63" using False sleb_tenth_is_last[of v w] 1(4) by (auto simp: byte_def v'_def)
    then have s: "s + 7 < 64" using 1(2,3) by presburger
    have "sleb_loop acc s r = sleb_loop ?acc (s + 7) (advance 1 r)"
      using p low s by (simp add: sleb_loop.simps[of acc s r] Let_def advance_def)
    also have "\<dots> = Inr (?acc OR push_bit (s + 7) v', advance (length (encode_sleb128 v')) (advance 1 r))"
      unfolding v'_def
    proof (rule 1(1)[OF refl refl])
      show "\<not> sleb_done (ucast v AND 0x7f) (signed_drop_bit 7 v)" using False by (simp add: byte_def v'_def)
      show "signed_drop_bit 7 v = signed_drop_bit (s + 7) w"
        by (simp add: 1(4) signed_drop_bit_signed_drop_bit add.commute)
      show "ahead (advance 1 r) = encode_sleb128 (signed_drop_bit 7 v) @ rest"
        using 1(5) e by (simp add: v'_def)
    qed (use s 1(3) in simp_all)
    also have "?acc OR push_bit (s + 7) v' = acc OR push_bit s v"
      using sleb_next_byte[OF s, of v] by (simp add: v'_def or.assoc)
    finally show ?thesis by (simp add: e)
  qed
qed

lemma signed_drop_bit_0 [simp]: "signed_drop_bit 0 w = (w :: i64)"
  by (rule bit_word_eqI) (simp add: bit_signed_drop_bit_iff)

lemma sleb_codec_at:
  "ahead r = encode_sleb128 v @ rest \<Longrightarrow>
   read_sleb128 r = Inr (v, advance (length (encode_sleb128 v)) r)"
  using sleb_loop_encode[of 0 v v r rest 0] by (simp add: read_sleb128_def)

text \<open>C23: \<open>encode_sleb128\<close> and \<open>read_sleb128\<close> are inverse on every \<open>i64\<close>: reading the
  encoded bytes, whatever follows them, gives the value back and stops right after them.\<close>

theorem sleb128_roundtrip:
  "read_sleb128 (new_reader (encode_sleb128 v @ rest)) =
     Inr (v, \<lparr>data = encode_sleb128 v @ rest, pos = length (encode_sleb128 v)\<rparr>)"
  using sleb_codec_at[of "new_reader (encode_sleb128 v @ rest)" v rest]
  by (simp add: new_reader_def ahead_def advance_def)

interpretation sleb: codec encode_sleb128 read_sleb128 "\<lambda>_. True"
  by unfold_locales (rule sleb_codec_at)

lemma encode_sleb128_length_from:
  assumes "s \<le> 63" "s mod 7 = 0" "v = signed_drop_bit s w"
  shows "7 * length (encode_sleb128 v) + s \<le> 70"
  using assms
proof (induction v arbitrary: s rule: encode_sleb128.induct)
  case (1 v)
  show ?case
  proof (cases "sleb_done (ucast v AND 0x7f) (signed_drop_bit 7 v)")
    case True
    then show ?thesis using 1(2) by (simp add: encode_sleb128.simps[of v] Let_def)
  next
    case False
    then have "s \<noteq> 63" using sleb_tenth_is_last[of v w] 1(4) by auto
    then have "s + 7 \<le> 63" using 1(2,3) by presburger
    then have "7 * length (encode_sleb128 (signed_drop_bit 7 v)) + (s + 7) \<le> 70"
      using 1(3,4) False
      by (intro 1(1)) (simp_all add: signed_drop_bit_signed_drop_bit add.commute)
    then show ?thesis using False by (simp add: encode_sleb128.simps[of v] Let_def)
  qed
qed

lemma encode_sleb128_length: "length (encode_sleb128 v) \<le> 10"
  using encode_sleb128_length_from[of 0 v v] by simp

lemma encode_sleb128_nonempty: "encode_sleb128 v \<noteq> []"
  by (simp add: encode_sleb128.simps[of v] Let_def)

text \<open>Decoders move forward, by at least one and at most ten bytes.\<close>

lemma uleb_loop_moves:
  "uleb_loop acc s r = Inr (x, r') \<Longrightarrow> s \<le> 63 \<Longrightarrow> s mod 7 = 0 \<Longrightarrow>
   data r' = data r \<and> pos r < pos r' \<and> pos r' \<le> length (data r) \<and> 7 * (pos r' - pos r) + s \<le> 70"
proof (induction acc s r rule: uleb_loop.induct)
  case (1 acc s r)
  from 1(2) have p: "pos r < length (data r)"
    by (auto simp: uleb_loop.simps[of acc s r] split: if_splits)
  let ?r = "r\<lparr>pos := pos r + 1\<rparr>"
  show ?case
  proof (cases "data r ! pos r AND 0x80 = 0")
    case True
    then have "r' = ?r" using 1(2) p by (simp add: uleb_loop.simps[of acc s r] Let_def)
    then show ?thesis using p 1(3) by simp
  next
    case False
    then have s: "s + 7 < 64" using 1(2) p
      by (simp add: uleb_loop.simps[of acc s r] Let_def split: if_splits)
    have "data r' = data ?r \<and> pos ?r < pos r' \<and> pos r' \<le> length (data ?r) \<and>
        7 * (pos r' - pos ?r) + (s + 7) \<le> 70"
      using False p s 1(2,4)
      by (intro 1(1)[OF _ refl refl refl]) (simp_all add: uleb_loop.simps[of acc s r] Let_def)
    then show ?thesis by auto
  qed
qed

lemma sleb_loop_moves:
  "sleb_loop acc s r = Inr (x, r') \<Longrightarrow> s \<le> 63 \<Longrightarrow> s mod 7 = 0 \<Longrightarrow>
   data r' = data r \<and> pos r < pos r' \<and> pos r' \<le> length (data r) \<and> 7 * (pos r' - pos r) + s \<le> 70"
proof (induction acc s r rule: sleb_loop.induct)
  case (1 acc s r)
  from 1(2) have p: "pos r < length (data r)"
    by (auto simp: sleb_loop.simps[of acc s r] split: if_splits)
  let ?r = "r\<lparr>pos := pos r + 1\<rparr>"
  show ?case
  proof (cases "data r ! pos r AND 0x80 = 0")
    case True
    then have "r' = ?r" using 1(2) p by (simp add: sleb_loop.simps[of acc s r] Let_def split: if_splits)
    then show ?thesis using p 1(3) by simp
  next
    case False
    then have s: "s + 7 < 64" using 1(2) p
      by (simp add: sleb_loop.simps[of acc s r] Let_def split: if_splits)
    have "data r' = data ?r \<and> pos ?r < pos r' \<and> pos r' \<le> length (data ?r) \<and>
        7 * (pos r' - pos ?r) + (s + 7) \<le> 70"
      using False p s 1(2,4)
      by (intro 1(1)[OF _ refl refl refl refl]) (simp_all add: sleb_loop.simps[of acc s r] Let_def)
    then show ?thesis by auto
  qed
qed

lemma read_sleb128_moves:
  "read_sleb128 r = Inr (x, r') \<Longrightarrow>
   data r' = data r \<and> pos r < pos r' \<and> pos r' \<le> length (data r) \<and> pos r' \<le> pos r + 10"
  using sleb_loop_moves[of 0 0 r x r'] by (auto simp: read_sleb128_def)

lemma read_uleb128_moves:
  "read_uleb128 r = Inr (x, r') \<Longrightarrow>
   data r' = data r \<and> pos r < pos r' \<and> pos r' \<le> length (data r) \<and> pos r' \<le> pos r + 10"
  using uleb_loop_moves[of 0 0 r x r'] by (auto simp: read_uleb128_def)

lemma well_behaved_leb [intro, simp]: "well_behaved read_sleb128" "well_behaved read_uleb128"
  unfolding well_behaved_def by (auto dest!: read_sleb128_moves read_uleb128_moves)

lemma well_behaved_length_prefixed [intro, simp]: "well_behaved read_length_prefixed_string"
  unfolding read_length_prefixed_string_def
proof (rule well_behaved_bind)
  fix len :: u64
  have "well_behaved (\<lambda>r. case read_exact (unat len) r of
      Inr (bytes, r') \<Rightarrow> Inr (from_utf8_lossy bytes, r')
    | Inl _ \<Rightarrow> Inl (Parse t [fword len, fnat (remaining r)]))" for t
    using well_behaved_read_exact[of "unat len"]
    unfolding well_behaved_def by (auto split: sum.splits)
  then show "well_behaved (if len = 0 then rd_ret [] else (\<lambda>r. case read_exact (unat len) r of
      Inr (bytes, r') \<Rightarrow> Inr (from_utf8_lossy bytes, r')
    | Inl _ \<Rightarrow> Inl (Parse ''length-prefixed string claims {len} bytes but only {} remain (likely a mis-aligned section)''
        [fword len, fnat (remaining r)])))" by simp
qed simp

end
