(* ===== verification/Opcodes.thy ===== *)
theory Opcodes
  imports Leb128
begin

text \<open>
  Operand types, operand values and the opcode table of one bytecode version
  (\<open>crates/hbc-decomp/src/opcode.rs\<close>).  The JSON text of a table is embedded by the
  build script and parsed by serde, neither of which is code of the repository: the
  parsed form is the record \<open>json_format\<close>, and the lookup of a version's table is a
  parameter of \<open>for_version\<close> and \<open>for_version_or_latest\<close>.
\<close>

datatype operand_type =
    Reg8 | Reg32 | UInt8 | UInt16 | UInt32 | UInt8S | UInt16S | UInt32S | Addr8 | Addr32 | Imm32
  | Double

datatype operand_value =
    U8 u8 | U16 u16 | U32 u32 | I8 i8 | I32 i32 | F64 f64_bits

fun as_u32 :: "operand_value \<Rightarrow> u32 option" where
  "as_u32 (U8 v) = Some (ucast v)"
| "as_u32 (U16 v) = Some (ucast v)"
| "as_u32 (U32 v) = Some v"
| "as_u32 _ = None"

fun as_i32 :: "operand_value \<Rightarrow> i32 option" where
  "as_i32 (I8 v) = Some (scast v)"
| "as_i32 (I32 v) = Some v"
| "as_i32 _ = None"

record operand =
  op_ty :: operand_type
  op_value :: operand_value

fun operand_read :: "operand_type \<Rightarrow> operand_value read_op" where
  "operand_read Reg8 = rd_map U8 read_u8"
| "operand_read UInt8 = rd_map U8 read_u8"
| "operand_read UInt8S = rd_map U8 read_u8"
| "operand_read Reg32 = rd_map U32 read_u32"
| "operand_read UInt32 = rd_map U32 read_u32"
| "operand_read UInt32S = rd_map U32 read_u32"
| "operand_read UInt16 = rd_map U16 read_u16"
| "operand_read UInt16S = rd_map U16 read_u16"
| "operand_read Addr8 = rd_map I8 read_i8"
| "operand_read Addr32 = rd_map I32 read_i32"
| "operand_read Imm32 = rd_map I32 read_i32"
| "operand_read Double = rd_map F64 read_f64"

lemma well_behaved_operand_read [intro, simp]: "well_behaved (operand_read ty)"
  by (cases ty) auto

section \<open>The opcode table\<close>

record instruction_def =
  def_opcode :: u8
  def_name :: string
  operand_types :: "operand_type list"
  is_jump :: bool
  abstract_definition :: "nat option"

record abstract_def =
  abs_name :: string
  variant_opcodes :: "u8 list"

record bytecode_format =
  fmt_version :: u32
  definitions :: "instruction_def list"
  abstract_definitions :: "abstract_def list"
  git_commit_hash :: "string option"

record json_format =
  Version :: u32
  Definitions :: "instruction_def list"
  AbstractDefinitions :: "abstract_def list"
  GitCommitHash :: "string option"

definition invalid_def :: instruction_def where
  "invalid_def = \<lparr>def_opcode = 0, def_name = ''<invalid>'', operand_types = [], is_jump = False,
     abstract_definition = None\<rparr>"

definition from_parsed_json :: "json_format \<Rightarrow> bytecode_format" where
  "from_parsed_json parsed =
     (let max_opcode = fold (\<lambda>d m. max m (def_opcode d)) (Definitions parsed) 0;
          blank = replicate (unat max_opcode + 1) invalid_def;
          defs = fold (\<lambda>d ds. ds[unat (def_opcode d) := d]) (Definitions parsed) blank
      in \<lparr>fmt_version = Version parsed, definitions = defs,
          abstract_definitions = AbstractDefinitions parsed,
          git_commit_hash = GitCommitHash parsed\<rparr>)"

definition for_version :: "(u32 \<Rightarrow> json_format result option) \<Rightarrow> u32 \<Rightarrow> bytecode_format result" where
  "for_version json_for v =
     res_bind (ok_or (json_for v) (MissingFormat v)) (\<lambda>parsed.
     res_bind parsed (\<lambda>j. Inr (from_parsed_json j)))"

definition for_version_or_latest ::
  "(u32 \<Rightarrow> json_format result option) \<Rightarrow> u32 list \<Rightarrow> u32 \<Rightarrow> (bytecode_format \<times> u32) result" where
  "for_version_or_latest json_for available v =
     (case for_version json_for v of
        Inr format \<Rightarrow> Inr (format, v)
      | Inl _ \<Rightarrow>
          let fallback = fold (\<lambda>w acc. if w \<le> v then Some w else acc) available None in
          res_bind (ok_or fallback (MissingFormat v)) (\<lambda>fb.
          res_bind (for_version json_for fb) (\<lambda>format. Inr (format, fb))))"

text \<open>The builtin name table of a version, or of the nearest older version that has one.\<close>

definition builtins_for_version ::
  "(u32 \<Rightarrow> 'j option) \<Rightarrow> ('j \<Rightarrow> string list option) \<Rightarrow> u32 list \<Rightarrow> u32 \<Rightarrow> string list" where
  "builtins_for_version json_for parse versions v =
     (let json = (case json_for v of Some j \<Rightarrow> Some j
                  | None \<Rightarrow> Option.bind (find (\<lambda>w. w \<le> v) (rev versions)) json_for)
      in (case Option.bind json parse of Some names \<Rightarrow> names | None \<Rightarrow> []))"

definition definition_at :: "bytecode_format \<Rightarrow> u8 \<Rightarrow> instruction_def option" where
  "definition_at format opcode =
     (if unat opcode < length (definitions format) then Some (definitions format ! unat opcode)
      else None)"

section \<open>What the table holds\<close>

lemma fold_max_ge:
  "m \<le> fold (\<lambda>d m. max m (def_opcode d)) ds m"
  "d \<in> set ds \<Longrightarrow> def_opcode d \<le> fold (\<lambda>d m. max m (def_opcode d)) ds m"
proof (induction ds arbitrary: m)
  case (Cons a ds)
  { case 1 show ?case using Cons.IH(1)[of "max m (def_opcode a)"] by simp }
  { case 2 then show ?case
      using Cons.IH(1)[of "max m (def_opcode a)"] Cons.IH(2)[of "max m (def_opcode a)"] by auto }
qed simp_all

lemma length_fold_update:
  "length (fold (\<lambda>d ds. ds[unat (def_opcode d) := d]) xs ds) = length ds"
  by (induction xs arbitrary: ds) auto

lemma fold_update_nth:
  assumes "distinct (map def_opcode xs)" "i < length ds"
  shows "fold (\<lambda>d ds. ds[unat (def_opcode d) := d]) xs ds ! i =
    (case find (\<lambda>d. unat (def_opcode d) = i) xs of Some d \<Rightarrow> d | None \<Rightarrow> ds ! i)"
  using assms
proof (induction xs arbitrary: ds)
  case (Cons a xs)
  show ?case
  proof (cases "unat (def_opcode a) = i")
    case True
    then have "find (\<lambda>d. unat (def_opcode d) = i) xs = None"
      using Cons.prems(1) by (auto simp: find_None_iff) (metis image_eqI word_unat_eq_iff)
    with Cons True show ?thesis by simp
  qed (use Cons in \<open>simp split: option.splits\<close>)
qed simp

lemma fold_max_less_iff:
  "0 < op \<Longrightarrow> fold (\<lambda>d m. max m (def_opcode d)) ds m < op \<longleftrightarrow>
     m < op \<and> (\<forall>d \<in> set ds. def_opcode d < op)"
  by (induction ds arbitrary: m) auto

text \<open>The opcode table answers exactly the definitions of the JSON: an opcode that has
  one is found with it, another opcode below the greatest defined one is the placeholder
  \<open><invalid>\<close>, and an opcode past the greatest is not in the table.\<close>

theorem from_parsed_json_lookup:
  assumes "distinct (map def_opcode (Definitions j))"
  shows "definition_at (from_parsed_json j) op =
    (case find (\<lambda>d. def_opcode d = op) (Definitions j) of
       Some d \<Rightarrow> Some d
     | None \<Rightarrow> if op = 0 \<or> (\<exists>d \<in> set (Definitions j). op \<le> def_opcode d) then Some invalid_def else None)"
proof -
  let ?m = "fold (\<lambda>d m. max m (def_opcode d)) (Definitions j) 0"
  have len: "length (definitions (from_parsed_json j)) = unat ?m + 1"
    by (simp add: from_parsed_json_def length_fold_update Let_def)
  have find: "find (\<lambda>d. unat (def_opcode d) = unat op) xs = find (\<lambda>d. def_opcode d = op) xs" for xs
    by (simp add: word_unat_eq_iff)
  have nth: "definitions (from_parsed_json j) ! unat op =
      (case find (\<lambda>d. def_opcode d = op) (Definitions j) of Some d \<Rightarrow> d | None \<Rightarrow> invalid_def)"
    if "unat op < unat ?m + 1"
    using that fold_update_nth[OF assms, of "unat op" "replicate (unat ?m + 1) invalid_def"]
    by (simp add: from_parsed_json_def Let_def find split: option.splits del: replicate.simps)
  have range: "unat op < unat ?m + 1 \<longleftrightarrow> op = 0 \<or> (\<exists>d \<in> set (Definitions j). op \<le> def_opcode d)"
  proof (cases "op = 0")
    case False
    then have "0 < op" by (simp add: word_neq_0_conv)
    then have "?m < op \<longleftrightarrow> (\<forall>d \<in> set (Definitions j). def_opcode d < op)"
      using fold_max_less_iff by blast
    moreover have "unat op < unat ?m + 1 \<longleftrightarrow> \<not> ?m < op" by (auto simp: word_less_nat_alt)
    ultimately show ?thesis using False by (auto simp: not_less)
  qed simp
  have found: "op = 0 \<or> (\<exists>d \<in> set (Definitions j). op \<le> def_opcode d)"
    if "find (\<lambda>d. def_opcode d = op) (Definitions j) = Some d" for d
    using that by (auto simp: find_Some_iff)
  have at: "definition_at (from_parsed_json j) op =
      (if unat op < unat ?m + 1 then Some (definitions (from_parsed_json j) ! unat op) else None)"
    by (simp only: definition_at_def len)
  show ?thesis
  proof (cases "unat op < unat ?m + 1")
    case True
    then show ?thesis using range unfolding at nth[OF True] by (simp split: option.splits)
  next
    case False
    then show ?thesis using range found unfolding at
      by (cases "find (\<lambda>d. def_opcode d = op) (Definitions j)") auto
  qed
qed

theorem from_parsed_json_lookup_witness:
  "definition_at (from_parsed_json \<lparr>Version = 96,
      Definitions = [invalid_def\<lparr>def_opcode := 2, def_name := ''Ret''\<rparr>],
      AbstractDefinitions = [], GitCommitHash = None\<rparr>) 2
    = Some (invalid_def\<lparr>def_opcode := 2, def_name := ''Ret''\<rparr>)"
  by (subst from_parsed_json_lookup) simp_all

lemma fold_last_le:
  "fold (\<lambda>w acc. if w \<le> (v::u32) then Some w else acc) ws acc =
     (case filter (\<lambda>w. w \<le> v) ws of [] \<Rightarrow> acc | xs \<Rightarrow> Some (last xs))"
  by (induction ws arbitrary: acc) (auto split: list.splits)

lemma sorted_le_last: "sorted xs \<Longrightarrow> x \<in> set xs \<Longrightarrow> x \<le> (last xs :: u32)"
  by (induction xs) auto

text \<open>With the versions in increasing order, a version without a table of its own gets
  the table of the greatest version below it that has one, and is told which.\<close>

theorem for_version_or_latest_nearest:
  assumes "sorted available" and "for_version_or_latest json_for available v = Inr (format, used)"
  shows "for_version json_for used = Inr format \<and>
    (used = v \<or> used \<in> set available \<and> used \<le> v \<and> (\<forall>w \<in> set available. w \<le> v \<longrightarrow> w \<le> used))"
proof (cases "for_version json_for v")
  case (Inr f)
  then show ?thesis using assms(2) by (simp add: for_version_or_latest_def)
next
  case (Inl e)
  let ?xs = "filter (\<lambda>w. w \<le> v) available"
  from Inl assms(2) obtain fb where fb: "(case ?xs of [] \<Rightarrow> None | xs \<Rightarrow> Some (last xs)) = Some fb"
    and f: "for_version json_for fb = Inr format" and u: "used = fb"
    by (auto simp: for_version_or_latest_def Let_def fold_last_le res_bind_Inr_iff)
  then have ne: "?xs \<noteq> []" and l: "fb = last ?xs" by (auto split: list.splits)
  have "fb \<in> set ?xs" unfolding l using ne by (rule last_in_set)
  moreover have "w \<le> fb" if "w \<in> set ?xs" for w
    unfolding l using sorted_le_last[OF _ that] assms(1) by (simp add: sorted_wrt_filter)
  ultimately show ?thesis using f u by auto
qed

theorem for_version_or_latest_nearest_witness:
  "for_version (\<lambda>v. if v = 96 then Some (Inr \<lparr>Version = 96, Definitions = [],
        AbstractDefinitions = [], GitCommitHash = None\<rparr>) else None) 96
     = Inr (from_parsed_json \<lparr>Version = 96, Definitions = [], AbstractDefinitions = [],
         GitCommitHash = None\<rparr>)"
  using for_version_or_latest_nearest[of "[90, 96]"
      "\<lambda>v. if v = 96 then Some (Inr \<lparr>Version = 96, Definitions = [],
        AbstractDefinitions = [], GitCommitHash = None\<rparr>) else None" 97
      "from_parsed_json \<lparr>Version = 96, Definitions = [], AbstractDefinitions = [],
         GitCommitHash = None\<rparr>" 96]
  by (simp add: for_version_or_latest_def for_version_def)

end
