(* ===== verification/Format.thy ===== *)
theory Format
  imports Opcodes
begin

text \<open>
  The on-disk records of \<open>crates/hbc-decomp/src/format.rs\<close>: the function flag bits, the
  small string table entry, the \<open>options\<close> byte, the file header and the function
  headers of both layouts with their accessors.
\<close>

section \<open>Function-header flags\<close>

definition MASK_PROHIBIT_INVOKE :: u8 where "MASK_PROHIBIT_INVOKE = 0x03"
definition PROHIBIT_CALL :: u8 where "PROHIBIT_CALL = 0"
definition PROHIBIT_CONSTRUCT :: u8 where "PROHIBIT_CONSTRUCT = 1"
definition PROHIBIT_NONE :: u8 where "PROHIBIT_NONE = 2"
definition FLAG_STRICT :: u8 where "FLAG_STRICT = 0x04"
definition FLAG_HAS_EXCEPTION_HANDLER :: u8 where "FLAG_HAS_EXCEPTION_HANDLER = 0x08"
definition FLAG_HAS_DEBUG_INFO :: u8 where "FLAG_HAS_DEBUG_INFO = 0x10"
definition FLAG_OVERFLOWED :: u8 where "FLAG_OVERFLOWED = 0x20"

lemmas flag_defs = MASK_PROHIBIT_INVOKE_def PROHIBIT_CALL_def PROHIBIT_CONSTRUCT_def
  PROHIBIT_NONE_def FLAG_STRICT_def FLAG_HAS_EXCEPTION_HANDLER_def FLAG_HAS_DEBUG_INFO_def
  FLAG_OVERFLOWED_def

section \<open>Small string table entries\<close>

record small_string_entry =
  se_is_utf16 :: bool
  se_offset :: u32
  se_length :: u32

definition OFFSET_LIMIT :: u32 where "OFFSET_LIMIT = push_bit 23 1"
definition LENGTH_OVERFLOW :: u32 where "LENGTH_OVERFLOW = 0xff"

definition entry_decode :: "u32 \<Rightarrow> small_string_entry" where
  "entry_decode raw = \<lparr>se_is_utf16 = (raw AND 1 \<noteq> 0),
     se_offset = drop_bit 1 raw AND (OFFSET_LIMIT - 1), se_length = drop_bit 24 raw\<rparr>"

definition entry_encode :: "small_string_entry \<Rightarrow> u32" where
  "entry_encode e =
     push_bit 24 (se_length e) OR push_bit 1 (se_offset e AND (OFFSET_LIMIT - 1))
       OR of_bool (se_is_utf16 e)"

definition overflow_index :: "small_string_entry \<Rightarrow> u32 option" where
  "overflow_index e = (if se_length e = LENGTH_OVERFLOW then Some (se_offset e) else None)"

definition entry_resolve :: "small_string_entry \<Rightarrow> (u32 \<times> u32) list \<Rightarrow> (u32 \<times> u32) option" where
  "entry_resolve e overflow =
     (case overflow_index e of
        Some i \<Rightarrow> (if unat i < length overflow then Some (overflow ! unat i) else None)
      | None \<Rightarrow> Some (se_offset e, se_length e))"

definition entry_for_string :: "bool \<Rightarrow> u32 \<Rightarrow> u32 \<Rightarrow> u32 \<Rightarrow> small_string_entry \<times> bool" where
  "entry_for_string is_utf16 offset len next_record =
     (if offset < OFFSET_LIMIT \<and> len < LENGTH_OVERFLOW
      then (\<lparr>se_is_utf16 = is_utf16, se_offset = offset, se_length = len\<rparr>, False)
      else (\<lparr>se_is_utf16 = is_utf16, se_offset = next_record, se_length = LENGTH_OVERFLOW\<rparr>, True))"

lemma OFFSET_LIMIT_mask: "OFFSET_LIMIT - 1 = mask 23"
  by (simp add: OFFSET_LIMIT_def mask_eq_exp_minus_1)

lemma less_OFFSET_LIMIT: "w < OFFSET_LIMIT \<longleftrightarrow> unat w < 2 ^ 23"
  by (simp add: OFFSET_LIMIT_def word_less_nat_alt)

lemma entry_encode_bit:
  "bit (entry_encode e) n \<longleftrightarrow> n < 32 \<and>
     (24 \<le> n \<and> bit (se_length e) (n - 24) \<or> 1 \<le> n \<and> n < 24 \<and> bit (se_offset e) (n - 1)
      \<or> n = 0 \<and> se_is_utf16 e)"
  unfolding entry_encode_def OFFSET_LIMIT_mask
  by (cases "n < 32")
     (auto simp: bit_or_iff bit_push_bit_iff bit_and_iff bit_mask_iff bit_of_bool_iff simp del: push_bit_Suc)

lemma entry_decode_encode:
  assumes "se_offset e < OFFSET_LIMIT" and "se_length e \<le> 0xff"
  shows "entry_decode (entry_encode e) = e"
proof -
  have ob: "bit (se_offset e) n \<Longrightarrow> n < 23" for n
    using assms(1) bit_less_if less_OFFSET_LIMIT by blast
  have "unat (se_length e) < 2 ^ 8" using assms(2) by (simp add: word_le_nat_alt)
  then have lb: "bit (se_length e) n \<Longrightarrow> n < 8" for n using bit_less_if by blast
  have 1: "entry_encode e AND 1 \<noteq> 0 \<longleftrightarrow> se_is_utf16 e"
    using flag_bit_iff[of "entry_encode e" 0] by (simp add: entry_encode_bit)
  have 2: "drop_bit 1 (entry_encode e) AND (OFFSET_LIMIT - 1) = se_offset e"
    unfolding OFFSET_LIMIT_mask
    by (rule bit_word_eqI)
       (auto simp: bit_drop_bit_eq bit_and_iff bit_mask_iff entry_encode_bit dest: ob)
  have 3: "drop_bit 24 (entry_encode e) = se_length e"
    by (rule bit_word_eqI) (auto simp: bit_drop_bit_eq entry_encode_bit dest: lb)
  show ?thesis unfolding entry_decode_def 1 2 3 by simp
qed

lemma entry_decode_fields:
  "bit (se_offset (entry_decode raw)) n \<longleftrightarrow> n < 23 \<and> bit raw (n + 1)"
  "bit (se_length (entry_decode raw)) n \<longleftrightarrow> bit raw (n + 24)"
  "se_is_utf16 (entry_decode raw) \<longleftrightarrow> bit raw 0"
  using flag_bit_iff[of raw 0]
  by (auto simp: entry_decode_def OFFSET_LIMIT_mask bit_and_iff bit_drop_bit_eq bit_mask_iff add.commute
      simp del: drop_bit_Suc)

lemma entry_encode_decode: "entry_encode (entry_decode raw) = raw"
proof (rule bit_word_eqI)
  fix n assume n: "n < LENGTH(32)"
  show "bit (entry_encode (entry_decode raw)) n = bit raw n"
    using n by (cases "n = 0"; cases "n < 24") (auto simp: entry_encode_bit entry_decode_fields)
qed

lemma entry_choice_resolves:
  assumes "entry_for_string is_utf16 offset len next_record = (e, needs)"
    and "needs \<Longrightarrow> next_record < OFFSET_LIMIT \<and> unat next_record < length overflow
      \<and> overflow ! unat next_record = (offset, len)"
  shows "entry_resolve (entry_decode (entry_encode e)) overflow = Some (offset, len)
    \<and> se_is_utf16 (entry_decode (entry_encode e)) = is_utf16"
proof (cases "offset < OFFSET_LIMIT \<and> len < LENGTH_OVERFLOW")
  case True
  then have e: "e = \<lparr>se_is_utf16 = is_utf16, se_offset = offset, se_length = len\<rparr>"
    using assms(1) by (simp add: entry_for_string_def)
  have "entry_decode (entry_encode e) = e"
    using True by (intro entry_decode_encode) (auto simp: e LENGTH_OVERFLOW_def)
  moreover have "len \<noteq> LENGTH_OVERFLOW" using True by auto
  ultimately show ?thesis by (simp add: e entry_resolve_def overflow_index_def)
next
  case False
  then have e: "e = \<lparr>se_is_utf16 = is_utf16, se_offset = next_record, se_length = LENGTH_OVERFLOW\<rparr>"
    and needs using assms(1) by (auto simp: entry_for_string_def split: if_splits)
  have "entry_decode (entry_encode e) = e"
    using assms(2)[OF \<open>needs\<close>] by (intro entry_decode_encode) (auto simp: e LENGTH_OVERFLOW_def)
  then show ?thesis
    using assms(2)[OF \<open>needs\<close>] by (simp add: e entry_resolve_def overflow_index_def)
qed

text \<open>Whatever offset and length a string has, the entry the writer chooses for it,
  packed into its 32-bit word and read back, resolves to exactly that offset and length:
  inline when both fit, through the overflow record the caller stores at the index it
  announced otherwise.\<close>

theorem entry_for_string_resolves:
  assumes "entry_for_string is_utf16 offset len next_record = (e, needs)"
    and "needs \<Longrightarrow> next_record < OFFSET_LIMIT \<and> unat next_record < length overflow
      \<and> overflow ! unat next_record = (offset, len)"
  shows "entry_resolve (entry_decode (entry_encode e)) overflow = Some (offset, len)
    \<and> se_is_utf16 (entry_decode (entry_encode e)) = is_utf16"
  using assms by (rule entry_choice_resolves)

theorem entry_for_string_resolves_witness:
  "entry_resolve (entry_decode (entry_encode (fst (entry_for_string True 5 300 1)))) [(0, 0), (5, 300)] =
     Some (5, 300)"
proof -
  show ?thesis
    by (rule entry_for_string_resolves[of True 5 300 1 _ "snd (entry_for_string True 5 300 1)"
          "[(0, 0), (5, 300)]", THEN conjunct1])
       (simp_all add: OFFSET_LIMIT_def)
qed

section \<open>The options byte\<close>

definition OPTION_STATIC_BUILTINS :: u8 where "OPTION_STATIC_BUILTINS = push_bit 0 1"
definition OPTION_CJS_MODULES_STATICALLY_RESOLVED :: u8 where
  "OPTION_CJS_MODULES_STATICALLY_RESOLVED = push_bit 1 1"
definition OPTION_HAS_ASYNC :: u8 where "OPTION_HAS_ASYNC = push_bit 2 1"
definition OPTION_HAS_ASYNC_MAX_VERSION :: u32 where "OPTION_HAS_ASYNC_MAX_VERSION = 97"

record bytecode_options =
  opt_raw :: u8
  opt_version :: u32

datatype cjs_module_form = Filenames | StaticallyResolved

definition static_builtins :: "bytecode_options \<Rightarrow> bool" where
  "static_builtins opts \<longleftrightarrow> opt_raw opts AND OPTION_STATIC_BUILTINS \<noteq> 0"

definition cjs_modules_statically_resolved :: "bytecode_options \<Rightarrow> bool" where
  "cjs_modules_statically_resolved opts \<longleftrightarrow> opt_raw opts AND OPTION_CJS_MODULES_STATICALLY_RESOLVED \<noteq> 0"

definition has_async :: "bytecode_options \<Rightarrow> bool option" where
  "has_async opts = (if opt_version opts \<le> OPTION_HAS_ASYNC_MAX_VERSION
                  then Some (opt_raw opts AND OPTION_HAS_ASYNC \<noteq> 0) else None)"

definition options_cjs_module_form :: "bytecode_options \<Rightarrow> cjs_module_form" where
  "options_cjs_module_form opts = (if cjs_modules_statically_resolved opts then StaticallyResolved else Filenames)"

definition defined_mask :: "bytecode_options \<Rightarrow> u8" where
  "defined_mask opts =
     (let m = OPTION_STATIC_BUILTINS OR OPTION_CJS_MODULES_STATICALLY_RESOLVED in
      if opt_version opts \<le> OPTION_HAS_ASYNC_MAX_VERSION then m OR OPTION_HAS_ASYNC else m)"

definition unknown_bits :: "bytecode_options \<Rightarrow> u8" where
  "unknown_bits opts = opt_raw opts AND NOT (defined_mask opts)"

definition set_bit_names :: "bytecode_options \<Rightarrow> string list" where
  "set_bit_names opts =
     (if static_builtins opts then [''staticBuiltins''] else []) @
     (if cjs_modules_statically_resolved opts then [''cjsModulesStaticallyResolved''] else []) @
     (if has_async opts = Some True then [''hasAsync''] else [])"

text \<open>The text of the byte, as \<open>Display\<close> prints it: hexadecimal, the names, the unknown bits.\<close>

definition hex_digit :: "nat \<Rightarrow> char" where
  "hex_digit n = (''0123456789abcdef'' ! n)"

definition hex2 :: "u8 \<Rightarrow> string" where
  "hex2 b = [hex_digit (unat b div 16), hex_digit (unat b mod 16)]"

fun join_comma :: "string list \<Rightarrow> string" where
  "join_comma [] = []"
| "join_comma [x] = x"
| "join_comma (x # y # xs) = x @ '', '' @ join_comma (y # xs)"

definition options_display :: "bytecode_options \<Rightarrow> string" where
  "options_display opts =
     (let names = set_bit_names opts; unknown = unknown_bits opts in
      ''0x'' @ hex2 (opt_raw opts) @
      (if names \<noteq> [] then '' ['' @ join_comma names @ '']'' else []) @
      (if unknown \<noteq> 0 then '' [unknown bits 0x'' @ hex2 unknown @ '']'' else []) @
      (if names = [] \<and> unknown = 0 then '' [none set]'' else []))"

fun first_field :: "cjs_module_form \<Rightarrow> string" where
  "first_field Filenames = ''filename_string_id''"
| "first_field StaticallyResolved = ''module_id''"

fun describe_form :: "cjs_module_form \<Rightarrow> string" where
  "describe_form Filenames = ''filename string ids, options bit 1 clear''"
| "describe_form StaticallyResolved = ''statically resolved module ids, options bit 1 set''"

lemmas option_defs = OPTION_STATIC_BUILTINS_def OPTION_CJS_MODULES_STATICALLY_RESOLVED_def
  OPTION_HAS_ASYNC_def OPTION_HAS_ASYNC_MAX_VERSION_def

text \<open>The decoded view of the options byte loses nothing: the flags it reports and the
  bits it calls unknown determine the byte, and at a version without \<open>hasAsync\<close> a set
  bit 2 is reported as unknown instead of as that flag.\<close>

theorem options_view_complete:
  "opt_raw opts = unknown_bits opts
     OR (if static_builtins opts then OPTION_STATIC_BUILTINS else 0)
     OR (if cjs_modules_statically_resolved opts then OPTION_CJS_MODULES_STATICALLY_RESOLVED else 0)
     OR (if has_async opts = Some True then OPTION_HAS_ASYNC else 0)
   \<and> (has_async opts = None \<longleftrightarrow> 97 < opt_version opts)
   \<and> (bit (unknown_bits opts) 2 \<longleftrightarrow> bit (opt_raw opts) 2 \<and> 97 < opt_version opts)"
proof (intro conjI)
  have f: "opt_raw opts AND push_bit n 1 \<noteq> 0 \<longleftrightarrow> bit (opt_raw opts) n" for n
    using flag_bit_iff[of "opt_raw opts" n] by simp
  show "has_async opts = None \<longleftrightarrow> 97 < opt_version opts"
    by (auto simp: has_async_def option_defs not_le)
  show "bit (unknown_bits opts) 2 \<longleftrightarrow> bit (opt_raw opts) 2 \<and> 97 < opt_version opts"
    by (auto simp: unknown_bits_def defined_mask_def option_defs bit_simps Let_def not_le)
  show "opt_raw opts = unknown_bits opts
     OR (if static_builtins opts then OPTION_STATIC_BUILTINS else 0)
     OR (if cjs_modules_statically_resolved opts then OPTION_CJS_MODULES_STATICALLY_RESOLVED else 0)
     OR (if has_async opts = Some True then OPTION_HAS_ASYNC else 0)"
    unfolding static_builtins_def cjs_modules_statically_resolved_def has_async_def unknown_bits_def
      defined_mask_def Let_def option_defs f
    by (rule u8_eqI) (simp_all add: bit_simps)
qed

section \<open>The file header\<close>

datatype header_layout = Legacy | Modern

datatype function_header_layout = Legacy16 | Modern12

record bytecode_header =
  magic :: u64
  version :: u32
  source_hash :: "u8 list"
  file_length :: u32
  global_code_index :: u32
  function_count :: u32
  string_kind_count :: u32
  identifier_count :: u32
  string_count :: u32
  overflow_string_count :: u32
  string_storage_size :: u32
  big_int_count :: "u32 option"
  big_int_storage_size :: "u32 option"
  reg_exp_count :: u32
  reg_exp_storage_size :: u32
  literal_value_buffer_size :: "u32 option"
  array_buffer_size :: "u32 option"
  obj_key_buffer_size :: u32
  obj_value_buffer_size :: "u32 option"
  obj_shape_table_count :: "u32 option"
  num_string_switch_imms :: "u32 option"
  segment_id :: "u32 option"
  cjs_module_offset :: "u32 option"
  cjs_module_count :: u32
  function_source_count :: "u32 option"
  debug_info_offset :: u32
  options_raw :: u8
  layout :: header_layout
  fn_header_layout :: function_header_layout

text \<open>A header that declares nothing; the instances below start from it.\<close>

definition blank_header :: bytecode_header where
  "blank_header = \<lparr>magic = 0, version = 96, source_hash = replicate 20 0, file_length = 0,
     global_code_index = 0, function_count = 0, string_kind_count = 0, identifier_count = 0,
     string_count = 0, overflow_string_count = 0, string_storage_size = 0, big_int_count = None,
     big_int_storage_size = None, reg_exp_count = 0, reg_exp_storage_size = 0,
     literal_value_buffer_size = None, array_buffer_size = None, obj_key_buffer_size = 0,
     obj_value_buffer_size = None, obj_shape_table_count = None, num_string_switch_imms = None,
     segment_id = None, cjs_module_offset = None, cjs_module_count = 0,
     function_source_count = None, debug_info_offset = 0, options_raw = 0, layout = Legacy,
     fn_header_layout = Legacy16\<rparr>"

definition header_options :: "bytecode_header \<Rightarrow> bytecode_options" where
  "header_options h = \<lparr>opt_raw = options_raw h, opt_version = version h\<rparr>"

section \<open>Function headers\<close>

record legacy_function_header =
  lf_function_id :: u32
  lf_offset :: u32
  lf_param_count :: u32
  lf_bytecode_size :: u32
  lf_function_name :: u32
  lf_info_offset :: u32
  lf_frame_size :: u32
  lf_environment_size :: u32
  lf_highest_read_cache_index :: u32
  lf_highest_write_cache_index :: u32
  lf_flags :: u8

record modern_function_header =
  mf_function_id :: u32
  mf_offset :: u32
  mf_param_count :: u32
  mf_loop_depth :: u32
  mf_bytecode_size :: u32
  mf_function_name :: u32
  mf_number_reg_count :: u32
  mf_non_ptr_reg_count :: u32
  mf_frame_size :: u32
  mf_read_cache_size :: u8
  mf_write_cache_size :: u8
  mf_num_cache_new_object :: u8
  mf_private_name_cache_size :: u8
  mf_flags :: u8
  mf_info_offset :: u32

datatype function_header =
    LegacyHeader legacy_function_header
  | ModernHeader modern_function_header

fun fh_function_id :: "function_header \<Rightarrow> u32" where
  "fh_function_id (LegacyHeader h) = lf_function_id h"
| "fh_function_id (ModernHeader h) = mf_function_id h"

fun fh_offset :: "function_header \<Rightarrow> u32" where
  "fh_offset (LegacyHeader h) = lf_offset h"
| "fh_offset (ModernHeader h) = mf_offset h"

fun fh_bytecode_size :: "function_header \<Rightarrow> u32" where
  "fh_bytecode_size (LegacyHeader h) = lf_bytecode_size h"
| "fh_bytecode_size (ModernHeader h) = mf_bytecode_size h"

fun fh_function_name :: "function_header \<Rightarrow> u32" where
  "fh_function_name (LegacyHeader h) = lf_function_name h"
| "fh_function_name (ModernHeader h) = mf_function_name h"

fun fh_frame_size :: "function_header \<Rightarrow> u32" where
  "fh_frame_size (LegacyHeader h) = lf_frame_size h"
| "fh_frame_size (ModernHeader h) = mf_frame_size h"

fun fh_param_count :: "function_header \<Rightarrow> u32" where
  "fh_param_count (LegacyHeader h) = lf_param_count h"
| "fh_param_count (ModernHeader h) = mf_param_count h"

fun fh_flags :: "function_header \<Rightarrow> u8" where
  "fh_flags (LegacyHeader h) = lf_flags h"
| "fh_flags (ModernHeader h) = mf_flags h"

definition is_overflowed :: "function_header \<Rightarrow> bool" where
  "is_overflowed h \<longleftrightarrow> fh_flags h AND FLAG_OVERFLOWED \<noteq> 0"

definition prohibit_invoke :: "function_header \<Rightarrow> u8" where
  "prohibit_invoke h = fh_flags h AND MASK_PROHIBIT_INVOKE"

definition prohibit_construct :: "function_header \<Rightarrow> bool" where
  "prohibit_construct h \<longleftrightarrow> prohibit_invoke h = PROHIBIT_CONSTRUCT"

definition prohibit_call :: "function_header \<Rightarrow> bool" where
  "prohibit_call h \<longleftrightarrow> prohibit_invoke h = PROHIBIT_CALL"

definition has_debug_info :: "function_header \<Rightarrow> bool" where
  "has_debug_info h \<longleftrightarrow> fh_flags h AND FLAG_HAS_DEBUG_INFO \<noteq> 0"

definition has_exception_handler :: "function_header \<Rightarrow> bool" where
  "has_exception_handler h \<longleftrightarrow> fh_flags h AND FLAG_HAS_EXCEPTION_HANDLER \<noteq> 0"

definition is_strict :: "function_header \<Rightarrow> bool" where
  "is_strict h \<longleftrightarrow> fh_flags h AND FLAG_STRICT \<noteq> 0"

definition is_likely_arrow :: "function_header \<Rightarrow> bool" where
  "is_likely_arrow h = prohibit_construct h"

fun fh_environment_size :: "function_header \<Rightarrow> u32 option" where
  "fh_environment_size (LegacyHeader h) = Some (lf_environment_size h)"
| "fh_environment_size (ModernHeader h) = None"

lemma flag_accessors:
  "is_overflowed h \<longleftrightarrow> bit (fh_flags h) 5"
  "has_debug_info h \<longleftrightarrow> bit (fh_flags h) 4"
  "has_exception_handler h \<longleftrightarrow> bit (fh_flags h) 3"
  "is_strict h \<longleftrightarrow> bit (fh_flags h) 2"
  by (simp_all add: is_overflowed_def has_debug_info_def has_exception_handler_def is_strict_def
      flag_defs flag_bits_u8)

end
