(* ===== verification/Modern_Layout.thy ===== *)
theory Modern_Layout
  imports Format
begin

text \<open>
  \<open>ModernLayout\<close> (\<open>crates/hbc-decomp/src/modern_layout.rs\<close>): the byte layout of the
  out-of-line function header of a modern bytecode version.  Versions 98 and 99 are
  known; every other one is refused.
\<close>

definition MODERN_FUNCTION_HEADER_MIN_VERSION :: u32 where
  "MODERN_FUNCTION_HEADER_MIN_VERSION = 97"

definition MODERN_SMALL_HEADER_SIZE :: nat where "MODERN_SMALL_HEADER_SIZE = 12"
definition MODERN_SMALL_FLAGS_POS :: nat where "MODERN_SMALL_FLAGS_POS = 11"
definition MODERN_LARGE_OFFSET :: nat where "MODERN_LARGE_OFFSET = 0"
definition MODERN_LARGE_PARAM_COUNT :: nat where "MODERN_LARGE_PARAM_COUNT = 4"
definition MODERN_LARGE_LOOP_DEPTH :: nat where "MODERN_LARGE_LOOP_DEPTH = 8"
definition MODERN_LARGE_BYTECODE_SIZE :: nat where "MODERN_LARGE_BYTECODE_SIZE = 12"
definition MODERN_LARGE_FUNCTION_NAME :: nat where "MODERN_LARGE_FUNCTION_NAME = 16"
definition MODERN_LARGE_NUMBER_REG_COUNT :: nat where "MODERN_LARGE_NUMBER_REG_COUNT = 20"
definition MODERN_LARGE_NON_PTR_REG_COUNT :: nat where "MODERN_LARGE_NON_PTR_REG_COUNT = 24"
definition MODERN_LARGE_FRAME_SIZE :: nat where "MODERN_LARGE_FRAME_SIZE = 28"
definition MODERN_LARGE_U8_TAIL :: nat where "MODERN_LARGE_U8_TAIL = 32"

lemmas modern_large_defs = MODERN_LARGE_OFFSET_def MODERN_LARGE_PARAM_COUNT_def
  MODERN_LARGE_LOOP_DEPTH_def MODERN_LARGE_BYTECODE_SIZE_def MODERN_LARGE_FUNCTION_NAME_def
  MODERN_LARGE_NUMBER_REG_COUNT_def MODERN_LARGE_NON_PTR_REG_COUNT_def MODERN_LARGE_FRAME_SIZE_def
  MODERN_LARGE_U8_TAIL_def

record modern_layout =
  ml_version :: u32
  ml_has_num_cache_new_object :: bool

definition modern_layout_for_version :: "u32 \<Rightarrow> modern_layout result" where
  "modern_layout_for_version v =
     (if v = 98 then Inr \<lparr>ml_version = v, ml_has_num_cache_new_object = True\<rparr>
      else if v = 99 then Inr \<lparr>ml_version = v, ml_has_num_cache_new_object = False\<rparr>
      else if v = 97 then Inl (Parse ''HBC v{version} uses the pre-2025-02-25 modern function-header layout'' [fword v])
      else if MODERN_FUNCTION_HEADER_MIN_VERSION \<le> v
      then Inl (Parse ''HBC v{v} modern function-header layout is not known to this build'' [fword v])
      else Inl (Parse ''HBC v{v} is not a modern (v{MODERN_FUNCTION_HEADER_MIN_VERSION}+) layout''
                 [fword v, fword MODERN_FUNCTION_HEADER_MIN_VERSION]))"

definition large_size :: "modern_layout \<Rightarrow> nat" where
  "large_size l = MODERN_LARGE_U8_TAIL + (if ml_has_num_cache_new_object l then 5 else 4)"

definition large_read_cache_size_pos :: "modern_layout \<Rightarrow> nat" where
  "large_read_cache_size_pos l = MODERN_LARGE_U8_TAIL"

definition large_write_cache_size_pos :: "modern_layout \<Rightarrow> nat" where
  "large_write_cache_size_pos l = MODERN_LARGE_U8_TAIL + 1"

definition large_num_cache_new_object_pos :: "modern_layout \<Rightarrow> nat option" where
  "large_num_cache_new_object_pos l =
     (if ml_has_num_cache_new_object l then Some (MODERN_LARGE_U8_TAIL + 2) else None)"

definition large_private_name_cache_size_pos :: "modern_layout \<Rightarrow> nat" where
  "large_private_name_cache_size_pos l =
     MODERN_LARGE_U8_TAIL + (if ml_has_num_cache_new_object l then 3 else 2)"

definition large_flags_pos :: "modern_layout \<Rightarrow> nat" where
  "large_flags_pos l = large_size l - 1"

text \<open>\<open>(large_ptr + size + 3) & !3\<close> on a \<open>usize\<close> clears the two low bits.\<close>

definition info_offset_for :: "modern_layout \<Rightarrow> nat \<Rightarrow> nat" where
  "info_offset_for l large_ptr = (large_ptr + large_size l + 3) div 4 * 4"

definition small_write_cache_bits :: "modern_layout \<Rightarrow> nat" where
  "small_write_cache_bits l = (if ml_has_num_cache_new_object l then 6 else 7)"

definition tail_positions :: "modern_layout \<Rightarrow> nat list" where
  "tail_positions l =
     [large_read_cache_size_pos l, large_write_cache_size_pos l] @
     (case large_num_cache_new_object_pos l of Some p \<Rightarrow> [p] | None \<Rightarrow> []) @
     [large_private_name_cache_size_pos l, large_flags_pos l]"

lemmas large_pos_defs = large_size_def large_read_cache_size_pos_def large_write_cache_size_pos_def
  large_num_cache_new_object_pos_def large_private_name_cache_size_pos_def large_flags_pos_def
  modern_large_defs

lemma modern_layout_known:
  "modern_layout_for_version v = Inr l \<longleftrightarrow>
     (v = 98 \<or> v = 99) \<and> l = \<lparr>ml_version = v, ml_has_num_cache_new_object = (v = 98)\<rparr>"
  by (auto simp: modern_layout_for_version_def)

lemma large_size_bounds: "36 \<le> large_size l \<and> large_size l \<le> 37"
  by (simp add: large_pos_defs)

text \<open>In every layout the byte fields of a large header tile its tail: their positions
  are consecutive from byte 32 to the last byte of the header, the flags byte being last,
  so no two fields share a byte and none is skipped.\<close>

theorem large_tail_tiles:
  "tail_positions l = [MODERN_LARGE_U8_TAIL..<large_size l]"
  by (simp add: tail_positions_def large_pos_defs upt_rec)

text \<open>The function info of a large header starts at the first multiple of four at or
  after the end of that header.\<close>

theorem info_offset_least_aligned:
  "info_offset_for l p = (LEAST q. p + large_size l \<le> q \<and> 4 dvd q)"
proof (rule Least_equality[symmetric])
  let ?n = "p + large_size l"
  have "(?n + 3) div 4 * 4 + (?n + 3) mod 4 = ?n + 3" by (rule div_mult_mod_eq)
  moreover have "(?n + 3) mod 4 < 4" by simp
  ultimately show "?n \<le> info_offset_for l p \<and> 4 dvd info_offset_for l p"
    by (simp add: info_offset_for_def)
next
  fix q assume q: "p + large_size l \<le> q \<and> 4 dvd q"
  then obtain k where k: "q = 4 * k" by blast
  then have "p + large_size l + 3 < 4 * (k + 1)" using q by simp
  then have "(p + large_size l + 3) div 4 < k + 1" by (simp add: div_less_iff_less_mult)
  then show "info_offset_for l p \<le> q" by (simp add: info_offset_for_def k)
qed

end
