(* ===== verification/Bit_Fields.thy ===== *)
theory Bit_Fields
  imports Hbc_Prelude
begin

text \<open>
  Bit fields of a packed 128-bit word, as the function headers use them:
  \<open>(raw >> p) & ((1 << w) - 1)\<close> reads the field of width \<open>w\<close> at bit \<open>p\<close>, and
  \<open>(v & ((1 << w) - 1)) << p\<close> is the word with that field set.
\<close>

named_theorems field_simps \<open>reading and writing packed bit fields\<close>

definition bits :: "u128 \<Rightarrow> nat \<Rightarrow> nat \<Rightarrow> 'a::len word" where
  "bits raw p w = ucast (drop_bit p raw AND mask w)"

definition put_bits :: "'a::len word \<Rightarrow> nat \<Rightarrow> nat \<Rightarrow> u128" where
  "put_bits v p w = push_bit p (ucast v AND mask w)"

definition clear_bits :: "u128 \<Rightarrow> nat \<Rightarrow> nat \<Rightarrow> u128" where
  "clear_bits raw p w = raw AND NOT (push_bit p (mask w))"

lemma bit_bits: "bit (bits raw p w :: 'a::len word) i \<longleftrightarrow> i < LENGTH('a) \<and> i < w \<and> bit raw (p + i)"
  using bit_imp_le_length[of raw "p + i"] by (auto simp: bits_def bit_simps add.commute)

lemma bit_put_bits:
  "bit (put_bits (v :: 'a::len word) p w) i \<longleftrightarrow> i < 128 \<and> p \<le> i \<and> i < p + w \<and> bit v (i - p)"
  using bit_imp_le_length[of v "i - p"] by (auto simp: put_bits_def bit_simps)

lemma bit_clear_bits: "bit (clear_bits raw p w) i \<longleftrightarrow> bit raw i \<and> (i < p \<or> p + w \<le> i)"
  using bit_imp_le_length[of raw i] by (auto simp: clear_bits_def bit_simps)

lemma bits_OR [field_simps]: "bits (x OR y) p w = bits x p w OR bits y p w"
  by (rule bit_word_eqI) (auto simp: bit_bits bit_or_iff)

lemma bits_put_same [field_simps]:
  fixes v :: "'a::len word"
  assumes "unat v < 2 ^ w" and "p + w \<le> 128"
  shows "bits (put_bits v p w) p w = v"
proof (rule bit_word_eqI)
  fix i assume "i < LENGTH('a)"
  then show "bit (bits (put_bits v p w) p w :: 'a word) i = bit v i"
    using assms bit_less_if[OF assms(1), of i] by (auto simp: bit_bits bit_put_bits)
qed

lemma bits_put_other [field_simps]:
  "q + w' \<le> p \<or> p + w \<le> q \<Longrightarrow> bits (put_bits v q w') p w = (0 :: 'a::len word)"
  by (rule bit_word_eqI) (auto simp: bit_bits bit_put_bits)

lemma bits_clear_other [field_simps]:
  "q + w' \<le> p \<or> p + w \<le> q \<Longrightarrow> bits (clear_bits x q w') p w = (bits x p w :: 'a::len word)"
  by (rule bit_word_eqI) (auto simp: bit_bits bit_clear_bits)

lemma bits_put_wide:
  fixes v :: "'a::len word"
  assumes "w \<le> w'" and "p + w \<le> 128"
  shows "bits (put_bits v p w) p w' = (ucast (take_bit w v) :: 'b::len word)"
  using assms bit_imp_le_length[of v]
  by (intro bit_word_eqI) (auto simp: bit_bits bit_put_bits bit_ucast_iff bit_take_bit_iff)

lemma bits_clear_same [field_simps]:
  "q \<le> p \<Longrightarrow> p + w \<le> q + w' \<Longrightarrow> bits (clear_bits x q w') p w = (0 :: 'a::len word)"
  by (rule bit_word_eqI) (auto simp: bit_bits bit_clear_bits)

lemma bits_take_bit [field_simps]:
  "p + w \<le> n \<Longrightarrow> bits (take_bit n x) p w = (bits x p w :: 'a::len word)"
  by (rule bit_word_eqI) (auto simp: bit_bits bit_take_bit_iff)

lemma unat_bits_less: "unat (bits x p w :: 'a::len word) < 2 ^ w"
proof -
  have "take_bit w (bits x p w :: 'a word) = bits x p w"
    by (rule bit_word_eqI) (auto simp: bit_take_bit_iff bit_bits)
  then show ?thesis using take_bit_eq_iff_less by blast
qed

lemma from_le_append_zeros: "from_le (bs @ replicate n 0) = (from_le bs :: 'a::len word)"
proof (rule bit_word_eqI)
  fix i
  show "bit (from_le (bs @ replicate n 0) :: 'a word) i = bit (from_le bs :: 'a word) i"
  proof (cases "i div 8 < length bs")
    case True
    then show ?thesis by (auto simp: bit_from_le nth_append)
  next
    case False
    then have "\<not> i < 8 * length bs" by simp
    then show ?thesis using False by (auto simp: bit_from_le nth_append)
  qed
qed

lemma from_le_zeros [field_simps]: "from_le (replicate n 0) = (0 :: 'a::len word)"
  using from_le_append_zeros[of "[]" n] by simp

lemma bits_zero [field_simps]: "bits 0 p w = (0 :: 'a::len word)"
  by (simp add: bits_def)

lemma take_le_bytes: "n \<le> m \<Longrightarrow> take n (le_bytes m w) = le_bytes n w"
  by (simp add: le_bytes_def take_map)

end
