(* ===== verification/Header.thy ===== *)
theory Header
  imports Modern_Layout
begin

text \<open>
  The 128-byte file header: \<open>crates/hbc-decomp/src/file/parser/header.rs\<close> reads it,
  \<open>crates/hbc-decomp/src/write/header_write.rs\<close> writes it, and the theorems say that
  reading gives back what was written, in both layouts.
\<close>

definition MAGIC :: u64 where "MAGIC = 0x1F1903C103BC1FC6"
definition HEADER_SIZE :: nat where "HEADER_SIZE = 128"
definition LEGACY_BIGINT_MIN_VERSION :: u32 where "LEGACY_BIGINT_MIN_VERSION = 87"
definition LEGACY_SEGMENT_ID_MIN_VERSION :: u32 where "LEGACY_SEGMENT_ID_MIN_VERSION = 78"
definition LEGACY_FUNCTION_SOURCE_MIN_VERSION :: u32 where "LEGACY_FUNCTION_SOURCE_MIN_VERSION = 84"

lemmas min_version_defs = LEGACY_BIGINT_MIN_VERSION_def LEGACY_SEGMENT_ID_MIN_VERSION_def
  LEGACY_FUNCTION_SOURCE_MIN_VERSION_def MODERN_FUNCTION_HEADER_MIN_VERSION_def

definition infer_function_header_layout :: "u32 \<Rightarrow> function_header_layout" where
  "infer_function_header_layout v =
     (if MODERN_FUNCTION_HEADER_MIN_VERSION \<le> v then Modern12 else Legacy16)"

definition peek_version :: "u8 list \<Rightarrow> u32 result" where
  "peek_version bytes =
     (if length bytes < 12 then Inl (Parse ''file too small'' [])
      else res_bind (read_u64 (new_reader bytes)) (\<lambda>(m, r).
             if m \<noteq> MAGIC then Inl (Parse ''invalid magic header'' [])
             else res_bind (read_u32 r) (\<lambda>(v, _). Inr v)))"

text \<open>An optional field: read when the version carries it.\<close>

definition read_if :: "bool \<Rightarrow> 'a read_op \<Rightarrow> 'a option read_op" where
  "read_if b m = (if b then rd_map Some m else rd_ret None)"

definition parse_legacy_header :: "u32 \<Rightarrow> u64 \<Rightarrow> u8 list \<Rightarrow> bytecode_header read_op" where
  "parse_legacy_header ver mag hash =
     rd_bind read_u32 (\<lambda>file_length.
     rd_bind read_u32 (\<lambda>global_code_index.
     rd_bind read_u32 (\<lambda>function_count.
     rd_bind read_u32 (\<lambda>string_kind_count.
     rd_bind read_u32 (\<lambda>identifier_count.
     rd_bind read_u32 (\<lambda>string_count.
     rd_bind read_u32 (\<lambda>overflow_string_count.
     rd_bind read_u32 (\<lambda>string_storage_size.
     rd_bind (read_if (LEGACY_BIGINT_MIN_VERSION \<le> ver) read_u32) (\<lambda>big_int_count.
     rd_bind (read_if (LEGACY_BIGINT_MIN_VERSION \<le> ver) read_u32) (\<lambda>big_int_storage_size.
     rd_bind read_u32 (\<lambda>reg_exp_count.
     rd_bind read_u32 (\<lambda>reg_exp_storage_size.
     rd_bind read_u32 (\<lambda>array_buffer_size.
     rd_bind read_u32 (\<lambda>obj_key_buffer_size.
     rd_bind read_u32 (\<lambda>obj_value_buffer_size.
     rd_bind (if LEGACY_SEGMENT_ID_MIN_VERSION \<le> ver
              then rd_map (\<lambda>x. (Some x, None)) read_u32
              else rd_map (\<lambda>x. (None, Some x)) read_u32) (\<lambda>(segment_id, cjs_module_offset).
     rd_bind read_u32 (\<lambda>cjs_module_count.
     rd_bind (read_if (LEGACY_FUNCTION_SOURCE_MIN_VERSION \<le> ver) read_u32) (\<lambda>function_source_count.
     rd_bind read_u32 (\<lambda>debug_info_offset.
     rd_bind read_u8 (\<lambda>options_raw.
     rd_ret \<lparr>magic = mag, version = ver, source_hash = hash, file_length = file_length,
       global_code_index = global_code_index, function_count = function_count,
       string_kind_count = string_kind_count, identifier_count = identifier_count,
       string_count = string_count, overflow_string_count = overflow_string_count,
       string_storage_size = string_storage_size, big_int_count = big_int_count,
       big_int_storage_size = big_int_storage_size, reg_exp_count = reg_exp_count,
       reg_exp_storage_size = reg_exp_storage_size, literal_value_buffer_size = None,
       array_buffer_size = Some array_buffer_size, obj_key_buffer_size = obj_key_buffer_size,
       obj_value_buffer_size = Some obj_value_buffer_size, obj_shape_table_count = None,
       num_string_switch_imms = None, segment_id = segment_id,
       cjs_module_offset = cjs_module_offset, cjs_module_count = cjs_module_count,
       function_source_count = function_source_count, debug_info_offset = debug_info_offset,
       options_raw = options_raw, layout = Legacy,
       fn_header_layout = infer_function_header_layout ver\<rparr>))))))))))))))))))))"

definition parse_modern_header :: "u32 \<Rightarrow> u64 \<Rightarrow> u8 list \<Rightarrow> bytecode_header read_op" where
  "parse_modern_header ver mag hash =
     rd_bind read_u32 (\<lambda>file_length.
     rd_bind read_u32 (\<lambda>global_code_index.
     rd_bind read_u32 (\<lambda>function_count.
     rd_bind read_u32 (\<lambda>string_kind_count.
     rd_bind read_u32 (\<lambda>identifier_count.
     rd_bind read_u32 (\<lambda>string_count.
     rd_bind read_u32 (\<lambda>overflow_string_count.
     rd_bind read_u32 (\<lambda>string_storage_size.
     rd_bind read_u32 (\<lambda>big_int_count.
     rd_bind read_u32 (\<lambda>big_int_storage_size.
     rd_bind read_u32 (\<lambda>reg_exp_count.
     rd_bind read_u32 (\<lambda>reg_exp_storage_size.
     rd_bind read_u32 (\<lambda>literal_value_buffer_size.
     rd_bind read_u32 (\<lambda>obj_key_buffer_size.
     rd_bind read_u32 (\<lambda>obj_shape_table_count.
     rd_bind read_u32 (\<lambda>num_string_switch_imms.
     rd_bind read_u32 (\<lambda>segment_id.
     rd_bind read_u32 (\<lambda>cjs_module_count.
     rd_bind read_u32 (\<lambda>function_source_count.
     rd_bind read_u32 (\<lambda>debug_info_offset.
     rd_bind read_u8 (\<lambda>options_raw.
     rd_ret \<lparr>magic = mag, version = ver, source_hash = hash, file_length = file_length,
       global_code_index = global_code_index, function_count = function_count,
       string_kind_count = string_kind_count, identifier_count = identifier_count,
       string_count = string_count, overflow_string_count = overflow_string_count,
       string_storage_size = string_storage_size, big_int_count = Some big_int_count,
       big_int_storage_size = Some big_int_storage_size, reg_exp_count = reg_exp_count,
       reg_exp_storage_size = reg_exp_storage_size,
       literal_value_buffer_size = Some literal_value_buffer_size,
       array_buffer_size = None, obj_key_buffer_size = obj_key_buffer_size,
       obj_value_buffer_size = None, obj_shape_table_count = Some obj_shape_table_count,
       num_string_switch_imms = Some num_string_switch_imms, segment_id = Some segment_id,
       cjs_module_offset = None, cjs_module_count = cjs_module_count,
       function_source_count = Some function_source_count, debug_info_offset = debug_info_offset,
       options_raw = options_raw, layout = Modern,
       fn_header_layout = infer_function_header_layout ver\<rparr>)))))))))))))))))))))"

text \<open>The part of \<open>parse_with_layout\<close> (\<open>parsing.rs\<close>) that reads the header: magic, version,
  source hash, then the fields of the layout asked for.\<close>

definition read_header :: "header_layout \<Rightarrow> function_header_layout \<Rightarrow> bytecode_header read_op" where
  "read_header lay fn_layout =
     rd_bind read_u64 (\<lambda>m.
     if m \<noteq> MAGIC then rd_fail (Parse ''invalid magic header: expected {MAGIC:#x} got {magic:#x}'' [fword MAGIC, fword m])
     else rd_bind read_u32 (\<lambda>ver.
     rd_bind (read_bytes 20) (\<lambda>hash.
     rd_bind (case lay of Legacy \<Rightarrow> parse_legacy_header ver m hash
              | Modern \<Rightarrow> parse_modern_header ver m hash) (\<lambda>h.
     rd_ret (h\<lparr>fn_header_layout := fn_layout\<rparr>)))))"

section \<open>Writers\<close>

definition write_modern_header ::
  "u8 list \<Rightarrow> u32 \<Rightarrow> u8 list \<Rightarrow> u32 \<Rightarrow> u32 \<Rightarrow> u32 \<Rightarrow> u32 \<Rightarrow> u32 \<Rightarrow> u8 list result" where
  "write_modern_header buf ver hash fn_count kind_count ident_count str_count
     storage_size =
     (if length buf < 128 then Inl (Write ''modern header buffer too small'' [])
      else let fields = [fn_count, kind_count, ident_count, str_count, 0,
                         storage_size, 0, 0, 0, 0, 0, 0, 0, 0, 0, 0, 0, 0, 0] in
           Inr (put_seq (put_seq buf 0 [le_bytes 8 MAGIC, le_bytes 4 ver, hash])
                  40 (map (le_bytes 4) fields)))"

definition write_legacy_header ::
  "u8 list \<Rightarrow> u32 \<Rightarrow> u8 list \<Rightarrow> u32 \<Rightarrow> u32 \<Rightarrow> u32 \<Rightarrow> u32 \<Rightarrow> u32 \<Rightarrow> u32 \<Rightarrow> u32 \<Rightarrow> u32 \<Rightarrow>
   bool \<Rightarrow> u32 \<Rightarrow> u32 \<Rightarrow> u32 \<Rightarrow> u32 \<Rightarrow> u32 \<Rightarrow> u32 \<Rightarrow> u32 \<Rightarrow> bool \<Rightarrow> u32 \<Rightarrow> u32 \<Rightarrow> bool \<Rightarrow> u32 \<Rightarrow>
   u32 \<Rightarrow> u8 \<Rightarrow> u8 list result" where
  "write_legacy_header buf ver hash flen gci fn_count kind_count
     ident_count str_count ovf_count storage_size
     has_bigint bigint_count bigint_size re_count re_size
     array_size key_size value_size has_segment_id segment
     cjs_count has_function_source source_count debug_offset opts =
     (if length buf < 128 then Inl (Write ''buffer too small for header'' [])
      else Inr (put_seq buf 0
        ([le_bytes 8 MAGIC, le_bytes 4 ver, hash, le_bytes 4 flen,
          le_bytes 4 gci, le_bytes 4 fn_count, le_bytes 4 kind_count,
          le_bytes 4 ident_count, le_bytes 4 str_count, le_bytes 4 ovf_count,
          le_bytes 4 storage_size] @
         (if has_bigint then [le_bytes 4 bigint_count, le_bytes 4 bigint_size] else []) @
         [le_bytes 4 re_count, le_bytes 4 re_size, le_bytes 4 array_size,
          le_bytes 4 key_size, le_bytes 4 value_size] @
         (if has_segment_id then [le_bytes 4 segment] else [le_bytes 4 (0 :: u32)]) @
         [le_bytes 4 cjs_count] @
         (if has_function_source then [le_bytes 4 source_count] else []) @
         [le_bytes 4 debug_offset, [opts]])))"

section \<open>Reading back what was written\<close>

lemma bind_exact_at:
  "\<lbrakk>length a = n; length pre + length (a @ suf) \<le> usize_max\<rbrakk>
   \<Longrightarrow> rd_bind (read_exact n) f (reader_at pre (a @ suf)) = f a (reader_at (pre @ a) suf)"
  by (rule rd_bind_Inr) (rule read_exact_at)

lemma bind_read_if_at:
  assumes "length pre + length (le_bytes 4 x @ rest) \<le> usize_max"
  shows "rd_bind (read_if True read_u32) f (reader_at pre (le_bytes 4 x @ rest)) =
      f (Some x) (reader_at (pre @ le_bytes 4 x) rest)"
    and "rd_bind (rd_map g read_u32) f' (reader_at pre (le_bytes 4 x @ rest)) =
      f' (g x) (reader_at (pre @ le_bytes 4 x) rest)"
  using u32.get_at[OF TrueI assms] by (simp_all add: read_if_def rd_bind_def rd_map_def)

lemma bind_read_if_False: "rd_bind (read_if False m) f = f None"
  by (simp add: read_if_def)

lemmas header_run = read_header_def rd_bind_assoc bind_at_simps bind_exact_at bind_read_if_at bind_read_if_False
  read_bytes_def

lemma read_written_legacy_header:
  assumes "write_legacy_header buf ver hash flen gci fn_count kind_count ident_count str_count
      ovf_count storage_size (87 \<le> ver) bigint_count bigint_size re_count re_size array_size key_size
      value_size (78 \<le> ver) segment cjs_count (84 \<le> ver) source_count debug_offset opts = Inr out"
    and "length hash = 20" and "length buf \<le> usize_max"
  shows "read_header Legacy lay (new_reader out) = Inr (
    \<lparr>magic = MAGIC, version = ver, source_hash = hash, file_length = flen, global_code_index = gci,
     function_count = fn_count, string_kind_count = kind_count, identifier_count = ident_count,
     string_count = str_count, overflow_string_count = ovf_count, string_storage_size = storage_size,
     big_int_count = (if 87 \<le> ver then Some bigint_count else None),
     big_int_storage_size = (if 87 \<le> ver then Some bigint_size else None),
     reg_exp_count = re_count, reg_exp_storage_size = re_size, literal_value_buffer_size = None,
     array_buffer_size = Some array_size, obj_key_buffer_size = key_size,
     obj_value_buffer_size = Some value_size, obj_shape_table_count = None,
     num_string_switch_imms = None, segment_id = (if 78 \<le> ver then Some segment else None),
     cjs_module_offset = (if 78 \<le> ver then None else Some 0), cjs_module_count = cjs_count,
     function_source_count = (if 84 \<le> ver then Some source_count else None),
     debug_info_offset = debug_offset, options_raw = opts, layout = Legacy, fn_header_layout = lay\<rparr>,
    (new_reader out)\<lparr>pos := 97 + (if 87 \<le> ver then 8 else 0) + (if 84 \<le> ver then 4 else 0)\<rparr>)"
proof -
  obtain rest where out: "out = le_bytes 8 MAGIC @ le_bytes 4 ver @ hash @ le_bytes 4 flen @
      le_bytes 4 gci @ le_bytes 4 fn_count @ le_bytes 4 kind_count @ le_bytes 4 ident_count @
      le_bytes 4 str_count @ le_bytes 4 ovf_count @ le_bytes 4 storage_size @
      (if 87 \<le> ver then le_bytes 4 bigint_count @ le_bytes 4 bigint_size else []) @
      le_bytes 4 re_count @ le_bytes 4 re_size @ le_bytes 4 array_size @ le_bytes 4 key_size @
      le_bytes 4 value_size @ le_bytes 4 (if 78 \<le> ver then segment else 0) @ le_bytes 4 cjs_count @
      (if 84 \<le> ver then le_bytes 4 source_count else []) @ le_bytes 4 debug_offset @ opts # rest"
    and len: "length out \<le> usize_max"
    using assms by (auto simp: write_legacy_header_def put_seq_eq put_at_0 simp del: put_seq.simps split: if_splits)
  have ver: "78 \<le> ver" if "84 \<le> ver" using that by (rule order_trans[rotated]) simp
  have ver': "84 \<le> ver" if "87 \<le> ver" using that by (rule order_trans[rotated]) simp
  consider "87 \<le> ver" | "\<not> 87 \<le> ver" "84 \<le> ver" | "\<not> 87 \<le> ver" "\<not> 84 \<le> ver" "78 \<le> ver"
    | "\<not> 87 \<le> ver" "\<not> 84 \<le> ver" "\<not> 78 \<le> ver" by blast
  then show ?thesis
  proof cases
    case 1
    then show ?thesis using len ver ver' assms(2)
      by (simp add: out header_run parse_legacy_header_def min_version_defs new_reader_at)
  next
    case 2
    then show ?thesis using len ver assms(2)
      by (simp add: out header_run parse_legacy_header_def min_version_defs new_reader_at)
  next
    case 3
    then show ?thesis using len assms(2)
      by (simp add: out header_run parse_legacy_header_def min_version_defs new_reader_at)
  next
    case 4
    then show ?thesis using len assms(2)
      by (simp add: out header_run parse_legacy_header_def min_version_defs new_reader_at)
  qed
qed

text \<open>C14: Reading the header of an image whose header the legacy writer produced gives back
  every argument of the writer, whenever the three optional fields were written exactly for
  the versions that carry them.\<close>

theorem legacy_header_roundtrip:
  assumes "write_legacy_header buf ver hash flen gci fn_count kind_count ident_count str_count
      ovf_count storage_size (87 \<le> ver) bigint_count bigint_size re_count re_size array_size key_size
      value_size (78 \<le> ver) segment cjs_count (84 \<le> ver) source_count debug_offset opts = Inr out"
    and "length hash = 20" and "length buf \<le> usize_max"
  shows "read_header Legacy lay (new_reader out) = Inr (
    \<lparr>magic = MAGIC, version = ver, source_hash = hash, file_length = flen, global_code_index = gci,
     function_count = fn_count, string_kind_count = kind_count, identifier_count = ident_count,
     string_count = str_count, overflow_string_count = ovf_count, string_storage_size = storage_size,
     big_int_count = (if 87 \<le> ver then Some bigint_count else None),
     big_int_storage_size = (if 87 \<le> ver then Some bigint_size else None),
     reg_exp_count = re_count, reg_exp_storage_size = re_size, literal_value_buffer_size = None,
     array_buffer_size = Some array_size, obj_key_buffer_size = key_size,
     obj_value_buffer_size = Some value_size, obj_shape_table_count = None,
     num_string_switch_imms = None, segment_id = (if 78 \<le> ver then Some segment else None),
     cjs_module_offset = (if 78 \<le> ver then None else Some 0), cjs_module_count = cjs_count,
     function_source_count = (if 84 \<le> ver then Some source_count else None),
     debug_info_offset = debug_offset, options_raw = opts, layout = Legacy, fn_header_layout = lay\<rparr>,
    (new_reader out)\<lparr>pos := 97 + (if 87 \<le> ver then 8 else 0) + (if 84 \<le> ver then 4 else 0)\<rparr>)"
  using assms by (rule read_written_legacy_header)

theorem legacy_header_roundtrip_witness:
  "\<exists>h r. read_header Legacy Legacy16 (new_reader (projr (write_legacy_header (replicate 128 0) 96
      (replicate 20 7) 128 0 3 1 2 5 1 40 True 1 8 0 0 4 5 6 True 9 0 True 0 120 4))) = Inr (h, r)
    \<and> string_count h = 5 \<and> function_source_count h = Some 0 \<and> options_raw h = 4"
proof -
  obtain out where out: "write_legacy_header (replicate 128 0) 96 (replicate 20 7) 128 0 3 1 2 5 1 40
      (87 \<le> (96 :: u32)) 1 8 0 0 4 5 6 (78 \<le> (96 :: u32)) 9 0 (84 \<le> (96 :: u32)) 0 120 4 = Inr out"
    by (simp add: write_legacy_header_def del: put_seq.simps)
  from legacy_header_roundtrip[OF out, of Legacy16] out show ?thesis by (simp add: usize_max_def)
qed

lemma read_written_modern_header:
  assumes "write_modern_header buf ver hash fn_count kind_count ident_count str_count storage_size = Inr out"
    and "length hash = 20" and "length buf \<le> usize_max"
  shows "read_header Modern lay (new_reader out) = Inr (
    \<lparr>magic = MAGIC, version = ver, source_hash = hash, file_length = from_le (get_at 4 buf 32),
     global_code_index = from_le (get_at 4 buf 36), function_count = fn_count,
     string_kind_count = kind_count, identifier_count = ident_count, string_count = str_count,
     overflow_string_count = 0, string_storage_size = storage_size, big_int_count = Some 0,
     big_int_storage_size = Some 0, reg_exp_count = 0, reg_exp_storage_size = 0,
     literal_value_buffer_size = Some 0, array_buffer_size = None, obj_key_buffer_size = 0,
     obj_value_buffer_size = None, obj_shape_table_count = Some 0, num_string_switch_imms = Some 0,
     segment_id = Some 0, cjs_module_offset = None, cjs_module_count = 0,
     function_source_count = Some 0, debug_info_offset = 0, options_raw = 0, layout = Modern,
     fn_header_layout = lay\<rparr>,
    (new_reader out)\<lparr>pos := 113\<rparr>)"
proof -
  have buf: "128 \<le> length buf" using assms(1) by (simp add: write_modern_header_def split: if_splits)
  let ?fields = "[fn_count, kind_count, ident_count, str_count, 0, storage_size,
      0, 0, 0, 0, 0, 0, 0, 0, 0, 0, 0, 0, 0 :: u32]"
  define start where "start = le_bytes 8 MAGIC @ le_bytes 4 ver @ hash"
  have start: "length start = 32" using assms(2) by (simp add: start_def)
  define fields where "fields = concat (map (le_bytes 4) ?fields)"
  have fields: "length fields = 76" by (simp add: fields_def)
  define rest where "rest = drop 116 buf"
  have "buf = take 32 buf @ get_at 8 buf 32 @ get_at 76 buf 40 @ rest"
    using split_slice[of 32 84 buf] buf by (simp add: get_at_add[of 8 76, simplified] rest_def)
  moreover have "put_at (put_at (take 32 buf @ get_at 8 buf 32 @ get_at 76 buf 40 @ rest) 0 start) 40 fields =
      start @ get_at 8 buf 32 @ fields @ rest"
    using start fields buf put_at_mid[of "[]" 0 "take 32 buf" start]
      put_at_mid[of "start @ get_at 8 buf 32" 40 "get_at 76 buf 40" fields rest]
    by simp
  ultimately have "put_at (put_at buf 0 start) 40 fields = start @ get_at 8 buf 32 @ fields @ rest"
    by metis
  moreover have "out = put_at (put_at buf 0 start) 40 fields"
    using assms(1,2) buf
    by (simp only: write_modern_header_def put_seq_eq start_def fields_def Let_def if_False not_less
        sum.inject concat.simps append_Nil2 length_append length_le_bytes list.map length_put_at)
      simp
  moreover have "get_at 8 buf 32 = le_bytes 4 (from_le (get_at 4 buf 32) :: u32)
      @ le_bytes 4 (from_le (get_at 4 buf 36) :: u32)"
    using buf get_at_add[of 4 4 buf 32] by (simp add: le_bytes_from_le)
  ultimately have out: "out = le_bytes 8 MAGIC @ le_bytes 4 ver @ hash @
      le_bytes 4 (from_le (get_at 4 buf 32) :: u32) @ le_bytes 4 (from_le (get_at 4 buf 36) :: u32) @
      fields @ rest"
    by (simp add: start_def)
  have "length out = length buf"
    using \<open>out = put_at (put_at buf 0 start) 40 fields\<close> start fields buf by simp
  then have len: "length out \<le> usize_max" using assms(3) by simp
  have "le_bytes 4 (0 :: u32) = [0, 0, 0, 0]" by (simp add: le_bytes_def upt_rec)
  then have fields_rest: "fields @ rest = concat (map (le_bytes 4) [fn_count, kind_count, ident_count,
      str_count, 0, storage_size, 0, 0, 0, 0, 0, 0, 0, 0, 0, 0, 0, 0 :: u32]) @ 0 # [0, 0, 0] @ rest"
    by (simp add: fields_def)
  show ?thesis using assms(2) len unfolding out fields_rest
    by (simp add: header_run parse_modern_header_def min_version_defs new_reader_at)
qed

text \<open>C15: The same for the modern writer, which leaves the file length and the global code
  index for a later patch: reading gives its arguments, zero for every section it declares
  empty, and for those two fields what the buffer held.\<close>

theorem modern_header_roundtrip:
  assumes "write_modern_header buf ver hash fn_count kind_count ident_count str_count storage_size = Inr out"
    and "length hash = 20" and "length buf \<le> usize_max"
  shows "read_header Modern lay (new_reader out) = Inr (
    \<lparr>magic = MAGIC, version = ver, source_hash = hash, file_length = from_le (get_at 4 buf 32),
     global_code_index = from_le (get_at 4 buf 36), function_count = fn_count,
     string_kind_count = kind_count, identifier_count = ident_count, string_count = str_count,
     overflow_string_count = 0, string_storage_size = storage_size, big_int_count = Some 0,
     big_int_storage_size = Some 0, reg_exp_count = 0, reg_exp_storage_size = 0,
     literal_value_buffer_size = Some 0, array_buffer_size = None, obj_key_buffer_size = 0,
     obj_value_buffer_size = None, obj_shape_table_count = Some 0, num_string_switch_imms = Some 0,
     segment_id = Some 0, cjs_module_offset = None, cjs_module_count = 0,
     function_source_count = Some 0, debug_info_offset = 0, options_raw = 0, layout = Modern,
     fn_header_layout = lay\<rparr>,
    (new_reader out)\<lparr>pos := 113\<rparr>)"
  using assms by (rule read_written_modern_header)

theorem modern_header_roundtrip_witness:
  "\<exists>h r. read_header Modern Modern12 (new_reader (projr (write_modern_header (replicate 128 0) 99
      (replicate 20 7) 3 1 2 5 40))) = Inr (h, r) \<and> string_count h = 5 \<and> pos r = 113"
proof -
  obtain out where out: "write_modern_header (replicate 128 0) 99 (replicate 20 7) 3 1 2 5 40 = Inr out"
    by (simp add: write_modern_header_def del: put_seq.simps)
  from modern_header_roundtrip[OF out, of Modern12] out show ?thesis by (simp add: usize_max_def)
qed

lemma parsed_header_version:
  "parse_legacy_header v m hash r = Inr (h, r') \<Longrightarrow> version h = v"
  "parse_modern_header v m hash r = Inr (h, r') \<Longrightarrow> version h = v"
  by (auto simp: parse_legacy_header_def parse_modern_header_def rd_bind_Inr_iff rd_ret_def split: prod.splits)

lemma read_exact_moves: "read_exact n r = Inr (x, r') \<Longrightarrow> pos r + n \<le> length (data r) \<and> r' = r\<lparr>pos := pos r + n\<rparr>"
  by (auto simp: read_exact_def checked_add_usize_def split: if_splits option.splits)

text \<open>A header that parses is one whose version can be peeked.\<close>

lemma read_header_peeks:
  assumes "read_header lay fl (new_reader img) = Inr (h, r)"
  shows "peek_version img = Inr (version h)"
proof -
  from assms obtain r1 r2 where r: "read_u64 (new_reader img) = Inr (MAGIC, r1)" "read_u32 r1 = Inr (version h, r2)"
    by (cases lay) (auto simp: read_header_def rd_bind_Inr_iff rd_ret_def rd_fail_def split: if_splits
        dest!: parsed_header_version)
  then have "12 \<le> length img"
    by (auto simp: read_u64_def read_u32_def rd_map_def rd_bind_Inr_iff rd_ret_def new_reader_def dest!: read_exact_moves)
  then show ?thesis using r by (simp add: peek_version_def res_bind_def)
qed

end
