(* ===== verification/Function_Headers.thy ===== *)
theory Function_Headers
  imports Header Bit_Fields
begin

text \<open>
  The function header table.  \<open>crates/hbc-decomp/src/file/parser/function.rs\<close> decodes the
  16-byte legacy and 12-byte modern records and follows the packed pointer of an
  overflowed one to its large header; \<open>crates/hbc-decomp/src/write/header_write.rs\<close>
  writes legacy records and rewrites packed pointers in place.
\<close>

definition LEGACY_LARGE_OFFSET_SHIFT :: nat where "LEGACY_LARGE_OFFSET_SHIFT = 16"
definition MODERN_LARGE_OFFSET_SHIFT :: nat where "MODERN_LARGE_OFFSET_SHIFT = 24"
definition MODERN_LARGE_OFFSET_MASK :: u64 where "MODERN_LARGE_OFFSET_MASK = 0x00ffffff"

section \<open>Parsing\<close>

definition parse_large_header_legacy :: "nat \<Rightarrow> u32 \<Rightarrow> legacy_function_header read_op" where
  "parse_large_header_legacy large_offset fid r =
     (let current = pos r in
      rd_bind (seek large_offset) (\<lambda>_.
      rd_bind read_u32 (\<lambda>off.
      rd_bind read_u32 (\<lambda>params.
      rd_bind read_u32 (\<lambda>size.
      rd_bind read_u32 (\<lambda>fname.
      rd_bind read_u32 (\<lambda>info.
      rd_bind read_u32 (\<lambda>frame.
      rd_bind read_u32 (\<lambda>env.
      rd_bind read_u8 (\<lambda>rc.
      rd_bind read_u8 (\<lambda>wc.
      rd_bind read_u8 (\<lambda>fl.
      rd_bind (seek current) (\<lambda>_.
      rd_ret \<lparr>lf_function_id = fid, lf_offset = off, lf_param_count = params,
        lf_bytecode_size = size, lf_function_name = fname, lf_info_offset = info,
        lf_frame_size = frame, lf_environment_size = env,
        lf_highest_read_cache_index = ucast rc, lf_highest_write_cache_index = ucast wc,
        lf_flags = fl OR FLAG_OVERFLOWED\<rparr>)))))))))))) r)"

definition u32_at :: "u8 list \<Rightarrow> nat \<Rightarrow> u32" where
  "u32_at raw p = from_le (get_at 4 raw p)"

definition parse_large_header_modern :: "nat \<Rightarrow> u32 \<Rightarrow> modern_layout \<Rightarrow> modern_function_header read_op" where
  "parse_large_header_modern large_offset fid l r =
     (let current = pos r in
      rd_bind (seek large_offset) (\<lambda>_.
      rd_bind (read_bytes (large_size l)) (\<lambda>raw.
      rd_bind (seek current) (\<lambda>_.
      rd_ret \<lparr>mf_function_id = fid,
        mf_offset = u32_at raw MODERN_LARGE_OFFSET,
        mf_param_count = u32_at raw MODERN_LARGE_PARAM_COUNT,
        mf_loop_depth = u32_at raw MODERN_LARGE_LOOP_DEPTH,
        mf_bytecode_size = u32_at raw MODERN_LARGE_BYTECODE_SIZE,
        mf_function_name = u32_at raw MODERN_LARGE_FUNCTION_NAME,
        mf_number_reg_count = u32_at raw MODERN_LARGE_NUMBER_REG_COUNT,
        mf_non_ptr_reg_count = u32_at raw MODERN_LARGE_NON_PTR_REG_COUNT,
        mf_frame_size = u32_at raw MODERN_LARGE_FRAME_SIZE,
        mf_read_cache_size = raw ! large_read_cache_size_pos l,
        mf_write_cache_size = raw ! large_write_cache_size_pos l,
        mf_num_cache_new_object =
          (case large_num_cache_new_object_pos l of None \<Rightarrow> 0 | Some p \<Rightarrow> raw ! p),
        mf_private_name_cache_size = raw ! large_private_name_cache_size_pos l,
        mf_flags = raw ! large_flags_pos l OR FLAG_OVERFLOWED,
        mf_info_offset = of_nat (info_offset_for l large_offset)\<rparr>))) r)"

text \<open>The inline record of a legacy header, before the overflow flag is looked at.\<close>

definition legacy_small_fields :: "u128 \<Rightarrow> u32 \<Rightarrow> legacy_function_header" where
  "legacy_small_fields raw fid =
     \<lparr>lf_function_id = fid, lf_offset = bits raw 0 25, lf_param_count = bits raw 25 7,
      lf_bytecode_size = bits raw 32 15, lf_function_name = bits raw 47 17,
      lf_info_offset = bits raw 64 25, lf_frame_size = bits raw 89 7,
      lf_environment_size = bits raw 96 8, lf_highest_read_cache_index = bits raw 104 8,
      lf_highest_write_cache_index = bits raw 112 8, lf_flags = bits raw 120 8\<rparr>"

definition legacy_large_offset :: "legacy_function_header \<Rightarrow> u64" where
  "legacy_large_offset h =
     push_bit LEGACY_LARGE_OFFSET_SHIFT (ucast (lf_info_offset h)) OR ucast (lf_offset h)"

definition parse_function_header_legacy :: "u32 \<Rightarrow> function_header read_op" where
  "parse_function_header_legacy fid r =
     (let current_pos = pos r in
      rd_bind (read_bytes 16) (\<lambda>bytes.
        let h = legacy_small_fields (from_le bytes) fid in
        if lf_flags h AND FLAG_OVERFLOWED \<noteq> 0
        then rd_bind (parse_large_header_legacy (unat (legacy_large_offset h)) fid) (\<lambda>large.
             rd_bind (seek (current_pos + 16)) (\<lambda>_. rd_ret (LegacyHeader large)))
        else rd_ret (LegacyHeader h)) r)"

definition modern_small_fields :: "modern_layout \<Rightarrow> u128 \<Rightarrow> u32 \<Rightarrow> modern_function_header" where
  "modern_small_fields l raw fid =
     \<lparr>mf_function_id = fid, mf_offset = bits raw 0 25, mf_param_count = bits raw 25 5,
      mf_loop_depth = bits raw 30 2, mf_bytecode_size = bits raw 32 14,
      mf_function_name = bits raw 46 8, mf_number_reg_count = bits raw 54 5,
      mf_non_ptr_reg_count = bits raw 59 5, mf_frame_size = bits raw 64 8,
      mf_read_cache_size = bits raw 72 8,
      mf_write_cache_size = bits raw 80 (small_write_cache_bits l),
      mf_num_cache_new_object =
        (case large_num_cache_new_object_pos l of Some _ \<Rightarrow> bits raw 86 1 | None \<Rightarrow> 0),
      mf_private_name_cache_size = bits raw 87 1, mf_flags = bits raw 88 8, mf_info_offset = 0\<rparr>"

definition modern_large_offset :: "modern_function_header \<Rightarrow> u64" where
  "modern_large_offset h =
     push_bit MODERN_LARGE_OFFSET_SHIFT (ucast (mf_function_name h))
       OR (ucast (mf_offset h) AND MODERN_LARGE_OFFSET_MASK)"

definition parse_function_header_modern :: "modern_layout \<Rightarrow> u32 \<Rightarrow> function_header read_op" where
  "parse_function_header_modern l fid r =
     (let current_pos = pos r in
      rd_bind (read_bytes 12) (\<lambda>bytes.
        let h = modern_small_fields l (from_le (bytes @ replicate 4 0)) fid in
        if mf_flags h AND FLAG_OVERFLOWED \<noteq> 0
        then rd_bind (parse_large_header_modern (unat (modern_large_offset h)) fid l) (\<lambda>large.
             rd_bind (seek (current_pos + 12)) (\<lambda>_. rd_ret (ModernHeader large)))
        else rd_ret (ModernHeader h)) r)"

text \<open>\<open>for function_id in 0..count\<close>: one header after the other.\<close>

fun parse_each :: "(u32 \<Rightarrow> 'a read_op) \<Rightarrow> nat list \<Rightarrow> 'a list read_op" where
  "parse_each m [] = rd_ret []"
| "parse_each m (i # is) =
     rd_bind (m (of_nat i)) (\<lambda>x. rd_bind (parse_each m is) (\<lambda>xs. rd_ret (x # xs)))"

definition parse_function_headers :: "bytecode_header \<Rightarrow> function_header list read_op" where
  "parse_function_headers h =
     (case fn_header_layout h of
        Modern12 \<Rightarrow>
          rd_bind (rd_lift (modern_layout_for_version (version h))) (\<lambda>l.
            parse_each (parse_function_header_modern l) [0..<unat (function_count h)])
      | Legacy16 \<Rightarrow> parse_each parse_function_header_legacy [0..<unat (function_count h)])"

section \<open>Writers and in-place pointer updates\<close>

definition write_function_header_legacy_small ::
  "u32 \<Rightarrow> u32 \<Rightarrow> u32 \<Rightarrow> u32 \<Rightarrow> u32 \<Rightarrow> u32 \<Rightarrow> u32 \<Rightarrow> u32 \<Rightarrow> u32 \<Rightarrow> u8 \<Rightarrow> u8 list" where
  "write_function_header_legacy_small off params sz fname info frame env rc wc fl =
     le_bytes 16 (put_bits off 0 25 OR put_bits params 25 7 OR put_bits sz 32 15 OR
       put_bits fname 47 17 OR put_bits info 64 25 OR put_bits frame 89 7 OR put_bits env 96 8 OR
       put_bits rc 104 8 OR put_bits wc 112 8 OR put_bits fl 120 8)"

definition patch_legacy_small_header_offset_size :: "u8 list \<Rightarrow> u32 \<Rightarrow> u32 \<Rightarrow> u8 list result" where
  "patch_legacy_small_header_offset_size slot off sz =
     (if length slot < 16 then Inl (Write ''function header slot too small'' [])
      else let raw = from_le (take 16 slot);
               raw = clear_bits raw 0 25;
               raw = clear_bits raw 32 15;
               raw = raw OR put_bits off 0 25;
               raw = raw OR put_bits sz 32 15 in
           Inr (put_at slot 0 (le_bytes 16 raw)))"

definition read_legacy_large_pointer :: "u8 list \<Rightarrow> u32 result" where
  "read_legacy_large_pointer slot =
     (if length slot < 16 then Inl (Write ''function header slot too small'' [])
      else let raw = from_le (take 16 slot); off = bits raw 0 16; info = bits raw 64 25 in
           Inr (push_bit 16 info OR off))"

definition shift_legacy_large_pointer :: "u8 list \<Rightarrow> i64 \<Rightarrow> u8 list result" where
  "shift_legacy_large_pointer slot delta =
     res_bind (read_legacy_large_pointer slot) (\<lambda>cur.
       let new_ptr = ucast cur + delta :: u64;
           raw = from_le (take 16 slot);
           raw = clear_bits raw 0 25;
           raw = clear_bits raw 64 25;
           raw = raw OR put_bits new_ptr 0 16;
           raw = raw OR put_bits (drop_bit 16 new_ptr) 64 25 in
       Inr (put_at slot 0 (le_bytes 16 raw)))"

definition read_modern_large_pointer :: "u8 list \<Rightarrow> u32 result" where
  "read_modern_large_pointer slot =
     (if length slot < 12 then Inl (Write ''modern function header slot too small'' [])
      else let raw = from_le (take 12 slot @ replicate 4 0); off = bits raw 0 24; fname = bits raw 46 8 in
           Inr (push_bit 24 fname OR off))"

definition shift_modern_large_pointer :: "u8 list \<Rightarrow> i64 \<Rightarrow> u8 list result" where
  "shift_modern_large_pointer slot delta =
     (if length slot < 12 then Inl (Write ''modern function header slot too small'' [])
      else res_bind (read_modern_large_pointer slot) (\<lambda>cur.
       let new_ptr = ucast cur + delta :: u64;
           raw = from_le (take 12 slot @ replicate 4 0);
           raw = clear_bits raw 0 24;
           raw = clear_bits raw 46 8;
           raw = raw OR put_bits new_ptr 0 24;
           raw = raw OR put_bits (drop_bit 24 new_ptr) 46 8 in
       Inr (put_at slot 0 (take 12 (le_bytes 16 raw)))))"

definition shift_u32_at :: "u8 list \<Rightarrow> nat \<Rightarrow> i64 \<Rightarrow> u8 list result" where
  "shift_u32_at buf p delta =
     (if length buf < p + 4 then Inl (Write ''shift_u32_at out of range'' [])
      else let cur = ucast (from_le (get_at 4 buf p) :: u32) :: i64 in
           Inr (put_at buf p (le_bytes 4 (ucast (cur + delta) :: u32))))"

section \<open>Legacy records\<close>

lemma from_le_16: "from_le (le_bytes 16 (raw :: u128)) = raw"
  by (simp add: le_simps)

lemma read_written_legacy_small:
  assumes "unat off < 2 ^ 25" "unat params < 2 ^ 7" "unat sz < 2 ^ 15" "unat fname < 2 ^ 17"
    and "unat info < 2 ^ 25" "unat frame < 2 ^ 7" "unat env < 2 ^ 8" "unat rc < 2 ^ 8" "unat wc < 2 ^ 8"
    and "fl AND FLAG_OVERFLOWED = 0" and "length pre + 16 + length rest \<le> usize_max"
  shows "parse_function_header_legacy fid (reader_at pre
      (write_function_header_legacy_small off params sz fname info frame env rc wc fl @ rest)) =
    Inr (LegacyHeader \<lparr>lf_function_id = fid, lf_offset = off, lf_param_count = params,
        lf_bytecode_size = sz, lf_function_name = fname, lf_info_offset = info, lf_frame_size = frame,
        lf_environment_size = env, lf_highest_read_cache_index = rc, lf_highest_write_cache_index = wc,
        lf_flags = fl\<rparr>,
      reader_at (pre @ write_function_header_legacy_small off params sz fname info frame env rc wc fl) rest)"
proof -
  have "unat fl < 2 ^ LENGTH(8)" by (rule unsigned_less)
  then have fl: "unat fl < 2 ^ 8" by simp
  show ?thesis
    using assms fl
    by (simp add: parse_function_header_legacy_def read_bytes_def bind_exact_at legacy_small_fields_def
        write_function_header_legacy_small_def Let_def from_le_16 field_simps)
qed

text \<open>C16: A legacy inline record whose fields fit their widths and whose overflow flag is
  clear is read back field for field; the reader stands just past its 16 bytes.\<close>

theorem legacy_small_header_roundtrip:
  assumes "unat off < 2 ^ 25" "unat params < 2 ^ 7" "unat sz < 2 ^ 15" "unat fname < 2 ^ 17"
    and "unat info < 2 ^ 25" "unat frame < 2 ^ 7" "unat env < 2 ^ 8" "unat rc < 2 ^ 8" "unat wc < 2 ^ 8"
    and "fl AND FLAG_OVERFLOWED = 0" and "length pre + 16 + length rest \<le> usize_max"
  shows "parse_function_header_legacy fid (reader_at pre
      (write_function_header_legacy_small off params sz fname info frame env rc wc fl @ rest)) =
    Inr (LegacyHeader \<lparr>lf_function_id = fid, lf_offset = off, lf_param_count = params,
        lf_bytecode_size = sz, lf_function_name = fname, lf_info_offset = info, lf_frame_size = frame,
        lf_environment_size = env, lf_highest_read_cache_index = rc, lf_highest_write_cache_index = wc,
        lf_flags = fl\<rparr>,
      reader_at (pre @ write_function_header_legacy_small off params sz fname info frame env rc wc fl) rest)"
  using assms by (rule read_written_legacy_small)

theorem legacy_small_header_roundtrip_witness:
  "fst (projr (parse_function_header_legacy 7 (new_reader
      (write_function_header_legacy_small 1000 2 90 5 0 12 3 4 5 0x12)))) =
    LegacyHeader \<lparr>lf_function_id = 7, lf_offset = 1000, lf_param_count = 2, lf_bytecode_size = 90,
      lf_function_name = 5, lf_info_offset = 0, lf_frame_size = 12, lf_environment_size = 3,
      lf_highest_read_cache_index = 4, lf_highest_write_cache_index = 5, lf_flags = 0x12\<rparr>"
  using legacy_small_header_roundtrip[of 1000 2 90 5 0 12 3 4 5 "0x12" "[]" "[]" 7]
  by (simp add: FLAG_OVERFLOWED_def usize_max_def new_reader_at)

lemma slot_word:
  "16 \<le> length slot \<Longrightarrow> le_bytes 16 (from_le (take 16 slot) :: u128) = take 16 slot"
  by (simp add: le_simps)

lemma legacy_pointer_put:
  "16 \<le> length slot \<Longrightarrow> read_legacy_large_pointer (put_at slot 0 (le_bytes 16 raw)) =
     Inr (push_bit 16 (bits raw 64 25) OR bits raw 0 16)"
  by (simp add: read_legacy_large_pointer_def Let_def put_at_0 from_le_16)

text \<open>Rewriting the offset and size of a legacy record in place sets exactly those two
  fields: the record parsed from the new slot is the old one with the new offset and size.\<close>

theorem patch_offset_size_only:
  assumes "patch_legacy_small_header_offset_size slot off sz = Inr slot'"
    and "unat off < 2 ^ 25" and "unat sz < 2 ^ 15"
  shows "legacy_small_fields (from_le (take 16 slot')) fid =
      (legacy_small_fields (from_le (take 16 slot)) fid)\<lparr>lf_offset := off, lf_bytecode_size := sz\<rparr>
    \<and> drop 16 slot' = drop 16 slot"
  using assms
  by (auto simp: patch_legacy_small_header_offset_size_def Let_def put_at_0 from_le_16
      legacy_small_fields_def field_simps split: if_splits)

theorem patch_offset_size_only_witness:
  "lf_bytecode_size (legacy_small_fields (from_le (take 16
      (projr (patch_legacy_small_header_offset_size (replicate 16 0xff) 9 33)))) 0) = 33"
proof -
  obtain s where s: "patch_legacy_small_header_offset_size (replicate 16 0xff) 9 33 = Inr s"
    by (simp add: patch_legacy_small_header_offset_size_def Let_def)
  have "legacy_small_fields (from_le (take 16 s)) 0 =
      (legacy_small_fields (from_le (take 16 (replicate 16 0xff))) 0)\<lparr>lf_offset := 9, lf_bytecode_size := 33\<rparr>"
    by (rule patch_offset_size_only[OF s, THEN conjunct1]) simp_all
  then show ?thesis unfolding s by simp
qed

section \<open>Packed large-header pointers\<close>

lemma pointer_pack:
  assumes "n \<le> 32"
  shows "push_bit n (ucast (drop_bit n w) :: u32) OR ucast (take_bit n w) = (ucast (w :: u64) :: u32)"
proof (rule bit_word_eqI)
  fix i assume "i < LENGTH(32)"
  then show "bit (push_bit n (ucast (drop_bit n w) :: u32) OR ucast (take_bit n w)) i = bit (ucast w :: u32) i"
    using assms bit_imp_le_length[of w i]
    by (cases "i < n")
       (auto simp: bit_or_iff bit_push_bit_iff bit_ucast_iff bit_drop_bit_eq bit_take_bit_iff)
qed

lemma uint_shifted:
  fixes p :: u32 and delta :: i64
  assumes "0 \<le> uint p + sint delta" and "uint p + sint delta < 2 ^ 32"
  shows "uint (ucast p + delta :: u64) = uint p + sint delta"
proof -
  have "ucast p + delta = (word_of_int (uint p) + word_of_int (sint delta) :: u64)"
    by (simp only: ucast_eq of_int_sint scast_id)
  also have "\<dots> = word_of_int (uint p + sint delta)" by (simp only: of_int_add)
  finally have "uint (ucast p + delta :: u64) = (uint p + sint delta) mod 2 ^ 64"
    by (simp only: uint_word_of_int len_num1 len_bit0) simp
  then show ?thesis using assms by simp
qed

lemma shifted_small:
  fixes p :: u32 and delta :: i64
  assumes "0 \<le> uint p + sint delta" and "uint p + sint delta < 2 ^ 32"
  shows "unat (ucast p + delta :: u64) < 2 ^ 32"
  using uint_shifted[OF assms] assms by (simp add: unat_eq_nat_uint nat_less_iff)

lemma take_drop_small:
  assumes "unat (w :: u64) < 2 ^ 32" and "32 - n \<le> m"
  shows "take_bit m (drop_bit n w) = drop_bit n w"
proof (rule bit_word_eqI)
  fix i
  have "bit w (n + i) \<Longrightarrow> n + i < 32" using bit_less_if[OF assms(1)] .
  then show "bit (take_bit m (drop_bit n w)) i = bit (drop_bit n w) i"
    using assms(2) by (auto simp: bit_take_bit_iff bit_drop_bit_eq)
qed

lemma shift_legacy_word:
  assumes "read_legacy_large_pointer slot = Inr p" and "shift_legacy_large_pointer slot delta = Inr slot'"
  defines "n \<equiv> ucast p + delta :: u64"
  shows "take 16 slot' = le_bytes 16 (clear_bits (clear_bits (from_le (take 16 slot)) 0 25) 64 25
      OR put_bits n 0 16 OR put_bits (drop_bit 16 n) 64 25) \<and> 16 \<le> length slot'"
proof -
  have "16 \<le> length slot"
    using assms(1) by (simp add: read_legacy_large_pointer_def split: if_splits)
  then show ?thesis
    using assms(1,2) by (auto simp: shift_legacy_large_pointer_def Let_def n_def or.assoc put_at_0)
qed

lemma legacy_pointer_shifted:
  assumes "read_legacy_large_pointer slot = Inr p"
    and "0 \<le> uint p + sint delta" and "uint p + sint delta < 2 ^ 32"
    and "shift_legacy_large_pointer slot delta = Inr slot'"
  shows "read_legacy_large_pointer slot' = Inr (word_of_int (uint p + sint delta))"
proof -
  let ?n = "ucast p + delta :: u64"
  define raw where "raw = clear_bits (clear_bits (from_le (take 16 slot)) 0 25) 64 25
      OR put_bits ?n 0 16 OR put_bits (drop_bit 16 ?n) 64 25"
  have "read_legacy_large_pointer slot' = Inr (push_bit 16 (bits raw 64 25) OR bits raw 0 16)"
    using shift_legacy_word[OF assms(1,4)]
    by (simp add: read_legacy_large_pointer_def Let_def from_le_16 flip: raw_def)
  moreover have "bits raw 64 25 = (ucast (drop_bit 16 ?n) :: u32)"
    using take_drop_small[OF shifted_small[OF assms(2,3)], of 16 25]
    by (simp add: raw_def field_simps bits_put_wide del: drop_bit_eq_div)
  moreover have "bits raw 0 16 = (ucast (take_bit 16 ?n) :: u32)"
    by (simp add: raw_def field_simps bits_put_wide)
  ultimately have "read_legacy_large_pointer slot' = Inr (ucast ?n)"
    using pointer_pack[of 16 ?n] by simp
  then show ?thesis by (simp only: ucast_eq[of ?n] uint_shifted[OF assms(2,3)])
qed

text \<open>Shifting the packed pointer of an overflowed legacy record by a delta, to a result
  that fits in 32 bits, makes the reader of packed pointers see exactly the sum.\<close>

theorem shift_legacy_pointer_adds:
  assumes "read_legacy_large_pointer slot = Inr p"
    and "0 \<le> uint p + sint delta" and "uint p + sint delta < 2 ^ 32"
    and "shift_legacy_large_pointer slot delta = Inr slot'"
  shows "read_legacy_large_pointer slot' = Inr (word_of_int (uint p + sint delta))"
  using assms by (rule legacy_pointer_shifted)

theorem shift_legacy_pointer_adds_witness:
  "read_legacy_large_pointer (projr (shift_legacy_large_pointer (le_bytes 16 (put_bits (5 :: u32) 64 25)) 12)) =
     Inr 327692"
proof -
  let ?slot = "le_bytes 16 (put_bits (5 :: u32) 64 25)"
  have p: "read_legacy_large_pointer ?slot = Inr 327680"
    by (simp add: read_legacy_large_pointer_def Let_def from_le_16 field_simps)
  then obtain s where s: "shift_legacy_large_pointer ?slot 12 = Inr s"
    by (simp add: shift_legacy_large_pointer_def Let_def)
  from shift_legacy_pointer_adds[OF p _ _ s] show ?thesis by (simp add: s)
qed

lemma pointer_pack_u64:
  assumes "n \<le> 32" and "unat w < 2 ^ 32"
  shows "push_bit n (ucast (ucast (drop_bit n w) :: u32) :: u64) OR ucast (ucast (take_bit n w) :: u32) = w"
proof (rule bit_word_eqI)
  fix i assume "i < LENGTH(64)"
  have "bit w i \<Longrightarrow> i < 32" using bit_less_if[OF assms(2)] .
  then show "bit (push_bit n (ucast (ucast (drop_bit n w) :: u32) :: u64)
      OR ucast (ucast (take_bit n w) :: u32)) i = bit w i"
    using assms(1)
    by (cases "i < n")
       (auto simp: bit_or_iff bit_push_bit_iff bit_ucast_iff bit_drop_bit_eq bit_take_bit_iff)
qed

lemma legacy_parser_pointer_shifted:
  assumes "read_legacy_large_pointer slot = Inr p"
    and "0 \<le> uint p + sint delta" and "uint p + sint delta < 2 ^ 32"
    and "shift_legacy_large_pointer slot delta = Inr slot'"
  shows "uint (legacy_large_offset (legacy_small_fields (from_le (take 16 slot')) fid)) = uint p + sint delta"
proof -
  let ?n = "ucast p + delta :: u64"
  define raw where "raw = clear_bits (clear_bits (from_le (take 16 slot)) 0 25) 64 25
      OR put_bits ?n 0 16 OR put_bits (drop_bit 16 ?n) 64 25"
  have "from_le (take 16 slot') = raw"
    using shift_legacy_word[OF assms(1,4)] by (simp add: from_le_16 flip: raw_def)
  moreover have "bits raw 64 25 = (ucast (drop_bit 16 ?n) :: u32)"
    using take_drop_small[OF shifted_small[OF assms(2,3)], of 16 25]
    by (simp add: raw_def field_simps bits_put_wide del: drop_bit_eq_div)
  moreover have "bits raw 0 25 = (ucast (take_bit 16 ?n) :: u32)"
    by (simp add: raw_def field_simps bits_put_wide)
  ultimately have "legacy_large_offset (legacy_small_fields (from_le (take 16 slot')) fid) = ?n"
    using pointer_pack_u64[OF _ shifted_small[OF assms(2,3)], of 16]
    by (simp add: legacy_large_offset_def legacy_small_fields_def LEGACY_LARGE_OFFSET_SHIFT_def)
  then show ?thesis using uint_shifted[OF assms(2,3)] by simp
qed

text \<open>C24: And the parser then follows that sum: the large header it looks for lies at the old
  pointer plus the delta, although it reads the offset field at its full 25 bits.\<close>

theorem parser_follows_shifted_legacy:
  assumes "read_legacy_large_pointer slot = Inr p"
    and "0 \<le> uint p + sint delta" and "uint p + sint delta < 2 ^ 32"
    and "shift_legacy_large_pointer slot delta = Inr slot'"
  shows "uint (legacy_large_offset (legacy_small_fields (from_le (take 16 slot')) fid)) = uint p + sint delta"
  using assms by (rule legacy_parser_pointer_shifted)

theorem parser_follows_shifted_legacy_witness:
  "uint (legacy_large_offset (legacy_small_fields (from_le (take 16 (projr
     (shift_legacy_large_pointer (le_bytes 16 (put_bits (5 :: u32) 64 25)) 12)))) 0)) = 327692"
proof -
  let ?slot = "le_bytes 16 (put_bits (5 :: u32) 64 25)"
  have p: "read_legacy_large_pointer ?slot = Inr 327680"
    by (simp add: read_legacy_large_pointer_def Let_def from_le_16 field_simps)
  then obtain s where s: "shift_legacy_large_pointer ?slot 12 = Inr s"
    by (simp add: shift_legacy_large_pointer_def Let_def)
  have "uint (legacy_large_offset (legacy_small_fields (from_le (take 16 s)) 0)) =
      uint (327680 :: u32) + sint (12 :: i64)"
    by (rule parser_follows_shifted_legacy[OF p _ _ s]) simp_all
  then show ?thesis unfolding s by simp
qed

lemma modern_pointer_put:
  "12 \<le> length slot \<Longrightarrow> read_modern_large_pointer (put_at slot 0 (take 12 (le_bytes 16 raw))) =
     Inr (push_bit 24 (bits raw 46 8) OR bits raw 0 24)"
  by (simp add: read_modern_large_pointer_def Let_def put_at_0 take_le_bytes from_le_append_zeros
      from_le_le_bytes bits_take_bit)

lemma modern_pointer_shifted:
  assumes "read_modern_large_pointer slot = Inr p"
    and "0 \<le> uint p + sint delta" and "uint p + sint delta < 2 ^ 32"
    and "shift_modern_large_pointer slot delta = Inr slot'"
  shows "read_modern_large_pointer slot' = Inr (word_of_int (uint p + sint delta))"
proof -
  let ?n = "ucast p + delta :: u64"
  have len: "12 \<le> length slot"
    using assms(1) by (simp add: read_modern_large_pointer_def split: if_splits)
  define raw where "raw = clear_bits (clear_bits (from_le (take 12 slot @ replicate 4 0)) 0 24) 46 8
      OR put_bits ?n 0 24 OR put_bits (drop_bit 24 ?n) 46 8"
  have "slot' = put_at slot 0 (take 12 (le_bytes 16 raw))"
    using assms(1,4) len by (simp add: shift_modern_large_pointer_def Let_def raw_def or.assoc)
  then have "read_modern_large_pointer slot' = Inr (push_bit 24 (bits raw 46 8) OR bits raw 0 24)"
    using modern_pointer_put[OF len] by simp
  moreover have "bits raw 46 8 = (ucast (drop_bit 24 ?n) :: u32)"
    using take_drop_small[OF shifted_small[OF assms(2,3)], of 24 8]
    by (simp add: raw_def field_simps bits_put_wide del: drop_bit_eq_div)
  moreover have "bits raw 0 24 = (ucast (take_bit 24 ?n) :: u32)"
    by (simp add: raw_def field_simps bits_put_wide)
  ultimately have "read_modern_large_pointer slot' = Inr (ucast ?n)"
    using pointer_pack[of 24 ?n] by simp
  then show ?thesis by (simp only: ucast_eq[of ?n] uint_shifted[OF assms(2,3)])
qed

text \<open>The same law for the modern packing, where the pointer sits in 24 bits of the
  offset field and the 8 bits of the function name field.\<close>

theorem shift_modern_pointer_adds:
  assumes "read_modern_large_pointer slot = Inr p"
    and "0 \<le> uint p + sint delta" and "uint p + sint delta < 2 ^ 32"
    and "shift_modern_large_pointer slot delta = Inr slot'"
  shows "read_modern_large_pointer slot' = Inr (word_of_int (uint p + sint delta))"
  using assms by (rule modern_pointer_shifted)

theorem shift_modern_pointer_adds_witness:
  "read_modern_large_pointer (projr (shift_modern_large_pointer (le_bytes 12 (put_bits (5 :: u32) 46 8)) 12)) =
     Inr 83886092"
proof -
  let ?slot = "le_bytes 12 (put_bits (5 :: u32) 46 8)"
  have p: "read_modern_large_pointer ?slot = Inr 83886080"
    by (simp add: read_modern_large_pointer_def Let_def from_le_append_zeros from_le_le_bytes field_simps)
  then obtain s where s: "shift_modern_large_pointer ?slot 12 = Inr s"
    by (simp add: shift_modern_large_pointer_def Let_def)
  from shift_modern_pointer_adds[OF p _ _ s] show ?thesis by (simp add: s)
qed

section \<open>The whole table\<close>

lemma seek_current: "seek p r = Inr (u, r') \<Longrightarrow> r' = r\<lparr>pos := p\<rparr> \<and> p \<le> length (data r)"
  by (auto simp: seek_def split: if_splits)

lemma read_bytes_step:
  "read_bytes n r = Inr (x, r') \<Longrightarrow> r' = r\<lparr>pos := pos r + n\<rparr> \<and> length x = n"
  by (auto simp: read_bytes_def read_exact_def checked_add_usize_def split: if_splits)

lemmas read_u32_data = same_data_Inr[of read_u32, simplified]
lemmas read_u8_data = same_data_Inr[of read_u8, simplified]

lemma large_legacy_keeps_position:
  assumes "parse_large_header_legacy p fid r = Inr (h, r')"
  shows "r' = r \<and> lf_function_id h = fid \<and> bit (lf_flags h) 5"
  using assms
  by (auto simp: parse_large_header_legacy_def Let_def rd_bind_Inr_iff FLAG_OVERFLOWED_def bit_simps
      dest!: seek_current read_u32_data read_u8_data)

lemma large_modern_keeps_position:
  assumes "parse_large_header_modern p fid l r = Inr (h, r')"
  shows "r' = r \<and> mf_function_id h = fid \<and> bit (mf_flags h) 5"
  using assms
  by (auto simp: parse_large_header_modern_def Let_def rd_bind_Inr_iff FLAG_OVERFLOWED_def bit_simps
      dest!: seek_current read_bytes_step)

lemma legacy_step:
  assumes "parse_function_header_legacy fid r = Inr (h, r')"
  shows "r' = r\<lparr>pos := pos r + 16\<rparr> \<and> fh_function_id h = fid"
  using assms
  by (auto simp: parse_function_header_legacy_def Let_def rd_bind_Inr_iff legacy_small_fields_def
      dest!: seek_current read_bytes_step large_legacy_keeps_position split: if_splits)

lemma modern_step:
  assumes "parse_function_header_modern l fid r = Inr (h, r')"
  shows "r' = r\<lparr>pos := pos r + 12\<rparr> \<and> fh_function_id h = fid"
  using assms
  by (auto simp: parse_function_header_modern_def Let_def rd_bind_Inr_iff modern_small_fields_def
      dest!: seek_current read_bytes_step large_modern_keeps_position split: if_splits)

lemma parse_each_shape:
  assumes "\<And>fid r h r'. m fid r = Inr (h, r') \<Longrightarrow> r' = r\<lparr>pos := pos r + n\<rparr> \<and> fh_function_id h = fid"
    and "parse_each m is r = Inr (hs, r')"
  shows "r' = r\<lparr>pos := pos r + n * length is\<rparr> \<and> map fh_function_id hs = map of_nat is"
  using assms(2)
proof (induction "is" arbitrary: r hs)
  case Nil
  then show ?case by simp
next
  case (Cons i "is")
  from Cons.prems obtain x r1 xs where 1: "m (of_nat i) r = Inr (x, r1)"
    and 2: "parse_each m is r1 = Inr (xs, r')" and 3: "hs = x # xs"
    by (auto simp: rd_bind_Inr_iff)
  from assms(1)[OF 1] Cons.IH[OF 2] show ?case by (simp add: 3 add.assoc)
qed

definition header_stride :: "function_header_layout \<Rightarrow> nat" where
  "header_stride l = (case l of Legacy16 \<Rightarrow> 16 | Modern12 \<Rightarrow> 12)"

lemma parse_function_headers_moves:
  assumes "parse_function_headers h r = Inr (hs, r')"
  shows "r' = r\<lparr>pos := pos r + header_stride (fn_header_layout h) * unat (function_count h)\<rparr>
    \<and> map fh_function_id hs = map of_nat [0..<unat (function_count h)]"
  using assms parse_each_shape[OF legacy_step] parse_each_shape[OF modern_step]
  by (fastforce simp: parse_function_headers_def header_stride_def rd_bind_Inr_iff rd_lift_def
      res_bind_Inr_iff split: function_header_layout.splits)

text \<open>A successful parse of the function header table yields exactly the declared number
  of headers, the i-th with id i, and leaves the reader right behind the table, however many
  of the records were overflowed and sent it to a large header elsewhere in the file.\<close>

theorem function_table_parsed_in_place:
  assumes "parse_function_headers h r = Inr (hs, r')"
  shows "length hs = unat (function_count h)
    \<and> (\<forall>i < length hs. fh_function_id (hs ! i) = of_nat i)
    \<and> r' = r\<lparr>pos := pos r + header_stride (fn_header_layout h) * length hs\<rparr>"
proof -
  note m = parse_function_headers_moves[OF assms]
  then have len: "length hs = unat (function_count h)" by (metis diff_zero length_map length_upt)
  moreover have "fh_function_id (hs ! i) = of_nat i" if "i < length hs" for i
    using m that by (metis (no_types, lifting) add_0 len length_upt minus_nat.diff_0 nth_map nth_upt)
  ultimately show ?thesis using m by simp
qed

theorem function_table_parsed_in_place_witness:
  "pos (snd (projr (parse_function_headers (blank_header\<lparr>function_count := 2\<rparr>)
     (new_reader (replicate 16 0 @ replicate 16 0))))) = 32"
proof -
  let ?r = "new_reader (replicate 16 0 @ replicate 16 0)"
  have z: "parse_function_header_legacy fid (reader_at pre (replicate 16 0 @ suf)) =
      Inr (LegacyHeader (legacy_small_fields 0 fid), reader_at (pre @ replicate 16 0) suf)"
    if "length pre + length suf \<le> 100" for fid pre suf
    using that
    by (simp add: parse_function_header_legacy_def read_bytes_def Let_def from_le_zeros
        legacy_small_fields_def bits_zero usize_max_def bind_exact_at[of "replicate 16 0" 16 pre suf])
  have p: "parse_function_headers (blank_header\<lparr>function_count := 2\<rparr>) ?r =
      Inr ([LegacyHeader (legacy_small_fields 0 0), LegacyHeader (legacy_small_fields 0 1)],
           reader_at (replicate 16 0 @ replicate 16 0) [])"
    using z[of "[]" "replicate 16 0" 0] z[of "replicate 16 0" "[]" 1]
    by (simp add: parse_function_headers_def blank_header_def new_reader_at upt_rec rd_bind_def)
  from function_table_parsed_in_place[OF p] show ?thesis unfolding p
    by (simp add: reader_at_def blank_header_def header_stride_def new_reader_def)
qed

end
