(* ===== verification/Tables.thy ===== *)
theory Tables
  imports Function_Headers Rust_Strings
begin

text \<open>
  The fixed-stride tables of an image (\<open>crates/hbc-decomp/src/file/parser/table.rs\<close>, with
  the entry types of \<open>file/structure.rs\<close>) and the decoding of the string table: run-length
  coded kinds, packed small entries, overflow records, UTF-8 and UTF-16 storage.
\<close>

datatype string_kind_type = KString | KIdentifier

record string_kind_entry =
  sk_kind :: string_kind_type
  sk_count :: u32

record string_table_entry =
  st_value :: rust_string
  st_is_utf16 :: bool
  st_is_identifier :: bool

record table_entry =
  te_offset :: u32
  te_length :: u32

record shape_table_entry =
  sh_key_buffer_offset :: u32
  sh_num_props :: u32

definition STRING_KIND_TYPE_BIT :: u32 where "STRING_KIND_TYPE_BIT = push_bit 31 1"
definition STRING_KIND_COUNT_MASK :: u32 where "STRING_KIND_COUNT_MASK = 0x7fffffff"

section \<open>Fixed-stride tables\<close>

definition string_kind_of_raw :: "u32 \<Rightarrow> string_kind_entry" where
  "string_kind_of_raw raw =
     \<lparr>sk_kind = (if raw AND STRING_KIND_TYPE_BIT = 0 then KString else KIdentifier),
      sk_count = raw AND STRING_KIND_COUNT_MASK\<rparr>"

definition parse_string_kinds :: "u32 \<Rightarrow> string_kind_entry list read_op" where
  "parse_string_kinds count = rd_repeat (unat count) (rd_map string_kind_of_raw read_u32)"

definition read_pair :: "(u32 \<times> u32) read_op" where
  "read_pair = rd_bind read_u32 (\<lambda>a. rd_bind read_u32 (\<lambda>b. rd_ret (a, b)))"

definition parse_overflow_string_table :: "u32 \<Rightarrow> (u32 \<times> u32) list read_op" where
  "parse_overflow_string_table count = rd_repeat (unat count) read_pair"

definition parse_u32_vec :: "u32 \<Rightarrow> u32 list read_op" where
  "parse_u32_vec count = rd_repeat (unat count) read_u32"

definition parse_table_entries :: "u32 \<Rightarrow> table_entry list read_op" where
  "parse_table_entries count =
     rd_repeat (unat count) (rd_bind read_u32 (\<lambda>off. rd_bind read_u32 (\<lambda>len.
       rd_ret \<lparr>te_offset = off, te_length = len\<rparr>)))"

definition parse_shape_table :: "u32 \<Rightarrow> shape_table_entry list read_op" where
  "parse_shape_table count =
     rd_repeat (unat count) (rd_bind read_u32 (\<lambda>off. rd_bind read_u32 (\<lambda>n.
       rd_ret \<lparr>sh_key_buffer_offset = off, sh_num_props = n\<rparr>)))"

definition parse_pair_table :: "u32 \<Rightarrow> (u32 \<times> u32) list read_op" where
  "parse_pair_table count = rd_repeat (unat count) read_pair"

section \<open>The string table\<close>

text \<open>One kind per string: the loop that walks the runs.  A run is left when its remaining
  count is zero, so \<open>remaining\<close> counts down without going below zero.\<close>

fun expand_kinds :: "string_kind_entry list \<Rightarrow> nat \<Rightarrow> nat \<Rightarrow> nat \<Rightarrow> string_kind_type list" where
  "expand_kinds kinds 0 kind_index rem = []"
| "expand_kinds kinds (Suc n) kind_index rem =
     (let (kind_index, rem) =
            (if rem = 0
             then (kind_index + 1,
                   if kind_index + 1 < length kinds then unat (sk_count (kinds ! (kind_index + 1))) else 0)
             else (kind_index, rem));
          kind = (if kind_index < length kinds then sk_kind (kinds ! kind_index) else KString)
      in kind # expand_kinds kinds n kind_index (rem - 1))"

definition string_kinds_of :: "string_kind_entry list \<Rightarrow> nat \<Rightarrow> string_kind_type list" where
  "string_kinds_of kinds count =
     expand_kinds kinds count 0 (case kinds of [] \<Rightarrow> 0 | k # _ \<Rightarrow> unat (sk_count k))"

fun u16_chunks :: "u8 list \<Rightarrow> u16 list" where
  "u16_chunks (a # b # xs) = from_le [a, b] # u16_chunks xs"
| "u16_chunks _ = []"

definition invalid_utf16 :: rust_string where "invalid_utf16 = lit ''<invalid utf16>''"
definition invalid_utf8 :: rust_string where "invalid_utf8 = lit ''<invalid utf8>''"

text \<open>The value of one entry, and whether it is the placeholder of an entry outside storage.\<close>

definition decode_value :: "u8 list \<Rightarrow> bool \<Rightarrow> u32 \<Rightarrow> u32 \<Rightarrow> rust_string \<times> bool" where
  "decode_value storage is_utf16 off len =
     (let start = unat off in
      if is_utf16
      then let byte_len = saturating_mul_usize (unat len) 2; e = saturating_add_usize start byte_len in
           if length storage \<le> start \<or> length storage < e then (invalid_utf16, True)
           else (from_utf16_lossy (u16_chunks (take (e - start) (drop start storage))), False)
      else let e = saturating_add_usize start (unat len) in
           if length storage \<le> start \<or> length storage < e then (invalid_utf8, True)
           else (from_utf8_lossy (take (e - start) (drop start storage)), False))"

definition decode_string :: "(u32 \<times> u32) list \<Rightarrow> u8 list \<Rightarrow> nat \<Rightarrow> u32 \<Rightarrow> string_kind_type \<Rightarrow>
    (string_table_entry \<times> bool) result" where
  "decode_string overflow storage i raw kind =
     (let entry = entry_decode raw in
      res_bind (ok_or (entry_resolve entry overflow)
        (Parse ''string {i}: overflow record {} missing ({} records)''
          [fnat i, fword (se_offset entry), fnat (length overflow)])) (\<lambda>(off, len).
      let (v, bad) = decode_value storage (se_is_utf16 entry) off len in
      Inr (\<lparr>st_value = v, st_is_utf16 = se_is_utf16 entry, st_is_identifier = (kind = KIdentifier)\<rparr>, bad)))"

definition decode_string_table ::
  "u32 \<Rightarrow> string_kind_entry list \<Rightarrow> u32 list \<Rightarrow> (u32 \<times> u32) list \<Rightarrow> u8 list \<Rightarrow>
   (string_table_entry list \<times> nat) result" where
  "decode_string_table str_total kinds small overflow storage =
     (let count = min (unat str_total) (length small);
          expanded = string_kinds_of kinds count in
      res_bind (res_map (\<lambda>i. decode_string overflow storage i (small ! i) (expanded ! i)) [0..<count])
        (\<lambda>rs. Inr (map fst rs, length (filter snd rs))))"

section \<open>Tables read back what was written\<close>

definition put_pair :: "u32 \<times> u32 \<Rightarrow> u8 list" where
  "put_pair p = le_bytes 4 (fst p) @ le_bytes 4 (snd p)"

definition put_table_entry :: "table_entry \<Rightarrow> u8 list" where
  "put_table_entry t = le_bytes 4 (te_offset t) @ le_bytes 4 (te_length t)"

definition put_shape_entry :: "shape_table_entry \<Rightarrow> u8 list" where
  "put_shape_entry t = le_bytes 4 (sh_key_buffer_offset t) @ le_bytes 4 (sh_num_props t)"

definition put_string_kind :: "string_kind_entry \<Rightarrow> u8 list" where
  "put_string_kind k =
     le_bytes 4 ((case sk_kind k of KString \<Rightarrow> 0 | KIdentifier \<Rightarrow> STRING_KIND_TYPE_BIT) OR sk_count k)"

lemma two_words_codec:
  assumes get: "get = rd_bind read_u32 (\<lambda>a. rd_bind read_u32 (\<lambda>b. rd_ret (mk a b)))"
    and put: "\<And>x. put x = le_bytes 4 (fa x :: u32) @ le_bytes 4 (fb x :: u32)"
    and mk: "\<And>x. mk (fa x) (fb x) = x"
  shows "codec put get (\<lambda>_. True)"
proof
  fix x r rest
  assume m: "in_memory r" and a: "ahead r = put x @ rest"
  then have 1: "read_u32 r = Inr (fa x, advance 4 r)"
    by (intro u32.get_put[OF TrueI, where rest = "le_bytes 4 (fb x) @ rest", simplified]) (simp_all add: put)
  have 2: "read_u32 (advance 4 r) = Inr (fb x, advance 4 (advance 4 r))"
    using m a by (intro u32.get_put[OF TrueI, where rest = rest, simplified]) (simp_all add: put)
  show "get r = Inr (x, advance (length (put x)) r)"
    using 1 2 by (simp add: get put mk rd_bind_def)
qed

interpretation pair_entry: codec put_pair read_pair "\<lambda>_. True"
  by (rule two_words_codec[where mk = Pair]) (auto simp: read_pair_def put_pair_def)

interpretation table_entry: codec put_table_entry
    "rd_bind read_u32 (\<lambda>off. rd_bind read_u32 (\<lambda>len. rd_ret \<lparr>te_offset = off, te_length = len\<rparr>))" "\<lambda>_. True"
  by (rule two_words_codec) (auto simp: put_table_entry_def)

interpretation shape_entry: codec put_shape_entry
    "rd_bind read_u32 (\<lambda>off. rd_bind read_u32 (\<lambda>n. rd_ret \<lparr>sh_key_buffer_offset = off, sh_num_props = n\<rparr>))"
    "\<lambda>_. True"
  by (rule two_words_codec) (auto simp: put_shape_entry_def)

lemma string_kind_of_raw_put:
  assumes "unat (sk_count k) < 2 ^ 31"
  shows "string_kind_of_raw ((case sk_kind k of KString \<Rightarrow> 0 | KIdentifier \<Rightarrow> STRING_KIND_TYPE_BIT) OR sk_count k) = k"
proof -
  let ?w = "(case sk_kind k of KString \<Rightarrow> 0 | KIdentifier \<Rightarrow> STRING_KIND_TYPE_BIT) OR sk_count k"
  have sb: "bit STRING_KIND_TYPE_BIT n \<longleftrightarrow> n = 31" for n
    unfolding STRING_KIND_TYPE_BIT_def by (auto simp only: bit_push_bit_iff bit_1_iff len_num1 len_bit0) auto
  have b: "bit (sk_count k) n \<Longrightarrow> n < 31" for n using bit_less_if[OF assms] .
  have top: "bit ?w 31 \<longleftrightarrow> sk_kind k = KIdentifier"
    using b[of 31] by (auto simp: bit_or_iff sb split: string_kind_type.splits)
  have mask: "STRING_KIND_COUNT_MASK = mask 31" by (simp add: STRING_KIND_COUNT_MASK_def mask_eq_exp_minus_1)
  have "?w AND STRING_KIND_COUNT_MASK = sk_count k"
    unfolding mask
    by (rule bit_word_eqI)
       (auto simp: bit_and_iff bit_or_iff bit_mask_iff sb
         dest: b split: string_kind_type.splits)
  moreover have "?w AND STRING_KIND_TYPE_BIT = 0 \<longleftrightarrow> sk_kind k = KString"
    using flag_bit_iff[of ?w 31] top unfolding STRING_KIND_TYPE_BIT_def
    by (cases "sk_kind k") auto
  ultimately show ?thesis
    by (cases "sk_kind k") (simp_all add: string_kind_of_raw_def)
qed

interpretation string_kind: codec put_string_kind "rd_map string_kind_of_raw read_u32"
    "\<lambda>k. unat (sk_count k) < 2 ^ 31"
proof
  fix k r rest
  assume k: "unat (sk_count k) < 2 ^ 31" and r: "in_memory r" "ahead r = put_string_kind k @ rest"
  then show "rd_map string_kind_of_raw read_u32 r = Inr (k, advance (length (put_string_kind k)) r)"
    using u32.get_put[OF TrueI r[unfolded put_string_kind_def]] string_kind_of_raw_put[OF k]
    by (simp add: put_string_kind_def rd_map_def rd_bind_def)
qed

text \<open>A table of offset and length records, of any length, is read back as it was laid
  out, and the reader stops right behind it.\<close>

theorem table_entries_roundtrip:
  assumes "length ts < 2 ^ 32" and "length pre + length (concat (map put_table_entry ts) @ rest) \<le> usize_max"
  shows "parse_table_entries (of_nat (length ts)) (reader_at pre (concat (map put_table_entry ts) @ rest)) =
    Inr (ts, reader_at (pre @ concat (map put_table_entry ts)) rest)"
proof -
  have "unat (of_nat (length ts) :: u32) = length ts" using assms(1) by (simp add: unat_of_nat_less)
  then show ?thesis
    using table_entry.get_put_list[of ts "reader_at pre (concat (map put_table_entry ts) @ rest)" rest] assms(2)
    by (simp add: parse_table_entries_def in_memory_def advance_reader_at list_all_iff)
qed

theorem table_entries_roundtrip_witness:
  "fst (projr (parse_table_entries 2 (reader_at [] (concat (map put_table_entry
     [\<lparr>te_offset = 3, te_length = 4\<rparr>, \<lparr>te_offset = 9, te_length = 0\<rparr>]) @ [1])))) =
   [\<lparr>te_offset = 3, te_length = 4\<rparr>, \<lparr>te_offset = 9, te_length = 0\<rparr>]"
  using table_entries_roundtrip[of "[\<lparr>te_offset = 3, te_length = 4\<rparr>, \<lparr>te_offset = 9, te_length = 0\<rparr>]" "[]" "[1]"]
  by (simp add: put_table_entry_def usize_max_def)

text \<open>String kinds survive the trip through their packed words, for runs of up to 31 bits.\<close>

theorem string_kinds_roundtrip:
  assumes "length ks < 2 ^ 32" and "\<forall>k \<in> set ks. unat (sk_count k) < 2 ^ 31"
    and "length pre + length (concat (map put_string_kind ks) @ rest) \<le> usize_max"
  shows "parse_string_kinds (of_nat (length ks)) (reader_at pre (concat (map put_string_kind ks) @ rest)) =
    Inr (ks, reader_at (pre @ concat (map put_string_kind ks)) rest)"
proof -
  have "unat (of_nat (length ks) :: u32) = length ks" using assms(1) by (simp add: unat_of_nat_less)
  then show ?thesis
    using string_kind.get_put_list[of ks "reader_at pre (concat (map put_string_kind ks) @ rest)" rest] assms(2,3)
    by (simp add: parse_string_kinds_def in_memory_def advance_reader_at list_all_iff)
qed

theorem string_kinds_roundtrip_witness:
  "fst (projr (parse_string_kinds 1 (reader_at [] (concat (map put_string_kind
     [\<lparr>sk_kind = KIdentifier, sk_count = 70000\<rparr>]) @ [])))) = [\<lparr>sk_kind = KIdentifier, sk_count = 70000\<rparr>]"
  using string_kinds_roundtrip[of "[\<lparr>sk_kind = KIdentifier, sk_count = 70000\<rparr>]" "[]" "[]"]
  by (simp add: put_string_kind_def usize_max_def)

section \<open>Kinds of strings\<close>

definition kind_runs :: "string_kind_entry list \<Rightarrow> string_kind_type list" where
  "kind_runs ks = concat (map (\<lambda>k. replicate (unat (sk_count k)) (sk_kind k)) ks)"

lemma expand_kinds_past: "length kinds \<le> i \<Longrightarrow> expand_kinds kinds n i r = replicate n KString"
  by (induction n arbitrary: i r) (auto simp: Let_def)

lemma length_string_kinds_of [simp]: "length (string_kinds_of kinds n) = n"
proof -
  have "length (expand_kinds kinds n i r) = n" for i r
    by (induction n arbitrary: i r) (auto simp: Let_def)
  then show ?thesis by (simp add: string_kinds_of_def)
qed

lemma kind_runs_drop:
  "i < length ks \<Longrightarrow> kind_runs (drop i ks) =
     replicate (unat (sk_count (ks ! i))) (sk_kind (ks ! i)) @ kind_runs (drop (Suc i) ks)"
  by (simp add: kind_runs_def flip: Cons_nth_drop_Suc)

lemma take_Cons_replicate: "m \<le> Suc n \<Longrightarrow> take m (x # replicate n x) = replicate m x"
  by (metis min.absorb1 replicate_Suc take_replicate)

lemma expand_kinds_runs:
  assumes "\<forall>k \<in> set ks. sk_count k \<noteq> 0" and "i < length ks" and "r \<le> unat (sk_count (ks ! i))"
  shows "expand_kinds ks n i r =
    take n (replicate r (sk_kind (ks ! i)) @ kind_runs (drop (Suc i) ks) @ replicate n KString)"
  using assms(2,3)
proof (induction n arbitrary: i r)
  case 0
  then show ?case by simp
next
  case (Suc n)
  show ?case
  proof (cases r)
    case (Suc r')
    then have "expand_kinds ks n i r' =
        take n (replicate r' (sk_kind (ks ! i)) @ kind_runs (drop (Suc i) ks) @ replicate n KString)"
      using Suc.prems by (intro Suc.IH) auto
    then show ?thesis using Suc Suc.prems by (simp add: min_def take_Cons_replicate)
  next
    case 0
    show ?thesis
    proof (cases "Suc i < length ks")
      case True
      let ?k = "ks ! Suc i"
      have "sk_count ?k \<noteq> 0" using assms(1) True by simp
      then obtain c where c: "unat (sk_count ?k) = Suc c" by (metis unat_0_iff not0_implies_Suc)
      have "expand_kinds ks n (Suc i) c =
          take n (replicate c (sk_kind ?k) @ kind_runs (drop (Suc (Suc i)) ks) @ replicate n KString)"
        using True c by (intro Suc.IH) auto
      then show ?thesis using 0 True c kind_runs_drop[OF True] by (simp add: Let_def min_def take_Cons_replicate)
    next
      case False
      then show ?thesis using 0 by (simp add: Let_def expand_kinds_past kind_runs_def)
    qed
  qed
qed

text \<open>When no run is empty, string number i has the kind of the run it falls in, and a
  string past the last run counts as a plain string.\<close>

theorem string_kinds_follow_runs:
  assumes "\<forall>k \<in> set ks. sk_count k \<noteq> 0"
  shows "string_kinds_of ks n = take n (kind_runs ks @ replicate n KString)"
proof (cases ks)
  case Nil
  then show ?thesis by (simp add: string_kinds_of_def expand_kinds_past kind_runs_def)
next
  case (Cons k ks')
  then show ?thesis
    using expand_kinds_runs[OF assms, of 0 "unat (sk_count k)" n] by (simp add: string_kinds_of_def kind_runs_def)
qed

theorem string_kinds_follow_runs_witness:
  "string_kinds_of [\<lparr>sk_kind = KString, sk_count = 1\<rparr>, \<lparr>sk_kind = KIdentifier, sk_count = 1\<rparr>] 3 =
     [KString, KIdentifier, KString]"
  using string_kinds_follow_runs[of "[\<lparr>sk_kind = KString, sk_count = 1\<rparr>, \<lparr>sk_kind = KIdentifier, sk_count = 1\<rparr>]" 3]
  by (simp add: kind_runs_def)

section \<open>Values of strings\<close>

definition u16_bytes :: "u16 list \<Rightarrow> u8 list" where
  "u16_bytes us = concat (map (le_bytes 2) us)"

definition storage_bytes :: "bool \<Rightarrow> rust_string \<Rightarrow> u8 list" where
  "storage_bytes is_utf16 s = (if is_utf16 then u16_bytes (encode_utf16 s) else utf8_bytes s)"

definition storage_units :: "bool \<Rightarrow> rust_string \<Rightarrow> nat" where
  "storage_units is_utf16 s = (if is_utf16 then length (encode_utf16 s) else length (utf8_bytes s))"

lemma le_bytes_2: "le_bytes 2 (w :: u16) = [ucast w, ucast (drop_bit 8 w)]"
  by (simp add: le_bytes_def upt_rec)

lemma u16_chunks_bytes: "u16_chunks (u16_bytes us) = us"
proof (induction us)
  case Nil
  then show ?case by (simp add: u16_bytes_def)
next
  case (Cons u us)
  have "from_le (le_bytes 2 u) = u" by (simp add: le_simps)
  then show ?case using Cons by (simp add: u16_bytes_def le_bytes_2)
qed

lemma length_u16_bytes [simp]: "length (u16_bytes us) = 2 * length us"
  by (induction us) (simp_all add: u16_bytes_def)

lemma length_storage_bytes:
  "length (storage_bytes b s) = (if b then 2 * storage_units b s else storage_units b s)"
  by (simp add: storage_bytes_def storage_units_def)

lemma decode_value_slice:
  assumes "list_all is_scalar s" and "get_range storage (unat off) (unat off + length (storage_bytes b s)) =
      Some (storage_bytes b s)"
    and "unat len = storage_units b s" and "unat off < length storage" and "length storage \<le> usize_max"
  shows "decode_value storage b off len = (s, False)"
proof -
  let ?n = "length (storage_bytes b s)"
  have r: "unat off + ?n \<le> length storage" "take ?n (drop (unat off) storage) = storage_bytes b s"
    using assms(2) by (auto simp: get_range_def split: if_splits)
  have n: "unat off + ?n \<le> usize_max" using r(1) assms(5) by simp
  show ?thesis
  proof (cases b)
    case True
    then have "unat len * 2 = ?n" using assms(3) by (simp add: length_storage_bytes)
    then show ?thesis
      using True r n assms(1,4)
      by (simp add: decode_value_def Let_def saturating_mul_usize_def saturating_add_usize_def
          storage_bytes_def u16_chunks_bytes min_def mult.commute)
  next
    case False
    then have "unat len = ?n" using assms(3) by (simp add: length_storage_bytes)
    then show ?thesis
      using False r n assms(1,4)
      by (simp add: decode_value_def Let_def saturating_add_usize_def storage_bytes_def min_def)
  qed
qed

text \<open>A string as a writer places it: its value, its encoding, where its bytes lie, and the
  overflow record it would use.\<close>

record placed_string =
  ps_value :: rust_string
  ps_utf16 :: bool
  ps_offset :: u32
  ps_length :: u32
  ps_record :: u32

definition entry_holds :: "(u32 \<times> u32) list \<Rightarrow> u8 list \<Rightarrow> u32 \<Rightarrow> placed_string \<Rightarrow> bool" where
  "entry_holds overflow storage raw p \<longleftrightarrow>
     (let (e, needs) = entry_for_string (ps_utf16 p) (ps_offset p) (ps_length p) (ps_record p);
          bytes = storage_bytes (ps_utf16 p) (ps_value p) in
      raw = entry_encode e
      \<and> (needs \<longrightarrow> ps_record p < OFFSET_LIMIT \<and> unat (ps_record p) < length overflow
           \<and> overflow ! unat (ps_record p) = (ps_offset p, ps_length p))
      \<and> list_all is_scalar (ps_value p)
      \<and> unat (ps_length p) = storage_units (ps_utf16 p) (ps_value p)
      \<and> unat (ps_offset p) < length storage
      \<and> get_range storage (unat (ps_offset p)) (unat (ps_offset p) + length bytes) = Some bytes)"

lemma decode_string_holds:
  assumes "entry_holds overflow storage raw p" and "length storage \<le> usize_max"
  shows "decode_string overflow storage i raw kind =
    Inr (\<lparr>st_value = ps_value p, st_is_utf16 = ps_utf16 p, st_is_identifier = (kind = KIdentifier)\<rparr>, False)"
proof -
  obtain e needs where e: "entry_for_string (ps_utf16 p) (ps_offset p) (ps_length p) (ps_record p) = (e, needs)"
    by fastforce
  have raw: "raw = entry_encode e" using assms(1) by (simp add: entry_holds_def e Let_def)
  have "entry_resolve (entry_decode raw) overflow = Some (ps_offset p, ps_length p)
      \<and> se_is_utf16 (entry_decode raw) = ps_utf16 p"
    unfolding raw using assms(1) by (intro entry_choice_resolves[OF e]) (simp add: entry_holds_def e Let_def)
  moreover have "decode_value storage (ps_utf16 p) (ps_offset p) (ps_length p) = (ps_value p, False)"
    using assms by (intro decode_value_slice) (auto simp: entry_holds_def Let_def)
  ultimately show ?thesis by (simp add: decode_string_def Let_def)
qed

lemma decode_written_strings:
  assumes "list_all2 (entry_holds overflow storage) small ps"
    and "length small < 2 ^ 32" and "length storage \<le> usize_max"
  shows "decode_string_table (of_nat (length small)) kinds small overflow storage =
    Inr (map (\<lambda>(p, kind). \<lparr>st_value = ps_value p, st_is_utf16 = ps_utf16 p,
                 st_is_identifier = (kind = KIdentifier)\<rparr>)
           (zip ps (string_kinds_of kinds (length small))), 0)"
proof -
  have len: "length ps = length small" using assms(1) by (simp add: list_all2_lengthD)
  let ?n = "length small" and ?k = "string_kinds_of kinds (length small)"
  let ?g = "\<lambda>i. (\<lparr>st_value = ps_value (ps ! i), st_is_utf16 = ps_utf16 (ps ! i),
      st_is_identifier = (?k ! i = KIdentifier)\<rparr>, False)"
  have "unat (of_nat ?n :: u32) = ?n" using assms(2) by (simp add: unat_of_nat_less)
  moreover have "res_map (\<lambda>i. decode_string overflow storage i (small ! i) (?k ! i)) [0..<?n] =
      Inr (map ?g [0..<?n])"
    using assms(1,3) by (intro res_map_all_Inr decode_string_holds) (auto simp: list_all2_conv_all_nth)
  moreover have "map fst (map ?g [0..<?n]) =
      map (\<lambda>(p, kind). \<lparr>st_value = ps_value p, st_is_utf16 = ps_utf16 p,
         st_is_identifier = (kind = KIdentifier)\<rparr>) (zip ps ?k)"
    by (rule nth_equalityI) (simp_all add: len length_string_kinds_of)
  ultimately show ?thesis by (simp add: decode_string_table_def Let_def filter_empty_conv del: map_map)
qed

text \<open>C12: A string table whose entries were chosen by the writer's rule, over a storage that holds each
  string's bytes where its entry says, decodes to exactly those strings, with no placeholder and each
  with the encoding it was stored in.  The strings are sequences of Unicode scalar values and every
  one, also an empty one, starts strictly inside the storage: an empty string whose offset is the end
  of the storage has its bytes there too, but the decoder reads the invalid-string placeholder for it.  The table has fewer than
  2^32 entries.\<close>

theorem string_table_decodes_written:
  assumes "list_all2 (entry_holds overflow storage) small ps"
    and "length small < 2 ^ 32" and "length storage \<le> usize_max"
  shows "decode_string_table (of_nat (length small)) kinds small overflow storage =
    Inr (map (\<lambda>(p, kind). \<lparr>st_value = ps_value p, st_is_utf16 = ps_utf16 p,
                 st_is_identifier = (kind = KIdentifier)\<rparr>)
           (zip ps (string_kinds_of kinds (length small))), 0)"
  using assms by (rule decode_written_strings)

theorem string_table_decodes_written_witness:
  "decode_string_table 1 [] [entry_encode (fst (entry_for_string False 0 2 0))] [] [104, 105] =
     Inr ([\<lparr>st_value = [104, 105], st_is_utf16 = False, st_is_identifier = False\<rparr>], 0)"
proof -
  let ?p = "\<lparr>ps_value = [104, 105], ps_utf16 = False, ps_offset = 0, ps_length = 2, ps_record = 0\<rparr>"
  have "entry_holds [] [104, 105] (entry_encode (fst (entry_for_string False 0 2 0))) ?p"
    by (simp add: entry_holds_def entry_for_string_def OFFSET_LIMIT_def LENGTH_OVERFLOW_def is_scalar_def
        storage_units_def storage_bytes_def utf8_bytes_def utf8_char_def get_range_def)
  then have h: "list_all2 (entry_holds [] [104, 105]) [entry_encode (fst (entry_for_string False 0 2 0))] [?p]"
    by simp
  show ?thesis
    using string_table_decodes_written[OF h, of "[]"] by (simp add: usize_max_def string_kinds_of_def)
qed

lemma decode_string_fails:
  "(\<exists>e. decode_string overflow storage i raw kind = Inl e) \<longleftrightarrow>
     (\<exists>k. overflow_index (entry_decode raw) = Some k \<and> length overflow \<le> unat k)"
  by (auto simp: decode_string_def Let_def entry_resolve_def split: option.splits prod.splits)

text \<open>C25: Decoding the string table fails for exactly one reason: some entry in range names an
  overflow record that does not exist.  Storage that is too short never fails it.\<close>

theorem string_table_fails_iff:
  "(\<exists>e. decode_string_table n kinds small overflow storage = Inl e) \<longleftrightarrow>
     (\<exists>raw \<in> set (take (unat n) small).
        \<exists>k. overflow_index (entry_decode raw) = Some k \<and> length overflow \<le> unat k)"
proof -
  let ?c = "min (unat n) (length small)" and ?f = "\<lambda>i. decode_string overflow storage i (small ! i)
      (string_kinds_of kinds (min (unat n) (length small)) ! i)"
  have "(\<exists>e. decode_string_table n kinds small overflow storage = Inl e) \<longleftrightarrow>
      (\<exists>e. res_map ?f [0..<?c] = Inl e)"
    by (cases "res_map ?f [0..<?c]") (auto simp: decode_string_table_def Let_def)
  also have "\<dots> \<longleftrightarrow> (\<exists>i \<in> {0..<?c}. \<exists>k. overflow_index (entry_decode (small ! i)) = Some k
      \<and> length overflow \<le> unat k)"
    by (simp add: res_map_Inl_iff decode_string_fails)
  also have "\<dots> \<longleftrightarrow> (\<exists>raw \<in> set (take (unat n) small).
      \<exists>k. overflow_index (entry_decode raw) = Some k \<and> length overflow \<le> unat k)"
  proof -
    have "nth small ` {0..<?c} = set (take (unat n) small)"
      by (subst nth_image) (auto simp: min_def)
    then show ?thesis by (metis (no_types, lifting) image_iff)
  qed
  finally show ?thesis .
qed

text \<open>An empty string whose offset is the very end of the storage, where a writer that
  appends strings puts a trailing empty one, is not read as empty: the bounds check on the
  start is strict, so it is counted as invalid and replaced by the placeholder.\<close>

theorem trailing_empty_string_is_invalid:
  assumes "length storage < 2 ^ 32"
  shows "decode_value storage is_utf16 (of_nat (length storage)) 0 =
    (if is_utf16 then invalid_utf16 else invalid_utf8, True)"
  using assms by (auto simp: decode_value_def Let_def unat_of_nat_less)

theorem trailing_empty_string_is_invalid_witness:
  "decode_value [104, 105] False 2 0 = (invalid_utf8, True)"
  using trailing_empty_string_is_invalid[of "[104, 105]" False] by simp

end
