(* ===== verification/Instructions.thy ===== *)
theory Instructions
  imports Opcodes
begin

text \<open>
  Instruction streams: the decoder (\<open>crates/hbc-decomp/src/file/parser/instructions.rs\<close>)
  and the encoder (\<open>crates/hbc-decomp/src/write/encode.rs\<close>) over the opcode table of a
  version, and the theorems that each undoes the other.
\<close>

record instruction =
  in_offset :: u32
  in_opcode :: u8
  in_operands :: "operand list"
  in_length :: u32

section \<open>Decoding\<close>

primrec read_operands :: "operand_type list \<Rightarrow> operand list read_op" where
  "read_operands [] = rd_ret []"
| "read_operands (t # ts) =
     rd_bind (operand_read t) (\<lambda>v. rd_bind (read_operands ts) (\<lambda>os.
       rd_ret (\<lparr>op_ty = t, op_value = v\<rparr> # os)))"

definition read_instruction :: "bytecode_format \<Rightarrow> u32 \<Rightarrow> instruction read_op" where
  "read_instruction format off r =
     rd_bind read_u8 (\<lambda>opcode.
     rd_bind (rd_lift (ok_or (definition_at format opcode) (Parse ''unknown opcode: {opcode}'' [fword opcode])))
       (\<lambda>def.
     rd_bind (read_operands (operand_types def)) (\<lambda>operands r'.
       Inr (\<lparr>in_offset = off, in_opcode = opcode, in_operands = operands,
             in_length = of_nat (pos r' - pos r)\<rparr>, r')))) r"

definition checked_add_u32 :: "u32 \<Rightarrow> u32 \<Rightarrow> u32 option" where
  "checked_add_u32 a b = (if unat a + unat b < 2 ^ 32 then Some (a + b) else None)"

lemma well_behaved_read_operands [intro, simp]: "well_behaved (read_operands ts)"
  by (induction ts) (auto simp del: rd_ret_simp)

lemma read_instruction_advances:
  assumes "read_instruction format off r = Inr (insn, r')" and "pos r \<le> length (data r)"
  shows "remaining r' < remaining r \<and> data r' = data r \<and> pos r' \<le> length (data r) \<and> pos r < pos r'"
proof -
  obtain opcode r1 where 1: "read_u8 r = Inr (opcode, r1)"
    and def: "\<exists>d os. definition_at format opcode = Some d
      \<and> read_operands (operand_types d) r1 = Inr (os, r')"
    using assms(1) by (auto simp: read_instruction_def rd_bind_Inr_iff rd_lift_def res_bind_Inr_iff)
  have "data r1 = data r \<and> pos r1 \<le> length (data r)"
    using 1 assms(2) well_behaved_reads(2) unfolding well_behaved_def by blast
  then have r1: "r1 = advance 1 r" "pos r1 \<le> length (data r1)"
    using u8.put_get[OF 1] by auto
  from def obtain d :: instruction_def and os where "read_operands (operand_types d) r1 = Inr (os, r')" by blast
  with r1(2) well_behaved_read_operands[of "operand_types d"]
  have "data r' = data r1 \<and> pos r1 \<le> pos r' \<and> pos r' \<le> length (data r1)"
    unfolding well_behaved_def by blast
  then show ?thesis using r1 by (auto simp: remaining_def)
qed

lemma remaining_0: "pos r \<le> length (data r) \<or> remaining r = 0"
  by (auto simp: remaining_def)

text \<open>\<open>while reader.remaining() > 0\<close>: every step consumes the opcode byte.\<close>

function decode_loop :: "bytecode_format \<Rightarrow> u32 \<Rightarrow> byte_reader \<Rightarrow> instruction list result" where
  "decode_loop format off r =
     (if remaining r = 0 then Inr []
      else case read_instruction format off r of
        Inl e \<Rightarrow> Inl e
      | Inr (insn, r') \<Rightarrow>
          (case checked_add_u32 off (in_length insn) of
             None \<Rightarrow> Inl (Parse ''instruction offset overflow'' [])
           | Some off' \<Rightarrow> res_bind (decode_loop format off' r') (\<lambda>insns. Inr (insn # insns))))"
  by pat_completeness auto
termination
proof (relation "measure (\<lambda>(format, off, r). remaining r)")
  show "wf (measure (\<lambda>(format, off, r). remaining r))" by simp
next
  fix format off r x y insn r' off'
  assume "remaining r \<noteq> 0" "read_instruction format off r = Inr y" "(insn, r') = y"
  then show "((format, off', r'), format, off, r) \<in> measure (\<lambda>(format, off, r). remaining r)"
    using remaining_0[of r] read_instruction_advances[of format off r insn r'] by auto
qed

declare decode_loop.simps [simp del]

text \<open>The body of a function: the slice of the instruction region the header names.\<close>

definition decode_body :: "bytecode_format \<Rightarrow> u8 list \<Rightarrow> instruction list result" where
  "decode_body format bytes = decode_loop format 0 (new_reader bytes)"

section \<open>Encoding\<close>

fun value_arg :: "operand_value \<Rightarrow> farg list" where
  "value_arg (U8 v) = [FText (lit ''U8''), fword v]"
| "value_arg (U16 v) = [FText (lit ''U16''), fword v]"
| "value_arg (U32 v) = [FText (lit ''U32''), fword v]"
| "value_arg (I8 v) = [FText (lit ''I8''), FNum (sint v)]"
| "value_arg (I32 v) = [FText (lit ''I32''), FNum (sint v)]"
| "value_arg (F64 v) = [FText (lit ''F64''), fword v]"

definition as_byte :: "operand_value \<Rightarrow> u8 result" where
  "as_byte value =
     (case value of
        U8 v \<Rightarrow> Inr v
      | U16 v \<Rightarrow> (if v \<le> 0xff then Inr (ucast v)
                  else Inl (Write ''cannot encode {other:?} as UInt8/Reg8'' (value_arg value)))
      | U32 v \<Rightarrow> (if v \<le> 0xff then Inr (ucast v)
                  else Inl (Write ''cannot encode {other:?} as UInt8/Reg8'' (value_arg value)))
      | _ \<Rightarrow> Inl (Write ''cannot encode {other:?} as UInt8/Reg8'' (value_arg value)))"

definition as_half :: "operand_value \<Rightarrow> u16 result" where
  "as_half value =
     (case value of
        U16 v \<Rightarrow> Inr v
      | U8 v \<Rightarrow> Inr (ucast v)
      | U32 v \<Rightarrow> (if v \<le> 0xffff then Inr (ucast v)
                  else Inl (Write ''cannot encode {other:?} as UInt16'' (value_arg value)))
      | _ \<Rightarrow> Inl (Write ''cannot encode {other:?} as UInt16'' (value_arg value)))"

definition as_word :: "operand_value \<Rightarrow> u32 result" where
  "as_word value =
     (case value of
        U32 v \<Rightarrow> Inr v
      | U16 v \<Rightarrow> Inr (ucast v)
      | U8 v \<Rightarrow> Inr (ucast v)
      | _ \<Rightarrow> Inl (Write ''cannot encode {other:?} as UInt32/Reg32'' (value_arg value)))"

definition as_addr8 :: "operand_value \<Rightarrow> i8 result" where
  "as_addr8 value =
     (case value of
        I8 v \<Rightarrow> Inr v
      | I32 v \<Rightarrow> (if - 128 \<le> sint v \<and> sint v \<le> 127 then Inr (ucast v)
                  else Inl (Write ''cannot encode {other:?} as Addr8'' (value_arg value)))
      | U8 v \<Rightarrow> Inr v
      | _ \<Rightarrow> Inl (Write ''cannot encode {other:?} as Addr8'' (value_arg value)))"

definition as_imm32 :: "operand_value \<Rightarrow> i32 result" where
  "as_imm32 value =
     (case value of
        I32 v \<Rightarrow> Inr v
      | I8 v \<Rightarrow> Inr (scast v)
      | U32 v \<Rightarrow> Inr v
      | U16 v \<Rightarrow> Inr (ucast v)
      | U8 v \<Rightarrow> Inr (ucast v)
      | _ \<Rightarrow> Inl (Write ''cannot encode {other:?} as Addr32/Imm32'' (value_arg value)))"

definition as_double :: "operand_value \<Rightarrow> f64_bits result" where
  "as_double value =
     (case value of
        F64 v \<Rightarrow> Inr v
      | _ \<Rightarrow> Inl (Write ''cannot encode {other:?} as Double'' (value_arg value)))"

fun write_operand :: "operand_type \<Rightarrow> operand_value \<Rightarrow> u8 list result" where
  "write_operand Reg8 value = res_bind (as_byte value) (\<lambda>v. Inr [v])"
| "write_operand UInt8 value = res_bind (as_byte value) (\<lambda>v. Inr [v])"
| "write_operand UInt8S value = res_bind (as_byte value) (\<lambda>v. Inr [v])"
| "write_operand UInt16 value = res_bind (as_half value) (\<lambda>v. Inr (le_bytes 2 v))"
| "write_operand UInt16S value = res_bind (as_half value) (\<lambda>v. Inr (le_bytes 2 v))"
| "write_operand Reg32 value = res_bind (as_word value) (\<lambda>v. Inr (le_bytes 4 v))"
| "write_operand UInt32 value = res_bind (as_word value) (\<lambda>v. Inr (le_bytes 4 v))"
| "write_operand UInt32S value = res_bind (as_word value) (\<lambda>v. Inr (le_bytes 4 v))"
| "write_operand Addr8 value = res_bind (as_addr8 value) (\<lambda>v. Inr [v])"
| "write_operand Addr32 value = res_bind (as_imm32 value) (\<lambda>v. Inr (le_bytes 4 v))"
| "write_operand Imm32 value = res_bind (as_imm32 value) (\<lambda>v. Inr (le_bytes 4 v))"
| "write_operand Double value = res_bind (as_double value) (\<lambda>v. Inr (le_bytes 8 v))"

definition encode_instruction :: "bytecode_format \<Rightarrow> instruction \<Rightarrow> u8 list result" where
  "encode_instruction format insn =
     res_bind (ok_or (definition_at format (in_opcode insn))
       (Write ''unknown opcode {} for encode'' [fword (in_opcode insn)])) (\<lambda>def.
     if length (in_operands insn) \<noteq> length (operand_types def)
     then Inl (Write ''opcode {} ({}): expected {} operands, got {}''
            [fword (in_opcode insn), FText (lit (def_name def)), fnat (length (operand_types def)),
             fnat (length (in_operands insn))])
     else res_bind (res_map (\<lambda>(op, expected_ty). write_operand expected_ty (op_value op))
                     (zip (in_operands insn) (operand_types def))) (\<lambda>chunks.
          Inr (in_opcode insn # concat chunks)))"

definition encode_function_body :: "bytecode_format \<Rightarrow> instruction list \<Rightarrow> u8 list result" where
  "encode_function_body format insns =
     res_bind (res_map (encode_instruction format) insns) (\<lambda>chunks. Inr (concat chunks))"

section \<open>Encoding a decoded stream\<close>

fun value_for :: "operand_type \<Rightarrow> operand_value \<Rightarrow> bool" where
  "value_for Reg8 (U8 _) = True"
| "value_for UInt8 (U8 _) = True"
| "value_for UInt8S (U8 _) = True"
| "value_for UInt16 (U16 _) = True"
| "value_for UInt16S (U16 _) = True"
| "value_for Reg32 (U32 _) = True"
| "value_for UInt32 (U32 _) = True"
| "value_for UInt32S (U32 _) = True"
| "value_for Addr8 (I8 _) = True"
| "value_for Addr32 (I32 _) = True"
| "value_for Imm32 (I32 _) = True"
| "value_for Double (F64 _) = True"
| "value_for _ _ = False"

definition operand_bytes :: "operand_type \<Rightarrow> operand_value \<Rightarrow> u8 list" where
  "operand_bytes ty v = projr (write_operand ty v)"

lemma write_operand_typed: "value_for ty v \<Longrightarrow> write_operand ty v = Inr (operand_bytes ty v)"
  by (cases ty; cases v)
     (simp_all add: operand_bytes_def as_byte_def as_half_def as_word_def as_addr8_def as_imm32_def as_double_def)

lemma operand_codec_of:
  assumes base: "exact_codec put get (\<lambda>_. True)"
    and get: "operand_read ty = rd_map mk get"
    and put: "\<And>w. write_operand ty (mk w) = Inr (put w)"
    and ok: "\<And>v. value_for ty v \<longleftrightarrow> (\<exists>w. v = mk w)"
    and inj: "\<And>w w'. mk w = mk w' \<Longrightarrow> w = w'"
  shows "exact_codec (operand_bytes ty) (operand_read ty) (value_for ty)"
proof
  fix v r rest
  assume v: "value_for ty v" and r: "in_memory r" "ahead r = operand_bytes ty v @ rest"
  then obtain w where w: "v = mk w" using ok by blast
  have "get r = Inr (w, advance (length (put w)) r)"
    using r put[of w] by (intro codec.get_put[OF exact_codec.axioms(1)[OF base]]) (auto simp: w operand_bytes_def)
  then show "operand_read ty r = Inr (v, advance (length (operand_bytes ty v)) r)"
    using put[of w] by (simp add: get rd_map_def rd_bind_def operand_bytes_def w)
next
  fix v r r'
  assume "operand_read ty r = Inr (v, r')"
  then obtain w where 1: "get r = Inr (w, r')" and w: "v = mk w" by (auto simp: get rd_map_Inr_iff)
  have "operand_bytes ty v = put w" using put[of w] by (simp add: w operand_bytes_def)
  then show "value_for ty v \<and> r' = advance (length (operand_bytes ty v)) r
      \<and> take (length (operand_bytes ty v)) (ahead r) = operand_bytes ty v"
    using exact_codec.put_get[OF base 1] ok[of v] w by auto
qed

lemma value_for_iff:
  "value_for Reg8 v \<longleftrightarrow> (\<exists>w. v = U8 w)" "value_for UInt8 v \<longleftrightarrow> (\<exists>w. v = U8 w)"
  "value_for UInt8S v \<longleftrightarrow> (\<exists>w. v = U8 w)" "value_for UInt16 v \<longleftrightarrow> (\<exists>w. v = U16 w)"
  "value_for UInt16S v \<longleftrightarrow> (\<exists>w. v = U16 w)" "value_for Reg32 v \<longleftrightarrow> (\<exists>w. v = U32 w)"
  "value_for UInt32 v \<longleftrightarrow> (\<exists>w. v = U32 w)" "value_for UInt32S v \<longleftrightarrow> (\<exists>w. v = U32 w)"
  "value_for Addr8 v \<longleftrightarrow> (\<exists>w. v = I8 w)" "value_for Addr32 v \<longleftrightarrow> (\<exists>w. v = I32 w)"
  "value_for Imm32 v \<longleftrightarrow> (\<exists>w. v = I32 w)" "value_for Double v \<longleftrightarrow> (\<exists>w. v = F64 w)"
  by (cases v; simp)+

lemma operand_codec: "exact_codec (operand_bytes ty) (operand_read ty) (value_for ty)"
proof (cases ty)
  case Reg8
  then show ?thesis
    by (simp only:) (rule operand_codec_of[OF byte_codec, where mk = U8];
      simp add: as_byte_def value_for_iff)
next
  case UInt8
  then show ?thesis
    by (simp only:) (rule operand_codec_of[OF byte_codec, where mk = U8];
      simp add: as_byte_def value_for_iff)
next
  case UInt8S
  then show ?thesis
    by (simp only:) (rule operand_codec_of[OF byte_codec, where mk = U8];
      simp add: as_byte_def value_for_iff)
next
  case UInt16
  then show ?thesis
    by (simp only:) (rule operand_codec_of[OF word_codecs(1), where mk = U16];
      simp add: as_half_def value_for_iff)
next
  case UInt16S
  then show ?thesis
    by (simp only:) (rule operand_codec_of[OF word_codecs(1), where mk = U16];
      simp add: as_half_def value_for_iff)
next
  case Reg32
  then show ?thesis
    by (simp only:) (rule operand_codec_of[OF word_codecs(2), where mk = U32];
      simp add: as_word_def value_for_iff)
next
  case UInt32
  then show ?thesis
    by (simp only:) (rule operand_codec_of[OF word_codecs(2), where mk = U32];
      simp add: as_word_def value_for_iff)
next
  case UInt32S
  then show ?thesis
    by (simp only:) (rule operand_codec_of[OF word_codecs(2), where mk = U32];
      simp add: as_word_def value_for_iff)
next
  case Addr8
  then show ?thesis
    by (simp only:) (rule operand_codec_of[OF byte_codec, where mk = I8];
      simp add: as_addr8_def value_for_iff read_i8_def)
next
  case Addr32
  then show ?thesis
    by (simp only:) (rule operand_codec_of[OF word_codecs(3), where mk = I32];
      simp add: as_imm32_def value_for_iff)
next
  case Imm32
  then show ?thesis
    by (simp only:) (rule operand_codec_of[OF word_codecs(3), where mk = I32];
      simp add: as_imm32_def value_for_iff)
next
  case Double
  then show ?thesis
    by (simp only:) (rule operand_codec_of[OF word_codecs(5), where mk = F64];
      simp add: as_double_def value_for_iff)
qed

interpretation operand: exact_codec "operand_bytes ty" "operand_read ty" "value_for ty" for ty
  by (rule operand_codec)

section \<open>Instructions as a codec\<close>

definition operands_bytes :: "operand list \<Rightarrow> u8 list" where
  "operands_bytes os = concat (map (\<lambda>o'. operand_bytes (op_ty o') (op_value o')) os)"

definition insn_bytes :: "instruction \<Rightarrow> u8 list" where
  "insn_bytes insn = in_opcode insn # operands_bytes (in_operands insn)"

definition typed_operand :: "operand \<Rightarrow> bool" where
  "typed_operand o' \<longleftrightarrow> value_for (op_ty o') (op_value o')"

definition typed_insn :: "bytecode_format \<Rightarrow> instruction \<Rightarrow> bool" where
  "typed_insn format insn \<longleftrightarrow>
     (case definition_at format (in_opcode insn) of
        None \<Rightarrow> False
      | Some def \<Rightarrow> map op_ty (in_operands insn) = operand_types def
                    \<and> list_all typed_operand (in_operands insn))"

lemma read_operands_codec:
  "exact_codec operands_bytes (read_operands ts) (\<lambda>os. map op_ty os = ts \<and> list_all typed_operand os)"
proof (induction ts)
  case Nil
  then show ?case
    by unfold_locales (auto simp: operands_bytes_def)
next
  case (Cons t ts)
  show ?case unfolding read_operands.simps
    by (rule exact_codec_bind[OF operand_codec Cons.IH])
       (auto simp: operands_bytes_def typed_operand_def map_eq_Cons_conv,
        metis operand.surjective old.unit.exhaust)
qed

definition read_op_and_operands :: "bytecode_format \<Rightarrow> (u8 \<times> operand list) read_op" where
  "read_op_and_operands format =
     rd_bind read_u8 (\<lambda>opcode.
     rd_bind (case definition_at format opcode of
                None \<Rightarrow> rd_fail (Parse ''unknown opcode: {opcode}'' [fword opcode])
              | Some def \<Rightarrow> read_operands (operand_types def)) (\<lambda>os. rd_ret (opcode, os)))"

lemma read_op_and_operands_codec:
  "exact_codec (\<lambda>(opcode, os). opcode # operands_bytes os) (read_op_and_operands format)
     (\<lambda>(opcode, os). \<exists>def. definition_at format opcode = Some def
        \<and> map op_ty os = operand_types def \<and> list_all typed_operand os)"
  unfolding read_op_and_operands_def
proof (rule exact_codec_bind[OF byte_codec])
  fix opcode
  show "exact_codec operands_bytes (case definition_at format opcode of
      None \<Rightarrow> rd_fail (Parse ''unknown opcode: {opcode}'' [fword opcode])
    | Some def \<Rightarrow> read_operands (operand_types def))
    (\<lambda>os. \<exists>def. definition_at format opcode = Some def
        \<and> map op_ty os = operand_types def \<and> list_all typed_operand os)"
  proof (cases "definition_at format opcode")
    case None
    then show ?thesis by unfold_locales auto
  next
    case (Some def)
    then show ?thesis using read_operands_codec[of "operand_types def"] by simp
  qed
qed auto

lemma read_instruction_eq:
  "read_instruction format off r = rd_bind (read_op_and_operands format) (\<lambda>(opcode, os) r'.
     Inr (\<lparr>in_offset = off, in_opcode = opcode, in_operands = os,
           in_length = of_nat (pos r' - pos r)\<rparr>, r')) r"
  unfolding read_instruction_def read_op_and_operands_def rd_bind_assoc
  by (rule arg_cong[where f = "\<lambda>f. rd_bind read_u8 f r"], rule ext, rule ext)
     (auto simp: rd_bind_def rd_lift_def split: option.splits sum.splits)

lemma typed_insn_iff:
  "typed_insn format insn \<longleftrightarrow> (\<exists>def. definition_at format (in_opcode insn) = Some def
     \<and> map op_ty (in_operands insn) = operand_types def \<and> list_all typed_operand (in_operands insn))"
  by (auto simp: typed_insn_def split: option.splits)

lemma instruction_codec:
  "exact_codec insn_bytes (read_instruction format off)
     (\<lambda>i. typed_insn format i \<and> in_offset i = off \<and> in_length i = of_nat (length (insn_bytes i)))"
proof
  fix i r rest
  assume i: "typed_insn format i \<and> in_offset i = off \<and> in_length i = of_nat (length (insn_bytes i))"
    and r: "in_memory r" "ahead r = insn_bytes i @ rest"
  have "read_op_and_operands format r =
      Inr ((in_opcode i, in_operands i), advance (length (insn_bytes i)) r)"
    using i r codec.get_put[OF exact_codec.axioms(1)[OF read_op_and_operands_codec],
        of format "(in_opcode i, in_operands i)" r rest]
    by (auto simp: typed_insn_iff insn_bytes_def)
  then show "read_instruction format off r = Inr (i, advance (length (insn_bytes i)) r)"
    using i by (cases i) (simp add: read_instruction_eq rd_bind_def)
next
  fix i r r'
  assume "read_instruction format off r = Inr (i, r')"
  then obtain opcode os where 1: "read_op_and_operands format r = Inr ((opcode, os), r')"
    and i: "i = \<lparr>in_offset = off, in_opcode = opcode, in_operands = os, in_length = of_nat (pos r' - pos r)\<rparr>"
    by (auto simp: read_instruction_eq rd_bind_Inr_iff)
  show "(typed_insn format i \<and> in_offset i = off \<and> in_length i = of_nat (length (insn_bytes i)))
      \<and> r' = advance (length (insn_bytes i)) r \<and> take (length (insn_bytes i)) (ahead r) = insn_bytes i"
    using exact_codec.put_get[OF read_op_and_operands_codec 1]
    by (auto simp: i typed_insn_iff insn_bytes_def)
qed

interpretation insn: exact_codec insn_bytes "read_instruction format off"
    "\<lambda>i. typed_insn format i \<and> in_offset i = off \<and> in_length i = of_nat (length (insn_bytes i))"
    for format off
  by (rule instruction_codec)

lemma encode_instruction_typed:
  assumes "typed_insn format insn"
  shows "encode_instruction format insn = Inr (insn_bytes insn)"
proof -
  obtain def where def: "definition_at format (in_opcode insn) = Some def"
    and ty: "map op_ty (in_operands insn) = operand_types def"
    and ok: "list_all typed_operand (in_operands insn)"
    using assms by (auto simp: typed_insn_iff)
  have "res_map (\<lambda>(op, expected_ty). write_operand expected_ty (op_value op))
      (zip (in_operands insn) (operand_types def)) =
      Inr (map (\<lambda>(op, expected_ty). operand_bytes expected_ty (op_value op))
        (zip (in_operands insn) (operand_types def)))"
    using ok
    by (intro res_map_all_Inr)
       (auto simp: ty[symmetric] zip_map2 zip_same_conv_map list_all_iff typed_operand_def write_operand_typed)
  moreover have "map (\<lambda>(op, expected_ty). operand_bytes expected_ty (op_value op))
      (zip (in_operands insn) (operand_types def)) =
      map (\<lambda>o'. operand_bytes (op_ty o') (op_value o')) (in_operands insn)"
    by (simp add: ty[symmetric] zip_map2 zip_same_conv_map)
  moreover have "length (in_operands insn) = length (operand_types def)" using ty by (metis length_map)
  ultimately show ?thesis
    by (simp add: encode_instruction_def def insn_bytes_def operands_bytes_def)
qed

section \<open>Whole function bodies\<close>

text \<open>Instructions laid out one after another from an offset: each records where it starts and
  how many bytes it takes.\<close>

fun laid_out :: "u32 \<Rightarrow> instruction list \<Rightarrow> bool" where
  "laid_out off [] = True"
| "laid_out off (i # is) =
     (in_offset i = off \<and> in_length i = of_nat (length (insn_bytes i))
      \<and> unat off + unat (in_length i) < 2 ^ 32 \<and> laid_out (off + in_length i) is)"

definition body_bytes :: "instruction list \<Rightarrow> u8 list" where
  "body_bytes insns = concat (map insn_bytes insns)"

lemma decode_loop_sound:
  assumes "decode_loop format off r = Inr insns" and "pos r \<le> length (data r)"
  shows "list_all (typed_insn format) insns \<and> laid_out off insns \<and> body_bytes insns = ahead r"
  using assms
proof (induction format off r arbitrary: insns rule: decode_loop.induct)
  case (1 format off r)
  show ?case
  proof (cases "remaining r = 0")
    case True
    then show ?thesis using "1.prems"
      by (auto simp: decode_loop.simps[of format off r] body_bytes_def ahead_def remaining_def)
  next
    case False
    then obtain i r' off' rest where i: "read_instruction format off r = Inr (i, r')"
      and off': "checked_add_u32 off (in_length i) = Some off'"
      and rest: "decode_loop format off' r' = Inr rest" and insns: "insns = i # rest"
      using "1.prems"(1)
      by (auto simp: decode_loop.simps[of format off r] res_bind_Inr_iff split: sum.splits option.splits)
    note adv = read_instruction_advances[OF i "1.prems"(2)]
    note c = insn.put_get[OF i]
    have IH: "list_all (typed_insn format) rest \<and> laid_out off' rest \<and> body_bytes rest = ahead r'"
      using "1.IH"[OF False i refl off' rest] adv by simp
    have "insn_bytes i @ ahead r' = ahead r"
      using c by (metis advance_simps(3) append_take_drop_id)
    then show ?thesis
      using IH c off' by (auto simp: insns body_bytes_def checked_add_u32_def split: if_splits)
  qed
qed

lemma decode_loop_complete:
  assumes "list_all (typed_insn format) insns" and "laid_out off insns"
    and "ahead r = body_bytes insns" and "in_memory r"
  shows "decode_loop format off r = Inr insns"
  using assms
proof (induction insns arbitrary: off r)
  case Nil
  then show ?case by (simp add: decode_loop.simps[of format off r] body_bytes_def ahead_def remaining_def)
next
  case (Cons i insns)
  let ?r = "advance (length (insn_bytes i)) r"
  have i: "read_instruction format off r = Inr (i, ?r)"
    using Cons.prems by (intro insn.get_put[where rest = "body_bytes insns"]) (auto simp: body_bytes_def)
  have "length (ahead r) \<noteq> 0" using Cons.prems(3) by (simp add: body_bytes_def insn_bytes_def)
  then have rem: "remaining r \<noteq> 0" by (simp add: remaining_def ahead_def)
  have "decode_loop format (off + in_length i) ?r = Inr insns"
    using Cons.prems by (intro Cons.IH) (auto simp: body_bytes_def)
  moreover have "checked_add_u32 off (in_length i) = Some (off + in_length i)"
    using Cons.prems(2) by (auto simp: checked_add_u32_def)
  ultimately show ?case
    using i rem by (simp add: decode_loop.simps[of format off r])
qed

lemma encode_body_typed:
  "list_all (typed_insn format) insns \<Longrightarrow> encode_function_body format insns = Inr (body_bytes insns)"
  using res_map_all_Inr[of insns "encode_instruction format" insn_bytes] encode_instruction_typed
  by (auto simp: encode_function_body_def body_bytes_def list_all_iff)

text \<open>C7: Encoding what was decoded is the identity: whatever bytes decode under an opcode
  table, encoding the instructions gives back exactly those bytes.\<close>

theorem encode_decoded_body:
  assumes "decode_body format bytes = Inr insns"
  shows "encode_function_body format insns = Inr bytes"
  using decode_loop_sound[of format 0 "new_reader bytes" insns] encode_body_typed[of format insns] assms
  by (auto simp: decode_body_def new_reader_def ahead_def)

definition sample_format :: bytecode_format where
  "sample_format = \<lparr>fmt_version = 96, definitions =
     [\<lparr>def_opcode = 0, def_name = ''Unreachable'', operand_types = [], is_jump = False, abstract_definition = None\<rparr>,
      \<lparr>def_opcode = 1, def_name = ''LoadConstString'', operand_types = [Reg8, UInt16S], is_jump = False,
       abstract_definition = None\<rparr>,
      \<lparr>def_opcode = 2, def_name = ''Jmp'', operand_types = [Addr8], is_jump = True, abstract_definition = None\<rparr>],
     abstract_definitions = [], git_commit_hash = None\<rparr>"

definition sample_body :: "instruction list" where
  "sample_body =
     [\<lparr>in_offset = 0, in_opcode = 1, in_operands =
        [\<lparr>op_ty = Reg8, op_value = U8 3\<rparr>, \<lparr>op_ty = UInt16S, op_value = U16 0x1234\<rparr>], in_length = 4\<rparr>,
      \<lparr>in_offset = 4, in_opcode = 2, in_operands = [\<lparr>op_ty = Addr8, op_value = I8 0xfe\<rparr>], in_length = 2\<rparr>,
      \<lparr>in_offset = 6, in_opcode = 0, in_operands = [], in_length = 1\<rparr>]"

lemma sample_bytes:
  "map insn_bytes sample_body = [[1, 3, 0x34, 0x12], [2, 0xfe], [0]]"
  by (simp add: sample_body_def insn_bytes_def operands_bytes_def operand_bytes_def as_byte_def
      as_half_def as_addr8_def le_bytes_def upt_rec)

lemma sample_body_facts:
  "list_all (typed_insn sample_format) sample_body" "laid_out 0 sample_body"
  "body_bytes sample_body = [1, 3, 0x34, 0x12, 2, 0xfe, 0]"
proof -
  show "list_all (typed_insn sample_format) sample_body"
    by (simp add: sample_body_def typed_insn_def sample_format_def definition_at_def typed_operand_def)
  show "laid_out 0 sample_body"
    using sample_bytes by (simp add: sample_body_def)
  show "body_bytes sample_body = [1, 3, 0x34, 0x12, 2, 0xfe, 0]"
    by (simp add: body_bytes_def sample_bytes)
qed

lemma sample_decodes: "decode_body sample_format [1, 3, 0x34, 0x12, 2, 0xfe, 0] = Inr sample_body"
  unfolding decode_body_def
  by (rule decode_loop_complete)
     (use sample_body_facts in \<open>simp_all add: new_reader_def ahead_def in_memory_def usize_max_def\<close>)

theorem encode_decoded_body_witness:
  "encode_function_body sample_format sample_body = Inr [1, 3, 0x34, 0x12, 2, 0xfe, 0]"
  by (rule encode_decoded_body[OF sample_decodes])

text \<open>C6: Decoding what was encoded is the identity on well-formed bodies: instructions whose
  operands have the types the table demands, laid out from offset zero, come back unchanged.\<close>

theorem decode_encoded_body:
  assumes "list_all (typed_insn format) insns" and "laid_out 0 insns"
    and "encode_function_body format insns = Inr bytes" and "length bytes \<le> usize_max"
  shows "decode_body format bytes = Inr insns"
  using assms encode_body_typed[OF assms(1)] unfolding decode_body_def
  by (intro decode_loop_complete) (auto simp: new_reader_def ahead_def in_memory_def)

theorem decode_encoded_body_witness:
  "decode_body sample_format [1, 3, 0x34, 0x12, 2, 0xfe, 0] = Inr sample_body"
  using decode_encoded_body[OF sample_body_facts(1,2), of "[1, 3, 0x34, 0x12, 2, 0xfe, 0]"]
    encode_body_typed[OF sample_body_facts(1)] sample_body_facts(3)
  by (simp add: usize_max_def)

text \<open>What the decoder returns is always well formed: every opcode is in the table, every
  operand has the type the table gives it, and the instructions tile the body from offset
  zero to its end.\<close>

theorem decoded_body_well_formed:
  assumes "decode_body format bytes = Inr insns"
  shows "list_all (typed_insn format) insns \<and> laid_out 0 insns
    \<and> length bytes = sum_list (map (length \<circ> insn_bytes) insns)"
  using decode_loop_sound[of format 0 "new_reader bytes" insns] assms
  by (auto simp: decode_body_def new_reader_def ahead_def body_bytes_def length_concat comp_def)

theorem decoded_body_well_formed_witness:
  "laid_out 0 sample_body \<and> sum_list (map (length \<circ> insn_bytes) sample_body) = 7"
  using decoded_body_well_formed[OF sample_decodes] by simp

end
