(* ===== verification/Footer.thy ===== *)
theory Footer
  imports Header
begin

text \<open>
  The SHA-1 footer (\<open>crates/hbc-decomp/src/write/footer.rs\<close>) and the sealing of a mutated
  image (\<open>finalize_raw_image\<close> and the raw path of \<open>serialize_file\<close> in
  \<open>crates/hbc-decomp/src/write/serialize.rs\<close>).  The digest is the \<open>sha1\<close> crate's: a
  parameter of every definition, of which the theorems use only that a digest has 20
  bytes (\<open>digest_len\<close>).
\<close>

type_synonym digest = "u8 list \<Rightarrow> u8 list"

definition digest_len :: "digest \<Rightarrow> bool" where
  "digest_len sha1 \<longleftrightarrow> (\<forall>bs. length (sha1 bs) = 20)"

definition FOOTER_LEN :: nat where "FOOTER_LEN = 20"

definition compute_file_hash :: "digest \<Rightarrow> u8 list \<Rightarrow> u8 list" where
  "compute_file_hash sha1 bytes = sha1 bytes"

definition append_footer :: "digest \<Rightarrow> u8 list \<Rightarrow> u8 list" where
  "append_footer sha1 buf = buf @ compute_file_hash sha1 buf"

definition rehash_footer :: "digest \<Rightarrow> u8 list \<Rightarrow> u8 list" where
  "rehash_footer sha1 buf =
     append_footer sha1 (if FOOTER_LEN \<le> length buf then take (length buf - FOOTER_LEN) buf else buf)"

definition verify_footer :: "digest \<Rightarrow> u8 list \<Rightarrow> bool" where
  "verify_footer sha1 buf \<longleftrightarrow>
     (if length buf < FOOTER_LEN then False
      else let n = length buf - FOOTER_LEN in compute_file_hash sha1 (take n buf) = drop n buf)"

definition put_length :: "u8 list \<Rightarrow> u8 list" where
  "put_length buf = put_at buf 32 (le_bytes 4 (of_nat (length buf) :: u32))"

definition finalize_raw_image :: "digest \<Rightarrow> u8 list \<Rightarrow> u8 list result" where
  "finalize_raw_image sha1 buf =
     (if length buf < 36 then Inl (Write ''image too small'' [])
      else Inr (rehash_footer sha1 (put_length (rehash_footer sha1 (put_length buf)))))"

definition serialize_raw :: "digest \<Rightarrow> u8 list \<Rightarrow> u8 list" where
  "serialize_raw sha1 raw =
     (let out = rehash_footer sha1 raw in
      if 36 \<le> length out then rehash_footer sha1 (put_length out) else out)"

section \<open>Sealed images\<close>

lemma length_rehash: "digest_len sha1 \<Longrightarrow> 20 \<le> length buf \<Longrightarrow> length (rehash_footer sha1 buf) = length buf"
  by (simp add: rehash_footer_def append_footer_def compute_file_hash_def FOOTER_LEN_def digest_len_def)

lemma rehash_body:
  "digest_len sha1 \<Longrightarrow> 20 \<le> length buf \<Longrightarrow>
     take (length buf - 20) (rehash_footer sha1 buf) = take (length buf - 20) buf"
  by (simp add: rehash_footer_def append_footer_def FOOTER_LEN_def)

lemma verify_rehash: "digest_len sha1 \<Longrightarrow> verify_footer sha1 (rehash_footer sha1 buf)"
  by (simp add: verify_footer_def rehash_footer_def append_footer_def compute_file_hash_def
      FOOTER_LEN_def digest_len_def Let_def)

lemma rehash_verified: "verify_footer sha1 buf \<Longrightarrow> rehash_footer sha1 buf = buf"
  by (simp add: verify_footer_def rehash_footer_def append_footer_def Let_def split: if_splits)

lemma rehash_cong:
  "length a = length b \<Longrightarrow> take (length a - 20) a = take (length b - 20) b \<Longrightarrow> 20 \<le> length a
   \<Longrightarrow> rehash_footer sha1 a = rehash_footer sha1 b"
  by (simp add: rehash_footer_def FOOTER_LEN_def)

text \<open>Rehashing seals any buffer: its last 20 bytes are then the digest of the rest.  And
  it is the only way to be sealed: a buffer that already verifies is returned unchanged.\<close>

theorem rehash_seals:
  assumes "digest_len sha1"
  shows "verify_footer sha1 (rehash_footer sha1 buf)
    \<and> (verify_footer sha1 buf \<longleftrightarrow> rehash_footer sha1 buf = buf)"
  using verify_rehash[OF assms] rehash_verified by metis

definition sample_digest :: digest where
  "sample_digest bs = map (\<lambda>i. of_nat (length bs + i)) [0..<20]"

lemma sample_digest_len: "digest_len sample_digest"
  by (simp add: digest_len_def sample_digest_def)

theorem rehash_seals_witness: "verify_footer sample_digest (rehash_footer sample_digest [1, 2, 3])"
  using rehash_seals[OF sample_digest_len, of "[1, 2, 3]"] by simp

section \<open>Finalizing\<close>

lemma length_put_length: "36 \<le> length buf \<Longrightarrow> length (put_length buf) = length buf"
  by (simp add: put_length_def)

text \<open>The body of a finalized image: the buffer without its last 20 bytes, with the length field
  set to the length of the whole image.\<close>

definition sealed_body :: "u8 list \<Rightarrow> u8 list" where
  "sealed_body buf = put_at (take (length buf - 20) buf) 32 (le_bytes 4 (of_nat (length buf) :: u32))"

lemma length_sealed_body: "56 \<le> length buf \<Longrightarrow> length (sealed_body buf) = length buf - 20"
  by (simp add: sealed_body_def)

lemma body_put_length:
  "56 \<le> length buf \<Longrightarrow> take (length buf - 20) (put_length buf) = sealed_body buf"
  by (simp add: put_length_def sealed_body_def take_put_at)

lemma rehash_put_length:
  assumes "digest_len sha1" and "56 \<le> length buf"
  shows "rehash_footer sha1 (put_length buf) = append_footer sha1 (sealed_body buf)"
  using assms body_put_length[of buf]
  by (simp add: rehash_footer_def FOOTER_LEN_def length_put_length)

lemma sealed_body_again:
  assumes "digest_len sha1" and "56 \<le> length buf"
  shows "sealed_body (append_footer sha1 (sealed_body buf)) = sealed_body buf"
proof -
  have "length (append_footer sha1 (sealed_body buf)) = length buf"
    using assms by (simp add: append_footer_def compute_file_hash_def digest_len_def length_sealed_body)
  moreover have "take (length buf - 20) (append_footer sha1 (sealed_body buf)) = sealed_body buf"
    using assms(2) by (simp add: append_footer_def length_sealed_body)
  ultimately show ?thesis
    using assms(2) unfolding sealed_body_def[of "append_footer sha1 (sealed_body buf)"]
    by (simp add: sealed_body_def put_at_twice)
qed

lemma finalize_eq:
  assumes "digest_len sha1" and "56 \<le> length buf"
  shows "finalize_raw_image sha1 buf = Inr (append_footer sha1 (sealed_body buf))"
proof -
  let ?out = "append_footer sha1 (sealed_body buf)"
  have "length ?out = length buf"
    using assms by (simp add: append_footer_def compute_file_hash_def digest_len_def length_sealed_body)
  then show ?thesis
    using assms rehash_put_length[of sha1 buf] rehash_put_length[of sha1 ?out] sealed_body_again[of sha1 buf]
    by (simp add: finalize_raw_image_def)
qed

lemma serialize_raw_eq:
  assumes "digest_len sha1" and "56 \<le> length raw"
  shows "serialize_raw sha1 raw = append_footer sha1 (sealed_body raw)"
proof -
  let ?out = "rehash_footer sha1 raw"
  have len: "length ?out = length raw" using assms by (simp add: length_rehash)
  have "sealed_body ?out = sealed_body raw"
    using rehash_body[OF assms(1), of raw] assms(2) len by (simp add: sealed_body_def)
  then show ?thesis
    using assms len rehash_put_length[of sha1 ?out] by (simp add: serialize_raw_def Let_def)
qed

lemma finalized:
  assumes "digest_len sha1" and "finalize_raw_image sha1 buf = Inr out"
    and "56 \<le> length buf" and "length buf < 2 ^ 32"
  shows "verify_footer sha1 out \<and> length out = length buf
    \<and> unat (from_le (get_at 4 out 32) :: u32) = length out
    \<and> (\<forall>i < length buf - 20. i < 32 \<or> 36 \<le> i \<longrightarrow> out ! i = buf ! i)"
proof -
  have out: "out = append_footer sha1 (sealed_body buf)" using finalize_eq[OF assms(1,3)] assms(2) by simp
  have len: "length out = length buf"
    using assms(1,3) by (simp add: out append_footer_def compute_file_hash_def digest_len_def length_sealed_body)
  have ver: "verify_footer sha1 out"
    using assms(1,3) len by (simp add: out verify_footer_def append_footer_def compute_file_hash_def
        digest_len_def Let_def FOOTER_LEN_def length_sealed_body)
  have "get_at 4 out 32 = get_at 4 (sealed_body buf) 32"
    using assms(3) by (simp add: out append_footer_def get_at_def length_sealed_body)
  also have "\<dots> = le_bytes 4 (of_nat (length buf) :: u32)"
    using assms(3) by (simp add: sealed_body_def)
  finally have l: "unat (from_le (get_at 4 out 32) :: u32) = length out"
    using assms(4) len by (simp add: from_le_le_bytes unat_of_nat_less)
  have "out ! i = buf ! i" if "i < length buf - 20" "i < 32 \<or> 36 \<le> i" for i
    using that assms(3)
    by (auto simp: out append_footer_def nth_append length_sealed_body)
       (auto simp: sealed_body_def nth_put_at)
  with ver len l show ?thesis by blast
qed

text \<open>C11: A finalized image is sealed, records its own length, and is otherwise the buffer it
  was made from: nothing but the length field and the last 20 bytes can differ.\<close>

theorem finalize_seals_and_preserves:
  assumes "digest_len sha1" and "finalize_raw_image sha1 buf = Inr out"
    and "56 \<le> length buf" and "length buf < 2 ^ 32"
  shows "verify_footer sha1 out \<and> length out = length buf
    \<and> unat (from_le (get_at 4 out 32) :: u32) = length out
    \<and> (\<forall>i < length buf - 20. i < 32 \<or> 36 \<le> i \<longrightarrow> out ! i = buf ! i)"
  using assms by (rule finalized)

theorem finalize_seals_and_preserves_witness:
  "unat (from_le (get_at 4 (projr (finalize_raw_image sample_digest (replicate 60 5))) 32) :: u32) = 60"
proof -
  obtain out where out: "finalize_raw_image sample_digest (replicate 60 5) = Inr out"
    by (simp add: finalize_raw_image_def)
  from finalize_seals_and_preserves[OF sample_digest_len out] show ?thesis by (simp add: out)
qed

text \<open>Sealing is stable: finalizing or serializing an image that was already finalized
  returns it byte for byte.\<close>

theorem finalize_idempotent:
  assumes "digest_len sha1" and "56 \<le> length buf" and "finalize_raw_image sha1 buf = Inr out"
  shows "finalize_raw_image sha1 out = Inr out \<and> serialize_raw sha1 out = out"
proof -
  have out: "out = append_footer sha1 (sealed_body buf)" using finalize_eq[OF assms(1,2)] assms(3) by simp
  have "length out = length buf"
    using assms(1,2) by (simp add: out append_footer_def compute_file_hash_def digest_len_def length_sealed_body)
  then show ?thesis
    using finalize_eq[OF assms(1), of out] serialize_raw_eq[OF assms(1), of out]
      sealed_body_again[OF assms(1,2)] assms(2) by (simp add: out)
qed

theorem finalize_idempotent_witness:
  "serialize_raw sample_digest (projr (finalize_raw_image sample_digest (replicate 60 5))) =
     projr (finalize_raw_image sample_digest (replicate 60 5))"
proof -
  obtain out where out: "finalize_raw_image sample_digest (replicate 60 5) = Inr out"
    by (simp add: finalize_raw_image_def)
  from finalize_idempotent[OF sample_digest_len _ out] show ?thesis by (simp add: out)
qed

end
