(* ===== verification/Debug_Info.thy ===== *)
theory Debug_Info
  imports Leb128
begin

text \<open>
  The debug section (\<open>crates/hbc-decomp/src/debug.rs\<close>): the version-keyed header, the
  source-location streams of both encodings, the scope descriptors, textified callees
  and string table of the legacy layout, and the status that says why nothing was read.
  A \<open>BTreeMap\<close> is a map; where the code iterates over one, every key is handled
  independently of the others.  Additions on \<open>i64\<close> wrap, as in a release build.
\<close>

type_synonym ('k, 'v) btree = "'k \<rightharpoonup> 'v"

datatype stream_encoding = LegacyStream | ModernStream

record debug_layout =
  dl_header_size :: u32
  dl_has_lexical_regions :: bool
  dl_stream :: stream_encoding

definition debug_layout_for_version :: "u32 \<Rightarrow> debug_layout option" where
  "debug_layout_for_version v =
     (if v \<le> 96 then Some \<lparr>dl_header_size = 28, dl_has_lexical_regions = True, dl_stream = LegacyStream\<rparr>
      else if v = 98 \<or> v = 99
      then Some \<lparr>dl_header_size = 16, dl_has_lexical_regions = False, dl_stream = ModernStream\<rparr>
      else None)"

record function_debug_offsets =
  fdo_source_locations :: u32
  fdo_scope_desc_data :: "u32 option"

record source_location =
  sl_bytecode_offset :: u32
  sl_line :: u32
  sl_column :: u32
  sl_scope_offset :: "u32 option"

record scope_descriptor =
  sd_offset :: u32
  sd_parent_offset :: "u32 option"
  sd_flags :: u32
  sd_names :: "rust_string list"

definition is_inner_scope :: "scope_descriptor \<Rightarrow> bool" where
  "is_inner_scope s \<longleftrightarrow> sd_flags s AND 1 \<noteq> 0"

definition is_dynamic :: "scope_descriptor \<Rightarrow> bool" where
  "is_dynamic s \<longleftrightarrow> sd_flags s AND 2 \<noteq> 0"

record debug_info =
  di_source_locations :: "(u32, source_location list) btree"
  di_function_scopes :: "(u32, u32) btree"
  di_scope_descriptors :: "scope_descriptor list"
  di_textified_callees :: "(u32, rust_string) btree"
  di_string_table :: "rust_string list"

definition empty_debug_info :: debug_info where
  "empty_debug_info = \<lparr>di_source_locations = Map.empty, di_function_scopes = Map.empty,
     di_scope_descriptors = [], di_textified_callees = Map.empty, di_string_table = []\<rparr>"

text \<open>\<open>DebugInfoStatus\<close> of \<open>file/structure.rs\<close>.\<close>

datatype debug_info_status =
  Present | Absent | OffsetOutOfRange | UnsupportedDebugVersion u32 | HeaderOutOfRange | ParseFailed

definition status_is_failure :: "debug_info_status \<Rightarrow> bool" where
  "status_is_failure s \<longleftrightarrow> \<not> (s = Present \<or> s = Absent)"

record debug_info_header =
  dh_filename_count :: u32
  dh_filename_storage_size :: u32
  dh_file_region_count :: u32
  dh_scope_desc_offset :: u32
  dh_textified_callee_offset :: u32
  dh_string_table_offset :: u32
  dh_debug_data_size :: u32

definition slice_in_bounds :: "'a list \<Rightarrow> nat \<Rightarrow> nat \<Rightarrow> 'a list option" where
  "slice_in_bounds d start len =
     Option.bind (checked_add_usize start len) (\<lambda>e. get_range d start e)"

definition slice_range :: "'a list \<Rightarrow> u32 \<Rightarrow> u32 \<Rightarrow> 'a list option" where
  "slice_range d start e = (if e < start then None else get_range d (unat start) (unat e))"

definition parse_debug_header :: "debug_layout \<Rightarrow> debug_info_header read_op" where
  "parse_debug_header l =
     rd_bind read_u32 (\<lambda>filename_count.
     rd_bind read_u32 (\<lambda>filename_storage_size.
     rd_bind read_u32 (\<lambda>file_region_count.
     rd_bind (if dl_has_lexical_regions l
              then rd_bind read_u32 (\<lambda>a. rd_bind read_u32 (\<lambda>b. rd_bind read_u32 (\<lambda>c. rd_ret (a, b, c))))
              else rd_ret (0, 0, 0)) (\<lambda>(scope_desc_offset, textified_callee_offset, string_table_offset).
     rd_bind read_u32 (\<lambda>debug_data_size.
     rd_ret \<lparr>dh_filename_count = filename_count, dh_filename_storage_size = filename_storage_size,
       dh_file_region_count = file_region_count, dh_scope_desc_offset = scope_desc_offset,
       dh_textified_callee_offset = textified_callee_offset,
       dh_string_table_offset = string_table_offset, dh_debug_data_size = debug_data_size\<rparr>)))))"

section \<open>Location streams\<close>

text \<open>\<open>x.max(0) as u32\<close>, and \<open>u32::try_from(x).ok()\<close>.\<close>

definition clamp_u32 :: "i64 \<Rightarrow> u32" where
  "clamp_u32 x = (if sint x < 0 then 0 else ucast x)"

definition try_u32 :: "i64 \<Rightarrow> u32 option" where
  "try_u32 x = (if 0 \<le> sint x \<and> sint x < 2 ^ 32 then Some (ucast x) else None)"

definition location_at :: "i64 \<Rightarrow> i64 \<Rightarrow> i64 \<Rightarrow> u32 option \<Rightarrow> source_location" where
  "location_at address line column scope =
     \<lparr>sl_bytecode_offset = clamp_u32 address, sl_line = clamp_u32 line, sl_column = clamp_u32 column,
      sl_scope_offset = scope\<rparr>"

text \<open>\<open>cond && reader.read_sleb128().is_err()\<close>: read a value when the condition asks for one.\<close>

definition skip_if :: "bool \<Rightarrow> unit read_op" where
  "skip_if b = (if b then rd_map (\<lambda>_. ()) read_sleb128 else rd_ret ())"

text \<open>The rest of one entry, after its address delta: the line and column deltas and the scope
  address of a legacy entry.\<close>

definition legacy_entry :: "(i64 \<times> i64 \<times> i64) read_op" where
  "legacy_entry =
     rd_bind read_sleb128 (\<lambda>line_delta.
     rd_bind read_sleb128 (\<lambda>column_delta.
     rd_bind read_sleb128 (\<lambda>scope_address.
     rd_bind read_sleb128 (\<lambda>env_reg.
     rd_bind (skip_if (line_delta AND 1 \<noteq> 0)) (\<lambda>_.
     rd_ret (signed_drop_bit 1 line_delta, column_delta, scope_address))))))"

text \<open>The rest of one modern entry: no location at all, or a line and a column delta.\<close>

definition modern_entry :: "(i64 \<times> i64) option read_op" where
  "modern_entry =
     rd_bind read_sleb128 (\<lambda>line_delta.
     if line_delta AND 1 = 0 then rd_ret None
     else rd_bind read_sleb128 (\<lambda>column_delta.
          rd_bind (skip_if (line_delta AND 2 \<noteq> 0)) (\<lambda>_.
          rd_bind (skip_if (line_delta AND 4 \<noteq> 0)) (\<lambda>_.
          rd_ret (Some (signed_drop_bit 3 line_delta, column_delta))))))"

text \<open>The loop; \<open>guard\<close> is the number of iterations it may still make.\<close>

fun stream_loop :: "stream_encoding \<Rightarrow> nat \<Rightarrow> byte_reader \<Rightarrow> i64 \<Rightarrow> i64 \<Rightarrow> i64 \<Rightarrow> source_location list" where
  "stream_loop enc fuel r address line column =
     (if fuel = 0 then []
      else case read_sleb128 r of
        Inl _ \<Rightarrow> []
      | Inr (address_delta, r1) \<Rightarrow>
          if address_delta = - 1 then []
          else (case enc of
            LegacyStream \<Rightarrow>
              (case legacy_entry r1 of
                 Inl _ \<Rightarrow> []
               | Inr ((line_delta, column_delta, scope_address), r2) \<Rightarrow>
                   let address = address + address_delta; line = line + line_delta;
                       column = column + column_delta in
                   location_at address line column (try_u32 scope_address)
                     # stream_loop enc (fuel - 1) r2 address line column)
          | ModernStream \<Rightarrow>
              let address = address + address_delta in
              (case modern_entry r1 of
                 Inl _ \<Rightarrow> []
               | Inr (None, r2) \<Rightarrow> stream_loop enc (fuel - 1) r2 address line column
               | Inr (Some (line_delta, column_delta), r2) \<Rightarrow>
                   let line = line + line_delta; column = column + column_delta in
                   location_at address line column None
                     # stream_loop enc (fuel - 1) r2 address line column)))"

declare stream_loop.simps [simp del]

definition STREAM_GUARD :: nat where "STREAM_GUARD = 100000"

definition stream_prologue :: "stream_encoding \<Rightarrow> (i64 \<times> i64) read_op" where
  "stream_prologue enc =
     rd_bind read_sleb128 (\<lambda>function_index.
     rd_bind read_sleb128 (\<lambda>line.
     rd_bind read_sleb128 (\<lambda>column.
     rd_bind (skip_if (enc = ModernStream)) (\<lambda>_. rd_ret (line, column)))))"

definition parse_location_stream :: "u8 list \<Rightarrow> u32 \<Rightarrow> stream_encoding \<Rightarrow> source_location list option" where
  "parse_location_stream d off enc =
     (if length d < unat off then None
      else case stream_prologue enc (new_reader (drop (unat off) d)) of
        Inl _ \<Rightarrow> None
      | Inr ((line, column), r) \<Rightarrow>
          Some (location_at 0 line column None # stream_loop enc STREAM_GUARD r 0 line column))"

section \<open>Scope descriptors, callees, strings\<close>

definition name_at_offset :: "u8 list \<Rightarrow> i64 \<Rightarrow> rust_string option" where
  "name_at_offset table off =
     (if sint off < 0 \<or> length table < unat off then None
      else case rd_bind read_sleb128 (\<lambda>len. if sint len < 0 then rd_fail (Parse [] [])
                                            else read_bytes (unat len)) (new_reader (drop (unat off) table)) of
        Inl _ \<Rightarrow> None
      | Inr (bytes, _) \<Rightarrow> from_utf8 bytes)"

text \<open>The reader \<open>read_sleb128\<close> leaves behind, whether it returned or failed: the only caller
  that goes on after a failed read is the loop over scope descriptors.\<close>

function sleb_left :: "nat \<Rightarrow> byte_reader \<Rightarrow> byte_reader" where
  "sleb_left shift r =
     (if length (data r) \<le> pos r then r
      else let byte = data r ! pos r; r' = r\<lparr>pos := pos r + 1\<rparr>; shift' = shift + 7 in
           if byte AND 0x80 = 0 then r'
           else if 64 \<le> shift' then r'
           else sleb_left shift' r')"
  by pat_completeness auto
termination
  by (relation "measure (\<lambda>(_, r). length (data r) - pos r)") auto

declare sleb_left.simps [simp del]

fun scope_names :: "u8 list \<Rightarrow> nat \<Rightarrow> byte_reader \<Rightarrow> rust_string list \<times> byte_reader" where
  "scope_names string_data 0 r = ([], r)"
| "scope_names string_data (Suc n) r =
     (case read_sleb128 r of
        Inl _ \<Rightarrow> ([], sleb_left 0 r)
      | Inr (name_idx, r') \<Rightarrow>
          let name = (case name_at_offset string_data name_idx of Some s \<Rightarrow> s | None \<Rightarrow> []);
              (names, r'') = scope_names string_data n r' in
          (name # names, r''))"

definition scope_parent :: "i64 \<Rightarrow> u32 option" where
  "scope_parent parent_raw =
     (if sint parent_raw < 0 \<or> 2 ^ 32 - 1 \<le> sint parent_raw then None else Some (ucast parent_raw))"

definition scope_head :: "(i64 \<times> i64 \<times> i64) read_op" where
  "scope_head =
     rd_bind read_sleb128 (\<lambda>parent_raw.
     rd_bind read_sleb128 (\<lambda>flags.
     rd_bind read_sleb128 (\<lambda>name_count. rd_ret (parent_raw, flags, name_count))))"

lemma sleb_left_moves: "data (sleb_left s r) = data r \<and> pos r \<le> pos (sleb_left s r)"
proof (induction s r rule: sleb_left.induct)
  case (1 s r)
  then show ?case
    by (auto simp: sleb_left.simps[of s r] Let_def dest: Suc_leD)
qed

lemma scope_names_moves:
  "scope_names sd n r = (ns, r') \<Longrightarrow> data r' = data r \<and> pos r \<le> pos r'"
proof (induction n arbitrary: r ns)
  case 0
  then show ?case by simp
next
  case (Suc n)
  then show ?case
    using sleb_left_moves[of 0 r]
    by (fastforce split: sum.splits prod.splits simp: Let_def dest: read_sleb128_moves)
qed

lemma scope_head_moves:
  "scope_head r = Inr (x, r') \<Longrightarrow> data r' = data r \<and> pos r < pos r'"
  by (auto simp: scope_head_def rd_bind_Inr_iff dest!: read_sleb128_moves)

function scope_loop :: "u8 list \<Rightarrow> u32 \<Rightarrow> byte_reader \<Rightarrow> scope_descriptor list" where
  "scope_loop string_data current_offset r =
     (if remaining r = 0 then []
      else case scope_head r of
        Inl _ \<Rightarrow> []
      | Inr ((parent_raw, flags, name_count), r1) \<Rightarrow>
          if sint name_count < 0 \<or> int (remaining r1) < sint name_count then []
          else (case scope_names string_data (nat (sint name_count)) r1 of
             (names, r2) \<Rightarrow>
               \<lparr>sd_offset = current_offset, sd_parent_offset = scope_parent parent_raw,
                sd_flags = ucast flags, sd_names = names\<rparr>
               # scope_loop string_data (current_offset + of_nat (pos r2 - pos r)) r2))"
  by pat_completeness auto
termination
  by (relation "measure (\<lambda>(_, _, r). remaining r)")
     (auto simp: remaining_def dest!: scope_head_moves scope_names_moves[OF sym])

declare scope_loop.simps [simp del]

definition parse_scope_descriptors :: "u8 list \<Rightarrow> u8 list \<Rightarrow> scope_descriptor list" where
  "parse_scope_descriptors d string_data = scope_loop string_data 0 (new_reader d)"

fun callee_loop :: "u8 list \<Rightarrow> nat \<Rightarrow> byte_reader \<Rightarrow> (u32, rust_string) btree \<Rightarrow> (u32, rust_string) btree" where
  "callee_loop string_data 0 r acc = acc"
| "callee_loop string_data (Suc n) r acc =
     (case rd_bind read_sleb128 (\<lambda>address. rd_bind read_sleb128 (\<lambda>name_idx. rd_ret (address, name_idx))) r of
        Inl _ \<Rightarrow> acc
      | Inr ((address, name_idx), r') \<Rightarrow>
          callee_loop string_data n r'
            (case name_at_offset string_data name_idx of
               Some name \<Rightarrow> acc(ucast address \<mapsto> name)
             | None \<Rightarrow> acc))"

definition parse_textified_callees :: "u8 list \<Rightarrow> u8 list \<Rightarrow> (u32, rust_string) btree" where
  "parse_textified_callees d string_data =
     (case read_sleb128 (new_reader d) of
        Inl _ \<Rightarrow> Map.empty
      | Inr (count, r) \<Rightarrow>
          if sint count < 0 \<or> int (remaining r) < sint count then Map.empty
          else callee_loop string_data (nat (sint count)) r Map.empty)"

lemma length_prefixed_moves:
  assumes "read_length_prefixed_string r = Inr (s, r')"
  shows "data r' = data r \<and> pos r < pos r'"
proof -
  obtain len r1 where len: "read_uleb128 r = Inr (len, r1)"
    and 2: "(if len = 0 then rd_ret [] else (\<lambda>r. case read_exact (unat len) r of
          Inr (bytes, r') \<Rightarrow> Inr (from_utf8_lossy bytes, r')
        | Inl _ \<Rightarrow> Inl (Parse ''length-prefixed string claims {len} bytes but only {} remain (likely a mis-aligned section)''
                        [fword len, fnat (remaining r)]))) r1 = Inr (s, r')"
    using assms by (auto simp: read_length_prefixed_string_def rd_bind_Inr_iff)
  have "data r' = data r1 \<and> pos r1 \<le> pos r'"
    using 2 by (cases "len = 0"; cases "read_exact (unat len) r1") (auto dest!: read_exact_Inr)
  then show ?thesis using read_uleb128_moves[OF len] by simp
qed

function string_loop :: "byte_reader \<Rightarrow> rust_string list" where
  "string_loop r =
     (if remaining r = 0 then []
      else case read_length_prefixed_string r of
        Inl _ \<Rightarrow> []
      | Inr (s, r') \<Rightarrow> s # string_loop r')"
  by pat_completeness auto
termination
  by (relation "measure remaining") (auto simp: remaining_def dest!: length_prefixed_moves)

declare string_loop.simps [simp del]

definition parse_debug_string_table :: "u8 list \<Rightarrow> rust_string list" where
  "parse_debug_string_table d = string_loop (new_reader d)"

section \<open>The section\<close>

definition read_streams :: "u8 list \<Rightarrow> stream_encoding \<Rightarrow> (u32, function_debug_offsets) btree \<Rightarrow>
    (u32, source_location list) btree" where
  "read_streams d enc offsets f =
     (case offsets f of
        None \<Rightarrow> None
      | Some entry \<Rightarrow>
          if fdo_source_locations entry = - 1 then None
          else (case parse_location_stream d (fdo_source_locations entry) enc of
                  None \<Rightarrow> None
                | Some locs \<Rightarrow> if locs = [] then None else Some locs))"

definition read_function_scopes :: "(u32, function_debug_offsets) btree \<Rightarrow> (u32, u32) btree" where
  "read_function_scopes offsets f =
     (case offsets f of
        None \<Rightarrow> None
      | Some entry \<Rightarrow> (case fdo_scope_desc_data entry of
          None \<Rightarrow> None
        | Some scope \<Rightarrow> if scope = - 1 then None else Some scope))"

definition debug_data_start :: "debug_layout \<Rightarrow> debug_info_header \<Rightarrow> nat" where
  "debug_data_start l h =
     unat (dl_header_size l) + unat (dh_filename_count h) * 8 + unat (dh_filename_storage_size h)
       + unat (dh_file_region_count h) * 12"

definition parse_debug_with_status ::
  "u8 list \<Rightarrow> u32 \<Rightarrow> u32 \<Rightarrow> (u32, function_debug_offsets) btree \<Rightarrow> debug_info result \<times> debug_info_status" where
  "parse_debug_with_status bytes off ver offsets =
     (if off = 0 \<or> off = - 1 then (Inr empty_debug_info, Absent)
      else if length bytes \<le> unat off then (Inr empty_debug_info, OffsetOutOfRange)
      else case debug_layout_for_version ver of
        None \<Rightarrow> (Inr empty_debug_info, UnsupportedDebugVersion ver)
      | Some l \<Rightarrow>
          let section = drop (unat off) bytes in
          (case parse_debug_header l (new_reader section) of
             Inl e \<Rightarrow> (Inl e, ParseFailed)
           | Inr (h, _) \<Rightarrow>
              (case slice_in_bounds section (debug_data_start l h) (unat (dh_debug_data_size h)) of
                 None \<Rightarrow> (Inr empty_debug_info, HeaderOutOfRange)
               | Some d \<Rightarrow>
                   let info = empty_debug_info\<lparr>
                         di_source_locations := read_streams d (dl_stream l) offsets,
                         di_function_scopes := read_function_scopes offsets\<rparr> in
                   if \<not> dl_has_lexical_regions l then (Inr info, Present)
                   else let string_data = (case slice_range d (dh_string_table_offset h) (dh_debug_data_size h) of
                              Some b \<Rightarrow> b | None \<Rightarrow> []) in
                     (Inr (info\<lparr>
                        di_string_table := parse_debug_string_table string_data,
                        di_scope_descriptors :=
                          (case slice_range d (dh_scope_desc_offset h) (dh_textified_callee_offset h) of
                             Some b \<Rightarrow> parse_scope_descriptors b string_data | None \<Rightarrow> []),
                        di_textified_callees :=
                          (case slice_range d (dh_textified_callee_offset h) (dh_string_table_offset h) of
                             Some b \<Rightarrow> parse_textified_callees b string_data | None \<Rightarrow> Map.empty)\<rparr>),
                      Present))))"

definition try_parse_debug_info ::
  "u8 list \<Rightarrow> u32 \<Rightarrow> u32 \<Rightarrow> (u32, function_debug_offsets) btree \<Rightarrow> debug_info option \<times> debug_info_status" where
  "try_parse_debug_info bytes off ver offsets =
     (case parse_debug_with_status bytes off ver offsets of
        (Inr info, status) \<Rightarrow> (Some info, status)
      | (Inl _, status) \<Rightarrow> (None, status))"

section \<open>Variable maps\<close>

definition nonempty_names :: "rust_string list \<Rightarrow> (u32, rust_string) btree" where
  "nonempty_names names =
     fold (\<lambda>(i, name) m. if name \<noteq> [] then m(of_nat i \<mapsto> name) else m) (enumerate 0 names) Map.empty"

definition build_variable_map :: "debug_info \<Rightarrow> u32 option \<Rightarrow> (u32, rust_string) btree" where
  "build_variable_map di scope =
     (case Option.bind scope (\<lambda>off. find (\<lambda>s. sd_offset s = off) (di_scope_descriptors di)) of
        None \<Rightarrow> Map.empty
      | Some s \<Rightarrow> nonempty_names (sd_names s))"

definition variable_map_for_function :: "debug_info \<Rightarrow> u32 \<Rightarrow> (u32, rust_string) btree" where
  "variable_map_for_function di f = build_variable_map di (di_function_scopes di f)"

definition all_variable_names :: "debug_info \<Rightarrow> rust_string list" where
  "all_variable_names di = filter (\<lambda>n. n \<noteq> []) (concat (map sd_names (di_scope_descriptors di)))"

section \<open>What a status says\<close>

lemma unat_u32: "unat (x :: u32) < 2 ^ 32"
  using unsigned_less[of x] by simp

lemma debug_data_start_bound: "debug_data_start l h + unat (dh_debug_data_size h) \<le> usize_max"
  using unat_u32[of "dl_header_size l"] unat_u32[of "dh_filename_count h"]
    unat_u32[of "dh_filename_storage_size h"] unat_u32[of "dh_file_region_count h"]
    unat_u32[of "dh_debug_data_size h"]
  by (simp add: debug_data_start_def usize_max_def)

text \<open>The status of a parse tells the five ways to come back with nothing apart: no debug
  section is declared, its offset lies past the file, the version has no known layout, the
  header is cut short, or the header's own sizes leave the file.\<close>

theorem debug_status_classifies:
  "snd (parse_debug_with_status bytes off ver offsets) =
    (if off = 0 \<or> off = - 1 then Absent
     else if length bytes \<le> unat off then OffsetOutOfRange
     else if ver = 97 \<or> 99 < ver then UnsupportedDebugVersion ver
     else let l = the (debug_layout_for_version ver);
              section = drop (unat off) bytes in
          case parse_debug_header l (new_reader section) of
            Inl _ \<Rightarrow> ParseFailed
          | Inr (h, _) \<Rightarrow>
              if length section < debug_data_start l h + unat (dh_debug_data_size h) then HeaderOutOfRange
              else Present)"
proof -
  have layout: "debug_layout_for_version ver = None \<longleftrightarrow> ver = 97 \<or> 99 < ver"
  proof -
    have "ver \<le> 96 \<or> ver = 97 \<or> ver = 98 \<or> ver = 99 \<or> 99 < ver"
      by (auto simp: word_le_nat_alt word_less_nat_alt word_unat_eq_iff)
    then show ?thesis by (auto simp: debug_layout_for_version_def word_le_nat_alt word_less_nat_alt)
  qed
  have slice: "slice_in_bounds d (debug_data_start l h) (unat (dh_debug_data_size h)) = None \<longleftrightarrow>
      length d < debug_data_start l h + unat (dh_debug_data_size h)" for d :: "u8 list" and l h
    using debug_data_start_bound[of l h]
    by (auto simp: slice_in_bounds_def checked_add_usize_def get_range_def)
  show ?thesis
    unfolding parse_debug_with_status_def layout[symmetric] Let_def slice[symmetric]
    by (auto split: option.splits sum.splits prod.splits)
qed

section \<open>Streams read back what an emitter wrote\<close>

text \<open>One entry of a modern stream as the compiler emits it: an address that carries no
  location, or a location with its optional statement and environment deltas.\<close>

datatype modern_item =
    NoLocation i64
  | Location i64 i64 i64 "i64 option" "i64 option"

definition opt_bytes :: "i64 option \<Rightarrow> u8 list" where
  "opt_bytes x = (case x of None \<Rightarrow> [] | Some v \<Rightarrow> encode_sleb128 v)"

definition modern_line :: "i64 \<Rightarrow> i64 option \<Rightarrow> i64 option \<Rightarrow> i64" where
  "modern_line l s e =
     push_bit 3 l OR (if e = None then 0 else 4) OR (if s = None then 0 else 2) OR 1"

fun modern_item_bytes :: "modern_item \<Rightarrow> u8 list" where
  "modern_item_bytes (NoLocation a) = encode_sleb128 a @ encode_sleb128 0"
| "modern_item_bytes (Location a l c s e) =
     encode_sleb128 a
     @ encode_sleb128 (modern_line l s e)
     @ encode_sleb128 c @ opt_bytes s @ opt_bytes e"

fun modern_item_ok :: "modern_item \<Rightarrow> bool" where
  "modern_item_ok (NoLocation a) \<longleftrightarrow> a \<noteq> - 1"
| "modern_item_ok (Location a l c s e) \<longleftrightarrow> a \<noteq> - 1 \<and> signed_drop_bit 3 (push_bit 3 l) = l"

text \<open>The locations the entries stand for: running sums from the prologue.\<close>

fun modern_locations :: "i64 \<Rightarrow> i64 \<Rightarrow> i64 \<Rightarrow> modern_item list \<Rightarrow> source_location list" where
  "modern_locations a l c [] = []"
| "modern_locations a l c (NoLocation da # is) = modern_locations (a + da) l c is"
| "modern_locations a l c (Location da dl dc s e # is) =
     location_at (a + da) (l + dl) (c + dc) None # modern_locations (a + da) (l + dl) (c + dc) is"

definition modern_stream_bytes :: "i64 \<Rightarrow> i64 \<Rightarrow> i64 \<Rightarrow> i64 \<Rightarrow> modern_item list \<Rightarrow> u8 list" where
  "modern_stream_bytes function_index line column env_idx items =
     encode_sleb128 function_index @ encode_sleb128 line @ encode_sleb128 column
     @ encode_sleb128 env_idx @ concat (map modern_item_bytes items) @ encode_sleb128 (- 1)"

lemma and_2_iff: "(w :: i64) AND 2 \<noteq> 0 \<longleftrightarrow> bit w 1" "w AND 4 \<noteq> 0 \<longleftrightarrow> bit w 2" "w AND 1 = 0 \<longleftrightarrow> \<not> bit w 0"
  using flag_bit_iff[of w 1] flag_bit_iff[of w 2] flag_bit_iff[of w 0] by simp_all

lemma modern_line_word:
  assumes "signed_drop_bit 3 (push_bit 3 l) = l"
  shows "signed_drop_bit 3 (modern_line l s e) = l" and "modern_line l s e AND 1 \<noteq> 0"
    and "modern_line l s e AND 2 \<noteq> 0 \<longleftrightarrow> s \<noteq> None" and "modern_line l s e AND 4 \<noteq> 0 \<longleftrightarrow> e \<noteq> None"
proof -
  have hi: "bit (modern_line l s e) n = bit (push_bit 3 l) n" if "3 \<le> n" for n
  proof -
    have "\<not> bit (4 :: i64) n" "\<not> bit (2 :: i64) n" "\<not> bit (1 :: i64) n"
      using that bit_less_if[of "4 :: i64" 3 n] bit_less_if[of "2 :: i64" 3 n] bit_less_if[of "1 :: i64" 3 n]
      by auto
    then show ?thesis by (auto simp: modern_line_def bit_or_iff)
  qed
  have "signed_drop_bit 3 (modern_line l s e) = signed_drop_bit 3 (push_bit 3 l)"
    by (rule bit_word_eqI) (use hi in \<open>auto simp: bit_signed_drop_bit_iff\<close>)
  then show "signed_drop_bit 3 (modern_line l s e) = l" using assms(1) by simp
  show "modern_line l s e AND 1 \<noteq> 0" "modern_line l s e AND 2 \<noteq> 0 \<longleftrightarrow> s \<noteq> None"
    "modern_line l s e AND 4 \<noteq> 0 \<longleftrightarrow> e \<noteq> None"
    unfolding and_2_iff by (simp_all add: modern_line_def bit_or_iff bit_push_bit_iff)
qed

lemma skip_if_at:
  "rd_bind (skip_if False) f = f ()"
  "length pre + length (encode_sleb128 v @ rest) \<le> usize_max \<Longrightarrow>
     rd_bind (skip_if True) f (reader_at pre (encode_sleb128 v @ rest)) =
     f () (reader_at (pre @ encode_sleb128 v) rest)"
  using sleb.get_at[OF TrueI, of pre v rest]
  by (simp_all add: skip_if_def rd_bind_def rd_map_def)

lemma modern_entry_at:
  assumes "w AND 1 \<noteq> 0" "w AND 2 \<noteq> 0 \<longleftrightarrow> s \<noteq> None" "w AND 4 \<noteq> 0 \<longleftrightarrow> e \<noteq> None"
    and "length pre + length (encode_sleb128 w @ encode_sleb128 c @ opt_bytes s @ opt_bytes e @ rest) \<le> usize_max"
  shows "modern_entry (reader_at pre (encode_sleb128 w @ encode_sleb128 c @ opt_bytes s @ opt_bytes e @ rest)) =
    Inr (Some (signed_drop_bit 3 w, c),
      reader_at (pre @ encode_sleb128 w @ encode_sleb128 c @ opt_bytes s @ opt_bytes e) rest)"
  using assms
  by (cases s; cases e) (simp_all add: modern_entry_def sleb.bind_at skip_if_at opt_bytes_def)

lemma modern_entry_none_at:
  assumes "length pre + length (encode_sleb128 0 @ rest) \<le> usize_max"
  shows "modern_entry (reader_at pre (encode_sleb128 0 @ rest)) = Inr (None, reader_at (pre @ encode_sleb128 0) rest)"
  using assms by (simp add: modern_entry_def sleb.bind_at)

lemma modern_loop_at:
  assumes "list_all modern_item_ok items" and "length items < fuel"
    and "length pre + length (concat (map modern_item_bytes items) @ encode_sleb128 (- 1) @ rest) \<le> usize_max"
  shows "stream_loop ModernStream fuel
      (reader_at pre (concat (map modern_item_bytes items) @ encode_sleb128 (- 1) @ rest)) a l c =
    modern_locations a l c items"
  using assms
proof (induction items arbitrary: fuel pre a l c)
  case Nil
  then show ?case
    using sleb.get_at[OF TrueI, of pre "- 1" rest] by (simp add: stream_loop.simps[of _ fuel])
next
  case (Cons i items)
  let ?tail = "concat (map modern_item_bytes items) @ encode_sleb128 (- 1) @ rest"
  show ?case
  proof (cases i)
    case (NoLocation da)
    have "stream_loop ModernStream (fuel - 1) (reader_at (pre @ encode_sleb128 da @ encode_sleb128 0) ?tail)
        (a + da) l c = modern_locations (a + da) l c items"
      using Cons.prems NoLocation by (intro Cons.IH) (auto simp: add.assoc)
    then show ?thesis
      using Cons.prems NoLocation sleb.get_at[OF TrueI, of pre da "encode_sleb128 0 @ ?tail"]
        modern_entry_none_at[of "pre @ encode_sleb128 da" ?tail]
      by (simp add: stream_loop.simps[of _ fuel] add.assoc Let_def)
  next
    case (Location da dl dc s e)
    let ?w = "modern_line dl s e"
    have w: "signed_drop_bit 3 (push_bit 3 dl) = dl" using Cons.prems(1) Location by simp
    let ?bytes = "encode_sleb128 ?w @ encode_sleb128 dc @ opt_bytes s @ opt_bytes e"
    have "stream_loop ModernStream (fuel - 1) (reader_at (pre @ encode_sleb128 da @ ?bytes) ?tail)
        (a + da) (l + dl) (c + dc) = modern_locations (a + da) (l + dl) (c + dc) items"
      using Cons.prems Location by (intro Cons.IH) (auto simp: add.assoc)
    then show ?thesis
      using Cons.prems Location sleb.get_at[OF TrueI, of pre da "?bytes @ ?tail"]
        modern_entry_at[OF modern_line_word(2-4)[OF w], of "pre @ encode_sleb128 da" s e dc ?tail]
        modern_line_word(1)[OF w]
      by (simp add: stream_loop.simps[of _ fuel] add.assoc Let_def)
  qed
qed

lemma stream_reader: "new_reader (drop (length pre) (pre @ s)) = reader_at [] s"
  by (simp add: new_reader_at)

text \<open>C13: A modern location stream decodes to the running sums of the deltas its emitter wrote:
  the prologue first, then one location per entry that carries one, the address advancing on
  every entry and line and column only on those with a location.\<close>

theorem modern_stream_decodes:
  assumes "list_all modern_item_ok items" and "length items < 100000"
    and "length pre < 2 ^ 32"
    and "length (modern_stream_bytes fidx line column env items @ rest) \<le> usize_max"
  shows "parse_location_stream (pre @ modern_stream_bytes fidx line column env items @ rest)
      (of_nat (length pre)) ModernStream =
    Some (location_at 0 line column None # modern_locations 0 line column items)"
proof -
  let ?head = "encode_sleb128 fidx @ encode_sleb128 line @ encode_sleb128 column @ encode_sleb128 env"
  let ?tail = "concat (map modern_item_bytes items) @ encode_sleb128 (- 1) @ rest"
  have "stream_prologue ModernStream (reader_at [] (?head @ ?tail)) = Inr ((line, column), reader_at ?head ?tail)"
    using assms(4) by (simp add: stream_prologue_def sleb.bind_at skip_if_at modern_stream_bytes_def)
  moreover have "stream_loop ModernStream STREAM_GUARD (reader_at ?head ?tail) 0 line column =
      modern_locations 0 line column items"
    using assms by (intro modern_loop_at) (simp_all add: STREAM_GUARD_def modern_stream_bytes_def)
  ultimately show ?thesis
    using assms(3)
    by (simp add: parse_location_stream_def unat_of_nat_less new_reader_at modern_stream_bytes_def)
qed

lemma encode_sleb128_small: "encode_sleb128 5 = [5]" "encode_sleb128 0 = [0]" "encode_sleb128 1 = [1]"
  "encode_sleb128 2 = [2]" "encode_sleb128 9 = [9]"
  by (subst encode_sleb128.simps, simp add: sleb_done_def Let_def)+

lemma encode_sleb128_minus_1: "encode_sleb128 (- 1) = [0x7f]"
proof -
  have "ucast (- 1 :: i64) = (- 1 :: u8)" by (rule bit_word_eqI) (simp add: bit_ucast_iff)
  then show ?thesis by (subst encode_sleb128.simps) (simp add: sleb_done_def Let_def)
qed

theorem modern_stream_decodes_witness:
  "parse_location_stream [7, 0, 5, 1, 0, 2, 0, 5, 9, 1, 0x7f] 1 ModernStream =
    Some [location_at 0 5 1 None, location_at 7 6 2 None]"
proof -
  have b: "modern_stream_bytes 0 5 1 0 [NoLocation 2, Location 5 1 1 None None] =
      [0, 5, 1, 0, 2, 0, 5, 9, 1, 0x7f]"
    by (simp add: modern_stream_bytes_def modern_line_def opt_bytes_def encode_sleb128_small encode_sleb128_minus_1)
  have "parse_location_stream ([7] @ modern_stream_bytes 0 5 1 0 [NoLocation 2, Location 5 1 1 None None] @ [])
      (of_nat (length [7 :: u8])) ModernStream =
      Some (location_at 0 5 1 None # modern_locations 0 5 1 [NoLocation 2, Location 5 1 1 None None])"
    by (rule modern_stream_decodes) (simp_all add: b usize_max_def)
  then show ?thesis unfolding b by simp
qed

record legacy_item =
  li_address :: i64
  li_line :: i64
  li_column :: i64
  li_scope :: i64
  li_env :: i64
  li_statement :: "i64 option"

definition legacy_line :: "i64 \<Rightarrow> i64 option \<Rightarrow> i64" where
  "legacy_line l s = push_bit 1 l OR (if s = None then 0 else 1)"

definition legacy_item_bytes :: "legacy_item \<Rightarrow> u8 list" where
  "legacy_item_bytes i =
     encode_sleb128 (li_address i) @ encode_sleb128 (legacy_line (li_line i) (li_statement i))
     @ encode_sleb128 (li_column i) @ encode_sleb128 (li_scope i) @ encode_sleb128 (li_env i)
     @ opt_bytes (li_statement i)"

definition legacy_item_ok :: "legacy_item \<Rightarrow> bool" where
  "legacy_item_ok i \<longleftrightarrow> li_address i \<noteq> - 1 \<and> signed_drop_bit 1 (push_bit 1 (li_line i)) = li_line i"

fun legacy_locations :: "i64 \<Rightarrow> i64 \<Rightarrow> i64 \<Rightarrow> legacy_item list \<Rightarrow> source_location list" where
  "legacy_locations a l c [] = []"
| "legacy_locations a l c (i # is) =
     location_at (a + li_address i) (l + li_line i) (c + li_column i) (try_u32 (li_scope i))
       # legacy_locations (a + li_address i) (l + li_line i) (c + li_column i) is"

definition legacy_stream_bytes :: "i64 \<Rightarrow> i64 \<Rightarrow> i64 \<Rightarrow> legacy_item list \<Rightarrow> u8 list" where
  "legacy_stream_bytes function_index line column items =
     encode_sleb128 function_index @ encode_sleb128 line @ encode_sleb128 column
     @ concat (map legacy_item_bytes items) @ encode_sleb128 (- 1)"

lemma legacy_line_word:
  assumes "signed_drop_bit 1 (push_bit 1 l) = l"
  shows "signed_drop_bit 1 (legacy_line l s) = l" and "legacy_line l s AND 1 \<noteq> 0 \<longleftrightarrow> s \<noteq> None"
proof -
  have hi: "bit (legacy_line l s) n = bit (push_bit 1 l) n" if "1 \<le> n" for n
    using that bit_less_if[of "1 :: i64" 1 n] by (auto simp: legacy_line_def bit_or_iff)
  have "signed_drop_bit 1 (legacy_line l s) = signed_drop_bit 1 (push_bit 1 l)"
    by (rule bit_word_eqI) (use hi in \<open>auto simp: bit_signed_drop_bit_iff\<close>)
  then show "signed_drop_bit 1 (legacy_line l s) = l" using assms(1) by simp
  have "bit (legacy_line l s) 0 \<longleftrightarrow> s \<noteq> None"
    unfolding legacy_line_def bit_or_iff bit_push_bit_iff by simp
  then show "legacy_line l s AND 1 \<noteq> 0 \<longleftrightarrow> s \<noteq> None" using and_2_iff(3) by blast
qed

lemma legacy_entry_at:
  assumes "w AND 1 \<noteq> 0 \<longleftrightarrow> s \<noteq> None"
    and "length pre + length (encode_sleb128 w @ encode_sleb128 c @ encode_sleb128 sc @ encode_sleb128 env
      @ opt_bytes s @ rest) \<le> usize_max"
  shows "legacy_entry (reader_at pre (encode_sleb128 w @ encode_sleb128 c @ encode_sleb128 sc
      @ encode_sleb128 env @ opt_bytes s @ rest)) =
    Inr ((signed_drop_bit 1 w, c, sc), reader_at (pre @ encode_sleb128 w @ encode_sleb128 c
      @ encode_sleb128 sc @ encode_sleb128 env @ opt_bytes s) rest)"
  using assms
  by (cases s) (simp_all add: legacy_entry_def sleb.bind_at skip_if_at opt_bytes_def del: signed_drop_bit_0)

lemma legacy_loop_at:
  assumes "list_all legacy_item_ok items" and "length items < fuel"
    and "length pre + length (concat (map legacy_item_bytes items) @ encode_sleb128 (- 1) @ rest) \<le> usize_max"
  shows "stream_loop LegacyStream fuel
      (reader_at pre (concat (map legacy_item_bytes items) @ encode_sleb128 (- 1) @ rest)) a l c =
    legacy_locations a l c items"
  using assms
proof (induction items arbitrary: fuel pre a l c)
  case Nil
  then show ?case
    using sleb.get_at[OF TrueI, of pre "- 1" rest] by (simp add: stream_loop.simps[of _ fuel])
next
  case (Cons i items)
  let ?tail = "concat (map legacy_item_bytes items) @ encode_sleb128 (- 1) @ rest"
  let ?w = "legacy_line (li_line i) (li_statement i)"
  let ?bytes = "encode_sleb128 ?w @ encode_sleb128 (li_column i) @ encode_sleb128 (li_scope i)
    @ encode_sleb128 (li_env i) @ opt_bytes (li_statement i)"
  have ok: "li_address i \<noteq> - 1" and w: "signed_drop_bit 1 (push_bit 1 (li_line i)) = li_line i"
    using Cons.prems(1) by (auto simp: legacy_item_ok_def)
  have "stream_loop LegacyStream (fuel - 1) (reader_at (pre @ encode_sleb128 (li_address i) @ ?bytes) ?tail)
      (a + li_address i) (l + li_line i) (c + li_column i) =
      legacy_locations (a + li_address i) (l + li_line i) (c + li_column i) items"
    using Cons.prems by (intro Cons.IH) (auto simp: add.assoc legacy_item_bytes_def[of i])
  then show ?case
    using Cons.prems ok sleb.get_at[OF TrueI, of pre "li_address i" "?bytes @ ?tail"]
      legacy_entry_at[OF legacy_line_word(2)[OF w], of "pre @ encode_sleb128 (li_address i)"
        "li_statement i" "li_column i" "li_scope i" "li_env i" ?tail]
      legacy_line_word(1)[OF w]
    by (simp add: stream_loop.simps[of _ fuel] add.assoc Let_def legacy_item_bytes_def[of i])
qed

text \<open>C26: The same for the legacy encoding of version 96 and below, where every entry carries a
  location and its scope address, and the statement delta comes last.\<close>

theorem legacy_stream_decodes:
  assumes "list_all legacy_item_ok items" and "length items < 100000"
    and "length pre < 2 ^ 32"
    and "length (legacy_stream_bytes fidx line column items @ rest) \<le> usize_max"
  shows "parse_location_stream (pre @ legacy_stream_bytes fidx line column items @ rest)
      (of_nat (length pre)) LegacyStream =
    Some (location_at 0 line column None # legacy_locations 0 line column items)"
proof -
  let ?head = "encode_sleb128 fidx @ encode_sleb128 line @ encode_sleb128 column"
  let ?tail = "concat (map legacy_item_bytes items) @ encode_sleb128 (- 1) @ rest"
  have "stream_prologue LegacyStream (reader_at [] (?head @ ?tail)) = Inr ((line, column), reader_at ?head ?tail)"
    using assms(4) by (simp add: stream_prologue_def sleb.bind_at skip_if_at legacy_stream_bytes_def)
  moreover have "stream_loop LegacyStream STREAM_GUARD (reader_at ?head ?tail) 0 line column =
      legacy_locations 0 line column items"
    using assms by (intro legacy_loop_at) (simp_all add: STREAM_GUARD_def legacy_stream_bytes_def)
  ultimately show ?thesis
    using assms(3)
    by (simp add: parse_location_stream_def unat_of_nat_less new_reader_at legacy_stream_bytes_def)
qed

theorem legacy_stream_decodes_witness:
  "parse_location_stream [0, 5, 1, 5, 2, 1, 9, 0, 0x7f] 0 LegacyStream =
    Some [location_at 0 5 1 None, location_at 5 6 2 (try_u32 9)]"
proof -
  let ?i = "\<lparr>li_address = 5, li_line = 1, li_column = 1, li_scope = 9, li_env = 0, li_statement = None\<rparr>"
  have b: "legacy_stream_bytes 0 5 1 [?i] = [0, 5, 1, 5, 2, 1, 9, 0, 0x7f]"
    by (simp add: legacy_stream_bytes_def legacy_item_bytes_def legacy_line_def opt_bytes_def
        encode_sleb128_small encode_sleb128_minus_1)
  have "parse_location_stream ([] @ legacy_stream_bytes 0 5 1 [?i] @ []) (of_nat (length ([] :: u8 list))) LegacyStream =
      Some (location_at 0 5 1 None # legacy_locations 0 5 1 [?i])"
    by (rule legacy_stream_decodes) (simp_all add: b usize_max_def legacy_item_ok_def)
  then show ?thesis unfolding b by simp
qed

end
