(* ===== verification/Bigint_Text.thy ===== *)
theory Bigint_Text
  imports Rust_Strings
begin

text \<open>
  The decimal text of a BigInt constant (\<open>crates/hbc-decomp/src/file/parser/helpers.rs\<close>):
  a little-endian two's-complement byte string of any width, rendered through an \<open>i64\<close> up
  to eight bytes and through repeated division by 1e9 above.  The theorem says that both
  paths print the integer the bytes denote.
\<close>

section \<open>Decimal text\<close>

definition digit_char :: "nat \<Rightarrow> char" where
  "digit_char d = ''0123456789'' ! d"

text \<open>\<open>to_string\<close> on an unsigned and on a signed integer, and the format \<open>{c:09}\<close>.\<close>

fun nat_text :: "nat \<Rightarrow> string" where
  "nat_text n = (if n < 10 then [digit_char n] else nat_text (n div 10) @ [digit_char (n mod 10)])"

declare nat_text.simps [simp del]

definition int_text :: "int \<Rightarrow> string" where
  "int_text k = (if k < 0 then ''-'' @ nat_text (nat (- k)) else nat_text (nat k))"

definition pad_zeros :: "nat \<Rightarrow> string \<Rightarrow> string" where
  "pad_zeros w s = replicate (w - length s) (digit_char 0) @ s"

section \<open>The wide path\<close>

definition CHUNK :: nat where "CHUNK = 1000000000"

definition trim_zeros :: "u8 list \<Rightarrow> u8 list" where
  "trim_zeros limbs = rev (dropWhile (\<lambda>b. b = 0) (rev limbs))"

text \<open>One division pass: the most significant byte, which is the last one, first.\<close>

fun div_pass :: "u8 list \<Rightarrow> u8 list \<times> nat" where
  "div_pass [] = ([], 0)"
| "div_pass (byte # bytes) =
     (let (qs, rem) = div_pass bytes; cur = rem * 256 + unat byte in
      (of_nat (cur div CHUNK) # qs, cur mod CHUNK))"

lemma unat_u8: "unat (b :: u8) < 256"
  using unsigned_less[of b] by simp

lemma div_pass_bounds: "snd (div_pass bs) < CHUNK \<and> length (fst (div_pass bs)) = length bs"
  by (induction bs) (auto simp: Let_def CHUNK_def split: prod.splits)

lemma div_pass_top: "bs \<noteq> [] \<Longrightarrow> last (fst (div_pass bs)) = 0 \<and> fst (div_pass bs) \<noteq> []"
proof (induction bs)
  case Nil
  then show ?case by simp
next
  case (Cons b bs)
  show ?case
  proof (cases "bs = []")
    case True
    have "unat b < CHUNK" using unat_u8[of b] by (simp add: CHUNK_def)
    then show ?thesis using True by simp
  next
    case False
    then show ?thesis using Cons.IH by (auto simp: Let_def split: prod.splits)
  qed
qed

lemma trim_zeros_length: "length (trim_zeros bs) \<le> length bs"
  using length_dropWhile_le[of "\<lambda>b. b = 0" "rev bs"] by (simp add: trim_zeros_def)

lemma trim_zeros_snoc: "trim_zeros (bs @ [0]) = trim_zeros bs"
  by (simp add: trim_zeros_def)

lemma trim_after_div: "bs \<noteq> [] \<Longrightarrow> length (trim_zeros (fst (div_pass bs))) < length bs"
proof -
  assume "bs \<noteq> []"
  then obtain qs where q: "fst (div_pass bs) = qs @ [0]"
    using div_pass_top[of bs] by (metis append_butlast_last_id)
  have "length (qs @ [0]) = length bs" using div_pass_bounds[of bs] by (simp add: q)
  then show ?thesis using trim_zeros_length[of qs] by (simp add: q trim_zeros_snoc)
qed

function to_chunks :: "u8 list \<Rightarrow> nat list" where
  "to_chunks limbs =
     (if limbs = [] then []
      else snd (div_pass limbs) # to_chunks (trim_zeros (fst (div_pass limbs))))"
  by pat_completeness auto
termination
  by (relation "measure length") (auto simp: trim_after_div)

declare to_chunks.simps [simp del]

definition to_decimal_le :: "u8 list \<Rightarrow> string" where
  "to_decimal_le bytes =
     (let limbs = trim_zeros bytes in
      if limbs = [] then ''0''
      else let chunks = to_chunks limbs in
           nat_text (last chunks) @ concat (map (\<lambda>c. pad_zeros 9 (nat_text c)) (rev (butlast chunks))))"

text \<open>The inverted bytes plus one, carried from the least significant byte up.\<close>

fun add_carry :: "u8 list \<Rightarrow> nat \<Rightarrow> u8 list" where
  "add_carry [] carry = []"
| "add_carry (b # bs) carry =
     (let v = unat b + carry; carry' = v div 256 in
      of_nat v # (if carry' = 0 then bs else add_carry bs carry'))"

definition top_bit :: "u8 list \<Rightarrow> bool" where
  "top_bit bytes = (bytes \<noteq> [] \<and> last bytes AND 0x80 \<noteq> 0)"

definition twos_complement_le_to_decimal :: "u8 list \<Rightarrow> string" where
  "twos_complement_le_to_decimal bytes =
     (let negative = top_bit bytes;
          magnitude = (if negative then add_carry (map (\<lambda>b. NOT b) bytes) 1 else bytes);
          digits = to_decimal_le magnitude in
      if negative \<and> digits \<noteq> ''0'' then ''-'' @ digits else digits)"

section \<open>The narrow path and the choice between them\<close>

definition small_value :: "u8 list \<Rightarrow> i64" where
  "small_value bytes =
     (let value = fold (\<lambda>(i, b) v. v OR push_bit (i * 8) (ucast b)) (enumerate 0 bytes) 0 in
      if top_bit bytes \<and> length bytes < 8 then value OR push_bit (length bytes * 8) (NOT 0) else value)"

definition bigint_text :: "u8 list \<Rightarrow> string" where
  "bigint_text bytes =
     (if bytes = [] then ''0''
      else if length bytes \<le> 8 then int_text (sint (small_value bytes))
      else twos_complement_le_to_decimal bytes)"

section \<open>The value of the bytes\<close>

fun le_val :: "u8 list \<Rightarrow> nat" where
  "le_val [] = 0"
| "le_val (b # bs) = unat b + 256 * le_val bs"

definition tc_val :: "u8 list \<Rightarrow> int" where
  "tc_val bs = int (le_val bs) - (if top_bit bs then 256 ^ length bs else 0)"

lemma le_val_bound: "le_val bs < 256 ^ length bs"
proof (induction bs)
  case (Cons b bs)
  then have "unat b + 256 * le_val bs < 256 * 256 ^ length bs" using unat_u8[of b] by linarith
  then show ?case by simp
qed simp

lemma le_val_snoc: "le_val (bs @ [b]) = le_val bs + 256 ^ length bs * unat b"
  by (induction bs) (simp_all add: algebra_simps)

lemma le_val_trim: "le_val (trim_zeros bs) = le_val bs"
  by (induction bs rule: rev_induct) (auto simp: trim_zeros_def le_val_snoc)

lemma trim_zeros_Nil_iff: "trim_zeros bs = [] \<longleftrightarrow> le_val bs = 0"
  by (induction bs rule: rev_induct) (auto simp: trim_zeros_def le_val_snoc unat_eq_0)

lemma div_pass_value: "le_val bs = CHUNK * le_val (fst (div_pass bs)) + snd (div_pass bs)"
proof (induction bs)
  case Nil
  then show ?case by simp
next
  case (Cons b bs)
  let ?cur = "snd (div_pass bs) * 256 + unat b"
  have "?cur < CHUNK * 256" using div_pass_bounds[of bs] unat_u8[of b] by simp
  then have "?cur div CHUNK < 256" by (simp add: less_mult_imp_div_less mult.commute)
  then have q: "unat (of_nat (?cur div CHUNK) :: u8) = ?cur div CHUNK" by (simp add: unat_of_nat_less)
  have "CHUNK * (?cur div CHUNK) + ?cur mod CHUNK = ?cur" by simp
  then have "le_val (b # bs) = CHUNK * (?cur div CHUNK + 256 * le_val (fst (div_pass bs))) + ?cur mod CHUNK"
    using Cons.IH by (simp add: algebra_simps)
  then show ?case by (simp add: Let_def split_beta q)
qed

section \<open>Decimal text of a large number\<close>

fun fixed_digits :: "nat \<Rightarrow> nat \<Rightarrow> string" where
  "fixed_digits 0 c = []"
| "fixed_digits (Suc k) c = fixed_digits k (c div 10) @ [digit_char (c mod 10)]"

lemma nat_text_shift: "0 < v \<Longrightarrow> c < 10 ^ k \<Longrightarrow> nat_text (c + 10 ^ k * v) = nat_text v @ fixed_digits k c"
proof (induction k arbitrary: c)
  case 0
  then show ?case by simp
next
  case (Suc k)
  let ?n = "c + 10 ^ Suc k * v"
  have "\<not> ?n < 10" using Suc.prems(1) by (auto simp: not_less trans_le_add2)
  moreover have "?n mod 10 = c mod 10" by (simp add: mod_add_eq mult.assoc)
  moreover have "?n div 10 = c div 10 + 10 ^ k * v" by (simp add: mult.assoc)
  moreover have "nat_text (c div 10 + 10 ^ k * v) = nat_text v @ fixed_digits k (c div 10)"
    using Suc.prems by (intro Suc.IH) auto
  ultimately show ?case
    by (simp only: nat_text.simps[of ?n] if_False fixed_digits.simps append_assoc)
qed

lemma fixed_digits_0: "fixed_digits k 0 = replicate k (digit_char 0)"
  by (induction k) (simp_all add: replicate_append_same)

lemma pad_zeros_fixed: "0 < k \<Longrightarrow> c < 10 ^ k \<Longrightarrow> pad_zeros k (nat_text c) = fixed_digits k c"
proof (induction k arbitrary: c)
  case 0
  then show ?case by simp
next
  case (Suc k)
  show ?case
  proof (cases "c < 10")
    case True
    then show ?thesis by (simp add: nat_text.simps[of c] pad_zeros_def fixed_digits_0)
  next
    case False
    then have "0 < k" using Suc.prems(2) by (cases k) auto
    then have "pad_zeros k (nat_text (c div 10)) = fixed_digits k (c div 10)"
      using Suc.prems by (intro Suc.IH) auto
    then show ?thesis using False by (simp add: nat_text.simps[of c] pad_zeros_def)
  qed
qed

definition chunks_text :: "nat list \<Rightarrow> string" where
  "chunks_text chunks = nat_text (last chunks) @ concat (map (\<lambda>c. pad_zeros 9 (nat_text c)) (rev (butlast chunks)))"

lemma chunks_text_Cons:
  "cs \<noteq> [] \<Longrightarrow> chunks_text (c # cs) = chunks_text cs @ pad_zeros 9 (nat_text c)"
  by (simp add: chunks_text_def)

lemma to_chunks_text:
  "limbs \<noteq> [] \<Longrightarrow> to_chunks limbs \<noteq> [] \<and> chunks_text (to_chunks limbs) = nat_text (le_val limbs)"
proof (induction limbs rule: to_chunks.induct)
  case (1 limbs)
  let ?qs = "fst (div_pass limbs)" and ?r = "snd (div_pass limbs)"
  have cs: "to_chunks limbs = ?r # to_chunks (trim_zeros ?qs)"
    using "1.prems" by (simp add: to_chunks.simps[of limbs])
  have r: "?r < 10 ^ 9" using div_pass_bounds[of limbs] by (simp add: CHUNK_def)
  show ?case
  proof (cases "trim_zeros ?qs = []")
    case True
    then have "le_val limbs = ?r" using div_pass_value[of limbs] by (simp add: trim_zeros_Nil_iff)
    then show ?thesis using True by (simp add: cs chunks_text_def to_chunks.simps[of "[]"])
  next
    case False
    then have v: "0 < le_val ?qs" by (simp add: trim_zeros_Nil_iff)
    have "chunks_text (to_chunks (trim_zeros ?qs)) = nat_text (le_val ?qs)"
      and "to_chunks (trim_zeros ?qs) \<noteq> []"
      using "1.IH"[OF "1.prems" False] by (simp_all add: le_val_trim)
    moreover have "nat_text (?r + 10 ^ 9 * le_val ?qs) = nat_text (le_val ?qs) @ pad_zeros 9 (nat_text ?r)"
      using nat_text_shift[OF v r] pad_zeros_fixed[of 9 ?r] r by simp
    moreover have "le_val limbs = ?r + 10 ^ 9 * le_val ?qs"
      using div_pass_value[of limbs] by (simp add: CHUNK_def)
    ultimately show ?thesis by (simp add: cs chunks_text_Cons)
  qed
qed

lemma to_decimal_le_text: "to_decimal_le bytes = nat_text (le_val bytes)"
proof (cases "trim_zeros bytes = []")
  case True
  then have "le_val bytes = 0" by (simp add: trim_zeros_Nil_iff)
  then show ?thesis using True by (simp add: to_decimal_le_def nat_text.simps[of 0] digit_char_def)
next
  case False
  then show ?thesis
    using to_chunks_text[of "trim_zeros bytes"]
    by (simp add: to_decimal_le_def Let_def chunks_text_def le_val_trim)
qed

section \<open>Negation\<close>

lemma unat_not_u8: "unat (NOT (b :: u8)) + unat b = 255"
proof -
  have b: "0 \<le> uint b" "uint b < 256" using uint_bounded[of b] by simp_all
  have "uint (NOT b) = (- uint b - 1) mod 256"
    by (simp add: unsigned_not_eq take_bit_eq_mod not_int_def)
  also have "\<dots> = (256 + (- uint b - 1)) mod 256" by (rule mod_add_self1[symmetric])
  also have "256 + (- uint b - 1) = 255 - uint b" by simp
  also have "(255 - uint b) mod 256 = 255 - uint b" by (rule mod_pos_pos_trivial) (use b in linarith)+
  finally have "int (unat (NOT b)) + int (unat b) = 255" by simp
  then show ?thesis by linarith
qed

lemma le_val_not: "le_val (map (\<lambda>b. NOT b) bs) + le_val bs + 1 = 256 ^ length bs"
proof (induction bs)
  case Nil
  then show ?case by simp
next
  case (Cons b bs)
  have "unat (NOT b) + unat b = 255" by (rule unat_not_u8)
  then show ?case using Cons.IH by simp
qed

lemma add_carry_value:
  "c \<le> 1 \<Longrightarrow> le_val (add_carry bs c) = (le_val bs + c) mod 256 ^ length bs"
proof (induction bs arbitrary: c)
  case Nil
  then show ?case by simp
next
  case (Cons b bs)
  let ?v = "unat b + c"
  have v: "unat (b + of_nat c) = ?v mod 256"
    by (simp add: unat_word_ariths unat_of_nat take_bit_eq_mod mod_simps)
  have c': "?v div 256 \<le> 1" using Cons.prems unat_u8[of b] by simp
  have "(le_val (b # bs) + c) mod (256 * 256 ^ length bs) =
      256 * ((le_val (b # bs) + c) div 256 mod 256 ^ length bs) + (le_val (b # bs) + c) mod 256"
    by (rule mod_mult2_eq)
  moreover have "(le_val (b # bs) + c) div 256 = le_val bs + ?v div 256" by simp
  moreover have "(le_val (b # bs) + c) mod 256 = ?v mod 256"
  proof -
    have "le_val (b # bs) + c = ?v + 256 * le_val bs" by simp
    then show ?thesis by (simp only: mod_mult_self2)
  qed
  moreover have "le_val (add_carry bs (?v div 256)) = (le_val bs + ?v div 256) mod 256 ^ length bs"
    using Cons.IH[OF c'] .
  moreover have "le_val bs mod 256 ^ length bs = le_val bs" using le_val_bound by simp
  ultimately show ?case using v by (simp add: Let_def)
qed

lemma top_bit_snoc: "top_bit (bs @ [b]) \<longleftrightarrow> 128 \<le> unat b"
proof -
  have "b AND 0x80 \<noteq> 0 \<longleftrightarrow> bit b 7" by (simp add: flag_bits_u8)
  also have "\<dots> \<longleftrightarrow> 128 \<le> unat b"
  proof
    assume "bit b 7"
    then show "128 \<le> unat b" using bit_less_if[of b 7 7] by force
  next
    assume b: "128 \<le> unat b"
    show "bit b 7"
    proof (rule ccontr)
      assume "\<not> bit b 7"
      then have "take_bit 7 b = b" by (intro u8_eqI) (simp_all add: bit_take_bit_iff)
      then show False using b take_bit_eq_iff_less[of 7 b] by simp
    qed
  qed
  finally show ?thesis by (simp add: top_bit_def)
qed

lemma le_val_last:
  "le_val (xs @ [b]) = le_val xs + 256 ^ length xs * unat b" "256 ^ length (xs @ [b]) = 256 * 256 ^ length xs"
  by (simp_all add: le_val_snoc)

lemma tc_val_negative:
  assumes "top_bit bs"
  shows "0 < le_val bs" and "2 * le_val bs \<ge> 256 ^ length bs"
proof -
  obtain xs b where bs: "bs = xs @ [b]" using assms by (metis append_butlast_last_id top_bit_def)
  define P Q where "P = (256 :: nat) ^ length xs" and "Q = P * unat b"
  have "128 \<le> unat b" using assms by (simp add: bs top_bit_snoc)
  then have "P * 128 \<le> Q" unfolding Q_def by (rule mult_le_mono2)
  moreover have v: "le_val bs = le_val xs + Q" "256 ^ length bs = 256 * P"
    by (simp_all add: bs le_val_last P_def Q_def)
  ultimately show le: "2 * le_val bs \<ge> 256 ^ length bs" by linarith
  have "(0 :: nat) < 256 ^ length bs" by simp
  then show "0 < le_val bs" using le by linarith
qed

lemma tc_val_positive:
  assumes "\<not> top_bit bs"
  shows "2 * le_val bs < 256 ^ length bs"
proof (cases bs rule: rev_cases)
  case Nil
  then show ?thesis by simp
next
  case (snoc xs b)
  define P Q where "P = (256 :: nat) ^ length xs" and "Q = P * unat b"
  have "unat b \<le> 127" using assms by (simp add: snoc top_bit_snoc)
  then have "Q \<le> P * 127" unfolding Q_def by (rule mult_le_mono2)
  moreover have "le_val bs = le_val xs + Q" "256 ^ length bs = 256 * P"
    by (simp_all add: snoc le_val_last P_def Q_def)
  ultimately show ?thesis using le_val_bound[of xs] by (simp add: P_def)
qed

lemma nat_text_nonempty: "nat_text n \<noteq> []"
  by (subst nat_text.simps) simp

lemma nat_text_zero_iff: "nat_text n = ''0'' \<longleftrightarrow> n = 0"
proof (cases "n < 10")
  case True
  then have "nat_text n = [digit_char n]" by (subst nat_text.simps) simp
  moreover have "n = 0 \<or> n = 1 \<or> n = 2 \<or> n = 3 \<or> n = 4 \<or> n = 5 \<or> n = 6 \<or> n = 7 \<or> n = 8 \<or> n = 9"
    using True by auto
  ultimately show ?thesis by (elim disjE) (simp_all add: digit_char_def)
next
  case False
  then show ?thesis using nat_text_nonempty[of "n div 10"] by (cases "nat_text (n div 10)") (auto simp: nat_text.simps[of n])
qed

lemma wide_text: "twos_complement_le_to_decimal bytes = int_text (tc_val bytes)"
proof (cases "top_bit bytes")
  case False
  then show ?thesis
    by (simp add: twos_complement_le_to_decimal_def to_decimal_le_text int_text_def tc_val_def Let_def)
next
  case True
  let ?m = "add_carry (map (\<lambda>b. NOT b) bytes) 1"
  have "le_val ?m = (le_val (map (\<lambda>b. NOT b) bytes) + 1) mod 256 ^ length bytes"
    by (simp add: add_carry_value)
  also have "le_val (map (\<lambda>b. NOT b) bytes) + 1 = 256 ^ length bytes - le_val bytes"
    using le_val_not[of bytes] by linarith
  also have "(256 ^ length bytes - le_val bytes) mod 256 ^ length bytes = 256 ^ length bytes - le_val bytes"
    using tc_val_negative(1)[OF True] by (intro mod_less) simp
  finally have m: "le_val ?m = 256 ^ length bytes - le_val bytes" .
  have "le_val bytes < 256 ^ length bytes" by (rule le_val_bound)
  then have neg: "tc_val bytes < 0" "nat (- tc_val bytes) = le_val ?m" "0 < le_val ?m"
    using True m by (auto simp: tc_val_def nat_diff_distrib nat_power_eq)
  then have "nat_text (le_val ?m) \<noteq> ''0''" by (simp add: nat_text_zero_iff)
  then show ?thesis
    using True neg by (simp add: twos_complement_le_to_decimal_def Let_def to_decimal_le_text int_text_def)
qed

section \<open>The narrow path\<close>

lemma fold_bytes_from_le:
  "fold (\<lambda>(i, b) v. v OR push_bit (i * 8) (ucast b)) (enumerate k bs) acc =
     (acc OR push_bit (k * 8) (from_le bs) :: i64)"
proof (induction bs arbitrary: k acc)
  case Nil
  then show ?case by simp
next
  case (Cons b bs)
  have "push_bit (k * 8) (ucast b OR push_bit 8 (from_le bs)) =
      (push_bit (k * 8) (ucast b) OR push_bit (Suc k * 8) (from_le bs) :: i64)"
    by (simp only: push_bit_or push_bit_push_bit mult_Suc add.commute)
  then show ?case by (simp only: enumerate_simps fold_simps split Cons.IH from_le.simps or.assoc)
qed

lemma from_le_of_nat: "from_le bs = (of_nat (le_val bs) :: 'a::len word)"
proof (induction bs)
  case Nil
  then show ?case by simp
next
  case (Cons b bs)
  have 1: "(ucast b :: 'a word) + push_bit 8 (from_le bs) = ucast b OR push_bit 8 (from_le bs)"
    by (rule disjunctive_add) (auto simp: bit_ucast_iff bit_push_bit_iff dest: bit_byte_less)
  have 2: "push_bit 8 (from_le bs :: 'a word) = 256 * from_le bs" by (simp add: push_bit_eq_mult)
  have 3: "(ucast b :: 'a word) = of_nat (unat b)" by simp
  have "from_le (b # bs) = (ucast b + 256 * from_le bs :: 'a word)" using 1 2 by (simp only: from_le.simps)
  also have "\<dots> = of_nat (unat b) + 256 * of_nat (le_val bs)" by (simp only: 3 Cons.IH)
  also have "\<dots> = of_nat (le_val (b # bs))" by (simp only: le_val.simps of_nat_add of_nat_mult of_nat_numeral)
  finally show ?case .
qed

lemma pow_256: "(256 :: 'a::semiring_1) ^ n = 2 ^ (8 * n)"
  by (simp add: power_mult)

lemma small_value_of_int:
  assumes "length bs \<le> 8"
  shows "small_value bs = of_int (tc_val bs)"
proof -
  have v: "fold (\<lambda>(i, b) v. v OR push_bit (i * 8) (ucast b)) (enumerate 0 bs) 0 = (of_nat (le_val bs) :: i64)"
    by (simp only: fold_bytes_from_le from_le_of_nat) simp
  show ?thesis
  proof (cases "top_bit bs")
    case False
    then show ?thesis by (simp add: small_value_def v tc_val_def Let_def)
  next
    case True
    show ?thesis
    proof (cases "length bs < 8")
      case False
      then have "(of_int (256 ^ length bs) :: i64) = 0"
        using assms by (simp add: pow_256)
      then show ?thesis using True False by (simp add: small_value_def v tc_val_def Let_def)
    next
      case lt: True
      let ?n = "length bs * 8"
      have "le_val bs < 2 ^ ?n" using le_val_bound[of bs] by (simp add: pow_256 mult.commute)
      moreover have "(2 :: nat) ^ ?n \<le> 2 ^ 56" using lt by (intro power_increasing) simp_all
      ultimately have "unat (of_nat (le_val bs) :: i64) < 2 ^ ?n" by (simp add: unat_of_nat_less)
      then have "bit (of_nat (le_val bs) :: i64) i \<Longrightarrow> i < ?n" for i by (rule bit_less_if)
      then have "(of_nat (le_val bs) :: i64) + push_bit ?n (- 1) = of_nat (le_val bs) OR push_bit ?n (- 1)"
        by (intro disjunctive_add) (auto simp: bit_not_iff bit_mask_iff)
      moreover have "push_bit ?n (- 1 :: i64) = - (2 ^ ?n)" by (simp only: push_bit_eq_mult) simp
      moreover have "of_int (tc_val bs) = (of_nat (le_val bs) - 2 ^ ?n :: i64)"
        using True by (simp add: tc_val_def pow_256 mult.commute)
      ultimately show ?thesis
        using True lt by (simp add: small_value_def v Let_def del: push_bit_minus_one push_bit_minus_one_eq_not_mask)
    qed
  qed
qed

lemma tc_val_range: "- (2 ^ (8 * length bs)) \<le> 2 * tc_val bs \<and> 2 * tc_val bs < 2 ^ (8 * length bs)"
proof -
  define P :: int where "P = 2 ^ (8 * length bs)"
  have P: "int (256 ^ length bs) = P" by (simp add: P_def pow_256)
  have tc: "tc_val bs = int (le_val bs) - (if top_bit bs then P else 0)" by (simp add: tc_val_def P_def pow_256)
  have "int (le_val bs) < P" using le_val_bound[of bs] P by linarith
  moreover have "top_bit bs \<Longrightarrow> P \<le> 2 * int (le_val bs)" using tc_val_negative(2)[of bs] P by linarith
  moreover have "\<not> top_bit bs \<Longrightarrow> 2 * int (le_val bs) < P" using tc_val_positive[of bs] P by linarith
  ultimately show ?thesis unfolding P_def[symmetric] tc by (cases "top_bit bs") simp_all
qed

lemma narrow_text: "length bs \<le> 8 \<Longrightarrow> sint (small_value bs) = tc_val bs"
proof -
  assume n: "length bs \<le> 8"
  have "(2 :: int) ^ (8 * length bs) \<le> 2 ^ 64" using n by (intro power_increasing) simp_all
  then have "- (2 ^ 63) \<le> tc_val bs" "tc_val bs < 2 ^ 63" using tc_val_range[of bs] by simp_all
  then show ?thesis
    using n by (simp add: small_value_of_int signed_of_int signed_take_bit_int_eq_self)
qed

text \<open>C17: The text of a BigInt is the decimal text of the two's-complement integer its bytes
  denote, at every width: the 64-bit path and the long-division path agree with it and so
  with each other.\<close>

theorem bigint_text_correct: "bigint_text bytes = int_text (tc_val bytes)"
proof (cases "bytes = []")
  case True
  then show ?thesis
    by (simp add: bigint_text_def int_text_def tc_val_def top_bit_def nat_text.simps[of 0] digit_char_def)
next
  case False
  then show ?thesis by (simp add: bigint_text_def narrow_text wide_text)
qed

end
