(* ===== verification/Image_Types.thy ===== *)
theory Image_Types
  imports Tables Instructions Footer Debug_Info Bigint_Text
begin

text \<open>
  The parsed image (\<open>crates/hbc-decomp/src/file/structure.rs\<close>): the record
  \<open>BytecodeFile\<close>, its sections and diagnostics with their one-line descriptions, and its
  lookups by index (\<open>file/parser/mod.rs\<close>, \<open>helpers.rs\<close>, \<open>instructions.rs\<close>).  A line of text
  is a template with its arguments.  The counter \<open>unresolved_string_ids\<close>, which the code
  shares behind an atomic, is a natural number of the record.
\<close>

type_synonym message = "string \<times> farg list"

datatype literal_value =
    LNull
  | LBool bool
  | LNumber f64_bits
  | LInteger i32
  | LString rust_string
  | LUndefined

record section_info =
  si_name :: string
  si_offset :: u32
  si_size :: u32
  si_entries :: "u32 option"

record exception_handler =
  eh_start :: u32
  eh_end :: u32
  eh_target :: u32

section \<open>Diagnostics\<close>

fun status_describe :: "debug_info_status \<Rightarrow> message" where
  "status_describe Present = (''present'', [])"
| "status_describe Absent = (''absent (the file carries no debug info)'', [])"
| "status_describe OffsetOutOfRange = (''unreadable: debug_info_offset points past EOF'', [])"
| "status_describe (UnsupportedDebugVersion v) =
     (''unreadable: no debug-info layout is modelled for bytecode version {v}'', [fword v])"
| "status_describe HeaderOutOfRange =
     (''unreadable: the debug-info header's own offsets leave the file'', [])"
| "status_describe ParseFailed = (''unreadable: the debug-info section failed to parse'', [])"

datatype diagnostic =
    FooterMismatch
  | LengthMismatch u32 nat
  | LayoutFallback u32 header_layout header_layout
  | OpcodeTableSubstituted u32 u32
  | InvalidStringStorage nat
  | DebugInfoUnreadable debug_info_status

fun layout_name :: "header_layout \<Rightarrow> farg" where
  "layout_name Legacy = FText (lit ''Legacy'')"
| "layout_name Modern = FText (lit ''Modern'')"

fun diagnostic_describe :: "diagnostic \<Rightarrow> message" where
  "diagnostic_describe FooterMismatch =
     (''the trailing SHA-1 footer does not match the file contents (a hand-patched bundle whose footer was not refreshed; the Hermes VM will reject it)'', [])"
| "diagnostic_describe (LengthMismatch declared actual) =
     (''header.file_length is {declared} but the file is {actual} bytes ({} bytes {})'',
      [fword declared, fnat actual, FNum \<bar>int actual - uint declared\<bar>,
       FText (lit (if actual < unat declared then ''short'' else ''extra''))])"
| "diagnostic_describe (LayoutFallback ver used implied) =
     (''parsed with the {used:?} header layout, but bytecode version {version} implies {implied:?}; the {implied:?} parse failed. Every offset below was decoded at a stride the version says is wrong'',
      [layout_name used, fword ver, layout_name implied, layout_name implied])"
| "diagnostic_describe (OpcodeTableSubstituted declared used) =
     (''no opcode table for bytecode version {declared}; decoded with the version {used} table. Operand shapes and opcode numbering may differ, which silently changes which instruction each byte means'',
      [fword declared, fword used])"
| "diagnostic_describe (InvalidStringStorage n) =
     (''{n} string-table entries point outside the string storage and decoded to a placeholder'', [fnat n])"
| "diagnostic_describe (DebugInfoUnreadable s) =
     (''debug info '' @ fst (status_describe s), snd (status_describe s))"

section \<open>The parsed file\<close>

record bytecode_file =
  bf_header :: bytecode_header
  bf_function_headers :: "function_header list"
  bf_string_kinds :: "string_kind_entry list"
  bf_identifier_hashes :: "u32 list"
  bf_strings :: "string_table_entry list"
  bf_big_int_table :: "table_entry list"
  bf_big_int_storage :: "u8 list"
  bf_reg_exp_table :: "table_entry list"
  bf_reg_exp_storage :: "u8 list"
  bf_array_buffer :: "u8 list"
  bf_literal_value_buffer :: "u8 list"
  bf_obj_key_buffer :: "u8 list"
  bf_obj_value_buffer :: "u8 list"
  bf_obj_shape_table :: "shape_table_entry list"
  bf_cjs_module_table :: "(u32 \<times> u32) list"
  bf_function_source_table :: "(u32 \<times> u32) list"
  bf_instruction_offset :: u32
  bf_instructions :: "u8 list"
  bf_debug_info :: "debug_info option"
  bf_debug_info_status :: debug_info_status
  bf_exception_handlers :: "(u32, exception_handler list) btree"
  bf_sections :: "section_info list"
  bf_diagnostics :: "diagnostic list"
  bf_unresolved_string_ids :: nat
  bf_raw_bytes :: "u8 list option"

definition file_warnings :: "bytecode_file \<Rightarrow> message list" where
  "file_warnings file =
     map diagnostic_describe (bf_diagnostics file) @
     (if 0 < bf_unresolved_string_ids file
      then [(''{unresolved} literal-buffer string ids did not resolve to a string-table entry and were rendered as `<string:N>`; this usually means the buffer sections were read at the wrong offsets'',
             [fnat (bf_unresolved_string_ids file)])]
      else [])"

definition is_clean :: "bytecode_file \<Rightarrow> bool" where
  "is_clean file \<longleftrightarrow> bf_diagnostics file = [] \<and> bf_unresolved_string_ids file = 0"

text \<open>A file has nothing to warn about exactly when it is clean.\<close>

lemma no_warnings_iff_clean: "file_warnings file = [] \<longleftrightarrow> is_clean file"
  by (simp add: file_warnings_def is_clean_def)

section \<open>Lookups by index\<close>

definition list_get :: "'a list \<Rightarrow> nat \<Rightarrow> 'a option" where
  "list_get xs i = (if i < length xs then Some (xs ! i) else None)"

lemma list_get_Some [simp]: "list_get xs i = Some x \<longleftrightarrow> i < length xs \<and> xs ! i = x"
  by (auto simp: list_get_def)

lemma list_get_None [simp]: "list_get xs i = None \<longleftrightarrow> length xs \<le> i"
  by (auto simp: list_get_def)

definition string_at :: "bytecode_file \<Rightarrow> u32 \<Rightarrow> string_table_entry option" where
  "string_at file string_id = list_get (bf_strings file) (unat string_id)"

definition shape_at :: "bytecode_file \<Rightarrow> u32 \<Rightarrow> shape_table_entry option" where
  "shape_at file shape_id = list_get (bf_obj_shape_table file) (unat shape_id)"

definition bigint_at :: "bytecode_file \<Rightarrow> u32 \<Rightarrow> string option" where
  "bigint_at file bigint_id =
     (case list_get (bf_big_int_table file) (unat bigint_id) of
        None \<Rightarrow> None
      | Some entry \<Rightarrow>
          let start = unat (te_offset entry) in
          (case checked_add_usize start (unat (te_length entry)) of
             None \<Rightarrow> None
           | Some e \<Rightarrow>
               if length (bf_big_int_storage file) < e then None
               else Some (bigint_text (take (e - start) (drop start (bf_big_int_storage file))))))"

text \<open>The slice of the instruction region a function header names, decoded.\<close>

definition decode_function_instructions ::
  "bytecode_file \<Rightarrow> bytecode_format \<Rightarrow> u32 \<Rightarrow> instruction list result" where
  "decode_function_instructions file format function_id =
     res_bind (ok_or (list_get (bf_function_headers file) (unat function_id))
       (Parse ''invalid function id: {function_id}'' [fword function_id])) (\<lambda>h.
     res_bind (ok_or (if bf_instruction_offset file \<le> fh_offset h
                      then Some (fh_offset h - bf_instruction_offset file) else None)
       (Parse ''function offset underflow'' [])) (\<lambda>func_offset.
     let start = unat func_offset in
     res_bind (ok_or (checked_add_usize start (unat (fh_bytecode_size h)))
       (Parse ''function {function_id} bytecode offset overflow'' [fword function_id])) (\<lambda>e.
     if length (bf_instructions file) < e
     then Inl (Parse ''function {function_id} bytecode out of range'' [fword function_id])
     else decode_body format (take (e - start) (drop start (bf_instructions file))))))"

text \<open>The opcode table of the file, recording a substitution once.\<close>

definition resolve_format ::
  "(u32 \<Rightarrow> json_format result option) \<Rightarrow> u32 list \<Rightarrow> bytecode_file \<Rightarrow>
   (bytecode_format \<times> bytecode_file) result" where
  "resolve_format json_for available file =
     (let declared = version (bf_header file) in
      res_bind (for_version_or_latest json_for available declared) (\<lambda>(format, used).
      Inr (format,
        if used \<noteq> declared
        then let d = OpcodeTableSubstituted declared used in
             if d \<in> set (bf_diagnostics file) then file
             else file\<lparr>bf_diagnostics := bf_diagnostics file @ [d]\<rparr>
        else file)))"

end
