(* ===== verification/Image_Parser.thy ===== *)
theory Image_Parser
  imports Image_Types Header
begin

text \<open>
  The image parser (\<open>crates/hbc-decomp/src/file/parser/parsing.rs\<close>): the sections of both
  layouts in file order, each recorded as it is read, the tail regions, the per-function
  info areas, and the choice of a layout.  The \<open>&mut Vec\<close> of sections is state passed
  along with the reader.  The digest of the footer is a parameter.
\<close>

section \<open>Tracked sections\<close>

type_synonym parse_state = "byte_reader \<times> section_info list"
type_synonym 'a sec_op = "parse_state \<Rightarrow> ('a \<times> parse_state) result"

definition sec_bind :: "'a sec_op \<Rightarrow> ('a \<Rightarrow> 'b sec_op) \<Rightarrow> 'b sec_op" where
  "sec_bind m f s = res_bind (m s) (\<lambda>(x, s'). f x s')"

definition sec_ret :: "'a \<Rightarrow> 'a sec_op" where
  "sec_ret x s = Inr (x, s)"

definition saturating_sub_u32 :: "u32 \<Rightarrow> u32 \<Rightarrow> u32" where
  "saturating_sub_u32 a b = (if b \<le> a then a - b else 0)"

definition saturating_add_u32 :: "u32 \<Rightarrow> u32 \<Rightarrow> u32" where
  "saturating_add_u32 a b = (if unat a + unat b < 2 ^ 32 then a + b else - 1)"

definition track_section :: "string \<Rightarrow> u32 option \<Rightarrow> 'a read_op \<Rightarrow> 'a sec_op" where
  "track_section name entries parse = (\<lambda>(r, sections).
     let sec_start = of_nat (pos r) :: u32 in
     res_bind (rd_bind parse (\<lambda>x. rd_bind (align 4) (\<lambda>_. rd_ret x)) r) (\<lambda>(x, r').
       Inr (x, r', sections @ [\<lparr>si_name = name, si_offset = sec_start,
         si_size = saturating_sub_u32 (of_nat (pos r')) sec_start, si_entries = entries\<rparr>])))"

text \<open>\<open>if let Some(x) = field { track_section(...) } else { Vec::new() }\<close>.\<close>

definition track_if :: "'b option \<Rightarrow> ('b \<Rightarrow> 'a list sec_op) \<Rightarrow> 'a list sec_op" where
  "track_if field section = (case field of Some x \<Rightarrow> section x | None \<Rightarrow> sec_ret [])"

section \<open>Sections in file order\<close>

record common_tables =
  ct_function_headers :: "function_header list"
  ct_string_kinds :: "string_kind_entry list"
  ct_identifier_hashes :: "u32 list"
  ct_small_string_table :: "u32 list"
  ct_overflow_string_table :: "(u32 \<times> u32) list"
  ct_string_storage :: "u8 list"

record layout_buffers =
  lb_big_int_table :: "table_entry list"
  lb_big_int_storage :: "u8 list"
  lb_array_buffer :: "u8 list"
  lb_literal_value_buffer :: "u8 list"
  lb_obj_key_buffer :: "u8 list"
  lb_obj_value_buffer :: "u8 list"
  lb_obj_shape_table :: "shape_table_entry list"

definition parse_common_tables :: "bytecode_header \<Rightarrow> common_tables sec_op" where
  "parse_common_tables h =
     sec_bind (track_section ''function_headers'' (Some (function_count h)) (parse_function_headers h)) (\<lambda>headers.
     sec_bind (track_section ''string_kinds'' (Some (string_kind_count h)) (parse_string_kinds (string_kind_count h))) (\<lambda>kinds.
     sec_bind (track_section ''identifier_hashes'' (Some (identifier_count h)) (parse_u32_vec (identifier_count h))) (\<lambda>hashes.
     sec_bind (track_section ''small_string_table'' (Some (string_count h)) (parse_u32_vec (string_count h))) (\<lambda>small.
     sec_bind (track_section ''overflow_string_table'' (Some (overflow_string_count h))
                 (parse_overflow_string_table (overflow_string_count h))) (\<lambda>overflow.
     sec_bind (track_section ''string_storage'' None (read_bytes (unat (string_storage_size h)))) (\<lambda>storage.
     sec_ret \<lparr>ct_function_headers = headers, ct_string_kinds = kinds, ct_identifier_hashes = hashes,
       ct_small_string_table = small, ct_overflow_string_table = overflow, ct_string_storage = storage\<rparr>))))))"

text \<open>The BigInt sections are read only when the header declares both.\<close>

definition parse_bigints :: "bytecode_header \<Rightarrow> (table_entry list \<times> u8 list) sec_op" where
  "parse_bigints h =
     (case (big_int_count h, big_int_storage_size h) of
        (Some count, Some sz) \<Rightarrow>
          sec_bind (track_section ''bigint_table'' (Some count) (parse_table_entries count)) (\<lambda>table.
          sec_bind (track_section ''bigint_storage'' None (read_bytes (unat sz))) (\<lambda>storage.
          sec_ret (table, storage)))
      | _ \<Rightarrow> sec_ret ([], []))"

definition parse_legacy_buffers :: "bytecode_header \<Rightarrow> layout_buffers sec_op" where
  "parse_legacy_buffers h =
     sec_bind (track_if (array_buffer_size h) (\<lambda>sz. track_section ''array_buffer'' None (read_bytes (unat sz)))) (\<lambda>array.
     sec_bind (track_section ''obj_key_buffer'' None (read_bytes (unat (obj_key_buffer_size h)))) (\<lambda>keys.
     sec_bind (track_if (obj_value_buffer_size h) (\<lambda>sz. track_section ''obj_value_buffer'' None (read_bytes (unat sz)))) (\<lambda>vals.
     sec_bind (parse_bigints h) (\<lambda>(table, storage).
     sec_ret \<lparr>lb_big_int_table = table, lb_big_int_storage = storage, lb_array_buffer = array,
       lb_literal_value_buffer = [], lb_obj_key_buffer = keys, lb_obj_value_buffer = vals,
       lb_obj_shape_table = []\<rparr>))))"

definition parse_modern_buffers :: "bytecode_header \<Rightarrow> layout_buffers sec_op" where
  "parse_modern_buffers h =
     sec_bind (track_if (literal_value_buffer_size h) (\<lambda>sz. track_section ''literal_value_buffer'' None (read_bytes (unat sz)))) (\<lambda>vals.
     sec_bind (track_section ''obj_key_buffer'' None (read_bytes (unat (obj_key_buffer_size h)))) (\<lambda>keys.
     sec_bind (track_if (obj_shape_table_count h) (\<lambda>n. track_section ''obj_shape_table'' (Some n) (parse_shape_table n))) (\<lambda>shapes.
     sec_bind (parse_bigints h) (\<lambda>(table, storage).
     sec_ret \<lparr>lb_big_int_table = table, lb_big_int_storage = storage, lb_array_buffer = [],
       lb_literal_value_buffer = vals, lb_obj_key_buffer = keys, lb_obj_value_buffer = [],
       lb_obj_shape_table = shapes\<rparr>))))"

record trailing_tables =
  tt_reg_exp_table :: "table_entry list"
  tt_reg_exp_storage :: "u8 list"
  tt_cjs_module_table :: "(u32 \<times> u32) list"
  tt_function_source_table :: "(u32 \<times> u32) list"

definition parse_trailing :: "bytecode_header \<Rightarrow> trailing_tables sec_op" where
  "parse_trailing h =
     sec_bind (track_section ''regexp_table'' (Some (reg_exp_count h)) (parse_table_entries (reg_exp_count h))) (\<lambda>re_table.
     sec_bind (track_section ''regexp_storage'' None (read_bytes (unat (reg_exp_storage_size h)))) (\<lambda>re_storage.
     sec_bind (track_section ''cjs_module_table'' (Some (cjs_module_count h)) (parse_pair_table (cjs_module_count h))) (\<lambda>cjs.
     sec_bind (track_if (function_source_count h) (\<lambda>n. track_section ''function_source_table'' (Some n) (parse_pair_table n))) (\<lambda>sources.
     sec_ret \<lparr>tt_reg_exp_table = re_table, tt_reg_exp_storage = re_storage,
       tt_cjs_module_table = cjs, tt_function_source_table = sources\<rparr>))))"

section \<open>The tail of the file\<close>

definition push_section :: "string \<Rightarrow> u32 \<Rightarrow> u32 \<Rightarrow> section_info list \<Rightarrow> section_info list" where
  "push_section name off e sections =
     (if off < e
      then sections @ [\<lparr>si_name = name, si_offset = off, si_size = e - off, si_entries = None\<rparr>]
      else sections)"

definition push_tail_sections ::
  "section_info list \<Rightarrow> u8 list \<Rightarrow> u32 \<Rightarrow> bytecode_header \<Rightarrow> function_header list \<Rightarrow> section_info list" where
  "push_tail_sections sections bytes instruction_offset h headers =
     (let file_end = of_nat (length bytes);
          footer_start = saturating_sub_u32 file_end (of_nat FOOTER_LEN);
          debug_start = (let off = debug_info_offset h in
             if off = 0 \<or> off = - 1 then None
             else if footer_start \<le> off \<or> off < instruction_offset then None else Some off);
          ends = map (\<lambda>fh. saturating_add_u32 (fh_offset fh) (fh_bytecode_size fh)) headers;
          bodies_end = fold max ends instruction_offset;
          tail_start = (case debug_start of Some d \<Rightarrow> d | None \<Rightarrow> footer_start);
          info_start = min bodies_end tail_start;
          sections = push_section ''bytecode'' instruction_offset info_start sections;
          sections = push_section ''function_info'' info_start tail_start sections;
          sections = (case debug_start of
             Some d \<Rightarrow> push_section ''debug_info'' d footer_start sections | None \<Rightarrow> sections) in
      push_section ''footer'' footer_start file_end sections)"

section \<open>Per-function info areas\<close>

fun fh_info_offset :: "function_header \<Rightarrow> u32" where
  "fh_info_offset (LegacyHeader h) = lf_info_offset h"
| "fh_info_offset (ModernHeader h) = mf_info_offset h"

text \<open>\<open>x.saturating_add(3) & !3\<close> on a \<open>usize\<close>.\<close>

definition align_up4 :: "nat \<Rightarrow> nat" where
  "align_up4 p = saturating_add_usize p 3 div 4 * 4"

definition u32_slice :: "u8 list \<Rightarrow> nat \<Rightarrow> u32 option" where
  "u32_slice bytes p = map_option from_le (get_range bytes p (p + 4))"

text \<open>Where the \<open>DebugOffsets\<close> of a function start: past its handler table when it has one.\<close>

definition debug_offsets_pos :: "u8 list \<Rightarrow> u32 \<Rightarrow> u8 \<Rightarrow> nat option" where
  "debug_offsets_pos bytes info_offset flags =
     (let p = align_up4 (unat info_offset) in
      if flags AND FLAG_HAS_EXCEPTION_HANDLER = 0 then Some p
      else case u32_slice bytes p of
        None \<Rightarrow> None
      | Some count \<Rightarrow>
          if 1000 < unat count then None
          else Some (align_up4 (saturating_add_usize (saturating_add_usize p 4)
                                  (saturating_mul_usize (unat count) 12))))"

definition function_debug_entry :: "u8 list \<Rightarrow> bool \<Rightarrow> function_header \<Rightarrow> function_debug_offsets option" where
  "function_debug_entry bytes has_scopes fh =
     (if fh_flags fh AND FLAG_HAS_DEBUG_INFO = 0 \<or> fh_info_offset fh = 0 then None
      else case debug_offsets_pos bytes (fh_info_offset fh) (fh_flags fh) of
        None \<Rightarrow> None
      | Some p \<Rightarrow>
          (case u32_slice bytes p of
             None \<Rightarrow> None
           | Some source_locations \<Rightarrow>
               let scope = (if has_scopes then u32_slice bytes (p + 4) else None) in
               if source_locations \<noteq> - 1 \<or> (\<exists>s. scope = Some s \<and> s \<noteq> - 1)
               then Some \<lparr>fdo_source_locations = source_locations, fdo_scope_desc_data = scope\<rparr>
               else None))"

definition parse_debug_offsets ::
  "u8 list \<Rightarrow> function_header list \<Rightarrow> u32 \<Rightarrow> (u32, function_debug_offsets) btree" where
  "parse_debug_offsets bytes headers ver =
     (let has_scopes = (case debug_layout_for_version ver of
            Some l \<Rightarrow> dl_has_lexical_regions l | None \<Rightarrow> False) in
      fold (\<lambda>fh out. case function_debug_entry bytes has_scopes fh of
              None \<Rightarrow> out | Some e \<Rightarrow> out(fh_function_id fh \<mapsto> e)) headers Map.empty)"

definition read_handler :: "exception_handler read_op" where
  "read_handler =
     rd_bind read_u32 (\<lambda>start. rd_bind read_u32 (\<lambda>e. rd_bind read_u32 (\<lambda>target.
     rd_ret \<lparr>eh_start = start, eh_end = e, eh_target = target\<rparr>)))"

definition function_handlers :: "u8 list \<Rightarrow> function_header \<Rightarrow> exception_handler list option" where
  "function_handlers bytes fh =
     (let info_offset = unat (fh_info_offset fh) in
      if fh_flags fh AND FLAG_HAS_EXCEPTION_HANDLER = 0 then None
      else if info_offset = 0 \<or> length bytes \<le> info_offset then None
      else let aligned = align_up4 info_offset in
      if length bytes < saturating_add_usize aligned 4 then None
      else case read_u32 (new_reader (drop aligned bytes)) of
        Inl _ \<Rightarrow> None
      | Inr (count, r) \<Rightarrow>
          if count = 0 \<or> 1000 < count then None
          else (case rd_repeat (unat count) read_handler r of
             Inl _ \<Rightarrow> None
           | Inr (handlers, _) \<Rightarrow> if handlers = [] then None else Some handlers))"

definition parse_exception_handlers ::
  "u8 list \<Rightarrow> function_header list \<Rightarrow> (u32, exception_handler list) btree" where
  "parse_exception_handlers bytes headers =
     fold (\<lambda>fh out. case function_handlers bytes fh of
             None \<Rightarrow> out | Some hs \<Rightarrow> out(fh_function_id fh \<mapsto> hs)) headers Map.empty"

section \<open>The whole image\<close>

definition image_diagnostics :: "digest \<Rightarrow> u8 list \<Rightarrow> bytecode_header \<Rightarrow> nat \<Rightarrow> debug_info_status \<Rightarrow> diagnostic list" where
  "image_diagnostics sha1 bytes h invalid status =
     (if unat (file_length h) \<noteq> length bytes then [LengthMismatch (file_length h) (length bytes)] else []) @
     (if \<not> verify_footer sha1 bytes then [FooterMismatch] else []) @
     (if 0 < invalid then [InvalidStringStorage invalid] else []) @
     (if status_is_failure status then [DebugInfoUnreadable status] else [])"

definition parse_trailing_and_build ::
  "digest \<Rightarrow> u8 list \<Rightarrow> bytecode_header \<Rightarrow> common_tables \<Rightarrow> layout_buffers \<Rightarrow> parse_state \<Rightarrow> bytecode_file result" where
  "parse_trailing_and_build sha1 bytes h tables buffers s =
     res_bind (parse_trailing h s) (\<lambda>(trailing, r, sections).
     let instruction_offset = of_nat (pos r) :: u32;
         instructions = drop (unat instruction_offset) bytes;
         sections = push_tail_sections sections bytes instruction_offset h (ct_function_headers tables) in
     res_bind (decode_string_table (string_count h) (ct_string_kinds tables)
                 (ct_small_string_table tables) (ct_overflow_string_table tables)
                 (ct_string_storage tables)) (\<lambda>(strings, invalid).
     let debug_offsets = parse_debug_offsets bytes (ct_function_headers tables) (version h);
         debug = try_parse_debug_info bytes (debug_info_offset h) (version h) debug_offsets;
         info = fst debug; status = snd debug in
     Inr \<lparr>bf_header = h, bf_function_headers = ct_function_headers tables,
       bf_string_kinds = ct_string_kinds tables, bf_identifier_hashes = ct_identifier_hashes tables,
       bf_strings = strings, bf_big_int_table = lb_big_int_table buffers,
       bf_big_int_storage = lb_big_int_storage buffers, bf_reg_exp_table = tt_reg_exp_table trailing,
       bf_reg_exp_storage = tt_reg_exp_storage trailing, bf_array_buffer = lb_array_buffer buffers,
       bf_literal_value_buffer = lb_literal_value_buffer buffers,
       bf_obj_key_buffer = lb_obj_key_buffer buffers, bf_obj_value_buffer = lb_obj_value_buffer buffers,
       bf_obj_shape_table = lb_obj_shape_table buffers, bf_cjs_module_table = tt_cjs_module_table trailing,
       bf_function_source_table = tt_function_source_table trailing,
       bf_instruction_offset = instruction_offset, bf_instructions = instructions,
       bf_debug_info = info, bf_debug_info_status = status,
       bf_exception_handlers = parse_exception_handlers bytes (ct_function_headers tables),
       bf_sections = sections, bf_diagnostics = image_diagnostics sha1 bytes h invalid status,
       bf_unresolved_string_ids = 0, bf_raw_bytes = Some bytes\<rparr>))"

definition parse_with_layout ::
  "digest \<Rightarrow> u8 list \<Rightarrow> header_layout \<Rightarrow> function_header_layout \<Rightarrow> bytecode_file result" where
  "parse_with_layout sha1 bytes lay fn_layout =
     (if length bytes < HEADER_SIZE then Inl (Parse ''file too small for header'' [])
      else res_bind (read_header lay fn_layout (new_reader bytes)) (\<lambda>(h, r).
        let sections = [\<lparr>si_name = ''header'', si_offset = 0, si_size = of_nat HEADER_SIZE, si_entries = None\<rparr>] in
        res_bind (rd_bind (seek HEADER_SIZE) (\<lambda>_. align 4) r) (\<lambda>(_, r).
        res_bind (parse_common_tables h (r, sections)) (\<lambda>(tables, s).
        res_bind (case layout h of Legacy \<Rightarrow> parse_legacy_buffers h s
                  | Modern \<Rightarrow> parse_modern_buffers h s) (\<lambda>(buffers, s).
        parse_trailing_and_build sha1 bytes h tables buffers s)))))"

definition implied_layout :: "u32 \<Rightarrow> header_layout \<times> function_header_layout" where
  "implied_layout ver =
     (if MODERN_FUNCTION_HEADER_MIN_VERSION \<le> ver then (Modern, Modern12) else (Legacy, Legacy16))"

definition parse_auto :: "digest \<Rightarrow> u8 list \<Rightarrow> bytecode_file result" where
  "parse_auto sha1 bytes =
     res_bind (peek_version bytes) (\<lambda>ver.
     let implied = implied_layout ver;
         other = (if fst implied = Modern then (Legacy, Legacy16) else (Modern, Modern12)) in
     case parse_with_layout sha1 bytes (fst implied) (snd implied) of
       Inr file \<Rightarrow> Inr file
     | Inl implied_err \<Rightarrow>
         (case parse_with_layout sha1 bytes (fst other) (snd other) of
            Inr file \<Rightarrow> Inr (file\<lparr>bf_diagnostics := bf_diagnostics file @
                              [LayoutFallback ver (fst other) (fst implied)]\<rparr>)
          | Inl other_err \<Rightarrow> Inl (Parse ''failed to parse bytecode file: version {version} implies the {:?} layout, which failed with: {implied_err}. The {:?} layout also failed, with: {other_err}''
              [fword ver, layout_name (fst implied), FErr implied_err, layout_name (fst other), FErr other_err])))"

end
