(* ===== verification/Image_Sections.thy ===== *)
theory Image_Sections
  imports Image_Parser
begin

text \<open>
  What the section list of a parsed image says: the recorded sections follow one another
  without gap or overlap from the first byte of the file to the last, every one of them
  starting at a multiple of four up to the bytecode.
\<close>

section \<open>Reads of the tables stay inside the data\<close>

lemma read_bytes_bound:
  "rd_bind (read_bytes n) f r = Inr (x, r') \<Longrightarrow> pos r + n \<le> length (data r)"
  by (auto simp: rd_bind_Inr_iff read_bytes_def read_exact_def checked_add_usize_def split: if_splits)

lemma function_header_bound:
  "parse_function_header_legacy fid r = Inr (h, r') \<Longrightarrow> pos r + 16 \<le> length (data r)"
  "parse_function_header_modern l fid r = Inr (h, r') \<Longrightarrow> pos r + 12 \<le> length (data r)"
  by (auto simp: parse_function_header_legacy_def parse_function_header_modern_def Let_def
      dest: read_bytes_bound)

lemma well_behaved_stride:
  assumes "\<And>r x r'. m r = Inr (x, r') \<Longrightarrow> r' = r\<lparr>pos := pos r + n\<rparr> \<and> pos r + n \<le> length (data r)"
  shows "well_behaved m"
  unfolding well_behaved_def by (auto dest!: assms)

lemma well_behaved_function_header [intro, simp]:
  "well_behaved (parse_function_header_legacy fid)" "well_behaved (parse_function_header_modern l fid)"
  by (rule well_behaved_stride; use legacy_step function_header_bound in blast)
     (rule well_behaved_stride; use modern_step function_header_bound in blast)

lemma well_behaved_parse_each [intro]: "(\<And>i. well_behaved (m i)) \<Longrightarrow> well_behaved (parse_each m is)"
  by (induction "is") auto

lemma well_behaved_tables [intro, simp]:
  "well_behaved (parse_function_headers h)" "well_behaved (parse_string_kinds n)"
  "well_behaved (parse_u32_vec n)" "well_behaved (parse_overflow_string_table n)"
  "well_behaved (parse_table_entries n)" "well_behaved (parse_shape_table n)"
  "well_behaved (parse_pair_table n)"
  by (auto simp: parse_function_headers_def parse_string_kinds_def parse_u32_vec_def
      parse_overflow_string_table_def read_pair_def parse_table_entries_def parse_shape_table_def
      parse_pair_table_def split: function_header_layout.split)

section \<open>Tilings\<close>

fun tiles :: "section_info list \<Rightarrow> nat \<Rightarrow> nat \<Rightarrow> bool" where
  "tiles [] a b \<longleftrightarrow> a = b"
| "tiles (s # ss) a b \<longleftrightarrow> unat (si_offset s) = a \<and> tiles ss (a + unat (si_size s)) b"

lemma tiles_append: "tiles (xs @ ys) a c \<longleftrightarrow> (\<exists>b. tiles xs a b \<and> tiles ys b c)"
  by (induction xs arbitrary: a) auto

definition tiled :: "u8 list \<Rightarrow> parse_state \<Rightarrow> bool" where
  "tiled bytes s \<longleftrightarrow> (case s of (r, sections) \<Rightarrow>
     data r = bytes \<and> pos r \<le> length bytes \<and> 4 dvd pos r \<and> tiles sections 0 (pos r)
     \<and> (\<forall>x \<in> set sections. 4 dvd unat (si_offset x)))"

definition keeps_tiling :: "u8 list \<Rightarrow> 'a sec_op \<Rightarrow> bool" where
  "keeps_tiling bytes m \<longleftrightarrow> (\<forall>s x s'. tiled bytes s \<longrightarrow> m s = Inr (x, s') \<longrightarrow> tiled bytes s')"

lemma keeps_tiling_ret [intro, simp]: "keeps_tiling bytes (sec_ret x)"
  by (simp add: keeps_tiling_def sec_ret_def)

lemma keeps_tiling_bind [intro]:
  assumes "keeps_tiling bytes m" and "\<And>x. keeps_tiling bytes (f x)"
  shows "keeps_tiling bytes (sec_bind m f)"
  unfolding keeps_tiling_def
proof (intro allI impI)
  fix s x s'' assume t: "tiled bytes s" and "sec_bind m f s = Inr (x, s'')"
  then obtain y s' where "m s = Inr (y, s')" "f y s' = Inr (x, s'')"
    by (auto simp: sec_bind_def res_bind_Inr_iff)
  with assms t show "tiled bytes s''" unfolding keeps_tiling_def by blast
qed

lemma keeps_tiling_if [intro]: "(\<And>x. keeps_tiling bytes (f x)) \<Longrightarrow> keeps_tiling bytes (track_if field f)"
  by (auto simp: track_if_def split: option.split)

lemma unat_saturating_sub: "unat (saturating_sub_u32 a b) = unat a - unat b"
  by (auto simp: saturating_sub_u32_def unat_sub word_le_nat_alt)

lemma aligned_after_align: "align 4 r = Inr ((), r') \<Longrightarrow> 4 dvd pos r'"
  by (auto simp: align_def seek_def Let_def split: if_splits) presburger

lemma keeps_tiling_section:
  assumes wb: "well_behaved parse" and len: "length bytes < 2 ^ 32"
  shows "keeps_tiling bytes (track_section name entries parse)"
  unfolding keeps_tiling_def
proof (intro allI impI)
  fix s x s' assume "tiled bytes s" and run: "track_section name entries parse s = Inr (x, s')"
  obtain r secs where s: "s = (r, secs)" by (cases s)
  with \<open>tiled bytes s\<close> have t: "data r = bytes" "pos r \<le> length bytes" "4 dvd pos r"
    "tiles secs 0 (pos r)" "\<forall>x \<in> set secs. 4 dvd unat (si_offset x)" by (auto simp: tiled_def)
  from run obtain r' where m: "rd_bind parse (\<lambda>x. rd_bind (align 4) (\<lambda>_. rd_ret x)) r = Inr (x, r')"
    and s': "s' = (r', secs @ [\<lparr>si_name = name, si_offset = of_nat (pos r),
      si_size = saturating_sub_u32 (of_nat (pos r')) (of_nat (pos r)), si_entries = entries\<rparr>])"
    by (auto simp: track_section_def s Let_def res_bind_Inr_iff)
  have "well_behaved (rd_bind parse (\<lambda>x. rd_bind (align 4) (\<lambda>_. rd_ret x)))" using wb by auto
  with m t(1,2) have r': "data r' = bytes" "pos r \<le> pos r'" "pos r' \<le> length bytes"
    unfolding well_behaved_def by blast+
  from m have "4 dvd pos r'" by (auto simp: rd_bind_Inr_iff rd_ret_def dest: aligned_after_align)
  with r' t len show "tiled bytes s'"
    by (auto simp: s' tiled_def tiles_append unat_saturating_sub unat_of_nat_less)
qed

lemma keeps_tiling_tables:
  assumes "length bytes < 2 ^ 32"
  shows "keeps_tiling bytes (parse_common_tables h)" "keeps_tiling bytes (parse_legacy_buffers h)"
    "keeps_tiling bytes (parse_modern_buffers h)" "keeps_tiling bytes (parse_trailing h)"
proof -
  note k = keeps_tiling_section[OF _ assms]
  show "keeps_tiling bytes (parse_common_tables h)"
    unfolding parse_common_tables_def by (intro keeps_tiling_bind keeps_tiling_ret k) simp_all
  have b: "keeps_tiling bytes (parse_bigints h)"
    unfolding parse_bigints_def by (auto split: option.split intro!: k)
  show "keeps_tiling bytes (parse_legacy_buffers h)" "keeps_tiling bytes (parse_modern_buffers h)"
    "keeps_tiling bytes (parse_trailing h)"
    unfolding parse_legacy_buffers_def parse_modern_buffers_def parse_trailing_def
    using b by (auto intro!: keeps_tiling_bind keeps_tiling_if k)
qed

section \<open>The tail\<close>

lemma tiles_push:
  assumes "tiles secs 0 (unat off)" and "off \<le> e"
  shows "tiles (push_section name off e secs) 0 (unat e)"
  using assms by (auto simp: push_section_def tiles_append unat_sub word_le_nat_alt word_less_nat_alt)

lemma tiles_push_tail:
  assumes t: "tiles secs 0 (unat start)" and len: "length bytes < 2 ^ 32"
    and start: "unat start + FOOTER_LEN \<le> length bytes"
  shows "tiles (push_tail_sections secs bytes start h headers) 0 (length bytes)"
proof -
  define fe :: u32 where "fe = of_nat (length bytes)"
  define fs where "fs = saturating_sub_u32 fe (of_nat FOOTER_LEN)"
  define bodies where "bodies = fold max (map (\<lambda>fh. saturating_add_u32 (fh_offset fh) (fh_bytecode_size fh)) headers) start"
  have fe: "unat fe = length bytes" using len by (simp add: fe_def unat_of_nat_less)
  have fs: "start \<le> fs" "fs \<le> fe" "unat fs = length bytes - 20"
    using start fe by (auto simp: fs_def word_le_nat_alt unat_saturating_sub FOOTER_LEN_def)
  have bodies: "start \<le> bodies" unfolding bodies_def
    by (simp only: Max.set_eq_fold[symmetric] Max_ge List.finite_set list.set_intros)
  have step: "tiles (push_section ''function_info'' (min bodies ts) ts
      (push_section ''bytecode'' start (min bodies ts) secs)) 0 (unat ts)" if "start \<le> ts" for ts
    using bodies that t by (intro tiles_push) auto
  show ?thesis
  proof (cases "debug_info_offset h = 0 \<or> debug_info_offset h = - 1 \<or> fs \<le> debug_info_offset h
      \<or> debug_info_offset h < start")
    case True
    then have "push_tail_sections secs bytes start h headers = push_section ''footer'' fs fe
        (push_section ''function_info'' (min bodies fs) fs (push_section ''bytecode'' start (min bodies fs) secs))"
      by (auto simp: push_tail_sections_def Let_def fe_def fs_def bodies_def)
    with tiles_push[OF step[OF fs(1)] fs(2)] fe show ?thesis by simp
  next
    case False
    let ?d = "debug_info_offset h"
    have d: "start \<le> ?d" "?d \<le> fs" using False by auto
    have "push_tail_sections secs bytes start h headers = push_section ''footer'' fs fe (push_section ''debug_info'' ?d fs
        (push_section ''function_info'' (min bodies ?d) ?d (push_section ''bytecode'' start (min bodies ?d) secs)))"
      using False by (auto simp: push_tail_sections_def Let_def fe_def fs_def bodies_def)
    with tiles_push[OF tiles_push[OF step[OF d(1)] d(2)] fs(2)] fe show ?thesis by simp
  qed
qed

section \<open>A parsed image\<close>

lemma same_data_headers [intro, simp]:
  "same_data (parse_legacy_header ver m hash)" "same_data (parse_modern_header ver m hash)"
  unfolding parse_legacy_header_def parse_modern_header_def read_if_def
  by (auto intro!: same_data_bind same_data_map split: prod.split)

lemma same_data_read_header: "same_data (read_header lay fn_lay)"
  unfolding read_header_def
  by (auto intro!: same_data_bind split: header_layout.split)

text \<open>What a successful parse went through.\<close>

lemma parse_with_layout_steps:
  assumes "parse_with_layout sha1 bytes lay fn_lay = Inr f"
  obtains h r0 r1 tables s1 buffers s2 trailing r secs strings invalid where
    "read_header lay fn_lay (new_reader bytes) = Inr (h, r0)"
    "rd_bind (seek HEADER_SIZE) (\<lambda>_. align 4) r0 = Inr ((), r1)"
    "parse_common_tables h (r1, [\<lparr>si_name = ''header'', si_offset = 0,
        si_size = of_nat HEADER_SIZE, si_entries = None\<rparr>]) = Inr (tables, s1)"
    "(case layout h of Legacy \<Rightarrow> parse_legacy_buffers h s1 | Modern \<Rightarrow> parse_modern_buffers h s1)
        = Inr (buffers, s2)"
    "parse_trailing h s2 = Inr (trailing, r, secs)"
    "decode_string_table (string_count h) (ct_string_kinds tables) (ct_small_string_table tables)
        (ct_overflow_string_table tables) (ct_string_storage tables) = Inr (strings, invalid)"
    "bf_header f = h" "bf_strings f = strings" "bf_instruction_offset f = of_nat (pos r)"
    "bf_instructions f = drop (unat (of_nat (pos r) :: u32)) bytes"
    "bf_function_headers f = ct_function_headers tables"
    "bf_sections f = push_tail_sections secs bytes (of_nat (pos r)) h (ct_function_headers tables)"
    "bf_diagnostics f = image_diagnostics sha1 bytes h invalid (bf_debug_info_status f)"
    "bf_raw_bytes f = Some bytes"
  using assms
  by (clarsimp simp: parse_with_layout_def parse_trailing_and_build_def res_bind_Inr_iff Let_def
      split: if_split_asm)

lemma parse_with_layout_sections:
  assumes "parse_with_layout sha1 bytes lay fn_lay = Inr f" and len: "length bytes < 2 ^ 32"
  obtains r secs where "bf_instruction_offset f = of_nat (pos r)" "tiled bytes (r, secs)"
    "bf_sections f = push_tail_sections secs bytes (of_nat (pos r)) (bf_header f) (bf_function_headers f)"
proof -
  from assms(1) obtain h r0 r1 tables s1 buffers s2 trailing r secs strings invalid where
    hd: "read_header lay fn_lay (new_reader bytes) = Inr (h, r0)"
    and al: "rd_bind (seek HEADER_SIZE) (\<lambda>_. align 4) r0 = Inr ((), r1)"
    and t1: "parse_common_tables h (r1, [\<lparr>si_name = ''header'', si_offset = 0,
        si_size = of_nat HEADER_SIZE, si_entries = None\<rparr>]) = Inr (tables, s1)"
    and t2: "(case layout h of Legacy \<Rightarrow> parse_legacy_buffers h s1 | Modern \<Rightarrow> parse_modern_buffers h s1)
        = Inr (buffers, s2)"
    and t3: "parse_trailing h s2 = Inr (trailing, r, secs)"
    and f: "bf_header f = h" "bf_instruction_offset f = of_nat (pos r)"
      "bf_function_headers f = ct_function_headers tables"
      "bf_sections f = push_tail_sections secs bytes (of_nat (pos r)) h (ct_function_headers tables)"
    by (rule parse_with_layout_steps)
  have "data r0 = bytes" using same_data_Inr[OF same_data_read_header hd] by (simp add: new_reader_def)
  then have "data r1 = bytes \<and> pos r1 = 128 \<and> pos r1 \<le> length bytes"
    using al by (auto simp: rd_bind_Inr_iff seek_def align_def HEADER_SIZE_def split: if_splits)
  then have "tiled bytes (r1, [\<lparr>si_name = ''header'', si_offset = 0,
        si_size = of_nat HEADER_SIZE, si_entries = None\<rparr>])"
    by (auto simp: tiled_def HEADER_SIZE_def)
  with t1 keeps_tiling_tables(1)[OF len] have "tiled bytes s1" unfolding keeps_tiling_def by blast
  moreover have "parse_legacy_buffers h s1 = Inr (buffers, s2) \<or> parse_modern_buffers h s1 = Inr (buffers, s2)"
    using t2 by (cases "layout h") simp_all
  ultimately have "tiled bytes s2" using keeps_tiling_tables(2,3)[OF len] unfolding keeps_tiling_def by blast
  with t3 keeps_tiling_tables(4)[OF len] have "tiled bytes (r, secs)" unfolding keeps_tiling_def by blast
  with f show thesis by (intro that) simp_all
qed

lemma parse_auto_cases:
  assumes "parse_auto sha1 bytes = Inr f"
  obtains lay fn_lay g where "parse_with_layout sha1 bytes lay fn_lay = Inr g"
    "bf_sections f = bf_sections g" "bf_instruction_offset f = bf_instruction_offset g"
    "bf_instructions f = bf_instructions g" "bf_raw_bytes f = bf_raw_bytes g"
proof -
  from assms obtain v where v: "peek_version bytes = Inr v"
    by (auto simp: parse_auto_def res_bind_Inr_iff)
  define other where "other = (if fst (implied_layout v) = Modern then (Legacy, Legacy16) else (Modern, Modern12))"
  show thesis
  proof (cases "parse_with_layout sha1 bytes (fst (implied_layout v)) (snd (implied_layout v))")
    case (Inr g)
    with assms v have "f = g" by (simp add: parse_auto_def Let_def)
    with Inr show thesis by (intro that) simp_all
  next
    case (Inl e)
    with assms v obtain g where "parse_with_layout sha1 bytes (fst other) (snd other) = Inr g"
      "f = g\<lparr>bf_diagnostics := bf_diagnostics g @ [LayoutFallback v (fst other) (fst (implied_layout v))]\<rparr>"
      unfolding parse_auto_def by (auto simp: Let_def simp flip: other_def split: sum.split_asm)
    then show thesis by (intro that) simp_all
  qed
qed

text \<open>C28: The sections recorded for a parsed image follow one another from byte zero to the
  end of the file: every byte belongs to exactly one of them, whatever the header and the
  function table declare, as long as the tables leave room for the footer.  The bytecode starts
  at a multiple of four, and the image keeps the bytes it was parsed from.\<close>

theorem sections_tile_image:
  assumes "parse_auto sha1 bytes = Inr f" and "length bytes < 2 ^ 32"
    and "unat (bf_instruction_offset f) + FOOTER_LEN \<le> length bytes"
  shows "tiles (bf_sections f) 0 (length bytes) \<and> 4 dvd unat (bf_instruction_offset f)
    \<and> bf_instructions f = drop (unat (bf_instruction_offset f)) bytes
    \<and> bf_raw_bytes f = Some bytes"
proof -
  from assms(1) obtain lay fn_lay g where g: "parse_with_layout sha1 bytes lay fn_lay = Inr g"
    and same: "bf_sections f = bf_sections g" "bf_instruction_offset f = bf_instruction_offset g"
      "bf_instructions f = bf_instructions g" "bf_raw_bytes f = bf_raw_bytes g"
    by (rule parse_auto_cases)
  from g assms(2) obtain r secs where off: "bf_instruction_offset g = of_nat (pos r)"
    and t: "tiled bytes (r, secs)"
    and s: "bf_sections g = push_tail_sections secs bytes (of_nat (pos r)) (bf_header g) (bf_function_headers g)"
    by (rule parse_with_layout_sections)
  have u: "unat (of_nat (pos r) :: u32) = pos r" "4 dvd pos r" "tiles secs 0 (pos r)"
    using t assms(2) by (auto simp: tiled_def unat_of_nat_less)
  have "bf_instructions g = drop (unat (bf_instruction_offset g)) bytes \<and> bf_raw_bytes g = Some bytes"
    using g by (elim parse_with_layout_steps) simp
  with tiles_push_tail[of secs "of_nat (pos r)" bytes] u assms(2,3) show ?thesis
    by (simp add: same s off)
qed

end
