(* ===== verification/Suffix_Array.thy ===== *)
theory Suffix_Array
  imports Hbc_Prelude
begin

text \<open>
  The suffix array by induced sorting of \<open>write/patch/string_storage.rs\<close>, loop by loop: the
  mutable arrays are lists passed along, an update is a list update, the constant \<open>NONE\<close> of
  the code is \<open>usize_max\<close>.  The code indexes with values it has just stored; on the texts
  it is called with (a final 0 that occurs nowhere else, every symbol below \<open>k\<close>) those
  indexes are in range.
\<close>

definition NONE :: nat where "NONE = usize_max"

fun stypes :: "nat list \<Rightarrow> bool list" where
  "stypes [] = []"
| "stypes [x] = [True]"
| "stypes (x # y # zs) = (let ts = stypes (y # zs) in (x < y \<or> (x = y \<and> hd ts)) # ts)"

definition lms :: "bool list \<Rightarrow> nat \<Rightarrow> bool" where
  "lms st i \<longleftrightarrow> 0 < i \<and> st ! i \<and> \<not> st ! (i - 1)"

definition bucket_counts :: "nat list \<Rightarrow> nat \<Rightarrow> nat list" where
  "bucket_counts s k = fold (\<lambda>c cnt. cnt[c := cnt ! c + 1]) s (replicate k 0)"

definition bucket_heads :: "nat list \<Rightarrow> nat \<Rightarrow> nat list" where
  "bucket_heads cnt k = map (\<lambda>c. sum_list (take c cnt)) [0..<k]"

definition bucket_tails :: "nat list \<Rightarrow> nat \<Rightarrow> nat list" where
  "bucket_tails cnt k = map (\<lambda>c. sum_list (take (Suc c) cnt)) [0..<k]"

definition induce_l :: "nat list \<Rightarrow> bool list \<Rightarrow> nat \<Rightarrow> nat list \<times> nat list \<Rightarrow> nat list \<times> nat list" where
  "induce_l s st i = (\<lambda>(sa, h).
     let j = sa ! i in
     if j \<noteq> NONE \<and> 0 < j \<and> \<not> st ! (j - 1)
     then let c = s ! (j - 1) in (sa[h ! c := j - 1], h[c := h ! c + 1]) else (sa, h))"

definition induce_s :: "nat list \<Rightarrow> bool list \<Rightarrow> nat \<Rightarrow> nat list \<times> nat list \<Rightarrow> nat list \<times> nat list" where
  "induce_s s st i = (\<lambda>(sa, t).
     let j = sa ! i in
     if j \<noteq> NONE \<and> 0 < j \<and> st ! (j - 1)
     then let c = s ! (j - 1); t = t[c := t ! c - 1] in (sa[t ! c := j - 1], t) else (sa, t))"

definition induce :: "nat list \<Rightarrow> bool list \<Rightarrow> nat list \<Rightarrow> nat \<Rightarrow> nat list \<Rightarrow> nat list" where
  "induce s st cnt k sa =
     (let (sa, h) = fold (induce_l s st) [0..<length s] (sa, bucket_heads cnt k);
          (sa, t) = fold (induce_s s st) (rev [0..<length s]) (sa, bucket_tails cnt k) in sa)"

text \<open>Dropping positions at the tails of their buckets.\<close>

definition drop_at_tail :: "nat list \<Rightarrow> nat \<Rightarrow> nat list \<times> nat list \<Rightarrow> nat list \<times> nat list" where
  "drop_at_tail s p = (\<lambda>(sa, t).
     let t = t[s ! p := t ! (s ! p) - 1] in (sa[t ! (s ! p) := p], t))"

text \<open>Whether the LMS substrings at \<open>p\<close> and \<open>prev\<close> differ, from distance \<open>d\<close> on.\<close>

function lms_differ :: "nat list \<Rightarrow> bool list \<Rightarrow> nat \<Rightarrow> nat \<Rightarrow> nat \<Rightarrow> bool" where
  "lms_differ s st p prev d =
     (if length s \<le> p + d \<or> length s \<le> prev + d \<or> s ! (p + d) \<noteq> s ! (prev + d)
         \<or> st ! (p + d) \<noteq> st ! (prev + d) then True
      else if 0 < d \<and> lms st (p + d) then False
      else lms_differ s st p prev (d + 1))"
  by pat_completeness auto
termination by (relation "measure (\<lambda>(s, st, p, prev, d). length s - d)") auto

declare lms_differ.simps [simp del]

definition gather_lms :: "bool list \<Rightarrow> nat \<Rightarrow> nat list \<times> nat \<Rightarrow> nat list \<times> nat" where
  "gather_lms st i = (\<lambda>(sa, m). if lms st (sa ! i) then (sa[m := sa ! i], m + 1) else (sa, m))"

definition name_lms :: "nat list \<Rightarrow> bool list \<Rightarrow> nat \<Rightarrow> nat \<Rightarrow> nat list \<times> nat \<times> nat \<Rightarrow> nat list \<times> nat \<times> nat" where
  "name_lms s st m i = (\<lambda>(sa, name, prev).
     let p = sa ! i;
         differ = (prev = NONE \<or> lms_differ s st p prev 0);
         name = (if differ then name + 1 else name);
         prev = (if differ then p else prev) in
     (sa[m + p div 2 := name - 1], name, prev))"

text \<open>Steps 1 and 2: sorted LMS positions, their number, the reduced string and its alphabet.\<close>

definition reduce_lms :: "nat list \<Rightarrow> nat \<Rightarrow> nat \<times> nat list \<times> nat" where
  "reduce_lms s k =
     (let n = length s; st = stypes s; cnt = bucket_counts s k;
          lms_ps = filter (lms st) [0..<n];
          (sa, t) = fold (drop_at_tail s) (rev lms_ps) (replicate n NONE, bucket_tails cnt k);
          sa = induce s st cnt k sa;
          (sa, m) = fold (gather_lms st) [0..<n] (sa, 0);
          sa = take m sa @ replicate (n - m) NONE;
          (sa, name, prev) = fold (name_lms s st m) [0..<m] (sa, 0, NONE) in
      (m, filter (\<lambda>x. x \<noteq> NONE) (drop m sa), name))"

text \<open>Step 4: the sorted LMS suffixes placed, the rest induced.\<close>

definition place_sorted :: "nat list \<Rightarrow> nat \<Rightarrow> nat list \<Rightarrow> nat list" where
  "place_sorted s k order =
     (let n = length s; st = stypes s; cnt = bucket_counts s k;
          positions = filter (lms st) [0..<n];
          (sa, t) = fold (\<lambda>i. drop_at_tail s (positions ! i)) (rev order)
                      (replicate n NONE, bucket_tails cnt k) in
      induce s st cnt k sa)"

lemma length_fold_fst:
  "(\<And>x a b. length (fst (f x (a, b))) = length a) \<Longrightarrow> length (fst (fold f xs (a, b))) = length a"
proof (induction xs arbitrary: a b)
  case Nil
  then show ?case by simp
next
  case (Cons x xs)
  then show ?case by (metis fold_simps(2) surj_pair fst_conv)
qed

lemma length_name_lms: "length (fst (fold (name_lms s st m) is (sa, x))) = length sa"
  by (rule length_fold_fst) (simp add: name_lms_def Let_def split_beta)

lemma gather_lms_bound: "snd (fold (gather_lms st) is (sa, m)) \<le> m + length is"
proof (induction "is" arbitrary: sa m)
  case Nil
  then show ?case by simp
next
  case (Cons i "is")
  then show ?case
    using Cons.IH[of "sa[m := sa ! i]" "m + 1"] Cons.IH[of sa m]
    by (simp add: gather_lms_def le_SucI)
qed

lemma length_gather: "length (fst (fold (gather_lms st) is (sa, m))) = length sa"
  by (rule length_fold_fst) (simp add: gather_lms_def)

lemma length_induce: "length (induce s st cnt k sa) = length sa"
proof -
  have "length (fst (fold (induce_l s st) is p)) = length (fst p)" for "is" p
    using length_fold_fst[of "induce_l s st" "is" "fst p" "snd p"] by (simp add: induce_l_def Let_def)
  moreover have "length (fst (fold (induce_s s st) is p)) = length (fst p)" for "is" p
    using length_fold_fst[of "induce_s s st" "is" "fst p" "snd p"] by (simp add: induce_s_def Let_def)
  ultimately show ?thesis by (simp add: induce_def split_beta)
qed

lemma length_drop_at_tail: "length (fst (fold (drop_at_tail s) ps p)) = length (fst p)"
  using length_fold_fst[of "drop_at_tail s" ps "fst p" "snd p"] by (simp add: drop_at_tail_def Let_def)

text \<open>The reduced string is shorter: the recursion ends.\<close>

lemma reduce_lms_shorter:
  assumes "reduce_lms s k = (m, reduced, name)" and "name < m"
  shows "length reduced < length s"
proof -
  let ?n = "length s" and ?st = "stypes s" and ?cnt = "bucket_counts s k"
  let ?sa1 = "induce s ?st ?cnt k (fst (fold (drop_at_tail s) (rev (filter (lms ?st) [0..<?n]))
      (replicate ?n NONE, bucket_tails ?cnt k)))"
  let ?g = "fold (gather_lms ?st) [0..<?n] (?sa1, 0)"
  have n: "length ?sa1 = ?n" by (simp add: length_induce length_drop_at_tail)
  have m: "m = snd ?g" and r: "reduced = filter (\<lambda>x. x \<noteq> NONE) (drop m (fst (fold (name_lms s ?st m) [0..<m]
      (take m (fst ?g) @ replicate (?n - m) NONE, 0, NONE))))"
    using assms(1) by (auto simp: reduce_lms_def Let_def split_beta)
  have "m \<le> ?n" using gather_lms_bound[of ?st "[0..<?n]" ?sa1 0] by (simp add: m)
  then have "length (drop m (fst (fold (name_lms s ?st m) [0..<m]
      (take m (fst ?g) @ replicate (?n - m) NONE, 0, NONE)))) = ?n - m"
    by (simp add: length_name_lms length_gather n)
  then have "length reduced \<le> ?n - m" unfolding r using length_filter_le by (metis (no_types, lifting))
  with assms(2) \<open>m \<le> ?n\<close> show ?thesis by simp
qed

function suffix_array :: "nat list \<Rightarrow> nat \<Rightarrow> nat list" where
  "suffix_array s k =
     (if length s = 1 then [0]
      else case reduce_lms s k of (m, reduced, name) \<Rightarrow>
        place_sorted s k
          (if name < m then suffix_array reduced name
           else fold (\<lambda>(i, x) order. order[x := i]) (enumerate 0 reduced) (replicate m 0)))"
  by pat_completeness auto
termination
  by (relation "measure (\<lambda>(s, k). length s)") (auto dest!: reduce_lms_shorter[OF sym])

declare suffix_array.simps [simp del]

end
