(* ===== verification/String_Storage.thy ===== *)
theory String_Storage
  imports Suffix_Array Image_Parser
begin

text \<open>
  How string storage is laid out when a write rebuilds it, and the check that every entry
  still reads back (\<open>crates/hbc-decomp/src/write/patch/string_storage.rs\<close>).  The buffers
  \<open>storage\<close> and \<open>offsets\<close> the code passes by reference are a pair.  Following the containers
  of a text (\<open>while placed[at].is_none()\<close>) takes the number of texts as fuel: \<open>None\<close> is a
  run that panics or does not end.
\<close>

section \<open>Strings as stored\<close>

record stored_string =
  ss_bytes :: "u8 list"
  ss_len_field :: u32
  ss_is_utf16 :: bool

definition encode_stored :: "rust_string \<Rightarrow> stored_string" where
  "encode_stored s =
     (if list_ex (\<lambda>b. 0x7f < b) (utf8_bytes s)
      then let units = encode_utf16 s in
        \<lparr>ss_bytes = u16_bytes units, ss_len_field = of_nat (length units), ss_is_utf16 = True\<rparr>
      else \<lparr>ss_bytes = utf8_bytes s, ss_len_field = of_nat (length (utf8_bytes s)), ss_is_utf16 = False\<rparr>)"

definition section_offset :: "bytecode_file \<Rightarrow> string \<Rightarrow> u32 option" where
  "section_offset file name = map_option si_offset (find (\<lambda>s. si_name s = name) (bf_sections file))"

record str_loc =
  loc_storage_off :: u32
  loc_len_field :: u32
  loc_is_utf16 :: bool

definition loc_byte_len :: "str_loc \<Rightarrow> nat" where
  "loc_byte_len loc = unat (loc_len_field loc) * (if loc_is_utf16 loc then 2 else 1)"

text \<open>The overflow records of a file; \<open>zip\<close> of two options is both or nothing.\<close>

definition overflow_record :: "u8 list \<Rightarrow> nat \<Rightarrow> (u32 \<times> u32) option" where
  "overflow_record raw p =
     (case (u32_slice raw p, u32_slice raw (p + 4)) of (Some a, Some b) \<Rightarrow> Some (a, b) | _ \<Rightarrow> None)"

definition read_overflow :: "bytecode_file \<Rightarrow> u8 list \<Rightarrow> (u32 \<times> u32) list result" where
  "read_overflow file raw =
     (let records = unat (overflow_string_count (bf_header file)) in
      case section_offset file ''overflow_string_table'' of
        Some base \<Rightarrow> ok_or (those (map (\<lambda>i. overflow_record raw (unat base + i * 8)) [0..<records]))
                      (Write ''overflow string table OOB'' [])
      | None \<Rightarrow> if records = 0 then Inr [] else Inl (Write ''overflow string table missing'' []))"

definition string_loc :: "u8 list \<Rightarrow> nat \<Rightarrow> (u32 \<times> u32) list \<Rightarrow> nat \<Rightarrow> str_loc result" where
  "string_loc raw small_off overflow i =
     res_bind (ok_or (u32_slice raw (small_off + i * 4)) (Write ''small string table OOB'' [])) (\<lambda>raw_e.
     let entry = entry_decode raw_e in
     res_bind (ok_or (entry_resolve entry overflow)
       (Write ''string {i}: overflow record {} missing'' [fnat i, fword (se_offset entry)])) (\<lambda>(off, len).
     Inr \<lparr>loc_storage_off = off, loc_len_field = len, loc_is_utf16 = se_is_utf16 entry\<rparr>))"

definition read_all_string_locs :: "bytecode_file \<Rightarrow> str_loc list result" where
  "read_all_string_locs file =
     res_bind (ok_or (bf_raw_bytes file) (Write ''no raw_bytes'' [])) (\<lambda>raw.
     res_bind (ok_or (section_offset file ''small_string_table'')
       (Write ''small_string_table section missing'' [])) (\<lambda>small_off.
     res_bind (read_overflow file raw) (\<lambda>overflow.
     res_map (string_loc raw (unat small_off) overflow) [0..<length (bf_strings file)])))"

definition stored_at :: "u8 list \<Rightarrow> nat \<Rightarrow> str_loc \<Rightarrow> stored_string result" where
  "stored_at raw storage_off loc =
     (let start = storage_off + unat (loc_storage_off loc) in
      res_bind (ok_or (get_range raw start (start + loc_byte_len loc)) (Write ''string storage OOB'' []))
        (\<lambda>bytes. Inr \<lparr>ss_bytes = bytes, ss_len_field = loc_len_field loc, ss_is_utf16 = loc_is_utf16 loc\<rparr>))"

definition current_strings :: "bytecode_file \<Rightarrow> stored_string list result" where
  "current_strings file =
     res_bind (ok_or (bf_raw_bytes file) (Write ''no raw_bytes'' [])) (\<lambda>raw.
     res_bind (ok_or (section_offset file ''string_storage'') (Write ''string_storage section missing'' []))
       (\<lambda>storage_off.
     res_bind (read_all_string_locs file) (\<lambda>locs. res_map (stored_at raw (unat storage_off)) locs)))"

section \<open>Texts contained in other texts\<close>

text \<open>The symbols of a text: units shifted past the sentinel 0 and the separator 1.\<close>

definition text_units :: "bool \<Rightarrow> u8 list \<Rightarrow> nat list" where
  "text_units utf16 bytes =
     (if utf16 then map (\<lambda>u. unat u + 2) (u16_chunks bytes) else map (\<lambda>b. unat b + 2) bytes)"

definition joined_text :: "bool \<Rightarrow> u8 list list \<Rightarrow> nat list" where
  "joined_text utf16 reps = concat (map (\<lambda>r. text_units utf16 r @ [1]) reps) @ [0]"

definition text_starts :: "bool \<Rightarrow> u8 list list \<Rightarrow> nat list" where
  "text_starts utf16 reps =
     map (\<lambda>i. length (concat (map (\<lambda>r. text_units utf16 r @ [1]) (take i reps)))) [0..<length reps]"

definition rank_of :: "nat list \<Rightarrow> nat list" where
  "rank_of sa = fold (\<lambda>(i, p) rank. rank[p := i]) (enumerate 0 sa) (replicate (length sa) 0)"

text \<open>\<open>starts.partition_point(|&s| s <= pos) - 1\<close>.\<close>

definition owner :: "nat list \<Rightarrow> nat \<Rightarrow> nat" where
  "owner starts p = length (takeWhile (\<lambda>s. s \<le> p) starts) - 1"

definition container_of ::
  "bool \<Rightarrow> u8 list list \<Rightarrow> nat list \<Rightarrow> nat list \<Rightarrow> nat list \<Rightarrow> nat list \<Rightarrow> nat \<Rightarrow> (nat \<times> nat) option" where
  "container_of utf16 reps txt starts sa rank r =
     (let unit = (if utf16 then 2 else 1); start = starts ! r; n = length (reps ! r) div unit;
          own = take n (drop start txt); at = rank ! start;
          neighbours = (if at = 0 then [] else [at - 1]) @ [at + 1];
          candidates = map (nth sa) (filter (\<lambda>j. j < length sa) neighbours) in
      map_option (\<lambda>q. let c = owner starts q in (c, (q - starts ! c) * unit))
        (find (\<lambda>q. get_range txt q (q + n) = Some own) candidates))"

definition containers :: "u8 list list \<Rightarrow> bool \<Rightarrow> (nat \<times> nat) option list" where
  "containers reps utf16 =
     (let txt = joined_text utf16 reps; starts = text_starts utf16 reps;
          alphabet = fold max txt 0 + 1; sa = suffix_array txt alphabet; rank = rank_of sa in
      map (container_of utf16 reps txt starts sa rank) [0..<length reps])"

section \<open>Packing a group\<close>

definition index_of :: "'a \<Rightarrow> 'a list \<Rightarrow> nat option" where
  "index_of x xs = (let n = length (takeWhile (\<lambda>y. y \<noteq> x) xs) in if n < length xs then Some n else None)"

text \<open>The distinct non-empty texts in order of appearance, and the text of each id.\<close>

definition distinct_text ::
  "stored_string list \<Rightarrow> nat \<Rightarrow> u8 list list \<times> (nat \<times> nat option) list \<Rightarrow> u8 list list \<times> (nat \<times> nat option) list" where
  "distinct_text strings sid = (\<lambda>(reps, of_ids).
     let bytes = ss_bytes (strings ! sid) in
     if bytes = [] then (reps, of_ids @ [(sid, None)])
     else case index_of bytes reps of
       Some r \<Rightarrow> (reps, of_ids @ [(sid, Some r)])
     | None \<Rightarrow> (reps @ [bytes], of_ids @ [(sid, Some (length reps))]))"

definition place_root ::
  "(nat \<times> nat) option list \<Rightarrow> nat \<times> u8 list \<Rightarrow> u8 list \<times> u32 option list \<Rightarrow> u8 list \<times> u32 option list" where
  "place_root parent = (\<lambda>(r, txt) (storage, placed).
     if parent ! r = None then (storage @ txt, placed[r := Some (of_nat (length storage))])
     else (storage, placed))"

text \<open>The offset of a text through its chain of containers, the placements of the chain
  recorded on the way back.\<close>

fun place_chain ::
  "(nat \<times> nat) option list \<Rightarrow> nat \<Rightarrow> nat \<Rightarrow> u32 option list \<Rightarrow> (u32 \<times> u32 option list) option" where
  "place_chain parent fuel r placed =
     (case placed ! r of
        Some off \<Rightarrow> Some (off, placed)
      | None \<Rightarrow>
          (case (fuel, parent ! r) of
             (Suc fuel', Some (c, d)) \<Rightarrow>
               (case place_chain parent fuel' c placed of
                  None \<Rightarrow> None
                | Some (base, placed) \<Rightarrow>
                    let off = base + of_nat d in Some (off, placed[r := Some off]))
           | _ \<Rightarrow> None))"

declare place_chain.simps [simp del]

definition place_all :: "(nat \<times> nat) option list \<Rightarrow> u32 option list \<Rightarrow> u32 option list option" where
  "place_all parent placed =
     fold (\<lambda>r acc. Option.bind acc (\<lambda>placed. map_option snd (place_chain parent (length parent) r placed)))
       [0..<length parent] (Some placed)"

type_synonym layout_state = "u8 list \<times> u32 list"

definition pack_contained :: "stored_string list \<Rightarrow> nat list \<Rightarrow> layout_state \<Rightarrow> layout_state option" where
  "pack_contained strings ids = (\<lambda>(storage, offsets).
     let (reps, of_ids) = fold (distinct_text strings) ids ([], []);
         utf16 = (case ids of sid # _ \<Rightarrow> ss_is_utf16 (strings ! sid) | [] \<Rightarrow> False);
         parent = containers reps utf16;
         (storage, placed) = fold (place_root parent) (enumerate 0 reps) (storage, replicate (length reps) None) in
     map_option (\<lambda>placed. (storage,
         fold (\<lambda>(sid, r) offsets. offsets[sid := (case r of None \<Rightarrow> of_nat (length storage) | Some r \<Rightarrow> the (placed ! r))])
           of_ids offsets))
       (place_all parent placed))"

definition write_fresh :: "stored_string list \<Rightarrow> nat \<Rightarrow> layout_state \<Rightarrow> layout_state" where
  "write_fresh strings sid = (\<lambda>(storage, offsets).
     (storage @ ss_bytes (strings ! sid), offsets[sid := of_nat (length storage)]))"

datatype packing = Packed | Unpacked

definition pack_group ::
  "stored_string list \<Rightarrow> nat list \<Rightarrow> nat set \<Rightarrow> packing \<Rightarrow> layout_state \<Rightarrow> layout_state option" where
  "pack_group strings ids pinned packing st =
     (let shared = filter (\<lambda>sid. sid \<notin> pinned) ids; private_ids = filter (\<lambda>sid. sid \<in> pinned) ids in
      map_option (fold (write_fresh strings) private_ids)
        (case packing of
           Unpacked \<Rightarrow> Some (fold (write_fresh strings) shared st)
         | Packed \<Rightarrow> pack_contained strings shared st))"

section \<open>The layout\<close>

record string_layout =
  sl_small :: "u32 list"
  sl_overflow :: "(u32 \<times> u32) list"
  sl_storage :: "u8 list"

definition lay_out_half ::
  "stored_string list \<Rightarrow> nat set \<Rightarrow> packing \<Rightarrow> bool \<Rightarrow> layout_state \<Rightarrow> layout_state option" where
  "lay_out_half strings pinned packing utf16 = (\<lambda>(storage, offsets).
     let ids = filter (\<lambda>i. ss_is_utf16 (strings ! i) = utf16) [0..<length strings] in
     if ids = [] then Some (storage, offsets)
     else pack_group strings ids pinned packing
            (if utf16 \<and> length storage mod 2 \<noteq> 0 then storage @ [0] else storage, offsets))"

text \<open>The small entries, and the overflow records numbered in table order.\<close>

fun table_entries :: "(stored_string \<times> u32) list \<Rightarrow> (u32 \<times> u32) list \<Rightarrow> u32 list \<times> (u32 \<times> u32) list" where
  "table_entries [] overflow = ([], overflow)"
| "table_entries ((s, off) # rest) overflow =
     (let (entry, needs_record) =
            entry_for_string (ss_is_utf16 s) off (ss_len_field s) (of_nat (length overflow));
          overflow = (if needs_record then overflow @ [(off, ss_len_field s)] else overflow);
          (small, overflow) = table_entries rest overflow in
      (entry_encode entry # small, overflow))"

definition lay_out :: "stored_string list \<Rightarrow> nat set \<Rightarrow> packing \<Rightarrow> string_layout result option" where
  "lay_out strings pinned packing =
     map_option (\<lambda>(storage, offsets).
         let (small, overflow) = table_entries (zip strings offsets) [] in
         if 2 ^ 32 \<le> length storage then Inl (Write ''string storage larger than 4 GiB'' [])
         else Inr \<lparr>sl_small = small, sl_overflow = overflow, sl_storage = storage\<rparr>)
       (Option.bind (lay_out_half strings pinned packing False ([], replicate (length strings) 0))
         (lay_out_half strings pinned packing True))"

section \<open>The check after a write\<close>

definition loc_range :: "str_loc list \<Rightarrow> nat \<Rightarrow> nat \<times> nat" where
  "loc_range locs i =
     (let s = unat (loc_storage_off (locs ! i)) in (s, s + loc_byte_len (locs ! i)))"

definition shares_storage :: "str_loc list \<Rightarrow> nat \<Rightarrow> nat \<Rightarrow> bool" where
  "shares_storage locs p i \<longleftrightarrow>
     (let (ps, pe) = loc_range locs p; (s, e) = loc_range locs i in
      i \<noteq> p \<and> s < e \<and> s < pe \<and> ps < e)"

text \<open>The first pinned id, in increasing order, that shares storage with another entry.\<close>

definition pinned_check :: "str_loc list \<Rightarrow> nat \<Rightarrow> unit result" where
  "pinned_check locs p =
     (let (ps, pe) = loc_range locs p in
      if ps = pe then Inr ()
      else case find (shares_storage locs p) [0..<length locs] of
        Some other \<Rightarrow> Inl (Write ''string validation: pinned entry {p} shares storage with entry {other}''
                        [fnat p, fnat other])
      | None \<Rightarrow> Inr ())"

definition stored_mismatch :: "nat \<Rightarrow> stored_string \<Rightarrow> stored_string \<Rightarrow> error" where
  "stored_mismatch sid got expected =
     Write ''string validation: entry {id} reads back as {:?} (utf16={}, len={}) but should be {:?} (utf16={}, len={})''
       [fnat sid, FText (from_utf8_lossy (ss_bytes got)), FNum (of_bool (ss_is_utf16 got)), fword (ss_len_field got),
        FText (from_utf8_lossy (ss_bytes expected)), FNum (of_bool (ss_is_utf16 expected)), fword (ss_len_field expected)]"

definition validate :: "bytecode_file \<Rightarrow> stored_string list \<Rightarrow> nat set \<Rightarrow> unit result" where
  "validate after expected pinned =
     res_bind (current_strings after) (\<lambda>got.
     if length got \<noteq> length expected
     then Inl (Write ''string validation: {} entries written, {} expected'' [fnat (length got), fnat (length expected)])
     else case find (\<lambda>i. got ! i \<noteq> expected ! i) [0..<length got] of
       Some sid \<Rightarrow> Inl (stored_mismatch sid (got ! sid) (expected ! sid))
     | None \<Rightarrow>
         if pinned = {} then Inr ()
         else res_bind (read_all_string_locs after) (\<lambda>locs.
              res_bind (res_map (pinned_check locs) (sorted_list_of_set pinned)) (\<lambda>_. Inr ())))"

end
