(* ===== verification/String_Layout.thy ===== *)
theory String_Layout
  imports String_Storage
begin

text \<open>
  What a layout promises: every string has its bytes where its entry says.  A packing of a
  group is judged by one contract, \<open>places\<close>: it only appends to the storage, moves no other
  string, and leaves each of its own strings readable at its offset.
\<close>

section \<open>The contract of a packing\<close>

definition held :: "u8 list \<Rightarrow> u32 \<Rightarrow> u8 list \<Rightarrow> bool" where
  "held storage off bytes \<longleftrightarrow> get_range storage (unat off) (unat off + length bytes) = Some bytes"

lemma held_append: "held storage off bytes \<Longrightarrow> held (storage @ ext) off bytes"
  by (auto simp: held_def get_range_def split: if_splits)

lemma held_end: "length storage < 2 ^ 32 \<Longrightarrow> held (storage @ bytes @ ext) (of_nat (length storage)) bytes"
  by (simp add: held_def get_range_def unat_of_nat_less)

definition places :: "stored_string list \<Rightarrow> nat set \<Rightarrow> (layout_state \<Rightarrow> layout_state option) \<Rightarrow> bool" where
  "places strings ids m \<longleftrightarrow>
     (\<forall>storage offsets storage' offsets'.
        m (storage, offsets) = Some (storage', offsets') \<longrightarrow> length offsets = length strings \<longrightarrow>
        (\<exists>ext. storage' = storage @ ext) \<and> length offsets' = length strings
        \<and> (\<forall>i. i \<notin> ids \<longrightarrow> offsets' ! i = offsets ! i)
        \<and> (length storage' < 2 ^ 32 \<longrightarrow>
             (\<forall>i \<in> ids. i < length strings \<longrightarrow> held storage' (offsets' ! i) (ss_bytes (strings ! i)))))"

lemma placesD:
  assumes "places strings ids m" "m (storage, offsets) = Some (storage', offsets')" "length offsets = length strings"
  shows "\<exists>ext. storage' = storage @ ext" "length offsets' = length strings"
    "i \<notin> ids \<Longrightarrow> offsets' ! i = offsets ! i"
    "length storage' < 2 ^ 32 \<Longrightarrow> i \<in> ids \<Longrightarrow> i < length strings
       \<Longrightarrow> held storage' (offsets' ! i) (ss_bytes (strings ! i))"
  using assms unfolding places_def by blast+

lemma places_Some [intro, simp]: "places strings {} Some"
  by (simp add: places_def)

lemma places_bind:
  assumes A: "places strings A m" and B: "places strings B n" and disj: "A \<inter> B = {}"
  shows "places strings (A \<union> B) (\<lambda>st. Option.bind (m st) n)"
  unfolding places_def
proof (intro allI impI)
  fix s p s2 p2
  assume run: "Option.bind (m (s, p)) n = Some (s2, p2)" and len: "length p = length strings"
  then obtain s1 p1 where 1: "m (s, p) = Some (s1, p1)" and 2: "n (s1, p1) = Some (s2, p2)"
    by (auto simp: Option.bind_eq_Some_conv)
  note a = placesD[OF A 1 len]
  note b = placesD[OF B 2 a(2)]
  from a(1) b(1) obtain e1 e2 where e: "s1 = s @ e1" "s2 = s1 @ e2" by blast
  have "held s2 (p2 ! i) (ss_bytes (strings ! i))"
    if "length s2 < 2 ^ 32" "i \<in> A \<union> B" "i < length strings" for i
  proof (cases "i \<in> B")
    case True
    with b(4) that show ?thesis by blast
  next
    case False
    with that have "held s1 (p1 ! i) (ss_bytes (strings ! i))" using e by (intro a(4)) auto
    with b(3)[OF False] show ?thesis unfolding e(2) by (simp add: held_append)
  qed
  with a(3) b(2,3) e show "(\<exists>ext. s2 = s @ ext) \<and> length p2 = length strings
      \<and> (\<forall>i. i \<notin> A \<union> B \<longrightarrow> p2 ! i = p ! i)
      \<and> (length s2 < 2 ^ 32 \<longrightarrow> (\<forall>i \<in> A \<union> B. i < length strings \<longrightarrow> held s2 (p2 ! i) (ss_bytes (strings ! i))))"
    by auto
qed

lemma places_fresh: "places strings {sid} (\<lambda>st. Some (write_fresh strings sid st))"
  by (auto simp: places_def write_fresh_def nth_list_update held_end[where ext = "[]", simplified])

lemma places_fresh_all:
  "distinct ids \<Longrightarrow> places strings (set ids) (\<lambda>st. Some (fold (write_fresh strings) ids st))"
proof (induction ids)
  case Nil
  then show ?case by simp
next
  case (Cons sid ids)
  then show ?case
    using places_bind[OF places_fresh[of strings sid], of "set ids" "\<lambda>st. Some (fold (write_fresh strings) ids st)"]
    by simp
qed

text \<open>A half is packed by its group, after at most one byte of padding.\<close>

lemma places_pad:
  assumes "places strings ids m"
  shows "places strings ids (\<lambda>(storage, offsets). m (storage @ pad storage, offsets))"
  unfolding places_def
proof (clarify, goal_cases)
  case (1 s p s1 p1)
  from placesD[OF assms 1] show ?case by auto
qed

lemma places_group_unpacked:
  assumes "distinct ids"
  shows "places strings (set ids) (pack_group strings ids pinned Unpacked)"
proof -
  have "places strings ({i \<in> set ids. i \<notin> pinned} \<union> {i \<in> set ids. i \<in> pinned})
      (\<lambda>st. Option.bind (Some (fold (write_fresh strings) (filter (\<lambda>i. i \<notin> pinned) ids) st))
         (\<lambda>st. Some (fold (write_fresh strings) (filter (\<lambda>i. i \<in> pinned) ids) st)))"
    using assms places_fresh_all[of "filter (\<lambda>i. i \<notin> pinned) ids" strings]
      places_fresh_all[of "filter (\<lambda>i. i \<in> pinned) ids" strings]
    by (intro places_bind) auto
  moreover have "{i \<in> set ids. i \<notin> pinned} \<union> {i \<in> set ids. i \<in> pinned} = set ids" by auto
  ultimately show ?thesis by (simp add: pack_group_def Let_def places_def)
qed

definition half_ids :: "stored_string list \<Rightarrow> bool \<Rightarrow> nat list" where
  "half_ids strings utf16 = filter (\<lambda>i. ss_is_utf16 (strings ! i) = utf16) [0..<length strings]"

lemma places_half:
  assumes "places strings (set (half_ids strings utf16)) (pack_group strings (half_ids strings utf16) pinned packing)"
  shows "places strings (set (half_ids strings utf16)) (lay_out_half strings pinned packing utf16)"
proof (cases "half_ids strings utf16 = []")
  case True
  then show ?thesis by (simp add: lay_out_half_def half_ids_def Let_def places_def)
next
  case False
  have "lay_out_half strings pinned packing utf16 = (\<lambda>(storage, offsets).
      pack_group strings (half_ids strings utf16) pinned packing
        (storage @ (if utf16 \<and> length storage mod 2 \<noteq> 0 then [0] else []), offsets))"
    using False by (auto simp: lay_out_half_def half_ids_def Let_def)
  with places_pad[OF assms] show ?thesis by simp
qed

section \<open>The tables\<close>

lemma table_entries_length: "table_entries ps ov = (small, ov') \<Longrightarrow> length small = length ps"
  by (induction ps ov arbitrary: small ov' rule: table_entries.induct) (auto simp: Let_def split: prod.splits)

lemma table_entries_extends: "table_entries ps ov = (small, ov') \<Longrightarrow> \<exists>ext. ov' = ov @ ext"
  by (induction ps ov arbitrary: small ov' rule: table_entries.induct)
     (fastforce simp: Let_def split: prod.splits if_splits)+

lemma table_entries_resolve:
  assumes "table_entries ps ov = (small, ov')" and "length ov' \<le> 2 ^ 23" and "i < length ps"
  shows "entry_resolve (entry_decode (small ! i)) ov' = Some (snd (ps ! i), ss_len_field (fst (ps ! i)))
    \<and> se_is_utf16 (entry_decode (small ! i)) = ss_is_utf16 (fst (ps ! i))"
  using assms
proof (induction ps ov arbitrary: small ov' i rule: table_entries.induct)
  case (1 ov)
  then show ?case by simp
next
  case (2 s off rest ov)
  obtain e needs where e: "entry_for_string (ss_is_utf16 s) off (ss_len_field s) (of_nat (length ov)) = (e, needs)"
    by fastforce
  define ov1 where "ov1 = (if needs then ov @ [(off, ss_len_field s)] else ov)"
  obtain small1 where r: "table_entries rest ov1 = (small1, ov')" and small: "small = entry_encode e # small1"
    using 2(2) by (auto simp: e Let_def ov1_def split: prod.splits)
  obtain ext where ext: "ov' = ov1 @ ext" using table_entries_extends[OF r] by blast
  show ?case
  proof (cases i)
    case (Suc j)
    then show ?thesis using 2(1)[of "(e, needs)" e needs ov1 small1 ov' j] 2(3,4) r e
      by (simp add: small ov1_def)
  next
    case 0
    have "entry_resolve (entry_decode (entry_encode e)) ov' = Some (off, ss_len_field s)
      \<and> se_is_utf16 (entry_decode (entry_encode e)) = ss_is_utf16 s"
    proof (rule entry_choice_resolves[OF e])
      assume needs
      then have l: "length ov < 2 ^ 23" "ov' ! length ov = (off, ss_len_field s)" "length ov < length ov'"
        using 2(3) by (auto simp: ext ov1_def nth_append)
      then show "of_nat (length ov) < OFFSET_LIMIT \<and> unat (of_nat (length ov) :: u32) < length ov'
          \<and> ov' ! unat (of_nat (length ov) :: u32) = (off, ss_len_field s)"
        by (simp add: less_OFFSET_LIMIT unat_of_nat_less)
    qed
    with 0 show ?thesis by (simp add: small)
  qed
qed

section \<open>Readable layouts\<close>

definition readable :: "string_layout \<Rightarrow> stored_string list \<Rightarrow> bool" where
  "readable l strings \<longleftrightarrow>
     length (sl_small l) = length strings \<and>
     (\<forall>i < length strings. \<exists>off.
        entry_resolve (entry_decode (sl_small l ! i)) (sl_overflow l) = Some (off, ss_len_field (strings ! i))
        \<and> se_is_utf16 (entry_decode (sl_small l ! i)) = ss_is_utf16 (strings ! i)
        \<and> held (sl_storage l) off (ss_bytes (strings ! i)))"

lemma layout_readable:
  assumes group: "\<And>b. places strings (set (half_ids strings b)) (pack_group strings (half_ids strings b) pinned packing)"
    and run: "lay_out strings pinned packing = Some (Inr l)" and small: "length (sl_overflow l) \<le> 2 ^ 23"
  shows "readable l strings"
proof -
  let ?A = "set (half_ids strings False)" and ?B = "set (half_ids strings True)"
  have disj: "?A \<inter> ?B = {}" and all: "?A \<union> ?B = {..<length strings}" by (auto simp: half_ids_def)
  have p: "places strings (?A \<union> ?B) (\<lambda>st. Option.bind (lay_out_half strings pinned packing False st)
      (lay_out_half strings pinned packing True))"
    by (rule places_bind[OF places_half[OF group] places_half[OF group] disj])
  from run obtain storage offsets where
    h: "Option.bind (lay_out_half strings pinned packing False ([], replicate (length strings) 0))
         (lay_out_half strings pinned packing True) = Some (storage, offsets)"
    and l: "length storage < 2 ^ 32" "sl_storage l = storage"
      "table_entries (zip strings offsets) [] = (sl_small l, sl_overflow l)"
    unfolding lay_out_def by (fastforce split: prod.splits if_splits)
  note h = placesD[OF p h]
  have len: "length offsets = length strings" using h(2) by simp
  have "length (sl_small l) = length strings" using table_entries_length[OF l(3)] len by simp
  moreover have "held storage (offsets ! i) (ss_bytes (strings ! i))" if "i < length strings" for i
    using h(4)[of i] that l(1) by (auto simp: all)
  ultimately show ?thesis
    using table_entries_resolve[OF l(3) small] len by (simp add: readable_def l(2))
qed

text \<open>C29: A rebuilt string table without packing loses nothing: every string, pinned or not,
  resolves through its small entry (and its overflow record where it needs one) to its own
  length and encoding, at an offset where the storage holds exactly its bytes.\<close>

theorem unpacked_layout_readable:
  assumes "lay_out strings pinned Unpacked = Some (Inr l)" and "length (sl_overflow l) \<le> 2 ^ 23"
  shows "readable l strings"
  by (rule layout_readable[OF places_group_unpacked assms]) (simp add: half_ids_def)

text \<open>Without packing the layout always comes back.\<close>

lemma unpacked_total: "lay_out strings pinned Unpacked \<noteq> None"
  by (auto simp: lay_out_def lay_out_half_def pack_group_def Let_def Option.bind_eq_None_conv
      split: prod.splits)

definition sample_strings :: "stored_string list" where
  "sample_strings = map encode_stored [[97, 98], [0xe9], [99]]"

lemma sample_strings_eq:
  "sample_strings = [\<lparr>ss_bytes = [97, 98], ss_len_field = 2, ss_is_utf16 = False\<rparr>,
     \<lparr>ss_bytes = [0xe9, 0], ss_len_field = 1, ss_is_utf16 = True\<rparr>,
     \<lparr>ss_bytes = [99], ss_len_field = 1, ss_is_utf16 = False\<rparr>]"
  by (simp add: sample_strings_def encode_stored_def utf8_bytes_def utf8_char_def encode_utf16_def
      utf16_char_def u16_bytes_def le_bytes_2 Let_def)

lemma sample_layout:
  "lay_out sample_strings {} Unpacked = Some (Inr
     \<lparr>sl_small = [0x02000000, 0x01000009, 0x01000004], sl_overflow = [], sl_storage = [97, 98, 99, 0, 0xe9, 0]\<rparr>)"
  by (simp add: sample_strings_eq lay_out_def lay_out_half_def upt_rec pack_group_def write_fresh_def
      entry_for_string_def entry_encode_def OFFSET_LIMIT_def LENGTH_OVERFLOW_def Let_def)

theorem unpacked_layout_readable_witness:
  "readable \<lparr>sl_small = [0x02000000, 0x01000009, 0x01000004], sl_overflow = [], sl_storage = [97, 98, 99, 0, 0xe9, 0]\<rparr>
     sample_strings"
  using unpacked_layout_readable[OF sample_layout] by simp

end
