(* ===== verification/Create.thy ===== *)
theory Create
  imports String_Layout
begin

text \<open>
  Images built from scratch (\<open>crates/hbc-decomp/src/write/create.rs\<close> and the builders of
  \<open>write/serialize.rs\<close>) and the commit every write operation ends with
  (\<open>commit_image_checked\<close>): the finalized image is parsed again, its header compared with the
  one the operation declares, and only then adopted.
\<close>

section \<open>Buffers\<close>

definition pad4 :: "nat \<Rightarrow> nat" where
  "pad4 n = (4 - n mod 4) mod 4"

definition align4 :: "u8 list \<Rightarrow> u8 list" where
  "align4 buf = buf @ replicate (pad4 (length buf)) 0"

definition create_string_tables :: "rust_string list \<Rightarrow> string_layout result" where
  "create_string_tables strings = the (lay_out (map encode_stored strings) {} Unpacked)"

definition push_string_tables :: "u8 list \<Rightarrow> string_layout \<Rightarrow> u8 list" where
  "push_string_tables buf tables =
     (let buf = align4 (buf @ concat (map (le_bytes 4) (sl_small tables)));
          buf = align4 (buf @ concat (map put_pair (sl_overflow tables))) in
      align4 (buf @ sl_storage tables))"

section \<open>The minimal images\<close>

text \<open>Footer, length field, and the footer again over the final length.\<close>

definition seal_created :: "digest \<Rightarrow> u8 list \<Rightarrow> u8 list" where
  "seal_created sha1 buf =
     (let buf = append_footer sha1 buf;
          buf = put_at buf 32 (le_bytes 4 (of_nat (length buf) :: u32)) in
      rehash_footer sha1 buf)"

definition build_minimal_legacy :: "digest \<Rightarrow> u32 \<Rightarrow> rust_string list \<Rightarrow> u8 list \<Rightarrow> u8 list result" where
  "build_minimal_legacy sha1 ver strings global_body =
     (if 97 \<le> ver
      then Inl (Write ''build_minimal_legacy: v97 and newer use modern layout (build_minimal_modern)'' [])
      else res_bind (create_string_tables strings) (\<lambda>tables.
      let string_kind_raw = of_nat (length strings) :: u32;
          buf = replicate 128 0;
          func_header_pos = length buf;
          buf = buf @ replicate 16 0;
          buf = align4 (buf @ le_bytes 4 string_kind_raw);
          buf = align4 buf;
          buf = push_string_tables buf tables;
          instruction_offset = of_nat (length buf) :: u32;
          buf = buf @ global_body;
          fh = write_function_header_legacy_small instruction_offset 1 (of_nat (length global_body))
                 0 0 2 0 0 0 PROHIBIT_NONE;
          buf = put_at buf func_header_pos fh in
      res_bind (write_legacy_header buf ver (replicate 20 0) 0 0 1 1 0 (of_nat (length strings))
                  (of_nat (length (sl_overflow tables))) (of_nat (length (sl_storage tables)))
                  (LEGACY_BIGINT_MIN_VERSION \<le> ver) 0 0 0 0 0 0 0
                  (LEGACY_SEGMENT_ID_MIN_VERSION \<le> ver) 0 0
                  (LEGACY_FUNCTION_SOURCE_MIN_VERSION \<le> ver) 0 0 0) (\<lambda>buf.
      Inr (seal_created sha1 buf))))"

text \<open>The out-of-line header of the one function of a modern image.\<close>

definition minimal_large_header :: "modern_layout \<Rightarrow> u32 \<Rightarrow> nat \<Rightarrow> u8 list" where
  "minimal_large_header l instruction_offset body_len =
     (let large = replicate (large_size l) 0;
          put_u32 = (\<lambda>at (v :: u32) large. put_at large at (le_bytes 4 v));
          large = put_u32 MODERN_LARGE_OFFSET instruction_offset large;
          large = put_u32 MODERN_LARGE_PARAM_COUNT 1 large;
          large = put_u32 MODERN_LARGE_LOOP_DEPTH 0 large;
          large = put_u32 MODERN_LARGE_BYTECODE_SIZE (of_nat body_len) large;
          large = put_u32 MODERN_LARGE_FUNCTION_NAME 0 large;
          large = put_u32 MODERN_LARGE_NUMBER_REG_COUNT 0 large;
          large = put_u32 MODERN_LARGE_NON_PTR_REG_COUNT 1 large;
          large = put_u32 MODERN_LARGE_FRAME_SIZE 1 large in
      large[large_flags_pos l := PROHIBIT_NONE])"

definition small_pointer :: "u32 \<Rightarrow> u128" where
  "small_pointer p =
     (ucast p AND 0x00ffffff) OR push_bit 46 (drop_bit 24 (ucast p)) OR push_bit 88 (ucast FLAG_OVERFLOWED)"

definition build_minimal_modern :: "digest \<Rightarrow> u32 \<Rightarrow> rust_string list \<Rightarrow> u8 list \<Rightarrow> u8 list result" where
  "build_minimal_modern sha1 ver strings global_body =
     (if ver < 97 then Inl (Write ''build_minimal_modern: version must be 97 or newer'' [])
      else res_bind (create_string_tables strings) (\<lambda>tables.
      let string_kind_raw = of_nat (length strings) :: u32;
          buf = replicate 128 0;
          func_header_pos = length buf;
          buf = align4 (buf @ replicate 12 0);
          buf = align4 (buf @ le_bytes 4 string_kind_raw);
          buf = align4 buf;
          buf = push_string_tables buf tables;
          instruction_offset = of_nat (length buf) :: u32;
          buf = align4 (buf @ global_body) in
      res_bind (modern_layout_for_version ver) (\<lambda>l.
      let large_header_pos = of_nat (length buf) :: u32;
          buf = align4 (buf @ minimal_large_header l instruction_offset (length global_body));
          small = take 12 (le_bytes 16 (small_pointer large_header_pos));
          buf = put_at buf func_header_pos small in
      res_bind (write_modern_header buf ver (replicate 20 0) 1 1 0 (of_nat (length strings))
                  (of_nat (length (sl_storage tables)))) (\<lambda>buf.
      Inr (seal_created sha1 (put_at buf 56 (le_bytes 4 (of_nat (length (sl_overflow tables)) :: u32))))))))"

section \<open>Creating and checking\<close>

record create_options =
  co_version :: u32
  co_global_body :: "u8 list"
  co_strings :: "rust_string list"

definition default_create_options :: create_options where
  "default_create_options = \<lparr>co_version = 96, co_global_body = [], co_strings = [lit ''global'']\<rparr>"

definition opcode_named :: "bytecode_format \<Rightarrow> string \<Rightarrow> string \<Rightarrow> u8 result" where
  "opcode_named format name msg =
     ok_or (map_option def_opcode (find (\<lambda>d. def_name d = name) (definitions format))) (Write msg [])"

text \<open>\<open>LoadConstUndefined r0; Ret r0\<close> under the opcode table of the version.\<close>

definition trivial_body :: "bytecode_format \<Rightarrow> u8 list result" where
  "trivial_body format =
     res_bind (opcode_named format ''LoadConstUndefined'' ''LoadConstUndefined missing'') (\<lambda>load.
     res_bind (opcode_named format ''Ret'' ''Ret missing'') (\<lambda>ret.
     encode_function_body format
       [\<lparr>in_offset = 0, in_opcode = load, in_operands = [\<lparr>op_ty = Reg8, op_value = U8 0\<rparr>], in_length = 2\<rparr>,
        \<lparr>in_offset = 2, in_opcode = ret, in_operands = [\<lparr>op_ty = Reg8, op_value = U8 0\<rparr>], in_length = 2\<rparr>]))"

definition expect_eq :: "string \<Rightarrow> u32 \<Rightarrow> u32 \<Rightarrow> message list" where
  "expect_eq name got want =
     (if got \<noteq> want then [(''{name} = {got}, expected {want}'', [FText (lit name), fword got, fword want])] else [])"

definition expected_header :: "bytecode_header \<Rightarrow> u8 list \<Rightarrow> u32 \<Rightarrow> nat \<Rightarrow> message list" where
  "expected_header h img ver n_strings =
     expect_eq ''version'' (version h) ver
     @ expect_eq ''file_length'' (file_length h) (of_nat (length img))
     @ expect_eq ''function_count'' (function_count h) 1
     @ expect_eq ''global_code_index'' (global_code_index h) 0
     @ expect_eq ''string_count'' (string_count h) (of_nat n_strings)
     @ expect_eq ''string_kind_count'' (string_kind_count h) 1
     @ expect_eq ''identifier_count'' (identifier_count h) 0
     @ expect_eq ''debug_info_offset'' (debug_info_offset h) 0
     @ expect_eq ''options'' (ucast (options_raw h)) 0
     @ concat (map (\<lambda>(name, v). expect_eq name (case v of Some x \<Rightarrow> x | None \<Rightarrow> 0) 0)
         [(''big_int_count'', big_int_count h), (''big_int_storage_size'', big_int_storage_size h),
          (''reg_exp_count'', Some (reg_exp_count h)), (''reg_exp_storage_size'', Some (reg_exp_storage_size h)),
          (''literal_value_buffer_size'', literal_value_buffer_size h), (''array_buffer_size'', array_buffer_size h),
          (''obj_key_buffer_size'', Some (obj_key_buffer_size h)), (''obj_value_buffer_size'', obj_value_buffer_size h),
          (''obj_shape_table_count'', obj_shape_table_count h), (''num_string_switch_imms'', num_string_switch_imms h),
          (''segment_id'', segment_id h), (''cjs_module_offset'', cjs_module_offset h),
          (''cjs_module_count'', Some (cjs_module_count h)), (''function_source_count'', function_source_count h)])"

text \<open>The check indexes the first function header, which every image with
  \<open>function_count = 1\<close> has.\<close>

definition created_faults :: "bytecode_file \<Rightarrow> u8 list \<Rightarrow> u32 \<Rightarrow> rust_string list \<Rightarrow> u8 list \<Rightarrow> message list" where
  "created_faults file img ver strings body =
     expected_header (bf_header file) img ver (length strings)
     @ (let got = map st_value (bf_strings file) in
        if got \<noteq> strings then [(''strings = {got:?}, expected {strings:?}'', map FText got @ map FText strings)] else [])
     @ (let f = bf_function_headers file ! 0; at = unat (fh_offset f) in
        if get_range img at (at + unat (fh_bytecode_size f)) \<noteq> Some body
        then [(''function 0 does not hold the body'', [])] else [])"

definition check_created :: "digest \<Rightarrow> u8 list \<Rightarrow> u32 \<Rightarrow> rust_string list \<Rightarrow> u8 list \<Rightarrow> unit result" where
  "check_created sha1 img ver strings body =
     (case parse_auto sha1 img of
        Inl e \<Rightarrow> Inl (Write ''create v{version}: output does not reparse: {e}'' [fword ver, FErr e])
      | Inr file \<Rightarrow>
          let wrong = created_faults file img ver strings body in
          if wrong = [] then Inr ()
          else Inl (Write ''create v{version}: the image does not read back as built: {}''
                 (fword ver # concat (map (\<lambda>(t, args). FText (lit t) # args) wrong))))"

definition create_minimal ::
  "digest \<Rightarrow> (u32 \<Rightarrow> json_format result option) \<Rightarrow> u32 list \<Rightarrow> create_options \<Rightarrow> u8 list result" where
  "create_minimal sha1 json_for available options =
     res_bind (if co_global_body options = []
               then res_bind (for_version_or_latest json_for available (co_version options)) (\<lambda>(format, used).
                    trivial_body format)
               else Inr (co_global_body options)) (\<lambda>body.
     let strings = (if co_strings options = [] then [lit ''global''] else co_strings options) in
     res_bind (if 97 \<le> co_version options then build_minimal_modern sha1 (co_version options) strings body
               else build_minimal_legacy sha1 (co_version options) strings body) (\<lambda>img.
     res_bind (check_created sha1 img (co_version options) strings body) (\<lambda>_. Inr img)))"

end
