(* ===== verification/Created_Images.thy ===== *)
theory Created_Images
  imports Create Image_Sections
begin

text \<open>
  An image built from scratch reads back as what it was built from: the builders, the parser
  and the codecs between them composed, for the legacy and for the modern layout.
\<close>

section \<open>Running the section parser\<close>

text \<open>\<open>reads m pre suf x pre' suf'\<close>: started between \<open>pre\<close> and \<open>suf\<close>, the operation returns \<open>x\<close>
  and stands between \<open>pre'\<close> and \<open>suf'\<close>, whatever sections were recorded before.\<close>

definition reads :: "'a sec_op \<Rightarrow> u8 list \<Rightarrow> u8 list \<Rightarrow> 'a \<Rightarrow> u8 list \<Rightarrow> u8 list \<Rightarrow> bool" where
  "reads m pre suf x pre' suf' \<longleftrightarrow>
     (\<forall>secs. \<exists>secs'. m (reader_at pre suf, secs) = Inr (x, reader_at pre' suf', secs'))"

lemma reads_ret: "reads (sec_ret x) pre suf x pre suf"
  by (simp add: reads_def sec_ret_def)

lemma reads_bind:
  "\<lbrakk>reads m pre suf x pre1 suf1; reads (f x) pre1 suf1 y pre2 suf2\<rbrakk> \<Longrightarrow> reads (sec_bind m f) pre suf y pre2 suf2"
  unfolding reads_def sec_bind_def by (metis (no_types, lifting) case_prod_conv res_bind_simps(1))

lemma align_at:
  assumes "length z = pad4 (length pre)"
  shows "align 4 (reader_at pre (z @ suf)) = Inr ((), reader_at (pre @ z) suf)"
proof -
  have "length pre mod 4 < 4" by simp
  then consider "length pre mod 4 = 0" "pad4 (length pre) = 0"
    | "length pre mod 4 \<noteq> 0" "pad4 (length pre) = 4 - length pre mod 4"
    unfolding pad4_def by (cases "length pre mod 4 = 0") auto
  then show ?thesis
    by cases (use assms in \<open>auto simp: align_def Let_def seek_def reader_at_def\<close>)
qed

lemma reads_section:
  assumes "parse (reader_at pre (bs @ z @ suf)) = Inr (x, reader_at (pre @ bs) (z @ suf))"
    and "length z = pad4 (length pre + length bs)"
  shows "reads (track_section name entries parse) pre (bs @ z @ suf) x (pre @ bs @ z) suf"
  using assms align_at[of z "pre @ bs" suf]
  by (simp add: reads_def track_section_def Let_def rd_bind_def)

lemma reads_section_aligned:
  assumes "parse (reader_at pre suf) = Inr (x, reader_at pre' suf')" and "length pre' mod 4 = 0"
  shows "reads (track_section name entries parse) pre suf x pre' suf'"
proof -
  have "align 4 (reader_at pre' suf') = Inr ((), reader_at pre' suf')"
    using assms(2) by (simp add: align_def)
  with assms(1) show ?thesis by (simp add: reads_def track_section_def Let_def rd_bind_def)
qed

lemma pad4_0 [simp]: "n mod 4 = 0 \<Longrightarrow> pad4 n = 0"
  by (simp add: pad4_def)

lemma reads_section_empty:
  assumes "parse (reader_at pre suf) = Inr (x, reader_at pre suf)" and "length pre mod 4 = 0"
  shows "reads (track_section name entries parse) pre suf x pre suf"
  using reads_section[of parse pre "[]" "[]" suf x name entries] assms by simp

lemma empty_tables:
  "parse_string_kinds 0 = rd_ret []" "parse_u32_vec 0 = rd_ret []" "parse_overflow_string_table 0 = rd_ret []"
  "parse_table_entries 0 = rd_ret []" "parse_shape_table 0 = rd_ret []" "parse_pair_table 0 = rd_ret []"
  by (simp_all add: parse_string_kinds_def parse_u32_vec_def parse_overflow_string_table_def
      parse_table_entries_def parse_shape_table_def parse_pair_table_def)

lemma read_bytes_0: "length pre + length suf \<le> usize_max \<Longrightarrow> read_bytes 0 (reader_at pre suf) = Inr ([], reader_at pre suf)"
  using read_exact_at[of "[]" 0 pre suf] by (simp add: read_bytes_def)

lemma reads_empty:
  assumes "length pre mod 4 = 0" and "length pre + length suf \<le> usize_max"
  shows "reads (track_section name entries (read_bytes 0)) pre suf [] pre suf"
    and "reads (track_section name entries (rd_ret x)) pre suf x pre suf"
  using assms by (auto intro!: reads_section_empty simp: read_bytes_0 rd_ret_def)

section \<open>The string tables of a created image\<close>

lemma u32_vec_at:
  assumes "length ws < 2 ^ 32" "length pre + length (concat (map (le_bytes 4) ws) @ rest) \<le> usize_max"
  shows "parse_u32_vec (of_nat (length ws)) (reader_at pre (concat (map (le_bytes 4) ws) @ rest)) =
    Inr (ws, reader_at (pre @ concat (map (le_bytes 4) ws)) rest)"
  using u32.get_put_list[of ws "reader_at pre (concat (map (le_bytes 4) ws) @ rest)" rest] assms
  by (simp add: parse_u32_vec_def in_memory_def advance_reader_at list_all_iff unat_of_nat_less)

lemma pairs_at:
  assumes "length ps < 2 ^ 32" "length pre + length (concat (map put_pair ps) @ rest) \<le> usize_max"
  shows "parse_overflow_string_table (of_nat (length ps)) (reader_at pre (concat (map put_pair ps) @ rest)) =
    Inr (ps, reader_at (pre @ concat (map put_pair ps)) rest)"
  using pair_entry.get_put_list[of ps "reader_at pre (concat (map put_pair ps) @ rest)" rest] assms
  by (simp add: parse_overflow_string_table_def in_memory_def advance_reader_at list_all_iff unat_of_nat_less)

lemma length_concat_words [simp]:
  "length (concat (map (le_bytes 4) ws)) = 4 * length ws" "length (concat (map put_pair ps)) = 8 * length ps"
proof -
  show "length (concat (map (le_bytes 4) ws)) = 4 * length ws" by (induction ws) simp_all
  show "length (concat (map put_pair ps)) = 8 * length ps" by (induction ps) (simp_all add: put_pair_def)
qed

text \<open>Storage laid out for Rust strings, none of them empty, decodes to those strings.\<close>

lemma encode_stored_bytes:
  "\<exists>b. ss_is_utf16 (encode_stored s) = b \<and> ss_bytes (encode_stored s) = storage_bytes b s
     \<and> ss_len_field (encode_stored s) = of_nat (storage_units b s)"
  by (auto simp: encode_stored_def Let_def storage_bytes_def storage_units_def)

lemma storage_units_bound: "storage_units b s \<le> length (storage_bytes b s)"
  by (simp add: length_storage_bytes)

lemma storage_bytes_Nil: "storage_bytes b s = [] \<longleftrightarrow> s = []"
proof -
  have "utf8_char c \<noteq> []" "utf16_char c \<noteq> []" for c by (simp_all add: utf8_char_def utf16_char_def)
  then show ?thesis
    by (cases s) (auto simp: storage_bytes_def u16_bytes_def encode_utf16_def utf8_bytes_def le_bytes_def upt_rec)
qed

lemma readable_decodes:
  assumes r: "readable l (map encode_stored strings)" and ok: "\<forall>s \<in> set strings. s \<noteq> [] \<and> list_all is_scalar s"
    and n: "length strings < 2 ^ 32" and sto: "length (sl_storage l) < 2 ^ 32"
  shows "\<exists>entries. decode_string_table (of_nat (length strings)) kinds (sl_small l) (sl_overflow l) (sl_storage l) =
      Inr (entries, 0) \<and> map st_value entries = strings"
proof -
  let ?n = "length strings" and ?k = "string_kinds_of kinds (length strings)"
  let ?e = "\<lambda>i. \<lparr>st_value = strings ! i, st_is_utf16 = ss_is_utf16 (encode_stored (strings ! i)),
      st_is_identifier = (?k ! i = KIdentifier)\<rparr>"
  have len: "length (sl_small l) = ?n" using r by (simp add: readable_def)
  have "decode_string (sl_overflow l) (sl_storage l) i (sl_small l ! i) (?k ! i) = Inr (?e i, False)"
    if i: "i < ?n" for i
  proof -
    let ?s = "strings ! i"
    obtain b where b: "ss_is_utf16 (encode_stored ?s) = b" "ss_bytes (encode_stored ?s) = storage_bytes b ?s"
      "ss_len_field (encode_stored ?s) = of_nat (storage_units b ?s)" using encode_stored_bytes by blast
    from r i obtain off where o: "entry_resolve (entry_decode (sl_small l ! i)) (sl_overflow l) =
        Some (off, of_nat (storage_units b ?s))"
      "se_is_utf16 (entry_decode (sl_small l ! i)) = b" "held (sl_storage l) off (storage_bytes b ?s)"
      unfolding readable_def using b by force
    have bound: "unat off + length (storage_bytes b ?s) \<le> length (sl_storage l)"
      using o(3) by (auto simp: held_def get_range_def split: if_splits)
    moreover have "0 < length (storage_bytes b ?s)" using ok i by (simp add: storage_bytes_Nil)
    ultimately have "unat off < length (sl_storage l)" by linarith
    moreover have "list_all is_scalar ?s" using ok i by simp
    moreover have "unat (of_nat (storage_units b ?s) :: u32) = storage_units b ?s"
      using bound storage_units_bound[of b ?s] sto by (intro unat_of_nat_less) simp
    ultimately have "decode_value (sl_storage l) b off (of_nat (storage_units b ?s)) = (?s, False)"
      using o(3) sto by (intro decode_value_slice) (auto simp: held_def usize_max_def)
    with o(1,2) b(1) show ?thesis by (simp add: decode_string_def Let_def)
  qed
  then have "res_map (\<lambda>i. decode_string (sl_overflow l) (sl_storage l) i (sl_small l ! i) (?k ! i)) [0..<?n] =
      Inr (map (\<lambda>i. (?e i, False)) [0..<?n])"
    by (intro res_map_all_Inr) simp
  moreover have "map st_value (map fst (map (\<lambda>i. (?e i, False)) [0..<?n])) = strings"
    by (simp add: comp_def map_nth)
  ultimately show ?thesis using n len by (simp add: decode_string_table_def Let_def unat_of_nat_less filter_empty_conv)
qed

section \<open>The sections both layouts share\<close>

lemma string_kinds_at:
  assumes "n < 2 ^ 31" "length pre + 4 + length rest \<le> usize_max"
  shows "parse_string_kinds 1 (reader_at pre (le_bytes 4 (of_nat n :: u32) @ rest)) =
    Inr ([\<lparr>sk_kind = KString, sk_count = of_nat n\<rparr>], reader_at (pre @ le_bytes 4 (of_nat n :: u32)) rest)"
proof -
  have "put_string_kind \<lparr>sk_kind = KString, sk_count = of_nat n\<rparr> = le_bytes 4 (of_nat n :: u32)"
    by (simp add: put_string_kind_def)
  then show ?thesis
    using string_kind.get_at[of "\<lparr>sk_kind = KString, sk_count = of_nat n\<rparr>" pre rest] assms
    by (simp add: parse_string_kinds_def rd_bind_def rd_ret_def unat_of_nat_less)
qed

text \<open>What the builders push after the function header: one string kind, the tables, the
  storage.\<close>

definition table_bytes :: "nat \<Rightarrow> string_layout \<Rightarrow> u8 list" where
  "table_bytes n l = le_bytes 4 (of_nat n :: u32) @ concat (map (le_bytes 4) (sl_small l))
     @ concat (map put_pair (sl_overflow l)) @ sl_storage l @ replicate (pad4 (length (sl_storage l))) 0"

lemma align4_aligned: "length buf mod 4 = 0 \<Longrightarrow> align4 buf = buf"
  by (simp add: align4_def)

lemma pad4_cancels: "(n + pad4 n) mod 4 = 0"
proof -
  have "(n + (4 - n mod 4)) mod 4 = 0" by presburger
  then show ?thesis by (simp only: pad4_def mod_add_right_eq)
qed

lemma length_align4: "length (align4 buf) mod 4 = 0"
  by (simp add: align4_def pad4_cancels)

lemma length_table_bytes: "length (table_bytes n l) mod 4 = 0"
proof -
  let ?T = "length (sl_storage l)"
  have "length (table_bytes n l) = 4 * (1 + length (sl_small l) + 2 * length (sl_overflow l)) + (?T + pad4 ?T)"
    by (simp add: table_bytes_def)
  then show ?thesis using pad4_cancels[of ?T] by (simp only: mod_mult_self4)
qed

lemma pad4_add: "n mod 4 = 0 \<Longrightarrow> pad4 (n + m) = pad4 m"
  unfolding pad4_def by (metis add_0 mod_add_left_eq)

lemma push_string_tables_eq:
  assumes "length buf mod 4 = 0"
  shows "push_string_tables (align4 (align4 (buf @ le_bytes 4 (of_nat n :: u32)))) l = buf @ table_bytes n l"
proof -
  have 1: "align4 (align4 (buf @ le_bytes 4 (of_nat n :: u32))) = buf @ le_bytes 4 (of_nat n :: u32)"
    using assms by (simp add: align4_aligned mod_add_eq[symmetric, of "length buf"])
  have m: "(length buf + 4 + 4 * a) mod 4 = 0" "(length buf + 4 + 4 * a + 8 * b) mod 4 = 0" for a b
    using assms by presburger+
  show ?thesis
    unfolding 1 push_string_tables_def Let_def table_bytes_def
    using m by (simp add: align4_aligned align4_def pad4_add add.assoc[symmetric])
qed

lemma reads_common_tables:
  assumes headers: "parse_function_headers h (reader_at pre (fh @ table_bytes n l @ suf)) =
      Inr (hs, reader_at (pre @ fh) (table_bytes n l @ suf))"
    and al: "length (pre @ fh) mod 4 = 0"
    and counts: "string_kind_count h = 1" "identifier_count h = 0" "string_count h = of_nat n"
      "overflow_string_count h = of_nat (length (sl_overflow l))"
      "string_storage_size h = of_nat (length (sl_storage l))"
    and n: "length (sl_small l) = n" "n < 2 ^ 31"
    and len: "length (pre @ fh @ table_bytes n l @ suf) < 2 ^ 32"
  shows "reads (parse_common_tables h) pre (fh @ table_bytes n l @ suf)
     \<lparr>ct_function_headers = hs, ct_string_kinds = [\<lparr>sk_kind = KString, sk_count = of_nat n\<rparr>],
      ct_identifier_hashes = [], ct_small_string_table = sl_small l,
      ct_overflow_string_table = sl_overflow l, ct_string_storage = sl_storage l\<rparr>
     (pre @ fh @ table_bytes n l) suf"
proof -
  let ?K = "le_bytes 4 (of_nat n :: u32)" and ?S = "concat (map (le_bytes 4) (sl_small l))"
    and ?O = "concat (map put_pair (sl_overflow l))" and ?T = "sl_storage l"
  let ?P = "replicate (pad4 (length ?T)) 0"
  have um: "x < 2 ^ 32 \<Longrightarrow> x \<le> usize_max" for x by (simp add: usize_max_def)
  have tb: "table_bytes n l @ suf = ?K @ ?S @ ?O @ ?T @ ?P @ suf" by (simp add: table_bytes_def)
  have size: "length pre + length fh + 4 + 4 * n + 8 * length (sl_overflow l) + length ?T + length ?P + length suf < 2 ^ 32"
    using len n(1) by (simp add: table_bytes_def)
  have al0: "length (pre @ fh @ ?K) mod 4 = 0" "length (pre @ fh @ ?K @ ?S) mod 4 = 0"
    "length (pre @ fh @ ?K @ ?S @ ?O) mod 4 = 0"
    using al by simp_all presburger+
  have 1: "reads (track_section a b (parse_function_headers h)) pre (fh @ ?K @ ?S @ ?O @ ?T @ ?P @ suf) hs (pre @ fh)
      (?K @ ?S @ ?O @ ?T @ ?P @ suf)" for a b
    using headers al by (intro reads_section_aligned) (simp_all add: tb)
  have 2: "reads (track_section a b (parse_string_kinds 1)) (pre @ fh) (?K @ ?S @ ?O @ ?T @ ?P @ suf)
      [\<lparr>sk_kind = KString, sk_count = of_nat n\<rparr>] (pre @ fh @ ?K) (?S @ ?O @ ?T @ ?P @ suf)" for a b
    using string_kinds_at[OF n(2), of "pre @ fh" "?S @ ?O @ ?T @ ?P @ suf"] um[OF size] n(1)
    by (intro reads_section_aligned al0(1)) simp
  have 3: "reads (track_section a b (parse_u32_vec 0)) (pre @ fh @ ?K) (?S @ ?O @ ?T @ ?P @ suf) []
      (pre @ fh @ ?K) (?S @ ?O @ ?T @ ?P @ suf)" for a b
    unfolding empty_tables using al0(1) um[OF size] n(1) by (intro reads_empty) simp_all
  have 4: "reads (track_section a b (parse_u32_vec (of_nat n))) (pre @ fh @ ?K) (?S @ ?O @ ?T @ ?P @ suf)
      (sl_small l) (pre @ fh @ ?K @ ?S) (?O @ ?T @ ?P @ suf)" for a b
    using u32_vec_at[of "sl_small l" "pre @ fh @ ?K" "?O @ ?T @ ?P @ suf"] um[OF size] size n
    by (intro reads_section_aligned al0(2)) simp
  have 5: "reads (track_section a b (parse_overflow_string_table (of_nat (length (sl_overflow l)))))
      (pre @ fh @ ?K @ ?S) (?O @ ?T @ ?P @ suf) (sl_overflow l) (pre @ fh @ ?K @ ?S @ ?O) (?T @ ?P @ suf)" for a b
    using pairs_at[of "sl_overflow l" "pre @ fh @ ?K @ ?S" "?T @ ?P @ suf"] um[OF size] size n
    by (intro reads_section_aligned al0(3)) simp
  have p: "pad4 (length (pre @ fh @ ?K @ ?S @ ?O) + length ?T) = pad4 (length ?T)" by (rule pad4_add) (rule al0(3))
  have u: "unat (of_nat (length ?T) :: u32) = length ?T" using size by (simp add: unat_of_nat_less)
  have 6: "reads (track_section a b (read_bytes (unat (of_nat (length ?T) :: u32)))) (pre @ fh @ ?K @ ?S @ ?O) (?T @ ?P @ suf) ?T
      (pre @ fh @ ?K @ ?S @ ?O @ ?T @ ?P) suf" for a b
  proof -
    have "length (pre @ fh @ ?K @ ?S @ ?O) + length (?T @ ?P @ suf) \<le> usize_max" using um[OF size] n(1) by simp
    then have "read_bytes (length ?T) (reader_at (pre @ fh @ ?K @ ?S @ ?O) (?T @ ?P @ suf)) =
        Inr (?T, reader_at ((pre @ fh @ ?K @ ?S @ ?O) @ ?T) (?P @ suf))"
      unfolding read_bytes_def by (intro read_exact_at refl)
    from reads_section[of "read_bytes (length ?T)" "pre @ fh @ ?K @ ?S @ ?O" ?T ?P suf ?T a b, OF this] p
    show ?thesis by (simp only: u length_replicate append_assoc)
  qed
  show ?thesis
    unfolding parse_common_tables_def counts tb
    by (rule reads_bind[OF 1], rule reads_bind[OF 2], rule reads_bind[OF 3], rule reads_bind[OF 4],
        rule reads_bind[OF 5], rule reads_bind[OF 6]) (simp only: table_bytes_def reads_ret)
qed

section \<open>The sections a created image leaves empty\<close>

definition no_buffers :: layout_buffers where
  "no_buffers = \<lparr>lb_big_int_table = [], lb_big_int_storage = [], lb_array_buffer = [],
     lb_literal_value_buffer = [], lb_obj_key_buffer = [], lb_obj_value_buffer = [], lb_obj_shape_table = []\<rparr>"

definition no_trailing :: trailing_tables where
  "no_trailing = \<lparr>tt_reg_exp_table = [], tt_reg_exp_storage = [], tt_cjs_module_table = [],
     tt_function_source_table = []\<rparr>"

text \<open>Every count and size of the layout-specific and trailing sections is zero or absent.\<close>

definition declares_nothing :: "bytecode_header \<Rightarrow> bool" where
  "declares_nothing h \<longleftrightarrow>
     big_int_count h \<in> {None, Some 0} \<and> big_int_storage_size h \<in> {None, Some 0}
     \<and> array_buffer_size h \<in> {None, Some 0} \<and> literal_value_buffer_size h \<in> {None, Some 0}
     \<and> obj_value_buffer_size h \<in> {None, Some 0} \<and> obj_shape_table_count h \<in> {None, Some 0}
     \<and> function_source_count h \<in> {None, Some 0} \<and> obj_key_buffer_size h = 0
     \<and> reg_exp_count h = 0 \<and> reg_exp_storage_size h = 0 \<and> cjs_module_count h = 0"

lemma reads_track_if:
  assumes "field \<in> {None, Some 0}" and "reads (m 0) pre suf [] pre suf"
  shows "reads (track_if field m) pre suf [] pre suf"
  using assms by (auto simp: track_if_def reads_ret)

lemma reads_nothing:
  assumes d: "declares_nothing h" and al: "length pre mod 4 = 0" "length pre + length suf \<le> usize_max"
  shows "reads (parse_legacy_buffers h) pre suf no_buffers pre suf"
    and "reads (parse_modern_buffers h) pre suf no_buffers pre suf"
    and "reads (parse_trailing h) pre suf no_trailing pre suf"
proof -
  note e = reads_empty[OF al]
  have fields: "obj_key_buffer_size h = 0" "reg_exp_count h = 0" "reg_exp_storage_size h = 0" "cjs_module_count h = 0"
    and opts: "array_buffer_size h \<in> {None, Some 0}" "literal_value_buffer_size h \<in> {None, Some 0}"
      "obj_value_buffer_size h \<in> {None, Some 0}" "obj_shape_table_count h \<in> {None, Some 0}"
      "function_source_count h \<in> {None, Some 0}"
    using d by (simp_all only: declares_nothing_def)
  have big: "reads (parse_bigints h) pre suf ([], []) pre suf"
    using d unfolding declares_nothing_def parse_bigints_def empty_tables
    by (auto simp: empty_tables reads_ret intro!: reads_bind[OF e(2)] reads_bind[OF e(1)])
  have track: "reads (track_if f (\<lambda>sz. track_section a None (read_bytes (unat sz)))) pre suf [] pre suf"
    "reads (track_if f (\<lambda>n. track_section a (Some n) (parse_shape_table n))) pre suf [] pre suf"
    "reads (track_if f (\<lambda>n. track_section a (Some n) (parse_pair_table n))) pre suf [] pre suf"
    if "f \<in> {None, Some 0}" for f :: "u32 option" and a
    by (rule reads_track_if[OF that]; simp add: empty_tables e)+
  show "reads (parse_legacy_buffers h) pre suf no_buffers pre suf"
    unfolding parse_legacy_buffers_def fields unat_0
    by (rule reads_bind[OF track(1)[OF opts(1)]], rule reads_bind[OF e(1)], rule reads_bind[OF track(1)[OF opts(3)]],
        rule reads_bind[OF big]) (simp add: no_buffers_def reads_ret)
  show "reads (parse_modern_buffers h) pre suf no_buffers pre suf"
    unfolding parse_modern_buffers_def fields unat_0
    by (rule reads_bind[OF track(1)[OF opts(2)]], rule reads_bind[OF e(1)], rule reads_bind[OF track(2)[OF opts(4)]],
        rule reads_bind[OF big]) (simp add: no_buffers_def reads_ret)
  show "reads (parse_trailing h) pre suf no_trailing pre suf"
    unfolding parse_trailing_def fields unat_0 empty_tables
    by (rule reads_bind[OF e(2)], rule reads_bind[OF e(1)], rule reads_bind[OF e(2)],
        rule reads_bind[OF track(3)[OF opts(5), unfolded empty_tables]])
       (simp add: no_trailing_def reads_ret)
qed

section \<open>Sealing\<close>

lemma seal_created_eq:
  assumes "digest_len sha1" and "36 \<le> length buf"
  shows "seal_created sha1 buf =
    append_footer sha1 (put_at buf 32 (le_bytes 4 (of_nat (length buf + 20) :: u32)))"
proof -
  have d: "length (sha1 bs) = 20" for bs using assms(1) by (simp add: digest_len_def)
  have "put_at (buf @ sha1 buf) 32 (le_bytes 4 (of_nat (length buf + 20) :: u32)) =
      put_at buf 32 (le_bytes 4 (of_nat (length buf + 20) :: u32)) @ sha1 buf"
    using assms(2) by (simp add: put_at_def)
  then show ?thesis
    using assms(2)
    by (simp add: seal_created_def append_footer_def compute_file_hash_def d rehash_footer_def FOOTER_LEN_def)
qed

lemma sealed_verifies: "digest_len sha1 \<Longrightarrow> verify_footer sha1 (append_footer sha1 buf)"
  by (simp add: verify_footer_def append_footer_def compute_file_hash_def digest_len_def FOOTER_LEN_def Let_def)

section \<open>What the parser makes of an image with no optional section\<close>

lemma parse_plain_image:
  assumes header: "read_header lay fl (new_reader img) = Inr (h, r0)" "layout h = lay"
    and img: "img = hdr @ fh @ table_bytes n l @ rest" "length hdr = 128" "length img < 2 ^ 32"
    and fhs: "parse_function_headers h (reader_at hdr (fh @ table_bytes n l @ rest)) =
      Inr (hs, reader_at (hdr @ fh) (table_bytes n l @ rest))"
    and al: "length (hdr @ fh) mod 4 = 0"
    and counts: "string_kind_count h = 1" "identifier_count h = 0" "string_count h = of_nat n"
      "overflow_string_count h = of_nat (length (sl_overflow l))"
      "string_storage_size h = of_nat (length (sl_storage l))"
    and n: "length (sl_small l) = n" "n < 2 ^ 31" and d: "declares_nothing h"
    and strs: "decode_string_table (of_nat n) [\<lparr>sk_kind = KString, sk_count = of_nat n\<rparr>] (sl_small l)
        (sl_overflow l) (sl_storage l) = Inr (entries, 0)"
    and debug: "debug_info_offset h = 0"
    and seal: "verify_footer sha1 img" "file_length h = of_nat (length img)"
  shows "\<exists>f. parse_with_layout sha1 img lay fl = Inr f \<and> is_clean f \<and> bf_header f = h
    \<and> bf_function_headers f = hs \<and> bf_strings f = entries \<and> bf_instructions f = rest
    \<and> unat (bf_instruction_offset f) = length (hdr @ fh @ table_bytes n l)"
proof -
  have len: "length hdr + length fh + length (table_bytes n l) + length rest < 2 ^ 32" using img by simp
  then have um: "length hdr + length fh + length (table_bytes n l) + length rest \<le> usize_max"
    by (simp add: usize_max_def)
  have "data r0 = img" using same_data_Inr[OF same_data_read_header header(1)] by (simp add: new_reader_def)
  then have seek: "rd_bind (seek HEADER_SIZE) (\<lambda>_. align 4) r0 = Inr ((), reader_at hdr (fh @ table_bytes n l @ rest))"
    using img(2) by (simp add: rd_bind_def seek_def HEADER_SIZE_def align_def img(1) reader_at_def)
  let ?t = "\<lparr>ct_function_headers = hs, ct_string_kinds = [\<lparr>sk_kind = KString, sk_count = of_nat n\<rparr>],
      ct_identifier_hashes = [], ct_small_string_table = sl_small l,
      ct_overflow_string_table = sl_overflow l, ct_string_storage = sl_storage l\<rparr>"
  have 1: "reads (parse_common_tables h) hdr (fh @ table_bytes n l @ rest) ?t (hdr @ fh @ table_bytes n l) rest"
    using len by (intro reads_common_tables fhs al counts n) simp
  have "(length (hdr @ fh) + length (table_bytes n l)) mod 4 = 0"
    using al length_table_bytes[of n l] by (metis add_0 mod_add_eq mod_0)
  then have al2: "length (hdr @ fh @ table_bytes n l) mod 4 = 0" by (simp add: add.assoc)
  note e = reads_nothing[OF d al2, of rest]
  have 2: "reads (case lay of Legacy \<Rightarrow> parse_legacy_buffers h | Modern \<Rightarrow> parse_modern_buffers h)
      (hdr @ fh @ table_bytes n l) rest no_buffers (hdr @ fh @ table_bytes n l) rest"
    using e um by (cases lay) simp_all
  have 3: "reads (parse_trailing h) (hdr @ fh @ table_bytes n l) rest no_trailing (hdr @ fh @ table_bytes n l) rest"
    using e um by simp
  let ?s0 = "[\<lparr>si_name = ''header'', si_offset = 0, si_size = of_nat HEADER_SIZE, si_entries = None\<rparr>]"
  from 1 obtain s1 where s1: "parse_common_tables h (reader_at hdr (fh @ table_bytes n l @ rest), ?s0) =
      Inr (?t, reader_at (hdr @ fh @ table_bytes n l) rest, s1)" unfolding reads_def by blast
  from 2 obtain s2 where s2: "(case layout h of Legacy \<Rightarrow> parse_legacy_buffers h (reader_at (hdr @ fh @ table_bytes n l) rest, s1)
      | Modern \<Rightarrow> parse_modern_buffers h (reader_at (hdr @ fh @ table_bytes n l) rest, s1)) =
      Inr (no_buffers, reader_at (hdr @ fh @ table_bytes n l) rest, s2)"
    unfolding reads_def header(2) by (cases lay) auto
  from 3 obtain s3 where s3: "parse_trailing h (reader_at (hdr @ fh @ table_bytes n l) rest, s2) =
      Inr (no_trailing, reader_at (hdr @ fh @ table_bytes n l) rest, s3)" unfolding reads_def by blast
  have off: "unat (of_nat (length (hdr @ fh @ table_bytes n l)) :: u32) = length (hdr @ fh @ table_bytes n l)"
    using len by (intro unat_of_nat_less) simp
  have file_len: "unat (file_length h) = length img" using seal(2) img(3) by (simp add: unat_of_nat_less)
  have debug_none: "try_parse_debug_info img (debug_info_offset h) v offs = (Some empty_debug_info, Absent)" for v offs
    by (simp add: try_parse_debug_info_def parse_debug_with_status_def debug)
  define P where "P = hdr @ fh @ table_bytes n l"
  have P: "img = P @ rest" "128 \<le> length img" using img(1,2) by (simp_all add: P_def)
  have "drop (unat (of_nat (length P) :: u32)) img = rest" using off by (simp add: P(1) P_def[symmetric])
  with header(1) P(2) seek s1 s2 s3 strs file_len seal(1) off show ?thesis
    unfolding P_def[symmetric]
    by (simp add: parse_with_layout_def parse_trailing_and_build_def Let_def counts debug_none
        is_clean_def image_diagnostics_def status_is_failure_def HEADER_SIZE_def)
qed

section \<open>The legacy image\<close>

text \<open>Writing the file length into a finished header is writing the header with that length;
  what follows the header is left alone.\<close>

lemma legacy_length_field:
  assumes "write_legacy_header buf ver hash flen gci fn_count kind_count ident_count str_count ovf_count
      storage_size has_bigint bigint_count bigint_size re_count re_size array_size key_size value_size
      has_segment segment cjs_count has_source source_count debug_offset opts = Inr out"
    and hash: "length hash = 20"
  shows "write_legacy_header (buf @ t) ver hash flen' gci fn_count kind_count ident_count str_count ovf_count
      storage_size has_bigint bigint_count bigint_size re_count re_size array_size key_size value_size
      has_segment segment cjs_count has_source source_count debug_offset opts =
        Inr (put_at out 32 (le_bytes 4 flen') @ t)
    \<and> drop 128 out = drop 128 buf \<and> length out = length buf"
proof -
  have buf: "128 \<le> length buf" using assms(1) by (simp add: write_legacy_header_def split: if_splits)
  define A where "A = le_bytes 8 MAGIC @ le_bytes 4 ver @ hash"
  define Bs where "Bs = [le_bytes 4 gci, le_bytes 4 fn_count, le_bytes 4 kind_count,
          le_bytes 4 ident_count, le_bytes 4 str_count, le_bytes 4 ovf_count, le_bytes 4 storage_size] @
         (if has_bigint then [le_bytes 4 bigint_count, le_bytes 4 bigint_size] else []) @
         [le_bytes 4 re_count, le_bytes 4 re_size, le_bytes 4 array_size,
          le_bytes 4 key_size, le_bytes 4 value_size] @
         (if has_segment then [le_bytes 4 segment] else [le_bytes 4 (0 :: u32)]) @
         [le_bytes 4 cjs_count] @
         (if has_source then [le_bytes 4 source_count] else []) @
         [le_bytes 4 debug_offset, [opts]]"
  have A: "length A = 32" using hash by (simp add: A_def)
  have B: "length (concat Bs) \<le> 92" by (simp add: Bs_def)
  have put: "put_seq b 0 ([le_bytes 8 MAGIC, le_bytes 4 ver, hash, le_bytes 4 fl] @ Bs) =
      A @ le_bytes 4 fl @ concat Bs @ drop (36 + length (concat Bs)) b"
    if "128 \<le> length b" for b :: "u8 list" and fl :: u32
    using that A B hash by (subst put_seq_eq) (simp_all add: put_at_0 A_def)
  have out: "out = A @ le_bytes 4 flen @ concat Bs @ drop (36 + length (concat Bs)) buf"
    using assms(1) buf put[of buf flen] by (simp add: write_legacy_header_def Bs_def del: put_seq.simps)
  have "write_legacy_header (buf @ t) ver hash flen' gci fn_count kind_count ident_count str_count ovf_count
      storage_size has_bigint bigint_count bigint_size re_count re_size array_size key_size value_size
      has_segment segment cjs_count has_source source_count debug_offset opts =
      Inr (A @ le_bytes 4 flen' @ concat Bs @ drop (36 + length (concat Bs)) (buf @ t))"
    using buf put[of "buf @ t" flen'] by (simp add: write_legacy_header_def Bs_def del: put_seq.simps)
  moreover have "put_at out 32 (le_bytes 4 flen') = A @ le_bytes 4 flen' @ concat Bs @ drop (36 + length (concat Bs)) buf"
    unfolding out using A by (intro put_at_mid) simp_all
  moreover have "drop 128 out = drop 128 buf" using A B buf by (simp add: out)
  moreover have "length out = length buf" using A B buf by (simp add: out)
  ultimately show ?thesis using B buf by simp
qed

lemma build_legacy_shape:
  assumes "build_minimal_legacy sha1 ver strings body = Inr img" and "digest_len sha1"
  obtains l hdr n off where "n = length strings" "off = 144 + length (table_bytes n l)"
    "lay_out (map encode_stored strings) {} Unpacked = Some (Inr l)" "ver < 97" "length hdr = 128"
    "img = hdr @ write_function_header_legacy_small (of_nat off) 1 (of_nat (length body)) 0 0 2 0 0 0 PROHIBIT_NONE
        @ table_bytes n l @ body @ drop (length img - 20) img"
    "verify_footer sha1 img"
    "write_legacy_header (replicate 128 0 @ drop 128 img) ver (replicate 20 0) (of_nat (length img)) 0 1 1 0 (of_nat n)
       (of_nat (length (sl_overflow l))) (of_nat (length (sl_storage l))) (87 \<le> ver) 0 0 0 0 0 0 0 (78 \<le> ver) 0 0
       (84 \<le> ver) 0 0 0 = Inr img"
proof -
  from assms(1) obtain l where ver: "\<not> 97 \<le> ver" and tables: "create_string_tables strings = Inr l"
    by (auto simp: build_minimal_legacy_def res_bind_Inr_iff split: if_splits)
  have lo: "lay_out (map encode_stored strings) {} Unpacked = Some (Inr l)"
    using tables unpacked_total[of "map encode_stored strings" "{}"]
    by (cases "lay_out (map encode_stored strings) {} Unpacked") (auto simp: create_string_tables_def)
  let ?n = "length strings" and ?off = "144 + length (table_bytes (length strings) l)"
  let ?fh = "write_function_header_legacy_small (of_nat ?off) 1 (of_nat (length body)) 0 0 2 0 0 0 PROHIBIT_NONE"
  define T where "T = table_bytes ?n l"
  have fh: "length ?fh = 16" by (simp add: write_function_header_legacy_small_def)
  have push: "push_string_tables (align4 (align4 ((replicate 128 0 @ replicate 16 0) @ le_bytes 4 (of_nat ?n :: u32)))) l =
      (replicate 128 0 @ replicate 16 0) @ T" unfolding T_def by (rule push_string_tables_eq) simp
  define buf where "buf = replicate 128 0 @ ?fh @ T @ body"
  have "put_at (((replicate 128 0 @ replicate 16 0) @ T) @ body) 128 ?fh = buf"
    using put_at_mid[of "replicate 128 0" 128 "replicate 16 0" ?fh "T @ body"] fh by (simp add: buf_def)
  with assms(1) ver tables push obtain out where
    out: "write_legacy_header buf ver (replicate 20 0) 0 0 1 1 0 (of_nat ?n)
       (of_nat (length (sl_overflow l))) (of_nat (length (sl_storage l))) (87 \<le> ver) 0 0 0 0 0 0 0 (78 \<le> ver) 0 0
       (84 \<le> ver) 0 0 0 = Inr out"
    and img: "img = seal_created sha1 out"
    by (auto simp: build_minimal_legacy_def res_bind_Inr_iff Let_def min_version_defs T_def)
  define len :: u32 where "len = of_nat (length out + 20)"
  define o2 where "o2 = put_at out 32 (le_bytes 4 len)"
  note w = legacy_length_field[OF out length_replicate, of "sha1 o2" len]
  have d: "length (sha1 o2) = 20" using assms(2) by (simp add: digest_len_def)
  have lo2: "length o2 = length buf" "128 \<le> length buf" using w by (simp_all add: o2_def buf_def)
  have img2: "img = o2 @ sha1 o2"
    using seal_created_eq[OF assms(2), of out] w lo2
    by (simp add: img o2_def len_def append_footer_def compute_file_hash_def)
  have li: "length img = length out + 20" using w d lo2 by (simp add: img2)
  have "drop 128 o2 = drop 128 buf" using w lo2 by (simp add: o2_def put_at_def)
  then have d128: "drop 128 img = ?fh @ T @ body @ sha1 o2" using lo2 by (simp add: img2 buf_def)
  have "verify_footer sha1 img" using sealed_verifies[OF assms(2), of o2]
    by (simp add: img2 append_footer_def compute_file_hash_def)
  moreover have "img = take 128 img @ ?fh @ table_bytes ?n l @ body @ drop (length img - 20) img"
    using d128 append_take_drop_id[of 128 img] d by (simp add: T_def) (simp add: img2)
  moreover have e1: "buf @ sha1 o2 = replicate 128 0 @ drop 128 img" using d128 by (simp add: buf_def)
  have e2: "put_at out 32 (le_bytes 4 len) @ sha1 o2 = img" by (simp add: img2 o2_def)
  have e3: "len = of_nat (length img)" by (simp add: len_def li)
  have "length (take 128 img) = 128" using lo2 by (simp add: img2)
  moreover have "ver < 97" using ver by simp
  ultimately show thesis using lo conjunct1[OF w, unfolded e1 e2, unfolded e3]
    by (intro that[of ?n ?off l "take 128 img"]) (rule refl | assumption)+
qed

text \<open>The instruction slice of the one function, decoded through the file.\<close>

lemma decode_created:
  assumes "bf_function_headers f = [h]" "unat (bf_instruction_offset f) = off" "unat (fh_offset h) = off"
    and "unat (fh_bytecode_size h) = length body" "bf_instructions f = body @ rest" "length body \<le> usize_max"
  shows "decode_function_instructions f format 0 = decode_body format body"
proof -
  have "bf_instruction_offset f = fh_offset h" using assms(2,3) by (simp add: word_unat_eq_iff)
  then show ?thesis
    using assms by (simp add: decode_function_instructions_def list_get_def Let_def checked_add_usize_def)
qed

lemma expect_eq_refl: "expect_eq name w w = []"
  by (simp add: expect_eq_def)

lemma nothing_declared: "v \<in> {None, Some 0} \<Longrightarrow> (case v of Some x \<Rightarrow> x | None \<Rightarrow> 0) = (0 :: u32)"
  by (auto split: option.splits)

lemma declares_nothing_zero:
  assumes "declares_nothing h"
  shows "(case big_int_count h of Some x \<Rightarrow> x | None \<Rightarrow> 0) = 0"
    "(case big_int_storage_size h of Some x \<Rightarrow> x | None \<Rightarrow> 0) = 0"
    "(case array_buffer_size h of Some x \<Rightarrow> x | None \<Rightarrow> 0) = 0"
    "(case literal_value_buffer_size h of Some x \<Rightarrow> x | None \<Rightarrow> 0) = 0"
    "(case obj_value_buffer_size h of Some x \<Rightarrow> x | None \<Rightarrow> 0) = 0"
    "(case obj_shape_table_count h of Some x \<Rightarrow> x | None \<Rightarrow> 0) = 0"
    "(case function_source_count h of Some x \<Rightarrow> x | None \<Rightarrow> 0) = 0"
    "obj_key_buffer_size h = 0" "reg_exp_count h = 0" "reg_exp_storage_size h = 0" "cjs_module_count h = 0"
  using assms by (simp_all only: declares_nothing_def nothing_declared)

lemma no_created_faults:
  assumes dn: "declares_nothing (bf_header f)"
    and h: "file_length (bf_header f) = of_nat (length img)" "global_code_index (bf_header f) = 0"
      "function_count (bf_header f) = 1" "version (bf_header f) = ver" "string_kind_count (bf_header f) = 1"
      "identifier_count (bf_header f) = 0" "debug_info_offset (bf_header f) = 0" "options_raw (bf_header f) = 0"
      "string_count (bf_header f) = of_nat (length strings)"
    and opt: "num_string_switch_imms (bf_header f) \<in> {None, Some 0}" "segment_id (bf_header f) \<in> {None, Some 0}"
      "cjs_module_offset (bf_header f) \<in> {None, Some 0}"
    and strs: "map st_value (bf_strings f) = strings"
    and fn: "bf_function_headers f = [g]"
      "get_range img (unat (fh_offset g)) (unat (fh_offset g) + unat (fh_bytecode_size g)) = Some body"
  shows "created_faults f img ver strings body = []"
proof -
  note z = nothing_declared[OF opt(1)] nothing_declared[OF opt(2)] nothing_declared[OF opt(3)]
  have "expected_header (bf_header f) img ver (length strings) = []"
    by (simp add: expected_header_def h z expect_eq_refl declares_nothing_zero[OF dn])
  then show ?thesis by (simp add: created_faults_def strs fn Let_def)
qed

lemma created_legacy_program:
  assumes sha1: "digest_len sha1" and build: "build_minimal_legacy sha1 ver strings body = Inr img"
    and size: "length img < 2 ^ 25" "length body < 2 ^ 15"
    and strs: "\<forall>s \<in> set strings. s \<noteq> [] \<and> list_all is_scalar s"
  shows "\<exists>f. parse_auto sha1 img = Inr f \<and> is_clean f \<and> map st_value (bf_strings f) = strings
    \<and> created_faults f img ver strings body = []
    \<and> (\<forall>format. decode_function_instructions f format 0 = decode_body format body)
    \<and> unat (bf_instruction_offset f) + length body + 20 = length img
    \<and> bf_function_headers f = [LegacyHeader \<lparr>lf_function_id = 0, lf_offset = bf_instruction_offset f,
        lf_param_count = 1, lf_bytecode_size = of_nat (length body), lf_function_name = 0, lf_info_offset = 0,
        lf_frame_size = 2, lf_environment_size = 0, lf_highest_read_cache_index = 0,
        lf_highest_write_cache_index = 0, lf_flags = PROHIBIT_NONE\<rparr>]
    \<and> fn_header_layout (bf_header f) = Legacy16 \<and> debug_info_offset (bf_header f) = 0
    \<and> 144 \<le> unat (bf_instruction_offset f)"
proof -
  from build sha1 obtain l hdr n off where n: "n = length strings" and off: "off = 144 + length (table_bytes n l)"
    and lo: "lay_out (map encode_stored strings) {} Unpacked = Some (Inr l)" and ver: "ver < 97"
    and hdr: "length hdr = 128"
    and img: "img = hdr @ write_function_header_legacy_small (of_nat off) 1 (of_nat (length body)) 0 0 2 0 0 0 PROHIBIT_NONE
        @ table_bytes n l @ body @ drop (length img - 20) img"
    and seal: "verify_footer sha1 img"
    and w: "write_legacy_header (replicate 128 0 @ drop 128 img) ver (replicate 20 0) (of_nat (length img)) 0 1 1 0 (of_nat n)
       (of_nat (length (sl_overflow l))) (of_nat (length (sl_storage l))) (87 \<le> ver) 0 0 0 0 0 0 0 (78 \<le> ver) 0 0
       (84 \<le> ver) 0 0 0 = Inr img"
    by (rule build_legacy_shape)
  let ?fh = "write_function_header_legacy_small (of_nat off) 1 (of_nat (length body)) 0 0 2 0 0 0 PROHIBIT_NONE"
  define rest where "rest = body @ drop (length img - 20) img"
  have fh: "length ?fh = 16" by (simp add: write_function_header_legacy_small_def)
  have img': "img = hdr @ ?fh @ table_bytes n l @ rest" using img by (simp add: rest_def)
  have len: "144 + length (table_bytes n l) + length rest = length img"
    using arg_cong[OF img', of length] hdr fh by simp
  have tb: "length (table_bytes n l) = 4 + 4 * length (sl_small l) + 8 * length (sl_overflow l)
      + length (sl_storage l) + pad4 (length (sl_storage l))" by (simp add: table_bytes_def)
  have rd: "readable l (map encode_stored strings)"
    using lo len tb size(1) by (intro layout_readable[OF places_group_unpacked]) (simp_all add: half_ids_def)
  then have sn: "length (sl_small l) = n" by (simp add: readable_def n)
  have bounds: "n < 2 ^ 25" "off < 2 ^ 25" "length (sl_storage l) < 2 ^ 25"
    using len tb size(1) sn by (simp_all add: off)
  from readable_decodes[OF rd strs, of "[\<lparr>sk_kind = KString, sk_count = of_nat n\<rparr>]"] bounds n obtain entries where
    entries: "decode_string_table (of_nat n) [\<lparr>sk_kind = KString, sk_count = of_nat n\<rparr>] (sl_small l)
        (sl_overflow l) (sl_storage l) = Inr (entries, 0)" "map st_value entries = strings" by auto
  let ?off = "of_nat off :: u32" and ?sz = "of_nat (length body) :: u32"
  have words: "unat ?off = off" "unat ?sz = length body"
    using bounds size by (simp_all add: unat_of_nat_less)
  let ?h = "LegacyHeader \<lparr>lf_function_id = 0, lf_offset = ?off, lf_param_count = 1, lf_bytecode_size = ?sz,
      lf_function_name = 0, lf_info_offset = 0, lf_frame_size = 2, lf_environment_size = 0,
      lf_highest_read_cache_index = 0, lf_highest_write_cache_index = 0, lf_flags = PROHIBIT_NONE\<rparr>"
  have um: "length img \<le> usize_max" using size(1) by (simp add: usize_max_def)
  have small: "parse_function_header_legacy 0 (reader_at hdr (?fh @ table_bytes n l @ rest)) =
      Inr (?h, reader_at (hdr @ ?fh) (table_bytes n l @ rest))"
    using bounds size(2) words um len hdr
    by (intro read_written_legacy_small) (simp_all add: PROHIBIT_NONE_def FLAG_OVERFLOWED_def)
  note hd = read_written_legacy_header[OF w, of Legacy16]
  from hd um obtain h r0 where h: "read_header Legacy Legacy16 (new_reader img) = Inr (h, r0)"
    and hf: "version h = ver" "file_length h = of_nat (length img)" "global_code_index h = 0" "function_count h = 1"
      "string_kind_count h = 1" "identifier_count h = 0" "string_count h = of_nat n"
      "overflow_string_count h = of_nat (length (sl_overflow l))"
      "string_storage_size h = of_nat (length (sl_storage l))" "debug_info_offset h = 0" "options_raw h = 0"
      "layout h = Legacy" "fn_header_layout h = Legacy16" "num_string_switch_imms h = None"
      "segment_id h \<in> {None, Some 0}" "cjs_module_offset h \<in> {None, Some 0}"
    and dn: "declares_nothing h"
    using hdr len by (auto simp: declares_nothing_def)
  have fhs: "parse_function_headers h (reader_at hdr (?fh @ table_bytes n l @ rest)) =
      Inr ([?h], reader_at (hdr @ ?fh) (table_bytes n l @ rest))"
    using small by (simp add: parse_function_headers_def hf rd_bind_def rd_ret_def)
  obtain f where f: "parse_with_layout sha1 img Legacy Legacy16 = Inr f" "is_clean f" "bf_header f = h"
    "bf_function_headers f = [?h]" "bf_strings f = entries" "bf_instructions f = rest"
    "unat (bf_instruction_offset f) = off"
    using parse_plain_image[OF h hf(12) img' hdr _ fhs _ hf(5-9) sn _ dn entries(1) hf(10) seal hf(2)]
      bounds size(1) hdr fh by (auto simp: off)
  have "peek_version img = Inr ver" using read_header_peeks[OF h] hf(1) by simp
  then have "parse_auto sha1 img = Inr f"
    using f(1) ver by (simp add: parse_auto_def implied_layout_def MODERN_FUNCTION_HEADER_MIN_VERSION_def word_le_nat_alt word_less_nat_alt)
  moreover have "get_range img off (off + length body) = Some body"
    using len hdr fh off by (subst img') (simp add: get_range_def rest_def)
  then have "created_faults f img ver strings body = []"
    using hf(14-16) dn by (intro no_created_faults[where g = ?h])
      (simp_all only: f(3-5) hf(1-11) n entries(2) words, simp_all add: words)
  moreover have "decode_function_instructions f format 0 = decode_body format body" for format
    using f words size(2) by (intro decode_created[where h = ?h and off = off and rest = "drop (length img - 20) img"])
      (simp_all add: rest_def usize_max_def)
  moreover have "unat (bf_instruction_offset f) + length body + 20 = length img"
    using f(7) off arg_cong[OF img, of length] hdr fh by simp
  moreover have "bf_instruction_offset f = ?off"
    using f(7) words(1) by (simp add: word_unat_eq_iff)
  then have "bf_function_headers f = [LegacyHeader \<lparr>lf_function_id = 0, lf_offset = bf_instruction_offset f,
        lf_param_count = 1, lf_bytecode_size = of_nat (length body), lf_function_name = 0, lf_info_offset = 0,
        lf_frame_size = 2, lf_environment_size = 0, lf_highest_read_cache_index = 0,
        lf_highest_write_cache_index = 0, lf_flags = PROHIBIT_NONE\<rparr>]" using f(4) by simp
  moreover have "fn_header_layout (bf_header f) = Legacy16 \<and> debug_info_offset (bf_header f) = 0
    \<and> 144 \<le> unat (bf_instruction_offset f)"
    using hf(10,13) f(3,7) off by simp
  ultimately show ?thesis using f(2,5) entries(2) by blast
qed

lemma created_legacy_image:
  assumes sha1: "digest_len sha1" and build: "build_minimal_legacy sha1 ver strings body = Inr img"
    and size: "length img < 2 ^ 25" "length body < 2 ^ 15"
    and strs: "\<forall>s \<in> set strings. s \<noteq> [] \<and> list_all is_scalar s"
  shows "\<exists>f. parse_auto sha1 img = Inr f \<and> is_clean f \<and> map st_value (bf_strings f) = strings
    \<and> created_faults f img ver strings body = []
    \<and> (\<forall>format. decode_function_instructions f format 0 = decode_body format body)
    \<and> unat (bf_instruction_offset f) + length body + 20 = length img"
  using created_legacy_program[OF assms] by blast

text \<open>The builder only refuses a version of the other layout and a string the tables cannot
  address.\<close>

lemma build_minimal_legacy_total:
  assumes "ver < 97" "create_string_tables strings = Inr l"
  shows "\<exists>img. build_minimal_legacy sha1 ver strings body = Inr img"
proof -
  let ?buf = "push_string_tables (align4 (align4 ((replicate 128 0 @ replicate 16 0) @ le_bytes 4 (of_nat (length strings) :: u32)))) l"
  have "?buf = (replicate 128 0 @ replicate 16 0) @ table_bytes (length strings) l"
    by (rule push_string_tables_eq) simp
  moreover have "length (write_function_header_legacy_small a b c d e g i j k m) = 16" for a b c d e g i j k m
    by (simp add: write_function_header_legacy_small_def)
  ultimately show ?thesis
    using assms by (auto simp: build_minimal_legacy_def Let_def write_legacy_header_def not_le)
qed

lemma created_legacy_length:
  assumes "build_minimal_legacy sha1 ver strings body = Inr img" "digest_len sha1" "create_string_tables strings = Inr l"
  shows "length img = 144 + length (table_bytes (length strings) l) + length body + 20"
proof -
  from assms(1,2) obtain l' hdr off where l': "lay_out (map encode_stored strings) {} Unpacked = Some (Inr l')"
    and hdr: "length hdr = 128"
    and img: "img = hdr @ write_function_header_legacy_small (of_nat off) 1 (of_nat (length body)) 0 0 2 0 0 0 PROHIBIT_NONE
        @ table_bytes (length strings) l' @ body @ drop (length img - 20) img"
    by (rule build_legacy_shape) blast
  from l' assms(3) have "l' = l" by (simp add: create_string_tables_def)
  with arg_cong[OF img, of length] hdr show ?thesis by (simp add: write_function_header_legacy_small_def)
qed

text \<open>C27: An image created below v97 from non-empty strings is the program it was created from.  Parsing
  it, with no hint of its layout, gives a file without diagnostics whose strings are the given ones in
  order and whose only function decodes as the given body; the check \<open>create\<close> runs finds no
  fault.  The images are those the offset fields can address: below 32 MiB, with a body below
  the 15-bit size field.  Each string is a non-empty sequence of Unicode scalar values: an empty string
  may be placed at the end of the storage, where the parser reads the invalid-string placeholder and
  counts a diagnostic.\<close>

theorem created_legacy_reads_back:
  assumes "digest_len sha1" "build_minimal_legacy sha1 ver strings body = Inr img"
    and "length img < 2 ^ 25" "length body < 2 ^ 15"
    and "\<forall>s \<in> set strings. s \<noteq> [] \<and> list_all is_scalar s"
  shows "\<exists>f. parse_auto sha1 img = Inr f \<and> is_clean f \<and> map st_value (bf_strings f) = strings
    \<and> check_created sha1 img ver strings body = Inr ()
    \<and> (\<forall>format. decode_function_instructions f format 0 = decode_body format body)"
proof -
  from created_legacy_image[OF assms] obtain f where "parse_auto sha1 img = Inr f"
    "is_clean f" "map st_value (bf_strings f) = strings" "created_faults f img ver strings body = []"
    "\<forall>format. decode_function_instructions f format 0 = decode_body format body" by blast
  then show ?thesis by (auto simp: check_created_def Let_def)
qed

lemma sample_tables: "create_string_tables [[97, 98], [0xe9], [99]] = Inr
    \<lparr>sl_small = [0x02000000, 0x01000009, 0x01000004], sl_overflow = [], sl_storage = [97, 98, 99, 0, 0xe9, 0]\<rparr>"
  using sample_layout by (simp add: create_string_tables_def sample_strings_def)

lemma sample_image:
  obtains img where "build_minimal_legacy sample_digest 96 [[97, 98], [0xe9], [99]] [7, 0, 92, 0] = Inr img" "length img = 192"
proof -
  from build_minimal_legacy_total[OF _ sample_tables, of 96] obtain img where
    img: "build_minimal_legacy sample_digest 96 [[97, 98], [0xe9], [99]] [7, 0, 92, 0] = Inr img" by auto
  with created_legacy_length[OF img sample_digest_len sample_tables] show thesis
    by (intro that) (simp_all add: table_bytes_def pad4_def)
qed

theorem created_legacy_reads_back_witness:
  "\<exists>img f. build_minimal_legacy sample_digest 96 [[97, 98], [0xe9], [99]] [7, 0, 92, 0] = Inr img
     \<and> parse_auto sample_digest img = Inr f \<and> map st_value (bf_strings f) = [[97, 98], [0xe9], [99]]"
proof -
  obtain img where img: "build_minimal_legacy sample_digest 96 [[97, 98], [0xe9], [99]] [7, 0, 92, 0] = Inr img"
    "length img = 192" by (rule sample_image)
  then have "length img < 2 ^ 25" "length [7, 0, 92, 0 :: u8] < 2 ^ 15"
    "\<forall>s \<in> set [[97, 98], [0xe9], [99]]. s \<noteq> [] \<and> list_all is_scalar s" by (simp_all add: is_scalar_def)
  from created_legacy_reads_back[OF sample_digest_len img(1) this] obtain f
    where "parse_auto sample_digest img = Inr f" "map st_value (bf_strings f) = [[97, 98], [0xe9], [99]]"
    by (elim exE conjE) (rule that)
  with img(1) show ?thesis by (intro exI conjI)
qed

text \<open>The sections of the same image.\<close>

theorem sections_tile_image_witness:
  "\<exists>img f. length img = 192 \<and> parse_auto sample_digest img = Inr f \<and> tiles (bf_sections f) 0 192"
proof -
  obtain img where img: "build_minimal_legacy sample_digest 96 [[97, 98], [0xe9], [99]] [7, 0, 92, 0] = Inr img"
    "length img = 192" by (rule sample_image)
  then have "length img < 2 ^ 25" "length [7, 0, 92, 0 :: u8] < 2 ^ 15"
    "\<forall>s \<in> set [[97, 98], [0xe9], [99]]. s \<noteq> [] \<and> list_all is_scalar s" by (simp_all add: is_scalar_def)
  from created_legacy_image[OF sample_digest_len img(1) this] obtain f where f: "parse_auto sample_digest img = Inr f"
    "unat (bf_instruction_offset f) + 4 + 20 = length img" by auto
  with img(2) have "unat (bf_instruction_offset f) + FOOTER_LEN \<le> length img" "length img < 2 ^ 32"
    by (simp_all add: FOOTER_LEN_def)
  from sections_tile_image[OF f(1) this(2,1)] f(1) img(2) show ?thesis by auto
qed

end
