(* ===== verification/Commit.thy ===== *)
theory Commit
  imports Created_Images
begin

text \<open>
  The one place where a write operation ends (\<open>crates/hbc-decomp/src/write/serialize.rs\<close>):
  the image is sealed, parsed again, compared with the header the operation declared, and
  only then adopted.  An operation on \<open>&mut BytecodeFile\<close> takes the file and returns its
  result with the file it leaves behind.
\<close>

type_synonym 'a file_op = "bytecode_file \<Rightarrow> 'a result \<times> bytecode_file"

section \<open>The raw bytes of a file\<close>

definition serialize_file :: "digest \<Rightarrow> bytecode_file \<Rightarrow> u8 list result" where
  "serialize_file sha1 file =
     (case bf_raw_bytes file of
        Some raw \<Rightarrow> Inr (serialize_raw sha1 raw)
      | None \<Rightarrow> Inl (Write ''serialize_file: no raw_bytes on BytecodeFile, parse from disk first, or use create_minimal'' []))"

definition ensure_raw :: "bytecode_file \<Rightarrow> unit result" where
  "ensure_raw file =
     (if bf_raw_bytes file \<noteq> None then Inr ()
      else Inl (Write ''BytecodeFile has no raw_bytes; re-parse the input with parse_auto'' []))"

definition has_overflowed_functions :: "bytecode_file \<Rightarrow> bool" where
  "has_overflowed_functions file \<longleftrightarrow>
     (\<exists>h \<in> set (bf_function_headers file). fh_flags h AND FLAG_OVERFLOWED \<noteq> 0)"

definition layout_is_legacy :: "bytecode_file \<Rightarrow> bool" where
  "layout_is_legacy file \<longleftrightarrow> layout (bf_header file) = Legacy"

section \<open>Declared header changes\<close>

record header_edit =
  he_shift :: i64
  he_string_counts :: "(u32 \<times> u32 \<times> u32) option"
  he_string_storage :: "(u32 \<times> u32) option"
  he_reg_exp_storage_size :: "u32 option"

definition header_edit_default :: header_edit where
  "header_edit_default = \<lparr>he_shift = 0, he_string_counts = None, he_string_storage = None,
     he_reg_exp_storage_size = None\<rparr>"

definition header_edit_shifted :: "i64 \<Rightarrow> header_edit" where
  "header_edit_shifted shift = header_edit_default\<lparr>he_shift := shift\<rparr>"

definition header_edit_apply :: "header_edit \<Rightarrow> bytecode_header \<Rightarrow> bytecode_header" where
  "header_edit_apply edit h =
     (let h = (if debug_info_offset h \<noteq> 0
               then h\<lparr>debug_info_offset := ucast ((ucast (debug_info_offset h) :: i64) + he_shift edit)\<rparr> else h);
          h = (case he_string_counts edit of
                 Some (kinds, idents, strings) \<Rightarrow>
                   h\<lparr>string_kind_count := kinds, identifier_count := idents, string_count := strings\<rparr>
               | None \<Rightarrow> h);
          h = (case he_string_storage edit of
                 Some (overflow, storage) \<Rightarrow>
                   h\<lparr>overflow_string_count := overflow, string_storage_size := storage\<rparr>
               | None \<Rightarrow> h) in
      case he_reg_exp_storage_size edit of Some s \<Rightarrow> h\<lparr>reg_exp_storage_size := s\<rparr> | None \<Rightarrow> h)"

text \<open>The refusal lists the fields that differ as \<open>Debug\<close> prints them; the model keeps the
  message without that list.\<close>

definition header_matches :: "bytecode_header \<Rightarrow> bytecode_header \<Rightarrow> string \<Rightarrow> unit result" where
  "header_matches expected got what =
     (if expected = got then Inr ()
      else Inl (Write ''{what} changed the file header beyond what it declares'' [FText (lit what)]))"

section \<open>Committing\<close>

definition reparsed :: "digest \<Rightarrow> u8 list \<Rightarrow> bytecode_file result" where
  "reparsed sha1 out =
     (case parse_auto sha1 out of
        Inr f \<Rightarrow> Inr f
      | Inl e \<Rightarrow> Inl (Write ''write produced an image that does not reparse: {e}. The edit reached finalization, so this is a malformed layout rather than a rejected input.'' [FErr e]))"

definition commit_image_checked ::
  "digest \<Rightarrow> u8 list \<Rightarrow> header_edit \<Rightarrow> (bytecode_file \<Rightarrow> unit result) \<Rightarrow> u8 list file_op" where
  "commit_image_checked sha1 buf edit check file =
     (case res_bind (finalize_raw_image sha1 buf) (\<lambda>out.
           res_bind (reparsed sha1 out) (\<lambda>refreshed.
           let expected = (header_edit_apply edit (bf_header file))\<lparr>file_length := of_nat (length out)\<rparr> in
           res_bind (header_matches expected (bf_header refreshed) ''write'') (\<lambda>_.
           res_bind (check refreshed) (\<lambda>_. Inr (out, refreshed))))) of
        Inl e \<Rightarrow> (Inl e, file)
      | Inr (out, refreshed) \<Rightarrow> (Inr out, refreshed))"

definition commit_image :: "digest \<Rightarrow> u8 list \<Rightarrow> header_edit \<Rightarrow> u8 list file_op" where
  "commit_image sha1 buf edit = commit_image_checked sha1 buf edit (\<lambda>_. Inr ())"

section \<open>What a commit guarantees\<close>

lemma commit_Inl: "commit_image_checked sha1 buf edit check file = (Inl e, file') \<Longrightarrow> file' = file"
  by (auto simp: commit_image_checked_def split: sum.splits prod.splits)

lemma commit_Inr_iff:
  "commit_image_checked sha1 buf edit check file = (Inr out, file') \<longleftrightarrow>
     finalize_raw_image sha1 buf = Inr out \<and> parse_auto sha1 out = Inr file' \<and> check file' = Inr ()
     \<and> bf_header file' = (header_edit_apply edit (bf_header file))\<lparr>file_length := of_nat (length out)\<rparr>"
  by (auto simp: commit_image_checked_def reparsed_def header_matches_def res_bind_Inr_iff Let_def
      split: sum.splits prod.splits if_splits)

lemma parse_auto_raw: "parse_auto sha1 bytes = Inr f \<Longrightarrow> bf_raw_bytes f = Some bytes"
  by (auto elim!: parse_auto_cases parse_with_layout_steps)

text \<open>Every result of a reader program satisfies a predicate its last step establishes.\<close>

definition yields :: "('a \<Rightarrow> bool) \<Rightarrow> 'a read_op \<Rightarrow> bool" where
  "yields P m \<longleftrightarrow> (\<forall>r x r'. m r = Inr (x, r') \<longrightarrow> P x)"

lemma yields_ret [intro]: "P x \<Longrightarrow> yields P (rd_ret x)"
  by (simp add: yields_def rd_ret_def)

lemma yields_bind [intro]: "(\<And>x. yields P (f x)) \<Longrightarrow> yields P (rd_bind m f)"
  by (auto simp: yields_def rd_bind_Inr_iff)

lemma yieldsD: "yields P m \<Longrightarrow> m r = Inr (x, r') \<Longrightarrow> P x"
  by (auto simp: yields_def)

lemma header_starts_with_length:
  assumes "(case lay of Legacy \<Rightarrow> parse_legacy_header ver m hash | Modern \<Rightarrow> parse_modern_header ver m hash) r = Inr (h, r')"
  shows "\<exists>r1. read_u32 r = Inr (file_length h, r1)"
proof -
  obtain f where f: "rd_bind read_u32 f r = Inr (h, r')" and y: "\<And>x. yields (\<lambda>h. file_length h = x) (f x)"
  proof (cases lay)
    case Legacy
    with assms show thesis
      by (intro that) (unfold parse_legacy_header_def, simp, auto intro!: yields_bind yields_ret split: prod.split)
  next
    case Modern
    with assms show thesis
      by (intro that) (unfold parse_modern_header_def, simp, auto intro!: yields_bind yields_ret split: prod.split)
  qed
  from f obtain x r1 where "read_u32 r = Inr (x, r1)" "f x r1 = Inr (h, r')" by (auto simp: rd_bind_Inr_iff)
  with yieldsD[OF y, of x r1 h r'] show ?thesis by auto
qed

lemma read_header_file_length:
  assumes "read_header lay fn_lay (new_reader bytes) = Inr (h, r)"
  shows "file_length h = from_le (get_at 4 bytes 32)"
proof -
  from assms obtain m r1 ver r2 hash r3 h' r4 where
    1: "read_u64 (new_reader bytes) = Inr (m, r1)" "read_u32 r1 = Inr (ver, r2)" "read_bytes 20 r2 = Inr (hash, r3)"
    and 2: "(case lay of Legacy \<Rightarrow> parse_legacy_header ver m hash | Modern \<Rightarrow> parse_modern_header ver m hash) r3 = Inr (h', r4)"
    and h: "h = h'\<lparr>fn_header_layout := fn_lay\<rparr>"
    by (auto simp: read_header_def rd_bind_Inr_iff rd_ret_def rd_fail_def split: if_splits)
  from 1 have "r3 = advance 32 (new_reader bytes)"
    by (auto simp: read_u64_def read_u32_def read_bytes_def rd_map_Inr_iff dest!: read_exact_Inr)
  moreover from header_starts_with_length[OF 2] obtain r5 where "read_u32 r3 = Inr (file_length h', r5)" ..
  ultimately show ?thesis
    by (auto simp: h read_u32_def rd_map_Inr_iff new_reader_def ahead_def get_at_def dest!: read_exact_Inr)
qed

lemma parse_auto_obtain:
  assumes "parse_auto sha1 bytes = Inr f"
  obtains lay fn_lay g d where "parse_with_layout sha1 bytes lay fn_lay = Inr g" "f = g\<lparr>bf_diagnostics := d\<rparr>"
    "d = [] \<Longrightarrow> bf_diagnostics g = []"
proof -
  from assms obtain v where v: "peek_version bytes = Inr v"
    by (auto simp: parse_auto_def res_bind_Inr_iff)
  define other where "other = (if fst (implied_layout v) = Modern then (Legacy, Legacy16) else (Modern, Modern12))"
  show thesis
  proof (cases "parse_with_layout sha1 bytes (fst (implied_layout v)) (snd (implied_layout v))")
    case (Inr g)
    with assms v have "f = g" by (simp add: parse_auto_def Let_def)
    with Inr show thesis by (intro that[of _ _ g "bf_diagnostics g"]) simp_all
  next
    case (Inl e)
    with assms v obtain g where "parse_with_layout sha1 bytes (fst other) (snd other) = Inr g"
      "f = g\<lparr>bf_diagnostics := bf_diagnostics g @ [LayoutFallback v (fst other) (fst (implied_layout v))]\<rparr>"
      unfolding parse_auto_def by (auto simp: Let_def simp flip: other_def split: sum.split_asm)
    then show thesis by (rule that) simp
  qed
qed

lemma parse_auto_length_field:
  assumes "parse_auto sha1 bytes = Inr f"
  shows "file_length (bf_header f) = from_le (get_at 4 bytes 32)" and "128 \<le> length bytes"
proof -
  from assms obtain lay fn_lay g d where g: "parse_with_layout sha1 bytes lay fn_lay = Inr g"
    and f: "f = g\<lparr>bf_diagnostics := d\<rparr>" by (rule parse_auto_obtain)
  from g obtain r where "read_header lay fn_lay (new_reader bytes) = Inr (bf_header g, r)"
    by (rule parse_with_layout_steps) blast
  from read_header_file_length[OF this] show "file_length (bf_header f) = from_le (get_at 4 bytes 32)"
    by (simp add: f)
  from g show "128 \<le> length bytes" by (simp add: parse_with_layout_def HEADER_SIZE_def split: if_splits)
qed

lemma clean_parse:
  assumes "parse_auto sha1 bytes = Inr f" and "is_clean f"
  shows "unat (from_le (get_at 4 bytes 32) :: u32) = length bytes" and "verify_footer sha1 bytes"
proof -
  from assms(1) obtain lay fn_lay g d where g: "parse_with_layout sha1 bytes lay fn_lay = Inr g"
    and f: "f = g\<lparr>bf_diagnostics := d\<rparr>" "d = [] \<Longrightarrow> bf_diagnostics g = []"
    by (rule parse_auto_obtain) (rule that)
  with assms(2) have "bf_diagnostics g = []" by (simp add: is_clean_def)
  with g have "unat (file_length (bf_header g)) = length bytes \<and> verify_footer sha1 bytes"
    by (elim parse_with_layout_steps) (simp add: image_diagnostics_def split: if_splits)
  then show "verify_footer sha1 bytes" "unat (from_le (get_at 4 bytes 32) :: u32) = length bytes"
    using parse_auto_length_field(1)[OF assms(1)] f(1) by simp_all
qed

lemma clean_is_sealed:
  assumes "digest_len sha1" "parse_auto sha1 bytes = Inr f" "is_clean f"
  shows "finalize_raw_image sha1 bytes = Inr bytes" and "serialize_raw sha1 bytes = bytes"
proof -
  note c = clean_parse[OF assms(2,3)] and len = parse_auto_length_field(2)[OF assms(2)]
  have "(of_nat (length bytes) :: u32) = from_le (get_at 4 bytes 32)"
    using c(1) by (metis of_nat_unat ucast_id)
  then have "put_length bytes = bytes"
    using len by (simp add: put_length_def le_simps)
  moreover from this have "sealed_body bytes = take (length bytes - 20) bytes"
    using body_put_length[of bytes] len by simp
  moreover have "append_footer sha1 (take (length bytes - 20) bytes) = bytes"
    using rehash_verified[OF c(2)] len by (simp add: rehash_footer_def FOOTER_LEN_def)
  ultimately show "finalize_raw_image sha1 bytes = Inr bytes" "serialize_raw sha1 bytes = bytes"
    using finalize_eq[OF assms(1), of bytes] serialize_raw_eq[OF assms(1), of bytes] len by simp_all
qed

lemma apply_default: "header_edit_apply header_edit_default h = h"
proof -
  have "ucast (ucast (debug_info_offset h) :: i64) = debug_info_offset h"
    by (rule bit_word_eqI) (auto simp: bit_simps)
  then show ?thesis by (simp add: header_edit_apply_def header_edit_default_def)
qed

lemma clean_header_length:
  assumes "parse_auto sha1 bytes = Inr f" "is_clean f"
  shows "(bf_header f)\<lparr>file_length := of_nat (length bytes)\<rparr> = bf_header f"
proof -
  have "file_length (bf_header f) = of_nat (length bytes)"
    using clean_parse(1)[OF assms] parse_auto_length_field(1)[OF assms(1)] by (metis of_nat_unat ucast_id)
  then show ?thesis by simp
qed

text \<open>C3: A commit is all or nothing.  Either the operation fails and the file is the one it was
  given, or it returns an image that is sealed, records its own length, parses to exactly the
  file left behind, passes the operation's own check, and carries the old header with nothing
  but the declared edit and the new length: no field can change undeclared.\<close>

theorem commit_adopts_or_keeps:
  assumes "digest_len sha1" and "56 \<le> length buf" and "length buf < 2 ^ 32"
    and "commit_image_checked sha1 buf edit check file = (res, file')"
  shows "(case res of
       Inl e \<Rightarrow> file' = file
     | Inr out \<Rightarrow> parse_auto sha1 out = Inr file' \<and> bf_raw_bytes file' = Some out \<and> check file' = Inr ()
         \<and> verify_footer sha1 out \<and> length out = length buf
         \<and> (\<forall>i < length buf - 20. i < 32 \<or> 36 \<le> i \<longrightarrow> out ! i = buf ! i)
         \<and> bf_header file' = (header_edit_apply edit (bf_header file))\<lparr>file_length := of_nat (length out)\<rparr>)"
proof (cases res)
  case (Inl e)
  then show ?thesis using assms(4) commit_Inl by simp
next
  case (Inr out)
  then have c: "finalize_raw_image sha1 buf = Inr out" "parse_auto sha1 out = Inr file'" "check file' = Inr ()"
    "bf_header file' = (header_edit_apply edit (bf_header file))\<lparr>file_length := of_nat (length out)\<rparr>"
    using assms(4) by (simp_all add: commit_Inr_iff)
  from finalized[OF assms(1) c(1) assms(2,3)] parse_auto_raw[OF c(2)] c show ?thesis by (simp add: Inr)
qed

text \<open>C20: Committing the bytes of a clean file, with nothing declared, is the identity on the
  bytes and on the model; so is serializing it.  A file with a diagnostic is the only one an
  identity write can touch.\<close>

theorem clean_commit_is_identity:
  assumes "digest_len sha1" "parse_auto sha1 bytes = Inr f" "is_clean f"
  shows "commit_image sha1 bytes header_edit_default f = (Inr bytes, f) \<and> serialize_file sha1 f = Inr bytes"
proof -
  note s = clean_is_sealed[OF assms]
  have "bf_header f = (bf_header f)\<lparr>file_length := of_nat (length bytes)\<rparr>"
    using clean_header_length[OF assms(2,3)] by simp
  with s(1) assms(2) have "commit_image sha1 bytes header_edit_default f = (Inr bytes, f)"
    by (simp add: commit_image_def commit_Inr_iff apply_default)
  with s(2) parse_auto_raw[OF assms(2)] show ?thesis by (simp add: serialize_file_def)
qed

lemma sample_file:
  obtains img f where "build_minimal_legacy sample_digest 96 [[97, 98], [0xe9], [99]] [7, 0, 92, 0] = Inr img"
    "length img = 192" "parse_auto sample_digest img = Inr f" "is_clean f"
proof -
  obtain img where img: "build_minimal_legacy sample_digest 96 [[97, 98], [0xe9], [99]] [7, 0, 92, 0] = Inr img"
    "length img = 192" by (rule sample_image)
  then have "length img < 2 ^ 25" "length [7, 0, 92, 0 :: u8] < 2 ^ 15"
    "\<forall>s \<in> set [[97, 98], [0xe9], [99]]. s \<noteq> [] \<and> list_all is_scalar s" by (simp_all add: is_scalar_def)
  from created_legacy_image[OF sample_digest_len img(1) this] img that show thesis by blast
qed

theorem clean_commit_is_identity_witness:
  "\<exists>img f. length img = 192 \<and> commit_image sample_digest img header_edit_default f = (Inr img, f)"
proof -
  obtain img f where f: "length img = 192" "parse_auto sample_digest img = Inr f" "is_clean f"
    by (rule sample_file)
  from clean_commit_is_identity[OF sample_digest_len f(2,3)] f(1) show ?thesis by blast
qed

theorem commit_adopts_or_keeps_witness:
  "\<exists>img f out. commit_image sample_digest img header_edit_default f = (Inr out, f) \<and> length out = 192
     \<and> verify_footer sample_digest out"
proof -
  obtain img f where f: "length img = 192" "parse_auto sample_digest img = Inr f" "is_clean f"
    by (rule sample_file)
  note s = clean_is_sealed[OF sample_digest_len f(2,3)]
  have "bf_header f = (bf_header f)\<lparr>file_length := of_nat (length img)\<rparr>"
    using clean_header_length[OF f(2,3)] by simp
  with s(1) f(2) have c: "commit_image_checked sample_digest img header_edit_default (\<lambda>_. Inr ()) f = (Inr img, f)"
    by (simp add: commit_Inr_iff apply_default)
  from commit_adopts_or_keeps[OF sample_digest_len _ _ c] f(1) c show ?thesis
    by (intro exI[of _ img] exI[of _ f]) (simp add: commit_image_def)
qed

end
