(* ===== verification/Relocation.thy ===== *)
theory Relocation
  imports Commit
begin

text \<open>
  The relocation primitive (\<open>crates/hbc-decomp/src/write/reloc.rs\<close>): after one region of
  the image was replaced by another of a different size, every absolute offset at or past its
  end is shifted: per function the offsets in the small header or, when it is overflowed, the
  packed pointer and the offsets in the large header; and the debug offset of the file header.

  A slice operation takes the bytes and returns them updated.  The bytes are those the code
  has in range: an index past the buffer, where the code panics, is excluded by the
  hypotheses of the theorems.  The interface \<open>header_slots\<close> states what one step of the loop
  does to the slot of a function; it is interpreted for both layouts, and the theorem on the
  whole table is proved from it once.
\<close>

section \<open>The code\<close>

definition OFFSET_BITS :: nat where "OFFSET_BITS = 25"
definition LEGACY_SIZE_BITS :: nat where "LEGACY_SIZE_BITS = 15"
definition MODERN_SIZE_BITS :: nat where "MODERN_SIZE_BITS = 14"

record reloc =
  rl_moved_from :: nat
  rl_delta :: i64
  rl_resized :: "(u32 \<times> u32) option"

definition debug_info_offset_pos :: "bytecode_header \<Rightarrow> bool \<Rightarrow> nat" where
  "debug_info_offset_pos h modern =
     (if modern then 108
      else 64 + (if big_int_count h \<noteq> None then 8 else 0) + 8 + 12 + 8
             + (if function_source_count h \<noteq> None then 4 else 0))"

definition shifted :: "nat \<Rightarrow> reloc \<Rightarrow> nat \<Rightarrow> string \<Rightarrow> nat result" where
  "shifted v r width what =
     (if v < rl_moved_from r then Inr v
      else let new = int v + sint (rl_delta r) in
        if new < 0 \<or> 2 ^ width \<le> new
        then Inl (Write ''relocation: {what} {value} shifted by {} does not fit in {bits} bits''
               [FText (lit what), fnat v, FNum (sint (rl_delta r)), fnat width])
        else Inr (nat new))"

definition checked_size :: "u32 \<Rightarrow> nat \<Rightarrow> u128 result" where
  "checked_size s width =
     (if 2 ^ width \<le> unat s
      then Inl (Write ''relocation: body size {size} does not fit the small header's {bits}-bit size field (the function would have to become overflowed)''
             [fword s, fnat width])
      else Inr (ucast s))"

definition set_bits :: "u128 \<Rightarrow> nat \<Rightarrow> nat \<Rightarrow> u128 \<Rightarrow> u128" where
  "set_bits raw lo width v =
     (let mask = push_bit lo (push_bit width 1 - 1) in (raw AND NOT mask) OR (push_bit lo v AND mask))"

text \<open>The size field is rewritten only for the function whose body was replaced.\<close>

definition set_size :: "u128 \<Rightarrow> nat \<Rightarrow> u32 option \<Rightarrow> u128 result" where
  "set_size raw width new_size =
     (case new_size of
        None \<Rightarrow> Inr raw
      | Some sz \<Rightarrow> res_bind (checked_size sz width) (\<lambda>s. Inr (set_bits raw 32 width s)))"

definition low_bits :: "u128 \<Rightarrow> nat \<Rightarrow> nat" where
  "low_bits raw width = unat (raw AND (push_bit width 1 - 1))"

definition relocate_legacy_small :: "u8 list \<Rightarrow> reloc \<Rightarrow> u32 option \<Rightarrow> u8 list result" where
  "relocate_legacy_small slot r new_size =
     (let raw = from_le (take 16 slot) in
      res_bind (shifted (low_bits raw OFFSET_BITS) r OFFSET_BITS ''body offset'') (\<lambda>off.
      let raw = set_bits raw 0 OFFSET_BITS (of_nat off);
          info = low_bits (drop_bit 64 raw) OFFSET_BITS in
      res_bind (if info \<noteq> 0
                then res_bind (shifted info r OFFSET_BITS ''info offset'') (\<lambda>new_info.
                     Inr (set_bits raw 64 OFFSET_BITS (of_nat new_info)))
                else Inr raw) (\<lambda>raw.
      res_bind (set_size raw LEGACY_SIZE_BITS new_size) (\<lambda>raw.
      Inr (put_at slot 0 (le_bytes 16 raw))))))"

definition relocate_modern_small :: "u8 list \<Rightarrow> reloc \<Rightarrow> u32 option \<Rightarrow> u8 list result" where
  "relocate_modern_small slot r new_size =
     (let raw = from_le (take 12 slot @ replicate 4 0) in
      res_bind (shifted (low_bits raw OFFSET_BITS) r OFFSET_BITS ''body offset'') (\<lambda>off.
      let raw = set_bits raw 0 OFFSET_BITS (of_nat off) in
      res_bind (set_size raw MODERN_SIZE_BITS new_size) (\<lambda>raw.
      Inr (put_at slot 0 (take 12 (le_bytes 16 raw))))))"

text \<open>A closure of the code edits a sub-slice of the buffer.\<close>

definition edit_slice :: "u8 list \<Rightarrow> nat \<Rightarrow> nat \<Rightarrow> (u8 list \<Rightarrow> u8 list result) \<Rightarrow> u8 list result" where
  "edit_slice buf a n f = res_bind (f (get_at n buf a)) (\<lambda>ys. Inr (put_at buf a ys))"

definition put_u32 :: "u8 list \<Rightarrow> nat \<Rightarrow> u32 \<Rightarrow> u8 list" where
  "put_u32 buf p v = put_at buf p (le_bytes 4 v)"

definition shift_u32_field :: "u8 list \<Rightarrow> nat \<Rightarrow> reloc \<Rightarrow> string \<Rightarrow> u8 list result" where
  "shift_u32_field buf p r what =
     res_bind (shifted (unat (u32_at buf p)) r 32 what) (\<lambda>new. Inr (put_u32 buf p (of_nat new)))"

definition relocate_overflowed ::
  "u8 list \<Rightarrow> nat \<Rightarrow> modern_layout option \<Rightarrow> reloc \<Rightarrow> u32 option \<Rightarrow> u8 list result" where
  "relocate_overflowed buf slot lay r new_size =
     (let modern = (lay \<noteq> None);
          large_sz = (case lay of None \<Rightarrow> 20 | Some l \<Rightarrow> large_size l) in
      res_bind (if modern then read_modern_large_pointer (get_at 12 buf slot)
                else read_legacy_large_pointer (get_at 16 buf slot)) (\<lambda>ptr.
      let ptr = unat ptr in
      res_bind (shifted ptr r 32 ''large header pointer'') (\<lambda>lh.
      res_bind (if lh \<noteq> ptr
                then (if modern
                      then edit_slice buf slot 12 (\<lambda>s. shift_modern_large_pointer s (rl_delta r))
                      else edit_slice buf slot 16 (\<lambda>s. shift_legacy_large_pointer s (rl_delta r)))
                else Inr buf) (\<lambda>buf.
      if length buf < lh + large_sz
      then Inl (Write ''large header at {lh} (+{large_size} bytes) is out of range for a {}-byte image''
             [fnat lh, fnat large_sz, fnat (length buf)])
      else
      res_bind (shift_u32_field buf lh r ''large header body offset'') (\<lambda>buf.
      res_bind (if \<not> modern \<and> unat (u32_at buf (lh + 16)) \<noteq> 0
                then shift_u32_field buf (lh + 16) r ''large header info offset'' else Inr buf) (\<lambda>buf.
      Inr (case new_size of
             None \<Rightarrow> buf
           | Some sz \<Rightarrow> put_u32 buf (lh + (if modern then MODERN_LARGE_BYTECODE_SIZE else 8)) sz)))))))"

text \<open>One turn of the loop over the functions.\<close>

definition relocate_slot ::
  "modern_layout option \<Rightarrow> reloc \<Rightarrow> u32 option \<Rightarrow> nat \<Rightarrow> u8 list \<Rightarrow> u8 list result" where
  "relocate_slot lay r new_size slot buf =
     (let hsize = (if lay \<noteq> None then 12 else 16) in
      if (buf ! (slot + hsize - 1)) AND FLAG_OVERFLOWED \<noteq> 0 then relocate_overflowed buf slot lay r new_size
      else if lay \<noteq> None then edit_slice buf slot 12 (\<lambda>s. relocate_modern_small s r new_size)
      else edit_slice buf slot 16 (\<lambda>s. relocate_legacy_small s r new_size))"

definition resized_to :: "reloc \<Rightarrow> nat \<Rightarrow> u32 option" where
  "resized_to r i =
     (case rl_resized r of Some (fid, s) \<Rightarrow> if unat fid = i then Some s else None | None \<Rightarrow> None)"

primrec res_fold :: "('a \<Rightarrow> 's \<Rightarrow> 's result) \<Rightarrow> 'a list \<Rightarrow> 's \<Rightarrow> 's result" where
  "res_fold f [] s = Inr s"
| "res_fold f (x # xs) s = res_bind (f x s) (res_fold f xs)"

definition relocate_slots ::
  "modern_layout option \<Rightarrow> reloc \<Rightarrow> nat \<Rightarrow> nat \<Rightarrow> nat \<Rightarrow> u8 list \<Rightarrow> u8 list result" where
  "relocate_slots lay r fh_sec hsize n =
     res_fold (\<lambda>i. relocate_slot lay r (resized_to r i) (fh_sec + i * hsize)) [0..<n]"

definition relocate_debug :: "bytecode_header \<Rightarrow> bool \<Rightarrow> reloc \<Rightarrow> u8 list \<Rightarrow> u8 list result" where
  "relocate_debug h modern r buf =
     (let dpos = debug_info_offset_pos h modern in
      if length buf < dpos + 4 then Inl (Write ''relocation: debug_info_offset out of range'' [])
      else let dbg = unat (u32_at buf dpos) in
        if dbg \<noteq> 0 \<and> rl_moved_from r \<le> dbg then shift_u32_at buf dpos (rl_delta r) else Inr buf)"

definition relocate :: "bytecode_file \<Rightarrow> u8 list \<Rightarrow> reloc \<Rightarrow> u8 list result" where
  "relocate file buf r =
     (if sint (rl_delta r) mod 4 \<noteq> 0
      then Inl (Write ''relocation delta {} is not a multiple of 4: everything after the splice must stay 4-byte aligned (large headers, FunctionInfo)''
             [FNum (sint (rl_delta r))])
      else
      res_bind (ok_or (section_offset file ''function_headers'')
                  (Write ''function_headers section missing'' [])) (\<lambda>fh_sec.
      let fh_sec = unat fh_sec; n = length (bf_function_headers file) in
      res_bind (case fn_header_layout (bf_header file) of
                  Legacy16 \<Rightarrow> Inr None
                | Modern12 \<Rightarrow> res_bind (modern_layout_for_version (version (bf_header file))) (\<lambda>l. Inr (Some l))) (\<lambda>lay.
      let hsize = (if lay \<noteq> None then 12 else 16) in
      if rl_moved_from r < fh_sec + n * hsize
      then Inl (Write ''relocation: the function header table overlaps the spliced region'' [])
      else
      res_bind (case rl_resized r of
                  Some (fid, _) \<Rightarrow>
                    if n \<le> unat fid then Inl (Write ''relocation: invalid function id {id}'' [fword fid]) else Inr ()
                | None \<Rightarrow> Inr ()) (\<lambda>_.
      res_bind (relocate_slots lay r fh_sec hsize n buf) (\<lambda>buf.
      relocate_debug (bf_header file) (lay \<noteq> None) r buf)))))"

lemma res_fold_append: "res_fold f (xs @ ys) s = res_bind (res_fold f xs s) (res_fold f ys)"
proof (induction xs arbitrary: s)
  case (Cons x xs)
  then show ?case by (cases "f x s") simp_all
qed simp

section \<open>Fields and shifts\<close>

lemma set_bits_eq: "set_bits raw lo w v = clear_bits raw lo w OR put_bits v lo w"
proof (rule bit_word_eqI)
  fix i
  have "push_bit w 1 - 1 = (mask w :: u128)" by (simp add: mask_eq_exp_minus_1)
  then show "bit (set_bits raw lo w v) i = bit (clear_bits raw lo w OR put_bits v lo w) i"
    by (auto simp: set_bits_def Let_def clear_bits_def put_bits_def bit_simps)
qed

lemma low_bits_eq:
  assumes "w \<le> 32"
  shows "low_bits (drop_bit p raw) w = unat (bits raw p w :: u32)"
  using assms
  by (simp add: low_bits_def bits_def unsigned_ucast_eq unsigned_take_bit_eq min_def
      flip: mask_eq_exp_minus_1 take_bit_eq_mask)

text \<open>Where an offset of the old image lies in the new one.\<close>

definition moved :: "reloc \<Rightarrow> u32 \<Rightarrow> u32" where
  "moved r w = (if unat w < rl_moved_from r then w else word_of_int (uint w + sint (rl_delta r)))"

definition moved_info :: "reloc \<Rightarrow> u32 \<Rightarrow> u32" where
  "moved_info r w = (if w = 0 then 0 else moved r w)"

lemma shifted_moved:
  assumes "shifted (unat w) r width what = Inr n" and "unat w < 2 ^ width" and "width \<le> 32"
  shows "n < 2 ^ width" and "(of_nat n :: u32) = moved r w"
proof -
  show "n < 2 ^ width" using assms by (auto simp: shifted_def Let_def nat_less_iff split: if_splits)
  show "(of_nat n :: u32) = moved r w"
    using assms(1) by (auto simp: shifted_def Let_def moved_def not_less of_nat_nat split: if_splits)
qed

lemma put_of_nat:
  assumes "n < 2 ^ w" and "w \<le> 32" and "p + w \<le> 128"
  shows "bits (put_bits (of_nat n :: u128) p w) p w = (of_nat n :: u32)"
proof -
  have "n < 2 ^ 128"
    using assms(1,2) power_increasing[of w 128 "2 :: nat"] by linarith
  then show ?thesis
    using assms by (simp add: bits_put_wide take_bit_of_nat take_bit_nat_eq_self unsigned_of_nat)
qed

lemma put_bits_ucast: "put_bits (ucast (v :: u32) :: u128) p w = put_bits v p w"
  by (rule bit_word_eqI) (auto simp: bit_put_bits bit_ucast_iff dest: bit_imp_le_length)

lemma bits_set_same:
  assumes "n < 2 ^ w" and "w \<le> 32" and "p + w \<le> 128"
  shows "bits (set_bits raw p w (of_nat n)) p w = (of_nat n :: u32)"
  using put_of_nat[OF assms] by (simp add: set_bits_eq field_simps)

lemma bits_set_other [field_simps]:
  "q + w' \<le> p \<or> p + w \<le> q \<Longrightarrow> bits (set_bits raw q w' v) p w = bits raw p w"
  by (simp add: set_bits_eq field_simps)

lemma bits_set_size:
  assumes "set_size raw w new_size = Inr raw'" and "w \<le> 32"
  shows "bits raw' 32 w = (case new_size of None \<Rightarrow> bits raw 32 w :: u32 | Some s \<Rightarrow> s)"
    and "q + w' \<le> 32 \<or> 32 + w \<le> q \<Longrightarrow> bits raw' q w' = bits raw q w'"
  using assms
  by (auto simp: set_size_def res_bind_Inr_iff checked_size_def set_bits_eq put_bits_ucast field_simps
      not_le split: option.splits if_splits)

section \<open>Buffers that differ in a few places\<close>

definition same_outside :: "nat set \<Rightarrow> u8 list \<Rightarrow> u8 list \<Rightarrow> bool" where
  "same_outside A b b' \<longleftrightarrow> length b' = length b \<and> (\<forall>i < length b. i \<notin> A \<longrightarrow> b' ! i = b ! i)"

lemma same_outside_refl [simp]: "same_outside A b b"
  by (simp add: same_outside_def)

lemma same_outside_trans [trans]: "same_outside A b c \<Longrightarrow> same_outside B c d \<Longrightarrow> same_outside (A \<union> B) b d"
  by (simp add: same_outside_def)

lemma same_outside_twice: "same_outside A b c \<Longrightarrow> same_outside A c d \<Longrightarrow> same_outside A b d"
  by (simp add: same_outside_def)

lemma same_outside_mono: "same_outside A b c \<Longrightarrow> A \<subseteq> B \<Longrightarrow> same_outside B b c"
  by (auto simp: same_outside_def)

lemma same_outside_length: "same_outside A b c \<Longrightarrow> length c = length b"
  by (simp add: same_outside_def)

lemma same_outside_put:
  "p + length ys \<le> length b \<Longrightarrow> same_outside {p..<p + length ys} b (put_at b p ys)"
  by (auto simp: same_outside_def nth_put_at)

lemma same_outside_get:
  assumes "same_outside A b c" and "p + n \<le> length b" and "{p..<p + n} \<inter> A = {}"
  shows "get_at n c p = get_at n b p"
proof (rule nth_equalityI)
  show "length (get_at n c p) = length (get_at n b p)" using assms(1,2) by (simp add: same_outside_def)
next
  fix i assume "i < length (get_at n c p)"
  then have i: "i < n" "p + i < length b" using assms by (auto simp: same_outside_def get_at_def)
  then have "p + i \<in> {p..<p + n}" by simp
  then have "p + i \<notin> A" using assms(3) by blast
  with i show "get_at n c p ! i = get_at n b p ! i"
    using assms(1,2) by (simp add: get_at_def same_outside_def)
qed

section \<open>The slot of a function\<close>

text \<open>How a layout reads the slot of a function: inline, or at the large header its packed
  pointer names.  A slot is canonical when the pointer the relocation reads is the one the
  parser follows.\<close>

record slot_format =
  sf_hsize :: nat
  sf_lsize :: nat
  sf_overflowed :: "u8 list \<Rightarrow> bool"
  sf_pointer :: "u8 list \<Rightarrow> nat"
  sf_canonical :: "u8 list \<Rightarrow> bool"
  sf_small :: "u8 list \<Rightarrow> u32 \<Rightarrow> function_header"
  sf_large :: "u8 list \<Rightarrow> nat \<Rightarrow> u32 \<Rightarrow> function_header"

definition slot_at :: "slot_format \<Rightarrow> u8 list \<Rightarrow> nat \<Rightarrow> nat \<Rightarrow> u8 list" where
  "slot_at F bs t i = get_at (sf_hsize F) bs (t + i * sf_hsize F)"

definition header_at :: "slot_format \<Rightarrow> u8 list \<Rightarrow> nat \<Rightarrow> nat \<Rightarrow> function_header" where
  "header_at F bs t i =
     (let s = slot_at F bs t i in
      if sf_overflowed F s then sf_large F (get_at (sf_lsize F) bs (sf_pointer F s)) (sf_pointer F s) (of_nat i)
      else sf_small F s (of_nat i))"

definition headers_in :: "slot_format \<Rightarrow> u8 list \<Rightarrow> nat \<Rightarrow> nat \<Rightarrow> function_header list" where
  "headers_in F bs t n = map (header_at F bs t) [0..<n]"

text \<open>Every large header named by the table lies inside the buffer.\<close>

definition in_bounds :: "slot_format \<Rightarrow> u8 list \<Rightarrow> nat \<Rightarrow> nat \<Rightarrow> bool" where
  "in_bounds F bs t n \<longleftrightarrow> t + n * sf_hsize F \<le> length bs
     \<and> (\<forall>i < n. sf_overflowed F (slot_at F bs t i) \<longrightarrow>
          sf_pointer F (slot_at F bs t i) + sf_lsize F \<le> length bs)"

text \<open>The arrangement a relocation expects: large headers past the replaced region, no two of
  them overlapping, all packed pointers canonical.\<close>

definition well_placed :: "slot_format \<Rightarrow> u8 list \<Rightarrow> nat \<Rightarrow> nat \<Rightarrow> nat \<Rightarrow> bool" where
  "well_placed F bs t n moved_from \<longleftrightarrow> in_bounds F bs t n
     \<and> (\<forall>i < n. sf_overflowed F (slot_at F bs t i) \<longrightarrow>
          sf_canonical F (slot_at F bs t i) \<and> moved_from \<le> sf_pointer F (slot_at F bs t i)
          \<and> (\<forall>j < i. sf_overflowed F (slot_at F bs t j) \<longrightarrow>
               sf_pointer F (slot_at F bs t i) + sf_lsize F \<le> sf_pointer F (slot_at F bs t j)
               \<or> sf_pointer F (slot_at F bs t j) + sf_lsize F \<le> sf_pointer F (slot_at F bs t i)))"

definition new_size :: "u32 option \<Rightarrow> u32 \<Rightarrow> u32" where
  "new_size ns old = (case ns of None \<Rightarrow> old | Some s \<Rightarrow> s)"

fun moved_header :: "reloc \<Rightarrow> u32 option \<Rightarrow> function_header \<Rightarrow> function_header" where
  "moved_header r ns (LegacyHeader h) =
     LegacyHeader (h\<lparr>lf_offset := moved r (lf_offset h), lf_info_offset := moved_info r (lf_info_offset h),
       lf_bytecode_size := new_size ns (lf_bytecode_size h)\<rparr>)"
| "moved_header r ns (ModernHeader h) =
     ModernHeader (h\<lparr>mf_offset := moved r (mf_offset h), mf_info_offset := moved_info r (mf_info_offset h),
       mf_bytecode_size := new_size ns (mf_bytecode_size h)\<rparr>)"

definition splice_at :: "'a list \<Rightarrow> nat \<Rightarrow> nat \<Rightarrow> 'a list \<Rightarrow> 'a list" where
  "splice_at xs a e ys = take a xs @ ys @ drop e xs"

lemma get_splice_before: "p + n \<le> a \<Longrightarrow> a \<le> length xs \<Longrightarrow> get_at n (splice_at xs a e ys) p = get_at n xs p"
  by (simp add: get_at_def splice_at_def drop_take[symmetric] take_drop min_def)

lemma get_splice_after: "a \<le> e \<Longrightarrow> e \<le> length xs \<Longrightarrow> e \<le> p \<Longrightarrow>
    get_at n (splice_at xs a e ys) (a + length ys + (p - e)) = get_at n xs p"
  by (simp add: get_at_def splice_at_def)

definition moved_pos :: "reloc \<Rightarrow> nat \<Rightarrow> nat" where
  "moved_pos r p = (if p < rl_moved_from r then p else nat (int p + sint (rl_delta r)))"

text \<open>A header whose moved offsets, and whose new size, fit the fields they are stored in: 25
  bits and 15 or 14 bits inline, 32 bits in a large header.\<close>

definition offset_fits :: "reloc \<Rightarrow> nat \<Rightarrow> u32 \<Rightarrow> bool" where
  "offset_fits r width w \<longleftrightarrow>
     unat w < rl_moved_from r \<or> (0 \<le> uint w + sint (rl_delta r) \<and> uint w + sint (rl_delta r) < 2 ^ width)"

definition size_fits :: "nat \<Rightarrow> u32 option \<Rightarrow> bool" where
  "size_fits width ns \<longleftrightarrow> (case ns of None \<Rightarrow> True | Some s \<Rightarrow> unat s < 2 ^ width)"

fun header_fits :: "reloc \<Rightarrow> u32 option \<Rightarrow> function_header \<Rightarrow> bool" where
  "header_fits r ns (LegacyHeader h) \<longleftrightarrow>
     (if lf_flags h AND FLAG_OVERFLOWED \<noteq> 0
      then offset_fits r 32 (lf_offset h) \<and> (lf_info_offset h \<noteq> 0 \<longrightarrow> offset_fits r 32 (lf_info_offset h))
      else offset_fits r 25 (lf_offset h) \<and> (lf_info_offset h \<noteq> 0 \<longrightarrow> offset_fits r 25 (lf_info_offset h))
        \<and> size_fits 15 ns)"
| "header_fits r ns (ModernHeader h) \<longleftrightarrow>
     (if mf_flags h AND FLAG_OVERFLOWED \<noteq> 0 then offset_fits r 32 (mf_offset h)
      else offset_fits r 25 (mf_offset h) \<and> size_fits 14 ns)"

text \<open>The bytes a turn of the loop may write.\<close>

definition slot_span :: "slot_format \<Rightarrow> nat \<Rightarrow> nat \<Rightarrow> nat set" where
  "slot_span F t i = {t + i * sf_hsize F..<t + i * sf_hsize F + sf_hsize F}"

definition large_span :: "slot_format \<Rightarrow> reloc \<Rightarrow> u8 list \<Rightarrow> nat \<Rightarrow> nat \<Rightarrow> nat set" where
  "large_span F r a t i =
     (if sf_overflowed F (slot_at F a t i)
      then let q = moved_pos r (sf_pointer F (slot_at F a t i)) in {q..<q + sf_lsize F} else {})"

text \<open>What one turn of the loop promises for the slot at \<open>p\<close>: it writes only the slot and the
  large header it names, at its new place, and what is read there afterwards is the old header
  moved.\<close>

locale header_slots =
  fixes F :: slot_format
    and step :: "reloc \<Rightarrow> u32 option \<Rightarrow> nat \<Rightarrow> u8 list \<Rightarrow> u8 list result"
  assumes small_step: "\<And>r ns p b b' fid. \<lbrakk>step r ns p b = Inr b'; p + sf_hsize F \<le> length b;
      \<not> sf_overflowed F (get_at (sf_hsize F) b p)\<rbrakk>
    \<Longrightarrow> same_outside {p..<p + sf_hsize F} b b'
      \<and> \<not> sf_overflowed F (get_at (sf_hsize F) b' p)
      \<and> sf_small F (get_at (sf_hsize F) b' p) fid = moved_header r ns (sf_small F (get_at (sf_hsize F) b p) fid)"
    and small_progress: "\<And>r ns p b. \<lbrakk>p + sf_hsize F \<le> length b;
      \<not> sf_overflowed F (get_at (sf_hsize F) b p);
      \<exists>fid. header_fits r ns (sf_small F (get_at (sf_hsize F) b p) fid)\<rbrakk> \<Longrightarrow> \<exists>b'. step r ns p b = Inr b'"
    and large_progress: "\<And>r ns p b s q. \<lbrakk>p + sf_hsize F \<le> length b; s = get_at (sf_hsize F) b p;
      sf_overflowed F s; sf_canonical F s; rl_moved_from r \<le> sf_pointer F s; q = moved_pos r (sf_pointer F s);
      p + sf_hsize F \<le> q; q + sf_lsize F \<le> length b; q < 2 ^ 32;
      \<exists>fid. header_fits r ns (sf_large F (get_at (sf_lsize F) b q) (sf_pointer F s) fid)\<rbrakk> \<Longrightarrow> \<exists>b'. step r ns p b = Inr b'"
    and large_step: "\<And>r ns p b b' fid s ptr q. \<lbrakk>step r ns p b = Inr b'; p + sf_hsize F \<le> length b;
      s = get_at (sf_hsize F) b p; sf_overflowed F s; sf_canonical F s; ptr = sf_pointer F s;
      rl_moved_from r \<le> ptr; ptr + sf_lsize F + 3 < 2 ^ 32; 4 dvd sint (rl_delta r);
      q = moved_pos r ptr; p + sf_hsize F \<le> q; q + sf_lsize F \<le> length b\<rbrakk>
    \<Longrightarrow> same_outside ({p..<p + sf_hsize F} \<union> {q..<q + sf_lsize F}) b b'
      \<and> sf_overflowed F (get_at (sf_hsize F) b' p) \<and> sf_pointer F (get_at (sf_hsize F) b' p) = q
      \<and> sf_large F (get_at (sf_lsize F) b' q) q fid = moved_header r ns (sf_large F (get_at (sf_lsize F) b q) ptr fid)"
begin

lemma slot_start: "i < n \<Longrightarrow> t + i * sf_hsize F + sf_hsize F \<le> t + n * sf_hsize F"
  by (metis add.assoc add_left_mono less_eq_Suc_le mult_Suc mult_le_mono1 add.commute)

lemma moved_header_at:
  assumes wp: "well_placed F a t n e" and ord: "t + n * sf_hsize F \<le> s" "s \<le> e" "e \<le> length a"
    and len: "length a + 3 < 2 ^ 32" and r: "rl_moved_from r = e" "sint (rl_delta r) = int (length body) - int (e - s)"
      "4 dvd sint (rl_delta r)"
    and i: "i < n" and b: "\<And>p m. p + m \<le> length (splice_at a s e body) \<Longrightarrow> {p..<p + m} \<subseteq> slot_span F t i \<or> {p..<p + m} \<subseteq> large_span F r a t i
      \<Longrightarrow> get_at m b p = get_at m (splice_at a s e body) p" and lb: "length b = length (splice_at a s e body)"
    and run: "step r ns (t + i * sf_hsize F) b = Inr b'"
  shows "same_outside (slot_span F t i \<union> large_span F r a t i) b b'
    \<and> header_at F b' t i = moved_header r ns (header_at F a t i)
    \<and> sf_overflowed F (slot_at F b' t i) = sf_overflowed F (slot_at F a t i)
    \<and> (sf_overflowed F (slot_at F a t i) \<longrightarrow> sf_pointer F (slot_at F b' t i) = moved_pos r (sf_pointer F (slot_at F a t i)))"
proof -
  let ?B = "splice_at a s e body" and ?p = "t + i * sf_hsize F" and ?s = "slot_at F a t i"
  have p: "?p + sf_hsize F \<le> s" using slot_start[OF i] ord(1) by (rule order_trans)
  then have pb: "?p + sf_hsize F \<le> length ?B" using ord by (simp add: splice_at_def)
  have slot: "get_at (sf_hsize F) b ?p = ?s"
    using b[OF pb] p ord get_splice_before[of ?p "sf_hsize F" s a e body] by (simp add: slot_span_def slot_at_def)
  show ?thesis
  proof (cases "sf_overflowed F ?s")
    case False
    from small_step[OF run, of "of_nat i"] pb False show ?thesis
      by (simp add: lb slot header_at_def slot_at_def[of F b'] large_span_def slot_span_def)
  next
    case True
    define ptr where "ptr = sf_pointer F ?s"
    define q where "q = moved_pos r ptr"
    from wp i True have w: "sf_canonical F ?s" "e \<le> ptr" "ptr + sf_lsize F \<le> length a"
      by (auto simp: well_placed_def in_bounds_def ptr_def)
    have q: "q = s + length body + (ptr - e)"
      using w(2) r ord by (simp add: q_def moved_pos_def)
    have pq: "?p + sf_hsize F \<le> q" using p by (simp add: q)
    have qb: "q + sf_lsize F \<le> length ?B" using w(2,3) ord by (simp add: q splice_at_def)
    have lspan: "large_span F r a t i = {q..<q + sf_lsize F}" using True by (simp add: large_span_def q_def ptr_def Let_def)
    have large: "get_at (sf_lsize F) b q = get_at (sf_lsize F) a ptr"
      using b[OF qb] get_splice_after[of s e a ptr "sf_lsize F" body] w(2) ord lspan by (simp add: q)
    have "same_outside ({?p..<?p + sf_hsize F} \<union> {q..<q + sf_lsize F}) b b'
      \<and> sf_overflowed F (get_at (sf_hsize F) b' ?p) \<and> sf_pointer F (get_at (sf_hsize F) b' ?p) = q
      \<and> sf_large F (get_at (sf_lsize F) b' q) q (of_nat i) = moved_header r ns (sf_large F (get_at (sf_lsize F) b q) ptr (of_nat i))"
      by (rule large_step[OF run, of ?s])
         (use pb qb[unfolded q_def] pq[unfolded q_def] w r len True in \<open>simp_all add: lb slot q_def flip: ptr_def\<close>)
    with True show ?thesis
      by (simp add: lspan slot_span_def header_at_def slot_at_def[of F b'] large flip: ptr_def q_def)
  qed
qed

lemma spans_disjoint:
  assumes wp: "well_placed F a t n e" and ord: "t + n * sf_hsize F \<le> s" "s \<le> e"
    and r: "rl_moved_from r = e" "sint (rl_delta r) = int (length body) - int (e - s)"
    and ij: "i < n" "j < n" "i \<noteq> j"
  shows "(slot_span F t i \<union> large_span F r a t i) \<inter> (slot_span F t j \<union> large_span F r a t j) = {}"
proof -
  have mv: "moved_pos r x = s + length body + (x - e)" if "e \<le> x" for x
    using that r ord by (simp add: moved_pos_def)
  have low: "x < s" if "k < n" "x \<in> slot_span F t k" for k x
    using slot_start[OF that(1)] that(2) ord(1) by (fastforce simp: slot_span_def)
  have high: "s \<le> x" if "k < n" "x \<in> large_span F r a t k" for k x
    using that wp mv by (auto simp: large_span_def well_placed_def Let_def split: if_splits)
  have 1: "slot_span F t i \<inter> slot_span F t j = {}"
  proof (cases "i < j")
    case True
    then show ?thesis using slot_start[OF True, of t] by (auto simp: slot_span_def)
  next
    case False
    then have "j < i" using ij(3) by simp
    then show ?thesis using slot_start[of j i t] by (auto simp: slot_span_def)
  qed
  have 2: "large_span F r a t i \<inter> large_span F r a t j = {}" if "i < n" "j < i" for i j
  proof (cases "sf_overflowed F (slot_at F a t i) \<and> sf_overflowed F (slot_at F a t j)")
    case True
    then have "e \<le> sf_pointer F (slot_at F a t i)" "e \<le> sf_pointer F (slot_at F a t j)"
      and d: "sf_pointer F (slot_at F a t i) + sf_lsize F \<le> sf_pointer F (slot_at F a t j)
        \<or> sf_pointer F (slot_at F a t j) + sf_lsize F \<le> sf_pointer F (slot_at F a t i)"
      using wp that by (simp_all add: well_placed_def)
    with True show ?thesis by (auto simp: large_span_def Let_def mv)
  next
    case False
    then show ?thesis by (auto simp: large_span_def)
  qed
  have "large_span F r a t i \<inter> large_span F r a t j = {}"
    using 2[of i j] 2[of j i] ij by (cases "j < i") auto
  moreover have sl: "slot_span F t i \<inter> large_span F r a t j = {}" if "i < n" "j < n" for i j
    by (auto dest!: low[OF that(1)] high[OF that(2)])
  ultimately show ?thesis using 1 sl[OF ij(1,2)] sl[OF ij(2,1)] by blast
qed

lemma header_at_cong:
  assumes "same_outside A b c" and "A \<inter> (slot_span F t i \<union> W) = {}"
    and "t + i * sf_hsize F + sf_hsize F \<le> length b"
    and "sf_overflowed F (slot_at F b t i) \<Longrightarrow> W = {sf_pointer F (slot_at F b t i)..<sf_pointer F (slot_at F b t i) + sf_lsize F}
       \<and> sf_pointer F (slot_at F b t i) + sf_lsize F \<le> length b"
  shows "slot_at F c t i = slot_at F b t i" and "header_at F c t i = header_at F b t i"
proof -
  show s: "slot_at F c t i = slot_at F b t i"
    unfolding slot_at_def by (rule same_outside_get[OF assms(1,3)]) (use assms(2) in \<open>auto simp: slot_span_def\<close>)
  have "get_at (sf_lsize F) c (sf_pointer F (slot_at F b t i)) = get_at (sf_lsize F) b (sf_pointer F (slot_at F b t i))"
    if "sf_overflowed F (slot_at F b t i)"
    by (rule same_outside_get[OF assms(1)]) (use assms(2) assms(4)[OF that] in auto)
  then show "header_at F c t i = header_at F b t i" by (simp add: header_at_def s Let_def)
qed

lemma moved_headers_upto:
  assumes wp: "well_placed F a t n e" and ord: "t + n * sf_hsize F \<le> s" "s \<le> e" "e \<le> length a"
    and len: "length a + 3 < 2 ^ 32" and r: "rl_moved_from r = e" "sint (rl_delta r) = int (length body) - int (e - s)"
      "4 dvd sint (rl_delta r)"
  shows "k \<le> n \<Longrightarrow> res_fold (\<lambda>i. step r (resized_to r i) (t + i * sf_hsize F)) [0..<k] (splice_at a s e body) = Inr b \<Longrightarrow>
    same_outside (\<Union>i<k. slot_span F t i \<union> large_span F r a t i) (splice_at a s e body) b
    \<and> (\<forall>i<k. header_at F b t i = moved_header r (resized_to r i) (header_at F a t i)
        \<and> sf_overflowed F (slot_at F b t i) = sf_overflowed F (slot_at F a t i)
        \<and> (sf_overflowed F (slot_at F a t i) \<longrightarrow> sf_pointer F (slot_at F b t i) = moved_pos r (sf_pointer F (slot_at F a t i))))"
proof (induction k arbitrary: b)
  case 0
  then show ?case by simp
next
  case (Suc k)
  let ?B = "splice_at a s e body" and ?W = "\<lambda>i. slot_span F t i \<union> large_span F r a t i"
  from Suc.prems(2) obtain c where c: "res_fold (\<lambda>i. step r (resized_to r i) (t + i * sf_hsize F)) [0..<k] ?B = Inr c"
    and run: "step r (resized_to r k) (t + k * sf_hsize F) c = Inr b"
    by (auto simp: res_fold_append res_bind_Inr_iff)
  from Suc.IH[OF _ c] Suc.prems(1) have 1: "same_outside (\<Union>i<k. ?W i) ?B c" and
    2: "\<And>i. i < k \<Longrightarrow> header_at F c t i = moved_header r (resized_to r i) (header_at F a t i)
        \<and> sf_overflowed F (slot_at F c t i) = sf_overflowed F (slot_at F a t i)
        \<and> (sf_overflowed F (slot_at F a t i) \<longrightarrow> sf_pointer F (slot_at F c t i) = moved_pos r (sf_pointer F (slot_at F a t i)))" by simp_all
  have dj: "?W i \<inter> ?W k = {}" if "i < k" for i
    using spans_disjoint[OF wp ord(1,2) r(1,2), of i k] that Suc.prems(1) by simp
  have 3: "same_outside (?W k) c b \<and> header_at F b t k = moved_header r (resized_to r k) (header_at F a t k)
      \<and> sf_overflowed F (slot_at F b t k) = sf_overflowed F (slot_at F a t k)
      \<and> (sf_overflowed F (slot_at F a t k) \<longrightarrow> sf_pointer F (slot_at F b t k) = moved_pos r (sf_pointer F (slot_at F a t k)))"
  proof (rule moved_header_at[OF wp ord len r _ _ _ run])
    show "k < n" using Suc.prems(1) by simp
    show "length c = length ?B" by (rule same_outside_length[OF 1])
    fix p m assume "p + m \<le> length ?B" "{p..<p + m} \<subseteq> slot_span F t k \<or> {p..<p + m} \<subseteq> large_span F r a t k"
    then have "p + m \<le> length ?B" "{p..<p + m} \<subseteq> ?W k" by auto
    then show "get_at m c p = get_at m ?B p"
      by (intro same_outside_get[OF 1]) (use dj in blast)+
  qed
  have lc: "length c = length ?B" by (rule same_outside_length[OF 1])
  have 4: "slot_at F b t i = slot_at F c t i \<and> header_at F b t i = header_at F c t i" if "i < k" for i
  proof -
    have "t + i * sf_hsize F + sf_hsize F \<le> length c"
      using slot_start[of i n t] that Suc.prems(1) ord by (simp add: lc splice_at_def)
    moreover have "large_span F r a t i = {sf_pointer F (slot_at F c t i)..<sf_pointer F (slot_at F c t i) + sf_lsize F}
       \<and> sf_pointer F (slot_at F c t i) + sf_lsize F \<le> length c" if o: "sf_overflowed F (slot_at F c t i)"
    proof -
      have o': "sf_overflowed F (slot_at F a t i)" and q: "sf_pointer F (slot_at F c t i) = moved_pos r (sf_pointer F (slot_at F a t i))"
        using 2[OF \<open>i < k\<close>] o by simp_all
      from wp \<open>i < k\<close> Suc.prems(1) o' have "e \<le> sf_pointer F (slot_at F a t i)"
        "sf_pointer F (slot_at F a t i) + sf_lsize F \<le> length a" by (simp_all add: well_placed_def in_bounds_def)
      with r ord o' show ?thesis by (simp add: q large_span_def Let_def lc splice_at_def moved_pos_def)
    qed
    ultimately show ?thesis
      using header_at_cong[OF 3[THEN conjunct1], of t i "large_span F r a t i"] dj[OF that] by (simp add: Int_commute)
  qed
  have "same_outside ((\<Union>i<k. ?W i) \<union> ?W k) ?B b"
    using 1 3[THEN conjunct1] by (rule same_outside_trans)
  moreover have "(\<Union>i<k. ?W i) \<union> ?W k = (\<Union>i<Suc k. ?W i)" by (auto simp: less_Suc_eq)
  ultimately show ?case using 2 3 4 by (auto simp: less_Suc_eq)
qed

lemma moved_header_progress:
  assumes wp: "well_placed F a t n e" and ord: "t + n * sf_hsize F \<le> s" "s \<le> e" "e \<le> length a"
    and len: "length (splice_at a s e body) < 2 ^ 32"
    and r: "rl_moved_from r = e" "sint (rl_delta r) = int (length body) - int (e - s)"
    and i: "i < n" and same: "same_outside A (splice_at a s e body) b"
    and A: "A \<inter> (slot_span F t i \<union> large_span F r a t i) = {}"
    and fit: "header_fits r ns (header_at F a t i)"
  shows "\<exists>b'. step r ns (t + i * sf_hsize F) b = Inr b'"
proof -
  let ?B = "splice_at a s e body" and ?p = "t + i * sf_hsize F" and ?s = "slot_at F a t i"
  have lb: "length b = length ?B" by (rule same_outside_length[OF same])
  have p: "?p + sf_hsize F \<le> s" using slot_start[OF i] ord(1) by (rule order_trans)
  then have pb: "?p + sf_hsize F \<le> length ?B" using ord by (simp add: splice_at_def)
  have "get_at (sf_hsize F) b ?p = get_at (sf_hsize F) ?B ?p"
    by (rule same_outside_get[OF same pb]) (use A in \<open>auto simp: slot_span_def\<close>)
  then have slot: "get_at (sf_hsize F) b ?p = ?s"
    using p ord get_splice_before[of ?p "sf_hsize F" s a e body] by (simp add: slot_at_def)
  show ?thesis
  proof (cases "sf_overflowed F ?s")
    case False
    with fit pb slot show ?thesis by (intro small_progress) (auto simp: lb header_at_def)
  next
    case True
    define ptr where "ptr = sf_pointer F ?s"
    define q where "q = moved_pos r ptr"
    from wp i True have w: "sf_canonical F ?s" "e \<le> ptr" "ptr + sf_lsize F \<le> length a"
      by (auto simp: well_placed_def in_bounds_def ptr_def)
    have q: "q = s + length body + (ptr - e)"
      using w(2) r ord by (simp add: q_def moved_pos_def)
    have qb: "q + sf_lsize F \<le> length ?B" using w(2,3) ord by (simp add: q splice_at_def)
    have "get_at (sf_lsize F) b q = get_at (sf_lsize F) ?B q"
      by (rule same_outside_get[OF same qb]) (use A True in \<open>auto simp: large_span_def q_def ptr_def Let_def\<close>)
    then have large: "get_at (sf_lsize F) b q = get_at (sf_lsize F) a ptr"
      using get_splice_after[of s e a ptr "sf_lsize F" body] w(2) ord by (simp add: q)
    have f: "\<exists>fid. header_fits r ns (sf_large F (get_at (sf_lsize F) b q) (sf_pointer F ?s) fid)"
      using fit True by (auto simp: header_at_def large simp flip: ptr_def)
    have "?p + sf_hsize F \<le> q" "q < 2 ^ 32" using p q qb len by simp_all
    with pb qb w(1,2) True f r slot show ?thesis
      by (intro large_progress[of ?p b ?s r q ns]) (simp_all add: lb q_def ptr_def)
  qed
qed

lemma moved_headers_progress:
  assumes wp: "well_placed F a t n e" and ord: "t + n * sf_hsize F \<le> s" "s \<le> e" "e \<le> length a"
    and len: "length a + 3 < 2 ^ 32" "length (splice_at a s e body) < 2 ^ 32"
    and r: "rl_moved_from r = e" "sint (rl_delta r) = int (length body) - int (e - s)" "4 dvd sint (rl_delta r)"
    and fit: "\<And>i. i < n \<Longrightarrow> header_fits r (resized_to r i) (header_at F a t i)"
  shows "k \<le> n \<Longrightarrow> \<exists>b. res_fold (\<lambda>i. step r (resized_to r i) (t + i * sf_hsize F)) [0..<k] (splice_at a s e body) = Inr b"
proof (induction k)
  case 0
  then show ?case by simp
next
  case (Suc k)
  then obtain b where b: "res_fold (\<lambda>i. step r (resized_to r i) (t + i * sf_hsize F)) [0..<k] (splice_at a s e body) = Inr b"
    by auto
  note up = moved_headers_upto[OF wp ord len(1) r _ b, THEN conjunct1]
  have "(slot_span F t i \<union> large_span F r a t i) \<inter> (slot_span F t k \<union> large_span F r a t k) = {}" if "i < k" for i
    using spans_disjoint[OF wp ord(1,2) r(1,2), of i k] that Suc.prems by simp
  then have "(\<Union>i<k. slot_span F t i \<union> large_span F r a t i) \<inter> (slot_span F t k \<union> large_span F r a t k) = {}" by blast
  with moved_header_progress[OF wp ord len(2) r(1,2) _ up _ fit] Suc.prems
  obtain b' where "step r (resized_to r k) (t + k * sf_hsize F) b = Inr b'" by fastforce
  with b show ?case by (simp add: res_fold_append)
qed

end

section \<open>Both layouts\<close>

lemma bits_of_byte:
  assumes "k < length s" and "8 * k + 8 \<le> 128"
  shows "bits (from_le s) (8 * k) 8 = (s ! k :: u8)"
proof (rule bit_word_eqI)
  fix i assume "i < LENGTH(8)"
  then have "(8 * k + i) div 8 = k" "(8 * k + i) mod 8 = i" "8 * k + i < 8 * length s" using assms by simp_all
  then show "bit (bits (from_le s) (8 * k) 8 :: u8) i = bit (s ! k) i"
    using \<open>i < LENGTH(8)\<close> assms(2) by (auto simp: bit_bits bit_from_le)
qed

definition legacy_large_fields :: "u8 list \<Rightarrow> u32 \<Rightarrow> legacy_function_header" where
  "legacy_large_fields raw fid =
     \<lparr>lf_function_id = fid, lf_offset = u32_at raw 0, lf_param_count = u32_at raw 4,
      lf_bytecode_size = u32_at raw 8, lf_function_name = u32_at raw 12, lf_info_offset = u32_at raw 16,
      lf_frame_size = u32_at raw 20, lf_environment_size = u32_at raw 24,
      lf_highest_read_cache_index = ucast (raw ! 28), lf_highest_write_cache_index = ucast (raw ! 29),
      lf_flags = raw ! 30 OR FLAG_OVERFLOWED\<rparr>"

definition modern_large_fields :: "modern_layout \<Rightarrow> u8 list \<Rightarrow> nat \<Rightarrow> u32 \<Rightarrow> modern_function_header" where
  "modern_large_fields l raw ptr fid =
     \<lparr>mf_function_id = fid,
        mf_offset = u32_at raw MODERN_LARGE_OFFSET,
        mf_param_count = u32_at raw MODERN_LARGE_PARAM_COUNT,
        mf_loop_depth = u32_at raw MODERN_LARGE_LOOP_DEPTH,
        mf_bytecode_size = u32_at raw MODERN_LARGE_BYTECODE_SIZE,
        mf_function_name = u32_at raw MODERN_LARGE_FUNCTION_NAME,
        mf_number_reg_count = u32_at raw MODERN_LARGE_NUMBER_REG_COUNT,
        mf_non_ptr_reg_count = u32_at raw MODERN_LARGE_NON_PTR_REG_COUNT,
        mf_frame_size = u32_at raw MODERN_LARGE_FRAME_SIZE,
        mf_read_cache_size = raw ! large_read_cache_size_pos l,
        mf_write_cache_size = raw ! large_write_cache_size_pos l,
        mf_num_cache_new_object =
          (case large_num_cache_new_object_pos l of None \<Rightarrow> 0 | Some p \<Rightarrow> raw ! p),
        mf_private_name_cache_size = raw ! large_private_name_cache_size_pos l,
        mf_flags = raw ! large_flags_pos l OR FLAG_OVERFLOWED,
        mf_info_offset = of_nat (info_offset_for l ptr)\<rparr>"

definition modern_word :: "u8 list \<Rightarrow> u128" where
  "modern_word s = from_le (s @ replicate 4 0)"

definition legacy_format :: slot_format where
  "legacy_format =
     \<lparr>sf_hsize = 16, sf_lsize = 31,
      sf_overflowed = (\<lambda>s. lf_flags (legacy_small_fields (from_le s) 0) AND FLAG_OVERFLOWED \<noteq> 0),
      sf_pointer = (\<lambda>s. unat (legacy_large_offset (legacy_small_fields (from_le s) 0))),
      sf_canonical = (\<lambda>s. case read_legacy_large_pointer s of
         Inr p \<Rightarrow> ucast p = legacy_large_offset (legacy_small_fields (from_le s) 0) | Inl _ \<Rightarrow> False),
      sf_small = (\<lambda>s fid. LegacyHeader (legacy_small_fields (from_le s) fid)),
      sf_large = (\<lambda>raw ptr fid. LegacyHeader (legacy_large_fields raw fid))\<rparr>"

definition modern_format :: "modern_layout \<Rightarrow> slot_format" where
  "modern_format l =
     \<lparr>sf_hsize = 12, sf_lsize = large_size l,
      sf_overflowed = (\<lambda>s. mf_flags (modern_small_fields l (modern_word s) 0) AND FLAG_OVERFLOWED \<noteq> 0),
      sf_pointer = (\<lambda>s. unat (modern_large_offset (modern_small_fields l (modern_word s) 0))),
      sf_canonical = (\<lambda>s. True),
      sf_small = (\<lambda>s fid. ModernHeader (modern_small_fields l (modern_word s) fid)),
      sf_large = (\<lambda>raw ptr fid. ModernHeader (modern_large_fields l raw ptr fid))\<rparr>"

lemma legacy_format_simps [simp]:
  "sf_hsize legacy_format = 16" "sf_lsize legacy_format = 31"
  "sf_overflowed legacy_format s = (lf_flags (legacy_small_fields (from_le s) 0) AND FLAG_OVERFLOWED \<noteq> 0)"
  "sf_pointer legacy_format s = unat (legacy_large_offset (legacy_small_fields (from_le s) 0))"
  "sf_small legacy_format s fid = LegacyHeader (legacy_small_fields (from_le s) fid)"
  "sf_large legacy_format raw ptr fid = LegacyHeader (legacy_large_fields raw fid)"
  by (simp_all add: legacy_format_def)

lemma modern_format_simps [simp]:
  "sf_hsize (modern_format l) = 12" "sf_lsize (modern_format l) = large_size l"
  "sf_overflowed (modern_format l) s = (mf_flags (modern_small_fields l (modern_word s) 0) AND FLAG_OVERFLOWED \<noteq> 0)"
  "sf_pointer (modern_format l) s = unat (modern_large_offset (modern_small_fields l (modern_word s) 0))"
  "sf_canonical (modern_format l) s"
  "sf_small (modern_format l) s fid = ModernHeader (modern_small_fields l (modern_word s) fid)"
  "sf_large (modern_format l) raw ptr fid = ModernHeader (modern_large_fields l raw ptr fid)"
  by (simp_all add: modern_format_def)

lemma low_bits_0:
  "w \<le> 32 \<Longrightarrow> low_bits raw w = unat (bits raw 0 w :: u32)"
  using low_bits_eq[of w 0 raw] by simp

lemma low_25:
  "low_bits (drop_bit 64 raw) 25 = unat (bits raw 64 25 :: u32)" "low_bits raw 25 = unat (bits raw 0 25 :: u32)"
  by (rule low_bits_eq, simp) (rule low_bits_0, simp)

lemma relocated_legacy_small:
  assumes run: "relocate_legacy_small slot r ns = Inr slot'" and len: "length slot = 16"
  shows "length slot' = 16"
    and "LegacyHeader (legacy_small_fields (from_le slot') fid) =
       moved_header r ns (LegacyHeader (legacy_small_fields (from_le slot) fid))"
proof -
  define raw :: u128 where "raw = from_le slot"
  have whole: "take 16 slot = slot" using len by simp
  let ?w = "\<lambda>p. bits raw p 25 :: u32"
  from run len obtain off raw1 raw2 where
    off: "shifted (unat (?w 0)) r 25 ''body offset'' = Inr off"
    and info: "(if unat (bits (set_bits raw 0 25 (of_nat off)) 64 25 :: u32) \<noteq> 0
       then res_bind (shifted (unat (bits (set_bits raw 0 25 (of_nat off)) 64 25 :: u32)) r 25 ''info offset'') (\<lambda>new_info.
         Inr (set_bits (set_bits raw 0 25 (of_nat off)) 64 25 (of_nat new_info)))
       else Inr (set_bits raw 0 25 (of_nat off))) = Inr raw1"
    and sz: "set_size raw1 15 ns = Inr raw2" and slot': "slot' = put_at slot 0 (le_bytes 16 raw2)"
    unfolding relocate_legacy_small_def Let_def OFFSET_BITS_def LEGACY_SIZE_BITS_def whole low_25(1) raw_def
    unfolding low_25(2)
    by (auto simp: res_bind_Inr_iff simp del: unat_eq_0 unat_gt_0)
  show "length slot' = 16" using len by (simp add: slot')
  have raw2: "from_le slot' = raw2" using len by (simp add: slot' put_at_0 from_le_16)
  have o: "off < 2 ^ 25" "of_nat off = moved r (?w 0)"
    using shifted_moved[OF off unat_bits_less] by simp_all
  have info': "bits raw1 0 25 = moved r (?w 0) \<and> bits raw1 64 25 = moved_info r (?w 64)
    \<and> (\<forall>p w. (25 \<le> p \<and> p + w \<le> 64) \<or> 89 \<le> p \<longrightarrow> bits raw1 p w = (bits raw p w :: u32))
    \<and> (\<forall>p w. 89 \<le> p \<longrightarrow> bits raw1 p w = (bits raw p w :: u8))"
  proof (cases "?w 64 = 0")
    case True
    then show ?thesis
      using info o by (auto simp: field_simps bits_set_same moved_info_def unat_eq_0)
  next
    case False
    with info obtain n where n: "shifted (unat (?w 64)) r 25 ''info offset'' = Inr n"
      and raw1: "raw1 = set_bits (set_bits raw 0 25 (of_nat off)) 64 25 (of_nat n)"
      by (auto simp: field_simps unat_eq_0 res_bind_Inr_iff)
    from shifted_moved[OF n unat_bits_less] have "n < 2 ^ 25" "of_nat n = moved r (?w 64)" by simp_all
    with o False show ?thesis by (auto simp: raw1 field_simps bits_set_same moved_info_def)
  qed
  note set2 = bits_set_size[OF sz]
  show "LegacyHeader (legacy_small_fields (from_le slot') fid) =
       moved_header r ns (LegacyHeader (legacy_small_fields (from_le slot) fid))"
    using info' by (simp add: raw2 legacy_small_fields_def set2 new_size_def flip: raw_def split: option.split)
qed

lemma relocated_modern_small:
  assumes run: "relocate_modern_small slot r ns = Inr slot'" and len: "length slot = 12"
  shows "length slot' = 12"
    and "ModernHeader (modern_small_fields l (modern_word slot') fid) =
       moved_header r ns (ModernHeader (modern_small_fields l (modern_word slot) fid))"
proof -
  have whole: "take 12 slot = slot" using len by simp
  let ?w = "bits (modern_word slot) 0 25 :: u32"
  from run len obtain off raw2 where off: "shifted (unat ?w) r 25 ''body offset'' = Inr off"
    and sz: "set_size (set_bits (modern_word slot) 0 25 (of_nat off)) 14 ns = Inr raw2"
    and slot': "slot' = put_at slot 0 (take 12 (le_bytes 16 raw2))"
    unfolding relocate_modern_small_def Let_def OFFSET_BITS_def MODERN_SIZE_BITS_def whole low_25(2)
    by (auto simp: res_bind_Inr_iff modern_word_def)
  show "length slot' = 12" using len by (simp add: slot')
  have word: "bits (modern_word slot') p w = (bits raw2 p w :: 'a::len word)" if "p + w \<le> 96" for p w
    using len that by (simp add: slot' modern_word_def put_at_0 take_le_bytes from_le_append_zeros from_le_le_bytes field_simps)
  have "off < 2 ^ 25" "of_nat off = moved r ?w"
    using shifted_moved[OF off unat_bits_less] by simp_all
  then have o: "bits raw2 0 25 = moved r ?w"
    by (simp add: bits_set_size(2)[OF sz] bits_set_same)
  note other = bits_set_size(2)[OF sz]
  show "ModernHeader (modern_small_fields l (modern_word slot') fid) =
       moved_header r ns (ModernHeader (modern_small_fields l (modern_word slot) fid))"
    using small_write_cache_bits_def[of l]
    by (simp add: modern_small_fields_def word o other bits_set_size(1)[OF sz] field_simps moved_info_def
        new_size_def split: option.split)
qed

section \<open>Fields of a large header\<close>

lemma length_put_u32 [simp]: "p + 4 \<le> length b \<Longrightarrow> length (put_u32 b p v) = length b"
  by (simp add: put_u32_def)

lemma u32_at_put_same: "p + 4 \<le> length b \<Longrightarrow> u32_at (put_u32 b p v) p = v"
  by (simp add: u32_at_def put_u32_def le_simps)

lemma u32_at_put_other:
  "p + 4 \<le> length b \<Longrightarrow> q + 4 \<le> length b \<Longrightarrow> q + 4 \<le> p \<or> p + 4 \<le> q \<Longrightarrow> u32_at (put_u32 b p v) q = u32_at b q"
  by (simp add: u32_at_def put_u32_def get_put_other)

lemma nth_put_u32: "p + 4 \<le> length b \<Longrightarrow> i < length b \<Longrightarrow> i < p \<or> p + 4 \<le> i \<Longrightarrow> put_u32 b p v ! i = b ! i"
  by (auto simp: put_u32_def nth_put_at)

lemma put_u32_same: "p + 4 \<le> length b \<Longrightarrow> put_u32 b p (u32_at b p) = b"
  by (simp add: put_u32_def u32_at_def le_simps)

lemma u32_at_slice: "k + 4 \<le> n \<Longrightarrow> q + n \<le> length b \<Longrightarrow> u32_at (get_at n b q) k = u32_at b (q + k)"
  by (simp add: u32_at_def get_at_def min_def drop_take add.commute)

lemma nth_slice: "k < n \<Longrightarrow> q + n \<le> length b \<Longrightarrow> get_at n b q ! k = b ! (q + k)"
  by (simp add: get_at_def)

lemma same_outside_put_u32: "p + 4 \<le> length b \<Longrightarrow> same_outside {p..<p + 4} b (put_u32 b p v)"
  using same_outside_put[of p "le_bytes 4 v" b] by (simp add: put_u32_def)

lemma shift_u32_field_eq:
  assumes "shift_u32_field b p r what = Inr b'"
  shows "b' = put_u32 b p (moved r (u32_at b p))"
proof -
  have "unat (u32_at b p) < 2 ^ 32" using unsigned_less[of "u32_at b p"] by simp
  with assms shifted_moved(2)[of "u32_at b p" r 32 what] show ?thesis
    by (auto simp: shift_u32_field_def res_bind_Inr_iff)
qed

section \<open>Packed pointers\<close>

lemma shifted_pointer:
  assumes "shifted (unat (w :: u32)) r 32 what = Inr lh"
  shows "lh = moved_pos r (unat w)" and "lh \<noteq> unat w \<Longrightarrow> 0 \<le> uint w + sint (rl_delta r) \<and> uint w + sint (rl_delta r) < 2 ^ 32
      \<and> int lh = uint w + sint (rl_delta r)"
  using assms by (auto simp: shifted_def moved_pos_def Let_def split: if_splits)

lemma edit_slot:
  assumes "(if x then edit_slice b p n f else Inr b) = Inr b1" and "p + n \<le> length b"
    and "\<And>s1. x \<Longrightarrow> f (get_at n b p) = Inr s1 \<Longrightarrow> length s1 = n \<and> P s1"
    and "\<not> x \<Longrightarrow> P (get_at n b p)"
  shows "\<exists>s1. b1 = put_at b p s1 \<and> length s1 = n \<and> P s1"
proof (cases x)
  case True
  with assms(1) obtain s1 where "f (get_at n b p) = Inr s1" "b1 = put_at b p s1"
    by (auto simp: edit_slice_def res_bind_Inr_iff)
  with assms(3)[OF True] show ?thesis by blast
next
  case False
  with assms have "b1 = put_at b p (get_at n b p)" by simp
  with assms(2) assms(4)[OF False] show ?thesis by (intro exI[of _ "get_at n b p"]) simp
qed

lemma legacy_slot_shifted:
  assumes can: "sf_canonical legacy_format s" and ov: "sf_overflowed legacy_format s"
    and len: "length s = 16" and ptr: "read_legacy_large_pointer s = Inr w"
    and sh: "shifted (unat w) r 32 what = Inr lh" and "lh \<noteq> unat w"
    and run: "shift_legacy_large_pointer s (rl_delta r) = Inr s1"
  shows "length s1 = 16 \<and> sf_overflowed legacy_format s1 \<and> sf_pointer legacy_format s1 = lh"
proof -
  note b = shifted_pointer(2)[OF sh \<open>lh \<noteq> unat w\<close>]
  have l: "length s1 = 16" using run ptr len by (auto simp: shift_legacy_large_pointer_def Let_def)
  have "from_le s1 = clear_bits (clear_bits (from_le s) 0 25) 64 25
      OR put_bits (ucast w + rl_delta r :: u64) 0 16 OR put_bits (drop_bit 16 (ucast w + rl_delta r :: u64)) 64 25"
    using shift_legacy_word[OF ptr run] l len by (simp add: from_le_16)
  then have "bits (from_le s1) 120 8 = (bits (from_le s) 120 8 :: u8)" by (simp add: field_simps)
  moreover have "uint (legacy_large_offset (legacy_small_fields (from_le (take 16 s1)) 0)) = int lh"
    using legacy_parser_pointer_shifted[OF ptr _ _ run, of 0] b by simp
  ultimately show ?thesis using l ov by (simp add: legacy_small_fields_def[where fid = 0] nat_eq_iff2 unat_eq_nat_uint)
qed

lemma unat_u32_u64: "unat (ucast (w :: u32) :: u64) = unat w"
proof -
  have "unat w < 2 ^ 32" using unsigned_less[of w] by simp
  then show ?thesis by (simp add: unsigned_ucast_eq take_bit_nat_eq_self)
qed

lemma legacy_read_canonical:
  "sf_canonical legacy_format s \<Longrightarrow> read_legacy_large_pointer s = Inr w \<Longrightarrow> sf_pointer legacy_format s = unat w"
proof -
  assume "sf_canonical legacy_format s" "read_legacy_large_pointer s = Inr w"
  then have "legacy_large_offset (legacy_small_fields (from_le s) 0) = (ucast w :: u64)"
    by (simp add: legacy_format_def)
  then show ?thesis by (simp add: unat_u32_u64)
qed

lemma modern_read_pointer:
  assumes "read_modern_large_pointer s = Inr w" and "length s = 12"
  shows "sf_pointer (modern_format l) s = unat w"
proof -
  have w: "w = push_bit 24 (bits (modern_word s) 46 8) OR bits (modern_word s) 0 24"
    using assms by (simp add: read_modern_large_pointer_def modern_word_def Let_def)
  have m: "(0x00ffffff :: u64) = mask 24" by (simp add: mask_eq_exp_minus_1)
  have "modern_large_offset (modern_small_fields l (modern_word s) 0) = (ucast w :: u64)"
    unfolding w modern_large_offset_def modern_small_fields_def MODERN_LARGE_OFFSET_SHIFT_def MODERN_LARGE_OFFSET_MASK_def m
    by (rule bit_word_eqI) (auto simp: bit_simps bit_bits)
  then show ?thesis by (simp add: unat_u32_u64)
qed

lemma modern_slot_shifted:
  assumes ov: "sf_overflowed (modern_format l) s"
    and len: "length s = 12" and ptr: "read_modern_large_pointer s = Inr w"
    and sh: "shifted (unat w) r 32 what = Inr lh" and "lh \<noteq> unat w"
    and run: "shift_modern_large_pointer s (rl_delta r) = Inr s1"
  shows "length s1 = 12 \<and> sf_overflowed (modern_format l) s1 \<and> sf_pointer (modern_format l) s1 = lh"
proof -
  note b = shifted_pointer(2)[OF sh \<open>lh \<noteq> unat w\<close>]
  let ?n = "ucast w + rl_delta r :: u64"
  define raw where "raw = clear_bits (clear_bits (modern_word s) 0 24) 46 8 OR put_bits ?n 0 24 OR put_bits (drop_bit 24 ?n) 46 8"
  have s1: "s1 = le_bytes 12 raw"
    using run ptr len by (auto simp: shift_modern_large_pointer_def Let_def raw_def modern_word_def or.assoc put_at_0 take_le_bytes)
  have "bits (modern_word s1) 88 8 = (bits raw 88 8 :: u8)"
    by (simp add: s1 modern_word_def from_le_append_zeros from_le_le_bytes field_simps)
  then have "bits (modern_word s1) 88 8 = (bits (modern_word s) 88 8 :: u8)"
    by (simp add: raw_def field_simps)
  moreover have "read_modern_large_pointer s1 = Inr (word_of_int (int lh))"
    using modern_pointer_shifted[OF ptr _ _ run] b by simp
  then have "sf_pointer (modern_format l) s1 = unat (word_of_int (int lh) :: u32)"
    by (rule modern_read_pointer) (simp add: s1)
  moreover have "int lh < int (2 ^ 32)" using b by simp
  then have "lh < 2 ^ 32" by (simp only: of_nat_less_iff)
  ultimately show ?thesis
    using ov by (simp add: s1 unat_of_nat_less modern_small_fields_def[where fid = 0])
qed

section \<open>One turn of the loop\<close>

lemma info_moved:
  assumes "rl_moved_from r \<le> ptr" and "4 dvd sint (rl_delta r)" and "ptr + large_size l + 3 < 2 ^ 32"
    and "q = moved_pos r ptr" and "0 < q"
  shows "(of_nat (info_offset_for l q) :: u32) = moved_info r (of_nat (info_offset_for l ptr))"
proof -
  have q: "int q = int ptr + sint (rl_delta r)" using assms(1,4,5) by (simp add: moved_pos_def split: if_splits)
  obtain k where k: "sint (rl_delta r) = 4 * k" using assms(2) by blast
  have "(int q + int (large_size l) + 3) div 4 * 4 = (int ptr + int (large_size l) + 3) div 4 * 4 + 4 * k"
    unfolding q k by presburger
  then have 1: "int (info_offset_for l q) = int (info_offset_for l ptr) + sint (rl_delta r)"
    by (simp add: info_offset_for_def k zdiv_int)
  have 2: "ptr + large_size l \<le> info_offset_for l ptr" "info_offset_for l ptr \<le> ptr + large_size l + 3"
    unfolding info_offset_for_def by presburger+
  then have 3: "unat (of_nat (info_offset_for l ptr) :: u32) = info_offset_for l ptr"
    using assms(3) by (intro unat_of_nat_less) simp
  have "0 < info_offset_for l ptr" "rl_moved_from r \<le> info_offset_for l ptr"
    using 2(1) assms(1) large_size_bounds[of l] by linarith+
  then have "moved_info r (of_nat (info_offset_for l ptr)) = word_of_int (int (info_offset_for l ptr) + sint (rl_delta r))"
    using 3 by (auto simp: moved_info_def moved_def uint_nat)
  then show ?thesis by (simp only: flip: 1) simp
qed

lemma legacy_large_edit:
  assumes sh: "shift_u32_field b q r w1 = Inr b1"
    and info: "(if unat (u32_at b1 (q + 16)) \<noteq> 0 then shift_u32_field b1 (q + 16) r w2 else Inr b1) = Inr b2"
    and q: "q + 31 \<le> length b"
    and b': "b' = (case ns of None \<Rightarrow> b2 | Some sz \<Rightarrow> put_u32 b2 (q + 8) sz)"
  shows "same_outside {q..<q + 31} b b'"
    and "LegacyHeader (legacy_large_fields (get_at 31 b' q) fid) =
      moved_header r ns (LegacyHeader (legacy_large_fields (get_at 31 b q) fid))"
proof -
  let ?b1 = "put_u32 b q (moved r (u32_at b q))"
  let ?b2 = "put_u32 ?b1 (q + 16) (moved_info r (u32_at ?b1 (q + 16)))"
  let ?b3 = "put_u32 ?b2 (q + 8) (new_size ns (u32_at ?b2 (q + 8)))"
  have b1: "b1 = ?b1" using shift_u32_field_eq[OF sh] by simp
  have b2: "b2 = ?b2"
  proof (cases "u32_at ?b1 (q + 16) = 0")
    case True
    have "put_u32 ?b1 (q + 16) (u32_at ?b1 (q + 16)) = ?b1" using q by (intro put_u32_same) simp
    then have "?b2 = ?b1" by (simp only: moved_info_def True if_True refl)
    moreover have "b2 = ?b1" using info by (simp add: b1 True)
    ultimately show ?thesis by simp
  next
    case False
    then show ?thesis using info by (auto simp: b1 moved_info_def unat_eq_0 dest!: shift_u32_field_eq)
  qed
  have b3: "b' = ?b3"
    using q by (simp add: b' b2 new_size_def put_u32_same split: option.split)
  have "same_outside {q..<q + 31} b ?b1" "same_outside {q..<q + 31} ?b1 ?b2" "same_outside {q..<q + 31} ?b2 ?b3"
    by (rule same_outside_mono[OF same_outside_put_u32], use q in auto)+
  then show so: "same_outside {q..<q + 31} b b'"
    unfolding b3 by (blast intro: same_outside_twice)
  have l: "length b' = length b" by (rule same_outside_length[OF so])
  show "LegacyHeader (legacy_large_fields (get_at 31 b' q) fid) =
      moved_header r ns (LegacyHeader (legacy_large_fields (get_at 31 b q) fid))"
    using q l
    by (simp add: legacy_large_fields_def u32_at_slice nth_slice)
       (simp add: b3 u32_at_put_same u32_at_put_other nth_put_u32)
qed

lemma modern_large_edit:
  assumes sh: "shift_u32_field b q r w1 = Inr b1"
    and q: "q + large_size l \<le> length b"
    and b': "b' = (case ns of None \<Rightarrow> b1 | Some sz \<Rightarrow> put_u32 b1 (q + MODERN_LARGE_BYTECODE_SIZE) sz)"
    and info: "(of_nat (info_offset_for l q) :: u32) = moved_info r (of_nat (info_offset_for l ptr))"
  shows "same_outside {q..<q + large_size l} b b'"
    and "ModernHeader (modern_large_fields l (get_at (large_size l) b' q) q fid) =
      moved_header r ns (ModernHeader (modern_large_fields l (get_at (large_size l) b q) ptr fid))"
proof -
  let ?b1 = "put_u32 b q (moved r (u32_at b q))"
  let ?b2 = "put_u32 ?b1 (q + 12) (new_size ns (u32_at ?b1 (q + 12)))"
  have L: "36 \<le> large_size l" using large_size_bounds by blast
  have b1: "b1 = ?b1" using shift_u32_field_eq[OF sh] by simp
  have b2: "b' = ?b2"
    using q L by (simp add: b' b1 new_size_def put_u32_same MODERN_LARGE_BYTECODE_SIZE_def split: option.split)
  have "same_outside {q..<q + large_size l} b ?b1" "same_outside {q..<q + large_size l} ?b1 ?b2"
    by (rule same_outside_mono[OF same_outside_put_u32], use q L in auto)+
  then show so: "same_outside {q..<q + large_size l} b b'"
    unfolding b2 by (blast intro: same_outside_twice)
  have l: "length b' = length b" by (rule same_outside_length[OF so])
  have at: "get_at (large_size l) b' q ! p = get_at (large_size l) b q ! p" if "32 \<le> p" "p < large_size l" for p
    using q l that by (simp add: nth_slice b2 nth_put_u32)
  have pos: "32 \<le> large_read_cache_size_pos l" "large_read_cache_size_pos l < large_size l"
    "32 \<le> large_write_cache_size_pos l" "large_write_cache_size_pos l < large_size l"
    "32 \<le> large_private_name_cache_size_pos l" "large_private_name_cache_size_pos l < large_size l"
    "32 \<le> large_flags_pos l" "large_flags_pos l < large_size l"
    "\<And>p. large_num_cache_new_object_pos l = Some p \<Longrightarrow> 32 \<le> p \<and> p < large_size l"
    by (auto simp: large_pos_defs)
  show "ModernHeader (modern_large_fields l (get_at (large_size l) b' q) q fid) =
      moved_header r ns (ModernHeader (modern_large_fields l (get_at (large_size l) b q) ptr fid))"
    using q l L pos
    by (simp add: modern_large_fields_def u32_at_slice at modern_large_defs info split: option.split)
       (simp add: b2 u32_at_put_same u32_at_put_other)
qed

lemma legacy_flag_byte:
  "p + 16 \<le> length b \<Longrightarrow> b ! (15 + p) = lf_flags (legacy_small_fields (from_le (get_at 16 b p)) 0)"
  using bits_of_byte[of 15 "get_at 16 b p"] by (simp add: legacy_small_fields_def nth_slice add.commute[of p])

lemma modern_flag_byte:
  "p + 12 \<le> length b \<Longrightarrow> b ! (11 + p) = mf_flags (modern_small_fields l (modern_word (get_at 12 b p)) 0)"
  using bits_of_byte[of 11 "get_at 12 b p @ replicate 4 0"]
  by (simp add: modern_small_fields_def modern_word_def nth_slice nth_append add.commute[of p])

lemma edited_slice:
  assumes "edit_slice b p n f = Inr b'" and "p + n \<le> length b" and "\<And>s. f (get_at n b p) = Inr s \<Longrightarrow> length s = n"
  obtains s where "f (get_at n b p) = Inr s" "same_outside {p..<p + n} b b'" "get_at n b' p = s"
proof -
  from assms(1) obtain s where s: "f (get_at n b p) = Inr s" "b' = put_at b p s"
    by (auto simp: edit_slice_def res_bind_Inr_iff)
  from assms(3)[OF s(1)] assms(2) s same_outside_put[of p s b] show thesis by (intro that[of s]) simp_all
qed

lemma legacy_small_turn:
  assumes "relocate_slot None r ns p b = Inr b'" "p + 16 \<le> length b" "\<not> sf_overflowed legacy_format (get_at 16 b p)"
  shows "same_outside {p..<p + 16} b b' \<and> \<not> sf_overflowed legacy_format (get_at 16 b' p)
    \<and> sf_small legacy_format (get_at 16 b' p) fid = moved_header r ns (sf_small legacy_format (get_at 16 b p) fid)"
proof -
  have "edit_slice b p 16 (\<lambda>s. relocate_legacy_small s r ns) = Inr b'"
    using assms by (simp add: relocate_slot_def legacy_flag_byte[OF assms(2)])
  then obtain s where s: "relocate_legacy_small (get_at 16 b p) r ns = Inr s" "same_outside {p..<p + 16} b b'" "get_at 16 b' p = s"
    by (rule edited_slice) (use assms(2) relocated_legacy_small(1) in auto)
  have h: "LegacyHeader (legacy_small_fields (from_le s) f) = moved_header r ns (LegacyHeader (legacy_small_fields (from_le (get_at 16 b p)) f))" for f
    using relocated_legacy_small(2)[OF s(1)] assms(2) by simp
  from h[of 0] have "lf_flags (legacy_small_fields (from_le s) 0) = lf_flags (legacy_small_fields (from_le (get_at 16 b p)) 0)" by simp
  with s h assms(3) show ?thesis by simp
qed

lemma modern_small_turn:
  assumes "relocate_slot (Some l) r ns p b = Inr b'" "p + 12 \<le> length b" "\<not> sf_overflowed (modern_format l) (get_at 12 b p)"
  shows "same_outside {p..<p + 12} b b' \<and> \<not> sf_overflowed (modern_format l) (get_at 12 b' p)
    \<and> sf_small (modern_format l) (get_at 12 b' p) fid = moved_header r ns (sf_small (modern_format l) (get_at 12 b p) fid)"
proof -
  have "edit_slice b p 12 (\<lambda>s. relocate_modern_small s r ns) = Inr b'"
    using assms by (simp add: relocate_slot_def modern_flag_byte[OF assms(2), of l])
  then obtain s where s: "relocate_modern_small (get_at 12 b p) r ns = Inr s" "same_outside {p..<p + 12} b b'" "get_at 12 b' p = s"
    by (rule edited_slice) (use assms(2) relocated_modern_small(1) in auto)
  have h: "ModernHeader (modern_small_fields l (modern_word s) f) = moved_header r ns (ModernHeader (modern_small_fields l (modern_word (get_at 12 b p)) f))" for f
    using relocated_modern_small(2)[OF s(1)] assms(2) by simp
  from h[of 0] have "mf_flags (modern_small_fields l (modern_word s) 0) = mf_flags (modern_small_fields l (modern_word (get_at 12 b p)) 0)" by simp
  with s h assms(3) show ?thesis by simp
qed

lemma if_Inl_iff: "(if c then Inl e else m) = Inr x \<longleftrightarrow> \<not> c \<and> m = Inr x"
  by simp

lemma Some_eq_None: "(Some x = None) = False"
  by simp

lemmas overflowed_simps = Some_eq_None res_bind_Inr_iff if_Inl_iff option.simps simp_thms if_True if_False sum.inject

lemma legacy_large_turn:
  assumes run: "relocate_slot None r ns p b = Inr b'" and pb: "p + 16 \<le> length b" and s: "s = get_at 16 b p"
    and ov: "sf_overflowed legacy_format s" and can: "sf_canonical legacy_format s" and ptr: "ptr = sf_pointer legacy_format s"
    and q: "q = moved_pos r ptr" "p + 16 \<le> q" "q + 31 \<le> length b"
  shows "same_outside ({p..<p + 16} \<union> {q..<q + 31}) b b'
    \<and> sf_overflowed legacy_format (get_at 16 b' p) \<and> sf_pointer legacy_format (get_at 16 b' p) = q
    \<and> sf_large legacy_format (get_at 31 b' q) q fid = moved_header r ns (sf_large legacy_format (get_at 31 b q) ptr fid)"
proof -
  have "relocate_overflowed b p None r ns = Inr b'"
    using run ov s pb by (simp add: relocate_slot_def legacy_flag_byte[OF pb])
  then obtain w lh b1 b2 b3 where w: "read_legacy_large_pointer s = Inr w"
    and sh: "shifted (unat w) r 32 ''large header pointer'' = Inr lh"
    and b1: "(if lh \<noteq> unat w then edit_slice b p 16 (\<lambda>s. shift_legacy_large_pointer s (rl_delta r)) else Inr b) = Inr b1"
    and b2: "shift_u32_field b1 lh r ''large header body offset'' = Inr b2"
    and b3: "(if unat (u32_at b2 (lh + 16)) \<noteq> 0 then shift_u32_field b2 (lh + 16) r ''large header info offset'' else Inr b2) = Inr b3"
    and b': "(case ns of None \<Rightarrow> b3 | Some sz \<Rightarrow> put_u32 b3 (lh + 8) sz) = b'"
    unfolding relocate_overflowed_def Let_def overflowed_simps s[symmetric] by (elim exE conjE) (rule that)
  have "ptr = unat w" using legacy_read_canonical[OF can w] ptr by simp
  then have lh: "lh = q" using shifted_pointer(1)[OF sh] q(1) by simp
  have "\<exists>s1. b1 = put_at b p s1 \<and> length s1 = 16 \<and> sf_overflowed legacy_format s1 \<and> sf_pointer legacy_format s1 = q"
  proof (rule edit_slot[OF b1 pb])
    fix s1 assume "lh \<noteq> unat w" "shift_legacy_large_pointer (get_at 16 b p) (rl_delta r) = Inr s1"
    with legacy_slot_shifted[OF can ov _ w sh] pb lh s
    show "length s1 = 16 \<and> sf_overflowed legacy_format s1 \<and> sf_pointer legacy_format s1 = q"
      by (simp del: legacy_format_simps)
  next
    assume "\<not> lh \<noteq> unat w"
    with legacy_read_canonical[OF can w] ov lh s
    show "sf_overflowed legacy_format (get_at 16 b p) \<and> sf_pointer legacy_format (get_at 16 b p) = q"
      by (simp del: legacy_format_simps)
  qed
  then obtain s1 where s1: "b1 = put_at b p s1" "length s1 = 16" "sf_overflowed legacy_format s1" "sf_pointer legacy_format s1 = q"
    by blast
  have so1: "same_outside {p..<p + 16} b b1" using same_outside_put[of p s1 b] s1 pb by simp
  have l1: "length b1 = length b" by (rule same_outside_length[OF so1])
  note e = legacy_large_edit[OF b2 b3 _ b'[symmetric], unfolded lh l1, OF q(3)]
  have "get_at 16 b' p = get_at 16 b1 p"
    by (rule same_outside_get[OF e(1)]) (use pb q l1 in auto)
  moreover have "get_at 31 b1 q = get_at 31 b q"
    by (rule same_outside_get[OF so1]) (use q in auto)
  ultimately show ?thesis using same_outside_trans[OF so1 e(1)] e(2)[of fid] s1 pb by simp
qed

lemma modern_large_turn:
  assumes run: "relocate_slot (Some l) r ns p b = Inr b'" and pb: "p + 12 \<le> length b" and s: "s = get_at 12 b p"
    and ov: "sf_overflowed (modern_format l) s" and ptr: "ptr = sf_pointer (modern_format l) s"
    and up: "rl_moved_from r \<le> ptr" "ptr + large_size l + 3 < 2 ^ 32" "4 dvd sint (rl_delta r)"
    and q: "q = moved_pos r ptr" "p + 12 \<le> q" "q + large_size l \<le> length b"
  shows "same_outside ({p..<p + 12} \<union> {q..<q + large_size l}) b b'
    \<and> sf_overflowed (modern_format l) (get_at 12 b' p) \<and> sf_pointer (modern_format l) (get_at 12 b' p) = q
    \<and> sf_large (modern_format l) (get_at (large_size l) b' q) q fid =
        moved_header r ns (sf_large (modern_format l) (get_at (large_size l) b q) ptr fid)"
proof -
  have "relocate_overflowed b p (Some l) r ns = Inr b'"
    using run ov s pb by (simp add: relocate_slot_def modern_flag_byte[OF pb, of l])
  then obtain w lh b1 b2 where w: "read_modern_large_pointer s = Inr w"
    and sh: "shifted (unat w) r 32 ''large header pointer'' = Inr lh"
    and b1: "(if lh \<noteq> unat w then edit_slice b p 12 (\<lambda>s. shift_modern_large_pointer s (rl_delta r)) else Inr b) = Inr b1"
    and b2: "shift_u32_field b1 lh r ''large header body offset'' = Inr b2"
    and b': "(case ns of None \<Rightarrow> b2 | Some sz \<Rightarrow> put_u32 b2 (lh + MODERN_LARGE_BYTECODE_SIZE) sz) = b'"
    unfolding relocate_overflowed_def Let_def overflowed_simps s[symmetric] by (elim exE conjE) (rule that)
  have l12: "length s = 12" using s pb by simp
  have "ptr = unat w" using modern_read_pointer[OF w l12] ptr by simp
  then have lh: "lh = q" using shifted_pointer(1)[OF sh] q(1) by simp
  have "\<exists>s1. b1 = put_at b p s1 \<and> length s1 = 12 \<and> sf_overflowed (modern_format l) s1 \<and> sf_pointer (modern_format l) s1 = q"
  proof (rule edit_slot[OF b1 pb])
    fix s1 assume "lh \<noteq> unat w" "shift_modern_large_pointer (get_at 12 b p) (rl_delta r) = Inr s1"
    with modern_slot_shifted[OF ov l12 w sh] lh s
    show "length s1 = 12 \<and> sf_overflowed (modern_format l) s1 \<and> sf_pointer (modern_format l) s1 = q"
      by (simp del: modern_format_simps)
  next
    assume "\<not> lh \<noteq> unat w"
    with modern_read_pointer[OF w l12, of l] ov lh s
    show "sf_overflowed (modern_format l) (get_at 12 b p) \<and> sf_pointer (modern_format l) (get_at 12 b p) = q"
      by (simp del: modern_format_simps)
  qed
  then obtain s1 where s1: "b1 = put_at b p s1" "length s1 = 12" "sf_overflowed (modern_format l) s1" "sf_pointer (modern_format l) s1 = q"
    by blast
  have so1: "same_outside {p..<p + 12} b b1" using same_outside_put[of p s1 b] s1 pb by simp
  have l1: "length b1 = length b" by (rule same_outside_length[OF so1])
  have "0 < q" using q(2) by simp
  note e = modern_large_edit[OF b2 _ b'[symmetric], unfolded lh l1, OF q(3) info_moved[OF up(1,3,2) q(1) this]]
  have "get_at 12 b' p = get_at 12 b1 p"
    by (rule same_outside_get[OF e(1)]) (use pb q l1 in auto)
  moreover have "get_at (large_size l) b1 q = get_at (large_size l) b q"
    by (rule same_outside_get[OF so1]) (use q in auto)
  ultimately show ?thesis using same_outside_trans[OF so1 e(1)] e(2)[of fid] s1 pb by simp
qed

section \<open>A turn that fits succeeds\<close>

lemma shifted_fits:
  assumes "offset_fits r width w"
  shows "\<exists>n. shifted (unat w) r width what = Inr n"
  using assms by (auto simp: offset_fits_def shifted_def Let_def)

lemma set_size_fits: "size_fits width ns \<Longrightarrow> \<exists>raw'. set_size raw width ns = Inr raw'"
  by (auto simp: size_fits_def set_size_def checked_size_def split: option.splits)

lemma legacy_small_ok:
  assumes "p + 16 \<le> length b" "\<not> sf_overflowed legacy_format (get_at 16 b p)"
    and "\<exists>fid. header_fits r ns (sf_small legacy_format (get_at 16 b p) fid)"
  shows "\<exists>b'. relocate_slot None r ns p b = Inr b'"
proof -
  let ?raw = "from_le (get_at 16 b p) :: u128"
  from assms(2,3) have fit: "offset_fits r 25 (bits ?raw 0 25)"
    "(bits ?raw 64 25 :: u32) \<noteq> 0 \<Longrightarrow> offset_fits r 25 (bits ?raw 64 25)" "size_fits 15 ns"
    by (auto simp: legacy_small_fields_def)
  from shifted_fits[OF fit(1)] obtain off where off: "shifted (unat (bits ?raw 0 25 :: u32)) r 25 ''body offset'' = Inr off" ..
  let ?raw1 = "set_bits ?raw 0 25 (of_nat off)"
  have i: "bits ?raw1 64 25 = (bits ?raw 64 25 :: u32)" by (simp add: field_simps)
  have "\<exists>raw2. (if unat (bits ?raw1 64 25 :: u32) \<noteq> 0
                then res_bind (shifted (unat (bits ?raw1 64 25 :: u32)) r 25 ''info offset'') (\<lambda>new_info.
                     Inr (set_bits ?raw1 64 25 (of_nat new_info)))
                else Inr ?raw1) = Inr raw2"
    unfolding i using shifted_fits[OF fit(2), of "''info offset''"]
    by (cases "(bits ?raw 64 25 :: u32) = 0") auto
  then obtain raw2 where "(if unat (bits ?raw1 64 25 :: u32) \<noteq> 0
                then res_bind (shifted (unat (bits ?raw1 64 25 :: u32)) r 25 ''info offset'') (\<lambda>new_info.
                     Inr (set_bits ?raw1 64 25 (of_nat new_info)))
                else Inr ?raw1) = Inr raw2" ..
  moreover obtain raw3 where "set_size raw2 15 ns = Inr raw3" using set_size_fits[OF fit(3)] by blast
  moreover have whole: "take 16 (get_at 16 b p) = get_at 16 b p" by (simp add: get_at_def)
  ultimately have "\<exists>s. relocate_legacy_small (get_at 16 b p) r ns = Inr s"
    using off unfolding relocate_legacy_small_def Let_def OFFSET_BITS_def LEGACY_SIZE_BITS_def whole low_25(1)
    unfolding low_25(2) by (simp split del: if_split)
  then show ?thesis
    using assms(1,2) by (auto simp: relocate_slot_def legacy_flag_byte edit_slice_def)
qed

lemma modern_small_ok:
  assumes "p + 12 \<le> length b" "\<not> sf_overflowed (modern_format l) (get_at 12 b p)"
    and "\<exists>fid. header_fits r ns (sf_small (modern_format l) (get_at 12 b p) fid)"
  shows "\<exists>b'. relocate_slot (Some l) r ns p b = Inr b'"
proof -
  let ?raw = "modern_word (get_at 12 b p)"
  from assms(2,3) have fit: "offset_fits r 25 (bits ?raw 0 25)" "size_fits 14 ns"
    by (auto simp: modern_small_fields_def)
  from shifted_fits[OF fit(1)] obtain off where off: "shifted (unat (bits ?raw 0 25 :: u32)) r 25 ''body offset'' = Inr off" ..
  moreover obtain raw3 where "set_size (set_bits ?raw 0 25 (of_nat off)) 14 ns = Inr raw3" using set_size_fits[OF fit(2)] by blast
  moreover have "from_le (take 12 (get_at 12 b p) @ replicate 4 0) = ?raw" by (simp add: get_at_def modern_word_def)
  ultimately have "\<exists>s. relocate_modern_small (get_at 12 b p) r ns = Inr s"
    unfolding relocate_modern_small_def Let_def OFFSET_BITS_def MODERN_SIZE_BITS_def low_25(2) by simp
  then show ?thesis
    using assms(1,2) modern_flag_byte[OF assms(1), of l] by (auto simp: relocate_slot_def edit_slice_def)
qed

lemma shift_field_ok: "offset_fits r 32 (u32_at b p) \<Longrightarrow> \<exists>b'. shift_u32_field b p r what = Inr b'"
  using shifted_fits[of r 32 "u32_at b p" what] by (auto simp: shift_u32_field_def)

lemma pointer_ok:
  assumes "rl_moved_from r \<le> unat w" "q = moved_pos r (unat w)" "0 < q" "q < 2 ^ 32"
  shows "shifted (unat w) r 32 what = Inr q"
  using assms by (auto simp: moved_pos_def shifted_def Let_def)

lemma legacy_large_ok:
  assumes pb: "p + 16 \<le> length b" and s: "s = get_at 16 b p" and ov: "sf_overflowed legacy_format s"
    and can: "sf_canonical legacy_format s" and up: "rl_moved_from r \<le> sf_pointer legacy_format s"
    and q: "q = moved_pos r (sf_pointer legacy_format s)" "p + 16 \<le> q" "q + 31 \<le> length b" "q < 2 ^ 32"
    and fit: "\<exists>fid. header_fits r ns (sf_large legacy_format (get_at 31 b q) (sf_pointer legacy_format s) fid)"
  shows "\<exists>b'. relocate_slot None r ns p b = Inr b'"
proof -
  obtain w where w: "read_legacy_large_pointer s = Inr w"
    using can by (auto simp: legacy_format_def split: sum.splits)
  note pw = legacy_read_canonical[OF can w]
  have sh: "shifted (unat w) r 32 ''large header pointer'' = Inr q"
    using up q pw by (intro pointer_ok) auto
  have "\<exists>b1. (if q \<noteq> unat w then edit_slice b p 16 (\<lambda>s. shift_legacy_large_pointer s (rl_delta r)) else Inr b) = Inr b1"
    using w by (cases "q = unat w") (simp_all add: edit_slice_def s shift_legacy_large_pointer_def Let_def)
  then obtain b1 where b1: "(if q \<noteq> unat w then edit_slice b p 16 (\<lambda>s. shift_legacy_large_pointer s (rl_delta r)) else Inr b) = Inr b1" ..
  have so: "same_outside {p..<p + 16} b b1"
  proof (cases "q = unat w")
    case False
    with b1 have e: "edit_slice b p 16 (\<lambda>s. shift_legacy_large_pointer s (rl_delta r)) = Inr b1" by simp
    show ?thesis
      by (rule edited_slice[OF e pb]) (use w pb in \<open>auto simp: s shift_legacy_large_pointer_def Let_def res_bind_Inr_iff\<close>)
  qed (use b1 in simp)
  have f: "u32_at b1 (q + k) = u32_at (get_at 31 b q) k" if "k + 4 \<le> 31" for k
    using same_outside_get[OF so, of "q + k" 4] q that by (simp add: u32_at_slice) (simp add: u32_at_def)
  have l1: "length b1 = length b" by (rule same_outside_length[OF so])
  have "lf_flags (legacy_large_fields raw fid) AND FLAG_OVERFLOWED \<noteq> 0" for raw fid
    by (simp add: legacy_large_fields_def FLAG_OVERFLOWED_def word_bw_lcs(2) flag_bits_u8 bit_or_iff)
  with fit have fits: "offset_fits r 32 (u32_at b1 q)" "u32_at b1 (q + 16) \<noteq> 0 \<Longrightarrow> offset_fits r 32 (u32_at b1 (q + 16))"
    using f[of 0] f[of 16] by (auto simp: legacy_large_fields_def)
  from shift_field_ok[OF fits(1)] obtain b2 where b2: "shift_u32_field b1 q r ''large header body offset'' = Inr b2" ..
  have "u32_at b2 (q + 16) = u32_at b1 (q + 16)"
    using shift_u32_field_eq[OF b2] q(3) by (simp add: l1 u32_at_put_other)
  then have "\<exists>b3. (if unat (u32_at b2 (q + 16)) \<noteq> 0 then shift_u32_field b2 (q + 16) r ''large header info offset'' else Inr b2) = Inr b3"
    using shift_field_ok[of r b2 "q + 16" "''large header info offset''"] fits(2) by (cases "u32_at b2 (q + 16) = 0") auto
  then obtain b3 where "(if unat (u32_at b2 (q + 16)) \<noteq> 0 then shift_u32_field b2 (q + 16) r ''large header info offset'' else Inr b2) = Inr b3" ..
  with b1 b2 w sh q(3) have "\<exists>b'. relocate_overflowed b p None r ns = Inr b'"
    unfolding relocate_overflowed_def Let_def Some_eq_None option.simps simp_thms if_True if_False s[symmetric]
    by (simp add: l1 split del: if_split)
  with ov pb show ?thesis by (auto simp: relocate_slot_def s legacy_flag_byte)
qed

lemma modern_large_ok:
  assumes pb: "p + 12 \<le> length b" and s: "s = get_at 12 b p" and ov: "sf_overflowed (modern_format l) s"
    and up: "rl_moved_from r \<le> sf_pointer (modern_format l) s"
    and q: "q = moved_pos r (sf_pointer (modern_format l) s)" "p + 12 \<le> q" "q + large_size l \<le> length b" "q < 2 ^ 32"
    and fit: "\<exists>fid. header_fits r ns (sf_large (modern_format l) (get_at (large_size l) b q) (sf_pointer (modern_format l) s) fid)"
  shows "\<exists>b'. relocate_slot (Some l) r ns p b = Inr b'"
proof -
  have L: "36 \<le> large_size l" using large_size_bounds by blast
  obtain w where w: "read_modern_large_pointer s = Inr w"
    using pb by (auto simp: s read_modern_large_pointer_def Let_def)
  have pw: "sf_pointer (modern_format l) s = unat w" using modern_read_pointer[OF w] pb s by simp
  have sh: "shifted (unat w) r 32 ''large header pointer'' = Inr q"
    using up q pw by (intro pointer_ok) auto
  have "\<exists>b1. (if q \<noteq> unat w then edit_slice b p 12 (\<lambda>s. shift_modern_large_pointer s (rl_delta r)) else Inr b) = Inr b1"
    using w pb by (cases "q = unat w") (simp_all add: edit_slice_def s shift_modern_large_pointer_def Let_def)
  then obtain b1 where b1: "(if q \<noteq> unat w then edit_slice b p 12 (\<lambda>s. shift_modern_large_pointer s (rl_delta r)) else Inr b) = Inr b1" ..
  have so: "same_outside {p..<p + 12} b b1"
  proof (cases "q = unat w")
    case False
    with b1 have e: "edit_slice b p 12 (\<lambda>s. shift_modern_large_pointer s (rl_delta r)) = Inr b1" by simp
    show ?thesis
      by (rule edited_slice[OF e pb]) (use w pb in \<open>auto simp: s shift_modern_large_pointer_def Let_def res_bind_Inr_iff\<close>)
  qed (use b1 in simp)
  have "u32_at b1 (q + 0) = u32_at (get_at (large_size l) b q) 0"
    using same_outside_get[OF so, of q 4] q L by (simp add: u32_at_slice) (simp add: u32_at_def)
  moreover have "mf_flags (modern_large_fields l raw ptr fid) AND FLAG_OVERFLOWED \<noteq> 0" for raw ptr fid
    by (simp add: modern_large_fields_def FLAG_OVERFLOWED_def word_bw_lcs(2) flag_bits_u8 bit_or_iff)
  ultimately have "offset_fits r 32 (u32_at b1 q)"
    using fit by (auto simp: modern_large_fields_def MODERN_LARGE_OFFSET_def)
  then obtain b2 where b2: "shift_u32_field b1 q r ''large header body offset'' = Inr b2" using shift_field_ok by blast
  have l1: "length b1 = length b" by (rule same_outside_length[OF so])
  from b1 b2 w sh q(3) have "\<exists>b'. relocate_overflowed b p (Some l) r ns = Inr b'"
    unfolding relocate_overflowed_def Let_def Some_eq_None option.simps simp_thms if_True if_False s[symmetric]
    by (simp add: l1 split del: if_split)
  with ov pb modern_flag_byte[OF pb, of l] show ?thesis by (auto simp: relocate_slot_def s)
qed

interpretation legacy_slots: header_slots legacy_format "relocate_slot None"
  by (unfold_locales, unfold legacy_format_simps(1,2))
     (rule legacy_small_turn, assumption+, rule legacy_small_ok, assumption+,
      rule legacy_large_ok, assumption+, rule legacy_large_turn, assumption+)

interpretation modern_slots: header_slots "modern_format l" "relocate_slot (Some l)" for l
  by (unfold_locales, unfold modern_format_simps(1,2))
     (rule modern_small_turn, assumption+, rule modern_small_ok, assumption+,
      rule modern_large_ok, assumption+, rule modern_large_turn, assumption+)

end
