(* ===== verification/Relocated_Image.thy ===== *)
theory Relocated_Image
  imports Relocation
begin

text \<open>
  What a relocation does to an image, seen through the parser: the function headers parsed
  from the relocated image are those of the old one, moved.
\<close>

section \<open>The parser reads slots\<close>

lemma read_exact_at_pos:
  "read_exact n r = Inr (bs, r') \<Longrightarrow> bs = get_at n (data r) (pos r) \<and> r' = advance n r \<and> pos r + n \<le> length (data r)"
  by (auto simp: read_exact_def checked_add_usize_def advance_def get_at_def split: if_splits)

lemma read_u32_at_pos:
  "read_u32 r = Inr (x, r') \<Longrightarrow> x = u32_at (data r) (pos r) \<and> r' = advance 4 r \<and> pos r + 4 \<le> length (data r)"
  by (auto simp: read_u32_def rd_map_Inr_iff u32_at_def dest!: read_exact_at_pos)

lemma read_u8_at_pos:
  "read_u8 r = Inr (x, r') \<Longrightarrow> x = data r ! pos r \<and> r' = advance 1 r \<and> pos r + 1 \<le> length (data r)"
  by (auto simp: read_u8_def rd_map_Inr_iff get_at_def dest!: read_exact_at_pos)

lemma read_bytes_at_pos:
  "read_bytes n r = Inr (bs, r') \<Longrightarrow> bs = get_at n (data r) (pos r) \<and> r' = advance n r \<and> pos r + n \<le> length (data r)"
  by (simp add: read_bytes_def read_exact_at_pos)

lemmas reads_at_pos = read_u32_at_pos read_u8_at_pos read_bytes_at_pos

lemma parsed_large_legacy:
  assumes "parse_large_header_legacy p fid r = Inr (h, r')"
  shows "h = legacy_large_fields (get_at 31 (data r) p) fid" and "p + 31 \<le> length (data r)"
proof -
  show b: "p + 31 \<le> length (data r)"
    using assms by (auto simp: parse_large_header_legacy_def Let_def rd_bind_Inr_iff seek_def
        dest!: reads_at_pos split: if_splits)
  show "h = legacy_large_fields (get_at 31 (data r) p) fid"
    using assms b
    by (auto simp: parse_large_header_legacy_def Let_def rd_bind_Inr_iff seek_def rd_ret_def
        legacy_large_fields_def u32_at_slice nth_slice dest!: reads_at_pos split: if_splits)
qed

lemma parsed_large_modern:
  assumes "parse_large_header_modern p fid l r = Inr (h, r')"
  shows "h = modern_large_fields l (get_at (large_size l) (data r) p) p fid" and "p + large_size l \<le> length (data r)"
  using assms
  by (auto simp: parse_large_header_modern_def modern_large_fields_def Let_def rd_bind_Inr_iff seek_def rd_ret_def
      dest!: reads_at_pos split: if_splits option.split)

lemma parsed_legacy_slot:
  assumes "parse_function_header_legacy fid r = Inr (h, r')"
  shows "h = (let s = get_at 16 (data r) (pos r) in
      if sf_overflowed legacy_format s
      then sf_large legacy_format (get_at 31 (data r) (sf_pointer legacy_format s)) (sf_pointer legacy_format s) fid
      else sf_small legacy_format s fid)"
    and "sf_overflowed legacy_format (get_at 16 (data r) (pos r)) \<Longrightarrow>
      sf_pointer legacy_format (get_at 16 (data r) (pos r)) + 31 \<le> length (data r)"
proof -
  have f: "lf_flags (legacy_small_fields raw fid) = lf_flags (legacy_small_fields raw 0)"
    "legacy_large_offset (legacy_small_fields raw fid) = legacy_large_offset (legacy_small_fields raw 0)" for raw
    by (simp_all add: legacy_small_fields_def legacy_large_offset_def)
  show "h = (let s = get_at 16 (data r) (pos r) in
      if sf_overflowed legacy_format s
      then sf_large legacy_format (get_at 31 (data r) (sf_pointer legacy_format s)) (sf_pointer legacy_format s) fid
      else sf_small legacy_format s fid)"
    using assms
    by (auto simp: parse_function_header_legacy_def Let_def rd_bind_Inr_iff rd_ret_def f
        dest!: read_bytes_at_pos parsed_large_legacy(1) split: if_splits)
  show "sf_pointer legacy_format (get_at 16 (data r) (pos r)) + 31 \<le> length (data r)"
    if "sf_overflowed legacy_format (get_at 16 (data r) (pos r))"
    using assms that
    by (auto simp: parse_function_header_legacy_def Let_def rd_bind_Inr_iff f
        dest!: read_bytes_at_pos parsed_large_legacy(2) split: if_splits)
qed

lemma parsed_modern_slot:
  assumes "parse_function_header_modern l fid r = Inr (h, r')"
  shows "h = (let s = get_at 12 (data r) (pos r) in
      if sf_overflowed (modern_format l) s
      then sf_large (modern_format l) (get_at (large_size l) (data r) (sf_pointer (modern_format l) s)) (sf_pointer (modern_format l) s) fid
      else sf_small (modern_format l) s fid)"
    and "sf_overflowed (modern_format l) (get_at 12 (data r) (pos r)) \<Longrightarrow>
      sf_pointer (modern_format l) (get_at 12 (data r) (pos r)) + large_size l \<le> length (data r)"
proof -
  have f: "mf_flags (modern_small_fields l raw fid) = mf_flags (modern_small_fields l raw 0)"
    "modern_large_offset (modern_small_fields l raw fid) = modern_large_offset (modern_small_fields l raw 0)" for raw
    by (simp_all add: modern_small_fields_def modern_large_offset_def)
  show "h = (let s = get_at 12 (data r) (pos r) in
      if sf_overflowed (modern_format l) s
      then sf_large (modern_format l) (get_at (large_size l) (data r) (sf_pointer (modern_format l) s)) (sf_pointer (modern_format l) s) fid
      else sf_small (modern_format l) s fid)"
    using assms
    by (auto simp: parse_function_header_modern_def Let_def rd_bind_Inr_iff rd_ret_def f modern_word_def
        dest!: read_bytes_at_pos parsed_large_modern(1) split: if_splits)
  show "sf_pointer (modern_format l) (get_at 12 (data r) (pos r)) + large_size l \<le> length (data r)"
    if "sf_overflowed (modern_format l) (get_at 12 (data r) (pos r))"
    using assms that
    by (auto simp: parse_function_header_modern_def Let_def rd_bind_Inr_iff f modern_word_def
        dest!: read_bytes_at_pos parsed_large_modern(2) split: if_splits)
qed

text \<open>One header after the other.\<close>

definition slot_in :: "slot_format \<Rightarrow> u8 list \<Rightarrow> nat \<Rightarrow> nat \<Rightarrow> bool" where
  "slot_in F bs t i \<longleftrightarrow> t + i * sf_hsize F + sf_hsize F \<le> length bs
     \<and> (sf_overflowed F (slot_at F bs t i) \<longrightarrow> sf_pointer F (slot_at F bs t i) + sf_lsize F \<le> length bs)"

lemma parsed_slots:
  assumes slot: "\<And>i r h r'. m (of_nat i) r = Inr (h, r') \<Longrightarrow> r' = r\<lparr>pos := pos r + sf_hsize F\<rparr>
      \<and> pos r + sf_hsize F \<le> length (data r)
      \<and> h = (let s = get_at (sf_hsize F) (data r) (pos r) in
          if sf_overflowed F s then sf_large F (get_at (sf_lsize F) (data r) (sf_pointer F s)) (sf_pointer F s) (of_nat i)
          else sf_small F s (of_nat i))
      \<and> (sf_overflowed F (get_at (sf_hsize F) (data r) (pos r)) \<longrightarrow>
          sf_pointer F (get_at (sf_hsize F) (data r) (pos r)) + sf_lsize F \<le> length (data r))"
  shows "parse_each m [k..<n] r = Inr (hs, r') \<Longrightarrow> pos r = t + k * sf_hsize F \<Longrightarrow>
    hs = map (header_at F (data r) t) [k..<n]
    \<and> (\<forall>i. k \<le> i \<and> i < n \<longrightarrow> slot_in F (data r) t i)"
proof (induction "n - k" arbitrary: k r hs)
  case 0
  then show ?case by auto
next
  case (Suc d)
  then have k: "[k..<n] = k # [Suc k..<n]" by (simp add: upt_rec)
  with Suc.prems(1) obtain x r1 xs where 1: "m (of_nat k) r = Inr (x, r1)"
    and 2: "parse_each m [Suc k..<n] r1 = Inr (xs, r')" and hs: "hs = x # xs"
    by (auto simp: rd_bind_Inr_iff)
  note s = slot[OF 1]
  then have r1: "r1 = r\<lparr>pos := pos r + sf_hsize F\<rparr>" by simp
  from Suc.hyps(1)[OF _ 2] Suc.hyps(2) Suc.prems(2) have 3: "xs = map (header_at F (data r) t) [Suc k..<n]
    \<and> (\<forall>i. Suc k \<le> i \<and> i < n \<longrightarrow> slot_in F (data r) t i)"
    by (simp add: r1)
  have "x = header_at F (data r) t k" using s Suc.prems(2) by (simp add: header_at_def slot_at_def Let_def)
  moreover have "slot_in F (data r) t k" using s Suc.prems(2) by (simp add: slot_in_def slot_at_def)
  then have "slot_in F (data r) t i" if "k \<le> i" "i < n" for i
    using 3 that by (cases "i = k") simp_all
  ultimately show ?case using 3 by (simp add: hs k)
qed

text \<open>The format of the records of a table.\<close>

definition format_of :: "bytecode_header \<Rightarrow> slot_format" where
  "format_of h = (case fn_header_layout h of
     Legacy16 \<Rightarrow> legacy_format
   | Modern12 \<Rightarrow> modern_format \<lparr>ml_version = version h, ml_has_num_cache_new_object = (version h = 98)\<rparr>)"

lemma parsed_function_headers:
  assumes "parse_function_headers h r = Inr (hs, r')" and "pos r \<le> length (data r)"
  shows "hs = headers_in (format_of h) (data r) (pos r) (unat (function_count h))"
    and "in_bounds (format_of h) (data r) (pos r) (unat (function_count h))"
proof -
  let ?n = "unat (function_count h)" and ?F = "format_of h"
  have "\<exists>m. parse_each m [0..<?n] r = Inr (hs, r') \<and>
    (\<forall>i r x r'. m (of_nat i) r = Inr (x, r') \<longrightarrow> r' = r\<lparr>pos := pos r + sf_hsize ?F\<rparr>
      \<and> pos r + sf_hsize ?F \<le> length (data r)
      \<and> x = (let s = get_at (sf_hsize ?F) (data r) (pos r) in
          if sf_overflowed ?F s then sf_large ?F (get_at (sf_lsize ?F) (data r) (sf_pointer ?F s)) (sf_pointer ?F s) (of_nat i)
          else sf_small ?F s (of_nat i))
      \<and> (sf_overflowed ?F (get_at (sf_hsize ?F) (data r) (pos r)) \<longrightarrow>
          sf_pointer ?F (get_at (sf_hsize ?F) (data r) (pos r)) + sf_lsize ?F \<le> length (data r)))"
  proof (cases "fn_header_layout h")
    case Legacy16
    with assms(1) have "parse_each parse_function_header_legacy [0..<?n] r = Inr (hs, r')"
      by (simp add: parse_function_headers_def)
    with Legacy16 show ?thesis
      by (intro exI[of _ parse_function_header_legacy] conjI allI impI)
         (simp_all only: format_of_def function_header_layout.case legacy_format_simps(1,2),
          (blast dest: legacy_step function_header_bound parsed_legacy_slot)+)
  next
    case Modern12
    with assms(1) obtain l where l: "modern_layout_for_version (version h) = Inr l"
      and p: "parse_each (parse_function_header_modern l) [0..<?n] r = Inr (hs, r')"
      by (auto simp: parse_function_headers_def rd_bind_Inr_iff rd_lift_def res_bind_Inr_iff)
    from l have "l = \<lparr>ml_version = version h, ml_has_num_cache_new_object = (version h = 98)\<rparr>"
      by (simp add: modern_layout_known)
    then have F: "?F = modern_format l" using Modern12 by (simp add: format_of_def)
    show ?thesis
      by (intro exI[of _ "parse_function_header_modern l"] conjI allI impI p)
         (simp_all only: F modern_format_simps(1,2),
          (blast dest: modern_step function_header_bound parsed_modern_slot)+)
  qed
  then obtain m where m: "parse_each m [0..<?n] r = Inr (hs, r')"
    and slot: "\<And>i r x r'. m (of_nat i) r = Inr (x, r') \<Longrightarrow> r' = r\<lparr>pos := pos r + sf_hsize ?F\<rparr>
      \<and> pos r + sf_hsize ?F \<le> length (data r)
      \<and> x = (let s = get_at (sf_hsize ?F) (data r) (pos r) in
          if sf_overflowed ?F s then sf_large ?F (get_at (sf_lsize ?F) (data r) (sf_pointer ?F s)) (sf_pointer ?F s) (of_nat i)
          else sf_small ?F s (of_nat i))
      \<and> (sf_overflowed ?F (get_at (sf_hsize ?F) (data r) (pos r)) \<longrightarrow>
          sf_pointer ?F (get_at (sf_hsize ?F) (data r) (pos r)) + sf_lsize ?F \<le> length (data r))" by blast
  note ps = parsed_slots[OF slot m, of "pos r"]
  show "hs = headers_in ?F (data r) (pos r) ?n" using ps by (simp add: headers_in_def)
  have "pos r + ?n * sf_hsize ?F \<le> length (data r)"
  proof (cases ?n)
    case 0
    then show ?thesis using assms(2) by simp
  next
    case (Suc k)
    then have "pos r + k * sf_hsize ?F + sf_hsize ?F \<le> length (data r)" using ps by (simp add: slot_in_def)
    then show ?thesis by (simp add: Suc add.assoc add.commute)
  qed
  with ps show "in_bounds ?F (data r) (pos r) ?n" by (simp add: in_bounds_def slot_in_def)
qed

section \<open>The table of a parsed image\<close>

text \<open>Every step of the parser appends to the section list.\<close>

definition appends :: "'a sec_op \<Rightarrow> bool" where
  "appends m \<longleftrightarrow> (\<forall>r secs x r' secs'. m (r, secs) = Inr (x, r', secs') \<longrightarrow> (\<exists>more. secs' = secs @ more))"

lemma appends_ret [intro, simp]: "appends (sec_ret x)"
  by (simp add: appends_def sec_ret_def)

lemma appends_bind [intro]:
  assumes "appends m" and "\<And>x. appends (f x)"
  shows "appends (sec_bind m f)"
  unfolding appends_def
proof (intro allI impI)
  fix r secs x r' secs' assume "sec_bind m f (r, secs) = Inr (x, r', secs')"
  then obtain y r1 secs1 where "m (r, secs) = Inr (y, r1, secs1)" "f y (r1, secs1) = Inr (x, r', secs')"
    by (auto simp: sec_bind_def res_bind_Inr_iff)
  with assms obtain m1 m2 where "secs1 = secs @ m1" "secs' = secs1 @ m2" unfolding appends_def by blast
  then show "\<exists>more. secs' = secs @ more" by simp
qed

lemma appends_section [intro, simp]: "appends (track_section name entries parse)"
  by (auto simp: appends_def track_section_def Let_def res_bind_Inr_iff)

lemma appends_if [intro]: "(\<And>x. appends (f x)) \<Longrightarrow> appends (track_if field f)"
  by (auto simp: track_if_def split: option.split)

lemma appends_tables [intro, simp]:
  "appends (parse_legacy_buffers h)" "appends (parse_modern_buffers h)" "appends (parse_trailing h)"
proof -
  have "appends (parse_bigints h)"
    unfolding parse_bigints_def by (auto split: option.split)
  then show "appends (parse_legacy_buffers h)" "appends (parse_modern_buffers h)" "appends (parse_trailing h)"
    unfolding parse_legacy_buffers_def parse_modern_buffers_def parse_trailing_def
    by (auto intro!: appends_bind appends_if)
qed

lemma common_tables_start:
  assumes "parse_common_tables h (r, secs) = Inr (tables, r', secs')"
  obtains r1 where "parse_function_headers h r = Inr (ct_function_headers tables, r1)"
    "\<exists>sz more. secs' = secs @ \<lparr>si_name = ''function_headers'', si_offset = of_nat (pos r), si_size = sz,
        si_entries = Some (function_count h)\<rparr> # more"
proof -
  define rest where "rest = (\<lambda>headers.
     sec_bind (track_section ''string_kinds'' (Some (string_kind_count h)) (parse_string_kinds (string_kind_count h))) (\<lambda>kinds.
     sec_bind (track_section ''identifier_hashes'' (Some (identifier_count h)) (parse_u32_vec (identifier_count h))) (\<lambda>hashes.
     sec_bind (track_section ''small_string_table'' (Some (string_count h)) (parse_u32_vec (string_count h))) (\<lambda>small.
     sec_bind (track_section ''overflow_string_table'' (Some (overflow_string_count h))
                 (parse_overflow_string_table (overflow_string_count h))) (\<lambda>overflow.
     sec_bind (track_section ''string_storage'' None (read_bytes (unat (string_storage_size h)))) (\<lambda>storage.
     sec_ret \<lparr>ct_function_headers = headers, ct_string_kinds = kinds, ct_identifier_hashes = hashes,
       ct_small_string_table = small, ct_overflow_string_table = overflow, ct_string_storage = storage\<rparr>))))))"
  have ap: "appends (rest hs)" for hs unfolding rest_def by (intro appends_bind appends_ret appends_section)
  have fh: "ct_function_headers t = hs" if "rest hs s = Inr (t, s')" for hs s t s'
    using that by (auto simp: rest_def sec_bind_def sec_ret_def res_bind_Inr_iff)
  from assms obtain hs r1 secs1 where 1: "track_section ''function_headers'' (Some (function_count h)) (parse_function_headers h) (r, secs) = Inr (hs, r1, secs1)"
    and 2: "rest hs (r1, secs1) = Inr (tables, r', secs')"
    by (auto simp: parse_common_tables_def rest_def sec_bind_def res_bind_Inr_iff)
  from 1 obtain r2 sz where "parse_function_headers h r = Inr (hs, r2)"
    and s1: "secs1 = secs @ [\<lparr>si_name = ''function_headers'', si_offset = of_nat (pos r), si_size = sz,
        si_entries = Some (function_count h)\<rparr>]"
    by (auto simp: track_section_def Let_def res_bind_Inr_iff rd_bind_Inr_iff rd_ret_def)
  moreover from ap 2 obtain more where "secs' = secs1 @ more" unfolding appends_def by blast
  ultimately show thesis using fh[OF 2] by (intro that[of r2]) auto
qed

lemma push_tail_appends: "\<exists>more. push_tail_sections secs bytes off h hs = secs @ more"
  by (auto simp: push_tail_sections_def push_section_def Let_def split: option.split)

lemma parsed_image_table:
  assumes "parse_auto sha1 bytes = Inr f"
  shows "bf_function_headers f = headers_in (format_of (bf_header f)) bytes 128 (unat (function_count (bf_header f)))"
    and "in_bounds (format_of (bf_header f)) bytes 128 (unat (function_count (bf_header f)))"
    and "section_offset f ''function_headers'' = Some 128"
    and "fn_header_layout (bf_header f) = Modern12 \<Longrightarrow> version (bf_header f) = 98 \<or> version (bf_header f) = 99"
proof -
  from assms obtain lay fn_lay g d where g: "parse_with_layout sha1 bytes lay fn_lay = Inr g"
    and f: "f = g\<lparr>bf_diagnostics := d\<rparr>" by (rule parse_auto_obtain)
  from g obtain h r0 r1 tables s1 buffers s2 trailing r secs where
    hd: "read_header lay fn_lay (new_reader bytes) = Inr (h, r0)"
    and al: "rd_bind (seek HEADER_SIZE) (\<lambda>_. align 4) r0 = Inr ((), r1)"
    and t1: "parse_common_tables h (r1, [\<lparr>si_name = ''header'', si_offset = 0,
        si_size = of_nat HEADER_SIZE, si_entries = None\<rparr>]) = Inr (tables, s1)"
    and t2: "(case layout h of Legacy \<Rightarrow> parse_legacy_buffers h s1 | Modern \<Rightarrow> parse_modern_buffers h s1)
        = Inr (buffers, s2)"
    and t3: "parse_trailing h s2 = Inr (trailing, r, secs)"
    and gh: "bf_header g = h" "bf_function_headers g = ct_function_headers tables"
      "bf_sections g = push_tail_sections secs bytes (of_nat (pos r)) h (ct_function_headers tables)"
    by (rule parse_with_layout_steps)
  have "data r0 = bytes" using same_data_Inr[OF same_data_read_header hd] by (simp add: new_reader_def)
  then have r1: "data r1 = bytes \<and> pos r1 = 128 \<and> pos r1 \<le> length bytes"
    using al by (auto simp: rd_bind_Inr_iff seek_def align_def HEADER_SIZE_def split: if_splits)
  obtain r1' secs1 where s1: "s1 = (r1', secs1)" by (cases s1)
  obtain r2' secs2 where s2: "s2 = (r2', secs2)" by (cases s2)
  from t1[unfolded s1] obtain rr where ph: "parse_function_headers h r1 = Inr (ct_function_headers tables, rr)"
    and sec: "\<exists>sz more. secs1 = [\<lparr>si_name = ''header'', si_offset = 0, si_size = of_nat HEADER_SIZE, si_entries = None\<rparr>]
       @ \<lparr>si_name = ''function_headers'', si_offset = of_nat (pos r1), si_size = sz,
        si_entries = Some (function_count h)\<rparr> # more"
    by (rule common_tables_start)
  from parsed_function_headers[OF ph] r1
  show "bf_function_headers f = headers_in (format_of (bf_header f)) bytes 128 (unat (function_count (bf_header f)))"
    "in_bounds (format_of (bf_header f)) bytes 128 (unat (function_count (bf_header f)))"
    by (simp_all add: f gh)
  show "fn_header_layout (bf_header f) = Modern12 \<Longrightarrow> version (bf_header f) = 98 \<or> version (bf_header f) = 99"
    using ph by (auto simp: f gh parse_function_headers_def rd_bind_Inr_iff rd_lift_def res_bind_Inr_iff modern_layout_known)
  have "parse_legacy_buffers h (r1', secs1) = Inr (buffers, r2', secs2)
      \<or> parse_modern_buffers h (r1', secs1) = Inr (buffers, r2', secs2)"
    using t2 by (cases "layout h") (simp_all add: s1 s2)
  then have "\<exists>more. secs2 = secs1 @ more"
    using appends_tables(1,2)[of h] unfolding appends_def by blast
  moreover from t3 have "\<exists>more. secs = secs2 @ more"
    using appends_tables(3)[of h] unfolding appends_def s2 by blast
  moreover have "\<exists>more. bf_sections g = secs @ more" unfolding gh(3) by (rule push_tail_appends)
  ultimately have "\<exists>sz more. bf_sections f = \<lparr>si_name = ''header'', si_offset = 0, si_size = of_nat HEADER_SIZE, si_entries = None\<rparr>
       # \<lparr>si_name = ''function_headers'', si_offset = of_nat (pos r1), si_size = sz,
        si_entries = Some (function_count h)\<rparr> # more"
    using sec by (auto simp: f)
  then show "section_offset f ''function_headers'' = Some 128"
    using r1 by (auto simp: section_offset_def)
qed

section \<open>A table in bounds parses\<close>

lemma read_exact_ok: "pos r + n \<le> length (data r) \<Longrightarrow> length (data r) \<le> usize_max \<Longrightarrow>
    read_exact n r = Inr (get_at n (data r) (pos r), advance n r)"
  by (simp add: read_exact_def checked_add_usize_def get_at_def advance_def)

lemma read_word_ok:
  "pos r + 4 \<le> length (data r) \<Longrightarrow> length (data r) \<le> usize_max \<Longrightarrow> read_u32 r = Inr (u32_at (data r) (pos r), advance 4 r)"
  "pos r + 1 \<le> length (data r) \<Longrightarrow> length (data r) \<le> usize_max \<Longrightarrow> read_u8 r = Inr (get_at 1 (data r) (pos r) ! 0, advance 1 r)"
  by (simp_all add: read_u32_def read_u8_def rd_map_def rd_bind_def rd_ret_def read_exact_ok u32_at_def)

lemma large_header_reads:
  assumes "length (data r) \<le> usize_max" and "pos r \<le> length (data r)"
  shows "p + 31 \<le> length (data r) \<Longrightarrow> \<exists>h r'. parse_large_header_legacy p fid r = Inr (h, r')"
    and "p + large_size l \<le> length (data r) \<Longrightarrow> \<exists>h r'. parse_large_header_modern p fid l r = Inr (h, r')"
  using assms
  by (simp_all add: parse_large_header_legacy_def parse_large_header_modern_def Let_def seek_def rd_bind_def
      rd_ret_def read_word_ok read_bytes_def read_exact_ok)

lemma legacy_slot_reads:
  assumes "length (data r) \<le> usize_max" and "pos r + 16 \<le> length (data r)"
    and "sf_overflowed legacy_format (get_at 16 (data r) (pos r)) \<Longrightarrow>
      sf_pointer legacy_format (get_at 16 (data r) (pos r)) + 31 \<le> length (data r)"
  shows "\<exists>h r'. parse_function_header_legacy fid r = Inr (h, r')"
proof -
  let ?h = "legacy_small_fields (from_le (get_at 16 (data r) (pos r))) fid"
  have f: "lf_flags ?h = lf_flags (legacy_small_fields (from_le (get_at 16 (data r) (pos r))) 0)"
    "legacy_large_offset ?h = legacy_large_offset (legacy_small_fields (from_le (get_at 16 (data r) (pos r))) 0)"
    by (simp_all add: legacy_small_fields_def legacy_large_offset_def)
  show ?thesis
  proof (cases "lf_flags ?h AND FLAG_OVERFLOWED \<noteq> 0")
    case True
    then obtain l r1 where 1: "parse_large_header_legacy (unat (legacy_large_offset ?h)) fid (advance 16 r) = Inr (l, r1)"
      using large_header_reads(1)[of "advance 16 r" "unat (legacy_large_offset ?h)" fid] assms f by auto
    then have "data r1 = data r" using large_legacy_keeps_position[OF 1] by simp
    with 1 True assms(1,2) show ?thesis
      by (auto simp: parse_function_header_legacy_def Let_def rd_bind_def rd_ret_def read_bytes_def read_exact_ok seek_def)
  next
    case False
    then show ?thesis
      using assms(1,2) by (auto simp: parse_function_header_legacy_def Let_def rd_bind_def rd_ret_def read_bytes_def read_exact_ok)
  qed
qed

lemma modern_slot_reads:
  assumes "length (data r) \<le> usize_max" and "pos r + 12 \<le> length (data r)"
    and "sf_overflowed (modern_format l) (get_at 12 (data r) (pos r)) \<Longrightarrow>
      sf_pointer (modern_format l) (get_at 12 (data r) (pos r)) + large_size l \<le> length (data r)"
  shows "\<exists>h r'. parse_function_header_modern l fid r = Inr (h, r')"
proof -
  let ?w = "modern_word (get_at 12 (data r) (pos r))" let ?h = "modern_small_fields l ?w fid"
  have f: "mf_flags ?h = mf_flags (modern_small_fields l ?w 0)"
    "modern_large_offset ?h = modern_large_offset (modern_small_fields l ?w 0)"
    by (simp_all add: modern_small_fields_def modern_large_offset_def)
  show ?thesis
  proof (cases "mf_flags ?h AND FLAG_OVERFLOWED \<noteq> 0")
    case True
    then obtain h r1 where 1: "parse_large_header_modern (unat (modern_large_offset ?h)) fid l (advance 12 r) = Inr (h, r1)"
      using large_header_reads(2)[of "advance 12 r" "unat (modern_large_offset ?h)" l fid] assms f by auto
    then have "data r1 = data r" using large_modern_keeps_position[OF 1] by simp
    with 1 True assms(1,2) show ?thesis
      by (auto simp: parse_function_header_modern_def Let_def rd_bind_def rd_ret_def read_bytes_def read_exact_ok seek_def modern_word_def)
  next
    case False
    then show ?thesis
      using assms(1,2) by (auto simp: parse_function_header_modern_def Let_def rd_bind_def rd_ret_def read_bytes_def
          read_exact_ok modern_word_def)
  qed
qed

lemma slots_parse:
  assumes slot: "\<And>i r. \<lbrakk>length (data r) \<le> usize_max; pos r + sf_hsize F \<le> length (data r);
      sf_overflowed F (get_at (sf_hsize F) (data r) (pos r)) \<Longrightarrow>
        sf_pointer F (get_at (sf_hsize F) (data r) (pos r)) + sf_lsize F \<le> length (data r)\<rbrakk>
      \<Longrightarrow> \<exists>h. m (of_nat i) r = Inr (h, r\<lparr>pos := pos r + sf_hsize F\<rparr>)"
  shows "\<lbrakk>length (data r) \<le> usize_max; pos r = t + k * sf_hsize F; k \<le> n; t + n * sf_hsize F \<le> length (data r);
      \<forall>i < n. sf_overflowed F (slot_at F (data r) t i) \<longrightarrow> sf_pointer F (slot_at F (data r) t i) + sf_lsize F \<le> length (data r)\<rbrakk>
    \<Longrightarrow> \<exists>hs. parse_each m [k..<n] r = Inr (hs, r\<lparr>pos := t + n * sf_hsize F\<rparr>)"
proof (induction "n - k" arbitrary: k r)
  case 0
  then show ?case by (auto simp: rd_ret_def)
next
  case (Suc d)
  then have k: "[k..<n] = k # [Suc k..<n]" "k < n" by (simp_all add: upt_rec)
  then have "t + k * sf_hsize F + sf_hsize F \<le> t + n * sf_hsize F"
    by (metis add.assoc add_left_mono less_eq_Suc_le mult_Suc mult_le_mono1 add.commute)
  with slot[of r k] Suc.prems k obtain h where 1: "m (of_nat k) r = Inr (h, r\<lparr>pos := pos r + sf_hsize F\<rparr>)"
    by (auto simp: slot_at_def)
  have "d = n - Suc k" using Suc.hyps(2) by linarith
  with Suc.hyps(1)[of "Suc k" "r\<lparr>pos := pos r + sf_hsize F\<rparr>"] Suc.prems k obtain hs where
    2: "parse_each m [Suc k..<n] (r\<lparr>pos := pos r + sf_hsize F\<rparr>) = Inr (hs, r\<lparr>pos := t + n * sf_hsize F\<rparr>)" by auto
  show ?case using 1 2 by (simp add: k(1) rd_bind_def rd_ret_def)
qed

lemma table_in_bounds_parses:
  assumes ib: "in_bounds (format_of h) bs t (unat (function_count h))" and um: "length bs \<le> usize_max"
    and lay: "fn_header_layout h = Modern12 \<Longrightarrow> version h = 98 \<or> version h = 99"
  shows "parse_function_headers h \<lparr>data = bs, pos = t\<rparr> =
    Inr (headers_in (format_of h) bs t (unat (function_count h)),
         \<lparr>data = bs, pos = t + unat (function_count h) * sf_hsize (format_of h)\<rparr>)"
proof -
  let ?n = "unat (function_count h)" and ?r = "\<lparr>data = bs, pos = t\<rparr>"
  have "\<exists>hs. parse_function_headers h ?r = Inr (hs, ?r\<lparr>pos := t + ?n * sf_hsize (format_of h)\<rparr>)"
  proof (cases "fn_header_layout h")
    case Legacy16
    have "\<exists>h. parse_function_header_legacy (of_nat i) r = Inr (h, r\<lparr>pos := pos r + sf_hsize legacy_format\<rparr>)"
      if "length (data r) \<le> usize_max" "pos r + sf_hsize legacy_format \<le> length (data r)"
        "sf_overflowed legacy_format (get_at (sf_hsize legacy_format) (data r) (pos r)) \<Longrightarrow>
        sf_pointer legacy_format (get_at (sf_hsize legacy_format) (data r) (pos r)) + sf_lsize legacy_format \<le> length (data r)" for i r
      using legacy_slot_reads[of r "of_nat i"] that legacy_step unfolding legacy_format_simps(1,2) by blast
    from slots_parse[where F = legacy_format and m = parse_function_header_legacy, OF this, of ?r t 0 ?n] ib um show ?thesis
      by (auto simp: parse_function_headers_def format_of_def in_bounds_def Legacy16)
  next
    case Modern12
    define l where "l = \<lparr>ml_version = version h, ml_has_num_cache_new_object = (version h = 98)\<rparr>"
    have F: "format_of h = modern_format l" by (simp add: format_of_def Modern12 l_def)
    have l: "modern_layout_for_version (version h) = Inr l" using lay[OF Modern12] by (simp add: modern_layout_known l_def)
    have "\<exists>h. parse_function_header_modern l (of_nat i) r = Inr (h, r\<lparr>pos := pos r + sf_hsize (modern_format l)\<rparr>)"
      if "length (data r) \<le> usize_max" "pos r + sf_hsize (modern_format l) \<le> length (data r)"
        "sf_overflowed (modern_format l) (get_at (sf_hsize (modern_format l)) (data r) (pos r)) \<Longrightarrow>
        sf_pointer (modern_format l) (get_at (sf_hsize (modern_format l)) (data r) (pos r)) + sf_lsize (modern_format l) \<le> length (data r)" for i r
      using modern_slot_reads[of r l "of_nat i"] that modern_step unfolding modern_format_simps(1,2) by blast
    from slots_parse[where F = "modern_format l" and m = "parse_function_header_modern l", OF this, of ?r t 0 ?n] ib um show ?thesis
      by (auto simp: parse_function_headers_def F in_bounds_def Modern12 l rd_bind_def rd_lift_def)
  qed
  then obtain hs where hs: "parse_function_headers h ?r = Inr (hs, ?r\<lparr>pos := t + ?n * sf_hsize (format_of h)\<rparr>)" ..
  have "t \<le> length bs" using ib by (simp add: in_bounds_def)
  with parsed_function_headers(1)[OF hs] hs show ?thesis by simp
qed

section \<open>The relocated image\<close>

lemma headers_in_cong:
  assumes "in_bounds F b t n" and "same_outside A b c" and "A \<inter> {t..<t + n * sf_hsize F} = {}"
    and "\<And>i. i < n \<Longrightarrow> sf_overflowed F (slot_at F b t i) \<Longrightarrow>
      A \<inter> {sf_pointer F (slot_at F b t i)..<sf_pointer F (slot_at F b t i) + sf_lsize F} = {}"
  shows "headers_in F c t n = headers_in F b t n" and "in_bounds F c t n"
    and "\<And>i. i < n \<Longrightarrow> slot_at F c t i = slot_at F b t i"
proof -
  have s: "slot_at F c t i = slot_at F b t i" and h: "header_at F c t i = header_at F b t i" if i: "i < n" for i
  proof -
    have up: "t + i * sf_hsize F + sf_hsize F \<le> t + n * sf_hsize F"
      using i by (metis add.assoc add_left_mono less_eq_Suc_le mult_Suc mult_le_mono1 add.commute)
    then have in_t: "t + i * sf_hsize F + sf_hsize F \<le> length b" using assms(1) by (simp add: in_bounds_def)
    have "slot_span F t i \<subseteq> {t..<t + n * sf_hsize F}" using up by (auto simp: slot_span_def)
    with assms(3) have d: "A \<inter> slot_span F t i = {}" by blast
    then show s: "slot_at F c t i = slot_at F b t i"
      unfolding slot_at_def by (intro same_outside_get[OF assms(2) in_t]) (auto simp: slot_span_def)
    have "get_at (sf_lsize F) c (sf_pointer F (slot_at F b t i)) = get_at (sf_lsize F) b (sf_pointer F (slot_at F b t i))"
      if o: "sf_overflowed F (slot_at F b t i)"
      by (rule same_outside_get[OF assms(2)]) (use assms(1) assms(4)[OF i o] i o in \<open>auto simp: in_bounds_def\<close>)
    then show "header_at F c t i = header_at F b t i" by (simp add: header_at_def s Let_def)
  qed
  show "headers_in F c t n = headers_in F b t n" by (simp add: headers_in_def h)
  show "in_bounds F c t n" using assms(1) same_outside_length[OF assms(2)] s by (simp add: in_bounds_def)
  show "\<And>i. i < n \<Longrightarrow> slot_at F c t i = slot_at F b t i" by (rule s)
qed

definition slot_layout_of :: "bytecode_header \<Rightarrow> modern_layout option" where
  "slot_layout_of h = (case fn_header_layout h of
     Legacy16 \<Rightarrow> None
   | Modern12 \<Rightarrow> Some \<lparr>ml_version = version h, ml_has_num_cache_new_object = (version h = 98)\<rparr>)"

lemma relocate_steps:
  assumes "relocate f buf r = Inr b" and "section_offset f ''function_headers'' = Some 128"
  shows "4 dvd sint (rl_delta r)
    \<and> 128 + length (bf_function_headers f) * sf_hsize (format_of (bf_header f)) \<le> rl_moved_from r
    \<and> (fn_header_layout (bf_header f) = Modern12 \<longrightarrow> version (bf_header f) = 98 \<or> version (bf_header f) = 99)
    \<and> (\<exists>b1. res_fold (\<lambda>i. relocate_slot (slot_layout_of (bf_header f)) r (resized_to r i)
        (128 + i * sf_hsize (format_of (bf_header f)))) [0..<length (bf_function_headers f)] buf = Inr b1
      \<and> relocate_debug (bf_header f) (fn_header_layout (bf_header f) = Modern12) r b1 = Inr b)"
proof (cases "fn_header_layout (bf_header f)")
  case Legacy16
  with assms show ?thesis
    by (auto simp: relocate_def relocate_slots_def Let_def format_of_def slot_layout_of_def res_bind_Inr_iff
        split: if_split_asm)
next
  case Modern12
  with assms show ?thesis
    by (auto simp: relocate_def relocate_slots_def Let_def format_of_def slot_layout_of_def res_bind_Inr_iff
        modern_layout_known split: if_split_asm)
qed

text \<open>The interface, at the layout of a header.\<close>

lemma slots_of: "header_slots (format_of h) (relocate_slot (slot_layout_of h))"
  using legacy_slots.header_slots_axioms modern_slots.header_slots_axioms
  by (simp add: format_of_def slot_layout_of_def split: function_header_layout.split)

definition touched :: "bytecode_header \<Rightarrow> reloc \<Rightarrow> u8 list \<Rightarrow> nat \<Rightarrow> nat set" where
  "touched h r a n = {128..<128 + n * sf_hsize (format_of h)}
     \<union> (\<Union>i<n. large_span (format_of h) r a 128 i)
     \<union> (let d = debug_info_offset_pos h (fn_header_layout h = Modern12) in {d..<d + 4})"

lemma debug_pos_range: "64 \<le> debug_info_offset_pos h m \<and> debug_info_offset_pos h m \<le> 108"
  by (simp add: debug_info_offset_pos_def)

lemma relocated_debug:
  assumes "relocate_debug h m r b1 = Inr b"
  defines "d \<equiv> debug_info_offset_pos h m"
  shows "same_outside {d..<d + 4} b1 b" and "u32_at b d = moved_info r (u32_at b1 d)" and "d + 4 \<le> length b1"
proof -
  have w: "ucast (ucast w + rl_delta r :: i64) = (word_of_int (uint w + sint (rl_delta r)) :: u32)" for w :: u32
  proof -
    have "(ucast w + rl_delta r :: i64) = word_of_int (uint w + sint (rl_delta r))"
      by (simp only: ucast_eq of_int_add of_int_sint scast_id)
    moreover have "ucast (word_of_int x :: i64) = (word_of_int x :: u32)" for x
      by (rule bit_word_eqI) (simp add: bit_ucast_iff bit_word_of_int_iff)
    ultimately show ?thesis by (simp only:)
  qed
  show "d + 4 \<le> length b1" using assms(1) by (auto simp: relocate_debug_def d_def Let_def split: if_splits)
  have "b = (if u32_at b1 d \<noteq> 0 \<and> rl_moved_from r \<le> unat (u32_at b1 d)
             then put_u32 b1 d (moved r (u32_at b1 d)) else b1)"
    using assms(1) w[of "u32_at b1 d"]
    by (auto simp: relocate_debug_def shift_u32_at_def d_def Let_def u32_at_def put_u32_def moved_def unat_eq_0
        split: if_splits)
  with \<open>d + 4 \<le> length b1\<close> show "same_outside {d..<d + 4} b1 b" "u32_at b d = moved_info r (u32_at b1 d)"
    by (auto simp: moved_info_def moved_def u32_at_put_same intro: same_outside_put_u32)
qed

lemma relocated_table:
  fixes f :: bytecode_file
  defines "h \<equiv> bf_header f"
  defines "F \<equiv> format_of h" and "n \<equiv> unat (function_count h)" and "d \<equiv> debug_info_offset_pos h (fn_header_layout h = Modern12)"
  assumes parse: "parse_auto sha1 a = Inr f" and run: "relocate f (splice_at a s e body) r = Inr b"
    and r: "rl_moved_from r = e" "sint (rl_delta r) = int (length body) - int (e - s)"
    and ord: "128 + n * sf_hsize F \<le> s" "s \<le> e" "e \<le> length a" "length a + 3 < 2 ^ 32"
    and wp: "well_placed F a 128 n e"
  shows "headers_in F b 128 n = map (\<lambda>i. moved_header r (resized_to r i) (bf_function_headers f ! i)) [0..<n]"
    and "in_bounds F b 128 n"
    and "same_outside (touched h r a n) (splice_at a s e body) b"
    and "u32_at b d = moved_info r (u32_at a d)"
    and "fn_header_layout h = Modern12 \<Longrightarrow> version h = 98 \<or> version h = 99"
    and "\<And>i. i < n \<Longrightarrow> sf_overflowed F (slot_at F b 128 i) \<Longrightarrow> sf_overflowed F (slot_at F a 128 i)
      \<and> sf_pointer F (slot_at F b 128 i) = moved_pos r (sf_pointer F (slot_at F a 128 i))"
proof -
  let ?B = "splice_at a s e body" and ?m = "fn_header_layout h = Modern12"
  note pt = parsed_image_table[OF parse, folded h_def, folded F_def n_def]
  have fhs: "length (bf_function_headers f) = n" using pt(1) by (simp add: headers_in_def)
  have hd: "bf_function_headers f ! i = header_at F a 128 i" if "i < n" for i
    using that by (simp add: pt(1) headers_in_def)
  from relocate_steps[OF run pt(3), folded h_def, folded F_def, unfolded fhs]
  have st: "4 dvd sint (rl_delta r)" "?m \<longrightarrow> version h = 98 \<or> version h = 99"
    "\<exists>b1. res_fold (\<lambda>i. relocate_slot (slot_layout_of h) r (resized_to r i) (128 + i * sf_hsize F)) [0..<n] ?B = Inr b1
      \<and> relocate_debug h ?m r b1 = Inr b" by simp_all
  from st(3) obtain b1 where fold: "res_fold (\<lambda>i. relocate_slot (slot_layout_of h) r (resized_to r i) (128 + i * sf_hsize F)) [0..<n] ?B = Inr b1"
    and dbg: "relocate_debug h ?m r b1 = Inr b" by blast
  note up = header_slots.moved_headers_upto[OF slots_of wp[unfolded F_def] ord(1)[unfolded F_def] ord(2-4) r st(1)
      order_refl fold[unfolded F_def], folded F_def]
  define W where "W = (\<Union>i<n. slot_span F 128 i \<union> large_span F r a 128 i)"
  have so1: "same_outside W ?B b1" using up by (simp add: W_def)
  have lB: "length ?B = s + length body + (length a - e)" using ord by (simp add: splice_at_def)
  have l1: "length b1 = length ?B" by (rule same_outside_length[OF so1])
  have mv: "moved_pos r x = s + length body + (x - e)" if "e \<le> x" for x
    using that r ord by (simp add: moved_pos_def)
  have heads: "headers_in F b1 128 n = map (\<lambda>i. moved_header r (resized_to r i) (bf_function_headers f ! i)) [0..<n]"
    using up by (simp add: headers_in_def hd)
  have ptr: "s \<le> sf_pointer F (slot_at F b1 128 i) \<and> sf_pointer F (slot_at F b1 128 i) + sf_lsize F \<le> length b1"
    if "i < n" "sf_overflowed F (slot_at F b1 128 i)" for i
  proof -
    let ?p = "sf_pointer F (slot_at F a 128 i)"
    from up that have o: "sf_overflowed F (slot_at F a 128 i)"
      and q: "sf_pointer F (slot_at F b1 128 i) = moved_pos r ?p" by simp_all
    from wp that(1) o have "e \<le> ?p" "?p + sf_lsize F \<le> length a" by (simp_all add: well_placed_def in_bounds_def)
    with ord(3) mv[of ?p] show ?thesis unfolding q l1 lB by linarith
  qed
  have ib: "in_bounds F b1 128 n" using ptr ord by (simp add: in_bounds_def l1 lB)
  note db = relocated_debug[OF dbg, folded d_def]
  have dr: "64 \<le> d \<and> d \<le> 108" unfolding d_def by (rule debug_pos_range)
  have disj: "{d..<d + 4} \<inter> {128..<128 + n * sf_hsize F} = {}" using dr by auto
  have disj': "{d..<d + 4} \<inter> {sf_pointer F (slot_at F b1 128 i)..<sf_pointer F (slot_at F b1 128 i) + sf_lsize F} = {}"
    if "i < n" "sf_overflowed F (slot_at F b1 128 i)" for i
    using ptr[OF that] ord(1) dr by auto
  show "\<And>i. i < n \<Longrightarrow> sf_overflowed F (slot_at F b 128 i) \<Longrightarrow> sf_overflowed F (slot_at F a 128 i)
      \<and> sf_pointer F (slot_at F b 128 i) = moved_pos r (sf_pointer F (slot_at F a 128 i))"
    using headers_in_cong(3)[OF ib db(1) disj disj'] up by simp
  from headers_in_cong(1,2)[OF ib db(1) disj disj'] heads
  show "headers_in F b 128 n = map (\<lambda>i. moved_header r (resized_to r i) (bf_function_headers f ! i)) [0..<n]"
    "in_bounds F b 128 n" by simp_all
  have slots: "slot_span F 128 i \<subseteq> {128..<128 + n * sf_hsize F}" if "i < n" for i
    using header_slots.slot_start[OF slots_of that, of 128 h] by (auto simp: slot_span_def F_def)
  then have W: "W \<union> {d..<d + 4} \<subseteq> touched h r a n"
    by (auto simp: W_def touched_def d_def Let_def F_def)
  then show "same_outside (touched h r a n) ?B b"
    by (rule same_outside_mono[OF same_outside_trans[OF so1 db(1)]])
  have "large_span F r a 128 i \<inter> {d..<d + 4} = {}" if "i < n" for i
    using that wp mv ord(1) dr by (auto simp: large_span_def well_placed_def Let_def)
  moreover have "slot_span F 128 i \<inter> {d..<d + 4} = {}" if "i < n" for i using slots[OF that] disj by blast
  ultimately have dW: "{d..<d + 4} \<inter> W = {}" by (auto simp: W_def)
  have "get_at 4 b1 d = get_at 4 ?B d"
    by (rule same_outside_get[OF so1 _ dW]) (use dr ord(1,3) lB in linarith)
  also have "\<dots> = get_at 4 a d" by (rule get_splice_before) (use dr ord in simp_all)
  finally show "u32_at b d = moved_info r (u32_at a d)" using db(2) by (simp add: u32_at_def)
  show "?m \<Longrightarrow> version h = 98 \<or> version h = 99" using st(2) by blast
qed

lemma relocated_parse:
  assumes "parse_auto sha1 a = Inr f" and "relocate f (splice_at a s e body) r = Inr b"
    and "rl_moved_from r = e" "sint (rl_delta r) = int (length body) - int (e - s)"
    and "128 + length (bf_function_headers f) * header_stride (fn_header_layout (bf_header f)) \<le> s"
    and "s \<le> e" "e \<le> length a" "length a + 3 < 2 ^ 32" "length b \<le> usize_max"
    and "well_placed (format_of (bf_header f)) a 128 (length (bf_function_headers f)) e"
  shows "(\<exists>p. parse_function_headers (bf_header f) \<lparr>data = b, pos = 128\<rparr> =
       Inr (map (\<lambda>i. moved_header r (resized_to r i) (bf_function_headers f ! i)) [0..<length (bf_function_headers f)],
            \<lparr>data = b, pos = p\<rparr>))
    \<and> (let d = debug_info_offset_pos (bf_header f) (fn_header_layout (bf_header f) = Modern12) in
         u32_at b d = moved_info r (u32_at a d))
    \<and> same_outside (touched (bf_header f) r a (length (bf_function_headers f))) (splice_at a s e body) b"
proof -
  let ?h = "bf_header f" let ?n = "unat (function_count ?h)"
  have n: "length (bf_function_headers f) = ?n"
    using parsed_image_table(1)[OF assms(1)] by (simp add: headers_in_def)
  have st: "header_stride (fn_header_layout ?h) = sf_hsize (format_of ?h)"
    by (simp add: header_stride_def format_of_def split: function_header_layout.split)
  note t = relocated_table[OF assms(1-4) assms(5)[unfolded n st] assms(6-8) assms(10)[unfolded n]]
  note p = table_in_bounds_parses[OF t(2) assms(9) t(5)]
  show ?thesis unfolding n Let_def
    by (intro conjI exI t(3) t(4)) (simp add: p t(1))
qed

text \<open>The overflow flag of a header that was read is the one of its slot.\<close>

lemma overflowed_header: "fh_flags (header_at (format_of h) bs t i) AND FLAG_OVERFLOWED \<noteq> 0
    \<longleftrightarrow> sf_overflowed (format_of h) (slot_at (format_of h) bs t i)"
  by (cases "fn_header_layout h")
     (auto simp: format_of_def header_at_def Let_def legacy_small_fields_def modern_small_fields_def
      legacy_large_fields_def modern_large_fields_def FLAG_OVERFLOWED_def flag_bits_u8 bit_or_iff)

lemma relocation_succeeds:
  fixes f :: bytecode_file
  defines "n \<equiv> length (bf_function_headers f)"
  assumes parse: "parse_auto sha1 a = Inr f" and dvd: "4 dvd sint (rl_delta r)"
    and r: "rl_moved_from r = e" "sint (rl_delta r) = int (length body) - int (e - s)"
    and ord: "128 + n * header_stride (fn_header_layout (bf_header f)) \<le> s"
      "s \<le> e" "e \<le> length a" "length a + 3 < 2 ^ 32"
    and len: "length (splice_at a s e body) < 2 ^ 32"
    and wp: "well_placed (format_of (bf_header f)) a 128 n e"
    and fid: "\<forall>fid sz. rl_resized r = Some (fid, sz) \<longrightarrow> unat fid < n"
    and fit: "\<forall>i < n. header_fits r (resized_to r i) (bf_function_headers f ! i)"
  shows "\<exists>b. relocate f (splice_at a s e body) r = Inr b"
proof -
  let ?h = "bf_header f" let ?F = "format_of ?h"
  note pt = parsed_image_table[OF parse]
  have n: "n = unat (function_count ?h)" using pt(1) by (simp add: headers_in_def n_def)
  have st: "header_stride (fn_header_layout ?h) = sf_hsize ?F"
    by (simp add: header_stride_def format_of_def split: function_header_layout.split)
  have "header_fits r (resized_to r i) (header_at ?F a 128 i)" if "i < n" for i
    using fit that pt(1) n by (simp add: headers_in_def)
  from header_slots.moved_headers_progress[OF slots_of wp ord(1)[unfolded st] ord(2-4) len r dvd this order_refl]
  obtain b1 where fold: "res_fold (\<lambda>i. relocate_slot (slot_layout_of ?h) r (resized_to r i) (128 + i * sf_hsize ?F)) [0..<n]
      (splice_at a s e body) = Inr b1" by blast
  from header_slots.moved_headers_upto[OF slots_of wp ord(1)[unfolded st] ord(2-4) r dvd order_refl fold]
  have "length b1 = length (splice_at a s e body)" using same_outside_length by blast
  then have l1: "128 \<le> length b1" using ord by (simp add: splice_at_def)
  obtain b where dbg: "relocate_debug ?h (fn_header_layout ?h = Modern12) r b1 = Inr b"
  proof -
    let ?d = "debug_info_offset_pos ?h (fn_header_layout ?h = Modern12)"
    have "\<not> length b1 < ?d + 4" using debug_pos_range[of ?h "fn_header_layout ?h = Modern12"] l1 by linarith
    then have "\<exists>b. relocate_debug ?h (fn_header_layout ?h = Modern12) r b1 = Inr b"
      by (simp add: relocate_debug_def Let_def shift_u32_at_def)
    then show thesis using that by blast
  qed
  have id: "(case rl_resized r of Some (fid, _) \<Rightarrow> if n \<le> unat fid then Inl (Write ''relocation: invalid function id {id}'' [fword fid]) else Inr ()
      | None \<Rightarrow> Inr ()) = Inr ()" using fid by (auto split: option.split)
  have m: "sint (rl_delta r) mod 4 = 0" using dvd by presburger
  have tab: "128 + n * sf_hsize ?F \<le> e" using ord st by simp
  show ?thesis
  proof (cases "fn_header_layout ?h")
    case Legacy16
    with fold dbg tab have "relocate f (splice_at a s e body) r = Inr b"
      using id[unfolded n_def] by (simp add: relocate_def m pt(3) Let_def n_def format_of_def slot_layout_of_def relocate_slots_def r(1))
    then show ?thesis ..
  next
    case Modern12
    with pt(4) have l: "modern_layout_for_version (version ?h) = Inr \<lparr>ml_version = version ?h, ml_has_num_cache_new_object = (version ?h = 98)\<rparr>"
      by (simp add: modern_layout_known)
    from Modern12 fold dbg tab have "relocate f (splice_at a s e body) r = Inr b"
      using id[unfolded n_def] by (simp add: relocate_def m pt(3) Let_def n_def format_of_def slot_layout_of_def relocate_slots_def l r(1))
    then show ?thesis ..
  qed
qed

text \<open>C2: A relocation keeps the program.  When the replaced region lies between the function
  table and the large headers, and the packed pointers are the ones the parser follows, every
  relocation that succeeds leaves an image whose function table parses to the old headers with
  exactly these changes: each body offset and info offset at or past the region moved by the
  size change, the resized function given its new size; the debug offset is moved too.  Apart
  from the table, the large headers and the debug field, no byte is written.\<close>

theorem relocation_moves_headers:
  assumes "parse_auto sha1 a = Inr f" and "relocate f (splice_at a s e body) r = Inr b"
    and "rl_moved_from r = e" "sint (rl_delta r) = int (length body) - int (e - s)"
    and "128 + length (bf_function_headers f) * header_stride (fn_header_layout (bf_header f)) \<le> s"
    and "s \<le> e" "e \<le> length a" "length a + 3 < 2 ^ 32" "length b \<le> usize_max"
    and "well_placed (format_of (bf_header f)) a 128 (length (bf_function_headers f)) e"
  shows "(\<exists>p. parse_function_headers (bf_header f) \<lparr>data = b, pos = 128\<rparr> =
       Inr (map (\<lambda>i. moved_header r (resized_to r i) (bf_function_headers f ! i)) [0..<length (bf_function_headers f)],
            \<lparr>data = b, pos = p\<rparr>))
    \<and> (let d = debug_info_offset_pos (bf_header f) (fn_header_layout (bf_header f) = Modern12) in
         u32_at b d = moved_info r (u32_at a d))
    \<and> same_outside (touched (bf_header f) r a (length (bf_function_headers f))) (splice_at a s e body) b"
  using assms by (rule relocated_parse)

text \<open>The sample image, its four-byte body replaced by one of eight bytes.\<close>

lemma sample_program:
  obtains img f where "length img = 192" "parse_auto sample_digest img = Inr f" "is_clean f"
    "unat (bf_instruction_offset f) = 168"
    "bf_function_headers f = [LegacyHeader \<lparr>lf_function_id = 0, lf_offset = 168, lf_param_count = 1,
        lf_bytecode_size = 4, lf_function_name = 0, lf_info_offset = 0, lf_frame_size = 2, lf_environment_size = 0,
        lf_highest_read_cache_index = 0, lf_highest_write_cache_index = 0, lf_flags = PROHIBIT_NONE\<rparr>]"
    "fn_header_layout (bf_header f) = Legacy16" "debug_info_offset (bf_header f) = 0"
    "\<forall>format. decode_function_instructions f format 0 = decode_body format [7, 0, 92, 0]"
proof -
  obtain img where img: "build_minimal_legacy sample_digest 96 [[97, 98], [0xe9], [99]] [7, 0, 92, 0] = Inr img"
    "length img = 192" by (rule sample_image)
  then have "length img < 2 ^ 25" "length [7, 0, 92, 0 :: u8] < 2 ^ 15"
    "\<forall>s \<in> set [[97, 98], [0xe9], [99]]. s \<noteq> [] \<and> list_all is_scalar s" by (simp_all add: is_scalar_def)
  from created_legacy_program[OF sample_digest_len img(1) this] obtain f where f: "parse_auto sample_digest img = Inr f"
    "is_clean f" "unat (bf_instruction_offset f) + length [7, 0, 92, 0 :: u8] + 20 = length img"
    "bf_function_headers f = [LegacyHeader \<lparr>lf_function_id = 0, lf_offset = bf_instruction_offset f,
        lf_param_count = 1, lf_bytecode_size = of_nat (length [7, 0, 92, 0 :: u8]), lf_function_name = 0, lf_info_offset = 0,
        lf_frame_size = 2, lf_environment_size = 0, lf_highest_read_cache_index = 0,
        lf_highest_write_cache_index = 0, lf_flags = PROHIBIT_NONE\<rparr>]"
    "fn_header_layout (bf_header f) = Legacy16" "debug_info_offset (bf_header f) = 0"
    "\<forall>format. decode_function_instructions f format 0 = decode_body format [7, 0, 92, 0]"
    by (elim exE conjE) (rule that)
  have o: "unat (bf_instruction_offset f) = 168" using f(3) img(2) by simp
  then have "bf_instruction_offset f = 168" by (simp add: word_unat_eq_iff)
  with f(4) have "bf_function_headers f = [LegacyHeader \<lparr>lf_function_id = 0, lf_offset = 168, lf_param_count = 1,
        lf_bytecode_size = 4, lf_function_name = 0, lf_info_offset = 0, lf_frame_size = 2, lf_environment_size = 0,
        lf_highest_read_cache_index = 0, lf_highest_write_cache_index = 0, lf_flags = PROHIBIT_NONE\<rparr>]" by simp
  with img(2) f(1,2,5,6,7) o show thesis by (intro that)
qed

definition sample_reloc :: reloc where
  "sample_reloc = \<lparr>rl_moved_from = 172, rl_delta = 4, rl_resized = Some (0, 8)\<rparr>"

lemma sample_relocation:
  obtains img f b where "length img = 192" "parse_auto sample_digest img = Inr f" "length (bf_function_headers f) = 1"
    "fn_header_layout (bf_header f) = Legacy16" "well_placed (format_of (bf_header f)) img 128 1 172"
    "header_fits sample_reloc (resized_to sample_reloc 0) (bf_function_headers f ! 0)"
    "relocate f (splice_at img 168 172 [7, 0, 7, 0, 7, 0, 92, 0]) sample_reloc = Inr b" "length b \<le> usize_max"
proof -
  obtain img f where f: "length img = 192" "parse_auto sample_digest img = Inr f"
    "bf_function_headers f = [LegacyHeader \<lparr>lf_function_id = 0, lf_offset = 168, lf_param_count = 1,
        lf_bytecode_size = 4, lf_function_name = 0, lf_info_offset = 0, lf_frame_size = 2, lf_environment_size = 0,
        lf_highest_read_cache_index = 0, lf_highest_write_cache_index = 0, lf_flags = PROHIBIT_NONE\<rparr>]"
    "fn_header_layout (bf_header f) = Legacy16" by (rule sample_program)
  note pt = parsed_image_table[OF f(2)]
  have n: "unat (function_count (bf_header f)) = 1" using arg_cong[OF pt(1), of length] f(3) by (simp add: headers_in_def)
  have h: "header_at (format_of (bf_header f)) img 128 0 = bf_function_headers f ! 0"
    using pt(1) n by (simp add: headers_in_def)
  have "\<not> sf_overflowed (format_of (bf_header f)) (slot_at (format_of (bf_header f)) img 128 0)"
    using overflowed_header[of "bf_header f" img 128 0] by (simp add: h f(3) PROHIBIT_NONE_def FLAG_OVERFLOWED_def)
  with pt(2) have wp: "well_placed (format_of (bf_header f)) img 128 1 172" by (simp add: well_placed_def n)
  have fit: "header_fits sample_reloc (resized_to sample_reloc 0) (bf_function_headers f ! 0)"
    by (simp add: f(3) PROHIBIT_NONE_def FLAG_OVERFLOWED_def offset_fits_def sample_reloc_def resized_to_def size_fits_def)
  let ?B = "splice_at img 168 172 [7, 0, 7, 0, 7, 0, 92, 0]"
  have lB: "length ?B = 196" by (simp add: splice_at_def f(1))
  have "\<exists>b. relocate f ?B sample_reloc = Inr b"
    by (rule relocation_succeeds[OF f(2), where e = 172])
       (use f(1,3,4) wp fit lB in \<open>simp_all add: sample_reloc_def header_stride_def\<close>)
  then obtain b where b: "relocate f ?B sample_reloc = Inr b" ..
  have "same_outside (touched (bf_header f) sample_reloc img 1) ?B b"
    using relocated_table(3)[OF f(2) b] f(1,4) wp
    by (simp add: n sample_reloc_def format_of_def)
  then have "length b \<le> usize_max" using lB same_outside_length by (fastforce simp: usize_max_def)
  with f b wp fit show thesis by (intro that[of img f b]) simp_all
qed

theorem relocation_moves_headers_witness:
  "\<exists>img f b hs p. relocate f (splice_at img 168 172 [7, 0, 7, 0, 7, 0, 92, 0]) sample_reloc = Inr b
     \<and> parse_function_headers (bf_header f) \<lparr>data = b, pos = 128\<rparr> = Inr (hs, p)
     \<and> hs = [moved_header sample_reloc (Some 8) (bf_function_headers f ! 0)]"
proof -
  obtain img f b where s: "length img = 192" "parse_auto sample_digest img = Inr f" "length (bf_function_headers f) = 1"
    "fn_header_layout (bf_header f) = Legacy16" "well_placed (format_of (bf_header f)) img 128 1 172"
    "relocate f (splice_at img 168 172 [7, 0, 7, 0, 7, 0, 92, 0]) sample_reloc = Inr b" "length b \<le> usize_max"
    by (rule sample_relocation)
  have "resized_to sample_reloc 0 = Some 8" by (simp add: sample_reloc_def resized_to_def)
  with relocation_moves_headers[OF s(2,6)] s show ?thesis
    by (fastforce simp: sample_reloc_def header_stride_def)
qed

text \<open>C18: A relocation that can be expressed goes through.  When the function table precedes the
  replaced region and the large headers follow it, the size change is a multiple of four, and
  every offset and size fits the field it is stored in after the move, the code refuses nothing
  and no step fails.  The slots of the table lie in the image, and a function with a large header points
  to it with the bits the format gives the pointer, apart from every other large header.\<close>

theorem fitting_relocation_succeeds:
  assumes "parse_auto sha1 a = Inr f" and "4 dvd sint (rl_delta r)"
    and "rl_moved_from r = e" "sint (rl_delta r) = int (length body) - int (e - s)"
    and "128 + length (bf_function_headers f) * header_stride (fn_header_layout (bf_header f)) \<le> s"
    and "s \<le> e" "e \<le> length a" "length a + 3 < 2 ^ 32"
    and "length (splice_at a s e body) < 2 ^ 32"
    and "well_placed (format_of (bf_header f)) a 128 (length (bf_function_headers f)) e"
    and "\<forall>fid sz. rl_resized r = Some (fid, sz) \<longrightarrow> unat fid < length (bf_function_headers f)"
    and "\<forall>i < length (bf_function_headers f). header_fits r (resized_to r i) (bf_function_headers f ! i)"
  shows "\<exists>b. relocate f (splice_at a s e body) r = Inr b"
  using assms by (rule relocation_succeeds)

theorem fitting_relocation_succeeds_witness:
  "\<exists>img f b. length img = 192 \<and> parse_auto sample_digest img = Inr f
     \<and> relocate f (splice_at img 168 172 [7, 0, 7, 0, 7, 0, 92, 0]) sample_reloc = Inr b"
proof -
  obtain img f where s: "length img = 192" "parse_auto sample_digest img = Inr f" "length (bf_function_headers f) = 1"
    "fn_header_layout (bf_header f) = Legacy16" "well_placed (format_of (bf_header f)) img 128 1 172"
    "header_fits sample_reloc (resized_to sample_reloc 0) (bf_function_headers f ! 0)"
    by (rule sample_relocation)
  have "length (splice_at img 168 172 [7, 0, 7, 0, 7, 0, 92, 0]) = 196" by (simp add: splice_at_def s(1))
  then have "\<exists>b. relocate f (splice_at img 168 172 [7, 0, 7, 0, 7, 0, 92, 0]) sample_reloc = Inr b"
    by (intro fitting_relocation_succeeds[OF s(2), where e = 172])
       (use s in \<open>simp_all add: sample_reloc_def header_stride_def\<close>)
  with s(1,2) show ?thesis by blast
qed

end
