(* ===== verification/Handlers.thy ===== *)
theory Handlers
  imports Relocated_Image
begin

text \<open>
  The exception-handler table of a function across a body edit
  (\<open>crates/hbc-decomp/src/write/patch/handlers.rs\<close>): where it lies, how it is read and
  rewritten in place, and how an insertion shifts the offsets it holds.
\<close>

datatype handler_update =
    KeepHandlers
  | InsertAt u32
  | ReplaceHandlers "exception_handler list"

definition has_handlers :: "bytecode_file \<Rightarrow> u32 \<Rightarrow> bool" where
  "has_handlers file fid =
     (case list_get (bf_function_headers file) (unat fid) of
        Some h \<Rightarrow> fh_flags h AND FLAG_HAS_EXCEPTION_HANDLER \<noteq> 0
      | None \<Rightarrow> False)"

definition table_pos :: "bytecode_file \<Rightarrow> u32 \<Rightarrow> nat result" where
  "table_pos file fid =
     res_bind (case list_get (bf_function_headers file) (unat fid) of
                 Some h \<Rightarrow> Inr (unat (fh_info_offset h))
               | None \<Rightarrow> Inl (Write ''invalid function id {id}'' [fword fid])) (\<lambda>info.
     if info = 0
     then Inl (Write ''function {id} is flagged with an exception-handler table but has no info offset'' [fword fid])
     else Inr ((info + 3) div 4 * 4))"

definition handler_word :: "u8 list \<Rightarrow> nat \<Rightarrow> nat \<Rightarrow> u32 result" where
  "handler_word buf p at = ok_or (u32_slice buf at) (Write ''handler table at {pos} runs past the image'' [fnat p])"

definition read_table :: "u8 list \<Rightarrow> nat \<Rightarrow> exception_handler list result" where
  "read_table buf p =
     res_bind (handler_word buf p p) (\<lambda>count.
     res_map (\<lambda>i. let at = p + 4 + i * 12 in
        res_bind (handler_word buf p at) (\<lambda>start.
        res_bind (handler_word buf p (at + 4)) (\<lambda>e.
        res_bind (handler_word buf p (at + 8)) (\<lambda>target.
        Inr \<lparr>eh_start = start, eh_end = e, eh_target = target\<rparr>)))) [0..<unat count])"

primrec put_handlers :: "u8 list \<Rightarrow> nat \<Rightarrow> exception_handler list \<Rightarrow> u8 list" where
  "put_handlers buf at [] = buf"
| "put_handlers buf at (h # hs) =
     put_handlers (put_u32 (put_u32 (put_u32 buf at (eh_start h)) (at + 4) (eh_end h)) (at + 8) (eh_target h))
       (at + 12) hs"

definition write_table :: "u8 list \<Rightarrow> nat \<Rightarrow> exception_handler list \<Rightarrow> u8 list result" where
  "write_table buf p handlers =
     res_bind (read_table buf p) (\<lambda>old.
     let count = length old in
     if count \<noteq> length handlers
     then Inl (Write ''the function has {count} exception handler(s) and the edit gives {}: a body edit can move handlers but not add or remove them''
            [fnat count, fnat (length handlers)])
     else Inr (put_handlers buf (p + 4) handlers))"

definition handlers_shifted :: "exception_handler list \<Rightarrow> u32 \<Rightarrow> i64 \<Rightarrow> exception_handler list" where
  "handlers_shifted old at delta =
     (let mv = (\<lambda>x :: u32. if at \<le> x then ucast ((ucast x :: i64) + delta) else x) in
      map (\<lambda>h. \<lparr>eh_start = mv (eh_start h), eh_end = mv (eh_end h), eh_target = mv (eh_target h)\<rparr>) old)"

definition handler_misfit :: "u32 \<Rightarrow> exception_handler \<Rightarrow> bool" where
  "handler_misfit body_len h \<longleftrightarrow> eh_end h < eh_start h \<or> body_len < eh_end h \<or> body_len \<le> eh_target h"

fun check_from :: "nat \<Rightarrow> exception_handler list \<Rightarrow> u32 \<Rightarrow> unit result" where
  "check_from i [] body_len = Inr ()"
| "check_from i (h # hs) body_len =
     (if handler_misfit body_len h
      then Inl (Write ''exception handler {i} ({}..{} -> {}) does not fit a {body_len}-byte body''
             [fnat i, fword (eh_start h), fword (eh_end h), fword (eh_target h), fword body_len])
      else check_from (Suc i) hs body_len)"

definition check_within :: "exception_handler list \<Rightarrow> u32 \<Rightarrow> unit result" where
  "check_within handlers body_len = check_from 0 handlers body_len"

section \<open>A table that was written\<close>

lemma check_within_iff: "check_within hs n = Inr () \<longleftrightarrow> (\<forall>h \<in> set hs. \<not> handler_misfit n h)"
proof -
  have "check_from i hs n = Inr () \<longleftrightarrow> (\<forall>h \<in> set hs. \<not> handler_misfit n h)" for i
    by (induction hs arbitrary: i) auto
  then show ?thesis by (simp add: check_within_def)
qed

lemma u32_slice_at: "u32_slice buf p = (if p + 4 \<le> length buf then Some (u32_at buf p) else None)"
  by (simp add: u32_slice_def get_range_def u32_at_def get_at_def)

lemma handler_word_Inr_iff: "handler_word buf p at = Inr w \<longleftrightarrow> at + 4 \<le> length buf \<and> w = u32_at buf at"
  by (auto simp: handler_word_def u32_slice_at)

definition handler_at :: "u8 list \<Rightarrow> nat \<Rightarrow> exception_handler" where
  "handler_at buf at = \<lparr>eh_start = u32_at buf at, eh_end = u32_at buf (at + 4), eh_target = u32_at buf (at + 8)\<rparr>"

lemma read_table_Inr_iff:
  "read_table buf p = Inr hs \<longleftrightarrow>
     p + 4 + 12 * unat (u32_at buf p) \<le> length buf \<and> hs = map (\<lambda>i. handler_at buf (p + 4 + i * 12)) [0..<unat (u32_at buf p)]"
proof -
  let ?n = "unat (u32_at buf p)"
  let ?f = "\<lambda>i. let at = p + 4 + i * 12 in
        res_bind (handler_word buf p at) (\<lambda>start.
        res_bind (handler_word buf p (at + 4)) (\<lambda>e.
        res_bind (handler_word buf p (at + 8)) (\<lambda>target.
        Inr \<lparr>eh_start = start, eh_end = e, eh_target = target\<rparr>)))"
  have entry: "?f i = Inr h \<longleftrightarrow> p + 4 + i * 12 + 12 \<le> length buf \<and> h = handler_at buf (p + 4 + i * 12)" for i h
    by (auto simp: Let_def res_bind_Inr_iff handler_word_Inr_iff handler_at_def)
  have last: "(\<forall>i < n. p + 4 + i * 12 + 12 \<le> length buf) \<and> p + 4 \<le> length buf \<longleftrightarrow> p + 4 + 12 * n \<le> length buf" for n
  proof (cases n)
    case (Suc k)
    have "i * 12 \<le> k * 12" if "i < Suc k" for i using that by simp
    then show ?thesis unfolding Suc by (auto simp: algebra_simps)
  qed simp
  show ?thesis
  proof
    assume "read_table buf p = Inr hs"
    then have b: "p + 4 \<le> length buf" and m: "res_map ?f [0..<?n] = Inr hs"
      by (auto simp: read_table_def res_bind_Inr_iff handler_word_Inr_iff)
    from res_map_Inr_nth[OF m] have "\<forall>i < ?n. p + 4 + i * 12 + 12 \<le> length buf \<and> hs ! i = handler_at buf (p + 4 + i * 12)"
      using entry by simp
    moreover have "length hs = ?n" using res_map_Inr_length[OF m] by simp
    ultimately show "p + 4 + 12 * ?n \<le> length buf \<and> hs = map (\<lambda>i. handler_at buf (p + 4 + i * 12)) [0..<?n]"
      using last[of ?n] b by (auto intro!: nth_equalityI)
  next
    assume a: "p + 4 + 12 * ?n \<le> length buf \<and> hs = map (\<lambda>i. handler_at buf (p + 4 + i * 12)) [0..<?n]"
    with last[of ?n] have "\<forall>i < ?n. p + 4 + i * 12 + 12 \<le> length buf" "p + 4 \<le> length buf" by blast+
    then have "res_map ?f [0..<?n] = Inr (map (\<lambda>i. handler_at buf (p + 4 + i * 12)) [0..<?n])"
      using entry by (intro res_map_all_Inr) simp
    with a \<open>p + 4 \<le> length buf\<close> show "read_table buf p = Inr hs"
      by (simp add: read_table_def handler_word_def u32_slice_at)
  qed
qed

lemma handler_at_cong:
  assumes "same_outside A b c" "{p..<p + 12} \<inter> A = {}" "p + 12 \<le> length b"
  shows "handler_at c p = handler_at b p"
proof -
  have "get_at 4 c q = get_at 4 b q" if "p \<le> q" "q + 4 \<le> p + 12" for q
  proof (rule same_outside_get[OF assms(1)])
    have "{q..<q + 4} \<subseteq> {p..<p + 12}" using that by auto
    with assms(2) show "{q..<q + 4} \<inter> A = {}" by blast
  qed (use assms(3) that in simp)
  then show ?thesis by (simp add: handler_at_def u32_at_def)
qed

lemma handler_put_handler:
  assumes "p + 12 \<le> length b"
  shows "handler_at (put_u32 (put_u32 (put_u32 b p (eh_start h)) (p + 4) (eh_end h)) (p + 8) (eh_target h)) p = h"
    and "same_outside {p..<p + 12} b (put_u32 (put_u32 (put_u32 b p (eh_start h)) (p + 4) (eh_end h)) (p + 8) (eh_target h))"
proof -
  show "handler_at (put_u32 (put_u32 (put_u32 b p (eh_start h)) (p + 4) (eh_end h)) (p + 8) (eh_target h)) p = h"
    using assms by (simp add: handler_at_def u32_at_put_same u32_at_put_other)
  let ?b1 = "put_u32 b p (eh_start h)" let ?b2 = "put_u32 ?b1 (p + 4) (eh_end h)"
  have "same_outside {p..<p + 12} b ?b1" "same_outside {p..<p + 12} ?b1 ?b2"
    "same_outside {p..<p + 12} ?b2 (put_u32 ?b2 (p + 8) (eh_target h))"
    by (rule same_outside_mono[OF same_outside_put_u32], use assms in auto)+
  then show "same_outside {p..<p + 12} b (put_u32 ?b2 (p + 8) (eh_target h))"
    by (blast intro: same_outside_twice)
qed

lemma put_handlers_at:
  "at + 12 * length hs \<le> length b \<Longrightarrow> same_outside {at..<at + 12 * length hs} b (put_handlers b at hs)
     \<and> (\<forall>i < length hs. handler_at (put_handlers b at hs) (at + i * 12) = hs ! i)"
proof (induction hs arbitrary: b at)
  case Nil
  then show ?case by simp
next
  case (Cons h hs)
  let ?b = "put_u32 (put_u32 (put_u32 b at (eh_start h)) (at + 4) (eh_end h)) (at + 8) (eh_target h)"
  have 1: "handler_at ?b at = h" "same_outside {at..<at + 12} b ?b"
    using handler_put_handler[of at b h] Cons.prems by auto
  have l: "length ?b = length b" by (rule same_outside_length[OF 1(2)])
  from Cons.IH[of "at + 12" ?b] Cons.prems l
  have 2: "same_outside {at + 12..<at + 12 + 12 * length hs} ?b (put_handlers ?b (at + 12) hs)"
    and 3: "\<forall>i < length hs. handler_at (put_handlers ?b (at + 12) hs) (at + 12 + i * 12) = hs ! i" by auto
  have 4: "handler_at (put_handlers ?b (at + 12) hs) at = h"
    using handler_at_cong[OF 2, of at] 1(1) l Cons.prems by auto
  have "same_outside {at..<at + 12 * length (h # hs)} b (put_handlers ?b (at + 12) hs)"
    by (rule same_outside_mono[OF same_outside_trans[OF 1(2) 2]]) auto
  moreover have "handler_at (put_handlers ?b (at + 12) hs) (at + i * 12) = (h # hs) ! i" if "i < length (h # hs)" for i
  proof (cases i)
    case (Suc j)
    then have "at + i * 12 = at + 12 + j * 12" by simp
    with 3 that Suc show ?thesis by (simp only:) simp
  qed (use 4 in simp)
  ultimately show ?case by simp
qed

lemma written_table:
  assumes "write_table buf p hs = Inr buf'" and "length buf < 2 ^ 32"
  shows "read_table buf' p = Inr hs" and "same_outside {p + 4..<p + 4 + 12 * length hs} buf buf'"
    and "unat (u32_at buf' p) = length hs" and "p + 4 + 12 * length hs \<le> length buf"
proof -
  from assms obtain old where old: "read_table buf p = Inr old" and n: "length old = length hs"
    and buf': "buf' = put_handlers buf (p + 4) hs"
    by (auto simp: write_table_def res_bind_Inr_iff Let_def split: if_splits)
  from old have c: "unat (u32_at buf p) = length hs" "p + 4 + 12 * length hs \<le> length buf"
    using n by (auto simp: read_table_Inr_iff)
  note ph = put_handlers_at[of "p + 4" hs buf]
  show so: "same_outside {p + 4..<p + 4 + 12 * length hs} buf buf'" using ph c(2) buf' by simp
  have "get_at 4 buf' p = get_at 4 buf p"
    by (rule same_outside_get[OF so]) (use c(2) in auto)
  then show u: "unat (u32_at buf' p) = length hs" using c(1) by (simp add: u32_at_def)
  show "p + 4 + 12 * length hs \<le> length buf" by (rule c(2))
  then show "read_table buf' p = Inr hs"
    using ph c(2) same_outside_length[OF so] unfolding buf'[symmetric]
    by (simp add: read_table_Inr_iff u) (rule nth_equalityI, simp_all)
qed

text \<open>The parser's own reading of a table agrees.\<close>

lemma handlers_parsed:
  assumes "read_table bytes p = Inr hs" and "p = align_up4 (unat (fh_info_offset fh))"
    and "fh_flags fh AND FLAG_HAS_EXCEPTION_HANDLER \<noteq> 0" and "fh_info_offset fh \<noteq> 0"
    and "0 < length hs" "length hs \<le> 1000" and "length bytes < 2 ^ 32"
  shows "function_handlers bytes fh = Some hs"
proof -
  let ?r = "new_reader (drop p bytes)"
  from assms(1) have n: "unat (u32_at bytes p) = length hs" and b: "p + 4 + 12 * length hs \<le> length bytes"
    and h: "hs = map (\<lambda>i. handler_at bytes (p + 4 + i * 12)) [0..<length hs]" by (auto simp: read_table_Inr_iff)
  have um: "length bytes \<le> usize_max" using assms(7) by (simp add: usize_max_def)
  have w: "u32_at (drop p bytes) k = u32_at bytes (p + k)" for k by (simp add: u32_at_def get_at_def add.commute)
  have 1: "read_u32 ?r = Inr (u32_at bytes p, advance 4 ?r)"
    using read_word_ok(1)[of ?r] b um w[of 0] by (simp add: new_reader_def)
  have one: "read_handler r = Inr (handler_at (data r) (pos r), advance 12 r)"
    if "pos r + 12 \<le> length (data r)" "length (data r) \<le> usize_max" for r
    using that by (simp add: read_handler_def rd_bind_def rd_ret_def read_word_ok handler_at_def add.commute)
  have many: "rd_repeat k read_handler r = Inr (map (\<lambda>i. handler_at (data r) (pos r + i * 12)) [0..<k], advance (12 * k) r)"
    if "pos r + 12 * k \<le> length (data r)" "length (data r) \<le> usize_max" for k r
    using that
  proof (induction k arbitrary: r)
    case 0
    then show ?case by simp
  next
    case (Suc k)
    have "map (\<lambda>i. handler_at (data r) (pos r + i * 12)) [0..<Suc k] =
        handler_at (data r) (pos r) # map (\<lambda>i. handler_at (data r) (pos r + 12 + i * 12)) [0..<k]"
      by (simp only: map_upt_Suc) (simp add: add.assoc)
    with Suc.IH[of "advance 12 r"] Suc.prems one[of r] show ?case by (simp add: rd_bind_def rd_ret_def)
  qed
  have "handler_at (drop p bytes) k = handler_at bytes (p + k)" for k
    by (simp add: handler_at_def w add.assoc)
  with many[of "advance 4 ?r" "length hs"] b um h
  have 2: "rd_repeat (length hs) read_handler (advance 4 ?r) = Inr (hs, advance (12 * length hs) (advance 4 ?r))"
    by (simp add: new_reader_def add.assoc)
  have "unat (fh_info_offset fh) \<le> p"
    using assms(2) b um by (auto simp: align_up4_def saturating_add_usize_def min_def)
  moreover have "saturating_add_usize p 4 \<le> length bytes"
    using b by (simp add: saturating_add_usize_def)
  moreover have "u32_at bytes p \<noteq> 0" "\<not> 1000 < u32_at bytes p"
    using n assms(5,6) by (auto simp: word_less_nat_alt unat_eq_0[symmetric])
  ultimately have "\<not> length bytes \<le> unat (fh_info_offset fh)" "\<not> length bytes < saturating_add_usize p 4"
    "\<not> (u32_at bytes p = 0 \<or> 1000 < u32_at bytes p)" "unat (fh_info_offset fh) \<noteq> 0" "hs \<noteq> []"
    using b assms(4,5) by (auto simp: unat_eq_0)
  then show ?thesis
    unfolding function_handlers_def Let_def assms(2)[symmetric] 1 using assms(3) 2 n by simp
qed

text \<open>It keeps no table of 0 or of more than 1000 handlers.\<close>

lemma handlers_dropped:
  assumes "read_table bytes p = Inr hs" and "p = align_up4 (unat (fh_info_offset fh))"
    and "hs = [] \<or> 1000 < length hs" and "length bytes < 2 ^ 32"
  shows "function_handlers bytes fh = None"
proof -
  let ?r = "new_reader (drop p bytes)"
  from assms(1) have n: "unat (u32_at bytes p) = length hs" and b: "p + 4 + 12 * length hs \<le> length bytes"
    by (auto simp: read_table_Inr_iff)
  have "read_u32 ?r = Inr (u32_at (drop p bytes) 0, advance 4 ?r)"
    using read_word_ok(1)[of ?r] b assms(4) by (simp add: new_reader_def usize_max_def)
  then have "read_u32 ?r = Inr (u32_at bytes p, advance 4 ?r)" by (simp add: u32_at_def get_at_def)
  moreover have "u32_at bytes p = 0 \<or> 1000 < u32_at bytes p"
    using n assms(3) by (auto simp: word_less_nat_alt unat_eq_0[symmetric])
  ultimately show ?thesis
    by (simp add: function_handlers_def Let_def assms(2)[symmetric])
qed

section \<open>Insertions\<close>

text \<open>The position an insertion of \<open>k\<close> bytes at \<open>at\<close> gives to an old one.\<close>

lemma moved_handler_word:
  fixes x at :: u32
  assumes "sint delta = int k" and "unat x + k < 2 ^ 32"
  shows "unat (if at \<le> x then ucast ((ucast x :: i64) + delta) else x) = unat x + (if at \<le> x then k else 0)"
proof -
  have 1: "(ucast x + delta :: i64) = word_of_int (uint x + sint delta)"
    by (simp only: ucast_eq of_int_add of_int_sint scast_id)
  have 2: "ucast (word_of_int y :: i64) = (word_of_int y :: u32)" for y
    by (rule bit_word_eqI) (simp add: bit_ucast_iff bit_word_of_int_iff)
  have 3: "uint x + sint delta = int (unat x + k)"
    unfolding assms(1) uint_nat by (rule of_nat_add[symmetric])
  have "ucast (ucast x + delta :: i64) = (of_nat (unat x + k) :: u32)"
    unfolding 1 2 3 by (rule of_int_of_nat_eq)
  moreover have "unat (of_nat (unat x + k) :: u32) = unat x + k"
    using assms(2) by (intro unat_of_nat_less) simp
  ultimately show ?thesis by (cases "at \<le> x") (simp_all only: if_True if_False add_0_right)
qed

text \<open>C21: Handler regions survive an insertion.  When code is inserted into a body whose handlers
  all fit it, the shifted handlers fit the longer body, and each of them names the same
  instructions as before: an offset below the insertion point stays, every other one moves with
  the bytes it points at, so a region that spans the insertion grows by exactly the insertion.\<close>

theorem insertion_keeps_handlers:
  assumes "check_within old len = Inr ()" and "unat len + k < 2 ^ 32" and "sint delta = int k" and "at \<le> len"
  shows "check_within (handlers_shifted old at delta) (len + of_nat k) = Inr ()
    \<and> (\<forall>i < length old. let h = old ! i; h' = handlers_shifted old at delta ! i; mv = (\<lambda>x. unat x + (if at \<le> x then k else 0)) in
         unat (eh_start h') = mv (eh_start h) \<and> unat (eh_end h') = mv (eh_end h) \<and> unat (eh_target h') = mv (eh_target h))"
proof -
  have fit: "unat (eh_start h) \<le> unat (eh_end h) \<and> unat (eh_end h) \<le> unat len \<and> unat (eh_target h) < unat len"
    if "h \<in> set old" for h
    using assms(1) that by (auto simp: check_within_iff handler_misfit_def word_le_nat_alt word_less_nat_alt)
  have len: "unat (len + of_nat k) = unat len + k"
    using assms(2) by (simp add: unat_word_ariths unat_of_nat take_bit_nat_eq_self)
  let ?m = "\<lambda>x. if at \<le> x then ucast ((ucast x :: i64) + delta) else x"
  have mv: "unat (?m (eh_start h)) = unat (eh_start h) + (if at \<le> eh_start h then k else 0)"
    "unat (?m (eh_end h)) = unat (eh_end h) + (if at \<le> eh_end h then k else 0)"
    "unat (?m (eh_target h)) = unat (eh_target h) + (if at \<le> eh_target h then k else 0)" if "h \<in> set old" for h
    using fit[OF that] assms(2) by (intro moved_handler_word[OF assms(3)], linarith)+
  have sh: "handlers_shifted old at delta = map (\<lambda>h. \<lparr>eh_start = ?m (eh_start h), eh_end = ?m (eh_end h), eh_target = ?m (eh_target h)\<rparr>) old"
    by (simp add: handlers_shifted_def Let_def)
  have "\<not> handler_misfit (len + of_nat k) \<lparr>eh_start = ?m (eh_start h), eh_end = ?m (eh_end h), eh_target = ?m (eh_target h)\<rparr>"
    if h: "h \<in> set old" for h
    using fit[OF h] unfolding handler_misfit_def exception_handler.simps word_less_nat_alt word_le_nat_alt[of "len + of_nat k"] len mv[OF h]
    by (auto simp: word_le_nat_alt)
  then have "check_within (handlers_shifted old at delta) (len + of_nat k) = Inr ()"
    unfolding sh check_within_iff by auto
  moreover have "\<forall>i < length old. let h = old ! i; h' = handlers_shifted old at delta ! i; mv = (\<lambda>x. unat x + (if at \<le> x then k else 0)) in
         unat (eh_start h') = mv (eh_start h) \<and> unat (eh_end h') = mv (eh_end h) \<and> unat (eh_target h') = mv (eh_target h)"
    unfolding sh Let_def
    by (intro allI impI conjI) (simp_all only: nth_map exception_handler.select_convs mv[OF nth_mem])
  ultimately show ?thesis ..
qed

theorem insertion_keeps_handlers_witness:
  "check_within (handlers_shifted [\<lparr>eh_start = 2, eh_end = 6, eh_target = 8\<rparr>] 4 12) (10 + of_nat 12) = Inr ()"
  by (rule insertion_keeps_handlers[THEN conjunct1])
     (simp_all add: check_within_def handler_misfit_def)

text \<open>C22: Rewriting a handler table of an image below 4 GiB in place is exact.  When it succeeds, the write layer reads back the
  table that was written and no byte outside its entries changes.  The parser of a flagged function
  whose info offset is not 0 and leads to the table reads it back too when it has from 1 to 1000 handlers, and
  reads no table at all when it has none or more than 1000, a limit the write layer does not have: a
  table of 1001 handlers is rewritten and then dropped when the file is parsed.  A table of another
  length than the stored one is refused.\<close>

theorem written_handlers_read_back:
  assumes "length buf < 2 ^ 32"
  shows "(case write_table buf p hs of
       Inr buf' \<Rightarrow> read_table buf' p = Inr hs \<and> same_outside {p + 4..<p + 4 + 12 * length hs} buf buf'
         \<and> (\<forall>fh. p = align_up4 (unat (fh_info_offset fh)) \<and> fh_info_offset fh \<noteq> 0
              \<and> fh_flags fh AND FLAG_HAS_EXCEPTION_HANDLER \<noteq> 0
              \<longrightarrow> function_handlers buf' fh = (if 1 \<le> length hs \<and> length hs \<le> 1000 then Some hs else None))
     | Inl _ \<Rightarrow> (\<forall>old. read_table buf p = Inr old \<longrightarrow> length old \<noteq> length hs))"
proof (cases "write_table buf p hs")
  case (Inl e)
  then show ?thesis by (auto simp: write_table_def Let_def res_bind_Inr_iff)
next
  case (Inr buf')
  note w = written_table[OF Inr assms]
  have len: "length buf' < 2 ^ 32" using same_outside_length[OF w(2)] assms by simp
  have "function_handlers buf' fh = (if 1 \<le> length hs \<and> length hs \<le> 1000 then Some hs else None)"
    if "p = align_up4 (unat (fh_info_offset fh))" "fh_info_offset fh \<noteq> 0" "fh_flags fh AND FLAG_HAS_EXCEPTION_HANDLER \<noteq> 0" for fh
    using handlers_parsed[OF w(1) that(1,3,2) _ _ len] handlers_dropped[OF w(1) that(1) _ len]
    by (cases "1 \<le> length hs \<and> length hs \<le> 1000") (auto simp: Suc_le_eq not_le)
  with w show ?thesis by (simp add: Inr)
qed

theorem written_handlers_read_back_witness:
  "read_table (projr (write_table (le_bytes 4 (1 :: u32) @ replicate 12 0) 0 [\<lparr>eh_start = 2, eh_end = 6, eh_target = 8\<rparr>])) 0
     = Inr [\<lparr>eh_start = 2, eh_end = 6, eh_target = 8\<rparr>]"
proof -
  let ?b = "le_bytes 4 (1 :: u32) @ replicate 12 0" and ?hs = "[\<lparr>eh_start = 2, eh_end = 6, eh_target = 8\<rparr>]"
  have "u32_at ?b 0 = 1" by (simp add: u32_at_def get_at_def from_le_le_bytes)
  then have "read_table ?b 0 = Inr [handler_at ?b 4]" by (simp add: read_table_Inr_iff)
  then obtain b' where "write_table ?b 0 ?hs = Inr b'" by (simp add: write_table_def)
  with written_handlers_read_back[of ?b 0 ?hs] show ?thesis by simp
qed

end
