(* ===== verification/Body_Patch.thy ===== *)
theory Body_Patch
  imports Handlers
begin

text \<open>
  Replacing a function body (\<open>crates/hbc-decomp/src/write/patch/functions.rs\<close>): the new
  bytes are spliced in, everything after them is relocated, the handler table is rewritten, and
  the image is committed.  The theorems compose the relocation, the handler table, the commit and
  the parser: what a patched image decodes to.
\<close>

section \<open>The code\<close>

definition handlers_read_back :: "u32 \<Rightarrow> exception_handler list option \<Rightarrow> bytecode_file \<Rightarrow> unit result" where
  "handlers_read_back fid handlers after =
     (case handlers of
        None \<Rightarrow> Inr ()
      | Some want \<Rightarrow>
          let got = (case bf_exception_handlers after fid of Some hs \<Rightarrow> hs | None \<Rightarrow> []) in
          if got = want then Inr ()
          else Inl (Write ''function {function_id}'s handler table reads back as {got:?}, not {want:?}'' [fword fid]))"

definition spliced_image :: "bytecode_file \<Rightarrow> u8 list \<Rightarrow> u32 \<Rightarrow> nat \<Rightarrow> nat \<Rightarrow> u8 list \<Rightarrow> (u8 list \<times> header_edit) result" where
  "spliced_image file raw fid abs_off old_size new_body =
     (let moved_from = abs_off + old_size;
          delta = of_nat (length new_body) - of_nat old_size :: i64 in
      if delta = 0 then Inr (put_at raw abs_off new_body, header_edit_default)
      else res_bind (relocate file (splice_at raw abs_off moved_from new_body)
               \<lparr>rl_moved_from = moved_from, rl_delta = delta, rl_resized = Some (fid, of_nat (length new_body))\<rparr>) (\<lambda>rebuilt.
           Inr (rebuilt, header_edit_shifted delta)))"

definition with_handlers ::
  "u32 \<Rightarrow> nat \<Rightarrow> i64 \<Rightarrow> exception_handler list option \<Rightarrow> nat option \<Rightarrow> u8 list \<Rightarrow> u8 list result" where
  "with_handlers fid moved_from delta handlers table_before img =
     (case (handlers, table_before) of
        (Some hs, Some before) \<Rightarrow>
          if before < moved_from
          then Inl (Write ''function {function_id}'s handler table at {before} precedes its body's end'' [fword fid, fnat before])
          else write_table img (nat (int before + sint delta)) hs
      | _ \<Rightarrow> Inr img)"

definition patched_image ::
  "bytecode_file \<Rightarrow> u32 \<Rightarrow> u8 list \<Rightarrow> exception_handler list option \<Rightarrow> (u8 list \<times> header_edit) result" where
  "patched_image file fid new_body handlers =
     res_bind (ok_or (list_get (bf_function_headers file) (unat fid)) (Write ''invalid function id {function_id}'' [fword fid])) (\<lambda>fh.
     let old_size = unat (fh_bytecode_size fh); abs_off = unat (fh_offset fh) in
     res_bind (case handlers of Some _ \<Rightarrow> res_bind (table_pos file fid) (\<lambda>p. Inr (Some p)) | None \<Rightarrow> Inr None) (\<lambda>table_before.
     res_bind (ok_or (bf_raw_bytes file) (Write ''no raw_bytes'' [])) (\<lambda>raw.
     if length raw < abs_off + old_size then Inl (Write ''function body out of range'' [])
     else
       res_bind (spliced_image file raw fid abs_off old_size new_body) (\<lambda>(img, edit).
       res_bind (with_handlers fid (abs_off + old_size) (of_nat (length new_body) - of_nat old_size) handlers table_before img) (\<lambda>img.
       Inr (img, edit))))))"

definition patch_function_bytes_with ::
  "digest \<Rightarrow> u32 \<Rightarrow> u8 list \<Rightarrow> exception_handler list option \<Rightarrow> u8 list file_op" where
  "patch_function_bytes_with sha1 fid new_body handlers file =
     (case patched_image file fid new_body handlers of
        Inl e \<Rightarrow> (Inl e, file)
      | Inr (img, edit) \<Rightarrow> commit_image_checked sha1 img edit (handlers_read_back fid handlers) file)"

definition patch_function_bytes :: "digest \<Rightarrow> u32 \<Rightarrow> u8 list \<Rightarrow> u8 list file_op" where
  "patch_function_bytes sha1 fid new_body file =
     (if has_handlers file fid
         \<and> length new_body \<noteq> unat (fh_bytecode_size (bf_function_headers file ! unat fid))
      then (Inl (Write ''function {function_id} has an exception-handler table; patch_function_bytes cannot change its size (its handler offsets would go stale). See plan_guides/06_write/RISKS.md Q3.'' [fword fid]), file)
      else patch_function_bytes_with sha1 fid new_body None file)"

record patch_options =
  po_strip_debug_info :: bool
  po_allow_stale_debug_info :: bool
  po_unpacked_strings :: bool

text \<open>The refusals of a body edit: handlers whose place is not given, and debug info a wholesale
  replacement cannot keep.\<close>

definition refused_handlers :: "bytecode_file \<Rightarrow> u32 \<Rightarrow> i64 \<Rightarrow> handler_update \<Rightarrow> unit result" where
  "refused_handlers file fid delta handlers =
     (case handlers of
        KeepHandlers \<Rightarrow>
          if delta \<noteq> 0 \<and> has_handlers file fid
          then Inl (Write ''function {function_id} has an exception-handler table, and this edit changes the body's size without saying where the handlers went. Give the HASM `.handler start, end, target` lines (emit-hasm writes them), or keep the body the same size. See plan_guides/06_write/RISKS.md Q3.'' [fword fid])
          else Inr ()
      | ReplaceHandlers _ \<Rightarrow>
          if \<not> has_handlers file fid
          then Inl (Write ''function {function_id} has no exception-handler table, and a body edit cannot add one (it would resize the function's info region)'' [fword fid])
          else Inr ()
      | InsertAt _ \<Rightarrow> Inr ())"

definition refused_debug :: "bytecode_file \<Rightarrow> u32 \<Rightarrow> i64 \<Rightarrow> patch_options \<Rightarrow> unit result" where
  "refused_debug file fid delta options =
     (if delta \<noteq> 0 \<and> \<not> po_allow_stale_debug_info options \<and> debug_info_offset (bf_header file) \<noteq> 0
      then (case list_get (bf_function_headers file) (unat fid) of
              Some fh \<Rightarrow>
                if fh_flags fh AND FLAG_HAS_DEBUG_INFO \<noteq> 0
                then Inl (Write ''function {function_id} carries debug info, and replacing a body wholesale cannot preserve it: source locations are addresses *within* the function, and there is no mapping from an old address to a new one when the code is different. An insertion does have one, which is why `inject-stub` relocates rather than refusing (R24 P2). Pass allow_stale_debug_info / --allow-stale-debug-info to discard this function's line numbers and proceed.'' [fword fid])
                else Inr ()
            | None \<Rightarrow> Inr ())
      else Inr ())"

text \<open>\<open>AsyncBreakCheck\<close>s before the last instruction until the size change is a multiple of four.
  The value is the encoded body, where the padding went, and how many bytes it has.\<close>

definition pad_body ::
  "bytecode_format \<Rightarrow> u32 \<Rightarrow> instruction list \<Rightarrow> u8 list \<Rightarrow> i64 \<Rightarrow> (u8 list \<times> u32 \<times> nat) result" where
  "pad_body format fid new_body encoded delta =
     (if delta \<noteq> 0 \<and> sint delta mod 4 \<noteq> 0
      then res_bind (ok_or (map_option def_opcode (find (\<lambda>d. def_name d = ''AsyncBreakCheck'') (definitions format)))
             (Write ''cannot 4-byte-align function {function_id} body (size delta {delta} is not a multiple of 4) - this bytecode version has no AsyncBreakCheck instruction to pad with''
                [fword fid, FNum (sint delta)])) (\<lambda>op_abc.
           let pad = nat (4 - sint delta mod 4); insert_at = length new_body - 1 in
           res_bind (encode_function_body format (take insert_at new_body)) (\<lambda>before.
           let padded = take insert_at new_body
                 @ replicate pad \<lparr>in_offset = 0, in_opcode = op_abc, in_operands = [], in_length = 1\<rparr>
                 @ drop insert_at new_body in
           res_bind (encode_function_body format padded) (\<lambda>bytes.
           Inr (bytes, of_nat (length before), pad))))
      else Inr (encoded, 0, 0))"

text \<open>Where the handlers end up, when the edit moves them at all.\<close>

definition final_table ::
  "bytecode_file \<Rightarrow> u32 \<Rightarrow> handler_update \<Rightarrow> i64 \<Rightarrow> u32 \<Rightarrow> nat \<Rightarrow> exception_handler list option result" where
  "final_table file fid handlers final_delta pad_at pad =
     (if \<not> has_handlers file fid then Inr None
      else case handlers of
        KeepHandlers \<Rightarrow> Inr None
      | InsertAt at \<Rightarrow>
          if final_delta = 0 then Inr None
          else if pad \<noteq> 0 then Inl (Write ''an insertion must keep the body 4-byte aligned itself'' [])
          else res_bind (table_pos file fid) (\<lambda>p.
               res_bind (read_table (case bf_raw_bytes file of Some raw \<Rightarrow> raw | None \<Rightarrow> []) p) (\<lambda>old.
               Inr (Some (handlers_shifted old at final_delta))))
      | ReplaceHandlers given \<Rightarrow> Inr (Some (handlers_shifted given pad_at (of_nat pad))))"

definition patch_function_body_with ::
  "digest \<Rightarrow> bytecode_format \<Rightarrow> u32 \<Rightarrow> instruction list \<Rightarrow> patch_options \<Rightarrow> handler_update \<Rightarrow> u8 list file_op" where
  "patch_function_body_with sha1 format fid new_body options handlers file =
     (let old_size = (case list_get (bf_function_headers file) (unat fid) of
                        Some h \<Rightarrow> unat (fh_bytecode_size h) | None \<Rightarrow> 0) in
      case res_bind (encode_function_body format new_body) (\<lambda>encoded.
           let delta = of_nat (length encoded) - of_nat old_size :: i64 in
           res_bind (refused_handlers file fid delta handlers) (\<lambda>_.
           res_bind (refused_debug file fid delta options) (\<lambda>_.
           res_bind (pad_body format fid new_body encoded delta) (\<lambda>(encoded, pad_at, pad).
           res_bind (final_table file fid handlers (of_nat (length encoded) - of_nat old_size) pad_at pad) (\<lambda>table.
           res_bind (case table of Some new \<Rightarrow> check_within new (of_nat (length encoded)) | None \<Rightarrow> Inr ()) (\<lambda>_.
           Inr (encoded, table))))))) of
        Inl e \<Rightarrow> (Inl e, file)
      | Inr (encoded, table) \<Rightarrow> patch_function_bytes_with sha1 fid encoded table file)"

definition patch_function_body ::
  "digest \<Rightarrow> bytecode_format \<Rightarrow> u32 \<Rightarrow> instruction list \<Rightarrow> patch_options \<Rightarrow> u8 list file_op" where
  "patch_function_body sha1 format fid new_body options =
     patch_function_body_with sha1 format fid new_body options KeepHandlers"

section \<open>Failures leave the file alone\<close>

lemma patch_bytes_Inl: "patch_function_bytes_with sha1 fid body hs file = (Inl e, file') \<Longrightarrow> file' = file"
  by (auto simp: patch_function_bytes_with_def split: sum.splits prod.splits dest: commit_Inl)

lemma patch_body_Inl: "patch_function_body_with sha1 format fid body opts hs file = (Inl e, file') \<Longrightarrow> file' = file"
  by (auto simp: patch_function_body_with_def Let_def split: sum.splits prod.splits dest: patch_bytes_Inl)

section \<open>Where the code starts\<close>

text \<open>How far a parser step moves depends on the header alone.\<close>

definition moves :: "(nat \<Rightarrow> nat) \<Rightarrow> 'a sec_op \<Rightarrow> bool" where
  "moves g m \<longleftrightarrow> (\<forall>r secs x r' secs'. m (r, secs) = Inr (x, r', secs') \<longrightarrow> pos r' = g (pos r))"

definition strides :: "nat \<Rightarrow> 'a read_op \<Rightarrow> bool" where
  "strides k m \<longleftrightarrow> (\<forall>r x r'. m r = Inr (x, r') \<longrightarrow> pos r' = pos r + k)"

lemma strides_ret: "strides 0 (rd_ret x)"
  by (simp add: strides_def rd_ret_def)

lemma strides_bind: "strides k m \<Longrightarrow> (\<And>x. strides l (f x)) \<Longrightarrow> strides (k + l) (rd_bind m f)"
  unfolding strides_def by (auto simp: rd_bind_Inr_iff)

lemma strides_map: "strides k m \<Longrightarrow> strides k (rd_map f m)"
  by (auto simp: strides_def rd_map_Inr_iff)

lemma strides_repeat: "strides k m \<Longrightarrow> strides (n * k) (rd_repeat n m)"
proof (induction n)
  case 0
  show ?case by (simp add: strides_def rd_ret_def)
next
  case (Suc n)
  have "strides (k + (n * k + 0)) (rd_bind m (\<lambda>x. rd_bind (rd_repeat n m) (\<lambda>xs. rd_ret (x # xs))))"
    by (intro strides_bind Suc strides_ret)
  then show ?case by simp
qed

lemma strides_u32: "strides 4 read_u32"
  by (auto simp: strides_def dest!: read_u32_at_pos)

lemma strides_bytes: "strides n (read_bytes n)"
  by (auto simp: strides_def dest!: read_bytes_at_pos)

lemma strides_headers: "strides (header_stride (fn_header_layout h) * unat (function_count h)) (parse_function_headers h)"
  using parse_function_headers_moves[of h] by (fastforce simp: strides_def)

lemmas strides_pair = strides_bind[OF strides_u32 strides_bind[OF strides_u32 strides_ret]]

lemma strides_tables:
  "strides (unat n * 4) (parse_string_kinds n)" "strides (unat n * 4) (parse_u32_vec n)"
  "strides (unat n * (4 + (4 + 0))) (parse_overflow_string_table n)" "strides (unat n * (4 + (4 + 0))) (parse_table_entries n)"
  "strides (unat n * (4 + (4 + 0))) (parse_shape_table n)" "strides (unat n * (4 + (4 + 0))) (parse_pair_table n)"
  unfolding parse_string_kinds_def parse_u32_vec_def parse_overflow_string_table_def read_pair_def parse_table_entries_def
    parse_shape_table_def parse_pair_table_def
  by (intro strides_repeat strides_map strides_u32 strides_pair)+

definition padded :: "nat \<Rightarrow> nat" where
  "padded p = (if p mod 4 = 0 then p else p + (4 - p mod 4))"

lemma moves_ret: "moves (\<lambda>p. p) (sec_ret x)"
  by (simp add: moves_def sec_ret_def)

lemma moves_bind: "moves g m \<Longrightarrow> (\<And>x. moves g' (f x)) \<Longrightarrow> moves (\<lambda>p. g' (g p)) (sec_bind m f)"
  unfolding moves_def by (fastforce simp: sec_bind_def res_bind_Inr_iff)

lemma align_padded: "align 4 r = Inr (u, r') \<Longrightarrow> pos r' = padded (pos r)"
  by (auto simp: align_def seek_def padded_def Let_def simp del: add_diff_assoc add_diff_assoc2 diff_diff_left split: if_splits)

lemma moves_section:
  assumes "strides k parse"
  shows "moves (\<lambda>p. padded (p + k)) (track_section name entries parse)"
  unfolding moves_def
proof (intro allI impI)
  fix r secs x r' secs'
  assume "track_section name entries parse (r, secs) = Inr (x, r', secs')"
  then obtain r1 u where "parse r = Inr (x, r1)" and "align 4 r1 = Inr (u, r')"
    by (auto simp: track_section_def Let_def res_bind_Inr_iff rd_bind_Inr_iff rd_ret_def)
  then show "pos r' = padded (pos r + k)" using assms by (auto simp: strides_def dest: align_padded)
qed

lemma moves_if:
  assumes "\<And>x. field = Some x \<Longrightarrow> moves (g x) (f x)"
  shows "moves (case field of Some x \<Rightarrow> g x | None \<Rightarrow> (\<lambda>p. p)) (track_if field f)"
  using assms by (auto simp: track_if_def moves_ret split: option.split)

lemma moves_case: "(\<And>a b. moves (g::nat \<Rightarrow> nat) (f a b)) \<Longrightarrow> moves g (case x of (a, b) \<Rightarrow> f a b)"
  by (cases x) simp

lemmas moves_sections = moves_section[OF strides_bytes] moves_section[OF strides_tables(1)] moves_section[OF strides_tables(2)]
  moves_section[OF strides_tables(3)] moves_section[OF strides_tables(4)] moves_section[OF strides_tables(5)]
  moves_section[OF strides_tables(6)] moves_section[OF strides_headers]

lemma moves_bigints: "\<exists>g. moves g (parse_bigints h)"
proof (cases "big_int_count h = None \<or> big_int_storage_size h = None")
  case True
  then have "parse_bigints h = sec_ret ([], [])" by (auto simp: parse_bigints_def split: option.split)
  then have "moves (\<lambda>p. p) (parse_bigints h)" by (simp add: moves_ret)
  then show ?thesis by blast
next
  case False
  then obtain a b where "big_int_count h = Some a" "big_int_storage_size h = Some b" by auto
  then have *: "parse_bigints h = sec_bind (track_section ''bigint_table'' (Some a) (parse_table_entries a)) (\<lambda>table.
      sec_bind (track_section ''bigint_storage'' None (read_bytes (unat b))) (\<lambda>storage. sec_ret (table, storage)))"
    by (simp add: parse_bigints_def)
  show ?thesis unfolding * by (rule exI, (rule moves_bind moves_ret moves_sections)+)
qed

lemma moves_common: "\<exists>g. moves g (parse_common_tables h)"
  unfolding parse_common_tables_def by (rule exI, (rule moves_bind moves_ret moves_sections)+)

lemma moves_buffers:
  "\<exists>g. moves g (parse_legacy_buffers h)" "\<exists>g. moves g (parse_modern_buffers h)" "\<exists>g. moves g (parse_trailing h)"
proof -
  from moves_bigints obtain g where g: "moves g (parse_bigints h)" ..
  show "\<exists>g. moves g (parse_legacy_buffers h)" unfolding parse_legacy_buffers_def
    by (rule exI, (rule moves_bind moves_ret moves_sections moves_if moves_case g)+)
  show "\<exists>g. moves g (parse_modern_buffers h)" unfolding parse_modern_buffers_def
    by (rule exI, (rule moves_bind moves_ret moves_sections moves_if moves_case g)+)
  show "\<exists>g. moves g (parse_trailing h)" unfolding parse_trailing_def
    by (rule exI, (rule moves_bind moves_ret moves_sections moves_if moves_case)+)
qed

text \<open>Two headers that differ in the length and the debug offset put the code in the same place.\<close>

lemma same_tables:
  assumes h': "h' = h\<lparr>debug_info_offset := x, file_length := y\<rparr>"
  shows "parse_common_tables h' = parse_common_tables h" "parse_legacy_buffers h' = parse_legacy_buffers h"
    "parse_modern_buffers h' = parse_modern_buffers h" "parse_trailing h' = parse_trailing h" "layout h' = layout h"
proof -
  have "parse_function_headers h' = parse_function_headers h" "parse_bigints h' = parse_bigints h"
    by (cases "fn_header_layout h", simp_all add: h' parse_function_headers_def parse_bigints_def)
  then show "parse_common_tables h' = parse_common_tables h" "parse_legacy_buffers h' = parse_legacy_buffers h"
    "parse_modern_buffers h' = parse_modern_buffers h" "parse_trailing h' = parse_trailing h" "layout h' = layout h"
    by (simp_all add: h' parse_common_tables_def parse_legacy_buffers_def parse_modern_buffers_def parse_trailing_def)
qed

lemma code_start:
  assumes "parse_auto sha1 a = Inr f"
  obtains r1 secs where "pos r1 = 128"
    "sec_bind (parse_common_tables (bf_header f)) (\<lambda>_.
       sec_bind (case layout (bf_header f) of Legacy \<Rightarrow> parse_legacy_buffers (bf_header f) | Modern \<Rightarrow> parse_modern_buffers (bf_header f)) (\<lambda>_.
       parse_trailing (bf_header f))) (r1, [\<lparr>si_name = ''header'', si_offset = 0, si_size = of_nat HEADER_SIZE, si_entries = None\<rparr>])
     = Inr secs" "bf_instruction_offset f = of_nat (pos (fst (snd secs)))"
    "bf_instructions f = drop (unat (bf_instruction_offset f)) a"
proof -
  from assms obtain lay fn_lay g d where g: "parse_with_layout sha1 a lay fn_lay = Inr g"
    and f: "f = g\<lparr>bf_diagnostics := d\<rparr>" by (rule parse_auto_obtain)
  from g obtain h r0 r1 tables s1 buffers s2 trailing r secs where
    hd: "read_header lay fn_lay (new_reader a) = Inr (h, r0)"
    and al: "rd_bind (seek HEADER_SIZE) (\<lambda>_. align 4) r0 = Inr ((), r1)"
    and t1: "parse_common_tables h (r1, [\<lparr>si_name = ''header'', si_offset = 0,
        si_size = of_nat HEADER_SIZE, si_entries = None\<rparr>]) = Inr (tables, s1)"
    and t2: "(case layout h of Legacy \<Rightarrow> parse_legacy_buffers h s1 | Modern \<Rightarrow> parse_modern_buffers h s1) = Inr (buffers, s2)"
    and t3: "parse_trailing h s2 = Inr (trailing, r, secs)"
    and gh: "bf_header g = h" "bf_instruction_offset g = of_nat (pos r)" "bf_instructions g = drop (unat (of_nat (pos r) :: u32)) a"
    by (rule parse_with_layout_steps)
  have "pos r1 = 128" using al by (auto simp: rd_bind_Inr_iff seek_def align_def HEADER_SIZE_def split: if_splits)
  with t1 t2 t3 gh show thesis
    by (intro that[of r1 "(trailing, r, secs)"]) (auto simp: f sec_bind_def split: header_layout.split)
qed

lemma same_code_start:
  assumes "parse_auto sha1 a = Inr f" and "parse_auto sha1 b = Inr f'"
    and "bf_header f' = (bf_header f)\<lparr>debug_info_offset := x, file_length := y\<rparr>"
  shows "bf_instruction_offset f' = bf_instruction_offset f"
proof -
  let ?h = "bf_header f"
  let ?run = "sec_bind (parse_common_tables ?h) (\<lambda>_.
       sec_bind (case layout ?h of Legacy \<Rightarrow> parse_legacy_buffers ?h | Modern \<Rightarrow> parse_modern_buffers ?h) (\<lambda>_.
       parse_trailing ?h))"
  obtain g1 g2 g3 g4 where "moves g1 (parse_common_tables ?h)" "moves g2 (parse_legacy_buffers ?h)"
    "moves g3 (parse_modern_buffers ?h)" "moves g4 (parse_trailing ?h)"
    using moves_common[of ?h] moves_buffers[of ?h] by blast
  then have "moves (\<lambda>p. g4 ((case layout ?h of Legacy \<Rightarrow> g2 | Modern \<Rightarrow> g3) (g1 p))) ?run"
    by (intro moves_bind) (auto split: header_layout.split)
  then obtain g where g: "moves g ?run" by blast
  obtain r1 s1 where 1: "pos r1 = 128" "?run (r1, [\<lparr>si_name = ''header'', si_offset = 0, si_size = of_nat HEADER_SIZE, si_entries = None\<rparr>]) = Inr s1"
    "bf_instruction_offset f = of_nat (pos (fst (snd s1)))" by (rule code_start[OF assms(1)])
  obtain r2 s2 where 2: "pos r2 = 128" "?run (r2, [\<lparr>si_name = ''header'', si_offset = 0, si_size = of_nat HEADER_SIZE, si_entries = None\<rparr>]) = Inr s2"
    "bf_instruction_offset f' = of_nat (pos (fst (snd s2)))"
    using code_start[OF assms(2)] unfolding same_tables[OF assms(3)] by metis
  from g 1(1,2) 2(1,2) have "pos (fst (snd s1)) = pos (fst (snd s2))"
    unfolding moves_def by (cases s1; cases s2; metis fst_conv snd_conv)
  with 1(3) 2(3) show ?thesis by simp
qed

section \<open>A body in its image\<close>

text \<open>The bytes a header names.\<close>

definition code_of :: "u8 list \<Rightarrow> function_header \<Rightarrow> u8 list" where
  "code_of bytes fh = get_at (unat (fh_bytecode_size fh)) bytes (unat (fh_offset fh))"

definition body_end :: "function_header \<Rightarrow> nat" where
  "body_end fh = unat (fh_offset fh) + unat (fh_bytecode_size fh)"

lemma decode_is_body:
  assumes "parse_auto sha1 a = Inr f" and "j < length (bf_function_headers f)" and "unat fid = j"
    and "bf_instruction_offset f \<le> fh_offset (bf_function_headers f ! j)"
    and "body_end (bf_function_headers f ! j) \<le> length a" "length a < 2 ^ 32"
  shows "decode_function_instructions f format fid = decode_body format (code_of a (bf_function_headers f ! j))"
proof -
  let ?fh = "bf_function_headers f ! j" and ?io = "bf_instruction_offset f"
  let ?s = "unat (fh_offset ?fh)" and ?z = "unat (fh_bytecode_size ?fh)"
  have ins: "bf_instructions f = drop (unat ?io) a" by (rule code_start[OF assms(1)]) blast
  have io: "unat ?io \<le> ?s" using assms(4) by (simp add: word_le_nat_alt)
  have sub: "unat (fh_offset ?fh - ?io) = ?s - unat ?io" using assms(4) by (rule unat_sub)
  have add: "checked_add_usize (?s - unat ?io) ?z = Some (?s - unat ?io + ?z)"
    using assms(5,6) by (simp add: checked_add_usize_def usize_max_def body_end_def)
  have "\<not> length (drop (unat ?io) a) < ?s - unat ?io + ?z" using io assms(5) by (simp add: body_end_def)
  moreover have "drop (?s - unat ?io) (drop (unat ?io) a) = drop ?s a" using io by simp
  ultimately show ?thesis
    using assms(2,3,4) unfolding decode_function_instructions_def code_of_def get_at_def ins
    by (simp add: list_get_def sub add ok_or_def)
qed

section \<open>The image a patch builds\<close>

definition patch_reloc :: "bytecode_file \<Rightarrow> u32 \<Rightarrow> u8 list \<Rightarrow> reloc" where
  "patch_reloc f fid body =
     (let fh = bf_function_headers f ! unat fid in
      \<lparr>rl_moved_from = body_end fh, rl_delta = of_nat (length body) - of_nat (unat (fh_bytecode_size fh)),
       rl_resized = Some (fid, of_nat (length body))\<rparr>)"

text \<open>The arrangement a patch expects of the image: function table, then code, then the large
  headers and the footer.\<close>

definition arranged :: "bytecode_file \<Rightarrow> u8 list \<Rightarrow> u32 \<Rightarrow> u8 list \<Rightarrow> bool" where
  "arranged f a fid body \<longleftrightarrow>
     (let fh = bf_function_headers f ! unat fid; n = length (bf_function_headers f); F = format_of (bf_header f) in
      unat fid < n \<and> 128 + n * header_stride (fn_header_layout (bf_header f)) \<le> unat (fh_offset fh)
      \<and> bf_instruction_offset f \<le> fh_offset fh
      \<and> body_end fh + 20 \<le> length a \<and> length a + length body < 2 ^ 31
      \<and> well_placed F a 128 n (body_end fh)
      \<and> (\<forall>i < n. sf_overflowed F (slot_at F a 128 i) \<longrightarrow> sf_pointer F (slot_at F a 128 i) + sf_lsize F + 20 \<le> length a))"

lemma signed_difference: "x < 2 ^ 31 \<Longrightarrow> y < 2 ^ 31 \<Longrightarrow> sint (of_nat x - of_nat y :: i64) = int x - int y"
proof -
  assume "x < 2 ^ 31" "y < 2 ^ 31"
  then have "- (2 ^ 63) \<le> int x - int y" "int x - int y < 2 ^ 63" by simp_all
  then have "signed_take_bit 63 (int x - int y) = int x - int y"
    by (rule signed_take_bit_int_eq_self)
  moreover have "(of_nat x - of_nat y :: i64) = word_of_int (int x - int y)"
    by (metis of_int_diff of_int_of_nat_eq)
  ultimately show ?thesis by (simp only: signed_of_int) simp
qed

lemma moved_header_still:
  assumes "sint (rl_delta r) = 0" and "\<And>z. ns = Some z \<Longrightarrow> z = fh_bytecode_size h"
  shows "moved_header r ns h = h"
proof -
  have "moved r w = w" for w using assms(1) by (simp add: moved_def)
  then show ?thesis using assms(2)
    by (cases h; cases ns) (simp_all add: moved_info_def new_size_def)
qed

lemma moved_header_offset [simp]: "fh_offset (moved_header r ns h) = moved r (fh_offset h)"
  by (cases h) simp_all

lemma moved_header_size [simp]: "fh_bytecode_size (moved_header r ns h) = new_size ns (fh_bytecode_size h)"
  by (cases h) simp_all

lemma splice_same: "s + length ys \<le> length xs \<Longrightarrow> splice_at xs s (s + length ys) ys = put_at xs s ys"
  by (simp add: splice_at_def put_at_def)

lemma patch_reloc_simps:
  assumes "arranged f a fid body"
  defines "fh \<equiv> bf_function_headers f ! unat fid"
  shows "rl_moved_from (patch_reloc f fid body) = body_end fh"
    and "rl_resized (patch_reloc f fid body) = Some (fid, of_nat (length body))"
    and "sint (rl_delta (patch_reloc f fid body)) = int (length body) - int (unat (fh_bytecode_size fh))"
proof -
  show "rl_moved_from (patch_reloc f fid body) = body_end fh"
    "rl_resized (patch_reloc f fid body) = Some (fid, of_nat (length body))"
    by (simp_all add: patch_reloc_def fh_def Let_def)
  have d: "rl_delta (patch_reloc f fid body) = of_nat (length body) - of_nat (unat (fh_bytecode_size fh))"
    unfolding patch_reloc_def fh_def Let_def by (rule reloc.select_convs)
  from assms have "body_end fh + 20 \<le> length a" "length a + length body < 2 ^ 31"
    by (simp_all add: arranged_def Let_def)
  then show "sint (rl_delta (patch_reloc f fid body)) = int (length body) - int (unat (fh_bytecode_size fh))"
    unfolding d body_end_def by (intro signed_difference) simp_all
qed

lemma moved_pos_past:
  "rl_moved_from r = e \<Longrightarrow> sint (rl_delta r) = int k - int (e - s) \<Longrightarrow> s \<le> e \<Longrightarrow> e \<le> x
    \<Longrightarrow> moved_pos r x + e = s + k + x"
  by (simp add: moved_pos_def)

lemma patched_table:
  fixes f :: bytecode_file and fid :: u32 and body :: "u8 list"
  defines "h \<equiv> bf_header f" and "n \<equiv> length (bf_function_headers f)"
  defines "fh \<equiv> bf_function_headers f ! unat fid" and "r \<equiv> patch_reloc f fid body" and "F \<equiv> format_of (bf_header f)"
  assumes parse: "parse_auto sha1 a = Inr f" and arranged: "arranged f a fid body"
    and built: "spliced_image f a fid (unat (fh_offset fh)) (unat (fh_bytecode_size fh)) body = Inr (img, edit)"
  shows "headers_in F img 128 n = map (\<lambda>i. moved_header r (resized_to r i) (bf_function_headers f ! i)) [0..<n]"
    and "in_bounds F img 128 n"
    and "same_outside (touched h r a n) (splice_at a (unat (fh_offset fh)) (body_end fh) body) img"
    and "edit = header_edit_shifted (rl_delta r)"
    and "\<And>i. i < n \<Longrightarrow> sf_overflowed F (slot_at F img 128 i) \<Longrightarrow> sf_overflowed F (slot_at F a 128 i)
      \<and> sf_pointer F (slot_at F img 128 i) = moved_pos r (sf_pointer F (slot_at F a 128 i))"
proof -
  let ?s = "unat (fh_offset fh)" and ?z = "unat (fh_bytecode_size fh)"
  let ?B = "splice_at a ?s (body_end fh) body"
  note pt = parsed_image_table[OF parse]
  have n: "unat (function_count (bf_header f)) = n" using pt(1) by (simp add: n_def headers_in_def)
  have st: "header_stride (fn_header_layout (bf_header f)) = sf_hsize F"
    by (simp add: header_stride_def F_def format_of_def split: function_header_layout.split)
  from arranged have ar: "unat fid < n" "128 + n * sf_hsize F \<le> ?s" "body_end fh + 20 \<le> length a"
    "length a + length body < 2 ^ 31" "well_placed F a 128 n (body_end fh)"
    by (simp_all add: arranged_def Let_def fh_def[symmetric] n_def[symmetric] F_def[symmetric] st)
  have rl: "rl_moved_from r = body_end fh" "rl_delta r = of_nat (length body) - of_nat ?z"
    "rl_resized r = Some (fid, of_nat (length body))"
    by (simp_all add: r_def patch_reloc_def fh_def Let_def)
  have z: "?z < 2 ^ 31" "?s \<le> body_end fh" using ar(3,4) by (simp_all add: body_end_def)
  have sd: "sint (rl_delta r) = int (length body) - int (body_end fh - ?s)"
    using patch_reloc_simps(3)[OF arranged] by (simp add: r_def fh_def body_end_def)
  have "(headers_in F img 128 n = map (\<lambda>i. moved_header r (resized_to r i) (bf_function_headers f ! i)) [0..<n]
      \<and> in_bounds F img 128 n) \<and> same_outside (touched h r a n) ?B img \<and> edit = header_edit_shifted (rl_delta r)
      \<and> (\<forall>i < n. sf_overflowed F (slot_at F img 128 i) \<longrightarrow> sf_overflowed F (slot_at F a 128 i)
      \<and> sf_pointer F (slot_at F img 128 i) = moved_pos r (sf_pointer F (slot_at F a 128 i)))"
  proof (cases "rl_delta r = 0")
    case True
    then have "int (length body) = int ?z" using sd z(2) unfolding True body_end_def by simp
    then have len: "length body = ?z" by (simp only: of_nat_eq_iff)
    with built True have img: "img = put_at a ?s body" and edit: "edit = header_edit_default"
      by (simp_all add: spliced_image_def)
    have B: "?B = img" using ar(3) len by (simp add: img body_end_def splice_same[symmetric])
    have so: "same_outside {?s..<?s + length body} a img"
      unfolding img by (rule same_outside_put) (use ar(3) len in \<open>simp add: body_end_def\<close>)
    note cong = headers_in_cong[OF pt(2)[unfolded n, folded F_def] so]
    have d1: "{?s..<?s + length body} \<inter> {128..<128 + n * sf_hsize F} = {}" using ar(2) by auto
    have d2: "{?s..<?s + length body} \<inter> {sf_pointer F (slot_at F a 128 i)..<sf_pointer F (slot_at F a 128 i) + sf_lsize F} = {}"
      if "i < n" "sf_overflowed F (slot_at F a 128 i)" for i
      using ar(5) that len by (auto simp: well_placed_def body_end_def)
    note c = cong[OF d1 d2]
    have still: "moved_header r (resized_to r i) (bf_function_headers f ! i) = bf_function_headers f ! i" for i
      by (rule moved_header_still)
         (use sd len rl(3) in \<open>auto simp: body_end_def resized_to_def fh_def unat_of_nat split: if_splits\<close>)
    have "headers_in F img 128 n = bf_function_headers f"
      using c(1) pt(1) by (simp add: n F_def)
    moreover have "\<dots> = map (\<lambda>i. moved_header r (resized_to r i) (bf_function_headers f ! i)) [0..<n]"
      unfolding still n_def by (rule map_nth[symmetric])
    moreover have "moved_pos r x = x" for x using sd len by (simp add: moved_pos_def body_end_def)
    moreover have "edit = header_edit_shifted (rl_delta r)"
      by (simp add: edit True header_edit_shifted_def header_edit_default_def)
    ultimately show ?thesis using c(2,3) by (simp add: B)
  next
    case False
    then have run: "relocate f ?B r = Inr img" and edit: "edit = header_edit_shifted (rl_delta r)"
      using built by (auto simp: spliced_image_def res_bind_Inr_iff rl(2) r_def patch_reloc_def Let_def fh_def body_end_def)
    note t = relocated_table[OF parse run rl(1) sd, unfolded n, folded F_def h_def]
    have "?s \<le> body_end fh" "body_end fh \<le> length a" "length a + 3 < 2 ^ 32" using z ar by simp_all
    from t[OF ar(2) this ar(5)] edit show ?thesis by simp
  qed
  then show "headers_in F img 128 n = map (\<lambda>i. moved_header r (resized_to r i) (bf_function_headers f ! i)) [0..<n]"
    "in_bounds F img 128 n" "same_outside (touched h r a n) ?B img" "edit = header_edit_shifted (rl_delta r)"
    "\<And>i. i < n \<Longrightarrow> sf_overflowed F (slot_at F img 128 i) \<Longrightarrow> sf_overflowed F (slot_at F a 128 i)
      \<and> sf_pointer F (slot_at F img 128 i) = moved_pos r (sf_pointer F (slot_at F a 128 i))" by simp_all
qed

section \<open>The file a patch leaves behind\<close>

lemma apply_shift_eq: "\<exists>x. header_edit_apply (header_edit_shifted d) h = h\<lparr>debug_info_offset := x\<rparr>"
proof (cases "debug_info_offset h = 0")
  case True
  then have "header_edit_apply (header_edit_shifted d) h = h\<lparr>debug_info_offset := 0\<rparr>"
    by (simp add: header_edit_apply_def header_edit_shifted_def header_edit_default_def)
  then show ?thesis by blast
next
  case False
  then have "header_edit_apply (header_edit_shifted d) h =
      h\<lparr>debug_info_offset := ucast ((ucast (debug_info_offset h) :: i64) + d)\<rparr>"
    by (simp add: header_edit_apply_def header_edit_shifted_def header_edit_default_def)
  then show ?thesis by blast
qed

lemma patched_program:
  fixes f :: bytecode_file and fid :: u32 and body :: "u8 list"
  defines "h \<equiv> bf_header f" and "n \<equiv> length (bf_function_headers f)"
  defines "fh \<equiv> bf_function_headers f ! unat fid" and "r \<equiv> patch_reloc f fid body"
  assumes sha: "digest_len sha1" and parse: "parse_auto sha1 a = Inr f" and arranged: "arranged f a fid body"
    and run: "patch_function_bytes_with sha1 fid body None f = (Inr out, f')"
  shows "parse_auto sha1 out = Inr f'" and "verify_footer sha1 out"
    and "bf_header f' = (header_edit_apply (header_edit_shifted (rl_delta r)) h)\<lparr>file_length := of_nat (length out)\<rparr>"
    and "bf_function_headers f' = map (\<lambda>i. moved_header r (resized_to r i) (bf_function_headers f ! i)) [0..<n]"
    and "length out = length (splice_at a (unat (fh_offset fh)) (body_end fh) body)"
    and "same_outside (touched h r a n \<union> {32..<36} \<union> {length out - 20..<length out})
           (splice_at a (unat (fh_offset fh)) (body_end fh) body) out"
    and "bf_instruction_offset f' = bf_instruction_offset f"
proof -
  let ?s = "unat (fh_offset fh)" and ?F = "format_of (bf_header f)"
  let ?B = "splice_at a ?s (body_end fh) body"
  note pt = parsed_image_table[OF parse]
  have n: "unat (function_count (bf_header f)) = n" using pt(1) by (simp add: n_def headers_in_def)
  have st: "header_stride (fn_header_layout (bf_header f)) = sf_hsize ?F"
    by (simp add: header_stride_def format_of_def split: function_header_layout.split)
  from arranged have ar: "unat fid < n" "128 + n * sf_hsize ?F \<le> ?s" "body_end fh + 20 \<le> length a"
    "length a + length body < 2 ^ 31" "well_placed ?F a 128 n (body_end fh)"
    "\<And>i. i < n \<Longrightarrow> sf_overflowed ?F (slot_at ?F a 128 i) \<Longrightarrow> sf_pointer ?F (slot_at ?F a 128 i) + sf_lsize ?F + 20 \<le> length a"
    by (simp_all add: arranged_def Let_def fh_def[symmetric] n_def[symmetric] st)
  have z: "?s \<le> body_end fh" "unat (fh_bytecode_size fh) = body_end fh - ?s" by (simp_all add: body_end_def)
  have raw: "bf_raw_bytes f = Some a" by (rule parse_auto_raw[OF parse])
  from run obtain img edit where
    built: "spliced_image f a fid ?s (unat (fh_bytecode_size fh)) body = Inr (img, edit)"
    and com: "commit_image_checked sha1 img edit (handlers_read_back fid None) f = (Inr out, f')"
    using ar(1) by (auto simp: patch_function_bytes_with_def patched_image_def res_bind_Inr_iff raw ok_or_def list_get_def
        n_def[symmetric] fh_def[symmetric] Let_def with_handlers_def split: sum.splits prod.splits if_splits)
  note t = patched_table[OF parse arranged built[unfolded fh_def], folded r_def n_def fh_def]
  from com have c: "finalize_raw_image sha1 img = Inr out" "parse_auto sha1 out = Inr f'"
    "bf_header f' = (header_edit_apply edit (bf_header f))\<lparr>file_length := of_nat (length out)\<rparr>"
    by (simp_all add: commit_Inr_iff)
  have li: "length img = length ?B" by (rule same_outside_length[OF t(3)])
  have lB: "length ?B = ?s + length body + (length a - body_end fh)" using ar(3) z(1) by (simp add: splice_at_def)
  have "56 \<le> length img" "length img < 2 ^ 32" using lB li ar(2-4) z(1) by simp_all
  note fin = finalized[OF sha c(1) this]
  show "parse_auto sha1 out = Inr f'" by (rule c(2))
  show "verify_footer sha1 out" using fin by blast
  show hd: "bf_header f' = (header_edit_apply (header_edit_shifted (rl_delta r)) h)\<lparr>file_length := of_nat (length out)\<rparr>"
    using c(3) by (simp add: t(4) h_def)
  show lo: "length out = length ?B" using fin li by simp
  let ?A = "{32..<36} \<union> {length img - 20..<length img}"
  have so: "same_outside ?A img out"
    using fin by (auto simp: same_outside_def)
  show "same_outside (touched h r a n \<union> {32..<36} \<union> {length out - 20..<length out}) ?B out"
    unfolding h_def by (rule same_outside_mono[OF same_outside_trans[OF t(3) so]]) (use lo li in auto)
  have mv: "moved_pos r x + body_end fh = ?s + length body + x" if "body_end fh \<le> x" for x
  proof -
    have "rl_moved_from r = body_end fh" "sint (rl_delta r) = int (length body) - int (body_end fh - ?s)"
      using patch_reloc_simps(1,3)[OF arranged] unfolding r_def fh_def[symmetric] z(2) by simp_all
    then show ?thesis using z(1) that by (rule moved_pos_past)
  qed
  have d1: "?A \<inter> {128..<128 + n * sf_hsize ?F} = {}" using ar(2) lB li z(1) ar(3) by auto
  have d2: "?A \<inter> {sf_pointer ?F (slot_at ?F img 128 i)..<sf_pointer ?F (slot_at ?F img 128 i) + sf_lsize ?F} = {}"
    if i: "i < n" "sf_overflowed ?F (slot_at ?F img 128 i)" for i
  proof -
    let ?p = "sf_pointer ?F (slot_at ?F a 128 i)" and ?q = "sf_pointer ?F (slot_at ?F img 128 i)"
    from t(5)[OF i] have o: "sf_overflowed ?F (slot_at ?F a 128 i)" and q: "?q = moved_pos r ?p" by simp_all
    from ar(5) i(1) o have "body_end fh \<le> ?p" by (simp add: well_placed_def)
    with mv[of ?p] ar(6)[OF i(1) o] q lB li ar(2,3) have "128 \<le> ?q" "?q + sf_lsize ?F + 20 \<le> length img" by linarith+
    then show ?thesis by auto
  qed
  obtain x where x: "bf_header f' = (bf_header f)\<lparr>debug_info_offset := x, file_length := of_nat (length out)\<rparr>"
    using hd apply_shift_eq[of "rl_delta r" h] by (auto simp: h_def)
  then have "format_of (bf_header f') = ?F" "unat (function_count (bf_header f')) = n"
    by (simp_all add: format_of_def n split: function_header_layout.split)
  then show "bf_function_headers f' = map (\<lambda>i. moved_header r (resized_to r i) (bf_function_headers f ! i)) [0..<n]"
    using parsed_image_table(1)[OF c(2)] headers_in_cong(1)[OF t(2) so d1 d2] t(1) by simp
  show "bf_instruction_offset f' = bf_instruction_offset f" by (rule same_code_start[OF parse c(2) x])
qed

text \<open>Code past the table and clear of the moved large headers is not written to.\<close>

lemma untouched_code:
  fixes f :: bytecode_file and fid :: u32 and body :: "u8 list"
  defines "n \<equiv> length (bf_function_headers f)" and "F \<equiv> format_of (bf_header f)" and "r \<equiv> patch_reloc f fid body"
  defines "fh \<equiv> bf_function_headers f ! unat fid"
  assumes "digest_len sha1" "parse_auto sha1 a = Inr f" "arranged f a fid body"
    and "patch_function_bytes_with sha1 fid body None f = (Inr out, f')"
    and at: "128 + n * header_stride (fn_header_layout (bf_header f)) \<le> p" "p + k + 20 \<le> length out"
    and clear: "\<And>i. i < n \<Longrightarrow> sf_overflowed F (slot_at F a 128 i) \<Longrightarrow>
      {p..<p + k} \<inter> {moved_pos r (sf_pointer F (slot_at F a 128 i))..<moved_pos r (sf_pointer F (slot_at F a 128 i)) + sf_lsize F} = {}"
  shows "get_at k out p = get_at k (splice_at a (unat (fh_offset fh)) (body_end fh) body) p"
proof -
  note pp = patched_program[OF assms(5-8), folded n_def r_def fh_def]
  have st: "header_stride (fn_header_layout (bf_header f)) = sf_hsize F"
    by (simp add: header_stride_def F_def format_of_def split: function_header_layout.split)
  have table: "{p..<p + k} \<inter> {128..<128 + n * sf_hsize F} = {}" "{p..<p + k} \<inter> {32..<36} = {}"
    "{p..<p + k} \<inter> {length out - 20..<length out} = {}"
    using at st by auto
  have large: "{p..<p + k} \<inter> (\<Union>i<n. large_span F r a 128 i) = {}"
    using clear by (fastforce simp: large_span_def Let_def split: if_splits)
  have "{p..<p + k} \<inter> (let d = debug_info_offset_pos (bf_header f) (fn_header_layout (bf_header f) = Modern12) in {d..<d + 4}) = {}"
    using debug_pos_range[of "bf_header f" "fn_header_layout (bf_header f) = Modern12"] at(1) by (auto simp: Let_def)
  with table large have "{p..<p + k} \<inter> (touched (bf_header f) r a n \<union> {32..<36} \<union> {length out - 20..<length out}) = {}"
    unfolding touched_def F_def[symmetric] by blast
  then show ?thesis
    by (rule same_outside_get[OF pp(6), rotated]) (use at(2) pp(5) in simp)
qed

lemma get_splice_inside: "s \<le> length xs \<Longrightarrow> get_at (length ys) (splice_at xs s e ys) s = ys"
  by (simp add: get_at_def splice_at_def)

lemma patched_body_bytes:
  fixes f :: bytecode_file and fid :: u32
  defines "fh \<equiv> bf_function_headers f ! unat fid"
  assumes sha: "digest_len sha1" and parse: "parse_auto sha1 a = Inr f" and arranged: "arranged f a fid body"
    and run: "patch_function_bytes_with sha1 fid body None f = (Inr out, f')"
  shows "get_at (length body) out (unat (fh_offset fh)) = body"
    and "length out = unat (fh_offset fh) + length body + (length a - body_end fh)"
proof -
  let ?n = "length (bf_function_headers f)" and ?F = "format_of (bf_header f)" and ?r = "patch_reloc f fid body"
  let ?s = "unat (fh_offset fh)"
  note pp = patched_program[OF sha parse arranged run, folded fh_def]
  from arranged have ar: "128 + ?n * header_stride (fn_header_layout (bf_header f)) \<le> ?s"
    "body_end fh + 20 \<le> length a" "well_placed ?F a 128 ?n (body_end fh)"
    by (simp_all add: arranged_def Let_def fh_def[symmetric])
  have e: "?s \<le> body_end fh" by (simp add: body_end_def)
  note pr = patch_reloc_simps[OF arranged, folded fh_def]
  have sd: "sint (rl_delta ?r) = int (length body) - int (body_end fh - ?s)" by (simp add: pr(3) body_end_def)
  show lo: "length out = ?s + length body + (length a - body_end fh)" using e ar(2) pp(5) by (simp add: splice_at_def)
  have "get_at (length body) out ?s = get_at (length body) (splice_at a ?s (body_end fh) body) ?s"
  proof (rule untouched_code[OF sha parse arranged run, folded fh_def])
    show "128 + ?n * header_stride (fn_header_layout (bf_header f)) \<le> ?s" by (rule ar(1))
    show "?s + length body + 20 \<le> length out" using lo ar(2) by simp
    fix i assume "i < ?n" "sf_overflowed ?F (slot_at ?F a 128 i)"
    with ar(3) have le: "body_end fh \<le> sf_pointer ?F (slot_at ?F a 128 i)" by (simp add: well_placed_def)
    from moved_pos_past[OF pr(1) sd e le] le
    have "?s + length body \<le> moved_pos ?r (sf_pointer ?F (slot_at ?F a 128 i))" by simp
    then show "{?s..<?s + length body} \<inter> {moved_pos ?r (sf_pointer ?F (slot_at ?F a 128 i))..<
        moved_pos ?r (sf_pointer ?F (slot_at ?F a 128 i)) + sf_lsize ?F} = {}" by auto
  qed
  also have "\<dots> = body" using e ar(2) by (intro get_splice_inside) simp
  finally show "get_at (length body) out ?s = body" .
qed

lemma patched_code:
  fixes f :: bytecode_file and fid :: u32
  defines "fh \<equiv> bf_function_headers f ! unat fid"
  assumes sha: "digest_len sha1" and parse: "parse_auto sha1 a = Inr f" and arranged: "arranged f a fid body"
    and run: "patch_function_bytes_with sha1 fid body None f = (Inr out, f')"
    and nonempty: "fh_bytecode_size fh \<noteq> 0"
  shows "decode_function_instructions f' format fid = decode_body format body"
proof -
  let ?n = "length (bf_function_headers f)" and ?r = "patch_reloc f fid body"
  note pp = patched_program[OF sha parse arranged run, folded fh_def]
    and bytes = patched_body_bytes[OF sha parse arranged run, folded fh_def]
  from arranged have ar: "unat fid < ?n" "bf_instruction_offset f \<le> fh_offset fh" "body_end fh + 20 \<le> length a"
    "length a + length body < 2 ^ 31"
    by (simp_all add: arranged_def Let_def fh_def[symmetric])
  have e: "unat (fh_offset fh) < body_end fh" using nonempty by (simp add: body_end_def unat_gt_0)
  note pr = patch_reloc_simps[OF arranged, folded fh_def]
  have h': "bf_function_headers f' ! unat fid = moved_header ?r (Some (of_nat (length body))) fh" "length (bf_function_headers f') = ?n"
    using ar(1) by (simp_all add: pp(4) resized_to_def pr(2) fh_def)
  have off: "fh_offset (bf_function_headers f' ! unat fid) = fh_offset fh"
    using e by (simp add: h'(1) moved_def pr(1))
  have sz: "unat (fh_bytecode_size (bf_function_headers f' ! unat fid)) = length body"
    using ar(4) by (simp add: h'(1) new_size_def unat_of_nat_less)
  have "decode_function_instructions f' format fid = decode_body format (code_of out (bf_function_headers f' ! unat fid))"
  proof (rule decode_is_body[OF pp(1) _ refl])
    show "unat fid < length (bf_function_headers f')" using ar(1) h'(2) by simp
    show "bf_instruction_offset f' \<le> fh_offset (bf_function_headers f' ! unat fid)" using ar(2) by (simp add: pp(7) off)
    show "body_end (bf_function_headers f' ! unat fid) \<le> length out" using bytes(2) by (simp add: body_end_def off sz)
    show "length out < 2 ^ 32" using bytes(2) ar(3,4) e by simp
  qed
  then show ?thesis using bytes(1) by (simp add: code_of_def sz off)
qed

text \<open>A function whose body the patch neither replaces nor overlaps: it lies between the table and
  the replaced body, or after it, clear of the footer and of every large header.\<close>

definition kept :: "bytecode_file \<Rightarrow> u8 list \<Rightarrow> u32 \<Rightarrow> nat \<Rightarrow> bool" where
  "kept f a fid j \<longleftrightarrow>
     (let h = bf_function_headers f ! j; fh = bf_function_headers f ! unat fid;
          n = length (bf_function_headers f); F = format_of (bf_header f) in
      j < n \<and> j \<noteq> unat fid \<and> bf_instruction_offset f \<le> fh_offset h
      \<and> 128 + n * header_stride (fn_header_layout (bf_header f)) \<le> unat (fh_offset h)
      \<and> (body_end h \<le> unat (fh_offset fh)
         \<or> body_end fh \<le> unat (fh_offset h) \<and> body_end h + 20 \<le> length a
           \<and> (\<forall>i < n. sf_overflowed F (slot_at F a 128 i) \<longrightarrow>
                body_end h \<le> sf_pointer F (slot_at F a 128 i)
                \<or> sf_pointer F (slot_at F a 128 i) + sf_lsize F \<le> unat (fh_offset h))))"

lemma unat_moved:
  assumes "int (moved_pos r (unat w)) < 2 ^ 32" and "0 \<le> int (unat w) + sint (rl_delta r)"
  shows "unat (moved r w) = moved_pos r (unat w)"
proof (cases "unat w < rl_moved_from r")
  case True
  then show ?thesis by (simp add: moved_def moved_pos_def)
next
  case False
  then have m: "moved_pos r (unat w) = nat (uint w + sint (rl_delta r))" by (simp add: moved_pos_def)
  have "moved r w = word_of_int (uint w + sint (rl_delta r))" using False by (simp add: moved_def)
  also have "\<dots> = of_nat (moved_pos r (unat w))" using assms(2) unfolding m by simp
  finally show ?thesis using assms(1) by (simp add: unat_of_nat_less)
qed

lemma kept_code:
  fixes f :: bytecode_file and fid fj :: u32
  defines "fh \<equiv> bf_function_headers f ! unat fid" and "h \<equiv> bf_function_headers f ! unat fj"
  assumes sha: "digest_len sha1" and parse: "parse_auto sha1 a = Inr f" and arranged: "arranged f a fid body"
    and run: "patch_function_bytes_with sha1 fid body None f = (Inr out, f')"
    and nonempty: "fh_bytecode_size fh \<noteq> 0" and kept: "kept f a fid (unat fj)"
  shows "decode_function_instructions f' format fj = decode_function_instructions f format fj"
proof -
  let ?n = "length (bf_function_headers f)" and ?F = "format_of (bf_header f)" and ?r = "patch_reloc f fid body"
  let ?s = "unat (fh_offset fh)" and ?e = "body_end fh" and ?z = "unat (fh_bytecode_size h)"
  note pp = patched_program[OF sha parse arranged run, folded fh_def]
  from arranged have ar: "unat fid < ?n" "128 + ?n * header_stride (fn_header_layout (bf_header f)) \<le> ?s"
    "bf_instruction_offset f \<le> fh_offset fh" "?e + 20 \<le> length a"
    "length a + length body < 2 ^ 31" "well_placed ?F a 128 ?n ?e"
    by (simp_all add: arranged_def Let_def fh_def[symmetric])
  from kept have k: "unat fj < ?n" "unat fj \<noteq> unat fid" "bf_instruction_offset f \<le> fh_offset h"
    "128 + ?n * header_stride (fn_header_layout (bf_header f)) \<le> unat (fh_offset h)"
    "body_end h \<le> ?s \<or> ?e \<le> unat (fh_offset h) \<and> body_end h + 20 \<le> length a
           \<and> (\<forall>i < ?n. sf_overflowed ?F (slot_at ?F a 128 i) \<longrightarrow>
                body_end h \<le> sf_pointer ?F (slot_at ?F a 128 i)
                \<or> sf_pointer ?F (slot_at ?F a 128 i) + sf_lsize ?F \<le> unat (fh_offset h))"
    by (simp_all add: kept_def Let_def fh_def[symmetric] h_def[symmetric])
  have e: "?s < ?e" using nonempty by (simp add: body_end_def unat_gt_0)
  note pr = patch_reloc_simps[OF arranged, folded fh_def]
  have sd: "sint (rl_delta ?r) = int (length body) - int (?e - ?s)" by (simp add: pr(3) body_end_def)
  note past = moved_pos_past[OF pr(1) sd less_imp_le[OF e]]
  have lo: "length out = ?s + length body + (length a - ?e)" using e ar(4) pp(5) by (simp add: splice_at_def)
  have ptr: "?e \<le> sf_pointer ?F (slot_at ?F a 128 i)" if "i < ?n" "sf_overflowed ?F (slot_at ?F a 128 i)" for i
    using that ar(6) by (simp add: well_placed_def)
  have h': "bf_function_headers f' ! unat fj = moved_header ?r None h" "length (bf_function_headers f') = ?n"
    using k(1,2) by (simp_all add: pp(4) resized_to_def pr(2) h_def)
  let ?p = "moved_pos ?r (unat (fh_offset h))"
  have place: "get_at ?z (splice_at a ?s ?e body) ?p = get_at ?z a (unat (fh_offset h))
      \<and> bf_instruction_offset f \<le> moved ?r (fh_offset h) \<and> unat (moved ?r (fh_offset h)) = ?p
      \<and> 128 + ?n * header_stride (fn_header_layout (bf_header f)) \<le> ?p \<and> ?p + ?z + 20 \<le> length out
      \<and> (\<forall>i < ?n. sf_overflowed ?F (slot_at ?F a 128 i) \<longrightarrow> {?p..<?p + ?z} \<inter>
           {moved_pos ?r (sf_pointer ?F (slot_at ?F a 128 i))..<moved_pos ?r (sf_pointer ?F (slot_at ?F a 128 i)) + sf_lsize ?F} = {})"
  proof (cases "body_end h \<le> ?s")
    case True
    then have p: "?p = unat (fh_offset h)" and m: "moved ?r (fh_offset h) = fh_offset h"
      using e by (simp_all add: moved_pos_def moved_def pr(1) body_end_def)
    have "get_at ?z (splice_at a ?s ?e body) ?p = get_at ?z a (unat (fh_offset h))"
      unfolding p by (rule get_splice_before) (use True e ar(4) in \<open>simp_all add: body_end_def\<close>)
    moreover have "{?p..<?p + ?z} \<inter> {moved_pos ?r q..<moved_pos ?r q + sf_lsize ?F} = {}" if "?e \<le> q" for q
      using past[OF that] True that by (auto simp: p body_end_def)
    then have "\<forall>i < ?n. sf_overflowed ?F (slot_at ?F a 128 i) \<longrightarrow> {?p..<?p + ?z} \<inter>
           {moved_pos ?r (sf_pointer ?F (slot_at ?F a 128 i))..<moved_pos ?r (sf_pointer ?F (slot_at ?F a 128 i)) + sf_lsize ?F} = {}"
      using ptr by (intro allI impI) blast
    moreover have "?p + ?z + 20 \<le> length out" using True lo ar(4) by (simp add: p body_end_def)
    ultimately show ?thesis unfolding m using k(3,4) p by (intro conjI) simp_all
  next
    case False
    with k(5) have after: "?e \<le> unat (fh_offset h)" "body_end h + 20 \<le> length a"
      and clear: "\<And>i. i < ?n \<Longrightarrow> sf_overflowed ?F (slot_at ?F a 128 i) \<Longrightarrow>
                body_end h \<le> sf_pointer ?F (slot_at ?F a 128 i)
                \<or> sf_pointer ?F (slot_at ?F a 128 i) + sf_lsize ?F \<le> unat (fh_offset h)" by auto
    note p = past[OF after(1)]
    have in_out: "?p + ?z + 20 \<le> length out"
      using p after lo ar(4) by (simp add: body_end_def)
    have nonneg: "x < y \<Longrightarrow> y \<le> w \<Longrightarrow> 0 \<le> int w + (int m - int (y - x))" for x y w m :: nat by simp
    have "unat (moved ?r (fh_offset h)) = ?p"
    proof (rule unat_moved)
      show "int ?p < 2 ^ 32" using in_out lo ar(4,5) e by simp
      show "0 \<le> int (unat (fh_offset h)) + sint (rl_delta ?r)" unfolding sd using e after(1) by (rule nonneg)
    qed
    moreover have "get_at ?z (splice_at a ?s ?e body) ?p = get_at ?z a (unat (fh_offset h))"
    proof -
      have "?p = ?s + length body + (unat (fh_offset h) - ?e)" using p after(1) by simp
      then show ?thesis using get_splice_after[of ?s ?e a "unat (fh_offset h)" ?z body] e ar(4) after(1) by simp
    qed
    moreover have "bf_instruction_offset f \<le> moved ?r (fh_offset h)"
      using ar(3) p after(1) calculation(1) by (simp add: word_le_nat_alt)
    moreover have "128 + ?n * header_stride (fn_header_layout (bf_header f)) \<le> ?p" using ar(2) p after(1) by simp
    moreover have "{?p..<?p + ?z} \<inter> {moved_pos ?r q..<moved_pos ?r q + sf_lsize ?F} = {}"
      if "?e \<le> q" "body_end h \<le> q \<or> q + sf_lsize ?F \<le> unat (fh_offset h)" for q
      using past[OF that(1)] that(2) p by (auto simp: body_end_def)
    then have "\<forall>i < ?n. sf_overflowed ?F (slot_at ?F a 128 i) \<longrightarrow> {?p..<?p + ?z} \<inter>
           {moved_pos ?r (sf_pointer ?F (slot_at ?F a 128 i))..<moved_pos ?r (sf_pointer ?F (slot_at ?F a 128 i)) + sf_lsize ?F} = {}"
      using ptr clear by (intro allI impI) blast
    ultimately show ?thesis using in_out by blast
  qed
  have off: "unat (fh_offset (bf_function_headers f' ! unat fj)) = ?p"
    and sz: "fh_bytecode_size (bf_function_headers f' ! unat fj) = fh_bytecode_size h"
    using place by (simp_all add: h'(1) new_size_def)
  have "get_at ?z out ?p = get_at ?z (splice_at a ?s ?e body) ?p"
    by (rule untouched_code[OF sha parse arranged run, folded fh_def]) (use place in simp_all)
  then have code: "code_of out (bf_function_headers f' ! unat fj) = code_of a h"
    using place by (simp add: code_of_def off sz)
  have "decode_function_instructions f' format fj = decode_body format (code_of out (bf_function_headers f' ! unat fj))"
  proof (rule decode_is_body[OF pp(1) _ refl])
    show "unat fj < length (bf_function_headers f')" using k(1) h'(2) by simp
    show "bf_instruction_offset f' \<le> fh_offset (bf_function_headers f' ! unat fj)" using place by (simp add: pp(7) h'(1))
    show "body_end (bf_function_headers f' ! unat fj) \<le> length out" using place by (simp add: body_end_def off sz)
    show "length out < 2 ^ 32" using lo ar(4,5) e by simp
  qed
  moreover have "decode_function_instructions f format fj = decode_body format (code_of a h)"
    unfolding h_def
  proof (rule decode_is_body[OF parse k(1) refl])
    show "bf_instruction_offset f \<le> fh_offset (bf_function_headers f ! unat fj)" using k(3) by (simp add: h_def)
    show "body_end (bf_function_headers f ! unat fj) \<le> length a" using k(5) e ar(4) by (auto simp: h_def)
    show "length a < 2 ^ 32" using ar(5) by simp
  qed
  ultimately show ?thesis by (simp add: code)
qed

lemma patch_body_runs:
  assumes enc: "encode_function_body format new_body = Inr body"
    and fid: "unat fid < length (bf_function_headers f)"
    and small: "length body < 2 ^ 31" "unat (fh_bytecode_size (bf_function_headers f ! unat fid)) < 2 ^ 31"
    and four: "4 dvd int (length body) - int (unat (fh_bytecode_size (bf_function_headers f ! unat fid)))"
    and run: "patch_function_body sha1 format fid new_body options f = (Inr out, f')"
  shows "patch_function_bytes_with sha1 fid body None f = (Inr out, f')"
proof -
  let ?z = "unat (fh_bytecode_size (bf_function_headers f ! unat fid))"
  define delta :: i64 where "delta = of_nat (length body) - of_nat ?z"
  have d: "sint delta mod 4 = 0" using signed_difference[OF small] four by (simp only: delta_def dvd_eq_mod_eq_0)
  have old: "(case list_get (bf_function_headers f) (unat fid) of Some h \<Rightarrow> unat (fh_bytecode_size h) | None \<Rightarrow> 0) = ?z"
    using fid by (simp add: list_get_def)
  have pad: "pad_body format fid new_body body delta = Inr (body, 0, 0)"
    unfolding pad_body_def d by simp
  have table: "final_table f fid KeepHandlers x y z = Inr None" for x y z by (simp add: final_table_def)
  from run show ?thesis
    unfolding patch_function_body_def patch_function_body_with_def Let_def old enc res_bind_simps delta_def[symmetric]
    by (auto simp: pad table res_bind_Inr_iff split: sum.splits)
qed

text \<open>C1: What is patched in is what is decoded.  A new body of well-formed instructions, encoded to
  a multiple of four bytes more or less than the old one, is read back instruction by instruction
  from the image the patch writes; the image is sealed and parses to the file left behind; and
  every function whose code lies outside the replaced bytes, before or after them, still decodes to
  the same instructions although its code may have moved.  A refused patch leaves the file as it
  was.  The old body is not empty, and the image is arranged as the compiler lays images out: below
  2 GiB, the function table before the body, its offset inside the instructions, the large headers
  apart from each other, behind the body and inside the image.\<close>

theorem patched_function_decodes:
  assumes "digest_len sha1" and "parse_auto sha1 a = Inr f" and "arranged f a fid body"
    and "list_all (typed_insn format) new_body" "laid_out 0 new_body"
    and "encode_function_body format new_body = Inr body"
    and "fh_bytecode_size (bf_function_headers f ! unat fid) \<noteq> 0"
    and "4 dvd int (length body) - int (unat (fh_bytecode_size (bf_function_headers f ! unat fid)))"
  shows "(case patch_function_body sha1 format fid new_body options f of
       (Inl e, f') \<Rightarrow> f' = f
     | (Inr out, f') \<Rightarrow> parse_auto sha1 out = Inr f' \<and> verify_footer sha1 out
         \<and> decode_function_instructions f' format fid = Inr new_body
         \<and> (\<forall>fj. kept f a fid (unat fj) \<longrightarrow>
              decode_function_instructions f' format fj = decode_function_instructions f format fj))"
proof (cases "patch_function_body sha1 format fid new_body options f")
  case (Pair res f')
  have ar: "unat fid < length (bf_function_headers f)" "length body < 2 ^ 31"
    "unat (fh_bytecode_size (bf_function_headers f ! unat fid)) < 2 ^ 31"
    using assms(3) by (simp_all add: arranged_def Let_def body_end_def)
  show ?thesis
  proof (cases res)
    case (Inl e)
    with Pair show ?thesis using patch_body_Inl by (simp add: patch_function_body_def)
  next
    case (Inr out)
    with Pair have run: "patch_function_bytes_with sha1 fid body None f = (Inr out, f')"
      by (intro patch_body_runs[OF assms(6) ar assms(8)]) simp
    have "length body \<le> usize_max" using ar(2) by (simp add: usize_max_def)
    with assms(4-6) encode_body_typed[OF assms(4)] have "decode_body format body = Inr new_body"
      unfolding decode_body_def by (intro decode_loop_complete) (auto simp: new_reader_def ahead_def in_memory_def)
    with patched_program(1,2)[OF assms(1-3) run] patched_code[OF assms(1-3) run assms(7)]
      kept_code[OF assms(1-3) run assms(7)] Inr Pair show ?thesis by simp
  qed
qed

text \<open>C19: What a patch does to the tables.  Every function header is the old one with its offsets
  past the replaced body moved by the size change; the patched function, and no other, is given
  the new size; and the file header changes in the debug offset and the length alone.  A second
  function that shares the replaced body (the compiler merges equal bodies) therefore keeps the
  old size: its code becomes the new body cut off there.\<close>

theorem patched_headers:
  assumes "digest_len sha1" and "parse_auto sha1 a = Inr f" and "arranged f a fid body"
    and "patch_function_bytes_with sha1 fid body None f = (Inr out, f')"
  shows "(let r = patch_reloc f fid body; fh = bf_function_headers f ! unat fid in
      bf_function_headers f' = map (\<lambda>i. moved_header r (resized_to r i) (bf_function_headers f ! i))
          [0..<length (bf_function_headers f)]
      \<and> bf_header f' = (header_edit_apply (header_edit_shifted (rl_delta r)) (bf_header f))\<lparr>file_length := of_nat (length out)\<rparr>
      \<and> code_of out (fh) = take (unat (fh_bytecode_size fh)) (body @ drop (unat (fh_offset fh) + length body) out)
      \<and> (\<forall>j < length (bf_function_headers f). j \<noteq> unat fid \<and> fh_bytecode_size fh \<noteq> 0
           \<and> fh_offset (bf_function_headers f ! j) = fh_offset fh \<and> fh_bytecode_size (bf_function_headers f ! j) = fh_bytecode_size fh
           \<and> unat (fh_bytecode_size fh) \<le> length body
           \<longrightarrow> code_of out (bf_function_headers f' ! j) = take (unat (fh_bytecode_size fh)) body))"
proof -
  let ?fh = "bf_function_headers f ! unat fid" and ?r = "patch_reloc f fid body"
  note pp = patched_program[OF assms] and bytes = patched_body_bytes(1)[OF assms]
  let ?z = "unat (fh_bytecode_size ?fh)" and ?s = "unat (fh_offset ?fh)"
  note pr = patch_reloc_simps[OF assms(3)]
  have rest: "drop ?s out = body @ drop (?s + length body) out"
  proof -
    have "drop ?s out = take (length body) (drop ?s out) @ drop (length body) (drop ?s out)"
      by (rule append_take_drop_id[symmetric])
    with bytes show ?thesis unfolding get_at_def drop_drop by (simp only: add.commute)
  qed
  have "code_of out (bf_function_headers f' ! j) = take ?z body"
    if "j < length (bf_function_headers f)" "j \<noteq> unat fid" "fh_bytecode_size ?fh \<noteq> 0"
      "fh_offset (bf_function_headers f ! j) = fh_offset ?fh" "fh_bytecode_size (bf_function_headers f ! j) = fh_bytecode_size ?fh"
      "?z \<le> length body" for j
  proof -
    have "bf_function_headers f' ! j = moved_header ?r None (bf_function_headers f ! j)"
      using that(1,2) by (simp add: pp(4) resized_to_def pr(2))
    moreover have "moved ?r (fh_offset ?fh) = fh_offset ?fh"
      using that(3) by (simp add: moved_def pr(1) body_end_def unat_gt_0)
    ultimately show ?thesis
      using that(4-6) by (simp add: code_of_def new_size_def get_at_def rest)
  qed
  with pp(3,4) show ?thesis
    unfolding Let_def by (intro conjI allI impI) (simp_all add: code_of_def get_at_def rest)
qed

section \<open>The sample image patched with its own body\<close>

definition patch_sample_format :: bytecode_format where
  "patch_sample_format = \<lparr>fmt_version = 96, definitions =
     map (\<lambda>i. \<lparr>def_opcode = of_nat i, def_name = ''Ret'', operand_types = [Reg8], is_jump = False,
       abstract_definition = None\<rparr>) [0..<93],
     abstract_definitions = [], git_commit_hash = None\<rparr>"

definition patch_sample_body :: "instruction list" where
  "patch_sample_body =
     [\<lparr>in_offset = 0, in_opcode = 7, in_operands = [\<lparr>op_ty = Reg8, op_value = U8 0\<rparr>], in_length = 2\<rparr>,
      \<lparr>in_offset = 2, in_opcode = 92, in_operands = [\<lparr>op_ty = Reg8, op_value = U8 0\<rparr>], in_length = 2\<rparr>]"

lemma patch_sample_body_facts:
  "list_all (typed_insn patch_sample_format) patch_sample_body" "laid_out 0 patch_sample_body"
  "encode_function_body patch_sample_format patch_sample_body = Inr [7, 0, 92, 0]"
proof -
  have b: "map insn_bytes patch_sample_body = [[7, 0], [92, 0]]"
    by (simp add: patch_sample_body_def insn_bytes_def operands_bytes_def operand_bytes_def as_byte_def le_bytes_def upt_rec)
  show ty: "list_all (typed_insn patch_sample_format) patch_sample_body"
    by (simp add: patch_sample_body_def typed_insn_def patch_sample_format_def definition_at_def typed_operand_def)
  show "laid_out 0 patch_sample_body" using b by (simp add: patch_sample_body_def)
  show "encode_function_body patch_sample_format patch_sample_body = Inr [7, 0, 92, 0]"
    using encode_body_typed[OF ty] b by (simp add: body_bytes_def)
qed

lemma sample_patch:
  obtains img f where "length img = 192" "parse_auto sample_digest img = Inr f" "arranged f img 0 [7, 0, 92, 0]"
    "fh_bytecode_size (bf_function_headers f ! 0) = 4"
    "patch_function_bytes_with sample_digest 0 [7, 0, 92, 0] None f = (Inr img, f)"
    "patch_function_body sample_digest patch_sample_format 0 patch_sample_body options f = (Inr img, f)"
    "length (bf_function_headers f) = 1"
proof -
  obtain img f where f: "length img = 192" "parse_auto sample_digest img = Inr f" "is_clean f"
    "unat (bf_instruction_offset f) = 168"
    "bf_function_headers f = [LegacyHeader \<lparr>lf_function_id = 0, lf_offset = 168, lf_param_count = 1,
        lf_bytecode_size = 4, lf_function_name = 0, lf_info_offset = 0, lf_frame_size = 2, lf_environment_size = 0,
        lf_highest_read_cache_index = 0, lf_highest_write_cache_index = 0, lf_flags = PROHIBIT_NONE\<rparr>]"
    "fn_header_layout (bf_header f) = Legacy16"
    "\<forall>format. decode_function_instructions f format 0 = decode_body format [7, 0, 92, 0]"
    by (rule sample_program)
  have ins: "decode_body patch_sample_format [7, 0, 92, 0] = Inr patch_sample_body"
    unfolding decode_body_def
    by (rule decode_loop_complete)
       (use patch_sample_body_facts encode_body_typed[OF patch_sample_body_facts(1)] in
         \<open>simp_all add: new_reader_def ahead_def in_memory_def usize_max_def\<close>)
  have io: "bf_instruction_offset f = 168" using f(4) by (simp add: word_unat_eq_iff)
  let ?fh = "bf_function_headers f ! 0"
  have fh: "fh_offset ?fh = 168" "fh_bytecode_size ?fh = 4" "body_end ?fh = 172" "length (bf_function_headers f) = 1"
    by (simp_all add: f(5) body_end_def)
  have "decode_body patch_sample_format (code_of img ?fh) = Inr patch_sample_body"
    using decode_is_body[OF f(2), of 0 0 patch_sample_format] f(1,7) ins io fh by simp
  then have "body_bytes patch_sample_body = code_of img ?fh"
    using decode_loop_sound[of patch_sample_format 0 "new_reader (code_of img ?fh)" patch_sample_body]
    by (simp add: decode_body_def new_reader_def ahead_def)
  then have code: "get_at 4 img 168 = [7, 0, 92, 0]"
    using patch_sample_body_facts(3) encode_body_typed[OF patch_sample_body_facts(1)] fh by (simp add: code_of_def)
  note pt = parsed_image_table[OF f(2)]
  have n: "unat (function_count (bf_header f)) = 1" using arg_cong[OF pt(1), of length] f(5) by (simp add: headers_in_def)
  have h: "header_at (format_of (bf_header f)) img 128 0 = ?fh"
    using pt(1) n by (simp add: headers_in_def)
  have nov: "\<not> sf_overflowed (format_of (bf_header f)) (slot_at (format_of (bf_header f)) img 128 0)"
    using overflowed_header[of "bf_header f" img 128 0] by (simp add: h f(5) PROHIBIT_NONE_def FLAG_OVERFLOWED_def)
  have wp: "well_placed (format_of (bf_header f)) img 128 1 172" using pt(2) nov by (simp add: well_placed_def n)
  have ar: "arranged f img 0 [7, 0, 92, 0]"
    using wp nov f(1) io fh by (simp add: arranged_def Let_def header_stride_def f(6))
  have put: "put_at img 168 [7, 0, 92, 0] = img"
    using put_at_get_at[of 168 4 img] f(1) by (simp add: code)
  have com: "commit_image_checked sample_digest img header_edit_default (handlers_read_back 0 None) f = (Inr img, f)"
    unfolding commit_Inr_iff
    using clean_is_sealed(1)[OF sample_digest_len f(2,3)] f(2) clean_header_length[OF f(2,3)]
    by (simp add: handlers_read_back_def apply_default)
  have bytes: "patch_function_bytes_with sample_digest 0 [7, 0, 92, 0] None f = (Inr img, f)"
    using com put fh f(1) parse_auto_raw[OF f(2)]
    by (simp add: patch_function_bytes_with_def patched_image_def spliced_image_def with_handlers_def
        list_get_def ok_or_def Let_def)
  have "patch_function_body sample_digest patch_sample_format 0 patch_sample_body options f = (Inr img, f)"
    using bytes patch_sample_body_facts(3) fh
    by (simp add: patch_function_body_def patch_function_body_with_def Let_def list_get_def refused_handlers_def
        refused_debug_def pad_body_def final_table_def)
  with f(1,2) ar bytes fh show thesis by (intro that) simp_all
qed

theorem patched_function_decodes_witness:
  "\<exists>img f options. length img = 192 \<and> parse_auto sample_digest img = Inr f
     \<and> patch_function_body sample_digest patch_sample_format 0 patch_sample_body options f = (Inr img, f)
     \<and> decode_function_instructions f patch_sample_format 0 = Inr patch_sample_body"
proof -
  obtain img f where s: "length img = 192" "parse_auto sample_digest img = Inr f" "arranged f img 0 [7, 0, 92, 0]"
    "fh_bytecode_size (bf_function_headers f ! 0) = 4"
    "patch_function_body sample_digest patch_sample_format 0 patch_sample_body
       \<lparr>po_strip_debug_info = False, po_allow_stale_debug_info = False, po_unpacked_strings = False\<rparr> f = (Inr img, f)"
    by (rule sample_patch)
  from patched_function_decodes[OF sample_digest_len s(2) s(3) patch_sample_body_facts, of
      "\<lparr>po_strip_debug_info = False, po_allow_stale_debug_info = False, po_unpacked_strings = False\<rparr>"] s
  show ?thesis by (fastforce simp: s(5))
qed

theorem patched_headers_witness:
  "\<exists>img f. length img = 192 \<and> parse_auto sample_digest img = Inr f
     \<and> code_of img (bf_function_headers f ! 0) = [7, 0, 92, 0]"
proof -
  obtain img f where s: "length img = 192" "parse_auto sample_digest img = Inr f" "arranged f img 0 [7, 0, 92, 0]"
    "fh_bytecode_size (bf_function_headers f ! 0) = 4"
    "patch_function_bytes_with sample_digest 0 [7, 0, 92, 0] None f = (Inr img, f)"
    by (rule sample_patch)
  from patched_headers[OF sample_digest_len s(2) s(3) s(5)] s show ?thesis
    by (auto simp: Let_def)
qed

end
