(* ===== verification/Ir.thy ===== *)
theory Ir
  imports Rust_Strings
begin

text \<open>
  The intermediate representation (\<open>crates/hbc-decomp/src/ir/types.rs\<close>, \<open>expr/mod.rs\<close>,
  \<open>expr/ops.rs\<close>, \<open>stmt/mod.rs\<close>) and the walks over it (\<open>ir/visitor.rs\<close>).  Constructors carry
  the initial of their enum, since several enums of the code use the same names.  The default
  methods \<open>walk_*\<close> of the two visitor traits are modelled by what they do at one node: the
  read-only walk is the list of the parts it visits, in order, the mutating walk applies the
  hooks to the same parts in place.
\<close>

section \<open>Values and names\<close>

type_synonym block_id = u32
type_synonym reg = u32

datatype const_value =
    CUndefined
  | CNull
  | CBool bool
  | CNumber f64_bits
  | CInteger i32
  | CString rust_string
  | CBigInt rust_string

record slot_ref =
  sr_owner :: u32
  sr_slot :: u32

record var =
  var_name :: rust_string
  var_slot :: "slot_ref option"

definition var_new :: "rust_string \<Rightarrow> var" where
  "var_new name = \<lparr>var_name = name, var_slot = None\<rparr>"

text \<open>\<open>PartialEq for Var\<close>: the name alone tells two variables apart.\<close>

definition var_eq :: "var \<Rightarrow> var \<Rightarrow> bool" where
  "var_eq a b \<longleftrightarrow> var_name a = var_name b"

datatype binding =
    BRegister reg
  | BVariable var
  | BClosureVar u32 u32

datatype ir_value =
    VBinding binding
  | VConstant const_value
  | VThis
  | VGlobal
  | VParameter u32
  | VArguments
  | VNewTarget
  | VSuper

fun value_as_binding :: "ir_value \<Rightarrow> binding option" where
  "value_as_binding (VBinding b) = Some b"
| "value_as_binding _ = None"

datatype binary_op =
    OpAdd | OpSub | OpMul | OpDiv | OpMod | OpBitAnd | OpBitOr | OpBitXor | OpShl | OpShr | OpUShr
  | OpEq | OpStrictEq | OpNeq | OpStrictNeq | OpLt | OpLe | OpGt | OpGe | OpAnd | OpOr | OpIn
  | OpInstanceOf | OpNullishCoalesce | OpLogicalAnd | OpLogicalOr | OpExp

fun binary_op_as_str :: "binary_op \<Rightarrow> string" where
  "binary_op_as_str OpAdd = ''+''"
| "binary_op_as_str OpSub = ''-''"
| "binary_op_as_str OpMul = ''*''"
| "binary_op_as_str OpDiv = ''/''"
| "binary_op_as_str OpMod = ''%''"
| "binary_op_as_str OpBitAnd = ''&''"
| "binary_op_as_str OpBitOr = ''|''"
| "binary_op_as_str OpBitXor = ''^''"
| "binary_op_as_str OpShl = ''<<''"
| "binary_op_as_str OpShr = ''>>''"
| "binary_op_as_str OpUShr = ''>>>''"
| "binary_op_as_str OpEq = ''==''"
| "binary_op_as_str OpStrictEq = ''===''"
| "binary_op_as_str OpNeq = ''!=''"
| "binary_op_as_str OpStrictNeq = ''!==''"
| "binary_op_as_str OpLt = ''<''"
| "binary_op_as_str OpLe = ''<=''"
| "binary_op_as_str OpGt = ''>''"
| "binary_op_as_str OpGe = ''>=''"
| "binary_op_as_str OpAnd = ''&&''"
| "binary_op_as_str OpLogicalAnd = ''&&''"
| "binary_op_as_str OpOr = ''||''"
| "binary_op_as_str OpLogicalOr = ''||''"
| "binary_op_as_str OpIn = ''in''"
| "binary_op_as_str OpInstanceOf = ''instanceof''"
| "binary_op_as_str OpNullishCoalesce = ''??''"
| "binary_op_as_str OpExp = ''**''"

fun precedence :: "binary_op \<Rightarrow> nat" where
  "precedence OpNullishCoalesce = 3"
| "precedence OpOr = 4"
| "precedence OpLogicalOr = 4"
| "precedence OpAnd = 5"
| "precedence OpLogicalAnd = 5"
| "precedence OpBitOr = 6"
| "precedence OpBitXor = 7"
| "precedence OpBitAnd = 8"
| "precedence OpEq = 9"
| "precedence OpStrictEq = 9"
| "precedence OpNeq = 9"
| "precedence OpStrictNeq = 9"
| "precedence OpLt = 10"
| "precedence OpLe = 10"
| "precedence OpGt = 10"
| "precedence OpGe = 10"
| "precedence OpIn = 10"
| "precedence OpInstanceOf = 10"
| "precedence OpShl = 11"
| "precedence OpShr = 11"
| "precedence OpUShr = 11"
| "precedence OpAdd = 12"
| "precedence OpSub = 12"
| "precedence OpMul = 13"
| "precedence OpDiv = 13"
| "precedence OpMod = 13"
| "precedence OpExp = 14"

datatype unary_op = OpNeg | OpPlus | OpBitNot | OpNot | OpTypeOf | OpVoid

fun unary_op_as_str :: "unary_op \<Rightarrow> string" where
  "unary_op_as_str OpNeg = ''-''"
| "unary_op_as_str OpPlus = ''+''"
| "unary_op_as_str OpBitNot = ''~''"
| "unary_op_as_str OpNot = ''!''"
| "unary_op_as_str OpTypeOf = ''typeof ''"
| "unary_op_as_str OpVoid = ''void ''"

section \<open>Expressions and assignment targets\<close>

datatype expression =
    EValue ir_value
  | EBinary binary_op expression expression
  | EUnary unary_op expression
  | EConditional expression expression expression
  | EMember expression property_key bool
  | ECall expression "expression list"
  | ENew expression "expression list"
  | EArray "expression option list"
  | EObject "(property_key \<times> expression) list"
  | EFunction u32 "rust_string option" bool bool bool
  | EAssignment assign_target expression
  | ESpread expression
  | ETemplateLiteral "rust_string list" "expression list"
  | ERegExp rust_string rust_string
  | EYield expression bool
  | EAwait expression
  | EJSXElement rust_string "(rust_string \<times> expression) list" "expression list"
  | EUnknown rust_string "rust_string list"
and property_key =
    PIdent rust_string
  | PComputed expression
  | PString rust_string
  | PIndex i64
and assign_target =
    TBinding binding
  | TMember expression rust_string
  | TIndex expression expression
  | TDestructuringArray "(assign_target \<times> expression option) option list"
  | TDestructuringArrayRest "(assign_target \<times> expression option) option list" assign_target
  | TDestructuringObject "(rust_string \<times> assign_target \<times> expression option) list"
  | TDestructuringObjectRest "(rust_string \<times> assign_target \<times> expression option) list" assign_target
  | TRest assign_target

abbreviation EReg :: "reg \<Rightarrow> expression" where "EReg r \<equiv> EValue (VBinding (BRegister r))"

fun target_as_binding :: "assign_target \<Rightarrow> binding option" where
  "target_as_binding (TBinding b) = Some b"
| "target_as_binding _ = None"

section \<open>Statements and terminators\<close>

datatype var_kind = KConst | KLet | KVar
datatype method_kind = MConstructor | MMethod | MGetter | MSetter

datatype statement =
    SExpr expression
  | SLet var expression var_kind
  | SAssign assign_target expression
  | SDelete expression "reg option"
  | SReturn "expression option"
  | SThrow expression
  | SDebugger
  | SComment rust_string
  | SBreak "rust_string option"
  | SContinue "rust_string option"
  | SGoto block_id
  | SCondGoto expression block_id block_id
  | SIf expression "statement list" "statement list"
  | SWhile expression "statement list"
  | SDoWhile "statement list" expression
  | SFor "statement option" "expression option" "statement option" "statement list"
  | SSwitch expression "(expression \<times> statement list) list" "statement list option"
  | SForOf rust_string expression "statement list"
  | SForIn rust_string expression "statement list"
  | STryCatch "statement list" "rust_string option" "statement list" "statement list"
  | SBlock "statement list"
  | SClass rust_string "expression option" "statement option" "class_method list"
and class_method =
    ClassMethod (cm_key: rust_string) (cm_value: expression) (cm_body: "statement list option")
      (cm_is_static: bool) (cm_kind: method_kind) (cm_params: "rust_string list")

datatype terminator =
    KJump block_id
  | KBranch expression block_id block_id
  | KReturn "expression option"
  | KThrow expression
  | KSwitch expression "(expression \<times> block_id) list" block_id
  | KNone

fun terminator_successors :: "terminator \<Rightarrow> block_id list" where
  "terminator_successors (KJump t) = [t]"
| "terminator_successors (KBranch _ t f) = [t, f]"
| "terminator_successors (KSwitch _ cases d) = map snd cases @ [d]"
| "terminator_successors (KReturn _) = []"
| "terminator_successors (KThrow _) = []"
| "terminator_successors KNone = []"

text \<open>The register a statement defines as far as the analyses are concerned: a plain assignment.\<close>

fun assigned_reg :: "statement \<Rightarrow> reg option" where
  "assigned_reg (SAssign (TBinding (BRegister r)) _) = Some r"
| "assigned_reg _ = None"

end
