(* ===== verification/Js_Text.thy ===== *)
theory Js_Text
  imports Rust_Strings Bigint_Text
begin

text \<open>
  Text of the output (\<open>crates/hbc-decomp/src/util.rs\<close>, the reserved words of
  \<open>constants.rs\<close>): string literals and identifiers.  A \<open>char\<close> is its code point.  The theorems
  read an escaped string back by the grammar of JavaScript string literals, and show that a
  sanitized name can be declared.
\<close>

section \<open>Characters and digits\<close>

definition is_ascii_alphabetic :: "nat \<Rightarrow> bool" where
  "is_ascii_alphabetic c \<longleftrightarrow> 0x41 \<le> c \<and> c \<le> 0x5A \<or> 0x61 \<le> c \<and> c \<le> 0x7A"

definition is_ascii_digit :: "nat \<Rightarrow> bool" where
  "is_ascii_digit c \<longleftrightarrow> 0x30 \<le> c \<and> c \<le> 0x39"

definition is_control :: "nat \<Rightarrow> bool" where
  "is_control c \<longleftrightarrow> c < 0x20 \<or> 0x7F \<le> c \<and> c < 0xA0"

definition hex_digits_upper :: string where
  "hex_digits_upper = ''0123456789ABCDEF''"

fun hex_text :: "string \<Rightarrow> nat \<Rightarrow> string" where
  "hex_text ds n = (if n < 16 then [ds ! n] else hex_text ds (n div 16) @ [ds ! (n mod 16)])"

declare hex_text.simps [simp del]

text \<open>\<open>{:04X}\<close>: padded with zeros to a width.\<close>

definition hex_padded :: "nat \<Rightarrow> string \<Rightarrow> nat \<Rightarrow> string" where
  "hex_padded w ds n = pad_zeros w (hex_text ds n)"

section \<open>String literals\<close>

definition escape_char :: "nat \<Rightarrow> rust_string" where
  "escape_char ch =
     (if ch = 0x22 then [0x5C, 0x22]
      else if ch = 0x5C then [0x5C, 0x5C]
      else if ch = 0x0A then [0x5C] @ lit ''n''
      else if ch = 0x0D then [0x5C] @ lit ''r''
      else if ch = 0x09 then [0x5C] @ lit ''t''
      else if ch = 0 then [0x5C] @ lit ''0''
      else if ch < 0x80 \<and> \<not> is_control ch then [ch]
      else if ch \<le> 0xFFFF then [0x5C] @ lit (''u'' @ hex_padded 4 hex_digits_upper ch)
      else [0x5C] @ lit (''u{'' @ hex_text hex_digits_upper ch @ ''}''))"

definition escape_js_string_bare :: "rust_string \<Rightarrow> rust_string" where
  "escape_js_string_bare s = concat (map escape_char s)"

definition escape_js_string :: "rust_string \<Rightarrow> rust_string" where
  "escape_js_string s = [0x22] @ escape_js_string_bare s @ [0x22]"

section \<open>Identifiers\<close>

definition is_identifier_start :: "nat \<Rightarrow> bool" where
  "is_identifier_start ch \<longleftrightarrow> ch = 0x24 \<or> ch = 0x5F \<or> is_ascii_alphabetic ch"

definition is_identifier_part :: "nat \<Rightarrow> bool" where
  "is_identifier_part ch \<longleftrightarrow> is_identifier_start ch \<or> is_ascii_digit ch"

fun is_valid_identifier :: "rust_string \<Rightarrow> bool" where
  "is_valid_identifier [] = False"
| "is_valid_identifier (first # chars) \<longleftrightarrow> is_identifier_start first \<and> list_all is_identifier_part chars"

definition JS_RESERVED_WORDS :: "string list" where
  "JS_RESERVED_WORDS =
     [''break'', ''case'', ''catch'', ''continue'', ''debugger'', ''default'', ''delete'', ''do'', ''else'', ''finally'',
      ''for'', ''function'', ''if'', ''in'', ''instanceof'', ''new'', ''return'', ''switch'', ''this'', ''throw'', ''try'',
      ''typeof'', ''var'', ''void'', ''while'', ''with'', ''class'', ''const'', ''enum'', ''export'', ''extends'', ''import'',
      ''super'', ''implements'', ''interface'', ''let'', ''package'', ''private'', ''protected'', ''public'', ''static'',
      ''yield'', ''null'', ''true'', ''false'', ''undefined'', ''NaN'', ''Infinity'', ''arguments'', ''eval'']"

definition is_reserved_word :: "rust_string \<Rightarrow> bool" where
  "is_reserved_word name \<longleftrightarrow> name \<in> set (map lit JS_RESERVED_WORDS)"

definition is_readable_word :: "rust_string \<Rightarrow> bool" where
  "is_readable_word name \<longleftrightarrow>
     name \<in> set (map lit [''arguments'', ''eval'', ''undefined'', ''NaN'', ''Infinity'', ''globalThis''])"

text \<open>The rewrite of an invalid name, character by character.\<close>

definition replace_invalid :: "rust_string \<Rightarrow> rust_string" where
  "replace_invalid name =
     (let result = (case name of
          [] \<Rightarrow> []
        | ch # chars \<Rightarrow>
            (if is_identifier_start ch then [ch] else if is_ascii_digit ch then [0x5F, ch] else [0x5F])
            @ map (\<lambda>ch. if is_identifier_part ch then ch else 0x5F) chars) in
      if result = [] then lit ''_unnamed'' else result)"

definition sanitize_plain :: "rust_string \<Rightarrow> rust_string" where
  "sanitize_plain name =
     (if is_valid_identifier name
      then (if is_reserved_word name \<and> \<not> is_readable_word name then lit ''_'' @ name else name)
      else replace_invalid name)"

text \<open>The recursive call of the code is on a name that starts with \<open>Symbol_\<close>, where it does not
  recurse again.\<close>

definition sanitize_identifier :: "rust_string \<Rightarrow> rust_string" where
  "sanitize_identifier name =
     (if take 2 name = lit ''@@''
      then (let symbol_name = drop 2 name in
            if symbol_name = lit ''iterator'' then lit ''iterable''
            else if symbol_name = lit ''asyncIterator'' then lit ''asyncIterable''
            else sanitize_plain (lit ''Symbol_'' @ symbol_name))
      else sanitize_plain name)"

section \<open>Reading a literal back\<close>

text \<open>The value of the body of a double-quoted literal in strict code: an escape sequence the
  grammar does not allow there, an unescaped quote or line terminator, has none.\<close>

definition hex_value :: "nat \<Rightarrow> nat option" where
  "hex_value c =
     (if is_ascii_digit c then Some (c - 0x30)
      else if 0x41 \<le> c \<and> c \<le> 0x46 then Some (c - 0x37)
      else if 0x61 \<le> c \<and> c \<le> 0x66 then Some (c - 0x57) else None)"

fun hex_number :: "nat \<Rightarrow> nat list \<Rightarrow> nat option" where
  "hex_number acc [] = Some acc"
| "hex_number acc (c # cs) = (case hex_value c of Some d \<Rightarrow> hex_number (16 * acc + d) cs | None \<Rightarrow> None)"

definition unicode_escape :: "nat list \<Rightarrow> (nat \<times> nat list) option" where
  "unicode_escape cs =
     (if cs \<noteq> [] \<and> hd cs = 0x7B
      then (let body = takeWhile (\<lambda>c. c \<noteq> 0x7D) (tl cs); rest = dropWhile (\<lambda>c. c \<noteq> 0x7D) (tl cs) in
            if body = [] \<or> rest = [] then None
            else map_option (\<lambda>v. (v, tl rest)) (hex_number 0 body))
      else if length cs < 4 then None
      else map_option (\<lambda>v. (v, drop 4 cs)) (hex_number 0 (take 4 cs)))"

definition escape_sequence :: "nat list \<Rightarrow> (nat \<times> nat list) option" where
  "escape_sequence cs =
     (case cs of
        [] \<Rightarrow> None
      | c # rest \<Rightarrow>
          if c = 0x22 \<or> c = 0x5C then Some (c, rest)
          else if c = 0x6E then Some (0x0A, rest)
          else if c = 0x72 then Some (0x0D, rest)
          else if c = 0x74 then Some (0x09, rest)
          else if c = 0x30 then (if rest \<noteq> [] \<and> is_ascii_digit (hd rest) then None else Some (0, rest))
          else if c = 0x75 then unicode_escape rest
          else None)"

function literal_value_of :: "nat list \<Rightarrow> nat list option" where
  "literal_value_of [] = Some []"
| "literal_value_of (c # cs) =
     (if c = 0x5C
      then (case escape_sequence cs of
              Some (v, rest) \<Rightarrow> (if length rest < length (c # cs) then map_option ((#) v) (literal_value_of rest) else None)
            | None \<Rightarrow> None)
      else if c = 0x22 \<or> c = 0x0A \<or> c = 0x0D then None
      else map_option ((#) c) (literal_value_of cs))"
  by pat_completeness auto
termination literal_value_of by (relation "measure length") auto

declare literal_value_of.simps(2) [simp del]

text \<open>A zero character before a decimal digit.\<close>

fun nul_before_digit :: "nat list \<Rightarrow> bool" where
  "nul_before_digit (a # b # cs) \<longleftrightarrow> a = 0 \<and> is_ascii_digit b \<or> nul_before_digit (b # cs)"
| "nul_before_digit _ = False"

lemma hex_digit_code:
  assumes "d < 16"
  shows "hex_value (of_char (hex_digits_upper ! d)) = Some d"
proof -
  have "list_all (\<lambda>d. hex_value (of_char (hex_digits_upper ! d)) = Some d) [0..<16]" by code_simp
  with assms show ?thesis by (simp add: list_all_iff)
qed

lemma hex_number_append: "hex_number acc (xs @ ys) = (case hex_number acc xs of Some v \<Rightarrow> hex_number v ys | None \<Rightarrow> None)"
  by (induction xs arbitrary: acc) (simp_all split: option.split)

lemma hex_number_text: "hex_number 0 (lit (hex_text hex_digits_upper n)) = Some n"
proof (induction n rule: less_induct)
  case (less n)
  show ?case
  proof (cases "n < 16")
    case True
    then show ?thesis by (simp add: hex_text.simps[of _ n] lit_def hex_digit_code)
  next
    case False
    with less[of "n div 16"] have "hex_number 0 (lit (hex_text hex_digits_upper (n div 16))) = Some (n div 16)" by simp
    with False show ?thesis
      by (simp add: hex_text.simps[of _ n] lit_def hex_number_append hex_digit_code)
  qed
qed

lemma hex_number_zeros: "hex_number 0 (lit (replicate k (digit_char 0)) @ cs) = hex_number 0 cs"
  by (induction k) (simp_all add: lit_def digit_char_def hex_value_def is_ascii_digit_def)

lemma hex_number_padded: "hex_number 0 (lit (hex_padded w hex_digits_upper n)) = Some n"
  using hex_number_zeros[of _ "lit (hex_text hex_digits_upper n)"] hex_number_text[of n]
  by (simp add: hex_padded_def pad_zeros_def lit_def)

lemma hex_text_length: "0 < k \<Longrightarrow> n < 16 ^ k \<Longrightarrow> length (hex_text ds n) \<le> k"
proof (induction k arbitrary: n)
  case 0
  then show ?case by simp
next
  case (Suc k)
  show ?case
  proof (cases "n < 16")
    case True
    then show ?thesis by (simp add: hex_text.simps[of _ n])
  next
    case False
    with Suc.prems have "0 < k" by (cases k) simp_all
    moreover have "n div 16 < 16 ^ k" using Suc.prems by (simp add: less_mult_imp_div_less mult.commute)
    ultimately show ?thesis using Suc.IH False by (simp add: hex_text.simps[of _ n])
  qed
qed

lemma hex_text_nonempty: "hex_text ds n \<noteq> []"
  by (subst hex_text.simps) simp

lemma hex_padded_length: "n < 16 ^ w \<Longrightarrow> 0 < w \<Longrightarrow> length (hex_padded w ds n) = w"
  using hex_text_length[of w n ds] by (simp add: hex_padded_def pad_zeros_def)

text \<open>Hexadecimal text holds no closing brace.\<close>

lemma hex_text_digits: "set (hex_text hex_digits_upper n) \<subseteq> set hex_digits_upper"
proof (induction n rule: less_induct)
  case (less n)
  have "hex_digits_upper ! (n mod 16) \<in> set hex_digits_upper" by (rule nth_mem) (simp add: hex_digits_upper_def)
  moreover have "n < 16 \<Longrightarrow> hex_digits_upper ! n \<in> set hex_digits_upper" by (rule nth_mem) (simp add: hex_digits_upper_def)
  ultimately show ?case using less[of "n div 16"] by (auto simp: hex_text.simps[of _ n])
qed

lemma hex_digit_not_brace: "c \<in> set hex_digits_upper \<Longrightarrow> of_char c \<noteq> (0x7D :: nat) \<and> of_char c \<noteq> (0x7B :: nat)"
proof -
  have "list_all (\<lambda>c. of_char c \<noteq> (0x7D :: nat) \<and> of_char c \<noteq> (0x7B :: nat)) hex_digits_upper" by code_simp
  then show "c \<in> set hex_digits_upper \<Longrightarrow> of_char c \<noteq> (0x7D :: nat) \<and> of_char c \<noteq> (0x7B :: nat)"
    by (simp add: list_all_iff)
qed

lemma unicode_escape_short:
  assumes "n \<le> 0xFFFF"
  shows "unicode_escape (lit (hex_padded 4 hex_digits_upper n) @ rest) = Some (n, rest)"
proof -
  let ?h = "lit (hex_padded 4 hex_digits_upper n)"
  have len: "length ?h = 4" using assms hex_padded_length[of n 4] by (simp add: lit_def)
  have "set (hex_padded 4 hex_digits_upper n) \<subseteq> insert (digit_char 0) (set hex_digits_upper)"
    using hex_text_digits[of n] by (auto simp: hex_padded_def pad_zeros_def)
  moreover have "digit_char 0 \<in> set hex_digits_upper" by (simp add: digit_char_def hex_digits_upper_def)
  ultimately have "set (hex_padded 4 hex_digits_upper n) \<subseteq> set hex_digits_upper" by blast
  then have "\<forall>c \<in> set ?h. c \<noteq> 0x7B" using hex_digit_not_brace by (auto simp: lit_def)
  then have "hd (?h @ rest) \<noteq> 0x7B" using len by (cases ?h) auto
  with len show ?thesis by (simp add: unicode_escape_def hex_number_padded)
qed

lemma unicode_escape_braced: "unicode_escape (0x7B # lit (hex_text hex_digits_upper n) @ 0x7D # rest) = Some (n, rest)"
proof -
  let ?h = "lit (hex_text hex_digits_upper n)"
  have "\<forall>c \<in> set ?h. c \<noteq> 0x7D" using hex_text_digits[of n] hex_digit_not_brace by (auto simp: lit_def)
  then have "takeWhile (\<lambda>c. c \<noteq> 0x7D) (?h @ 0x7D # rest) = ?h" "dropWhile (\<lambda>c. c \<noteq> 0x7D) (?h @ 0x7D # rest) = 0x7D # rest"
    by (simp_all add: takeWhile_append2 dropWhile_append2)
  moreover have "?h \<noteq> []" by (simp add: lit_def hex_text_nonempty)
  ultimately show ?thesis using hex_number_text[of n] by (simp add: unicode_escape_def)
qed

lemma literal_value_escape:
  "literal_value_of (escape_char c @ rest) =
     (if c = 0 \<and> rest \<noteq> [] \<and> is_ascii_digit (hd rest) then None else map_option ((#) c) (literal_value_of rest))"
proof -
  have step: "escape_sequence cs = Some (v, rest) \<Longrightarrow> length rest < length cs
      \<Longrightarrow> literal_value_of (0x5C # cs) = map_option ((#) v) (literal_value_of rest)" for cs v
    by (simp add: literal_value_of.simps(2))
  consider "c = 0x22" | "c = 0x5C" | "c = 0x0A" | "c = 0x0D" | "c = 0x09" | "c = 0"
    | "c \<notin> {0, 0x22, 0x5C, 0x0A, 0x0D, 0x09}" "c < 0x80" "\<not> is_control c"
    | "c \<notin> {0, 0x22, 0x5C, 0x0A, 0x0D, 0x09}" "\<not> (c < 0x80 \<and> \<not> is_control c)" "c \<le> 0xFFFF"
    | "c \<notin> {0, 0x22, 0x5C, 0x0A, 0x0D, 0x09}" "0xFFFF < c" by force
  then show ?thesis
  proof cases
    case 6
    then show ?thesis by (simp add: escape_char_def lit_def literal_value_of.simps(2) escape_sequence_def)
  next
    case 7
    then show ?thesis by (simp add: escape_char_def literal_value_of.simps(2))
  next
    case 8
    then have e: "escape_char c @ rest = 0x5C # 0x75 # lit (hex_padded 4 hex_digits_upper c) @ rest"
      by (simp add: escape_char_def lit_def)
    have "escape_sequence (0x75 # lit (hex_padded 4 hex_digits_upper c) @ rest) = Some (c, rest)"
      by (simp add: escape_sequence_def unicode_escape_short[OF 8(3)])
    from step[OF this] show ?thesis using 8(1) unfolding e by simp
  next
    case 9
    then have e: "escape_char c @ rest = 0x5C # 0x75 # 0x7B # lit (hex_text hex_digits_upper c) @ 0x7D # rest"
      by (simp add: escape_char_def lit_def)
    have "escape_sequence (0x75 # 0x7B # lit (hex_text hex_digits_upper c) @ 0x7D # rest) = Some (c, rest)"
      by (simp add: escape_sequence_def unicode_escape_braced)
    from step[OF this] show ?thesis using 9(1) unfolding e by simp
  qed (simp_all add: escape_char_def lit_def literal_value_of.simps(2) escape_sequence_def)
qed

lemma escape_starts_digit: "escape_char c @ rest \<noteq> [] \<and> (is_ascii_digit (hd (escape_char c @ rest)) \<longleftrightarrow> is_ascii_digit c)"
  by (auto simp: escape_char_def is_ascii_digit_def is_control_def)

text \<open>C39: An escaped string is a literal of the string: read by the grammar of string literals, the
  text between the quotes has the escaped string as its value, for every string, with one
  exception.  A zero character is written as a backslash and a zero; before a decimal digit that
  is an octal escape, which strict code refuses.\<close>

theorem escaped_string_reads_back:
  "literal_value_of (escape_js_string_bare s) = (if nul_before_digit s then None else Some s)"
proof (induction s rule: nul_before_digit.induct)
  case (1 a b cs)
  have "escape_js_string_bare (a # b # cs) = escape_char a @ escape_js_string_bare (b # cs)"
    "escape_js_string_bare (b # cs) = escape_char b @ escape_js_string_bare cs"
    by (simp_all add: escape_js_string_bare_def)
  with 1 escape_starts_digit[of b "escape_js_string_bare cs"] show ?case by (simp add: literal_value_escape)
qed (use literal_value_escape[of _ "[]"] in \<open>simp_all add: escape_js_string_bare_def\<close>)

lemma reserved_has_no_underscore: "is_reserved_word name \<Longrightarrow> 0x5F \<notin> set name"
proof -
  have "list_all (\<lambda>w. 0x5F \<notin> set (lit w)) JS_RESERVED_WORDS" by code_simp
  then show "is_reserved_word name \<Longrightarrow> 0x5F \<notin> set name" by (auto simp: is_reserved_word_def list_all_iff)
qed

lemma underscore_is_part: "is_identifier_start 0x5F" "is_identifier_part 0x5F"
  by (simp_all add: is_identifier_start_def is_identifier_part_def)

lemma replace_invalid_valid: "is_valid_identifier (replace_invalid name)"
  by (cases name) (auto simp: replace_invalid_def lit_def is_identifier_part_def is_identifier_start_def
      is_ascii_alphabetic_def list_all_iff)

lemma replace_invalid_underscore: "\<not> is_valid_identifier name \<Longrightarrow> 0x5F \<in> set (replace_invalid name)"
proof (cases name)
  case Nil
  then show ?thesis by (simp add: replace_invalid_def lit_def)
next
  case (Cons c cs)
  assume "\<not> is_valid_identifier name"
  with Cons have "\<not> is_identifier_start c \<or> (\<exists>x \<in> set cs. \<not> is_identifier_part x)" by (auto simp: list_all_iff)
  with Cons show ?thesis by (force simp: replace_invalid_def)
qed

text \<open>What a sanitized name is, and why sanitizing it again changes nothing.\<close>

definition declarable :: "rust_string \<Rightarrow> bool" where
  "declarable name \<longleftrightarrow> is_valid_identifier name \<and> (is_reserved_word name \<longrightarrow> is_readable_word name)"

lemma declarable_fixed: "declarable name \<Longrightarrow> sanitize_identifier name = name"
proof -
  assume d: "declarable name"
  then obtain c cs where "name = c # cs" "is_identifier_start c" by (cases name) (auto simp: declarable_def)
  then have "take 2 name \<noteq> lit ''@@''" by (auto simp: lit_def is_identifier_start_def is_ascii_alphabetic_def)
  with d show ?thesis by (auto simp: sanitize_identifier_def sanitize_plain_def declarable_def)
qed

lemma sanitize_plain_declarable: "declarable (sanitize_plain name)"
proof (cases "is_valid_identifier name")
  case True
  then obtain c cs where name: "name = c # cs" by (cases name) auto
  have "is_valid_identifier (lit ''_'' @ name)"
    using True by (simp add: name lit_def underscore_is_part is_identifier_part_def)
  moreover have "\<not> is_reserved_word (lit ''_'' @ name)"
    using reserved_has_no_underscore[of "lit ''_'' @ name"] by (auto simp: lit_def)
  ultimately show ?thesis using True by (simp add: declarable_def sanitize_plain_def)
next
  case False
  then show ?thesis
    using replace_invalid_valid[of name] replace_invalid_underscore[OF False] reserved_has_no_underscore
    by (auto simp: declarable_def sanitize_plain_def)
qed

lemma sanitize_declarable: "declarable (sanitize_identifier name)"
proof -
  have "is_valid_identifier (lit ''iterable'')" "is_valid_identifier (lit ''asyncIterable'')"
    "\<not> is_reserved_word (lit ''iterable'')" "\<not> is_reserved_word (lit ''asyncIterable'')" by code_simp+
  then show ?thesis
    using sanitize_plain_declarable by (simp add: sanitize_identifier_def Let_def declarable_def)
qed

text \<open>C40: A sanitized name can be declared: it is an identifier of ASCII characters, and no reserved
  word apart from the names the code reads as themselves; sanitizing it again changes nothing.\<close>

theorem sanitized_is_declarable:
  "is_valid_identifier (sanitize_identifier name)
   \<and> (is_reserved_word (sanitize_identifier name) \<longrightarrow> is_readable_word (sanitize_identifier name))
   \<and> sanitize_identifier (sanitize_identifier name) = sanitize_identifier name"
  using sanitize_declarable[of name] declarable_fixed[OF sanitize_declarable, of name] by (simp add: declarable_def)

theorem sanitized_is_declarable_witness:
  "sanitize_identifier (lit ''return'') = lit ''_return'' \<and> is_valid_identifier (lit ''_return'')"
proof -
  have "sanitize_identifier (lit ''return'') = lit ''_return''" by code_simp
  with sanitized_is_declarable[of "lit ''return''"] show ?thesis by simp
qed

end
