(* ===== verification/Rust_Text.thy ===== *)
theory Rust_Text
  imports Js_Text
begin

text \<open>
  The \<open>str\<close> operations of the Rust standard library that the textual front ends use: lines,
  splitting, trimming, prefixes, and the decimal and hexadecimal text of integers in both
  directions.  The lemmas read back what was printed.
\<close>

section \<open>Trimming and splitting\<close>

definition is_whitespace :: "nat \<Rightarrow> bool" where
  "is_whitespace c \<longleftrightarrow> 0x09 \<le> c \<and> c \<le> 0x0D \<or> c = 0x20 \<or> c = 0x85 \<or> c = 0xA0 \<or> c = 0x1680
     \<or> 0x2000 \<le> c \<and> c \<le> 0x200A \<or> c = 0x2028 \<or> c = 0x2029 \<or> c = 0x202F \<or> c = 0x205F \<or> c = 0x3000"

definition trim_start :: "rust_string \<Rightarrow> rust_string" where
  "trim_start s = dropWhile is_whitespace s"

definition trim :: "rust_string \<Rightarrow> rust_string" where
  "trim s = rev (dropWhile is_whitespace (rev (trim_start s)))"

definition strip_prefix :: "rust_string \<Rightarrow> rust_string \<Rightarrow> rust_string option" where
  "strip_prefix p s = (if take (length p) s = p then Some (drop (length p) s) else None)"

definition starts_with :: "rust_string \<Rightarrow> rust_string \<Rightarrow> bool" where
  "starts_with p s \<longleftrightarrow> take (length p) s = p"

text \<open>\<open>strip_suffix\<close> with one character.\<close>

definition strip_last :: "nat \<Rightarrow> rust_string \<Rightarrow> rust_string option" where
  "strip_last c s = (if s \<noteq> [] \<and> last s = c then Some (butlast s) else None)"

text \<open>\<open>split\<close> on one character: one piece more than there are separators.\<close>

fun split_on :: "nat \<Rightarrow> rust_string \<Rightarrow> rust_string list" where
  "split_on d [] = [[]]"
| "split_on d (c # cs) =
     (if c = d then [] # split_on d cs
      else case split_on d cs of [] \<Rightarrow> [[c]] | p # ps \<Rightarrow> (c # p) # ps)"

text \<open>\<open>lines\<close>: each line ends with a newline or with the text; a carriage return before the
  newline belongs to it.\<close>

fun str_lines_from :: "rust_string \<Rightarrow> rust_string \<Rightarrow> rust_string list" where
  "str_lines_from cur [] = (if cur = [] then [] else [cur])"
| "str_lines_from cur (c # cs) =
     (if c = 0x0A
      then (if cur \<noteq> [] \<and> last cur = 0x0D then butlast cur else cur) # str_lines_from [] cs
      else str_lines_from (cur @ [c]) cs)"

definition str_lines :: "rust_string \<Rightarrow> rust_string list" where
  "str_lines s = str_lines_from [] s"

text \<open>\<open>join\<close>.\<close>

fun join_with :: "rust_string \<Rightarrow> rust_string list \<Rightarrow> rust_string" where
  "join_with sep [] = []"
| "join_with sep [x] = x"
| "join_with sep (x # y # xs) = x @ sep @ join_with sep (y # xs)"

section \<open>Integers as text\<close>

definition dec :: "nat \<Rightarrow> rust_string" where
  "dec n = lit (nat_text n)"

definition dec_int :: "int \<Rightarrow> rust_string" where
  "dec_int k = lit (int_text k)"

definition hex_digits_lower :: string where
  "hex_digits_lower = ''0123456789abcdef''"

text \<open>\<open>{:04x}\<close>.\<close>

definition hex4 :: "nat \<Rightarrow> rust_string" where
  "hex4 n = lit (hex_padded 4 hex_digits_lower n)"

definition is_ascii_hexdigit :: "nat \<Rightarrow> bool" where
  "is_ascii_hexdigit c \<longleftrightarrow> hex_value c \<noteq> None"

fun digits_value :: "nat \<Rightarrow> nat \<Rightarrow> rust_string \<Rightarrow> nat option" where
  "digits_value radix acc [] = Some acc"
| "digits_value radix acc (c # cs) =
     (case hex_value c of
        Some d \<Rightarrow> (if d < radix then digits_value radix (acc * radix + d) cs else None)
      | None \<Rightarrow> None)"

text \<open>\<open>from_str_radix\<close> and \<open>parse\<close>: an optional sign, at least one digit, a value in range.\<close>

definition parse_radix_u32 :: "nat \<Rightarrow> rust_string \<Rightarrow> u32 option" where
  "parse_radix_u32 radix s =
     (let ds = (if s \<noteq> [] \<and> hd s = 0x2B then tl s else s) in
      if ds = [] then None
      else case digits_value radix 0 ds of
        Some v \<Rightarrow> (if v < 2 ^ 32 then Some (of_nat v) else None)
      | None \<Rightarrow> None)"

definition parse_u32 :: "rust_string \<Rightarrow> u32 option" where
  "parse_u32 = parse_radix_u32 10"

definition parse_i32 :: "rust_string \<Rightarrow> i32 option" where
  "parse_i32 s =
     (let neg = (s \<noteq> [] \<and> hd s = 0x2D);
          ds = (if s \<noteq> [] \<and> (hd s = 0x2B \<or> hd s = 0x2D) then tl s else s) in
      if ds = [] then None
      else case digits_value 10 0 ds of
        Some v \<Rightarrow> (let k = (if neg then - int v else int v) in
          if - (2 ^ 31) \<le> k \<and> k < 2 ^ 31 then Some (word_of_int k) else None)
      | None \<Rightarrow> None)"

section \<open>Reading back\<close>

lemma hex_value_digit: "d < 10 \<Longrightarrow> hex_value (of_char (digit_char d)) = Some d"
proof -
  have "list_all (\<lambda>d. hex_value (of_char (digit_char d)) = Some d) [0..<10]" by code_simp
  then show "d < 10 \<Longrightarrow> hex_value (of_char (digit_char d)) = Some d" by (simp add: list_all_iff)
qed

lemma hex_value_lower: "d < 16 \<Longrightarrow> hex_value (of_char (hex_digits_lower ! d)) = Some d"
proof -
  have "list_all (\<lambda>d. hex_value (of_char (hex_digits_lower ! d)) = Some d) [0..<16]" by code_simp
  then show "d < 16 \<Longrightarrow> hex_value (of_char (hex_digits_lower ! d)) = Some d" by (simp add: list_all_iff)
qed

lemma digits_value_append:
  "digits_value r acc (xs @ ys) = (case digits_value r acc xs of Some v \<Rightarrow> digits_value r v ys | None \<Rightarrow> None)"
  by (induction xs arbitrary: acc) (simp_all split: option.split)

lemma digits_value_dec: "digits_value 10 0 (dec n) = Some n"
proof (induction n rule: less_induct)
  case (less n)
  show ?case
  proof (cases "n < 10")
    case True
    then show ?thesis by (simp add: dec_def nat_text.simps[of n] lit_def hex_value_digit)
  next
    case False
    with less[of "n div 10"] show ?thesis
      by (simp add: dec_def nat_text.simps[of n] lit_def digits_value_append hex_value_digit)
  qed
qed

lemma digits_value_hex: "digits_value 16 0 (lit (hex_text hex_digits_lower n)) = Some n"
proof (induction n rule: less_induct)
  case (less n)
  show ?case
  proof (cases "n < 16")
    case True
    then show ?thesis by (simp add: hex_text.simps[of _ n] lit_def hex_value_lower)
  next
    case False
    with less[of "n div 16"] show ?thesis
      by (simp add: hex_text.simps[of _ n] lit_def digits_value_append hex_value_lower)
  qed
qed

lemma digits_value_zeros: "digits_value 16 0 (lit (replicate k (digit_char 0)) @ cs) = digits_value 16 0 cs"
  by (induction k) (simp_all add: lit_def hex_value_digit)

lemma digits_value_hex4: "digits_value 16 0 (hex4 n) = Some n"
  using digits_value_zeros[of _ "lit (hex_text hex_digits_lower n)"] digits_value_hex[of n]
  by (simp add: hex4_def hex_padded_def pad_zeros_def lit_def)

text \<open>Printed digits are digits.\<close>

definition all_digits :: "rust_string \<Rightarrow> bool" where
  "all_digits s \<longleftrightarrow> s \<noteq> [] \<and> list_all is_ascii_digit s"

lemma digit_is_digit: "d < 10 \<Longrightarrow> is_ascii_digit (of_char (digit_char d))"
proof -
  have "list_all (\<lambda>d. is_ascii_digit (of_char (digit_char d))) [0..<10]" by code_simp
  then show "d < 10 \<Longrightarrow> is_ascii_digit (of_char (digit_char d))" by (simp add: list_all_iff)
qed

lemma all_digits_dec: "all_digits (dec n)"
proof (induction n rule: less_induct)
  case (less n)
  then show ?case
    using less[of "n div 10"] digit_is_digit
    by (cases "n < 10") (simp_all add: dec_def nat_text.simps[of n] lit_def all_digits_def)
qed

lemma dec_nonempty [simp]: "dec n \<noteq> []"
  using all_digits_dec[of n] by (simp add: all_digits_def)

lemma digits_head: "all_digits s \<Longrightarrow> is_ascii_digit (hd s)"
  by (cases s) (simp_all add: all_digits_def)

lemma parse_u32_dec: "n < 2 ^ 32 \<Longrightarrow> parse_u32 (dec n) = Some (of_nat n)"
  using digits_head[OF all_digits_dec[of n]]
  by (auto simp: parse_u32_def parse_radix_u32_def Let_def digits_value_dec is_ascii_digit_def)

lemma parse_i32_dec: "parse_i32 (dec_int (sint w)) = Some w"
proof -
  have range: "- (2 ^ 31) \<le> sint w" "sint w < 2 ^ 31" using sint_range_size[of w] by (simp_all add: word_size)
  show ?thesis
  proof (cases "sint w < 0")
    case True
    then have "dec_int (sint w) = 0x2D # dec (nat (- sint w))" by (simp add: dec_int_def int_text_def lit_def dec_def)
    with range True show ?thesis by (simp add: parse_i32_def Let_def digits_value_dec)
  next
    case False
    then have "dec_int (sint w) = dec (nat (sint w))" by (simp add: dec_int_def int_text_def dec_def)
    with range False digits_head[OF all_digits_dec[of "nat (sint w)"]] show ?thesis
      by (auto simp: parse_i32_def Let_def digits_value_dec is_ascii_digit_def)
  qed
qed

end
