(* ===== verification/Literal_Buffers.thy ===== *)
theory Literal_Buffers
  imports Rust_Text Image_Types
begin

text \<open>
  The literal buffers (\<open>crates/hbc-decomp/src/file/parser/buffer.rs\<close>, the three readers of
  \<open>helpers.rs\<close>): the values of array and object literals, stored as runs of one tag, read on demand
  by the lifting.  A string id that names no string becomes a placeholder and is counted on the
  file; a count is kept beside the result so that a read that fails still adds the misses before it.
\<close>

section \<open>Values\<close>

datatype literal_value =
    LNull | LBool bool | LNumber f64_bits | LInteger i32 | LString rust_string | LUndefined

datatype data_buffer_tag =
    TagNull | TagTrue | TagFalse | TagNumber | TagLongString | TagShortString | TagByteString | TagInteger | TagUndefined

text \<open>The string and the number of misses.\<close>

definition resolve_string :: "bytecode_file \<Rightarrow> u32 \<Rightarrow> rust_string \<times> nat" where
  "resolve_string file i =
     (case string_at file i of
        Some entry \<Rightarrow> (st_value entry, 0)
      | None \<Rightarrow> (lit ''<string:'' @ dec (unat i) @ lit ''>'', 1))"

definition tag_of_bits :: "u8 \<Rightarrow> u32 \<Rightarrow> data_buffer_tag" where
  "tag_of_bits tag_bits ver =
     (if tag_bits = 0x00 then TagNull
      else if tag_bits = 0x10 then TagTrue
      else if tag_bits = 0x20 then TagFalse
      else if tag_bits = 0x30 then TagNumber
      else if tag_bits = 0x40 then TagLongString
      else if tag_bits = 0x50 then TagShortString
      else if tag_bits = 0x60 then (if 98 \<le> ver then TagUndefined else TagByteString)
      else if tag_bits = 0x70 then TagInteger
      else TagUndefined)"

definition read_buffer_tag :: "u32 \<Rightarrow> (data_buffer_tag \<times> u32) read_op" where
  "read_buffer_tag ver =
     rd_bind read_u8 (\<lambda>key_tag.
     rd_bind (if key_tag AND 0x80 \<noteq> 0
              then rd_map (\<lambda>next. push_bit 8 (ucast (key_tag AND 0x0f)) OR ucast next) read_u8
              else rd_ret (ucast (key_tag AND 0x0f))) (\<lambda>len.
     rd_ret (tag_of_bits (key_tag AND 0x70) ver, len)))"

definition string_value :: "bytecode_file \<Rightarrow> u32 \<Rightarrow> literal_value \<times> nat" where
  "string_value file i = (case resolve_string file i of (s, k) \<Rightarrow> (LString s, k))"

fun read_buffer_value :: "bytecode_file \<Rightarrow> data_buffer_tag \<Rightarrow> (literal_value \<times> nat) read_op" where
  "read_buffer_value file TagNull = rd_ret (LNull, 0)"
| "read_buffer_value file TagTrue = rd_ret (LBool True, 0)"
| "read_buffer_value file TagFalse = rd_ret (LBool False, 0)"
| "read_buffer_value file TagNumber = rd_map (\<lambda>v. (LNumber v, 0)) read_f64"
| "read_buffer_value file TagInteger = rd_map (\<lambda>v. (LInteger v, 0)) read_i32"
| "read_buffer_value file TagShortString = rd_map (\<lambda>i. string_value file (ucast i)) read_u16"
| "read_buffer_value file TagLongString = rd_map (\<lambda>i. string_value file i) read_u32"
| "read_buffer_value file TagByteString = rd_map (\<lambda>i. string_value file (ucast i)) read_u8"
| "read_buffer_value file TagUndefined = rd_ret (LUndefined, 0)"

section \<open>A series\<close>

text \<open>The inner loop: so many values of one tag, and the misses among them.\<close>

primrec read_run :: "bytecode_file \<Rightarrow> data_buffer_tag \<Rightarrow> nat \<Rightarrow> byte_reader \<Rightarrow> (literal_value list \<times> byte_reader) result \<times> nat" where
  "read_run file tag 0 r = (Inr ([], r), 0)"
| "read_run file tag (Suc n) r =
     (case read_buffer_value file tag r of
        Inl e \<Rightarrow> (Inl e, 0)
      | Inr ((v, k), r) \<Rightarrow>
          (case read_run file tag n r of
             (Inl e, m) \<Rightarrow> (Inl e, k + m)
           | (Inr (vs, r), m) \<Rightarrow> (Inr (v # vs, r), k + m)))"

lemma read_exact_advances:
  "read_exact n r = Inr (x, r') \<Longrightarrow> 0 < n \<Longrightarrow> pos r < pos r' \<and> pos r' \<le> length (data r') \<and> data r' = data r"
  by (auto simp: read_exact_def checked_add_usize_def split: if_splits option.splits)

lemma read_u8_advances: "read_u8 r = Inr (x, r') \<Longrightarrow> remaining r' < remaining r"
  by (auto simp: read_u8_def rd_map_def rd_bind_def rd_ret_def remaining_def split: sum.splits dest!: read_exact_advances)

lemma read_buffer_tag_advances:
  assumes "read_buffer_tag ver r = Inr (t, r')"
  shows "remaining r' < remaining r"
proof -
  from assms obtain k r1 l where 1: "read_u8 r = Inr (k, r1)"
    "(if k AND 0x80 \<noteq> 0 then rd_map (\<lambda>next. push_bit 8 (ucast (k AND 0x0f)) OR ucast next) read_u8
      else rd_ret (ucast (k AND 0x0f))) r1 = Inr (l :: u32, r')"
    unfolding read_buffer_tag_def rd_bind_def by (auto simp: rd_ret_def split: sum.splits)
  then have "remaining r' \<le> remaining r1"
    by (auto simp: rd_map_def rd_bind_def rd_ret_def split: if_splits sum.splits dest!: read_u8_advances)
  with read_u8_advances[OF 1(1)] show ?thesis by simp
qed

text \<open>\<open>need\<close> is what is still missing of the count.\<close>

function read_series :: "bytecode_file \<Rightarrow> nat \<Rightarrow> byte_reader \<Rightarrow> literal_value list result \<times> nat" where
  "read_series file need r =
     (if need = 0 then (Inr [], 0)
      else case read_buffer_tag (version (bf_header file)) r of
        Inl e \<Rightarrow> (Inl e, 0)
      | Inr ((tag, len), r') \<Rightarrow>
          if len = 0 then read_series file need r'
          else (case read_run file tag (min (unat len) need) r' of
                  (Inl e, k) \<Rightarrow> (Inl e, k)
                | (Inr (vs, r''), k) \<Rightarrow>
                    (case read_series file (need - min (unat len) need) r'' of
                       (Inl e, m) \<Rightarrow> (Inl e, k + m)
                     | (Inr ws, m) \<Rightarrow> (Inr (vs @ ws), k + m))))"
  by pat_completeness auto
termination read_series
  by (relation "measures [\<lambda>(file, need, r). need, \<lambda>(file, need, r). remaining r]")
     (auto simp: unat_gt_0 dest: read_buffer_tag_advances)

declare read_series.simps [simp del]

definition read_buffer_series :: "bytecode_file \<Rightarrow> u8 list \<Rightarrow> u32 \<Rightarrow> u32 \<Rightarrow> literal_value list result \<times> bytecode_file" where
  "read_buffer_series file buffer off count =
     (if count = 0 then (Inr [], file)
      else if length buffer \<le> unat off
      then (Inl (Parse ''buffer offset out of range: {} >= {}'' [fword off, fnat (length buffer)]), file)
      else case read_series file (unat count) (new_reader (drop (unat off) buffer)) of
        (res, misses) \<Rightarrow> (res, file\<lparr>bf_unresolved_string_ids := bf_unresolved_string_ids file + misses\<rparr>))"

definition read_array_buffer_series :: "bytecode_file \<Rightarrow> u32 \<Rightarrow> u32 \<Rightarrow> literal_value list result \<times> bytecode_file" where
  "read_array_buffer_series file off count =
     (if bf_array_buffer file \<noteq> [] then read_buffer_series file (bf_array_buffer file) off count
      else read_buffer_series file (bf_literal_value_buffer file) off count)"

definition read_key_buffer_series :: "bytecode_file \<Rightarrow> u32 \<Rightarrow> u32 \<Rightarrow> literal_value list result \<times> bytecode_file" where
  "read_key_buffer_series file off count = read_buffer_series file (bf_obj_key_buffer file) off count"

definition read_value_buffer_series :: "bytecode_file \<Rightarrow> u32 \<Rightarrow> u32 \<Rightarrow> literal_value list result \<times> bytecode_file" where
  "read_value_buffer_series file off count =
     (if bf_obj_value_buffer file \<noteq> [] then read_buffer_series file (bf_obj_value_buffer file) off count
      else read_buffer_series file (bf_literal_value_buffer file) off count)"

section \<open>What is stored is read\<close>

text \<open>The format: a run is a tag, a length below 4096 and its payloads.\<close>

datatype literal_run =
    RNull nat | RTrue nat | RFalse nat | RUndefined nat
  | RNumber "f64_bits list" | RInteger "i32 list" | RLong "u32 list" | RShort "u16 list" | RByte "u8 list"

fun run_code :: "literal_run \<Rightarrow> u8" where
  "run_code (RNull _) = 0x00"
| "run_code (RTrue _) = 0x10"
| "run_code (RFalse _) = 0x20"
| "run_code (RNumber _) = 0x30"
| "run_code (RLong _) = 0x40"
| "run_code (RShort _) = 0x50"
| "run_code (RUndefined _) = 0x60"
| "run_code (RByte _) = 0x60"
| "run_code (RInteger _) = 0x70"

fun run_values :: "bytecode_file \<Rightarrow> literal_run \<Rightarrow> (literal_value \<times> nat) list" where
  "run_values file (RNull n) = replicate n (LNull, 0)"
| "run_values file (RTrue n) = replicate n (LBool True, 0)"
| "run_values file (RFalse n) = replicate n (LBool False, 0)"
| "run_values file (RUndefined n) = replicate n (LUndefined, 0)"
| "run_values file (RNumber vs) = map (\<lambda>v. (LNumber v, 0)) vs"
| "run_values file (RInteger vs) = map (\<lambda>v. (LInteger v, 0)) vs"
| "run_values file (RLong is) = map (string_value file) is"
| "run_values file (RShort is) = map (\<lambda>i. string_value file (ucast i)) is"
| "run_values file (RByte is) = map (\<lambda>i. string_value file (ucast i)) is"

fun run_payload :: "literal_run \<Rightarrow> u8 list list" where
  "run_payload (RNumber vs) = map (le_bytes 8) vs"
| "run_payload (RInteger vs) = map (le_bytes 4) vs"
| "run_payload (RLong is) = map (le_bytes 4) is"
| "run_payload (RShort is) = map (le_bytes 2) is"
| "run_payload (RByte is) = map (\<lambda>i. [i]) is"
| "run_payload (RNull n) = replicate n []"
| "run_payload (RTrue n) = replicate n []"
| "run_payload (RFalse n) = replicate n []"
| "run_payload (RUndefined n) = replicate n []"

definition run_length :: "literal_run \<Rightarrow> nat" where
  "run_length run = length (run_payload run)"

definition run_header :: "literal_run \<Rightarrow> u8 list" where
  "run_header run =
     (if run_length run < 16 then [run_code run OR of_nat (run_length run)]
      else [0x80 OR run_code run OR of_nat (run_length run div 256), of_nat (run_length run)])"

definition run_bytes :: "literal_run \<Rightarrow> u8 list" where
  "run_bytes run = run_header run @ concat (run_payload run)"

definition run_allowed :: "u32 \<Rightarrow> literal_run \<Rightarrow> bool" where
  "run_allowed ver run \<longleftrightarrow> run_length run < 4096
     \<and> (case run of RByte _ \<Rightarrow> ver < 98 | RUndefined _ \<Rightarrow> 98 \<le> ver | _ \<Rightarrow> True)"

definition run_tag :: "u32 \<Rightarrow> literal_run \<Rightarrow> data_buffer_tag" where
  "run_tag ver run = tag_of_bits (run_code run) ver"

lemma code_bits: "run_code run AND 0x70 = run_code run" "run_code run AND 0x0f = 0" "run_code run AND 0x80 = 0"
  by (cases run; simp)+

lemma small_bits:
  assumes "n < 16"
  shows "(of_nat n :: u8) AND 0x0f = of_nat n \<and> (of_nat n :: u8) AND 0x70 = 0 \<and> (of_nat n :: u8) AND 0x80 = 0"
proof -
  have "list_all (\<lambda>n. (of_nat n :: u8) AND 0x0f = of_nat n \<and> (of_nat n :: u8) AND 0x70 = 0 \<and> (of_nat n :: u8) AND 0x80 = 0) [0..<16]"
    by (simp add: upt_rec)
  with assms show ?thesis by (simp add: list_all_iff)
qed

lemma length_field:
  assumes "n < 4096"
  shows "push_bit 8 (ucast (of_nat (n div 256) :: u8)) OR ucast (of_nat n :: u8) = (of_nat n :: u32)"
proof (rule bit_word_eqI)
  fix i assume i: "i < LENGTH(32)"
  have hi: "\<not> bit n i" if "12 \<le> i"
  proof
    assume b: "bit n i"
    have "take_bit 12 n = n" using assms by (simp add: take_bit_nat_eq_self)
    with b have "bit (take_bit 12 n) i" by simp
    with that show False by (simp add: bit_take_bit_iff)
  qed
  have "n div 256 = drop_bit 8 n" by (simp add: drop_bit_eq_div)
  with i hi show "bit (push_bit 8 (ucast (of_nat (n div 256) :: u8)) OR ucast (of_nat n :: u8) :: u32) i = bit (of_nat n :: u32) i"
    by (cases "i < 8"; cases "12 \<le> i") (auto simp: bit_simps bit_or_iff bit_push_bit_iff bit_drop_bit_eq)
qed

lemma read_byte: "in_memory r \<Longrightarrow> ahead r = b # rest \<Longrightarrow> read_u8 r = Inr (b, advance 1 r)"
  using u8.get_put[OF TrueI, where r = r and x = b and rest = rest] by simp

lemma read_run_header:
  assumes "run_allowed ver run" and "in_memory r" and "ahead r = run_header run @ rest"
  shows "read_buffer_tag ver r = Inr ((run_tag ver run, of_nat (run_length run)), advance (length (run_header run)) r)"
proof (cases "run_length run < 16")
  case True
  then have h: "run_header run = [run_code run OR of_nat (run_length run)]" by (simp add: run_header_def)
  from assms(3) have "read_u8 r = Inr (run_code run OR of_nat (run_length run), advance 1 r)"
    by (intro read_byte[OF assms(2)]) (simp add: h)
  then show ?thesis
    using small_bits[OF True] True code_bits[of run]
    by (simp add: read_buffer_tag_def rd_bind_def rd_ret_def bit.conj_disj_distrib2 h run_tag_def unsigned_of_nat take_bit_nat_eq_self)
next
  case False
  let ?k = "0x80 OR run_code run OR of_nat (run_length run div 256) :: u8"
  have h: "run_header run = [?k, of_nat (run_length run)]" using False by (simp add: run_header_def)
  have n: "run_length run < 4096" using assms(1) by (simp add: run_allowed_def)
  have k1: "read_u8 r = Inr (?k, advance 1 r)"
    using assms(3) by (intro read_byte[OF assms(2)]) (simp add: h)
  have k2: "read_u8 (advance 1 r) = Inr (of_nat (run_length run), advance 2 r)"
    using assms(2,3) by (subst read_byte) (simp_all add: h numeral_2_eq_2)
  have d: "run_length run div 256 < 16" using n by simp
  then show ?thesis
    using k1 k2 small_bits[OF d] code_bits[of run] length_field[OF n]
    by (simp add: read_buffer_tag_def rd_bind_def rd_ret_def rd_map_def bit.conj_disj_distrib2 h run_tag_def)
qed

lemma read_run_reads:
  assumes "list_all2 (\<lambda>p v. \<forall>r rest. in_memory r \<longrightarrow> ahead r = p @ rest \<longrightarrow> read_buffer_value file tag r = Inr (v, advance (length p) r)) ps vs"
    and "in_memory r" and "ahead r = concat ps @ rest"
  shows "read_run file tag (length ps) r = (Inr (map fst vs, advance (length (concat ps)) r), sum_list (map snd vs))"
  using assms
proof (induction ps vs arbitrary: r rule: list_all2_induct)
  case (Cons p ps v vs)
  then have "read_buffer_value file tag r = Inr (v, advance (length p) r)" by simp
  moreover have "read_run file tag (length ps) (advance (length p) r) =
      (Inr (map fst vs, advance (length (concat ps)) (advance (length p) r)), sum_list (map snd vs))"
    using Cons.prems by (intro Cons.IH) simp_all
  ultimately show ?case by (cases v) simp
qed simp

lemma run_elements:
  assumes "run_allowed ver run"
  shows "list_all2 (\<lambda>p v. \<forall>r rest. in_memory r \<longrightarrow> ahead r = p @ rest \<longrightarrow>
      read_buffer_value file (run_tag ver run) r = Inr (v, advance (length p) r)) (run_payload run) (run_values file run)"
  using assms
  by (cases run)
     (auto simp: run_tag_def tag_of_bits_def run_allowed_def list_all2_conv_all_nth rd_map_def rd_bind_def rd_ret_def
       u8.get_put u16.get_put u32.get_put i32.get_put f64.get_put)

lemma run_values_length: "length (run_values file run) = run_length run"
  by (cases run) (simp_all add: run_length_def)

lemma read_series_runs:
  assumes "list_all (run_allowed (version (bf_header file))) runs" and "in_memory r"
    and "ahead r = concat (map run_bytes runs) @ rest"
    and "need \<le> length (concat (map (run_values file) runs))"
  shows "read_series file need r =
    (Inr (map fst (take need (concat (map (run_values file) runs)))),
     sum_list (map snd (take need (concat (map (run_values file) runs)))))"
  using assms
proof (induction runs arbitrary: r need)
  case Nil
  then show ?case by (simp add: read_series.simps)
next
  case (Cons run runs)
  let ?ver = "version (bf_header file)" and ?vs = "run_values file run" and ?n = "run_length run"
  let ?rest = "concat (map (run_values file) runs)"
  show ?case
  proof (cases "need = 0")
    case True
    then show ?thesis by (simp add: read_series.simps)
  next
    case False
    have ok: "run_allowed ?ver run" using Cons.prems(1) by simp
    let ?r1 = "advance (length (run_header run)) r"
    have tag: "read_buffer_tag ?ver r = Inr ((run_tag ?ver run, of_nat ?n), ?r1)"
      using Cons.prems(3)
      by (intro read_run_header[OF ok Cons.prems(2), where rest = "concat (run_payload run) @ concat (map run_bytes runs) @ rest"])
        (simp add: run_bytes_def[of run])
    have n: "unat (of_nat ?n :: u32) = ?n" using ok by (intro unat_of_nat_less) (simp add: run_allowed_def)
    have "(of_nat ?n :: u32) = 0 \<longleftrightarrow> ?n = 0" unfolding unat_eq_zero[symmetric] n ..
    note n = n this
    let ?k = "min ?n need"
    have ah: "ahead ?r1 = concat (take ?k (run_payload run)) @ concat (drop ?k (run_payload run)) @ concat (map run_bytes runs) @ rest"
    proof -
      have "concat (take ?k (run_payload run)) @ concat (drop ?k (run_payload run)) = concat (run_payload run)"
        by (metis append_take_drop_id concat_append)
      with Cons.prems(3) show ?thesis by (simp add: run_bytes_def[of run])
    qed
    have "list_all2 (\<lambda>p v. \<forall>r rest. in_memory r \<longrightarrow> ahead r = p @ rest \<longrightarrow>
        read_buffer_value file (run_tag ?ver run) r = Inr (v, advance (length p) r)) (take ?k (run_payload run)) (take ?k ?vs)"
      by (rule list_all2_takeI[OF run_elements[OF ok]])
    note elements = this
    have len: "length (take ?k (run_payload run)) = ?k" by (simp add: run_length_def)
    have run: "read_run file (run_tag ?ver run) ?k ?r1 =
        (Inr (map fst (take ?k ?vs), advance (length (concat (take ?k (run_payload run)))) ?r1), sum_list (map snd (take ?k ?vs)))"
      using read_run_reads[OF elements _ ah] Cons.prems(2) unfolding len by (simp add: take_map)
    let ?r2 = "advance (length (concat (take ?k (run_payload run)))) ?r1"
    have nxt: "read_series file (need - ?k) ?r2 =
        (Inr (map fst (take (need - ?k) ?rest)), sum_list (map snd (take (need - ?k) ?rest)))"
    proof (cases "need \<le> ?n")
      case True
      then show ?thesis by (simp add: read_series.simps)
    next
      case False
      then have "?k = ?n" "need - ?k \<le> length ?rest" using Cons.prems(4) by (simp_all add: run_values_length)
      moreover from this(1) have whole: "take ?k (run_payload run) = run_payload run" "drop ?k (run_payload run) = []"
        by (simp_all add: run_length_def)
      have "drop (length (concat (run_payload run))) (ahead ?r1) = concat (map run_bytes runs) @ rest"
        using ah unfolding whole by (simp del: advance_simps drop_drop)
      then have "ahead ?r2 = concat (map run_bytes runs) @ rest" unfolding whole by (simp add: add.commute)
      ultimately show ?thesis using Cons.prems(1,2) by (intro Cons.IH) simp_all
    qed
    have split: "take need (?vs @ ?rest) = take ?k ?vs @ take (need - ?k) ?rest"
      by (simp add: run_values_length min_def)
    show ?thesis
    proof (cases "?n = 0")
      case True
      then have "read_series file need r = read_series file need ?r1"
        using False tag n by (simp add: read_series.simps[of "file" need r])
      with True nxt split show ?thesis by (simp add: run_length_def)
    next
      case nonzero: False
      show ?thesis
        unfolding read_series.simps[of "file" need r] tag
        using False nonzero run nxt n split by simp
    qed
  qed
qed

text \<open>C36: A literal series reads back what is stored.  Runs of values, each a tag with a length
  below 4096 and its payloads, are read from their offset to exactly the first \<open>count\<close> values,
  across runs and cutting the last one; every string id that names no string adds one to the
  file's count of unresolved ids, and nothing else of the file changes.\<close>

theorem literal_series_reads_runs:
  assumes "list_all (run_allowed (version (bf_header file))) runs"
    and "buffer = before @ concat (map run_bytes runs) @ after" and "length buffer \<le> usize_max"
    and "unat off = length before" and "unat count \<le> length (concat (map (run_values file) runs))"
  shows "read_buffer_series file buffer off count =
    (let vals = take (unat count) (concat (map (run_values file) runs)) in
     (Inr (map fst vals),
      file\<lparr>bf_unresolved_string_ids := bf_unresolved_string_ids file + sum_list (map snd vals)\<rparr>))"
proof (cases "count = 0")
  case True
  then show ?thesis by (simp add: read_buffer_series_def)
next
  case False
  let ?r = "new_reader (drop (unat off) buffer)"
  have "0 < unat count" using False by (simp add: unat_gt_0)
  with assms(5) have "concat (map (run_values file) runs) \<noteq> []" by (metis le_zero_eq less_irrefl list.size(3))
  then obtain run where "run \<in> set runs" by auto
  then have "concat (map run_bytes runs) \<noteq> []" by (auto simp: run_bytes_def run_header_def)
  then have "\<not> length buffer \<le> unat off" using assms(2,4) by simp
  moreover have "read_series file (unat count) ?r =
    (Inr (map fst (take (unat count) (concat (map (run_values file) runs)))),
     sum_list (map snd (take (unat count) (concat (map (run_values file) runs)))))"
    using assms by (intro read_series_runs[where rest = after]) (simp_all add: new_reader_def ahead_def in_memory_def)
  ultimately show ?thesis using False by (simp add: read_buffer_series_def Let_def)
qed

theorem literal_series_reads_runs_witness:
  "\<exists>file. fst (read_buffer_series file [9, 0x51, 0x02, 0x00, 0x73, 1, 0, 0, 0, 2, 0, 0, 0, 3, 0, 0, 0, 0x20] 1 3)
     = Inr [LString (lit ''<string:2>''), LInteger 1, LInteger 2]
   \<and> bf_unresolved_string_ids (snd (read_buffer_series file
         [9, 0x51, 0x02, 0x00, 0x73, 1, 0, 0, 0, 2, 0, 0, 0, 3, 0, 0, 0, 0x20] 1 3)) = 1"
proof -
  let ?file = "undefined\<lparr>bf_strings := [], bf_unresolved_string_ids := 0\<rparr> :: bytecode_file"
  let ?runs = "[RShort [2], RInteger [1, 2, 3]]"
  have two: "dec 2 = lit ''2''" by (simp add: dec_def nat_text.simps digit_char_def)
  have bytes: "concat (map run_bytes ?runs) = [0x51, 0x02, 0x00, 0x73, 1, 0, 0, 0, 2, 0, 0, 0, 3, 0, 0, 0]"
    by (simp add: run_bytes_def run_header_def run_length_def le_bytes_def upt_rec)
  have "read_buffer_series ?file [9, 0x51, 0x02, 0x00, 0x73, 1, 0, 0, 0, 2, 0, 0, 0, 3, 0, 0, 0, 0x20] 1 3 =
    (let vals = take (unat (3 :: u32)) (concat (map (run_values ?file) ?runs)) in
     (Inr (map fst vals), ?file\<lparr>bf_unresolved_string_ids := bf_unresolved_string_ids ?file + sum_list (map snd vals)\<rparr>))"
    by (rule literal_series_reads_runs[where before = "[9]" and after = "[0x20]"])
       (simp_all only: bytes, simp_all add: run_allowed_def run_length_def usize_max_def)
  then show ?thesis
    by (intro exI[of _ ?file]) (simp add: Let_def string_value_def resolve_string_def string_at_def list_get_def two lit_def)
qed

end
