(* ===== verification/Lower_Data.thy ===== *)
theory Lower_Data
  imports Instructions Ir Js_Text Literal_Buffers "HOL-Library.Monad_Syntax"
begin

text \<open>
  Lifting of the instructions that compute, load, store and build objects: the handlers of
  \<open>crates/hbc-decomp/src/ir/builder/opcodes_load.rs\<close>, \<open>opcodes_arith.rs\<close>, \<open>opcodes_prop.rs\<close> and
  \<open>opcodes_obj.rs\<close>.  A handler reads the operands of one instruction and gives the statement it
  stands for, or nothing when an operand is missing; the \<open>?\<close> of the code is the bind of options.
  The three handlers that read a literal buffer return the file too, whose count of unresolved
  string ids they raise.
\<close>

section \<open>Operands\<close>

definition get_reg :: "operand list \<Rightarrow> nat \<Rightarrow> u32 option" where
  "get_reg operands i = do { op \<leftarrow> list_get operands i; as_u32 (op_value op) }"

definition reg_expr :: "operand list \<Rightarrow> nat \<Rightarrow> expression option" where
  "reg_expr operands i = do { r \<leftarrow> get_reg operands i; Some (EReg r) }"

text \<open>\<open>inst.operands.get(i)?.value.as_u32()?\<close>, \<open>as_i32\<close> and \<open>last()?\<close>.\<close>

abbreviation operand_u32 :: "instruction \<Rightarrow> nat \<Rightarrow> u32 option" where
  "operand_u32 insn i \<equiv> get_reg (in_operands insn) i"

definition operand_i32 :: "instruction \<Rightarrow> nat \<Rightarrow> i32 option" where
  "operand_i32 insn i = do { op \<leftarrow> list_get (in_operands insn) i; as_i32 (op_value op) }"

definition last_operand_u32 :: "instruction \<Rightarrow> u32 option" where
  "last_operand_u32 insn = (if in_operands insn = [] then None else as_u32 (op_value (last (in_operands insn))))"

abbreviation dst_reg :: "instruction \<Rightarrow> nat \<Rightarrow> u32 option" where
  "dst_reg insn i \<equiv> get_reg (in_operands insn) i"

abbreviation src_reg :: "instruction \<Rightarrow> nat \<Rightarrow> expression option" where
  "src_reg insn i \<equiv> reg_expr (in_operands insn) i"

abbreviation assign_reg :: "u32 \<Rightarrow> expression \<Rightarrow> statement" where
  "assign_reg r e \<equiv> SAssign (TBinding (BRegister r)) e"

abbreviation const_expr :: "const_value \<Rightarrow> expression" where
  "const_expr c \<equiv> EValue (VConstant c)"

abbreviation int_const :: "i32 \<Rightarrow> expression" where
  "int_const i \<equiv> const_expr (CInteger i)"

abbreviation member :: "expression \<Rightarrow> rust_string \<Rightarrow> expression" where
  "member obj p \<equiv> EMember obj (PIdent p) False"

abbreviation indexed :: "expression \<Rightarrow> expression \<Rightarrow> expression" where
  "indexed obj k \<equiv> EMember obj (PComputed k) False"

abbreviation variable :: "string \<Rightarrow> expression" where
  "variable s \<equiv> EValue (VBinding (BVariable (var_new (lit s))))"

text \<open>The string an id names when strings are resolved, else a placeholder.\<close>

definition string_or :: "bytecode_file \<Rightarrow> bool \<Rightarrow> u32 \<Rightarrow> rust_string \<Rightarrow> rust_string \<Rightarrow> rust_string" where
  "string_or file resolve i missing unresolved =
     (if resolve then (case string_at file i of Some e \<Rightarrow> st_value e | None \<Rightarrow> missing) else unresolved)"

definition numbered :: "string \<Rightarrow> u32 \<Rightarrow> rust_string" where
  "numbered s i = lit s @ dec (unat i)"

section \<open>Loads\<close>

definition load_const_value :: "string \<Rightarrow> instruction \<Rightarrow> bytecode_file \<Rightarrow> bool \<Rightarrow> expression option" where
  "load_const_value name insn file resolve =
     (if name = ''LoadConstUndefined'' then Some (const_expr CUndefined)
      else if name = ''LoadConstNull'' then Some (const_expr CNull)
      else if name = ''LoadConstTrue'' then Some (const_expr (CBool True))
      else if name = ''LoadConstFalse'' then Some (const_expr (CBool False))
      else if name = ''LoadConstZero'' then Some (int_const 0)
      else if name = ''LoadConstEmpty'' then Some (const_expr CUndefined)
      else if name = ''LoadConstUInt8'' then do { v \<leftarrow> operand_u32 insn 1; Some (int_const v) }
      else if name = ''LoadConstInt'' then do { v \<leftarrow> operand_i32 insn 1; Some (int_const v) }
      else if name = ''LoadConstDouble'' then
        do { op \<leftarrow> list_get (in_operands insn) 1;
             (case op_value op of F64 f \<Rightarrow> Some (const_expr (CNumber f)) | _ \<Rightarrow> None) }
      else if name \<in> {''LoadConstString'', ''LoadConstStringLongIndex''} then
        do { i \<leftarrow> operand_u32 insn 1;
             Some (const_expr (CString (string_or file resolve i [] (lit ''<string:'' @ dec (unat i) @ lit ''>'')))) }
      else if name \<in> {''LoadConstBigInt'', ''LoadConstBigIntLongIndex''} then
        do { i \<leftarrow> operand_u32 insn 1;
             Some (const_expr (CBigInt (case bigint_at file i of Some t \<Rightarrow> lit t | None \<Rightarrow> dec (unat i)))) }
      else None)"

definition handle_load_const :: "string \<Rightarrow> instruction \<Rightarrow> bytecode_file \<Rightarrow> bool \<Rightarrow> statement option" where
  "handle_load_const name insn file resolve = do {
     dst \<leftarrow> dst_reg insn 0;
     v \<leftarrow> load_const_value name insn file resolve;
     Some (assign_reg dst v) }"

definition handle_mov :: "instruction \<Rightarrow> statement option" where
  "handle_mov insn = do { dst \<leftarrow> dst_reg insn 0; src \<leftarrow> dst_reg insn 1; Some (assign_reg dst (EReg src)) }"

definition handle_load_param :: "instruction \<Rightarrow> statement option" where
  "handle_load_param insn = do {
     dst \<leftarrow> dst_reg insn 0;
     i \<leftarrow> operand_u32 insn 1;
     Some (assign_reg dst (EValue (if i = 0 then VThis else VParameter (i - 1)))) }"

definition handle_get_global :: "instruction \<Rightarrow> statement option" where
  "handle_get_global insn = do { dst \<leftarrow> dst_reg insn 0; Some (assign_reg dst (EValue VGlobal)) }"

definition handle_load_this :: "instruction \<Rightarrow> statement option" where
  "handle_load_this insn = do { dst \<leftarrow> dst_reg insn 0; Some (assign_reg dst (EValue VThis)) }"

definition handle_declare_global :: "instruction \<Rightarrow> bytecode_file \<Rightarrow> bool \<Rightarrow> statement option" where
  "handle_declare_global insn file resolve = do {
     i \<leftarrow> operand_u32 insn 0;
     Some (SLet (var_new (string_or file resolve i (numbered ''var'' i) (numbered ''var'' i)))
             (const_expr CUndefined) KVar) }"

section \<open>Arithmetic\<close>

definition arith_op :: "string \<Rightarrow> binary_op option" where
  "arith_op name =
     (if name \<in> {''Add'', ''AddN'', ''AddS''} then Some OpAdd
      else if name \<in> {''Sub'', ''SubN''} then Some OpSub
      else if name \<in> {''Mul'', ''MulN''} then Some OpMul
      else if name \<in> {''Div'', ''DivN''} then Some OpDiv
      else if name = ''Mod'' then Some OpMod
      else if name = ''BitAnd'' then Some OpBitAnd
      else if name = ''BitOr'' then Some OpBitOr
      else if name = ''BitXor'' then Some OpBitXor
      else if name \<in> {''LShift'', ''Shl''} then Some OpShl
      else if name \<in> {''RShift'', ''Shr''} then Some OpShr
      else if name \<in> {''URshift'', ''UShr''} then Some OpUShr
      else None)"

definition binary_assign :: "instruction \<Rightarrow> binary_op option \<Rightarrow> statement option" where
  "binary_assign insn op = do {
     dst \<leftarrow> dst_reg insn 0;
     left \<leftarrow> src_reg insn 1;
     right \<leftarrow> src_reg insn 2;
     o1 \<leftarrow> op;
     Some (assign_reg dst (EBinary o1 left right)) }"

definition handle_binary_op :: "string \<Rightarrow> instruction \<Rightarrow> statement option" where
  "handle_binary_op name insn = binary_assign insn (arith_op name)"

definition comparison_op :: "string \<Rightarrow> binary_op option" where
  "comparison_op name =
     (if name = ''Eq'' then Some OpEq
      else if name = ''StrictEq'' then Some OpStrictEq
      else if name = ''Neq'' then Some OpNeq
      else if name = ''StrictNeq'' then Some OpStrictNeq
      else if name = ''Less'' then Some OpLt
      else if name = ''LessEq'' then Some OpLe
      else if name = ''Greater'' then Some OpGt
      else if name = ''GreaterEq'' then Some OpGe
      else None)"

definition handle_comparison :: "string \<Rightarrow> instruction \<Rightarrow> statement option" where
  "handle_comparison name insn = binary_assign insn (comparison_op name)"

definition unary_op_of :: "string \<Rightarrow> unary_op option" where
  "unary_op_of name =
     (if name = ''Negate'' then Some OpNeg
      else if name = ''Not'' then Some OpNot
      else if name = ''BitNot'' then Some OpBitNot
      else if name = ''TypeOf'' then Some OpTypeOf
      else None)"

definition handle_unary_op :: "string \<Rightarrow> instruction \<Rightarrow> statement option" where
  "handle_unary_op name insn = do {
     dst \<leftarrow> dst_reg insn 0;
     operand \<leftarrow> src_reg insn 1;
     op \<leftarrow> unary_op_of name;
     Some (assign_reg dst (EUnary op operand)) }"

text \<open>\<open>str::contains\<close> on the ASCII names of the opcode table.\<close>

fun name_contains :: "string \<Rightarrow> string \<Rightarrow> bool" where
  "name_contains pat [] = (pat = [])"
| "name_contains pat (c # cs) = (take (length pat) (c # cs) = pat \<or> name_contains pat cs)"

definition handle_inc_dec :: "string \<Rightarrow> instruction \<Rightarrow> statement option" where
  "handle_inc_dec name insn = do {
     dst \<leftarrow> dst_reg insn 0;
     src \<leftarrow> src_reg insn 1;
     Some (assign_reg dst (EBinary (if name_contains ''Inc'' name then OpAdd else OpSub) src (int_const 1))) }"

definition handle_coercion :: "string \<Rightarrow> instruction \<Rightarrow> statement option" where
  "handle_coercion name insn = do {
     dst \<leftarrow> dst_reg insn 0;
     src \<leftarrow> src_reg insn 1;
     v \<leftarrow> (if name \<in> {''ToNumber'', ''ToNumeric''} then Some (EUnary OpPlus src)
           else if name = ''ToInt32'' then Some (EBinary OpBitOr src (int_const 0))
           else if name = ''ToUint32'' then Some (EBinary OpUShr src (int_const 0))
           else if name = ''AddEmptyString'' then Some (EBinary OpAdd (const_expr (CString [])) src)
           else if name = ''CoerceThisNS'' then Some src
           else None);
     Some (assign_reg dst v) }"

definition handle_instance_in :: "string \<Rightarrow> instruction \<Rightarrow> statement option" where
  "handle_instance_in name insn = binary_assign insn
     (if name = ''InstanceOf'' then Some OpInstanceOf else if name = ''IsIn'' then Some OpIn else None)"

end
