(* ===== verification/Operand_Patch.thy ===== *)
theory Operand_Patch
  imports Body_Patch Lower_Data
begin

text \<open>
  Rewriting one string operand in place (\<open>crates/hbc-decomp/src/write/patch/operands.rs\<close>): the
  instruction is decoded where it lies, the operand's bytes are overwritten and read back, and the
  image is committed.  The theorem says which bytes change and what the instruction decodes to.
\<close>

section \<open>Locating and decoding one instruction\<close>

datatype operand_target = AbsoluteOffset u32 | FunctionRelative u32 u32

definition resolve_target :: "bytecode_file \<Rightarrow> operand_target \<Rightarrow> nat result" where
  "resolve_target file target =
     (case target of
        AbsoluteOffset off \<Rightarrow> Inr (unat off)
      | FunctionRelative function insn_offset \<Rightarrow>
          res_bind (ok_or (list_get (bf_function_headers file) (unat function))
            (Write ''function {function} not found'' [fword function])) (\<lambda>hdr.
          if fh_bytecode_size hdr \<le> insn_offset
          then Inl (Write ''insn_offset 0x{:x} >= function body size 0x{:x}''
                 [fword insn_offset, fword (fh_bytecode_size hdr)])
          else Inr (unat (fh_offset hdr) + unat insn_offset)))"

text \<open>The operands with the byte position of each, from a start position on.\<close>

primrec read_positioned :: "nat \<Rightarrow> operand_type list \<Rightarrow> (operand list \<times> nat list) read_op" where
  "read_positioned base [] r = Inr (([], []), r)"
| "read_positioned base (ty # tys) r =
     res_bind (operand_read ty r) (\<lambda>(v, r1).
     res_bind (read_positioned base tys r1) (\<lambda>((os, ps), r2).
     Inr ((\<lparr>op_ty = ty, op_value = v\<rparr> # os, (base + pos r) # ps), r2)))"

definition decode_one_at :: "u8 list \<Rightarrow> nat \<Rightarrow> bytecode_format \<Rightarrow> (instruction \<times> nat list) result" where
  "decode_one_at raw abs_off format =
     (if length raw \<le> abs_off then Inl (Write ''offset 0x{abs_off:x} past end of file'' [fnat abs_off])
      else
        res_bind (read_u8 (new_reader (drop abs_off raw))) (\<lambda>(opcode, r).
        res_bind (ok_or (definition_at format opcode)
          (Write ''unknown opcode {opcode} at 0x{abs_off:x}'' [fword opcode, fnat abs_off])) (\<lambda>def.
        res_bind (read_positioned abs_off (operand_types def) r) (\<lambda>((operands, positions), r').
        Inr (\<lparr>in_offset = of_nat abs_off, in_opcode = opcode, in_operands = operands,
              in_length = of_nat (pos r')\<rparr>, positions)))))"

fun operand_byte_width :: "operand_type \<Rightarrow> nat" where
  "operand_byte_width ty =
     (if ty \<in> {Reg8, UInt8, UInt8S, Addr8} then 1
      else if ty \<in> {UInt16, UInt16S} then 2
      else if ty = Double then 8 else 4)"

section \<open>The edit\<close>

definition is_string_type :: "operand_type \<Rightarrow> bool" where
  "is_string_type ty \<longleftrightarrow> ty \<in> {UInt8S, UInt16S, UInt32S}"

fun max_string_id :: "operand_type \<Rightarrow> u32" where
  "max_string_id UInt8S = 0xff"
| "max_string_id UInt16S = 0xffff"
| "max_string_id _ = 0xffffffff"

definition string_operands :: "instruction \<Rightarrow> nat list \<Rightarrow> (nat \<times> operand \<times> nat) list" where
  "string_operands insn positions =
     filter (\<lambda>(_, op, _). is_string_type (op_ty op))
       (zip [0..<length (in_operands insn)] (zip (in_operands insn) positions))"

fun operand_type_text :: "operand_type \<Rightarrow> rust_string" where
  "operand_type_text UInt8S = lit ''UInt8S''"
| "operand_type_text UInt16S = lit ''UInt16S''"
| "operand_type_text _ = lit ''UInt32S''"

text \<open>The operand the index selects, checked against the width of its type.\<close>

definition select_operand ::
  "instruction_def \<Rightarrow> nat \<Rightarrow> (nat \<times> operand \<times> nat) list \<Rightarrow> nat option \<Rightarrow> u32 \<Rightarrow> (nat \<times> operand \<times> nat) result" where
  "select_operand def abs_off string_ops operand_index new_id =
     (if string_ops = []
      then Inl (Write ''instruction {} at 0x{:x} has no string operand'' [FText (lit (def_name def)), fnat abs_off])
      else
        let sel = (case operand_index of Some i \<Rightarrow> i | None \<Rightarrow> 0) in
        if length string_ops \<le> sel
        then Inl (Write ''instruction {} has {} string operand(s), --operand-index {} out of range''
               [FText (lit (def_name def)), fnat (length string_ops), fnat sel])
        else
          let (op_idx, op, byte_pos) = string_ops ! sel in
          if max_string_id (op_ty op) < new_id
          then Inl (Write ''string id {} exceeds operand width ({:?} max {}); use the Long variant of the opcode or ensure add-string returned a lower id''
                 [fword new_id, FText (operand_type_text (op_ty op)), fword (max_string_id (op_ty op))])
          else Inr (op_idx, op, byte_pos))"

definition written_operand :: "u8 list \<Rightarrow> operand_type \<Rightarrow> nat \<Rightarrow> u32 \<Rightarrow> u8 list result" where
  "written_operand raw ty byte_pos new_id =
     (if length raw < byte_pos + operand_byte_width ty then Inl (Write ''operand position out of range'' [])
      else Inr (put_at raw byte_pos (le_bytes (operand_byte_width ty) new_id)))"

definition operand_reads_back :: "u8 list \<Rightarrow> nat \<Rightarrow> bytecode_format \<Rightarrow> nat \<Rightarrow> u32 \<Rightarrow> unit result" where
  "operand_reads_back out abs_off format op_idx new_id =
     res_bind (decode_one_at out abs_off format) (\<lambda>(insn, _).
     let v = (case as_u32 (op_value (in_operands insn ! op_idx)) of Some v \<Rightarrow> v | None \<Rightarrow> 0xffffffff) in
     if v \<noteq> new_id then Inl (Write ''read-back failed: expected {new_string_id}, got {verify_val}'' [fword new_id, fword v])
     else Inr ())"

definition shown_string :: "bytecode_file \<Rightarrow> u32 \<Rightarrow> rust_string" where
  "shown_string file i = (case string_at file i of Some s \<Rightarrow> st_value s | None \<Rightarrow> lit ''<unknown>'')"

text \<open>A property name must be an identifier: the instructions whose name contains \<open>ById\<close> warn.\<close>

definition by_id_warning :: "bytecode_file \<Rightarrow> instruction_def \<Rightarrow> u32 \<Rightarrow> message option" where
  "by_id_warning file def new_id =
     (if name_contains ''ById'' (def_name def)
         \<and> \<not> (case string_at file new_id of Some s \<Rightarrow> st_is_identifier s | None \<Rightarrow> False)
      then Some (''warning: {} takes a property name (identifier), but string id {} ({:?}) is not an identifier; the property lookup may fail at runtime'',
             [FText (lit (def_name def)), fword new_id, FText (shown_string file new_id)])
      else None)"

definition patched_operand ::
  "bytecode_file \<Rightarrow> bytecode_format \<Rightarrow> operand_target \<Rightarrow> u32 \<Rightarrow> nat option
     \<Rightarrow> (u8 list \<times> message \<times> message option) result" where
  "patched_operand file format target new_id operand_index =
     res_bind (ok_or (bf_raw_bytes file) (Write ''no raw_bytes'' [])) (\<lambda>raw.
     if string_count (bf_header file) \<le> new_id
     then Inl (Write ''string id {} out of range (string_count={})'' [fword new_id, fword (string_count (bf_header file))])
     else
       res_bind (resolve_target file target) (\<lambda>abs_off.
       res_bind (decode_one_at raw abs_off format) (\<lambda>(insn, positions).
       res_bind (ok_or (definition_at format (in_opcode insn))
         (Write ''unknown opcode {}'' [fword (in_opcode insn)])) (\<lambda>def.
       res_bind (select_operand def abs_off (string_operands insn positions) operand_index new_id) (\<lambda>(op_idx, op, byte_pos).
       res_bind (written_operand raw (op_ty op) byte_pos new_id) (\<lambda>out.
       res_bind (operand_reads_back out abs_off format op_idx new_id) (\<lambda>_.
       let old_id = (case as_u32 (op_value op) of Some v \<Rightarrow> v | None \<Rightarrow> 0) in
       Inr (out,
         (''{} at 0x{:x}: operand {} ({:?}) {} ({:?}) -> {} ({:?})'',
          [FText (lit (def_name def)), fnat abs_off, fnat op_idx, FText (operand_type_text (op_ty op)), fword old_id, FText (shown_string file old_id),
           fword new_id, FText (shown_string file new_id)]),
         by_id_warning file def new_id))))))))"

definition patch_string_operand ::
  "digest \<Rightarrow> bytecode_format \<Rightarrow> operand_target \<Rightarrow> u32 \<Rightarrow> nat option
     \<Rightarrow> (u8 list \<times> message \<times> message option) file_op" where
  "patch_string_operand sha1 format target new_id operand_index file =
     (case patched_operand file format target new_id operand_index of
        Inl e \<Rightarrow> (Inl e, file)
      | Inr (img, status, warning) \<Rightarrow>
          (case commit_image sha1 img header_edit_default file of
             (Inl e, file') \<Rightarrow> (Inl e, file')
           | (Inr out, file') \<Rightarrow> (Inr (out, status, warning), file')))"

section \<open>Instructions in place\<close>

primrec positions :: "nat \<Rightarrow> operand list \<Rightarrow> nat list" where
  "positions p [] = []"
| "positions p (x # xs) = p # positions (p + length (operand_bytes (op_ty x) (op_value x))) xs"

lemma length_positions [simp]: "length (positions p xs) = length xs"
  by (induction xs arbitrary: p) auto

lemma read_positioned_iff:
  "read_positioned base tys r = Inr ((os, ps), r') \<longleftrightarrow>
     read_operands tys r = Inr (os, r') \<and> ps = positions (base + pos r) os"
proof (induction tys arbitrary: r os ps)
  case Nil
  then show ?case by (auto simp: rd_ret_def)
next
  case (Cons ty tys)
  have step: "pos r1 = pos r + length (operand_bytes ty v)" if "operand_read ty r = Inr (v, r1)" for v r1
    using operand.put_get[OF that] by (simp add: advance_def)
  show ?case
    by (cases os) (auto simp: res_bind_Inr_iff rd_bind_Inr_iff rd_ret_def Cons.IH step add.assoc)
qed

text \<open>An instruction decodes at an offset exactly when its bytes are there.\<close>

lemma decode_one_at_read:
  "decode_one_at raw a format = Inr (insn, ps) \<longleftrightarrow>
     a < length raw \<and> (\<exists>r'. read_instruction format (of_nat a) (new_reader (drop a raw)) = Inr (insn, r'))
     \<and> ps = positions (a + 1) (in_operands insn)"
proof -
  have one: "pos r1 = 1" if "read_u8 (new_reader (drop a raw)) = Inr (v, r1)" for v r1
    using u8.put_get[OF that] by (simp add: advance_def new_reader_def)
  show ?thesis
  proof (cases "read_u8 (new_reader (drop a raw))")
    case (Inr p)
    obtain opcode r1 where p: "p = (opcode, r1)" by (cases p)
    with Inr have "pos r1 = 1" by (auto dest: one)
    with Inr show ?thesis
      by (auto simp: p decode_one_at_def res_bind_Inr_iff read_positioned_iff read_instruction_def rd_bind_Inr_iff
          rd_lift_def new_reader_def)
  qed (simp add: decode_one_at_def read_instruction_def rd_bind_def)
qed

lemma decode_one_at_iff:
  assumes "length raw \<le> usize_max"
  shows "decode_one_at raw a format = Inr (insn, ps) \<longleftrightarrow>
     typed_insn format insn \<and> in_offset insn = of_nat a \<and> in_length insn = of_nat (length (insn_bytes insn))
     \<and> a + length (insn_bytes insn) \<le> length raw \<and> get_at (length (insn_bytes insn)) raw a = insn_bytes insn
     \<and> ps = positions (a + 1) (in_operands insn)"
proof -
  let ?r = "new_reader (drop a raw)"
  have pos: "0 < length (insn_bytes insn)" by (simp add: insn_bytes_def)
  have "(\<exists>r'. read_instruction format (of_nat a) ?r = Inr (insn, r')) \<longleftrightarrow>
      typed_insn format insn \<and> in_offset insn = of_nat a \<and> in_length insn = of_nat (length (insn_bytes insn))
      \<and> take (length (insn_bytes insn)) (drop a raw) = insn_bytes insn" (is "_ \<longleftrightarrow> ?ok \<and> ?bytes")
  proof
    assume "\<exists>r'. read_instruction format (of_nat a) ?r = Inr (insn, r')"
    then show "?ok \<and> ?bytes" by (auto dest!: insn.put_get simp: ahead_def new_reader_def)
  next
    assume *: "?ok \<and> ?bytes"
    then have "ahead ?r = insn_bytes insn @ drop (length (insn_bytes insn)) (drop a raw)"
      by (simp add: ahead_def new_reader_def) (metis append_take_drop_id drop_drop)
    with * assms show "\<exists>r'. read_instruction format (of_nat a) ?r = Inr (insn, r')"
      using insn.get_put[of format insn "of_nat a" ?r] by (auto simp: in_memory_def new_reader_def)
  qed
  moreover have "a + length (insn_bytes insn) \<le> length raw" if "take (length (insn_bytes insn)) (drop a raw) = insn_bytes insn"
    using arg_cong[OF that, of length] pos unfolding length_take length_drop min_def
    by (simp split: if_splits del: length_greater_0_conv)
  moreover have "a < length raw" if "a + length (insn_bytes insn) \<le> length raw" using that pos by linarith
  ultimately show ?thesis by (auto simp: decode_one_at_read get_at_def)
qed

text \<open>The value a string operand holds, and its bytes.\<close>

definition string_id_value :: "operand_type \<Rightarrow> u32 \<Rightarrow> operand_value" where
  "string_id_value ty v = (if ty = UInt8S then U8 (ucast v) else if ty = UInt16S then U16 (ucast v) else U32 v)"

lemma string_id_value:
  assumes "is_string_type ty"
  shows "value_for ty (string_id_value ty v)" "operand_bytes ty (string_id_value ty v) = le_bytes (operand_byte_width ty) v"
    and "value_for ty w \<Longrightarrow> length (operand_bytes ty w) = operand_byte_width ty"
    and "v \<le> max_string_id ty \<Longrightarrow> as_u32 (string_id_value ty v) = Some v"
proof -
  have "le_bytes 1 v = [ucast v]" "le_bytes 2 (ucast v :: u16) = le_bytes 2 v"
    by (auto simp: le_bytes_def numeral_2_eq_2 intro!: bit_word_eqI simp: bit_simps)
  then show "value_for ty (string_id_value ty v)" "operand_bytes ty (string_id_value ty v) = le_bytes (operand_byte_width ty) v"
    "value_for ty w \<Longrightarrow> length (operand_bytes ty w) = operand_byte_width ty"
    using assms by (auto simp: is_string_type_def string_id_value_def operand_bytes_def as_byte_def as_half_def as_word_def value_for_iff)
  have "ucast (ucast v :: u8) = take_bit 8 v" "ucast (ucast v :: u16) = take_bit 16 v"
    by (rule bit_word_eqI, auto simp: bit_simps)+
  then have "v \<le> 0xff \<Longrightarrow> ucast (ucast v :: u8) = v" "v \<le> 0xffff \<Longrightarrow> ucast (ucast v :: u16) = v"
    using take_bit_eq_iff_less[of 8 v] take_bit_eq_iff_less[of 16 v] by (simp_all add: word_le_nat_alt)
  then show "v \<le> max_string_id ty \<Longrightarrow> as_u32 (string_id_value ty v) = Some v"
    using assms by (auto simp: is_string_type_def string_id_value_def)
qed

section \<open>What the edit does\<close>

lemma positions_bytes:
  assumes "i < length xs"
  shows "positions p xs ! i + length (operand_bytes (op_ty (xs ! i)) (op_value (xs ! i))) \<le> p + length (operands_bytes xs)"
    and "p \<le> positions p xs ! i"
    and "list_all typed_operand xs \<Longrightarrow> is_string_type (op_ty (xs ! i)) \<Longrightarrow> put_at (operands_bytes xs) (positions p xs ! i - p)
      (operand_bytes (op_ty (xs ! i)) (string_id_value (op_ty (xs ! i)) v)) =
      operands_bytes (xs[i := (xs ! i)\<lparr>op_value := string_id_value (op_ty (xs ! i)) v\<rparr>])"
  using assms
proof (induction xs arbitrary: p i)
  case (Cons x xs)
  let ?n = "length (operand_bytes (op_ty x) (op_value x))"
  { case 1 show ?case using Cons.IH(1)[of "i - 1" "p + ?n"] 1 by (cases i) (auto simp: operands_bytes_def) }
  { case 2 show ?case using Cons.IH(2)[of "i - 1" "p + ?n"] 2 by (cases i) auto }
  { case 3
    show ?case
    proof (cases i)
      case 0
      with 3 show ?thesis by (simp add: operands_bytes_def put_at_def typed_operand_def string_id_value)
    next
      case (Suc j)
      with 3 have IH: "put_at (operands_bytes xs) (positions (p + ?n) xs ! j - (p + ?n)) (operand_bytes (op_ty (xs ! j)) (string_id_value (op_ty (xs ! j)) v)) =
          operands_bytes (xs[j := (xs ! j)\<lparr>op_value := string_id_value (op_ty (xs ! j)) v\<rparr>])"
        and "p + ?n \<le> positions (p + ?n) xs ! j"
        using Cons.IH(2,3)[of j "p + ?n"] by simp_all
      then obtain k where k: "positions (p + ?n) xs ! j = p + ?n + k" by (metis le_Suc_ex)
      have "operands_bytes (x # ys) = operand_bytes (op_ty x) (op_value x) @ operands_bytes ys" for ys
        by (simp add: operands_bytes_def)
      then show ?thesis using IH by (simp add: Suc k put_at_def)
    qed }
qed simp_all

definition with_string_id :: "nat \<Rightarrow> u32 \<Rightarrow> instruction \<Rightarrow> instruction" where
  "with_string_id k v insn = insn\<lparr>in_operands := (in_operands insn)
     [k := (in_operands insn ! k)\<lparr>op_value := string_id_value (op_ty (in_operands insn ! k)) v\<rparr>]\<rparr>"

lemma positions_cong:
  "map (\<lambda>o'. length (operand_bytes (op_ty o') (op_value o'))) xs =
     map (\<lambda>o'. length (operand_bytes (op_ty o') (op_value o'))) ys \<Longrightarrow> positions q xs = positions q ys"
proof (induction xs arbitrary: ys q)
  case (Cons x xs)
  then obtain y ys' where ys: "ys = y # ys'" by (cases ys) simp_all
  with Cons.prems have "length (operand_bytes (op_ty x) (op_value x)) = length (operand_bytes (op_ty y) (op_value y))"
    and "map (\<lambda>o'. length (operand_bytes (op_ty o') (op_value o'))) xs =
      map (\<lambda>o'. length (operand_bytes (op_ty o') (op_value o'))) ys'" by simp_all
  with Cons.IH[of ys'] show ?case by (simp add: ys)
qed simp

lemma get_put_inside:
  "a \<le> b \<Longrightarrow> b + length ys \<le> a + n \<Longrightarrow> a + n \<le> length xs \<Longrightarrow> get_at n (put_at xs b ys) a = put_at (get_at n xs a) (b - a) ys"
  by (rule nth_equalityI) (auto simp: get_at_def nth_put_at add.commute)

lemma decodes_with_string_id:
  assumes "decode_one_at raw a format = Inr (insn, ps)" and "length raw \<le> usize_max"
    and k: "k < length (in_operands insn)" "is_string_type (op_ty (in_operands insn ! k))"
  defines "w \<equiv> operand_byte_width (op_ty (in_operands insn ! k))"
  shows "a < ps ! k" "ps ! k + w \<le> a + length (insn_bytes insn)" "a + length (insn_bytes insn) \<le> length raw"
    and "length (insn_bytes (with_string_id k v insn)) = length (insn_bytes insn)"
    and "decode_one_at (put_at raw (ps ! k) (le_bytes w v)) a format = Inr (with_string_id k v insn, ps)"
proof -
  let ?op = "in_operands insn ! k" and ?insn = "with_string_id k v insn"
  note d = assms(1)[unfolded decode_one_at_iff[OF assms(2)]]
  from d obtain "def" where "definition_at format (in_opcode insn) = Some def" "map op_ty (in_operands insn) = operand_types def"
    and typed: "list_all typed_operand (in_operands insn)" by (auto simp: typed_insn_iff)
  with k have typed': "typed_insn format ?insn" and "value_for (op_ty ?op) (op_value ?op)"
    by (auto simp: typed_insn_iff with_string_id_def map_update list_all_length nth_list_update typed_operand_def string_id_value)
       (metis list_update_id map_update nth_map)
  with k(2) have w: "length (operand_bytes (op_ty ?op) (op_value ?op)) = w" "length (le_bytes w v) = w"
    "operand_bytes (op_ty ?op) (string_id_value (op_ty ?op) v) = le_bytes w v" by (simp_all add: w_def string_id_value)
  note p = positions_bytes(1,2)[OF k(1), of "a + 1"] positions_bytes(3)[OF k(1) typed k(2), of "a + 1" v]
  with d w show pos: "a < ps ! k" "ps ! k + w \<le> a + length (insn_bytes insn)" "a + length (insn_bytes insn) \<le> length raw"
    by (simp_all add: insn_bytes_def)
  have "put_at (insn_bytes insn) (ps ! k - a) (le_bytes w v) = insn_bytes ?insn"
  proof -
    obtain j where j: "ps ! k = a + Suc j" using pos(1) less_iff_Suc_add by auto
    with p(3) d w show ?thesis by (simp add: insn_bytes_def with_string_id_def put_at_def)
  qed
  moreover have "length (put_at (insn_bytes insn) (ps ! k - a) (le_bytes w v)) = length (insn_bytes insn)"
    using pos w(2) by (intro length_put_at) simp
  moreover have "get_at (length (insn_bytes insn)) (put_at raw (ps ! k) (le_bytes w v)) a =
      put_at (insn_bytes insn) (ps ! k - a) (le_bytes w v)"
    using pos d w(2) get_put_inside[of a "ps ! k" "le_bytes w v" "length (insn_bytes insn)" raw] by simp
  moreover have "positions q (in_operands ?insn) = positions q (in_operands insn)" for q
  proof -
    have "map (\<lambda>o'. length (operand_bytes (op_ty o') (op_value o'))) (in_operands ?insn) =
        map (\<lambda>o'. length (operand_bytes (op_ty o') (op_value o'))) (in_operands insn)"
      using k(1) w by (simp add: with_string_id_def map_update list_update_same_conv)
    then show ?thesis by (rule positions_cong)
  qed
  ultimately have at: "get_at (length (insn_bytes ?insn)) (put_at raw (ps ! k) (le_bytes w v)) a = insn_bytes ?insn"
    and same: "length (insn_bytes ?insn) = length (insn_bytes insn)" and ps: "ps = positions (a + 1) (in_operands ?insn)"
    using d by simp_all
  show "length (insn_bytes ?insn) = length (insn_bytes insn)" by (rule same)
  have "length (put_at raw (ps ! k) (le_bytes w v)) = length raw" using pos w(2) by (intro length_put_at) simp
  moreover have "in_offset ?insn = of_nat a" "in_length ?insn = of_nat (length (insn_bytes insn))"
    using d by (simp_all add: with_string_id_def)
  ultimately show "decode_one_at (put_at raw (ps ! k) (le_bytes w v)) a format = Inr (?insn, ps)"
    using typed' pos(3) assms(2) at same ps by (subst decode_one_at_iff) simp_all
qed

lemma selected_operand:
  assumes "select_operand def a (string_operands insn ps) idx new_id = Inr (k, op, bp)"
    and "length ps = length (in_operands insn)"
  shows "string_operands insn ps ! (case idx of Some i \<Rightarrow> i | None \<Rightarrow> 0) = (k, op, bp)"
    and "k < length (in_operands insn)" "op = in_operands insn ! k" "bp = ps ! k" "is_string_type (op_ty op)"
    and "new_id \<le> max_string_id (op_ty op)"
proof -
  show *: "string_operands insn ps ! (case idx of Some i \<Rightarrow> i | None \<Rightarrow> 0) = (k, op, bp)" "new_id \<le> max_string_id (op_ty op)"
    using assms(1) by (auto simp: select_operand_def Let_def split: if_splits prod.splits)
  have "(case idx of Some i \<Rightarrow> i | None \<Rightarrow> 0) < length (string_operands insn ps)"
    using assms(1) by (simp add: select_operand_def Let_def split: if_splits)
  then have "(k, op, bp) \<in> set (string_operands insn ps)" unfolding *(1)[symmetric] by (rule nth_mem)
  then show "k < length (in_operands insn)" "op = in_operands insn ! k" "bp = ps ! k" "is_string_type (op_ty op)"
    using assms(2) by (auto simp: string_operands_def in_set_zip)
qed

text \<open>Rewriting a string operand changes that operand and nothing else.  Where the edit of an
  instruction between header and footer succeeds, the id is in the string table, the image decodes at
  the same offset to the same instruction with the id in the selected string operand, its bytes are the
  only ones that change besides the length field and the footer, and the file left behind is the parse
  of the returned image, with the header it had.\<close>

theorem patched_operand_reads_back:
  assumes sha: "digest_len sha1" and raw: "bf_raw_bytes file = Some raw" "length raw < 2 ^ 32"
    and target: "resolve_target file target = Inr a" "decode_one_at raw a format = Inr (insn, ps)"
    and place: "36 \<le> a" "a + length (insn_bytes insn) + 20 \<le> length raw"
    and patch: "patch_string_operand sha1 format target new_id idx file = (Inr (out, status, warning), file')"
  shows "\<exists>k op. string_operands insn ps ! (case idx of Some i \<Rightarrow> i | None \<Rightarrow> 0) = (k, op, ps ! k)
    \<and> new_id < string_count (bf_header file)
    \<and> decode_one_at out a format = Inr (with_string_id k new_id insn, ps)
    \<and> as_u32 (op_value (in_operands (with_string_id k new_id insn) ! k)) = Some new_id
    \<and> (\<forall>i < length raw - 20. 36 \<le> i \<longrightarrow> (i < ps ! k \<or> ps ! k + operand_byte_width (op_ty op) \<le> i) \<longrightarrow> out ! i = raw ! i)
    \<and> parse_auto sha1 out = Inr file' \<and> verify_footer sha1 out
    \<and> bf_header file' = (bf_header file)\<lparr>file_length := of_nat (length raw)\<rparr>"
proof -
  obtain img st w where p: "patched_operand file format target new_id idx = Inr (img, st, w)"
    and c: "commit_image_checked sha1 img header_edit_default (\<lambda>_. Inr ()) file = (Inr out, file')"
    using patch by (auto simp: patch_string_operand_def commit_image_def split: sum.splits prod.splits)
  from p raw(1) target obtain "def" k op bp where
    new: "new_id < string_count (bf_header file)" and
    sel: "select_operand def a (string_operands insn ps) idx new_id = Inr (k, op, bp)" and
    img: "written_operand raw (op_ty op) bp new_id = Inr img"
    by (auto simp: patched_operand_def res_bind_Inr_iff Let_def not_le split: if_splits)
  have mem: "length raw \<le> usize_max" using raw(2) by (simp add: usize_max_def)
  have "length ps = length (in_operands insn)" using target(2) by (simp add: decode_one_at_iff[OF mem])
  note sel = selected_operand[OF sel this]
  have img: "img = put_at raw (ps ! k) (le_bytes (operand_byte_width (op_ty op)) new_id)"
    using img by (simp add: written_operand_def sel(4) del: operand_byte_width.simps split: if_splits)
  have "is_string_type (op_ty (in_operands insn ! k))" using sel(3,5) by simp
  note d = decodes_with_string_id[OF target(2) mem sel(2) this]
  have d: "a < ps ! k" "ps ! k + operand_byte_width (op_ty op) \<le> a + length (insn_bytes insn)"
    "a + length (insn_bytes insn) \<le> length raw" "length (insn_bytes (with_string_id k new_id insn)) = length (insn_bytes insn)"
    "decode_one_at img a format = Inr (with_string_id k new_id insn, ps)"
    unfolding img sel(3) by (rule d)+
  have len: "length img = length raw"
    using d(1-3) unfolding img by (intro length_put_at) (simp del: operand_byte_width.simps)
  have fin: "finalize_raw_image sha1 img = Inr out" using c by (simp add: commit_Inr_iff)
  note fz = finalized[OF sha fin]
  have out: "length out = length raw" "\<forall>i < length raw - 20. i < 32 \<or> 36 \<le> i \<longrightarrow> out ! i = img ! i" "verify_footer sha1 out"
    using fz len raw(2) place by simp_all
  have at: "get_at n out a = get_at n img a" if "a + n + 20 \<le> length raw" for n
    by (rule nth_equalityI) (use that out len place in \<open>auto simp: get_at_def\<close>)
  have "decode_one_at out a format = Inr (with_string_id k new_id insn, ps)"
    using d(4,5) mem len out(1) place at[of "length (insn_bytes insn)"] by (simp add: decode_one_at_iff)
  moreover have "out ! i = raw ! i" if "i < length raw - 20" "36 \<le> i" "i < ps ! k \<or> ps ! k + operand_byte_width (op_ty op) \<le> i" for i
    using that out(2) d(1-3) by (auto simp: img nth_put_at simp del: operand_byte_width.simps)
  moreover have "as_u32 (op_value (in_operands (with_string_id k new_id insn) ! k)) = Some new_id"
    using sel by (simp add: with_string_id_def string_id_value)
  moreover have "parse_auto sha1 out = Inr file' \<and> bf_header file' = (bf_header file)\<lparr>file_length := of_nat (length raw)\<rparr>"
    using c out(1) by (simp add: commit_Inr_iff apply_default)
  ultimately show ?thesis using sel(1,4) new out(3) by blast
qed

text \<open>The sample image, whose first instruction is read as loading string 0, pointed at string 0 again.\<close>

definition string_sample_format :: bytecode_format where
  "string_sample_format = \<lparr>fmt_version = 96, definitions =
     map (\<lambda>i. \<lparr>def_opcode = of_nat i, def_name = ''LoadConstString'', operand_types = [UInt8S], is_jump = False,
       abstract_definition = None\<rparr>) [0..<8],
     abstract_definitions = [], git_commit_hash = None\<rparr>"

theorem patched_operand_reads_back_witness:
  "\<exists>img f a status w i ps. length img = 192 \<and> parse_auto sample_digest img = Inr f
     \<and> patch_string_operand sample_digest string_sample_format (AbsoluteOffset a) 0 None f = (Inr (img, status, w), f)
     \<and> decode_one_at img (unat a) string_sample_format = Inr (i, ps) \<and> as_u32 (op_value (in_operands i ! 0)) = Some 0"
proof -
  obtain img where build: "build_minimal_legacy sample_digest 96 [[97, 98], [0xe9], [99]] [7, 0, 92, 0] = Inr img"
    and len: "length img = 192" by (rule sample_image)
  then have "length img < 2 ^ 25" "length [7, 0, 92, 0 :: u8] < 2 ^ 15"
    "\<forall>s \<in> set [[97, 98], [0xe9], [99]]. s \<noteq> [] \<and> list_all is_scalar s" by (simp_all add: is_scalar_def)
  from created_legacy_program[OF sample_digest_len build this] obtain f where f: "parse_auto sample_digest img = Inr f"
    "is_clean f" "created_faults f img 96 [[97, 98], [0xe9], [99]] [7, 0, 92, 0] = []"
    "unat (bf_instruction_offset f) + length [7, 0, 92, 0 :: u8] + 20 = length img"
    "fh_offset (bf_function_headers f ! 0) = bf_instruction_offset f"
    "fh_bytecode_size (bf_function_headers f ! 0) = 4" by auto
  let ?a = "bf_instruction_offset f" and ?img = img
  have a: "unat ?a = 168" using f(4) len by simp
  have code: "get_at 4 img 168 = [7, 0, 92, 0]"
    using f(3) a by (auto simp: created_faults_def Let_def f(5,6) get_range_Some_iff split: if_splits)
  have three: "string_count (bf_header f) = 3"
    using f(3) by (auto simp: created_faults_def expected_header_def expect_eq_def split: if_splits)
  let ?insn = "\<lparr>in_offset = 168, in_opcode = 7, in_operands = [\<lparr>op_ty = UInt8S, op_value = U8 0\<rparr>], in_length = 2\<rparr>"
  have bytes: "insn_bytes ?insn = [7, 0]"
    by (simp add: insn_bytes_def operands_bytes_def operand_bytes_def as_byte_def)
  have two: "get_at 2 img 168 = [7, 0]"
    using arg_cong[OF code, of "take 2"] by (simp add: get_at_def min_def)
  have dec: "decode_one_at img 168 string_sample_format = Inr (?insn, [169])"
    using bytes two len by (simp add: decode_one_at_iff usize_max_def typed_insn_def string_sample_format_def
        definition_at_def typed_operand_def flip: numeral_2_eq_2)
  have "get_at 1 img 169 = [0]" using arg_cong[OF two, of "drop 1"] by (simp add: get_at_def drop_take)
  then have same: "put_at img 169 [0] = img" using put_at_get_at[of 169 1 img] len by simp
  have width: "le_bytes 1 (0 :: u32) = [0]" by (simp add: le_bytes_def)
  have raw: "bf_raw_bytes f = Some img" by (rule parse_auto_raw[OF f(1)])
  have "\<exists>status w. patched_operand f string_sample_format (AbsoluteOffset ?a) 0 None = Inr (img, status, w)"
    using raw three a dec len width same
    by (simp add: patched_operand_def resolve_target_def select_operand_def string_operands_def is_string_type_def
        definition_at_def string_sample_format_def[THEN arg_cong, of definitions] written_operand_def operand_reads_back_def Let_def)
  moreover have "commit_image sample_digest img header_edit_default f = (Inr img, f)"
    using clean_is_sealed(1)[OF sample_digest_len f(1,2)] f(1) clean_header_length[OF f(1,2)]
    by (simp add: commit_image_def commit_Inr_iff apply_default)
  ultimately obtain status w where patch:
    "patch_string_operand sample_digest string_sample_format (AbsoluteOffset ?a) 0 None f = (Inr (img, status, w), f)"
    by (auto simp: patch_string_operand_def)
  from patched_operand_reads_back[OF sample_digest_len raw _ _ dec _ _ patch] len a bytes
  have "\<exists>i. decode_one_at img 168 string_sample_format = Inr (i, [169]) \<and> as_u32 (op_value (in_operands i ! 0)) = Some 0"
    by (auto simp: resolve_target_def string_operands_def is_string_type_def)
  with len f(1) patch a show ?thesis by metis
qed

end
