(* ===== verification/Debug_Reloc.thy ===== *)
theory Debug_Reloc
  imports Body_Patch
begin

text \<open>
  Keeping a function's line table right across an insertion into its body
  (\<open>crates/hbc-decomp/src/write/patch/debug_reloc.rs\<close>).  The addresses of a location stream are
  deltas, so one delta carries the shift of all addresses from the insertion on; when its encoding
  grows, the sizes and offsets that describe the debug data follow.  The theorems read the result
  with the parser's own decoder of both stream encodings.
\<close>

section \<open>The code\<close>

record offsets_slot =
  os_at :: nat
  os_stream :: u32

record entry_delta =
  ed_at :: nat
  ed_len :: nat
  ed_address :: i64

text \<open>Where a function's offset into the debug data is stored, when it has a stream.\<close>

definition source_location_slot :: "u8 list \<Rightarrow> function_header \<Rightarrow> (u32 \<times> offsets_slot) option" where
  "source_location_slot bytes fh =
     (if fh_flags fh AND FLAG_HAS_DEBUG_INFO = 0 \<or> fh_info_offset fh = 0 then None
      else case debug_offsets_pos bytes (fh_info_offset fh) (fh_flags fh) of
        None \<Rightarrow> None
      | Some p \<Rightarrow>
          (case u32_slice bytes p of
             None \<Rightarrow> None
           | Some off \<Rightarrow> if off = - 1 then None else Some (fh_function_id fh, \<lparr>os_at = p, os_stream = off\<rparr>)))"

definition source_location_slots :: "u8 list \<Rightarrow> function_header list \<Rightarrow> (u32 \<times> offsets_slot) list" where
  "source_location_slots bytes headers = List.map_filter (source_location_slot bytes) headers"

definition prologue_fields :: "stream_encoding \<Rightarrow> nat" where
  "prologue_fields enc = (case enc of LegacyStream \<Rightarrow> 3 | ModernStream \<Rightarrow> 4)"

text \<open>What follows the address delta of an entry.\<close>

definition skip_entry :: "stream_encoding \<Rightarrow> unit read_op" where
  "skip_entry enc =
     (case enc of
        LegacyStream \<Rightarrow>
          rd_bind read_sleb128 (\<lambda>ldelta.
          rd_bind read_sleb128 (\<lambda>column.
          rd_bind read_sleb128 (\<lambda>scope_address.
          rd_bind read_sleb128 (\<lambda>env_reg.
          skip_if (ldelta AND 1 \<noteq> 0)))))
      | ModernStream \<Rightarrow>
          rd_bind read_sleb128 (\<lambda>ldelta.
          if ldelta AND 1 = 0 then rd_ret ()
          else
            rd_bind read_sleb128 (\<lambda>column.
            rd_bind (skip_if (ldelta AND 2 \<noteq> 0)) (\<lambda>_.
            skip_if (ldelta AND 4 \<noteq> 0)))))"

lemma well_behaved_skip_if [intro, simp]: "well_behaved (skip_if b)"
  by (cases b) (auto simp: skip_if_def simp del: rd_ret_simp)

lemma well_behaved_if: "(b \<Longrightarrow> well_behaved f) \<Longrightarrow> (\<not> b \<Longrightarrow> well_behaved g) \<Longrightarrow> well_behaved (if b then f else g)"
  by simp

lemma well_behaved_skip_entry [intro, simp]: "well_behaved (skip_entry enc)"
  by (cases enc) (simp_all only: skip_entry_def stream_encoding.case,
    (intro well_behaved_bind well_behaved_if well_behaved_leb well_behaved_skip_if well_behaved_ret)+)

lemma skip_entry_forward:
  assumes "read_sleb128 r = Inr (d, r1)" "skip_entry enc r1 = Inr (u, r2)"
  shows "data r2 = data r \<and> pos r < pos r2 \<and> pos r2 \<le> length (data r)"
  using read_sleb128_moves[OF assms(1)] well_behaved_skip_entry[of enc] assms(2)
  unfolding well_behaved_def by force

function scan_loop :: "stream_encoding \<Rightarrow> nat \<Rightarrow> i64 \<Rightarrow> byte_reader \<Rightarrow> entry_delta list result" where
  "scan_loop enc start address r =
     (case read_sleb128 r of
        Inl _ \<Rightarrow> Inr []
      | Inr (address_delta, r1) \<Rightarrow>
          if address_delta = - 1 then Inr []
          else (case skip_entry enc r1 of
            Inl e \<Rightarrow> Inl e
          | Inr (_, r2) \<Rightarrow>
              res_bind (scan_loop enc start (address + address_delta) r2) (\<lambda>es.
              Inr (\<lparr>ed_at = start + pos r, ed_len = pos r1 - pos r, ed_address = address + address_delta\<rparr> # es))))"
  by pat_completeness auto
termination
proof (relation "measure (\<lambda>(_, _, _, r). length (data r) - pos r)")
  fix enc start address r x d r1 y u r2
  assume "read_sleb128 r = Inr x" "(d, r1) = x" "skip_entry enc r1 = Inr y" "(u, r2) = y"
  then show "((enc, start, address + d, r2), enc, start, address, r) \<in> measure (\<lambda>(_, _, _, r). length (data r) - pos r)"
    using skip_entry_forward[of r d r1 enc u r2] by auto
qed simp

declare scan_loop.simps [simp del]

definition scan_stream :: "u8 list \<Rightarrow> nat \<Rightarrow> stream_encoding \<Rightarrow> entry_delta list result" where
  "scan_stream d start enc =
     (if length d < start then Inl (Write ''debug stream offset out of range'' [])
      else case rd_repeat (prologue_fields enc) read_sleb128 (new_reader (drop start d)) of
        Inl e \<Rightarrow> Inl e
      | Inr (_, r) \<Rightarrow> scan_loop enc start 0 r)"

text \<open>\<open>value as i64 + growth\<close>, stored back as \<open>u32\<close>.\<close>

definition grow_u32 :: "i64 \<Rightarrow> u8 list \<Rightarrow> nat \<Rightarrow> u8 list" where
  "grow_u32 growth buf p = put_u32 buf p (ucast ((ucast (u32_at buf p) :: i64) + growth))"

definition grow_section :: "nat \<Rightarrow> debug_layout \<Rightarrow> i64 \<Rightarrow> u8 list \<Rightarrow> u8 list" where
  "grow_section section l growth buf =
     fold (\<lambda>i b. grow_u32 growth b (section + 12 + i * 4)) [0..<(if dl_has_lexical_regions l then 3 else 0)]
       (grow_u32 growth buf (section + unat (dl_header_size l) - 4))"

definition grow_slots :: "(u32 \<times> offsets_slot) list \<Rightarrow> u32 \<Rightarrow> i64 \<Rightarrow> u8 list \<Rightarrow> u8 list" where
  "grow_slots slots target growth buf =
     fold (\<lambda>(_, slot) b. if target < os_stream slot
         then put_u32 b (os_at slot) (ucast ((ucast (os_stream slot) :: i64) + growth)) else b) slots buf"

definition data_counts :: "u8 list \<Rightarrow> nat \<Rightarrow> (u32 \<times> u32 \<times> u32) result" where
  "data_counts buf section =
     res_bind (rd_bind read_u32 (\<lambda>a. rd_bind read_u32 (\<lambda>b. rd_bind read_u32 (\<lambda>c. rd_ret (a, b, c))))
        (new_reader (drop section buf))) (\<lambda>(counts, _). Inr counts)"

definition reloc_data_start :: "nat \<Rightarrow> debug_layout \<Rightarrow> u32 \<times> u32 \<times> u32 \<Rightarrow> nat" where
  "reloc_data_start section l counts =
     (case counts of (filename_count, filename_storage, file_regions) \<Rightarrow>
        section + unat (dl_header_size l) + unat filename_count * 8 + unat filename_storage + unat file_regions * 12)"

definition rewrite_delta ::
  "u8 list \<Rightarrow> nat \<Rightarrow> debug_layout \<Rightarrow> (u32 \<times> offsets_slot) list \<Rightarrow> u32 \<Rightarrow> entry_delta \<Rightarrow> i64 \<Rightarrow> u8 list result" where
  "rewrite_delta buf section l slots target entry delta =
     res_bind (read_sleb128 (new_reader (drop (ed_at entry) buf))) (\<lambda>(old, _).
     let encoded = encode_sleb128 (old + delta);
         growth = of_nat (length encoded) - of_nat (ed_len entry) :: i64;
         buf = splice_at buf (ed_at entry) (ed_at entry + ed_len entry) encoded in
     Inr (if growth \<noteq> 0 then grow_slots slots target growth (grow_section section l growth buf) else buf))"

definition relocate_locations_for_insertion ::
  "bytecode_file \<Rightarrow> u8 list \<Rightarrow> u32 \<Rightarrow> u32 \<Rightarrow> i64 \<Rightarrow> u8 list result" where
  "relocate_locations_for_insertion file buf fid insert_at delta =
     (if delta = 0 then Inr buf
      else case debug_layout_for_version (version (bf_header file)) of
        None \<Rightarrow> Inl (Write ''cannot relocate debug info at bytecode version {}: its debug layout is not modelled. Pass --allow-stale-debug-info to proceed and discard this function's line numbers.'' [fword (version (bf_header file))])
      | Some l \<Rightarrow>
          let section = unat (debug_info_offset (bf_header file)) in
          if section = 0 \<or> length buf \<le> section then Inr buf
          else
            res_bind (data_counts buf section) (\<lambda>counts.
            let slots = source_location_slots buf (bf_function_headers file) in
            case find (\<lambda>(id, _). id = fid) slots of
              None \<Rightarrow> Inr buf
            | Some (_, target) \<Rightarrow>
                res_bind (scan_stream buf (reloc_data_start section l counts + unat (os_stream target)) (dl_stream l)) (\<lambda>entries.
                case find (\<lambda>e. int (unat insert_at) \<le> sint (ed_address e)) entries of
                  None \<Rightarrow> Inr buf
                | Some entry \<Rightarrow> rewrite_delta buf section l slots (os_stream target) entry delta)))"

section \<open>Streams of entries\<close>

text \<open>An entry as an emitter writes it: its address delta and the bytes after it.\<close>

definition entry_bytes :: "('i \<Rightarrow> i64) \<Rightarrow> ('i \<Rightarrow> u8 list) \<Rightarrow> 'i \<Rightarrow> u8 list" where
  "entry_bytes delta_of tail_of i = encode_sleb128 (delta_of i) @ tail_of i"

primrec entries_from ::
  "('i \<Rightarrow> i64) \<Rightarrow> ('i \<Rightarrow> u8 list) \<Rightarrow> nat \<Rightarrow> i64 \<Rightarrow> 'i list \<Rightarrow> entry_delta list" where
  "entries_from delta_of tail_of p a [] = []"
| "entries_from delta_of tail_of p a (i # is) =
     \<lparr>ed_at = p, ed_len = length (encode_sleb128 (delta_of i)), ed_address = a + delta_of i\<rparr>
       # entries_from delta_of tail_of (p + length (entry_bytes delta_of tail_of i)) (a + delta_of i) is"

text \<open>The stream with the delta of the first entry at or past an address increased.\<close>

primrec shift_first ::
  "('i \<Rightarrow> i64) \<Rightarrow> (i64 \<Rightarrow> 'i \<Rightarrow> 'i) \<Rightarrow> int \<Rightarrow> i64 \<Rightarrow> i64 \<Rightarrow> 'i list \<Rightarrow> 'i list" where
  "shift_first delta_of with_delta at d a [] = []"
| "shift_first delta_of with_delta at d a (i # is) =
     (if at \<le> sint (a + delta_of i) then with_delta (delta_of i + d) i # is
      else i # shift_first delta_of with_delta at d (a + delta_of i) is)"

text \<open>What the scan needs of an encoding: the code skips exactly the bytes after a delta, and the
  delta can be replaced without touching them.\<close>

locale entry_stream =
  fixes enc :: stream_encoding and delta_of :: "'i \<Rightarrow> i64" and with_delta :: "i64 \<Rightarrow> 'i \<Rightarrow> 'i"
    and tail_of :: "'i \<Rightarrow> u8 list" and ok :: "'i \<Rightarrow> bool"
  assumes skips: "\<lbrakk>ok i; length pre + length (tail_of i @ rest) \<le> usize_max\<rbrakk>
      \<Longrightarrow> skip_entry enc (reader_at pre (tail_of i @ rest)) = Inr ((), reader_at (pre @ tail_of i) rest)"
    and not_end: "ok i \<Longrightarrow> delta_of i \<noteq> - 1"
    and delta_with [simp]: "delta_of (with_delta d i) = d"
    and tail_with [simp]: "tail_of (with_delta d i) = tail_of i"
begin

lemma scan_items:
  assumes "list_all ok items"
    and "length pre + length (concat (map (entry_bytes delta_of tail_of) items) @ encode_sleb128 (- 1) @ rest) \<le> usize_max"
  shows "scan_loop enc start a (reader_at pre (concat (map (entry_bytes delta_of tail_of) items) @ encode_sleb128 (- 1) @ rest)) =
    Inr (entries_from delta_of tail_of (start + length pre) a items)"
  using assms
proof (induction items arbitrary: pre a)
  case Nil
  then show ?case
    using sleb.get_at[OF TrueI, of pre "- 1" rest] by (simp add: scan_loop.simps[of _ _ a])
next
  case (Cons i items)
  let ?tail = "concat (map (entry_bytes delta_of tail_of) items) @ encode_sleb128 (- 1) @ rest"
  let ?pre = "pre @ encode_sleb128 (delta_of i)"
  have "read_sleb128 (reader_at pre (encode_sleb128 (delta_of i) @ tail_of i @ ?tail)) =
      Inr (delta_of i, reader_at ?pre (tail_of i @ ?tail))"
    by (rule sleb.get_at) (use Cons.prems(2) in \<open>simp_all add: entry_bytes_def[of _ _ i]\<close>)
  moreover have "skip_entry enc (reader_at ?pre (tail_of i @ ?tail)) = Inr ((), reader_at (?pre @ tail_of i) ?tail)"
    by (rule skips) (use Cons.prems in \<open>simp_all add: entry_bytes_def[of _ _ i]\<close>)
  moreover have "scan_loop enc start (a + delta_of i) (reader_at (?pre @ tail_of i) ?tail) =
      Inr (entries_from delta_of tail_of (start + length (?pre @ tail_of i)) (a + delta_of i) items)"
    by (rule Cons.IH) (use Cons.prems in \<open>simp_all add: entry_bytes_def[of _ _ i]\<close>)
  moreover have "delta_of i \<noteq> - 1" using Cons.prems(1) not_end by simp
  ultimately show ?case
    by (simp add: scan_loop.simps[of _ _ a] entry_bytes_def[of _ _ i] add.assoc)
qed

lemma find_entry:
  "find (\<lambda>e. at \<le> sint (ed_address e)) (entries_from delta_of tail_of p a items) = None \<Longrightarrow>
     shift_first delta_of with_delta at d a items = items"
  "find (\<lambda>e. at \<le> sint (ed_address e)) (entries_from delta_of tail_of p a items) = Some e \<Longrightarrow>
     \<exists>xs y zs. items = xs @ y # zs \<and> ed_at e = p + length (concat (map (entry_bytes delta_of tail_of) xs))
       \<and> ed_len e = length (encode_sleb128 (delta_of y))
       \<and> shift_first delta_of with_delta at d a items = xs @ with_delta (delta_of y + d) y # zs"
proof (induction items arbitrary: p a)
  case (Cons i items)
  { case 1 then show ?case using Cons.IH(1) by (simp split: if_splits) }
  { case 2
    show ?case
    proof (cases "at \<le> sint (a + delta_of i)")
      case True
      with 2 show ?thesis by (intro exI[of _ "[]"] exI[of _ i] exI[of _ items]) auto
    next
      case False
      with 2 Cons.IH(2) obtain xs y zs where "items = xs @ y # zs"
        "ed_at e = p + length (entry_bytes delta_of tail_of i) + length (concat (map (entry_bytes delta_of tail_of) xs))"
        "ed_len e = length (encode_sleb128 (delta_of y))"
        "shift_first delta_of with_delta at d (a + delta_of i) items = xs @ with_delta (delta_of y + d) y # zs"
        by auto blast
      with False show ?thesis by (intro exI[of _ "i # xs"] exI[of _ y] exI[of _ zs]) simp
    qed }
qed simp_all

text \<open>The scan of a stream, and the stream after the delta of the entry it found is rewritten.\<close>

lemma scan_emitted:
  assumes "list_all ok items" and "length vs = prologue_fields enc"
    and buf: "buf = pre @ concat (map encode_sleb128 vs) @ concat (map (entry_bytes delta_of tail_of) items) @ encode_sleb128 (- 1) @ rest"
    and "length buf \<le> usize_max"
  shows "scan_stream buf (length pre) enc =
    Inr (entries_from delta_of tail_of (length pre + length (concat (map encode_sleb128 vs))) 0 items)"
proof -
  let ?tail = "concat (map (entry_bytes delta_of tail_of) items) @ encode_sleb128 (- 1) @ rest"
  let ?r = "reader_at [] (concat (map encode_sleb128 vs) @ ?tail)"
  have "rd_repeat (prologue_fields enc) read_sleb128 ?r = Inr (vs, advance (length (concat (map encode_sleb128 vs))) ?r)"
    using sleb.get_put_list[of vs ?r ?tail] assms(2,4) by (simp add: buf in_memory_def list_all_length)
  moreover have "advance (length (concat (map encode_sleb128 vs))) ?r = reader_at (concat (map encode_sleb128 vs)) ?tail"
    using advance_reader_at[of "concat (map encode_sleb128 vs)" "length (concat (map encode_sleb128 vs))" "[]" ?tail] by simp
  moreover have "scan_loop enc (length pre) 0 (reader_at (concat (map encode_sleb128 vs)) ?tail) =
      Inr (entries_from delta_of tail_of (length pre + length (concat (map encode_sleb128 vs))) 0 items)"
    using assms(4) by (intro scan_items assms(1)) (simp add: buf)
  ultimately show ?thesis by (simp add: scan_stream_def buf new_reader_at)
qed

lemma rewrite_emitted:
  assumes buf: "buf = pre @ concat (map (entry_bytes delta_of tail_of) (xs @ y # zs)) @ rest" and "length buf \<le> usize_max"
    and at: "p = length pre + length (concat (map (entry_bytes delta_of tail_of) xs))"
  shows "read_sleb128 (new_reader (drop p buf)) = Inr (delta_of y, \<lparr>data = drop p buf, pos = length (encode_sleb128 (delta_of y))\<rparr>)"
    and "splice_at buf p (p + length (encode_sleb128 (delta_of y))) (encode_sleb128 d) =
      pre @ concat (map (entry_bytes delta_of tail_of) (xs @ with_delta d y # zs)) @ rest"
proof -
  let ?xs = "concat (map (entry_bytes delta_of tail_of) xs)" and ?zs = "concat (map (entry_bytes delta_of tail_of) zs)"
  have b: "buf = (pre @ ?xs) @ encode_sleb128 (delta_of y) @ tail_of y @ ?zs @ rest"
    by (simp add: buf entry_bytes_def[of _ _ y])
  have "drop p buf = encode_sleb128 (delta_of y) @ tail_of y @ ?zs @ rest" unfolding b at by simp
  with sleb.get_new[OF TrueI, of "delta_of y" "tail_of y @ ?zs @ rest"] assms(2)
  show "read_sleb128 (new_reader (drop p buf)) = Inr (delta_of y, \<lparr>data = drop p buf, pos = length (encode_sleb128 (delta_of y))\<rparr>)"
    by (simp add: b)
  show "splice_at buf p (p + length (encode_sleb128 (delta_of y))) (encode_sleb128 d) =
      pre @ concat (map (entry_bytes delta_of tail_of) (xs @ with_delta d y # zs)) @ rest"
    unfolding b at by (simp add: splice_at_def entry_bytes_def[of _ _ "with_delta d y"])
qed

end

section \<open>The fields that describe the debug data\<close>

lemma slot_facts:
  assumes "(n, s) \<in> set (source_location_slots bytes headers)"
  shows "os_at s mod 4 = 0" "os_at s + 4 \<le> length bytes" "os_stream s = u32_at bytes (os_at s)"
proof -
  from assms obtain fh where "source_location_slot bytes fh = Some (n, s)"
    by (auto simp: source_location_slots_def List.map_filter_def split: option.splits)
  then show "os_at s mod 4 = 0" "os_at s + 4 \<le> length bytes" "os_stream s = u32_at bytes (os_at s)"
    by (auto simp: source_location_slot_def debug_offsets_pos_def align_up4_def u32_slice_at Let_def
        split: if_splits option.splits)
qed

lemma drop_put_u32: "p + 4 \<le> m \<Longrightarrow> m \<le> length b \<Longrightarrow> drop m (put_u32 b p v) = drop m b"
  by (simp add: put_u32_def put_at_def)

lemma grow_section_facts:
  assumes "s + unat (dl_header_size l) \<le> m" "m \<le> length b" "debug_layout_for_version v = Some l"
  shows "length (grow_section s l g b) = length b" "drop m (grow_section s l g b) = drop m b"
    and "q + 4 \<le> s \<Longrightarrow> u32_at (grow_section s l g b) q = u32_at b q"
    and "i < 3 \<Longrightarrow> u32_at (grow_section s l g b) (s + i * 4) = u32_at b (s + i * 4)"
proof -
  have "unat (dl_header_size l) = 28 \<and> dl_has_lexical_regions l \<or> unat (dl_header_size l) = 16 \<and> \<not> dl_has_lexical_regions l"
    using assms(3) by (auto simp: debug_layout_for_version_def split: if_splits)
  then show "length (grow_section s l g b) = length b" "drop m (grow_section s l g b) = drop m b"
    "q + 4 \<le> s \<Longrightarrow> u32_at (grow_section s l g b) q = u32_at b q"
    "i < 3 \<Longrightarrow> u32_at (grow_section s l g b) (s + i * 4) = u32_at b (s + i * 4)"
    using assms(1,2) by (auto simp: grow_section_def grow_u32_def drop_put_u32 u32_at_put_other upt_rec)
qed

definition grow_slot :: "u32 \<Rightarrow> i64 \<Rightarrow> offsets_slot \<Rightarrow> u8 list \<Rightarrow> u8 list" where
  "grow_slot target g s b =
     (if target < os_stream s then put_u32 b (os_at s) (ucast ((ucast (os_stream s) :: i64) + g)) else b)"

lemma grow_slots_simps:
  "grow_slots [] target g b = b"
  "grow_slots ((n, s) # slots) target g b = grow_slots slots target g (grow_slot target g s b)"
  by (simp_all add: grow_slots_def grow_slot_def)

lemma grow_slot_facts:
  assumes "os_at s + 4 \<le> m" "m \<le> length b"
  shows "length (grow_slot target g s b) = length b" "drop m (grow_slot target g s b) = drop m b"
    and "os_at s mod 4 = 0 \<Longrightarrow> q mod 4 = 0 \<Longrightarrow> q + 4 \<le> m \<Longrightarrow> q \<noteq> os_at s \<Longrightarrow> u32_at (grow_slot target g s b) q = u32_at b q"
    and "u32_at (grow_slot target g s b) (os_at s) =
      (if target < os_stream s then ucast ((ucast (os_stream s) :: i64) + g) else u32_at b (os_at s))"
proof -
  have "q + 4 \<le> p \<or> p + 4 \<le> q" if "q mod 4 = 0" "p mod 4 = 0" "q \<noteq> p" for p q :: nat
    using that by presburger
  then show "os_at s mod 4 = 0 \<Longrightarrow> q mod 4 = 0 \<Longrightarrow> q + 4 \<le> m \<Longrightarrow> q \<noteq> os_at s \<Longrightarrow> u32_at (grow_slot target g s b) q = u32_at b q"
    using assms by (simp add: grow_slot_def u32_at_put_other)
qed (use assms in \<open>simp_all add: grow_slot_def drop_put_u32 u32_at_put_same\<close>)

lemma grow_slots_keep:
  assumes "\<forall>(n, s) \<in> set slots. os_at s mod 4 = 0 \<and> os_at s + 4 \<le> m" and "m \<le> length b"
  shows "length (grow_slots slots target g b) = length b" "drop m (grow_slots slots target g b) = drop m b"
    and "q mod 4 = 0 \<Longrightarrow> q + 4 \<le> m \<Longrightarrow> \<forall>(n, s) \<in> set slots. q \<noteq> os_at s \<Longrightarrow>
      u32_at (grow_slots slots target g b) q = u32_at b q"
proof -
  have "length (grow_slots slots target g b) = length b \<and> drop m (grow_slots slots target g b) = drop m b
      \<and> (q mod 4 = 0 \<and> q + 4 \<le> m \<and> (\<forall>(n, s) \<in> set slots. q \<noteq> os_at s) \<longrightarrow>
          u32_at (grow_slots slots target g b) q = u32_at b q)"
    using assms
  proof (induction slots arbitrary: b)
    case (Cons x slots)
    obtain n s where x: "x = (n, s)" by (cases x)
    with Cons.prems have s: "os_at s mod 4 = 0" "os_at s + 4 \<le> m" "m \<le> length b" by simp_all
    note p = grow_slot_facts[OF s(2,3)]
    have "m \<le> length (grow_slot target g s b)" using p(1) s(3) by simp
    with Cons.IH[of "grow_slot target g s b"] Cons.prems(1) p s(1) show ?case unfolding x grow_slots_simps by auto
  qed (simp add: grow_slots_simps)
  then show "length (grow_slots slots target g b) = length b" "drop m (grow_slots slots target g b) = drop m b"
    "q mod 4 = 0 \<Longrightarrow> q + 4 \<le> m \<Longrightarrow> \<forall>(n, s) \<in> set slots. q \<noteq> os_at s \<Longrightarrow>
      u32_at (grow_slots slots target g b) q = u32_at b q" by simp_all
qed

lemma grow_slots_at:
  assumes "\<forall>(n, s) \<in> set slots. os_at s mod 4 = 0 \<and> os_at s + 4 \<le> m" and "m \<le> length b"
    and "distinct (map (\<lambda>(n, s). os_at s) slots)" "(n, s) \<in> set slots"
  shows "u32_at (grow_slots slots target g b) (os_at s) =
        (if target < os_stream s then ucast ((ucast (os_stream s) :: i64) + g) else u32_at b (os_at s))"
  using assms
proof (induction slots arbitrary: b)
  case (Cons x slots)
  obtain k t where x: "x = (k, t)" by (cases x)
  with Cons.prems have t: "os_at t mod 4 = 0" "os_at t + 4 \<le> m" "m \<le> length b" by simp_all
  note p = grow_slot_facts[OF t(2,3), where target = target and g = g]
  have len: "m \<le> length (grow_slot target g t b)" using p(1) t(3) by simp
  have rest: "\<forall>(n, s) \<in> set slots. os_at s mod 4 = 0 \<and> os_at s + 4 \<le> m" "distinct (map (\<lambda>(n, s). os_at s) slots)"
    "\<forall>(n, s) \<in> set slots. os_at t \<noteq> os_at s"
    using Cons.prems(1,3) by (auto simp: x)
  show ?case
  proof (cases "(n, s) = (k, t)")
    case True
    with grow_slots_keep(3)[OF rest(1) len t(1,2) rest(3)] p(4) show ?thesis by (simp add: x grow_slots_simps)
  next
    case False
    with Cons.prems(4) have s: "(n, s) \<in> set slots" by (auto simp: x)
    with rest(1,3) have "os_at s mod 4 = 0" "os_at s + 4 \<le> m" "os_at s \<noteq> os_at t" by auto
    with Cons.IH[OF rest(1) len rest(2) s] p(3)[OF t(1)] show ?thesis by (simp add: x grow_slots_simps)
  qed
qed simp

lemma data_counts_iff:
  assumes "length buf \<le> usize_max"
  shows "data_counts buf s = Inr counts \<longleftrightarrow>
     s + 12 \<le> length buf \<and> counts = (u32_at buf s, u32_at buf (s + 4), u32_at buf (s + 8))"
proof -
  have read: "read_u32 r = Inr (x, r') \<longleftrightarrow> pos r + 4 \<le> length (data r) \<and> x = u32_at (data r) (pos r) \<and> r' = advance 4 r"
    if "length (data r) \<le> usize_max" for r x r'
  proof
    assume "pos r + 4 \<le> length (data r) \<and> x = u32_at (data r) (pos r) \<and> r' = advance 4 r"
    then show "read_u32 r = Inr (x, r')"
      using that by (simp add: read_u32_def rd_map_def rd_bind_def read_exact_eq in_memory_def ahead_def u32_at_def get_at_def)
  qed (auto dest: read_u32_at_pos)
  have at: "u32_at (drop s buf) k = u32_at buf (s + k)" for k
    by (simp add: u32_at_def get_at_def add.commute)
  show ?thesis
    using assms by (auto simp: data_counts_def res_bind_Inr_iff rd_bind_Inr_iff read new_reader_def advance_def at rd_ret_def)
qed

lemma u32_at_drop: "drop s b = drop s c \<Longrightarrow> u32_at b (s + k) = u32_at c (s + k)"
  by (simp add: u32_at_def get_at_def add.commute flip: drop_drop)

lemma drop_same_suffix:
  "x = u @ r \<Longrightarrow> y = v @ r \<Longrightarrow> p + length y = q + length x \<Longrightarrow> length y \<le> q + length r \<Longrightarrow> drop p x = drop q y"
  by (simp, rule arg_cong[of _ _ "\<lambda>k. drop k r"], simp)

lemma grown_offset:
  assumes "unat (x :: u32) + m < 2 ^ 32" "n \<le> unat x" "n < 2 ^ 32" "m < 2 ^ 32"
  shows "unat (ucast ((ucast x :: i64) + (of_nat m - of_nat n)) :: u32) = unat x + m - n"
proof -
  have eq: "(ucast x :: i64) + (of_nat m - of_nat n) = of_nat (unat x + m - n)"
    using assms(2) by (simp add: of_nat_diff)
  have "ucast (of_nat (unat x + m - n) :: i64) = (of_nat (unat x + m - n) :: u32)"
    by (rule bit_word_eqI) (simp add: bit_simps)
  then show ?thesis unfolding eq using assms(1) by (simp only:) (rule unat_of_nat_less, simp)
qed

section \<open>The relocated image\<close>

context entry_stream
begin

lemma relocated_image:
  assumes layout: "debug_layout_for_version (version (bf_header file)) = Some l" "dl_stream l = enc"
    and sec: "s = unat (debug_info_offset (bf_header file))" "0 < s"
    and counts: "data_counts buf s = Inr counts" "base = reloc_data_start s l counts"
    and slots: "slots = source_location_slots buf (bf_function_headers file)"
    and slot: "find (\<lambda>(n, _). n = fid) slots = Some (k, slot)"
    and early: "\<forall>(n, t) \<in> set slots. os_at t + 4 \<le> s" "distinct (map (\<lambda>(n, t). os_at t) slots)"
    and buf: "buf = pre @ concat (map encode_sleb128 vs) @ concat (map (entry_bytes delta_of tail_of) items) @ encode_sleb128 (- 1) @ rest"
    and place: "length pre = base + unat (os_stream slot)" "length vs = prologue_fields enc"
    and ok: "list_all ok items" and size: "length buf + 10 < 2 ^ 32" and "delta \<noteq> 0"
  shows "\<exists>out pre'. relocate_locations_for_insertion file buf fid insert_at delta = Inr out
    \<and> out = pre' @ concat (map encode_sleb128 vs)
          @ concat (map (entry_bytes delta_of tail_of) (shift_first delta_of with_delta (int (unat insert_at)) delta 0 items))
          @ encode_sleb128 (- 1) @ rest
    \<and> length pre' = length pre \<and> length out \<le> length buf + 10 \<and> data_counts out s = Inr counts
    \<and> (\<forall>(n, t) \<in> set slots. (os_stream t \<le> os_stream slot \<longrightarrow> u32_at out (os_at t) = os_stream t)
        \<and> (length buf \<le> base + unat (os_stream t) + length rest \<and> base + unat (os_stream t) \<le> length buf \<longrightarrow>
            drop (base + unat (u32_at out (os_at t))) out = drop (base + unat (os_stream t)) buf))"
proof -
  let ?bytes = "\<lambda>is. concat (map (entry_bytes delta_of tail_of) is)" and ?vs = "concat (map encode_sleb128 vs)"
  let ?tail = "encode_sleb128 (- 1) @ rest"
  let ?es = "entries_from delta_of tail_of (length pre + length ?vs) 0 items"
  let ?find = "find (\<lambda>e. int (unat insert_at) \<le> sint (ed_address e)) ?es"
  have mem: "length buf \<le> usize_max" using size by (simp add: usize_max_def)
  have cnt: "s + 12 \<le> length buf" "counts = (u32_at buf s, u32_at buf (s + 4), u32_at buf (s + 8))"
    using counts(1) by (simp_all add: data_counts_iff[OF mem])
  have base: "s + unat (dl_header_size l) \<le> base" using counts(2) by (simp add: reloc_data_start_def split: prod.splits)
  have lay: "unat (dl_header_size l) = 28 \<or> unat (dl_header_size l) = 16"
    using layout(1) by (auto simp: debug_layout_for_version_def split: if_splits)
  then have hdr: "s + 16 \<le> length pre" "s + unat (dl_header_size l) \<le> length pre" using base place(1) by auto
  have scan: "scan_stream buf (base + unat (os_stream slot)) enc = Inr ?es"
    using scan_emitted[OF ok place(2) buf mem] place(1) by simp
  have reloc: "relocate_locations_for_insertion file buf fid insert_at delta =
      (case ?find of None \<Rightarrow> Inr buf | Some e \<Rightarrow> rewrite_delta buf s l slots (os_stream slot) e delta)"
    unfolding relocate_locations_for_insertion_def Let_def sec(1)[symmetric] slots[symmetric]
    using layout sec(2) slot counts scan \<open>delta \<noteq> 0\<close> cnt(1) by simp
  have slot_ok: "os_at t mod 4 = 0" "os_at t + 4 \<le> s" "os_stream t = u32_at buf (os_at t)" if "(n, t) \<in> set slots" for n t
    using slot_facts[of n t buf "bf_function_headers file"] early(1) that slots by auto
  have keep: "u32_at b q = u32_at buf q" if "take (length pre) b = pre" "q + 4 \<le> length pre" for b q
  proof -
    have t: "get_at 4 x q = get_at 4 (take (length pre) x) q" for x :: "u8 list"
      using that(2) by (simp add: get_at_def drop_take min_def)
    have "take (length pre) buf = pre" by (simp add: buf)
    with that(1) t[of b] t[of buf] show ?thesis by (simp add: u32_at_def)
  qed
  show ?thesis
  proof (cases ?find)
    case None
    have "(\<forall>(n, t) \<in> set slots. (os_stream t \<le> os_stream slot \<longrightarrow> u32_at buf (os_at t) = os_stream t)
        \<and> (length buf \<le> base + unat (os_stream t) + length rest \<and> base + unat (os_stream t) \<le> length buf \<longrightarrow>
            drop (base + unat (u32_at buf (os_at t))) buf = drop (base + unat (os_stream t)) buf))"
      using slot_ok(3) by auto
    moreover have "relocate_locations_for_insertion file buf fid insert_at delta = Inr buf" unfolding reloc None by simp
    ultimately show ?thesis
      using counts(1) buf unfolding find_entry(1)[OF None, of delta] by (intro exI[of _ buf] exI[of _ pre] conjI) simp_all
  next
    case (Some e)
    from find_entry(2)[OF Some, of delta] obtain xs y zs where items: "items = xs @ y # zs"
      and at: "ed_at e = length pre + length ?vs + length (?bytes xs)" "ed_len e = length (encode_sleb128 (delta_of y))"
      and shifted: "shift_first delta_of with_delta (int (unat insert_at)) delta 0 items = xs @ with_delta (delta_of y + delta) y # zs"
      by blast
    let ?old = "encode_sleb128 (delta_of y)" and ?new = "encode_sleb128 (delta_of y + delta)"
    let ?g = "of_nat (length ?new) - of_nat (length ?old) :: i64"
    define img where "img = pre @ ?vs @ ?bytes (xs @ with_delta (delta_of y + delta) y # zs) @ ?tail"
    have b: "buf = (pre @ ?vs) @ ?bytes (xs @ y # zs) @ ?tail" by (simp add: buf items)
    note rw = rewrite_emitted[OF b mem, of "ed_at e"]
    have spliced: "splice_at buf (ed_at e) (ed_at e + ed_len e) ?new = img"
      using rw(2)[of "delta_of y + delta"] at by (simp add: img_def)
    define out where "out = (if ?g \<noteq> 0 then grow_slots slots (os_stream slot) ?g (grow_section s l ?g img) else img)"
    have out: "relocate_locations_for_insertion file buf fid insert_at delta = Inr out"
      unfolding reloc Some option.case using rw(1) at spliced by (simp add: rewrite_delta_def out_def Let_def)
    have short: "length ?old \<le> 10" "length ?new \<le> 10" by (rule encode_sleb128_length)+
    have m: "length pre \<le> length img" by (simp add: img_def)
    note sec_facts = grow_section_facts[OF hdr(2) m layout(1), where g = ?g]
    have aligned: "\<forall>(n, t) \<in> set slots. os_at t mod 4 = 0 \<and> os_at t + 4 \<le> s" using slot_ok by blast
    have m': "s \<le> length (grow_section s l ?g img)" using sec_facts(1) m hdr(1) by simp
    note slot_facts = grow_slots_keep[OF aligned m', where target = "os_stream slot" and g = ?g]
    have lens: "length out = length img" "drop (length pre) out = drop (length pre) img"
      "drop s (if ?g \<noteq> 0 then out else grow_section s l ?g img) = drop s (grow_section s l ?g img)"
    proof -
      have "drop (length pre) (grow_slots slots (os_stream slot) ?g (grow_section s l ?g img)) = drop (length pre) img"
        using arg_cong[OF slot_facts(2), of "drop (length pre - s)"] sec_facts(2) hdr(1) by simp
      then show "length out = length img" "drop (length pre) out = drop (length pre) img"
        "drop s (if ?g \<noteq> 0 then out else grow_section s l ?g img) = drop s (grow_section s l ?g img)"
        using slot_facts(1,2) sec_facts(1) by (simp_all add: out_def)
    qed
    have "take (length pre) img = pre" by (simp add: img_def)
    note keep = keep[OF this]
    have three: "u32_at out (s + k * 4) = u32_at buf (s + k * 4)" if "k < 3" for k
    proof -
      have "u32_at out (s + k * 4) = u32_at img (s + k * 4)"
        using u32_at_drop[OF lens(3), of "k * 4"] sec_facts(4)[OF that] by (auto simp: out_def split: if_splits)
      with keep that hdr(1) show ?thesis by simp
    qed
    have "s + 12 \<le> length out" using lens(1) m hdr(1) by simp
    moreover have "length out \<le> usize_max"
    proof -
      have "length img = length buf + length ?new - length ?old" by (simp add: img_def b entry_bytes_def[of _ _ y] entry_bytes_def[of _ _ "with_delta _ y"])
      then show ?thesis using lens(1) size short by (simp add: usize_max_def)
    qed
    ultimately have dc: "data_counts out s = Inr counts"
      using three[of 0] three[of 1] three[of 2] cnt by (simp add: data_counts_iff)
    have imglen: "length img + length ?old = length buf + length ?new"
      by (simp add: img_def b entry_bytes_def[of _ _ y] entry_bytes_def[of _ _ "with_delta _ y"])
    have at_slot: "u32_at out (os_at t) =
        (if ?g \<noteq> 0 \<and> os_stream slot < os_stream t then ucast ((ucast (os_stream t) :: i64) + ?g) else os_stream t)"
      if "(n, t) \<in> set slots" for n t
    proof -
      note t = slot_ok[OF that]
      have "u32_at (grow_section s l ?g img) (os_at t) = os_stream t"
        using sec_facts(3)[OF t(2)] keep[of "os_at t"] t hdr(1) by simp
      moreover have "u32_at img (os_at t) = os_stream t" using keep[of "os_at t"] t hdr(1) by simp
      ultimately show ?thesis
        using grow_slots_at[OF aligned m' early(2) that, where target = "os_stream slot" and g = ?g] by (simp add: out_def)
    qed
    have others: "(os_stream t \<le> os_stream slot \<longrightarrow> u32_at out (os_at t) = os_stream t)
        \<and> (length buf \<le> base + unat (os_stream t) + length rest \<and> base + unat (os_stream t) \<le> length buf \<longrightarrow>
            drop (base + unat (u32_at out (os_at t))) out = drop (base + unat (os_stream t)) buf)"
      if "(n, t) \<in> set slots" for n t
    proof (intro conjI impI)
      show "u32_at out (os_at t) = os_stream t" if "os_stream t \<le> os_stream slot"
        using at_slot[OF \<open>(n, t) \<in> set slots\<close>] that by (auto simp: not_less[symmetric])
      assume past: "length buf \<le> base + unat (os_stream t) + length rest \<and> base + unat (os_stream t) \<le> length buf"
      let ?p = "base + unat (os_stream t)"
      have long: "length pre + length ?old + length rest \<le> length buf" by (simp add: b entry_bytes_def[of _ _ y])
      have "length ?old > 0" using encode_sleb128_nonempty by simp
      with long past place(1) have after: "os_stream slot < os_stream t" "length ?old \<le> unat (os_stream t)"
        unfolding word_less_nat_alt by linarith+
      have new: "base + unat (u32_at out (os_at t)) + length ?old = ?p + length ?new"
      proof (cases "?g = 0")
        case True
        then have "length ?new = length ?old" using short by (auto simp: of_nat_eq_iff word_of_nat_eq_iff take_bit_nat_eq_self)
        with True at_slot[OF that] show ?thesis by simp
      next
        case False
        have "unat (u32_at out (os_at t)) = unat (os_stream t) + length ?new - length ?old"
          unfolding at_slot[OF that] using False after past size short by (simp add: grown_offset)
        with after(2) show ?thesis by simp
      qed
      have "drop (base + unat (u32_at out (os_at t))) out = drop (base + unat (u32_at out (os_at t))) img"
      proof -
        have "length pre \<le> base + unat (u32_at out (os_at t))" using new long past place(1) by simp
        then show ?thesis using lens(2) by (metis drop_drop le_add_diff_inverse2)
      qed
      also have "\<dots> = drop ?p buf"
      proof (rule drop_same_suffix)
        show "img = (pre @ ?vs @ ?bytes (xs @ with_delta (delta_of y + delta) y # zs) @ encode_sleb128 (- 1)) @ rest"
          by (simp add: img_def)
        show "buf = (pre @ ?vs @ ?bytes items @ encode_sleb128 (- 1)) @ rest" by (simp add: buf)
        show "base + unat (u32_at out (os_at t)) + length buf = ?p + length img" using new imglen by simp
        show "length buf \<le> ?p + length rest" using past by simp
      qed
      finally show "drop (base + unat (u32_at out (os_at t))) out = drop ?p buf" .
    qed
    have "out = take (length pre) out @ drop (length pre) img" using lens(2) by (metis append_take_drop_id)
    also have "drop (length pre) img = ?vs @ ?bytes (xs @ with_delta (delta_of y + delta) y # zs) @ ?tail" by (simp add: img_def)
    finally show ?thesis
      using out dc others m lens(1) imglen short unfolding shifted by (intro exI[of _ out] exI[of _ "take (length pre) out"]) auto
  qed
qed

end

section \<open>Decoding the relocated stream\<close>

definition shift_location :: "u32 \<Rightarrow> i64 \<Rightarrow> source_location \<Rightarrow> source_location" where
  "shift_location at d loc =
     (if at \<le> sl_bytecode_offset loc then loc\<lparr>sl_bytecode_offset := sl_bytecode_offset loc + ucast d\<rparr> else loc)"

text \<open>Addresses that only grow and stay in 31 bits, also when shifted.\<close>

fun ascending :: "i64 list \<Rightarrow> int \<Rightarrow> bool" where
  "ascending [] n \<longleftrightarrow> n < 2 ^ 31"
| "ascending (d # ds) n \<longleftrightarrow> 0 \<le> sint d \<and> ascending ds (n + sint d)"

lemma ascending_bound: "ascending ds n \<Longrightarrow> n < 2 ^ 31"
  by (induction ds arbitrary: n) (auto, fastforce)

lemma sint_sum:
  assumes "0 \<le> sint a" "0 \<le> sint (d :: i64)" "sint a + sint d < 2 ^ 31"
  shows "sint (a + d) = sint a + sint d"
  unfolding sint_word_add using assms by (intro signed_take_bit_int_eq_self) auto

lemma uint_nonneg:
  assumes "0 \<le> sint (w :: i64)"
  shows "uint w = sint w"
proof -
  have "uint (word_of_int (sint w) :: i64) = sint w"
    unfolding uint_word_of_int_eq using assms sint_lt[of w] by (intro take_bit_int_eq_self) auto
  then show ?thesis by simp
qed

lemma clamp_address:
  assumes "0 \<le> sint a" "sint a < 2 ^ 31"
  shows "clamp_u32 a = ucast a" "int (unat (clamp_u32 a)) = sint a"
proof -
  show c: "clamp_u32 a = ucast a" using assms(1) by (simp add: clamp_u32_def)
  have "uint (ucast a :: u32) = take_bit 32 (uint a)" by (simp add: unsigned_ucast_eq)
  with assms show "int (unat (clamp_u32 a)) = sint a" by (simp add: c uint_nonneg take_bit_int_eq_self)
qed

lemma location_shift:
  assumes "0 \<le> sint a" "0 \<le> sint d" "sint a + sint d < 2 ^ 31"
  shows "int (unat at) \<le> sint a \<Longrightarrow> location_at (a + d) l c sc = shift_location at d (location_at a l c sc)"
    and "\<not> int (unat at) \<le> sint a \<Longrightarrow> shift_location at d (location_at a l c sc) = location_at a l c sc"
proof -
  have le: "at \<le> clamp_u32 a \<longleftrightarrow> int (unat at) \<le> sint a"
    using clamp_address(2)[of a] assms by (simp add: word_le_nat_alt flip: of_nat_le_iff[where ?'a = int])
  have "clamp_u32 (a + d) = clamp_u32 a + ucast d"
  proof -
    have "ucast (a + d) = (ucast a + ucast d :: u32)"
      using sint_sum[OF assms] assms(1,2) by (simp add: ucast_eq uint_nonneg)
    then show ?thesis using clamp_address(1)[of a] clamp_address(1)[of "a + d"] sint_sum[of a d] assms by simp
  qed
  with le show "int (unat at) \<le> sint a \<Longrightarrow> location_at (a + d) l c sc = shift_location at d (location_at a l c sc)"
    and "\<not> int (unat at) \<le> sint a \<Longrightarrow> shift_location at d (location_at a l c sc) = location_at a l c sc"
    by (simp_all add: shift_location_def location_at_def)
qed

lemma ascending_step:
  assumes "ascending (x # ds) (sint a + sint d)" "0 \<le> sint d" "0 \<le> sint a"
  shows "ascending ds (sint (a + x) + sint d)" "0 \<le> sint (a + x)" "sint (a + x) + sint d < 2 ^ 31"
    and "sint (a + x) = sint a + sint x" "sint (x + d) = sint x + sint d" "0 \<le> sint x"
proof -
  have x: "0 \<le> sint x" "ascending ds (sint a + sint d + sint x)" using assms(1) by simp_all
  then have bound: "sint a + sint d + sint x < 2 ^ 31" by (intro ascending_bound)
  with x(1) assms show sum: "sint (a + x) = sint a + sint x" "sint (x + d) = sint x + sint d" by (auto intro!: sint_sum)
  with x bound assms show "ascending ds (sint (a + x) + sint d)" "0 \<le> sint (a + x)" "sint (a + x) + sint d < 2 ^ 31" "0 \<le> sint x"
    by (simp_all add: algebra_simps)
qed

text \<open>Where the debug section of a file and the stream of a function lie in an image: the info areas
  come before the section and no two functions share one.\<close>

definition debug_placed :: "bytecode_file \<Rightarrow> u8 list \<Rightarrow> u32 \<Rightarrow> debug_layout \<Rightarrow> nat \<Rightarrow> nat \<Rightarrow> offsets_slot \<Rightarrow> bool" where
  "debug_placed file buf fid l s base slot \<longleftrightarrow>
     debug_layout_for_version (version (bf_header file)) = Some l
     \<and> s = unat (debug_info_offset (bf_header file)) \<and> 0 < s
     \<and> (\<exists>counts. data_counts buf s = Inr counts \<and> base = reloc_data_start s l counts)
     \<and> (let slots = source_location_slots buf (bf_function_headers file) in
          (\<exists>k. find (\<lambda>(n, _). n = fid) slots = Some (k, slot))
          \<and> (\<forall>(n, t) \<in> set slots. os_at t + 4 \<le> s) \<and> distinct (map (\<lambda>(n, t). os_at t) slots))"

text \<open>An encoding whose decoded locations are known: the running sums of the entries.\<close>

locale located_stream = entry_stream enc delta_of with_delta tail_of ok
  for enc and delta_of :: "'i \<Rightarrow> i64" and with_delta tail_of ok +
  fixes locations :: "i64 \<Rightarrow> i64 \<Rightarrow> i64 \<Rightarrow> 'i list \<Rightarrow> source_location list"
    and line_of column_of :: "'i \<Rightarrow> i64" and scope_of :: "'i \<Rightarrow> u32 option" and located :: "'i \<Rightarrow> bool"
  assumes none [simp]: "locations a l c [] = []"
    and more: "locations a l c (i # is) =
      (if located i then [location_at (a + delta_of i) (l + line_of i) (c + column_of i) (scope_of i)] else [])
        @ locations (a + delta_of i) (l + line_of i) (c + column_of i) is"
    and kept: "line_of (with_delta d i) = line_of i" "column_of (with_delta d i) = column_of i"
      "scope_of (with_delta d i) = scope_of i" "located (with_delta d i) = located i"
    and ok_with: "ok i \<Longrightarrow> d \<noteq> - 1 \<Longrightarrow> ok (with_delta d i)"
    and decodes: "\<lbrakk>list_all ok is; length is < fuel;
        length pre + length (concat (map (entry_bytes delta_of tail_of) is) @ encode_sleb128 (- 1) @ rest) \<le> usize_max\<rbrakk>
      \<Longrightarrow> stream_loop enc fuel (reader_at pre (concat (map (entry_bytes delta_of tail_of) is) @ encode_sleb128 (- 1) @ rest)) a l c
        = locations a l c is"
begin

lemma shifted_locations:
  fixes at :: u32
  assumes "0 \<le> sint d" "0 \<le> sint a" "ascending (map delta_of items) (sint a + sint d)" "int (unat at) \<le> sint a"
  shows "locations (a + d) l c items = map (shift_location at d) (locations a l c items)"
  using assms
proof (induction items arbitrary: a l c)
  case (Cons i items)
  let ?a = "a + delta_of i"
  note st = ascending_step[OF Cons.prems(3)[unfolded list.map] Cons.prems(1,2)]
  have "locations (?a + d) (l + line_of i) (c + column_of i) items =
      map (shift_location at d) (locations ?a (l + line_of i) (c + column_of i) items)"
    using Cons.prems(1,4) st by (intro Cons.IH) simp_all
  moreover have "location_at (?a + d) l' c' sc = shift_location at d (location_at ?a l' c' sc)" for l' c' sc
    using Cons.prems(1,4) st by (intro location_shift(1)) simp_all
  moreover have "a + d + delta_of i = ?a + d" by simp
  ultimately show ?case by (simp only: more) simp
qed simp

lemma shift_first_locations:
  fixes at :: u32
  assumes "0 \<le> sint d" "0 \<le> sint a" "ascending (map delta_of items) (sint a + sint d)"
  shows "locations a l c (shift_first delta_of with_delta (int (unat at)) d a items) = map (shift_location at d) (locations a l c items)"
    and "list_all ok items \<Longrightarrow> list_all ok (shift_first delta_of with_delta (int (unat at)) d a items)"
    and "length (shift_first delta_of with_delta (int (unat at)) d a items) = length items"
  using assms
proof (induction items arbitrary: a l c)
  case (Cons i items)
  { case 1
    let ?a = "a + delta_of i"
    note f = ascending_step[OF 1(3)[unfolded list.map] 1(1,2)]
    show ?case
    proof (cases "int (unat at) \<le> sint ?a")
      case True
      have "locations (?a + d) (l + line_of i) (c + column_of i) items =
          map (shift_location at d) (locations ?a (l + line_of i) (c + column_of i) items)"
        by (rule shifted_locations[OF 1(1) f(2,1) True])
      moreover have "location_at (?a + d) l' c' sc = shift_location at d (location_at ?a l' c' sc)" for l' c' sc
        using True f 1(1) by (intro location_shift(1)) auto
      moreover have "a + (delta_of i + d) = ?a + d" by simp
      ultimately show ?thesis using True by (simp only: shift_first.simps if_True more delta_with kept) simp
    next
      case False
      have "shift_location at d (location_at ?a l' c' sc) = location_at ?a l' c' sc" for l' c' sc
        using False f 1(1) by (intro location_shift(2)) auto
      with False Cons.IH(1)[OF 1(1) f(2,1)] show ?thesis by (simp add: more)
    qed }
  { case 2
    note f = ascending_step[OF 2(4)[unfolded list.map] 2(2,3)]
    have "delta_of i + d \<noteq> - 1" using f by (metis add_nonneg_nonneg sint_n1 neg_0_le_iff_le not_one_le_zero 2(2))
    with 2 f Cons.IH(2)[OF _ 2(2) f(2,1)] show ?case by (simp add: ok_with) }
  { case 3
    note f = ascending_step[OF 3(3)[unfolded list.map] 3(1,2)]
    show ?case using Cons.IH(3)[OF 3(1) f(2,1)] by simp }
qed simp_all

lemma parse_emitted:
  assumes "list_all ok items" "length items < STREAM_GUARD" "length vs = prologue_fields enc"
    and d: "drop (unat off) d = concat (map encode_sleb128 vs) @ concat (map (entry_bytes delta_of tail_of) items) @ encode_sleb128 (- 1) @ rest"
    and "length d \<le> usize_max"
  shows "parse_location_stream d off enc = Some (location_at 0 (vs ! 1) (vs ! 2) None # locations 0 (vs ! 1) (vs ! 2) items)"
proof -
  let ?tail = "concat (map (entry_bytes delta_of tail_of) items) @ encode_sleb128 (- 1) @ rest"
  have size: "length (concat (map encode_sleb128 vs) @ ?tail) \<le> usize_max"
    using arg_cong[OF d, of length] assms(5) by simp
  have "concat (map encode_sleb128 vs) @ ?tail \<noteq> []" using encode_sleb128_nonempty by simp
  then have off: "\<not> length d < unat off" using d by (metis drop_all less_imp_le)
  have "stream_prologue enc (reader_at [] (concat (map encode_sleb128 vs) @ ?tail)) =
      Inr ((vs ! 1, vs ! 2), reader_at (concat (map encode_sleb128 vs)) ?tail)"
  proof (cases enc)
    case LegacyStream
    with assms(3) obtain a b c where "vs = [a, b, c]" by (auto simp: prologue_fields_def length_Suc_conv numeral_3_eq_3)
    with LegacyStream size show ?thesis by (simp add: stream_prologue_def sleb.bind_at skip_if_at)
  next
    case ModernStream
    with assms(3) obtain a b c e where "vs = [a, b, c, e]"
      by (auto simp: prologue_fields_def length_Suc_conv eval_nat_numeral)
    with ModernStream size show ?thesis by (simp add: stream_prologue_def sleb.bind_at skip_if_at)
  qed
  moreover have "stream_loop enc STREAM_GUARD (reader_at (concat (map encode_sleb128 vs)) ?tail) 0 (vs ! 1) (vs ! 2) =
      locations 0 (vs ! 1) (vs ! 2) items"
    using size by (intro decodes assms) simp
  ultimately show ?thesis using off by (simp add: parse_location_stream_def d new_reader_at)
qed

lemma line_table:
  assumes debug: "debug_placed file buf fid l s base slot" "dl_stream l = enc"
    and buf: "buf = pre @ concat (map encode_sleb128 vs) @ concat (map (entry_bytes delta_of tail_of) items) @ encode_sleb128 (- 1) @ rest"
    and place: "length pre = base + unat (os_stream slot)" "length vs = prologue_fields enc"
    and ok: "list_all ok items" "length items < STREAM_GUARD" and size: "length buf + 10 < 2 ^ 32"
    and delta: "0 < sint delta" "ascending (map delta_of items) (sint delta)"
  shows "\<exists>out. relocate_locations_for_insertion file buf fid insert_at delta = Inr out
    \<and> parse_location_stream (drop base buf) (os_stream slot) enc =
        Some (location_at 0 (vs ! 1) (vs ! 2) None # locations 0 (vs ! 1) (vs ! 2) items)
    \<and> parse_location_stream (drop base out) (u32_at out (os_at slot)) enc =
        Some (location_at 0 (vs ! 1) (vs ! 2) None # map (shift_location insert_at delta) (locations 0 (vs ! 1) (vs ! 2) items))
    \<and> data_counts out s = data_counts buf s
    \<and> (\<forall>(n, t) \<in> set (source_location_slots buf (bf_function_headers file)).
        (os_stream t \<le> os_stream slot \<longrightarrow> u32_at out (os_at t) = os_stream t)
        \<and> (length buf \<le> base + unat (os_stream t) + length rest \<and> base + unat (os_stream t) \<le> length buf \<longrightarrow>
            drop (base + unat (u32_at out (os_at t))) out = drop (base + unat (os_stream t)) buf))"
proof -
  let ?slots = "source_location_slots buf (bf_function_headers file)"
  let ?items = "shift_first delta_of with_delta (int (unat insert_at)) delta 0 items"
  let ?rest = "\<lambda>is. concat (map encode_sleb128 vs) @ concat (map (entry_bytes delta_of tail_of) is) @ encode_sleb128 (- 1) @ rest"
  from debug(1) obtain counts k where d: "debug_layout_for_version (version (bf_header file)) = Some l"
    "s = unat (debug_info_offset (bf_header file))" "0 < s" "data_counts buf s = Inr counts" "base = reloc_data_start s l counts"
    "find (\<lambda>(n, _). n = fid) ?slots = Some (k, slot)" "\<forall>(n, t) \<in> set ?slots. os_at t + 4 \<le> s"
    "distinct (map (\<lambda>(n, t). os_at t) ?slots)" by (auto simp: debug_placed_def Let_def)
  have "delta \<noteq> 0" using delta(1) by auto
  from relocated_image[OF d(1) debug(2) d(2-5) refl d(6-8) buf place ok(1) size this, of insert_at]
  obtain out pre' where out: "relocate_locations_for_insertion file buf fid insert_at delta = Inr out"
    "out = pre' @ ?rest ?items" "length pre' = length pre" "length out \<le> length buf + 10" "data_counts out s = Inr counts"
    and others: "\<forall>(n, t) \<in> set ?slots. (os_stream t \<le> os_stream slot \<longrightarrow> u32_at out (os_at t) = os_stream t)
        \<and> (length buf \<le> base + unat (os_stream t) + length rest \<and> base + unat (os_stream t) \<le> length buf \<longrightarrow>
            drop (base + unat (u32_at out (os_at t))) out = drop (base + unat (os_stream t)) buf)" by blast
  have "(k, slot) \<in> set ?slots" using d(6) by (metis find_Some_iff nth_mem)
  with others have slot: "u32_at out (os_at slot) = os_stream slot" by auto
  note sh = shift_first_locations[of delta 0 items]
  have sh: "list_all ok ?items" "length ?items = length items"
    "locations 0 (vs ! 1) (vs ! 2) ?items = map (shift_location insert_at delta) (locations 0 (vs ! 1) (vs ! 2) items)"
    using delta ok(1) sh by (simp_all del: of_nat_unat)
  have "parse_location_stream (drop base buf) (os_stream slot) enc =
      Some (location_at 0 (vs ! 1) (vs ! 2) None # locations 0 (vs ! 1) (vs ! 2) items)"
  proof (rule parse_emitted[OF ok place(2)])
    show "drop (unat (os_stream slot)) (drop base buf) = ?rest items"
      using place(1) by (simp add: buf add.commute)
    show "length (drop base buf) \<le> usize_max" using size by (simp add: usize_max_def)
  qed
  moreover have "parse_location_stream (drop base out) (os_stream slot) enc =
      Some (location_at 0 (vs ! 1) (vs ! 2) None # locations 0 (vs ! 1) (vs ! 2) ?items)"
  proof (rule parse_emitted[OF sh(1) _ place(2)])
    show "length ?items < STREAM_GUARD" using sh(2) ok(2) by simp
    show "drop (unat (os_stream slot)) (drop base out) = ?rest ?items"
      using place(1) out(3) by (simp add: out(2) add.commute)
    show "length (drop base out) \<le> usize_max" using out(4) size by (simp add: usize_max_def)
  qed
  ultimately show ?thesis
    using out(1,5) others slot d(4) unfolding sh(3) by auto
qed

end

section \<open>The two encodings\<close>

lemma skip_if_end:
  "skip_if False r = Inr ((), r)"
  "length pre + length (encode_sleb128 v @ rest) \<le> usize_max \<Longrightarrow>
     skip_if True (reader_at pre (encode_sleb128 v @ rest)) = Inr ((), reader_at (pre @ encode_sleb128 v) rest)"
  using sleb.get_at[OF TrueI, of pre v rest] by (simp_all add: skip_if_def rd_map_def rd_bind_def rd_ret_def)

lemma legacy_skips:
  assumes "w AND 1 \<noteq> 0 \<longleftrightarrow> s \<noteq> None"
    and "length pre + length (encode_sleb128 w @ encode_sleb128 c @ encode_sleb128 sc @ encode_sleb128 env
      @ opt_bytes s @ rest) \<le> usize_max"
  shows "skip_entry LegacyStream (reader_at pre (encode_sleb128 w @ encode_sleb128 c @ encode_sleb128 sc
      @ encode_sleb128 env @ opt_bytes s @ rest)) =
    Inr ((), reader_at (pre @ encode_sleb128 w @ encode_sleb128 c @ encode_sleb128 sc @ encode_sleb128 env @ opt_bytes s) rest)"
  using assms by (cases s) (simp_all add: skip_entry_def sleb.bind_at skip_if_end opt_bytes_def)

lemma modern_skips:
  assumes "w AND 1 \<noteq> 0" "w AND 2 \<noteq> 0 \<longleftrightarrow> s \<noteq> None" "w AND 4 \<noteq> 0 \<longleftrightarrow> e \<noteq> None"
    and "length pre + length (encode_sleb128 w @ encode_sleb128 c @ opt_bytes s @ opt_bytes e @ rest) \<le> usize_max"
  shows "skip_entry ModernStream (reader_at pre (encode_sleb128 w @ encode_sleb128 c @ opt_bytes s @ opt_bytes e @ rest)) =
    Inr ((), reader_at (pre @ encode_sleb128 w @ encode_sleb128 c @ opt_bytes s @ opt_bytes e) rest)"
  using assms
  by (cases s; cases e) (simp_all add: skip_entry_def sleb.bind_at skip_if_at skip_if_end opt_bytes_def)

definition legacy_tail :: "legacy_item \<Rightarrow> u8 list" where
  "legacy_tail i = encode_sleb128 (legacy_line (li_line i) (li_statement i)) @ encode_sleb128 (li_column i)
     @ encode_sleb128 (li_scope i) @ encode_sleb128 (li_env i) @ opt_bytes (li_statement i)"

definition legacy_shifted :: "i64 \<Rightarrow> legacy_item \<Rightarrow> legacy_item" where
  "legacy_shifted d i = i\<lparr>li_address := d\<rparr>"

lemma legacy_bytes: "entry_bytes li_address legacy_tail = legacy_item_bytes"
  by (rule ext) (simp add: entry_bytes_def legacy_tail_def legacy_item_bytes_def)

interpretation legacy_stream: located_stream LegacyStream li_address legacy_shifted legacy_tail legacy_item_ok
  legacy_locations li_line li_column "\<lambda>i. try_u32 (li_scope i)" "\<lambda>_. True"
proof
  fix i and pre rest :: "u8 list"
  assume i: "legacy_item_ok i" "length pre + length (legacy_tail i @ rest) \<le> usize_max"
  show "skip_entry LegacyStream (reader_at pre (legacy_tail i @ rest)) = Inr ((), reader_at (pre @ legacy_tail i) rest)"
    using legacy_skips[of "legacy_line (li_line i) (li_statement i)" "li_statement i" pre "li_column i" "li_scope i" "li_env i" rest]
      i legacy_line_word(2)[of "li_line i" "li_statement i"] by (simp add: legacy_tail_def legacy_item_ok_def)
next
  fix items fuel and pre rest :: "u8 list" and a l c
  assume "list_all legacy_item_ok items" "length items < fuel"
    "length pre + length (concat (map (entry_bytes li_address legacy_tail) items) @ encode_sleb128 (- 1) @ rest) \<le> usize_max"
  then show "stream_loop LegacyStream fuel
      (reader_at pre (concat (map (entry_bytes li_address legacy_tail) items) @ encode_sleb128 (- 1) @ rest)) a l c =
    legacy_locations a l c items" unfolding legacy_bytes by (rule legacy_loop_at)
qed (auto simp: legacy_item_ok_def legacy_shifted_def legacy_tail_def)

primrec modern_delta :: "modern_item \<Rightarrow> i64" where
  "modern_delta (NoLocation a) = a"
| "modern_delta (Location a l c s e) = a"

primrec modern_shifted :: "i64 \<Rightarrow> modern_item \<Rightarrow> modern_item" where
  "modern_shifted d (NoLocation a) = NoLocation d"
| "modern_shifted d (Location a l c s e) = Location d l c s e"

primrec modern_tail :: "modern_item \<Rightarrow> u8 list" where
  "modern_tail (NoLocation a) = encode_sleb128 0"
| "modern_tail (Location a l c s e) = encode_sleb128 (modern_line l s e) @ encode_sleb128 c @ opt_bytes s @ opt_bytes e"

primrec modern_line_delta :: "modern_item \<Rightarrow> i64" where
  "modern_line_delta (NoLocation a) = 0"
| "modern_line_delta (Location a l c s e) = l"

primrec modern_column_delta :: "modern_item \<Rightarrow> i64" where
  "modern_column_delta (NoLocation a) = 0"
| "modern_column_delta (Location a l c s e) = c"

primrec has_location :: "modern_item \<Rightarrow> bool" where
  "has_location (NoLocation a) \<longleftrightarrow> False"
| "has_location (Location a l c s e) \<longleftrightarrow> True"

lemma modern_bytes: "entry_bytes modern_delta modern_tail = modern_item_bytes"
proof (rule ext)
  show "entry_bytes modern_delta modern_tail i = modern_item_bytes i" for i by (cases i) (simp_all add: entry_bytes_def)
qed

interpretation modern_stream: located_stream ModernStream modern_delta modern_shifted modern_tail modern_item_ok
  modern_locations modern_line_delta modern_column_delta "\<lambda>_. None" has_location
proof
  fix i and pre rest :: "u8 list"
  assume i: "modern_item_ok i" "length pre + length (modern_tail i @ rest) \<le> usize_max"
  show "skip_entry ModernStream (reader_at pre (modern_tail i @ rest)) = Inr ((), reader_at (pre @ modern_tail i) rest)"
  proof (cases i)
    case (NoLocation a)
    with i show ?thesis by (simp add: skip_entry_def sleb.bind_at)
  next
    case (Location a l c s e)
    with i modern_line_word[of l s e] modern_skips[of "modern_line l s e" s e pre c rest] show ?thesis by simp
  qed
next
  fix items fuel and pre rest :: "u8 list" and a l c
  assume "list_all modern_item_ok items" "length items < fuel"
    "length pre + length (concat (map (entry_bytes modern_delta modern_tail) items) @ encode_sleb128 (- 1) @ rest) \<le> usize_max"
  then show "stream_loop ModernStream fuel
      (reader_at pre (concat (map (entry_bytes modern_delta modern_tail) items) @ encode_sleb128 (- 1) @ rest)) a l c =
    modern_locations a l c items" unfolding modern_bytes by (rule modern_loop_at)
next
  fix i :: modern_item and d a l c "is"
  show "modern_delta (modern_shifted d i) = d" "modern_tail (modern_shifted d i) = modern_tail i"
    "modern_line_delta (modern_shifted d i) = modern_line_delta i" "modern_column_delta (modern_shifted d i) = modern_column_delta i"
    "has_location (modern_shifted d i) = has_location i" by (cases i; simp)+
  show "modern_item_ok i \<Longrightarrow> modern_delta i \<noteq> - 1" "modern_item_ok i \<Longrightarrow> d \<noteq> - 1 \<Longrightarrow> modern_item_ok (modern_shifted d i)"
    by (cases i; simp)+
  show "modern_locations a l c (i # is) =
      (if has_location i then [location_at (a + modern_delta i) (l + modern_line_delta i) (c + modern_column_delta i) None] else [])
        @ modern_locations (a + modern_delta i) (l + modern_line_delta i) (c + modern_column_delta i) is"
    by (cases i) simp_all
qed simp_all

section \<open>The line table after an insertion\<close>

text \<open>Both encodings: when \<open>delta\<close> bytes are inserted at an address of a function whose stream is an
  emitted one with ascending addresses, the code succeeds, the parser reads the relocated stream to the
  old locations with those at or past the address moved by \<open>delta\<close>, and every stream before it or
  behind it is still found through its function's offset, byte for byte the same.\<close>

theorem legacy_line_table_follows:
  assumes "debug_placed file buf fid l s base slot" "dl_stream l = LegacyStream"
    and "buf = pre @ concat (map encode_sleb128 [function_index, line, column])
        @ concat (map legacy_item_bytes items) @ encode_sleb128 (- 1) @ rest"
    and "length pre = base + unat (os_stream slot)" "list_all legacy_item_ok items" "length items < STREAM_GUARD"
    and "length buf + 10 < 2 ^ 32" "0 < sint delta" "ascending (map li_address items) (sint delta)"
  shows "\<exists>out. relocate_locations_for_insertion file buf fid insert_at delta = Inr out
    \<and> parse_location_stream (drop base buf) (os_stream slot) LegacyStream =
        Some (location_at 0 line column None # legacy_locations 0 line column items)
    \<and> parse_location_stream (drop base out) (u32_at out (os_at slot)) LegacyStream =
        Some (location_at 0 line column None # map (shift_location insert_at delta) (legacy_locations 0 line column items))
    \<and> data_counts out s = data_counts buf s
    \<and> (\<forall>(n, t) \<in> set (source_location_slots buf (bf_function_headers file)).
        (os_stream t \<le> os_stream slot \<longrightarrow> u32_at out (os_at t) = os_stream t)
        \<and> (length buf \<le> base + unat (os_stream t) + length rest \<and> base + unat (os_stream t) \<le> length buf \<longrightarrow>
            drop (base + unat (u32_at out (os_at t))) out = drop (base + unat (os_stream t)) buf))"
  using legacy_stream.line_table[OF assms(1,2), unfolded legacy_bytes, OF assms(3,4) _ assms(5-9), of insert_at]
  by (simp add: prologue_fields_def)

theorem modern_line_table_follows:
  assumes "debug_placed file buf fid l s base slot" "dl_stream l = ModernStream"
    and "buf = pre @ concat (map encode_sleb128 [function_index, line, column, env_idx])
        @ concat (map modern_item_bytes items) @ encode_sleb128 (- 1) @ rest"
    and "length pre = base + unat (os_stream slot)" "list_all modern_item_ok items" "length items < STREAM_GUARD"
    and "length buf + 10 < 2 ^ 32" "0 < sint delta" "ascending (map modern_delta items) (sint delta)"
  shows "\<exists>out. relocate_locations_for_insertion file buf fid insert_at delta = Inr out
    \<and> parse_location_stream (drop base buf) (os_stream slot) ModernStream =
        Some (location_at 0 line column None # modern_locations 0 line column items)
    \<and> parse_location_stream (drop base out) (u32_at out (os_at slot)) ModernStream =
        Some (location_at 0 line column None # map (shift_location insert_at delta) (modern_locations 0 line column items))
    \<and> data_counts out s = data_counts buf s
    \<and> (\<forall>(n, t) \<in> set (source_location_slots buf (bf_function_headers file)).
        (os_stream t \<le> os_stream slot \<longrightarrow> u32_at out (os_at t) = os_stream t)
        \<and> (length buf \<le> base + unat (os_stream t) + length rest \<and> base + unat (os_stream t) \<le> length buf \<longrightarrow>
            drop (base + unat (u32_at out (os_at t))) out = drop (base + unat (os_stream t)) buf))"
  using modern_stream.line_table[OF assms(1,2), unfolded modern_bytes, OF assms(3,4) _ assms(5-9), of insert_at]
  by (simp add: prologue_fields_def)

end
