(* ===== verification/Ir_Walk.thy ===== *)
theory Ir_Walk
  imports Ir
begin

text \<open>
  The walks of \<open>crates/hbc-decomp/src/ir/visitor.rs\<close>.  \<open>Visitor::walk_*\<close> calls a hook on each part
  of a node: \<open>expr_parts\<close>, \<open>target_parts\<close> and \<open>stmt_parts\<close> list those parts in the order of the
  calls, and the walk with given hooks is the fold over them.  \<open>MutVisitor::walk_*\<close> rewrites the
  same parts in place.  Every visitor of the code is a recursion through one of the two; a part
  is smaller than its node, which is why they end.
\<close>

datatype ir_part =
    PartE expression
  | PartT assign_target
  | PartS statement
  | PartName rust_string

section \<open>The read-only walk\<close>

definition opt_part :: "expression option \<Rightarrow> ir_part list" where
  "opt_part e = (case e of None \<Rightarrow> [] | Some e \<Rightarrow> [PartE e])"

fun key_parts :: "property_key \<Rightarrow> ir_part list" where
  "key_parts (PComputed e) = [PartE e]"
| "key_parts _ = []"

fun expr_parts :: "expression \<Rightarrow> ir_part list" where
  "expr_parts (EBinary _ l r) = [PartE l, PartE r]"
| "expr_parts (EUnary _ e) = [PartE e]"
| "expr_parts (ECall f args) = PartE f # map PartE args"
| "expr_parts (ENew f args) = PartE f # map PartE args"
| "expr_parts (EMember e key _) = PartE e # key_parts key"
| "expr_parts (EConditional c t f) = [PartE c, PartE t, PartE f]"
| "expr_parts (EObject props) = concat (map (\<lambda>(key, v). key_parts key @ [PartE v]) props)"
| "expr_parts (EArray elems) = concat (map opt_part elems)"
| "expr_parts (EAssignment t v) = [PartT t, PartE v]"
| "expr_parts (ESpread e) = [PartE e]"
| "expr_parts (EAwait e) = [PartE e]"
| "expr_parts (EYield e _) = [PartE e]"
| "expr_parts (ETemplateLiteral _ es) = map PartE es"
| "expr_parts (EJSXElement _ attrs kids) = map (\<lambda>(_, e). PartE e) attrs @ map PartE kids"
| "expr_parts (EValue _) = []"
| "expr_parts (ERegExp _ _) = []"
| "expr_parts (EFunction _ _ _ _ _) = []"
| "expr_parts (EUnknown _ _) = []"

definition element_parts :: "(assign_target \<times> expression option) option \<Rightarrow> ir_part list" where
  "element_parts x = (case x of None \<Rightarrow> [] | Some (t, d) \<Rightarrow> PartT t # opt_part d)"

definition property_parts :: "rust_string \<times> assign_target \<times> expression option \<Rightarrow> ir_part list" where
  "property_parts = (\<lambda>(_, t, d). PartT t # opt_part d)"

fun target_parts :: "assign_target \<Rightarrow> ir_part list" where
  "target_parts (TMember e _) = [PartE e]"
| "target_parts (TIndex e key) = [PartE e, PartE key]"
| "target_parts (TDestructuringArray elems) = concat (map element_parts elems)"
| "target_parts (TDestructuringArrayRest elems rest) = concat (map element_parts elems) @ [PartT rest]"
| "target_parts (TDestructuringObject props) = concat (map property_parts props)"
| "target_parts (TDestructuringObjectRest props rest) = concat (map property_parts props) @ [PartT rest]"
| "target_parts (TRest t) = [PartT t]"
| "target_parts (TBinding _) = []"

text \<open>The names of a class and of its method parameters and its \<open>extends\<close> expression are
  visited, its bodies are not.\<close>

fun stmt_parts :: "statement \<Rightarrow> ir_part list" where
  "stmt_parts (SExpr e) = [PartE e]"
| "stmt_parts (SLet v e _) = [PartName (var_name v), PartE e]"
| "stmt_parts (SAssign t e) = [PartT t, PartE e]"
| "stmt_parts (SDelete e _) = [PartE e]"
| "stmt_parts (SReturn e) = opt_part e"
| "stmt_parts (SThrow e) = [PartE e]"
| "stmt_parts (SCondGoto c _ _) = [PartE c]"
| "stmt_parts (SIf c t f) = PartE c # map PartS t @ map PartS f"
| "stmt_parts (SWhile c b) = PartE c # map PartS b"
| "stmt_parts (SDoWhile b c) = map PartS b @ [PartE c]"
| "stmt_parts (SFor i c u b) =
     map PartS (case i of None \<Rightarrow> [] | Some s \<Rightarrow> [s]) @ opt_part c
     @ map PartS (case u of None \<Rightarrow> [] | Some s \<Rightarrow> [s]) @ map PartS b"
| "stmt_parts (SSwitch e cases d) =
     PartE e # concat (map (\<lambda>(v, b). PartE v # map PartS b) cases)
     @ (case d of None \<Rightarrow> [] | Some b \<Rightarrow> map PartS b)"
| "stmt_parts (SBlock b) = map PartS b"
| "stmt_parts (STryCatch t p c f) =
     map PartS t @ (case p of None \<Rightarrow> [] | Some name \<Rightarrow> [PartName name]) @ map PartS c @ map PartS f"
| "stmt_parts (SForIn v e b) = PartName v # PartE e # map PartS b"
| "stmt_parts (SForOf v e b) = PartName v # PartE e # map PartS b"
| "stmt_parts (SClass name sc _ methods) =
     PartName name # opt_part sc @ map PartName (concat (map cm_params methods))"
| "stmt_parts SDebugger = []"
| "stmt_parts (SComment _) = []"
| "stmt_parts (SBreak _) = []"
| "stmt_parts (SContinue _) = []"
| "stmt_parts (SGoto _) = []"

text \<open>What makes the recursions end: the parts of an expression, a target or a statement that
  the walks recurse into are smaller.\<close>

fun part_size :: "ir_part \<Rightarrow> nat" where
  "part_size (PartE e) = size e"
| "part_size (PartT t) = size t"
| "part_size (PartS s) = size s"
| "part_size (PartName _) = 0"

lemma key_parts_smaller: "p \<in> set (key_parts key) \<Longrightarrow> part_size p < size key"
  by (cases key) auto

lemma opt_part_smaller: "p \<in> set (opt_part e) \<Longrightarrow> part_size p < size_option size e"
  by (auto simp: opt_part_def split: option.splits)

lemma size_list_member: "x \<in> set xs \<Longrightarrow> f x < size_list f xs"
  by (induction xs) auto

lemma expr_parts_smaller: "p \<in> set (expr_parts e) \<Longrightarrow> part_size p < size e"
proof (cases e)
  case (EObject props)
  assume "p \<in> set (expr_parts e)"
  with EObject obtain key v where "(key, v) \<in> set props" "p \<in> set (key_parts key) \<or> p = PartE v" by auto
  then show ?thesis
    using EObject key_parts_smaller[of p key] size_list_member[of "(key, v)" props "size_prod size size"]
    by fastforce
next
  case (EArray elems)
  assume "p \<in> set (expr_parts e)"
  with EArray obtain x where "x \<in> set elems" "p \<in> set (opt_part x)" by auto
  then show ?thesis
    using EArray opt_part_smaller[of p x] size_list_member[of x elems "size_option size"] by fastforce
next
  case (EMember x key b)
  assume "p \<in> set (expr_parts e)"
  with EMember show ?thesis using key_parts_smaller[of p key] by auto
next
  case (EJSXElement tag attrs kids)
  assume "p \<in> set (expr_parts e)"
  with EJSXElement show ?thesis
    using size_list_member[of _ attrs "size_prod (\<lambda>x. 0) size"] size_list_member[of _ kids size] by fastforce
qed (auto dest!: size_list_member[where f = size] intro: less_SucI)

lemma element_parts_smaller:
  "p \<in> set (element_parts x) \<Longrightarrow> part_size p < size_option (size_prod size (size_option size)) x"
  using opt_part_smaller[of p] by (fastforce simp: element_parts_def split: option.splits)

lemma property_parts_smaller:
  "p \<in> set (property_parts x) \<Longrightarrow> part_size p < size_prod (\<lambda>x. 0) (size_prod size (size_option size)) x"
  using opt_part_smaller[of p "snd (snd x)"] by (fastforce simp: property_parts_def split: prod.splits)

lemma element_list_smaller:
  assumes "p \<in> set (concat (map element_parts xs))"
  shows "part_size p < size_list (size_option (size_prod size (size_option size))) xs"
proof -
  from assms obtain x where x: "x \<in> set xs" "p \<in> set (element_parts x)" by auto
  show ?thesis
    by (rule order.strict_trans[OF element_parts_smaller[OF x(2)]]) (rule size_list_member[OF x(1)])
qed

lemma property_list_smaller:
  assumes "p \<in> set (concat (map property_parts xs))"
  shows "part_size p < size_list (size_prod (\<lambda>x. 0) (size_prod size (size_option size))) xs"
proof -
  from assms obtain x where x: "x \<in> set xs" "p \<in> set (property_parts x)" by auto
  show ?thesis
    by (rule order.strict_trans[OF property_parts_smaller[OF x(2)]]) (rule size_list_member[OF x(1)])
qed

lemma target_parts_smaller: "p \<in> set (target_parts t) \<Longrightarrow> part_size p < size t"
  by (cases t) (auto simp del: set_concat dest!: element_list_smaller property_list_smaller)

lemma stmt_list_smaller: "s \<in> set b \<Longrightarrow> size s < size_list size b"
  by (rule size_list_member)

lemma stmt_parts_smaller:
  assumes "PartS p \<in> set (stmt_parts s)"
  shows "size p < size s"
proof (cases s)
  case (SSwitch e cases d)
  consider v b where "(v, b) \<in> set cases" "p \<in> set b" | b where "d = Some b" "p \<in> set b"
    using assms SSwitch by (fastforce simp: opt_part_def split: option.splits)
  then show ?thesis
  proof cases
    case (1 v b)
    then show ?thesis
      using SSwitch size_list_member[of "(v, b)" cases "size_prod (\<lambda>x. 0) (size_list size)"]
      by (auto dest!: stmt_list_smaller)
  qed (use SSwitch in \<open>auto dest!: stmt_list_smaller\<close>)
qed (use assms in \<open>auto simp: opt_part_def dest!: stmt_list_smaller split: option.splits\<close>)

section \<open>The mutating walk\<close>

text \<open>The hooks as functions: on expressions, targets, statements and declared names.\<close>

fun walk_key_mut :: "(expression \<Rightarrow> expression) \<Rightarrow> property_key \<Rightarrow> property_key" where
  "walk_key_mut fe (PComputed e) = PComputed (fe e)"
| "walk_key_mut fe (PIdent s) = PIdent s"
| "walk_key_mut fe (PString s) = PString s"
| "walk_key_mut fe (PIndex i) = PIndex i"

fun walk_expression_mut ::
  "(expression \<Rightarrow> expression) \<Rightarrow> (assign_target \<Rightarrow> assign_target) \<Rightarrow> expression \<Rightarrow> expression" where
  "walk_expression_mut fe ft (EBinary op l r) = EBinary op (fe l) (fe r)"
| "walk_expression_mut fe ft (EUnary op e) = EUnary op (fe e)"
| "walk_expression_mut fe ft (ECall f args) = ECall (fe f) (map fe args)"
| "walk_expression_mut fe ft (ENew f args) = ENew (fe f) (map fe args)"
| "walk_expression_mut fe ft (EMember e key opt) = EMember (fe e) (walk_key_mut fe key) opt"
| "walk_expression_mut fe ft (EConditional c t f) = EConditional (fe c) (fe t) (fe f)"
| "walk_expression_mut fe ft (EObject props) = EObject (map (\<lambda>(key, v). (walk_key_mut fe key, fe v)) props)"
| "walk_expression_mut fe ft (EArray elems) = EArray (map (map_option fe) elems)"
| "walk_expression_mut fe ft (EAssignment t v) = EAssignment (ft t) (fe v)"
| "walk_expression_mut fe ft (ESpread e) = ESpread (fe e)"
| "walk_expression_mut fe ft (EAwait e) = EAwait (fe e)"
| "walk_expression_mut fe ft (EYield e d) = EYield (fe e) d"
| "walk_expression_mut fe ft (ETemplateLiteral qs es) = ETemplateLiteral qs (map fe es)"
| "walk_expression_mut fe ft (EJSXElement tag attrs kids) =
     EJSXElement tag (map (\<lambda>(a, e). (a, fe e)) attrs) (map fe kids)"
| "walk_expression_mut fe ft (EValue v) = EValue v"
| "walk_expression_mut fe ft (ERegExp a b) = ERegExp a b"
| "walk_expression_mut fe ft (EFunction a b c d e) = EFunction a b c d e"
| "walk_expression_mut fe ft (EUnknown a b) = EUnknown a b"

definition walk_element_mut ::
  "(expression \<Rightarrow> expression) \<Rightarrow> (assign_target \<Rightarrow> assign_target) \<Rightarrow>
   (assign_target \<times> expression option) option \<Rightarrow> (assign_target \<times> expression option) option" where
  "walk_element_mut fe ft = map_option (\<lambda>(t, d). (ft t, map_option fe d))"

fun walk_target_mut ::
  "(expression \<Rightarrow> expression) \<Rightarrow> (assign_target \<Rightarrow> assign_target) \<Rightarrow> assign_target \<Rightarrow> assign_target" where
  "walk_target_mut fe ft (TMember e p) = TMember (fe e) p"
| "walk_target_mut fe ft (TIndex e key) = TIndex (fe e) (fe key)"
| "walk_target_mut fe ft (TDestructuringArray elems) = TDestructuringArray (map (walk_element_mut fe ft) elems)"
| "walk_target_mut fe ft (TDestructuringArrayRest elems rest) =
     TDestructuringArrayRest (map (walk_element_mut fe ft) elems) (ft rest)"
| "walk_target_mut fe ft (TDestructuringObject props) =
     TDestructuringObject (map (\<lambda>(k, t, d). (k, ft t, map_option fe d)) props)"
| "walk_target_mut fe ft (TDestructuringObjectRest props rest) =
     TDestructuringObjectRest (map (\<lambda>(k, t, d). (k, ft t, map_option fe d)) props) (ft rest)"
| "walk_target_mut fe ft (TRest t) = TRest (ft t)"
| "walk_target_mut fe ft (TBinding b) = TBinding b"

definition rename_var :: "(rust_string \<Rightarrow> rust_string) \<Rightarrow> var \<Rightarrow> var" where
  "rename_var fn v = v\<lparr>var_name := fn (var_name v)\<rparr>"

fun walk_statement_mut ::
  "(expression \<Rightarrow> expression) \<Rightarrow> (assign_target \<Rightarrow> assign_target) \<Rightarrow> (statement \<Rightarrow> statement) \<Rightarrow>
   (rust_string \<Rightarrow> rust_string) \<Rightarrow> statement \<Rightarrow> statement" where
  "walk_statement_mut fe ft fs fn (SExpr e) = SExpr (fe e)"
| "walk_statement_mut fe ft fs fn (SLet v e k) = SLet (rename_var fn v) (fe e) k"
| "walk_statement_mut fe ft fs fn (SAssign t e) = SAssign (ft t) (fe e)"
| "walk_statement_mut fe ft fs fn (SDelete e r) = SDelete (fe e) r"
| "walk_statement_mut fe ft fs fn (SReturn e) = SReturn (map_option fe e)"
| "walk_statement_mut fe ft fs fn (SThrow e) = SThrow (fe e)"
| "walk_statement_mut fe ft fs fn (SCondGoto c t f) = SCondGoto (fe c) t f"
| "walk_statement_mut fe ft fs fn (SIf c t f) = SIf (fe c) (map fs t) (map fs f)"
| "walk_statement_mut fe ft fs fn (SWhile c b) = SWhile (fe c) (map fs b)"
| "walk_statement_mut fe ft fs fn (SDoWhile b c) = SDoWhile (map fs b) (fe c)"
| "walk_statement_mut fe ft fs fn (SFor i c u b) =
     SFor (map_option fs i) (map_option fe c) (map_option fs u) (map fs b)"
| "walk_statement_mut fe ft fs fn (SSwitch e cases d) =
     SSwitch (fe e) (map (\<lambda>(v, b). (fe v, map fs b)) cases) (map_option (map fs) d)"
| "walk_statement_mut fe ft fs fn (SBlock b) = SBlock (map fs b)"
| "walk_statement_mut fe ft fs fn (STryCatch t p c f) =
     STryCatch (map fs t) (map_option fn p) (map fs c) (map fs f)"
| "walk_statement_mut fe ft fs fn (SForIn v e b) = SForIn (fn v) (fe e) (map fs b)"
| "walk_statement_mut fe ft fs fn (SForOf v e b) = SForOf (fn v) (fe e) (map fs b)"
| "walk_statement_mut fe ft fs fn (SClass name sc ctor methods) =
     SClass (fn name) (map_option fe sc) ctor
       (map (\<lambda>m. case m of ClassMethod key v body st kind params \<Rightarrow>
          ClassMethod key v body st kind (map fn params)) methods)"
| "walk_statement_mut fe ft fs fn SDebugger = SDebugger"
| "walk_statement_mut fe ft fs fn (SComment c) = SComment c"
| "walk_statement_mut fe ft fs fn (SBreak l) = SBreak l"
| "walk_statement_mut fe ft fs fn (SContinue l) = SContinue l"
| "walk_statement_mut fe ft fs fn (SGoto b) = SGoto b"

text \<open>The two walks reach the same parts.\<close>

fun map_part ::
  "(expression \<Rightarrow> expression) \<Rightarrow> (assign_target \<Rightarrow> assign_target) \<Rightarrow> (statement \<Rightarrow> statement) \<Rightarrow>
   (rust_string \<Rightarrow> rust_string) \<Rightarrow> ir_part \<Rightarrow> ir_part" where
  "map_part fe ft fs fn (PartE e) = PartE (fe e)"
| "map_part fe ft fs fn (PartT t) = PartT (ft t)"
| "map_part fe ft fs fn (PartS s) = PartS (fs s)"
| "map_part fe ft fs fn (PartName n) = PartName (fn n)"

lemma map_concat_map: "(\<And>x. x \<in> set xs \<Longrightarrow> g (h x) = map f (g x)) \<Longrightarrow> concat (map g (map h xs)) = map f (concat (map g xs))"
  by (induction xs) auto

lemma key_parts_mut: "key_parts (walk_key_mut fe key) = map (map_part fe ft fs fn) (key_parts key)"
  by (cases key) auto

lemma opt_parts_mut: "opt_part (map_option fe e) = map (map_part fe ft fs fn) (opt_part e)"
  by (cases e) (auto simp: opt_part_def)

lemma expr_parts_mut: "expr_parts (walk_expression_mut fe ft e) = map (map_part fe ft fs fn) (expr_parts e)"
proof (cases e)
  case (EObject props)
  then show ?thesis
    by (auto simp del: map_map map_concat intro!: map_concat_map simp: key_parts_mut[where ft = ft and fs = fs and fn = fn])
next
  case (EArray elems)
  then show ?thesis
    by (auto simp del: map_map map_concat intro!: map_concat_map opt_parts_mut)
qed (auto simp: key_parts_mut[where ft = ft and fs = fs and fn = fn])

lemma element_parts_mut:
  "element_parts (walk_element_mut fe ft x) = map (map_part fe ft fs fn) (element_parts x)"
  by (auto simp: element_parts_def walk_element_mut_def opt_parts_mut[where ft = ft and fs = fs and fn = fn]
      split: option.splits)

lemma property_parts_mut:
  "property_parts ((\<lambda>(k, t, d). (k, ft t, map_option fe d)) x) = map (map_part fe ft fs fn) (property_parts x)"
  by (auto simp: property_parts_def opt_parts_mut[where ft = ft and fs = fs and fn = fn] split: prod.splits)

lemma target_parts_mut: "target_parts (walk_target_mut fe ft t) = map (map_part fe ft fs fn) (target_parts t)"
proof -
  note el = map_concat_map[of _ element_parts, OF element_parts_mut[of fe ft _ fs fn]]
  note pr = map_concat_map[of _ property_parts, OF property_parts_mut[of ft fe _ fs fn]]
  show ?thesis by (cases t) (simp_all only: target_parts.simps walk_target_mut.simps el pr map_append list.map map_part.simps)
qed

lemma stmt_parts_mut:
  "stmt_parts (walk_statement_mut fe ft fs fn s) = map (map_part fe ft fs fn) (stmt_parts s)"
proof (cases s)
  case (SSwitch e cases d)
  have "concat (map (\<lambda>(v, b). PartE v # map PartS b) (map (\<lambda>(v, b). (fe v, map fs b)) cases)) =
      map (map_part fe ft fs fn) (concat (map (\<lambda>(v, b). PartE v # map PartS b) cases))"
    by (rule map_concat_map) auto
  moreover have "map PartS (map fs b) = map (map_part fe ft fs fn) (map PartS b)" for b by simp
  ultimately show ?thesis using SSwitch by (cases d) (simp_all del: map_map map_concat)
next
  case (SClass name sc ctor methods)
  have "concat (map cm_params (map (\<lambda>m. case m of ClassMethod key v body st kind params \<Rightarrow>
          ClassMethod key v body st kind (map fn params)) methods)) = map fn (concat (map cm_params methods))"
    by (rule map_concat_map) (auto split: class_method.splits)
  then show ?thesis
    using SClass by (simp del: map_map map_concat add: opt_parts_mut[where ft = ft and fs = fs and fn = fn])
      (simp del: map_concat)
qed (auto simp: rename_var_def opt_part_def map_option_case split: option.splits)

text \<open>Hooks that agree on the parts give the same result.\<close>

lemma walk_expression_mut_cong [fundef_cong]:
  assumes "e = e'" and "\<And>x. PartE x \<in> set (expr_parts e') \<Longrightarrow> fe x = ge x"
    and "\<And>x. PartT x \<in> set (expr_parts e') \<Longrightarrow> ft x = gt x"
  shows "walk_expression_mut fe ft e = walk_expression_mut ge gt e'"
proof (cases e')
  case (EObject props)
  have "walk_key_mut fe key = walk_key_mut ge key" "fe v = ge v" if "(key, v) \<in> set props" for key v
    using that assms(2) EObject by (cases key; force)+
  then show ?thesis using EObject assms(1) by auto
next
  case (EArray elems)
  have "map_option fe x = map_option ge x" if "x \<in> set elems" for x
  proof (cases x)
    case (Some y)
    then have "PartE y \<in> set (expr_parts e')" using EArray that by (force simp: opt_part_def)
    then show ?thesis using assms(2) Some by simp
  qed simp
  then show ?thesis using EArray assms(1) by auto
next
  case (EMember x key b)
  then show ?thesis using assms by (cases key) auto
next
  case (EJSXElement tag attrs kids)
  have "fe x = ge x" if "(a, x) \<in> set attrs \<or> x \<in> set kids" for a x
    using that assms(2) EJSXElement by force
  then show ?thesis using EJSXElement assms(1) by auto
qed (use assms in auto)

lemma walk_element_mut_cong:
  assumes "\<And>x. PartE x \<in> set (element_parts d) \<Longrightarrow> fe x = ge x"
    and "\<And>x. PartT x \<in> set (element_parts d) \<Longrightarrow> ft x = gt x"
  shows "walk_element_mut fe ft d = walk_element_mut ge gt d"
proof (cases d)
  case (Some p)
  then show ?thesis using assms
    by (cases p; cases "snd p") (auto simp: walk_element_mut_def element_parts_def opt_part_def)
qed (simp add: walk_element_mut_def)

lemma walk_property_mut_cong:
  assumes "\<And>x. PartE x \<in> set (property_parts p) \<Longrightarrow> fe x = ge x"
    and "\<And>x. PartT x \<in> set (property_parts p) \<Longrightarrow> ft x = gt x"
  shows "(\<lambda>(k, t, d). (k, ft t, map_option fe d)) p = (\<lambda>(k, t, d). (k, gt t, map_option ge d)) p"
  using assms by (cases p; cases "snd (snd p)") (auto simp: property_parts_def opt_part_def)

lemma walk_target_mut_cong [fundef_cong]:
  assumes "t = t'" and "\<And>x. PartE x \<in> set (target_parts t') \<Longrightarrow> fe x = ge x"
    and "\<And>x. PartT x \<in> set (target_parts t') \<Longrightarrow> ft x = gt x"
  shows "walk_target_mut fe ft t = walk_target_mut ge gt t'"
proof -
  have el: "map (walk_element_mut fe ft) xs = map (walk_element_mut ge gt) xs"
    if "set (concat (map element_parts xs)) \<subseteq> set (target_parts t')" for xs
    using that assms(2,3) by (intro map_cong refl walk_element_mut_cong) auto
  have pr: "map (\<lambda>(k, t, d). (k, ft t, map_option fe d)) xs = map (\<lambda>(k, t, d). (k, gt t, map_option ge d)) xs"
    if "set (concat (map property_parts xs)) \<subseteq> set (target_parts t')" for xs
    using that assms(2,3) by (intro map_cong refl walk_property_mut_cong) auto
  show ?thesis
    by (cases t') (use assms el pr in \<open>simp_all del: map_eq_conv set_concat add: subset_insertI\<close>)
qed

lemma walk_statement_mut_cong [fundef_cong]:
  assumes "s = s'" and "\<And>x. PartS x \<in> set (stmt_parts s') \<Longrightarrow> fs x = gs x"
  shows "walk_statement_mut fe ft fs fn s = walk_statement_mut fe ft gs fn s'"
proof (cases s')
  case (SSwitch e cases d)
  have "map fs b = map gs b" if "(v, b) \<in> set cases" for v b
    using that assms(2) SSwitch by fastforce
  moreover have "map fs b = map gs b" if "d = Some b" for b
    using that assms(2) SSwitch by auto
  ultimately show ?thesis using SSwitch assms(1) by (cases d) auto
qed (use assms in \<open>auto simp: map_option_case split: option.splits\<close>)

end
