(* ===== verification/Cfg.thy ===== *)
theory Cfg
  imports Ir
begin

text \<open>
  The control-flow graph (\<open>crates/hbc-decomp/src/ir/cfg/mod.rs\<close>) and its builder
  (\<open>ir/builder/mod.rs\<close>).  A \<open>BTreeMap\<close> whose order is observed is the list of its entries in key
  order.  The depth-first search passes the visited set and the result along; the search of a
  list of blocks is the loop of the code over the successors.
\<close>

section \<open>Ordered maps\<close>

fun bt_insert :: "'k::linorder \<Rightarrow> 'v \<Rightarrow> ('k \<times> 'v) list \<Rightarrow> ('k \<times> 'v) list" where
  "bt_insert k v [] = [(k, v)]"
| "bt_insert k v ((k', v') # xs) =
     (if k < k' then (k, v) # (k', v') # xs
      else if k = k' then (k, v) # xs
      else (k', v') # bt_insert k v xs)"

abbreviation bt_ordered :: "('k::linorder \<times> 'v) list \<Rightarrow> bool" where
  "bt_ordered xs \<equiv> sorted_wrt (<) (map fst xs)"

lemma keys_bt_insert: "fst ` set (bt_insert k v xs) = insert k (fst ` set xs)"
  by (induction k v xs rule: bt_insert.induct) (simp_all add: insert_commute)

lemma bt_insert_ordered: "bt_ordered xs \<Longrightarrow> bt_ordered (bt_insert k v xs)"
proof (induction xs)
  case (Cons p xs)
  then show ?case using keys_bt_insert[of k v xs] by (cases p) (fastforce simp: image_iff)
qed simp

lemma map_of_bt_insert: "bt_ordered xs \<Longrightarrow> map_of (bt_insert k v xs) = (map_of xs)(k \<mapsto> v)"
proof (induction xs)
  case (Cons p xs)
  then show ?case by (cases p) (auto intro!: ext)
qed (simp add: fun_eq_iff)

lemma bt_ordered_distinct: "bt_ordered xs \<Longrightarrow> distinct (map fst xs)"
  by (simp add: strict_sorted_iff)

section \<open>Blocks and graphs\<close>

record basic_block =
  bb_id :: block_id
  bb_statements :: "statement list"
  bb_terminator :: terminator

record cfg_exception_handler =
  ceh_try_block_start :: block_id
  ceh_catch_block :: block_id
  ceh_try_blocks :: "block_id list"

record cfg =
  cfg_entry :: block_id
  cfg_blocks :: "(block_id \<times> basic_block) list"
  cfg_next_id :: u32
  cfg_exception_handlers :: "cfg_exception_handler list"
  cfg_offset_to_block :: "u32 \<rightharpoonup> block_id"

definition new_block :: "block_id \<Rightarrow> basic_block" where
  "new_block i = \<lparr>bb_id = i, bb_statements = [], bb_terminator = KNone\<rparr>"

definition push_stmt :: "statement \<Rightarrow> basic_block \<Rightarrow> basic_block" where
  "push_stmt s b = b\<lparr>bb_statements := bb_statements b @ [s]\<rparr>"

definition set_terminator :: "terminator \<Rightarrow> basic_block \<Rightarrow> basic_block" where
  "set_terminator t b = b\<lparr>bb_terminator := t\<rparr>"

definition block_successors :: "basic_block \<Rightarrow> block_id list" where
  "block_successors b = terminator_successors (bb_terminator b)"

definition new_cfg :: cfg where
  "new_cfg = \<lparr>cfg_entry = 0, cfg_blocks = [(0, new_block 0)], cfg_next_id = 1,
     cfg_exception_handlers = [], cfg_offset_to_block = Map.empty\<rparr>"

definition create_block :: "cfg \<Rightarrow> block_id \<times> cfg" where
  "create_block g =
     (let i = cfg_next_id g in
      (i, g\<lparr>cfg_next_id := i + 1, cfg_blocks := bt_insert i (new_block i) (cfg_blocks g)\<rparr>))"

definition get_block :: "cfg \<Rightarrow> block_id \<Rightarrow> basic_block option" where
  "get_block g i = map_of (cfg_blocks g) i"

text \<open>An edit through \<open>get_mut\<close>: nothing happens when the block is not there.\<close>

definition update_block :: "block_id \<Rightarrow> (basic_block \<Rightarrow> basic_block) \<Rightarrow> cfg \<Rightarrow> cfg" where
  "update_block i f g = g\<lparr>cfg_blocks := map (\<lambda>(k, b). (k, if k = i then f b else b)) (cfg_blocks g)\<rparr>"

definition blocks :: "cfg \<Rightarrow> basic_block list" where
  "blocks g = map snd (cfg_blocks g)"

definition block_ids :: "cfg \<Rightarrow> block_id list" where
  "block_ids g = map fst (cfg_blocks g)"

definition block_count :: "cfg \<Rightarrow> nat" where
  "block_count g = length (cfg_blocks g)"

definition predecessors :: "cfg \<Rightarrow> block_id \<Rightarrow> block_id list" where
  "predecessors g target =
     map bb_id (filter (\<lambda>b. target \<in> set (block_successors b)) (blocks g))"

text \<open>The blocks an exception edge into \<open>catch\<close> can come from, each once.\<close>

definition exception_edge_sources :: "cfg \<Rightarrow> block_id \<Rightarrow> block_id list" where
  "exception_edge_sources g catch_id =
     fold (\<lambda>h out. if ceh_catch_block h \<noteq> catch_id then out
                   else fold (\<lambda>b out. if b \<in> set out then out else out @ [b]) (ceh_try_blocks h) out)
       (cfg_exception_handlers g) []"

section \<open>Depth-first search\<close>

type_synonym dfs_state = "block_id set \<times> block_id list"

definition successors_of :: "cfg \<Rightarrow> block_id \<Rightarrow> block_id list" where
  "successors_of g i = (case get_block g i of Some b \<Rightarrow> block_successors b | None \<Rightarrow> [])"

function postorder_visit_all :: "cfg \<Rightarrow> block_id list \<Rightarrow> dfs_state \<Rightarrow> dfs_state" where
  "postorder_visit_all g [] st = st"
| "postorder_visit_all g (b # bs) st =
     (if b \<in> fst st then postorder_visit_all g bs st
      else let st' = postorder_visit_all g (successors_of g b) (insert b (fst st), snd st) in
           postorder_visit_all g bs (fst st', snd st' @ [b]))"
  by pat_completeness auto

lemma visit_all_grows:
  "postorder_visit_all_dom (g, bs, st) \<Longrightarrow> fst st \<subseteq> fst (postorder_visit_all g bs st)"
proof (induction g bs st rule: postorder_visit_all.pinduct)
  case (1 g st)
  then show ?case by (simp add: postorder_visit_all.psimps)
next
  case (2 g b bs st)
  obtain vis res where st': "postorder_visit_all g (successors_of g b) (insert b (fst st), snd st) = (vis, res)"
    by fastforce
  show ?case
  proof (cases "b \<in> fst st")
    case False
    with 2 st' have "insert b (fst st) \<subseteq> vis" "vis \<subseteq> fst (postorder_visit_all g bs (vis, res @ [b]))" by auto
    with False 2 st' show ?thesis by (auto simp: postorder_visit_all.psimps)
  qed (use 2 in \<open>simp add: postorder_visit_all.psimps\<close>)
qed

lemma successors_of_missing: "b \<notin> fst ` set (cfg_blocks g) \<Longrightarrow> successors_of g b = []"
  by (force simp: successors_of_def get_block_def split: option.splits dest!: map_of_SomeD)

termination postorder_visit_all
proof (relation "measures [\<lambda>(g, bs, st). card (fst ` set (cfg_blocks g) - fst st), \<lambda>(g, bs, st). length bs]")
  fix g :: cfg and b bs and st :: dfs_state
  assume new: "b \<notin> fst st"
  let ?keys = "fst ` set (cfg_blocks g)"
  show "((g, successors_of g b, insert b (fst st), snd st), g, b # bs, st)
      \<in> measures [\<lambda>(g, bs, st). card (fst ` set (cfg_blocks g) - fst st), \<lambda>(g, bs, st). length bs]"
  proof (cases "b \<in> ?keys")
    case True
    with new have "?keys - insert b (fst st) \<subset> ?keys - fst st" by auto
    then have "card (?keys - insert b (fst st)) < card (?keys - fst st)" by (intro psubset_card_mono) auto
    then show ?thesis by simp
  next
    case False
    then show ?thesis by (simp add: successors_of_missing)
  qed
next
  fix g :: cfg and b bs and st st' :: dfs_state
  assume new: "b \<notin> fst st" and st': "st' = postorder_visit_all g (successors_of g b) (insert b (fst st), snd st)"
    and dom: "postorder_visit_all_dom (g, successors_of g b, insert b (fst st), snd st)"
  let ?keys = "fst ` set (cfg_blocks g)"
  have "fst st \<subseteq> fst st'" using visit_all_grows[OF dom] st' by auto
  then have "card (?keys - fst st') \<le> card (?keys - fst st)" by (intro card_mono) auto
  then show "((g, bs, fst st', snd st' @ [b]), g, b # bs, st)
      \<in> measures [\<lambda>(g, bs, st). card (fst ` set (cfg_blocks g) - fst st), \<lambda>(g, bs, st). length bs]"
    by auto
qed auto

definition postorder_visit :: "cfg \<Rightarrow> block_id \<Rightarrow> dfs_state \<Rightarrow> dfs_state" where
  "postorder_visit g b st = postorder_visit_all g [b] st"

text \<open>\<open>postorder_visit\<close> is the recursion of the code.\<close>

lemma postorder_visit_all_fold: "postorder_visit_all g bs st = fold (postorder_visit g) bs st"
proof (induction bs arbitrary: st)
  case (Cons b bs)
  then show ?case by (simp add: postorder_visit_def Let_def)
qed simp

lemma postorder_visit_eq:
  "postorder_visit g b (visited, result) =
     (if b \<in> visited then (visited, result)
      else let (visited, result) = fold (postorder_visit g) (successors_of g b) (insert b visited, result) in
           (visited, result @ [b]))"
  by (subst postorder_visit_def) (simp add: Let_def split_beta postorder_visit_all_fold[of g "successors_of g b", symmetric])

definition roots :: "cfg \<Rightarrow> block_id list" where
  "roots g = cfg_entry g # map ceh_catch_block (cfg_exception_handlers g)"

definition postorder :: "cfg \<Rightarrow> block_id list" where
  "postorder g = snd (fold (postorder_visit g) (roots g) ({}, []))"

definition reverse_postorder :: "cfg \<Rightarrow> block_id list" where
  "reverse_postorder g = rev (postorder g)"

section \<open>What the search visits\<close>

text \<open>Reachability from a root: the entry or a catch block.\<close>

inductive reachable :: "cfg \<Rightarrow> block_id \<Rightarrow> bool" for g where
  root: "b \<in> set (roots g) \<Longrightarrow> reachable g b"
| succ: "reachable g a \<Longrightarrow> b \<in> set (successors_of g a) \<Longrightarrow> reachable g b"

lemma visit_all_appends:
  "\<exists>ext. snd (postorder_visit_all g bs st) = snd st @ ext \<and> distinct ext
     \<and> set ext = fst (postorder_visit_all g bs st) - fst st \<and> fst st \<subseteq> fst (postorder_visit_all g bs st)"
proof (induction g bs st rule: postorder_visit_all.induct)
  case (2 g b bs st)
  show ?case
  proof (cases "b \<in> fst st")
    case False
    obtain vis res where st': "postorder_visit_all g (successors_of g b) (insert b (fst st), snd st) = (vis, res)"
      by fastforce
    from 2(2)[OF False] st' obtain e1 where e1: "res = snd st @ e1" "distinct e1"
      "set e1 = vis - insert b (fst st)" "insert b (fst st) \<subseteq> vis" by auto
    from 2(3)[OF False refl] st' obtain e2 where e2: "snd (postorder_visit_all g bs (vis, res @ [b])) = res @ b # e2"
      "distinct e2" "set e2 = fst (postorder_visit_all g bs (vis, res @ [b])) - vis"
      "vis \<subseteq> fst (postorder_visit_all g bs (vis, res @ [b]))" by auto
    show ?thesis
      using False st' e1 e2 by (intro exI[of _ "e1 @ b # e2"]) auto
  qed (use 2(1) in simp)
qed simp

lemma visit_all_closed:
  "\<lbrakk>a \<in> fst (postorder_visit_all g bs st); a \<notin> fst st\<rbrakk>
     \<Longrightarrow> set (successors_of g a) \<subseteq> fst (postorder_visit_all g bs st)"
  "set bs \<subseteq> fst (postorder_visit_all g bs st)"
proof (induction g bs st rule: postorder_visit_all.induct)
  case (2 g b bs st)
  obtain vis res where st': "postorder_visit_all g (successors_of g b) (insert b (fst st), snd st) = (vis, res)"
    by fastforce
  have grow: "vis \<subseteq> fst (postorder_visit_all g bs (vis, res @ [b]))"
    using visit_all_appends[of g bs "(vis, res @ [b])"] by auto
  have grow0: "insert b (fst st) \<subseteq> vis"
    using visit_all_appends[of g "successors_of g b" "(insert b (fst st), snd st)"] st' by auto
  have grow1: "fst st \<subseteq> fst (postorder_visit_all g bs st)" using visit_all_appends[of g bs st] by auto
  { case 1
    show ?case
    proof (cases "b \<in> fst st")
      case True
      then show ?thesis using 1 2(1) by simp
    next
      case False
      consider "a = b" | "a \<in> vis" "a \<noteq> b" | "a \<notin> vis" by blast
      then show ?thesis
      proof cases
        case 1
        with 2(4)[OF False] st' grow False show ?thesis by auto
      next
        case 2
        with "2.IH"(3)[OF False] st' grow False \<open>a \<notin> fst st\<close> show ?thesis by auto
      next
        case 3
        with "2.IH"(5)[OF False refl] st' False \<open>a \<in> fst (postorder_visit_all g (b # bs) st)\<close> show ?thesis by auto
      qed
    qed
  next
    case 2
    show ?case
    proof (cases "b \<in> fst st")
      case True
      then show ?thesis using "2.IH"(2)[OF True] grow1 by auto
    next
      case False
      then show ?thesis using "2.IH"(6)[OF False refl] st' grow grow0 by auto
    qed }
qed simp_all

lemma visit_all_reachable:
  "\<lbrakk>\<forall>b \<in> set bs. reachable g b; \<forall>b \<in> fst st. reachable g b\<rbrakk>
     \<Longrightarrow> \<forall>a \<in> fst (postorder_visit_all g bs st). reachable g a"
proof (induction g bs st rule: postorder_visit_all.induct)
  case (2 g b bs st)
  show ?case
  proof (cases "b \<in> fst st")
    case True
    then show ?thesis using 2(1)[OF True] 2(4,5) by simp
  next
    case False
    have "\<forall>a \<in> fst (postorder_visit_all g (successors_of g b) (insert b (fst st), snd st)). reachable g a"
    proof (rule 2(2)[OF False])
      show "\<forall>a \<in> set (successors_of g b). reachable g a" using 2(4) by (auto intro: reachable.succ)
      show "\<forall>a \<in> fst (insert b (fst st), snd st). reachable g a" using 2(4,5) by simp
    qed
    then have "\<forall>a \<in> fst (postorder_visit_all g bs
        (fst (postorder_visit_all g (successors_of g b) (insert b (fst st), snd st)),
         snd (postorder_visit_all g (successors_of g b) (insert b (fst st), snd st)) @ [b])). reachable g a"
      using 2(4) by (intro 2(3)[OF False refl]) simp_all
    moreover have "postorder_visit_all g (b # bs) st = postorder_visit_all g bs
        (fst (postorder_visit_all g (successors_of g b) (insert b (fst st), snd st)),
         snd (postorder_visit_all g (successors_of g b) (insert b (fst st), snd st)) @ [b])"
      using False by (simp add: Let_def)
    ultimately show ?thesis by (simp only:)
  qed
qed simp

lemma postorder_eq: "postorder g = snd (postorder_visit_all g (roots g) ({}, []))"
  by (simp add: postorder_def postorder_visit_all_fold)

lemma set_postorder: "set (postorder g) = {b. reachable g b}" and distinct_postorder: "distinct (postorder g)"
proof -
  let ?st = "postorder_visit_all g (roots g) ({}, [])"
  obtain ext where ext: "snd ?st = ext" "distinct ext" "set ext = fst ?st"
    using visit_all_appends[of g "roots g" "({}, [])"] by auto
  then show "distinct (postorder g)" by (simp add: postorder_eq)
  have "reachable g b \<Longrightarrow> b \<in> fst ?st" for b
  proof (induction rule: reachable.induct)
    case (root b)
    then show ?case using visit_all_closed(2)[of "roots g" g "({}, [])"] by auto
  next
    case (succ a b)
    then show ?case using visit_all_closed(1)[of a g "roots g" "({}, [])"] by auto
  qed
  moreover have "a \<in> fst ?st \<Longrightarrow> reachable g a" for a
    using visit_all_reachable[of "roots g" g "({}, [])"] by (auto intro: reachable.root)
  ultimately show "set (postorder g) = {b. reachable g b}" using ext by (auto simp: postorder_eq)
qed

lemma set_reverse_postorder [simp]: "set (reverse_postorder g) = {b. reachable g b}"
  by (simp add: reverse_postorder_def set_postorder)

section \<open>Blocks that carry their own ids\<close>

definition ids_match :: "cfg \<Rightarrow> bool" where
  "ids_match g \<longleftrightarrow> (\<forall>(i, block) \<in> set (cfg_blocks g). bb_id block = i)"

lemma ids_matchD: "ids_match g \<Longrightarrow> get_block g b = Some block \<Longrightarrow> bb_id block = b \<and> block \<in> set (blocks g)"
  by (force simp: ids_match_def get_block_def blocks_def dest!: map_of_SomeD)

lemma predecessors_iff:
  assumes "ids_match g" "bt_ordered (cfg_blocks g)"
  shows "p \<in> set (predecessors g b) \<longleftrightarrow> b \<in> set (successors_of g p)"
proof
  assume "b \<in> set (successors_of g p)"
  then obtain block where "get_block g p = Some block" "b \<in> set (block_successors block)"
    by (cases "get_block g p") (auto simp: successors_of_def)
  with ids_matchD[OF assms(1)] show "p \<in> set (predecessors g b)" by (force simp: predecessors_def)
next
  assume "p \<in> set (predecessors g b)"
  then obtain block where "block \<in> set (blocks g)" "b \<in> set (block_successors block)" "p = bb_id block"
    by (auto simp: predecessors_def)
  moreover from this have "get_block g p = Some block"
    using assms bt_ordered_distinct[OF assms(2)] by (fastforce simp: blocks_def ids_match_def get_block_def)
  ultimately show "b \<in> set (successors_of g p)" by (simp add: successors_of_def)
qed

end
