(* ===== verification/Dataflow.thy ===== *)
theory Dataflow
  imports Cfg "HOL-Library.While_Combinator"
begin

text \<open>
  The fixed-point loop shared by the analyses: sweeps over a list of blocks, each visit
  updating the state and reporting whether it changed anything, until a sweep changes nothing
  (\<open>while changed { changed = false; for block in order { ... } }\<close>).  The interface \<open>sweeping\<close>
  says what the visits of an analysis promise; termination and the fixed point follow from it
  once.  Facts of a state of the analyses are maps from blocks to finite sets.
\<close>

section \<open>The loop\<close>

definition sweep :: "('b \<Rightarrow> 's \<Rightarrow> 's \<times> bool) \<Rightarrow> 'b list \<Rightarrow> 's \<Rightarrow> 's \<times> bool" where
  "sweep visit order s =
     fold (\<lambda>b (s, changed). let (s', c) = visit b s in (s', changed \<or> c)) order (s, False)"

definition run_sweeps :: "('b \<Rightarrow> 's \<Rightarrow> 's \<times> bool) \<Rightarrow> 'b list \<Rightarrow> 's \<Rightarrow> 's option" where
  "run_sweeps visit order s =
     map_option fst (while_option snd (\<lambda>(s, _). sweep visit order s) (s, True))"

locale sweeping =
  fixes visit :: "'b \<Rightarrow> 's \<Rightarrow> 's \<times> bool" and members :: "'b set" and inv :: "'s \<Rightarrow> bool" and rank :: "'s \<Rightarrow> nat"
  assumes keeps: "\<lbrakk>b \<in> members; inv s\<rbrakk> \<Longrightarrow> inv (fst (visit b s))"
    and quiet: "\<lbrakk>b \<in> members; inv s; \<not> snd (visit b s)\<rbrakk> \<Longrightarrow> fst (visit b s) = s"
    and progress: "\<lbrakk>b \<in> members; inv s; snd (visit b s)\<rbrakk> \<Longrightarrow> rank (fst (visit b s)) < rank s"
begin

lemma sweep_steps:
  assumes "set order \<subseteq> members" "inv s"
  shows "inv (fst (sweep visit order s))"
    and "snd (sweep visit order s) \<Longrightarrow> rank (fst (sweep visit order s)) < rank s"
    and "\<not> snd (sweep visit order s) \<Longrightarrow> fst (sweep visit order s) = s \<and> (\<forall>b \<in> set order. \<not> snd (visit b s))"
proof -
  let ?f = "\<lambda>b (s, changed). let (s', c) = visit b s in (s', changed \<or> c)"
  have "inv (fst (fold ?f order (s, c)))
      \<and> (if snd (fold ?f order (s, c))
         then c \<and> fst (fold ?f order (s, c)) = s \<or> rank (fst (fold ?f order (s, c))) < rank s
         else \<not> c \<and> fst (fold ?f order (s, c)) = s \<and> (\<forall>b \<in> set order. \<not> snd (visit b s)))" for c
    using assms
  proof (induction order arbitrary: s c)
    case (Cons b order)
    obtain s' d where v: "visit b s = (s', d)" by fastforce
    have i: "inv s'" using keeps[of b s] Cons.prems v by simp
    note IH = Cons.IH[OF _ i, of "c \<or> d"]
    show ?case
    proof (cases d)
      case True
      with progress[of b s] Cons.prems v have "rank s' < rank s" by simp
      with IH Cons.prems v True show ?thesis by (auto split: if_splits)
    next
      case False
      with quiet[of b s] Cons.prems v have "s' = s" by simp
      with IH Cons.prems v False show ?thesis by (auto split: if_splits)
    qed
  qed simp
  from this[of False] show "inv (fst (sweep visit order s))"
    and "snd (sweep visit order s) \<Longrightarrow> rank (fst (sweep visit order s)) < rank s"
    and "\<not> snd (sweep visit order s) \<Longrightarrow> fst (sweep visit order s) = s \<and> (\<forall>b \<in> set order. \<not> snd (visit b s))"
    by (auto simp: sweep_def split: if_splits)
qed

text \<open>The loop ends, in a state that no visit changes.\<close>

lemma sweeps_reach_fixpoint:
  assumes "set order \<subseteq> members" "inv s"
  obtains t where "run_sweeps visit order s = Some t" "inv t" "\<forall>b \<in> set order. \<not> snd (visit b t)"
proof -
  let ?step = "\<lambda>(s, _ :: bool). sweep visit order s"
  let ?P = "\<lambda>(s, c). inv s \<and> (\<not> c \<longrightarrow> (\<forall>b \<in> set order. \<not> snd (visit b s)))"
  have P: "?P (?step p)" if "?P p" for p
    using that sweep_steps[OF assms(1), of "fst p"] by (auto simp: split_beta)
  let ?m = "\<lambda>(s, c). if c then rank s + 1 else 0"
  have "\<exists>p. while_option snd ?step (s, True) = Some p"
  proof (rule measure_while_option_Some[where P = ?P and f = ?m])
    show "?P (?step p) \<and> ?m (?step p) < ?m p" if "?P p" "snd p" for p
      using that P[of p] sweep_steps(2)[OF assms(1), of "fst p"] by (auto simp: split_beta)
    show "?P (s, True)" using assms by simp
  qed
  then obtain t c where w: "while_option snd ?step (s, True) = Some (t, c)" by auto
  have "?P (t, c)" by (rule while_option_rule[OF _ w]) (use P assms in auto)
  moreover have "\<not> c" using while_option_stop[OF w] by simp
  ultimately show thesis using w by (intro that[of t]) (auto simp: run_sweeps_def)
qed

end

section \<open>Maps from blocks to sets\<close>

definition facts :: "('k \<rightharpoonup> 'a set) \<Rightarrow> 'k \<Rightarrow> 'a set" where
  "facts m k = (case m k of Some S \<Rightarrow> S | None \<Rightarrow> {})"

lemma facts_upd: "facts (m(k \<mapsto> S)) = (facts m)(k := S)"
  by (auto simp: facts_def fun_eq_iff)

text \<open>What a growing map still lacks of a finite set of facts.\<close>

definition lacking :: "'a set \<Rightarrow> 'k set \<Rightarrow> ('k \<Rightarrow> 'a set) \<Rightarrow> nat" where
  "lacking U keys f = (\<Sum>k \<in> keys. card (U - f k))"

lemma lacking_le:
  "\<lbrakk>finite U; f k \<subseteq> S\<rbrakk> \<Longrightarrow> lacking U keys (f(k := S)) \<le> lacking U keys f"
  unfolding lacking_def by (rule sum_mono) (auto intro!: card_mono)

lemma lacking_less:
  assumes "finite U" "finite keys" "k \<in> keys" "f k \<subset> S" "S \<subseteq> U"
  shows "lacking U keys (f(k := S)) < lacking U keys f"
  unfolding lacking_def
proof (rule sum_strict_mono_ex1)
  show "finite keys" by fact
  show "\<forall>x \<in> keys. card (U - (f(k := S)) x) \<le> card (U - f x)"
    using assms by (auto intro!: card_mono)
  have "U - S \<subset> U - f k" using assms by auto
  then have "card (U - S) < card (U - f k)" by (rule psubset_card_mono[rotated]) (simp add: assms)
  then show "\<exists>x \<in> keys. card (U - (f(k := S)) x) < card (U - f x)" using assms(3) by auto
qed

text \<open>What a shrinking map still holds.\<close>

definition holding :: "'k set \<Rightarrow> ('k \<Rightarrow> 'a set) \<Rightarrow> nat" where
  "holding keys f = (\<Sum>k \<in> keys. card (f k))"

lemma holding_less:
  assumes "finite keys" "k \<in> keys" "S \<subset> f k" "finite (f k)"
  shows "holding keys (f(k := S)) < holding keys f"
  unfolding holding_def
proof (rule sum_strict_mono_ex1)
  show "finite keys" by fact
  show "\<forall>x \<in> keys. card ((f(k := S)) x) \<le> card (f x)" using assms by (auto intro!: card_mono)
  have "card S < card (f k)" using assms by (intro psubset_card_mono)
  then show "\<exists>x \<in> keys. card ((f(k := S)) x) < card (f x)" using assms(2) by auto
qed

section \<open>A sample graph\<close>

text \<open>A loop: \<open>r0 = 1; do r0 = -r0 while r0; return r0\<close>.\<close>

definition sample_loop :: cfg where
  "sample_loop = \<lparr>cfg_entry = 0, cfg_blocks =
     [(0, \<lparr>bb_id = 0, bb_statements = [SAssign (TBinding (BRegister 0)) (EValue (VConstant (CInteger 1)))],
        bb_terminator = KJump 1\<rparr>),
      (1, \<lparr>bb_id = 1, bb_statements = [SAssign (TBinding (BRegister 0)) (EUnary OpNeg (EReg 0))],
        bb_terminator = KBranch (EReg 0) 1 2\<rparr>),
      (2, \<lparr>bb_id = 2, bb_statements = [], bb_terminator = KReturn (Some (EReg 0))\<rparr>)],
     cfg_next_id = 3, cfg_exception_handlers = [], cfg_offset_to_block = Map.empty\<rparr>"

end
