(* ===== verification/Ssa_Reads.thy ===== *)
theory Ssa_Reads
  imports Ir_Walk
begin

text \<open>
  The visitors of live-range splitting (\<open>crates/hbc-decomp/src/transforms/ssa.rs\<close>): the registers a
  statement or a terminator reads, and the rewriting of those reads through a map.  The register
  a plain assignment writes is neither collected nor rewritten.
\<close>

section \<open>Registers read\<close>

fun read_register :: "expression \<Rightarrow> reg option" where
  "read_register (EValue (VBinding (BRegister r))) = Some r"
| "read_register _ = None"

fun is_binding :: "assign_target \<Rightarrow> bool" where
  "is_binding (TBinding _) = True"
| "is_binding _ = False"

function part_reads :: "ir_part \<Rightarrow> reg set" where
  "part_reads (PartE e) = set_option (read_register e) \<union> \<Union>(set (map part_reads (expr_parts e)))"
| "part_reads (PartT t) = (if is_binding t then {} else \<Union>(set (map part_reads (target_parts t))))"
| "part_reads (PartS s) = \<Union>(set (map part_reads (stmt_parts s)))"
| "part_reads (PartName _) = {}"
  by pat_completeness auto

lemma only_expressions: "p \<in> set (key_parts key) \<union> set (opt_part d) \<Longrightarrow> \<exists>e. p = PartE e"
  by (cases key; auto simp: opt_part_def split: option.splits)

lemma no_stmt_part:
  "p \<in> set (expr_parts e) \<Longrightarrow> (\<exists>e. p = PartE e) \<or> (\<exists>t. p = PartT t)"
  "p \<in> set (target_parts t) \<Longrightarrow> (\<exists>e. p = PartE e) \<or> (\<exists>t. p = PartT t)"
proof -
  show "p \<in> set (expr_parts e) \<Longrightarrow> (\<exists>e. p = PartE e) \<or> (\<exists>t. p = PartT t)"
    by (cases e) (auto dest: only_expressions[OF UnI1] only_expressions[OF UnI2])
  show "p \<in> set (target_parts t) \<Longrightarrow> (\<exists>e. p = PartE e) \<or> (\<exists>t. p = PartT t)"
    by (cases t) (auto simp: element_parts_def property_parts_def dest: only_expressions[OF UnI2] split: option.splits)
qed

termination part_reads
proof (relation "measures [\<lambda>p. case p of PartS _ \<Rightarrow> 1 | _ \<Rightarrow> 0, part_size]")
  fix p e assume p: "p \<in> set (expr_parts e)"
  show "(p, PartE e) \<in> measures [\<lambda>p. case p of PartS _ \<Rightarrow> 1 | _ \<Rightarrow> 0, part_size]"
    using expr_parts_smaller[OF p] no_stmt_part(1)[OF p] by auto
next
  fix p t assume p: "p \<in> set (target_parts t)"
  show "(p, PartT t) \<in> measures [\<lambda>p. case p of PartS _ \<Rightarrow> 1 | _ \<Rightarrow> 0, part_size]"
    using target_parts_smaller[OF p] no_stmt_part(2)[OF p] by auto
next
  fix p s assume "p \<in> set (stmt_parts s)"
  from stmt_parts_smaller[of _ s] this show "(p, PartS s) \<in> measures [\<lambda>p. case p of PartS _ \<Rightarrow> 1 | _ \<Rightarrow> 0, part_size]"
    by (rule_tac ir_part.exhaust[of p]) auto
qed simp

definition stmt_reads :: "statement \<Rightarrow> reg set" where
  "stmt_reads s = part_reads (PartS s)"

definition collect_reg_reads :: "expression \<Rightarrow> reg set" where
  "collect_reg_reads e = part_reads (PartE e)"

fun terminator_reads :: "terminator \<Rightarrow> reg set" where
  "terminator_reads (KReturn (Some e)) = collect_reg_reads e"
| "terminator_reads (KThrow e) = collect_reg_reads e"
| "terminator_reads (KBranch c _ _) = collect_reg_reads c"
| "terminator_reads (KSwitch v _ _) = collect_reg_reads v"
| "terminator_reads _ = {}"

section \<open>Rewriting reads\<close>

type_synonym read_map = "reg \<rightharpoonup> reg"

function rewrite_expr :: "read_map \<Rightarrow> expression \<Rightarrow> expression"
  and rewrite_target :: "read_map \<Rightarrow> assign_target \<Rightarrow> assign_target" where
  "rewrite_expr m e =
     (case read_register e of
        Some r \<Rightarrow> (case m r of Some v \<Rightarrow> EReg v | None \<Rightarrow> e)
      | None \<Rightarrow> walk_expression_mut (rewrite_expr m) (rewrite_target m) e)"
| "rewrite_target m t =
     (if is_binding t then t else walk_target_mut (rewrite_expr m) (rewrite_target m) t)"
  by pat_completeness auto

termination rewrite_expr
  by (relation "measure (\<lambda>x. case x of Inl (_, e) \<Rightarrow> size e | Inr (_, t) \<Rightarrow> size t)")
    (auto dest!: expr_parts_smaller target_parts_smaller)

function rewrite_reads_in_stmt :: "read_map \<Rightarrow> statement \<Rightarrow> statement" where
  "rewrite_reads_in_stmt m s =
     walk_statement_mut (rewrite_expr m) (rewrite_target m) (rewrite_reads_in_stmt m) (\<lambda>n. n) s"
  by pat_completeness auto

termination rewrite_reads_in_stmt
  by (relation "measure (\<lambda>(_, s). size s)") (auto dest!: stmt_parts_smaller)

fun rewrite_reads_in_terminator :: "read_map \<Rightarrow> terminator \<Rightarrow> terminator" where
  "rewrite_reads_in_terminator m (KReturn (Some e)) = KReturn (Some (rewrite_expr m e))"
| "rewrite_reads_in_terminator m (KThrow e) = KThrow (rewrite_expr m e)"
| "rewrite_reads_in_terminator m (KBranch c t f) = KBranch (rewrite_expr m c) t f"
| "rewrite_reads_in_terminator m (KSwitch v cs d) = KSwitch (rewrite_expr m v) cs d"
| "rewrite_reads_in_terminator m t = t"

declare part_reads.simps [simp del] rewrite_expr.simps [simp del] rewrite_target.simps [simp del]
  rewrite_reads_in_stmt.simps [simp del]

section \<open>What the rewriter does to the reads\<close>

definition rename_reg :: "read_map \<Rightarrow> reg \<Rightarrow> reg" where
  "rename_reg m r = (case m r of Some v \<Rightarrow> v | None \<Rightarrow> r)"

lemma read_register_Some: "read_register e = Some r \<longleftrightarrow> e = EReg r"
  by (cases e rule: read_register.cases) auto

lemma read_register_walk: "read_register (walk_expression_mut fe ft e) = read_register e"
  by (cases e rule: read_register.cases) auto

lemma is_binding_walk: "is_binding (walk_target_mut fe ft t) = is_binding t"
  by (cases t) auto

lemma reads_of_parts:
  assumes "\<And>p. p \<in> set ps \<Longrightarrow> part_reads (map_part fe ft fs fn p) = f ` part_reads p"
  shows "\<Union>(set (map part_reads (map (map_part fe ft fs fn) ps))) = f ` \<Union>(set (map part_reads ps))"
  using assms by (induction ps) auto

lemma reads_rewrite_expr: "part_reads (PartE (rewrite_expr m e)) = rename_reg m ` part_reads (PartE e)"
  and reads_rewrite_target: "part_reads (PartT (rewrite_target m t)) = rename_reg m ` part_reads (PartT t)"
proof (induction m e and m t rule: rewrite_expr_rewrite_target.induct)
  case (1 m e)
  show ?case
  proof (cases "read_register e")
    case None
    have "part_reads (map_part (rewrite_expr m) (rewrite_target m) (\<lambda>s. s) (\<lambda>n. n) p) = rename_reg m ` part_reads p"
      if "p \<in> set (expr_parts e)" for p
      using that 1[OF None] no_stmt_part(1)[OF that] by auto
    from reads_of_parts[OF this] None show ?thesis
      by (simp add: rewrite_expr.simps[of m e] part_reads.simps(1) read_register_walk
          expr_parts_mut[where fs = "\<lambda>s. s" and fn = "\<lambda>n. n"] del: map_map)
  next
    case (Some r)
    then show ?thesis
      by (auto simp: read_register_Some rewrite_expr.simps[of m "EReg r"] part_reads.simps(1) rename_reg_def split: option.splits)
  qed
next
  case (2 m t)
  show ?case
  proof (cases "is_binding t")
    case False
    have "part_reads (map_part (rewrite_expr m) (rewrite_target m) (\<lambda>s. s) (\<lambda>n. n) p) = rename_reg m ` part_reads p"
      if "p \<in> set (target_parts t)" for p
      using that 2[OF False] no_stmt_part(2)[OF that] by auto
    from reads_of_parts[OF this] False show ?thesis
      by (simp add: rewrite_target.simps[of m t] part_reads.simps(2) is_binding_walk
          target_parts_mut[where fs = "\<lambda>s. s" and fn = "\<lambda>n. n"] del: map_map)
  qed (simp add: rewrite_target.simps part_reads.simps)
qed

lemma reads_rewrite_stmt: "stmt_reads (rewrite_reads_in_stmt m s) = rename_reg m ` stmt_reads s"
proof (induction m s rule: rewrite_reads_in_stmt.induct)
  case (1 m s)
  have "part_reads (map_part (rewrite_expr m) (rewrite_target m) (rewrite_reads_in_stmt m) (\<lambda>n. n) p) = rename_reg m ` part_reads p"
    if "p \<in> set (stmt_parts s)" for p
    by (rule ir_part.exhaust[of p]) (use that 1 in \<open>auto simp: stmt_reads_def reads_rewrite_expr reads_rewrite_target part_reads.simps(4)\<close>)
  from reads_of_parts[OF this] show ?case
    by (simp add: stmt_reads_def rewrite_reads_in_stmt.simps[of m s] part_reads.simps(3) stmt_parts_mut del: map_map)
qed

lemma reads_rewrite_terminator: "terminator_reads (rewrite_reads_in_terminator m t) = rename_reg m ` terminator_reads t"
  by (cases t rule: terminator_reads.cases) (simp_all add: collect_reg_reads_def reads_rewrite_expr)

lemma assigned_rewrite: "assigned_reg (rewrite_reads_in_stmt m s) = assigned_reg s"
  by (cases s rule: assigned_reg.cases) (simp_all add: rewrite_reads_in_stmt.simps rewrite_target.simps)

lemma successors_rewrite: "terminator_successors (rewrite_reads_in_terminator m t) = terminator_successors t"
  by (cases t rule: terminator_reads.cases) simp_all

end
