(* ===== verification/Liveness.thy ===== *)
theory Liveness
  imports Dataflow Ssa_Reads
begin

text \<open>
  Liveness of registers (\<open>crates/hbc-decomp/src/analysis/liveness.rs\<close>).  The uses and
  definitions of a block are collected as the code does; the specification is by paths: a
  register is live where some path reads it before any block on the way assigns it.  What a
  statement reads is every register that occurs in it, by the complete traversal of
  \<open>Ssa_Reads\<close>; the collection of the analysis enters only some kinds of expression, so the
  analysis is sound on every graph and complete where only those occur.
\<close>

record liveness_info =
  live_in :: "block_id \<rightharpoonup> reg set"
  live_out :: "block_id \<rightharpoonup> reg set"

section \<open>Uses and definitions of a block\<close>

fun collect_expr_uses :: "expression \<Rightarrow> reg set \<Rightarrow> reg set \<Rightarrow> reg set" where
  "collect_expr_uses (EValue (VBinding (BRegister r))) uses defs = (if r \<notin> defs then insert r uses else uses)"
| "collect_expr_uses (EBinary _ left right) uses defs =
     collect_expr_uses right (collect_expr_uses left uses defs) defs"
| "collect_expr_uses (EUnary _ operand) uses defs = collect_expr_uses operand uses defs"
| "collect_expr_uses (ECall callee arguments) uses defs =
     fold (\<lambda>arg uses. collect_expr_uses arg uses defs) arguments (collect_expr_uses callee uses defs)"
| "collect_expr_uses (ENew callee arguments) uses defs =
     fold (\<lambda>arg uses. collect_expr_uses arg uses defs) arguments (collect_expr_uses callee uses defs)"
| "collect_expr_uses (EMember object _ _) uses defs = collect_expr_uses object uses defs"
| "collect_expr_uses _ uses defs = uses"

fun collect_stmt_uses :: "statement \<Rightarrow> reg set \<Rightarrow> reg set \<Rightarrow> reg set" where
  "collect_stmt_uses (SExpr e) uses defs = collect_expr_uses e uses defs"
| "collect_stmt_uses (SThrow e) uses defs = collect_expr_uses e uses defs"
| "collect_stmt_uses (SLet _ e _) uses defs = collect_expr_uses e uses defs"
| "collect_stmt_uses (SAssign _ e) uses defs = collect_expr_uses e uses defs"
| "collect_stmt_uses (SReturn (Some e)) uses defs = collect_expr_uses e uses defs"
| "collect_stmt_uses _ uses defs = uses"

definition collect_stmt_defs :: "statement \<Rightarrow> reg set \<Rightarrow> reg set" where
  "collect_stmt_defs stmt defs = (case assigned_reg stmt of Some r \<Rightarrow> insert r defs | None \<Rightarrow> defs)"

fun collect_terminator_uses :: "terminator \<Rightarrow> reg set \<Rightarrow> reg set \<Rightarrow> reg set" where
  "collect_terminator_uses (KReturn (Some e)) uses defs = collect_expr_uses e uses defs"
| "collect_terminator_uses (KThrow e) uses defs = collect_expr_uses e uses defs"
| "collect_terminator_uses (KBranch c _ _) uses defs = collect_expr_uses c uses defs"
| "collect_terminator_uses (KSwitch e _ _) uses defs = collect_expr_uses e uses defs"
| "collect_terminator_uses _ uses defs = uses"

definition collect_uses_defs :: "basic_block \<Rightarrow> reg set \<times> reg set" where
  "collect_uses_defs block =
     (let (uses, defs) = fold (\<lambda>stmt (uses, defs).
            (collect_stmt_uses stmt uses defs, collect_stmt_defs stmt defs)) (bb_statements block) ({}, {}) in
      (collect_terminator_uses (bb_terminator block) uses defs, defs))"

section \<open>The analysis\<close>

definition liveness_init :: "cfg \<Rightarrow> liveness_info" where
  "liveness_init g = \<lparr>live_in = (\<lambda>b. if b \<in> set (block_ids g) then Some {} else None),
     live_out = (\<lambda>b. if b \<in> set (block_ids g) then Some {} else None)\<rparr>"

definition liveness_visit :: "cfg \<Rightarrow> block_id \<Rightarrow> liveness_info \<Rightarrow> liveness_info \<times> bool" where
  "liveness_visit g b info =
     (case get_block g b of
        None \<Rightarrow> (info, False)
      | Some block \<Rightarrow>
          let new_out = \<Union>(set (map (facts (live_in info)) (block_successors block)));
              (uses, defs) = collect_uses_defs block;
              new_in = (new_out - defs) \<union> uses;
              in_changed = (new_in \<noteq> facts (live_in info) b);
              info = (if in_changed then info\<lparr>live_in := (live_in info)(b \<mapsto> new_in)\<rparr> else info);
              out_changed = (new_out \<noteq> facts (live_out info) b);
              info = (if out_changed then info\<lparr>live_out := (live_out info)(b \<mapsto> new_out)\<rparr> else info) in
          (info, in_changed \<or> out_changed))"

definition liveness_analyze :: "cfg \<Rightarrow> liveness_info option" where
  "liveness_analyze g = run_sweeps (liveness_visit g) (rev (reverse_postorder g)) (liveness_init g)"

definition is_live_out :: "liveness_info \<Rightarrow> block_id \<Rightarrow> reg \<Rightarrow> bool" where
  "is_live_out info b r = (case live_out info b of Some s \<Rightarrow> r \<in> s | None \<Rightarrow> False)"

definition is_live_in :: "liveness_info \<Rightarrow> block_id \<Rightarrow> reg \<Rightarrow> bool" where
  "is_live_in info b r = (case live_in info b of Some s \<Rightarrow> r \<in> s | None \<Rightarrow> False)"

section \<open>The specification\<close>

text \<open>The registers read at a position of a block, the terminator being the position after the
  statements: all of them, and those the collection notes.  A register is exposed when it is read
  before the block assigns it, for a given notion of reading.\<close>

type_synonym reads = "basic_block \<Rightarrow> nat \<Rightarrow> reg set"

definition terminator_exprs :: "terminator \<Rightarrow> expression list" where
  "terminator_exprs t = (case t of
     KReturn (Some e) \<Rightarrow> [e] | KThrow e \<Rightarrow> [e] | KBranch c _ _ \<Rightarrow> [c]
   | KSwitch e cases _ \<Rightarrow> e # map fst cases | _ \<Rightarrow> [])"

definition reads_at :: reads where
  "reads_at block i =
     (if i < length (bb_statements block) then stmt_reads (bb_statements block ! i)
      else (\<Union>e \<in> set (terminator_exprs (bb_terminator block)). collect_reg_reads e))"

definition noted_at :: reads where
  "noted_at block i =
     (if i < length (bb_statements block) then collect_stmt_uses (bb_statements block ! i) {} {}
      else collect_terminator_uses (bb_terminator block) {} {})"

definition exposed :: "reads \<Rightarrow> basic_block \<Rightarrow> reg \<Rightarrow> bool" where
  "exposed rd block r \<longleftrightarrow>
     (\<exists>i \<le> length (bb_statements block). r \<in> rd block i
        \<and> (\<forall>j < i. assigned_reg (bb_statements block ! j) \<noteq> Some r))"

definition assigns :: "basic_block \<Rightarrow> reg \<Rightarrow> bool" where
  "assigns block r \<longleftrightarrow> (\<exists>s \<in> set (bb_statements block). assigned_reg s = Some r)"

inductive live_at :: "reads \<Rightarrow> cfg \<Rightarrow> block_id \<Rightarrow> reg \<Rightarrow> bool" for rd g where
  here: "\<lbrakk>get_block g b = Some block; exposed rd block r\<rbrakk> \<Longrightarrow> live_at rd g b r"
| later: "\<lbrakk>get_block g b = Some block; \<not> assigns block r; s \<in> set (block_successors block); live_at rd g s r\<rbrakk>
    \<Longrightarrow> live_at rd g b r"

lemma fold_collect:
  assumes "\<And>x s. x \<in> set xs \<Longrightarrow> f x s = s \<union> h x"
  shows "fold f xs s = s \<union> \<Union>(h ` set xs)"
  using assms by (induction xs arbitrary: s) auto

text \<open>The registers of an expression that the collection enters, without the filter.\<close>

fun entered_regs :: "expression \<Rightarrow> reg set" where
  "entered_regs (EValue (VBinding (BRegister r))) = {r}"
| "entered_regs (EBinary _ left right) = entered_regs left \<union> entered_regs right"
| "entered_regs (EUnary _ operand) = entered_regs operand"
| "entered_regs (ECall callee arguments) = entered_regs callee \<union> \<Union>(entered_regs ` set arguments)"
| "entered_regs (ENew callee arguments) = entered_regs callee \<union> \<Union>(entered_regs ` set arguments)"
| "entered_regs (EMember object _ _) = entered_regs object"
| "entered_regs _ = {}"

lemma collect_expr_uses_eq: "collect_expr_uses e uses defs = uses \<union> (entered_regs e - defs)"
proof (induction e uses defs rule: collect_expr_uses.induct)
  case (4 f args uses defs)
  have "fold (\<lambda>arg uses. collect_expr_uses arg uses defs) args s = s \<union> \<Union>((\<lambda>e. entered_regs e - defs) ` set args)" for s
    by (rule fold_collect) (rule 4(2))
  then show ?case by (auto simp: 4(1))
next
  case (5 f args uses defs)
  have "fold (\<lambda>arg uses. collect_expr_uses arg uses defs) args s = s \<union> \<Union>((\<lambda>e. entered_regs e - defs) ` set args)" for s
    by (rule fold_collect) (rule 5(2))
  then show ?case by (auto simp: 5(1))
qed auto

lemma collect_stmt_uses_eq: "collect_stmt_uses s uses defs = uses \<union> (collect_stmt_uses s {} {} - defs)"
  by (induction s uses defs rule: collect_stmt_uses.induct) (auto simp: collect_expr_uses_eq)

lemma collect_terminator_uses_eq:
  "collect_terminator_uses t uses defs = uses \<union> (collect_terminator_uses t {} {} - defs)"
  by (induction t uses defs rule: collect_terminator_uses.induct) (auto simp: collect_expr_uses_eq)

lemma collect_stmts:
  "fold (\<lambda>stmt (uses, defs). (collect_stmt_uses stmt uses defs, collect_stmt_defs stmt defs)) stmts (uses, defs) =
     (uses \<union> {r. r \<notin> defs \<and> (\<exists>i < length stmts. r \<in> collect_stmt_uses (stmts ! i) {} {}
        \<and> (\<forall>j < i. assigned_reg (stmts ! j) \<noteq> Some r))},
      defs \<union> {r. \<exists>s \<in> set stmts. assigned_reg s = Some r})"
proof (induction stmts arbitrary: uses defs)
  case (Cons s stmts)
  have d: "collect_stmt_defs s defs = defs \<union> {r. assigned_reg s = Some r}"
    by (auto simp: collect_stmt_defs_def split: option.splits)
  show ?case
    by (simp add: Cons.IH d Ex_less_Suc2 All_less_Suc2 collect_stmt_uses_eq[of s uses defs]) auto
qed auto

lemma collect_uses_defs_eq:
  "collect_uses_defs block = ({r. exposed noted_at block r}, {r. assigns block r})"
proof -
  have ex: "(\<exists>i \<le> n. P i) \<longleftrightarrow> (\<exists>i < n. P i) \<or> P n" for n and P :: "nat \<Rightarrow> bool"
    by (auto simp: le_less)
  show ?thesis
    unfolding collect_uses_defs_def collect_stmts
    by (auto simp: exposed_def assigns_def noted_at_def ex split_beta in_set_conv_nth
        collect_terminator_uses_eq[of "bb_terminator block" "Collect P" "Collect Q" for P Q]) (use nth_mem in blast)+
qed

section \<open>The analysis computes the specification\<close>

definition uses_of :: "cfg \<Rightarrow> reg set" where
  "uses_of g = {r. \<exists>b block. get_block g b = Some block \<and> exposed noted_at block r}"

lemma finite_entered: "finite (entered_regs e)"
  by (induction e rule: entered_regs.induct) auto

lemma finite_stmt_uses: "finite (collect_stmt_uses s {} {})"
  by (induction s "{} :: reg set" "{} :: reg set" rule: collect_stmt_uses.induct)
    (auto simp: collect_expr_uses_eq finite_entered)

lemma finite_terminator_uses: "finite (collect_terminator_uses t {} {})"
  by (induction t "{} :: reg set" "{} :: reg set" rule: collect_terminator_uses.induct)
    (auto simp: collect_expr_uses_eq finite_entered)

lemma finite_uses_of: "finite (uses_of g)"
proof -
  have "uses_of g \<subseteq> (\<Union>block \<in> set (blocks g). \<Union>i \<le> length (bb_statements block). noted_at block i)"
  proof
    fix r assume "r \<in> uses_of g"
    then obtain b block i where "map_of (cfg_blocks g) b = Some block" "i \<le> length (bb_statements block)" "r \<in> noted_at block i"
      by (auto simp: uses_of_def exposed_def get_block_def)
    moreover from this(1) have "block \<in> set (blocks g)" by (force simp: blocks_def dest!: map_of_SomeD)
    ultimately show "r \<in> (\<Union>block \<in> set (blocks g). \<Union>i \<le> length (bb_statements block). noted_at block i)" by auto
  qed
  moreover have "finite (noted_at block i)" for block i
    by (simp add: noted_at_def finite_stmt_uses finite_terminator_uses)
  ultimately show ?thesis by (auto intro: finite_subset)
qed

lemma live_uses: "live_at noted_at g b r \<Longrightarrow> r \<in> uses_of g"
  by (induction rule: live_at.induct) (auto simp: uses_of_def)

definition liveness_inv :: "cfg \<Rightarrow> liveness_info \<Rightarrow> bool" where
  "liveness_inv g info \<longleftrightarrow>
     (\<forall>b. facts (live_in info) b \<subseteq> {r. reachable g b \<and> live_at noted_at g b r})
     \<and> (\<forall>b. facts (live_out info) b \<subseteq> {r. reachable g b \<and> (\<exists>s \<in> set (successors_of g b). live_at noted_at g s r)})
     \<and> (\<forall>b block. get_block g b = Some block \<longrightarrow>
          facts (live_in info) b \<subseteq> {r. exposed noted_at block r} \<union>
            (\<Union>(facts (live_in info) ` set (block_successors block)) - {r. assigns block r}))
     \<and> (\<forall>b. facts (live_out info) b \<subseteq> \<Union>(facts (live_in info) ` set (successors_of g b)))"

definition liveness_rank :: "cfg \<Rightarrow> liveness_info \<Rightarrow> nat" where
  "liveness_rank g info =
     lacking (uses_of g) (set (block_ids g)) (facts (live_in info))
     + lacking (uses_of g) (set (block_ids g)) (facts (live_out info))"

lemma successors_of_block: "get_block g b = Some block \<Longrightarrow> successors_of g b = block_successors block"
  by (simp add: successors_of_def)

lemma get_block_id: "get_block g b = Some block \<Longrightarrow> b \<in> set (block_ids g)"
  by (force simp: get_block_def block_ids_def dest!: map_of_SomeD)

text \<open>What a visit of a block does, on the facts.\<close>

lemma liveness_visit_Some:
  assumes "get_block g b = Some block"
  defines "out \<equiv> \<lambda>info. \<Union>(facts (live_in info) ` set (successors_of g b))"
  defines "inn \<equiv> \<lambda>info. (out info - {r. assigns block r}) \<union> {r. exposed noted_at block r}"
  shows "facts (live_in (fst (liveness_visit g b info))) = (facts (live_in info))(b := inn info)"
    and "facts (live_out (fst (liveness_visit g b info))) = (facts (live_out info))(b := out info)"
    and "snd (liveness_visit g b info) \<longleftrightarrow> inn info \<noteq> facts (live_in info) b \<or> out info \<noteq> facts (live_out info) b"
    and "\<not> snd (liveness_visit g b info) \<Longrightarrow> fst (liveness_visit g b info) = info"
proof -
  have o: "\<Union>(set (map (facts (live_in info)) (block_successors block))) = out info"
    by (simp add: out_def successors_of_block[OF assms(1)])
  have i: "out info - snd (collect_uses_defs block) \<union> fst (collect_uses_defs block) = inn info"
    by (simp add: inn_def collect_uses_defs_eq)
  note v = liveness_visit_def[of g b info, unfolded assms(1) option.case o Let_def split_beta fst_conv snd_conv, unfolded i]
  show "facts (live_in (fst (liveness_visit g b info))) = (facts (live_in info))(b := inn info)"
    "facts (live_out (fst (liveness_visit g b info))) = (facts (live_out info))(b := out info)"
    "snd (liveness_visit g b info) \<longleftrightarrow> inn info \<noteq> facts (live_in info) b \<or> out info \<noteq> facts (live_out info) b"
    "\<not> snd (liveness_visit g b info) \<Longrightarrow> fst (liveness_visit g b info) = info"
    unfolding v by (simp_all add: facts_upd fun_upd_idem)
qed

lemma liveness_invD:
  assumes "liveness_inv g info"
  shows "r \<in> facts (live_in info) b \<Longrightarrow> reachable g b \<and> live_at noted_at g b r"
    and "r \<in> facts (live_out info) b \<Longrightarrow> reachable g b \<and> (\<exists>s \<in> set (successors_of g b). live_at noted_at g s r)"
    and "get_block g b = Some block \<Longrightarrow> facts (live_in info) b \<subseteq>
      (\<Union>(facts (live_in info) ` set (successors_of g b)) - {r. assigns block r}) \<union> {r. exposed noted_at block r}"
    and "facts (live_out info) b \<subseteq> \<Union>(facts (live_in info) ` set (successors_of g b))"
  using assms unfolding liveness_inv_def by (fastforce simp: successors_of_block)+

text \<open>A visit only adds registers, and only live ones.\<close>

lemma liveness_visit_grows:
  assumes inv: "liveness_inv g info" and b: "reachable g b" and block: "get_block g b = Some block"
  defines "info' \<equiv> fst (liveness_visit g b info)"
  shows "liveness_inv g info'"
    and "snd (liveness_visit g b info) \<Longrightarrow> liveness_rank g info' < liveness_rank g info"
proof -
  note I = liveness_invD[OF inv]
  let ?F = "facts (live_in info)" and ?G = "facts (live_out info)"
  define out where "out = \<Union>(?F ` set (successors_of g b))"
  define inn where "inn = (out - {r. assigns block r}) \<union> {r. exposed noted_at block r}"
  have F': "facts (live_in info') = ?F(b := inn)" and G': "facts (live_out info') = ?G(b := out)"
    and changed: "snd (liveness_visit g b info) \<longleftrightarrow> inn \<noteq> ?F b \<or> out \<noteq> ?G b"
    using liveness_visit_Some[OF block, of info] by (simp_all add: info'_def out_def inn_def)
  have grows: "?F b \<subseteq> inn" "?G b \<subseteq> out" using I(3)[OF block] I(4)[of b] by (auto simp: inn_def out_def)
  then have more: "?F c \<subseteq> (?F(b := inn)) c" for c by simp
  have inn: "inn \<subseteq> {r. live_at noted_at g b r}"
  proof
    fix r assume r: "r \<in> inn"
    show "r \<in> {r. live_at noted_at g b r}"
    proof (cases "exposed noted_at block r")
      case False
      with r obtain s where "s \<in> set (successors_of g b)" "r \<in> ?F s" "\<not> assigns block r"
        by (auto simp: inn_def out_def)
      with I(1) block show ?thesis by (auto intro: live_at.later simp: successors_of_block)
    qed (simp add: live_at.here[OF block])
  qed
  have out: "out \<subseteq> {r. \<exists>s \<in> set (successors_of g b). live_at noted_at g s r}" using I(1) by (auto simp: out_def)
  show "liveness_inv g info'"
    unfolding liveness_inv_def F' G'
  proof (intro conjI allI impI)
    fix c
    show "(?F(b := inn)) c \<subseteq> {r. reachable g c \<and> live_at noted_at g c r}" using I(1) inn b by auto
    show "(?G(b := out)) c \<subseteq> {r. reachable g c \<and> (\<exists>s \<in> set (successors_of g c). live_at noted_at g s r)}"
      using I(2) out b by auto
    have "(?G(b := out)) c \<subseteq> \<Union>(?F ` set (successors_of g c))" using I(4)[of c] by (simp add: out_def)
    also have "\<dots> \<subseteq> \<Union>((?F(b := inn)) ` set (successors_of g c))" using more by blast
    finally show "(?G(b := out)) c \<subseteq> \<Union>((?F(b := inn)) ` set (successors_of g c))" .
    fix blk assume blk: "get_block g c = Some blk"
    have "(?F(b := inn)) c \<subseteq> {r. exposed noted_at blk r} \<union> (\<Union>(?F ` set (block_successors blk)) - {r. assigns blk r})"
      using I(3)[OF blk] blk block successors_of_block[OF blk] by (auto simp: inn_def out_def)
    also have "\<dots> \<subseteq> {r. exposed noted_at blk r} \<union> (\<Union>((?F(b := inn)) ` set (block_successors blk)) - {r. assigns blk r})"
      using more by blast
    finally show "(?F(b := inn)) c \<subseteq> {r. exposed noted_at blk r} \<union>
        (\<Union>((?F(b := inn)) ` set (block_successors blk)) - {r. assigns blk r})" .
  qed
  have U: "inn \<subseteq> uses_of g" "out \<subseteq> uses_of g" using inn out live_uses by blast+
  note le = lacking_le[OF finite_uses_of[of g]] and less = lacking_less[OF finite_uses_of[of g]]
  show "liveness_rank g info' < liveness_rank g info" if "snd (liveness_visit g b info)"
  proof (cases "inn = ?F b")
    case False
    with grows have "lacking (uses_of g) (set (block_ids g)) (?F(b := inn)) < lacking (uses_of g) (set (block_ids g)) ?F"
      using U get_block_id[OF block] by (intro less) auto
    with le[of ?G b out "set (block_ids g)"] grows show ?thesis by (simp add: liveness_rank_def F' G')
  next
    case True
    with changed that grows have "lacking (uses_of g) (set (block_ids g)) (?G(b := out)) < lacking (uses_of g) (set (block_ids g)) ?G"
      using U get_block_id[OF block] by (intro less) auto
    with True show ?thesis by (simp add: liveness_rank_def F' G' fun_upd_idem)
  qed
qed

lemma liveness_visit_None: "get_block g b = None \<Longrightarrow> liveness_visit g b info = (info, False)"
  by (simp add: liveness_visit_def)

interpretation liveness: sweeping "liveness_visit g" "{b. reachable g b}" "liveness_inv g" "liveness_rank g" for g
proof
  fix b info assume b: "b \<in> {b. reachable g b}" and inv: "liveness_inv g info"
  show "liveness_inv g (fst (liveness_visit g b info))"
    using b inv by (cases "get_block g b") (auto simp: liveness_visit_None intro: liveness_visit_grows)
  show "fst (liveness_visit g b info) = info" if "\<not> snd (liveness_visit g b info)"
    using that liveness_visit_Some(4) by (cases "get_block g b") (auto simp: liveness_visit_None)
  show "liveness_rank g (fst (liveness_visit g b info)) < liveness_rank g info" if "snd (liveness_visit g b info)"
    using b inv that by (cases "get_block g b") (auto simp: liveness_visit_None intro: liveness_visit_grows)
qed

lemma liveness_init_inv: "liveness_inv g (liveness_init g)"
  by (auto simp: liveness_inv_def liveness_init_def facts_def split: if_splits)

lemma liveness_of_collected:
  "\<exists>info. liveness_analyze g = Some info
     \<and> (\<forall>b r. is_live_in info b r \<longleftrightarrow> reachable g b \<and> live_at noted_at g b r)
     \<and> (\<forall>b r. is_live_out info b r \<longleftrightarrow> reachable g b \<and> (\<exists>s \<in> set (successors_of g b). live_at noted_at g s r))"
proof -
  obtain info where info: "liveness_analyze g = Some info" "liveness_inv g info"
    and quiet: "\<And>b. reachable g b \<Longrightarrow> \<not> snd (liveness_visit g b info)"
    using liveness.sweeps_reach_fixpoint[OF _ liveness_init_inv, of "rev (reverse_postorder g)" g]
    by (auto simp: liveness_analyze_def)
  note I = liveness_invD[OF info(2)]
  have complete: "reachable g b \<Longrightarrow> r \<in> facts (live_in info) b" if "live_at noted_at g b r" for b r
    using that
  proof (induction rule: live_at.induct)
    case (here b block r)
    then show ?case using liveness_visit_Some(3)[OF here(1), of info] quiet[of b] by auto
  next
    case (later b block r s)
    then have "s \<in> set (successors_of g b)" by (simp add: successors_of_block)
    with later have "r \<in> facts (live_in info) s" by (auto intro: reachable.succ)
    then show ?case using liveness_visit_Some(3)[OF later(1), of info] quiet[of b] later
      by (auto simp: successors_of_block)
  qed
  have out: "r \<in> facts (live_out info) b" if "reachable g b" "s \<in> set (successors_of g b)" "live_at noted_at g s r" for b r s
  proof (cases "get_block g b")
    case (Some block)
    then show ?thesis
      using liveness_visit_Some(3)[OF Some, of info] quiet[of b] that complete[of s r] by (auto intro: reachable.succ)
  qed (use that in \<open>simp add: successors_of_def\<close>)
  have "is_live_in info b r \<longleftrightarrow> r \<in> facts (live_in info) b" "is_live_out info b r \<longleftrightarrow> r \<in> facts (live_out info) b" for b r
    by (auto simp: is_live_in_def is_live_out_def facts_def split: option.splits)
  with info(1) I(1,2) complete out show ?thesis by blast
qed

section \<open>What the collection enters\<close>

text \<open>Expressions built of constants and registers by operators, calls and plain property reads, and
  the statements over them.\<close>

fun plain_expr :: "expression \<Rightarrow> bool" where
  "plain_expr (EBinary _ left right) \<longleftrightarrow> plain_expr left \<and> plain_expr right"
| "plain_expr (EUnary _ operand) \<longleftrightarrow> plain_expr operand"
| "plain_expr (ECall callee arguments) \<longleftrightarrow> plain_expr callee \<and> list_all plain_expr arguments"
| "plain_expr (ENew callee arguments) \<longleftrightarrow> plain_expr callee \<and> list_all plain_expr arguments"
| "plain_expr (EMember object (PComputed _) _) \<longleftrightarrow> False"
| "plain_expr (EMember object _ _) \<longleftrightarrow> plain_expr object"
| "plain_expr (EValue _) \<longleftrightarrow> True"
| "plain_expr (EFunction _ _ _ _ _) \<longleftrightarrow> True"
| "plain_expr (ERegExp _ _) \<longleftrightarrow> True"
| "plain_expr (EUnknown _ _) \<longleftrightarrow> True"
| "plain_expr _ \<longleftrightarrow> False"

fun plain_stmt :: "statement \<Rightarrow> bool" where
  "plain_stmt (SExpr e) \<longleftrightarrow> plain_expr e"
| "plain_stmt (SThrow e) \<longleftrightarrow> plain_expr e"
| "plain_stmt (SLet _ e _) \<longleftrightarrow> plain_expr e"
| "plain_stmt (SAssign (TBinding _) e) \<longleftrightarrow> plain_expr e"
| "plain_stmt (SReturn (Some e)) \<longleftrightarrow> plain_expr e"
| "plain_stmt (SReturn None) \<longleftrightarrow> True"
| "plain_stmt (SComment _) \<longleftrightarrow> True"
| "plain_stmt SDebugger \<longleftrightarrow> True"
| "plain_stmt _ \<longleftrightarrow> False"

fun plain_terminator :: "terminator \<Rightarrow> bool" where
  "plain_terminator (KReturn (Some e)) \<longleftrightarrow> plain_expr e"
| "plain_terminator (KThrow e) \<longleftrightarrow> plain_expr e"
| "plain_terminator (KBranch c _ _) \<longleftrightarrow> plain_expr c"
| "plain_terminator (KSwitch v cases _) \<longleftrightarrow>
     plain_expr v \<and> list_all (\<lambda>(e, _). case e of EValue (VConstant _) \<Rightarrow> True | _ \<Rightarrow> False) cases"
| "plain_terminator _ \<longleftrightarrow> True"

definition plain_block :: "basic_block \<Rightarrow> bool" where
  "plain_block block \<longleftrightarrow> list_all plain_stmt (bb_statements block) \<and> plain_terminator (bb_terminator block)"

lemma reads_of_expr:
  "part_reads (PartE (EBinary bop l r)) = part_reads (PartE l) \<union> part_reads (PartE r)"
  "part_reads (PartE (EUnary uop e)) = part_reads (PartE e)"
  "part_reads (PartE (ECall f args)) = part_reads (PartE f) \<union> (\<Union>e \<in> set args. part_reads (PartE e))"
  "part_reads (PartE (ENew f args)) = part_reads (PartE f) \<union> (\<Union>e \<in> set args. part_reads (PartE e))"
  "part_reads (PartE (EMember e key c)) = part_reads (PartE e) \<union> \<Union>(set (map part_reads (key_parts key)))"
  "part_reads (PartE (EValue v)) = set_option (read_register (EValue v))"
  "part_reads (PartE (EFunction i nm a b c)) = {}" "part_reads (PartE (ERegExp p fl)) = {}"
  "part_reads (PartE (EUnknown um os)) = {}"
  by (subst part_reads.simps(1), simp add: image_image)+

lemma entered_are_read: "entered_regs e \<subseteq> part_reads (PartE e)"
  by (induction e rule: entered_regs.induct) (auto simp: reads_of_expr)

lemma entered_value: "entered_regs (EValue v) = set_option (read_register (EValue v))"
  by (cases "EValue v" rule: read_register.cases) (auto elim!: entered_regs.elims)

lemma plain_entered: "plain_expr e \<Longrightarrow> part_reads (PartE e) = entered_regs e"
  by (induction e rule: plain_expr.induct) (auto simp: reads_of_expr list_all_iff entered_value)

lemma reads_of_stmt:
  "stmt_reads (SExpr e) = part_reads (PartE e)" "stmt_reads (SThrow e) = part_reads (PartE e)"
  "stmt_reads (SLet x e k) = part_reads (PartE e)"
  "stmt_reads (SAssign t e) = part_reads (PartT t) \<union> part_reads (PartE e)"
  "stmt_reads (SReturn (Some e)) = part_reads (PartE e)" "stmt_reads (SReturn None) = {}"
  "stmt_reads (SComment cm) = {}" "stmt_reads SDebugger = {}"
  by (auto simp: stmt_reads_def part_reads.simps opt_part_def)

lemma noted_stmt: "collect_stmt_uses s {} {} \<subseteq> stmt_reads s"
  by (induction s "{} :: reg set" "{} :: reg set" rule: collect_stmt_uses.induct)
    (use entered_are_read in \<open>auto simp: collect_expr_uses_eq reads_of_stmt\<close>)

lemma plain_noted_stmt: "plain_stmt s \<Longrightarrow> collect_stmt_uses s {} {} = stmt_reads s"
  by (induction s rule: plain_stmt.induct)
    (auto simp: collect_expr_uses_eq reads_of_stmt plain_entered part_reads.simps(2))

lemma noted_are_read: "noted_at block i \<subseteq> reads_at block i"
proof -
  have "collect_terminator_uses t {} {} \<subseteq> (\<Union>e \<in> set (terminator_exprs t). collect_reg_reads e)" for t
    by (induction t "{} :: reg set" "{} :: reg set" rule: collect_terminator_uses.induct)
      (use entered_are_read in \<open>auto simp: collect_expr_uses_eq terminator_exprs_def collect_reg_reads_def\<close>)
  then show ?thesis using noted_stmt by (auto simp: noted_at_def reads_at_def)
qed

lemma plain_noted_are_read:
  assumes "plain_block block"
  shows "noted_at block i = reads_at block i"
proof -
  have const: "(case e of EValue (VConstant _) \<Rightarrow> True | _ \<Rightarrow> False) \<Longrightarrow> part_reads (PartE e) = {}" for e
    by (auto simp: reads_of_expr split: expression.splits ir_value.splits)
  have "collect_terminator_uses t {} {} = (\<Union>e \<in> set (terminator_exprs t). collect_reg_reads e)"
    if "plain_terminator t" for t
    using that const by (induction t rule: plain_terminator.induct)
      (fastforce simp: collect_expr_uses_eq terminator_exprs_def collect_reg_reads_def plain_entered list_all_iff)+
  with assms show ?thesis
    by (auto simp: plain_block_def list_all_length noted_at_def reads_at_def plain_noted_stmt)
qed

lemma live_at_mono:
  assumes "live_at rd g b r"
    and "\<And>b block i. \<lbrakk>get_block g b = Some block; r \<in> rd block i\<rbrakk> \<Longrightarrow> r \<in> rd' block i"
  shows "live_at rd' g b r"
  using assms
proof (induction rule: live_at.induct)
  case (here b block r)
  then show ?case by (intro live_at.here[OF here(1)]) (auto simp: exposed_def)
next
  case (later b block r s)
  then show ?case by (auto intro: live_at.later)
qed

section \<open>The properties\<close>

text \<open>C33: The liveness analysis ends on every graph.  A register it reports live at the entry of a
  block is read by some path of edges starting there before any block on the way assigns it, and one
  it reports live at the exit is so at the entry of a successor; reading means occurring anywhere in a
  statement or in the terminator, the register of a plain assignment target apart, and assigning means
  a plain assignment to the register.  Conversely every such register is reported in each block a
  depth-first search from the entry and the handlers reaches, when the statements of the graph are
  plain: built of constants, registers and other names by operators, calls, constructor calls and
  property reads whose key is not computed, in expression, let, return and throw statements and
  assignments to names.  Elsewhere (array and object literals, conditionals, computed keys, deletes,
  property assignment targets) the collection of the code misses reads, and so may the analysis.\<close>

theorem liveness_by_paths:
  "\<exists>info. liveness_analyze g = Some info
     \<and> (\<forall>b r. is_live_in info b r \<longrightarrow> reachable g b \<and> live_at reads_at g b r)
     \<and> (\<forall>b r. is_live_out info b r \<longrightarrow>
          reachable g b \<and> (\<exists>s \<in> set (successors_of g b). live_at reads_at g s r))
     \<and> ((\<forall>b block. get_block g b = Some block \<longrightarrow> plain_block block) \<longrightarrow>
          (\<forall>b r. reachable g b \<and> live_at reads_at g b r \<longrightarrow> is_live_in info b r)
          \<and> (\<forall>b s r. reachable g b \<and> s \<in> set (successors_of g b) \<and> live_at reads_at g s r \<longrightarrow>
               is_live_out info b r))"
proof -
  obtain info where info: "liveness_analyze g = Some info"
    "\<And>b r. is_live_in info b r \<longleftrightarrow> reachable g b \<and> live_at noted_at g b r"
    "\<And>b r. is_live_out info b r \<longleftrightarrow> reachable g b \<and> (\<exists>s \<in> set (successors_of g b). live_at noted_at g s r)"
    using liveness_of_collected[of g] by blast
  have "live_at noted_at g b r \<Longrightarrow> live_at reads_at g b r" for b r
    by (erule live_at_mono) (use noted_are_read in blast)
  moreover have "live_at noted_at g b r" if "live_at reads_at g b r"
    "\<forall>b block. get_block g b = Some block \<longrightarrow> plain_block block" for b r
    using that(1) by (rule live_at_mono) (use that(2) plain_noted_are_read in blast)
  ultimately show ?thesis using info by metis
qed

lemma sample_loop_blocks:
  "get_block sample_loop b = Some block \<Longrightarrow> plain_block block"
  "get_block sample_loop b = Some block \<Longrightarrow> b = 0 \<Longrightarrow> r = 0 \<Longrightarrow> \<not> exposed reads_at block r \<and> assigns block r"
  by (auto simp: get_block_def sample_loop_def plain_block_def exposed_def assigns_def reads_at_def reads_of_stmt
      reads_of_expr part_reads.simps(2) terminator_exprs_def split: if_splits)

theorem liveness_by_paths_witness:
  "\<exists>info. liveness_analyze sample_loop = Some info
     \<and> is_live_in info 1 0 \<and> is_live_out info 0 0 \<and> \<not> is_live_in info 0 0"
proof -
  have 0: "reachable sample_loop 0" by (rule reachable.root) (simp add: roots_def sample_loop_def)
  have s: "1 \<in> set (successors_of sample_loop 0)"
    by (simp add: successors_of_def get_block_def sample_loop_def block_successors_def)
  have 1: "live_at reads_at sample_loop 1 0"
    by (rule live_at.here[of _ _ "the (get_block sample_loop 1)"])
      (auto simp: get_block_def sample_loop_def exposed_def reads_at_def reads_of_stmt reads_of_expr)
  have "\<not> live_at reads_at sample_loop 0 0"
    by (rule notI, erule live_at.cases) (auto dest: sample_loop_blocks(2))
  with 0 s 1 reachable.succ[OF 0 s] liveness_by_paths[of sample_loop] sample_loop_blocks(1) show ?thesis by metis
qed

text \<open>The collection misses the read of \<open>r2\<close> in \<open>r2.x = r1\<close>.\<close>

lemma member_target_missed:
  fixes g :: cfg
  defines "g \<equiv> \<lparr>cfg_entry = 0, cfg_blocks =
     [(0, \<lparr>bb_id = 0, bb_statements = [SAssign (TMember (EReg 2) [120]) (EReg 1)], bb_terminator = KReturn None\<rparr>)],
     cfg_next_id = 1, cfg_exception_handlers = [], cfg_offset_to_block = Map.empty\<rparr>"
  shows "live_at reads_at g 0 2 \<and> (\<exists>info. liveness_analyze g = Some info \<and> is_live_in info 0 1 \<and> \<not> is_live_in info 0 2)"
proof -
  let ?block = "\<lparr>bb_id = 0, bb_statements = [SAssign (TMember (EReg 2) [120]) (EReg 1)], bb_terminator = KReturn None\<rparr>"
  have g: "get_block g b = (if b = 0 then Some ?block else None)" for b by (simp add: g_def get_block_def)
  have "reachable g 0" by (rule reachable.root) (simp add: g_def roots_def)
  moreover have "live_at noted_at g 0 1" "live_at reads_at g 0 2"
    by (rule live_at.here[of _ _ ?block],
        auto simp: g exposed_def noted_at_def reads_at_def reads_of_stmt reads_of_expr part_reads.simps(2))+
  moreover have "\<not> live_at noted_at g 0 2"
    by (rule notI, erule live_at.cases)
      (auto simp: g exposed_def noted_at_def block_successors_def split: if_splits)
  ultimately show ?thesis using liveness_of_collected[of g] by blast
qed

end
