(* ===== verification/Reaching.thy ===== *)
theory Reaching
  imports Dataflow
begin

text \<open>
  Reaching definitions (\<open>crates/hbc-decomp/src/analysis/reaching.rs\<close>).  The specification is by
  executions: a path through the graph, over edges of the terminators and over exception edges taken
  at any point of a protected block, and the last assignment of a register along it.
\<close>

record def_site =
  ds_block :: block_id
  ds_stmt_index :: nat
  ds_register :: reg

record reaching_defs =
  reaching_in :: "block_id \<rightharpoonup> def_site set"
  reaching_out :: "block_id \<rightharpoonup> def_site set"

section \<open>The analysis\<close>

definition gen_step :: "block_id \<Rightarrow> nat \<times> statement \<Rightarrow> def_site set \<Rightarrow> def_site set" where
  "gen_step b = (\<lambda>(i, stmt) gen.
     case assigned_reg stmt of
       Some r \<Rightarrow> insert \<lparr>ds_block = b, ds_stmt_index = i, ds_register = r\<rparr> {d \<in> gen. ds_register d \<noteq> r}
     | None \<Rightarrow> gen)"

definition compute_gen :: "cfg \<Rightarrow> block_id \<Rightarrow> def_site set" where
  "compute_gen g b =
     (case get_block g b of
        Some block \<Rightarrow> fold (gen_step b) (enumerate 0 (bb_statements block)) {}
      | None \<Rightarrow> {})"

definition compute_kill :: "cfg \<Rightarrow> block_id \<Rightarrow> def_site set \<Rightarrow> def_site set" where
  "compute_kill g b reaching =
     (case get_block g b of
        Some block \<Rightarrow> fold (\<lambda>stmt kill.
            case assigned_reg stmt of
              Some r \<Rightarrow> kill \<union> {d \<in> reaching. ds_register d = r \<and> ds_block d \<noteq> b}
            | None \<Rightarrow> kill) (bb_statements block) {}
      | None \<Rightarrow> {})"

definition reaching_init :: "cfg \<Rightarrow> reaching_defs" where
  "reaching_init g = \<lparr>reaching_in = (\<lambda>b. if b \<in> set (block_ids g) then Some {} else None),
     reaching_out = (\<lambda>b. if b \<in> set (block_ids g) then Some (compute_gen g b) else None)\<rparr>"

definition incoming :: "cfg \<Rightarrow> block_id \<Rightarrow> reaching_defs \<Rightarrow> def_site set" where
  "incoming g b info =
     \<Union>(set (map (facts (reaching_out info)) (predecessors g b)))
     \<union> \<Union>(set (map (\<lambda>src. facts (reaching_in info) src \<union> facts (reaching_out info) src)
              (exception_edge_sources g b)))"

definition reaching_visit :: "cfg \<Rightarrow> block_id \<Rightarrow> reaching_defs \<Rightarrow> reaching_defs \<times> bool" where
  "reaching_visit g b info =
     (let new_in = incoming g b info;
          gen = compute_gen g b;
          kill = compute_kill g b new_in;
          new_out = (new_in - kill) \<union> gen;
          in_changed = (new_in \<noteq> facts (reaching_in info) b);
          info = (if in_changed then info\<lparr>reaching_in := (reaching_in info)(b \<mapsto> new_in)\<rparr> else info);
          out_changed = (new_out \<noteq> facts (reaching_out info) b);
          info = (if out_changed then info\<lparr>reaching_out := (reaching_out info)(b \<mapsto> new_out)\<rparr> else info) in
      (info, in_changed \<or> out_changed))"

definition reaching_analyze :: "cfg \<Rightarrow> reaching_defs option" where
  "reaching_analyze g = run_sweeps (reaching_visit g) (reverse_postorder g) (reaching_init g)"

definition defs_for :: "reaching_defs \<Rightarrow> block_id \<Rightarrow> reg \<Rightarrow> def_site set" where
  "defs_for info b r = {d \<in> facts (reaching_in info) b. ds_register d = r}"

section \<open>Executions\<close>

text \<open>An execution is its sequence of assignment sites, newest first.  \<open>runs_to g b ds\<close>: some
  path from a root reaches the entry of \<open>b\<close> having passed the sites \<open>ds\<close>.\<close>

definition block_sites :: "block_id \<Rightarrow> basic_block \<Rightarrow> def_site list" where
  "block_sites b block =
     List.map_filter (\<lambda>(i, stmt). map_option (\<lambda>r. \<lparr>ds_block = b, ds_stmt_index = i, ds_register = r\<rparr>) (assigned_reg stmt))
       (enumerate 0 (bb_statements block))"

definition last_def :: "def_site list \<Rightarrow> reg \<Rightarrow> def_site option" where
  "last_def ds r = find (\<lambda>d. ds_register d = r) ds"

inductive runs_to :: "cfg \<Rightarrow> block_id \<Rightarrow> def_site list \<Rightarrow> bool" for g where
  start: "runs_to g (cfg_entry g) []"
| jump: "\<lbrakk>runs_to g b ds; get_block g b = Some block; s \<in> set (block_successors block)\<rbrakk>
    \<Longrightarrow> runs_to g s (rev (block_sites b block) @ ds)"
| raise_before: "\<lbrakk>runs_to g b ds; b \<in> set (exception_edge_sources g c)\<rbrakk> \<Longrightarrow> runs_to g c ds"
| raise_after: "\<lbrakk>runs_to g b ds; get_block g b = Some block; b \<in> set (exception_edge_sources g c)\<rbrakk>
    \<Longrightarrow> runs_to g c (rev (block_sites b block) @ ds)"

section \<open>Generated and killed sites\<close>

lemma fold_gen_step:
  "fold (gen_step b) (enumerate n stmts) S =
     {d \<in> S. \<forall>s \<in> set stmts. assigned_reg s \<noteq> Some (ds_register d)}
     \<union> {d. last_def (rev (List.map_filter (\<lambda>(i, stmt). map_option (\<lambda>r. \<lparr>ds_block = b, ds_stmt_index = i, ds_register = r\<rparr>)
            (assigned_reg stmt)) (enumerate n stmts))) (ds_register d) = Some d}"
proof (induction stmts arbitrary: n S rule: rev_induct)
  case (snoc s stmts)
  show ?case
  proof (cases "assigned_reg s")
    case None
    with snoc show ?thesis by (auto simp: enumerate_append_eq gen_step_def List.map_filter_def)
  next
    case (Some r)
    with snoc show ?thesis
      by (auto simp: enumerate_append_eq gen_step_def List.map_filter_def last_def_def)
  qed
qed (simp add: last_def_def List.map_filter_def)

lemma compute_gen_eq:
  "get_block g b = Some block \<Longrightarrow> compute_gen g b = {d. last_def (rev (block_sites b block)) (ds_register d) = Some d}"
  by (simp add: compute_gen_def fold_gen_step block_sites_def)

lemma compute_kill_eq:
  assumes "get_block g b = Some block"
  shows "compute_kill g b S = {d \<in> S. (\<exists>s \<in> set (bb_statements block). assigned_reg s = Some (ds_register d)) \<and> ds_block d \<noteq> b}"
proof -
  have "fold (\<lambda>stmt kill. case assigned_reg stmt of
              Some r \<Rightarrow> kill \<union> {d \<in> S. ds_register d = r \<and> ds_block d \<noteq> b}
            | None \<Rightarrow> kill) stmts K =
      K \<union> {d \<in> S. (\<exists>s \<in> set stmts. assigned_reg s = Some (ds_register d)) \<and> ds_block d \<noteq> b}" for stmts K
    by (induction stmts arbitrary: K) (auto split: option.splits)
  then show ?thesis by (simp add: compute_kill_def assms)
qed

definition transfer :: "cfg \<Rightarrow> block_id \<Rightarrow> def_site set \<Rightarrow> def_site set" where
  "transfer g b S = (S - compute_kill g b S) \<union> compute_gen g b"

lemma transfer_eq:
  "get_block g b = Some block \<Longrightarrow> transfer g b S =
     {d \<in> S. (\<exists>s \<in> set (bb_statements block). assigned_reg s = Some (ds_register d)) \<longrightarrow> ds_block d = b}
     \<union> {d. last_def (rev (block_sites b block)) (ds_register d) = Some d}"
  by (auto simp: transfer_def compute_kill_eq compute_gen_eq)

lemma transfer_missing: "get_block g b = None \<Longrightarrow> transfer g b S = S"
  by (simp add: transfer_def compute_kill_def compute_gen_def)

lemma transfer_mono: "S \<subseteq> T \<Longrightarrow> transfer g b S \<subseteq> transfer g b T"
  by (cases "get_block g b") (auto simp: transfer_missing transfer_eq)

definition all_sites :: "cfg \<Rightarrow> def_site set" where
  "all_sites g = \<Union>(compute_gen g ` set (block_ids g))"

lemma last_def_Some: "last_def ds r = Some d \<Longrightarrow> d \<in> set ds \<and> ds_register d = r"
  by (auto simp: last_def_def find_Some_iff)

lemma last_def_append: "last_def (xs @ ys) r = (case last_def xs r of Some d \<Rightarrow> Some d | None \<Rightarrow> last_def ys r)"
  by (induction xs) (auto simp: last_def_def)

lemma last_def_None: "last_def ds r = None \<longleftrightarrow> (\<forall>d \<in> set ds. ds_register d \<noteq> r)"
  by (auto simp: last_def_def find_None_iff)

lemma compute_gen_id: "d \<in> compute_gen g b \<Longrightarrow> b \<in> set (block_ids g)"
  by (force simp: compute_gen_def get_block_def block_ids_def split: option.splits dest!: map_of_SomeD)

lemma finite_all_sites: "finite (all_sites g)"
proof -
  have "finite (compute_gen g b)" for b
  proof (cases "get_block g b")
    case (Some block)
    have "compute_gen g b \<subseteq> set (block_sites b block)"
      using last_def_Some by (fastforce simp: compute_gen_eq[OF Some])
    then show ?thesis by (rule finite_subset) simp
  qed (simp add: compute_gen_def)
  then show ?thesis by (simp add: all_sites_def)
qed

section \<open>The analysis ends\<close>

definition known_blocks :: "cfg \<Rightarrow> block_id set" where
  "known_blocks g = set (block_ids g) \<union> {b. reachable g b}"

lemma finite_known_blocks: "finite (known_blocks g)"
  using set_postorder[of g] by (metis known_blocks_def List.finite_set finite_Un)

definition reaching_inv :: "cfg \<Rightarrow> reaching_defs \<Rightarrow> bool" where
  "reaching_inv g info \<longleftrightarrow>
     (\<forall>b. facts (reaching_in info) b \<subseteq> all_sites g \<and> facts (reaching_out info) b \<subseteq> all_sites g
        \<and> facts (reaching_in info) b \<subseteq> incoming g b info
        \<and> facts (reaching_out info) b \<subseteq> transfer g b (incoming g b info))"

definition reaching_rank :: "cfg \<Rightarrow> reaching_defs \<Rightarrow> nat" where
  "reaching_rank g info =
     lacking (all_sites g) (known_blocks g) (facts (reaching_in info))
     + lacking (all_sites g) (known_blocks g) (facts (reaching_out info))"

lemma reaching_visit_facts:
  "facts (reaching_in (fst (reaching_visit g b info))) = (facts (reaching_in info))(b := incoming g b info)"
  "facts (reaching_out (fst (reaching_visit g b info))) =
     (facts (reaching_out info))(b := transfer g b (incoming g b info))"
  "snd (reaching_visit g b info) \<longleftrightarrow> incoming g b info \<noteq> facts (reaching_in info) b
     \<or> transfer g b (incoming g b info) \<noteq> facts (reaching_out info) b"
  "\<not> snd (reaching_visit g b info) \<Longrightarrow> fst (reaching_visit g b info) = info"
  by (simp_all add: reaching_visit_def Let_def transfer_def facts_upd fun_upd_idem)

lemma incoming_mono:
  assumes "\<And>c. facts (reaching_in i) c \<subseteq> facts (reaching_in j) c" "\<And>c. facts (reaching_out i) c \<subseteq> facts (reaching_out j) c"
  shows "incoming g b i \<subseteq> incoming g b j"
  using assms unfolding incoming_def by fastforce

lemma reaching_visit_grows:
  assumes inv: "reaching_inv g info" and b: "reachable g b"
  defines "info' \<equiv> fst (reaching_visit g b info)"
  shows "reaching_inv g info'"
    and "snd (reaching_visit g b info) \<Longrightarrow> reaching_rank g info' < reaching_rank g info"
proof -
  let ?F = "facts (reaching_in info)" and ?G = "facts (reaching_out info)"
  define I where "I = incoming g b info"
  define T where "T = transfer g b I"
  have F': "facts (reaching_in info') = ?F(b := I)" and G': "facts (reaching_out info') = ?G(b := T)"
    and changed: "snd (reaching_visit g b info) \<longleftrightarrow> I \<noteq> ?F b \<or> T \<noteq> ?G b"
    by (simp_all add: info'_def reaching_visit_facts I_def T_def)
  note i = inv[unfolded reaching_inv_def, rule_format]
  have grows: "?F b \<subseteq> I" "?G b \<subseteq> T" using i[of b] by (simp_all add: I_def T_def)
  have I: "I \<subseteq> all_sites g" using i unfolding I_def incoming_def by fastforce
  have "compute_gen g b \<subseteq> all_sites g" using compute_gen_id by (fastforce simp: all_sites_def)
  with I have T: "T \<subseteq> all_sites g" by (auto simp: T_def transfer_def)
  have more: "incoming g c info \<subseteq> incoming g c info'" for c
    using grows by (intro incoming_mono) (simp_all add: F' G')
  show "reaching_inv g info'"
    unfolding reaching_inv_def
  proof (intro allI conjI)
    fix c
    show "facts (reaching_in info') c \<subseteq> all_sites g" "facts (reaching_out info') c \<subseteq> all_sites g"
      using i[of c] I T by (simp_all add: F' G')
    have "facts (reaching_in info') c \<subseteq> incoming g c info" using i[of c] by (simp add: F' I_def)
    then show "facts (reaching_in info') c \<subseteq> incoming g c info'" using more[of c] by blast
    have "facts (reaching_out info') c \<subseteq> transfer g c (incoming g c info)" using i[of c] by (simp add: G' I_def T_def)
    then show "facts (reaching_out info') c \<subseteq> transfer g c (incoming g c info')"
      using transfer_mono[OF more[of c]] by blast
  qed
  have k: "b \<in> known_blocks g" using b by (simp add: known_blocks_def)
  note le = lacking_le[OF finite_all_sites[of g]]
  note less = lacking_less[OF finite_all_sites[of g] finite_known_blocks k]
  show "reaching_rank g info' < reaching_rank g info" if "snd (reaching_visit g b info)"
  proof (cases "I = ?F b")
    case False
    with grows have "?F b \<subset> I" by blast
    with grows I less[of ?F I] le[of ?G b T "known_blocks g"] show ?thesis
      by (simp add: reaching_rank_def F' G')
  next
    case True
    with changed that grows have "?G b \<subset> T" by blast
    with True T less[of ?G T] show ?thesis by (simp add: reaching_rank_def F' G' fun_upd_idem)
  qed
qed

interpretation reaching: sweeping "reaching_visit g" "{b. reachable g b}" "reaching_inv g" "reaching_rank g" for g
  by unfold_locales (auto intro: reaching_visit_grows reaching_visit_facts(4))

lemma compute_gen_sites: "compute_gen g b \<subseteq> all_sites g"
  using compute_gen_id by (fastforce simp: all_sites_def)

lemma reaching_init_inv: "reaching_inv g (reaching_init g)"
  using compute_gen_sites by (auto simp: reaching_inv_def reaching_init_def facts_def transfer_def split: if_splits)

lemma reaching_fixpoint:
  obtains info where "reaching_analyze g = Some info" "reaching_inv g info"
    "\<And>b. reachable g b \<Longrightarrow> facts (reaching_in info) b = incoming g b info"
    "\<And>b. reachable g b \<Longrightarrow> facts (reaching_out info) b = transfer g b (facts (reaching_in info) b)"
proof -
  obtain info where info: "reaching_analyze g = Some info" "reaching_inv g info"
    and quiet: "\<And>b. reachable g b \<Longrightarrow> \<not> snd (reaching_visit g b info)"
    using reaching.sweeps_reach_fixpoint[OF _ reaching_init_inv, of "reverse_postorder g" g]
    by (auto simp: reaching_analyze_def)
  then show thesis by (intro that[OF info]) (auto simp: reaching_visit_facts(3))
qed

section \<open>The analysis covers the executions\<close>

lemma exception_edge_sources_root: "b \<in> set (exception_edge_sources g c) \<Longrightarrow> c \<in> set (roots g)"
proof -
  have "set (fold (\<lambda>b out. if b \<in> set out then out else out @ [b]) xs out) = set out \<union> set xs"
    for xs :: "block_id list" and out
    by (induction xs arbitrary: out) auto
  then have "b \<in> set (fold (\<lambda>h out. if ceh_catch_block h \<noteq> c then out
                   else fold (\<lambda>b out. if b \<in> set out then out else out @ [b]) (ceh_try_blocks h) out) hs out) \<Longrightarrow>
      b \<in> set out \<or> c \<in> ceh_catch_block ` set hs" for hs out
    by (induction hs arbitrary: out) (auto split: if_splits)
  from this[of "cfg_exception_handlers g" "[]"] show "b \<in> set (exception_edge_sources g c) \<Longrightarrow> c \<in> set (roots g)"
    by (auto simp: exception_edge_sources_def roots_def)
qed

lemma runs_to_reachable: "runs_to g b ds \<Longrightarrow> reachable g b"
proof (induction rule: runs_to.induct)
  case start
  then show ?case by (simp add: reachable.root roots_def)
next
  case (jump b ds block s)
  then show ?case by (auto simp: successors_of_def intro: reachable.succ)
qed (auto intro: reachable.root exception_edge_sources_root)

text \<open>The assignments of a whole block, after an execution that reached it.\<close>

lemma block_sites_set:
  "d \<in> set (block_sites b block) \<Longrightarrow> ds_block d = b \<and> (\<exists>s \<in> set (bb_statements block). assigned_reg s = Some (ds_register d))"
  by (auto simp: block_sites_def List.map_filter_def in_set_enumerate_eq split: option.splits intro!: bexI[of _ "_ ! _"])

lemma block_sites_register:
  assumes "s \<in> set (bb_statements block)" "assigned_reg s = Some r"
  shows "\<exists>d \<in> set (block_sites b block). ds_register d = r"
proof -
  from assms obtain i where "i < length (bb_statements block)" "bb_statements block ! i = s" by (auto simp: in_set_conv_nth)
  then have "(i, s) \<in> set (enumerate 0 (bb_statements block))" by (auto simp: in_set_enumerate_eq)
  with assms(2) show ?thesis by (force simp: block_sites_def List.map_filter_def)
qed

lemma transfer_sound:
  assumes block: "get_block g b = Some block" and S: "\<And>r d. last_def ds r = Some d \<Longrightarrow> d \<in> S"
    and d: "last_def (rev (block_sites b block) @ ds) r = Some d"
  shows "d \<in> transfer g b S"
proof (cases "last_def (rev (block_sites b block)) r")
  case None
  with d have "d \<in> S" "ds_register d = r" using S last_def_Some by (auto simp: last_def_append)
  moreover have "\<forall>s \<in> set (bb_statements block). assigned_reg s \<noteq> Some r"
    using None block_sites_register[of _ block r b] by (fastforce simp: last_def_None)
  ultimately show ?thesis by (auto simp: transfer_eq[OF block])
next
  case (Some e)
  with d last_def_Some[OF Some] show ?thesis by (auto simp: transfer_eq[OF block] last_def_append)
qed

lemma reaching_sound:
  assumes g: "ids_match g" and run: "runs_to g b ds" and d: "last_def ds r = Some d"
    and inn: "\<And>b. reachable g b \<Longrightarrow> facts (reaching_in info) b = incoming g b info"
    and out: "\<And>b. reachable g b \<Longrightarrow> facts (reaching_out info) b = transfer g b (facts (reaching_in info) b)"
  shows "d \<in> facts (reaching_in info) b"
  using run d
proof (induction arbitrary: r d rule: runs_to.induct)
  case start
  then show ?case by (simp add: last_def_def)
next
  case (jump b ds block s)
  have r: "reachable g b" "reachable g s"
    using runs_to_reachable[OF jump(1)] jump(2,3) by (auto simp: successors_of_def intro: reachable.succ)
  have "d \<in> facts (reaching_out info) b"
    using transfer_sound[OF jump(2) jump.IH jump.prems] out[OF r(1)] by simp
  moreover have "b \<in> set (predecessors g s)" using ids_matchD[OF g jump(2)] jump(3) by (force simp: predecessors_def)
  ultimately show ?case by (auto simp: inn[OF r(2)] incoming_def)
next
  case (raise_before b ds c)
  have "reachable g c" using exception_edge_sources_root[OF raise_before(2)] by (rule reachable.root)
  then show ?case using raise_before by (auto simp: inn incoming_def)
next
  case (raise_after b ds block c)
  have r: "reachable g b" "reachable g c"
    using runs_to_reachable[OF raise_after(1)] exception_edge_sources_root[OF raise_after(3)] by (auto intro: reachable.root)
  have "d \<in> facts (reaching_out info) b"
    using transfer_sound[OF raise_after(2) raise_after.IH raise_after.prems] out[OF r(1)] by simp
  then show ?case using raise_after(3) by (auto simp: inn[OF r(2)] incoming_def)
qed

section \<open>The analysis reports nothing else\<close>

definition sites_of :: "cfg \<Rightarrow> block_id \<Rightarrow> def_site list" where
  "sites_of g b = (case get_block g b of Some block \<Rightarrow> block_sites b block | None \<Rightarrow> [])"

text \<open>A graph whose blocks are all reached by executions.\<close>

definition all_run :: "cfg \<Rightarrow> bool" where
  "all_run g \<longleftrightarrow> ids_match g \<and> bt_ordered (cfg_blocks g) \<and> (\<forall>b \<in> set (block_ids g). \<exists>ds. runs_to g b ds)"

definition witnessed :: "cfg \<Rightarrow> reaching_defs \<Rightarrow> bool" where
  "witnessed g info \<longleftrightarrow>
     (\<forall>b d. d \<in> facts (reaching_in info) b \<longrightarrow> (\<exists>ds. runs_to g b ds \<and> last_def ds (ds_register d) = Some d))
     \<and> (\<forall>b d. d \<in> facts (reaching_out info) b \<longrightarrow>
          (\<exists>ds. runs_to g b ds \<and> last_def (rev (sites_of g b) @ ds) (ds_register d) = Some d))"

lemma gen_last: "d \<in> compute_gen g b \<longleftrightarrow> last_def (rev (sites_of g b)) (ds_register d) = Some d"
  by (cases "get_block g b") (simp add: compute_gen_def sites_of_def last_def_def, simp add: compute_gen_eq sites_of_def)

lemma gen_block: "d \<in> compute_gen g b \<Longrightarrow> ds_block d = b"
  by (cases "get_block g b")
    (auto simp: gen_last sites_of_def last_def_def dest!: last_def_Some[unfolded last_def_def] block_sites_set)

lemma last_def_gen: "runs_to g b ds \<Longrightarrow> last_def ds r = Some d \<Longrightarrow> d \<in> compute_gen g (ds_block d)"
proof (induction arbitrary: r d rule: runs_to.induct)
  case start
  then show ?case by (simp add: last_def_def)
next
  case (jump b ds block s)
  show ?case
  proof (cases "last_def (rev (block_sites b block)) r")
    case (Some e)
    with jump(2) have "e \<in> compute_gen g b" using last_def_Some[OF Some] by (simp add: compute_gen_eq)
    with jump.prems Some gen_block show ?thesis by (fastforce simp: last_def_append)
  qed (use jump in \<open>simp add: last_def_append\<close>)
next
  case (raise_after b ds block c)
  show ?case
  proof (cases "last_def (rev (block_sites b block)) r")
    case (Some e)
    with raise_after(2) have "e \<in> compute_gen g b" using last_def_Some[OF Some] by (simp add: compute_gen_eq)
    with raise_after.prems Some gen_block show ?thesis by (fastforce simp: last_def_append)
  qed (use raise_after in \<open>simp add: last_def_append\<close>)
qed auto

lemma incoming_witnessed:
  assumes g: "all_run g" and w: "witnessed g info" and d: "d \<in> incoming g b info"
  shows "\<exists>ds. runs_to g b ds \<and> last_def ds (ds_register d) = Some d"
proof -
  have W: "d \<in> facts (reaching_in info) c \<Longrightarrow> \<exists>ds. runs_to g c ds \<and> last_def ds (ds_register d) = Some d"
    "d \<in> facts (reaching_out info) c \<Longrightarrow> \<exists>ds. runs_to g c ds \<and> last_def (rev (sites_of g c) @ ds) (ds_register d) = Some d" for c
    using w unfolding witnessed_def by blast+
  from d consider p where "p \<in> set (predecessors g b)" "d \<in> facts (reaching_out info) p"
    | c where "c \<in> set (exception_edge_sources g b)" "d \<in> facts (reaching_in info) c"
    | c where "c \<in> set (exception_edge_sources g b)" "d \<in> facts (reaching_out info) c"
    by (auto simp: incoming_def)
  then show ?thesis
  proof cases
    case (1 p)
    with g have "b \<in> set (successors_of g p)" by (simp add: all_run_def predecessors_iff)
    then obtain block where block: "get_block g p = Some block" "b \<in> set (block_successors block)"
      by (cases "get_block g p") (auto simp: successors_of_def)
    from W(2)[OF 1(2)] obtain ds where "runs_to g p ds" "last_def (rev (block_sites p block) @ ds) (ds_register d) = Some d"
      by (auto simp: sites_of_def block(1))
    then show ?thesis using runs_to.jump[OF _ block] by blast
  next
    case (2 c)
    then show ?thesis using W(1) runs_to.raise_before by blast
  next
    case (3 c)
    from W(2)[OF 3(2)] obtain ds where ds: "runs_to g c ds" "last_def (rev (sites_of g c) @ ds) (ds_register d) = Some d" by auto
    show ?thesis
    proof (cases "get_block g c")
      case None
      with ds have "last_def ds (ds_register d) = Some d" by (simp add: sites_of_def)
      with ds(1) 3(1) show ?thesis using runs_to.raise_before by blast
    next
      case (Some block)
      with ds(2) have "last_def (rev (block_sites c block) @ ds) (ds_register d) = Some d" by (simp add: sites_of_def)
      with ds(1) 3(1) Some show ?thesis using runs_to.raise_after by blast
    qed
  qed
qed

lemma transfer_witnessed:
  assumes g: "all_run g" and S: "\<And>d. d \<in> S \<Longrightarrow> \<exists>ds. runs_to g b ds \<and> last_def ds (ds_register d) = Some d"
    and d: "d \<in> transfer g b S"
  shows "\<exists>ds. runs_to g b ds \<and> last_def (rev (sites_of g b) @ ds) (ds_register d) = Some d"
proof (cases "d \<in> compute_gen g b")
  case True
  then have "b \<in> set (block_ids g)" by (rule compute_gen_id)
  with g obtain ds where "runs_to g b ds" by (auto simp: all_run_def)
  with True show ?thesis by (auto simp: gen_last last_def_append)
next
  case False
  with d have "d \<in> S" by (simp add: transfer_def)
  with S obtain ds where ds: "runs_to g b ds" "last_def ds (ds_register d) = Some d" by blast
  have "last_def (rev (sites_of g b)) (ds_register d) = None"
  proof (rule ccontr)
    assume "last_def (rev (sites_of g b)) (ds_register d) \<noteq> None"
    then obtain e where e: "last_def (rev (sites_of g b)) (ds_register d) = Some e" by auto
    then obtain block where block: "get_block g b = Some block"
      by (cases "get_block g b") (auto simp: sites_of_def last_def_def)
    with e last_def_Some[OF e] block_sites_set[of e b block] have "\<exists>s \<in> set (bb_statements block). assigned_reg s = Some (ds_register d)"
      by (auto simp: sites_of_def)
    with d False have "ds_block d = b" by (auto simp: transfer_def compute_kill_eq[OF block])
    with last_def_gen[OF ds] False show False by simp
  qed
  with ds show ?thesis by (auto simp: last_def_append)
qed

lemma visit_witnessed:
  assumes g: "all_run g" and w: "witnessed g info"
  shows "witnessed g (fst (reaching_visit g b info))"
  using w incoming_witnessed[OF g w] transfer_witnessed[OF g incoming_witnessed[OF g w]]
  by (auto simp: witnessed_def reaching_visit_facts)

lemma init_witnessed: "all_run g \<Longrightarrow> witnessed g (reaching_init g)"
  using transfer_witnessed[of g "{}"] by (auto simp: witnessed_def reaching_init_def facts_def transfer_def split: if_splits)

interpretation reaching_exact: sweeping "reaching_visit g" "{b. reachable g b}"
  "\<lambda>info. reaching_inv g info \<and> (all_run g \<longrightarrow> witnessed g info)" "reaching_rank g" for g
  by unfold_locales (auto intro: reaching_visit_grows reaching_visit_facts(4) visit_witnessed)

section \<open>Exceptions in the middle of a block\<close>

text \<open>The executions of the program: an exception may leave a protected block at any point, after any
  number of its assignments.\<close>

inductive exec_to :: "cfg \<Rightarrow> block_id \<Rightarrow> def_site list \<Rightarrow> bool" for g where
  begins: "exec_to g (cfg_entry g) []"
| jumps: "\<lbrakk>exec_to g b ds; get_block g b = Some block; s \<in> set (block_successors block)\<rbrakk>
    \<Longrightarrow> exec_to g s (rev (block_sites b block) @ ds)"
| raises: "\<lbrakk>exec_to g b ds; b \<in> set (exception_edge_sources g c)\<rbrakk>
    \<Longrightarrow> exec_to g c (rev (take k (sites_of g b)) @ ds)"

text \<open>A definition is overwritten when a later statement of its own block assigns its register.\<close>

definition overwritten :: "cfg \<Rightarrow> def_site \<Rightarrow> bool" where
  "overwritten g d \<longleftrightarrow> (\<exists>block j. get_block g (ds_block d) = Some block
     \<and> ds_stmt_index d < j \<and> j < length (bb_statements block)
     \<and> assigned_reg (bb_statements block ! j) = Some (ds_register d))"

lemma runs_are_executions: "runs_to g b ds \<Longrightarrow> exec_to g b ds"
proof (induction rule: runs_to.induct)
  case (raise_before b ds c)
  then show ?case using exec_to.raises[of g b ds c 0] by simp
next
  case (raise_after b ds block c)
  then show ?case using exec_to.raises[of g b ds c "length (block_sites b block)"] by (simp add: sites_of_def)
qed (auto intro: exec_to.intros)

lemma site_statement:
  "d \<in> set (block_sites b block) \<longleftrightarrow> ds_block d = b \<and> ds_stmt_index d < length (bb_statements block)
     \<and> assigned_reg (bb_statements block ! ds_stmt_index d) = Some (ds_register d)"
  by (cases d) (auto simp: block_sites_def List.map_filter_def in_set_enumerate_eq image_iff)

lemma block_sites_snoc:
  "block_sites b (block\<lparr>bb_statements := stmts @ [s]\<rparr>) = block_sites b (block\<lparr>bb_statements := stmts\<rparr>) @
     (case assigned_reg s of None \<Rightarrow> [] | Some r \<Rightarrow> [\<lparr>ds_block = b, ds_stmt_index = length stmts, ds_register = r\<rparr>])"
  by (auto simp: block_sites_def enumerate_append_eq List.map_filter_def split: option.splits)

lemma last_site_latest:
  assumes "last_def (rev (block_sites b block)) r = Some e" "d \<in> set (block_sites b block)" "ds_register d = r"
  shows "d = e \<or> ds_stmt_index d < ds_stmt_index e"
proof -
  have "\<lbrakk>last_def (rev (block_sites b (block\<lparr>bb_statements := stmts\<rparr>))) r = Some e;
      d \<in> set (block_sites b (block\<lparr>bb_statements := stmts\<rparr>))\<rbrakk> \<Longrightarrow> d = e \<or> ds_stmt_index d < ds_stmt_index e" for stmts
  proof (induction stmts rule: rev_induct)
    case (snoc s stmts)
    then show ?case
      using assms(3) site_statement[of d b "block\<lparr>bb_statements := stmts\<rparr>"]
      by (auto simp: block_sites_snoc last_def_def split: option.splits if_splits)
  qed (simp add: block_sites_def List.map_filter_def)
  from this[of "bb_statements block"] assms(1,2) show ?thesis by simp
qed

lemma last_of_block:
  assumes "get_block g b = Some block" "d \<in> set (block_sites b block)"
  shows "last_def (rev (block_sites b block)) (ds_register d) = Some d \<longleftrightarrow> \<not> overwritten g d"
proof
  assume l: "last_def (rev (block_sites b block)) (ds_register d) = Some d"
  show "\<not> overwritten g d"
  proof
    assume "overwritten g d"
    then obtain j where j: "ds_stmt_index d < j" "\<lparr>ds_block = b, ds_stmt_index = j, ds_register = ds_register d\<rparr> \<in> set (block_sites b block)"
      using assms by (auto simp: overwritten_def site_statement)
    from last_site_latest[OF l j(2)] j(1) show False by (cases d) auto
  qed
next
  assume n: "\<not> overwritten g d"
  have "last_def (rev (block_sites b block)) (ds_register d) \<noteq> None" using assms(2) by (auto simp: last_def_None)
  then obtain e where e: "last_def (rev (block_sites b block)) (ds_register d) = Some e" by auto
  from last_def_Some[OF e] have "e \<in> set (block_sites b block)" "ds_register e = ds_register d" by auto
  with n last_site_latest[OF e assms(2)] assms have "d = e" by (auto simp: overwritten_def site_statement)
  with e show "last_def (rev (block_sites b block)) (ds_register d) = Some d" by simp
qed

text \<open>An execution whose last definition is not overwritten can be followed by one that leaves
  protected blocks only at their ends.\<close>

lemma executions_by_runs:
  "exec_to g b ds \<Longrightarrow> (\<exists>ds. runs_to g b ds)
     \<and> (\<forall>r d. last_def ds r = Some d \<and> \<not> overwritten g d \<longrightarrow> (\<exists>ds. runs_to g b ds \<and> last_def ds r = Some d))"
proof (induction rule: exec_to.induct)
  case begins
  then show ?case using runs_to.start[of g] by (auto simp: last_def_def)
next
  case (jumps b ds block s)
  note jump = runs_to.jump[OF _ jumps(2,3)]
  from jumps.IH obtain ds0 where ds0: "runs_to g b ds0" by blast
  have "\<exists>ds. runs_to g s ds \<and> last_def ds r = Some d"
    if "last_def (rev (block_sites b block) @ ds) r = Some d" "\<not> overwritten g d" for r d
  proof (cases "last_def (rev (block_sites b block)) r")
    case None
    with that jumps.IH obtain ds' where "runs_to g b ds'" "last_def ds' r = Some d" by (auto simp: last_def_append)
    with None jump[OF this(1)] show ?thesis by (fastforce simp: last_def_append)
  next
    case (Some e)
    with that jump[OF ds0] show ?thesis by (fastforce simp: last_def_append)
  qed
  with jump[OF ds0] show ?case by blast
next
  case (raises b ds c k)
  have "\<exists>ds. runs_to g c ds \<and> last_def ds r = Some d"
    if d: "last_def (rev (take k (sites_of g b)) @ ds) r = Some d" "\<not> overwritten g d" for r d
  proof (cases "last_def (rev (take k (sites_of g b))) r")
    case None
    with d raises.IH obtain ds' where "runs_to g b ds'" "last_def ds' r = Some d" by (auto simp: last_def_append)
    with runs_to.raise_before[OF this(1) raises(2)] show ?thesis by blast
  next
    case (Some e)
    with d(1) have e: "d \<in> set (sites_of g b)" "ds_register d = r"
      using last_def_Some[OF Some] by (auto simp: last_def_append dest: in_set_takeD)
    then obtain block where block: "get_block g b = Some block" "d \<in> set (block_sites b block)"
      by (cases "get_block g b") (auto simp: sites_of_def)
    obtain ds' where "runs_to g b ds'" using raises.IH by blast
    from runs_to.raise_after[OF this block(1) raises(2)] last_of_block[OF block] d(2) e(2) show ?thesis
      by (auto simp: last_def_append)
  qed
  moreover obtain ds' where "runs_to g b ds'" using raises.IH by blast
  ultimately show ?case using runs_to.raise_before[OF _ raises(2)] by blast
qed

text \<open>C30: The reaching-definitions analysis ends on every graph whose blocks carry their own ids, and it
  is checked against executions that follow jumps and exception edges, an exception leaving a
  protected block at any point, after any number of its assignments.  Coverage: whatever execution
  reaches a block, the last assignment of a register on it is among the definitions the analysis
  reports for that register on entry to the block, unless a later statement of the assignment's own
  block assigns the register again.  Precision: on a graph whose blocks are all reached by some
  path, every reported definition is the last assignment of its register on some execution that
  reaches the block.  The exception in the first part is a gap of the code, not of the executions: a
  definition its own block overwrites is not generated, so a catch block entered between the two
  assignments sees a definition the analysis does not report, although the comment in the code
  promises every definition made by the protected block.\<close>

theorem reaching_by_executions:
  assumes "ids_match g"
  shows "\<exists>info. reaching_analyze g = Some info
    \<and> (\<forall>b ds r d. exec_to g b ds \<and> last_def ds r = Some d \<and> \<not> overwritten g d \<longrightarrow> d \<in> defs_for info b r)
    \<and> (all_run g \<longrightarrow> (\<forall>b r d. d \<in> defs_for info b r \<longrightarrow> (\<exists>ds. exec_to g b ds \<and> last_def ds r = Some d)))"
proof -
  have "reaching_inv g (reaching_init g) \<and> (all_run g \<longrightarrow> witnessed g (reaching_init g))"
    using reaching_init_inv init_witnessed by blast
  then obtain info where info: "reaching_analyze g = Some info" "all_run g \<longrightarrow> witnessed g info"
    and quiet: "\<And>b. reachable g b \<Longrightarrow> \<not> snd (reaching_visit g b info)"
    using reaching_exact.sweeps_reach_fixpoint[of "reverse_postorder g" g "reaching_init g"]
    by (auto simp: reaching_analyze_def)
  have "d \<in> defs_for info b r" if "exec_to g b ds" "last_def ds r = Some d" "\<not> overwritten g d" for b ds r d
  proof -
    from executions_by_runs[OF that(1)] that(2,3) obtain ds' where "runs_to g b ds'" "last_def ds' r = Some d" by blast
    from reaching_sound[OF assms this] quiet last_def_Some[OF this(2)] show ?thesis
      by (auto simp: defs_for_def reaching_visit_facts(3))
  qed
  moreover have "\<exists>ds. exec_to g b ds \<and> last_def ds r = Some d" if "all_run g" "d \<in> defs_for info b r" for b r d
    using info(2) that runs_are_executions by (fastforce simp: witnessed_def defs_for_def)
  ultimately show ?thesis using info(1) by blast
qed

theorem reaching_by_executions_witness:
  "\<exists>info. reaching_analyze sample_loop = Some info
     \<and> \<lparr>ds_block = 0, ds_stmt_index = 0, ds_register = 0\<rparr> \<in> defs_for info 1 0
     \<and> \<lparr>ds_block = 1, ds_stmt_index = 0, ds_register = 0\<rparr> \<in> defs_for info 1 0"
proof -
  let ?d = "\<lambda>b. \<lparr>ds_block = b, ds_stmt_index = 0, ds_register = 0 :: reg\<rparr>"
  have ids: "ids_match sample_loop" by (simp add: ids_match_def sample_loop_def)
  have "exec_to sample_loop 0 []" using exec_to.begins[of sample_loop] by (simp add: sample_loop_def)
  from exec_to.jumps[OF this, of _ 1] have 1: "exec_to sample_loop 1 [?d 0]"
    by (simp add: sample_loop_def get_block_def block_successors_def block_sites_def List.map_filter_def)
  from exec_to.jumps[OF this, of _ 1] have 2: "exec_to sample_loop 1 [?d 1, ?d 0]"
    by (simp add: sample_loop_def get_block_def block_successors_def block_sites_def List.map_filter_def)
  from reaching_by_executions[OF ids] obtain info where info: "reaching_analyze sample_loop = Some info"
    and R: "\<And>b ds r d. exec_to sample_loop b ds \<Longrightarrow> last_def ds r = Some d \<Longrightarrow> \<not> overwritten sample_loop d
      \<Longrightarrow> d \<in> defs_for info b r" by blast
  have "\<not> overwritten sample_loop (?d 0)" "\<not> overwritten sample_loop (?d 1)"
    by (auto simp: overwritten_def sample_loop_def get_block_def)
  with R[OF 1, of 0 "?d 0"] R[OF 2, of 0 "?d 1"] info show ?thesis by (auto simp: last_def_def)
qed

section \<open>Definitions overwritten inside a protected block\<close>

text \<open>An exception can also leave a protected block in its middle.  A definition the same block
  overwrites later is then the one the catch block reads, but the analysis does not report it:
  only the last definition of a block is generated.  Here \<open>r0 = 1; f(); r0 = 2\<close> is protected and
  the catch block returns \<open>r0\<close>; a throw of \<open>f\<close> arrives with the first definition.\<close>

definition sample_try :: cfg where
  "sample_try = \<lparr>cfg_entry = 0, cfg_blocks =
     [(0, \<lparr>bb_id = 0, bb_statements = [SAssign (TBinding (BRegister 0)) (EValue (VConstant (CInteger 1))),
          SExpr (ECall (EReg 1) []), SAssign (TBinding (BRegister 0)) (EValue (VConstant (CInteger 2)))],
        bb_terminator = KReturn None\<rparr>),
      (1, \<lparr>bb_id = 1, bb_statements = [], bb_terminator = KReturn (Some (EReg 0))\<rparr>)],
     cfg_next_id = 2,
     cfg_exception_handlers = [\<lparr>ceh_try_block_start = 0, ceh_catch_block = 1, ceh_try_blocks = [0]\<rparr>],
     cfg_offset_to_block = Map.empty\<rparr>"

lemma gen_of_analysis:
  assumes "reaching_analyze g = Some info" "d \<in> defs_for info b r"
  shows "d \<in> all_sites g"
proof -
  obtain info' where "reaching_analyze g = Some info'" "reaching_inv g info'" by (rule reaching_fixpoint)
  with assms(1) have "facts (reaching_in info) b \<subseteq> all_sites g" by (simp add: reaching_inv_def)
  with assms(2) show ?thesis by (auto simp: defs_for_def)
qed

lemma overwritten_never_reported:
  assumes "reaching_analyze g = Some info" "d \<in> defs_for info b r"
  shows "\<not> overwritten g d"
proof -
  from gen_of_analysis[OF assms] obtain c where c: "d \<in> compute_gen g c" by (auto simp: all_sites_def)
  then obtain block where block: "get_block g c = Some block" by (cases "get_block g c") (auto simp: compute_gen_def)
  with c have l: "last_def (rev (block_sites c block)) (ds_register d) = Some d" by (simp add: compute_gen_eq)
  with last_def_Some[OF l] last_of_block[OF block, of d] show ?thesis by simp
qed

lemma overwritten_definition_missed:
  fixes d :: def_site
  assumes "reaching_analyze sample_try = Some info"
  defines "d \<equiv> \<lparr>ds_block = 0, ds_stmt_index = 0, ds_register = 0\<rparr>"
  shows "exec_to sample_try 1 [d]" "last_def [d] 0 = Some d" "d \<notin> defs_for info 1 0"
proof -
  have "overwritten sample_try d"
    by (auto simp: overwritten_def sample_try_def d_def get_block_def intro!: exI[of _ 2])
  with overwritten_never_reported[OF assms(1)] show "d \<notin> defs_for info 1 0" by blast
  show "exec_to sample_try 1 [d]"
    using exec_to.raises[OF exec_to.begins, of sample_try 1 1]
    by (simp add: sample_try_def exception_edge_sources_def sites_of_def get_block_def block_sites_def
        List.map_filter_def d_def)
  show "last_def [d] 0 = Some d" by (simp add: last_def_def d_def)
qed

end
