(* ===== verification/Loops.thy ===== *)
theory Loops
  imports Dataflow
begin

text \<open>
  Dominators and natural loops (\<open>crates/hbc-decomp/src/analysis/loops.rs\<close>).  The dominator loop
  unwraps the entry of the block it visits: a graph with an edge to a block that is not there
  makes it panic, which the state \<open>None\<close> records.  The specification is by walks from a root.
\<close>

section \<open>Dominators\<close>

type_synonym dominators = "block_id \<rightharpoonup> block_id set"

definition dominators_init :: "cfg \<Rightarrow> dominators" where
  "dominators_init g = (\<lambda>b. if b \<notin> set (block_ids g) then None
     else if b \<in> set (roots g) then Some {b} else Some (set (block_ids g)))"

definition meet_preds :: "dominators \<Rightarrow> block_id list \<Rightarrow> block_id set" where
  "meet_preds dm preds =
     fold (\<lambda>p acc. case dm p of Some pd \<Rightarrow> acc \<inter> pd | None \<Rightarrow> acc) (tl preds) (facts dm (hd preds))"

definition dominators_visit :: "cfg \<Rightarrow> block_id \<Rightarrow> dominators option \<Rightarrow> dominators option \<times> bool" where
  "dominators_visit g b st =
     (case st of
        None \<Rightarrow> (None, False)
      | Some dm \<Rightarrow>
          if b \<in> set (roots g) then (Some dm, False)
          else let preds = predecessors g b in
            if preds = [] then (Some dm, False)
            else let new_dom = insert b (meet_preds dm preds) in
              case dm b of
                None \<Rightarrow> (None, False)
              | Some old \<Rightarrow> if new_dom \<noteq> old then (Some (dm(b \<mapsto> new_dom)), True) else (Some dm, False))"

definition compute_dominators :: "cfg \<Rightarrow> dominators option" where
  "compute_dominators g =
     Option.bind (run_sweeps (dominators_visit g) (reverse_postorder g) (Some (dominators_init g))) (\<lambda>st. st)"

section \<open>Loops\<close>

record loop_info =
  li_header :: block_id
  li_body :: "block_id set"
  li_exit :: "block_id option"
  li_back_edges :: "(block_id \<times> block_id) list"
  li_is_do_while :: bool

text \<open>\<open>collect_loop_body\<close> on a list of nodes: the loop of the code over the predecessors.\<close>

function collect_bodies :: "cfg \<Rightarrow> block_id \<Rightarrow> block_id list \<Rightarrow> block_id set \<Rightarrow> block_id set" where
  "collect_bodies g header [] body = body"
| "collect_bodies g header (n # ns) body =
     (if n \<in> body then collect_bodies g header ns body
      else collect_bodies g header ns
        (collect_bodies g header (filter (\<lambda>p. p \<noteq> header) (predecessors g n)) (insert n body)))"
  by pat_completeness auto

lemma collect_bodies_grows:
  "collect_bodies_dom (g, header, ns, body) \<Longrightarrow> body \<subseteq> collect_bodies g header ns body"
proof (induction g header ns body rule: collect_bodies.pinduct)
  case (1 g header body)
  then show ?case by (simp add: collect_bodies.psimps)
next
  case (2 g header n ns body)
  show ?case
  proof (cases "n \<in> body")
    case True
    with 2 show ?thesis by (simp add: collect_bodies.psimps)
  next
    case False
    with 2(1,3,4) show ?thesis by (simp add: collect_bodies.psimps) blast
  qed
qed

termination collect_bodies
proof (relation "measures [\<lambda>(g, header, ns, body). card (UNIV - body), \<lambda>(g, header, ns, body). length ns]")
  fix g :: cfg and header n :: block_id and ns and body :: "block_id set"
  assume "n \<notin> body"
  then have "UNIV - insert n body \<subset> UNIV - body" by auto
  then have "card (UNIV - insert n body) < card (UNIV - body)" by (intro psubset_card_mono) auto
  then show "((g, header, filter (\<lambda>p. p \<noteq> header) (predecessors g n), insert n body), g, header, n # ns, body)
      \<in> measures [\<lambda>(g, header, ns, body). card (UNIV - body), \<lambda>(g, header, ns, body). length ns]"
    by simp
next
  fix g :: cfg and header n :: block_id and ns and body :: "block_id set"
  assume "collect_bodies_dom (g, header, filter (\<lambda>p. p \<noteq> header) (predecessors g n), insert n body)"
  from collect_bodies_grows[OF this]
  have "card (UNIV - collect_bodies g header (filter (\<lambda>p. p \<noteq> header) (predecessors g n)) (insert n body)) \<le> card (UNIV - body)"
    by (intro card_mono) auto
  then show "((g, header, ns, collect_bodies g header (filter (\<lambda>p. p \<noteq> header) (predecessors g n)) (insert n body)),
      g, header, n # ns, body)
      \<in> measures [\<lambda>(g, header, ns, body). card (UNIV - body), \<lambda>(g, header, ns, body). length ns]"
    by auto
qed auto

definition collect_loop_body :: "cfg \<Rightarrow> block_id \<Rightarrow> block_id \<Rightarrow> block_id set \<Rightarrow> block_id set" where
  "collect_loop_body g node header body = collect_bodies g header [node] body"

definition leaving :: "cfg \<Rightarrow> block_id set \<Rightarrow> block_id \<Rightarrow> block_id option" where
  "leaving g body b = find (\<lambda>s. s \<notin> body) (successors_of g b)"

definition find_loop_exit :: "cfg \<Rightarrow> block_id \<Rightarrow> block_id set \<Rightarrow> block_id option" where
  "find_loop_exit g header body =
     (case leaving g body header of
        Some s \<Rightarrow> Some s
      | None \<Rightarrow>
          (case List.map_filter (leaving g body) (sorted_list_of_set body) of [] \<Rightarrow> None | s # _ \<Rightarrow> Some s))"

definition back_edges_of :: "cfg \<Rightarrow> dominators \<Rightarrow> (block_id \<times> block_id) list" where
  "back_edges_of g dm =
     concat (map (\<lambda>block. map (\<lambda>s. (bb_id block, s))
        (filter (\<lambda>s. s \<in> facts dm (bb_id block)) (block_successors block))) (blocks g))"

definition group_by_header :: "(block_id \<times> block_id) list \<Rightarrow> (block_id \<times> (block_id \<times> block_id) list) list" where
  "group_by_header edges =
     fold (\<lambda>e headers. bt_insert (snd e)
        ((case map_of headers (snd e) of Some es \<Rightarrow> es | None \<Rightarrow> []) @ [e]) headers) edges []"

definition loop_of :: "cfg \<Rightarrow> block_id \<times> (block_id \<times> block_id) list \<Rightarrow> loop_info" where
  "loop_of g = (\<lambda>(header, edges).
     let body = fold (\<lambda>(from, _) body. collect_loop_body g from header body) edges {header} in
     \<lparr>li_header = header, li_body = body, li_exit = find_loop_exit g header body, li_back_edges = edges,
      li_is_do_while = list_ex (\<lambda>(from, to). to = header \<and>
        (case get_block g from of
           Some b \<Rightarrow> (case bb_terminator b of KBranch _ _ _ \<Rightarrow> True | _ \<Rightarrow> False)
         | None \<Rightarrow> False)) edges\<rparr>)"

definition detect_loops :: "cfg \<Rightarrow> loop_info list option" where
  "detect_loops g =
     map_option (\<lambda>dm. map (loop_of g) (group_by_header (back_edges_of g dm))) (compute_dominators g)"

section \<open>Dominance by walks\<close>

text \<open>A walk from a root, the last block first.\<close>

inductive walk :: "cfg \<Rightarrow> block_id list \<Rightarrow> bool" for g where
  at_root: "r \<in> set (roots g) \<Longrightarrow> walk g [r]"
| extend: "\<lbrakk>walk g (b # p); s \<in> set (successors_of g b)\<rbrakk> \<Longrightarrow> walk g (s # b # p)"

inductive_cases walk_ConsE: "walk g (b # p)"

definition dominates :: "cfg \<Rightarrow> block_id \<Rightarrow> block_id \<Rightarrow> bool" where
  "dominates g d b \<longleftrightarrow> (\<forall>p. walk g (b # p) \<longrightarrow> d \<in> set (b # p))"

definition closed_graph :: "cfg \<Rightarrow> bool" where
  "closed_graph g \<longleftrightarrow> ids_match g \<and> bt_ordered (cfg_blocks g) \<and> set (roots g) \<subseteq> set (block_ids g)
     \<and> (\<forall>b \<in> set (block_ids g). set (successors_of g b) \<subseteq> set (block_ids g))"

lemma reachable_walk: "reachable g b \<Longrightarrow> \<exists>p. walk g (b # p)"
proof (induction rule: reachable.induct)
  case (root b)
  then show ?case using walk.at_root by blast
next
  case (succ a b)
  then show ?case using walk.extend by blast
qed

lemma walk_reachable: "walk g p \<Longrightarrow> \<forall>b \<in> set p. reachable g b"
proof (induction rule: walk.induct)
  case (at_root r)
  then show ?case by (simp add: reachable.root)
next
  case (extend b p s)
  then show ?case by (auto intro: reachable.succ)
qed

lemma reachable_known: "closed_graph g \<Longrightarrow> reachable g b \<Longrightarrow> b \<in> set (block_ids g)"
  by (rotate_tac, induction rule: reachable.induct) (auto simp: closed_graph_def)

section \<open>The dominator loop\<close>

definition dm_inv :: "cfg \<Rightarrow> dominators \<Rightarrow> bool" where
  "dm_inv g dm \<longleftrightarrow> closed_graph g
     \<and> (\<forall>b. dm b = None \<longleftrightarrow> b \<notin> set (block_ids g))
     \<and> (\<forall>b \<in> set (block_ids g). facts dm b \<subseteq> set (block_ids g))
     \<and> (\<forall>r \<in> set (roots g). facts dm r = {r})
     \<and> (\<forall>b \<in> set (block_ids g). \<forall>d \<in> set (block_ids g). dominates g d b \<longrightarrow> d \<in> facts dm b)
     \<and> (\<forall>b. b \<notin> set (roots g) \<longrightarrow> predecessors g b \<noteq> [] \<longrightarrow> b \<in> set (block_ids g) \<longrightarrow>
          insert b (\<Inter>p \<in> set (predecessors g b). facts dm p) \<subseteq> facts dm b)"

definition dm_state_inv :: "cfg \<Rightarrow> dominators option \<Rightarrow> bool" where
  "dm_state_inv g st \<longleftrightarrow> (case st of None \<Rightarrow> False | Some dm \<Rightarrow> dm_inv g dm)"

definition dm_rank :: "cfg \<Rightarrow> dominators option \<Rightarrow> nat" where
  "dm_rank g st = (case st of None \<Rightarrow> 0 | Some dm \<Rightarrow> holding (set (block_ids g)) (facts dm))"

lemma predecessors_known: "ids_match g \<Longrightarrow> set (predecessors g b) \<subseteq> set (block_ids g)"
proof
  fix p assume ids: "ids_match g" and "p \<in> set (predecessors g b)"
  then obtain i block where "(i, block) \<in> set (cfg_blocks g)" "p = bb_id block"
    by (auto simp: predecessors_def blocks_def)
  with ids show "p \<in> set (block_ids g)" by (force simp: ids_match_def block_ids_def)
qed

lemma meet_preds_eq:
  assumes "ps \<noteq> []" "\<forall>p \<in> set ps. dm p \<noteq> None"
  shows "meet_preds dm ps = (\<Inter>p \<in> set ps. facts dm p)"
proof -
  have "fold (\<lambda>p acc. case dm p of Some pd \<Rightarrow> acc \<inter> pd | None \<Rightarrow> acc) qs A = A \<inter> (\<Inter>p \<in> set qs. facts dm p)"
    if "\<forall>p \<in> set qs. dm p \<noteq> None" for qs A
    using that by (induction qs arbitrary: A) (auto simp: facts_def)
  with assms show ?thesis by (cases ps) (auto simp: meet_preds_def)
qed

lemma dominates_pred:
  assumes "dominates g d b" "b \<in> set (successors_of g p)" "d \<noteq> b"
  shows "dominates g d p"
  using assms unfolding dominates_def by (metis walk.extend set_ConsD)

lemma dm_invD:
  assumes "dm_inv g dm"
  shows "closed_graph g" "dm b = None \<longleftrightarrow> b \<notin> set (block_ids g)"
    "b \<in> set (block_ids g) \<Longrightarrow> facts dm b \<subseteq> set (block_ids g)"
    "b \<in> set (roots g) \<Longrightarrow> facts dm b = {b}"
    "\<lbrakk>b \<in> set (block_ids g); d \<in> set (block_ids g); dominates g d b\<rbrakk> \<Longrightarrow> d \<in> facts dm b"
    "\<lbrakk>b \<notin> set (roots g); predecessors g b \<noteq> []; b \<in> set (block_ids g)\<rbrakk> \<Longrightarrow>
      insert b (\<Inter>p \<in> set (predecessors g b). facts dm p) \<subseteq> facts dm b"
proof -
  note d = assms[unfolded dm_inv_def]
  note r = d[THEN conjunct2] and r2 = d[THEN conjunct2, THEN conjunct2]
  note r3 = r2[THEN conjunct2] and r4 = r2[THEN conjunct2, THEN conjunct2]
  note r5 = r4[THEN conjunct2]
  show "closed_graph g" by (rule conjunct1[OF d])
  show "dm b = None \<longleftrightarrow> b \<notin> set (block_ids g)" by (rule conjunct1[OF r, THEN spec])
  show "b \<in> set (block_ids g) \<Longrightarrow> facts dm b \<subseteq> set (block_ids g)" by (rule conjunct1[OF r2, THEN bspec])
  show "b \<in> set (roots g) \<Longrightarrow> facts dm b = {b}" by (rule conjunct1[OF r3, THEN bspec])
  show "\<lbrakk>b \<in> set (block_ids g); d \<in> set (block_ids g); dominates g d b\<rbrakk> \<Longrightarrow> d \<in> facts dm b"
    by (rule conjunct1[OF r4, rule_format])
  show "\<lbrakk>b \<notin> set (roots g); predecessors g b \<noteq> []; b \<in> set (block_ids g)\<rbrakk> \<Longrightarrow>
      insert b (\<Inter>p \<in> set (predecessors g b). facts dm p) \<subseteq> facts dm b"
    by (rule r5[rule_format])
qed

text \<open>A visit of a block, when it changes something.\<close>

lemma dominators_visit_shrinks:
  assumes inv: "dm_inv g dm" and b: "reachable g b"
  shows "dm_state_inv g (fst (dominators_visit g b (Some dm)))
    \<and> (if snd (dominators_visit g b (Some dm))
       then dm_rank g (fst (dominators_visit g b (Some dm))) < dm_rank g (Some dm)
       else fst (dominators_visit g b (Some dm)) = Some dm
         \<and> (b \<in> set (roots g) \<or> predecessors g b = []
             \<or> facts dm b = insert b (\<Inter>p \<in> set (predecessors g b). facts dm p)))"
proof (cases "b \<in> set (roots g) \<or> predecessors g b = []")
  case True
  with inv show ?thesis by (auto simp: dominators_visit_def dm_state_inv_def)
next
  case False
  note i = dm_invD[OF inv]
  let ?K = "set (block_ids g)"
  have g: "closed_graph g" by (rule i(1))
  then have bK: "b \<in> ?K" and ids: "ids_match g" "bt_ordered (cfg_blocks g)"
    using reachable_known[OF g b] by (simp_all add: closed_graph_def)
  then obtain old where old: "dm b = Some old" using i(2)[of b] by auto
  have pK: "set (predecessors g b) \<subseteq> ?K" using predecessors_known[OF ids(1)] .
  then have some: "\<forall>p \<in> set (predecessors g b). dm p \<noteq> None" using i(2) by blast
  define new where "new = insert b (\<Inter>p \<in> set (predecessors g b). facts dm p)"
  have v: "dominators_visit g b (Some dm) = (if new \<noteq> old then (Some (dm(b \<mapsto> new)), True) else (Some dm, False))"
    using False some by (simp add: dominators_visit_def Let_def meet_preds_eq new_def old)
  have fb: "facts dm b = old" by (simp add: facts_def old)
  have sub: "new \<subseteq> old" using i(6)[of b] False bK fb by (simp add: new_def)
  have oldK: "old \<subseteq> ?K" using i(3)[OF bK] fb by simp
  have dom: "d \<in> new" if "d \<in> ?K" "dominates g d b" for d
  proof (cases "d = b")
    case False
    have "d \<in> facts dm p" if p: "p \<in> set (predecessors g b)" for p
    proof -
      have "dominates g d p"
        using dominates_pred[OF \<open>dominates g d b\<close> _ False] p ids by (simp add: predecessors_iff)
      with i(5)[of p d] p pK \<open>d \<in> ?K\<close> show ?thesis by blast
    qed
    then show ?thesis by (simp add: new_def)
  qed (simp add: new_def)
  have less: "facts (dm(b \<mapsto> new)) c \<subseteq> facts dm c" for c using sub fb by (simp add: facts_upd)
  have "dm_inv g (dm(b \<mapsto> new))"
    unfolding dm_inv_def
  proof (intro conjI allI ballI impI)
    show "closed_graph g" by (rule g)
    fix c
    show "((dm(b \<mapsto> new)) c = None) = (c \<notin> ?K)" using i(2)[of c] bK by auto
    show "facts (dm(b \<mapsto> new)) c \<subseteq> ?K" if "c \<in> ?K" using i(3)[OF that] less by blast
    show "facts (dm(b \<mapsto> new)) c = {c}" if "c \<in> set (roots g)" using i(4)[OF that] that False by (auto simp: facts_upd)
    show "d \<in> facts (dm(b \<mapsto> new)) c" if "c \<in> ?K" "d \<in> ?K" "dominates g d c" for d
      using i(5)[OF that] that dom by (auto simp: facts_upd)
    assume c: "c \<notin> set (roots g)" "predecessors g c \<noteq> []" "c \<in> ?K"
    have "insert c (\<Inter>p \<in> set (predecessors g c). facts (dm(b \<mapsto> new)) p) \<subseteq> insert c (\<Inter>p \<in> set (predecessors g c). facts dm p)"
      using less by blast
    also have "\<dots> \<subseteq> facts (dm(b \<mapsto> new)) c"
      using i(6)[OF c] by (cases "c = b") (simp_all add: facts_upd new_def)
    finally show "insert c (\<Inter>p \<in> set (predecessors g c). facts (dm(b \<mapsto> new)) p) \<subseteq> facts (dm(b \<mapsto> new)) c" .
  qed
  moreover have "holding ?K (facts (dm(b \<mapsto> new))) < holding ?K (facts dm)" if "new \<noteq> old"
    unfolding facts_upd using sub that bK fb finite_subset[OF oldK] by (intro holding_less) auto
  ultimately show ?thesis using inv fb by (auto simp: v dm_state_inv_def dm_rank_def new_def)
qed

interpretation dominator_loop: sweeping "dominators_visit g" "{b. reachable g b}" "dm_state_inv g" "dm_rank g" for g
proof
  fix b and st assume b: "b \<in> {b. reachable g b}" and inv: "dm_state_inv g st"
  then obtain dm where st: "st = Some dm" "dm_inv g dm" by (auto simp: dm_state_inv_def split: option.splits)
  note v = dominators_visit_shrinks[OF st(2), of b] b
  show "dm_state_inv g (fst (dominators_visit g b st))" using v by (simp add: st)
  show "fst (dominators_visit g b st) = st" if "\<not> snd (dominators_visit g b st)" using v that by (simp add: st)
  show "dm_rank g (fst (dominators_visit g b st)) < dm_rank g st" if "snd (dominators_visit g b st)"
    using v that by (simp add: st)
qed

lemma dominators_init_inv:
  assumes g: "closed_graph g"
  shows "dm_state_inv g (Some (dominators_init g))"
proof -
  let ?f = "facts (dominators_init g)" and ?K = "set (block_ids g)"
  have root: "d = r" if "r \<in> set (roots g)" "dominates g d r" for d r
    using that walk.at_root[OF that(1)] by (auto simp: dominates_def)
  have known: "set (roots g) \<subseteq> ?K" "ids_match g" using g by (auto simp: closed_graph_def)
  have f: "?f b = (if b \<notin> ?K then {} else if b \<in> set (roots g) then {b} else ?K)" for b
    by (simp add: facts_def dominators_init_def)
  have "dm_inv g (dominators_init g)"
    unfolding dm_inv_def
  proof (intro conjI allI ballI impI)
    fix b
    show "(dominators_init g b = None) = (b \<notin> ?K)" by (simp add: dominators_init_def)
    show "?f b \<subseteq> ?K" by (auto simp: f)
    show "?f b = {b}" if "b \<in> set (roots g)" using that known by (auto simp: f)
    show "d \<in> ?f b" if "b \<in> ?K" "d \<in> ?K" "dominates g d b" for d using that root by (auto simp: f)
    assume b: "b \<notin> set (roots g)" "predecessors g b \<noteq> []" "b \<in> ?K"
    have "(\<Inter>p \<in> set (predecessors g b). ?f p) \<subseteq> ?f (hd (predecessors g b))" using b(2) by (intro INF_lower) simp
    also have "\<dots> \<subseteq> ?K" by (auto simp: f)
    finally show "insert b (\<Inter>p \<in> set (predecessors g b). ?f p) \<subseteq> ?f b" using b by (simp add: f)
  qed (rule g)
  then show ?thesis by (simp add: dm_state_inv_def)
qed

lemma dominators_fixpoint:
  assumes "closed_graph g"
  obtains dm where "compute_dominators g = Some dm" "dm_inv g dm"
    "\<And>b. reachable g b \<Longrightarrow> d \<in> facts dm b \<longleftrightarrow> dominates g d b"
proof -
  have "set (reverse_postorder g) \<subseteq> {b. reachable g b}" by simp
  from dominator_loop.sweeps_reach_fixpoint[OF this dominators_init_inv[OF assms]] obtain st where st:
    "run_sweeps (dominators_visit g) (reverse_postorder g) (Some (dominators_init g)) = Some st" "dm_state_inv g st"
    "\<forall>b \<in> set (reverse_postorder g). \<not> snd (dominators_visit g b st)"
    by blast
  then obtain dm where dm: "st = Some dm" "dm_inv g dm" by (auto simp: dm_state_inv_def split: option.splits)
  note i = dm_invD[OF dm(2)]
  have fix_eq: "facts dm b = insert b (\<Inter>p \<in> set (predecessors g b). facts dm p)"
    if "reachable g b" "b \<notin> set (roots g)" "predecessors g b \<noteq> []" for b
    using dominators_visit_shrinks[OF dm(2) that(1)] st(3) that by (simp add: dm(1))
  have "d \<in> facts dm b \<Longrightarrow> d \<in> set (b # p)" if "walk g (b # p)" for b p d
    using that
  proof (induction "b # p" arbitrary: b p rule: walk.induct)
    case (at_root r)
    then show ?case using i(4) by auto
  next
    case (extend c q s)
    show ?case
    proof (cases "s \<in> set (roots g)")
      case True
      then show ?thesis using i(4) extend.prems by auto
    next
      case False
      have s: "reachable g s" using walk_reachable[OF walk.extend[OF extend(1,3)]] by simp
      have "c \<in> set (predecessors g s)"
        using extend(3) assms by (simp add: closed_graph_def predecessors_iff)
      moreover from this have "predecessors g s \<noteq> []" by auto
      ultimately have "d = s \<or> d \<in> facts dm c" using fix_eq[OF s False] extend.prems by auto
      with extend(2) show ?thesis by auto
    qed
  qed
  moreover have "d \<in> facts dm b" if "reachable g b" "dominates g d b" for b
  proof -
    from reachable_walk[OF that(1)] obtain p where p: "walk g (b # p)" by blast
    with that(2) have "d \<in> set (b # p)" by (simp only: dominates_def)
    with walk_reachable[OF p] have "d \<in> set (block_ids g)" using reachable_known[OF assms] by auto
    with i(5)[of b d] that reachable_known[OF assms that(1)] show ?thesis by blast
  qed
  ultimately have "\<And>b. reachable g b \<Longrightarrow> d \<in> facts dm b \<longleftrightarrow> dominates g d b"
    using reachable_walk unfolding dominates_def by blast
  with st(1) dm show thesis by (intro that[of dm]) (auto simp: compute_dominators_def)
qed

text \<open>C31: On a graph whose edges all lead to blocks that are there, the dominator computation ends
  without a panic, and for every block some root reaches, its set holds exactly the blocks that
  lie on every walk from a root, the entry or a catch block, to it.\<close>

theorem dominators_by_walks:
  assumes "closed_graph g"
  shows "\<exists>dm. compute_dominators g = Some dm
    \<and> (\<forall>b d. reachable g b \<longrightarrow> (d \<in> facts dm b \<longleftrightarrow> dominates g d b))"
proof -
  obtain dm where dm: "compute_dominators g = Some dm" by (rule dominators_fixpoint[OF assms])
  have "d \<in> facts dm b \<longleftrightarrow> dominates g d b" if "reachable g b" for b d
    using that dm by (auto intro: dominators_fixpoint[OF assms, of d])
  with dm show ?thesis by blast
qed

section \<open>Loop bodies\<close>

text \<open>The blocks from which a block is reached without passing the header.\<close>

inductive back_reach :: "cfg \<Rightarrow> block_id \<Rightarrow> block_id \<Rightarrow> block_id \<Rightarrow> bool" for g header source where
  itself: "source \<noteq> header \<Longrightarrow> back_reach g header source source"
| before: "\<lbrakk>back_reach g header source n; p \<in> set (predecessors g n); p \<noteq> header\<rbrakk> \<Longrightarrow> back_reach g header source p"

lemma back_reach_header: "back_reach g header source n \<Longrightarrow> n \<noteq> header"
  by (induction rule: back_reach.induct)

definition body_closed :: "cfg \<Rightarrow> block_id \<Rightarrow> block_id set \<Rightarrow> bool" where
  "body_closed g header body \<longleftrightarrow>
     (\<forall>n \<in> body - {header}. set (predecessors g n) - {header} \<subseteq> body)"

lemma collect_bodies_props:
  "body \<subseteq> collect_bodies g header ns body" "set ns \<subseteq> collect_bodies g header ns body"
  "n \<in> collect_bodies g header ns body - body \<Longrightarrow> set (predecessors g n) - {header} \<subseteq> collect_bodies g header ns body"
proof (induction g header ns body rule: collect_bodies.induct)
  case (2 g header m ns body)
  let ?ps = "filter (\<lambda>p. p \<noteq> header) (predecessors g m)"
  let ?c = "collect_bodies g header ?ps (insert m body)"
  show "body \<subseteq> collect_bodies g header (m # ns) body"
    using 2(1,4,7) by (cases "m \<in> body") auto
  show "set (m # ns) \<subseteq> collect_bodies g header (m # ns) body"
    using 2(1,2,4,7,8) by (cases "m \<in> body") auto
  show "set (predecessors g n) - {header} \<subseteq> collect_bodies g header (m # ns) body"
    if n: "n \<in> collect_bodies g header (m # ns) body - body"
  proof (cases "m \<in> body")
    case True
    with n 2(3) show ?thesis by simp
  next
    case False
    have grow: "?c \<subseteq> collect_bodies g header ns ?c" "insert m body \<subseteq> ?c" "set ?ps \<subseteq> ?c"
      using 2(4,5,7)[OF False] by blast+
    consider "n = m" | "n \<in> ?c - insert m body" | "n \<in> collect_bodies g header ns ?c - ?c"
      using n False by auto
    then show ?thesis
    proof cases
      case 1
      with grow False show ?thesis by auto
    next
      case 2
      with "2.IH"(6)[OF False] grow False show ?thesis by auto
    next
      case 3
      with "2.IH"(9)[OF False] False show ?thesis by auto
    qed
  qed
qed simp_all

lemma collect_bodies_within:
  "\<lbrakk>header \<in> body; body \<subseteq> X; set ns \<subseteq> X; body_closed g header X\<rbrakk> \<Longrightarrow> collect_bodies g header ns body \<subseteq> X"
proof (induction g header ns body rule: collect_bodies.induct)
  case (2 g header m ns body)
  show ?case
  proof (cases "m \<in> body")
    case True
    with 2 show ?thesis by simp
  next
    case False
    let ?ps = "filter (\<lambda>p. p \<noteq> header) (predecessors g m)"
    have m: "m \<noteq> header" "m \<in> X" using False 2(4,6) by auto
    then have "set ?ps \<subseteq> X" using 2(7) unfolding body_closed_def by fastforce
    with 2(2)[OF False] 2(4,5,7) m have c: "collect_bodies g header ?ps (insert m body) \<subseteq> X" by auto
    have "header \<in> collect_bodies g header ?ps (insert m body)"
      using collect_bodies_props(1)[of "insert m body" g header ?ps] 2(4) by auto
    with 2(3)[OF False] c 2(6,7) False show ?thesis by simp
  qed
qed simp

lemma loop_body_eq:
  "li_body (loop_of g (header, edges)) =
     insert header {n. \<exists>e \<in> set edges. back_reach g header (fst e) n}" (is "?B = ?X")
proof -
  let ?f = "fold (\<lambda>(from, _) body. collect_loop_body g from header body)"
  have X: "body_closed g header ?X" by (auto simp: body_closed_def intro: back_reach.before)
  have "header \<in> ?f es body \<and> ?f es body \<subseteq> ?X \<and> body_closed g header (?f es body)
      \<and> body \<subseteq> ?f es body \<and> fst ` set es \<subseteq> ?f es body"
    if "set es \<subseteq> set edges" "header \<in> body" "body \<subseteq> ?X" "body_closed g header body" for es :: "(block_id \<times> block_id) list" and body
    using that
  proof (induction es arbitrary: body)
    case (Cons e es)
    let ?c = "collect_loop_body g (fst e) header body"
    have "fst e \<in> ?X" using Cons.prems(1) by (auto intro: back_reach.itself)
    then have "?c \<subseteq> ?X" using Cons.prems X unfolding collect_loop_body_def by (intro collect_bodies_within) auto
    moreover note p = collect_bodies_props[where body = body and g = g and header = header and ns = "[fst e]", folded collect_loop_body_def]
    moreover have "body_closed g header ?c"
      unfolding body_closed_def
    proof
      fix n assume n: "n \<in> ?c - {header}"
      show "set (predecessors g n) - {header} \<subseteq> ?c"
      proof (cases "n \<in> body")
        case True
        then show ?thesis using n p(1) Cons.prems(4) unfolding body_closed_def by blast
      next
        case False
        then show ?thesis using n p(3) by simp
      qed
    qed
    ultimately have "header \<in> ?f es ?c \<and> ?f es ?c \<subseteq> ?X \<and> body_closed g header (?f es ?c)
      \<and> ?c \<subseteq> ?f es ?c \<and> fst ` set es \<subseteq> ?f es ?c"
      using Cons.prems by (intro Cons.IH) auto
    with p(1,2) show ?case by (cases e) auto
  qed auto
  from this[of edges "{header}"] have B: "header \<in> ?B" "?B \<subseteq> ?X" "body_closed g header ?B" "fst ` set edges \<subseteq> ?B"
    by (auto simp: loop_of_def Let_def body_closed_def)
  have "n \<in> ?B" if "back_reach g header source n" "source \<in> fst ` set edges" for source n
    using that
  proof (induction rule: back_reach.induct)
    case itself
    then show ?case using B(4) by auto
  next
    case (before n p)
    then show ?case using B(3) back_reach_header[OF before(1)] unfolding body_closed_def by blast
  qed
  with B(1,2) show ?thesis by auto
qed

lemma group_by_header_props:
  "bt_ordered (group_by_header edges)"
  "map_of (group_by_header edges) h =
     (if filter (\<lambda>e. snd e = h) edges = [] then None else Some (filter (\<lambda>e. snd e = h) edges))"
proof (induction edges arbitrary: h rule: rev_induct)
  case (snoc e edges)
  let ?v = "(case map_of (group_by_header edges) (snd e) of Some es \<Rightarrow> es | None \<Rightarrow> []) @ [e]"
  have g: "group_by_header (edges @ [e]) = bt_insert (snd e) ?v (group_by_header edges)"
    by (simp add: group_by_header_def)
  { case 1 show ?case unfolding g using snoc(1) by (rule bt_insert_ordered) }
  { case 2 show ?case unfolding g map_of_bt_insert[OF snoc(1)]
      using snoc(2)[of h] snoc(2)[of "snd e"] by auto }
qed (simp_all add: group_by_header_def)

lemma back_edge_iff:
  assumes "ids_match g" "bt_ordered (cfg_blocks g)"
  shows "(a, h) \<in> set (back_edges_of g dm) \<longleftrightarrow> h \<in> set (successors_of g a) \<and> h \<in> facts dm a"
proof
  assume "(a, h) \<in> set (back_edges_of g dm)"
  then obtain block where b: "block \<in> set (blocks g)" "a = bb_id block" "h \<in> set (block_successors block)" "h \<in> facts dm a"
    by (auto simp: back_edges_of_def)
  then have "a \<in> set (predecessors g h)" by (auto simp: predecessors_def)
  with b(4) assms show "h \<in> set (successors_of g a) \<and> h \<in> facts dm a" by (simp add: predecessors_iff)
next
  assume h: "h \<in> set (successors_of g a) \<and> h \<in> facts dm a"
  then have "a \<in> set (predecessors g h)" using assms by (simp add: predecessors_iff)
  then obtain block where "block \<in> set (blocks g)" "a = bb_id block" "h \<in> set (block_successors block)"
    by (auto simp: predecessors_def)
  with h show "(a, h) \<in> set (back_edges_of g dm)" by (auto simp: back_edges_of_def)
qed

lemma back_reach_walk:
  assumes "ids_match g" "bt_ordered (cfg_blocks g)"
    and "back_reach g header source n" "walk g (n # p)" "header \<notin> set (n # p)"
  shows "\<exists>q. walk g (source # q) \<and> header \<notin> set (source # q)"
  using assms(3-)
proof (induction arbitrary: p rule: back_reach.induct)
  case itself
  then show ?case by blast
next
  case (before n m)
  then have "n \<in> set (successors_of g m)" using assms(1,2) by (simp add: predecessors_iff)
  with before.prems(1) have "walk g (n # m # p)" by (rule walk.extend)
  with before.IH[OF this] before.prems(2) back_reach_header[OF before(1)] show ?case by simp
qed

text \<open>C32: The loops found are the natural loops.  On a graph whose edges all lead to blocks that are
  there the search succeeds; the body of each loop is its header with the blocks from which one
  of its back edges is reached without passing the header, so every edge into the body from
  outside enters at the header; the header dominates every reached block of the body; and every
  edge from a reached block to one of its dominators is a back edge of the loop of that
  dominator.\<close>

theorem loops_are_natural:
  assumes "closed_graph g"
  shows "\<exists>loops. detect_loops g = Some loops
    \<and> (\<forall>L \<in> set loops.
         li_body L = insert (li_header L) {n. \<exists>e \<in> set (li_back_edges L). back_reach g (li_header L) (fst e) n}
         \<and> (\<forall>n \<in> li_body L. \<forall>a. n \<in> set (successors_of g a) \<and> a \<notin> li_body L \<longrightarrow> n = li_header L)
         \<and> (\<forall>n \<in> li_body L. reachable g n \<longrightarrow> dominates g (li_header L) n))
    \<and> (\<forall>a h. reachable g a \<and> h \<in> set (successors_of g a) \<and> dominates g h a \<longrightarrow>
         (\<exists>L \<in> set loops. li_header L = h \<and> (a, h) \<in> set (li_back_edges L)))"
proof -
  have ids: "ids_match g" "bt_ordered (cfg_blocks g)" using assms by (simp_all add: closed_graph_def)
  obtain dm where dm: "compute_dominators g = Some dm" by (rule dominators_fixpoint[OF assms])
  have dom: "d \<in> facts dm b \<longleftrightarrow> dominates g d b" if "reachable g b" for b d
    using that dm by (auto intro: dominators_fixpoint[OF assms, of d])
  let ?groups = "group_by_header (back_edges_of g dm)"
  have loops: "detect_loops g = Some (map (loop_of g) ?groups)" by (simp add: detect_loops_def dm)
  have group: "es = filter (\<lambda>e. snd e = h) (back_edges_of g dm)" if "(h, es) \<in> set ?groups" for h es
    using map_of_is_SomeI[OF bt_ordered_distinct[OF group_by_header_props(1)] that] group_by_header_props(2)[of "back_edges_of g dm" h]
    by (auto split: if_splits)
  have fields: "li_header (loop_of g (h, es)) = h" "li_back_edges (loop_of g (h, es)) = es" for h es
    by (simp_all add: loop_of_def Let_def)
  have body: "(\<forall>n \<in> li_body L. \<forall>a. n \<in> set (successors_of g a) \<and> a \<notin> li_body L \<longrightarrow> n = h)
      \<and> (\<forall>n \<in> li_body L. reachable g n \<longrightarrow> dominates g h n)"
    if L: "L = loop_of g (h, es)" "(h, es) \<in> set ?groups" for L h es
  proof (intro conjI ballI allI impI)
    fix n a assume n: "n \<in> li_body L" and a: "n \<in> set (successors_of g a) \<and> a \<notin> li_body L"
    show "n = h"
    proof (rule ccontr)
      assume "n \<noteq> h"
      with n L obtain e where e: "e \<in> set es" "back_reach g h (fst e) n" by (auto simp: loop_body_eq)
      have "a \<in> set (predecessors g n)" using a ids by (simp add: predecessors_iff)
      with e a L show False by (auto simp: loop_body_eq intro: back_reach.before)
    qed
  next
    fix n assume n: "n \<in> li_body L" "reachable g n"
    show "dominates g h n"
    proof (cases "n = h")
      case False
      with n L obtain e where e: "e \<in> set es" "back_reach g h (fst e) n" by (auto simp: loop_body_eq)
      with group[OF L(2)] have edge: "(fst e, h) \<in> set (back_edges_of g dm)" by (cases e) auto
      show ?thesis
        unfolding dominates_def
      proof (intro allI impI, rule ccontr)
        fix p assume "walk g (n # p)" "h \<notin> set (n # p)"
        from back_reach_walk[OF ids e(2) this] obtain q where q: "walk g (fst e # q)" "h \<notin> set (fst e # q)" by blast
        then have "reachable g (fst e)" using walk_reachable by fastforce
        with edge ids dom have "dominates g h (fst e)" by (simp add: back_edge_iff)
        with q show False by (simp only: dominates_def) blast
      qed
    qed (simp add: dominates_def)
  qed
  have complete: "\<exists>L \<in> loop_of g ` set ?groups. li_header L = h \<and> (a, h) \<in> set (li_back_edges L)"
    if "reachable g a" "h \<in> set (successors_of g a)" "dominates g h a" for a h
  proof -
    have e: "(a, h) \<in> set (filter (\<lambda>e. snd e = h) (back_edges_of g dm))"
      using that ids dom by (simp add: back_edge_iff)
    then have "map_of ?groups h = Some (filter (\<lambda>e. snd e = h) (back_edges_of g dm))"
      by (force simp: group_by_header_props(2) filter_empty_conv)
    from map_of_SomeD[OF this] e show ?thesis by (intro bexI[OF _ imageI]) (auto simp: fields)
  qed
  have each: "li_body L = insert (li_header L) {n. \<exists>e \<in> set (li_back_edges L). back_reach g (li_header L) (fst e) n}
      \<and> (\<forall>n \<in> li_body L. \<forall>a. n \<in> set (successors_of g a) \<and> a \<notin> li_body L \<longrightarrow> n = li_header L)
      \<and> (\<forall>n \<in> li_body L. reachable g n \<longrightarrow> dominates g (li_header L) n)" if L: "L \<in> loop_of g ` set ?groups" for L
  proof -
    from L obtain h es where he: "L = loop_of g (h, es)" "(h, es) \<in> set ?groups" by auto
    show ?thesis using body[OF he] loop_body_eq[of g h es] fields[of h es] by (simp only: he(1))
  qed
  show ?thesis
  proof (rule exI[of _ "map (loop_of g) ?groups"], unfold set_map, intro conjI ballI)
    show "detect_loops g = Some (map (loop_of g) ?groups)" by (rule loops)
    show "\<forall>a h. reachable g a \<and> h \<in> set (successors_of g a) \<and> dominates g h a \<longrightarrow>
         (\<exists>L \<in> loop_of g ` set ?groups. li_header L = h \<and> (a, h) \<in> set (li_back_edges L))"
      using complete by blast
  qed (use each in \<open>blast+\<close>)
qed

lemma sample_loop_closed: "closed_graph sample_loop"
  by (auto simp: closed_graph_def ids_match_def sample_loop_def roots_def block_ids_def successors_of_def get_block_def
      block_successors_def)

lemma sample_loop_reached:
  "reachable sample_loop 0" "reachable sample_loop 1" "reachable sample_loop 2"
  "set (successors_of sample_loop a) = (if a = 0 then {1} else if a = 1 then {1, 2} else {})"
proof -
  have succ: "set (successors_of sample_loop a) = (if a = 0 then {1} else if a = 1 then {1, 2} else {})" for a
    by (auto simp: sample_loop_def successors_of_def get_block_def block_successors_def)
  show 0: "reachable sample_loop 0" by (rule reachable.root) (simp add: roots_def sample_loop_def)
  show 1: "reachable sample_loop 1" using reachable.succ[OF 0, of 1] by (simp add: succ)
  show "reachable sample_loop 2" using reachable.succ[OF 1, of 2] by (simp add: succ)
  show "set (successors_of sample_loop a) = (if a = 0 then {1} else if a = 1 then {1, 2} else {})" by (rule succ)
qed

theorem dominators_by_walks_witness:
  "\<exists>dm. compute_dominators sample_loop = Some dm \<and> 0 \<in> facts dm 2 \<and> 1 \<in> facts dm 2"
proof -
  obtain dm where dm: "compute_dominators sample_loop = Some dm"
    and D: "\<And>b d. reachable sample_loop b \<Longrightarrow> d \<in> facts dm b \<longleftrightarrow> dominates sample_loop d b"
    using dominators_by_walks[OF sample_loop_closed] by blast
  have "walk sample_loop p \<Longrightarrow> p \<noteq> [] \<and> (p = [0] \<or> hd p \<in> {1, 2} \<and> {0, 1} \<subseteq> set p)" for p
  proof (induction rule: walk.induct)
    case (at_root r)
    then show ?case by (simp add: roots_def sample_loop_def)
  next
    case (extend b p s)
    then show ?case by (auto simp: sample_loop_reached(4) split: if_splits)
  qed
  from this[of "2 # _"] have "dominates sample_loop 0 2" "dominates sample_loop 1 2"
    unfolding dominates_def by fastforce+
  with dm D[OF sample_loop_reached(3)] show ?thesis by blast
qed

theorem loops_are_natural_witness:
  "\<exists>loops. detect_loops sample_loop = Some loops
     \<and> (\<exists>L \<in> set loops. li_header L = 1 \<and> (1, 1) \<in> set (li_back_edges L) \<and> 1 \<in> li_body L)"
proof -
  obtain loops where loops: "detect_loops sample_loop = Some loops"
    and body: "\<forall>L \<in> set loops. li_body L = insert (li_header L) {n. \<exists>e \<in> set (li_back_edges L). back_reach sample_loop (li_header L) (fst e) n}"
    and found: "\<And>a h. reachable sample_loop a \<Longrightarrow> h \<in> set (successors_of sample_loop a) \<Longrightarrow> dominates sample_loop h a \<Longrightarrow>
       \<exists>L \<in> set loops. li_header L = h \<and> (a, h) \<in> set (li_back_edges L)"
    using loops_are_natural[OF sample_loop_closed] by blast
  have "1 \<in> set (successors_of sample_loop 1)" "dominates sample_loop 1 1"
    by (simp_all add: sample_loop_reached(4) dominates_def)
  from found[OF sample_loop_reached(2) this] body loops show ?thesis by auto
qed

end
