(* ===== verification/Union_Find.thy ===== *)
theory Union_Find
  imports Main
begin

text \<open>
  The union-find forest of \<open>crates/hbc-decomp/src/transforms/ssa.rs\<close>.  The forest is its vector of
  parents.  An index past the end panics and a cycle of parents would loop: both are \<open>None\<close>.  The
  specification is the representative of each element; the classes of a forest built by unions
  are those of the equivalence the united pairs generate.
\<close>

section \<open>The forest\<close>

partial_function (option) uf_root :: "nat list \<Rightarrow> nat \<Rightarrow> nat option" where
  "uf_root parent root =
     (if root \<ge> length parent then None
      else if parent ! root \<noteq> root then uf_root parent (parent ! root)
      else Some root)"

partial_function (option) uf_compress :: "nat list \<Rightarrow> nat \<Rightarrow> nat \<Rightarrow> nat list option" where
  "uf_compress parent root cur =
     (if cur \<ge> length parent then None
      else if parent ! cur \<noteq> root then uf_compress (parent[cur := root]) root (parent ! cur)
      else Some parent)"

definition uf_new :: "nat \<Rightarrow> nat list" where
  "uf_new n = [0..<n]"

definition uf_find :: "nat list \<Rightarrow> nat \<Rightarrow> (nat \<times> nat list) option" where
  "uf_find parent x =
     Option.bind (uf_root parent x) (\<lambda>root.
     Option.bind (uf_compress parent root x) (\<lambda>parent. Some (root, parent)))"

definition uf_union :: "nat list \<Rightarrow> nat \<Rightarrow> nat \<Rightarrow> nat list option" where
  "uf_union parent a b =
     Option.bind (uf_find parent a) (\<lambda>(ra, parent).
     Option.bind (uf_find parent b) (\<lambda>(rb, parent).
     Some (if ra \<noteq> rb then parent[ra := rb] else parent)))"

section \<open>Representatives\<close>

text \<open>\<open>rep\<close> gives the root of every element; parents are strictly nearer to their root.\<close>

definition uf_node :: "nat list \<Rightarrow> (nat \<Rightarrow> nat) \<Rightarrow> (nat \<Rightarrow> nat) \<Rightarrow> nat \<Rightarrow> bool" where
  "uf_node p rep depth i \<longleftrightarrow> p ! i < length p \<and> rep (p ! i) = rep i \<and> rep i < length p \<and> p ! rep i = rep i
     \<and> (p ! i = i \<longrightarrow> rep i = i \<and> depth i = 0) \<and> (p ! i \<noteq> i \<longrightarrow> depth (p ! i) < depth i)"

definition uf_inv :: "nat list \<Rightarrow> (nat \<Rightarrow> nat) \<Rightarrow> bool" where
  "uf_inv p rep \<longleftrightarrow> (\<exists>depth. \<forall>i < length p. uf_node p rep depth i)"

lemma uf_nodeD:
  assumes "uf_node p rep depth i"
  shows "p ! i < length p" "rep (p ! i) = rep i" "rep i < length p" "p ! rep i = rep i"
    "p ! i = i \<Longrightarrow> rep i = i" "p ! i = i \<Longrightarrow> depth i = 0" "p ! i \<noteq> i \<Longrightarrow> depth (p ! i) < depth i"
  using assms by (simp_all add: uf_node_def)

lemma uf_invE:
  assumes "uf_inv p rep"
  obtains depth where "\<And>i. i < length p \<Longrightarrow> uf_node p rep depth i"
  using assms unfolding uf_inv_def by blast

lemma uf_rep:
  assumes "uf_inv p rep" "i < length p"
  shows "rep i < length p" "rep (rep i) = rep i" "p ! rep i = rep i"
proof -
  obtain depth where d: "\<And>i. i < length p \<Longrightarrow> uf_node p rep depth i" using uf_invE[OF assms(1)] by blast
  show "rep i < length p" "p ! rep i = rep i" using uf_nodeD(3,4)[OF d[OF assms(2)]] by simp_all
  then show "rep (rep i) = rep i" using uf_nodeD(5)[OF d] by simp
qed

lemma uf_inv_new: "uf_inv (uf_new n) (\<lambda>i. i)"
  unfolding uf_inv_def uf_new_def by (rule exI[of _ "\<lambda>_. 0"]) (simp add: uf_node_def)

lemma uf_root_rep:
  assumes "uf_inv p rep" "i < length p"
  shows "uf_root p i = Some (rep i)"
proof -
  obtain depth where d: "\<And>i. i < length p \<Longrightarrow> uf_node p rep depth i" using uf_invE[OF assms(1)] by blast
  show ?thesis
    using assms(2)
  proof (induction "depth i" arbitrary: i rule: less_induct)
    case less
    note n = uf_nodeD[OF d[OF less.prems]]
    show ?case
    proof (cases "p ! i = i")
      case True
      then show ?thesis using less.prems n(5) by (subst uf_root.simps) simp
    next
      case False
      then show ?thesis using less.hyps[OF n(7)[OF False] n(1)] less.prems n(2) by (subst uf_root.simps) simp
    qed
  qed
qed

lemma uf_shortcut:
  assumes "i < length p" "p ! i \<noteq> i" and d: "\<And>i. i < length p \<Longrightarrow> uf_node p rep depth i" and j: "j < length p"
  shows "uf_node (p[i := rep i]) rep depth j"
proof -
  note ni = uf_nodeD[OF d[OF assms(1)]] and nj = uf_nodeD[OF d[OF j]]
  have root: "rep (rep i) = rep i" "rep (rep j) = rep j" "rep i \<noteq> i" "rep j \<noteq> i"
    using uf_nodeD(5)[OF d[OF ni(3)]] uf_nodeD(5)[OF d[OF nj(3)]] ni(4) nj(4) assms(2) by auto
  have "depth (rep i) = 0" "depth i > 0" using uf_nodeD(6)[OF d[OF ni(3)]] ni(4) ni(7)[OF assms(2)] by simp_all
  then show ?thesis
    using root ni nj j by (cases "j = i") (simp_all add: uf_node_def nth_list_update)
qed

lemma uf_compress_ok:
  assumes "uf_inv p rep" "i < length p"
  shows "\<exists>p'. uf_compress p (rep i) i = Some p' \<and> uf_inv p' rep \<and> length p' = length p"
proof -
  obtain depth where d: "\<And>i. i < length p \<Longrightarrow> uf_node p rep depth i" using uf_invE[OF assms(1)] by blast
  have "\<exists>p'. uf_compress q (rep i) i = Some p' \<and> uf_inv p' rep \<and> length p' = length q"
    if "\<And>i. i < length q \<Longrightarrow> uf_node q rep depth i" "i < length q" for q i
    using that
  proof (induction "depth i" arbitrary: i q rule: less_induct)
    case less
    note n = uf_nodeD[OF less.prems(1)[OF less.prems(2)]]
    show ?case
    proof (cases "q ! i = rep i")
      case True
      then show ?thesis using less.prems uf_inv_def[of q rep] by (subst uf_compress.simps) auto
    next
      case False
      then have ne: "q ! i \<noteq> i" using n(5) by auto
      have "\<exists>p'. uf_compress (q[i := rep i]) (rep (q ! i)) (q ! i) = Some p' \<and> uf_inv p' rep \<and> length p' = length (q[i := rep i])"
        using n(1) by (intro less.hyps[OF n(7)[OF ne]] uf_shortcut[OF less.prems(2) ne less.prems(1)]) simp_all
      then show ?thesis using False less.prems(2) n(2) by (subst uf_compress.simps) simp
    qed
  qed
  from this[OF d assms(2)] show ?thesis .
qed

lemma uf_find_ok:
  assumes "uf_inv p rep" "i < length p"
  shows "\<exists>p'. uf_find p i = Some (rep i, p') \<and> uf_inv p' rep \<and> length p' = length p"
  using uf_compress_ok[OF assms] by (auto simp: uf_find_def uf_root_rep[OF assms])

lemma uf_union_ok:
  assumes inv: "uf_inv p rep" and a: "a < length p" and b: "b < length p"
  shows "\<exists>p'. uf_union p a b = Some p' \<and> uf_inv p' (\<lambda>i. if rep i = rep a then rep b else rep i) \<and> length p' = length p"
proof -
  obtain p1 where p1: "uf_find p a = Some (rep a, p1)" "uf_inv p1 rep" "length p1 = length p"
    using uf_find_ok[OF inv a] by blast
  obtain q where q: "uf_find p1 b = Some (rep b, q)" "uf_inv q rep" "length q = length p"
    using uf_find_ok[OF p1(2)] b p1(3) by auto
  obtain depth where d: "\<And>i. i < length q \<Longrightarrow> uf_node q rep depth i" using uf_invE[OF q(2)] by blast
  show ?thesis
  proof (cases "rep a = rep b")
    case True
    then have "(\<lambda>i. if rep i = rep a then rep b else rep i) = rep" by auto
    with True p1 q show ?thesis by (simp add: uf_union_def)
  next
    case False
    let ?q = "q[rep a := rep b]" and ?rep = "\<lambda>i. if rep i = rep a then rep b else rep i"
    let ?depth = "\<lambda>i. if rep i = rep a then depth i + 1 else depth i"
    have ra: "rep a < length q" "rep (rep a) = rep a" and rb: "rep b < length q" "rep (rep b) = rep b"
      using uf_rep[OF q(2), of a] uf_rep[OF q(2), of b] a b q(3) by simp_all
    have rb0: "depth (rep b) = 0" using uf_nodeD(6)[OF d[OF rb(1)]] uf_rep(3)[OF q(2), of b] b q(3) by simp
    have "uf_node ?q ?rep ?depth j" if j: "j < length q" for j
    proof (cases "j = rep a")
      case True
      with False ra rb rb0 show ?thesis using uf_rep(3)[OF q(2), of b] b q(3) by (simp add: uf_node_def)
    next
      case ne: False
      note n = uf_nodeD[OF d[OF j]]
      have "?rep j \<noteq> rep a" using False by simp
      then have "?q ! ?rep j = ?rep j" using n(4) uf_rep(3)[OF q(2), of b] b q(3) by (simp add: nth_list_update)
      moreover have "rep j \<noteq> rep a \<or> q ! j \<noteq> j" using ne n(5) by auto
      ultimately show ?thesis using ne n rb(1) by (auto simp: uf_node_def)
    qed
    then have "uf_inv ?q ?rep" unfolding uf_inv_def by (intro exI[of _ ?depth]) simp
    with False p1 q show ?thesis by (simp add: uf_union_def)
  qed
qed

section \<open>Sequences of operations that may panic\<close>

fun opt_fold :: "('a \<Rightarrow> 's \<Rightarrow> 's option) \<Rightarrow> 'a list \<Rightarrow> 's \<Rightarrow> 's option" where
  "opt_fold f [] s = Some s"
| "opt_fold f (x # xs) s = Option.bind (f x s) (opt_fold f xs)"

lemma opt_fold_append: "opt_fold f (xs @ ys) s = Option.bind (opt_fold f xs s) (opt_fold f ys)"
  by (induction xs arbitrary: s) (auto intro: Option.bind_cong)

lemma opt_fold_concat: "opt_fold (\<lambda>x. opt_fold f (h x)) xs s = opt_fold f (concat (map h xs)) s"
  by (induction xs arbitrary: s) (auto simp: opt_fold_append intro: Option.bind_cong)

definition uf_unions :: "(nat \<times> nat) list \<Rightarrow> nat list \<Rightarrow> nat list option" where
  "uf_unions = opt_fold (\<lambda>(a, b) p. uf_union p a b)"

text \<open>The equivalence generated by a list of pairs.\<close>

definition same_class :: "(nat \<times> nat) list \<Rightarrow> nat \<Rightarrow> nat \<Rightarrow> bool" where
  "same_class pairs i j \<longleftrightarrow> (i, j) \<in> (set pairs \<union> (set pairs)\<inverse>)\<^sup>*"

lemma same_class_refl: "same_class pairs i i"
  by (simp add: same_class_def)

lemma same_class_sym: "same_class pairs i j \<Longrightarrow> same_class pairs j i"
  unfolding same_class_def by (rule symD[OF sym_rtrancl]) (auto simp: sym_def)

lemma same_class_trans: "same_class pairs i j \<Longrightarrow> same_class pairs j k \<Longrightarrow> same_class pairs i k"
  unfolding same_class_def by (rule rtrancl_trans)

lemma same_class_pair: "(a, b) \<in> set pairs \<Longrightarrow> same_class pairs a b"
  unfolding same_class_def by (rule r_into_rtrancl) simp

lemma same_class_more: "same_class pairs i j \<Longrightarrow> same_class (pairs @ more) i j"
  unfolding same_class_def by (erule rtrancl_mono[THEN subsetD, rotated]) auto

lemma same_class_induct:
  assumes "same_class pairs i j" and "\<And>a b. (a, b) \<in> set pairs \<Longrightarrow> f a = f b"
  shows "f i = f j"
  using assms(1) unfolding same_class_def
proof (induction rule: rtrancl_induct)
  case (step j k)
  then show ?case using assms(2) by auto
qed simp

lemma uf_unions_classes:
  assumes "\<And>a b. (a, b) \<in> set pairs \<Longrightarrow> a < n \<and> b < n"
  shows "\<exists>p rep. uf_unions pairs (uf_new n) = Some p \<and> uf_inv p rep \<and> length p = n
    \<and> (\<forall>i j. rep i = rep j \<longleftrightarrow> same_class pairs i j)"
  using assms
proof (induction pairs rule: rev_induct)
  case Nil
  then show ?case using uf_inv_new[of n] by (auto simp: uf_unions_def uf_new_def same_class_def)
next
  case (snoc ab pairs)
  obtain a b where ab: "ab = (a, b)" by fastforce
  obtain p rep where p: "uf_unions pairs (uf_new n) = Some p" "uf_inv p rep" "length p = n"
    "\<And>i j. rep i = rep j \<longleftrightarrow> same_class pairs i j"
    using snoc.IH snoc.prems by (metis Un_iff set_append)
  obtain q where q: "uf_union p a b = Some q" "uf_inv q (\<lambda>i. if rep i = rep a then rep b else rep i)" "length q = n"
    using uf_union_ok[OF p(2), of a b] p(3) snoc.prems[of a b] ab by auto
  have ab_same: "same_class (pairs @ [ab]) a b" using ab by (intro same_class_pair) simp
  have "(if rep i = rep a then rep b else rep i) = (if rep j = rep a then rep b else rep j)
      \<longleftrightarrow> same_class (pairs @ [ab]) i j" (is "?f i = ?f j \<longleftrightarrow> _") for i j
  proof
    assume "?f i = ?f j"
    have to: "same_class (pairs @ [ab]) i (if rep i = rep a then b else i)" for i
      using p(4)[of i a] same_class_trans[OF same_class_more ab_same] same_class_refl by simp
    have "same_class (pairs @ [ab]) (if rep i = rep a then b else i) (if rep j = rep a then b else j)"
      using \<open>?f i = ?f j\<close> p(4) by (intro same_class_more) (auto split: if_splits)
    with to[of i] to[of j] show "same_class (pairs @ [ab]) i j" using same_class_trans same_class_sym by blast
  next
    assume "same_class (pairs @ [ab]) i j"
    then show "?f i = ?f j"
    proof (rule same_class_induct[where f = ?f])
      fix c d assume "(c, d) \<in> set (pairs @ [ab])"
      then consider "(c, d) \<in> set pairs" | "c = a" "d = b" using ab by auto
      then show "?f c = ?f d"
      proof cases
        case 1
        then have "rep c = rep d" using p(4) same_class_pair by blast
        then show ?thesis by simp
      qed simp
    qed
  qed
  with p(1) q ab show ?case by (auto simp: uf_unions_def opt_fold_append)
qed

text \<open>Building the forest by any sequence of unions inside its range never panics or loops, and
  afterwards looking up two elements gives the same root exactly when the united pairs link
  them: path compression and the direction of the links do not change the classes.\<close>

theorem union_find_classes:
  assumes "\<And>a b. (a, b) \<in> set pairs \<Longrightarrow> a < n \<and> b < n" "i < n" "j < n"
  shows "\<exists>p ri p' rj q. uf_unions pairs (uf_new n) = Some p \<and> uf_find p i = Some (ri, p') \<and> uf_find p' j = Some (rj, q)
    \<and> (ri = rj \<longleftrightarrow> (i, j) \<in> (set pairs \<union> (set pairs)\<inverse>)\<^sup>*)"
proof -
  obtain p rep where p: "uf_unions pairs (uf_new n) = Some p" "uf_inv p rep" "length p = n"
    "\<And>i j. rep i = rep j \<longleftrightarrow> same_class pairs i j"
    using uf_unions_classes assms(1) by metis
  obtain p' where p': "uf_find p i = Some (rep i, p')" "uf_inv p' rep" "length p' = n"
    using uf_find_ok[OF p(2)] assms(2) p(3) by auto
  obtain q where "uf_find p' j = Some (rep j, q)" using uf_find_ok[OF p'(2)] assms(3) p'(3) by auto
  with p p' show ?thesis by (auto simp: same_class_def)
qed

theorem union_find_classes_witness:
  "\<exists>p r p' q. uf_unions [(0, 1), (2, 1)] (uf_new 4) = Some p \<and> uf_find p 0 = Some (r, p') \<and> uf_find p' 2 = Some (r, q)"
proof -
  let ?pairs = "[(0, 1), (2, 1)] :: (nat \<times> nat) list"
  have "same_class ?pairs 0 1" "same_class ?pairs 2 1" by (simp_all add: same_class_pair)
  then have "(0, 2) \<in> (set ?pairs \<union> (set ?pairs)\<inverse>)\<^sup>*"
    using same_class_sym same_class_trans unfolding same_class_def[symmetric] by blast
  moreover have "a < 4 \<and> b < 4" if "(a, b) \<in> set ?pairs" for a b using that by auto
  ultimately show ?thesis using union_find_classes[of ?pairs 4 0 2] by fastforce
qed

end
