(* ===== verification/Ssa.thy ===== *)
theory Ssa
  imports Reaching Ssa_Reads Union_Find
begin

text \<open>
  Live-range splitting (\<open>crates/hbc-decomp/src/transforms/ssa.rs\<close>).  The orders in which hash
  containers are iterated are parameters: a function from a set of registers, or of definition
  sites, to a list of its members.  A panic (an index out of range, a class without a register)
  is \<open>None\<close>, as is an analysis that does not end.
\<close>

section \<open>The transformation\<close>

type_synonym reaching_map = "reg \<rightharpoonup> def_site list"

definition block_entry_reaching :: "(def_site set \<Rightarrow> def_site list) \<Rightarrow> reaching_defs \<Rightarrow> block_id \<Rightarrow> reaching_map" where
  "block_entry_reaching sites rd b =
     (case reaching_in rd b of
        None \<Rightarrow> Map.empty
      | Some in_set \<Rightarrow> fold (\<lambda>d cur. cur(ds_register d \<mapsto>
            (case cur (ds_register d) of Some ds \<Rightarrow> ds | None \<Rightarrow> []) @ [d])) (sites in_set) Map.empty)"

definition cur_step :: "block_id \<Rightarrow> nat \<times> statement \<Rightarrow> reaching_map \<Rightarrow> reaching_map" where
  "cur_step b = (\<lambda>(i, stmt) cur. case assigned_reg stmt of
     Some r \<Rightarrow> cur(r \<mapsto> [\<lparr>ds_block = b, ds_stmt_index = i, ds_register = r\<rparr>]) | None \<Rightarrow> cur)"

definition def_list :: "cfg \<Rightarrow> def_site list" where
  "def_list g = concat (map (\<lambda>block. block_sites (bb_id block) block) (blocks g))"

definition def_ids :: "def_site list \<Rightarrow> (def_site \<rightharpoonup> nat)" where
  "def_ids dl = fold (\<lambda>(i, site) m. m(site \<mapsto> i)) (enumerate 0 dl) Map.empty"

definition union_reaching :: "(def_site \<rightharpoonup> nat) \<Rightarrow> def_site list option \<Rightarrow> nat list \<Rightarrow> nat list option" where
  "union_reaching def_id defs uf =
     (case defs of
        None \<Rightarrow> Some uf
      | Some defs \<Rightarrow> let ids = List.map_filter def_id defs in
          opt_fold (\<lambda>(a, b) uf. uf_union uf a b) (zip ids (tl ids)) uf)"

definition union_reads ::
  "(reg set \<Rightarrow> reg list) \<Rightarrow> (def_site \<rightharpoonup> nat) \<Rightarrow> reaching_map \<Rightarrow> reg set \<Rightarrow> nat list \<Rightarrow> nat list option" where
  "union_reads regs def_id cur reads = opt_fold (\<lambda>r. union_reaching def_id (cur r)) (regs reads)"

definition union_step ::
  "(reg set \<Rightarrow> reg list) \<Rightarrow> (def_site \<rightharpoonup> nat) \<Rightarrow> block_id \<Rightarrow> nat \<times> statement \<Rightarrow>
   nat list \<times> reaching_map \<Rightarrow> (nat list \<times> reaching_map) option" where
  "union_step regs def_id b = (\<lambda>(i, stmt) (uf, cur).
     map_option (\<lambda>uf. (uf, cur_step b (i, stmt) cur)) (union_reads regs def_id cur (stmt_reads stmt) uf))"

definition union_block ::
  "(reg set \<Rightarrow> reg list) \<Rightarrow> (def_site set \<Rightarrow> def_site list) \<Rightarrow> reaching_defs \<Rightarrow> (def_site \<rightharpoonup> nat) \<Rightarrow>
   basic_block \<Rightarrow> nat list \<Rightarrow> nat list option" where
  "union_block regs sites rd def_id block uf =
     Option.bind (opt_fold (union_step regs def_id (bb_id block)) (enumerate 0 (bb_statements block))
         (uf, block_entry_reaching sites rd (bb_id block))) (\<lambda>(uf, cur).
       union_reads regs def_id cur (terminator_reads (bb_terminator block)) uf)"

text \<open>One register per class, numbered from 10000 in the order of the definitions.\<close>

definition number_class :: "nat \<Rightarrow> nat list \<times> (nat \<rightharpoonup> reg) \<times> u32 \<Rightarrow> (nat list \<times> (nat \<rightharpoonup> reg) \<times> u32) option" where
  "number_class i = (\<lambda>(uf, class_reg, nxt).
     map_option (\<lambda>(root, uf). (uf, if class_reg root = None then (class_reg(root \<mapsto> nxt), nxt + 1) else (class_reg, nxt)))
       (uf_find uf i))"

definition number_classes :: "nat \<Rightarrow> nat list \<Rightarrow> (nat list \<times> (nat \<rightharpoonup> reg)) option" where
  "number_classes n uf =
     map_option (\<lambda>(uf, class_reg, _). (uf, class_reg)) (opt_fold number_class [0..<n] (uf, Map.empty, 10000))"

definition version_of ::
  "(def_site \<rightharpoonup> nat) \<Rightarrow> (nat \<rightharpoonup> reg) \<Rightarrow> nat list \<Rightarrow> def_site \<Rightarrow> (reg option \<times> nat list) option" where
  "version_of def_id class_reg uf site =
     (case def_id site of
        None \<Rightarrow> Some (None, uf)
      | Some i \<Rightarrow> Option.bind (uf_find uf i) (\<lambda>(root, uf). map_option (\<lambda>v. (Some v, uf)) (class_reg root)))"

definition read_map_step ::
  "(def_site \<rightharpoonup> nat) \<Rightarrow> (nat \<rightharpoonup> reg) \<Rightarrow> reaching_map \<Rightarrow> reg \<Rightarrow> read_map \<times> nat list \<Rightarrow> (read_map \<times> nat list) option" where
  "read_map_step def_id class_reg cur r = (\<lambda>(m, uf).
     case cur r of
       Some (first # _) \<Rightarrow> map_option (\<lambda>(v, uf). (case v of Some v \<Rightarrow> m(r \<mapsto> v) | None \<Rightarrow> m, uf))
           (version_of def_id class_reg uf first)
     | _ \<Rightarrow> Some (m, uf))"

definition read_map_of ::
  "(reg set \<Rightarrow> reg list) \<Rightarrow> (def_site \<rightharpoonup> nat) \<Rightarrow> (nat \<rightharpoonup> reg) \<Rightarrow> reaching_map \<Rightarrow> nat list \<Rightarrow> (read_map \<times> nat list) option" where
  "read_map_of regs def_id class_reg cur uf =
     opt_fold (read_map_step def_id class_reg cur) (regs (dom cur)) (Map.empty, uf)"

fun set_assigned :: "reg \<Rightarrow> statement \<Rightarrow> statement" where
  "set_assigned v (SAssign (TBinding (BRegister r)) e) = SAssign (TBinding (BRegister v)) e"
| "set_assigned v s = s"

definition rename_step ::
  "(reg set \<Rightarrow> reg list) \<Rightarrow> (def_site \<rightharpoonup> nat) \<Rightarrow> (nat \<rightharpoonup> reg) \<Rightarrow> block_id \<Rightarrow> nat \<times> statement \<Rightarrow>
   statement list \<times> nat list \<times> reaching_map \<Rightarrow> (statement list \<times> nat list \<times> reaching_map) option" where
  "rename_step regs def_id class_reg b = (\<lambda>(i, stmt) (new_stmts, uf, cur).
     Option.bind (read_map_of regs def_id class_reg cur uf) (\<lambda>(read_map, uf).
       let renamed = rewrite_reads_in_stmt read_map stmt in
       case assigned_reg stmt of
         None \<Rightarrow> Some (new_stmts @ [renamed], uf, cur)
       | Some r \<Rightarrow> map_option (\<lambda>(v, uf).
             (new_stmts @ [case v of Some v \<Rightarrow> set_assigned v renamed | None \<Rightarrow> renamed], uf, cur_step b (i, stmt) cur))
           (version_of def_id class_reg uf \<lparr>ds_block = b, ds_stmt_index = i, ds_register = r\<rparr>)))"

definition rename_block ::
  "(reg set \<Rightarrow> reg list) \<Rightarrow> (def_site set \<Rightarrow> def_site list) \<Rightarrow> reaching_defs \<Rightarrow> (def_site \<rightharpoonup> nat) \<Rightarrow> (nat \<rightharpoonup> reg) \<Rightarrow>
   block_id \<Rightarrow> cfg \<times> nat list \<Rightarrow> (cfg \<times> nat list) option" where
  "rename_block regs sites rd def_id class_reg b = (\<lambda>(g, uf).
     case get_block g b of
       None \<Rightarrow> Some (g, uf)
     | Some block \<Rightarrow>
         Option.bind (opt_fold (rename_step regs def_id class_reg b) (enumerate 0 (bb_statements block))
             ([], uf, block_entry_reaching sites rd b)) (\<lambda>(new_stmts, uf, cur).
           map_option (\<lambda>(read_map, uf).
               (update_block b (\<lambda>bl. bl\<lparr>bb_statements := new_stmts,
                  bb_terminator := rewrite_reads_in_terminator read_map (bb_terminator bl)\<rparr>) g, uf))
             (read_map_of regs def_id class_reg cur uf)))"

definition split_live_ranges :: "(reg set \<Rightarrow> reg list) \<Rightarrow> (def_site set \<Rightarrow> def_site list) \<Rightarrow> cfg \<Rightarrow> cfg option" where
  "split_live_ranges regs sites g =
     Option.bind (reaching_analyze g) (\<lambda>rd.
     let dl = def_list g; def_id = def_ids dl in
     if dl = [] then Some g
     else
       Option.bind (opt_fold (union_block regs sites rd def_id) (blocks g) (uf_new (length dl))) (\<lambda>uf.
       Option.bind (number_classes (length dl) uf) (\<lambda>(uf, class_reg).
       map_option fst (opt_fold (rename_block regs sites rd def_id class_reg) (block_ids g) (g, uf)))))"

end
