(* ===== verification/Ssa_Correct.thy ===== *)
theory Ssa_Correct
  imports Ssa "HOL-Library.Product_Lexorder"
begin

text \<open>
  Live-range splitting keeps the definition every read sees.  The first pass is a sequence of
  unions of definitions of one register, the classes get distinct registers from 10000 on, and the
  second pass is a map over the blocks given the register of each class.
\<close>

definition iterates :: "('a set \<Rightarrow> 'a list) \<Rightarrow> bool" where
  "iterates order \<longleftrightarrow> (\<forall>S. finite S \<longrightarrow> set (order S) = S)"

section \<open>The identifiers of definitions\<close>

lemma def_ids_snoc: "def_ids (dl @ [s]) = (def_ids dl)(s \<mapsto> length dl)"
  by (simp add: def_ids_def enumerate_append_eq)

lemma def_ids_eq: "def_ids dl s = Some i \<Longrightarrow> i < length dl \<and> dl ! i = s"
proof (induction dl rule: rev_induct)
  case Nil
  then show ?case by (simp add: def_ids_def)
next
  case (snoc t dl)
  then show ?case by (auto simp: def_ids_snoc nth_append split: if_splits)
qed

lemma def_ids_dom: "dom (def_ids dl) = set dl"
proof (induction dl rule: rev_induct)
  case (snoc s dl)
  then show ?case unfolding def_ids_snoc dom_fun_upd by simp
qed (simp add: def_ids_def)

lemma def_ids_member: "s \<in> set dl \<Longrightarrow> \<exists>i. def_ids dl s = Some i \<and> i < length dl \<and> dl ! i = s"
  using def_ids_dom[of dl] def_ids_eq[of dl s] by blast

section \<open>The definitions current at a position\<close>

definition cur_ok :: "def_site list \<Rightarrow> reaching_map \<Rightarrow> bool" where
  "cur_ok dl cur \<longleftrightarrow> finite (dom cur)
     \<and> (\<forall>r ds. cur r = Some ds \<longrightarrow> ds \<noteq> [] \<and> set ds \<subseteq> set dl \<and> (\<forall>d \<in> set ds. ds_register d = r))"

lemma cur_okD:
  "cur_ok dl cur \<Longrightarrow> cur r = Some ds \<Longrightarrow> ds \<noteq> [] \<and> set ds \<subseteq> set dl \<and> (\<forall>d \<in> set ds. ds_register d = r)"
  by (simp add: cur_ok_def)

lemma block_entry_reaching_eq:
  "block_entry_reaching sites rd b r =
     (case filter (\<lambda>d. ds_register d = r) (case reaching_in rd b of None \<Rightarrow> [] | Some S \<Rightarrow> sites S) of
        [] \<Rightarrow> None | ds \<Rightarrow> Some ds)"
proof -
  have "fold (\<lambda>d cur. cur(ds_register d \<mapsto> (case cur (ds_register d) of Some ds \<Rightarrow> ds | None \<Rightarrow> []) @ [d])) xs Map.empty r
      = (case filter (\<lambda>d. ds_register d = r) xs of [] \<Rightarrow> None | ds \<Rightarrow> Some ds)" for xs :: "def_site list"
    by (induction xs arbitrary: r rule: rev_induct) (auto split: list.splits)
  then show ?thesis by (simp add: block_entry_reaching_def split: option.splits)
qed

lemma block_entry_ok:
  assumes "iterates sites" "\<And>b. facts (reaching_in rd) b \<subseteq> set dl"
  shows "cur_ok dl (block_entry_reaching sites rd b)"
    and "d \<in> facts (reaching_in rd) b \<Longrightarrow> ds_register d = r \<Longrightarrow> \<exists>ds. block_entry_reaching sites rd b r = Some ds \<and> d \<in> set ds"
proof -
  let ?xs = "case reaching_in rd b of None \<Rightarrow> [] | Some S \<Rightarrow> sites S"
  have "finite (facts (reaching_in rd) b)" using finite_subset[OF assms(2)] by simp
  then have xs: "set ?xs = facts (reaching_in rd) b"
    using assms(1) by (auto simp: iterates_def facts_def split: option.splits)
  have "dom (block_entry_reaching sites rd b) \<subseteq> ds_register ` set ?xs"
    by (auto simp: block_entry_reaching_eq dom_def filter_empty_conv split: list.splits dest!: filter_eq_ConsD)
  then have "finite (dom (block_entry_reaching sites rd b))" by (rule finite_subset) simp
  moreover have "ds \<noteq> [] \<and> set ds \<subseteq> set dl \<and> (\<forall>d \<in> set ds. ds_register d = r)"
    if "block_entry_reaching sites rd b r = Some ds" for r ds
  proof -
    from that have ds: "ds = filter (\<lambda>d. ds_register d = r) ?xs" "ds \<noteq> []"
      by (auto simp: block_entry_reaching_eq split: list.splits)
    then have "set ds \<subseteq> set dl" using xs assms(2) by auto
    with ds show ?thesis by simp
  qed
  ultimately show "cur_ok dl (block_entry_reaching sites rd b)" by (simp add: cur_ok_def)
  show "\<exists>ds. block_entry_reaching sites rd b r = Some ds \<and> d \<in> set ds"
    if "d \<in> facts (reaching_in rd) b" "ds_register d = r"
  proof -
    have d: "d \<in> set (filter (\<lambda>d. ds_register d = r) ?xs)" using that xs by simp
    then show ?thesis by (cases "filter (\<lambda>d. ds_register d = r) ?xs") (auto simp: block_entry_reaching_eq)
  qed
qed

definition sites_before :: "block_id \<Rightarrow> basic_block \<Rightarrow> nat \<Rightarrow> def_site list" where
  "sites_before b block i = block_sites b (block\<lparr>bb_statements := take i (bb_statements block)\<rparr>)"

definition cur_at :: "block_id \<Rightarrow> basic_block \<Rightarrow> nat \<Rightarrow> reaching_map \<Rightarrow> reaching_map" where
  "cur_at b block i entry = fold (cur_step b) (take i (enumerate 0 (bb_statements block))) entry"

lemma take_enumerate0: "take i (enumerate 0 xs) = enumerate 0 (take i xs)"
  by (rule nth_equalityI) (simp_all add: nth_enumerate_eq)

lemma cur_at_eq:
  "cur_at b block i entry r = (case last_def (rev (sites_before b block i)) r of Some d \<Rightarrow> Some [d] | None \<Rightarrow> entry r)"
proof -
  have "fold (cur_step b) (enumerate 0 xs) entry r =
      (case last_def (rev (block_sites b (block\<lparr>bb_statements := xs\<rparr>))) r of Some d \<Rightarrow> Some [d] | None \<Rightarrow> entry r)" for xs
    by (induction xs rule: rev_induct)
      (auto simp: enumerate_append_eq cur_step_def block_sites_def List.map_filter_def last_def_def split: option.splits)
  then show ?thesis by (simp add: cur_at_def sites_before_def take_enumerate0)
qed

lemma in_map_filter: "y \<in> set (List.map_filter f xs) \<longleftrightarrow> (\<exists>x \<in> set xs. f x = Some y)"
  by (induction xs) (auto split: option.splits)

lemma in_block_sites:
  "d \<in> set (block_sites b block) \<longleftrightarrow> ds_block d = b \<and> ds_stmt_index d < length (bb_statements block)
     \<and> assigned_reg (bb_statements block ! ds_stmt_index d) = Some (ds_register d)"
  unfolding block_sites_def in_map_filter
  by (cases d) (auto simp: in_set_enumerate_eq Bex_def)

lemma sites_before_set: "set (sites_before b block i) \<subseteq> set (block_sites b block)"
  by (auto simp: sites_before_def in_block_sites)

lemma cur_at_ok:
  assumes "cur_ok dl entry" "set (block_sites b block) \<subseteq> set dl"
  shows "cur_ok dl (cur_at b block i entry)"
proof -
  have eq: "cur_at b block i entry = (\<lambda>r. case last_def (rev (sites_before b block i)) r of Some d \<Rightarrow> Some [d] | None \<Rightarrow> entry r)"
    by (rule ext) (rule cur_at_eq)
  have "dom (cur_at b block i entry) \<subseteq> dom entry \<union> ds_register ` set (sites_before b block i)"
    using last_def_Some by (fastforce simp: eq split: option.splits)
  then have "finite (dom (cur_at b block i entry))"
    using assms(1) by (auto simp: cur_ok_def dest: finite_subset)
  moreover have "ds \<noteq> [] \<and> set ds \<subseteq> set dl \<and> (\<forall>d \<in> set ds. ds_register d = r)"
    if "cur_at b block i entry r = Some ds" for r ds
    using that assms sites_before_set[of b block i] last_def_Some[of "rev (sites_before b block i)" r] cur_okD[OF assms(1)]
    by (auto simp: eq split: option.splits)
  ultimately show ?thesis by (simp add: cur_ok_def)
qed

section \<open>The unions of the first pass\<close>

definition adjacent :: "'a list \<Rightarrow> ('a \<times> 'a) list" where
  "adjacent xs = zip xs (tl xs)"

definition read_pairs ::
  "(reg set \<Rightarrow> reg list) \<Rightarrow> (def_site \<rightharpoonup> nat) \<Rightarrow> reaching_map \<Rightarrow> reg set \<Rightarrow> (nat \<times> nat) list" where
  "read_pairs regs def_id cur reads = concat (map (\<lambda>r. case cur r of None \<Rightarrow> []
     | Some ds \<Rightarrow> adjacent (List.map_filter def_id ds)) (regs reads))"

fun step_pairs ::
  "(reg set \<Rightarrow> reg list) \<Rightarrow> (def_site \<rightharpoonup> nat) \<Rightarrow> block_id \<Rightarrow> (nat \<times> statement) list \<Rightarrow> reaching_map \<Rightarrow> (nat \<times> nat) list" where
  "step_pairs regs def_id b [] cur = []"
| "step_pairs regs def_id b (x # xs) cur =
     read_pairs regs def_id cur (stmt_reads (snd x)) @ step_pairs regs def_id b xs (cur_step b x cur)"

definition use_reads :: "basic_block \<Rightarrow> nat \<Rightarrow> reg set" where
  "use_reads block i = (if i < length (bb_statements block) then stmt_reads (bb_statements block ! i)
     else terminator_reads (bb_terminator block))"

definition block_pairs ::
  "(reg set \<Rightarrow> reg list) \<Rightarrow> (def_site \<rightharpoonup> nat) \<Rightarrow> reaching_map \<Rightarrow> basic_block \<Rightarrow> (nat \<times> nat) list" where
  "block_pairs regs def_id entry block =
     step_pairs regs def_id (bb_id block) (enumerate 0 (bb_statements block)) entry
     @ read_pairs regs def_id (cur_at (bb_id block) block (length (bb_statements block)) entry)
         (terminator_reads (bb_terminator block))"

lemma union_reads_pairs: "union_reads regs def_id cur reads uf = uf_unions (read_pairs regs def_id cur reads) uf"
proof -
  have "union_reaching def_id (cur r) = uf_unions (case cur r of None \<Rightarrow> [] | Some ds \<Rightarrow> adjacent (List.map_filter def_id ds))" for r
    by (rule ext) (simp add: union_reaching_def uf_unions_def adjacent_def Let_def split: option.splits)
  then show ?thesis
    by (simp add: union_reads_def uf_unions_def read_pairs_def opt_fold_concat)
qed

lemma uf_unions_append: "uf_unions (xs @ ys) uf = Option.bind (uf_unions xs uf) (uf_unions ys)"
  by (simp add: uf_unions_def opt_fold_append)

lemma union_steps_pairs:
  "opt_fold (union_step regs def_id b) xs (uf, cur) =
     map_option (\<lambda>uf. (uf, fold (cur_step b) xs cur)) (uf_unions (step_pairs regs def_id b xs cur) uf)"
proof (induction xs arbitrary: uf cur)
  case Nil
  then show ?case by (simp add: uf_unions_def)
next
  case (Cons x xs)
  have "union_step regs def_id b x (uf, cur) =
      map_option (\<lambda>uf. (uf, cur_step b x cur)) (uf_unions (read_pairs regs def_id cur (stmt_reads (snd x))) uf)"
    by (cases x) (simp add: union_step_def union_reads_pairs)
  then show ?case
    by (cases "uf_unions (read_pairs regs def_id cur (stmt_reads (snd x))) uf") (simp_all add: uf_unions_append Cons.IH)
qed

lemma union_block_pairs:
  "union_block regs sites rd def_id block =
     uf_unions (block_pairs regs def_id (block_entry_reaching sites rd (bb_id block)) block)"
proof -
  have "cur_at (bb_id block) block (length (bb_statements block)) entry =
      fold (cur_step (bb_id block)) (enumerate 0 (bb_statements block)) entry" for entry
    by (simp add: cur_at_def)
  then show ?thesis
    by (intro ext) (simp add: union_block_def block_pairs_def union_steps_pairs uf_unions_append union_reads_pairs
        bind_map_option o_def)
qed

lemma step_pairs_set:
  "set (step_pairs regs def_id b xs cur) =
     (\<Union>i < length xs. set (read_pairs regs def_id (fold (cur_step b) (take i xs) cur) (stmt_reads (snd (xs ! i)))))"
proof (induction xs arbitrary: cur)
  case (Cons x xs)
  show ?case
    by (simp only: step_pairs.simps set_append Cons.IH length_Cons lessThan_Suc_eq_insert_0 image_insert UN_insert image_image)
      simp
qed simp

lemma block_pairs_set:
  "set (block_pairs regs def_id entry block) =
     (\<Union>i \<le> length (bb_statements block). set (read_pairs regs def_id (cur_at (bb_id block) block i entry) (use_reads block i)))"
proof -
  have "{..length (bb_statements block)} = insert (length (bb_statements block)) {..<length (bb_statements block)}" by auto
  then show ?thesis
    by (simp add: block_pairs_def step_pairs_set use_reads_def cur_at_def nth_enumerate_eq Un_commute)
qed

lemma adjacent_same:
  assumes "set (adjacent xs) \<subseteq> set pairs" "x \<in> set xs" "y \<in> set xs"
  shows "same_class pairs x y"
proof -
  have "same_class pairs (hd xs) x" if "set (adjacent xs) \<subseteq> set pairs" "x \<in> set xs" for xs x
    using that
  proof (induction xs)
    case (Cons z xs)
    show ?case
    proof (cases "x = z")
      case False
      with Cons.prems obtain z' xs' where xs: "xs = z' # xs'" by (cases xs) auto
      with Cons False have "same_class pairs z' x" by (auto simp: adjacent_def)
      moreover have "same_class pairs z z'" using Cons.prems(1) xs by (intro same_class_pair) (auto simp: adjacent_def)
      ultimately show ?thesis using same_class_trans by auto
    qed (simp add: same_class_refl)
  qed simp
  from this[OF assms(1,2)] this[OF assms(1,3)] show ?thesis using same_class_sym same_class_trans by blast
qed

lemma adjacent_members: "(a, c) \<in> set (adjacent xs) \<Longrightarrow> a \<in> set xs \<and> c \<in> set xs"
  by (cases xs) (auto simp: adjacent_def dest: set_zip_leftD set_zip_rightD)

lemma finite_part_reads: "finite (part_reads p)"
  by (induction p rule: part_reads.induct) (auto simp: part_reads.simps)

lemma finite_use_reads: "finite (use_reads block i)"
  by (cases "bb_terminator block" rule: terminator_reads.cases)
    (simp_all add: use_reads_def stmt_reads_def collect_reg_reads_def finite_part_reads)

definition site_class :: "def_site list \<Rightarrow> (nat \<Rightarrow> nat) \<Rightarrow> def_site \<Rightarrow> nat" where
  "site_class dl rep d = rep (the (def_ids dl d))"

lemma read_pairs_members:
  assumes "cur_ok dl cur" "(a, c) \<in> set (read_pairs regs (def_ids dl) cur reads)"
  shows "a < length dl \<and> c < length dl \<and> ds_register (dl ! a) = ds_register (dl ! c)"
proof -
  from assms(2) obtain r where "(a, c) \<in> set (case cur r of None \<Rightarrow> []
      | Some ds \<Rightarrow> adjacent (List.map_filter (def_ids dl) ds))" unfolding read_pairs_def by auto
  then obtain ds where ds: "cur r = Some ds" "(a, c) \<in> set (adjacent (List.map_filter (def_ids dl) ds))"
    by (cases "cur r") auto
  from adjacent_members[OF ds(2)] obtain d e where "d \<in> set ds" "def_ids dl d = Some a" "e \<in> set ds" "def_ids dl e = Some c"
    by (auto simp: in_map_filter)
  with cur_okD[OF assms(1) ds(1)] def_ids_eq[of dl d a] def_ids_eq[of dl e c] show ?thesis by auto
qed

lemma read_pairs_link:
  assumes "cur_ok dl cur" "iterates regs" "finite reads" "r \<in> reads" "cur r = Some ds"
    "set (read_pairs regs (def_ids dl) cur reads) \<subseteq> set pairs" "d \<in> set ds" "e \<in> set ds"
  shows "same_class pairs (the (def_ids dl d)) (the (def_ids dl e))"
proof -
  have "r \<in> set (regs reads)" using assms(2-4) by (simp add: iterates_def)
  then have "set (adjacent (List.map_filter (def_ids dl) ds)) \<subseteq> set pairs"
    using assms(5,6) by (force simp: read_pairs_def)
  moreover have "the (def_ids dl x) \<in> set (List.map_filter (def_ids dl) ds)" if "x \<in> set ds" for x
    using that def_ids_member[of x dl] cur_okD[OF assms(1,5)] by (force simp: in_map_filter)
  ultimately show ?thesis using assms(7,8) by (blast intro: adjacent_same)
qed

lemma first_pass:
  assumes entry: "\<And>b. cur_ok dl (block_entry_reaching sites rd b)" and regs: "iterates regs"
    and known: "\<forall>block \<in> set (blocks g). set (block_sites (bb_id block) block) \<subseteq> set dl"
  shows "\<exists>uf rep. opt_fold (union_block regs sites rd (def_ids dl)) (blocks g) (uf_new (length dl)) = Some uf
    \<and> uf_inv uf rep \<and> length uf = length dl
    \<and> (\<forall>d \<in> set dl. \<forall>e \<in> set dl. site_class dl rep d = site_class dl rep e \<longrightarrow> ds_register d = ds_register e)
    \<and> (\<forall>block \<in> set (blocks g). \<forall>i \<le> length (bb_statements block). \<forall>r \<in> use_reads block i. \<forall>ds.
         cur_at (bb_id block) block i (block_entry_reaching sites rd (bb_id block)) r = Some ds \<longrightarrow>
         (\<forall>d \<in> set ds. \<forall>e \<in> set ds. site_class dl rep d = site_class dl rep e))"
proof -
  let ?entry = "\<lambda>block. block_entry_reaching sites rd (bb_id block)"
  let ?of = "\<lambda>block. block_pairs regs (def_ids dl) (?entry block) block"
  let ?pairs = "concat (map ?of (blocks g))"
  have "union_block regs sites rd (def_ids dl) = (\<lambda>block. uf_unions (?of block))"
    by (rule ext) (rule union_block_pairs)
  then have run: "opt_fold (union_block regs sites rd (def_ids dl)) (blocks g) uf = uf_unions ?pairs uf" for uf
    by (simp only: uf_unions_def opt_fold_concat)
  have ok: "cur_ok dl (cur_at (bb_id block) block i (?entry block))" if "block \<in> set (blocks g)" for block i
    using cur_at_ok[OF entry] known that by blast
  have pair: "a < length dl \<and> c < length dl \<and> ds_register (dl ! a) = ds_register (dl ! c)" if "(a, c) \<in> set ?pairs" for a c
    using that read_pairs_members[OF ok] by (auto simp: block_pairs_set)
  obtain uf rep where uf: "uf_unions ?pairs (uf_new (length dl)) = Some uf" "uf_inv uf rep" "length uf = length dl"
    "\<And>i j. rep i = rep j \<longleftrightarrow> same_class ?pairs i j"
    using uf_unions_classes[of ?pairs "length dl"] pair by blast
  have homog: "ds_register d = ds_register e"
    if de: "d \<in> set dl" "e \<in> set dl" "site_class dl rep d = site_class dl rep e" for d e
  proof -
    obtain i j where ij: "def_ids dl d = Some i" "dl ! i = d" "def_ids dl e = Some j" "dl ! j = e"
      using def_ids_member[OF de(1)] def_ids_member[OF de(2)] by blast
    then have "same_class ?pairs i j" using de(3) uf(4) by (simp add: site_class_def)
    from same_class_induct[OF this, of "\<lambda>i. ds_register (dl ! i)"] pair ij show ?thesis by auto
  qed
  have same: "site_class dl rep d = site_class dl rep e"
    if "block \<in> set (blocks g)" "i \<le> length (bb_statements block)" "r \<in> use_reads block i"
      "cur_at (bb_id block) block i (?entry block) r = Some ds" "d \<in> set ds" "e \<in> set ds" for block i r ds d e
  proof -
    have "set (read_pairs regs (def_ids dl) (cur_at (bb_id block) block i (?entry block)) (use_reads block i)) \<subseteq> set ?pairs"
      using that(1,2) by (auto simp: block_pairs_set)
    from read_pairs_link[OF ok[OF that(1)] regs finite_use_reads that(3,4) this that(5,6)] uf(4)
    show ?thesis by (simp add: site_class_def)
  qed
  show ?thesis
    by (intro exI[of _ uf] exI[of _ rep] conjI ballI allI impI) (simp only: run uf(1), fact uf(2), fact uf(3), rule homog, assumption+, rule same)
qed

section \<open>The numbers of the classes\<close>

lemma number_classes_ok:
  assumes "uf_inv uf rep" "length uf = n" "n + 10000 < 2 ^ 32"
  shows "\<exists>uf' class_reg. number_classes n uf = Some (uf', class_reg) \<and> uf_inv uf' rep \<and> length uf' = n
    \<and> (\<forall>i < n. \<exists>v. class_reg (rep i) = Some v \<and> 10000 \<le> v)
    \<and> (\<forall>i < n. \<forall>j < n. class_reg (rep i) = class_reg (rep j) \<longrightarrow> rep i = rep j)"
proof -
  have "\<exists>uf' class_reg nxt. opt_fold number_class [0..<k] (uf, Map.empty, 10000) = Some (uf', class_reg, nxt)
      \<and> uf_inv uf' rep \<and> length uf' = n \<and> unat nxt \<le> 10000 + k \<and> 10000 \<le> unat nxt
      \<and> dom class_reg = rep ` {..<k} \<and> (\<forall>v \<in> ran class_reg. 10000 \<le> unat v \<and> unat v < unat nxt)
      \<and> inj_on class_reg (dom class_reg)" if "k \<le> n" for k
    using that
  proof (induction k)
    case 0
    then show ?case using assms by simp
  next
    case (Suc k)
    then obtain uf1 cr nxt where IH: "opt_fold number_class [0..<k] (uf, Map.empty, 10000) = Some (uf1, cr, nxt)"
      "uf_inv uf1 rep" "length uf1 = n" "unat nxt \<le> 10000 + k" "10000 \<le> unat nxt"
      "dom cr = rep ` {..<k}" "\<forall>v \<in> ran cr. 10000 \<le> unat v \<and> unat v < unat nxt" "inj_on cr (dom cr)" by auto
    obtain uf2 where f: "uf_find uf1 k = Some (rep k, uf2)" "uf_inv uf2 rep" "length uf2 = n"
      using uf_find_ok[OF IH(2), of k] IH(3) Suc.prems by auto
    have dom_Suc: "rep ` {..<Suc k} = insert (rep k) (dom cr)" using IH(6) by (simp add: lessThan_Suc)
    show ?case
    proof (cases "cr (rep k)")
      case None
      have unxt: "unat (nxt + 1) = unat nxt + 1"
      proof -
        have "unat nxt + 1 < 2 ^ 32" using IH(4) Suc.prems assms(3) by simp
        then show ?thesis by (simp add: unat_word_ariths)
      qed
      define cr' where "cr' = cr(rep k \<mapsto> nxt)"
      have "nxt \<notin> ran cr" using IH(7) by auto
      then have "inj_on cr' (insert (rep k) (dom cr))"
        using IH(8) None unfolding cr'_def by (auto simp: inj_on_def ran_def dom_def)
      moreover have "\<forall>v \<in> ran cr'. 10000 \<le> unat v \<and> unat v < unat (nxt + 1)"
        using IH(5,7) None unfolding cr'_def by (auto simp: unxt)
      moreover have "number_class k (uf1, cr, nxt) = Some (uf2, cr', nxt + 1)"
        using f(1) None by (simp add: number_class_def cr'_def)
      then have "opt_fold number_class [0..<Suc k] (uf, Map.empty, 10000) = Some (uf2, cr', nxt + 1)"
        using IH(1) by (simp add: opt_fold_append)
      moreover have "dom cr' = insert (rep k) (dom cr)" unfolding cr'_def by simp
      ultimately show ?thesis
        using IH(4,5) f(2,3) dom_Suc unxt
        by (intro exI[of _ uf2] exI[of _ cr'] exI[of _ "nxt + 1"]) (simp only:, simp)
    next
      case (Some v)
      then have "rep k \<in> dom cr" by auto
      then have "rep ` {..<Suc k} = dom cr" using dom_Suc by auto
      moreover have "number_class k (uf1, cr, nxt) = Some (uf2, cr, nxt)"
        using f(1) Some by (simp add: number_class_def)
      then have "opt_fold number_class [0..<Suc k] (uf, Map.empty, 10000) = Some (uf2, cr, nxt)"
        using IH(1) by (simp add: opt_fold_append)
      ultimately show ?thesis using IH(4-) f(2,3) by (intro exI[of _ uf2] exI[of _ cr] exI[of _ nxt]) (simp only:, simp)
    qed
  qed
  from this[OF order.refl] obtain uf' cr nxt where r: "opt_fold number_class [0..<n] (uf, Map.empty, 10000) = Some (uf', cr, nxt)"
    "uf_inv uf' rep" "length uf' = n" "dom cr = rep ` {..<n}" "\<forall>v \<in> ran cr. 10000 \<le> unat v \<and> unat v < unat nxt" "inj_on cr (dom cr)"
    by (elim exE conjE) (rule that)
  have "\<exists>v. cr (rep i) = Some v \<and> 10000 \<le> v" if "i < n" for i
  proof -
    from that r(4) obtain v where v: "cr (rep i) = Some v" by blast
    with r(5) have "10000 \<le> unat v" by (auto simp: ran_def)
    with v show ?thesis by (simp add: word_le_nat_alt)
  qed
  moreover have "rep i = rep j" if "i < n" "j < n" "cr (rep i) = cr (rep j)" for i j
    using that r(4,6) by (auto dest: inj_onD)
  ultimately show ?thesis using r(1-3) by (auto simp: number_classes_def)
qed

section \<open>The second pass\<close>

definition site_version :: "def_site list \<Rightarrow> (nat \<Rightarrow> nat) \<Rightarrow> (nat \<rightharpoonup> reg) \<Rightarrow> def_site \<Rightarrow> reg" where
  "site_version dl rep class_reg d = the (class_reg (site_class dl rep d))"

definition forest_ok :: "def_site list \<Rightarrow> (nat \<Rightarrow> nat) \<Rightarrow> (nat \<rightharpoonup> reg) \<Rightarrow> nat list \<Rightarrow> bool" where
  "forest_ok dl rep class_reg uf \<longleftrightarrow> uf_inv uf rep \<and> length uf = length dl
     \<and> (\<forall>i < length dl. class_reg (rep i) \<noteq> None)"

definition version_map :: "(def_site \<Rightarrow> reg) \<Rightarrow> reaching_map \<Rightarrow> read_map" where
  "version_map V cur = (\<lambda>r. map_option (\<lambda>ds. V (hd ds)) (cur r))"

lemma version_of_ok:
  assumes "forest_ok dl rep class_reg uf" "d \<in> set dl"
  shows "\<exists>uf'. version_of (def_ids dl) class_reg uf d = Some (Some (site_version dl rep class_reg d), uf')
    \<and> forest_ok dl rep class_reg uf'"
proof -
  obtain i where i: "def_ids dl d = Some i" "i < length dl" using def_ids_member[OF assms(2)] by blast
  obtain uf' where uf': "uf_find uf i = Some (rep i, uf')" "uf_inv uf' rep" "length uf' = length dl"
    using uf_find_ok[of uf rep i] assms(1) i(2) by (auto simp: forest_ok_def)
  obtain v where "class_reg (rep i) = Some v" using assms(1) i(2) by (auto simp: forest_ok_def)
  with i uf' assms(1) show ?thesis by (simp add: version_of_def site_version_def site_class_def forest_ok_def)
qed

lemma read_map_of_ok:
  assumes uf: "forest_ok dl rep class_reg uf" and cur: "cur_ok dl cur" and regs: "iterates regs"
  defines "V \<equiv> site_version dl rep class_reg"
  shows "\<exists>uf'. read_map_of regs (def_ids dl) class_reg cur uf = Some (version_map V cur, uf')
    \<and> forest_ok dl rep class_reg uf'"
proof -
  have "\<exists>uf'. opt_fold (read_map_step (def_ids dl) class_reg cur) rs (m, uf) =
      Some (\<lambda>r. if r \<in> set rs \<inter> dom cur then version_map V cur r else m r, uf') \<and> forest_ok dl rep class_reg uf'"
    if "forest_ok dl rep class_reg uf" for rs m uf
    using that
  proof (induction rs arbitrary: m uf)
    case (Cons r rs)
    show ?case
    proof (cases "cur r")
      case None
      then have "read_map_step (def_ids dl) class_reg cur r (m, uf) = Some (m, uf)" by (simp add: read_map_step_def)
      moreover have "set (r # rs) \<inter> dom cur = set rs \<inter> dom cur" using None by auto
      ultimately show ?thesis using Cons.IH[OF Cons.prems, of m] by simp
    next
      case (Some ds)
      from cur_okD[OF cur Some] obtain d ds' where ds: "ds = d # ds'" "d \<in> set dl" by (cases ds) auto
      obtain uf1 where uf1: "version_of (def_ids dl) class_reg uf d = Some (Some (V d), uf1)" "forest_ok dl rep class_reg uf1"
        using version_of_ok[OF Cons.prems ds(2)] by (auto simp: V_def)
      define m1 where "m1 = m(r \<mapsto> V d)"
      have "read_map_step (def_ids dl) class_reg cur r (m, uf) = Some (m1, uf1)"
        using Some ds uf1 by (simp add: read_map_step_def m1_def)
      moreover have "(\<lambda>x. if x \<in> set rs \<inter> dom cur then version_map V cur x else m1 x) =
          (\<lambda>x. if x \<in> set (r # rs) \<inter> dom cur then version_map V cur x else m x)"
        using Some ds by (auto simp: m1_def version_map_def fun_eq_iff)
      ultimately show ?thesis using Cons.IH[OF uf1(2), of m1] by simp
    qed
  qed simp
  from this[OF uf, of "regs (dom cur)" Map.empty] regs cur obtain uf' where
    "read_map_of regs (def_ids dl) class_reg cur uf =
      Some (\<lambda>r. if r \<in> dom cur then version_map V cur r else None, uf')" "forest_ok dl rep class_reg uf'"
    by (auto simp: read_map_of_def iterates_def cur_ok_def)
  moreover have "(\<lambda>r. if r \<in> dom cur then version_map V cur r else None) = version_map V cur"
    by (auto simp: version_map_def fun_eq_iff)
  ultimately show ?thesis by simp
qed

fun renamed_stmt :: "(def_site \<Rightarrow> reg) \<Rightarrow> block_id \<Rightarrow> reaching_map \<Rightarrow> nat \<times> statement \<Rightarrow> statement" where
  "renamed_stmt V b cur (i, stmt) =
     (let renamed = rewrite_reads_in_stmt (version_map V cur) stmt in
      case assigned_reg stmt of
        None \<Rightarrow> renamed
      | Some r \<Rightarrow> set_assigned (V \<lparr>ds_block = b, ds_stmt_index = i, ds_register = r\<rparr>) renamed)"

fun renamed_steps :: "(def_site \<Rightarrow> reg) \<Rightarrow> block_id \<Rightarrow> (nat \<times> statement) list \<Rightarrow> reaching_map \<Rightarrow> statement list" where
  "renamed_steps V b [] cur = []"
| "renamed_steps V b (x # xs) cur = renamed_stmt V b cur x # renamed_steps V b xs (cur_step b x cur)"

definition renamed_block :: "(def_site \<Rightarrow> reg) \<Rightarrow> block_id \<Rightarrow> reaching_map \<Rightarrow> basic_block \<Rightarrow> basic_block" where
  "renamed_block V b entry block = block\<lparr>
     bb_statements := renamed_steps V b (enumerate 0 (bb_statements block)) entry,
     bb_terminator := rewrite_reads_in_terminator
       (version_map V (cur_at b block (length (bb_statements block)) entry)) (bb_terminator block)\<rparr>"

definition sites_in :: "block_id \<Rightarrow> (nat \<times> statement) list \<Rightarrow> def_site set" where
  "sites_in b xs = {\<lparr>ds_block = b, ds_stmt_index = i, ds_register = r\<rparr> | i stmt r. (i, stmt) \<in> set xs \<and> assigned_reg stmt = Some r}"

lemma cur_step_ok:
  assumes "cur_ok dl cur" "sites_in b [x] \<subseteq> set dl"
  shows "cur_ok dl (cur_step b x cur)"
proof (cases "assigned_reg (snd x)")
  case None
  with assms(1) show ?thesis by (simp add: cur_step_def split_beta)
next
  case (Some r)
  let ?d = "\<lparr>ds_block = b, ds_stmt_index = fst x, ds_register = r\<rparr>"
  have "?d \<in> set dl" using assms(2) Some by (cases x) (auto simp: sites_in_def)
  moreover have "cur_step b x cur = cur(r \<mapsto> [?d])" using Some by (simp add: cur_step_def split_beta)
  ultimately show ?thesis using assms(1) by (auto simp: cur_ok_def)
qed

lemma rename_steps_ok:
  assumes "forest_ok dl rep class_reg uf" "cur_ok dl cur" "iterates regs" "sites_in b xs \<subseteq> set dl"
  defines "V \<equiv> site_version dl rep class_reg"
  shows "\<exists>uf'. opt_fold (rename_step regs (def_ids dl) class_reg b) xs (acc, uf, cur) =
      Some (acc @ renamed_steps V b xs cur, uf', fold (cur_step b) xs cur)
    \<and> forest_ok dl rep class_reg uf' \<and> cur_ok dl (fold (cur_step b) xs cur)"
  using assms(1,2,4)
proof (induction xs arbitrary: acc uf cur)
  case (Cons x xs)
  obtain i stmt where x: "x = (i, stmt)" by fastforce
  obtain uf1 where uf1: "read_map_of regs (def_ids dl) class_reg cur uf = Some (version_map V cur, uf1)"
    "forest_ok dl rep class_reg uf1" using read_map_of_ok[OF Cons.prems(1,2) assms(3)] by (auto simp: V_def)
  have "\<exists>uf2. rename_step regs (def_ids dl) class_reg b x (acc, uf, cur) = Some (acc @ [renamed_stmt V b cur x], uf2, cur_step b x cur)
      \<and> forest_ok dl rep class_reg uf2"
  proof (cases "assigned_reg stmt")
    case None
    with uf1 show ?thesis by (simp add: rename_step_def x Let_def cur_step_def)
  next
    case (Some r)
    have "\<lparr>ds_block = b, ds_stmt_index = i, ds_register = r\<rparr> \<in> set dl" using Cons.prems(3) Some x by (auto simp: sites_in_def)
    from version_of_ok[OF uf1(2) this] Some uf1(1) show ?thesis by (auto simp: rename_step_def x Let_def V_def)
  qed
  then obtain uf2 where uf2: "rename_step regs (def_ids dl) class_reg b x (acc, uf, cur) =
      Some (acc @ [renamed_stmt V b cur x], uf2, cur_step b x cur)" "forest_ok dl rep class_reg uf2" by blast
  have "sites_in b xs \<subseteq> set dl" "sites_in b [x] \<subseteq> set dl" using Cons.prems(3) by (auto simp: sites_in_def)
  from Cons.IH[OF uf2(2) cur_step_ok[OF Cons.prems(2) this(2)] this(1), of "acc @ [renamed_stmt V b cur x]"] uf2(1)
  show ?case by simp
qed simp

definition renamed_cfg :: "(def_site \<Rightarrow> reg) \<Rightarrow> (block_id \<Rightarrow> reaching_map) \<Rightarrow> block_id set \<Rightarrow> cfg \<Rightarrow> cfg" where
  "renamed_cfg V entry visited g = g\<lparr>cfg_blocks :=
     map (\<lambda>(k, block). (k, if k \<in> visited then renamed_block V k (entry k) block else block)) (cfg_blocks g)\<rparr>"

lemma get_renamed:
  "get_block (renamed_cfg V entry visited g) b =
     map_option (\<lambda>block. if b \<in> visited then renamed_block V b (entry b) block else block) (get_block g b)"
proof -
  have "map_of (map (\<lambda>(k, block). (k, f k block)) xs) b = map_option (f b) (map_of xs b)"
    for f :: "block_id \<Rightarrow> basic_block \<Rightarrow> basic_block" and xs
    by (induction xs) auto
  then show ?thesis by (simp add: get_block_def renamed_cfg_def)
qed

lemma renamed_more:
  assumes "b \<notin> visited" "bt_ordered (cfg_blocks g)" "get_block g b = Some block"
    and f: "f block = renamed_block V b (entry b) block"
  shows "update_block b f (renamed_cfg V entry visited g) = renamed_cfg V entry (insert b visited) g"
proof -
  have "f bl = renamed_block V b (entry b) bl" if "(b, bl) \<in> set (cfg_blocks g)" for bl
    using that assms(2,3) f bt_ordered_distinct[OF assms(2)] by (auto simp: get_block_def)
  then have "map (\<lambda>(k, bl). (k, if k = b then f bl else bl))
      (map (\<lambda>(k, bl). (k, if k \<in> visited then renamed_block V k (entry k) bl else bl)) (cfg_blocks g)) =
    map (\<lambda>(k, bl). (k, if k \<in> insert b visited then renamed_block V k (entry k) bl else bl)) (cfg_blocks g)"
    using assms(1) by (auto simp del: map_map simp: map_map)
  then show ?thesis unfolding update_block_def renamed_cfg_def by (cases g) (simp del: map_map map_eq_conv)
qed

lemma rename_block_ok:
  assumes uf: "forest_ok dl rep class_reg uf" and entry: "cur_ok dl (block_entry_reaching sites rd b)" and regs: "iterates regs"
    and g: "bt_ordered (cfg_blocks g)" "get_block g b = Some block" "set (block_sites b block) \<subseteq> set dl" and b: "b \<notin> visited"
  defines "V \<equiv> site_version dl rep class_reg"
  shows "\<exists>uf'. rename_block regs sites rd (def_ids dl) class_reg b (renamed_cfg V (block_entry_reaching sites rd) visited g, uf) =
      Some (renamed_cfg V (block_entry_reaching sites rd) (insert b visited) g, uf') \<and> forest_ok dl rep class_reg uf'"
proof -
  let ?entry = "block_entry_reaching sites rd b" and ?stmts = "enumerate 0 (bb_statements block)"
  have "sites_in b ?stmts \<subseteq> set (block_sites b block)" by (auto simp: sites_in_def in_block_sites in_set_enumerate_eq)
  then obtain uf1 where uf1: "opt_fold (rename_step regs (def_ids dl) class_reg b) ?stmts ([], uf, ?entry) =
      Some (renamed_steps V b ?stmts ?entry, uf1, fold (cur_step b) ?stmts ?entry)"
    "forest_ok dl rep class_reg uf1" "cur_ok dl (fold (cur_step b) ?stmts ?entry)"
    using rename_steps_ok[OF uf entry regs, of b ?stmts "[]"] g(3) by (auto simp: V_def)
  obtain uf2 where uf2: "read_map_of regs (def_ids dl) class_reg (fold (cur_step b) ?stmts ?entry) uf1 =
      Some (version_map V (fold (cur_step b) ?stmts ?entry), uf2)" "forest_ok dl rep class_reg uf2"
    using read_map_of_ok[OF uf1(2,3) regs] by (auto simp: V_def)
  have "get_block (renamed_cfg V (block_entry_reaching sites rd) visited g) b = Some block" using b g(2) by (simp add: get_renamed)
  moreover have "cur_at b block (length (bb_statements block)) ?entry = fold (cur_step b) ?stmts ?entry" by (simp add: cur_at_def)
  moreover note renamed_more[OF b g(1,2), of "\<lambda>bl. bl\<lparr>bb_statements := renamed_steps V b ?stmts ?entry,
      bb_terminator := rewrite_reads_in_terminator (version_map V (fold (cur_step b) ?stmts ?entry)) (bb_terminator bl)\<rparr>"
      V "block_entry_reaching sites rd"]
  ultimately show ?thesis using uf1(1) uf2 by (simp add: rename_block_def renamed_block_def)
qed

lemma second_pass:
  assumes uf: "forest_ok dl rep class_reg uf" and entry: "\<And>b. cur_ok dl (block_entry_reaching sites rd b)" and regs: "iterates regs"
    and g: "bt_ordered (cfg_blocks g)" and known: "\<And>b block. get_block g b = Some block \<Longrightarrow> set (block_sites b block) \<subseteq> set dl"
  defines "V \<equiv> site_version dl rep class_reg"
  shows "\<exists>uf'. opt_fold (rename_block regs sites rd (def_ids dl) class_reg) (block_ids g) (g, uf) =
      Some (renamed_cfg V (block_entry_reaching sites rd) (set (block_ids g)) g, uf')"
proof -
  have "\<exists>uf'. opt_fold (rename_block regs sites rd (def_ids dl) class_reg) bs
        (renamed_cfg V (block_entry_reaching sites rd) visited g, uf) =
      Some (renamed_cfg V (block_entry_reaching sites rd) (visited \<union> set bs) g, uf')"
    if "forest_ok dl rep class_reg uf" "distinct bs" "set bs \<inter> visited = {}" "set bs \<subseteq> set (block_ids g)" for bs visited uf
    using that
  proof (induction bs arbitrary: visited uf)
    case (Cons b bs)
    then obtain block where block: "get_block g b = Some block"
      by (cases "get_block g b") (auto simp: get_block_def block_ids_def map_of_eq_None_iff)
    obtain uf1 where uf1: "rename_block regs sites rd (def_ids dl) class_reg b
        (renamed_cfg V (block_entry_reaching sites rd) visited g, uf) =
        Some (renamed_cfg V (block_entry_reaching sites rd) (insert b visited) g, uf1)" "forest_ok dl rep class_reg uf1"
      using rename_block_ok[OF Cons.prems(1) entry regs g block known[OF block], of visited] Cons.prems(3) by (auto simp: V_def)
    with Cons.IH[OF uf1(2), of "insert b visited"] Cons.prems(2-) show ?case by auto
  qed simp
  moreover have "renamed_cfg V (block_entry_reaching sites rd) {} g = g" by (simp add: renamed_cfg_def case_prod_unfold)
  moreover have "distinct (block_ids g)" using bt_ordered_distinct[OF g] by (simp add: block_ids_def)
  ultimately show ?thesis using uf by (metis Int_empty_right Un_empty_left order.refl)
qed

section \<open>Reads and definitions of a renamed block\<close>

definition renamed_site :: "(def_site \<Rightarrow> reg) \<Rightarrow> def_site \<Rightarrow> def_site" where
  "renamed_site V d = d\<lparr>ds_register := V d\<rparr>"

definition assign_version :: "(def_site \<Rightarrow> reg) \<Rightarrow> block_id \<Rightarrow> nat \<Rightarrow> statement \<Rightarrow> statement" where
  "assign_version V b i stmt = (case assigned_reg stmt of None \<Rightarrow> stmt
     | Some r \<Rightarrow> set_assigned (V \<lparr>ds_block = b, ds_stmt_index = i, ds_register = r\<rparr>) stmt)"

text \<open>The statement or terminator at a position differs only in its registers.\<close>

definition use_renamed :: "(def_site \<Rightarrow> reg) \<Rightarrow> read_map \<Rightarrow> block_id \<Rightarrow> basic_block \<Rightarrow> basic_block \<Rightarrow> nat \<Rightarrow> bool" where
  "use_renamed V m b block block' i \<longleftrightarrow>
     use_reads block' i = rename_reg m ` use_reads block i
     \<and> (if i < length (bb_statements block)
        then bb_statements block' ! i = assign_version V b i (rewrite_reads_in_stmt m (bb_statements block ! i))
        else bb_terminator block' = rewrite_reads_in_terminator m (bb_terminator block))"

text \<open>The definition a read of a register sees at a position of a block, after an execution.\<close>

definition sees :: "block_id \<Rightarrow> basic_block \<Rightarrow> nat \<Rightarrow> def_site list \<Rightarrow> reg \<Rightarrow> def_site option" where
  "sees b block i ds r = last_def (rev (sites_before b block i) @ ds) r"

lemma set_assigned_props:
  "stmt_reads (set_assigned v s) = stmt_reads s"
  "assigned_reg (set_assigned v s) = map_option (\<lambda>_. v) (assigned_reg s)"
proof -
  show "stmt_reads (set_assigned v s) = stmt_reads s"
    by (cases s rule: assigned_reg.cases) (simp_all add: stmt_reads_def part_reads.simps)
  show "assigned_reg (set_assigned v s) = map_option (\<lambda>_. v) (assigned_reg s)"
    by (cases s rule: assigned_reg.cases) simp_all
qed

lemma renamed_stmt_eq: "renamed_stmt V b cur (i, stmt) = assign_version V b i (rewrite_reads_in_stmt (version_map V cur) stmt)"
  by (simp add: assign_version_def assigned_rewrite Let_def)

lemma assign_version_props:
  "stmt_reads (assign_version V b i s) = stmt_reads s"
  "assigned_reg (assign_version V b i s) =
     map_option (\<lambda>r. V \<lparr>ds_block = b, ds_stmt_index = i, ds_register = r\<rparr>) (assigned_reg s)"
  by (auto simp: assign_version_def set_assigned_props split: option.splits)

lemma renamed_steps_nth:
  "length (renamed_steps V b xs cur) = length xs"
  "j < length xs \<Longrightarrow> renamed_steps V b xs cur ! j = renamed_stmt V b (fold (cur_step b) (take j xs) cur) (xs ! j)"
proof (induction xs arbitrary: cur j)
  case (Cons x xs)
  { case 1 show ?case using Cons(1) by simp }
  { case 2 then show ?case using Cons(2) by (cases j) simp_all }
qed simp_all

lemma renamed_block_nth:
  assumes "i < length (bb_statements block)"
  shows "bb_statements (renamed_block V b entry block) ! i =
    assign_version V b i (rewrite_reads_in_stmt (version_map V (cur_at b block i entry)) (bb_statements block ! i))"
  using assms by (simp add: renamed_block_def renamed_steps_nth cur_at_def nth_enumerate_eq renamed_stmt_eq del: renamed_stmt.simps)

lemma length_renamed_block: "length (bb_statements (renamed_block V b entry block)) = length (bb_statements block)"
  by (simp add: renamed_block_def renamed_steps_nth)

lemma renamed_block_use:
  assumes "i \<le> length (bb_statements block)"
  shows "use_renamed V (version_map V (cur_at b block i entry)) b block (renamed_block V b entry block) i"
proof (cases "i < length (bb_statements block)")
  case True
  then show ?thesis
    by (simp add: use_renamed_def use_reads_def length_renamed_block renamed_block_nth assign_version_props reads_rewrite_stmt)
next
  case False
  then have "i = length (bb_statements block)" using assms by simp
  then show ?thesis
    by (simp add: use_renamed_def use_reads_def length_renamed_block)
      (simp add: renamed_block_def reads_rewrite_terminator)
qed

lemma block_sites_upt:
  "block_sites b block = List.map_filter (\<lambda>i. map_option (\<lambda>r. \<lparr>ds_block = b, ds_stmt_index = i, ds_register = r\<rparr>)
     (assigned_reg (bb_statements block ! i))) [0..<length (bb_statements block)]"
proof -
  have "enumerate 0 xs = map (\<lambda>i. (i, xs ! i)) [0..<length xs]" for xs :: "statement list"
    by (rule nth_equalityI) (simp_all add: nth_enumerate_eq)
  moreover have "List.map_filter f (map h xs) = List.map_filter (\<lambda>x. f (h x)) xs"
    for f :: "nat \<times> statement \<Rightarrow> def_site option" and h :: "nat \<Rightarrow> nat \<times> statement" and xs
    by (induction xs) (simp_all split: option.splits)
  ultimately show ?thesis by (simp add: block_sites_def)
qed

lemma block_sites_renamed:
  assumes "length (bb_statements block') = length (bb_statements block)"
    "\<And>i. i < length (bb_statements block) \<Longrightarrow> assigned_reg (bb_statements block' ! i) =
       map_option (\<lambda>r. V \<lparr>ds_block = b, ds_stmt_index = i, ds_register = r\<rparr>) (assigned_reg (bb_statements block ! i))"
  shows "block_sites b block' = map (renamed_site V) (block_sites b block)"
proof -
  have "List.map_filter (\<lambda>i. map_option (\<lambda>r. \<lparr>ds_block = b, ds_stmt_index = i, ds_register = r\<rparr>)
     (assigned_reg (bb_statements block' ! i))) xs =
    map (renamed_site V) (List.map_filter (\<lambda>i. map_option (\<lambda>r. \<lparr>ds_block = b, ds_stmt_index = i, ds_register = r\<rparr>)
     (assigned_reg (bb_statements block ! i))) xs)" if "set xs \<subseteq> {..<length (bb_statements block)}" for xs
    using that by (induction xs) (auto simp: assms(2) renamed_site_def split: option.splits)
  from this[of "[0..<length (bb_statements block)]"] show ?thesis
    unfolding block_sites_upt assms(1) by (simp add: lessThan_atLeast0)
qed

lemma sites_before_renamed:
  "sites_before b (renamed_block V b entry block) i = map (renamed_site V) (sites_before b block i)"
  unfolding sites_before_def
  by (rule block_sites_renamed) (simp_all add: length_renamed_block renamed_block_nth assign_version_props assigned_rewrite)

lemma block_sites_of_renamed:
  "block_sites b (renamed_block V b entry block) = map (renamed_site V) (block_sites b block)"
  by (rule block_sites_renamed) (simp_all add: length_renamed_block renamed_block_nth assign_version_props assigned_rewrite)

lemma successors_of_renamed: "block_successors (renamed_block V b entry block) = block_successors block"
  by (simp add: renamed_block_def block_successors_def successors_rewrite)

lemma runs_to_renamed:
  assumes "cfg_entry g' = cfg_entry g" "cfg_exception_handlers g' = cfg_exception_handlers g"
    and blocks: "\<And>b. get_block g' b = map_option (f b) (get_block g b)"
    and sites: "\<And>b block. get_block g b = Some block \<Longrightarrow> block_sites b (f b block) = map (renamed_site V) (block_sites b block)"
    and succ: "\<And>b block. get_block g b = Some block \<Longrightarrow> block_successors (f b block) = block_successors block"
  shows "runs_to g' b ds' \<longleftrightarrow> (\<exists>ds. runs_to g b ds \<and> ds' = map (renamed_site V) ds)"
proof
  have src: "exception_edge_sources g' c = exception_edge_sources g c" for c by (simp add: exception_edge_sources_def assms(2))
  show "runs_to g' b ds' \<Longrightarrow> \<exists>ds. runs_to g b ds \<and> ds' = map (renamed_site V) ds"
  proof (induction rule: runs_to.induct)
    case start
    then show ?case using runs_to.start[of g] assms(1) by auto
  next
    case (jump b ds' block' s)
    then obtain ds block where d: "runs_to g b ds" "ds' = map (renamed_site V) ds" "get_block g b = Some block" "block' = f b block"
      by (auto simp: blocks)
    with jump(3) have "s \<in> set (block_successors block)" by (simp add: succ)
    from runs_to.jump[OF d(1,3) this] d show ?case
      by (intro exI[of _ "rev (block_sites b block) @ ds"]) (simp add: sites rev_map)
  next
    case (raise_before b ds' c)
    then obtain ds where ds: "runs_to g b ds" "ds' = map (renamed_site V) ds" by blast
    with raise_before(2) runs_to.raise_before[OF ds(1), of c] show ?case by (auto simp: src)
  next
    case (raise_after b ds' block' c)
    then obtain ds block where d: "runs_to g b ds" "ds' = map (renamed_site V) ds" "get_block g b = Some block" "block' = f b block"
      by (auto simp: blocks)
    from runs_to.raise_after[OF d(1,3)] raise_after(3) d show ?case
      by (intro exI[of _ "rev (block_sites b block) @ ds"]) (simp add: src sites rev_map)
  qed
  have "runs_to g' b (map (renamed_site V) ds)" if "runs_to g b ds" for ds
    using that
  proof (induction rule: runs_to.induct)
    case start
    then show ?case using runs_to.start[of g'] assms(1) by simp
  next
    case (jump b ds block s)
    then have "get_block g' b = Some (f b block)" "s \<in> set (block_successors (f b block))" by (simp_all add: blocks succ)
    from runs_to.jump[OF jump.IH this] show ?case by (simp add: sites jump(2) rev_map)
  next
    case (raise_before b ds c)
    then show ?case using runs_to.raise_before by (auto simp: src)
  next
    case (raise_after b ds block c)
    then have "get_block g' b = Some (f b block)" "b \<in> set (exception_edge_sources g' c)" by (simp_all add: blocks src)
    from runs_to.raise_after[OF raise_after.IH this] show ?case by (simp add: sites raise_after(2) rev_map)
  qed
  then show "\<exists>ds. runs_to g b ds \<and> ds' = map (renamed_site V) ds \<Longrightarrow> runs_to g' b ds'" by blast
qed

section \<open>Reads keep their definitions\<close>

lemma walk_id:
  "walk_expression_mut (\<lambda>e. e) (\<lambda>t. t) e = e" "walk_target_mut (\<lambda>e. e) (\<lambda>t. t) t = t"
  "walk_statement_mut (\<lambda>e. e) (\<lambda>t. t) (\<lambda>s. s) (\<lambda>n. n) s = s"
proof -
  have key: "walk_key_mut (\<lambda>e. e) key = key" for key by (cases key) auto
  have opt: "map_option (\<lambda>x. x) = (\<lambda>x. x)" by (auto simp: option.map_ident)
  have el: "walk_element_mut (\<lambda>e. e) (\<lambda>t. t) = (\<lambda>x. x)"
  proof
    show "walk_element_mut (\<lambda>e. e) (\<lambda>t. t) x = x" for x by (cases x) (auto simp: walk_element_mut_def opt)
  qed
  show "walk_expression_mut (\<lambda>e. e) (\<lambda>t. t) e = e" by (cases e) (auto simp: key opt case_prod_unfold)
  show "walk_target_mut (\<lambda>e. e) (\<lambda>t. t) t = t" by (cases t) (auto simp: el opt case_prod_unfold)
  have "(\<lambda>m. case m of ClassMethod key v body st kind params \<Rightarrow> ClassMethod key v body st kind params) = (\<lambda>m. m)"
    by (rule ext) (simp split: class_method.split)
  then show "walk_statement_mut (\<lambda>e. e) (\<lambda>t. t) (\<lambda>s. s) (\<lambda>n. n) s = s"
    by (cases s) (auto simp: opt rename_var_def case_prod_unfold)
qed

lemma rewrite_nothing: "rewrite_expr Map.empty e = e" "rewrite_target Map.empty t = t"
  "rewrite_reads_in_stmt Map.empty s = s" "rewrite_reads_in_terminator Map.empty k = k"
proof -
  have et: "m = Map.empty \<Longrightarrow> rewrite_expr m e = e" "m = Map.empty \<Longrightarrow> rewrite_target m t = t" for m e t
  proof (induction m e and m t rule: rewrite_expr_rewrite_target.induct)
    case (1 m e)
    show ?case
    proof (cases "read_register e")
      case None
      have "walk_expression_mut (rewrite_expr m) (rewrite_target m) e = walk_expression_mut (\<lambda>e. e) (\<lambda>t. t) e"
        using 1 None by (intro walk_expression_mut_cong) auto
      with None show ?thesis by (simp add: rewrite_expr.simps walk_id)
    qed (simp add: rewrite_expr.simps 1)
  next
    case (2 m t)
    show ?case
    proof (cases "is_binding t")
      case False
      have "walk_target_mut (rewrite_expr m) (rewrite_target m) t = walk_target_mut (\<lambda>e. e) (\<lambda>t. t) t"
        using 2 False by (intro walk_target_mut_cong) auto
      with False show ?thesis by (simp add: rewrite_target.simps walk_id)
    qed (simp add: rewrite_target.simps)
  qed
  then show e: "rewrite_expr Map.empty e = e" for e by simp
  show t: "rewrite_target Map.empty t = t" for t using et by simp
  have "m = Map.empty \<Longrightarrow> rewrite_reads_in_stmt m s = s" for m
  proof (induction m s rule: rewrite_reads_in_stmt.induct)
    case (1 m s)
    have "walk_statement_mut (rewrite_expr m) (rewrite_target m) (rewrite_reads_in_stmt m) (\<lambda>n. n) s =
        walk_statement_mut (\<lambda>e. e) (\<lambda>t. t) (rewrite_reads_in_stmt m) (\<lambda>n. n) s"
    proof -
      have "rewrite_expr m = (\<lambda>e. e)" "rewrite_target m = (\<lambda>t. t)" using e t unfolding 1(2) by blast+
      then show ?thesis by simp
    qed
    also have "\<dots> = walk_statement_mut (\<lambda>e. e) (\<lambda>t. t) (\<lambda>s. s) (\<lambda>n. n) s"
      using 1 by (intro walk_statement_mut_cong) auto
    finally show ?case by (simp add: rewrite_reads_in_stmt.simps[of m s] walk_id)
  qed
  then show "rewrite_reads_in_stmt Map.empty s = s" by simp
  show "rewrite_reads_in_terminator Map.empty k = k" by (cases k rule: terminator_reads.cases) (simp_all add: e)
qed

lemma sees_renamed:
  assumes V: "\<And>d e. d \<in> S \<Longrightarrow> e \<in> S \<Longrightarrow> V d = V e \<Longrightarrow> ds_register d = ds_register e"
    and high: "\<And>d. d \<in> S \<Longrightarrow> 10000 \<le> V d" and xs: "set xs \<subseteq> S" and r: "r < 10000"
    and cur: "\<And>ds. cur r = Some ds \<Longrightarrow> ds \<noteq> [] \<and> set ds \<subseteq> S \<and> (\<forall>d \<in> set ds. ds_register d = r \<and> V d = V (hd ds))"
    and sound: "\<And>d. last_def xs r = Some d \<Longrightarrow> \<exists>ds. cur r = Some ds \<and> d \<in> set ds"
  shows "last_def (map (renamed_site V) xs) (rename_reg (version_map V cur) r) = map_option (renamed_site V) (last_def xs r)"
proof -
  let ?v = "rename_reg (version_map V cur) r"
  have find_map: "last_def (map (renamed_site V) xs) v = map_option (renamed_site V) (find (\<lambda>d. V d = v) xs)" for v
    by (induction xs) (simp_all add: last_def_def renamed_site_def)
  have "find (\<lambda>d. V d = ?v) xs = find (\<lambda>d. ds_register d = r) xs"
  proof (cases "cur r")
    case None
    then have "last_def xs r = None" using sound by (cases "last_def xs r") auto
    moreover have "V d \<noteq> r" if "d \<in> set xs" for d using high[of d] that xs r by auto
    then have "find (\<lambda>d. V d = r) xs = None" by (auto simp: find_None_iff)
    ultimately show ?thesis using None by (simp add: last_def_def rename_reg_def version_map_def)
  next
    case (Some ds)
    then have v: "?v = V (hd ds)" by (simp add: rename_reg_def version_map_def)
    have hd: "hd ds \<in> S" "ds_register (hd ds) = r" using cur[OF Some] by auto
    have to_reg: "ds_register d = r" if "d \<in> set xs" "V d = ?v" for d
      using V[of d "hd ds"] that xs hd v by auto
    show ?thesis
    proof (cases "last_def xs r")
      case None
      then have "find (\<lambda>d. V d = ?v) xs = None" using to_reg unfolding last_def_None find_None_iff by blast
      with None show ?thesis by (simp add: last_def_def)
    next
      case (Some d)
      from sound[OF Some] \<open>cur r = Some ds\<close> have "d \<in> set ds" by auto
      with cur[OF \<open>cur r = Some ds\<close>] have "V d = V (hd ds)" by blast
      with v have Vd: "V d = ?v" by (rule_tac trans) simp_all
      from Some obtain i where i: "i < length xs" "xs ! i = d" "ds_register d = r" "\<forall>j < i. ds_register (xs ! j) \<noteq> r"
        by (auto simp: last_def_def find_Some_iff)
      have "V (xs ! j) \<noteq> ?v" if "j < i" for j using to_reg[of "xs ! j"] i that by auto
      then have "find (\<lambda>d. V d = ?v) xs = Some d" unfolding find_Some_iff using i(1,2) Vd by blast
      with Some show ?thesis by (simp add: last_def_def)
    qed
  qed
  then show ?thesis by (simp add: find_map) (simp add: last_def_def)
qed

lemma version_props:
  assumes "\<forall>i < length dl. \<exists>v. class_reg (rep i) = Some v \<and> 10000 \<le> v"
    "\<forall>i < length dl. \<forall>j < length dl. class_reg (rep i) = class_reg (rep j) \<longrightarrow> rep i = rep j"
    "d \<in> set dl" "e \<in> set dl"
  shows "10000 \<le> site_version dl rep class_reg d"
    "site_version dl rep class_reg d = site_version dl rep class_reg e \<longleftrightarrow> site_class dl rep d = site_class dl rep e"
proof -
  obtain i j where ij: "def_ids dl d = Some i" "i < length dl" "def_ids dl e = Some j" "j < length dl"
    using def_ids_member[OF assms(3)] def_ids_member[OF assms(4)] by blast
  obtain v w where vw: "class_reg (rep i) = Some v" "10000 \<le> v" "class_reg (rep j) = Some w"
    using assms(1) ij by blast
  show "10000 \<le> site_version dl rep class_reg d" using ij vw by (simp add: site_version_def site_class_def)
  show "site_version dl rep class_reg d = site_version dl rep class_reg e \<longleftrightarrow> site_class dl rep d = site_class dl rep e"
    using ij vw assms(2) by (auto simp: site_version_def site_class_def)
qed

lemma def_list_sites:
  "ids_match g \<Longrightarrow> get_block g b = Some block \<Longrightarrow> set (block_sites b block) \<subseteq> set (def_list g)"
  using ids_matchD[of g b block] by (auto simp: def_list_def)

lemma all_sites_def_list: "ids_match g \<Longrightarrow> all_sites g \<subseteq> set (def_list g)"
proof
  fix d assume g: "ids_match g" and "d \<in> all_sites g"
  then obtain b where "d \<in> compute_gen g b" by (auto simp: all_sites_def)
  then obtain block where "get_block g b = Some block" "last_def (rev (block_sites b block)) (ds_register d) = Some d"
    by (cases "get_block g b") (auto simp: gen_last sites_of_def last_def_def)
  then show "d \<in> set (def_list g)" using last_def_Some def_list_sites[OF g] by fastforce
qed

lemma runs_to_sites: "ids_match g \<Longrightarrow> runs_to g b ds \<Longrightarrow> set ds \<subseteq> set (def_list g)"
  by (rotate_tac, induction rule: runs_to.induct) (auto dest: def_list_sites)

text \<open>What splitting does, by the versions of the definitions.\<close>

lemma splitting_run:
  assumes g: "ids_match g" "bt_ordered (cfg_blocks g)" and orders: "iterates regs" "iterates sites"
    and size: "length (def_list g) + 10000 < 2 ^ 32" and some: "def_list g \<noteq> []"
  obtains rd V where
    "split_live_ranges regs sites g = Some (renamed_cfg V (block_entry_reaching sites rd) (set (block_ids g)) g)"
    "\<And>b ds r d. runs_to g b ds \<Longrightarrow> last_def ds r = Some d \<Longrightarrow> d \<in> facts (reaching_in rd) b"
    "\<And>b. facts (reaching_in rd) b \<subseteq> set (def_list g)"
    "\<And>d. d \<in> set (def_list g) \<Longrightarrow> 10000 \<le> V d"
    "\<And>d e. d \<in> set (def_list g) \<Longrightarrow> e \<in> set (def_list g) \<Longrightarrow> V d = V e \<Longrightarrow> ds_register d = ds_register e"
    "\<And>b block i r ds d. get_block g b = Some block \<Longrightarrow> i \<le> length (bb_statements block) \<Longrightarrow> r \<in> use_reads block i \<Longrightarrow>
       cur_at b block i (block_entry_reaching sites rd b) r = Some ds \<Longrightarrow> d \<in> set ds \<Longrightarrow> V d = V (hd ds)"
proof -
  let ?dl = "def_list g"
  obtain rd where rd: "reaching_analyze g = Some rd" "reaching_inv g rd"
    "\<And>b. reachable g b \<Longrightarrow> facts (reaching_in rd) b = incoming g b rd"
    "\<And>b. reachable g b \<Longrightarrow> facts (reaching_out rd) b = transfer g b (facts (reaching_in rd) b)"
    by (rule reaching_fixpoint[of g], rule that) blast+
  have within: "facts (reaching_in rd) b \<subseteq> set ?dl" for b
    using rd(2) all_sites_def_list[OF g(1)] unfolding reaching_inv_def by blast
  have entry: "cur_ok ?dl (block_entry_reaching sites rd b)" for b by (rule block_entry_ok(1)[OF orders(2) within])
  have known: "\<forall>block \<in> set (blocks g). set (block_sites (bb_id block) block) \<subseteq> set ?dl"
    by (auto simp: def_list_def)
  obtain uf rep where uf: "opt_fold (union_block regs sites rd (def_ids ?dl)) (blocks g) (uf_new (length ?dl)) = Some uf"
    "uf_inv uf rep" "length uf = length ?dl"
    "\<forall>d \<in> set ?dl. \<forall>e \<in> set ?dl. site_class ?dl rep d = site_class ?dl rep e \<longrightarrow> ds_register d = ds_register e"
    "\<forall>block \<in> set (blocks g). \<forall>i \<le> length (bb_statements block). \<forall>r \<in> use_reads block i. \<forall>ds.
         cur_at (bb_id block) block i (block_entry_reaching sites rd (bb_id block)) r = Some ds \<longrightarrow>
         (\<forall>d \<in> set ds. \<forall>e \<in> set ds. site_class ?dl rep d = site_class ?dl rep e)"
    using first_pass[OF entry orders(1) known] by (elim exE conjE) (rule that)
  obtain uf' cr where cr: "number_classes (length ?dl) uf = Some (uf', cr)" "uf_inv uf' rep" "length uf' = length ?dl"
    "\<forall>i < length ?dl. \<exists>v. cr (rep i) = Some v \<and> 10000 \<le> v"
    "\<forall>i < length ?dl. \<forall>j < length ?dl. cr (rep i) = cr (rep j) \<longrightarrow> rep i = rep j"
    using number_classes_ok[OF uf(2,3) size] by (elim exE conjE) (rule that)
  let ?V = "site_version ?dl rep cr"
  have forest: "forest_ok ?dl rep cr uf'" using cr(2-4) by (auto simp: forest_ok_def)
  obtain uf2 where "opt_fold (rename_block regs sites rd (def_ids ?dl) cr) (block_ids g) (g, uf') =
      Some (renamed_cfg ?V (block_entry_reaching sites rd) (set (block_ids g)) g, uf2)"
    using second_pass[OF forest entry orders(1) g(2) def_list_sites[OF g(1)]] by blast
  then have run: "split_live_ranges regs sites g = Some (renamed_cfg ?V (block_entry_reaching sites rd) (set (block_ids g)) g)"
    using rd(1) some uf(1) cr(1) by (simp add: split_live_ranges_def Let_def)
  show thesis
  proof (rule that[OF run _ within])
    show "d \<in> facts (reaching_in rd) b" if "runs_to g b ds" "last_def ds r = Some d" for b ds r d
      using reaching_sound[OF g(1) that rd(3,4)] .
    show "10000 \<le> ?V d" if "d \<in> set ?dl" for d by (rule version_props(1)[OF cr(4,5) that that])
    show "ds_register d = ds_register e" if "d \<in> set ?dl" "e \<in> set ?dl" "?V d = ?V e" for d e
      using that version_props(2)[OF cr(4,5) that(1,2)] uf(4) by blast
    fix b block i r ds d
    assume b: "get_block g b = Some block" and i: "i \<le> length (bb_statements block)" and r: "r \<in> use_reads block i"
      and cur: "cur_at b block i (block_entry_reaching sites rd b) r = Some ds" and d: "d \<in> set ds"
    have ds: "set ds \<subseteq> set ?dl" "hd ds \<in> set ds"
      using cur_okD[OF cur_at_ok[OF entry def_list_sites[OF g(1) b]] cur] d by auto
    have "site_class ?dl rep d = site_class ?dl rep (hd ds)"
      using uf(5) ids_matchD[OF g(1) b] i r cur d ds(2) by blast
    then show "?V d = ?V (hd ds)" using version_props(2)[OF cr(4,5), of d "hd ds"] d ds by blast
  qed
qed

text \<open>C34: Splitting keeps the definition every read sees.  On a graph whose blocks carry their own
  ids, whose registers read are below 10000 and whose classes fit the register numbers, the
  transformation succeeds whatever the iteration order of the hash sets; the new graph has the same
  executions, with every definition site now writing the register of its class; and at every
  position of every block the statement or terminator is the old one with its registers renamed so
  that along every execution each read sees the very definition it saw before, or none when it saw
  none.  An execution enters a catch block before or after a protected block, not in its middle.\<close>

theorem splitting_keeps_definitions:
  assumes "ids_match g" "bt_ordered (cfg_blocks g)" "iterates regs" "iterates sites"
    and "length (def_list g) + 10000 < 2 ^ 32"
    and "\<forall>b block i. get_block g b = Some block \<longrightarrow> (\<forall>r \<in> use_reads block i. r < 10000)"
  shows "\<exists>g' V. split_live_ranges regs sites g = Some g'
    \<and> (\<forall>b ds'. runs_to g' b ds' \<longleftrightarrow> (\<exists>ds. runs_to g b ds \<and> ds' = map (renamed_site V) ds))
    \<and> (\<forall>b block. get_block g b = Some block \<longrightarrow> (\<exists>block'. get_block g' b = Some block'
        \<and> block_successors block' = block_successors block
        \<and> length (bb_statements block') = length (bb_statements block)
        \<and> (\<forall>i \<le> length (bb_statements block). \<exists>m. use_renamed V m b block block' i
             \<and> (\<forall>ds. runs_to g b ds \<longrightarrow> (\<forall>r \<in> use_reads block i.
                  sees b block' i (map (renamed_site V) ds) (rename_reg m r)
                  = map_option (renamed_site V) (sees b block i ds r))))))"
proof (cases "def_list g = []")
  case True
  obtain rd where rd: "reaching_analyze g = Some rd" by (rule reaching_fixpoint[of g])
  have run: "split_live_ranges regs sites g = Some g" using rd True by (simp add: split_live_ranges_def Let_def)
  have none: "ds = []" if "runs_to g b ds" for b ds using runs_to_sites[OF assms(1) that] True by simp
  have site: "block_sites b block = []" if "get_block g b = Some block" for b block
    using def_list_sites[OF assms(1) that] True by simp
  have before: "sites_before b block i = []" if "get_block g b = Some block" for b block i
    using sites_before_set[of b block i] site[OF that] by simp
  have plain: "assigned_reg (bb_statements block ! i) = None" if "get_block g b = Some block" "i < length (bb_statements block)" for b block i
  proof (rule ccontr)
    assume "assigned_reg (bb_statements block ! i) \<noteq> None"
    then obtain r where "assigned_reg (bb_statements block ! i) = Some r" by auto
    then have "\<lparr>ds_block = b, ds_stmt_index = i, ds_register = r\<rparr> \<in> set (block_sites b block)"
      using that(2) by (simp add: in_block_sites)
    with site[OF that(1)] show False by simp
  qed
  have "use_renamed (\<lambda>_. 0) Map.empty b block block i" if "get_block g b = Some block" for b block i
    using plain[OF that] by (auto simp: use_renamed_def rewrite_nothing assign_version_def rename_reg_def)
  moreover have "sees b block i (map (renamed_site (\<lambda>_. 0)) ds) (rename_reg Map.empty r) = map_option (renamed_site (\<lambda>_. 0)) (sees b block i ds r)"
    if "get_block g b = Some block" "runs_to g b ds" for b block i ds r
    using before[OF that(1)] none[OF that(2)] by (simp add: sees_def last_def_def)
  moreover have "runs_to g b ds' \<longleftrightarrow> (\<exists>ds. runs_to g b ds \<and> ds' = map (renamed_site (\<lambda>_. 0)) ds)" for b ds'
    using none by fastforce
  ultimately show ?thesis using run by (intro exI[of _ g] exI[of _ "\<lambda>_. 0"]) blast
next
  case False
  obtain rd V where run: "split_live_ranges regs sites g = Some (renamed_cfg V (block_entry_reaching sites rd) (set (block_ids g)) g)"
    and sound: "\<And>b ds r d. runs_to g b ds \<Longrightarrow> last_def ds r = Some d \<Longrightarrow> d \<in> facts (reaching_in rd) b"
    and within: "\<And>b. facts (reaching_in rd) b \<subseteq> set (def_list g)"
    and high: "\<And>d. d \<in> set (def_list g) \<Longrightarrow> 10000 \<le> V d"
    and homog: "\<And>d e. d \<in> set (def_list g) \<Longrightarrow> e \<in> set (def_list g) \<Longrightarrow> V d = V e \<Longrightarrow> ds_register d = ds_register e"
    and same: "\<And>b block i r ds d. get_block g b = Some block \<Longrightarrow> i \<le> length (bb_statements block) \<Longrightarrow> r \<in> use_reads block i \<Longrightarrow>
       cur_at b block i (block_entry_reaching sites rd b) r = Some ds \<Longrightarrow> d \<in> set ds \<Longrightarrow> V d = V (hd ds)"
    by (rule splitting_run[OF assms(1-5) False], rule that) blast+
  let ?entry = "block_entry_reaching sites rd" and ?g = "renamed_cfg V (block_entry_reaching sites rd) (set (block_ids g)) g"
  have known: "b \<in> set (block_ids g)" if "get_block g b = Some block" for b block
    using map_of_SomeD[of "cfg_blocks g" b block] that by (force simp: get_block_def block_ids_def)
  have get: "get_block ?g b = map_option (\<lambda>block. renamed_block V b (?entry b) block) (get_block g b)" for b
    using known by (auto simp: get_renamed map_option_case split: option.splits)
  have entry: "cur_ok (def_list g) (?entry b)" for b by (rule block_entry_ok(1)[OF assms(4) within])
  have runs: "runs_to ?g b ds' \<longleftrightarrow> (\<exists>ds. runs_to g b ds \<and> ds' = map (renamed_site V) ds)" for b ds'
    by (rule runs_to_renamed[OF _ _ get]) (simp_all add: renamed_cfg_def block_sites_of_renamed successors_of_renamed)
  have "sees b (renamed_block V b (?entry b) block) i (map (renamed_site V) ds) (rename_reg (version_map V (cur_at b block i (?entry b))) r)
      = map_option (renamed_site V) (sees b block i ds r)"
    if b: "get_block g b = Some block" and i: "i \<le> length (bb_statements block)" and r: "r \<in> use_reads block i"
      and ds: "runs_to g b ds" for b block i r ds
  proof -
    note ok = cur_at_ok[OF entry[of b] def_list_sites[OF assms(1) b], of i]
    have "last_def (map (renamed_site V) (rev (sites_before b block i) @ ds)) (rename_reg (version_map V (cur_at b block i (?entry b))) r)
        = map_option (renamed_site V) (last_def (rev (sites_before b block i) @ ds) r)"
    proof (rule sees_renamed[where S = "set (def_list g)"])
      show "set (rev (sites_before b block i) @ ds) \<subseteq> set (def_list g)"
        using sites_before_set[of b block i] def_list_sites[OF assms(1) b] runs_to_sites[OF assms(1) ds] by auto
      show "r < 10000" using assms(6) b r by blast
      fix d assume d: "last_def (rev (sites_before b block i) @ ds) r = Some d"
      show "\<exists>cs. cur_at b block i (?entry b) r = Some cs \<and> d \<in> set cs"
      proof (cases "last_def (rev (sites_before b block i)) r")
        case None
        with d have "last_def ds r = Some d" by (simp add: last_def_append)
        with sound[OF ds this] block_entry_ok(2)[OF assms(4) within, of d b r] last_def_Some[OF this] None
        show ?thesis by (simp add: cur_at_eq)
      next
        case (Some e)
        with d show ?thesis by (simp add: cur_at_eq last_def_append)
      qed
    next
      fix cs assume cs: "cur_at b block i (?entry b) r = Some cs"
      show "cs \<noteq> [] \<and> set cs \<subseteq> set (def_list g) \<and> (\<forall>d \<in> set cs. ds_register d = r \<and> V d = V (hd cs))"
        using cur_okD[OF ok cs] same[OF b i r cs] by blast
    qed (use homog high in blast)+
    then show ?thesis by (simp add: sees_def sites_before_renamed rev_map)
  qed
  then show ?thesis
    by (intro exI[of _ ?g] exI[of _ V] conjI allI impI run runs)
      (auto simp: get successors_of_renamed length_renamed_block intro!: renamed_block_use exI)
qed

text \<open>An iteration order for the sets, to run the transformation on the sample loop.\<close>

definition sites_in_order :: "def_site set \<Rightarrow> def_site list" where
  "sites_in_order S = map (\<lambda>(b, i, r). \<lparr>ds_block = b, ds_stmt_index = i, ds_register = r\<rparr>)
     (sorted_list_of_set ((\<lambda>d. (ds_block d, ds_stmt_index d, ds_register d)) ` S))"

lemma iterates_in_order: "iterates (sorted_list_of_set :: reg set \<Rightarrow> reg list)" "iterates sites_in_order"
proof -
  have eq: "\<lparr>ds_block = ds_block d, ds_stmt_index = ds_stmt_index d, ds_register = ds_register d\<rparr> = d" for d :: def_site
    by (cases d) simp
  show "iterates sites_in_order" by (simp add: iterates_def sites_in_order_def image_image eq)
qed (simp add: iterates_def)

theorem splitting_keeps_definitions_witness:
  "\<exists>g'. split_live_ranges sorted_list_of_set sites_in_order sample_loop = Some g' \<and> runs_to g' 0 []"
proof -
  have "ids_match sample_loop" "bt_ordered (cfg_blocks sample_loop)" by (simp_all add: ids_match_def sample_loop_def)
  moreover have "length (def_list sample_loop) + 10000 < 2 ^ 32"
    by (simp add: def_list_def sample_loop_def blocks_def block_sites_def)
  moreover have "\<forall>b block i. get_block sample_loop b = Some block \<longrightarrow> (\<forall>r \<in> use_reads block i. r < 10000)"
    by (auto simp: sample_loop_def get_block_def use_reads_def stmt_reads_def collect_reg_reads_def part_reads.simps split: if_splits)
  moreover have "runs_to sample_loop 0 []" using runs_to.start[of sample_loop] by (simp add: sample_loop_def)
  ultimately show ?thesis
    using splitting_keeps_definitions[of sample_loop, OF _ _ iterates_in_order] by fastforce
qed

end
