(* ===== verification/Disasm.thy ===== *)
theory Disasm
  imports Rust_Text Image_Types
begin

text \<open>
  The disassembler (\<open>crates/hbc-decomp/src/disasm.rs\<close>).  The terminal colours (the crate
  \<open>colored\<close>) are a parameter \<open>paint\<close>, and so is \<open>show_f64\<close>, the decimal text the standard
  library gives a finite double.
\<close>

datatype ink = YellowBold | CyanBold | WhiteDimmed | Blue | Red | Yellow | Green | Purple

type_synonym painter = "ink \<Rightarrow> rust_string \<Rightarrow> rust_string"

record disasm_options =
  do_show_offsets :: bool
  do_show_labels :: bool
  do_resolve_strings :: bool
  do_enable_color :: bool

definition disasm_default :: disasm_options where
  "disasm_default = \<lparr>do_show_offsets = True, do_show_labels = True, do_resolve_strings = True, do_enable_color = False\<rparr>"

definition f64_exponent_full :: "f64_bits \<Rightarrow> bool" where
  "f64_exponent_full v \<longleftrightarrow> take_bit 11 (drop_bit 52 v) = 0x7FF"

definition is_nan :: "f64_bits \<Rightarrow> bool" where
  "is_nan v \<longleftrightarrow> f64_exponent_full v \<and> take_bit 52 v \<noteq> 0"

definition is_infinite :: "f64_bits \<Rightarrow> bool" where
  "is_infinite v \<longleftrightarrow> f64_exponent_full v \<and> take_bit 52 v = 0"

definition is_sign_negative :: "f64_bits \<Rightarrow> bool" where
  "is_sign_negative v \<longleftrightarrow> bit v 63"

fun format_operand_value :: "(f64_bits \<Rightarrow> rust_string) \<Rightarrow> operand_value \<Rightarrow> rust_string" where
  "format_operand_value show_f64 (U8 v) = dec (unat v)"
| "format_operand_value show_f64 (U16 v) = dec (unat v)"
| "format_operand_value show_f64 (U32 v) = dec (unat v)"
| "format_operand_value show_f64 (I8 v) = dec_int (sint v)"
| "format_operand_value show_f64 (I32 v) = dec_int (sint v)"
| "format_operand_value show_f64 (F64 v) =
     (if is_nan v then lit ''NaN''
      else if is_infinite v then (if is_sign_negative v then lit ''-Infinity'' else lit ''Infinity'')
      else show_f64 v)"

definition painted :: "painter \<Rightarrow> disasm_options \<Rightarrow> ink \<Rightarrow> rust_string \<Rightarrow> rust_string" where
  "painted paint options i s = (if do_enable_color options then paint i s else s)"

fun register_text :: "operand_value \<Rightarrow> rust_string" where
  "register_text (U8 v) = lit ''r'' @ dec (unat v)"
| "register_text (U16 v) = lit ''r'' @ dec (unat v)"
| "register_text (U32 v) = lit ''r'' @ dec (unat v)"
| "register_text _ = lit ''r?''"

definition address_text :: "u32 \<Rightarrow> operand_value \<Rightarrow> rust_string" where
  "address_text off v =
     (case as_i32 v of Some rel \<Rightarrow> lit ''L'' @ dec_int (sint (off + rel)) | None \<Rightarrow> lit ''L?'')"

definition string_operand_text :: "bytecode_file \<Rightarrow> operand_value \<Rightarrow> rust_string option" where
  "string_operand_text file v =
     (case as_u32 v of
        None \<Rightarrow> None
      | Some sid \<Rightarrow> map_option (\<lambda>entry. escape_js_string (st_value entry)) (string_at file sid))"

definition format_operand ::
  "painter \<Rightarrow> (f64_bits \<Rightarrow> rust_string) \<Rightarrow> instruction \<Rightarrow> operand \<Rightarrow> bytecode_file \<Rightarrow> disasm_options \<Rightarrow> rust_string" where
  "format_operand paint show_f64 insn operand file options =
     (if op_ty operand \<in> {Reg8, Reg32} then painted paint options Red (register_text (op_value operand))
      else if op_ty operand \<in> {Addr8, Addr32} then painted paint options Yellow (address_text (in_offset insn) (op_value operand))
      else if op_ty operand \<in> {UInt8S, UInt16S, UInt32S}
      then (case if do_resolve_strings options then string_operand_text file (op_value operand) else None of
              Some quoted \<Rightarrow> painted paint options Green quoted
            | None \<Rightarrow> painted paint options Purple (format_operand_value show_f64 (op_value operand)))
      else painted paint options Purple (format_operand_value show_f64 (op_value operand)))"

definition format_instruction ::
  "painter \<Rightarrow> (f64_bits \<Rightarrow> rust_string) \<Rightarrow> instruction \<Rightarrow> bytecode_file \<Rightarrow> bytecode_format \<Rightarrow> disasm_options \<Rightarrow> rust_string" where
  "format_instruction paint show_f64 insn file format options =
     (case definition_at format (in_opcode insn) of
        None \<Rightarrow> lit ''<unknown opcode '' @ dec (unat (in_opcode insn)) @ lit ''>''
      | Some def \<Rightarrow>
          (if do_show_offsets options
           then painted paint options WhiteDimmed (hex4 (unat (in_offset insn)) @ lit ''  '') else [])
          @ painted paint options Blue (lit (def_name def))
          @ (if in_operands insn \<noteq> []
             then lit '' '' @ join_with (lit '', '')
                    (map (\<lambda>operand. format_operand paint show_f64 insn operand file options) (in_operands insn))
             else []))"

text \<open>The offsets that get a label: the instruction after an unconditional end of a block and
  the target of every jump.\<close>

definition jump_targets :: "instruction \<Rightarrow> u32 list" where
  "jump_targets insn =
     List.map_filter (\<lambda>operand.
       if op_ty operand \<in> {Addr8, Addr32}
       then (case as_i32 (op_value operand) of
               Some rel \<Rightarrow> (let target = in_offset insn + rel in if 0 \<le> sint target then Some target else None)
             | None \<Rightarrow> None)
       else None) (in_operands insn)"

definition label_offsets_of :: "bytecode_format \<Rightarrow> instruction \<Rightarrow> u32 list" where
  "label_offsets_of format insn =
     (case definition_at format (in_opcode insn) of
        None \<Rightarrow> []
      | Some def \<Rightarrow>
          (if def_name def \<in> {''Ret'', ''Throw'', ''Jmp'', ''JmpLong''} then [in_offset insn + in_length insn] else [])
          @ (if is_jump def then jump_targets insn else []))"

definition collect_label_offsets :: "instruction list \<Rightarrow> bytecode_format \<Rightarrow> u32 set" where
  "collect_label_offsets instructions format = set (concat (map (label_offsets_of format) instructions))"

definition instruction_text ::
  "painter \<Rightarrow> (f64_bits \<Rightarrow> rust_string) \<Rightarrow> bytecode_file \<Rightarrow> bytecode_format \<Rightarrow> disasm_options \<Rightarrow> u32 set \<Rightarrow> instruction \<Rightarrow> rust_string" where
  "instruction_text paint show_f64 file format options label_offsets insn =
     (if do_show_labels options \<and> in_offset insn \<in> label_offsets
      then painted paint options YellowBold (lit ''L'' @ dec (unat (in_offset insn)) @ lit '':'') @ [0x0A]
      else [])
     @ format_instruction paint show_f64 insn file format options @ [0x0A]"

definition disassemble_function ::
  "painter \<Rightarrow> (f64_bits \<Rightarrow> rust_string) \<Rightarrow> bytecode_file \<Rightarrow> bytecode_format \<Rightarrow> u32 \<Rightarrow> disasm_options \<Rightarrow> rust_string result" where
  "disassemble_function paint show_f64 file format function_id options =
     res_bind (decode_function_instructions file format function_id) (\<lambda>instructions.
     let label_offsets = collect_label_offsets instructions format in
     Inr (concat (map (instruction_text paint show_f64 file format options label_offsets) instructions)))"

definition function_banner :: "bytecode_file \<Rightarrow> function_header \<Rightarrow> rust_string" where
  "function_banner file header =
     (let name = (case string_at file (fh_function_name header) of Some entry \<Rightarrow> st_value entry | None \<Rightarrow> []) in
      lit ''function '' @ dec (unat (fh_function_id header))
      @ (if name = [] then lit '':'' else lit '' ('' @ escape_js_string name @ lit ''):''))"

definition disassemble_all ::
  "painter \<Rightarrow> (f64_bits \<Rightarrow> rust_string) \<Rightarrow> bytecode_file \<Rightarrow> bytecode_format \<Rightarrow> disasm_options \<Rightarrow> rust_string result" where
  "disassemble_all paint show_f64 file format options =
     res_bind (res_map (\<lambda>header.
         res_bind (disassemble_function paint show_f64 file format (fh_function_id header) options) (\<lambda>body.
         Inr (painted paint options CyanBold (function_banner file header) @ [0x0A]
              @ concat (map (\<lambda>line. lit ''  '' @ line @ [0x0A]) (str_lines body)) @ [0x0A])))
       (bf_function_headers file)) (\<lambda>parts. Inr (concat parts))"

end
