(* ===== verification/Hasm.thy ===== *)
theory Hasm
  imports Disasm Body_Patch
begin

text \<open>
  Textual assembly (\<open>crates/hbc-decomp/src/write/hasm/\<close>): a function printed by the
  disassembler, with labels and handlers (\<open>emit.rs\<close>), parsed back to instructions in three
  passes (\<open>parse.rs\<close>) and assembled into the image.  The text scans of the code run over bytes
  where they look for ASCII characters only, which no other character contains; here they run
  over characters.  A hash map from names is a function to an option.  The text of a double is
  a parameter in both directions.
\<close>

section \<open>Scanning a line\<close>

text \<open>A comment starts at \<open>//\<close> outside quotes; a quote after a backslash does not count.\<close>

fun strip_comment_from :: "nat \<Rightarrow> bool \<Rightarrow> rust_string \<Rightarrow> rust_string" where
  "strip_comment_from prev in_str (c # d # cs) =
     (let in_str' = (if c = 0x22 \<and> prev \<noteq> 0x5C then \<not> in_str else in_str) in
      if \<not> in_str' \<and> c = 0x2F \<and> d = 0x2F then []
      else c # strip_comment_from c in_str' (d # cs))"
| "strip_comment_from prev in_str s = s"

definition strip_comment :: "rust_string \<Rightarrow> rust_string" where
  "strip_comment line = strip_comment_from 0 False line"

definition hex_run :: "rust_string \<Rightarrow> rust_string \<times> rust_string" where
  "hex_run t =
     (let body = (case strip_prefix (lit ''0x'') t of Some b \<Rightarrow> b
                  | None \<Rightarrow> (case strip_prefix (lit ''0X'') t of Some b \<Rightarrow> b | None \<Rightarrow> t)) in
      (takeWhile is_ascii_hexdigit body, dropWhile is_ascii_hexdigit body))"

definition strip_offset_prefix :: "rust_string \<Rightarrow> (rust_string \<Rightarrow> u8 option) \<Rightarrow> rust_string option" where
  "strip_offset_prefix line known =
     (case hex_run (trim_start line) of (run, rest) \<Rightarrow>
        if run = [] then None
        else if \<not> (rest \<noteq> [] \<and> is_whitespace (hd rest)) then None
        else if known run \<noteq> None then None
        else let rest = trim_start rest in
          if rest \<noteq> [] \<and> is_ascii_alphabetic (hd rest) then Some rest else None)"

fun split_operands :: "bool \<Rightarrow> rust_string \<Rightarrow> rust_string \<Rightarrow> rust_string list" where
  "split_operands in_str cur [] = (if trim cur \<noteq> [] then [trim cur] else [])"
| "split_operands in_str cur (c # cs) =
     (if c = 0x22 then split_operands (\<not> in_str) (cur @ [c]) cs
      else if c = 0x2C \<and> \<not> in_str then trim cur # split_operands in_str [] cs
      else split_operands in_str (cur @ [c]) cs)"

definition split_mnemonic_operands :: "rust_string \<Rightarrow> rust_string list" where
  "split_mnemonic_operands line =
     (let cur = takeWhile (\<lambda>c. \<not> is_whitespace c) line;
          rest = dropWhile is_whitespace (dropWhile (\<lambda>c. \<not> is_whitespace c) line) in
      (if cur \<noteq> [] then [cur] else []) @ split_operands False [] rest)"

section \<open>Operands\<close>

fun operand_size :: "operand_type \<Rightarrow> nat" where
  "operand_size ty =
     (if ty \<in> {Reg8, UInt8, UInt8S, Addr8} then 1
      else if ty \<in> {UInt16, UInt16S} then 2
      else if ty \<in> {Reg32, UInt32, UInt32S, Addr32, Imm32} then 4
      else 8)"

fun unescape :: "rust_string \<Rightarrow> rust_string" where
  "unescape (c # d # cs) =
     (if c = 0x5C
      then (if d = 0x6E then 0x0A else if d = 0x74 then 0x09 else if d = 0x72 then 0x0D else d) # unescape cs
      else c # unescape (d # cs))"
| "unescape [c] = (if c = 0x5C then [] else [c])"
| "unescape [] = []"

definition unquote :: "rust_string \<Rightarrow> rust_string result" where
  "unquote tok =
     (let t = trim tok in
      if 2 \<le> length t \<and> hd t = 0x22 \<and> last t = 0x22
      then Inr (unescape (butlast (tl t)))
      else Inl (Write ''expected quoted string, got {tok}'' [FText tok]))"

definition narrow_uint :: "operand_type \<Rightarrow> u32 \<Rightarrow> operand_value" where
  "narrow_uint ty v =
     (if ty \<in> {UInt8, UInt8S} then U8 (ucast v) else if ty \<in> {UInt16, UInt16S} then U16 (ucast v) else U32 v)"

definition hex_body :: "rust_string \<Rightarrow> rust_string option" where
  "hex_body tok = (case strip_prefix (lit ''0x'') tok of Some h \<Rightarrow> Some h | None \<Rightarrow> strip_prefix (lit ''0X'') tok)"

definition parse_uint :: "rust_string \<Rightarrow> operand_type \<Rightarrow> operand_value result" where
  "parse_uint tok ty =
     res_bind (case hex_body tok of
         Some h \<Rightarrow> ok_or (parse_radix_u32 16 h) (Write ''bad hex {tok}'' [FText tok])
       | None \<Rightarrow> ok_or (parse_u32 tok) (Write ''bad uint {tok}'' [FText tok])) (\<lambda>v.
     Inr (narrow_uint ty v))"

definition parse_register :: "rust_string \<Rightarrow> operand_type \<Rightarrow> operand_value result" where
  "parse_register tok ty =
     res_bind (ok_or (case strip_prefix (lit ''r'') tok of Some n \<Rightarrow> Some n | None \<Rightarrow> strip_prefix (lit ''R'') tok)
       (Write ''expected register, got {tok}'' [FText tok])) (\<lambda>n.
     res_bind (ok_or (parse_u32 n) (Write ''bad register {tok}'' [FText tok])) (\<lambda>v.
     Inr (if ty = Reg8 then U8 (ucast v) else U32 v)))"

definition parse_address ::
  "rust_string \<Rightarrow> operand_type \<Rightarrow> u32 \<Rightarrow> (rust_string \<Rightarrow> u32 option) \<Rightarrow> operand_value result" where
  "parse_address tok ty insn_offset labels =
     res_bind (case labels tok of
         Some addr \<Rightarrow> Inr addr
       | None \<Rightarrow>
           (case Option.bind (strip_prefix (lit ''L'') tok) parse_u32 of
              Some addr \<Rightarrow> Inr addr
            | None \<Rightarrow> if starts_with (lit ''L'') tok then Inl (Write ''unknown label {tok}'' [FText tok])
                      else Inl (Write ''bad address operand {tok}'' [FText tok]))) (\<lambda>target.
     let rel = target - insn_offset :: i32 in
     if ty = Addr8
     then (if sint rel < - 128 \<or> 127 < sint rel then Inl (Write ''Addr8 out of range: {rel}'' [FNum (sint rel)])
           else Inr (I8 (ucast rel)))
     else Inr (I32 rel))"

definition parse_operand_token ::
  "(rust_string \<Rightarrow> f64_bits option) \<Rightarrow> rust_string \<Rightarrow> operand_type \<Rightarrow> u32 \<Rightarrow> (rust_string \<Rightarrow> u32 option)
    \<Rightarrow> (rust_string \<Rightarrow> u32 option) \<Rightarrow> operand_value result" where
  "parse_operand_token parse_f64 tok ty insn_offset labels strings =
     (let tok = trim tok in
      if ty \<in> {Reg8, Reg32} then parse_register tok ty
      else if ty \<in> {Addr8, Addr32} then parse_address tok ty insn_offset labels
      else if ty \<in> {UInt8S, UInt16S, UInt32S} \<and> starts_with [0x22] tok
      then res_bind (unquote tok) (\<lambda>unquoted.
           res_bind (ok_or (strings unquoted) (Write ''string not in table: {}'' [FText (escape_js_string unquoted)])) (\<lambda>sid.
           Inr (narrow_uint ty sid)))
      else if ty = Imm32 then res_bind (ok_or (parse_i32 tok) (Write ''bad imm {tok}'' [FText tok])) (\<lambda>v. Inr (I32 v))
      else if ty = Double then res_bind (ok_or (parse_f64 tok) (Write ''bad double {tok}'' [FText tok])) (\<lambda>v. Inr (F64 v))
      else parse_uint tok ty)"

section \<open>The three passes\<close>

definition name_to_op :: "bytecode_format \<Rightarrow> rust_string \<Rightarrow> u8 option" where
  "name_to_op format name =
     map_option def_opcode (find (\<lambda>d. def_name d \<noteq> ''<invalid>'' \<and> lit (def_name d) = name) (definitions format))"

text \<open>What a line is.\<close>

datatype hasm_line =
    BlankLine
  | HandlerLine "rust_string list"
  | BadHandler rust_string
  | LabelLine rust_string
  | CodeLine rust_string "rust_string list"

definition is_label :: "rust_string \<Rightarrow> bool" where
  "is_label lab \<longleftrightarrow> lab \<noteq> [] \<and> hd lab = 0x4C \<and> list_all is_ascii_digit (tl lab)"

definition read_line :: "(rust_string \<Rightarrow> u8 option) \<Rightarrow> rust_string \<Rightarrow> hasm_line" where
  "read_line known line =
     (let line = trim (strip_comment line) in
      if line = [] then BlankLine
      else case strip_prefix (lit ''.handler'') line of
        Some spec \<Rightarrow>
          (let parts = map trim (split_on 0x2C spec) in
           if length parts \<noteq> 3 \<or> [] \<in> set parts then BadHandler line else HandlerLine parts)
      | None \<Rightarrow>
          if starts_with (lit ''function '') line \<or> starts_with (lit ''; '') line \<or> starts_with (lit ''Function'') line
          then BlankLine
          else case strip_last 0x3A line of
            Some lab \<Rightarrow>
              if is_label lab then LabelLine lab
              else (case split_mnemonic_operands (case strip_offset_prefix line known of Some r \<Rightarrow> r | None \<Rightarrow> line) of
                      [] \<Rightarrow> BlankLine | mnemonic # ops \<Rightarrow> CodeLine mnemonic ops)
          | None \<Rightarrow>
              (case split_mnemonic_operands (case strip_offset_prefix line known of Some r \<Rightarrow> r | None \<Rightarrow> line) of
                 [] \<Rightarrow> BlankLine | mnemonic # ops \<Rightarrow> CodeLine mnemonic ops))"

record raw_line =
  rw_label :: "rust_string option"
  rw_mnemonic :: rust_string
  rw_ops :: "rust_string list"

text \<open>Pass 1: the instruction lines, each with the label pending before it; the label left over at
  the end; the handler lines.\<close>

fun collect_lines ::
  "(rust_string \<Rightarrow> u8 option) \<Rightarrow> rust_string option \<Rightarrow> rust_string list
    \<Rightarrow> (raw_line list \<times> rust_string option \<times> rust_string list list) result" where
  "collect_lines known pending [] = Inr ([], pending, [])"
| "collect_lines known pending (line # lines) =
     (case read_line known line of
        BlankLine \<Rightarrow> collect_lines known pending lines
      | BadHandler l \<Rightarrow> Inl (Write ''`{line}`: a handler is `.handler <start>, <end>, <target>`'' [FText l])
      | HandlerLine parts \<Rightarrow>
          res_bind (collect_lines known pending lines) (\<lambda>(raws, pend, specs). Inr (raws, pend, parts # specs))
      | LabelLine lab \<Rightarrow> collect_lines known (Some lab) lines
      | CodeLine mnemonic ops \<Rightarrow>
          res_bind (collect_lines known None lines) (\<lambda>(raws, pend, specs).
          Inr (\<lparr>rw_label = pending, rw_mnemonic = mnemonic, rw_ops = ops\<rparr> # raws, pend, specs)))"

record sized_line =
  sz_offset :: u32
  sz_opcode :: u8
  sz_ops :: "rust_string list"
  sz_types :: "operand_type list"

definition insn_length :: "operand_type list \<Rightarrow> u32" where
  "insn_length types = of_nat (1 + sum_list (map operand_size types))"

text \<open>Pass 2: sizes and label offsets.\<close>

fun size_lines ::
  "bytecode_format \<Rightarrow> u32 \<Rightarrow> (rust_string \<Rightarrow> u32 option) \<Rightarrow> raw_line list
    \<Rightarrow> (sized_line list \<times> (rust_string \<Rightarrow> u32 option) \<times> u32) result" where
  "size_lines format offset labels [] = Inr ([], labels, offset)"
| "size_lines format offset labels (raw # raws) =
     (let labels = (case rw_label raw of Some lab \<Rightarrow> labels(lab \<mapsto> offset) | None \<Rightarrow> labels) in
      res_bind (ok_or (name_to_op format (rw_mnemonic raw)) (Write ''unknown mnemonic: {mnem}'' [FText (rw_mnemonic raw)])) (\<lambda>op.
      let types = operand_types (definitions format ! unat op) in
      if length (rw_ops raw) \<noteq> length types
      then Inl (Write ''{mnem}: expected {} operands, got {} ({:?})''
             [FText (rw_mnemonic raw), fnat (length types), fnat (length (rw_ops raw))])
      else res_bind (size_lines format (offset + insn_length types) labels raws) (\<lambda>(sized, labels, e).
           Inr (\<lparr>sz_offset = offset, sz_opcode = op, sz_ops = rw_ops raw, sz_types = types\<rparr> # sized, labels, e))))"

definition resolve_offset :: "(rust_string \<Rightarrow> u32 option) \<Rightarrow> rust_string \<Rightarrow> u32 result" where
  "resolve_offset labels tok =
     (case labels tok of
        Some off \<Rightarrow> Inr off
      | None \<Rightarrow> ok_or (case hex_body tok of Some h \<Rightarrow> parse_radix_u32 16 h | None \<Rightarrow> parse_u32 tok)
                  (Write ''.handler: unknown label or offset `{tok}`'' [FText tok]))"

definition resolve_handler :: "(rust_string \<Rightarrow> u32 option) \<Rightarrow> rust_string list \<Rightarrow> exception_handler result" where
  "resolve_handler labels t =
     res_bind (resolve_offset labels (t ! 0)) (\<lambda>s.
     res_bind (resolve_offset labels (t ! 1)) (\<lambda>e.
     res_bind (resolve_offset labels (t ! 2)) (\<lambda>g.
     Inr \<lparr>eh_start = s, eh_end = e, eh_target = g\<rparr>)))"

text \<open>Pass 3: instructions.\<close>

definition build_insn ::
  "(rust_string \<Rightarrow> f64_bits option) \<Rightarrow> (rust_string \<Rightarrow> u32 option) \<Rightarrow> (rust_string \<Rightarrow> u32 option) \<Rightarrow> sized_line
    \<Rightarrow> instruction result" where
  "build_insn parse_f64 labels strings l =
     res_bind (res_map (\<lambda>(tok, ty).
         res_bind (parse_operand_token parse_f64 tok ty (sz_offset l) labels strings) (\<lambda>v.
         Inr \<lparr>op_ty = ty, op_value = v\<rparr>)) (zip (sz_ops l) (sz_types l))) (\<lambda>operands.
     Inr \<lparr>in_offset = sz_offset l, in_opcode = sz_opcode l, in_operands = operands, in_length = insn_length (sz_types l)\<rparr>)"

definition parse_hasm_function_full ::
  "(rust_string \<Rightarrow> f64_bits option) \<Rightarrow> rust_string \<Rightarrow> bytecode_format \<Rightarrow> (rust_string \<Rightarrow> u32 option)
    \<Rightarrow> (instruction list \<times> exception_handler list option) result" where
  "parse_hasm_function_full parse_f64 text format string_lookup =
     res_bind (collect_lines (name_to_op format) None (str_lines text)) (\<lambda>(raws, pending, specs).
     res_bind (size_lines format 0 Map.empty raws) (\<lambda>(sized, labels, e).
     let labels = (case pending of Some lab \<Rightarrow> labels(lab \<mapsto> e) | None \<Rightarrow> labels) in
     res_bind (if specs = [] then Inr None
               else res_bind (res_map (resolve_handler labels) specs) (\<lambda>hs. Inr (Some hs))) (\<lambda>handlers.
     res_bind (res_map (build_insn parse_f64 labels string_lookup) sized) (\<lambda>insns.
     Inr (insns, handlers)))))"

definition parse_hasm_function ::
  "(rust_string \<Rightarrow> f64_bits option) \<Rightarrow> rust_string \<Rightarrow> bytecode_format \<Rightarrow> (rust_string \<Rightarrow> u32 option) \<Rightarrow> instruction list result" where
  "parse_hasm_function parse_f64 text format string_lookup =
     res_bind (parse_hasm_function_full parse_f64 text format string_lookup) (\<lambda>r. Inr (fst r))"

text \<open>The first string with a value is the one a literal names.\<close>

definition string_lookup_of :: "bytecode_file \<Rightarrow> rust_string \<Rightarrow> u32 option" where
  "string_lookup_of file s =
     map_option of_nat (find (\<lambda>i. st_value (bf_strings file ! i) = s) [0..<length (bf_strings file)])"

definition parse_hasm_body_with_context ::
  "(rust_string \<Rightarrow> f64_bits option) \<Rightarrow> rust_string \<Rightarrow> bytecode_format \<Rightarrow> bytecode_file
    \<Rightarrow> (instruction list \<times> exception_handler list option) result" where
  "parse_hasm_body_with_context parse_f64 text format file =
     parse_hasm_function_full parse_f64 text format (string_lookup_of file)"

definition parse_hasm_with_context ::
  "(rust_string \<Rightarrow> f64_bits option) \<Rightarrow> rust_string \<Rightarrow> bytecode_format \<Rightarrow> bytecode_file \<Rightarrow> instruction list result" where
  "parse_hasm_with_context parse_f64 text format file =
     res_bind (parse_hasm_body_with_context parse_f64 text format file) (\<lambda>r. Inr (fst r))"

section \<open>Modules\<close>

record hasm_function =
  hf_id :: u32
  hf_name :: "rust_string option"
  hf_instructions :: "instruction list"
  hf_exception_handlers :: "(u32 \<times> u32 \<times> u32) list"

record hasm_module =
  hm_version :: "u32 option"
  hm_functions :: "hasm_function list"

text \<open>The state of the split: the functions so far, the id and name of the current one, its text.\<close>

record hasm_split =
  hs_functions :: "hasm_function list"
  hs_id :: u32
  hs_name :: "rust_string option"
  hs_buf :: rust_string

definition hs_flush :: "hasm_split \<Rightarrow> hasm_split" where
  "hs_flush s =
     (if hs_buf s = [] then s
      else s\<lparr>hs_functions := hs_functions s @ [\<lparr>hf_id = hs_id s, hf_name = hs_name s, hf_instructions = [],
               hf_exception_handlers = []\<rparr>], hs_name := None, hs_buf := []\<rparr>)"

definition quoted_name :: "rust_string \<Rightarrow> rust_string option" where
  "quoted_name t =
     (let rest = dropWhile (\<lambda>c. c \<noteq> 0x22) t in
      if rest = [] \<or> 0x22 \<notin> set (tl rest) then None else Some (takeWhile (\<lambda>c. c \<noteq> 0x22) (tl rest)))"

definition split_line :: "rust_string \<Rightarrow> hasm_split \<Rightarrow> hasm_split" where
  "split_line line s =
     (let t = trim line in
      case strip_prefix (lit ''function '') t of
        Some rest \<Rightarrow>
          (let s = hs_flush s in
           case parse_u32 (trim (hd (split_on 0x3A rest))) of Some i \<Rightarrow> s\<lparr>hs_id := i\<rparr> | None \<Rightarrow> s)
      | None \<Rightarrow>
          (case strip_prefix (lit ''; fn#'') t of
             Some num \<Rightarrow>
               (let s = hs_flush s;
                    id_part = (case takeWhile (\<lambda>c. \<not> is_whitespace c) (trim_start num) of [] \<Rightarrow> lit ''0'' | p \<Rightarrow> p);
                    s = s\<lparr>hs_id := (case parse_u32 id_part of Some i \<Rightarrow> i | None \<Rightarrow> 0)\<rparr> in
                case quoted_name t of Some n \<Rightarrow> s\<lparr>hs_name := Some n\<rparr> | None \<Rightarrow> s)
           | None \<Rightarrow> s\<lparr>hs_buf := hs_buf s @ line @ [0x0A]\<rparr>))"

definition parse_hasm :: "rust_string \<Rightarrow> hasm_module" where
  "parse_hasm text =
     (let s = fold split_line (str_lines text) \<lparr>hs_functions = [], hs_id = 0, hs_name = None, hs_buf = []\<rparr>;
          s = hs_flush s in
      \<lparr>hm_version = None, hm_functions = hs_functions s\<rparr>)"

section \<open>Emitting and assembling\<close>

text \<open>Labels are placed on the boundaries of handlers while the text of the disassembler is copied.
  The state is the output and the offsets that have a label.\<close>

definition wanted_labels :: "exception_handler list \<Rightarrow> u32 set" where
  "wanted_labels hs = (\<Union>h \<in> set hs. {eh_start h, eh_end h, eh_target h})"

definition label_line :: "u32 \<Rightarrow> rust_string" where
  "label_line off = lit ''L'' @ dec (unat off) @ lit '':''"

definition line_offset :: "rust_string \<Rightarrow> u32 option" where
  "line_offset line =
     (let t = takeWhile (\<lambda>c. \<not> is_whitespace c) (trim_start line) in
      if 4 \<le> length t \<and> list_all is_ascii_hexdigit t then parse_radix_u32 16 t else None)"

definition ends_with :: "rust_string \<Rightarrow> rust_string \<Rightarrow> bool" where
  "ends_with p s \<longleftrightarrow> length p \<le> length s \<and> drop (length s - length p) s = p"

definition emit_line :: "u32 set \<Rightarrow> rust_string \<Rightarrow> rust_string \<times> u32 set \<Rightarrow> rust_string \<times> u32 set" where
  "emit_line wanted line = (\<lambda>(out, placed).
     (case line_offset line of
        Some off \<Rightarrow>
          if off \<in> wanted \<and> off \<notin> placed
          then (if ends_with (label_line off @ [0x0A]) out then (out @ line @ [0x0A], insert off placed)
                else (out @ label_line off @ [0x0A] @ line @ [0x0A], insert off placed))
          else (out @ line @ [0x0A], placed)
      | None \<Rightarrow>
          (case Option.bind (Option.bind (strip_last 0x3A line) (strip_prefix (lit ''L''))) parse_u32 of
             Some off \<Rightarrow> (out @ line @ [0x0A], insert off placed)
           | None \<Rightarrow> (out @ line @ [0x0A], placed))))"

definition handler_line :: "exception_handler \<Rightarrow> rust_string" where
  "handler_line h = lit ''.handler L'' @ dec (unat (eh_start h)) @ lit '', L'' @ dec (unat (eh_end h))
     @ lit '', L'' @ dec (unat (eh_target h)) @ [0x0A]"

definition emit_hasm_function ::
  "painter \<Rightarrow> (f64_bits \<Rightarrow> rust_string) \<Rightarrow> bytecode_file \<Rightarrow> bytecode_format \<Rightarrow> u32 \<Rightarrow> rust_string result" where
  "emit_hasm_function paint show_f64 file format function_id =
     res_bind (disassemble_function paint show_f64 file format function_id disasm_default) (\<lambda>text.
     case bf_exception_handlers file function_id of
       None \<Rightarrow> Inr text
     | Some handlers \<Rightarrow>
         (let wanted = wanted_labels handlers;
              (out, placed) = fold (emit_line wanted) (str_lines text) ([], {});
              missing = concat (map (\<lambda>off. label_line off @ [0x0A]) (sorted_list_of_set (wanted - placed))) in
          Inr (out @ missing @ concat (map handler_line handlers))))"

definition assemble_function_hasm_with ::
  "digest \<Rightarrow> (rust_string \<Rightarrow> f64_bits option) \<Rightarrow> bytecode_format \<Rightarrow> u32 \<Rightarrow> rust_string \<Rightarrow> patch_options \<Rightarrow> u8 list file_op" where
  "assemble_function_hasm_with sha1 parse_f64 format function_id text options file =
     (case parse_hasm_body_with_context parse_f64 text format file of
        Inl e \<Rightarrow> (Inl e, file)
      | Inr (insns, handlers) \<Rightarrow>
          patch_function_body_with sha1 format function_id insns options
            (case handlers of None \<Rightarrow> KeepHandlers | Some hs \<Rightarrow> ReplaceHandlers hs) file)"

definition patch_options_default :: patch_options where
  "patch_options_default = \<lparr>po_strip_debug_info = False, po_allow_stale_debug_info = False, po_unpacked_strings = False\<rparr>"

definition assemble_function_hasm ::
  "digest \<Rightarrow> (rust_string \<Rightarrow> f64_bits option) \<Rightarrow> bytecode_format \<Rightarrow> u32 \<Rightarrow> rust_string \<Rightarrow> u8 list file_op" where
  "assemble_function_hasm sha1 parse_f64 format function_id text =
     assemble_function_hasm_with sha1 parse_f64 format function_id text patch_options_default"

fun assemble_functions :: "digest \<Rightarrow> bytecode_format \<Rightarrow> hasm_function list \<Rightarrow> bytecode_file \<Rightarrow> bytecode_file result" where
  "assemble_functions sha1 format [] file = Inr file"
| "assemble_functions sha1 format (func # funcs) file =
     (if hf_instructions func = [] then assemble_functions sha1 format funcs file
      else case patch_function_body sha1 format (hf_id func) (hf_instructions func) patch_options_default file of
        (Inl e, _) \<Rightarrow> Inl e
      | (Inr _, file) \<Rightarrow> assemble_functions sha1 format funcs file)"

definition assemble_module :: "digest \<Rightarrow> bytecode_file \<Rightarrow> bytecode_format \<Rightarrow> hasm_module \<Rightarrow> bytecode_file result" where
  "assemble_module sha1 base format module = assemble_functions sha1 format (hm_functions module) base"

section \<open>A parsed module has no code\<close>

lemma flush_empty: "list_all (\<lambda>f. hf_instructions f = []) (hs_functions s) \<Longrightarrow>
    list_all (\<lambda>f. hf_instructions f = []) (hs_functions (hs_flush s))"
  by (simp add: hs_flush_def)

lemma split_line_empty: "list_all (\<lambda>f. hf_instructions f = []) (hs_functions s) \<Longrightarrow>
    list_all (\<lambda>f. hf_instructions f = []) (hs_functions (split_line line s))"
  using flush_empty[of s] by (simp add: split_line_def Let_def split: option.split)

lemma split_lines_empty: "list_all (\<lambda>f. hf_instructions f = []) (hs_functions s) \<Longrightarrow>
    list_all (\<lambda>f. hf_instructions f = []) (hs_functions (fold split_line lines s))"
  by (induction lines arbitrary: s) (simp_all add: split_line_empty)

lemma assemble_nothing: "list_all (\<lambda>f. hf_instructions f = []) fs \<Longrightarrow> assemble_functions sha1 format fs file = Inr file"
  by (induction fs) simp_all

text \<open>Assembling a module parsed from text changes nothing, whatever the text says: the parser of
  modules keeps no instructions, and a function without instructions is skipped.\<close>

theorem parsed_module_assembles_nothing:
  "assemble_module sha1 base format (parse_hasm text) = Inr base"
proof -
  have "list_all (\<lambda>f. hf_instructions f = []) (hm_functions (parse_hasm text))"
    by (simp add: parse_hasm_def Let_def flush_empty split_lines_empty)
  then show ?thesis by (simp add: assemble_module_def assemble_nothing)
qed

end
