(* ===== verification/Hasm_Lines.thy ===== *)
theory Hasm_Lines
  imports Hasm
begin

text \<open>
  A printed line is read back: what the disassembler and the emitter write for one instruction,
  label or handler is what the parser's scans take apart again.  The conditions on the text of
  an operand are the ones the scans need: a token has no quote, blank, comma, slash or colon,
  and a string literal no quote inside and no backslash at its end.
\<close>

section \<open>Tokens\<close>

definition plain_char :: "nat \<Rightarrow> bool" where
  "plain_char c \<longleftrightarrow> is_ascii_alphabetic c \<or> is_ascii_digit c \<or> c \<in> {0x2B, 0x2D, 0x2E, 0x5F}"

definition plain_token :: "rust_string \<Rightarrow> bool" where
  "plain_token t \<longleftrightarrow> t \<noteq> [] \<and> list_all plain_char t"

text \<open>A string whose literal the parser of assembly reads back.\<close>

definition plain_text :: "rust_string \<Rightarrow> bool" where
  "plain_text s \<longleftrightarrow> list_all (\<lambda>c. c \<in> {0x09, 0x0A, 0x0D} \<or> 0x20 \<le> c \<and> c < 0x7F \<and> c \<noteq> 0x22) s \<and> (s \<noteq> [] \<longrightarrow> last s \<noteq> 0x5C)"

definition good_token :: "rust_string \<Rightarrow> bool" where
  "good_token t \<longleftrightarrow> plain_token t \<or> (\<exists>s. plain_text s \<and> t = escape_js_string s)"

lemma plain_char_facts:
  "plain_char c \<Longrightarrow> c \<noteq> 0x22 \<and> c \<noteq> 0x2F \<and> c \<noteq> 0x2C \<and> c \<noteq> 0x3A \<and> c \<noteq> 0x5C \<and> c \<noteq> 0x0A \<and> c \<noteq> 0x0D \<and> \<not> is_whitespace c"
  by (auto simp: plain_char_def is_ascii_alphabetic_def is_ascii_digit_def is_whitespace_def)

lemma escape_plain_chars:
  assumes "plain_text s"
  shows "\<forall>c \<in> set (escape_js_string_bare s). c \<noteq> 0x22 \<and> c \<noteq> 0x0A \<and> c \<noteq> 0x0D"
    and "last (0x22 # escape_js_string_bare s) \<noteq> 0x5C"
proof -
  have "\<forall>d \<in> set (escape_char c). d \<noteq> 0x22 \<and> d \<noteq> 0x0A \<and> d \<noteq> 0x0D" if "c \<in> set s" for c
    using assms that by (auto simp: plain_text_def list_all_iff escape_char_def is_control_def lit_def)
  then show "\<forall>c \<in> set (escape_js_string_bare s). c \<noteq> 0x22 \<and> c \<noteq> 0x0A \<and> c \<noteq> 0x0D"
    by (auto simp: escape_js_string_bare_def)
  show "last (0x22 # escape_js_string_bare s) \<noteq> 0x5C"
  proof (cases s rule: rev_cases)
    case Nil
    then show ?thesis by (simp add: escape_js_string_bare_def)
  next
    case (snoc xs c)
    have "escape_char c \<noteq> []" "last (escape_char c) \<noteq> 0x5C"
      using assms by (auto simp: snoc plain_text_def escape_char_def is_control_def lit_def)
    then show ?thesis by (simp add: snoc escape_js_string_bare_def)
  qed
qed

section \<open>Comments\<close>

lemma strip_comment_run:
  assumes "\<forall>c \<in> set s. c \<noteq> 0x22 \<and> (q \<or> c \<noteq> 0x2F)"
  shows "strip_comment_from p q (s @ rest) = s @ strip_comment_from (last (p # s)) q rest"
  using assms
proof (induction s arbitrary: p)
  case Nil
  then show ?case by simp
next
  case (Cons c s)
  show ?case
  proof (cases "s @ rest")
    case Nil
    then show ?thesis by simp
  next
    case (Cons d ds)
    have "strip_comment_from p q (c # s @ rest) = c # strip_comment_from c q (s @ rest)"
      using Cons.prems by (auto simp: Cons Let_def)
    also have "\<dots> = c # s @ strip_comment_from (last (c # s)) q rest"
      using Cons.IH[of c] Cons.prems by simp
    finally show ?thesis by simp
  qed
qed

lemma strip_comment_quote:
  "p \<noteq> 0x5C \<Longrightarrow> strip_comment_from p q (0x22 # rest) = 0x22 # strip_comment_from 0x22 (\<not> q) rest"
  by (cases rest) (simp_all add: Let_def)

lemma strip_comment_token:
  assumes "good_token t" and "p \<noteq> 0x5C"
  shows "strip_comment_from p False (t @ rest) = t @ strip_comment_from (last (p # t)) False rest"
    and "last (p # t) \<noteq> 0x5C"
proof -
  have "strip_comment_from p False (t @ rest) = t @ strip_comment_from (last (p # t)) False rest \<and> last (p # t) \<noteq> 0x5C"
    using assms(1) unfolding good_token_def
  proof (elim disjE exE conjE)
    assume "plain_token t"
    then have "\<forall>c \<in> set t. c \<noteq> 0x22 \<and> c \<noteq> 0x2F \<and> c \<noteq> 0x5C" using plain_char_facts by (auto simp: plain_token_def list_all_iff)
    moreover from this assms(2) have "last (p # t) \<noteq> 0x5C" using last_in_set[of t] by (cases t) auto
    ultimately show ?thesis using strip_comment_run[where s = t and q = False and p = p and rest = rest] by simp
  next
    fix s assume s: "plain_text s" and t: "t = escape_js_string s"
    let ?b = "escape_js_string_bare s"
    note e = escape_plain_chars[OF s]
    have "strip_comment_from p False (0x22 # ?b @ 0x22 # rest) = 0x22 # strip_comment_from 0x22 True (?b @ 0x22 # rest)"
      using strip_comment_quote[OF assms(2), of False] by simp
    also have "\<dots> = 0x22 # ?b @ strip_comment_from (last (0x22 # ?b)) True (0x22 # rest)"
      using strip_comment_run[where s = ?b and q = True and p = "0x22" and rest = "0x22 # rest"] e(1) by simp
    also have "\<dots> = 0x22 # ?b @ 0x22 # strip_comment_from 0x22 False rest"
      using strip_comment_quote[OF e(2), of True rest] by simp
    finally show ?thesis by (simp add: t escape_js_string_def)
  qed
  then show "strip_comment_from p False (t @ rest) = t @ strip_comment_from (last (p # t)) False rest"
    "last (p # t) \<noteq> 0x5C" by simp_all
qed

lemma good_token_nonempty: "good_token t \<Longrightarrow> t \<noteq> []"
  by (auto simp: good_token_def plain_token_def escape_js_string_def)

lemma strip_comment_tokens:
  "list_all good_token ts \<Longrightarrow> p \<noteq> 0x5C \<Longrightarrow>
    strip_comment_from p False (join_with (lit '', '') ts) = join_with (lit '', '') ts"
proof (induction ts arbitrary: p rule: induct_list012)
  case 1
  then show ?case by simp
next
  case (2 x)
  then show ?case using strip_comment_token(1)[of x p "[]"] by simp
next
  case (3 x y xs)
  have sep: "strip_comment_from q False (lit '', '' @ rest) = lit '', '' @ strip_comment_from 0x20 False rest" for q rest
    using strip_comment_run[where s = "lit '', ''" and q = False and p = q and rest = rest] by (simp add: lit_def)
  show ?case
    using strip_comment_token(1)[of x p "lit '', '' @ join_with (lit '', '') (y # xs)"] 3 sep by simp
qed

section \<open>Operand lists\<close>

lemma split_run:
  "\<forall>c \<in> set s. c \<noteq> 0x22 \<and> (q \<or> c \<noteq> 0x2C) \<Longrightarrow> split_operands q cur (s @ rest) = split_operands q (cur @ s) rest"
  by (induction s arbitrary: cur) auto

lemma split_token:
  assumes "good_token t"
  shows "split_operands False cur (t @ rest) = split_operands False (cur @ t) rest"
  using assms unfolding good_token_def
proof (elim disjE exE conjE)
  assume "plain_token t"
  then have "\<forall>c \<in> set t. c \<noteq> 0x22 \<and> c \<noteq> 0x2C" using plain_char_facts by (auto simp: plain_token_def list_all_iff)
  then show ?thesis by (intro split_run) simp
next
  fix s assume s: "plain_text s" and t: "t = escape_js_string s"
  let ?b = "escape_js_string_bare s"
  have "split_operands True (cur @ [0x22]) (?b @ 0x22 # rest) = split_operands True (cur @ 0x22 # ?b) (0x22 # rest)"
    using split_run[of ?b True "cur @ [0x22]" "0x22 # rest"] escape_plain_chars(1)[OF s] by simp
  then show ?thesis by (simp add: t escape_js_string_def)
qed

lemma trim_solid:
  assumes "t \<noteq> []" "\<not> is_whitespace (hd t)" "\<not> is_whitespace (last t)" "list_all is_whitespace pre"
  shows "trim (pre @ t) = t"
proof -
  obtain c cs where t: "t = c # cs" using assms(1) by (cases t) auto
  have "dropWhile is_whitespace (pre @ t) = t"
    using assms(2,4) by (simp add: dropWhile_append2 list_all_iff t)
  moreover obtain d ds where "rev t = d # ds" "d = last t" using assms(1) by (cases t rule: rev_cases) auto
  ultimately show ?thesis using assms(3) by (metis trim_def trim_start_def dropWhile.simps(2) rev_rev_ident)
qed

lemma good_token_ends: "good_token t \<Longrightarrow> \<not> is_whitespace (hd t) \<and> \<not> is_whitespace (last t) \<and> last t \<noteq> 0x3A"
proof (unfold good_token_def, elim disjE exE conjE)
  assume "plain_token t"
  then have "t \<noteq> []" "plain_char (hd t)" "plain_char (last t)" by (auto simp: plain_token_def list_all_iff)
  then show ?thesis using plain_char_facts by blast
next
  fix s assume "t = escape_js_string s"
  then show ?thesis by (simp add: escape_js_string_def is_whitespace_def)
qed

lemma trim_token: "good_token t \<Longrightarrow> list_all is_whitespace pre \<Longrightarrow> trim (pre @ t) = t"
  using trim_solid good_token_ends good_token_nonempty by blast

lemma split_tokens:
  "list_all good_token ts \<Longrightarrow> list_all is_whitespace pre \<Longrightarrow> ts \<noteq> [] \<Longrightarrow>
    split_operands False pre (join_with (lit '', '') ts) = ts"
proof (induction ts arbitrary: pre rule: induct_list012)
  case (2 x)
  then show ?case using split_token[of x pre "[]"] trim_token[of x pre] good_token_nonempty by simp
next
  case (3 x y xs)
  let ?rest = "join_with (lit '', '') (y # xs)"
  have comma: "split_operands False cur (lit '', '' @ rest) = trim cur # split_operands False [0x20] rest" for cur rest
    by (simp add: lit_def)
  have "list_all is_whitespace [0x20]" by (simp add: is_whitespace_def)
  with 3 have "split_operands False [0x20] ?rest = y # xs" by simp
  then show ?case
    using split_token[of x pre "lit '', '' @ ?rest"] comma[of "pre @ x" ?rest] trim_token[of x pre] 3 by simp
qed simp

section \<open>Mnemonics\<close>

definition nice_name :: "rust_string \<Rightarrow> bool" where
  "nice_name n \<longleftrightarrow> n \<noteq> [] \<and> 0x41 \<le> hd n \<and> hd n \<le> 0x5A
     \<and> list_all (\<lambda>c. is_ascii_alphabetic c \<or> is_ascii_digit c \<or> c = 0x5F) n"

definition operand_part :: "rust_string list \<Rightarrow> rust_string" where
  "operand_part toks = (if toks \<noteq> [] then lit '' '' @ join_with (lit '', '') toks else [])"

lemma nice_name_token: "nice_name n \<Longrightarrow> plain_token n"
  by (auto simp: nice_name_def plain_token_def plain_char_def list_all_iff)

lemma name_solid: "nice_name n \<Longrightarrow> \<forall>c \<in> set n. \<not> is_whitespace c"
  using nice_name_token plain_char_facts by (auto simp: plain_token_def list_all_iff)

lemma join_nonempty: "list_all good_token ts \<Longrightarrow> ts \<noteq> [] \<Longrightarrow> join_with (lit '', '') ts \<noteq> []"
  by (induction ts rule: induct_list012) (auto dest: good_token_nonempty)

lemma join_head: "list_all good_token ts \<Longrightarrow> ts \<noteq> [] \<Longrightarrow> \<not> is_whitespace (hd (join_with (lit '', '') ts))"
  by (induction ts rule: induct_list012) (auto simp: hd_append dest: good_token_ends good_token_nonempty)

lemma join_last: "list_all good_token ts \<Longrightarrow> ts \<noteq> [] \<Longrightarrow> last (join_with (lit '', '') ts) = last (last ts)"
proof (induction ts rule: induct_list012)
  case (3 x y xs)
  then show ?case using join_nonempty[of "y # xs"] by simp
qed auto

lemma split_instruction:
  assumes "nice_name n" "list_all good_token toks"
  shows "split_mnemonic_operands (n @ operand_part toks) = n # toks"
proof -
  note solid = name_solid[OF assms(1)]
  have n: "n \<noteq> []" using assms(1) by (simp add: nice_name_def)
  show ?thesis
  proof (cases "toks = []")
    case True
    have tw: "takeWhile (\<lambda>c. \<not> is_whitespace c) n = n" "dropWhile (\<lambda>c. \<not> is_whitespace c) n = []"
      using solid by (auto simp: takeWhile_eq_all_conv dropWhile_eq_Nil_conv)
    show ?thesis
      unfolding split_mnemonic_operands_def Let_def operand_part_def True append_Nil2 if_False simp_thms tw
      using n by (simp add: trim_def trim_start_def)
  next
    case False
    let ?j = "join_with (lit '', '') toks"
    have w: "is_whitespace 0x20" by (simp add: is_whitespace_def)
    have tw: "takeWhile (\<lambda>c. \<not> is_whitespace c) (n @ 0x20 # ?j) = n" "dropWhile (\<lambda>c. \<not> is_whitespace c) (n @ 0x20 # ?j) = 0x20 # ?j"
      using solid w by (simp_all add: takeWhile_append2 dropWhile_append2)
    obtain c cs where j: "?j = c # cs" using join_nonempty[OF assms(2) False] by (cases ?j) auto
    then have dw: "dropWhile is_whitespace (0x20 # ?j) = ?j" using w join_head[OF assms(2) False] by simp
    have part: "operand_part toks = 0x20 # ?j" using False by (simp add: operand_part_def lit_def)
    show ?thesis
      unfolding split_mnemonic_operands_def Let_def part tw dw
      using n split_tokens[OF assms(2), of "[]"] False by simp
  qed
qed

section \<open>Instruction lines\<close>

text \<open>The line of an instruction: offset, mnemonic, operands.\<close>

definition code_line :: "nat \<Rightarrow> rust_string \<Rightarrow> rust_string list \<Rightarrow> rust_string" where
  "code_line off n toks = hex4 off @ lit ''  '' @ n @ operand_part toks"

lemma hex_lower_facts: "c \<in> set hex_digits_lower \<Longrightarrow> is_ascii_hexdigit (of_char c) \<and> \<not> is_whitespace (of_char c)
    \<and> (0x30 \<le> (of_char c :: nat) \<and> (of_char c :: nat) \<le> 0x39 \<or> 0x61 \<le> (of_char c :: nat) \<and> (of_char c :: nat) \<le> 0x66)"
proof -
  have "list_all (\<lambda>c. is_ascii_hexdigit (of_char c) \<and> \<not> is_whitespace (of_char c)
      \<and> (0x30 \<le> (of_char c :: nat) \<and> (of_char c :: nat) \<le> 0x39 \<or> 0x61 \<le> (of_char c :: nat) \<and> (of_char c :: nat) \<le> 0x66)) hex_digits_lower"
    by (simp add: hex_digits_lower_def is_ascii_hexdigit_def hex_value_def is_ascii_digit_def is_whitespace_def)
  then show "c \<in> set hex_digits_lower \<Longrightarrow> ?thesis" by (simp add: list_all_iff)
qed

lemma hex_text_lower: "set (hex_text hex_digits_lower n) \<subseteq> set hex_digits_lower"
proof (induction n rule: less_induct)
  case (less n)
  have "hex_digits_lower ! (n mod 16) \<in> set hex_digits_lower" by (rule nth_mem) (simp add: hex_digits_lower_def)
  moreover have "n < 16 \<Longrightarrow> hex_digits_lower ! n \<in> set hex_digits_lower" by (rule nth_mem) (simp add: hex_digits_lower_def)
  ultimately show ?case using less[of "n div 16"] by (auto simp: hex_text.simps[of _ n])
qed

lemma hex4_facts:
  "\<forall>c \<in> set (hex4 n). is_ascii_hexdigit c \<and> \<not> is_whitespace c \<and> (0x30 \<le> c \<and> c \<le> 0x39 \<or> 0x61 \<le> c \<and> c \<le> 0x66)"
  "4 \<le> length (hex4 n)"
proof -
  have "set (hex_padded 4 hex_digits_lower n) \<subseteq> set hex_digits_lower"
    using hex_text_lower[of n] by (auto simp: hex_padded_def pad_zeros_def digit_char_def hex_digits_lower_def)
  then show "\<forall>c \<in> set (hex4 n). is_ascii_hexdigit c \<and> \<not> is_whitespace c \<and> (0x30 \<le> c \<and> c \<le> 0x39 \<or> 0x61 \<le> c \<and> c \<le> 0x66)"
    using hex_lower_facts by (fastforce simp: hex4_def lit_def)
  show "4 \<le> length (hex4 n)" by (simp add: hex4_def lit_def hex_padded_def pad_zeros_def)
qed

lemma hex4_head: obtains a b cs where "hex4 n = a # b # cs" "0x30 \<le> a" "a \<noteq> 0x3B" "a \<noteq> 0x46" "a \<noteq> 0x2E"
    "b \<noteq> 0x75" "b \<noteq> 0x78" "b \<noteq> 0x58" "\<not> is_whitespace a"
proof -
  obtain a b cs where "hex4 n = a # b # cs" using hex4_facts(2)[of n] by (cases "hex4 n"; cases "tl (hex4 n)") auto
  moreover from this hex4_facts(1)[of n] have "0x30 \<le> a" "a \<noteq> 0x3B" "a \<noteq> 0x46" "a \<noteq> 0x2E"
    "b \<noteq> 0x75" "b \<noteq> 0x78" "b \<noteq> 0x58" "\<not> is_whitespace a" by auto
  ultimately show thesis by (rule that)
qed

lemma operand_part_last: "list_all good_token toks \<Longrightarrow> toks \<noteq> [] \<Longrightarrow> last (operand_part toks) = last (last toks) \<and> operand_part toks \<noteq> []"
  using join_last join_nonempty by (simp add: operand_part_def lit_def)

lemma code_line_last:
  assumes "nice_name n" "list_all good_token toks"
  shows "\<not> is_whitespace (last (code_line off n toks)) \<and> last (code_line off n toks) \<noteq> 0x3A \<and> code_line off n toks \<noteq> []"
proof (cases "toks = []")
  case True
  have "n \<noteq> []" "plain_char (last n)" using nice_name_token[OF assms(1)] by (auto simp: plain_token_def list_all_iff)
  with True plain_char_facts[of "last n"] show ?thesis by (simp add: code_line_def operand_part_def)
next
  case False
  then have "good_token (last toks)" using assms(2) by (simp add: list_all_iff)
  with operand_part_last[OF assms(2) False] good_token_ends[of "last toks"] show ?thesis by (simp add: code_line_def)
qed

lemma code_line_comment:
  assumes "nice_name n" "list_all good_token toks"
  shows "strip_comment (code_line off n toks) = code_line off n toks"
proof -
  have n: "\<forall>c \<in> set n. c \<noteq> 0x22 \<and> c \<noteq> 0x2F \<and> c \<noteq> 0x5C"
    using nice_name_token[OF assms(1)] plain_char_facts by (auto simp: plain_token_def list_all_iff)
  have h: "\<forall>c \<in> set (hex4 off). c \<noteq> 0x22 \<and> c \<noteq> 0x2F \<and> c \<noteq> 0x5C" using hex4_facts(1)[of off] by auto
  let ?pre = "hex4 off @ lit ''  '' @ n"
  have pre: "\<forall>c \<in> set ?pre. c \<noteq> 0x22 \<and> (False \<or> c \<noteq> 0x2F)" using n h by (auto simp: lit_def)
  show ?thesis
  proof (cases "toks = []")
    case True
    then show ?thesis using strip_comment_run[where p = 0 and rest = "[]", OF pre] by (simp add: strip_comment_def code_line_def operand_part_def)
  next
    case False
    have "strip_comment (?pre @ lit '' '' @ join_with (lit '', '') toks) =
        (?pre @ lit '' '') @ strip_comment_from 0x20 False (join_with (lit '', '') toks)"
      using strip_comment_run[where s = "?pre @ lit '' ''" and q = False and p = 0
          and rest = "join_with (lit '', '') toks"] pre by (simp add: strip_comment_def lit_def)
    then show ?thesis using strip_comment_tokens[where p = "0x20", OF assms(2)] False by (simp add: code_line_def operand_part_def)
  qed
qed

lemma code_line_offset:
  assumes "nice_name n" and "known (hex4 off) = None"
  shows "strip_offset_prefix (code_line off n toks) known = Some (n @ operand_part toks)"
proof -
  obtain a b cs where h: "hex4 off = a # b # cs" "b \<noteq> 0x78" "b \<noteq> 0x58" "\<not> is_whitespace a" by (rule hex4_head)
  let ?l = "code_line off n toks"
  have ts: "trim_start ?l = ?l" using h by (simp add: trim_start_def code_line_def)
  have no0x: "strip_prefix (lit ''0x'') ?l = None" "strip_prefix (lit ''0X'') ?l = None"
    using h by (simp_all add: strip_prefix_def code_line_def lit_def)
  have hx: "\<forall>c \<in> set (hex4 off). is_ascii_hexdigit c" using hex4_facts(1)[of off] by blast
  have "\<not> is_ascii_hexdigit 0x20" by (simp add: is_ascii_hexdigit_def hex_value_def is_ascii_digit_def)
  then have run: "hex_run ?l = (hex4 off, lit ''  '' @ n @ operand_part toks)"
    using hx unfolding hex_run_def no0x option.case Let_def unfolding code_line_def
    by (simp add: takeWhile_append2 dropWhile_append2 lit_def)
  obtain c ns where n: "n = c # ns" "0x41 \<le> c" "c \<le> 0x5A" using assms(1) by (cases n) (auto simp: nice_name_def)
  have c: "\<not> is_whitespace c" "is_ascii_alphabetic c" using n by (auto simp: is_whitespace_def is_ascii_alphabetic_def)
  have r: "trim_start (lit ''  '' @ n @ operand_part toks) = n @ operand_part toks"
    using c n by (simp add: trim_start_def lit_def is_whitespace_def[of 32])
  have "hex4 off \<noteq> []" "lit ''  '' @ n @ operand_part toks \<noteq> []" "is_whitespace (hd (lit ''  '' @ n @ operand_part toks))"
    "n @ operand_part toks \<noteq> []" "is_ascii_alphabetic (hd (n @ operand_part toks))"
    using h c n by (simp_all add: lit_def is_whitespace_def[of 32])
  then show ?thesis unfolding strip_offset_prefix_def ts run prod.case Let_def r using assms(2) by simp
qed

lemma read_code_line:
  assumes "nice_name n" "list_all good_token toks" "known (hex4 off) = None"
  shows "read_line known (code_line off n toks) = CodeLine n toks"
proof -
  let ?l = "code_line off n toks"
  obtain a b cs where h: "hex4 off = a # b # cs" "0x30 \<le> a" "a \<noteq> 0x3B" "a \<noteq> 0x46" "a \<noteq> 0x2E" "b \<noteq> 0x75" "\<not> is_whitespace a"
    by (rule hex4_head)
  note last = code_line_last[OF assms(1,2), of off]
  have "hd ?l = a" using h by (simp add: code_line_def)
  then have trim: "trim ?l = ?l" using trim_solid[of ?l "[]"] last h by simp
  have "strip_prefix (lit ''.handler'') ?l = None" using h by (simp add: strip_prefix_def code_line_def lit_def)
  moreover have "\<not> starts_with (lit ''function '') ?l" "\<not> starts_with (lit ''; '') ?l" "\<not> starts_with (lit ''Function'') ?l"
    using h by (auto simp: starts_with_def code_line_def lit_def)
  moreover have "strip_last 0x3A ?l = None" using last by (simp add: strip_last_def)
  ultimately show ?thesis
    unfolding read_line_def code_line_comment[OF assms(1,2)] trim Let_def
    using last code_line_offset[where known = known, OF assms(1,3)] split_instruction[OF assms(1,2)] by simp
qed

section \<open>Labels and handlers\<close>

lemma dec_digits: "list_all is_ascii_digit (dec n)"
  using all_digits_dec by (simp add: all_digits_def)

lemma dec_chars: "c \<in> set (dec n) \<Longrightarrow> c \<noteq> 0x22 \<and> c \<noteq> 0x2F \<and> c \<noteq> 0x2C \<and> c \<noteq> 0x0A \<and> c \<noteq> 0x0D \<and> \<not> is_whitespace c"
  using dec_digits[of n] by (auto simp: list_all_iff is_ascii_digit_def is_whitespace_def)

lemma comment_free: "\<forall>c \<in> set s. c \<noteq> 0x22 \<and> c \<noteq> 0x2F \<Longrightarrow> strip_comment s = s"
  using strip_comment_run[where q = False and s = s and p = 0 and rest = "[]"] by (simp add: strip_comment_def)

definition label_name :: "u32 \<Rightarrow> rust_string" where
  "label_name off = lit ''L'' @ dec (unat off)"

lemma label_line_eq: "label_line off = label_name off @ [0x3A]"
  by (simp add: label_line_def label_name_def lit_def)

lemma label_is_label: "is_label (label_name off)"
  using dec_digits[of "unat off"] by (simp add: is_label_def label_name_def lit_def)

lemma read_label_line: "read_line known (label_line off) = LabelLine (label_name off)"
proof -
  let ?l = "label_line off"
  have l: "?l = 0x4C # dec (unat off) @ [0x3A]" by (simp add: label_line_def lit_def)
  have c: "strip_comment ?l = ?l" by (rule comment_free) (use dec_chars in \<open>auto simp: l\<close>)
  have t: "trim ?l = ?l" using trim_solid[of ?l "[]"] by (simp add: l is_whitespace_def)
  have "strip_last 0x3A ?l = Some (label_name off)" by (simp add: strip_last_def label_line_eq)
  then show ?thesis
    unfolding read_line_def c t Let_def
    using label_is_label[of off] by (simp add: l strip_prefix_def starts_with_def lit_def)
qed

lemma split_on_none: "d \<notin> set s \<Longrightarrow> split_on d s = [s]"
  by (induction s) auto

lemma split_on_piece: "d \<notin> set s \<Longrightarrow> split_on d (s @ d # rest) = s # split_on d rest"
  by (induction s) auto

lemma trim_label: "list_all is_whitespace pre \<Longrightarrow> trim (pre @ label_name off) = label_name off"
proof (rule trim_solid)
  have "\<not> is_whitespace (last (dec (unat off)))" using dec_chars[of "last (dec (unat off))" "unat off"] last_in_set[of "dec (unat off)"] by simp
  then show "\<not> is_whitespace (last (label_name off))" by (simp add: label_name_def)
  show "\<not> is_whitespace (hd (label_name off))" by (simp add: label_name_def lit_def is_whitespace_def)
qed (simp_all add: label_name_def)

definition handler_text :: "exception_handler \<Rightarrow> rust_string" where
  "handler_text h = lit ''.handler '' @ label_name (eh_start h) @ lit '', '' @ label_name (eh_end h)
     @ lit '', '' @ label_name (eh_target h)"

lemma handler_line_eq: "handler_line h = handler_text h @ [0x0A]"
  by (simp add: handler_line_def handler_text_def label_name_def lit_def)

lemma label_chars: "c \<in> set (label_name off) \<Longrightarrow> c \<noteq> 0x22 \<and> c \<noteq> 0x2F \<and> c \<noteq> 0x2C \<and> c \<noteq> 0x0A \<and> c \<noteq> 0x0D \<and> \<not> is_whitespace c"
  using dec_chars[of c] by (auto simp: label_name_def lit_def is_whitespace_def)

lemma read_handler_line:
  "read_line known (handler_text h) = HandlerLine [label_name (eh_start h), label_name (eh_end h), label_name (eh_target h)]"
proof -
  let ?l = "handler_text h"
  have c: "strip_comment ?l = ?l" by (rule comment_free) (auto simp: handler_text_def lit_def dest: label_chars)
  have "last ?l = last (label_name (eh_target h))" "hd ?l = 0x2E" "?l \<noteq> []" by (simp_all add: handler_text_def lit_def label_name_def)
  moreover have "\<not> is_whitespace (last (label_name (eh_target h)))"
    using label_chars[of "last (label_name (eh_target h))" "eh_target h"] last_in_set[of "label_name (eh_target h)"]
    by (simp add: label_name_def)
  ultimately have t: "trim ?l = ?l" using trim_solid[of ?l "[]"] by (simp add: is_whitespace_def)
  let ?spec = "lit '' '' @ label_name (eh_start h) @ lit '', '' @ label_name (eh_end h) @ lit '', '' @ label_name (eh_target h)"
  have p: "strip_prefix (lit ''.handler'') ?l = Some ?spec" by (simp add: handler_text_def strip_prefix_def lit_def)
  have nc: "0x2C \<notin> set (0x20 # label_name x)" for x using label_chars by fastforce
  have "split_on 0x2C ?spec = [0x20 # label_name (eh_start h), 0x20 # label_name (eh_end h), 0x20 # label_name (eh_target h)]"
    using split_on_piece[OF nc[of "eh_start h"], of "0x20 # label_name (eh_end h) @ 0x2C # 0x20 # label_name (eh_target h)"]
      split_on_piece[OF nc[of "eh_end h"], of "0x20 # label_name (eh_target h)"] split_on_none[OF nc[of "eh_target h"]]
    by (simp add: lit_def)
  moreover have "trim (0x20 # label_name x) = label_name x" for x using trim_label[of "[0x20]" x] by (simp add: is_whitespace_def)
  ultimately have parts: "map trim (split_on 0x2C ?spec) = [label_name (eh_start h), label_name (eh_end h), label_name (eh_target h)]" by simp
  have ne: "label_name x \<noteq> [] \<and> [] \<noteq> label_name x" for x by (simp add: label_name_def)
  show ?thesis
    unfolding read_line_def c t Let_def p option.case parts using \<open>?l \<noteq> []\<close> ne by simp
qed

end
