(* ===== verification/Hasm_Roundtrip.thy ===== *)
theory Hasm_Roundtrip
  imports Hasm_Lines
begin

text \<open>
  Printing and parsing again is the identity: the text the emitter writes for a function is
  parsed to the instructions and the handlers of the function, and assembling it leaves the
  image as it is.
\<close>

section \<open>Operands\<close>

text \<open>What the round trip asks of the table of names and of an operand: jump targets are not
  negative, a printed string is one the literals carry and the first of its value in the table,
  a double has a text that is read back.\<close>

definition named :: "bytecode_format \<Rightarrow> bool" where
  "named format \<longleftrightarrow>
     (\<forall>i < length (definitions format). def_name (definitions format ! i) \<noteq> ''<invalid>'' \<longrightarrow>
        nice_name (lit (def_name (definitions format ! i))) \<and> def_opcode (definitions format ! i) = of_nat i
        \<and> (\<forall>j < i. def_name (definitions format ! j) \<noteq> def_name (definitions format ! i)))"

definition printable ::
  "bytecode_file \<Rightarrow> (f64_bits \<Rightarrow> rust_string) \<Rightarrow> (rust_string \<Rightarrow> f64_bits option) \<Rightarrow> u32 \<Rightarrow> operand \<Rightarrow> bool" where
  "printable file show_f64 parse_f64 off operand \<longleftrightarrow>
     (op_ty operand \<in> {Addr8, Addr32} \<longrightarrow> (\<forall>rel. as_i32 (op_value operand) = Some rel \<longrightarrow> 0 \<le> sint (off + rel)))
     \<and> (op_ty operand \<in> {UInt8S, UInt16S, UInt32S} \<longrightarrow>
          (\<forall>sid entry. as_u32 (op_value operand) = Some sid \<and> string_at file sid = Some entry \<longrightarrow>
             plain_text (st_value entry) \<and> string_lookup_of file (st_value entry) = Some sid))
     \<and> (\<forall>v. op_value operand = F64 v \<longrightarrow>
          plain_token (format_operand_value show_f64 (F64 v))
          \<and> parse_f64 (format_operand_value show_f64 (F64 v)) = Some v)"

abbreviation operand_token :: "(f64_bits \<Rightarrow> rust_string) \<Rightarrow> bytecode_file \<Rightarrow> instruction \<Rightarrow> operand \<Rightarrow> rust_string" where
  "operand_token show_f64 file insn operand \<equiv> format_operand (\<lambda>_ s. s) show_f64 insn operand file disasm_default"

lemma plain_dec: "plain_token (dec n)"
  using dec_digits[of n] by (auto simp: plain_token_def plain_char_def list_all_iff)

lemma plain_cons: "plain_char c \<Longrightarrow> plain_token t \<Longrightarrow> plain_token (c # t)"
  by (simp add: plain_token_def)

lemma plain_dec_int: "plain_token (dec_int k)"
proof (cases "k < 0")
  case True
  then have "dec_int k = 0x2D # dec (nat (- k))" by (simp add: dec_int_def int_text_def lit_def dec_def)
  then show ?thesis using plain_cons[OF _ plain_dec] by (simp add: plain_char_def)
next
  case False
  then have "dec_int k = dec (nat k)" by (simp add: dec_int_def int_text_def dec_def)
  then show ?thesis by (simp add: plain_dec)
qed

lemma trim_good: "good_token t \<Longrightarrow> trim t = t"
  using trim_token[of t "[]"] by simp

lemma unescape_char:
  assumes "c \<in> {0x09, 0x0A, 0x0D} \<or> 0x20 \<le> c \<and> c < 0x7F \<and> c \<noteq> 0x22"
  shows "unescape (escape_char c @ rest) = c # unescape rest"
proof -
  consider "c = 0x09" | "c = 0x0A" | "c = 0x0D" | "c = 0x5C" | "0x20 \<le> c" "c < 0x7F" "c \<noteq> 0x22" "c \<noteq> 0x5C"
    using assms by auto
  then show ?thesis
  proof cases
    case 5
    then have "escape_char c = [c]" by (simp add: escape_char_def is_control_def)
    with 5 show ?thesis by (cases rest) simp_all
  qed (simp_all add: escape_char_def lit_def)
qed

lemma unescape_plain: "list_all (\<lambda>c. c \<in> {0x09, 0x0A, 0x0D} \<or> 0x20 \<le> c \<and> c < 0x7F \<and> c \<noteq> 0x22) s
    \<Longrightarrow> unescape (escape_js_string_bare s) = s"
proof (induction s)
  case (Cons c s)
  then have "unescape (escape_char c @ escape_js_string_bare s) = c # unescape (escape_js_string_bare s)"
    by (intro unescape_char) simp
  with Cons show ?case by (simp add: escape_js_string_bare_def)
qed (simp add: escape_js_string_bare_def)

lemma unquote_literal: "plain_text s \<Longrightarrow> unquote (escape_js_string s) = Inr s"
proof -
  assume s: "plain_text s"
  then have "trim (escape_js_string s) = escape_js_string s" by (intro trim_good) (auto simp: good_token_def)
  with s show ?thesis
    by (simp add: unquote_def Let_def escape_js_string_def unescape_plain plain_text_def)
qed

text \<open>Labels name their offset wherever the map of the parser has them.\<close>

definition true_labels :: "(rust_string \<Rightarrow> u32 option) \<Rightarrow> bool" where
  "true_labels labels \<longleftrightarrow> (\<forall>t off. labels t = Some off \<longrightarrow> t = label_name off)"

lemma label_name_inj: "label_name a = label_name b \<longleftrightarrow> a = b"
proof
  assume "label_name a = label_name b"
  then have "dec (unat a) = dec (unat b)" by (simp add: label_name_def lit_def)
  then have "digits_value 10 0 (dec (unat a)) = digits_value 10 0 (dec (unat b))" by simp
  then have "unat a = unat b" unfolding digits_value_dec by simp
  then show "a = b" by (simp add: word_unat_eq_iff)
qed simp

lemma narrow_u8: "ucast (ucast (v :: u8) :: u32) = v" and narrow_u16: "ucast (ucast (w :: u16) :: u32) = w"
  by (rule bit_word_eqI, auto simp: bit_simps)+

lemma dec_not_hex: "hex_body (dec n) = None"
proof -
  have "\<forall>c \<in> set (dec n). c \<noteq> 0x78 \<and> c \<noteq> 0x58"
    using dec_digits[of n] by (auto simp: list_all_iff is_ascii_digit_def)
  then show ?thesis by (cases "dec n"; cases "tl (dec n)") (auto simp: hex_body_def strip_prefix_def lit_def)
qed

lemma parse_uint_dec: "n < 2 ^ 32 \<Longrightarrow> parse_uint (dec n) ty = Inr (narrow_uint ty (of_nat n))"
  by (simp add: parse_uint_def dec_not_hex parse_u32_dec)

lemma dec_not_quote: "\<not> starts_with [0x22] (dec n)"
  using digits_head[OF all_digits_dec[of n]]
  by (cases "dec n") (auto simp: starts_with_def is_ascii_digit_def)

lemma u8_u32: "unat (v :: u8) < 2 ^ 32"
proof -
  have "unat v < 2 ^ LENGTH(8)" by (rule unsigned_less)
  then show ?thesis by simp
qed

lemma u16_u32: "unat (v :: u16) < 2 ^ 32"
proof -
  have "unat v < 2 ^ LENGTH(16)" by (rule unsigned_less)
  then show ?thesis by simp
qed

lemma widened: "unat (ucast (v :: u8) :: u32) = unat v" "unat (ucast (w :: u16) :: u32) = unat w"
  using u8_u32[of v] u16_u32[of w] by (simp_all add: unsigned_ucast_eq take_bit_nat_eq_self)

lemma of_nat_unat_ucast: "(of_nat (unat (v :: 'a::len word)) :: u32) = ucast v"
  by simp

lemma address_text_parsed:
  assumes "true_labels labels" and "0 \<le> sint (off + rel :: u32)"
  shows "parse_address (lit ''L'' @ dec_int (sint (off + rel))) ty off labels =
     (if ty = Addr8
      then (if sint rel < - 128 \<or> 127 < sint rel then Inl (Write ''Addr8 out of range: {rel}'' [FNum (sint rel)]) else Inr (I8 (ucast rel)))
      else Inr (I32 rel))"
proof -
  let ?t = "off + rel"
  have "dec_int (sint ?t) = dec (nat (sint ?t))" using assms(2) by (simp add: dec_int_def int_text_def dec_def)
  moreover have "nat (sint ?t) = unat ?t"
  proof -
    have "sint ?t < 2 ^ 31" using sint_range_size[of ?t] by (simp add: word_size)
    then have "take_bit 32 (sint ?t) = sint ?t" using assms(2) by (intro take_bit_int_eq_self) simp_all
    then have "uint ?t = sint ?t" using uint_sint[of ?t] by simp
    then show ?thesis by (metis nat_int uint_nat)
  qed
  ultimately have printed: "lit ''L'' @ dec_int (sint ?t) = label_name ?t" by (simp add: label_name_def)
  have target: "(case labels (label_name ?t) of Some addr \<Rightarrow> Inr addr
       | None \<Rightarrow>
           (case Option.bind (strip_prefix (lit ''L'') (label_name ?t)) parse_u32 of
              Some addr \<Rightarrow> Inr addr
            | None \<Rightarrow> if starts_with (lit ''L'') (label_name ?t) then Inl (Write ''unknown label {tok}'' [FText (label_name ?t)])
                      else Inl (Write ''bad address operand {tok}'' [FText (label_name ?t)]))) = (Inr ?t :: u32 result)"
  proof (cases "labels (label_name ?t)")
    case None
    have "strip_prefix (lit ''L'') (label_name ?t) = Some (dec (unat ?t))" by (simp add: strip_prefix_def label_name_def lit_def)
    then show ?thesis using None parse_u32_dec[of "unat ?t"] unat_u32[of ?t] by simp
  next
    case (Some a)
    then have "label_name ?t = label_name a" using assms(1) unfolding true_labels_def by blast
    then have "a = ?t" by (simp add: label_name_inj)
    with Some show ?thesis by simp
  qed
  show ?thesis unfolding parse_address_def printed target by (simp add: Let_def)
qed

lemma plain_label_name: "plain_token (label_name off)"
  using plain_cons[OF _ plain_dec, of "0x4C"] by (simp add: label_name_def lit_def plain_char_def is_ascii_alphabetic_def)

lemma plain_address: "plain_token (lit ''L'' @ dec_int k)"
  using plain_cons[OF _ plain_dec_int, of "0x4C"] by (simp add: lit_def plain_char_def is_ascii_alphabetic_def)

lemma plain_register: "plain_token (lit ''r'' @ dec n)"
  using plain_cons[OF _ plain_dec, of "0x72"] by (simp add: lit_def plain_char_def is_ascii_alphabetic_def)

lemma plain_good: "plain_token t \<Longrightarrow> good_token t"
  by (simp add: good_token_def)

lemma register_parsed: "n < 2 ^ 32 \<Longrightarrow> parse_register (lit ''r'' @ dec n) ty = Inr (if ty = Reg8 then U8 (ucast (of_nat n :: u32)) else U32 (of_nat n))"
  by (simp add: parse_register_def strip_prefix_def lit_def parse_u32_dec)

lemma i8_address: "\<not> (sint (scast (v :: i8) :: i32) < - 128 \<or> 127 < sint (scast v :: i32)) \<and> ucast (scast v :: i32) = v"
proof -
  have "- (2 ^ 31) \<le> sint v" "sint v < 2 ^ 31" using sint_range_size[of v] by (simp_all add: word_size)
  then have "signed_take_bit 31 (sint v) = sint v" by (rule signed_take_bit_int_eq_self)
  then have "sint (scast v :: i32) = sint v" by (simp only: scast_eq signed_of_int) simp
  moreover have "(ucast (scast v :: i32) :: i8) = v" by (rule bit_word_eqI) (simp add: bit_simps)
  ultimately show ?thesis using sint_range_size[of v] by (simp add: word_size)
qed

lemma string_operand_parsed:
  fixes sid :: u32
  assumes "\<And>entry. string_at file sid = Some entry \<Longrightarrow> plain_text (st_value entry) \<and> string_lookup_of file (st_value entry) = Some sid"
    and "ty \<in> {UInt8S, UInt16S, UInt32S}"
  defines "t \<equiv> (case map_option (\<lambda>entry. escape_js_string (st_value entry)) (string_at file sid) of Some q \<Rightarrow> q | None \<Rightarrow> dec (unat sid))"
  shows "good_token t \<and> parse_operand_token parse_f64 t ty off labels (string_lookup_of file) = Inr (narrow_uint ty sid)"
proof (cases "string_at file sid")
  case None
  then have t: "t = dec (unat sid)" by (simp add: t_def)
  have g: "good_token t" by (simp add: t plain_good plain_dec)
  have "parse_uint t ty = Inr (narrow_uint ty sid)" using parse_uint_dec[OF unat_u32, of sid ty] by (simp add: t)
  with g assms(2) show ?thesis
    by (auto simp: parse_operand_token_def trim_good Let_def dec_not_quote t)
next
  case (Some entry)
  then have t: "t = escape_js_string (st_value entry)" by (simp add: t_def)
  from assms(1)[OF Some] have s: "plain_text (st_value entry)" "string_lookup_of file (st_value entry) = Some sid" by simp_all
  then have g: "good_token t" by (auto simp: t good_token_def)
  have q: "starts_with [0x22] t" by (simp add: t starts_with_def escape_js_string_def)
  have "unquote t = Inr (st_value entry)" unfolding t by (rule unquote_literal[OF s(1)])
  with g q s(2) assms(2) show ?thesis by (auto simp: parse_operand_token_def trim_good Let_def)
qed

lemma operand_parsed:
  assumes typed: "typed_operand operand" and pr: "printable file show_f64 parse_f64 (in_offset insn) operand"
    and labels: "true_labels labels"
  shows "good_token (operand_token show_f64 file insn operand) \<and>
    parse_operand_token parse_f64 (operand_token show_f64 file insn operand) (op_ty operand) (in_offset insn) labels
      (string_lookup_of file) = Inr (op_value operand)"
proof -
  let ?t = "operand_token show_f64 file insn operand"
  let ?ok = "\<lambda>t. good_token t \<and> parse_operand_token parse_f64 t (op_ty operand) (in_offset insn) labels
      (string_lookup_of file) = Inr (op_value operand)"
  obtain ty v where o: "operand = \<lparr>op_ty = ty, op_value = v\<rparr>" by (cases operand) simp
  from typed have v: "value_for ty v" by (simp add: o typed_operand_def)
  have uint: "?ok (dec n)" if "n < 2 ^ 32" "ty \<in> {UInt8, UInt16, UInt32}" "narrow_uint ty (of_nat n) = v" for n
    using that trim_good[OF plain_good[OF plain_dec[of n]]] parse_uint_dec[OF that(1), of ty]
    by (auto simp: parse_operand_token_def Let_def o plain_good plain_dec)
  have str: "?ok ?t" if "ty \<in> {UInt8S, UInt16S, UInt32S}" "as_u32 v = Some sid" "narrow_uint ty sid = v"
      "format_operand_value show_f64 v = dec (unat sid)" for sid
  proof -
    have "?t = (case map_option (\<lambda>entry. escape_js_string (st_value entry)) (string_at file sid) of Some q \<Rightarrow> q | None \<Rightarrow> dec (unat sid))"
      using that by (cases "string_at file sid")
        (auto simp: format_operand_def o disasm_default_def painted_def string_operand_text_def)
    moreover have "plain_text (st_value entry) \<and> string_lookup_of file (st_value entry) = Some sid"
      if "string_at file sid = Some entry" for entry
      using pr that \<open>ty \<in> _\<close> \<open>as_u32 v = Some sid\<close> by (auto simp: printable_def o)
    note k = this
    from calculation have t: "?t = (case map_option (\<lambda>entry. escape_js_string (st_value entry)) (string_at file sid) of Some q \<Rightarrow> q | None \<Rightarrow> dec (unat sid))" by simp
    show ?thesis unfolding t using string_operand_parsed[OF k that(1)] that(3) by (simp add: o)
  qed
  show ?thesis
  proof (cases ty)
    case Reg8
    with v obtain w where w: "v = U8 w" by (cases v) auto
    have "?t = lit ''r'' @ dec (unat w)" by (simp add: format_operand_def o Reg8 w painted_def disasm_default_def)
    then show ?thesis
      using trim_good[OF plain_good[OF plain_register[of "unat w"]]] register_parsed[OF u8_u32[of w], of Reg8]
      by (simp add: parse_operand_token_def Let_def o Reg8 w plain_good plain_register narrow_u8)
  next
    case Reg32
    with v obtain w where w: "v = U32 w" by (cases v) auto
    have "?t = lit ''r'' @ dec (unat w)" by (simp add: format_operand_def o Reg32 w painted_def disasm_default_def)
    then show ?thesis
      using trim_good[OF plain_good[OF plain_register[of "unat w"]]] register_parsed[OF unat_u32[of w], of Reg32]
      by (simp add: parse_operand_token_def Let_def o Reg32 w plain_good plain_register)
  next
    case Addr8
    with v obtain w where w: "v = I8 w" by (cases v) auto
    have "?t = lit ''L'' @ dec_int (sint (in_offset insn + scast w))"
      by (simp add: format_operand_def o Addr8 w painted_def disasm_default_def address_text_def)
    moreover have "0 \<le> sint (in_offset insn + scast w :: u32)" using pr by (simp add: printable_def o Addr8 w)
    ultimately show ?thesis
      using trim_good[OF plain_good[OF plain_address[of "sint (in_offset insn + scast w)"]]] i8_address[of w]
        address_text_parsed[OF labels, of "in_offset insn" "scast w" Addr8]
      by (simp add: parse_operand_token_def Let_def o Addr8 w plain_good plain_address)
  next
    case Addr32
    with v obtain w where w: "v = I32 w" by (cases v) auto
    have "?t = lit ''L'' @ dec_int (sint (in_offset insn + w))"
      by (simp add: format_operand_def o Addr32 w painted_def disasm_default_def address_text_def)
    moreover have "0 \<le> sint (in_offset insn + w)" using pr by (simp add: printable_def o Addr32 w)
    ultimately show ?thesis
      using trim_good[OF plain_good[OF plain_address[of "sint (in_offset insn + w)"]]]
        address_text_parsed[OF labels, of "in_offset insn" w Addr32]
      by (simp add: parse_operand_token_def Let_def o Addr32 w plain_good plain_address)
  next
    case Imm32
    with v obtain w where w: "v = I32 w" by (cases v) auto
    have "?t = dec_int (sint w)" by (simp add: format_operand_def o Imm32 w painted_def disasm_default_def)
    then show ?thesis
      using trim_good[OF plain_good[OF plain_dec_int[of "sint w"]]] parse_i32_dec[of w]
      by (simp add: parse_operand_token_def Let_def o Imm32 w plain_good plain_dec_int)
  next
    case Double
    with v obtain w where w: "v = F64 w" by (cases v) auto
    have t: "?t = format_operand_value show_f64 (F64 w)" by (simp add: format_operand_def o Double w painted_def disasm_default_def)
    have "plain_token ?t" "parse_f64 ?t = Some w" using pr unfolding t by (simp_all add: printable_def o w)
    then show ?thesis using trim_good[OF plain_good[of ?t]]
      by (simp add: parse_operand_token_def Let_def o[unfolded Double w] plain_good del: format_operand_value.simps)
  next
    case UInt8
    with v obtain w where w: "v = U8 w" by (cases v) auto
    have "?t = dec (unat w)" by (simp add: format_operand_def o UInt8 w painted_def disasm_default_def)
    then show ?thesis using uint[OF u8_u32[of w]] by (simp add: UInt8 w narrow_uint_def narrow_u8)
  next
    case UInt16
    with v obtain w where w: "v = U16 w" by (cases v) auto
    have "?t = dec (unat w)" by (simp add: format_operand_def o UInt16 w painted_def disasm_default_def)
    then show ?thesis using uint[OF u16_u32[of w]] by (simp add: UInt16 w narrow_uint_def narrow_u16)
  next
    case UInt32
    with v obtain w where w: "v = U32 w" by (cases v) auto
    have "?t = dec (unat w)" by (simp add: format_operand_def o UInt32 w painted_def disasm_default_def)
    then show ?thesis using uint[OF unat_u32[of w]] by (simp add: UInt32 w narrow_uint_def)
  next
    case UInt8S
    with v obtain w where w: "v = U8 w" by (cases v) auto
    then show ?thesis using str[of "ucast w"] by (simp add: UInt8S narrow_uint_def narrow_u8 widened)
  next
    case UInt16S
    with v obtain w where w: "v = U16 w" by (cases v) auto
    then show ?thesis using str[of "ucast w"] by (simp add: UInt16S narrow_uint_def narrow_u16 widened)
  next
    case UInt32S
    with v obtain w where w: "v = U32 w" by (cases v) auto
    then show ?thesis using str[of w] by (simp add: UInt32S narrow_uint_def)
  qed
qed

section \<open>Instructions\<close>

definition insn_name :: "bytecode_format \<Rightarrow> instruction \<Rightarrow> string" where
  "insn_name format insn = (case definition_at format (in_opcode insn) of Some def \<Rightarrow> def_name def | None \<Rightarrow> [])"

definition insn_tokens :: "(f64_bits \<Rightarrow> rust_string) \<Rightarrow> bytecode_file \<Rightarrow> instruction \<Rightarrow> rust_string list" where
  "insn_tokens show_f64 file insn = map (operand_token show_f64 file insn) (in_operands insn)"

definition insn_line :: "(f64_bits \<Rightarrow> rust_string) \<Rightarrow> bytecode_file \<Rightarrow> bytecode_format \<Rightarrow> instruction \<Rightarrow> rust_string" where
  "insn_line show_f64 file format insn =
     code_line (unat (in_offset insn)) (lit (insn_name format insn)) (insn_tokens show_f64 file insn)"

definition printable_line ::
  "bytecode_file \<Rightarrow> bytecode_format \<Rightarrow> (f64_bits \<Rightarrow> rust_string) \<Rightarrow> (rust_string \<Rightarrow> f64_bits option) \<Rightarrow> instruction \<Rightarrow> bool" where
  "printable_line file format show_f64 parse_f64 insn \<longleftrightarrow>
     insn_name format insn \<noteq> ''<invalid>''
     \<and> list_all (printable file show_f64 parse_f64 (in_offset insn)) (in_operands insn)"

definition printable_insn ::
  "bytecode_file \<Rightarrow> bytecode_format \<Rightarrow> (f64_bits \<Rightarrow> rust_string) \<Rightarrow> (rust_string \<Rightarrow> f64_bits option) \<Rightarrow> instruction \<Rightarrow> bool" where
  "printable_insn file format show_f64 parse_f64 insn \<longleftrightarrow>
     typed_insn format insn \<and> printable_line file format show_f64 parse_f64 insn"

lemma lit_inj: "lit a = lit b \<longleftrightarrow> a = b"
proof
  assume "lit a = lit b"
  then show "a = b" unfolding lit_def by (rule map_injective) (simp add: inj_on_def)
qed simp

lemma format_instruction_line:
  "typed_insn format insn \<Longrightarrow> format_instruction (\<lambda>_ s. s) show_f64 insn file format disasm_default = insn_line show_f64 file format insn"
  by (auto simp: typed_insn_iff format_instruction_def insn_line_def insn_name_def insn_tokens_def code_line_def
      operand_part_def painted_def disasm_default_def)

lemma insn_def:
  assumes "printable_insn file format show_f64 parse_f64 insn" and "named format"
  obtains def where "definition_at format (in_opcode insn) = Some def" "insn_name format insn = def_name def"
    "def = definitions format ! unat (in_opcode insn)" "nice_name (lit (insn_name format insn))"
    "name_to_op format (lit (insn_name format insn)) = Some (in_opcode insn)"
    "map op_ty (in_operands insn) = operand_types def" "list_all typed_operand (in_operands insn)"
proof -
  from assms(1) obtain def where d: "definition_at format (in_opcode insn) = Some def"
    "map op_ty (in_operands insn) = operand_types def" "list_all typed_operand (in_operands insn)"
    unfolding printable_insn_def typed_insn_iff by blast
  let ?i = "unat (in_opcode insn)" and ?ds = "definitions format"
  from d(1) have i: "?i < length ?ds" "def = ?ds ! ?i" by (auto simp: definition_at_def split: if_splits)
  have n: "insn_name format insn = def_name def" by (simp add: insn_name_def d(1))
  with assms(1) have v: "def_name (?ds ! ?i) \<noteq> ''<invalid>''" by (simp add: printable_insn_def printable_line_def i(2))
  with assms(2) i(1) have nn: "nice_name (lit (def_name (?ds ! ?i)))" "def_opcode (?ds ! ?i) = of_nat ?i"
    "\<forall>j < ?i. def_name (?ds ! j) \<noteq> def_name (?ds ! ?i)" by (simp_all add: named_def)
  have "find (\<lambda>d. def_name d \<noteq> ''<invalid>'' \<and> lit (def_name d) = lit (def_name def)) ?ds = Some (?ds ! ?i)"
    unfolding find_Some_iff using i v nn(3) by (auto simp: lit_inj intro!: exI[of _ ?i])
  then have "name_to_op format (lit (def_name def)) = Some (in_opcode insn)" using nn(2) by (simp add: name_to_op_def)
  with d i n nn show thesis by (intro that) simp_all
qed

lemma hex4_no_name: "named format \<Longrightarrow> name_to_op format (hex4 off) = None"
proof -
  assume n: "named format"
  have "lit (def_name d) \<noteq> hex4 off" if "d \<in> set (definitions format)" "def_name d \<noteq> ''<invalid>''" for d
  proof
    assume e: "lit (def_name d) = hex4 off"
    from that n have "nice_name (lit (def_name d))" by (auto simp: named_def in_set_conv_nth)
    with e have "0x41 \<le> hd (hex4 off)" "hd (hex4 off) \<le> 0x5A" by (simp_all add: nice_name_def)
    moreover have "hd (hex4 off) \<in> set (hex4 off)" using hex4_facts(2)[of off] by (cases "hex4 off") auto
    ultimately show False using hex4_facts(1)[of off] by auto
  qed
  then show ?thesis by (auto simp: name_to_op_def find_None_iff)
qed

lemma operand_length: "typed_operand o' \<Longrightarrow> length (operand_bytes (op_ty o') (op_value o')) = operand_size (op_ty o')"
proof -
  obtain ty v where o: "o' = \<lparr>op_ty = ty, op_value = v\<rparr>" by (cases o') simp
  assume "typed_operand o'"
  then have "value_for ty v" by (simp add: o typed_operand_def)
  then show ?thesis by (cases ty; cases v) (simp_all add: o operand_bytes_def as_byte_def as_half_def as_word_def as_addr8_def as_imm32_def as_double_def)
qed

lemma typed_length: "list_all typed_operand (in_operands insn) \<Longrightarrow>
    of_nat (length (insn_bytes insn)) = insn_length (map op_ty (in_operands insn))"
proof -
  have "list_all typed_operand os \<Longrightarrow> length (operands_bytes os) = sum_list (map operand_size (map op_ty os))" for os
    by (induction os) (simp_all add: operands_bytes_def operand_length del: operand_size.simps)
  then show "list_all typed_operand (in_operands insn) \<Longrightarrow> ?thesis" by (simp add: insn_bytes_def insn_length_def del: operand_size.simps)
qed

lemma tokens_parsed:
  assumes "list_all typed_operand os" "list_all (printable file show_f64 parse_f64 (in_offset insn)) os" "true_labels labels"
  shows "list_all good_token (map (operand_token show_f64 file insn) os) \<and>
    res_map (\<lambda>(tok, ty). res_bind (parse_operand_token parse_f64 tok ty (in_offset insn) labels (string_lookup_of file)) (\<lambda>v.
        Inr \<lparr>op_ty = ty, op_value = v\<rparr>)) (zip (map (operand_token show_f64 file insn) os) (map op_ty os)) = Inr os"
  using assms(1,2)
proof (induction os)
  case (Cons o' os)
  then show ?case using operand_parsed[OF _ _ assms(3), of o' "file" show_f64 parse_f64 insn] by simp
qed simp

section \<open>The emitted text\<close>

definition unlines :: "rust_string list \<Rightarrow> rust_string" where
  "unlines ls = concat (map (\<lambda>l. l @ [0x0A]) ls)"

definition whole_line :: "rust_string \<Rightarrow> bool" where
  "whole_line l \<longleftrightarrow> 0x0A \<notin> set l \<and> (l \<noteq> [] \<longrightarrow> last l \<noteq> 0x0D)"

lemma unlines_append [simp]: "unlines (a @ b) = unlines a @ unlines b"
  by (simp add: unlines_def)

lemma str_lines_run: "0x0A \<notin> set l \<Longrightarrow> str_lines_from cur (l @ rest) = str_lines_from (cur @ l) rest"
  by (induction l arbitrary: cur) auto

lemma str_lines_unlines: "list_all whole_line ls \<Longrightarrow> str_lines (unlines ls) = ls"
proof (induction ls)
  case Nil
  then show ?case by (simp add: unlines_def str_lines_def)
next
  case (Cons l ls)
  then have l: "0x0A \<notin> set l" "l \<noteq> [] \<longrightarrow> last l \<noteq> 0x0D" by (simp_all add: whole_line_def)
  have "str_lines (unlines (l # ls)) = l # str_lines (unlines ls)"
    using str_lines_run[OF l(1), of "[]" "0x0A # unlines ls"] l(2) by (auto simp: str_lines_def unlines_def)
  with Cons show ?case by simp
qed

lemma solid_line: "\<forall>c \<in> set l. c \<noteq> 0x0A \<and> c \<noteq> 0x0D \<Longrightarrow> whole_line l"
  using last_in_set[of l] by (fastforce simp: whole_line_def)

lemma whole_label: "whole_line (label_line off)"
  by (rule solid_line) (auto simp: label_line_eq dest: label_chars)

lemma whole_handler: "whole_line (handler_text h)"
  by (rule solid_line) (auto simp: handler_text_def lit_def dest: label_chars)

lemma good_token_chars: "good_token t \<Longrightarrow> c \<in> set t \<Longrightarrow> c \<noteq> 0x0A \<and> c \<noteq> 0x0D"
  using escape_plain_chars(1) plain_char_facts[of c]
  by (fastforce simp: good_token_def plain_token_def list_all_iff escape_js_string_def)

lemma join_chars: "c \<in> set (join_with sep ts) \<Longrightarrow> c \<in> set sep \<or> (\<exists>t \<in> set ts. c \<in> set t)"
  by (induction ts rule: induct_list012) auto

lemma whole_code:
  assumes "nice_name n" "list_all good_token toks"
  shows "whole_line (code_line off n toks)"
proof (rule solid_line, rule ballI)
  fix c assume "c \<in> set (code_line off n toks)"
  then consider "c \<in> set (hex4 off)" | "c = 0x20" | "c = 0x2C" | "c \<in> set n" | t where "t \<in> set toks" "c \<in> set t"
    by (auto simp: code_line_def operand_part_def lit_def dest!: join_chars split: if_splits)
  then show "c \<noteq> 0x0A \<and> c \<noteq> 0x0D"
  proof cases
    case 1 then show ?thesis using hex4_facts(1)[of off] by auto
  next
    case 4 then show ?thesis using nice_name_token[OF assms(1)] plain_char_facts[of c] by (auto simp: plain_token_def list_all_iff)
  next
    case 5 then show ?thesis using assms(2) good_token_chars by (auto simp: list_all_iff)
  qed simp_all
qed

definition program_lines ::
  "(f64_bits \<Rightarrow> rust_string) \<Rightarrow> bytecode_file \<Rightarrow> bytecode_format \<Rightarrow> u32 set \<Rightarrow> instruction list \<Rightarrow> rust_string list" where
  "program_lines show_f64 file format ls insns =
     concat (map (\<lambda>i. (if in_offset i \<in> ls then [label_line (in_offset i)] else []) @ [insn_line show_f64 file format i]) insns)"

lemma program_lines_simps [simp]:
  "program_lines show_f64 file format ls [] = []"
  "program_lines show_f64 file format ls (i # is) =
     (if in_offset i \<in> ls then [label_line (in_offset i)] else []) @ insn_line show_f64 file format i # program_lines show_f64 file format ls is"
  by (simp_all add: program_lines_def)

lemma insn_line_facts:
  assumes "printable_insn file format show_f64 parse_f64 insn" and "named format"
  shows "nice_name (lit (insn_name format insn))" "list_all good_token (insn_tokens show_f64 file insn)"
proof -
  from insn_def[OF assms] show "nice_name (lit (insn_name format insn))" by metis
  have "true_labels Map.empty" by (simp add: true_labels_def)
  with assms(1) show "list_all good_token (insn_tokens show_f64 file insn)"
    using tokens_parsed[of "in_operands insn" "file" show_f64 parse_f64 insn]
    by (auto simp: printable_insn_def printable_line_def typed_insn_iff insn_tokens_def)
qed

lemma whole_insn_line:
  "printable_insn file format show_f64 parse_f64 insn \<Longrightarrow> named format \<Longrightarrow> whole_line (insn_line show_f64 file format insn)"
  using insn_line_facts[of "file" format show_f64 parse_f64 insn] whole_code by (simp add: insn_line_def)

lemma whole_program:
  assumes "list_all (printable_insn file format show_f64 parse_f64) insns" and "named format"
  shows "list_all whole_line (program_lines show_f64 file format ls insns)"
  using assms(1)
  by (induction insns) (auto simp: whole_label intro: whole_insn_line[OF _ assms(2)])

lemma disassembled_text:
  assumes "decode_function_instructions file format fid = Inr insns" "list_all (typed_insn format) insns"
  shows "disassemble_function (\<lambda>_ s. s) show_f64 file format fid disasm_default =
    Inr (unlines (program_lines show_f64 file format (collect_label_offsets insns format) insns))"
proof -
  have "concat (map (instruction_text (\<lambda>_ s. s) show_f64 file format disasm_default ls) insns) =
      unlines (program_lines show_f64 file format ls insns)" for ls
  proof -
    have "do_show_labels disasm_default" "painted (\<lambda>_ s. s) disasm_default ink s = s" for ink s
      by (simp_all add: disasm_default_def painted_def)
    then show ?thesis using assms(2)
      by (induction insns) (simp_all add: unlines_def instruction_text_def format_instruction_line label_line_def)
  qed
  then show ?thesis by (simp add: disassemble_function_def assms(1) Let_def)
qed

text \<open>Copying the lines of the disassembler places the labels the handlers want.\<close>

lemma label_line_offset: "line_offset (label_line off) = None"
proof -
  have "\<not> is_whitespace 0x4C" "\<not> is_ascii_hexdigit 0x4C" by (simp_all add: is_whitespace_def is_ascii_hexdigit_def hex_value_def is_ascii_digit_def)
  then show ?thesis by (simp add: line_offset_def label_line_def lit_def trim_start_def)
qed

lemma label_line_label: "Option.bind (Option.bind (strip_last 0x3A (label_line off)) (strip_prefix (lit ''L''))) parse_u32 = Some off"
  using parse_u32_dec[OF unat_u32, of off] by (simp add: label_line_def strip_last_def strip_prefix_def lit_def)

lemma emit_label: "emit_line wanted (label_line off) (out, placed) = (out @ label_line off @ [0x0A], insert off placed)"
  unfolding emit_line_def prod.case label_line_offset option.case label_line_label ..

lemma parse_hex4: "n < 2 ^ 32 \<Longrightarrow> parse_radix_u32 16 (hex4 n) = Some (of_nat n)"
proof -
  obtain a b cs where h: "hex4 n = a # b # cs" "0x30 \<le> a" by (rule hex4_head)
  then have "hd (hex4 n) \<noteq> 0x2B" "hex4 n \<noteq> []" by auto
  moreover assume "n < 2 ^ 32"
  ultimately show ?thesis by (simp add: parse_radix_u32_def digits_value_hex4)
qed

lemma code_line_offset_read: "line_offset (code_line (unat (off :: u32)) n toks) = Some off"
proof -
  let ?h = "hex4 (unat off)"
  obtain a b cs where h: "?h = a # b # cs" "\<not> is_whitespace a" by (rule hex4_head)
  have sp: "\<forall>c \<in> set ?h. \<not> is_whitespace c \<and> is_ascii_hexdigit c" using hex4_facts(1)[of "unat off"] by blast
  have "trim_start (code_line (unat off) n toks) = code_line (unat off) n toks" using h by (simp add: trim_start_def code_line_def)
  moreover have "takeWhile (\<lambda>c. \<not> is_whitespace c) (code_line (unat off) n toks) = ?h"
    using sp by (simp add: code_line_def takeWhile_append2 lit_def is_whitespace_def[of 32])
  ultimately show ?thesis using sp hex4_facts(2)[of "unat off"] parse_hex4[OF unat_u32, of off]
    by (simp add: line_offset_def list_all_iff)
qed

definition no_label_last :: "rust_string \<Rightarrow> bool" where
  "no_label_last out \<longleftrightarrow> out = [] \<or> (\<exists>pre c. out = pre @ [c, 0x0A] \<and> c \<noteq> 0x3A)"

lemma no_label_ends: "no_label_last out \<Longrightarrow> \<not> ends_with (label_line off @ [0x0A]) out"
proof
  assume "ends_with (label_line off @ [0x0A]) out"
  then obtain pre where "out = pre @ label_line off @ [0x0A]" unfolding ends_with_def by (metis append_take_drop_id)
  moreover assume "no_label_last out"
  ultimately show False by (auto simp: no_label_last_def label_line_eq)
qed

lemma emit_code:
  assumes "printable_insn file format show_f64 parse_f64 insn" and "named format"
    and "in_offset insn \<in> placed \<or> no_label_last out"
  shows "emit_line wanted (insn_line show_f64 file format insn) (out, placed) =
     (if in_offset insn \<in> wanted \<and> in_offset insn \<notin> placed
      then (out @ label_line (in_offset insn) @ [0x0A] @ insn_line show_f64 file format insn @ [0x0A], insert (in_offset insn) placed)
      else (out @ insn_line show_f64 file format insn @ [0x0A], placed))"
  using assms(3) no_label_ends by (auto simp: emit_line_def insn_line_def code_line_offset_read)

lemma code_ends:
  assumes "printable_insn file format show_f64 parse_f64 insn" and "named format"
  shows "no_label_last (out @ insn_line show_f64 file format insn @ [0x0A])"
proof -
  have "insn_line show_f64 file format insn \<noteq> []" "last (insn_line show_f64 file format insn) \<noteq> 0x3A"
    using code_line_last[OF insn_line_facts[OF assms]] by (simp_all add: insn_line_def)
  then have "out @ insn_line show_f64 file format insn @ [0x0A]
      = (out @ butlast (insn_line show_f64 file format insn)) @ [last (insn_line show_f64 file format insn), 0x0A]" by simp
  with \<open>last _ \<noteq> _\<close> show ?thesis unfolding no_label_last_def by blast
qed

lemma emit_program:
  assumes "list_all (printable_insn file format show_f64 parse_f64) insns" and "named format"
    and "distinct (map in_offset insns)" and "placed \<inter> in_offset ` set insns = {}" and "no_label_last out"
  shows "fold (emit_line wanted) (program_lines show_f64 file format ls insns) (out, placed) =
    (out @ unlines (program_lines show_f64 file format (ls \<union> wanted) insns),
     placed \<union> ((ls \<union> wanted) \<inter> in_offset ` set insns))"
  using assms(1,3-5)
proof (induction insns arbitrary: out placed)
  case Nil
  then show ?case by (simp add: unlines_def)
next
  case (Cons i insns)
  let ?l = "insn_line show_f64 file format i @ [0x0A]" and ?o = "in_offset i"
  have i: "printable_insn file format show_f64 parse_f64 i" using Cons.prems(1) by simp
  have o: "?o \<notin> placed" "?o \<notin> in_offset ` set insns" using Cons.prems(2,3) by auto
  let ?labels = "?o \<in> ls \<union> wanted"
  have step: "fold (emit_line wanted) (program_lines show_f64 file format ls (i # insns)) (out, placed) =
      fold (emit_line wanted) (program_lines show_f64 file format ls insns)
        ((out @ (if ?labels then label_line ?o @ [0x0A] else [])) @ ?l, if ?labels then insert ?o placed else placed)"
    using o(1) Cons.prems(4) emit_code[OF i assms(2), of placed out wanted]
      emit_code[OF i assms(2), of "insert ?o placed" "out @ label_line ?o @ [0x0A]" wanted]
    by (auto simp: emit_label)
  have "no_label_last ((out @ (if ?labels then label_line ?o @ [0x0A] else [])) @ ?l)" by (rule code_ends[OF i assms(2)])
  moreover have "(if ?labels then insert ?o placed else placed) \<inter> in_offset ` set insns = {}"
    using Cons.prems(3) o(2) by auto
  ultimately show ?case
    unfolding step using Cons.IH Cons.prems(1,2) by (auto simp: unlines_def)
qed

fun code_end :: "u32 \<Rightarrow> instruction list \<Rightarrow> u32" where
  "code_end off [] = off"
| "code_end off (i # is) = code_end (off + in_length i) is"

lemma decoded_function:
  assumes "decode_function_instructions file format fid = Inr insns"
  shows "list_all (typed_insn format) insns" "laid_out 0 insns" "length (body_bytes insns) < 2 ^ 32"
proof -
  from assms obtain h st bytes where b: "decode_body format bytes = Inr insns" "length bytes \<le> unat (fh_bytecode_size h)"
    "bytes = take (unat (fh_bytecode_size h)) (drop st (bf_instructions file))"
    by (auto simp: decode_function_instructions_def res_bind_Inr_iff ok_or_Inr_iff Let_def checked_add_usize_def split: if_splits)
  then show "list_all (typed_insn format) insns" "laid_out 0 insns" "length (body_bytes insns) < 2 ^ 32"
    using decode_loop_sound[of format 0 "new_reader bytes" insns] unat_u32[of "fh_bytecode_size h"]
    by (simp_all add: decode_body_def new_reader_def ahead_def)
qed

lemma insn_length_pos:
  assumes "in_length i = of_nat (length (insn_bytes i))" and "length (insn_bytes i) < 2 ^ 32"
  shows "0 < unat (in_length i)"
proof -
  have "unat (in_length i) = length (insn_bytes i)" unfolding assms(1) using assms(2) by (intro unat_of_nat_less) simp
  then show ?thesis by (simp add: insn_bytes_def)
qed

lemma laid_out_offsets:
  "laid_out off insns \<Longrightarrow> length (body_bytes insns) < 2 ^ 32 \<Longrightarrow> distinct (map in_offset insns)
    \<and> (\<forall>i \<in> set insns. unat off \<le> unat (in_offset i) \<and> unat (in_offset i) < unat (code_end off insns))
    \<and> unat off \<le> unat (code_end off insns)"
proof (induction insns arbitrary: off)
  case (Cons i insns)
  from Cons.prems have i: "in_offset i = off" "unat off + unat (in_length i) < 2 ^ 32" "laid_out (off + in_length i) insns"
    "in_length i = of_nat (length (insn_bytes i))" unfolding laid_out.simps by blast+
  have len: "length (insn_bytes i) < 2 ^ 32" "length (body_bytes insns) < 2 ^ 32"
    using Cons.prems(2) by (simp_all add: body_bytes_def)
  have "unat (off + in_length i) = unat off + unat (in_length i)" using i(2) by (simp add: unat_word_ariths)
  with insn_length_pos[OF i(4) len(1)] Cons.IH[OF i(3) len(2)] i(1) show ?case by fastforce
qed simp

lemma emitted_text:
  assumes "decode_function_instructions file format fid = Inr insns" and "named format"
    and "list_all (printable_insn file format show_f64 parse_f64) insns"
    and "hs = (case bf_exception_handlers file fid of Some hs \<Rightarrow> hs | None \<Rightarrow> [])"
    and "wanted_labels hs \<subseteq> insert (code_end 0 insns) (in_offset ` set insns)"
  shows "emit_hasm_function (\<lambda>_ s. s) show_f64 file format fid =
    Inr (unlines (program_lines show_f64 file format (collect_label_offsets insns format \<union> wanted_labels hs) insns
      @ (if code_end 0 insns \<in> wanted_labels hs then [label_line (code_end 0 insns)] else []) @ map handler_text hs))"
proof -
  let ?ls = "collect_label_offsets insns format" and ?w = "wanted_labels hs" and ?e = "code_end 0 insns" and ?o = "in_offset ` set insns"
  note d = decoded_function[OF assms(1)]
  note dis = disassembled_text[OF assms(1) d(1), of show_f64]
  have e: "?e \<notin> ?o" and dist: "distinct (map in_offset insns)" using laid_out_offsets[OF d(2,3)] by fastforce+
  show ?thesis
  proof (cases "bf_exception_handlers file fid")
    case None
    then have "hs = []" "?w = {}" using assms(4) by (simp_all add: wanted_labels_def)
    with None dis show ?thesis by (simp add: emit_hasm_function_def)
  next
    case (Some hs')
    then have hs: "hs' = hs" using assms(4) by simp
    have missing: "sorted_list_of_set (?w - ({} \<union> ((?ls \<union> ?w) \<inter> ?o))) = (if ?e \<in> ?w then [?e] else [])"
    proof -
      have "?w - ({} \<union> ((?ls \<union> ?w) \<inter> ?o)) = (if ?e \<in> ?w then {?e} else {})" using assms(5) e by auto
      then show ?thesis by simp
    qed
    have "fold (emit_line ?w) (str_lines (unlines (program_lines show_f64 file format ?ls insns))) ([], {}) =
        ([] @ unlines (program_lines show_f64 file format (?ls \<union> ?w) insns), {} \<union> ((?ls \<union> ?w) \<inter> ?o))"
      unfolding str_lines_unlines[OF whole_program[OF assms(3,2)]]
      by (rule emit_program[OF assms(3,2) dist]) (simp_all add: no_label_last_def)
    moreover have "handler_line = (\<lambda>h. handler_text h @ [0x0A])" by (rule ext) (rule handler_line_eq)
    ultimately show ?thesis
      unfolding emit_hasm_function_def dis res_bind_simps Some option.case hs Let_def
      by (simp only: prod.case missing) (simp add: unlines_def comp_def)
  qed
qed

section \<open>Parsing the emitted text\<close>

definition raw_of :: "(f64_bits \<Rightarrow> rust_string) \<Rightarrow> bytecode_file \<Rightarrow> bytecode_format \<Rightarrow> u32 set \<Rightarrow> instruction \<Rightarrow> raw_line" where
  "raw_of show_f64 file format ls i =
     \<lparr>rw_label = if in_offset i \<in> ls then Some (label_name (in_offset i)) else None,
      rw_mnemonic = lit (insn_name format i), rw_ops = insn_tokens show_f64 file i\<rparr>"

lemma collect_program:
  assumes "list_all (printable_insn file format show_f64 parse_f64) insns" and "named format"
  shows "collect_lines (name_to_op format) None (program_lines show_f64 file format ls insns @ rest) =
    res_bind (collect_lines (name_to_op format) None rest) (\<lambda>(raws, pend, specs).
      Inr (map (raw_of show_f64 file format ls) insns @ raws, pend, specs))"
  using assms(1)
proof (induction insns)
  case Nil
  then show ?case by (cases "collect_lines (name_to_op format) None rest") auto
next
  case (Cons i insns)
  then have i: "printable_insn file format show_f64 parse_f64 i" by simp
  have "read_line (name_to_op format) (insn_line show_f64 file format i) = CodeLine (lit (insn_name format i)) (insn_tokens show_f64 file i)"
    unfolding insn_line_def by (intro read_code_line insn_line_facts[OF i assms(2)] hex4_no_name assms(2))
  with Cons show ?case
    by (cases "collect_lines (name_to_op format) None rest") (auto simp: read_label_line raw_of_def)
qed

definition handler_names :: "exception_handler \<Rightarrow> rust_string list" where
  "handler_names h = [label_name (eh_start h), label_name (eh_end h), label_name (eh_target h)]"

lemma collect_handlers: "collect_lines known pend (map handler_text hs) = Inr ([], pend, map handler_names hs)"
  by (induction hs) (simp_all add: read_handler_line handler_names_def)

definition sized_of :: "(f64_bits \<Rightarrow> rust_string) \<Rightarrow> bytecode_file \<Rightarrow> instruction \<Rightarrow> sized_line" where
  "sized_of show_f64 file i =
     \<lparr>sz_offset = in_offset i, sz_opcode = in_opcode i, sz_ops = insn_tokens show_f64 file i,
      sz_types = map op_ty (in_operands i)\<rparr>"

definition has_labels :: "(rust_string \<Rightarrow> u32 option) \<Rightarrow> u32 set \<Rightarrow> bool" where
  "has_labels labels offs \<longleftrightarrow> true_labels labels \<and> (\<forall>x \<in> offs. labels (label_name x) = Some x)"

lemma has_labels_add: "has_labels labels offs \<Longrightarrow> has_labels (labels(label_name x \<mapsto> x)) (insert x offs)"
  by (auto simp: has_labels_def true_labels_def label_name_inj)

lemma size_program:
  assumes "list_all (printable_insn file format show_f64 parse_f64) insns" and "named format"
    and "laid_out off insns" and "has_labels labels offs"
  shows "\<exists>labels'. size_lines format off labels (map (raw_of show_f64 file format ls) insns) =
      Inr (map (sized_of show_f64 file) insns, labels', code_end off insns)
    \<and> has_labels labels' (offs \<union> (ls \<inter> in_offset ` set insns))"
  using assms(1,3,4)
proof (induction insns arbitrary: off labels offs)
  case (Cons i insns)
  then have i: "printable_insn file format show_f64 parse_f64 i" by simp
  obtain def where d: "definition_at format (in_opcode i) = Some def" "insn_name format i = def_name def"
    "def = definitions format ! unat (in_opcode i)" "nice_name (lit (insn_name format i))"
    "name_to_op format (lit (insn_name format i)) = Some (in_opcode i)"
    "map op_ty (in_operands i) = operand_types def" "list_all typed_operand (in_operands i)"
    by (rule insn_def[OF i assms(2)])
  have lo: "in_offset i = off" "in_length i = of_nat (length (insn_bytes i))" "laid_out (off + in_length i) insns"
    using Cons.prems(2) unfolding laid_out.simps by blast+
  have len: "in_length i = insn_length (map op_ty (in_operands i))" using lo(2) typed_length[OF d(7)] by simp
  have n: "length (insn_tokens show_f64 file i) = length (operand_types def)"
    using arg_cong[OF d(6), of length] by (simp add: insn_tokens_def)
  let ?l = "if off \<in> ls then labels(label_name off \<mapsto> off) else labels"
    and ?o = "if off \<in> ls then insert off offs else offs"
  have "has_labels ?l ?o" using Cons.prems(3) has_labels_add by simp
  then obtain labels' where IH: "size_lines format (off + in_length i) ?l (map (raw_of show_f64 file format ls) insns) =
      Inr (map (sized_of show_f64 file) insns, labels', code_end (off + in_length i) insns)"
    "has_labels labels' (?o \<union> (ls \<inter> in_offset ` set insns))"
    using Cons.IH[OF _ lo(3)] Cons.prems(1) by fastforce
  have "size_lines format off labels (map (raw_of show_f64 file format ls) (i # insns)) =
      Inr (map (sized_of show_f64 file) (i # insns), labels', code_end off (i # insns))"
    using IH(1) n d(5,6) len lo(1)
    by (cases "off \<in> ls") (simp_all add: raw_of_def[of _ _ _ _ i] sized_of_def[of _ _ i] Let_def d(3)[symmetric] ok_or_def)
  moreover have "?o \<union> (ls \<inter> in_offset ` set insns) = offs \<union> (ls \<inter> in_offset ` set (i # insns))" using lo(1) by auto
  ultimately show ?case using IH(2) by auto
qed simp

lemma build_program:
  assumes "list_all (printable_insn file format show_f64 parse_f64) insns" and "laid_out off insns" and "true_labels labels"
  shows "res_map (build_insn parse_f64 labels (string_lookup_of file)) (map (sized_of show_f64 file) insns) = Inr insns"
  using assms(1,2)
proof (induction insns arbitrary: off)
  case (Cons i insns)
  have lo: "in_length i = of_nat (length (insn_bytes i))" "laid_out (off + in_length i) insns"
    using Cons.prems(2) unfolding laid_out.simps by blast+
  from Cons.prems(1) have t: "list_all typed_operand (in_operands i)"
    "list_all (printable file show_f64 parse_f64 (in_offset i)) (in_operands i)"
    by (auto simp: printable_insn_def printable_line_def typed_insn_iff)
  have "build_insn parse_f64 labels (string_lookup_of file) (sized_of show_f64 file i) = Inr i"
    using tokens_parsed[OF t assms(3)] typed_length[OF t(1)] lo(1)
    by (simp add: build_insn_def sized_of_def insn_tokens_def)
  with Cons.IH[OF _ lo(2)] Cons.prems(1) show ?case by simp
qed simp

lemma resolve_names:
  assumes "has_labels labels offs" and "wanted_labels hs \<subseteq> offs"
  shows "res_map (resolve_handler labels) (map handler_names hs) = Inr hs"
  using assms(2)
proof (induction hs)
  case (Cons h hs)
  then have "labels (label_name (eh_start h)) = Some (eh_start h)" "labels (label_name (eh_end h)) = Some (eh_end h)"
    "labels (label_name (eh_target h)) = Some (eh_target h)"
    using assms(1) by (auto simp: has_labels_def wanted_labels_def)
  with Cons show ?case by (simp add: resolve_handler_def resolve_offset_def handler_names_def wanted_labels_def)
qed simp

lemma emitted_parses:
  assumes "decode_function_instructions file format fid = Inr insns" and "named format"
    and "list_all (printable_line file format show_f64 parse_f64) insns"
    and "bf_exception_handlers file fid \<noteq> Some []"
    and "\<forall>hs. bf_exception_handlers file fid = Some hs \<longrightarrow> wanted_labels hs \<subseteq> insert (code_end 0 insns) (in_offset ` set insns)"
  shows "\<exists>listing. emit_hasm_function (\<lambda>_ s. s) show_f64 file format fid = Inr listing
    \<and> parse_hasm_body_with_context parse_f64 listing format file = Inr (insns, bf_exception_handlers file fid)"
proof -
  define hs where "hs = (case bf_exception_handlers file fid of Some hs \<Rightarrow> hs | None \<Rightarrow> [])"
  note d = decoded_function[OF assms(1)]
  have pr: "list_all (printable_insn file format show_f64 parse_f64) insns"
    using d(1) assms(3) by (simp add: list_all_iff printable_insn_def)
  let ?e = "code_end 0 insns" and ?w = "wanted_labels hs"
  let ?l = "collect_label_offsets insns format \<union> ?w"
  have w: "?w \<subseteq> insert ?e (in_offset ` set insns)"
    using assms(5) by (cases "bf_exception_handlers file fid") (simp_all add: hs_def wanted_labels_def)
  let ?tail = "(if ?e \<in> ?w then [label_line ?e] else []) @ map handler_text hs"
    and ?pend = "if ?e \<in> ?w then Some (label_name ?e) else None"
  let ?lines = "program_lines show_f64 file format ?l insns @ ?tail"
  have emit: "emit_hasm_function (\<lambda>_ s. s) show_f64 file format fid = Inr (unlines ?lines)"
    by (rule emitted_text[OF assms(1,2) pr hs_def w])
  have "list_all whole_line ?lines"
    using whole_program[OF pr assms(2)] by (auto simp: whole_label whole_handler list_all_iff)
  then have lines: "str_lines (unlines ?lines) = ?lines" by (rule str_lines_unlines)
  have collect: "collect_lines (name_to_op format) None ?lines =
      Inr (map (raw_of show_f64 file format ?l) insns, ?pend, map handler_names hs)"
    unfolding collect_program[OF pr assms(2)] by (simp add: collect_handlers read_label_line)
  have "has_labels Map.empty {}" by (simp add: has_labels_def true_labels_def)
  from size_program[OF pr assms(2) d(2) this, of ?l] obtain labels where
    sized: "size_lines format 0 Map.empty (map (raw_of show_f64 file format ?l) insns) =
      Inr (map (sized_of show_f64 file) insns, labels, ?e)" and l: "has_labels labels (?l \<inter> in_offset ` set insns)"
    by auto
  let ?labels = "case ?pend of Some lab \<Rightarrow> labels(lab \<mapsto> ?e) | None \<Rightarrow> labels"
    and ?offs = "(?l \<inter> in_offset ` set insns) \<union> ({?e} \<inter> ?w)"
  have labels: "has_labels ?labels ?offs" using l has_labels_add[OF l, of ?e] by simp
  have resolved: "res_map (resolve_handler ?labels) (map handler_names hs) = Inr hs"
    by (rule resolve_names[OF labels]) (use w in auto)
  have built: "res_map (build_insn parse_f64 ?labels (string_lookup_of file)) (map (sized_of show_f64 file) insns) = Inr insns"
    using build_program[OF pr d(2)] labels by (simp add: has_labels_def)
  have "(if map handler_names hs = [] then Inr None
      else res_bind (res_map (resolve_handler ?labels) (map handler_names hs)) (\<lambda>hs. Inr (Some hs))) =
      (Inr (bf_exception_handlers file fid) :: exception_handler list option result)"
    unfolding resolved using assms(4) by (cases "bf_exception_handlers file fid") (auto simp: hs_def)
  then have "parse_hasm_body_with_context parse_f64 (unlines ?lines) format file = Inr (insns, bf_exception_handlers file fid)"
    unfolding parse_hasm_body_with_context_def parse_hasm_function_full_def lines collect res_bind_simps prod.case sized Let_def
    by (simp only: built res_bind_simps)
  with emit show ?thesis by blast
qed


section \<open>Assembling what was emitted\<close>

lemma layout_handlers:
  "parse_with_layout sha1 bytes lay fn_lay = Inr f \<Longrightarrow> bf_exception_handlers f = parse_exception_handlers bytes (bf_function_headers f)"
  by (clarsimp simp: parse_with_layout_def parse_trailing_and_build_def res_bind_Inr_iff Let_def split: if_split_asm)

lemma parsed_handlers:
  "parse_auto sha1 bytes = Inr f \<Longrightarrow> bf_exception_handlers f = parse_exception_handlers bytes (bf_function_headers f)"
proof -
  assume f: "parse_auto sha1 bytes = Inr f"
  then obtain v where v: "peek_version bytes = Inr v" by (auto simp: parse_auto_def res_bind_Inr_iff)
  define other where "other = (if fst (implied_layout v) = Modern then (Legacy, Legacy16) else (Modern, Modern12))"
  show ?thesis
  proof (cases "parse_with_layout sha1 bytes (fst (implied_layout v)) (snd (implied_layout v))")
    case (Inr g)
    with f v have "f = g" by (simp add: parse_auto_def Let_def)
    with layout_handlers[OF Inr] show ?thesis by simp
  next
    case (Inl e)
    with f v obtain g where "parse_with_layout sha1 bytes (fst other) (snd other) = Inr g"
      "f = g\<lparr>bf_diagnostics := bf_diagnostics g @ [LayoutFallback v (fst other) (fst (implied_layout v))]\<rparr>"
      unfolding parse_auto_def by (auto simp: Let_def simp flip: other_def split: sum.split_asm)
    with layout_handlers show ?thesis by simp
  qed
qed

lemma decoded_code:
  assumes "parse_auto sha1 a = Inr f" and "decode_function_instructions f format fid = Inr insns"
    and "fh_bytecode_size (bf_function_headers f ! unat fid) \<noteq> 0"
  shows "unat fid < length (bf_function_headers f)" "body_end (bf_function_headers f ! unat fid) \<le> length a"
    "body_bytes insns = code_of a (bf_function_headers f ! unat fid)"
proof -
  let ?fh = "bf_function_headers f ! unat fid" and ?io = "bf_instruction_offset f"
  have ins: "bf_instructions f = drop (unat ?io) a" by (rule code_start[OF assms(1)]) blast
  from assms(2) show fid: "unat fid < length (bf_function_headers f)"
    by (auto simp: decode_function_instructions_def res_bind_Inr_iff ok_or_Inr_iff list_get_def split: if_splits)
  with assms(2) have d: "?io \<le> fh_offset ?fh" "unat (fh_offset ?fh - ?io) + unat (fh_bytecode_size ?fh) \<le> length a - unat ?io"
    "decode_body format (take (unat (fh_bytecode_size ?fh)) (drop (unat (fh_offset ?fh - ?io)) (bf_instructions f))) = Inr insns"
    by (auto simp: decode_function_instructions_def res_bind_Inr_iff ok_or_Inr_iff list_get_def Let_def checked_add_usize_def ins
        split: if_splits)
  have io: "unat ?io \<le> unat (fh_offset ?fh)" using d(1) by (simp add: word_le_nat_alt)
  have sub: "unat (fh_offset ?fh - ?io) = unat (fh_offset ?fh) - unat ?io" using d(1) by (rule unat_sub)
  have "0 < unat (fh_bytecode_size ?fh)" using assms(3) by (simp add: unat_gt_0)
  with d(2) io sub show "body_end ?fh \<le> length a" by (simp add: body_end_def)
  have "take (unat (fh_bytecode_size ?fh)) (drop (unat (fh_offset ?fh - ?io)) (bf_instructions f)) = code_of a ?fh"
    unfolding ins sub using io by (simp add: code_of_def get_at_def)
  with d(3) show "body_bytes insns = code_of a ?fh"
    using decode_loop_sound[of format 0 "new_reader (code_of a ?fh)" insns] by (simp add: decode_body_def new_reader_def ahead_def)
qed

lemma same_body_patch:
  assumes "digest_len sha1" and "parse_auto sha1 a = Inr f" and "is_clean f"
    and "decode_function_instructions f format fid = Inr insns"
    and "fh_bytecode_size (bf_function_headers f ! unat fid) \<noteq> 0"
  shows "patch_function_body_with sha1 format fid insns options KeepHandlers f = (Inr a, f)"
proof -
  let ?fh = "bf_function_headers f ! unat fid"
  note c = decoded_code[OF assms(2,4,5)]
  let ?z = "unat (fh_bytecode_size ?fh)" and ?s = "unat (fh_offset ?fh)"
  have "?s + ?z \<le> length a" using c(2) by (simp add: body_end_def)
  then have len: "length (body_bytes insns) = ?z" and put: "put_at a ?s (body_bytes insns) = a"
    by (simp_all add: c(3) code_of_def length_get_at)
  have enc: "encode_function_body format insns = Inr (body_bytes insns)" by (rule encode_body_typed[OF decoded_function(1)[OF assms(4)]])
  have com: "commit_image_checked sha1 a header_edit_default (handlers_read_back fid None) f = (Inr a, f)"
    unfolding commit_Inr_iff
    using clean_is_sealed(1)[OF assms(1-3)] assms(2) clean_header_length[OF assms(2,3)]
    by (simp add: handlers_read_back_def apply_default)
  have "patch_function_bytes_with sha1 fid (body_bytes insns) None f = (Inr a, f)"
    using com put c(1,2) len parse_auto_raw[OF assms(2)]
    by (simp add: patch_function_bytes_with_def patched_image_def spliced_image_def with_handlers_def
        list_get_def ok_or_def Let_def body_end_def)
  with enc len c(1) show ?thesis
    by (simp add: patch_function_body_with_def Let_def list_get_def refused_handlers_def refused_debug_def pad_body_def final_table_def)
qed

text \<open>C5: Assembling the emitted text leaves the image alone.  For a function of a clean image with a
  non-empty body and no handlers, the text the emitter writes is assembled to the very bytes of the
  image, and the file left behind is the one there was.  What the text can carry is asked as for the
  parsing of one function: the mnemonics of the format are distinct words that begin with a capital
  letter and stand at their opcodes, each opcode of the body has one, jumps stay at non-negative
  offsets, a string operand has no quote, no character outside the printable ASCII range, tab and line
  breaks apart, and no backslash at its end, and is the first string of the table with its value, and
  the text of a double is a plain word that is read back as the same double.  A
  body that breaks one of these, such as one with a string outside ASCII or stored twice, may be
  assembled to other bytes or be refused.\<close>

theorem reassembly_is_identity:
  assumes "digest_len sha1" and "parse_auto sha1 a = Inr f" and "is_clean f"
    and "decode_function_instructions f format fid = Inr insns"
    and "fh_bytecode_size (bf_function_headers f ! unat fid) \<noteq> 0"
    and "named format" and "list_all (printable_line f format show_f64 parse_f64) insns"
    and "bf_exception_handlers f fid = None"
  shows "\<exists>listing. emit_hasm_function (\<lambda>_ s. s) show_f64 f format fid = Inr listing
    \<and> assemble_function_hasm sha1 parse_f64 format fid listing f = (Inr a, f)"
proof -
  obtain listing where "emit_hasm_function (\<lambda>_ s. s) show_f64 f format fid = Inr listing"
    "parse_hasm_body_with_context parse_f64 listing format f = Inr (insns, None)"
    using emitted_parses[OF assms(4,6,7)] assms(8) by auto
  with same_body_patch[OF assms(1-5)] show ?thesis
    by (auto simp: assemble_function_hasm_def assemble_function_hasm_with_def)
qed

section \<open>A sample\<close>

definition hasm_sample_format :: bytecode_format where
  "hasm_sample_format = \<lparr>fmt_version = 96, definitions =
     map (\<lambda>i. \<lparr>def_opcode = of_nat i, def_name = (if i = 7 then ''LoadThis'' else if i = 92 then ''Ret'' else ''<invalid>''),
       operand_types = [Reg8], is_jump = False, abstract_definition = None\<rparr>) [0..<93],
     abstract_definitions = [], git_commit_hash = None\<rparr>"

lemma hasm_sample_named: "named hasm_sample_format"
proof -
  have ok: "nice_name (lit ''LoadThis'')" "nice_name (lit ''Ret'')"
    by (simp_all add: nice_name_def lit_def is_ascii_alphabetic_def)
  have len: "length (definitions hasm_sample_format) = 93" by (simp add: hasm_sample_format_def)
  have at: "def_name (definitions hasm_sample_format ! i) = (if i = 7 then ''LoadThis'' else if i = 92 then ''Ret'' else ''<invalid>'')
      \<and> def_opcode (definitions hasm_sample_format ! i) = of_nat i" if "i < 93" for i
    using that nth_map[of i "[0..<93]"] by (auto simp: hasm_sample_format_def simp del: upt_rec_numeral)
  show ?thesis unfolding named_def len
  proof (intro allI impI)
    fix i assume i: "i < 93" "def_name (definitions hasm_sample_format ! i) \<noteq> ''<invalid>''"
    then have "i = 7 \<or> i = 92" using at[OF i(1)] by (auto split: if_splits)
    then show "nice_name (lit (def_name (definitions hasm_sample_format ! i)))
        \<and> def_opcode (definitions hasm_sample_format ! i) = of_nat i
        \<and> (\<forall>j < i. def_name (definitions hasm_sample_format ! j) \<noteq> def_name (definitions hasm_sample_format ! i))"
      using ok at by (auto split: if_split_asm)
  qed
qed

lemma hasm_sample_decodes: "decode_body hasm_sample_format [7, 0, 92, 0] = Inr patch_sample_body"
proof -
  have ty: "list_all (typed_insn hasm_sample_format) patch_sample_body"
    by (simp add: patch_sample_body_def typed_insn_def hasm_sample_format_def definition_at_def typed_operand_def)
  show ?thesis unfolding decode_body_def
    by (rule decode_loop_complete)
       (use ty patch_sample_body_facts encode_body_typed[OF patch_sample_body_facts(1)] in
         \<open>simp_all add: new_reader_def ahead_def in_memory_def usize_max_def\<close>)
qed

lemma hasm_sample_printable: "list_all (printable_line file hasm_sample_format show_f64 parse_f64) patch_sample_body"
  by (simp add: patch_sample_body_def printable_line_def printable_def insn_name_def definition_at_def hasm_sample_format_def)

lemma hasm_sample:
  obtains img f where "length img = 192" "parse_auto sample_digest img = Inr f" "is_clean f"
    "decode_function_instructions f hasm_sample_format 0 = Inr patch_sample_body"
    "fh_bytecode_size (bf_function_headers f ! 0) \<noteq> 0" "bf_exception_handlers f 0 = None"
proof -
  obtain img f where f: "length img = 192" "parse_auto sample_digest img = Inr f" "is_clean f"
    "bf_function_headers f = [LegacyHeader \<lparr>lf_function_id = 0, lf_offset = 168, lf_param_count = 1,
        lf_bytecode_size = 4, lf_function_name = 0, lf_info_offset = 0, lf_frame_size = 2, lf_environment_size = 0,
        lf_highest_read_cache_index = 0, lf_highest_write_cache_index = 0, lf_flags = PROHIBIT_NONE\<rparr>]"
    "\<forall>format. decode_function_instructions f format 0 = decode_body format [7, 0, 92, 0]"
    by (rule sample_program)
  have "bf_exception_handlers f 0 = None"
    using parsed_handlers[OF f(2)]
    by (simp add: f(4) parse_exception_handlers_def function_handlers_def Let_def PROHIBIT_NONE_def FLAG_HAS_EXCEPTION_HANDLER_def)
  with f hasm_sample_decodes show thesis by (intro that) simp_all
qed


theorem reassembly_is_identity_witness:
  "\<exists>img f listing. length img = 192 \<and> parse_auto sample_digest img = Inr f
     \<and> emit_hasm_function (\<lambda>_ s. s) (\<lambda>_. []) f hasm_sample_format 0 = Inr listing
     \<and> assemble_function_hasm sample_digest (\<lambda>_. None) hasm_sample_format 0 listing f = (Inr img, f)"
proof -
  obtain img f where f: "length img = 192" "parse_auto sample_digest img = Inr f" "is_clean f"
    "decode_function_instructions f hasm_sample_format 0 = Inr patch_sample_body"
    "fh_bytecode_size (bf_function_headers f ! 0) \<noteq> 0" "bf_exception_handlers f 0 = None"
    by (rule hasm_sample)
  have "fh_bytecode_size (bf_function_headers f ! unat (0 :: u32)) \<noteq> 0" using f(5) by simp
  from reassembly_is_identity[OF sample_digest_len f(2-4) this hasm_sample_named hasm_sample_printable f(6)] f(1,2)
  show ?thesis by blast
qed

end
