(* ===== verification/Env_Levels.thy ===== *)
theory Env_Levels
  imports Image_Types
begin

text \<open>
  Which environment each register holds while a body is lifted
  (\<open>crates/hbc-decomp/src/ir/builder/env_state.rs\<close>).  The \<open>BTreeMap\<close>s and the \<open>HashSet\<close> of the code are
  never iterated, so they are maps and a set.  Levels are \<open>u32\<close>; the two additions the code does not
  guard wrap here, as they do in a release build.
\<close>

section \<open>The levels of the scope graph\<close>

definition NESTED_ENV_LEVEL_BASE :: u32 where "NESTED_ENV_LEVEL_BASE = 128"

definition MAX_LEVEL :: u32 where "MAX_LEVEL = 255"

record env_plan =
  ep_levels :: "u32 \<rightharpoonup> u32"
  ep_shift :: u32

definition plan_shifted :: "u32 \<Rightarrow> u32 \<Rightarrow> u32" where
  "plan_shifted shift raw = (if 1 \<le> raw \<and> raw < NESTED_ENV_LEVEL_BASE then raw + shift else raw)"

definition plan_level :: "env_plan \<Rightarrow> u32 \<Rightarrow> u32 \<Rightarrow> u32" where
  "plan_level p at raw = (case ep_levels p at of Some l \<Rightarrow> l | None \<Rightarrow> plan_shifted (ep_shift p) raw)"

section \<open>The register map\<close>

record env_reg_map =
  er_reg_level :: "u32 \<rightharpoonup> u32"
  er_source_slot :: "u32 \<rightharpoonup> u32 \<times> u32"
  er_created_envs :: "u32 set"
  er_own_env_created :: bool
  er_extra_env_count :: u32
  er_slot_held_accesses :: u32
  er_at :: u32
  er_plan :: "env_plan option"
  er_sites :: "(u32 \<times> u32) list"
  er_accesses :: "(u32 \<times> u32) list"

definition new_env_reg_map :: env_reg_map where
  "new_env_reg_map = \<lparr>er_reg_level = Map.empty, er_source_slot = Map.empty, er_created_envs = {},
     er_own_env_created = False, er_extra_env_count = 0, er_slot_held_accesses = 0, er_at = 0,
     er_plan = None, er_sites = [], er_accesses = []\<rparr>"

definition parent_env_level :: "u32 \<Rightarrow> u32" where
  "parent_env_level operand_level = operand_level + 1"

definition set_env_level :: "u32 \<Rightarrow> u32 \<Rightarrow> env_reg_map \<Rightarrow> env_reg_map" where
  "set_env_level r level m = m\<lparr>er_reg_level := (er_reg_level m)(r \<mapsto> level),
     er_source_slot := (er_source_slot m)(r := None), er_created_envs := er_created_envs m - {r}\<rparr>"

definition claim_created_env :: "u32 \<Rightarrow> env_reg_map \<Rightarrow> u32 \<times> env_reg_map" where
  "claim_created_env r m =
     (let n = er_extra_env_count m + 1;
          level = min (NESTED_ENV_LEVEL_BASE + n) MAX_LEVEL;
          m = set_env_level r level (m\<lparr>er_extra_env_count := n\<rparr>) in
      (level, m\<lparr>er_created_envs := insert r (er_created_envs m),
                er_sites := er_sites m @ [(er_at m, level)]\<rparr>))"

definition claim_function_env :: "u32 \<Rightarrow> env_reg_map \<Rightarrow> u32 \<times> env_reg_map" where
  "claim_function_env r m =
     (if \<not> er_own_env_created m
      then (0, set_env_level r 0 (m\<lparr>er_own_env_created := True\<rparr>))
      else claim_created_env r m)"

definition is_created_env :: "env_reg_map \<Rightarrow> u32 \<Rightarrow> bool" where
  "is_created_env m r \<longleftrightarrow> r \<in> er_created_envs m"

definition level_of :: "env_reg_map \<Rightarrow> u32 \<Rightarrow> u32" where
  "level_of m r = (case er_reg_level m r of Some l \<Rightarrow> l | None \<Rightarrow> 0)"

definition set_source_slot :: "u32 \<Rightarrow> u32 \<Rightarrow> u32 \<Rightarrow> env_reg_map \<Rightarrow> env_reg_map" where
  "set_source_slot r level slot m = m\<lparr>er_source_slot := (er_source_slot m)(r \<mapsto> (level, slot))\<rparr>"

definition slot_identity :: "u32 \<Rightarrow> u32" where
  "slot_identity slot = min (NESTED_ENV_LEVEL_BASE + slot) MAX_LEVEL"

definition env_level_of :: "env_reg_map \<Rightarrow> u32 \<Rightarrow> u32" where
  "env_level_of m r =
     (case er_source_slot m r of
        Some (level, slot) \<Rightarrow> if level < NESTED_ENV_LEVEL_BASE then slot_identity slot else level_of m r
      | None \<Rightarrow> level_of m r)"

definition access_level_of :: "u32 \<Rightarrow> env_reg_map \<Rightarrow> u32 \<times> env_reg_map" where
  "access_level_of r m =
     (let held = (case er_source_slot m r of Some (level, _) \<Rightarrow> level < NESTED_ENV_LEVEL_BASE | None \<Rightarrow> False);
          m = (if held then m\<lparr>er_slot_held_accesses := er_slot_held_accesses m + 1\<rparr> else m);
          raw = env_level_of m r;
          m = m\<lparr>er_accesses := er_accesses m @ [(er_at m, raw)]\<rparr> in
      (case er_plan m of Some p \<Rightarrow> plan_level p (er_at m) raw | None \<Rightarrow> raw, m))"

definition copy_reg :: "u32 \<Rightarrow> u32 \<Rightarrow> env_reg_map \<Rightarrow> env_reg_map" where
  "copy_reg dst src m = m\<lparr>er_reg_level := (er_reg_level m)(dst := er_reg_level m src),
     er_source_slot := (er_source_slot m)(dst := er_source_slot m src),
     er_created_envs := (if src \<in> er_created_envs m then insert dst (er_created_envs m)
                         else er_created_envs m - {dst})\<rparr>"

lemmas env_ops = set_env_level_def claim_created_env_def claim_function_env_def is_created_env_def
  level_of_def set_source_slot_def env_level_of_def access_level_of_def copy_reg_def

end
