(* ===== verification/Lower_Objects.thy ===== *)
theory Lower_Objects
  imports Lower_Data
begin

text \<open>
  Lifting of the instructions on properties, objects, classes and arrays: the handlers of
  \<open>ir/builder/opcodes_prop.rs\<close> and \<open>opcodes_obj.rs\<close>, and the decoding of a type mask
  (\<open>opcodes_flow.rs\<close>) that \<open>TypeOfIs\<close> shares with the jumps.
\<close>

section \<open>Type masks\<close>

definition TYPEOF_IS_MASKS :: "(u32 \<times> string) list" where
  "TYPEOF_IS_MASKS = [(1, ''undefined''), (2 OR 256, ''object''), (4, ''string''), (8, ''symbol''),
     (16, ''boolean''), (32, ''number''), (64, ''bigint''), (128, ''function'')]"

abbreviation type_test :: "binary_op \<Rightarrow> expression \<Rightarrow> rust_string \<Rightarrow> expression" where
  "type_test op src t \<equiv> EBinary op (EUnary OpTypeOf src) (const_expr (CString t))"

definition typeof_is_condition :: "expression \<Rightarrow> u32 \<Rightarrow> expression" where
  "typeof_is_condition src tmask =
     (case find (\<lambda>(m, _). m = tmask) TYPEOF_IS_MASKS of
        Some (_, t) \<Rightarrow> type_test OpStrictEq src (lit t)
      | None \<Rightarrow>
          let all_types = fold (\<lambda>(m, _) a. a OR m) TYPEOF_IS_MASKS 0;
              rest = all_types AND NOT tmask in
          (case find (\<lambda>(m, _). m = rest) TYPEOF_IS_MASKS of
             Some (_, t) \<Rightarrow> type_test OpStrictNeq src (lit t)
           | None \<Rightarrow>
               (case map snd (filter (\<lambda>(m, _). tmask AND m = m) TYPEOF_IS_MASKS) of
                  [] \<Rightarrow> type_test OpStrictEq src (numbered ''type'' tmask)
                | first # others \<Rightarrow>
                    fold (\<lambda>t cond. EBinary OpLogicalOr cond (type_test OpStrictEq src (lit t))) others
                      (type_test OpStrictEq src (lit first)))))"

section \<open>Properties\<close>

text \<open>The name operand of the by-id instructions: the fourth, or the third of the short forms.\<close>

definition prop_index :: "instruction \<Rightarrow> u32 option" where
  "prop_index insn =
     (if 3 < length (in_operands insn) then operand_u32 insn 3
      else if 2 < length (in_operands insn) then operand_u32 insn 2
      else None)"

definition prop_name :: "bytecode_file \<Rightarrow> bool \<Rightarrow> u32 \<Rightarrow> rust_string" where
  "prop_name file resolve i = string_or file resolve i (numbered ''prop'' i) (numbered ''prop'' i)"

definition handle_get_by_id :: "instruction \<Rightarrow> bytecode_file \<Rightarrow> bool \<Rightarrow> statement option" where
  "handle_get_by_id insn file resolve = do {
     dst \<leftarrow> dst_reg insn 0;
     obj \<leftarrow> src_reg insn 1;
     i \<leftarrow> prop_index insn;
     Some (assign_reg dst (member obj (prop_name file resolve i))) }"

definition handle_get_by_id_with_receiver :: "instruction \<Rightarrow> bytecode_file \<Rightarrow> bool \<Rightarrow> statement option" where
  "handle_get_by_id_with_receiver insn file resolve = do {
     dst \<leftarrow> dst_reg insn 0;
     i \<leftarrow> last_operand_u32 insn;
     Some (assign_reg dst (member (EValue VSuper) (prop_name file resolve i))) }"

definition handle_try_get_by_id :: "instruction \<Rightarrow> bytecode_file \<Rightarrow> bool \<Rightarrow> statement option" where
  "handle_try_get_by_id insn file resolve = do {
     dst \<leftarrow> dst_reg insn 0;
     obj \<leftarrow> src_reg insn 1;
     i \<leftarrow> prop_index insn;
     Some (assign_reg dst (member obj (prop_name file resolve i))) }"

definition handle_put_by_id :: "instruction \<Rightarrow> bytecode_file \<Rightarrow> bool \<Rightarrow> statement option" where
  "handle_put_by_id insn file resolve = do {
     obj \<leftarrow> src_reg insn 0;
     v \<leftarrow> src_reg insn 1;
     i \<leftarrow> prop_index insn;
     Some (SAssign (TMember obj (prop_name file resolve i)) v) }"

definition handle_get_by_val :: "instruction \<Rightarrow> statement option" where
  "handle_get_by_val insn = do {
     dst \<leftarrow> dst_reg insn 0;
     obj \<leftarrow> src_reg insn 1;
     key \<leftarrow> src_reg insn 2;
     Some (assign_reg dst (indexed obj key)) }"

definition handle_put_by_val :: "instruction \<Rightarrow> statement option" where
  "handle_put_by_val insn = do {
     obj \<leftarrow> src_reg insn 0;
     key \<leftarrow> src_reg insn 1;
     v \<leftarrow> src_reg insn 2;
     Some (SAssign (TIndex obj key) v) }"

definition handle_del_by_val :: "instruction \<Rightarrow> statement option" where
  "handle_del_by_val insn = do {
     dst \<leftarrow> dst_reg insn 0;
     obj \<leftarrow> src_reg insn 1;
     key \<leftarrow> src_reg insn 2;
     Some (SDelete (indexed obj key) (Some dst)) }"

definition handle_typeof_is :: "instruction \<Rightarrow> statement option" where
  "handle_typeof_is insn = do {
     dst \<leftarrow> dst_reg insn 0;
     src \<leftarrow> src_reg insn 1;
     tmask \<leftarrow> operand_u32 insn 2;
     Some (assign_reg dst (typeof_is_condition src tmask)) }"

text \<open>\<open>TypeOfIsNot\<close>: the arm of \<open>try_prop_handlers\<close> that negates the whole condition.\<close>

definition handle_typeof_is_not :: "instruction \<Rightarrow> statement option" where
  "handle_typeof_is_not insn =
     map_option (\<lambda>stmt. case stmt of SAssign target v \<Rightarrow> SAssign target (EUnary OpNot v) | _ \<Rightarrow> stmt)
       (handle_typeof_is insn)"

definition handle_del_by_id :: "instruction \<Rightarrow> bytecode_file \<Rightarrow> bool \<Rightarrow> statement option" where
  "handle_del_by_id insn file resolve = do {
     dst \<leftarrow> dst_reg insn 0;
     obj \<leftarrow> src_reg insn 1;
     i \<leftarrow> operand_u32 insn 2;
     Some (SDelete (member obj (prop_name file resolve i)) (Some dst)) }"

definition handle_to_property_key :: "instruction \<Rightarrow> statement option" where
  "handle_to_property_key insn = do {
     dst \<leftarrow> dst_reg insn 0; v \<leftarrow> src_reg insn 1; Some (assign_reg dst v) }"

definition handle_get_by_val_with_receiver :: "instruction \<Rightarrow> statement option" where
  "handle_get_by_val_with_receiver insn = do {
     dst \<leftarrow> dst_reg insn 0;
     key \<leftarrow> src_reg insn 2;
     Some (assign_reg dst (indexed (EValue VSuper) key)) }"

definition handle_put_by_val_with_receiver :: "instruction \<Rightarrow> statement option" where
  "handle_put_by_val_with_receiver insn = do {
     key \<leftarrow> src_reg insn 1;
     v \<leftarrow> src_reg insn 2;
     Some (SAssign (TIndex (EValue VSuper) key) v) }"

definition private_name :: "rust_string \<Rightarrow> rust_string" where
  "private_name name =
     (if take 1 name = lit ''#'' then name
      else if is_valid_identifier name then lit ''#'' @ name
      else lit ''#brand'')"

definition handle_create_private_name :: "instruction \<Rightarrow> bytecode_file \<Rightarrow> bool \<Rightarrow> statement option" where
  "handle_create_private_name insn file resolve = do {
     dst \<leftarrow> dst_reg insn 0;
     i \<leftarrow> operand_u32 insn 1;
     Some (assign_reg dst (EValue (VBinding (BVariable (var_new (private_name
       (string_or file resolve i (numbered ''#private'' i) (numbered ''#private'' i)))))))) }"

definition handle_get_own_private_by_sym :: "instruction \<Rightarrow> statement option" where
  "handle_get_own_private_by_sym insn = do {
     dst \<leftarrow> dst_reg insn 0;
     obj \<leftarrow> src_reg insn 1;
     sym \<leftarrow> src_reg insn 3;
     Some (assign_reg dst (indexed obj sym)) }"

definition handle_put_own_private_by_sym :: "instruction \<Rightarrow> statement option" where
  "handle_put_own_private_by_sym insn = do {
     obj \<leftarrow> src_reg insn 0;
     v \<leftarrow> src_reg insn 1;
     sym \<leftarrow> src_reg insn 3;
     Some (SAssign (TIndex obj sym) v) }"

definition handle_add_own_private_by_sym :: "instruction \<Rightarrow> statement option" where
  "handle_add_own_private_by_sym insn = do {
     obj \<leftarrow> src_reg insn 0;
     v \<leftarrow> src_reg insn 1;
     sym \<leftarrow> src_reg insn 2;
     Some (SAssign (TIndex obj sym) v) }"

definition handle_private_is_in :: "instruction \<Rightarrow> statement option" where
  "handle_private_is_in insn = do {
     dst \<leftarrow> dst_reg insn 0;
     sym \<leftarrow> src_reg insn 1;
     obj \<leftarrow> src_reg insn 2;
     Some (assign_reg dst (EBinary OpIn sym obj)) }"

section \<open>Literals of the buffers\<close>

text \<open>\<open>n as i64\<close> on a double: towards zero, saturating, 0 for a NaN.\<close>

definition f64_to_i64 :: "f64_bits \<Rightarrow> i64" where
  "f64_to_i64 b =
     (let e = unat (drop_bit 52 b AND 0x7ff);
          m = unat (take_bit 52 b);
          size = (if e = 0 then 0
                  else if e < 1075 then (2 ^ 52 + m) div 2 ^ (1075 - e)
                  else (2 ^ 52 + m) * 2 ^ (e - 1075)) in
      if e = 0x7ff \<and> m \<noteq> 0 then 0
      else if bit b 63 then - of_nat (min size (2 ^ 63))
      else of_nat (min size (2 ^ 63 - 1)))"

fun literal_to_expression :: "literal_value \<Rightarrow> expression" where
  "literal_to_expression LNull = const_expr CNull"
| "literal_to_expression (LBool b) = const_expr (CBool b)"
| "literal_to_expression (LNumber n) = const_expr (CNumber n)"
| "literal_to_expression (LInteger i) = const_expr (CInteger i)"
| "literal_to_expression (LString s) = const_expr (CString s)"
| "literal_to_expression LUndefined = const_expr CUndefined"

fun literal_to_property_key :: "literal_value \<Rightarrow> property_key" where
  "literal_to_property_key (LString s) = PIdent s"
| "literal_to_property_key (LInteger i) = PIndex (scast i)"
| "literal_to_property_key (LNumber n) = PIndex (f64_to_i64 n)"
| "literal_to_property_key LNull = PString (lit ''Null'')"
| "literal_to_property_key (LBool b) = PString (lit (if b then ''Bool(true)'' else ''Bool(false)''))"
| "literal_to_property_key LUndefined = PString (lit ''Undefined'')"

definition literal_properties :: "literal_value list \<Rightarrow> literal_value list \<Rightarrow> (property_key \<times> expression) list" where
  "literal_properties keys vals =
     map (\<lambda>(k, v). (literal_to_property_key k, literal_to_expression v)) (zip keys vals)"

section \<open>Objects and classes\<close>

definition handle_new_object :: "instruction \<Rightarrow> statement option" where
  "handle_new_object insn = do { dst \<leftarrow> dst_reg insn 0; Some (assign_reg dst (EObject [])) }"

text \<open>The name a function header carries, when strings are resolved and it is not empty.\<close>

definition function_name_at :: "bytecode_file \<Rightarrow> bool \<Rightarrow> u32 \<Rightarrow> rust_string option" where
  "function_name_at file resolve i =
     (if \<not> resolve then None
      else do {
        h \<leftarrow> list_get (bf_function_headers file) (unat i);
        e \<leftarrow> string_at file (fh_function_name h);
        (if st_value e = [] then None else Some (st_value e)) })"

definition EXTENDS_MARKER :: string where
  "EXTENDS_MARKER = ''__hermes_class_extends__''"

definition super_temp :: "u32 \<Rightarrow> u32" where
  "super_temp func_idx = 0xFFFF0000 OR (func_idx AND 0xFFFF)"

definition handle_create_class :: "instruction \<Rightarrow> bytecode_file \<Rightarrow> bool \<Rightarrow> bool \<Rightarrow> statement option" where
  "handle_create_class insn file resolve derived = do {
     class_reg \<leftarrow> dst_reg insn 0;
     home_reg \<leftarrow> dst_reg insn 1;
     func_idx \<leftarrow> last_operand_u32 insn;
     let class_assign = assign_reg class_reg
           (EFunction func_idx (function_name_at file resolve func_idx) False False False);
         proto = (if home_reg \<noteq> class_reg
                  then [assign_reg home_reg (member (EReg class_reg) (lit ''prototype''))] else []) in
     (case (if derived then get_reg (in_operands insn) 3 else None) of
        Some super_reg \<Rightarrow>
          Some (SBlock ([assign_reg (super_temp func_idx) (EReg super_reg), class_assign] @ proto @
            [SExpr (ECall (variable EXTENDS_MARKER) [EReg class_reg, EReg (super_temp func_idx)])]))
      | None \<Rightarrow> Some (SBlock (class_assign # proto))) }"

text \<open>The pairs an object-with-buffer instruction was built from.\<close>

definition buffer_object_properties ::
  "instruction \<Rightarrow> bytecode_file \<Rightarrow> nat \<Rightarrow> nat \<Rightarrow> (property_key \<times> expression) list option \<times> bytecode_file" where
  "buffer_object_properties insn file shape_op val_op =
     (case do { shape_id \<leftarrow> operand_u32 insn shape_op;
                off \<leftarrow> operand_u32 insn val_op;
                shape \<leftarrow> shape_at file shape_id;
                Some (off, shape) } of
        None \<Rightarrow> (None, file)
      | Some (off, shape) \<Rightarrow>
          (case read_key_buffer_series file (sh_key_buffer_offset shape) (sh_num_props shape) of
             (Inl _, file) \<Rightarrow> (None, file)
           | (Inr keys, file) \<Rightarrow>
               (case read_value_buffer_series file off (sh_num_props shape) of
                  (Inl _, file) \<Rightarrow> (None, file)
                | (Inr vals, file) \<Rightarrow> (Some (literal_properties keys vals), file))))"

definition global_object :: "string \<Rightarrow> expression" where
  "global_object name = member (member (EValue VGlobal) (lit ''Object'')) (lit name)"

definition handle_new_object_with_parent ::
  "instruction \<Rightarrow> bytecode_file \<Rightarrow> statement option \<times> bytecode_file" where
  "handle_new_object_with_parent insn file =
     (case do { dst \<leftarrow> dst_reg insn 0; parent \<leftarrow> src_reg insn 1; Some (dst, parent) } of
        None \<Rightarrow> (None, file)
      | Some (dst, parent) \<Rightarrow>
          let create = ECall (global_object ''create'') [parent];
              (props, file) = (if 4 \<le> length (in_operands insn) then buffer_object_properties insn file 2 3
                               else (None, file)) in
          (case props of
             Some (p # ps) \<Rightarrow>
               (Some (assign_reg dst (ECall (global_object ''assign'') [create, EObject (p # ps)])), file)
           | _ \<Rightarrow> (Some (assign_reg dst create), file)))"

text \<open>Where the keys and values of \<open>NewObjectWithBuffer\<close> are: the outer option is a missing
  operand, the inner one too few operands for either format.\<close>

definition buffer_layout :: "instruction \<Rightarrow> bytecode_file \<Rightarrow> (u32 \<times> u32 \<times> u32) option option" where
  "buffer_layout insn file =
     (if 5 \<le> length (in_operands insn) then do {
        n \<leftarrow> operand_u32 insn 2;
        keys \<leftarrow> operand_u32 insn 3;
        vals \<leftarrow> operand_u32 insn 4;
        Some (Some (keys, vals, n)) }
      else if 3 \<le> length (in_operands insn) then do {
        shape_id \<leftarrow> operand_u32 insn 1;
        vals \<leftarrow> operand_u32 insn 2;
        shape \<leftarrow> shape_at file shape_id;
        Some (Some (sh_key_buffer_offset shape, vals, sh_num_props shape)) }
      else Some None)"

definition handle_new_object_with_buffer ::
  "instruction \<Rightarrow> bytecode_file \<Rightarrow> statement option \<times> bytecode_file" where
  "handle_new_object_with_buffer insn file =
     (case do { dst \<leftarrow> dst_reg insn 0; layout \<leftarrow> buffer_layout insn file; Some (dst, layout) } of
        None \<Rightarrow> (None, file)
      | Some (dst, None) \<Rightarrow> (Some (assign_reg dst (EObject [])), file)
      | Some (dst, Some (key_off, val_off, n)) \<Rightarrow>
          let (keys, file) = read_key_buffer_series file key_off n;
              (vals, file) = read_value_buffer_series file val_off n in
          (Some (assign_reg dst (EObject
             (case (keys, vals) of (Inr ks, Inr vs) \<Rightarrow> literal_properties ks vs | _ \<Rightarrow> []))), file))"

section \<open>Arrays\<close>

definition handle_new_array :: "instruction \<Rightarrow> statement option" where
  "handle_new_array insn = do {
     dst \<leftarrow> dst_reg insn 0; n \<leftarrow> operand_u32 insn 1; Some (assign_reg dst (EArray (replicate (unat n) None))) }"

definition handle_new_array_with_buffer ::
  "instruction \<Rightarrow> bytecode_file \<Rightarrow> statement option \<times> bytecode_file" where
  "handle_new_array_with_buffer insn file =
     (case do { dst \<leftarrow> dst_reg insn 0; prealloc \<leftarrow> operand_u32 insn 1; n \<leftarrow> operand_u32 insn 2;
                off \<leftarrow> operand_u32 insn 3; Some (dst, n, off) } of
        None \<Rightarrow> (None, file)
      | Some (dst, n, off) \<Rightarrow>
          (case read_array_buffer_series file off n of
             (vals, file) \<Rightarrow>
               (Some (assign_reg dst (EArray
                  (case vals of Inr vs \<Rightarrow> map (\<lambda>v. Some (literal_to_expression v)) vs | Inl _ \<Rightarrow> []))), file)))"

definition handle_put_own_by_index :: "instruction \<Rightarrow> statement option" where
  "handle_put_own_by_index insn = do {
     obj \<leftarrow> src_reg insn 0; v \<leftarrow> src_reg insn 1; i \<leftarrow> operand_u32 insn 2;
     Some (SAssign (TIndex obj (int_const i)) v) }"

definition handle_get_own_by_slot :: "instruction \<Rightarrow> statement option" where
  "handle_get_own_by_slot insn = do {
     dst \<leftarrow> dst_reg insn 0; obj \<leftarrow> src_reg insn 1; slot \<leftarrow> operand_u32 insn 2;
     Some (assign_reg dst (indexed obj (int_const slot))) }"

definition handle_get_by_index :: "instruction \<Rightarrow> statement option" where
  "handle_get_by_index insn = do {
     dst \<leftarrow> dst_reg insn 0; obj \<leftarrow> src_reg insn 1; i \<leftarrow> operand_u32 insn 2;
     Some (assign_reg dst (indexed obj (int_const i))) }"

definition handle_put_own_by_val :: "instruction \<Rightarrow> statement option" where
  "handle_put_own_by_val insn = do {
     obj \<leftarrow> src_reg insn 0; v \<leftarrow> src_reg insn 1; key \<leftarrow> src_reg insn 2;
     Some (SAssign (TIndex obj key) v) }"

definition handle_fast_array_load :: "instruction \<Rightarrow> statement option" where
  "handle_fast_array_load insn = do {
     dst \<leftarrow> dst_reg insn 0; arr \<leftarrow> src_reg insn 1; i \<leftarrow> src_reg insn 2;
     Some (assign_reg dst (indexed arr i)) }"

definition handle_fast_array_store :: "instruction \<Rightarrow> statement option" where
  "handle_fast_array_store insn = do {
     arr \<leftarrow> src_reg insn 0; i \<leftarrow> src_reg insn 1; v \<leftarrow> src_reg insn 2;
     Some (SAssign (TIndex arr i) v) }"

definition handle_fast_array_push :: "instruction \<Rightarrow> statement option" where
  "handle_fast_array_push insn = do {
     arr \<leftarrow> src_reg insn 0; v \<leftarrow> src_reg insn 1;
     Some (SExpr (ECall (member arr (lit ''push'')) [v])) }"

definition handle_fast_array_length :: "instruction \<Rightarrow> statement option" where
  "handle_fast_array_length insn = do {
     dst \<leftarrow> dst_reg insn 0; arr \<leftarrow> src_reg insn 1;
     Some (assign_reg dst (member arr (lit ''length''))) }"

definition handle_fast_array_append :: "instruction \<Rightarrow> statement option" where
  "handle_fast_array_append insn = do {
     dst \<leftarrow> src_reg insn 0; src \<leftarrow> src_reg insn 1;
     Some (SExpr (ECall (member dst (lit ''push'')) [ESpread src])) }"

section \<open>The rest\<close>

definition handle_create_regexp :: "instruction \<Rightarrow> bytecode_file \<Rightarrow> bool \<Rightarrow> statement option" where
  "handle_create_regexp insn file resolve = do {
     dst \<leftarrow> dst_reg insn 0;
     pattern_idx \<leftarrow> operand_u32 insn 1;
     flags_idx \<leftarrow> operand_u32 insn 2;
     Some (assign_reg dst (ERegExp (string_or file resolve pattern_idx [] (numbered ''string'' pattern_idx))
       (string_or file resolve flags_idx [] []))) }"

definition handle_get_arguments_length :: "instruction \<Rightarrow> statement option" where
  "handle_get_arguments_length insn = do {
     dst \<leftarrow> dst_reg insn 0; Some (assign_reg dst (member (EValue VArguments) (lit ''length''))) }"

definition handle_get_arguments_prop_by_val :: "instruction \<Rightarrow> statement option" where
  "handle_get_arguments_prop_by_val insn = do {
     dst \<leftarrow> dst_reg insn 0; i \<leftarrow> src_reg insn 1;
     Some (assign_reg dst (indexed (EValue VArguments) i)) }"

definition handle_reify_arguments :: "instruction \<Rightarrow> statement option" where
  "handle_reify_arguments insn = do { dst \<leftarrow> dst_reg insn 0; Some (assign_reg dst (EValue VArguments)) }"

definition handle_create_this :: "instruction \<Rightarrow> statement option" where
  "handle_create_this insn = do { dst \<leftarrow> dst_reg insn 0; Some (assign_reg dst (EValue VThis)) }"

definition handle_get_new_target :: "instruction \<Rightarrow> statement option" where
  "handle_get_new_target insn = do { dst \<leftarrow> dst_reg insn 0; Some (assign_reg dst (EValue VNewTarget)) }"

definition handle_iterator_begin :: "instruction \<Rightarrow> statement option" where
  "handle_iterator_begin insn = do {
     dst \<leftarrow> dst_reg insn 0;
     source \<leftarrow> src_reg insn 1;
     Some (assign_reg dst (ECall (indexed source (member (variable ''Symbol'') (lit ''iterator''))) [])) }"

definition handle_iterator_next :: "instruction \<Rightarrow> statement option" where
  "handle_iterator_next insn = do {
     dst \<leftarrow> dst_reg insn 0; iter \<leftarrow> src_reg insn 1;
     Some (assign_reg dst (ECall (member iter (lit ''next'')) [])) }"

definition handle_iterator_close :: "instruction \<Rightarrow> statement option" where
  "handle_iterator_close insn = do {
     iter \<leftarrow> src_reg insn 0; Some (SExpr (ECall (member iter (lit ''return'')) [])) }"

definition handle_get_pname_list :: "instruction \<Rightarrow> statement option" where
  "handle_get_pname_list insn = do {
     dst \<leftarrow> dst_reg insn 0;
     obj \<leftarrow> src_reg insn 1;
     idx \<leftarrow> src_reg insn 2;
     sz \<leftarrow> src_reg insn 3;
     Some (assign_reg dst (ECall (member (variable ''Object'') (lit ''keys'')) [obj])) }"

definition handle_put_own_getter_setter_by_val :: "instruction \<Rightarrow> statement option" where
  "handle_put_own_getter_setter_by_val insn = do {
     obj \<leftarrow> src_reg insn 0;
     key \<leftarrow> src_reg insn 1;
     getter \<leftarrow> src_reg insn 2;
     setter \<leftarrow> src_reg insn 3;
     Some (SExpr (ECall (global_object ''defineProperty'')
       [const_expr CUndefined, obj, key,
        EObject [(PIdent (lit ''get''), getter), (PIdent (lit ''set''), setter)]])) }"

end
