(* ===== verification/Lower_Calls.thy ===== *)
theory Lower_Calls
  imports Lower_Objects Env_Levels
begin

text \<open>
  Lifting of calls, closures and environments: \<open>ir/builder/opcodes_call.rs\<close> and
  \<open>opcodes_environment.rs\<close>.  The builtin table of a version (\<open>builtins_for_version\<close>) comes from a
  JSON resource: it is the parameter \<open>builtins\<close>.  The environment handlers return the register map.
\<close>

section \<open>The result of lifting one instruction\<close>

datatype flow_result =
    FlowStatement statement
  | FlowJump u32
  | FlowBranch expression u32 u32
  | FlowReturn "expression option"
  | FlowThrow expression
  | FlowNoop
  | FlowSwitch expression u32 "(expression \<times> u32) list"

section \<open>Implicit arguments\<close>

definition MAX_CALL_ARGS :: nat where "MAX_CALL_ARGS = 2 ^ 16"

definition THIS_ARG_FROM_TOP :: u32 where "THIS_ARG_FROM_TOP = 7"

definition NEW_TARGET_FRAME_SLOT_MIN_VERSION :: u32 where "NEW_TARGET_FRAME_SLOT_MIN_VERSION = 97"

text \<open>The loop stops at the first register below 0.\<close>

fun arg_registers :: "nat \<Rightarrow> nat \<Rightarrow> expression list" where
  "arg_registers 0 hi = []"
| "arg_registers (Suc n) 0 = [EReg 0]"
| "arg_registers (Suc n) (Suc hi) = EReg (of_nat (Suc hi)) # arg_registers n hi"

definition resolve_implicit_args_from :: "nat \<Rightarrow> u32 \<Rightarrow> u32 \<Rightarrow> expression list" where
  "resolve_implicit_args_from arg_count frame_size this_from_top =
     (if frame_size < this_from_top then []
      else arg_registers (min arg_count MAX_CALL_ARGS) (unat (frame_size - this_from_top)))"

definition this_from_top :: "u32 \<Rightarrow> u32" where
  "this_from_top ver = (if NEW_TARGET_FRAME_SLOT_MIN_VERSION \<le> ver then THIS_ARG_FROM_TOP + 1 else THIS_ARG_FROM_TOP)"

text \<open>The arguments of a call, and those of a construct, which drop the receiver.\<close>

definition implicit_args :: "u32 \<Rightarrow> u32 \<Rightarrow> u32 \<Rightarrow> expression list" where
  "implicit_args arg_count frame_size ver =
     resolve_implicit_args_from (unat arg_count) frame_size (this_from_top ver)"

section \<open>Calls\<close>

definition call_fixed_count :: "string \<Rightarrow> nat option" where
  "call_fixed_count name =
     (if name = ''Call1'' then Some 1 else if name = ''Call2'' then Some 2
      else if name = ''Call3'' then Some 3 else if name = ''Call4'' then Some 4 else None)"

definition handle_call_fixed :: "string \<Rightarrow> instruction \<Rightarrow> statement option" where
  "handle_call_fixed name insn = do {
     dst \<leftarrow> dst_reg insn 0;
     callee \<leftarrow> src_reg insn 1;
     n \<leftarrow> call_fixed_count name;
     Some (assign_reg dst (ECall callee (List.map_filter (\<lambda>i. src_reg insn (2 + i)) [0..<n]))) }"

definition handle_call :: "instruction \<Rightarrow> u32 \<Rightarrow> u32 \<Rightarrow> statement option" where
  "handle_call insn frame_size ver = do {
     dst \<leftarrow> dst_reg insn 0;
     callee \<leftarrow> src_reg insn 1;
     n \<leftarrow> operand_u32 insn 2;
     Some (assign_reg dst (ECall callee (implicit_args n frame_size ver))) }"

definition handle_construct :: "instruction \<Rightarrow> u32 \<Rightarrow> u32 \<Rightarrow> statement option" where
  "handle_construct insn frame_size ver = do {
     dst \<leftarrow> dst_reg insn 0;
     callee \<leftarrow> src_reg insn 1;
     n \<leftarrow> operand_u32 insn 2;
     Some (assign_reg dst (ENew callee (drop 1 (implicit_args n frame_size ver)))) }"

definition handle_call_with_new_target :: "instruction \<Rightarrow> u32 \<Rightarrow> u32 \<Rightarrow> statement option" where
  "handle_call_with_new_target insn frame_size ver = do {
     dst \<leftarrow> dst_reg insn 0;
     callee \<leftarrow> src_reg insn 1;
     new_target \<leftarrow> src_reg insn 2;
     n \<leftarrow> operand_u32 insn 3;
     Some (assign_reg dst (ECall (member (variable ''Reflect'') (lit ''construct''))
       [variable ''Reflect'', callee, EArray (map Some (drop 1 (implicit_args n frame_size ver))), new_target])) }"

definition handle_load_parent :: "instruction \<Rightarrow> statement option" where
  "handle_load_parent insn = do {
     dst \<leftarrow> dst_reg insn 0;
     obj \<leftarrow> src_reg insn 1;
     Some (assign_reg dst (ECall (member (variable ''Object'') (lit ''getPrototypeOf'')) [variable ''Object'', obj])) }"

section \<open>Closures\<close>

text \<open>The three closure handlers of the code differ in the two flags alone.\<close>

definition closure_assign :: "bool \<Rightarrow> bool \<Rightarrow> instruction \<Rightarrow> bytecode_file \<Rightarrow> bool \<Rightarrow> statement option" where
  "closure_assign is_async is_generator insn file resolve = do {
     dst \<leftarrow> dst_reg insn 0;
     func_idx \<leftarrow> operand_u32 insn 2;
     Some (assign_reg dst (EFunction func_idx (function_name_at file resolve func_idx)
       (case list_get (bf_function_headers file) (unat func_idx) of Some h \<Rightarrow> is_likely_arrow h | None \<Rightarrow> False)
       is_async is_generator)) }"

definition handle_create_closure :: "instruction \<Rightarrow> bytecode_file \<Rightarrow> bool \<Rightarrow> statement option" where
  "handle_create_closure = closure_assign False False"

definition handle_create_async_closure :: "instruction \<Rightarrow> bytecode_file \<Rightarrow> bool \<Rightarrow> statement option" where
  "handle_create_async_closure = closure_assign True False"

definition handle_create_generator_closure :: "instruction \<Rightarrow> bytecode_file \<Rightarrow> bool \<Rightarrow> statement option" where
  "handle_create_generator_closure = closure_assign False True"

section \<open>Builtins\<close>

text \<open>\<open>rsplit('.').next()\<close>: what follows the last dot.\<close>

definition last_segment :: "string \<Rightarrow> string" where
  "last_segment s = rev (takeWhile (\<lambda>c. c \<noteq> CHR ''.'') (rev s))"

definition builtin_name_to_expr :: "string \<Rightarrow> expression" where
  "builtin_name_to_expr name =
     (if CHR ''.'' \<in> set name
      then member (member (EValue VGlobal) (lit (takeWhile (\<lambda>c. c \<noteq> CHR ''.'') name)))
             (lit (tl (dropWhile (\<lambda>c. c \<noteq> CHR ''.'') name)))
      else member (EValue VGlobal) (lit name))"

definition builtin_call :: "string option \<Rightarrow> u32 \<Rightarrow> expression list \<Rightarrow> expression" where
  "builtin_call raw builtin_idx arguments =
     (let suffix = (case raw of Some n \<Rightarrow> last_segment n | None \<Rightarrow> '''') in
      if suffix = ''exponentiationOperator'' \<and> 2 \<le> length arguments
      then EBinary OpExp (arguments ! 0) (arguments ! 1)
      else if suffix = ''requireFast'' then ECall (variable ''require'') arguments
      else if suffix = ''silentSetPrototypeOf''
      then ECall (builtin_name_to_expr ''Object.setPrototypeOf'') arguments
      else if suffix \<in> {''copyDataProperties'', ''exportAll''}
      then ECall (builtin_name_to_expr ''Object.assign'') arguments
      else (case raw of
              Some n \<Rightarrow> ECall (builtin_name_to_expr n) arguments
            | None \<Rightarrow> ECall (EValue (VBinding (BVariable (var_new (numbered ''__builtin'' builtin_idx))))) arguments))"

definition handle_call_builtin :: "(u32 \<Rightarrow> string list) \<Rightarrow> instruction \<Rightarrow> u32 \<Rightarrow> u32 \<Rightarrow> statement option" where
  "handle_call_builtin builtins insn frame_size ver = do {
     dst \<leftarrow> dst_reg insn 0;
     builtin_idx \<leftarrow> operand_u32 insn 1;
     n \<leftarrow> operand_u32 insn 2;
     let raw = list_get (builtins ver) (unat builtin_idx);
         suffix = (case raw of Some s \<Rightarrow> last_segment s | None \<Rightarrow> '''');
         arguments = implicit_args n frame_size ver in
     Some (assign_reg dst (builtin_call raw builtin_idx
       (if suffix \<in> {''arraySpread'', ''apply''} then arguments else drop 1 arguments))) }"

definition builtin_ref_expr :: "(u32 \<Rightarrow> string list) \<Rightarrow> u32 \<Rightarrow> u32 \<Rightarrow> expression" where
  "builtin_ref_expr builtins i ver =
     (case list_get (builtins ver) (unat i) of
        Some name \<Rightarrow> builtin_name_to_expr name
      | None \<Rightarrow> EUnknown (numbered ''builtin'' i) [])"

definition handle_get_builtin_closure :: "(u32 \<Rightarrow> string list) \<Rightarrow> instruction \<Rightarrow> u32 \<Rightarrow> statement option" where
  "handle_get_builtin_closure builtins insn ver = do {
     dst \<leftarrow> dst_reg insn 0;
     i \<leftarrow> operand_u32 insn 1;
     Some (assign_reg dst (case list_get (builtins ver) (unat i) of
       Some name \<Rightarrow> builtin_name_to_expr name
     | None \<Rightarrow> EUnknown (numbered ''builtin'' i) [])) }"

definition handle_call_require :: "instruction \<Rightarrow> statement option" where
  "handle_call_require insn = do {
     dst \<leftarrow> dst_reg insn 0;
     let module_arg = (case list_get (in_operands insn) 2 of
           Some op \<Rightarrow> (case op_value op of U8 v \<Rightarrow> Some (ucast v) | U16 v \<Rightarrow> Some (ucast v) | U32 v \<Rightarrow> Some v | _ \<Rightarrow> None)
         | None \<Rightarrow> None);
         arg = (case module_arg of
           Some i \<Rightarrow> int_const i
         | None \<Rightarrow> (case src_reg insn 2 of Some e \<Rightarrow> e | None \<Rightarrow> int_const (- 1))) in
     Some (assign_reg dst (ECall (variable ''require'') [arg])) }"

definition handle_direct_eval :: "instruction \<Rightarrow> statement option" where
  "handle_direct_eval insn = do {
     dst \<leftarrow> dst_reg insn 0;
     source \<leftarrow> src_reg insn 1;
     Some (assign_reg dst (ECall (variable ''eval'') [source])) }"

text \<open>The two builtins that never return become a throw (\<open>dispatch.rs\<close>).\<close>

definition thrown_constructor :: "rust_string \<Rightarrow> string option" where
  "thrown_constructor p =
     (if p = lit ''throwTypeError'' then Some ''TypeError''
      else if p = lit ''throwReferenceError'' then Some ''ReferenceError''
      else None)"

fun noreturn_builtin_result :: "statement \<Rightarrow> flow_result" where
  "noreturn_builtin_result (SAssign target (ECall callee arguments)) =
     (case (case callee of
              EMember _ (PIdent p) _ \<Rightarrow> thrown_constructor p
            | EMember _ (PString p) _ \<Rightarrow> thrown_constructor p
            | _ \<Rightarrow> None) of
        Some ctor \<Rightarrow> FlowThrow (ENew (member (EValue VGlobal) (lit ctor)) arguments)
      | None \<Rightarrow> FlowStatement (SAssign target (ECall callee arguments)))"
| "noreturn_builtin_result stmt = FlowStatement stmt"

section \<open>Environments\<close>

type_synonym env_handler = "env_reg_map \<Rightarrow> flow_result option \<times> env_reg_map"

definition handle_create_environment :: "string \<Rightarrow> instruction \<Rightarrow> env_handler" where
  "handle_create_environment name insn m =
     (case dst_reg insn 0 of
        None \<Rightarrow> (None, m)
      | Some dst \<Rightarrow>
          (Some FlowNoop,
           if name = ''CreateFunctionEnvironment'' then snd (claim_function_env dst m)
           else if name = ''CreateEnvironment'' \<and> 3 \<le> length (in_operands insn)
                \<or> name \<in> {''CreateTopLevelEnvironment'', ''CreateInnerEnvironment''}
           then snd (claim_created_env dst m)
           else set_env_level dst 0 m))"

text \<open>The last operand that is an unsigned number, 0 without one.\<close>

definition last_level :: "instruction \<Rightarrow> u32" where
  "last_level insn =
     (case List.map_filter (\<lambda>op. as_u32 (op_value op)) (rev (in_operands insn)) of [] \<Rightarrow> 0 | l # _ \<Rightarrow> l)"

definition handle_get_environment :: "string \<Rightarrow> instruction \<Rightarrow> env_handler" where
  "handle_get_environment name insn m =
     (case do { dst \<leftarrow> dst_reg insn 0;
                level \<leftarrow> (if name = ''GetEnvironment'' \<and> length (in_operands insn) = 3
                         then do { start \<leftarrow> dst_reg insn 1; Some (level_of m start + last_level insn) }
                         else Some (parent_env_level (last_level insn)));
                Some (dst, level) } of
        None \<Rightarrow> (None, m)
      | Some (dst, level) \<Rightarrow> (Some FlowNoop, set_env_level dst level m))"

definition handle_get_closure_environment :: "instruction \<Rightarrow> env_handler" where
  "handle_get_closure_environment insn m =
     (case dst_reg insn 0 of None \<Rightarrow> (None, m) | Some dst \<Rightarrow> (Some FlowNoop, m))"

definition handle_load_from_environment :: "instruction \<Rightarrow> env_handler" where
  "handle_load_from_environment insn m =
     (case do { dst \<leftarrow> dst_reg insn 0; env_reg \<leftarrow> dst_reg insn 1; slot \<leftarrow> operand_u32 insn 2;
                Some (dst, env_reg, slot) } of
        None \<Rightarrow> (None, m)
      | Some (dst, env_reg, slot) \<Rightarrow>
          let (level, m) = access_level_of env_reg m in
          (Some (FlowStatement (assign_reg dst (EValue (VBinding (BClosureVar level slot))))),
           set_source_slot dst level slot m))"

definition handle_store_to_environment :: "instruction \<Rightarrow> env_handler" where
  "handle_store_to_environment insn m =
     (case do { env_reg \<leftarrow> dst_reg insn 0; slot \<leftarrow> operand_u32 insn 1; Some (env_reg, slot) } of
        None \<Rightarrow> (None, m)
      | Some (env_reg, slot) \<Rightarrow>
          let (level, m) = access_level_of env_reg m in
          (case dst_reg insn 2 of
             None \<Rightarrow> (None, m)
           | Some value_reg \<Rightarrow>
               (Some (FlowStatement (SAssign (TBinding (BClosureVar level slot)) (EReg value_reg))),
                if is_created_env m value_reg then set_source_slot value_reg level slot m else m)))"

definition handle_store_np_to_environment :: "instruction \<Rightarrow> env_handler" where
  "handle_store_np_to_environment = handle_store_to_environment"

end
