(* ===== verification/Lower_Flow.thy ===== *)
theory Lower_Flow
  imports Lower_Calls
begin

text \<open>
  Lifting of control flow and the dispatch over all handlers: \<open>ir/builder/opcodes_flow.rs\<close>,
  \<open>opcodes_switch.rs\<close>, \<open>opcodes_generator.rs\<close>, \<open>dispatch.rs\<close>, and the targets of an instruction as
  the jump analysis reads them (\<open>explicit_targets\<close> of \<open>jump_analysis.rs\<close>).  Table positions are sums of
  three 32-bit numbers and a product below \<open>2 ^ 36\<close>, so the saturating \<open>usize\<close> arithmetic is exact.
\<close>

section \<open>Jumps\<close>

text \<open>The target an address operand names, unless it lies before the function.\<close>

definition address_target :: "instruction \<Rightarrow> operand \<Rightarrow> u32 option" where
  "address_target insn op =
     (if op_ty op \<in> {Addr8, Addr32}
      then do { rel \<leftarrow> as_i32 (op_value op);
                let t = in_offset insn + rel in if 0 \<le> sint t then Some t else None }
      else None)"

definition get_jump_target :: "instruction \<Rightarrow> bytecode_format \<Rightarrow> u32 option" where
  "get_jump_target insn format = do {
     def \<leftarrow> definition_at format (in_opcode insn);
     (if is_jump def
      then (case List.map_filter (address_target insn) (in_operands insn) of [] \<Rightarrow> None | t # _ \<Rightarrow> Some t)
      else None) }"

definition next_offset :: "instruction \<Rightarrow> u32" where
  "next_offset insn = in_offset insn + in_length insn"

definition handle_jmp :: "instruction \<Rightarrow> bytecode_format \<Rightarrow> flow_result option" where
  "handle_jmp insn format = do { t \<leftarrow> get_jump_target insn format; Some (FlowJump t) }"

definition handle_jmp_cond :: "string \<Rightarrow> instruction \<Rightarrow> bytecode_format \<Rightarrow> flow_result option" where
  "handle_jmp_cond name insn format = do {
     t \<leftarrow> get_jump_target insn format;
     cond \<leftarrow> src_reg insn 1;
     Some (FlowBranch (if name_contains ''False'' name then EUnary OpNot cond else cond) t (next_offset insn)) }"

text \<open>\<open>trim_end_matches("Long")\<close>, on the reversed name.\<close>

fun trim_long :: "string \<Rightarrow> string" where
  "trim_long (a # b # c # d # rest) = (if [a, b, c, d] = ''gnoL'' then trim_long rest else a # b # c # d # rest)"
| "trim_long s = s"

definition jmp_comparison_op :: "string \<Rightarrow> binary_op option" where
  "jmp_comparison_op base =
     (if base = ''JEqual'' then Some OpEq
      else if base = ''JNotEqual'' then Some OpNeq
      else if base = ''JStrictEqual'' then Some OpStrictEq
      else if base = ''JStrictNotEqual'' then Some OpStrictNeq
      else if base \<in> {''JLess'', ''JLessN''} then Some OpLt
      else if base \<in> {''JLessEqual'', ''JLessEqualN''} then Some OpLe
      else if base \<in> {''JGreater'', ''JGreaterN''} then Some OpGt
      else if base \<in> {''JGreaterEqual'', ''JGreaterEqualN''} then Some OpGe
      else if base \<in> {''JNotLess'', ''JNotLessN''} then Some OpGe
      else if base \<in> {''JNotLessEqual'', ''JNotLessEqualN''} then Some OpGt
      else if base \<in> {''JNotGreater'', ''JNotGreaterN''} then Some OpLe
      else if base \<in> {''JNotGreaterEqual'', ''JNotGreaterEqualN''} then Some OpLt
      else None)"

definition handle_jmp_comparison :: "string \<Rightarrow> instruction \<Rightarrow> bytecode_format \<Rightarrow> flow_result option" where
  "handle_jmp_comparison name insn format = do {
     t \<leftarrow> get_jump_target insn format;
     left \<leftarrow> src_reg insn 1;
     right \<leftarrow> src_reg insn 2;
     op \<leftarrow> jmp_comparison_op (rev (trim_long (rev name)));
     Some (FlowBranch (EBinary op left right) t (next_offset insn)) }"

definition handle_jmp_typeof_is :: "instruction \<Rightarrow> bytecode_format \<Rightarrow> flow_result option" where
  "handle_jmp_typeof_is insn format = do {
     t \<leftarrow> get_jump_target insn format;
     src \<leftarrow> src_reg insn 1;
     tmask \<leftarrow> operand_u32 insn 2;
     Some (FlowBranch (typeof_is_condition src tmask) t (next_offset insn)) }"

definition handle_jmp_builtin_is ::
  "(u32 \<Rightarrow> string list) \<Rightarrow> string \<Rightarrow> instruction \<Rightarrow> bytecode_format \<Rightarrow> u32 \<Rightarrow> flow_result option" where
  "handle_jmp_builtin_is builtins name insn format ver = do {
     t \<leftarrow> get_jump_target insn format;
     builtin_idx \<leftarrow> operand_u32 insn 1;
     src \<leftarrow> src_reg insn 2;
     Some (FlowBranch (EBinary (if name_contains ''Not'' name then OpStrictNeq else OpStrictEq) src
       (builtin_ref_expr builtins builtin_idx ver)) t (next_offset insn)) }"

definition handle_jmp_undefined :: "instruction \<Rightarrow> bytecode_format \<Rightarrow> flow_result option" where
  "handle_jmp_undefined insn format = do {
     t \<leftarrow> get_jump_target insn format;
     v \<leftarrow> src_reg insn 1;
     Some (FlowBranch (EBinary OpStrictEq v (const_expr CUndefined)) t (next_offset insn)) }"

definition handle_ret :: "instruction \<Rightarrow> flow_result option" where
  "handle_ret insn = do { v \<leftarrow> src_reg insn 0; Some (FlowReturn (Some v)) }"

definition handle_throw :: "instruction \<Rightarrow> flow_result option" where
  "handle_throw insn = do { v \<leftarrow> src_reg insn 0; Some (FlowThrow v) }"

definition handle_select_object :: "instruction \<Rightarrow> flow_result option" where
  "handle_select_object insn = do {
     dst \<leftarrow> dst_reg insn 0; v \<leftarrow> src_reg insn 2; Some (FlowStatement (assign_reg dst v)) }"

definition handle_throw_if_undefined :: "instruction \<Rightarrow> flow_result option" where
  "handle_throw_if_undefined insn = do {
     dst \<leftarrow> dst_reg insn 0; v \<leftarrow> src_reg insn 1; Some (FlowStatement (assign_reg dst v)) }"

definition handle_catch :: "instruction \<Rightarrow> flow_result option" where
  "handle_catch insn = do {
     dst \<leftarrow> dst_reg insn 0; Some (FlowStatement (assign_reg dst (variable ''__exception''))) }"

definition handle_get_next_pname :: "instruction \<Rightarrow> flow_result option" where
  "handle_get_next_pname insn = do {
     dst \<leftarrow> dst_reg insn 0;
     props \<leftarrow> src_reg insn 1;
     obj \<leftarrow> src_reg insn 2;
     i \<leftarrow> src_reg insn 3;
     sz \<leftarrow> src_reg insn 4;
     Some (FlowStatement (assign_reg dst (indexed props i))) }"

section \<open>Generators\<close>

definition handle_resume_generator :: "instruction \<Rightarrow> flow_result option" where
  "handle_resume_generator insn = do {
     dst \<leftarrow> dst_reg insn 0;
     gen \<leftarrow> src_reg insn 1;
     Some (FlowStatement (assign_reg dst (ECall (member gen (lit ''resume'')) []))) }"

definition handle_create_generator :: "instruction \<Rightarrow> flow_result option" where
  "handle_create_generator insn = do {
     dst \<leftarrow> dst_reg insn 0;
     (case operand_u32 insn 2 of
        Some func_idx \<Rightarrow> Some (FlowStatement (assign_reg dst (ECall (EFunction func_idx None False False True) [])))
      | None \<Rightarrow> do {
          env \<leftarrow> dst_reg insn 1;
          Some (FlowStatement (assign_reg dst (ECall (variable ''CreateGenerator'') [EReg env]))) }) }"

definition yield_marker :: rust_string where
  "yield_marker = lit ''__yield_point__:''"

definition handle_save_generator :: "instruction \<Rightarrow> flow_result option" where
  "handle_save_generator insn = do {
     op \<leftarrow> list_get (in_operands insn) 0;
     rel \<leftarrow> (case op_value op of I8 v \<Rightarrow> Some (scast v) | I32 v \<Rightarrow> Some v | _ \<Rightarrow> None);
     Some (FlowStatement (SComment (yield_marker @ dec (unat (in_offset insn + rel))))) }"

section \<open>Switches\<close>

definition align4 :: "nat \<Rightarrow> nat" where
  "align4 x = (x + 3) div 4 * 4"

definition table_start :: "instruction \<Rightarrow> u32 \<Rightarrow> u32 \<Rightarrow> nat" where
  "table_start insn idx func_off = align4 (unat (in_offset insn) + unat idx + unat func_off)"

text \<open>\<open>for i in 0..count\<close> over the table; a read that fails leaves the reader where it is.\<close>

fun imm_cases :: "nat \<Rightarrow> i32 \<Rightarrow> u32 \<Rightarrow> byte_reader \<Rightarrow> (expression \<times> u32) list" where
  "imm_cases 0 case_val base r = []"
| "imm_cases (Suc n) case_val base r =
     (case read_i32 r of
        Inr (rel, r') \<Rightarrow> (int_const case_val, base + rel) # imm_cases n (case_val + 1) base r'
      | Inl _ \<Rightarrow> imm_cases n (case_val + 1) base r)"

definition out_of_bounds :: "string \<Rightarrow> nat \<Rightarrow> nat \<Rightarrow> nat \<Rightarrow> flow_result" where
  "out_of_bounds what start count len = FlowStatement (SComment (lit what @ lit '': jump table out of bounds (start='' @
     dec start @ lit '', count='' @ dec count @ lit '', len='' @ dec len @ lit '')''))"

definition handle_switch_imm :: "instruction \<Rightarrow> bytecode_file \<Rightarrow> u32 \<Rightarrow> flow_result option" where
  "handle_switch_imm insn file func_off = do {
     v \<leftarrow> src_reg insn 0;
     idx \<leftarrow> operand_u32 insn 1;
     fallback \<leftarrow> operand_i32 insn 2;
     min_val \<leftarrow> operand_u32 insn 3;
     max_val \<leftarrow> operand_u32 insn 4;
     let start = table_start insn idx func_off;
         count = unat (max_val - min_val) + 1 in
     (if max_val < min_val
      then Some (FlowStatement (SComment (lit ''SwitchImm: invalid range (maxVal '' @ dec (unat max_val) @
        lit '' < minVal '' @ dec (unat min_val) @ lit '')'')))
      else if length (bf_instructions file) < start + count * 4
      then Some (out_of_bounds ''SwitchImm'' start count (length (bf_instructions file)))
      else Some (FlowSwitch v (in_offset insn + fallback)
        (imm_cases count min_val (in_offset insn) (new_reader (drop start (bf_instructions file)))))) }"

fun string_cases :: "nat \<Rightarrow> bytecode_file \<Rightarrow> u32 \<Rightarrow> byte_reader \<Rightarrow> (expression \<times> u32) list" where
  "string_cases 0 file base r = []"
| "string_cases (Suc n) file base r =
     (case rd_bind read_u32 (\<lambda>s. rd_map (Pair s) read_i32) r of
        Inr ((s, rel), r') \<Rightarrow>
          (const_expr (CString (case string_at file s of Some e \<Rightarrow> st_value e | None \<Rightarrow> numbered ''string'' s)), base + rel)
          # string_cases n file base r'
      | Inl _ \<Rightarrow> [])"

definition handle_string_switch_imm :: "instruction \<Rightarrow> bytecode_file \<Rightarrow> u32 \<Rightarrow> flow_result option" where
  "handle_string_switch_imm insn file func_off = do {
     v \<leftarrow> src_reg insn 0;
     idx \<leftarrow> operand_u32 insn 2;
     fallback \<leftarrow> operand_i32 insn 3;
     num_cases \<leftarrow> operand_u32 insn 4;
     let start = table_start insn idx func_off;
         count = unat num_cases in
     (if length (bf_instructions file) < start + count * 8
      then Some (out_of_bounds ''StringSwitchImm'' start count (length (bf_instructions file)))
      else Some (FlowSwitch v (in_offset insn + fallback)
        (string_cases count file (in_offset insn) (new_reader (drop start (bf_instructions file)))))) }"

section \<open>The targets the jump analysis sees\<close>

fun imm_targets :: "nat \<Rightarrow> u32 \<Rightarrow> byte_reader \<Rightarrow> u32 list" where
  "imm_targets 0 base r = []"
| "imm_targets (Suc n) base r =
     (case read_i32 r of
        Inr (rel, r') \<Rightarrow> (base + rel) # imm_targets n base r'
      | Inl _ \<Rightarrow> imm_targets n base r)"

fun string_targets :: "nat \<Rightarrow> u32 \<Rightarrow> byte_reader \<Rightarrow> u32 list" where
  "string_targets 0 base r = []"
| "string_targets (Suc n) base r =
     (case read_u32 r of
        Inl _ \<Rightarrow> []
      | Inr (_, r') \<Rightarrow>
          (case read_i32 r' of
             Inr (rel, r'') \<Rightarrow> (base + rel) # string_targets n base r''
           | Inl _ \<Rightarrow> string_targets n base r'))"

definition switch_targets :: "instruction \<Rightarrow> bytecode_file \<Rightarrow> u32 \<Rightarrow> u32 list" where
  "switch_targets insn file func_off =
     (case do { idx \<leftarrow> operand_u32 insn 1; fallback \<leftarrow> operand_i32 insn 2;
                min_val \<leftarrow> operand_u32 insn 3; max_val \<leftarrow> operand_u32 insn 4;
                Some (idx, fallback, min_val, max_val) } of
        None \<Rightarrow> []
      | Some (idx, fallback, min_val, max_val) \<Rightarrow>
          let start = table_start insn idx func_off;
              count = (if max_val < min_val then 0 else unat (max_val - min_val) + 1) in
          (in_offset insn + fallback) #
          (if 0 < count \<and> start + count * 4 \<le> length (bf_instructions file)
           then imm_targets count (in_offset insn) (new_reader (drop start (bf_instructions file)))
           else []))"

definition string_switch_targets :: "instruction \<Rightarrow> bytecode_file \<Rightarrow> u32 \<Rightarrow> u32 list" where
  "string_switch_targets insn file func_off =
     (case do { idx \<leftarrow> operand_u32 insn 2; fallback \<leftarrow> operand_i32 insn 3; n \<leftarrow> operand_u32 insn 4;
                Some (idx, fallback, n) } of
        None \<Rightarrow> []
      | Some (idx, fallback, n) \<Rightarrow>
          let start = table_start insn idx func_off in
          (in_offset insn + fallback) #
          (if start + unat n * 8 \<le> length (bf_instructions file)
           then string_targets (unat n) (in_offset insn) (new_reader (drop start (bf_instructions file)))
           else []))"

definition explicit_targets :: "instruction \<Rightarrow> bytecode_format \<Rightarrow> bytecode_file \<Rightarrow> u32 \<Rightarrow> u32 list" where
  "explicit_targets insn format file func_off =
     (case definition_at format (in_opcode insn) of
        None \<Rightarrow> []
      | Some def \<Rightarrow>
          (if is_jump def then List.map_filter (address_target insn) (in_operands insn) else []) @
          (if def_name def \<in> {''SwitchImm'', ''UIntSwitchImm''} then switch_targets insn file func_off else []) @
          (if def_name def = ''StringSwitchImm'' then string_switch_targets insn file func_off else []))"

end
