(* ===== verification/Dispatch.thy ===== *)
theory Dispatch
  imports Lower_Flow
begin

text \<open>
  The dispatch of one instruction to its handler (\<open>ir/builder/dispatch.rs\<close>).  The categories are
  tried in the order of the code; the first that gives a result wins, and an instruction that none
  handles becomes a comment.  The register map and the count of unresolved string ids change on the
  way even when the result is discarded.
\<close>

section \<open>The categories\<close>

definition try_env_handlers :: "string \<Rightarrow> instruction \<Rightarrow> env_reg_map \<Rightarrow> flow_result option \<times> env_reg_map" where
  "try_env_handlers name insn m =
     (if name \<in> {''CreateEnvironment'', ''CreateFunctionEnvironment'', ''CreateTopLevelEnvironment'', ''CreateInnerEnvironment''}
      then handle_create_environment name insn m
      else if name \<in> {''GetEnvironment'', ''GetParentEnvironment''} then handle_get_environment name insn m
      else if name = ''GetClosureEnvironment'' then handle_get_closure_environment insn m
      else if name \<in> {''LoadFromEnvironment'', ''LoadFromEnvironmentL''} then handle_load_from_environment insn m
      else if name \<in> {''StoreToEnvironment'', ''StoreToEnvironmentL''} then handle_store_to_environment insn m
      else if name \<in> {''StoreNPToEnvironment'', ''StoreNPToEnvironmentL''} then handle_store_np_to_environment insn m
      else (None, m))"

text \<open>The register map after a copy instruction.\<close>

definition after_copy :: "string \<Rightarrow> instruction \<Rightarrow> env_reg_map \<Rightarrow> env_reg_map" where
  "after_copy name insn m =
     (if name \<in> {''Mov'', ''MovLong''}
      then (case (dst_reg insn 0, dst_reg insn 1) of (Some dst, Some src) \<Rightarrow> copy_reg dst src m | _ \<Rightarrow> m)
      else m)"

definition load_result :: "string \<Rightarrow> instruction \<Rightarrow> bytecode_file \<Rightarrow> bool \<Rightarrow> statement option" where
  "load_result name insn file resolve =
     (if name \<in> {''LoadConstUndefined'', ''LoadConstNull'', ''LoadConstTrue'', ''LoadConstFalse'', ''LoadConstZero'',
          ''LoadConstEmpty'', ''LoadConstUInt8'', ''LoadConstInt'', ''LoadConstDouble'', ''LoadConstString'',
          ''LoadConstStringLongIndex'', ''LoadConstBigInt'', ''LoadConstBigIntLongIndex''}
      then handle_load_const name insn file resolve
      else if name \<in> {''Mov'', ''MovLong''} then handle_mov insn
      else if name \<in> {''LoadParam'', ''LoadParamLong''} then handle_load_param insn
      else if name = ''GetGlobalObject'' then handle_get_global insn
      else if name = ''LoadThisNS'' then handle_load_this insn
      else if name = ''DeclareGlobalVar'' then handle_declare_global insn file resolve
      else None)"

definition try_load_handlers ::
  "string \<Rightarrow> instruction \<Rightarrow> bytecode_file \<Rightarrow> bool \<Rightarrow> env_reg_map \<Rightarrow> flow_result option \<times> env_reg_map" where
  "try_load_handlers name insn file resolve m =
     (map_option FlowStatement (load_result name insn file resolve), after_copy name insn m)"

definition try_arith_handlers :: "string \<Rightarrow> instruction \<Rightarrow> flow_result option" where
  "try_arith_handlers name insn = map_option FlowStatement
     (if name \<in> {''Add'', ''AddN'', ''AddS'', ''Sub'', ''SubN'', ''Mul'', ''MulN'', ''Div'', ''DivN'', ''Mod'', ''BitAnd'',
          ''BitOr'', ''BitXor'', ''LShift'', ''Shl'', ''RShift'', ''Shr'', ''URshift'', ''UShr''}
      then handle_binary_op name insn
      else if name \<in> {''Eq'', ''StrictEq'', ''Neq'', ''StrictNeq'', ''Less'', ''LessEq'', ''Greater'', ''GreaterEq''}
      then handle_comparison name insn
      else if name \<in> {''Negate'', ''Not'', ''BitNot'', ''TypeOf''} then handle_unary_op name insn
      else if name \<in> {''Inc'', ''Dec''} then handle_inc_dec name insn
      else if name \<in> {''ToNumber'', ''ToNumeric'', ''ToInt32'', ''ToUint32'', ''AddEmptyString'', ''CoerceThisNS''}
      then handle_coercion name insn
      else if name \<in> {''InstanceOf'', ''IsIn''} then handle_instance_in name insn
      else None)"

definition try_prop_handlers :: "string \<Rightarrow> instruction \<Rightarrow> bytecode_file \<Rightarrow> bool \<Rightarrow> flow_result option" where
  "try_prop_handlers name insn file resolve = map_option FlowStatement
     (if name \<in> {''GetById'', ''GetByIdLong'', ''GetByIdShort''} then handle_get_by_id insn file resolve
      else if name \<in> {''GetByIdWithReceiver'', ''GetByIdWithReceiverLong''}
      then handle_get_by_id_with_receiver insn file resolve
      else if name \<in> {''TryGetById'', ''TryGetByIdLong''} then handle_try_get_by_id insn file resolve
      else if name \<in> {''PutById'', ''PutByIdLong'', ''PutByIdLoose'', ''PutByIdStrict'', ''PutByIdLooseLong'',
          ''PutByIdStrictLong'', ''PutNewOwnById'', ''PutNewOwnByIdLong'', ''PutNewOwnByIdShort'', ''TryPutById'',
          ''TryPutByIdLong'', ''TryPutByIdLoose'', ''TryPutByIdStrict'', ''TryPutByIdLooseLong'', ''TryPutByIdStrictLong'',
          ''DefineOwnById'', ''DefineOwnByIdLong''}
      then handle_put_by_id insn file resolve
      else if name = ''GetByVal'' then handle_get_by_val insn
      else if name = ''ToPropertyKey'' then handle_to_property_key insn
      else if name = ''CreatePrivateName'' then handle_create_private_name insn file resolve
      else if name = ''GetOwnPrivateBySym'' then handle_get_own_private_by_sym insn
      else if name = ''PutOwnPrivateBySym'' then handle_put_own_private_by_sym insn
      else if name = ''AddOwnPrivateBySym'' then handle_add_own_private_by_sym insn
      else if name = ''PrivateIsIn'' then handle_private_is_in insn
      else if name = ''GetByValWithReceiver'' then handle_get_by_val_with_receiver insn
      else if name = ''PutByValWithReceiver'' then handle_put_by_val_with_receiver insn
      else if name \<in> {''PutByVal'', ''PutByValLoose'', ''PutByValStrict''} then handle_put_by_val insn
      else if name \<in> {''DelByVal'', ''DelByValLoose'', ''DelByValStrict''} then handle_del_by_val insn
      else if name = ''DelById'' then handle_del_by_id insn file resolve
      else if name = ''TypeOfIs'' then handle_typeof_is insn
      else if name = ''TypeOfIsNot'' then handle_typeof_is_not insn
      else None)"

definition try_call_handlers ::
  "(u32 \<Rightarrow> string list) \<Rightarrow> string \<Rightarrow> instruction \<Rightarrow> bytecode_file \<Rightarrow> bool \<Rightarrow> u32 \<Rightarrow> u32 \<Rightarrow> flow_result option" where
  "try_call_handlers builtins name insn file resolve frame_size ver =
     (if name \<in> {''CallBuiltin'', ''CallBuiltinLong''}
      then map_option noreturn_builtin_result (handle_call_builtin builtins insn frame_size ver)
      else map_option FlowStatement
       (if name \<in> {''Call1'', ''Call2'', ''Call3'', ''Call4''} then handle_call_fixed name insn
        else if name \<in> {''Call'', ''CallLong''} then handle_call insn frame_size ver
        else if name \<in> {''Construct'', ''ConstructLong''} then handle_construct insn frame_size ver
        else if name \<in> {''CallWithNewTarget'', ''CallWithNewTargetLong''}
        then handle_call_with_new_target insn frame_size ver
        else if name \<in> {''LoadParentNoTraps'', ''TypedLoadParent''} then handle_load_parent insn
        else if name \<in> {''CreateClosure'', ''CreateClosureLongIndex''} then handle_create_closure insn file resolve
        else if name = ''CreateAsyncClosure'' then handle_create_async_closure insn file resolve
        else if name = ''CreateGeneratorClosure'' then handle_create_generator_closure insn file resolve
        else if name = ''GetBuiltinClosure'' then handle_get_builtin_closure builtins insn ver
        else if name = ''DirectEval'' then handle_direct_eval insn
        else if name = ''CallRequire'' then handle_call_require insn
        else None))"

definition obj_result :: "string \<Rightarrow> instruction \<Rightarrow> bytecode_file \<Rightarrow> bool \<Rightarrow> statement option" where
  "obj_result name insn file resolve =
     (if name \<in> {''NewObject'', ''CacheNewObject''} then handle_new_object insn
      else if name \<in> {''CreateBaseClass'', ''CreateBaseClassLongIndex''} then handle_create_class insn file resolve False
      else if name \<in> {''CreateDerivedClass'', ''CreateDerivedClassLongIndex''} then handle_create_class insn file resolve True
      else if name \<in> {''NewArray'', ''NewFastArray''} then handle_new_array insn
      else if name \<in> {''PutOwnByIndex'', ''PutOwnByIndexL'', ''DefineOwnByIndex'', ''DefineOwnByIndexL'',
          ''DefineOwnInDenseArray'', ''DefineOwnInDenseArrayL'', ''PutOwnBySlotIdx'', ''PutOwnBySlotIdxLong''}
      then handle_put_own_by_index insn
      else if name \<in> {''GetOwnBySlotIdx'', ''GetOwnBySlotIdxLong''} then handle_get_own_by_slot insn
      else if name = ''GetByIndex'' then handle_get_by_index insn
      else if name \<in> {''PutOwnByVal'', ''DefineOwnByVal''} then handle_put_own_by_val insn
      else if name = ''FastArrayLoad'' then handle_fast_array_load insn
      else if name \<in> {''FastArrayStore'', ''FastArrayStoreLoose''} then handle_fast_array_store insn
      else if name = ''FastArrayPush'' then handle_fast_array_push insn
      else if name = ''FastArrayAppend'' then handle_fast_array_append insn
      else if name = ''FastArrayLength'' then handle_fast_array_length insn
      else if name = ''CreateRegExp'' then handle_create_regexp insn file resolve
      else if name = ''GetArgumentsLength'' then handle_get_arguments_length insn
      else if name \<in> {''GetArgumentsPropByVal'', ''GetArgumentsPropByValLoose'', ''GetArgumentsPropByValStrict''}
      then handle_get_arguments_prop_by_val insn
      else if name \<in> {''ReifyArguments'', ''ReifyArgumentsLoose'', ''ReifyArgumentsStrict''} then handle_reify_arguments insn
      else if name \<in> {''CreateThis'', ''CreateThisForNew'', ''CreateThisForSuper''} then handle_create_this insn
      else if name = ''GetNewTarget'' then handle_get_new_target insn
      else if name = ''IteratorBegin'' then handle_iterator_begin insn
      else if name = ''IteratorNext'' then handle_iterator_next insn
      else if name = ''IteratorClose'' then handle_iterator_close insn
      else if name = ''GetPNameList'' then handle_get_pname_list insn
      else if name \<in> {''PutOwnGetterSetterByVal'', ''DefineOwnGetterSetterByVal''}
      then handle_put_own_getter_setter_by_val insn
      else None)"

definition try_obj_handlers ::
  "string \<Rightarrow> instruction \<Rightarrow> bytecode_file \<Rightarrow> bool \<Rightarrow> flow_result option \<times> bytecode_file" where
  "try_obj_handlers name insn file resolve = apfst (map_option FlowStatement)
     (if name \<in> {''NewObjectWithParent'', ''NewObjectWithBufferAndParent''} then handle_new_object_with_parent insn file
      else if name \<in> {''NewObjectWithBuffer'', ''NewObjectWithBufferLong''} then handle_new_object_with_buffer insn file
      else if name \<in> {''NewArrayWithBuffer'', ''NewArrayWithBufferLong''} then handle_new_array_with_buffer insn file
      else (obj_result name insn file resolve, file))"

definition comparison_jumps :: "string list" where
  "comparison_jumps = [''JEqual'', ''JNotEqual'', ''JStrictEqual'', ''JStrictNotEqual'', ''JEqualLong'', ''JNotEqualLong'',
     ''JStrictEqualLong'', ''JStrictNotEqualLong'', ''JLess'', ''JLessEqual'', ''JGreater'', ''JGreaterEqual'', ''JLessLong'',
     ''JLessEqualLong'', ''JGreaterLong'', ''JGreaterEqualLong'', ''JLessN'', ''JLessEqualN'', ''JGreaterN'',
     ''JGreaterEqualN'', ''JLessNLong'', ''JLessEqualNLong'', ''JGreaterNLong'', ''JGreaterEqualNLong'', ''JNotLess'',
     ''JNotLessEqual'', ''JNotGreater'', ''JNotGreaterEqual'', ''JNotLessLong'', ''JNotLessEqualLong'', ''JNotGreaterLong'',
     ''JNotGreaterEqualLong'', ''JNotLessN'', ''JNotLessEqualN'', ''JNotGreaterN'', ''JNotGreaterEqualN'', ''JNotLessNLong'',
     ''JNotLessEqualNLong'', ''JNotGreaterNLong'', ''JNotGreaterEqualNLong'']"

definition try_flow_handlers ::
  "(u32 \<Rightarrow> string list) \<Rightarrow> string \<Rightarrow> instruction \<Rightarrow> bytecode_format \<Rightarrow> bytecode_file \<Rightarrow> u32 \<Rightarrow> flow_result option" where
  "try_flow_handlers builtins name insn format file func_off =
     (if name \<in> {''Jmp'', ''JmpLong''} then handle_jmp insn format
      else if name \<in> {''JmpTrue'', ''JmpTrueLong'', ''JmpFalse'', ''JmpFalseLong''} then handle_jmp_cond name insn format
      else if name \<in> set comparison_jumps then handle_jmp_comparison name insn format
      else if name \<in> {''JmpUndefined'', ''JmpUndefinedLong''} then handle_jmp_undefined insn format
      else if name = ''JmpTypeOfIs'' then handle_jmp_typeof_is insn format
      else if name \<in> {''JmpBuiltinIs'', ''JmpBuiltinIsLong'', ''JmpBuiltinIsNot'', ''JmpBuiltinIsNotLong''}
      then handle_jmp_builtin_is builtins name insn format (version (bf_header file))
      else if name = ''Ret'' then handle_ret insn
      else if name = ''Throw'' then handle_throw insn
      else if name \<in> {''ThrowIfThisInitialized'', ''ProfilePoint'', ''Unreachable''} then Some FlowNoop
      else if name \<in> {''ThrowIfUndefined'', ''ThrowIfEmpty''} then handle_throw_if_undefined insn
      else if name = ''SelectObject'' then handle_select_object insn
      else if name \<in> {''Debugger'', ''AsyncBreakCheck''} then Some (FlowStatement SDebugger)
      else if name = ''Catch'' then handle_catch insn
      else if name = ''StartGenerator'' then Some (FlowStatement (SComment (lit ''StartGenerator'')))
      else if name = ''ResumeGenerator'' then handle_resume_generator insn
      else if name \<in> {''CreateGenerator'', ''CreateGeneratorLongIndex''} then handle_create_generator insn
      else if name = ''CompleteGenerator'' then Some FlowNoop
      else if name \<in> {''SaveGenerator'', ''SaveGeneratorLong''} then handle_save_generator insn
      else if name = ''GetNextPName'' then handle_get_next_pname insn
      else if name \<in> {''SwitchImm'', ''UIntSwitchImm''} then handle_switch_imm insn file func_off
      else if name = ''StringSwitchImm'' then handle_string_switch_imm insn file func_off
      else None)"

section \<open>Dispatch\<close>

definition unhandled_comment :: "string \<Rightarrow> u8 \<Rightarrow> flow_result" where
  "unhandled_comment name opcode =
     FlowStatement (SComment (lit name @ lit '' (0x'' @ lit (hex_padded 2 hex_digits_lower (unat opcode)) @ lit '')''))"

definition unknown_opcode :: "instruction \<Rightarrow> flow_result" where
  "unknown_opcode insn =
     FlowStatement (SComment (lit ''unknown opcode 0x'' @ lit (hex_padded 2 hex_digits_lower (unat (in_opcode insn)))))"

text \<open>The categories that neither claim an environment nor read a literal buffer.\<close>

definition plain_handlers ::
  "(u32 \<Rightarrow> string list) \<Rightarrow> string \<Rightarrow> instruction \<Rightarrow> bytecode_file \<Rightarrow> bytecode_format \<Rightarrow> bool \<Rightarrow> u32 \<Rightarrow> flow_result option" where
  "plain_handlers builtins name insn file format resolve frame_size =
     (case try_arith_handlers name insn of Some res \<Rightarrow> Some res | None \<Rightarrow>
     (case try_prop_handlers name insn file resolve of Some res \<Rightarrow> Some res | None \<Rightarrow>
      try_call_handlers builtins name insn file resolve frame_size (fmt_version format)))"

definition dispatch_instruction ::
  "(u32 \<Rightarrow> string list) \<Rightarrow> instruction \<Rightarrow> bytecode_format \<Rightarrow> bool \<Rightarrow> u32 \<Rightarrow> u32 \<Rightarrow> bytecode_file \<times> env_reg_map
    \<Rightarrow> flow_result \<times> bytecode_file \<times> env_reg_map" where
  "dispatch_instruction builtins insn format resolve func_off frame_size st =
     (case st of (file, m) \<Rightarrow>
     (case definition_at format (in_opcode insn) of
        None \<Rightarrow> (unknown_opcode insn, file, m)
      | Some def \<Rightarrow>
          let name = def_name def in
          (case try_env_handlers name insn m of
             (Some res, m) \<Rightarrow> (res, file, m)
           | (None, m) \<Rightarrow>
          (case try_load_handlers name insn file resolve m of
             (Some res, m) \<Rightarrow> (res, file, m)
           | (None, m) \<Rightarrow>
          (case plain_handlers builtins name insn file format resolve frame_size of
             Some res \<Rightarrow> (res, file, m)
           | None \<Rightarrow>
          (case try_obj_handlers name insn file resolve of
             (Some res, file) \<Rightarrow> (res, file, m)
           | (None, file) \<Rightarrow>
          (case try_flow_handlers builtins name insn format file func_off of
             Some res \<Rightarrow> (res, file, m)
           | None \<Rightarrow> (unhandled_comment name (in_opcode insn), file, m))))))))"

end
