(* ===== verification/Jump_Analysis.thy ===== *)
theory Jump_Analysis
  imports Dispatch Cfg
begin

text \<open>
  Basic block leaders (\<open>ir/builder/jump_analysis.rs\<close>) and the compiler-made handlers the builder
  drops (\<open>ir/builder/ir_builder.rs\<close>).  A \<open>BTreeSet\<close> that is iterated is its elements in order.
\<close>

section \<open>Leaders\<close>

definition is_conditional_jump :: "string \<Rightarrow> bool" where
  "is_conditional_jump name \<longleftrightarrow> name \<in> {''JmpTrue'', ''JmpTrueLong'', ''JmpFalse'', ''JmpFalseLong'', ''JEqual'', ''JNotEqual'',
     ''JStrictEqual'', ''JStrictNotEqual'', ''JLess'', ''JLessEqual'', ''JGreater'', ''JGreaterEqual'', ''JLessN'', ''JLessEqualN'',
     ''JGreaterN'', ''JGreaterEqualN'', ''JNotLess'', ''JNotLessEqual'', ''JNotGreater'', ''JNotGreaterEqual'', ''JNotLessN'',
     ''JNotLessEqualN'', ''JNotGreaterN'', ''JNotGreaterEqualN''}"

text \<open>What one instruction adds to the set, and what one handler adds.\<close>

definition instruction_leaders :: "instruction \<Rightarrow> bytecode_format \<Rightarrow> bytecode_file \<Rightarrow> u32 \<Rightarrow> u32 list" where
  "instruction_leaders insn format file func_off =
     (case definition_at format (in_opcode insn) of
        None \<Rightarrow> []
      | Some def \<Rightarrow>
          (if def_name def \<in> {''Ret'', ''Throw'', ''Jmp'', ''JmpLong''} then [next_offset insn] else []) @
          explicit_targets insn format file func_off @
          (if is_jump def \<and> is_conditional_jump (def_name def) then [next_offset insn] else []))"

definition handler_leaders :: "exception_handler \<Rightarrow> u32 list" where
  "handler_leaders h = [eh_target h, eh_start h] @ (if 0 < eh_end h then [eh_end h] else [])"

definition all_leaders ::
  "instruction list \<Rightarrow> bytecode_format \<Rightarrow> bytecode_file \<Rightarrow> exception_handler list \<Rightarrow> u32 \<Rightarrow> u32 list" where
  "all_leaders insns format file handlers func_off =
     (case insns of [] \<Rightarrow> [] | first # _ \<Rightarrow> [in_offset first]) @
     concat (map (\<lambda>insn. instruction_leaders insn format file func_off) insns) @
     concat (map handler_leaders handlers)"

definition find_block_starts_with_handlers ::
  "instruction list \<Rightarrow> bytecode_format \<Rightarrow> bytecode_file \<Rightarrow> exception_handler list \<Rightarrow> u32 \<Rightarrow> u32 list" where
  "find_block_starts_with_handlers insns format file handlers func_off =
     filter (\<lambda>t. t \<in> set (map in_offset insns))
       (sort (remdups (all_leaders insns format file handlers func_off)))"

section \<open>Handlers that are no source construct\<close>

fun position :: "('a \<Rightarrow> bool) \<Rightarrow> 'a list \<Rightarrow> nat option" where
  "position p [] = None"
| "position p (x # xs) = (if p x then Some 0 else map_option Suc (position p xs))"

definition opcode_name :: "bytecode_format \<Rightarrow> instruction \<Rightarrow> string option" where
  "opcode_name format insn = map_option def_name (definition_at format (in_opcode insn))"

definition is_rethrow_only_handler :: "instruction list \<Rightarrow> bytecode_format \<Rightarrow> u32 \<Rightarrow> bool" where
  "is_rethrow_only_handler insns format target =
     (case position (\<lambda>i. in_offset i = target) insns of
        None \<Rightarrow> False
      | Some idx \<Rightarrow>
          opcode_name format (insns ! idx) = Some ''Catch'' \<and>
          (case get_reg (in_operands (insns ! idx)) 0 of
             None \<Rightarrow> False
           | Some catch_reg \<Rightarrow>
               (case list_get insns (idx + 1) of
                  Some nxt \<Rightarrow> opcode_name format nxt = Some ''Throw'' \<and> get_reg (in_operands nxt) 0 = Some catch_reg
                | None \<Rightarrow> False)))"

definition cleanup_jump :: "instruction list \<Rightarrow> instruction \<Rightarrow> nat option" where
  "cleanup_jump insns insn =
     (case List.map_filter (\<lambda>op. if op_ty op \<in> {Addr8, Addr32} then as_i32 (op_value op) else None) (in_operands insn) of
        [] \<Rightarrow> None
      | rel # _ \<Rightarrow> position (\<lambda>x. in_offset x = in_offset insn + rel) insns)"

text \<open>The scan of at most 64 instructions, following one jump.\<close>

fun cleanup_scan :: "nat \<Rightarrow> instruction list \<Rightarrow> bytecode_format \<Rightarrow> bool \<Rightarrow> nat \<Rightarrow> bool" where
  "cleanup_scan 0 insns format followed i = False"
| "cleanup_scan (Suc steps) insns format followed i =
     (if length insns \<le> i then False
      else let name = opcode_name format (insns ! i) in
        if name = Some ''IteratorClose'' then True
        else if name = Some ''Catch'' then False
        else if name \<in> {Some ''Jmp'', Some ''JmpLong''} \<and> \<not> followed
        then (case cleanup_jump insns (insns ! i) of
                Some p \<Rightarrow> cleanup_scan steps insns format True p
              | None \<Rightarrow> False)
        else cleanup_scan steps insns format followed (i + 1))"

definition is_iterator_cleanup_handler :: "instruction list \<Rightarrow> bytecode_format \<Rightarrow> u32 \<Rightarrow> bool" where
  "is_iterator_cleanup_handler insns format target =
     (case position (\<lambda>i. in_offset i = target) insns of
        None \<Rightarrow> False
      | Some idx \<Rightarrow>
          opcode_name format (insns ! idx) = Some ''Catch'' \<and> cleanup_scan 64 insns format False (idx + 1))"

section \<open>Functions an instruction creates\<close>

definition created_function_and_env :: "bytecode_format \<Rightarrow> instruction \<Rightarrow> (u32 \<times> u32) option" where
  "created_function_and_env format insn = do {
     def \<leftarrow> definition_at format (in_opcode insn);
     (env_idx, func_last) \<leftarrow>
       (if def_name def \<in> {''CreateClosure'', ''CreateClosureLongIndex'', ''CreateAsyncClosure'', ''CreateGeneratorClosure'',
            ''CreateGenerator'', ''CreateGeneratorLongIndex''} then Some (1, False)
        else if def_name def \<in> {''CreateBaseClass'', ''CreateBaseClassLongIndex'', ''CreateDerivedClass'',
            ''CreateDerivedClassLongIndex''} then Some (2, True)
        else None);
     env \<leftarrow> operand_u32 insn env_idx;
     func \<leftarrow> (if func_last then last_operand_u32 insn else operand_u32 insn 2);
     Some (func, env) }"

section \<open>What the leaders are\<close>

lemma leaders_sorted: "sorted_wrt (<) (find_block_starts_with_handlers insns format file handlers func_off)"
  by (simp add: find_block_starts_with_handlers_def sorted_wrt_filter strict_sorted_iff)

lemma leaders_iff:
  "t \<in> set (find_block_starts_with_handlers insns format file handlers func_off) \<longleftrightarrow>
    t \<in> in_offset ` set insns \<and>
    (insns \<noteq> [] \<and> t = in_offset (hd insns)
     \<or> (\<exists>insn\<in>set insns. t \<in> set (instruction_leaders insn format file func_off))
     \<or> (\<exists>h\<in>set handlers. t \<in> set (handler_leaders h)))"
  by (cases insns) (auto simp: find_block_starts_with_handlers_def all_leaders_def)

lemma first_is_leader:
  "insns \<noteq> [] \<Longrightarrow> in_offset (hd insns) \<in> set (find_block_starts_with_handlers insns format file handlers func_off)"
  by (auto simp: leaders_iff)

end
