(* ===== verification/Lift.thy ===== *)
theory Lift
  imports Jump_Analysis
begin

text \<open>
  The builder of a function's control-flow graph (\<open>ir/builder/ir_builder.rs\<close>).  Its \<open>&mut\<close> state is
  the record \<open>lift_state\<close>; the three \<open>expect\<close>s on the current block are updates that do nothing when
  the block is missing, and the lemmas show that it never is.  The optional environment-value
  analysis (\<open>collect_env_facts\<close>) is not modelled.
\<close>

section \<open>State\<close>

record builder_options =
  bo_resolve_strings :: bool
  bo_include_offsets :: bool
  bo_absolute_offsets :: bool

record lift_state =
  ls_cfg :: cfg
  ls_offsets :: "(u32 \<times> block_id) list"
  ls_block :: block_id
  ls_stmts :: "statement list"

definition get_or_create_block :: "u32 \<Rightarrow> lift_state \<Rightarrow> block_id \<times> lift_state" where
  "get_or_create_block off st =
     (case map_of (ls_offsets st) off of
        Some b \<Rightarrow> (b, st)
      | None \<Rightarrow>
          let (b, g) = create_block (ls_cfg st) in
          (b, st\<lparr>ls_cfg := g, ls_offsets := bt_insert off b (ls_offsets st)\<rparr>))"

definition set_block_stmts :: "block_id \<Rightarrow> statement list \<Rightarrow> cfg \<Rightarrow> cfg" where
  "set_block_stmts b stmts = update_block b (\<lambda>blk. blk\<lparr>bb_statements := stmts\<rparr>)"

definition finalize_block :: "block_id \<Rightarrow> statement list \<Rightarrow> block_id \<Rightarrow> cfg \<Rightarrow> cfg" where
  "finalize_block b stmts nxt = update_block b (\<lambda>blk.
     let blk = (if bb_terminator blk \<noteq> KNone \<and> stmts = [] then blk else blk\<lparr>bb_statements := stmts\<rparr>) in
     if bb_terminator blk = KNone then set_terminator (KJump nxt) blk else blk)"

section \<open>One instruction\<close>

definition enter_block :: "u32 \<Rightarrow> lift_state \<Rightarrow> lift_state" where
  "enter_block off st =
     (case map_of (ls_offsets st) off of
        Some b \<Rightarrow>
          if b \<noteq> ls_block st
          then st\<lparr>ls_cfg := finalize_block (ls_block st) (ls_stmts st) b (ls_cfg st), ls_stmts := [], ls_block := b\<rparr>
          else st
      | None \<Rightarrow> st)"

definition offset_comment :: "builder_options \<Rightarrow> bytecode_file \<Rightarrow> u32 \<Rightarrow> u32 \<Rightarrow> statement list" where
  "offset_comment opts file func_off off =
     (if \<not> bo_include_offsets opts then []
      else if bo_absolute_offsets opts
      then [SComment (lit (CHR ''@'' # hex_padded 8 hex_digits_lower
              (unat (bf_instruction_offset file + func_off + off))))]
      else [SComment (lit (CHR ''@'' # hex_padded 4 hex_digits_lower (unat off)))])"

definition push_stmts :: "statement list \<Rightarrow> lift_state \<Rightarrow> lift_state" where
  "push_stmts stmts st = st\<lparr>ls_stmts := ls_stmts st @ stmts\<rparr>"

text \<open>Closing the current block: its statements, then its terminator.\<close>

definition close_block :: "terminator \<Rightarrow> lift_state \<Rightarrow> lift_state" where
  "close_block t st = st\<lparr>ls_cfg := update_block (ls_block st) (set_terminator t)
     (set_block_stmts (ls_block st) (ls_stmts st) (ls_cfg st)), ls_stmts := []\<rparr>"

fun resolve_cases :: "(expression \<times> u32) list \<Rightarrow> lift_state \<Rightarrow> (expression \<times> block_id) list \<times> lift_state" where
  "resolve_cases [] st = ([], st)"
| "resolve_cases ((e, off) # cs) st =
     (let (b, st) = get_or_create_block off st; (bs, st) = resolve_cases cs st in ((e, b) # bs, st))"

fun apply_flow :: "flow_result \<Rightarrow> lift_state \<Rightarrow> lift_state" where
  "apply_flow (FlowStatement (SBlock inner)) st = push_stmts inner st"
| "apply_flow (FlowStatement s) st = push_stmts [s] st"
| "apply_flow (FlowJump t) st = (let (b, st) = get_or_create_block t st in close_block (KJump b) st)"
| "apply_flow (FlowBranch c t f) st =
     (let (tb, st) = get_or_create_block t st; (fb, st) = get_or_create_block f st in
      close_block (KBranch c tb fb) st\<lparr>ls_block := fb\<rparr>)"
| "apply_flow (FlowReturn v) st = close_block (KReturn v) st"
| "apply_flow (FlowThrow v) st = close_block (KThrow v) st"
| "apply_flow FlowNoop st = st"
| "apply_flow (FlowSwitch v d cases) st =
     (let (db, st) = get_or_create_block d st; (cs, st) = resolve_cases cases st in
      close_block (KSwitch v cs db) st)"

text \<open>What placing an instruction in the graph depends on: its offset, the comment before it and
  the result of the dispatch.\<close>

type_synonym item = "u32 \<times> statement list \<times> flow_result"

definition place :: "item \<Rightarrow> lift_state \<Rightarrow> lift_state" where
  "place = (\<lambda>(off, pre, res) st. apply_flow res (push_stmts pre (enter_block off st)))"

text \<open>After the last instruction: pending statements are stored, an open block returns undefined.\<close>

definition finish_block :: "lift_state \<Rightarrow> cfg" where
  "finish_block st =
     (let c = ls_block st;
          opened = (\<lambda>g. map_option bb_terminator (get_block g c) = Some KNone);
          g = ls_cfg st in
      if ls_stmts st \<noteq> [] \<or> opened g
      then let g = set_block_stmts c (ls_stmts st) g in
        (if opened g then update_block c (set_terminator (KReturn (Some (const_expr CUndefined)))) g else g)
      else g)"

section \<open>The function\<close>

text \<open>Blocks of the leaders, the entry block for the first.\<close>

definition allocate_block :: "u32 \<Rightarrow> u32 \<Rightarrow> cfg \<times> (u32 \<times> block_id) list \<Rightarrow> cfg \<times> (u32 \<times> block_id) list" where
  "allocate_block first off = (\<lambda>(g, o2b).
     if off \<noteq> first then let (b, g) = create_block g in (g, bt_insert off b o2b) else (g, o2b))"

definition initial_blocks :: "u32 \<Rightarrow> u32 list \<Rightarrow> cfg \<times> (u32 \<times> block_id) list" where
  "initial_blocks first starts = fold (allocate_block first) starts (new_cfg, [(first, cfg_entry new_cfg)])"

definition handler_blocks :: "(u32 \<times> block_id) list \<Rightarrow> exception_handler \<Rightarrow> cfg_exception_handler list" where
  "handler_blocks o2b h =
     (case (map_of o2b (eh_start h), map_of o2b (eh_target h)) of
        (Some try_start, Some catch_block) \<Rightarrow>
          [\<lparr>ceh_try_block_start = try_start, ceh_catch_block = catch_block,
            ceh_try_blocks = map snd (filter (\<lambda>(off, b). eh_start h \<le> off \<and> off < max (eh_end h) (eh_start h)) o2b)\<rparr>]
      | _ \<Rightarrow> [])"

definition kept_handlers ::
  "instruction list \<Rightarrow> bytecode_format \<Rightarrow> exception_handler list \<Rightarrow> exception_handler list" where
  "kept_handlers insns format handlers =
     filter (\<lambda>h. \<not> is_rethrow_only_handler insns format (eh_target h)
               \<and> \<not> is_iterator_cleanup_handler insns format (eh_target h)) handlers"

record build_env =
  be_builtins :: "u32 \<Rightarrow> string list"
  be_format :: bytecode_format
  be_options :: builder_options
  be_func_off :: u32
  be_frame_size :: u32

text \<open>Lifting all instructions, threading the file and the register map, and collecting the
  functions created with an environment, nested ones apart.\<close>

record lower_state =
  lw_file :: bytecode_file
  lw_env :: env_reg_map
  lw_created_in_block :: "(u32 \<times> u32) list"
  lw_created_with_env :: "(u32 \<times> u32) list"

definition record_created :: "bytecode_format \<Rightarrow> instruction \<Rightarrow> lower_state \<Rightarrow> lower_state" where
  "record_created format insn s =
     (case created_function_and_env format insn of
        Some (child, env_reg) \<Rightarrow>
          let level = level_of (lw_env s) env_reg in
          (if NESTED_ENV_LEVEL_BASE \<le> level
           then s\<lparr>lw_created_in_block := lw_created_in_block s @ [(child, level)]\<rparr>
           else s\<lparr>lw_created_with_env := lw_created_with_env s @ [(child, level)]\<rparr>)
      | None \<Rightarrow> s)"

definition lower_one :: "build_env \<Rightarrow> instruction \<Rightarrow> lower_state \<Rightarrow> item \<times> lower_state" where
  "lower_one env insn s =
     (case dispatch_instruction (be_builtins env) insn (be_format env) (bo_resolve_strings (be_options env))
             (be_func_off env) (be_frame_size env) (lw_file s, (lw_env s)\<lparr>er_at := in_offset insn\<rparr>) of
        (res, file, m) \<Rightarrow>
          ((in_offset insn, offset_comment (be_options env) (lw_file s) (be_func_off env) (in_offset insn), res),
           record_created (be_format env) insn (s\<lparr>lw_file := file, lw_env := m\<rparr>)))"

fun build_loop :: "build_env \<Rightarrow> instruction list \<Rightarrow> lower_state \<times> lift_state \<Rightarrow> lower_state \<times> lift_state" where
  "build_loop env [] acc = acc"
| "build_loop env (insn # insns) (s, st) =
     (let (it, s) = lower_one env insn s in build_loop env insns (s, place it st))"

definition start_state :: "build_env \<Rightarrow> bytecode_file \<Rightarrow> instruction list \<Rightarrow> exception_handler list \<Rightarrow> lift_state" where
  "start_state env file insns handlers =
     (let starts = find_block_starts_with_handlers insns (be_format env) file handlers (be_func_off env);
          (g, o2b) = initial_blocks (in_offset (hd insns)) starts;
          g = g\<lparr>cfg_exception_handlers := cfg_exception_handlers g @
                  concat (map (handler_blocks o2b) (kept_handlers insns (be_format env) handlers)),
                cfg_offset_to_block := map_of o2b\<rparr> in
      \<lparr>ls_cfg = g, ls_offsets = o2b, ls_block = cfg_entry g, ls_stmts = []\<rparr>)"

definition build_from_instructions ::
  "build_env \<Rightarrow> env_plan option \<Rightarrow> bytecode_file \<Rightarrow> instruction list \<Rightarrow> exception_handler list \<Rightarrow> cfg \<times> lower_state" where
  "build_from_instructions env plan file insns handlers =
     (let s = \<lparr>lw_file = file, lw_env = new_env_reg_map\<lparr>er_plan := plan\<rparr>, lw_created_in_block = [], lw_created_with_env = []\<rparr> in
      if insns = [] then (update_block (cfg_entry new_cfg) (set_terminator (KReturn None)) new_cfg, s)
      else let (s, st) = build_loop env insns (s, start_state env file insns handlers) in (finish_block st, s))"

end
