(* ===== verification/Generator_Cfg.thy ===== *)
theory Generator_Cfg
  imports Lift Rust_Text
begin

text \<open>
  Suspension points of generators (\<open>ir/builder/generator_cfg.rs\<close>): a block that ends in a yield marker
  and a return becomes a yield that continues at the resume block.
\<close>

section \<open>Suspension points\<close>

fun is_resume_call :: "expression \<Rightarrow> bool" where
  "is_resume_call (ECall (EMember _ (PIdent name) _) _) = (name = lit ''resume'')"
| "is_resume_call _ = False"

fun is_start_generator :: "statement \<Rightarrow> bool" where
  "is_start_generator (SComment c) = (c = lit ''StartGenerator'')"
| "is_start_generator _ = False"

definition resume_offset :: "basic_block \<Rightarrow> u32 option" where
  "resume_offset blk =
     (if bb_statements blk = [] then None
      else case last (bb_statements blk) of
        SComment c \<Rightarrow> Option.bind (strip_prefix yield_marker c) parse_u32
      | _ \<Rightarrow> None)"

type_synonym yield_point = "block_id \<times> expression option \<times> u32"

definition yield_point_of :: "block_id \<times> basic_block \<Rightarrow> yield_point option" where
  "yield_point_of = (\<lambda>(i, blk).
     case (resume_offset blk, bb_terminator blk) of
       (Some off, KReturn v) \<Rightarrow> Some (i, v, off)
     | _ \<Rightarrow> None)"

definition yield_points :: "cfg \<Rightarrow> yield_point list" where
  "yield_points g = List.map_filter yield_point_of (cfg_blocks g)"

text \<open>The register a resume block receives the sent value in.\<close>

definition resume_register :: "cfg \<Rightarrow> u32 \<Rightarrow> reg option" where
  "resume_register g off =
     (case Option.bind (cfg_offset_to_block g off) (get_block g) of
        Some blk \<Rightarrow>
          (case bb_statements blk of
             SAssign (TBinding (BRegister r)) v # _ \<Rightarrow> if is_resume_call v then Some r else None
           | _ \<Rightarrow> None)
      | None \<Rightarrow> None)"

section \<open>The transformation\<close>

definition yield_statement :: "reg option \<Rightarrow> expression option \<Rightarrow> statement" where
  "yield_statement r v =
     (let y = EYield (case v of Some e \<Rightarrow> e | None \<Rightarrow> const_expr CUndefined) False in
      case r of Some r \<Rightarrow> assign_reg r y | None \<Rightarrow> SExpr y)"

definition suspend_block :: "statement \<Rightarrow> block_id \<Rightarrow> basic_block \<Rightarrow> basic_block" where
  "suspend_block y target blk = blk\<lparr>bb_statements := butlast (bb_statements blk) @ [y], bb_terminator := KJump target\<rparr>"

definition drop_resume_call :: "statement list \<Rightarrow> statement list" where
  "drop_resume_call stmts =
     (case stmts of SAssign t v # rest \<Rightarrow> if is_resume_call v then rest else stmts | _ \<Rightarrow> stmts)"

definition take_false_branch :: "terminator \<Rightarrow> terminator" where
  "take_false_branch t = (case t of KBranch _ _ f \<Rightarrow> KJump f | _ \<Rightarrow> t)"

definition continue_block :: "basic_block \<Rightarrow> basic_block" where
  "continue_block blk = blk\<lparr>bb_statements := drop_resume_call (bb_statements blk),
     bb_terminator := take_false_branch (bb_terminator blk)\<rparr>"

definition apply_yield :: "(u32 \<Rightarrow> reg option) \<Rightarrow> yield_point \<Rightarrow> cfg \<Rightarrow> cfg" where
  "apply_yield resume_reg = (\<lambda>(i, v, off) g.
     case cfg_offset_to_block g off of
       None \<Rightarrow> g
     | Some target \<Rightarrow>
         if get_block g i = None then g
         else update_block target continue_block
                (update_block i (suspend_block (yield_statement (resume_reg off) v) target) g))"

fun is_resume_assign :: "statement \<Rightarrow> bool" where
  "is_resume_assign (SAssign _ v) = is_resume_call v"
| "is_resume_assign _ = False"

definition clean_entry :: "basic_block \<Rightarrow> basic_block" where
  "clean_entry blk =
     (let stmts = filter (Not \<circ> is_start_generator) (bb_statements blk) in
      case position is_resume_assign stmts of
        Some i \<Rightarrow> blk\<lparr>bb_statements := take i stmts @ drop (Suc i) stmts,
                      bb_terminator := take_false_branch (bb_terminator blk)\<rparr>
      | None \<Rightarrow> blk\<lparr>bb_statements := stmts\<rparr>)"

definition transform_generator_cfg :: "cfg \<Rightarrow> cfg" where
  "transform_generator_cfg g =
     (if \<not> (\<exists>blk\<in>set (blocks g). \<exists>s\<in>set (bb_statements blk). is_start_generator s) then g
      else if yield_points g = [] then g
      else update_block (cfg_entry g) clean_entry
             (fold (apply_yield (resume_register g)) (yield_points g) g))"

section \<open>The lifted function\<close>

definition build_function ::
  "(u32 \<Rightarrow> string list) \<Rightarrow> bytecode_format \<Rightarrow> builder_options \<Rightarrow> env_plan option \<Rightarrow> bytecode_file \<Rightarrow> u32
    \<Rightarrow> (cfg \<times> lower_state) result" where
  "build_function builtins format opts plan file function_id =
     res_bind (decode_function_instructions file format function_id) (\<lambda>insns.
     let handlers = (case bf_exception_handlers file function_id of Some hs \<Rightarrow> hs | None \<Rightarrow> []);
         header = list_get (bf_function_headers file) (unat function_id);
         func_off = (case header of
             Some h \<Rightarrow> if bf_instruction_offset file \<le> fh_offset h then fh_offset h - bf_instruction_offset file else 0
           | None \<Rightarrow> 0);
         frame_size = (case header of Some h \<Rightarrow> fh_frame_size h | None \<Rightarrow> 0) in
     Inr (apfst transform_generator_cfg (build_from_instructions
       \<lparr>be_builtins = builtins, be_format = format, be_options = opts, be_func_off = func_off, be_frame_size = frame_size\<rparr>
       plan file insns handlers)))"

end
