(* ===== verification/Lift_Closed.thy ===== *)
theory Lift_Closed
  imports Generator_Cfg
begin

text \<open>
  The graph the builder makes is closed: its blocks are in id order and carry their ids, and its
  entry, its handlers, its offset map and every terminator name blocks it holds.  The current block
  of the builder exists at every step, so none of its \<open>expect\<close>s can fail.
\<close>

section \<open>Closed graphs\<close>

definition graph_ids :: "cfg \<Rightarrow> block_id set" where
  "graph_ids g = fst ` set (cfg_blocks g)"

definition handler_ids :: "cfg_exception_handler \<Rightarrow> block_id set" where
  "handler_ids h = {ceh_try_block_start h, ceh_catch_block h} \<union> set (ceh_try_blocks h)"

definition cfg_closed :: "cfg \<Rightarrow> bool" where
  "cfg_closed g \<longleftrightarrow> bt_ordered (cfg_blocks g) \<and> ids_match g \<and> cfg_entry g \<in> graph_ids g
     \<and> (\<forall>blk\<in>set (blocks g). set (block_successors blk) \<subseteq> graph_ids g)
     \<and> (\<forall>h\<in>set (cfg_exception_handlers g). handler_ids h \<subseteq> graph_ids g)
     \<and> ran (cfg_offset_to_block g) \<subseteq> graph_ids g"

named_theorems closed_simps

text \<open>An edit of one block.\<close>

lemma graph_ids_update [simp]: "graph_ids (update_block i f g) = graph_ids g"
  by (force simp: graph_ids_def update_block_def)

lemma blocks_update: "blk \<in> set (blocks (update_block i f g)) \<Longrightarrow>
    blk \<in> set (blocks g) \<or> (\<exists>old\<in>set (blocks g). blk = f old)"
  by (force simp: blocks_def update_block_def split: if_splits)

lemma keys_update [simp]: "map fst (cfg_blocks (update_block i f g)) = map fst (cfg_blocks g)"
  by (simp add: update_block_def comp_def split_beta)

lemma rest_update [simp]:
  "cfg_entry (update_block i f g) = cfg_entry g"
  "cfg_exception_handlers (update_block i f g) = cfg_exception_handlers g"
  "cfg_offset_to_block (update_block i f g) = cfg_offset_to_block g"
  "cfg_next_id (update_block i f g) = cfg_next_id g"
  by (simp_all add: update_block_def)

lemma closed_update:
  assumes "cfg_closed g" and "\<And>blk. bb_id (f blk) = bb_id blk"
    and "\<And>blk. blk \<in> set (blocks g) \<Longrightarrow> set (block_successors (f blk)) \<subseteq> graph_ids g"
  shows "cfg_closed (update_block i f g)"
proof -
  have "ids_match (update_block i f g)"
    using assms(1,2) by (auto simp: cfg_closed_def ids_match_def update_block_def)
  moreover have "set (block_successors blk) \<subseteq> graph_ids g" if "blk \<in> set (blocks (update_block i f g))" for blk
    using blocks_update[OF that] assms(1,3) by (auto simp: cfg_closed_def)
  ultimately show ?thesis using assms(1) by (simp add: cfg_closed_def)
qed

lemma block_field_simps [simp]:
  "bb_id (set_terminator t blk) = bb_id blk"
  "block_successors (set_terminator t blk) = terminator_successors t"
  "bb_statements (set_terminator t blk) = bb_statements blk"
  "bb_terminator (set_terminator t blk) = t"
  "block_successors (blk\<lparr>bb_statements := stmts\<rparr>) = block_successors blk"
  by (simp_all add: set_terminator_def block_successors_def)

lemma closed_set_terminator:
  "cfg_closed g \<Longrightarrow> set (terminator_successors t) \<subseteq> graph_ids g \<Longrightarrow> cfg_closed (update_block i (set_terminator t) g)"
  by (intro closed_update) simp_all

lemma closed_successors: "cfg_closed g \<Longrightarrow> blk \<in> set (blocks g) \<Longrightarrow> set (block_successors blk) \<subseteq> graph_ids g"
  by (simp add: cfg_closed_def)

lemma closed_set_stmts: "cfg_closed g \<Longrightarrow> cfg_closed (set_block_stmts i stmts g)"
  unfolding set_block_stmts_def by (intro closed_update) (auto dest: closed_successors)

lemma graph_ids_set_stmts [simp]: "graph_ids (set_block_stmts i stmts g) = graph_ids g"
  by (simp add: set_block_stmts_def)

lemma closed_finalize: "cfg_closed g \<Longrightarrow> nxt \<in> graph_ids g \<Longrightarrow> cfg_closed (finalize_block i stmts nxt g)"
  unfolding finalize_block_def by (intro closed_update) (auto simp: Let_def dest: closed_successors)

lemma graph_ids_finalize [simp]: "graph_ids (finalize_block i stmts nxt g) = graph_ids g"
  by (simp add: finalize_block_def)

text \<open>A new block.\<close>

lemma create_block_eq:
  "create_block g = (cfg_next_id g, g\<lparr>cfg_next_id := cfg_next_id g + 1,
     cfg_blocks := bt_insert (cfg_next_id g) (new_block (cfg_next_id g)) (cfg_blocks g)\<rparr>)"
  by (simp add: create_block_def Let_def)

lemma set_bt_insert: "p \<in> set (bt_insert k v xs) \<Longrightarrow> p = (k, v) \<or> p \<in> set xs"
  by (induction k v xs rule: bt_insert.induct) (auto split: if_splits)

lemma graph_ids_create: "graph_ids (snd (create_block g)) = insert (fst (create_block g)) (graph_ids g)"
  by (simp add: create_block_eq graph_ids_def keys_bt_insert)

lemma closed_create: "cfg_closed g \<Longrightarrow> cfg_closed (snd (create_block g))"
proof -
  assume g: "cfg_closed g"
  let ?g = "snd (create_block g)"
  have ids: "graph_ids g \<subseteq> graph_ids ?g" using graph_ids_create[of g] by auto
  have "ids_match ?g"
    using g by (auto simp: cfg_closed_def ids_match_def create_block_eq new_block_def dest!: set_bt_insert)
  moreover have "set (block_successors blk) \<subseteq> graph_ids ?g" if "blk \<in> set (blocks ?g)" for blk
  proof -
    from that have "blk = new_block (cfg_next_id g) \<or> blk \<in> set (blocks g)"
      by (auto simp: blocks_def create_block_eq dest!: set_bt_insert intro: rev_image_eqI)
    then show ?thesis using closed_successors[OF g] ids by (auto simp: new_block_def block_successors_def)
  qed
  moreover have "bt_ordered (cfg_blocks ?g)"
    using g bt_insert_ordered[of "cfg_blocks g"] by (auto simp: cfg_closed_def create_block_eq)
  moreover have "cfg_entry ?g = cfg_entry g" "cfg_exception_handlers ?g = cfg_exception_handlers g"
    "cfg_offset_to_block ?g = cfg_offset_to_block g" by (simp_all add: create_block_eq)
  moreover have "handler_ids h \<subseteq> graph_ids ?g" if "h \<in> set (cfg_exception_handlers g)" for h
    using that g ids unfolding cfg_closed_def by (meson order_trans)
  ultimately show ?thesis using g ids by (simp add: cfg_closed_def) blast
qed

lemma map_of_value: "map_of xs k = Some v \<Longrightarrow> v \<in> snd ` set xs"
  by (force dest: map_of_SomeD)

section \<open>The builder's state\<close>

definition lift_closed :: "lift_state \<Rightarrow> bool" where
  "lift_closed st \<longleftrightarrow> cfg_closed (ls_cfg st) \<and> ls_block st \<in> graph_ids (ls_cfg st)
     \<and> snd ` set (ls_offsets st) \<subseteq> graph_ids (ls_cfg st)"

lemma get_or_create_closed:
  assumes "lift_closed st" and "get_or_create_block off st = (b, st')"
  shows "lift_closed st' \<and> b \<in> graph_ids (ls_cfg st') \<and> graph_ids (ls_cfg st) \<subseteq> graph_ids (ls_cfg st')"
proof (cases "map_of (ls_offsets st) off")
  case None
  let ?g = "ls_cfg st"
  from None assms(2) have st': "b = fst (create_block ?g)"
    "st' = st\<lparr>ls_cfg := snd (create_block ?g), ls_offsets := bt_insert off b (ls_offsets st)\<rparr>"
    by (auto simp: get_or_create_block_def create_block_eq)
  have "snd ` set (bt_insert off b (ls_offsets st)) \<subseteq> insert b (graph_ids ?g)"
    using assms(1) by (auto simp: lift_closed_def dest!: set_bt_insert)
  then show ?thesis
    using assms(1) closed_create[of ?g] graph_ids_create[of ?g] by (auto simp: lift_closed_def st')
next
  case (Some b')
  then show ?thesis using assms map_of_SomeD[OF Some] by (force simp: get_or_create_block_def lift_closed_def)
qed

lemma closed_stmts: "lift_closed st \<Longrightarrow> lift_closed (st\<lparr>ls_stmts := stmts\<rparr>)"
  by (simp add: lift_closed_def)

lemma close_block_closed:
  "lift_closed st \<Longrightarrow> set (terminator_successors t) \<subseteq> graph_ids (ls_cfg st) \<Longrightarrow> lift_closed (close_block t st)"
  by (auto simp: lift_closed_def close_block_def intro!: closed_set_terminator closed_set_stmts)

lemma graph_ids_close [simp]: "graph_ids (ls_cfg (close_block t st)) = graph_ids (ls_cfg st)"
  by (simp add: close_block_def)

lemma enter_block_closed: "lift_closed st \<Longrightarrow> lift_closed (enter_block off st)"
  by (auto simp: lift_closed_def enter_block_def split: option.splits dest!: map_of_SomeD intro!: closed_finalize)

lemma resolve_cases_closed:
  assumes "lift_closed st" and "resolve_cases cases st = (bs, st')"
  shows "lift_closed st' \<and> snd ` set bs \<subseteq> graph_ids (ls_cfg st') \<and> graph_ids (ls_cfg st) \<subseteq> graph_ids (ls_cfg st')"
  using assms
proof (induction cases st arbitrary: bs st' rule: resolve_cases.induct)
  case (2 e off cs st)
  obtain b st1 where 1: "get_or_create_block off st = (b, st1)" by fastforce
  obtain bs1 st2 where 2: "resolve_cases cs st1 = (bs1, st2)" by fastforce
  from "2.prems"(2) 1 2 have "bs = (e, b) # bs1" "st' = st2" by simp_all
  with get_or_create_closed[OF "2.prems"(1) 1] "2.IH"[OF 1[symmetric] refl _ 2] show ?case by auto
qed simp

lemma apply_flow_closed: "lift_closed st \<Longrightarrow> lift_closed (apply_flow res st)"
proof (cases res)
  case (FlowStatement s)
  then show "lift_closed st \<Longrightarrow> ?thesis" by (cases s) (simp_all add: push_stmts_def closed_stmts)
next
  case (FlowJump t)
  assume st: "lift_closed st"
  obtain b st1 where 1: "get_or_create_block t st = (b, st1)" by fastforce
  from get_or_create_closed[OF st 1] show ?thesis by (simp add: FlowJump 1 close_block_closed)
next
  case (FlowBranch c t f)
  assume st: "lift_closed st"
  obtain b st1 where 1: "get_or_create_block t st = (b, st1)" by fastforce
  obtain b2 st2 where 2: "get_or_create_block f st1 = (b2, st2)" by fastforce
  note s1 = get_or_create_closed[OF st 1]
  then have s2: "lift_closed st2 \<and> b2 \<in> graph_ids (ls_cfg st2) \<and> graph_ids (ls_cfg st1) \<subseteq> graph_ids (ls_cfg st2)"
    using get_or_create_closed[OF _ 2] by blast
  then have "lift_closed (close_block (KBranch c b b2) st2)" using s1 by (intro close_block_closed) auto
  moreover have "ls_cfg (close_block (KBranch c b b2) st2\<lparr>ls_block := b2\<rparr>) = ls_cfg (close_block (KBranch c b b2) st2)"
    "ls_offsets (close_block (KBranch c b b2) st2\<lparr>ls_block := b2\<rparr>) = ls_offsets (close_block (KBranch c b b2) st2)"
    by simp_all
  ultimately show ?thesis using s2 by (simp add: FlowBranch 1 2 lift_closed_def)
next
  case (FlowSwitch v d cs)
  assume st: "lift_closed st"
  obtain b st1 where 1: "get_or_create_block d st = (b, st1)" by fastforce
  obtain bs st2 where 2: "resolve_cases cs st1 = (bs, st2)" by fastforce
  note s1 = get_or_create_closed[OF st 1]
  then have s2: "lift_closed st2 \<and> snd ` set bs \<subseteq> graph_ids (ls_cfg st2) \<and> graph_ids (ls_cfg st1) \<subseteq> graph_ids (ls_cfg st2)"
    using resolve_cases_closed[OF _ 2] by blast
  then have "lift_closed (close_block (KSwitch v bs b) st2)" using s1 by (intro close_block_closed) auto
  then show ?thesis by (simp add: FlowSwitch 1 2)
qed (simp_all add: close_block_closed)

lemma place_closed: "lift_closed st \<Longrightarrow> lift_closed (place it st)"
  by (cases it) (simp add: place_def apply_flow_closed push_stmts_def closed_stmts enter_block_closed)

lemma build_loop_closed: "lift_closed (snd acc) \<Longrightarrow> lift_closed (snd (build_loop env insns acc))"
  by (induction env insns acc rule: build_loop.induct) (auto simp: split_beta place_closed)

lemma finish_block_closed: "lift_closed st \<Longrightarrow> cfg_closed (finish_block st)"
  by (auto simp: finish_block_def Let_def lift_closed_def intro!: closed_set_terminator closed_set_stmts)

lemma closed_new_cfg: "cfg_closed new_cfg" "graph_ids new_cfg = {0}"
  by (auto simp: cfg_closed_def new_cfg_def graph_ids_def ids_match_def blocks_def new_block_def block_successors_def)

definition fresh_graph :: "cfg \<times> (u32 \<times> block_id) list \<Rightarrow> bool" where
  "fresh_graph = (\<lambda>(g, o2b). cfg_closed g \<and> snd ` set o2b \<subseteq> graph_ids g \<and> cfg_exception_handlers g = [] \<and> cfg_entry g = 0)"

lemma allocate_block_fresh: "fresh_graph acc \<Longrightarrow> fresh_graph (allocate_block first off acc)"
proof (cases acc)
  case (Pair g o2b)
  assume g: "fresh_graph acc"
  have "snd ` set (bt_insert off (fst (create_block g)) o2b) \<subseteq> insert (fst (create_block g)) (snd ` set o2b)"
    by (auto dest!: set_bt_insert)
  moreover have "cfg_entry (snd (create_block g)) = cfg_entry g"
    "cfg_exception_handlers (snd (create_block g)) = cfg_exception_handlers g" by (simp_all add: create_block_eq)
  ultimately show ?thesis
    using g closed_create[of g] graph_ids_create[of g]
    by (auto simp: Pair fresh_graph_def allocate_block_def Let_def split_beta)
qed

lemma initial_blocks_fresh: "fresh_graph (initial_blocks first starts)"
proof -
  have "fresh_graph acc \<Longrightarrow> fresh_graph (fold (allocate_block first) starts acc)" for acc
    by (induction starts arbitrary: acc) (simp_all add: allocate_block_fresh)
  moreover have "fresh_graph (new_cfg, [(first, cfg_entry new_cfg)])"
    by (simp add: fresh_graph_def closed_new_cfg) (simp add: new_cfg_def)
  ultimately show ?thesis by (simp add: initial_blocks_def)
qed

lemma initial_blocks_closed:
  "initial_blocks first starts = (g, o2b) \<Longrightarrow>
    cfg_closed g \<and> snd ` set o2b \<subseteq> graph_ids g \<and> cfg_exception_handlers g = [] \<and> cfg_entry g = 0"
  using initial_blocks_fresh[of first starts] by (simp add: fresh_graph_def)

lemma handler_blocks_closed:
  assumes "snd ` set o2b \<subseteq> ids" and "h \<in> set (handler_blocks o2b eh)"
  shows "handler_ids h \<subseteq> ids"
proof -
  from assms(2) obtain a b where "map_of o2b (eh_start eh) = Some a" "map_of o2b (eh_target eh) = Some b"
    and h: "ceh_try_block_start h = a" "ceh_catch_block h = b" "set (ceh_try_blocks h) \<subseteq> snd ` set o2b"
    by (cases "map_of o2b (eh_start eh)"; cases "map_of o2b (eh_target eh)") (auto simp: handler_blocks_def)
  then have "a \<in> snd ` set o2b" "b \<in> snd ` set o2b" by (blast intro: map_of_value)+
  with h assms(1) show ?thesis by (auto simp: handler_ids_def)
qed

lemma start_state_closed: "lift_closed (start_state env file insns handlers)"
proof -
  obtain g o2b where init: "initial_blocks (in_offset (hd insns))
      (find_block_starts_with_handlers insns (be_format env) file handlers (be_func_off env)) = (g, o2b)" by fastforce
  note c = initial_blocks_closed[OF init]
  let ?hs = "concat (map (handler_blocks o2b) (kept_handlers insns (be_format env) handlers))"
  let ?g = "g\<lparr>cfg_exception_handlers := cfg_exception_handlers g @ ?hs, cfg_offset_to_block := map_of o2b\<rparr>"
  have ids: "graph_ids ?g = graph_ids g" by (simp add: graph_ids_def)
  have "ran (map_of o2b) \<subseteq> graph_ids g" using c by (auto simp: ran_def dest!: map_of_value)
  moreover have "handler_ids h \<subseteq> graph_ids g" if "h \<in> set ?hs" for h
  proof -
    from that obtain eh where "h \<in> set (handler_blocks o2b eh)" by auto
    with c show ?thesis by (intro handler_blocks_closed) auto
  qed
  moreover have "ids_match ?g = ids_match g" "blocks ?g = blocks g" by (simp_all add: ids_match_def blocks_def)
  ultimately have "cfg_closed ?g" using c ids by (simp add: cfg_closed_def) metis
  moreover have "start_state env file insns handlers =
      \<lparr>ls_cfg = ?g, ls_offsets = o2b, ls_block = cfg_entry g, ls_stmts = []\<rparr>"
    by (simp add: start_state_def init Let_def)
  ultimately show ?thesis using c ids by (simp add: lift_closed_def cfg_closed_def)
qed

theorem build_from_instructions_closed: "cfg_closed (fst (build_from_instructions env plan file insns handlers))"
proof (cases "insns = []")
  case True
  then show ?thesis by (simp add: build_from_instructions_def closed_set_terminator closed_new_cfg)
next
  case False
  then show ?thesis
    using build_loop_closed[of "(_, start_state env file insns handlers)" env insns] start_state_closed
    by (auto simp: build_from_instructions_def Let_def split_beta intro!: finish_block_closed)
qed

section \<open>Generators\<close>

lemma take_false_successors: "set (terminator_successors (take_false_branch t)) \<subseteq> set (terminator_successors t)"
  by (cases t) (auto simp: take_false_branch_def)

lemma apply_yield_closed: "cfg_closed g \<Longrightarrow> cfg_closed (apply_yield rr y g)"
proof (cases y)
  case (fields i v off)
  assume g: "cfg_closed g"
  show ?thesis
  proof (cases "cfg_offset_to_block g off")
    case (Some target)
    with g have t: "target \<in> graph_ids g" by (auto simp: cfg_closed_def ran_def)
    let ?g = "update_block i (suspend_block (yield_statement (rr off) v) target) g"
    have s: "cfg_closed ?g"
      using g t by (intro closed_update) (auto simp: suspend_block_def block_successors_def)
    have "cfg_closed (update_block target continue_block ?g)"
    proof (rule closed_update[OF s])
      fix blk
      assume "blk \<in> set (blocks ?g)"
      from closed_successors[OF s this] take_false_successors[of "bb_terminator blk"]
      show "set (block_successors (continue_block blk)) \<subseteq> graph_ids ?g"
        by (auto simp: continue_block_def block_successors_def)
    qed (simp add: continue_block_def)
    with g show ?thesis by (simp add: apply_yield_def fields Some)
  qed (use g in \<open>simp add: apply_yield_def fields\<close>)
qed

lemma fold_apply_yield_closed: "cfg_closed g \<Longrightarrow> cfg_closed (fold (apply_yield rr) ys g)"
  by (induction ys arbitrary: g) (simp_all add: apply_yield_closed)

lemma clean_entry_successors: "set (block_successors (clean_entry blk)) \<subseteq> set (block_successors blk)"
  using take_false_successors[of "bb_terminator blk"]
  by (auto simp: clean_entry_def block_successors_def Let_def split: option.splits)

lemma transform_generator_cfg_closed: "cfg_closed g \<Longrightarrow> cfg_closed (transform_generator_cfg g)"
proof -
  assume g: "cfg_closed g"
  let ?g = "fold (apply_yield (resume_register g)) (yield_points g) g"
  have s: "cfg_closed ?g" by (rule fold_apply_yield_closed[OF g])
  have "cfg_closed (update_block (cfg_entry g) clean_entry ?g)"
    using closed_successors[OF s] clean_entry_successors
    by (intro closed_update[OF s]) (fastforce simp: clean_entry_def Let_def split: option.splits)+
  with g show ?thesis by (simp add: transform_generator_cfg_def)
qed

text \<open>C9: The control-flow graph of a function is closed, whatever the bytecode: block ids are
  distinct and in order, every block carries its id, and the entry, every successor of every block,
  every try and catch block of a handler and every block of the offset map are blocks of the graph,
  after the generator transformation too.\<close>

theorem lifted_graph_closed:
  "pred_sum (\<lambda>e. True) (\<lambda>(g, s). cfg_closed g) (build_function builtins format opts plan file function_id)"
  using transform_generator_cfg_closed[OF build_from_instructions_closed]
  by (auto simp: build_function_def res_bind_def Let_def apfst_def map_prod_def split_beta split: sum.splits)

end
