(* ===== verification/Lift_Targets.thy ===== *)
theory Lift_Targets
  imports Jump_Analysis
begin

text \<open>
  The handlers and the jump analysis read the same operands and the same jump tables in two places.
  The lemmas show that they agree: wherever the dispatch sends control, the analysis has a target.
\<close>

section \<open>Where a result sends control\<close>

fun flow_targets :: "flow_result \<Rightarrow> u32 list" where
  "flow_targets (FlowJump t) = [t]"
| "flow_targets (FlowBranch c t f) = [t]"
| "flow_targets (FlowSwitch v d cases) = d # map snd cases"
| "flow_targets _ = []"

fun flow_fallthrough :: "flow_result \<Rightarrow> u32 option" where
  "flow_fallthrough (FlowBranch c t f) = Some f"
| "flow_fallthrough _ = None"

definition straight :: "flow_result option \<Rightarrow> bool" where
  "straight res = (case res of Some r \<Rightarrow> flow_targets r = [] \<and> flow_fallthrough r = None | None \<Rightarrow> True)"

lemma straight_statement [simp]: "straight (map_option FlowStatement s)"
  by (cases s) (simp_all add: straight_def)

lemma straight_simps [simp]:
  "straight None" "straight (Some (FlowStatement s))" "straight (Some FlowNoop)"
  "straight (Some (FlowReturn v))" "straight (Some (FlowThrow e))"
  by (simp_all add: straight_def)

lemma straight_noreturn [simp]: "straight (Some (noreturn_builtin_result s))"
  by (induction s rule: noreturn_builtin_result.induct) (simp_all split: option.splits)

lemma straight_if [simp]: "straight a \<Longrightarrow> straight b \<Longrightarrow> straight (if c then a else b)"
  by simp

lemma straight_env: "straight (fst (try_env_handlers name insn m))"
  by (simp add: try_env_handlers_def handle_create_environment_def handle_get_environment_def
      handle_get_closure_environment_def handle_load_from_environment_def handle_store_to_environment_def
      handle_store_np_to_environment_def Let_def split_beta split: option.split)

lemma straight_plain: "straight (plain_handlers builtins name insn file format resolve frame_size)"
proof -
  have "straight (try_call_handlers builtins name insn file resolve frame_size ver)" for ver
    by (cases "handle_call_builtin builtins insn frame_size ver") (simp_all add: try_call_handlers_def)
  moreover have "straight (try_arith_handlers name insn)" "straight (try_prop_handlers name insn file resolve)"
    by (simp_all only: try_arith_handlers_def try_prop_handlers_def straight_statement)
  ultimately show ?thesis by (auto simp: plain_handlers_def split: option.split)
qed

lemma straight_obj: "straight (fst (try_obj_handlers name insn file resolve))"
  unfolding try_obj_handlers_def by (simp only: fst_apfst straight_statement)

section \<open>The file the flow handlers see\<close>

lemma read_buffer_series_instructions: "bf_instructions (snd (read_buffer_series file buf off n)) = bf_instructions file"
  by (simp add: read_buffer_series_def split: prod.split)

lemma buffer_reads_instructions [simp]:
  "bf_instructions (snd (read_key_buffer_series file off n)) = bf_instructions file"
  "bf_instructions (snd (read_value_buffer_series file off n)) = bf_instructions file"
  "bf_instructions (snd (read_array_buffer_series file off n)) = bf_instructions file"
  by (simp_all add: read_key_buffer_series_def read_value_buffer_series_def read_array_buffer_series_def
      read_buffer_series_instructions)

lemma buffer_reads_eq:
  "read_key_buffer_series file off n = (r, f) \<Longrightarrow> bf_instructions f = bf_instructions file"
  "read_value_buffer_series file off n = (r, f) \<Longrightarrow> bf_instructions f = bf_instructions file"
  using buffer_reads_instructions(1,2)[of "file" off n] by simp_all

lemma buffer_object_instructions [simp]:
  "bf_instructions (snd (buffer_object_properties insn file a b)) = bf_instructions file"
  by (auto simp: buffer_object_properties_def dest: buffer_reads_eq split: option.split prod.split sum.split)
    (metis buffer_reads_eq)+

lemma obj_handlers_instructions [simp]:
  "bf_instructions (snd (try_obj_handlers name insn file resolve)) = bf_instructions file"
proof -
  have "bf_instructions (snd (handle_new_object_with_parent insn file)) = bf_instructions file"
    using buffer_object_instructions[of insn "file" 2 3]
    by (auto simp: handle_new_object_with_parent_def split_beta Let_def split: option.split list.split)
  moreover have "bf_instructions (snd (handle_new_object_with_buffer insn file)) = bf_instructions file"
    by (auto simp: handle_new_object_with_buffer_def split_beta Let_def split: option.split)
  moreover have "bf_instructions (snd (handle_new_array_with_buffer insn file)) = bf_instructions file"
    by (auto simp: handle_new_array_with_buffer_def split_beta Let_def split: option.split)
  ultimately show ?thesis by (simp add: try_obj_handlers_def)
qed

lemma explicit_targets_cong:
  assumes "bf_instructions file = bf_instructions file'"
  shows "explicit_targets insn format file func_off = explicit_targets insn format file' func_off"
  unfolding explicit_targets_def switch_targets_def string_switch_targets_def assms ..

section \<open>The flow handlers\<close>

lemma jump_target_explicit:
  "get_jump_target insn format = Some t \<Longrightarrow> t \<in> set (explicit_targets insn format file func_off)"
  by (auto simp: get_jump_target_def explicit_targets_def bind_eq_Some_conv split: if_splits list.splits)

lemma imm_cases_targets: "map snd (imm_cases n v base r) = imm_targets n base r"
  by (induction n v base r rule: imm_cases.induct) (auto split: sum.split)

lemma string_cases_targets: "set (map snd (string_cases n file base r)) \<subseteq> set (string_targets n base r)"
proof (induction n "file" base r rule: string_cases.induct)
  case (2 n "file" base r)
  then show ?case by (fastforce simp: rd_bind_def rd_map_def split: sum.splits)
qed simp

definition agrees :: "instruction \<Rightarrow> bytecode_format \<Rightarrow> bytecode_file \<Rightarrow> u32 \<Rightarrow> flow_result option \<Rightarrow> bool" where
  "agrees insn format file func_off res \<longleftrightarrow>
     (case res of
        Some r \<Rightarrow> set (flow_targets r) \<subseteq> set (explicit_targets insn format file func_off)
          \<and> flow_fallthrough r \<in> {None, Some (next_offset insn)}
      | None \<Rightarrow> True)"

lemma straight_agrees: "straight res \<Longrightarrow> agrees insn format file func_off res"
  by (auto simp: straight_def agrees_def split: option.splits)

lemma agrees_if:
  "(c \<Longrightarrow> agrees insn format file func_off a) \<Longrightarrow> (\<not> c \<Longrightarrow> agrees insn format file func_off b) \<Longrightarrow>
    agrees insn format file func_off (if c then a else b)"
  by simp

lemma branch_agrees:
  assumes "res = do { t \<leftarrow> get_jump_target insn format; c \<leftarrow> cond; Some (FlowBranch c t (next_offset insn)) }"
  shows "agrees insn format file func_off res"
  using assms by (auto simp: agrees_def bind_eq_Some_conv intro: jump_target_explicit split: option.split)

lemma switch_imm_targets:
  assumes "handle_switch_imm insn file func_off = Some r"
  shows "set (flow_targets r) \<subseteq> set (switch_targets insn file func_off) \<and> flow_fallthrough r = None"
proof -
  from assms obtain v idx fb mn mx where ops: "src_reg insn 0 = Some v" "operand_u32 insn 1 = Some idx"
    "operand_i32 insn 2 = Some fb" "operand_u32 insn 3 = Some mn" "operand_u32 insn 4 = Some mx"
    by (auto simp: handle_switch_imm_def bind_eq_Some_conv)
  show ?thesis
  proof (cases "mx < mn \<or> length (bf_instructions file) < table_start insn idx func_off + (unat (mx - mn) + 1) * 4")
    case True
    with assms ops show ?thesis
      by (auto simp: handle_switch_imm_def Let_def out_of_bounds_def split: if_splits)
  next
    case False
    let ?cases = "imm_cases (unat (mx - mn) + 1) mn (in_offset insn)
      (new_reader (drop (table_start insn idx func_off) (bf_instructions file)))"
    from False assms ops have "r = FlowSwitch v (in_offset insn + fb) ?cases"
      by (simp add: handle_switch_imm_def Let_def del: imm_cases.simps)
    moreover from False ops have "switch_targets insn file func_off = (in_offset insn + fb) # map snd ?cases"
      unfolding imm_cases_targets by (simp add: switch_targets_def Let_def del: imm_targets.simps)
    ultimately show ?thesis by (simp del: imm_cases.simps)
  qed
qed

lemma string_switch_imm_targets:
  assumes "handle_string_switch_imm insn file func_off = Some r"
  shows "set (flow_targets r) \<subseteq> set (string_switch_targets insn file func_off) \<and> flow_fallthrough r = None"
proof -
  from assms obtain v idx fb n where ops: "src_reg insn 0 = Some v" "operand_u32 insn 2 = Some idx"
    "operand_i32 insn 3 = Some fb" "operand_u32 insn 4 = Some n"
    by (auto simp: handle_string_switch_imm_def bind_eq_Some_conv)
  let ?r = "new_reader (drop (table_start insn idx func_off) (bf_instructions file))"
  show ?thesis
  proof (cases "length (bf_instructions file) < table_start insn idx func_off + unat n * 8")
    case True
    with assms ops show ?thesis by (auto simp: handle_string_switch_imm_def Let_def out_of_bounds_def)
  next
    case False
    with assms ops have "r = FlowSwitch v (in_offset insn + fb) (string_cases (unat n) file (in_offset insn) ?r)"
      by (simp add: handle_string_switch_imm_def Let_def)
    moreover from False ops have
      "string_switch_targets insn file func_off = (in_offset insn + fb) # string_targets (unat n) (in_offset insn) ?r"
      by (simp add: string_switch_targets_def Let_def)
    ultimately show ?thesis using string_cases_targets[of "unat n" "file" "in_offset insn" ?r] by auto
  qed
qed

lemma switch_agrees:
  assumes "definition_at format (in_opcode insn) = Some def"
  shows "def_name def \<in> {''SwitchImm'', ''UIntSwitchImm''} \<Longrightarrow> agrees insn format file func_off (handle_switch_imm insn file func_off)"
    and "def_name def = ''StringSwitchImm'' \<Longrightarrow> agrees insn format file func_off (handle_string_switch_imm insn file func_off)"
  unfolding agrees_def explicit_targets_def using assms switch_imm_targets string_switch_imm_targets
  by (fastforce split: option.split)+

lemma flow_agrees:
  assumes "definition_at format (in_opcode insn) = Some def"
  shows "agrees insn format file func_off (try_flow_handlers builtins (def_name def) insn format file func_off)"
proof -
  let ?a = "agrees insn format file func_off"
  have "?a (handle_jmp insn format)"
    by (auto simp: agrees_def handle_jmp_def bind_eq_Some_conv intro: jump_target_explicit split: option.split)
  moreover have "?a (handle_jmp_cond name insn format)" for name
    by (rule branch_agrees[where cond = "map_option (\<lambda>c. if name_contains ''False'' name then EUnary OpNot c else c) (src_reg insn 1)"])
      (simp add: handle_jmp_cond_def Option.bind_map_option comp_def)
  moreover have "?a (handle_jmp_comparison name insn format)" for name
    by (rule branch_agrees[where cond = "do { l \<leftarrow> src_reg insn 1; r \<leftarrow> src_reg insn 2;
        op \<leftarrow> jmp_comparison_op (rev (trim_long (rev name))); Some (EBinary op l r) }"])
      (simp add: handle_jmp_comparison_def)
  moreover have "?a (handle_jmp_undefined insn format)"
    by (rule branch_agrees[where cond = "do { v \<leftarrow> src_reg insn 1; Some (EBinary OpStrictEq v (const_expr CUndefined)) }"])
      (simp add: handle_jmp_undefined_def)
  moreover have "?a (handle_jmp_typeof_is insn format)"
    by (rule branch_agrees[where cond = "do { s \<leftarrow> src_reg insn 1; k \<leftarrow> operand_u32 insn 2; Some (typeof_is_condition s k) }"])
      (simp add: handle_jmp_typeof_is_def)
  moreover have "?a (handle_jmp_builtin_is builtins name insn format ver)" for name ver
    by (rule branch_agrees[where cond = "do { i \<leftarrow> operand_u32 insn 1; s \<leftarrow> src_reg insn 2;
        Some (EBinary (if name_contains ''Not'' name then OpStrictNeq else OpStrictEq) s (builtin_ref_expr builtins i ver)) }"])
      (simp add: handle_jmp_builtin_is_def)
  moreover have "straight (handle_ret insn)" "straight (handle_throw insn)" "straight (handle_throw_if_undefined insn)"
    "straight (handle_select_object insn)" "straight (handle_catch insn)" "straight (handle_resume_generator insn)"
    "straight (handle_create_generator insn)" "straight (handle_save_generator insn)" "straight (handle_get_next_pname insn)"
    by (auto simp: straight_def handle_ret_def handle_throw_def handle_throw_if_undefined_def handle_select_object_def
        handle_catch_def handle_resume_generator_def handle_create_generator_def handle_save_generator_def
        handle_get_next_pname_def bind_eq_Some_conv split: option.split if_splits)
  moreover note switch_agrees[OF assms]
  ultimately show ?thesis
    unfolding try_flow_handlers_def by (intro agrees_if) (simp_all add: straight_agrees)
qed

text \<open>C10: The handlers send control only where the jump analysis looks.  Whatever instruction is
  dispatched, every jump, branch and switch target of its result is among the targets the analysis
  computed for it from the image, and a branch falls through to the next instruction.\<close>

theorem dispatch_targets_analysed:
  "set (flow_targets (fst (dispatch_instruction builtins insn format resolve func_off frame_size (file, m))))
     \<subseteq> set (explicit_targets insn format file func_off)
   \<and> flow_fallthrough (fst (dispatch_instruction builtins insn format resolve func_off frame_size (file, m)))
     \<in> {None, Some (next_offset insn)}"
proof (cases "definition_at format (in_opcode insn)")
  case None
  then show ?thesis by (simp add: dispatch_instruction_def unknown_opcode_def)
next
  case (Some def)
  let ?name = "def_name def"
  obtain r1 m1 where 1: "try_env_handlers ?name insn m = (r1, m1)" by fastforce
  obtain r2 m2 where 2: "try_load_handlers ?name insn file resolve m1 = (r2, m2)" by fastforce
  obtain r4 file1 where 4: "try_obj_handlers ?name insn file resolve = (r4, file1)" by fastforce
  let ?r3 = "plain_handlers builtins ?name insn file format resolve frame_size"
  let ?r5 = "try_flow_handlers builtins ?name insn format file1 func_off"
  have flow: "agrees insn format file1 func_off ?r5" by (rule flow_agrees[OF Some])
  have same: "bf_instructions file1 = bf_instructions file"
    using obj_handlers_instructions[of ?name insn "file" resolve] unfolding 4 by simp
  from flow have r5: "agrees insn format file func_off ?r5"
    unfolding agrees_def explicit_targets_cong[OF same] .
  have "straight r1" "straight r2" "straight ?r3" "straight r4"
    using straight_env[of ?name insn m] straight_plain straight_obj[of ?name insn "file" resolve]
    by (simp_all add: 1 4) (use 2 in \<open>auto simp: try_load_handlers_def\<close>)
  note others = this[THEN straight_agrees, of insn format "file" func_off]
  show ?thesis
    using others r5 by (simp add: dispatch_instruction_def Some Let_def 1 2 4 agrees_def unhandled_comment_def split: option.splits)
qed

end
