(* ===== verification/Lift_Blocks.thy ===== *)
theory Lift_Blocks
  imports Lift_Closed Lift_Targets
begin

text \<open>
  What the builder's loop over instructions with a current block, pending statements and blocks
  finished out of order amounts to: the instructions are cut into runs at the leaders, and each run
  is one block.  It holds for a body whose jumps land on instructions and whose block-ending
  instructions are followed by a leader; the last section shows what the builder does otherwise.
\<close>

section \<open>Runs\<close>

definition item_off :: "item \<Rightarrow> u32" where
  "item_off it = fst it"

definition item_res :: "item \<Rightarrow> flow_result" where
  "item_res it = snd (snd it)"

fun flow_stmts :: "flow_result \<Rightarrow> statement list" where
  "flow_stmts (FlowStatement (SBlock inner)) = inner"
| "flow_stmts (FlowStatement s) = [s]"
| "flow_stmts _ = []"

definition item_stmts :: "item \<Rightarrow> statement list" where
  "item_stmts it = fst (snd it) @ flow_stmts (item_res it)"

type_synonym block_map = "(u32 \<times> block_id) list"

definition block_of :: "block_map \<Rightarrow> u32 \<Rightarrow> block_id" where
  "block_of o2b t = (case map_of o2b t of Some b \<Rightarrow> b | None \<Rightarrow> 0)"

text \<open>The terminator a result gives its block, if it ends one.\<close>

fun block_end :: "block_map \<Rightarrow> flow_result \<Rightarrow> terminator option" where
  "block_end o2b (FlowJump t) = Some (KJump (block_of o2b t))"
| "block_end o2b (FlowBranch c t f) = Some (KBranch c (block_of o2b t) (block_of o2b f))"
| "block_end o2b (FlowReturn v) = Some (KReturn v)"
| "block_end o2b (FlowThrow v) = Some (KThrow v)"
| "block_end o2b (FlowSwitch v d cases) =
     Some (KSwitch v (map (\<lambda>(e, t). (e, block_of o2b t)) cases) (block_of o2b d))"
| "block_end o2b _ = None"

definition ends_block :: "flow_result \<Rightarrow> bool" where
  "ends_block res \<longleftrightarrow> block_end [] res \<noteq> None"

text \<open>Cutting the items before every leader.\<close>

fun runs :: "u32 set \<Rightarrow> item list \<Rightarrow> item list list" where
  "runs L [] = []"
| "runs L [it] = [[it]]"
| "runs L (it # it' # items) =
     (if item_off it' \<in> L then [it] # runs L (it' # items)
      else case runs L (it' # items) of [] \<Rightarrow> [[it]] | r # rs \<Rightarrow> (it # r) # rs)"

definition run_block :: "block_map \<Rightarrow> block_id \<Rightarrow> statement list \<Rightarrow> item list \<Rightarrow> item list list \<Rightarrow> block_id \<times> basic_block" where
  "run_block o2b c acc r rs =
     (c, \<lparr>bb_id = c, bb_statements = acc @ concat (map item_stmts r),
          bb_terminator = (case block_end o2b (item_res (last r)) of
             Some t \<Rightarrow> t
           | None \<Rightarrow> (case rs of
                 [] \<Rightarrow> KReturn (Some (const_expr CUndefined))
               | r' # _ \<Rightarrow> KJump (block_of o2b (item_off (hd r')))))\<rparr>)"

fun run_blocks :: "block_map \<Rightarrow> item list list \<Rightarrow> (block_id \<times> basic_block) list" where
  "run_blocks o2b [] = []"
| "run_blocks o2b (r # rs) = run_block o2b (block_of o2b (item_off (hd r))) [] r rs # run_blocks o2b rs"

text \<open>The bodies the builder handles: every target is in \<open>T\<close>, what ends a block is last or followed by
  a leader, and a branch is followed by what it falls through to.\<close>

fun well_split :: "u32 set \<Rightarrow> u32 set \<Rightarrow> item list \<Rightarrow> bool" where
  "well_split T L [] = True"
| "well_split T L [it] = (set (flow_targets (item_res it)) \<subseteq> T \<and> flow_fallthrough (item_res it) = None)"
| "well_split T L (it # it' # items) =
     (set (flow_targets (item_res it)) \<subseteq> T \<and> (ends_block (item_res it) \<longrightarrow> item_off it' \<in> L)
      \<and> flow_fallthrough (item_res it) \<in> {None, Some (item_off it')} \<and> well_split T L (it' # items))"

section \<open>States of the loop\<close>

definition at_block :: "cfg \<Rightarrow> block_map \<Rightarrow> (block_id \<times> basic_block) list \<Rightarrow> block_id \<Rightarrow> block_id list \<Rightarrow> statement list \<Rightarrow> lift_state" where
  "at_block g o2b d c f acc = \<lparr>ls_cfg = g\<lparr>cfg_blocks := d @ (c, new_block c) # map (\<lambda>i. (i, new_block i)) f\<rparr>,
     ls_offsets = o2b, ls_block = c, ls_stmts = acc\<rparr>"

definition past_block :: "cfg \<Rightarrow> block_map \<Rightarrow> (block_id \<times> basic_block) list \<Rightarrow> block_id \<Rightarrow> block_id list \<Rightarrow> lift_state" where
  "past_block g o2b d c f = \<lparr>ls_cfg = g\<lparr>cfg_blocks := d @ map (\<lambda>i. (i, new_block i)) f\<rparr>,
     ls_offsets = o2b, ls_block = c, ls_stmts = []\<rparr>"

text \<open>All ids apart.\<close>

definition apart :: "(block_id \<times> basic_block) list \<Rightarrow> block_id \<Rightarrow> block_id list \<Rightarrow> bool" where
  "apart d c f \<longleftrightarrow> distinct (map fst d @ c # f)"

lemma map_other: "c \<notin> fst ` set xs \<Longrightarrow> map (\<lambda>(k, b). (k, if k = c then h b else b)) xs = xs"
  by (induction xs) auto

lemma map_fresh_other: "c \<notin> set f \<Longrightarrow>
    map (\<lambda>(k, b). (k, if k = c then h b else b)) (map (\<lambda>i. (i, new_block i)) f) = map (\<lambda>i. (i, new_block i)) f"
  by (induction f) auto

lemma update_current:
  assumes "apart d c f"
  shows "update_block c h (g\<lparr>cfg_blocks := d @ (c, blk) # map (\<lambda>i. (i, new_block i)) f\<rparr>) =
    g\<lparr>cfg_blocks := d @ (c, h blk) # map (\<lambda>i. (i, new_block i)) f\<rparr>"
proof -
  have "c \<notin> fst ` set d" "c \<notin> set f" using assms by (auto simp: apart_def)
  then show ?thesis using map_other[of c d h] map_fresh_other[of c f h] by (simp add: update_block_def)
qed

lemma get_current:
  assumes "apart d c f"
  shows "get_block (g\<lparr>cfg_blocks := d @ (c, blk) # rest\<rparr>) c = Some blk"
proof -
  have "map_of d c = None" using assms by (auto simp: apart_def map_of_eq_None_iff)
  then show ?thesis by (simp add: get_block_def map_add_Some_iff)
qed

lemma get_or_create_known:
  "t \<in> fst ` set (ls_offsets st) \<Longrightarrow> get_or_create_block t st = (block_of (ls_offsets st) t, st)"
  by (auto simp: get_or_create_block_def block_of_def split: option.split dest!: map_of_eq_None_iff[THEN iffD1])

lemma resolve_cases_known:
  "snd ` set cs \<subseteq> fst ` set (ls_offsets st) \<Longrightarrow>
    resolve_cases cs st = (map (\<lambda>(e, t). (e, block_of (ls_offsets st) t)) cs, st)"
  by (induction cs st rule: resolve_cases.induct) (simp_all add: get_or_create_known)

lemma close_block_at:
  assumes "apart d c f"
  shows "close_block t (at_block g o2b d c f acc) =
    past_block g o2b (d @ [(c, \<lparr>bb_id = c, bb_statements = acc, bb_terminator = t\<rparr>)]) c f"
  using update_current[OF assms]
  by (simp add: close_block_def at_block_def past_block_def set_block_stmts_def set_terminator_def new_block_def)

text \<open>The three ways an item leaves the loop in.\<close>

lemma apply_straight:
  "block_end o' res = None \<Longrightarrow> apply_flow res (at_block g o2b d c f acc) = at_block g o2b d c f (acc @ flow_stmts res)"
proof (cases res)
  case (FlowStatement s)
  then show ?thesis by (cases s) (simp_all add: push_stmts_def at_block_def)
qed (simp_all add: at_block_def)

lemma apply_closing:
  assumes "apart d c f" "block_end o2b res = Some t" "set (flow_targets res) \<subseteq> fst ` set o2b" "flow_fallthrough res = None"
  shows "apply_flow res (at_block g o2b d c f acc) =
    past_block g o2b (d @ [(c, \<lparr>bb_id = c, bb_statements = acc, bb_terminator = t\<rparr>)]) c f"
proof -
  have "ls_offsets (at_block g o2b d c f acc) = o2b" by (simp add: at_block_def)
  with assms close_block_at[OF assms(1)] show ?thesis
    by (cases res) (auto simp: get_or_create_known resolve_cases_known)
qed

lemma apply_branch:
  assumes "apart d c (c' # f)" "block_end o2b res = Some t" "set (flow_targets res) \<subseteq> fst ` set o2b"
    and "flow_fallthrough res = Some off" "map_of o2b off = Some c'"
  shows "apply_flow res (at_block g o2b d c (c' # f) acc) =
    at_block g o2b (d @ [(c, \<lparr>bb_id = c, bb_statements = acc, bb_terminator = t\<rparr>)]) c' f []"
proof -
  have o: "ls_offsets (at_block g o2b d c (c' # f) acc) = o2b" by (simp add: at_block_def)
  obtain e u where res: "res = FlowBranch e u off" using assms(4) by (cases res) auto
  have "off \<in> fst ` set o2b" using assms(5) by (force dest: map_of_SomeD)
  moreover have "u \<in> fst ` set o2b" using assms(3) by (simp add: res)
  ultimately show ?thesis using assms(2,5) close_block_at[OF assms(1)] o
    by (auto simp: res get_or_create_known block_of_def past_block_def at_block_def)
qed

lemma enter_same: "map_of o2b off \<in> {None, Some c} \<Longrightarrow> enter_block off (at_block g o2b d c f acc) = at_block g o2b d c f acc"
  by (auto simp: enter_block_def at_block_def)

lemma apart_neq: "apart d c (c' # f) \<Longrightarrow> c' \<noteq> c"
  by (auto simp: apart_def)

lemma apart_Cons: "apart d c (c' # f) \<Longrightarrow> apart (d @ [(c, blk)]) c' f"
  by (auto simp: apart_def)

lemma enter_next:
  assumes "apart d c (c' # f)" "map_of o2b off = Some c'"
  shows "enter_block off (at_block g o2b d c (c' # f) acc) =
    at_block g o2b (d @ [(c, \<lparr>bb_id = c, bb_statements = acc, bb_terminator = KJump c'\<rparr>)]) c' f []"
  using update_current[OF assms(1)] assms(2) apart_neq[OF assms(1)]
  by (simp add: enter_block_def at_block_def finalize_block_def Let_def set_terminator_def new_block_def)

lemma enter_after:
  assumes "apart d c (c' # f)" "map_of o2b off = Some c'" "bb_terminator blk \<noteq> KNone"
  shows "enter_block off (past_block g o2b (d @ [(c, blk)]) c (c' # f)) = at_block g o2b (d @ [(c, blk)]) c' f []"
  using update_current[OF assms(1)] assms(2,3) apart_neq[OF assms(1)]
  by (simp add: enter_block_def past_block_def at_block_def finalize_block_def Let_def)

lemma block_end_not_none: "block_end o2b res = Some t \<Longrightarrow> t \<noteq> KNone"
  by (cases res) auto

lemma block_end_ends: "ends_block res \<longleftrightarrow> block_end o2b res \<noteq> None"
  unfolding ends_block_def by (cases res) auto

lemma finish_open:
  assumes "apart d c []"
  shows "cfg_blocks (finish_block (at_block g o2b d c [] acc)) =
    d @ [(c, \<lparr>bb_id = c, bb_statements = acc, bb_terminator = KReturn (Some (const_expr CUndefined))\<rparr>)]"
  using update_current[OF assms] get_current[OF assms]
  by (simp add: finish_block_def Let_def at_block_def set_block_stmts_def set_terminator_def new_block_def)

lemma finish_past:
  assumes "apart d c []" "bb_terminator blk \<noteq> KNone"
  shows "cfg_blocks (finish_block (past_block g o2b (d @ [(c, blk)]) c [])) = d @ [(c, blk)]"
  using get_current[OF assms(1), where g = g and blk = blk and rest = "[]"] assms(2)
  by (simp add: finish_block_def Let_def past_block_def)

section \<open>The loop cuts at the leaders\<close>

abbreviation ended :: "block_id \<Rightarrow> statement list \<Rightarrow> terminator \<Rightarrow> basic_block" where
  "ended c stmts t \<equiv> \<lparr>bb_id = c, bb_statements = stmts, bb_terminator = t\<rparr>"

text \<open>The blocks from one in the middle of its run on.\<close>

fun rest_blocks :: "block_map \<Rightarrow> block_id \<Rightarrow> statement list \<Rightarrow> item list list \<Rightarrow> (block_id \<times> basic_block) list" where
  "rest_blocks o2b c acc [] = []"
| "rest_blocks o2b c acc (r # rs) = run_block o2b c acc r rs # run_blocks o2b rs"

lemma runs_Cons: "\<exists>r rs. runs L (it # items) = (it # r) # rs"
proof (cases items)
  case (Cons it' items')
  then show ?thesis by (cases "runs L (it' # items')") auto
qed simp

lemma place_straight:
  assumes "map_of o2b (item_off it) \<in> {None, Some c}" "\<not> ends_block (item_res it)"
  shows "place it (at_block g o2b d c f acc) = at_block g o2b d c f (acc @ item_stmts it)"
proof -
  have "push_stmts (fst (snd it)) (at_block g o2b d c f acc) = at_block g o2b d c f (acc @ fst (snd it))"
    by (simp add: push_stmts_def at_block_def)
  with apply_straight[of "[]" "item_res it" g o2b d c f "acc @ fst (snd it)"] assms enter_same[of o2b "item_off it" c g d f acc]
  show ?thesis by (simp add: place_def split_beta item_off_def item_res_def item_stmts_def ends_block_def)
qed

lemma place_push:
  "place it (at_block g o2b d c f acc) = apply_flow (item_res it) (at_block g o2b d c f (acc @ item_stmts it))"
  if "map_of o2b (item_off it) \<in> {None, Some c}" "ends_block (item_res it)"
proof -
  have "push_stmts (fst (snd it)) (at_block g o2b d c f acc) = at_block g o2b d c f (acc @ fst (snd it))"
    by (simp add: push_stmts_def at_block_def)
  moreover have "flow_stmts (item_res it) = []" using that(2) by (cases "item_res it") (simp_all add: ends_block_def)
  ultimately show ?thesis using enter_same[OF that(1), of g d f acc]
    by (simp add: place_def split_beta item_off_def item_res_def item_stmts_def)
qed

lemma place_next: "map_of o2b (item_off it) = Some c' \<Longrightarrow> enter_block (item_off it) st = at_block g o2b d c' f [] \<Longrightarrow>
    place it st = place it (at_block g o2b d c' f [])"
  using enter_same[of o2b "item_off it" c' g d f "[]"] by (simp add: place_def split_beta item_off_def)

lemma loop_cuts:
  assumes "map_of o2b (item_off it) \<in> {None, Some c}" "well_split L L (it # items)" "apart d c f"
    and "map Some f = map (map_of o2b) (filter (\<lambda>t. t \<in> L) (map item_off items))"
    and "L = fst ` set o2b"
  shows "cfg_blocks (finish_block (fold place (it # items) (at_block g o2b d c f acc))) =
    d @ rest_blocks o2b c acc (runs L (it # items))"
  using assms(1-4)
proof (induction items arbitrary: it d c f acc)
  case Nil
  show ?case
  proof (cases "block_end o2b (item_res it)")
    case None
    with Nil.prems(1,3,4) show ?thesis
      by (simp add: place_straight block_end_ends[of _ o2b] finish_open run_block_def)
  next
    case (Some t)
    have "place it (at_block g o2b d c f acc) = past_block g o2b (d @ [(c, ended c (acc @ item_stmts it) t)]) c f"
      using Nil.prems(1,2) Some assms(5)
      by (simp add: place_push block_end_ends[of _ o2b] apply_closing[OF Nil.prems(3) Some])
    with Nil.prems(3,4) Some block_end_not_none[OF Some] show ?thesis by (simp add: finish_past run_block_def)
  qed
next
  case (Cons it' items)
  obtain r rs where runs': "runs L (it' # items) = (it' # r) # rs" using runs_Cons by blast
  have split': "well_split L L (it' # items)" using Cons.prems(2) by simp
  let ?acc = "acc @ item_stmts it"
  show ?case
  proof (cases "item_off it' \<in> L")
    case False
    then have "map_of o2b (item_off it') = None" by (simp add: assms(5) map_of_eq_None_iff)
    moreover from False Cons.prems(2) have "\<not> ends_block (item_res it)" by simp
    moreover from this have "block_end o2b (item_res it) = None" by (simp add: block_end_ends[of _ o2b])
    moreover have "map Some f = map (map_of o2b) (filter (\<lambda>t. t \<in> L) (map item_off items))" using Cons.prems(4) False by simp
    ultimately show ?thesis
      using Cons.IH[of it' c d f ?acc] Cons.prems(1,3) split' False runs'
      by (simp add: place_straight run_block_def)
  next
    case True
    then obtain c' f' where c': "map_of o2b (item_off it') = Some c'" and f: "f = c' # f'"
      using Cons.prems(4) by (cases f) (auto dest: sym)
    have rest: "map Some f' = map (map_of o2b) (filter (\<lambda>t. t \<in> L) (map item_off items))" using Cons.prems(4) True f by simp
    have apart: "apart d c (c' # f')" using Cons.prems(3) f by simp
    have next_block: "block_of o2b (item_off it') = c'" by (simp add: block_of_def c')
    have step: "\<exists>t. place it' (place it (at_block g o2b d c f acc)) = place it' (at_block g o2b (d @ [(c, ended c ?acc t)]) c' f' [])
        \<and> t = (case block_end o2b (item_res it) of Some t \<Rightarrow> t | None \<Rightarrow> KJump c')"
    proof (cases "block_end o2b (item_res it)")
      case None
      then have "place it (at_block g o2b d c f acc) = at_block g o2b d c (c' # f') ?acc"
        using Cons.prems(1) f by (simp add: place_straight block_end_ends[of _ o2b])
      with None show ?thesis using place_next[OF c' enter_next[OF apart c']] by simp
    next
      case (Some t)
      have push: "place it (at_block g o2b d c f acc) = apply_flow (item_res it) (at_block g o2b d c (c' # f') ?acc)"
        using Cons.prems(1) Some f by (simp add: place_push block_end_ends[of _ o2b])
      have targets: "set (flow_targets (item_res it)) \<subseteq> fst ` set o2b" using Cons.prems(2) assms(5) by simp
      show ?thesis
      proof (cases "flow_fallthrough (item_res it)")
        case None
        then show ?thesis
          using push apply_closing[OF apart Some targets] Some
            place_next[OF c' enter_after[OF apart c', where blk = "ended c ?acc t"]] block_end_not_none[OF Some] by simp
      next
        case (Some off)
        then have "off = item_off it'" using Cons.prems(2) by simp
        with Some c' \<open>block_end o2b (item_res it) = Some t\<close> show ?thesis
          using push apply_branch[OF apart \<open>block_end o2b (item_res it) = Some t\<close> targets Some] by simp
      qed
    qed
    then obtain t where t: "place it' (place it (at_block g o2b d c f acc)) = place it' (at_block g o2b (d @ [(c, ended c ?acc t)]) c' f' [])"
      and t_eq: "t = (case block_end o2b (item_res it) of Some t \<Rightarrow> t | None \<Rightarrow> KJump c')" by blast
    have "cfg_blocks (finish_block (fold place (it' # items) (at_block g o2b (d @ [(c, ended c ?acc t)]) c' f' []))) =
        (d @ [(c, ended c ?acc t)]) @ rest_blocks o2b c' [] (runs L (it' # items))"
      by (rule Cons.IH) (use c' split' apart_Cons[OF apart] rest in simp_all)
    with t t_eq True runs' next_block show ?thesis by (simp add: run_block_def split: option.split)
  qed
qed

section \<open>The first state\<close>

lemma bt_insert_last: "(\<And>k'. k' \<in> fst ` set xs \<Longrightarrow> k' < k) \<Longrightarrow> bt_insert k v xs = xs @ [(k, v)]"
proof (induction xs)
  case (Cons p xs)
  obtain k' v' where p: "p = (k', v')" by fastforce
  have "k' < k" using Cons.prems[of k'] by (simp add: p)
  with Cons show ?case by (force simp: p)
qed simp

definition block_numbers :: "nat \<Rightarrow> block_id list" where
  "block_numbers n = map of_nat [0..<n]"

lemma block_numbers_less: "n < 2 ^ 32 \<Longrightarrow> b \<in> set (block_numbers n) \<Longrightarrow> b < of_nat n"
  by (auto simp: block_numbers_def word_less_nat_alt unat_of_nat_less)

lemma distinct_block_numbers: "n \<le> 2 ^ 32 \<Longrightarrow> distinct (block_numbers n)"
  by (auto simp: block_numbers_def distinct_map inj_on_def of_nat_inverse word_of_nat_eq_iff take_bit_nat_eq_self)

lemma allocate_next:
  assumes "sorted_wrt (<) (starts @ [off])" "starts \<noteq> []" "hd starts = first" "length starts < 2 ^ 32"
    and "n = length starts"
  shows "allocate_block first off (new_cfg\<lparr>cfg_next_id := of_nat n,
        cfg_blocks := map (\<lambda>i. (i, new_block i)) (block_numbers n)\<rparr>, zip starts (block_numbers n)) =
    (new_cfg\<lparr>cfg_next_id := of_nat (Suc n), cfg_blocks := map (\<lambda>i. (i, new_block i)) (block_numbers (Suc n))\<rparr>,
     zip (starts @ [off]) (block_numbers (Suc n)))"
proof -
  have "first \<in> set starts" using assms(2,3) by auto
  then have "off \<noteq> first" using assms(1) by (auto simp: sorted_wrt_append)
  moreover have "bt_insert (of_nat n) b (map (\<lambda>i. (i, new_block i)) (block_numbers n)) =
      map (\<lambda>i. (i, new_block i)) (block_numbers n) @ [(of_nat n, b)]" for b
    using assms(4,5) block_numbers_less by (intro bt_insert_last) auto
  moreover have "bt_insert off b (zip starts (block_numbers n)) = zip starts (block_numbers n) @ [(off, b)]" for b
    using assms(1) by (intro bt_insert_last) (auto simp: sorted_wrt_append dest: set_zip_leftD)
  moreover have "block_numbers (Suc n) = block_numbers n @ [of_nat n]" "length (block_numbers n) = length starts"
    by (simp_all add: block_numbers_def assms(5))
  ultimately show ?thesis by (simp add: allocate_block_def create_block_eq)
qed

lemma initial_blocks_eq:
  assumes "sorted_wrt (<) starts" "starts \<noteq> []" "hd starts = first" "length starts \<le> 2 ^ 32" and "n = length starts"
  shows "initial_blocks first starts = (new_cfg\<lparr>cfg_next_id := of_nat n,
      cfg_blocks := map (\<lambda>i. (i, new_block i)) (block_numbers n)\<rparr>, zip starts (block_numbers n))"
  using assms
proof (induction starts arbitrary: n rule: rev_induct)
  case (snoc off starts)
  show ?case
  proof (cases "starts = []")
    case True
    with snoc.prems show ?thesis
      by (simp add: initial_blocks_def allocate_block_def block_numbers_def) (simp add: new_cfg_def)
  next
    case False
    with snoc.prems snoc.IH[of "length starts"]
    have "initial_blocks first starts = (new_cfg\<lparr>cfg_next_id := of_nat (length starts),
        cfg_blocks := map (\<lambda>i. (i, new_block i)) (block_numbers (length starts))\<rparr>, zip starts (block_numbers (length starts)))"
      by (simp add: sorted_wrt_append)
    with False snoc.prems allocate_next[of starts off first "length starts"] show ?thesis
      by (simp add: initial_blocks_def)
  qed
qed simp

section \<open>Lowering apart from placing\<close>

fun lower_all :: "build_env \<Rightarrow> instruction list \<Rightarrow> lower_state \<Rightarrow> item list \<times> lower_state" where
  "lower_all env [] s = ([], s)"
| "lower_all env (insn # insns) s =
     (let (it, s) = lower_one env insn s; (items, s) = lower_all env insns s in (it # items, s))"

lemma build_loop_lower: "build_loop env insns (s, st) =
    (snd (lower_all env insns s), fold place (fst (lower_all env insns s)) st)"
  by (induction insns arbitrary: s st) (simp_all add: split_beta)

definition lower_start :: "env_plan option \<Rightarrow> bytecode_file \<Rightarrow> lower_state" where
  "lower_start plan file = \<lparr>lw_file = file, lw_env = new_env_reg_map\<lparr>er_plan := plan\<rparr>,
     lw_created_in_block = [], lw_created_with_env = []\<rparr>"

lemma build_from_instructions_eq: "insns \<noteq> [] \<Longrightarrow> build_from_instructions env plan file insns handlers =
    (finish_block (fold place (fst (lower_all env insns (lower_start plan file))) (start_state env file insns handlers)),
     snd (lower_all env insns (lower_start plan file)))"
  by (simp add: build_from_instructions_def lower_start_def Let_def build_loop_lower)

lemma obj_handlers_eq: "try_obj_handlers name insn file resolve = (r, f) \<Longrightarrow> bf_instructions f = bf_instructions file"
  by (metis obj_handlers_instructions snd_conv)

lemma lower_one_simps:
  "item_off (fst (lower_one env insn s)) = in_offset insn"
  "bf_instructions (lw_file (snd (lower_one env insn s))) = bf_instructions (lw_file s)"
proof -
  have "bf_instructions (fst (snd (dispatch_instruction b insn fmt rs fo fs (f, m)))) = bf_instructions f" for b fmt rs fo fs f m
    by (auto simp: dispatch_instruction_def Let_def dest: obj_handlers_eq split: option.split prod.split)
  then show "item_off (fst (lower_one env insn s)) = in_offset insn"
    "bf_instructions (lw_file (snd (lower_one env insn s))) = bf_instructions (lw_file s)"
    by (simp_all add: lower_one_def split_beta record_created_def Let_def item_off_def split: option.split)
qed

lemma lower_all_offsets: "map item_off (fst (lower_all env insns s)) = map in_offset insns"
  by (induction insns arbitrary: s) (simp_all add: split_beta lower_one_simps)

text \<open>Every result of the lowering comes from the dispatch of its instruction.\<close>

lemma lower_all_results:
  assumes "bf_instructions (lw_file s) = bf_instructions file"
  shows "list_all2 (\<lambda>insn it. agrees insn (be_format env) file (be_func_off env) (Some (item_res it)))
    insns (fst (lower_all env insns s))"
  using assms
proof (induction insns arbitrary: s)
  case (Cons insn insns)
  have "agrees insn (be_format env) (lw_file s) (be_func_off env) (Some (item_res (fst (lower_one env insn s))))"
    using dispatch_targets_analysed by (simp add: agrees_def lower_one_def split_beta item_res_def)
  then have "agrees insn (be_format env) file (be_func_off env) (Some (item_res (fst (lower_one env insn s))))"
    unfolding agrees_def explicit_targets_cong[OF Cons.prems] .
  moreover have "bf_instructions (lw_file (snd (lower_one env insn s))) = bf_instructions file"
    using Cons.prems by (simp add: lower_one_simps)
  ultimately show ?case using Cons.IH[of "snd (lower_one env insn s)"] by (simp add: split_beta)
qed simp

section \<open>The blocks of a body are its runs\<close>

fun body_laid_out :: "instruction list \<Rightarrow> bool" where
  "body_laid_out [] = True"
| "body_laid_out [a] = (in_offset a < next_offset a)"
| "body_laid_out (a # b # insns) = (in_offset a < next_offset a \<and> in_offset b = next_offset a \<and> body_laid_out (b # insns))"

text \<open>What ends a block is followed by a leader, or is last and no branch.\<close>

fun ends_at_leaders :: "u32 set \<Rightarrow> item list \<Rightarrow> bool" where
  "ends_at_leaders L [] = True"
| "ends_at_leaders L [it] = (flow_fallthrough (item_res it) = None)"
| "ends_at_leaders L (it # it' # items) =
     ((ends_block (item_res it) \<longrightarrow> item_off it' \<in> L) \<and> ends_at_leaders L (it' # items))"

lemma laid_out_sorted: "body_laid_out insns \<Longrightarrow> sorted_wrt (<) (map in_offset insns)"
proof (induction insns rule: body_laid_out.induct)
  case (3 a b insns)
  then have "in_offset a < in_offset b" "sorted_wrt (<) (map in_offset (b # insns))" by simp_all
  then show ?case by (auto intro: less_trans)
qed simp_all

lemma splits_well:
  assumes "list_all2 (\<lambda>insn it. agrees insn format file func_off (Some (item_res it))) insns items"
    and "map item_off items = map in_offset insns" "body_laid_out insns" "ends_at_leaders L items"
    and "\<And>insn it t. insn \<in> set insns \<Longrightarrow> it \<in> set items \<Longrightarrow> t \<in> set (flow_targets (item_res it)) \<Longrightarrow>
      t \<in> set (explicit_targets insn format file func_off) \<Longrightarrow> t \<in> L"
  shows "well_split L L items"
  using assms
proof (induction insns items rule: list_all2_induct)
  case (Cons insn insns it items)
  have here: "set (flow_targets (item_res it)) \<subseteq> L"
    using Cons.hyps(1) Cons.prems(4)[of insn it] by (auto simp: agrees_def)
  show ?case
  proof (cases items)
    case Nil
    with Cons.prems(3) here show ?thesis by simp
  next
    case (Cons it' items')
    with \<open>list_all2 _ insns items\<close> obtain insn' insns' where insns: "insns = insn' # insns'" by (auto simp: list_all2_Cons2)
    have "flow_fallthrough (item_res it) \<in> {None, Some (item_off it')}"
      using Cons.hyps(1) \<open>map item_off (it # items) = _\<close> \<open>body_laid_out (insn # insns)\<close>
      by (auto simp: agrees_def insns Cons)
    moreover have "well_split L L items"
    proof (rule Cons.IH)
      fix i j t
      assume "i \<in> set insns" "j \<in> set items" "t \<in> set (flow_targets (item_res j))"
        "t \<in> set (explicit_targets i format file func_off)"
      then show "t \<in> L" by (intro Cons.prems(4)[of i j]) simp_all
    qed (use Cons.prems Cons insns in simp_all)
    ultimately show ?thesis using here Cons.prems(3) Cons by simp
  qed
qed simp

lemma leaders_of_offsets:
  fixes offs starts :: "u32 list"
  assumes "sorted_wrt (<) offs" "sorted_wrt (<) starts" "set starts \<subseteq> set offs"
  shows "filter (\<lambda>t. t \<in> set starts) offs = starts"
proof -
  have "sorted_wrt (<) (filter (\<lambda>t. t \<in> set starts) offs)" using assms(1) by (rule sorted_wrt_filter)
  moreover have "set (filter (\<lambda>t. t \<in> set starts) offs) = set starts" using assms(3) by auto
  ultimately show ?thesis by (rule strict_sorted_equal[OF assms(2)])
qed

lemma map_of_zip_all: "distinct ks \<Longrightarrow> length ks = length vs \<Longrightarrow> map (map_of (zip ks vs)) ks = map Some vs"
  by (simp add: list_eq_iff_nth_eq map_of_zip_nth)

text \<open>C8: The blocks of a lifted function are its runs.  In a body whose instructions follow one
  another, whose jumps land on instructions and whose block-ending instructions are followed by a
  leader, the builder's graph has exactly one block per run of instructions from a leader to the
  next, in order: its statements are those the run's instructions were lowered to, and its terminator
  is the one its last instruction names, a jump to the next run where that instruction goes on, and
  a return of undefined at the end of the function.\<close>

theorem lifted_blocks_are_runs:
  assumes "insns \<noteq> []" and "body_laid_out insns" and "length insns < 2 ^ 32"
    and "starts = find_block_starts_with_handlers insns (be_format env) file handlers (be_func_off env)"
    and "items = fst (lower_all env insns (lower_start plan file))"
    and "\<forall>it\<in>set items. set (flow_targets (item_res it)) \<subseteq> in_offset ` set insns"
    and "ends_at_leaders (set starts) items"
  shows "cfg_blocks (fst (build_from_instructions env plan file insns handlers)) =
    run_blocks (zip starts (block_numbers (length starts))) (runs (set starts) items)"
proof -
  let ?o2b = "zip starts (block_numbers (length starts))"
  have sorted: "sorted_wrt (<) starts" "sorted_wrt (<) (map in_offset insns)"
    using leaders_sorted laid_out_sorted assms(2,4) by simp_all
  have sub: "set starts \<subseteq> in_offset ` set insns" by (auto simp: assms(4) leaders_iff)
  have filtered: "filter (\<lambda>t. t \<in> set starts) (map in_offset insns) = starts"
    using leaders_of_offsets[OF sorted(2,1)] sub by simp
  obtain insn insns' where insns: "insns = insn # insns'" using assms(1) by (cases insns) auto
  have first: "in_offset insn \<in> set starts" using first_is_leader[of insns] by (simp add: insns assms(4))
  have starts: "starts = in_offset insn # filter (\<lambda>t. t \<in> set starts) (map in_offset insns')"
    using filtered first by (simp add: insns)
  have len: "length starts < 2 ^ 32"
    using assms(3) filtered length_filter_le[of "\<lambda>t. t \<in> set starts" "map in_offset insns"] by simp
  have offs: "map item_off items = map in_offset insns" by (simp add: assms(5) lower_all_offsets)
  then obtain it items' where items: "items = it # items'" "item_off it = in_offset insn"
    "map item_off items' = map in_offset insns'" by (auto simp: insns map_eq_Cons_conv)
  have dom: "fst ` set ?o2b = set starts" by (simp add: set_map[symmetric] block_numbers_def del: set_map)
  have split: "well_split (set starts) (set starts) items"
  proof (rule splits_well[OF _ offs assms(2) assms(7)])
    show "list_all2 (\<lambda>insn it. agrees insn (be_format env) file (be_func_off env) (Some (item_res it))) insns items"
      unfolding assms(5) by (rule lower_all_results) (simp add: lower_start_def)
    fix insn it t
    assume "insn \<in> set insns" "it \<in> set items" "t \<in> set (flow_targets (item_res it))"
      and target: "t \<in> set (explicit_targets insn (be_format env) file (be_func_off env))"
    then have "t \<in> in_offset ` set insns" using assms(6) by blast
    moreover from target have "t \<in> set (instruction_leaders insn (be_format env) file (be_func_off env))"
      by (auto simp: instruction_leaders_def explicit_targets_def split: option.splits)
    ultimately show "t \<in> set starts" using \<open>insn \<in> set insns\<close> by (auto simp: assms(4) leaders_iff)
  qed
  have starts_nonempty: "starts \<noteq> []" "hd starts = in_offset insn" by (subst starts, simp)+
  then have "0 < length starts" by simp
  then have numbers: "block_numbers (length starts) = 0 # tl (block_numbers (length starts))"
    by (simp add: block_numbers_def upt_conv_Cons del: upt_Suc)
  have apart: "apart [] 0 (tl (block_numbers (length starts)))"
    using distinct_block_numbers[OF less_imp_le[OF len]] unfolding apart_def numbers[symmetric] by simp
  have maps: "map (map_of ?o2b) starts = map Some (block_numbers (length starts))"
    by (rule map_of_zip_all) (use sorted(1) in \<open>simp_all add: strict_sorted_iff block_numbers_def\<close>)
  have tails: "tl starts = filter (\<lambda>t. t \<in> set starts) (map in_offset insns')"
    using arg_cong[OF starts, of tl] by simp
  have rest: "map Some (tl (block_numbers (length starts))) =
      map (map_of ?o2b) (filter (\<lambda>t. t \<in> set starts) (map item_off items'))"
    unfolding items(3) tails[symmetric] map_tl maps ..
  have zero: "map_of ?o2b (in_offset insn) = Some 0"
    using arg_cong[OF maps, of hd] starts_nonempty numbers by (metis hd_map list.sel(1) list.simps(9))
  let ?g = "ls_cfg (start_state env file insns handlers)"
  have init: "initial_blocks (in_offset insn) starts = (new_cfg\<lparr>cfg_next_id := of_nat (length starts),
      cfg_blocks := map (\<lambda>i. (i, new_block i)) (block_numbers (length starts))\<rparr>, ?o2b)"
    by (rule initial_blocks_eq) (use sorted(1) starts_nonempty len in simp_all)
  have "start_state env file insns handlers = at_block ?g ?o2b [] 0 (tl (block_numbers (length starts))) []"
  proof -
    have b: "cfg_blocks ?g = (0, new_block 0) # map (\<lambda>i. (i, new_block i)) (tl (block_numbers (length starts)))"
      unfolding start_state_def Let_def assms(4)[symmetric] using init
      by (simp add: insns) (metis (no_types, lifting) list.map(2) numbers)
    have s: "start_state env file insns handlers = \<lparr>ls_cfg = ?g, ls_offsets = ?o2b, ls_block = 0, ls_stmts = []\<rparr>"
      unfolding start_state_def Let_def assms(4)[symmetric] using init by (simp add: insns) (simp add: new_cfg_def)
    have u: "?g\<lparr>cfg_blocks := cfg_blocks ?g\<rparr> = ?g" by simp
    show ?thesis unfolding at_block_def append_Nil b[symmetric] u by (rule s)
  qed
  then have "cfg_blocks (fst (build_from_instructions env plan file insns handlers)) =
      cfg_blocks (finish_block (fold place (it # items') (at_block ?g ?o2b [] 0 (tl (block_numbers (length starts))) [])))"
    using build_from_instructions_eq[OF assms(1), of env plan "file" handlers] items(1) unfolding assms(5) by simp
  also have "\<dots> = [] @ rest_blocks ?o2b 0 [] (runs (set starts) (it # items'))"
    by (rule loop_cuts) (use split zero apart rest dom in \<open>simp_all add: items(1,2)\<close>)
  also have "\<dots> = run_blocks ?o2b (runs (set starts) items)"
  proof -
    obtain r rs where "runs (set starts) (it # items') = (it # r) # rs" using runs_Cons by blast
    then show ?thesis by (simp add: items(1,2) block_of_def zero)
  qed
  finally show ?thesis .
qed

end
