(* ===== verification/Lift_Samples.thy ===== *)
theory Lift_Samples
  imports Lift_Blocks
begin

text \<open>
  Two concrete bodies: one that the builder cuts into its runs, and one where it loses a throw.
\<close>

section \<open>A body with a branch\<close>

definition lift_sample_format :: bytecode_format where
  "lift_sample_format = \<lparr>fmt_version = 96, definitions =
     [\<lparr>def_opcode = 0, def_name = ''LoadConstZero'', operand_types = [Reg8], is_jump = False, abstract_definition = None\<rparr>,
      \<lparr>def_opcode = 1, def_name = ''JmpTrue'', operand_types = [Addr8, Reg8], is_jump = True, abstract_definition = None\<rparr>,
      \<lparr>def_opcode = 2, def_name = ''Ret'', operand_types = [Reg8], is_jump = False, abstract_definition = None\<rparr>,
      \<lparr>def_opcode = 3, def_name = ''CallBuiltin'', operand_types = [Reg8, UInt8, UInt8], is_jump = False,
        abstract_definition = None\<rparr>],
     abstract_definitions = [], git_commit_hash = None\<rparr>"

abbreviation reg_op :: "u8 \<Rightarrow> operand" where
  "reg_op r \<equiv> \<lparr>op_ty = Reg8, op_value = U8 r\<rparr>"

definition lift_sample_body :: "instruction list" where
  "lift_sample_body =
     [\<lparr>in_offset = 0, in_opcode = 0, in_operands = [reg_op 0], in_length = 2\<rparr>,
      \<lparr>in_offset = 2, in_opcode = 1, in_operands = [\<lparr>op_ty = Addr8, op_value = I8 5\<rparr>, reg_op 0], in_length = 3\<rparr>,
      \<lparr>in_offset = 5, in_opcode = 2, in_operands = [reg_op 0], in_length = 2\<rparr>,
      \<lparr>in_offset = 7, in_opcode = 0, in_operands = [reg_op 1], in_length = 2\<rparr>,
      \<lparr>in_offset = 9, in_opcode = 2, in_operands = [reg_op 1], in_length = 2\<rparr>]"

definition lift_sample_env :: build_env where
  "lift_sample_env = \<lparr>be_builtins = (\<lambda>_. [''HermesBuiltin.throwTypeError'']), be_format = lift_sample_format,
     be_options = \<lparr>bo_resolve_strings = True, bo_include_offsets = False, bo_absolute_offsets = False\<rparr>,
     be_func_off = 0, be_frame_size = 16\<rparr>"

lemma sample_definitions [simp]:
  "map_option def_name (definition_at lift_sample_format 0) = Some ''LoadConstZero''"
  "definition_at lift_sample_format 0 = Some \<lparr>def_opcode = 0, def_name = ''LoadConstZero'', operand_types = [Reg8],
     is_jump = False, abstract_definition = None\<rparr>"
  "definition_at lift_sample_format 1 = Some \<lparr>def_opcode = 1, def_name = ''JmpTrue'', operand_types = [Addr8, Reg8],
     is_jump = True, abstract_definition = None\<rparr>"
  "definition_at lift_sample_format 2 = Some \<lparr>def_opcode = 2, def_name = ''Ret'', operand_types = [Reg8],
     is_jump = False, abstract_definition = None\<rparr>"
  "definition_at lift_sample_format 3 = Some \<lparr>def_opcode = 3, def_name = ''CallBuiltin'',
     operand_types = [Reg8, UInt8, UInt8], is_jump = False, abstract_definition = None\<rparr>"
  by (simp_all add: definition_at_def lift_sample_format_def)

lemma sample_env [simp]:
  "be_format lift_sample_env = lift_sample_format" "be_func_off lift_sample_env = 0"
  "be_frame_size lift_sample_env = 16" "be_builtins lift_sample_env = (\<lambda>_. [''HermesBuiltin.throwTypeError''])"
  "bo_resolve_strings (be_options lift_sample_env)" "\<not> bo_include_offsets (be_options lift_sample_env)"
  by (simp_all add: lift_sample_env_def)

lemma sample_leaders:
  "find_block_starts_with_handlers lift_sample_body lift_sample_format file [] 0 = [0, 5, 7]"
  by (simp add: find_block_starts_with_handlers_def all_leaders_def instruction_leaders_def explicit_targets_def
      lift_sample_body_def next_offset_def is_conditional_jump_def address_target_def List.map_filter_simps)

lemmas dispatch_unfolds = dispatch_instruction_def try_env_handlers_def try_load_handlers_def load_result_def
  after_copy_def plain_handlers_def try_arith_handlers_def try_prop_handlers_def try_call_handlers_def
  try_obj_handlers_def obj_result_def Let_def

lemma sample_dispatch:
  "in_opcode insn = 0 \<Longrightarrow> in_operands insn = [reg_op r] \<Longrightarrow>
    dispatch_instruction b insn lift_sample_format rs fo fs (file, m) = (FlowStatement (assign_reg (ucast r) (int_const 0)), file, m)"
  "in_opcode insn = 1 \<Longrightarrow> in_operands insn = [\<lparr>op_ty = Addr8, op_value = I8 d\<rparr>, reg_op r] \<Longrightarrow> 0 \<le> sint (in_offset insn + scast d) \<Longrightarrow>
    dispatch_instruction b insn lift_sample_format rs fo fs (file, m) =
      (FlowBranch (EReg (ucast r)) (in_offset insn + scast d) (next_offset insn), file, m)"
  "in_opcode insn = 2 \<Longrightarrow> in_operands insn = [reg_op r] \<Longrightarrow>
    dispatch_instruction b insn lift_sample_format rs fo fs (file, m) = (FlowReturn (Some (EReg (ucast r))), file, m)"
  by (simp_all add: dispatch_unfolds handle_load_const_def load_const_value_def get_reg_def list_get_def)
    (simp_all add: try_flow_handlers_def handle_jmp_cond_def handle_ret_def reg_expr_def get_reg_def list_get_def
      get_jump_target_def address_target_def List.map_filter_simps name_contains.simps comparison_jumps_def Let_def)

lemma sample_lowers: "fst (lower_all lift_sample_env lift_sample_body (lower_start None file)) =
  [(0, [], FlowStatement (assign_reg 0 (int_const 0))), (2, [], FlowBranch (EReg 0) 7 5), (5, [], FlowReturn (Some (EReg 0))),
   (7, [], FlowStatement (assign_reg 1 (int_const 0))), (9, [], FlowReturn (Some (EReg 1)))]"
  by (simp add: lift_sample_body_def lower_one_def lower_start_def sample_dispatch offset_comment_def record_created_def
      created_function_and_env_def next_offset_def split_beta)

theorem lifted_blocks_are_runs_witness:
  "\<forall>file. cfg_blocks (fst (build_from_instructions lift_sample_env None file lift_sample_body [])) =
    [(0, \<lparr>bb_id = 0, bb_statements = [assign_reg 0 (int_const 0)], bb_terminator = KBranch (EReg 0) 2 1\<rparr>),
     (1, \<lparr>bb_id = 1, bb_statements = [], bb_terminator = KReturn (Some (EReg 0))\<rparr>),
     (2, \<lparr>bb_id = 2, bb_statements = [assign_reg 1 (int_const 0)], bb_terminator = KReturn (Some (EReg 1))\<rparr>)]"
proof
  fix f :: bytecode_file
  let ?items = "fst (lower_all lift_sample_env lift_sample_body (lower_start None f))"
  have "cfg_blocks (fst (build_from_instructions lift_sample_env None f lift_sample_body [])) =
      run_blocks (zip [0, 5, 7] (block_numbers (length [0, 5, 7 :: u32]))) (runs (set [0, 5, 7]) ?items)"
  proof (rule lifted_blocks_are_runs)
    show "body_laid_out lift_sample_body" "lift_sample_body \<noteq> []" "length lift_sample_body < 2 ^ 32"
      by (simp_all add: lift_sample_body_def next_offset_def)
    show "\<forall>it\<in>set ?items. set (flow_targets (item_res it)) \<subseteq> in_offset ` set lift_sample_body"
      unfolding sample_lowers by (simp add: item_res_def lift_sample_body_def)
    show "ends_at_leaders (set [0, 5, 7]) ?items"
      unfolding sample_lowers by (simp add: item_res_def item_off_def ends_block_def)
  qed (simp_all add: sample_leaders)
  then show "cfg_blocks (fst (build_from_instructions lift_sample_env None f lift_sample_body [])) =
    [(0, \<lparr>bb_id = 0, bb_statements = [assign_reg 0 (int_const 0)], bb_terminator = KBranch (EReg 0) 2 1\<rparr>),
     (1, \<lparr>bb_id = 1, bb_statements = [], bb_terminator = KReturn (Some (EReg 0))\<rparr>),
     (2, \<lparr>bb_id = 2, bb_statements = [assign_reg 1 (int_const 0)], bb_terminator = KReturn (Some (EReg 1))\<rparr>)]"
    unfolding sample_lowers
    by (simp add: item_res_def item_off_def item_stmts_def run_block_def block_of_def block_numbers_def upt_rec)
qed

section \<open>A throw in the middle of a block\<close>

text \<open>
  \<open>HermesBuiltin.throwTypeError\<close> is lifted to a throw, which closes its block, but the analysis does
  not make the next instruction a leader.  What follows is then collected for the closed block and
  stored over its statements, and its terminator is replaced.
\<close>

definition lift_throw_body :: "instruction list" where
  "lift_throw_body =
     [\<lparr>in_offset = 0, in_opcode = 0, in_operands = [reg_op 0], in_length = 2\<rparr>,
      \<lparr>in_offset = 2, in_opcode = 3, in_operands = [reg_op 1, \<lparr>op_ty = UInt8, op_value = U8 0\<rparr>, \<lparr>op_ty = UInt8, op_value = U8 1\<rparr>],
        in_length = 4\<rparr>,
      \<lparr>in_offset = 6, in_opcode = 2, in_operands = [reg_op 1], in_length = 2\<rparr>]"

lemma arg_register_single: "arg_registers (Suc 0) hi = [EReg (of_nat hi)]"
  by (cases hi) simp_all

lemma throw_dispatch:
  "in_opcode insn = 3 \<Longrightarrow> in_operands insn = [reg_op r, \<lparr>op_ty = UInt8, op_value = U8 0\<rparr>, \<lparr>op_ty = UInt8, op_value = U8 1\<rparr>] \<Longrightarrow>
    dispatch_instruction (\<lambda>_. [''HermesBuiltin.throwTypeError'']) insn lift_sample_format rs fo 16 (file, m) =
      (FlowThrow (ENew (member (EValue VGlobal) (lit ''TypeError'')) []), file, m)"
  by (simp add: dispatch_unfolds get_reg_def list_get_def)
    (simp add: handle_call_builtin_def get_reg_def list_get_def Let_def last_segment_def implicit_args_def
      resolve_implicit_args_from_def this_from_top_def NEW_TARGET_FRAME_SLOT_MIN_VERSION_def THIS_ARG_FROM_TOP_def
      MAX_CALL_ARGS_def builtin_call_def builtin_name_to_expr_def thrown_constructor_def lit_def lift_sample_format_def
      arg_register_single)

lemma thrown_builtin_is_lost:
  "cfg_blocks (fst (build_from_instructions lift_sample_env None file lift_throw_body [])) =
    [(0, \<lparr>bb_id = 0, bb_statements = [], bb_terminator = KReturn (Some (EReg 1))\<rparr>)]"
proof -
  have leaders: "find_block_starts_with_handlers lift_throw_body lift_sample_format file [] 0 = [0]"
    by (simp add: find_block_starts_with_handlers_def all_leaders_def instruction_leaders_def explicit_targets_def
        lift_throw_body_def next_offset_def is_conditional_jump_def address_target_def List.map_filter_simps)
  have lowers: "fst (lower_all lift_sample_env lift_throw_body (lower_start None file)) =
      [(0, [], FlowStatement (assign_reg 0 (int_const 0))),
       (2, [], FlowThrow (ENew (member (EValue VGlobal) (lit ''TypeError'')) [])), (6, [], FlowReturn (Some (EReg 1)))]"
    by (simp add: lift_throw_body_def lower_one_def lower_start_def sample_dispatch throw_dispatch offset_comment_def
        record_created_def created_function_and_env_def split_beta)
  have throw_body: "in_offset (hd lift_throw_body) = 0" "lift_throw_body \<noteq> []" by (simp_all add: lift_throw_body_def)
  have start: "start_state lift_sample_env file lift_throw_body [] =
      \<lparr>ls_cfg = new_cfg\<lparr>cfg_offset_to_block := map_of [(0, 0)]\<rparr>, ls_offsets = [(0, 0)], ls_block = 0, ls_stmts = []\<rparr>"
    by (simp add: start_state_def leaders initial_blocks_def allocate_block_def kept_handlers_def throw_body)
      (simp add: new_cfg_def)
  show ?thesis
    by (subst build_from_instructions_eq) (simp_all add: throw_body lowers start place_def enter_block_def push_stmts_def close_block_def finish_block_def set_block_stmts_def
      update_block_def new_cfg_def new_block_def get_block_def set_terminator_def Let_def)
qed

end
