(* ===== verification/Lift_Facts.thy ===== *)
theory Lift_Facts
  imports Lower_Calls
begin

text \<open>
  What three of the lowering's encodings mean: a type mask against the types it stands for, the
  registers of implicit arguments against the frame, and the level that identifies an environment
  parked in a slot.
\<close>

section \<open>Type masks\<close>

text \<open>A test on \<open>src\<close>, evaluated for a value whose \<open>typeof\<close> is \<open>t\<close>.\<close>

fun typeof_operand :: "expression \<Rightarrow> expression option" where
  "typeof_operand (EUnary op e) = (if op = OpTypeOf then Some e else None)"
| "typeof_operand _ = None"

fun string_const :: "expression \<Rightarrow> rust_string option" where
  "string_const (EValue v) = (case v of VConstant (CString s) \<Rightarrow> Some s | _ \<Rightarrow> None)"
| "string_const _ = None"

fun type_test_holds :: "expression \<Rightarrow> string \<Rightarrow> expression \<Rightarrow> bool" where
  "type_test_holds src t (EBinary op a b) =
     (if op = OpLogicalOr then type_test_holds src t a \<or> type_test_holds src t b
      else typeof_operand a = Some src \<and>
        (case string_const b of
           Some s \<Rightarrow> if op = OpStrictEq then lit t = s else op = OpStrictNeq \<and> lit t \<noteq> s
         | None \<Rightarrow> False))"
| "type_test_holds src t _ = False"

text \<open>The bit of every kind of value, and its \<open>typeof\<close>: an object and \<open>null\<close> have the same.\<close>

definition value_kinds :: "(nat \<times> string) list" where
  "value_kinds = [(0, ''undefined''), (1, ''object''), (8, ''object''), (2, ''string''), (3, ''symbol''),
     (4, ''boolean''), (5, ''number''), (6, ''bigint''), (7, ''function'')]"

lemma and_exp_eq_exp: "k < 32 \<Longrightarrow> (w :: u32) AND 2 ^ k = 2 ^ k \<longleftrightarrow> bit w k"
  by (auto simp: bit_eq_iff[where ?'a = u32] bit_and_iff bit_exp_iff)

lemma and_two_exps:
  "(w :: u32) AND (2 ^ j OR 2 ^ k) = 2 ^ j OR 2 ^ k \<longleftrightarrow> w AND 2 ^ j = 2 ^ j \<and> w AND 2 ^ k = 2 ^ k"
  by (auto simp: bit_eq_iff[where ?'a = u32] bit_and_iff bit_or_iff)

lemma mask_bits:
  fixes w :: u32
  shows "w AND 1 = 1 \<longleftrightarrow> bit w 0" "w AND 4 = 4 \<longleftrightarrow> bit w 2" "w AND 8 = 8 \<longleftrightarrow> bit w 3" "w AND 16 = 16 \<longleftrightarrow> bit w 4"
    "w AND 32 = 32 \<longleftrightarrow> bit w 5" "w AND 64 = 64 \<longleftrightarrow> bit w 6" "w AND 128 = 128 \<longleftrightarrow> bit w 7" "w AND 258 = 258 \<longleftrightarrow> bit w 1 \<and> bit w 8"
  using and_exp_eq_exp[of 0 w] and_exp_eq_exp[of 2 w] and_exp_eq_exp[of 3 w] and_exp_eq_exp[of 4 w] and_exp_eq_exp[of 5 w]
    and_exp_eq_exp[of 6 w] and_exp_eq_exp[of 7 w] and_two_exps[of w 1 8] and_exp_eq_exp[of 1 w] and_exp_eq_exp[of 8 w]
  by simp_all

lemma masks_table: "TYPEOF_IS_MASKS = [(1, ''undefined''), (258, ''object''), (4, ''string''), (8, ''symbol''),
     (16, ''boolean''), (32, ''number''), (64, ''bigint''), (128, ''function'')]"
  by (simp add: TYPEOF_IS_MASKS_def)

lemma any_holds: "type_test_holds src t (fold (\<lambda>t cond. EBinary OpLogicalOr cond (type_test OpStrictEq src (lit t))) ts e)
    \<longleftrightarrow> type_test_holds src t e \<or> lit t \<in> lit ` set ts"
  by (induction ts arbitrary: e) auto

lemma lit_eq: "lit s = lit t \<longleftrightarrow> s = t"
  by (auto simp: lit_def inj_map_eq_map inj_def)

lemma numbered_type: "t \<in> snd ` set value_kinds \<Longrightarrow> lit t \<noteq> numbered ''type'' i"
  by (auto simp: value_kinds_def numbered_def lit_def)

lemma find_mask: "find (\<lambda>(m, _). m = x) xs = Some p \<Longrightarrow> p \<in> set xs \<and> fst p = x"
  by (induction xs) (auto split: if_splits)

text \<open>C35: The condition of a type test means its mask.  For a mask that treats objects and
  \<open>null\<close> alike, and every kind of value, the decoded condition holds of a value of that kind exactly when the
  mask has the kind's bit, whether it is printed as one comparison, as the one excluded type, or as a
  disjunction.\<close>

theorem type_condition_is_mask:
  assumes "bit tmask 1 = bit tmask 8" and "(k, t) \<in> set value_kinds"
  shows "type_test_holds src t (typeof_is_condition src tmask) \<longleftrightarrow> bit tmask k"
proof (cases "find (\<lambda>(m, _). m = tmask) TYPEOF_IS_MASKS")
  case (Some p)
  then have "typeof_is_condition src tmask = type_test OpStrictEq src (lit (snd p))"
    by (simp add: typeof_is_condition_def split_beta)
  moreover have "p \<in> set TYPEOF_IS_MASKS" "fst p = tmask" using find_mask[OF Some] by simp_all
  ultimately show ?thesis using assms(2) by (auto simp: masks_table value_kinds_def lit_eq)
next
  case None
  let ?rest = "fold (\<lambda>(m, _) a. a OR m) TYPEOF_IS_MASKS 0 AND NOT tmask"
  have rest: "?rest = 511 AND NOT tmask" by (simp add: masks_table)
  show ?thesis
  proof (cases "find (\<lambda>(m, _). m = ?rest) TYPEOF_IS_MASKS")
    case (Some p)
    then have cond: "typeof_is_condition src tmask = type_test OpStrictNeq src (lit (snd p))"
      using None by (simp add: typeof_is_condition_def Let_def split_beta)
    have p: "p \<in> set TYPEOF_IS_MASKS" "fst p = ?rest" using find_mask[OF Some] by simp_all
    have "bit tmask j \<longleftrightarrow> \<not> bit ?rest j" if "j < 9" for j
      using that unfolding rest by (auto simp: bit_and_iff bit_not_iff less_Suc_eq numeral_eq_Suc)
    moreover have "k < 9" using assms(2) by (auto simp: value_kinds_def)
    ultimately have "bit tmask k \<longleftrightarrow> \<not> bit (fst p) k" using p(2) by simp
    with cond p(1) assms(2) show ?thesis by (auto simp: value_kinds_def lit_eq masks_table)
  next
    case no: None
    let ?ts = "map snd (filter (\<lambda>(m, _). tmask AND m = m) TYPEOF_IS_MASKS)"
    have "type_test_holds src t (typeof_is_condition src tmask) \<longleftrightarrow> t \<in> set ?ts"
    proof (cases ?ts)
      case Nil
      with None no numbered_type[of t tmask] assms(2) show ?thesis by (force simp: typeof_is_condition_def Let_def)
    next
      case (Cons a ts)
      then show ?thesis using None no by (auto simp: typeof_is_condition_def Let_def any_holds lit_eq image_iff)
    qed
    also have "\<dots> \<longleftrightarrow> bit tmask k" using assms by (auto simp: masks_table mask_bits value_kinds_def)
    finally show ?thesis .
  qed
qed

theorem type_condition_is_mask_witness:
  "type_test_holds (EReg 3) ''object'' (typeof_is_condition (EReg 3) 0x106)
   \<and> \<not> type_test_holds (EReg 3) ''number'' (typeof_is_condition (EReg 3) 0x106)"
  using type_condition_is_mask[of "0x106" 1 "''object''" "EReg 3"] type_condition_is_mask[of "0x106" 5 "''number''" "EReg 3"]
  by (simp add: value_kinds_def)

section \<open>Implicit arguments\<close>

lemma arg_registers_eq: "arg_registers n hi = map (\<lambda>i. EReg (of_nat (hi - i))) [0..<min n (Suc hi)]"
proof (induction n hi rule: arg_registers.induct)
  case (3 n hi)
  have "[0..<Suc m] = 0 # map Suc [0..<m]" for m by (simp add: upt_conv_Cons map_Suc_upt del: upt_Suc)
  then show ?case using 3 by (simp add: min_def comp_def del: upt_Suc)
qed simp_all

lemma implicit_args_registers:
  "implicit_args n frame_size ver =
     (if frame_size < this_from_top ver then []
      else map (\<lambda>i. EReg (of_nat (unat (frame_size - this_from_top ver) - i)))
        [0..<min (min (unat n) MAX_CALL_ARGS) (Suc (unat (frame_size - this_from_top ver)))])
   \<and> set (implicit_args n frame_size ver) \<subseteq> EReg ` {..<frame_size}
   \<and> distinct (implicit_args n frame_size ver)"
proof -
  let ?t = "unat (frame_size - this_from_top ver)"
  have pos: "0 < unat (this_from_top ver)" by (simp add: this_from_top_def THIS_ARG_FROM_TOP_def)
  have small: "unat (of_nat (?t - i) :: u32) = ?t - i" for i
  proof (rule unat_of_nat_less)
    have "?t < 2 ^ LENGTH(32)" by (rule unsigned_less)
    then show "?t - i < 2 ^ LENGTH(32)" by simp
  qed
  show ?thesis
  proof (cases "frame_size < this_from_top ver")
    case False
    then have t: "?t = unat frame_size - unat (this_from_top ver)" "unat (this_from_top ver) \<le> unat frame_size"
      by (simp_all add: unat_sub_if_size word_le_nat_alt not_less word_size)
    have below: "of_nat (?t - i) < frame_size" for i
      using small[of i] t pos by (simp add: word_less_nat_alt)
    have apart: "i = j" if "of_nat (?t - i) = (of_nat (?t - j) :: u32)" "i \<le> ?t" "j \<le> ?t" for i j
      using arg_cong[OF that(1), of unat] that(2,3) unfolding small by simp
    let ?is = "[0..<min (min (unat n) MAX_CALL_ARGS) (Suc ?t)]"
    let ?args = "map (\<lambda>i. EReg (of_nat (?t - i))) ?is"
    have eq: "implicit_args n frame_size ver = ?args"
      using False by (simp only: implicit_args_def resolve_implicit_args_from_def arg_registers_eq if_False)
    have "set ?args \<subseteq> EReg ` {..<frame_size}" unfolding set_map using below by blast
    moreover have "distinct ?args"
    proof -
      have "inj_on (\<lambda>i. EReg (of_nat (?t - i))) (set ?is)"
      proof (rule inj_onI)
        fix i j
        assume "i \<in> set ?is" "j \<in> set ?is" "EReg (of_nat (?t - i)) = EReg (of_nat (?t - j))"
        then have "of_nat (?t - i) = (of_nat (?t - j) :: u32)" "i \<le> ?t" "j \<le> ?t"
          by (simp_all only: set_upt expression.inject ir_value.inject binding.inject atLeastLessThan_iff min_less_iff_conj less_Suc_eq_le)
        then show "i = j" by (rule apart)
      qed
      then show ?thesis unfolding distinct_map by simp
    qed
    ultimately show ?thesis using False unfolding eq by simp
  qed (simp add: implicit_args_def resolve_implicit_args_from_def)
qed

text \<open>C37: The registers of implicit arguments are in the frame.  The arguments of a call are consecutive
  registers going down from the receiver's, which is 7 or, from version 97, 8 below the frame size;
  there are as many as the instruction asks for, unless register 0 or the limit of the code, 65536
  arguments, comes first; a frame too small for the receiver has none.  Each is below the frame size
  and no two are the same.\<close>

theorem implicit_args_in_frame:
  "let top = (if 97 \<le> ver then 8 else 7) in
   implicit_args n frame_size ver =
     (if unat frame_size < top then []
      else map (\<lambda>i. EReg (of_nat (unat frame_size - top - i)))
        [0..<min (min (unat n) 65536) (Suc (unat frame_size - top))])
   \<and> set (implicit_args n frame_size ver) \<subseteq> EReg ` {..<frame_size}
   \<and> distinct (implicit_args n frame_size ver)"
proof -
  have top: "unat (this_from_top ver) = (if 97 \<le> ver then 8 else 7)"
    by (simp add: this_from_top_def THIS_ARG_FROM_TOP_def NEW_TARGET_FRAME_SLOT_MIN_VERSION_def)
  have "unat (frame_size - this_from_top ver) = unat frame_size - unat (this_from_top ver)" if "\<not> frame_size < this_from_top ver"
    using that by (simp add: unat_sub word_le_nat_alt not_less)
  then have "implicit_args n frame_size ver =
     (if unat frame_size < unat (this_from_top ver) then []
      else map (\<lambda>i. EReg (of_nat (unat frame_size - unat (this_from_top ver) - i)))
        [0..<min (min (unat n) 65536) (Suc (unat frame_size - unat (this_from_top ver)))])"
    using implicit_args_registers[of n frame_size ver, THEN conjunct1] by (simp add: MAX_CALL_ARGS_def word_less_nat_alt)
  then show ?thesis
    using implicit_args_registers[of n frame_size ver, THEN conjunct2] unfolding Let_def top[symmetric] by (rule conjI)
qed

section \<open>Environments parked in slots\<close>

text \<open>C38: The two sides of a captured environment agree on its level.  After an environment a function
  created is stored into a slot of an environment that is not itself nested, the level of its register
  is the one any function gives a register it loads from the same slot of a non-nested environment,
  and that level is past those of the parent chain (for slots below 2^31; the encodings have 8 or 16
  bits for a slot).\<close>

theorem captured_environment_level:
  assumes "handle_store_to_environment st m = (Some res, m')" and "dst_reg st 2 = Some v" and "is_created_env m v"
    and "operand_u32 st 1 = Some slot" and "res = FlowStatement (SAssign (TBinding (BClosureVar level slot)) e)"
    and "level < NESTED_ENV_LEVEL_BASE"
    and "handle_load_from_environment ld c = (Some (FlowStatement (assign_reg d (EValue (VBinding (BClosureVar level' slot))))), c')"
    and "level' < NESTED_ENV_LEVEL_BASE"
  shows "env_level_of m' v = env_level_of c' d \<and> (slot < 2 ^ 31 \<longrightarrow> NESTED_ENV_LEVEL_BASE \<le> env_level_of m' v)"
proof -
  obtain er where er: "dst_reg st 0 = Some er" using assms(1) by (auto simp: handle_store_to_environment_def bind_eq_Some_conv split: option.splits)
  obtain l1 m1 where acc: "access_level_of er m = (l1, m1)" by fastforce
  have created: "is_created_env m1 v" using assms(3) acc by (auto simp: access_level_of_def is_created_env_def Let_def split: if_splits)
  from assms(1,2,4) er acc created have "m' = set_source_slot v l1 slot m1" "l1 = level"
    using assms(5) by (auto simp: handle_store_to_environment_def split: option.splits)
  then have store: "env_level_of m' v = slot_identity slot" using assms(6) by (simp add: env_level_of_def set_source_slot_def)
  obtain c1 where "c' = set_source_slot d level' slot c1"
    using assms(7) by (auto simp: handle_load_from_environment_def bind_eq_Some_conv split: option.splits prod.splits)
  then have load: "env_level_of c' d = slot_identity slot" using assms(8) by (simp add: env_level_of_def set_source_slot_def)
  have "NESTED_ENV_LEVEL_BASE \<le> slot_identity slot" if "slot < 2 ^ 31"
  proof -
    have "unat (128 + slot) = 128 + unat slot" using that by (simp add: unat_word_ariths word_less_nat_alt)
    then show ?thesis by (simp add: slot_identity_def NESTED_ENV_LEVEL_BASE_def MAX_LEVEL_def word_le_nat_alt min_def)
  qed
  with store load show ?thesis by simp
qed

theorem captured_environment_level_witness:
  "env_level_of (snd (handle_store_to_environment
       \<lparr>in_offset = 0, in_opcode = 0, in_operands = [\<lparr>op_ty = Reg8, op_value = U8 1\<rparr>, \<lparr>op_ty = UInt8, op_value = U8 3\<rparr>,
          \<lparr>op_ty = Reg8, op_value = U8 20\<rparr>], in_length = 4\<rparr> (snd (claim_created_env 20 new_env_reg_map)))) 20 =
   env_level_of (snd (handle_load_from_environment
       \<lparr>in_offset = 0, in_opcode = 0, in_operands = [\<lparr>op_ty = Reg8, op_value = U8 7\<rparr>, \<lparr>op_ty = Reg8, op_value = U8 1\<rparr>,
          \<lparr>op_ty = UInt8, op_value = U8 3\<rparr>], in_length = 4\<rparr> new_env_reg_map)) 7"
proof -
  let ?st = "\<lparr>in_offset = 0, in_opcode = 0, in_operands = [\<lparr>op_ty = Reg8, op_value = U8 1\<rparr>, \<lparr>op_ty = UInt8, op_value = U8 3\<rparr>,
      \<lparr>op_ty = Reg8, op_value = U8 20\<rparr>], in_length = 4\<rparr> :: instruction"
  let ?ld = "\<lparr>in_offset = 0, in_opcode = 0, in_operands = [\<lparr>op_ty = Reg8, op_value = U8 7\<rparr>, \<lparr>op_ty = Reg8, op_value = U8 1\<rparr>,
      \<lparr>op_ty = UInt8, op_value = U8 3\<rparr>], in_length = 4\<rparr> :: instruction"
  let ?m = "snd (claim_created_env 20 new_env_reg_map)"
  have "handle_store_to_environment ?st ?m =
      (Some (FlowStatement (SAssign (TBinding (BClosureVar 0 3)) (EReg 20))), snd (handle_store_to_environment ?st ?m))"
    by (simp add: handle_store_to_environment_def get_reg_def list_get_def env_ops new_env_reg_map_def Let_def)
  moreover have "handle_load_from_environment ?ld new_env_reg_map =
      (Some (FlowStatement (assign_reg 7 (EValue (VBinding (BClosureVar 0 3))))), snd (handle_load_from_environment ?ld new_env_reg_map))"
    by (simp add: handle_load_from_environment_def get_reg_def list_get_def env_ops new_env_reg_map_def Let_def)
  ultimately show ?thesis
    using captured_environment_level[of ?st ?m _ _ 20 3 0 "EReg 20" ?ld new_env_reg_map 7 0]
    by (simp add: get_reg_def list_get_def is_created_env_def claim_created_env_def Let_def NESTED_ENV_LEVEL_BASE_def)
qed

text \<open>The levels past the parent chain are not unique: the first environment a function creates on top
  of its own and the one parked in slot 1 share a level, and so do all slots from 127 on.\<close>

lemma nested_levels_collide:
  "fst (claim_created_env r new_env_reg_map) = slot_identity 1"
  "slot_identity 127 = slot_identity 200"
  by (simp_all add: claim_created_env_def new_env_reg_map_def slot_identity_def Let_def NESTED_ENV_LEVEL_BASE_def MAX_LEVEL_def)

end
