(* ===== verification/Spec2Isabelle.thy ===== *)
theory Spec2Isabelle
  imports Hbc_Prelude Rust_Strings Byte_Reader Leb128 Opcodes Format Modern_Layout Bit_Fields
    Header Function_Headers Tables Instructions Footer Debug_Info Bigint_Text
    Image_Types Image_Parser Image_Sections Suffix_Array String_Storage String_Layout
    Create Created_Images Commit Relocation Relocated_Image Handlers Body_Patch Operand_Patch Debug_Reloc
    Ir Ir_Walk Cfg Dataflow Liveness Reaching Loops Union_Find Ssa_Reads Ssa Ssa_Correct Js_Text Rust_Text Disasm Hasm Hasm_Lines Hasm_Roundtrip
    Literal_Buffers Env_Levels Lower_Data Lower_Objects Lower_Calls Lower_Flow Dispatch Jump_Analysis Lift Generator_Cfg
    Lift_Closed Lift_Targets Lift_Blocks Lift_Samples Lift_Facts
begin

text \<open>
  A model of the Hermes bytecode library of this repository (\<open>crates/hbc-decomp/src\<close>; all paths
  below are relative to it), with the theorems that make its read, write and analysis layers
  correct.

  \<^bold>\<open>The program.\<close>  A compiled bundle is a byte image: file header, table of function headers,
  string tables and storage, buffers, function bodies with their opcode tables, info areas
  (large headers, exception tables, debug offsets), debug section, SHA-1 footer.  The parser reads
  it into a \<open>BytecodeFile\<close>, the writer creates minimal images, edits images in place and lays the
  string storage out again.  The decompiler lifts a body to a control-flow graph of statements and
  runs data-flow analyses over it before it prints JavaScript.

  \<^bold>\<open>The theories.\<close>  Each follows one part of the code and names its file.
  \<^item> \<open>Hbc_Prelude\<close>: errors (\<open>error.rs\<close>) as a sum type, \<open>usize\<close> arithmetic, little-endian words,
    slices of byte lists.  \<open>Rust_Strings\<close>: UTF-8 and UTF-16 conversions of the standard library.
  \<^item> \<open>Byte_Reader\<close>, \<open>Leb128\<close> (\<open>io.rs\<close>): the reader is its data and a position; every operation
    returns an error or a value with the new reader.
  \<^item> \<open>Opcodes\<close> (\<open>opcode.rs\<close>), \<open>Instructions\<close> (\<open>file/parser/instructions.rs\<close>,
    \<open>write/encode.rs\<close>): the opcode table of a version, decoding and encoding of bodies.
  \<^item> \<open>Format\<close> (\<open>format.rs\<close>), \<open>Modern_Layout\<close> (\<open>modern_layout.rs\<close>), \<open>Bit_Fields\<close>, \<open>Header\<close>
    (\<open>file/parser/header.rs\<close>), \<open>Function_Headers\<close> (\<open>file/parser/function.rs\<close>,
    \<open>write/header_write.rs\<close>), \<open>Tables\<close> (\<open>file/parser/table.rs\<close>): the fixed-width parts of an image.
  \<^item> \<open>Footer\<close> (\<open>write/footer.rs\<close>, \<open>write/serialize.rs\<close>), \<open>Debug_Info\<close> (\<open>debug.rs\<close>),
    \<open>Bigint_Text\<close> (\<open>file/parser/helpers.rs\<close>).
  \<^item> \<open>Image_Types\<close>, \<open>Image_Parser\<close>, \<open>Image_Sections\<close> (\<open>file/structure.rs\<close>,
    \<open>file/parser/parsing.rs\<close>): a whole image; the sections the parser records tile it.
  \<^item> \<open>Suffix_Array\<close>, \<open>String_Storage\<close>, \<open>String_Layout\<close> (\<open>write/patch/string_storage.rs\<close>): the
    layout of the string storage and its contract, that the tables read the strings back.
  \<^item> \<open>Create\<close>, \<open>Created_Images\<close> (\<open>write/create.rs\<close>, \<open>write/serialize.rs\<close>): a created image is one
    the parser reads back to what was asked for.
  \<^item> \<open>Commit\<close> (\<open>write/serialize.rs\<close>), \<open>Relocation\<close>, \<open>Relocated_Image\<close> (\<open>write/reloc.rs\<close>),
    \<open>Handlers\<close>, \<open>Body_Patch\<close> (\<open>write/patch/\<close>): the write layer.  An edit splices a region,
    relocates what follows, rewrites the handler table and is committed; the theorems follow it
    to the parser: a patched image decodes to the new body and, elsewhere, to the old ones.
    \<open>Operand_Patch\<close> (\<open>write/patch/operands.rs\<close>): one string operand rewritten in place; the instruction
    decodes to the new id and no other byte of it changes.  \<open>Debug_Reloc\<close> (\<open>write/patch/debug_reloc.rs\<close>):
    the line table after an insertion; the parser reads the old locations, moved from the insertion on.
  \<^item> \<open>Js_Text\<close> (\<open>util.rs\<close>), \<open>Rust_Text\<close> (operations on \<open>str\<close>), \<open>Disasm\<close> (\<open>disasm.rs\<close>), \<open>Hasm\<close>,
    \<open>Hasm_Lines\<close>, \<open>Hasm_Roundtrip\<close> (\<open>write/hasm/\<close>): literals and identifiers, the disassembler, and
    textual assembly in both directions; what is emitted is parsed and assembled back.
  \<^item> \<open>Ir\<close>, \<open>Ir_Walk\<close> (\<open>ir/types.rs\<close>, \<open>ir/expr\<close>, \<open>ir/stmt\<close>, \<open>ir/visitor.rs\<close>), \<open>Cfg\<close>
    (\<open>ir/cfg/mod.rs\<close>), \<open>Dataflow\<close>, \<open>Liveness\<close>, \<open>Reaching\<close>, \<open>Loops\<close> (\<open>analysis/\<close>): the graph and
    its analyses, each proved to end and compared with a specification by paths.  Dominators and loops
    are exact.  What liveness reports is live; it reports all that is live where statements are plain,
    and elsewhere the code does not count some reads (\<open>member_target_missed\<close>).  What reaching
    definitions reports reaches; it reports all that reaches but a definition its own block overwrites,
    which an exception between the two can carry to a catch (\<open>overwritten_definition_missed\<close>).
  \<^item> \<open>Literal_Buffers\<close> (\<open>file/parser/buffer.rs\<close>): the runs of literals in the array and object buffers.
  \<^item> Lifting (\<open>ir/builder/\<close>): \<open>Env_Levels\<close> (\<open>env_state.rs\<close>) keeps the nesting levels of environments;
    \<open>Lower_Data\<close> (\<open>opcodes_load.rs\<close>, \<open>opcodes_arith.rs\<close>), \<open>Lower_Objects\<close> (\<open>opcodes_prop.rs\<close>,
    \<open>opcodes_obj.rs\<close>), \<open>Lower_Calls\<close> (\<open>opcodes_call.rs\<close>, \<open>opcodes_environment.rs\<close>), \<open>Lower_Flow\<close>
    (\<open>opcodes_flow.rs\<close>, \<open>opcodes_generator.rs\<close>, \<open>opcodes_switch.rs\<close>) hold one definition per opcode handler,
    \<open>Dispatch\<close> (\<open>dispatch.rs\<close>) their order, \<open>Jump_Analysis\<close> (\<open>jump_analysis.rs\<close>) the leaders, \<open>Lift\<close>
    (\<open>ir_builder.rs\<close>) the builder of the graph, \<open>Generator_Cfg\<close> (\<open>generator_cfg.rs\<close>) the yields.  A handler
    returns what the code returns: nothing, a statement, a jump, a branch, a switch; a handler that
    writes the level map or records an index out of range threads the map or the file.
    \<open>Lift_Closed\<close>: the graph is closed for any input.  \<open>Lift_Targets\<close>: handlers and leader analysis agree
    on the targets.  \<open>Lift_Blocks\<close>, \<open>Lift_Samples\<close>: the blocks are the runs between leaders.
    \<open>Lift_Facts\<close>: type tests, implicit arguments, captured environments.
  \<^item> \<open>Union_Find\<close>, \<open>Ssa_Reads\<close>, \<open>Ssa\<close>, \<open>Ssa_Correct\<close> (\<open>transforms/ssa.rs\<close>): live-range splitting;
    the renamed graph has the same executions and every read sees the definition it saw before.

  \<^bold>\<open>Conventions.\<close>  Machine integers keep their width as words; \<open>usize\<close> is \<open>nat\<close> with the 64-bit
  bound written where the code saturates or checks.  A panic or an error is a value.  A \<open>HashMap\<close>
  or \<open>HashSet\<close> is a map or a set; where the code observes an order, the container is an ordered
  list or the order is a parameter.  SHA-1, the JSON opcode tables and their parser, and the
  generated choice of a table are parameters.

  \<^bold>\<open>Interfaces.\<close>  Locales state what one component needs of another and are interpreted on the
  model.  \<open>codec\<close> and \<open>exact_codec\<close> (\<open>Byte_Reader\<close>): a reader that takes back what an encoder put,
  and repeats of it; interpreted for the integers, LEB128 numbers, operands, instructions and table
  entries.  \<open>sweeping\<close> (\<open>Dataflow\<close>): visits that keep an invariant and lower a rank whenever they
  report a change, whence the loop ends in a fixed point; interpreted for every analysis.
  \<open>header_slots\<close> (\<open>Relocation\<close>): what one turn of the relocation loop does to a slot and to the large
  header it names; interpreted for both layouts.  \<open>entry_stream\<close> and its extension
  \<open>located_stream\<close> (\<open>Debug_Reloc\<close>): a stream of entries whose address deltas can be replaced and
  whose decoded locations are known; interpreted for both encodings of the debug section.

  \<^bold>\<open>Bounds and fuel.\<close>  The location stream of the debug section has the code's own guard of
  iterations.  The sweeps of the analyses are \<open>while_option\<close> loops, proved to end.  Other loops are
  total functions with a termination proof.

  \<^bold>\<open>Not modelled.\<close>  Of the lifting, the value tracking of environments (\<open>ir/builder/env_values.rs\<close>, whose
  result, the plan of shifted levels, is an argument of the builder) and \<open>CFGBuilder\<close>, which only tests
  use; the builtin names of a version are a parameter.  The source-level transforms and the code
  generator, the naming and closure heuristics, the cross-version cascade, the reports (inspector,
  secrets, hooks), the command line, terminal and MCP front ends: see the component list of the
  manifest.
\<close>

end
